(* ===== verification/Prelude.thy ===== *)
theory Prelude
  imports Main "HOL-Library.Word"
begin

text \<open>
  Shared vocabulary of the development.

  \<^item> the machine integers of the C sources (\<open>u8\<close>, \<open>u16\<close>, \<open>u32\<close>, \<open>u64\<close>) and byte strings;
  \<^item> the memory faults a C program can run into, as values of \<open>c_error\<close>, and the
    sequencing operator \<open>rbind\<close> of computations that may fault;
  \<^item> loads and stores of little-endian integers, byte swapping (\<open>ntohs\<close>, \<open>ntohl\<close>) and
    their round trips: the sources are modelled on a little-endian host with the usual
    ABI (4-byte \<open>int\<close>, natural alignment);
  \<^item> the part of \<open>printf\<close> and \<open>string.h\<close> that the sources use;
  \<^item> the collections of rewrite rules \<open>byte_simps\<close> and \<open>rbind_simps\<close>.
\<close>

unbundle bit_operations_syntax

named_theorems byte_simps \<open>lengths and round trips of byte-level encodings\<close>
named_theorems rbind_simps \<open>sequencing of computations that may fault\<close>

type_synonym u8 = "8 word"
type_synonym u16 = "16 word"
type_synonym u32 = "32 word"
type_synonym u64 = "64 word"
type_synonym bytes = "8 word list"
type_synonym ptr = nat

section \<open>Faults\<close>

datatype c_error =
    OutOfBounds      \<comment> \<open>a read past the end of a buffer\<close>
  | HeapOverflow     \<comment> \<open>a write past the end of an allocated block\<close>
  | UseAfterFree     \<comment> \<open>an access through a pointer whose object was freed\<close>
  | NullDeref        \<comment> \<open>an access through a null pointer\<close>
  | Uninitialised    \<comment> \<open>use of an object whose initialisation failed\<close>
  | AssertFailed     \<comment> \<open>a failed \<open>assert\<close>\<close>
  | DivByZero        \<comment> \<open>an integer division by zero\<close>
  | SignedOverflow   \<comment> \<open>a signed addition or multiplication whose result the type cannot hold\<close>
  | BadConversion    \<comment> \<open>a floating point value converted to an integer type that cannot hold it\<close>
  | Unaligned        \<comment> \<open>an access that needs a stronger alignment than its address has\<close>
  | MissingArgument  \<comment> \<open>a conversion of a format string that has no argument\<close>
  | Diverges         \<comment> \<open>a loop that spends more than the fuel its model gives it\<close>

type_synonym 'a result = "c_error + 'a"

fun rbind :: "'e + 'a \<Rightarrow> ('a \<Rightarrow> 'e + 'b) \<Rightarrow> 'e + 'b" where
  "rbind (Inl e) f = Inl e"
| "rbind (Inr x) f = f x"

lemma rbind_Inr_iff [rbind_simps]:
  "rbind m f = Inr y \<longleftrightarrow> (\<exists>x. m = Inr x \<and> f x = Inr y)"
  by (cases m) auto

lemma rbind_Inl_iff:
  "rbind m f = Inl e \<longleftrightarrow> m = Inl e \<or> (\<exists>x. m = Inr x \<and> f x = Inl e)"
  by (cases m) auto

lemma rbind_assoc [rbind_simps]: "rbind (rbind m f) g = rbind m (\<lambda>x. rbind (f x) g)"
  by (cases m) auto

lemma rbind_cong [fundef_cong]:
  "m = m' \<Longrightarrow> (\<And>x. m' = Inr x \<Longrightarrow> f x = g x) \<Longrightarrow> rbind m f = rbind m' g"
  by (cases m') auto

definition is_ok :: "'e + 'a \<Rightarrow> bool" where
  "is_ok m = (case m of Inl _ \<Rightarrow> False | Inr _ \<Rightarrow> True)"

lemma is_ok_simps [simp]: "is_ok (Inr x)" "\<not> is_ok (Inl e)"
  by (simp_all add: is_ok_def)

lemma is_ok_iff: "is_ok m \<longleftrightarrow> (\<exists>x. m = Inr x)"
  by (cases m) auto

section \<open>Bytes and words\<close>

definition le16 :: "u8 \<Rightarrow> u8 \<Rightarrow> u16" where
  "le16 b0 b1 = ucast b0 OR push_bit 8 (ucast b1)"

definition le32 :: "u8 \<Rightarrow> u8 \<Rightarrow> u8 \<Rightarrow> u8 \<Rightarrow> u32" where
  "le32 b0 b1 b2 b3 =
     ucast b0 OR push_bit 8 (ucast b1) OR push_bit 16 (ucast b2) OR push_bit 24 (ucast b3)"

definition bytes16 :: "u16 \<Rightarrow> bytes" where
  "bytes16 w = [ucast w, ucast (drop_bit 8 w)]"

definition bytes32 :: "u32 \<Rightarrow> bytes" where
  "bytes32 w = [ucast w, ucast (drop_bit 8 w), ucast (drop_bit 16 w), ucast (drop_bit 24 w)]"

lemma length_bytes16 [simp, byte_simps]: "length (bytes16 w) = 2"
  by (simp add: bytes16_def)

lemma length_bytes32 [simp, byte_simps]: "length (bytes32 w) = 4"
  by (simp add: bytes32_def)

lemma le16_bytes16 [byte_simps]: "le16 (ucast w) (ucast (drop_bit 8 w)) = w"
  unfolding le16_def
  by (rule bit_word_eqI) (auto simp: bit_simps)

lemma le32_bytes32 [byte_simps]:
  "le32 (ucast w) (ucast (drop_bit 8 w)) (ucast (drop_bit 16 w)) (ucast (drop_bit 24 w)) = w"
proof (rule bit_word_eqI)
  fix n assume "n < LENGTH(32)"
  then consider "n < 8" | "8 \<le> n" "n < 16" | "16 \<le> n" "n < 24" | "24 \<le> n" "n < 32"
    by fastforce
  then show "bit (le32 (ucast w) (ucast (drop_bit 8 w)) (ucast (drop_bit 16 w))
      (ucast (drop_bit 24 w))) n = bit w n"
    by cases (auto simp: le32_def bit_simps)
qed

lemma byte_of_le16 [byte_simps]:
  "ucast (le16 b0 b1) = b0" "ucast (drop_bit 8 (le16 b0 b1)) = b1"
  by (rule bit_word_eqI, auto simp: le16_def bit_simps dest: bit_imp_le_length)+

lemma byte_of_le32 [byte_simps]:
  "ucast (le32 b0 b1 b2 b3) = b0"
  "ucast (drop_bit 8 (le32 b0 b1 b2 b3)) = b1"
  "ucast (drop_bit 16 (le32 b0 b1 b2 b3)) = b2"
  "ucast (drop_bit 24 (le32 b0 b1 b2 b3)) = b3"
  by (rule bit_word_eqI, auto simp: le32_def bit_simps dest: bit_imp_le_length)+

lemma bytes32_le32 [byte_simps]: "bytes32 (le32 b0 b1 b2 b3) = [b0, b1, b2, b3]"
  by (simp add: bytes32_def byte_simps)

lemma bytes16_le16 [byte_simps]: "bytes16 (le16 b0 b1) = [b0, b1]"
  by (simp add: bytes16_def byte_simps)

lemma bytes32_inject [simp]: "bytes32 v = bytes32 w \<longleftrightarrow> v = w"
proof
  assume "bytes32 v = bytes32 w"
  then have "(case bytes32 v of [a, b, c, d] \<Rightarrow> le32 a b c d) =
      (case bytes32 w of [a, b, c, d] \<Rightarrow> le32 a b c d)" by simp
  then show "v = w" by (simp add: bytes32_def le32_bytes32)
qed simp

lemma bytes16_inject [simp]: "bytes16 v = bytes16 w \<longleftrightarrow> v = w"
proof
  assume "bytes16 v = bytes16 w"
  then have "(case bytes16 v of [a, b] \<Rightarrow> le16 a b) = (case bytes16 w of [a, b] \<Rightarrow> le16 a b)"
    by simp
  then show "v = w" by (simp add: bytes16_def le16_bytes16)
qed simp

text \<open>Byte swapping: what \<open>ntohs\<close> and \<open>ntohl\<close> do on a little-endian host.\<close>

definition ntohs :: "u16 \<Rightarrow> u16" where
  "ntohs w = le16 (ucast (drop_bit 8 w)) (ucast w)"

definition ntohl :: "u32 \<Rightarrow> u32" where
  "ntohl w = le32 (ucast (drop_bit 24 w)) (ucast (drop_bit 16 w)) (ucast (drop_bit 8 w)) (ucast w)"

lemma ntohs_ntohs [simp]: "ntohs (ntohs w) = w"
  by (simp add: ntohs_def byte_simps)

lemma ntohl_ntohl [simp]: "ntohl (ntohl w) = w"
  by (simp add: ntohl_def byte_simps)

lemma ntohl_inject [simp]: "ntohl v = ntohl w \<longleftrightarrow> v = w"
  by (metis ntohl_ntohl)

text \<open>Conversion of an unsigned to a signed 32-bit integer, as in \<open>(int)n\<close>.\<close>

lemma sint_u32_small:
  fixes w :: u32
  assumes "unat w < 2 ^ 31"
  shows "sint w = int (unat w)"
proof -
  have "int (unat w) < int (2 ^ 31)" using assms by (simp only: of_nat_less_iff)
  then have "uint w < 2 ^ 31" by simp
  moreover have "- (2 ^ 31) \<le> uint w" using uint_ge_0 [of w] by (rule order_trans [rotated]) simp
  ultimately have "signed_take_bit 31 (uint w) = uint w"
    by (simp only: signed_take_bit_int_eq_self_iff)
  then show ?thesis by (simp add: sint_uint)
qed

lemma unat_of_nat_u32: "n < 2 ^ 32 \<Longrightarrow> unat (of_nat n :: u32) = n"
  by (simp add: unat_of_nat take_bit_nat_eq_self)

lemma sint_of_nat_u32: "n < 2 ^ 31 \<Longrightarrow> sint (of_nat n :: u32) = int n"
  by (simp add: sint_u32_small unat_of_nat_u32)

lemma unat_of_int_u32: "unat (word_of_int k :: u32) = nat (k mod 2 ^ 32)"
  by (simp add: unsigned_of_int take_bit_eq_mod)

lemma ucast_of_nat_u16: "n < 2 ^ 16 \<Longrightarrow> (ucast (of_nat n :: u16) :: u32) = of_nat n"
proof -
  assume "n < 2 ^ 16"
  then have "unat (of_nat n :: u16) = n" by (simp add: unat_of_nat take_bit_nat_eq_self)
  then show ?thesis by (metis of_nat_unat)
qed

section \<open>Buffers\<close>

text \<open>
  A C buffer is a list of bytes. A load names the offset of its first byte and faults when
  it runs past the end of the list, where the C program has undefined behaviour.
\<close>

definition load8 :: "bytes \<Rightarrow> nat \<Rightarrow> u8 result" where
  "load8 b i = (if i < length b then Inr (b ! i) else Inl OutOfBounds)"

definition load16 :: "bytes \<Rightarrow> nat \<Rightarrow> u16 result" where
  "load16 b i = (if i + 2 \<le> length b then Inr (le16 (b ! i) (b ! (i + 1))) else Inl OutOfBounds)"

definition load32 :: "bytes \<Rightarrow> nat \<Rightarrow> u32 result" where
  "load32 b i =
     (if i + 4 \<le> length b then Inr (le32 (b ! i) (b ! (i + 1)) (b ! (i + 2)) (b ! (i + 3)))
      else Inl OutOfBounds)"

lemma load8_append: 
  "length xs = i \<Longrightarrow> load8 (xs @ [b] @ ys) i = Inr b"
  by (auto simp: load8_def)

lemma load16_append:
  "length xs = i \<Longrightarrow> load16 (xs @ bytes16 w @ ys) i = Inr w"
  by (auto simp: load16_def bytes16_def nth_append le16_bytes16)

lemma load32_append:
  "length xs = i \<Longrightarrow> load32 (xs @ bytes32 w @ ys) i = Inr w"
  by (auto simp: load32_def bytes32_def nth_append le32_bytes32)

text \<open>Unsigned 32-bit arithmetic on naturals below \<open>2 ^ 32\<close>, and copies between arrays.\<close>

definition uadd :: "nat \<Rightarrow> nat \<Rightarrow> nat" where
  "uadd a b = (a + b) mod 2 ^ 32"

definition usub :: "nat \<Rightarrow> nat \<Rightarrow> nat" where
  "usub a b = (a + 2 ^ 32 - b) mod 2 ^ 32"

definition umul :: "nat \<Rightarrow> nat \<Rightarrow> nat" where
  "umul a b = (a * b) mod 2 ^ 32"

lemma uadd_small: "a + b < 2 ^ 32 \<Longrightarrow> uadd a b = a + b"
  by (simp add: uadd_def)

lemma usub_small: "b \<le> a \<Longrightarrow> a < 2 ^ 32 \<Longrightarrow> usub a b = a - b"
  by (simp add: usub_def mod_if)

lemma umul_small: "a * b < 2 ^ 32 \<Longrightarrow> umul a b = a * b"
  by (simp add: umul_def)

text \<open>What a program holds is a list of resources; giving back what is not held is a fault.\<close>

definition release :: "'r \<Rightarrow> 'r list \<Rightarrow> 'r list result" where
  "release r held = (if r \<in> set held then Inr (remove1 r held) else Inl UseAfterFree)"

lemma release_held [simp]: "release r (r # held) = Inr held"
  by (simp add: release_def)

definition read_range :: "'a list \<Rightarrow> nat \<Rightarrow> nat \<Rightarrow> 'a list result" where
  "read_range buf i n =
     (if i + n \<le> length buf then Inr (take n (drop i buf)) else Inl OutOfBounds)"

definition write_range :: "'a list \<Rightarrow> nat \<Rightarrow> 'a list \<Rightarrow> 'a list result" where
  "write_range buf i xs =
     (if i + length xs \<le> length buf then Inr (take i buf @ xs @ drop (i + length xs) buf)
      else Inl HeapOverflow)"

lemma write_range_append:
  "write_range (xs @ replicate n w) (length xs) ys =
     (if length ys \<le> n then Inr ((xs @ ys) @ replicate (n - length ys) w) else Inl HeapOverflow)"
  by (auto simp: write_range_def)

text \<open>A loop over the given indices.\<close>

fun for_each :: "(nat \<Rightarrow> 's \<Rightarrow> 's result) \<Rightarrow> nat list \<Rightarrow> 's \<Rightarrow> 's result" where
  "for_each body [] s = Inr s"
| "for_each body (i # is) s = rbind (body i s) (for_each body is)"

lemma for_each_Nil: "rbind m (for_each body []) = m"
  by (cases m) simp_all

lemma for_each_upto:
  assumes "\<And>i s. i < n \<Longrightarrow> P i s \<Longrightarrow> \<exists>s'. body i s = Inr s' \<and> P (Suc i) s'" "P 0 s"
  shows "\<exists>s'. for_each body [0..<n] s = Inr s' \<and> P n s'"
proof -
  have app: "for_each body (is @ [j]) s = rbind (for_each body is s) (body j)" for "is" j s
    by (induction "is" arbitrary: s) (auto simp: rbind_assoc for_each_Nil intro!: arg_cong2 [of _ _ _ _ rbind])
  show ?thesis using assms
  proof (induction n)
    case (Suc n)
    then obtain s' where "for_each body [0..<n] s = Inr s'" "P n s'" by fastforce
    then show ?case using Suc.prems(1) [of n s'] by (simp add: app)
  qed simp
qed

fun memcmp :: "bytes \<Rightarrow> bytes \<Rightarrow> int" where
  "memcmp (x # xs) (y # ys) = (if x = y then memcmp xs ys else int (unat x) - int (unat y))"
| "memcmp _ _ = 0"

lemma memcmp_eq_0_iff: "length xs = length ys \<Longrightarrow> memcmp xs ys = 0 \<longleftrightarrow> xs = ys"
  by (induction xs ys rule: memcmp.induct) (auto simp: word_uint_eq_iff)

text \<open>The integer type of a block size or length computed as \<open>size_t\<close> and stored in an \<open>int\<close>.\<close>

definition to_int :: "int \<Rightarrow> int" where
  "to_int k = sint (word_of_int k :: u32)"

lemma to_int_mod: "to_int k = (k + 2 ^ 31) mod 2 ^ 32 - 2 ^ 31"
  by (simp add: to_int_def signed_of_int signed_take_bit_eq_take_bit_shift take_bit_eq_mod)

lemma to_int_small: "0 \<le> k \<Longrightarrow> k < 2 ^ 31 \<Longrightarrow> to_int k = k"
proof -
  assume k: "0 \<le> k" "k < 2 ^ 31"
  have "unat (word_of_int k :: u32) = nat k" using k by (simp add: unat_of_int_u32)
  then show ?thesis using k sint_u32_small [of "word_of_int k"] by (simp add: to_int_def)
qed

section \<open>C strings and formatted output\<close>

text \<open>
  A C string is the list of its characters before the terminating null. \<open>strncpy_buf n s\<close> is the
  string in a zero-filled buffer of \<open>n\<close> bytes after \<open>strncpy(buf, s, n - 1)\<close>: the copy is cut
  after \<open>n - 1\<close> characters and the last byte stays null.
\<close>

definition strncpy_buf :: "nat \<Rightarrow> string \<Rightarrow> string" where
  "strncpy_buf n s = take (n - 1) s"

lemma length_strncpy_buf: "0 < n \<Longrightarrow> length (strncpy_buf n s) < n"
  by (simp add: strncpy_buf_def min_def) linarith

lemma strncpy_buf_fits: "length s < n \<Longrightarrow> strncpy_buf n s = s"
  by (simp add: strncpy_buf_def)

definition chars_of :: "bytes \<Rightarrow> string" where
  "chars_of = map (\<lambda>b. char_of (unat b))"

text \<open>\<open>printf("%s", p)\<close>: the characters before the null byte; without one the read runs past the memory.\<close>

definition fmt_str :: "bytes \<Rightarrow> string result" where
  "fmt_str bs =
     (if 0 \<in> set bs then Inr (chars_of (takeWhile (\<lambda>b. b \<noteq> 0) bs)) else Inl OutOfBounds)"

definition str_bytes :: "string \<Rightarrow> bytes" where
  "str_bytes = map of_char"

text \<open>\<open>strncpy(buf, s, n)\<close> into an array of \<open>n\<close> bytes.\<close>

definition strncpy_bytes :: "nat \<Rightarrow> string \<Rightarrow> bytes" where
  "strncpy_bytes n s = take n (str_bytes s @ replicate n 0)"

lemma unat_of_char: "unat (of_char x :: u8) = of_char x"
  by (simp flip: of_nat_of_char [where 'a = u8 and c = x] add: unat_of_nat)

lemma chars_of_str_bytes: "chars_of (str_bytes s) = s"
  by (induction s) (simp_all add: chars_of_def str_bytes_def unat_of_char)

lemma of_char_zero: "(of_char x :: u8) = 0 \<Longrightarrow> x = CHR 0x00"
  using unat_of_char [of x] char_of_char [where 'a = nat and c = x] by (simp add: char_of_def)

lemma str_bytes_nonzero: "CHR 0x00 \<notin> set s \<Longrightarrow> b \<in> set (str_bytes s) \<Longrightarrow> b \<noteq> 0"
  by (auto simp: str_bytes_def dest!: of_char_zero)

fun dec :: "nat \<Rightarrow> string" where
  "dec n = (if n < 10 then [char_of (48 + n)] else dec (n div 10) @ [char_of (48 + n mod 10)])"

declare dec.simps [simp del]

definition pad0 :: "nat \<Rightarrow> string \<Rightarrow> string" where
  "pad0 w s = replicate (w - length s) (CHR ''0'') @ s"

definition deci :: "int \<Rightarrow> string" where
  "deci i = (if i < 0 then CHR ''-'' # dec (nat (- i)) else dec (nat i))"

definition hex_digit :: "nat \<Rightarrow> char" where
  "hex_digit n = (if n < 10 then char_of (48 + n) else char_of (87 + n))"

definition hex2 :: "u8 \<Rightarrow> string" where
  "hex2 b = [hex_digit (unat b div 16), hex_digit (unat b mod 16)]"

definition decw :: "'a::len word \<Rightarrow> string" where
  "decw w = dec (unat w)"

text \<open>The parts of a time, and a number in the format \<open>%0nd\<close>.\<close>

record clock_tm =
  tm_year :: int
  tm_mon :: int
  tm_mday :: int
  tm_hour :: int
  tm_min :: int
  tm_sec :: int

definition fmt_0d :: "nat \<Rightarrow> int \<Rightarrow> string" where
  "fmt_0d n k = (if k < 0 then CHR ''-'' # pad0 (n - 1) (dec (nat (- k))) else pad0 n (dec (nat k)))"

lemma dec_nonnull: "c \<in> set (dec n) \<Longrightarrow> 0 < (of_char c :: nat)"
proof (induction n rule: dec.induct)
  case (1 n)
  have d: "0 < (of_char (char_of (48 + k mod 10) :: char) :: nat)" for k :: nat
  proof -
    have "48 + k mod 10 < 256" by (simp add: order_le_less_trans [OF _ _])
    then show ?thesis by (simp add: of_char_of)
  qed
  then show ?case using 1 d [of n] by (subst (asm) dec.simps) (auto split: if_splits)
qed

lemma fmt_nonnull: "c \<in> set (fmt_0d n k) \<Longrightarrow> 0 < (of_char c :: nat)" "c \<in> set (deci k) \<Longrightarrow> 0 < (of_char c :: nat)"
  by (auto simp: fmt_0d_def deci_def pad0_def dest: dec_nonnull split: if_splits)

section \<open>Command lines\<close>

definition is_digit :: "char \<Rightarrow> bool" where
  "is_digit c \<longleftrightarrow> 48 \<le> (of_char c :: nat) \<and> (of_char c :: nat) \<le> 57"

fun digits_value :: "nat \<Rightarrow> string \<Rightarrow> nat" where
  "digits_value acc [] = acc"
| "digits_value acc (c # cs) = digits_value (acc * 10 + (of_char c - 48)) cs"

text \<open>\<open>atoi\<close>: white space, an optional sign, digits; the rest of the string is ignored.\<close>

definition is_space :: "char \<Rightarrow> bool" where
  "is_space c \<longleftrightarrow> c = CHR '' '' \<or> 9 \<le> (of_char c :: nat) \<and> (of_char c :: nat) \<le> 13"

definition atoi :: "string \<Rightarrow> int" where
  "atoi s =
     (case dropWhile is_space s of
        [] \<Rightarrow> 0
      | c # cs \<Rightarrow>
          if c = CHR ''-'' then - int (digits_value 0 (takeWhile is_digit cs))
          else if c = CHR ''+'' then int (digits_value 0 (takeWhile is_digit cs))
          else int (digits_value 0 (takeWhile is_digit (c # cs))))"

text \<open>
  The outcome of an option parser: the settings, failure, or the end of the process after the usage
  was printed.
\<close>

datatype 'a parsed = Parsed 'a | ParseFailed | ExitSuccess

end
