(* ===== verification/MurmurHash.thy ===== *)
theory MurmurHash
  imports Prelude
begin

text \<open>
  The hash function of the packet assistant (src/play/c/pfpa/pfpa/pfpa_murmurhash3.c).

  \<open>getblock32\<close>, \<open>rotl32\<close>, \<open>fmix32\<close> and \<open>pfpa_MurmurHash3_x86_32\<close> translate the functions of
  the same names; \<open>mm3_body\<close> and \<open>mm3_tail\<close> are the loop and the fall-through switch of the last
  one. The C loop counts a negative index up to zero over a pointer to the end of the blocks;
  \<open>mm3_body data nblocks k h\<close> is the loop at \<open>i = - k\<close>.

  The lemmas show that the finaliser and every mixing step are injective, so that two keys of
  whole blocks that differ in one block never collide, and that the backwards-indexed loop with
  its tail switch equals a left-to-right definition that consumes the key as a stream.
\<close>

section \<open>The functions of the source\<close>

definition getblock32 :: "bytes \<Rightarrow> nat \<Rightarrow> int \<Rightarrow> u32" where
  "getblock32 data nblocks i =
     (let o4 = nat (int nblocks * 4 + i * 4)
      in le32 (data ! o4) (data ! (o4 + 1)) (data ! (o4 + 2)) (data ! (o4 + 3)))"

definition rotl32 :: "u32 \<Rightarrow> nat \<Rightarrow> u32" where
  "rotl32 x r = push_bit r x OR drop_bit (32 - r) x"

definition fmix32 :: "u32 \<Rightarrow> u32" where
  "fmix32 h =
     (let h = h XOR drop_bit 16 h;
          h = h * 0x85ebca6b;
          h = h XOR drop_bit 13 h;
          h = h * 0xc2b2ae35;
          h = h XOR drop_bit 16 h
      in h)"

definition mm3_c1 :: u32 where "mm3_c1 = 0xcc9e2d51"
definition mm3_c2 :: u32 where "mm3_c2 = 0x1b873593"

definition mm3_k1 :: "u32 \<Rightarrow> u32" where
  "mm3_k1 k1 = rotl32 (k1 * mm3_c1) 15 * mm3_c2"

definition mm3_mix :: "u32 \<Rightarrow> u32 \<Rightarrow> u32" where
  "mm3_mix h1 k1 = rotl32 (h1 XOR mm3_k1 k1) 13 * 5 + 0xe6546b64"

fun mm3_body :: "bytes \<Rightarrow> nat \<Rightarrow> nat \<Rightarrow> u32 \<Rightarrow> u32" where
  "mm3_body data nblocks 0 h1 = h1"
| "mm3_body data nblocks (Suc k) h1 =
     mm3_body data nblocks k (mm3_mix h1 (getblock32 data nblocks (- int (Suc k))))"

definition mm3_tail :: "bytes \<Rightarrow> nat \<Rightarrow> nat \<Rightarrow> u32 \<Rightarrow> u32" where
  "mm3_tail data nblocks len h1 =
     (let t = nblocks * 4;
          k1 = (0 :: u32);
          k1 = (if len mod 4 = 3 then k1 XOR push_bit 16 (ucast (data ! (t + 2))) else k1);
          k1 = (if len mod 4 \<in> {2, 3} then k1 XOR push_bit 8 (ucast (data ! (t + 1))) else k1)
      in if len mod 4 \<in> {1, 2, 3}
         then h1 XOR mm3_k1 (k1 XOR ucast (data ! t))
         else h1)"

definition pfpa_MurmurHash3_x86_32 :: "bytes \<Rightarrow> nat \<Rightarrow> u32 \<Rightarrow> u32" where
  "pfpa_MurmurHash3_x86_32 key len seed =
     (let nblocks = len div 4;
          h1 = mm3_body key nblocks nblocks seed;
          h1 = mm3_tail key nblocks len h1;
          h1 = h1 XOR word_of_nat len
      in fmix32 h1)"

section \<open>Every step is injective\<close>

lemma mult_odd_inj:
  fixes x y c d :: u32
  assumes "d * c = 1" "x * c = y * c"
  shows "x = y"
proof -
  have "x * (c * d) = y * (c * d)" using assms(2) by (simp flip: mult.assoc)
  then show ?thesis using assms(1) by (simp add: mult.commute)
qed

lemma xorshift16_inj: "(x :: u32) XOR drop_bit 16 x = y XOR drop_bit 16 y \<Longrightarrow> x = y"
proof -
  have undo: "(z XOR drop_bit 16 z) XOR drop_bit 16 (z XOR drop_bit 16 z) = z" for z :: u32
    by (rule bit_word_eqI) (auto simp: bit_simps dest: bit_imp_le_length)
  assume "x XOR drop_bit 16 x = y XOR drop_bit 16 y"
  then show ?thesis by (metis undo)
qed

lemma xorshift13_inj: "(x :: u32) XOR drop_bit 13 x = y XOR drop_bit 13 y \<Longrightarrow> x = y"
proof -
  have undo: "(z XOR drop_bit 13 z) XOR drop_bit 13 (z XOR drop_bit 13 z)
      XOR drop_bit 26 (z XOR drop_bit 13 z) = z" for z :: u32
    by (rule bit_word_eqI) (auto simp: bit_simps dest: bit_imp_le_length)
  assume "x XOR drop_bit 13 x = y XOR drop_bit 13 y"
  then show ?thesis by (metis undo)
qed

lemma fmix32_inj: "fmix32 x = fmix32 y \<Longrightarrow> x = y"
  unfolding fmix32_def Let_def
  apply (drule xorshift16_inj)
  apply (drule mult_odd_inj [rotated, where d = "0x7ed1b41d"], simp)
  apply (drule xorshift13_inj)
  apply (drule mult_odd_inj [rotated, where d = "0xa5cb9243"], simp)
  apply (drule xorshift16_inj)
  apply assumption
  done

lemma rotl32_inj:
  assumes "r \<le> 32" "rotl32 x r = rotl32 y r"
  shows "x = y"
proof (rule bit_word_eqI)
  fix n assume n: "n < LENGTH(32)"
  have hi: "bit (rotl32 z r) (n + r) = bit z n" if "n + r < 32" for z
    using that assms(1) by (auto simp: rotl32_def bit_simps dest: bit_imp_le_length)
  have lo: "bit (rotl32 z r) (n + r - 32) = bit z n" if "32 \<le> n + r" for z
    using that assms(1) n by (auto simp: rotl32_def bit_simps dest: bit_imp_le_length)
  show "bit x n = bit y n"
  proof (cases "n + r < 32")
    case True
    with hi assms(2) show ?thesis by metis
  next
    case False
    with lo assms(2) show ?thesis by (metis not_less)
  qed
qed

lemma mm3_k1_inj: "mm3_k1 x = mm3_k1 y \<Longrightarrow> x = y"
  unfolding mm3_k1_def mm3_c1_def mm3_c2_def
  apply (drule mult_odd_inj [rotated, where d = "0x56ed309b"], simp)
  apply (drule rotl32_inj [rotated], simp)
  apply (erule mult_odd_inj [rotated, where d = "0xdee13bb1"], simp)
  done

lemma xor_cancel_left: "(a :: u32) XOR b = a XOR c \<longleftrightarrow> b = c"
  by (metis bit.xor_left_self)

lemma xor_cancel_right: "(b :: u32) XOR a = c XOR a \<longleftrightarrow> b = c"
  by (simp add: xor.commute [of _ a] xor_cancel_left)

lemma mm3_mix_rotl_inj: "rotl32 x 13 * 5 + c = rotl32 y 13 * 5 + c \<Longrightarrow> x = y"
  apply simp
  apply (drule mult_odd_inj [rotated, where d = "0xcccccccd"], simp)
  apply (erule rotl32_inj [rotated], simp)
  done

lemma mm3_mix_inj_key: "mm3_mix h k = mm3_mix h k' \<Longrightarrow> k = k'"
  unfolding mm3_mix_def
  by (drule mm3_mix_rotl_inj) (simp add: xor_cancel_left mm3_k1_inj)

lemma mm3_mix_inj_state: "mm3_mix h k = mm3_mix h' k \<Longrightarrow> h = h'"
  unfolding mm3_mix_def
  by (drule mm3_mix_rotl_inj) (simp add: xor_cancel_right)

section \<open>The streaming definition\<close>

text \<open>A left-to-right reading of the same hash: whole blocks first, then up to three bytes.\<close>

fun mm3_stream :: "u32 \<Rightarrow> bytes \<Rightarrow> u32" where
  "mm3_stream h (a # b # c # d # rest) = mm3_stream (mm3_mix h (le32 a b c d)) rest"
| "mm3_stream h [a, b, c] = h XOR mm3_k1 (le32 a b c 0)"
| "mm3_stream h [a, b] = h XOR mm3_k1 (le32 a b 0 0)"
| "mm3_stream h [a] = h XOR mm3_k1 (le32 a 0 0 0)"
| "mm3_stream h [] = h"

lemma xor_parts:
  "push_bit 16 (ucast (c :: u8)) XOR push_bit 8 (ucast (b :: u8)) XOR ucast a = le32 a b c 0"
  "push_bit 8 (ucast (b :: u8)) XOR ucast a = le32 a b 0 0"
  "ucast a = le32 a 0 0 0"
  unfolding le32_def
  by (rule bit_word_eqI; auto simp: bit_simps dest: bit_imp_le_length)+

lemma drop_nth_Cons4:
  assumes "i + 4 \<le> length xs"
  shows "drop i xs = xs ! i # xs ! (i + 1) # xs ! (i + 2) # xs ! (i + 3) # drop (i + 4) xs"
  using assms by (simp add: Cons_nth_drop_Suc numeral_eq_Suc)

lemma mm3_tail_stream:
  assumes "length data = len" "nb = len div 4"
  shows "mm3_tail data nb len h = mm3_stream h (drop (4 * nb) data)"
proof -
  define t where "t = drop (4 * nb) data"
  have lt: "length t = len mod 4"
    using assms by (simp add: t_def minus_mult_div_eq_mod)
  have nth: "i < length t \<Longrightarrow> data ! (nb * 4 + i) = t ! i" for i
    using lt assms by (simp add: t_def mult.commute)
  have "len mod 4 < 4" by simp
  then consider "len mod 4 = 0" | "len mod 4 = 1" | "len mod 4 = 2" | "len mod 4 = 3"
    by linarith
  then show ?thesis
  proof cases
    case 1
    with lt show ?thesis by (simp add: mm3_tail_def flip: t_def)
  next
    case 2
    with lt obtain a where "t = [a]" by (auto simp: length_Suc_conv)
    with 2 nth [of 0] show ?thesis by (simp add: mm3_tail_def xor_parts(3) flip: t_def)
  next
    case 3
    with lt obtain a b where t: "t = [a, b]" by (auto simp: length_Suc_conv numeral_2_eq_2)
    with 3 nth [of 0] nth [of 1] show ?thesis
      by (simp add: mm3_tail_def xor_parts(2) flip: t_def)
  next
    case 4
    with lt obtain a b c where t: "t = [a, b, c]"
      by (auto simp: length_Suc_conv numeral_3_eq_3)
    with 4 nth [of 0] nth [of 1] nth [of 2] show ?thesis
      by (simp add: mm3_tail_def xor.assoc flip: xor_parts(1) t_def)
  qed
qed

lemma mm3_body_stream:
  assumes "length data = len" "nb = len div 4" "k \<le> nb"
  shows "mm3_tail data nb len (mm3_body data nb k h) = mm3_stream h (drop (4 * (nb - k)) data)"
  using assms(3)
proof (induction k arbitrary: h)
  case 0
  with assms show ?case by (simp add: mm3_tail_stream)
next
  case (Suc k)
  let ?o = "4 * (nb - Suc k)"
  have o: "nat (int nb * 4 + - int (Suc k) * 4) = ?o" using Suc.prems by simp
  have block: "getblock32 data nb (- int (Suc k)) =
      le32 (data ! ?o) (data ! (?o + 1)) (data ! (?o + 2)) (data ! (?o + 3))"
    by (simp only: getblock32_def o Let_def)
  have bound: "?o + 4 \<le> length data" using Suc.prems assms by simp
  have next_o: "?o + 4 = 4 * (nb - k)" using Suc.prems by simp
  have "drop ?o data = data ! ?o # data ! (?o + 1) # data ! (?o + 2) # data ! (?o + 3) #
      drop (4 * (nb - k)) data"
    using drop_nth_Cons4 [OF bound] by (simp only: next_o)
  then show ?case
    using Suc block by simp
qed

lemma murmur_stream:
  "length key = len \<Longrightarrow>
   pfpa_MurmurHash3_x86_32 key len seed = fmix32 (mm3_stream seed key XOR word_of_nat len)"
  using mm3_body_stream [of key len "len div 4" "len div 4" seed]
  by (simp add: pfpa_MurmurHash3_x86_32_def Let_def)

text \<open>
  C40. The backwards-indexed loop, the fall-through tail switch and the finaliser compute the hash
  of the key read from left to right, for keys of any length: the routine equals its streaming
  definition.
\<close>

theorem murmur_eq_stream:
  "pfpa_MurmurHash3_x86_32 key (length key) seed =
     fmix32 (mm3_stream seed key XOR word_of_nat (length key))"
  by (rule murmur_stream) simp

lemma mm3_stream_append_blocks:
  "length xs mod 4 = 0 \<Longrightarrow> mm3_stream h (xs @ ys) = mm3_stream (mm3_stream h xs) ys"
  by (induction h xs rule: mm3_stream.induct) (auto simp: mod_simps)

lemma mm3_stream_inj_state:
  "mm3_stream h xs = mm3_stream h' xs \<Longrightarrow> h = h'"
proof (induction h xs arbitrary: h' rule: mm3_stream.induct)
  case (1 h a b c d rest)
  then show ?case using mm3_mix_inj_state by (metis mm3_stream.simps(1))
qed (simp_all add: xor_cancel_right)

lemma mm3_stream_block_inj:
  assumes "length pre mod 4 = 0"
    and "mm3_stream h (pre @ bytes32 v @ post) = mm3_stream h (pre @ bytes32 w @ post)"
  shows "v = w"
proof -
  have "mm3_stream (mm3_mix (mm3_stream h pre) v) post =
      mm3_stream (mm3_mix (mm3_stream h pre) w) post"
    using assms by (simp add: mm3_stream_append_blocks bytes32_def le32_bytes32)
  then have "mm3_mix (mm3_stream h pre) v = mm3_mix (mm3_stream h pre) w"
    by (rule mm3_stream_inj_state)
  then show ?thesis by (rule mm3_mix_inj_key)
qed

lemma murmur_block_inj:
  assumes "length pre mod 4 = 0" "length pre + length post + 4 = n"
    and "pfpa_MurmurHash3_x86_32 (pre @ bytes32 v @ post) n seed =
         pfpa_MurmurHash3_x86_32 (pre @ bytes32 w @ post) n seed"
  shows "v = w"
proof -
  have len: "length (pre @ bytes32 v @ post) = n" "length (pre @ bytes32 w @ post) = n"
    using assms(2) by simp_all
  then have "mm3_stream seed (pre @ bytes32 v @ post) = mm3_stream seed (pre @ bytes32 w @ post)"
    using assms(3) murmur_stream [OF len(1)] murmur_stream [OF len(2)]
    by (metis fmix32_inj xor_cancel_right)
  then show ?thesis using assms(1) by (rule mm3_stream_block_inj [rotated])
qed

end
