(* ===== verification/Pfpa_Context.thy ===== *)
theory Pfpa_Context
  imports MurmurHash
begin

text \<open>
  The data of the packet file parsing assistant (src/play/c/pfpa/pfpa/pfpa_struct.h) and its
  context operations (src/play/c/pfpa/pfpa/pfpa_context.c).

  Structures keep the source's fields. \<open>pfpa_addr\<close> has one more, \<open>a_pad\<close>: the two bytes the ABI
  appends to a \<open>uint32_t\<close> followed by a \<open>uint16_t\<close>, which \<open>memcmp\<close> and the hash read because both
  are called with \<open>sizeof\<close>. TCP sessions live in the C heap and the dictionary holds pointers to
  them, so the context carries the heap as \<open>c_heap\<close> and an access to a freed session is a fault.

  The hash table, the byte buffer, \<open>malloc\<close>, \<open>localtime\<close> and the byte swap macro of the muggle
  library are not part of the repository: they are the fields of \<open>pfpa_env\<close>, with the behaviour the code relies on in \<open>hash_table_law\<close> and
  \<open>malloc_law\<close>. \<open>e_stack_pad\<close> gives the indeterminate content of the padding of each local
  \<open>pfpa_addr_t\<close> that the code fills field by field: 0 is the tuple of the filter check, 1 and 2 are
  the two halves of the remote key of the TCP handler.

  The lemmas show that the comparison callbacks decide equality of the padded structures, and that
  adding and removing a session keep the dictionary and the heap in step (\<open>ctx_wf\<close>).
\<close>

section \<open>Interfaces of the libraries\<close>

record ('t, 'k, 'v) hash_table =
  ht_init :: "nat \<Rightarrow> ('k \<Rightarrow> u64) \<Rightarrow> ('k \<Rightarrow> 'k \<Rightarrow> int) \<Rightarrow> 't option"
  ht_find :: "'t \<Rightarrow> 'k \<Rightarrow> 'v option"
  ht_put :: "'t \<Rightarrow> 'k \<Rightarrow> 'v \<Rightarrow> 't"
  ht_remove :: "'t \<Rightarrow> 'k \<Rightarrow> 't"
  ht_values :: "'t \<Rightarrow> 'v list"

text \<open>
  What a hash table promises: a new table is empty, putting an absent key makes it present and
  touches no other key, putting a present key keeps it present, removing a key removes that key
  only, and destruction visits the value of each key once.
\<close>

definition hash_table_law :: "('t, 'k, 'v) hash_table \<Rightarrow> bool" where
  "hash_table_law H \<longleftrightarrow>
     (\<forall>n h c t k. ht_init H n h c = Some t \<longrightarrow> ht_find H t k = None) \<and>
     (\<forall>t k v k'. ht_find H t k = None \<longrightarrow>
        ht_find H (ht_put H t k v) k' = (if k' = k then Some v else ht_find H t k')) \<and>
     (\<forall>t k v k'. (ht_find H (ht_put H t k v) k' \<noteq> None) = (k' = k \<or> ht_find H t k' \<noteq> None)) \<and>
     (\<forall>t k k'. ht_find H (ht_remove H t k) k' = (if k' = k then None else ht_find H t k')) \<and>
     (\<forall>t. \<exists>ks. distinct ks \<and> set ks = {k. ht_find H t k \<noteq> None} \<and>
        ht_values H t = map (\<lambda>k. the (ht_find H t k)) ks)"

record 'b bytes_buffer =
  bb_init :: "int \<Rightarrow> 'b"
  bb_writable :: "'b \<Rightarrow> int"
  bb_write :: "'b \<Rightarrow> int \<Rightarrow> bytes \<Rightarrow> 'b"
  bb_readable :: "'b \<Rightarrow> int"
  bb_contiguous_readable :: "'b \<Rightarrow> int"
  bb_fetch :: "'b \<Rightarrow> int \<Rightarrow> bytes"
  bb_reader_fc :: "'b \<Rightarrow> int \<Rightarrow> bytes option"
  bb_read :: "'b \<Rightarrow> int \<Rightarrow> bytes \<times> 'b"
  bb_reader_move :: "'b \<Rightarrow> int \<Rightarrow> 'b"

section \<open>Structures\<close>

record pfpa_addr =
  a_addr :: u32
  a_port :: u16
  a_pad :: u16

record pfpa_conn_key =
  k_src :: pfpa_addr
  k_dst :: pfpa_addr

datatype pfpa_tcp_status =
    PFPA_TCP_STATUS_NULL
  | PFPA_TCP_STATUS_SYN_SENT
  | PFPA_TCP_STATUS_SYN_ACK
  | PFPA_TCP_STATUS_ESTABLISHED
  | PFPA_TCP_STATUS_FIN_SENT
  | PFPA_TCP_STATUS_FIN_ACK

record 'b pfpa_tcp_session =
  s_key :: pfpa_conn_key
  s_status :: pfpa_tcp_status
  s_seq :: u32
  s_bytes_buf :: 'b

record tm =
  tm_hour :: int
  tm_min :: int
  tm_sec :: int

text \<open>
  The packet context. \<open>p_data\<close> holds the bytes from the data pointer to the end of the captured
  packet; \<open>p_datalen\<close> is what the code computed as the length of the payload.
\<close>

record pfpa_packet_context =
  p_t :: tm
  p_ns :: u32
  p_src_addr :: u32
  p_dst_addr :: u32
  p_src_port :: u16
  p_dst_port :: u16
  p_src_ip :: string
  p_dst_ip :: string
  p_data :: bytes
  p_datalen :: u32

datatype pfpa_log =
    LogFilterAddr pfpa_addr
  | LogPacketNum u32
  | LogIgnoreIpv6
  | LogEtherType u16
  | LogProtocol u8
  | LogTcpConnection u32 pfpa_conn_key
  | LogUnexpectedSeq u32 u32 u32 pfpa_conn_key
  | LogTcpDisconnect u32 pfpa_conn_key
  | LogAppWarning u32 string

text \<open>
  The context. \<open>c_fp\<close> is the sequence of the strings written to the output file and \<open>c_log\<close> the
  sequence of the messages given to the logger. The two callbacks are arguments of the handlers
  (\<open>pfpa_callbacks\<close>), since they take a context themselves.
\<close>

record ('f, 's, 'b) pfpa_context =
  c_fp :: "string list"
  c_log :: "pfpa_log list"
  c_total_pack :: u32
  c_enable_fileter :: bool
  c_filter_dict :: 'f
  c_tcp_session_dict :: 's
  c_user_data :: "pfpa_addr option"
  c_heap :: "ptr \<rightharpoonup> 'b pfpa_tcp_session"

record ('f, 's, 'b) pfpa_env =
  e_filter :: "('f, pfpa_addr, pfpa_addr) hash_table"
  e_sess :: "('s, pfpa_conn_key, ptr) hash_table"
  e_bb :: "'b bytes_buffer"
  e_malloc :: "(ptr \<rightharpoonup> 'b pfpa_tcp_session) \<Rightarrow> ptr option"
  e_localtime :: "u32 \<Rightarrow> tm"
  e_stack_pad :: "nat \<Rightarrow> u16"
  e_swap32 :: "u32 \<Rightarrow> u32"

definition malloc_law :: "('f, 's, 'b) pfpa_env \<Rightarrow> bool" where
  "malloc_law E \<longleftrightarrow> (\<forall>h p. e_malloc E h = Some p \<longrightarrow> h p = None)"

section \<open>Hash and comparison callbacks\<close>

definition addr_bytes :: "pfpa_addr \<Rightarrow> bytes" where
  "addr_bytes a = bytes32 (a_addr a) @ bytes16 (a_port a) @ bytes16 (a_pad a)"

definition key_bytes :: "pfpa_conn_key \<Rightarrow> bytes" where
  "key_bytes k = addr_bytes (k_src k) @ addr_bytes (k_dst k)"

definition pfpa_filter_hash :: "pfpa_addr \<Rightarrow> u64" where
  "pfpa_filter_hash p = ucast (pfpa_MurmurHash3_x86_32 (addr_bytes p) 8 0xB0F57EE3)"

definition pfpa_filter_cmp :: "pfpa_addr \<Rightarrow> pfpa_addr \<Rightarrow> int" where
  "pfpa_filter_cmp d1 d2 = memcmp (addr_bytes d1) (addr_bytes d2)"

definition pfpa_tcp_session_hash :: "pfpa_conn_key \<Rightarrow> u64" where
  "pfpa_tcp_session_hash p = ucast (pfpa_MurmurHash3_x86_32 (key_bytes p) 16 0xB0F57EE3)"

definition pfpa_tcp_session_cmp :: "pfpa_conn_key \<Rightarrow> pfpa_conn_key \<Rightarrow> int" where
  "pfpa_tcp_session_cmp d1 d2 = memcmp (key_bytes d1) (key_bytes d2)"

definition pfpa_hashtable_free_tcp_session ::
  "(ptr \<rightharpoonup> 'b pfpa_tcp_session) \<Rightarrow> ptr \<Rightarrow> (ptr \<rightharpoonup> 'b pfpa_tcp_session) result" where
  "pfpa_hashtable_free_tcp_session h p =
     (case h p of None \<Rightarrow> Inl UseAfterFree | Some _ \<Rightarrow> Inr (h(p := None)))"

section \<open>Context operations\<close>

definition pfpa_ctx_init ::
  "('f, 's, 'b) pfpa_env \<Rightarrow> ('f, 's, 'b) pfpa_context option" where
  "pfpa_ctx_init E =
     (case ht_init (e_filter E) 10007 pfpa_filter_hash pfpa_filter_cmp of
        None \<Rightarrow> None
      | Some f \<Rightarrow>
          (case ht_init (e_sess E) 10007 pfpa_tcp_session_hash pfpa_tcp_session_cmp of
             None \<Rightarrow> None
           | Some s \<Rightarrow> Some \<lparr>c_fp = [], c_log = [], c_total_pack = 0, c_enable_fileter = False,
                 c_filter_dict = f, c_tcp_session_dict = s, c_user_data = None,
                 c_heap = Map.empty\<rparr>))"

fun free_sessions ::
  "ptr list \<Rightarrow> (ptr \<rightharpoonup> 'b pfpa_tcp_session) \<Rightarrow> (ptr \<rightharpoonup> 'b pfpa_tcp_session) result" where
  "free_sessions [] h = Inr h"
| "free_sessions (p # ps) h = rbind (pfpa_hashtable_free_tcp_session h p) (free_sessions ps)"

definition pfpa_ctx_destroy ::
  "('f, 's, 'b) pfpa_env \<Rightarrow> ('f, 's, 'b) pfpa_context \<Rightarrow> ('f, 's, 'b) pfpa_context result" where
  "pfpa_ctx_destroy E ctx =
     rbind (free_sessions (ht_values (e_sess E) (c_tcp_session_dict ctx)) (c_heap ctx))
       (\<lambda>h. Inr (ctx\<lparr>c_heap := h\<rparr>))"

definition pfpa_ctx_add_filter ::
  "('f, 's, 'b) pfpa_env \<Rightarrow> ('f, 's, 'b) pfpa_context \<Rightarrow> pfpa_addr \<Rightarrow> ('f, 's, 'b) pfpa_context" where
  "pfpa_ctx_add_filter E ctx addr =
     ctx\<lparr>c_log := c_log ctx @ [LogFilterAddr addr],
         c_filter_dict := ht_put (e_filter E) (c_filter_dict ctx) addr addr\<rparr>"

definition pfpa_ctx_check_filter ::
  "('f, 's, 'b) pfpa_env \<Rightarrow> ('f, 's, 'b) pfpa_context \<Rightarrow> pfpa_packet_context \<Rightarrow> bool" where
  "pfpa_ctx_check_filter E ctx packet_ctx =
     (if \<not> c_enable_fileter ctx then True
      else
        let found = (\<lambda>tuple. ht_find (e_filter E) (c_filter_dict ctx) tuple \<noteq> None);
            tuple = \<lparr>a_addr = p_src_addr packet_ctx, a_port = 0, a_pad = e_stack_pad E 0\<rparr>
        in if found tuple then True
           else if found (tuple\<lparr>a_port := p_src_port packet_ctx\<rparr>) then True
           else
             let tuple = tuple\<lparr>a_addr := p_dst_addr packet_ctx, a_port := 0\<rparr>
             in if found tuple then True
                else if found (tuple\<lparr>a_port := p_dst_port packet_ctx\<rparr>) then True
                else False)"

definition pfpa_ctx_add_tcp_session ::
  "('f, 's, 'b) pfpa_env \<Rightarrow> ('f, 's, 'b) pfpa_context \<Rightarrow> ptr \<Rightarrow> ('f, 's, 'b) pfpa_context result" where
  "pfpa_ctx_add_tcp_session E ctx session =
     (case c_heap ctx session of
        None \<Rightarrow> Inl UseAfterFree
      | Some s \<Rightarrow> Inr (ctx\<lparr>c_tcp_session_dict :=
            ht_put (e_sess E) (c_tcp_session_dict ctx) (s_key s) session\<rparr>))"

definition pfpa_ctx_remove_tcp_session ::
  "('f, 's, 'b) pfpa_env \<Rightarrow> ('f, 's, 'b) pfpa_context \<Rightarrow> pfpa_conn_key \<Rightarrow>
   ('f, 's, 'b) pfpa_context result" where
  "pfpa_ctx_remove_tcp_session E ctx key =
     (case ht_find (e_sess E) (c_tcp_session_dict ctx) key of
        None \<Rightarrow> Inr ctx
      | Some session \<Rightarrow>
          rbind (pfpa_hashtable_free_tcp_session (c_heap ctx) session)
            (\<lambda>h. Inr (ctx\<lparr>c_tcp_session_dict := ht_remove (e_sess E) (c_tcp_session_dict ctx) key,
                          c_heap := h\<rparr>)))"

definition pfpa_ctx_find_tcp_session ::
  "('f, 's, 'b) pfpa_env \<Rightarrow> ('f, 's, 'b) pfpa_context \<Rightarrow> pfpa_conn_key \<Rightarrow> ptr option" where
  "pfpa_ctx_find_tcp_session E ctx k = ht_find (e_sess E) (c_tcp_session_dict ctx) k"

section \<open>The comparison callbacks and the hash\<close>

lemma length_addr_bytes [simp]: "length (addr_bytes a) = 8"
  by (simp add: addr_bytes_def)

lemma length_key_bytes [simp]: "length (key_bytes k) = 16"
  by (simp add: key_bytes_def)

lemma addr_bytes_inject [simp]: "addr_bytes a = addr_bytes b \<longleftrightarrow> a = b"
  by (cases a; cases b) (simp add: addr_bytes_def)

lemma key_bytes_inject [simp]: "key_bytes a = key_bytes b \<longleftrightarrow> a = b"
  by (cases a; cases b) (simp add: key_bytes_def)

lemma filter_cmp_eq_0 [simp]: "pfpa_filter_cmp d1 d2 = 0 \<longleftrightarrow> d1 = d2"
  by (simp add: pfpa_filter_cmp_def memcmp_eq_0_iff)

lemma tcp_session_cmp_eq_0 [simp]: "pfpa_tcp_session_cmp d1 d2 = 0 \<longleftrightarrow> d1 = d2"
  by (simp add: pfpa_tcp_session_cmp_def memcmp_eq_0_iff)

definition port_word :: "pfpa_addr \<Rightarrow> u32" where
  "port_word a = ucast (a_port a) OR push_bit 16 (ucast (a_pad a))"

lemma bytes16_pair: "bytes16 p @ bytes16 q = bytes32 (ucast p OR push_bit 16 (ucast q))"
proof -
  have "ucast (ucast p OR push_bit 16 (ucast q) :: u32) = (ucast p :: u8)"
    "ucast (drop_bit 8 (ucast p OR push_bit 16 (ucast q) :: u32)) = (ucast (drop_bit 8 p) :: u8)"
    "ucast (drop_bit 16 (ucast p OR push_bit 16 (ucast q) :: u32)) = (ucast q :: u8)"
    "ucast (drop_bit 24 (ucast p OR push_bit 16 (ucast q) :: u32)) = (ucast (drop_bit 8 q) :: u8)"
    by (rule bit_word_eqI, auto simp: bit_simps dest: bit_imp_le_length)+
  then show ?thesis by (simp add: bytes16_def bytes32_def)
qed

lemma addr_bytes_blocks: "addr_bytes a = bytes32 (a_addr a) @ bytes32 (port_word a)"
  by (simp add: addr_bytes_def port_word_def bytes16_pair)

lemma port_word_inject: "port_word a = port_word b \<longleftrightarrow> a_port a = a_port b \<and> a_pad a = a_pad b"
proof -
  have "bytes32 (port_word a) = bytes32 (port_word b) \<longleftrightarrow>
      bytes16 (a_port a) @ bytes16 (a_pad a) = bytes16 (a_port b) @ bytes16 (a_pad b)"
    by (simp only: port_word_def bytes16_pair)
  then show ?thesis by simp
qed

text \<open>The four 32-bit blocks a connection key is hashed by.\<close>

definition key_blocks :: "pfpa_conn_key \<Rightarrow> u32 list" where
  "key_blocks k = [a_addr (k_src k), port_word (k_src k), a_addr (k_dst k), port_word (k_dst k)]"

lemma key_bytes_blocks: "key_bytes k = concat (map bytes32 (key_blocks k))"
  by (simp add: key_bytes_def key_blocks_def addr_bytes_blocks)

lemma key_blocks_inject: "key_blocks k = key_blocks k' \<longleftrightarrow> k = k'"
  by (cases k; cases k') (auto simp: key_blocks_def port_word_inject intro: pfpa_addr.equality)

lemma concat_update_block:
  assumes "i < length xs"
  shows "concat (map bytes32 (xs[i := w])) =
    concat (map bytes32 (take i xs)) @ bytes32 w @ concat (map bytes32 (drop (Suc i) xs))"
  using assms by (simp add: upd_conv_take_nth_drop)

lemma length_concat_bytes32: "length (concat (map bytes32 xs)) = 4 * length xs"
  by (induction xs) auto

lemma ucast_u64_inject: "(ucast (x :: u32) :: u64) = ucast y \<longleftrightarrow> x = y"
proof
  have low: "n < LENGTH(32) \<Longrightarrow> bit (ucast z :: u64) n = bit z n" for n and z :: u32
    by (simp add: bit_simps)
  assume "(ucast x :: u64) = ucast y"
  then show "x = y" by (intro bit_word_eqI) (metis low)
qed simp

lemma session_hash_block_inj:
  assumes "i < 4" "key_blocks k' = (key_blocks k)[i := w]"
    and "pfpa_tcp_session_hash k' = pfpa_tcp_session_hash k"
  shows "k' = k"
proof -
  let ?b = "key_blocks k"
  let ?pre = "concat (map bytes32 (take i ?b))" and ?post = "concat (map bytes32 (drop (Suc i) ?b))"
  have i: "i < length ?b" using assms(1) by (simp add: key_blocks_def)
  have k': "key_bytes k' = ?pre @ bytes32 w @ ?post"
    using concat_update_block [OF i, of w] assms(2) by (simp only: key_bytes_blocks)
  have k: "key_bytes k = ?pre @ bytes32 (?b ! i) @ ?post"
    using concat_update_block [OF i, of "?b ! i"] by (simp add: key_bytes_blocks)
  have len: "length ?pre + length ?post + 4 = 16" and pre: "length ?pre mod 4 = 0"
    using assms(1) by (simp_all add: length_concat_bytes32 key_blocks_def min_def)
  have "w = ?b ! i"
    using assms(3) murmur_block_inj [OF pre len]
    by (simp add: pfpa_tcp_session_hash_def ucast_u64_inject k k')
  then have "key_blocks k' = ?b" using assms(2) by simp
  then show ?thesis by (simp add: key_blocks_inject)
qed

text \<open>
  The session table's callbacks fit together: the comparison returns zero exactly for equal
  keys, so keys that compare equal hash equally; and two keys that differ in exactly one of their
  four 32-bit words (one address, or one port) never get the same hash.
\<close>

theorem session_hash_cmp:
  "(pfpa_tcp_session_cmp k k' = 0) = (k = k') \<and>
   (\<forall>i w. i < 4 \<and> key_blocks k' = (key_blocks k)[i := w] \<and> k' \<noteq> k \<longrightarrow>
      pfpa_tcp_session_hash k' \<noteq> pfpa_tcp_session_hash k)"
  using session_hash_block_inj by auto

section \<open>Filters\<close>

fun add_filters ::
  "('f, 's, 'b) pfpa_env \<Rightarrow> pfpa_addr list \<Rightarrow> ('f, 's, 'b) pfpa_context \<Rightarrow>
   ('f, 's, 'b) pfpa_context" where
  "add_filters E [] ctx = ctx"
| "add_filters E (a # as) ctx = add_filters E as (pfpa_ctx_add_filter E ctx a)"

lemma ht_member_put:
  "hash_table_law H \<Longrightarrow>
   (ht_find H (ht_put H t k v) k' \<noteq> None) = (k' = k \<or> ht_find H t k' \<noteq> None)"
  unfolding hash_table_law_def by blast

lemma add_filters_frame: "c_enable_fileter (add_filters E as ctx) = c_enable_fileter ctx"
  by (induction as arbitrary: ctx) (auto simp: pfpa_ctx_add_filter_def)

lemma add_filters_member:
  assumes "hash_table_law (e_filter E)"
  shows "(ht_find (e_filter E) (c_filter_dict (add_filters E as ctx)) a \<noteq> None) =
    (a \<in> set as \<or> ht_find (e_filter E) (c_filter_dict ctx) a \<noteq> None)"
proof (induction as arbitrary: ctx)
  case Nil
  show ?case by simp
next
  case (Cons b bs)
  show ?case
    unfolding add_filters.simps Cons.IH
    using ht_member_put [OF assms, of "c_filter_dict ctx" b b a]
    by (auto simp: pfpa_ctx_add_filter_def)
qed

lemma init_filter_empty:
  "hash_table_law (e_filter E) \<Longrightarrow> pfpa_ctx_init E = Some ctx \<Longrightarrow>
   ht_find (e_filter E) (c_filter_dict ctx) a = None"
  by (auto simp: pfpa_ctx_init_def hash_table_law_def split: option.splits)

text \<open>A filter matches an end point when it names its address with port 0 or with its port.\<close>

definition filter_matches :: "pfpa_addr \<Rightarrow> u32 \<Rightarrow> u16 \<Rightarrow> bool" where
  "filter_matches f addr port \<longleftrightarrow> a_addr f = addr \<and> (a_port f = 0 \<or> a_port f = port)"

lemma check_filter_iff:
  "pfpa_ctx_check_filter E ctx pc \<longleftrightarrow> \<not> c_enable_fileter ctx \<or>
     (\<exists>f. ht_find (e_filter E) (c_filter_dict ctx) f \<noteq> None \<and> a_pad f = e_stack_pad E 0 \<and>
        (filter_matches f (p_src_addr pc) (p_src_port pc) \<or>
         filter_matches f (p_dst_addr pc) (p_dst_port pc)))" (is "?l = ?r")
proof
  assume ?l
  let ?t = "\<lambda>a p. \<lparr>a_addr = a, a_port = p, a_pad = e_stack_pad E 0\<rparr>"
  let ?found = "\<lambda>f. ht_find (e_filter E) (c_filter_dict ctx) f \<noteq> None"
  from \<open>?l\<close> have "\<not> c_enable_fileter ctx \<or> ?found (?t (p_src_addr pc) 0) \<or>
      ?found (?t (p_src_addr pc) (p_src_port pc)) \<or> ?found (?t (p_dst_addr pc) 0) \<or>
      ?found (?t (p_dst_addr pc) (p_dst_port pc))"
    by (simp add: pfpa_ctx_check_filter_def Let_def split: if_split_asm)
  moreover have "?r" if "?found (?t a p)" "filter_matches (?t a p) (p_src_addr pc) (p_src_port pc) \<or>
      filter_matches (?t a p) (p_dst_addr pc) (p_dst_port pc)" for a p
    using that by (intro disjI2 exI [of _ "?t a p"]) simp
  ultimately show ?r by (auto simp: filter_matches_def)
next
  assume ?r
  then show ?l
  proof
    assume "\<exists>f. ht_find (e_filter E) (c_filter_dict ctx) f \<noteq> None \<and> a_pad f = e_stack_pad E 0 \<and>
        (filter_matches f (p_src_addr pc) (p_src_port pc) \<or>
         filter_matches f (p_dst_addr pc) (p_dst_port pc))"
    then obtain f where f: "ht_find (e_filter E) (c_filter_dict ctx) f \<noteq> None"
      "a_pad f = e_stack_pad E 0" "filter_matches f (p_src_addr pc) (p_src_port pc) \<or>
         filter_matches f (p_dst_addr pc) (p_dst_port pc)" by blast
    then show ?l
      by (cases f) (auto simp: pfpa_ctx_check_filter_def filter_matches_def Let_def)
  qed (simp add: pfpa_ctx_check_filter_def)
qed

text \<open>
  Which packets pass the filter: with filtering switched on and the filters \<open>fs\<close> added to a new
  context, a packet passes exactly when one of \<open>fs\<close> names its source or its destination (address
  with port 0, or address and port) and carries in its padding bytes what the tuple on the stack of
  the check happens to carry in its own.
\<close>

theorem check_filter_exact:
  assumes "hash_table_law (e_filter E)" and "pfpa_ctx_init E = Some ctx"
  shows "pfpa_ctx_check_filter E (add_filters E fs (ctx\<lparr>c_enable_fileter := True\<rparr>)) pc \<longleftrightarrow>
    (\<exists>f \<in> set fs. a_pad f = e_stack_pad E 0 \<and>
       (filter_matches f (p_src_addr pc) (p_src_port pc) \<or>
        filter_matches f (p_dst_addr pc) (p_dst_port pc)))"
  unfolding check_filter_iff add_filters_frame add_filters_member [OF assms(1)]
  using init_filter_empty [OF assms] by auto

text \<open>
  The hypotheses of the properties below can hold together: association lists satisfy the law of
  the hash table. They serve the witnesses only.
\<close>

definition alist_table :: "(('k \<times> 'v) list, 'k, 'v) hash_table" where
  "alist_table = \<lparr>ht_init = (\<lambda>n h c. Some []), ht_find = map_of,
     ht_put = (\<lambda>t k v. (k, v) # filter (\<lambda>e. fst e \<noteq> k) t),
     ht_remove = (\<lambda>t k. filter (\<lambda>e. fst e \<noteq> k) t),
     ht_values = (\<lambda>t. map (\<lambda>k. the (map_of t k)) (remdups (map fst t)))\<rparr>"

lemma map_of_filter_other:
  "map_of (filter (\<lambda>e. fst e \<noteq> k) t) k' = (if k' = k then None else map_of t k')"
  by (induction t) auto

lemma alist_table_law: "hash_table_law alist_table"
proof -
  have "\<exists>ks. distinct ks \<and> set ks = {k. map_of t k \<noteq> None} \<and>
      map (\<lambda>k. the (map_of t k)) (remdups (map fst t)) = map (\<lambda>k. the (map_of t k)) ks"
    for t :: "('k \<times> 'v) list"
    using dom_map_of_conv_image_fst [of t]
    by (intro exI [of _ "remdups (map fst t)"]) (simp add: dom_def)
  then show ?thesis
    by (auto simp: hash_table_law_def alist_table_def map_of_filter_other)
qed

section \<open>The dictionary and the heap stay in step\<close>

text \<open>
  Every key of the dictionary points to a live session that carries this key, and every live
  session is in the dictionary under its key: there is no dangling entry and no leaked session.
\<close>

definition ctx_wf :: "('f, 's, 'b) pfpa_env \<Rightarrow> ('f, 's, 'b) pfpa_context \<Rightarrow> bool" where
  "ctx_wf E ctx \<longleftrightarrow>
     (\<forall>k p. pfpa_ctx_find_tcp_session E ctx k = Some p \<longrightarrow>
        (\<exists>s. c_heap ctx p = Some s \<and> s_key s = k)) \<and>
     (\<forall>p s. c_heap ctx p = Some s \<longrightarrow> pfpa_ctx_find_tcp_session E ctx (s_key s) = Some p)"

lemma ctx_wf_find:
  assumes "ctx_wf E ctx" "pfpa_ctx_find_tcp_session E ctx k = Some p"
  obtains s where "c_heap ctx p = Some s" "s_key s = k"
  using assms by (auto simp: ctx_wf_def)

lemma ctx_wf_live:
  "ctx_wf E ctx \<Longrightarrow> c_heap ctx p = Some s \<Longrightarrow> pfpa_ctx_find_tcp_session E ctx (s_key s) = Some p"
  by (auto simp: ctx_wf_def)

lemma ctx_wf_distinct:
  assumes "ctx_wf E ctx" "pfpa_ctx_find_tcp_session E ctx k = Some p"
    "pfpa_ctx_find_tcp_session E ctx k' = Some p"
  shows "k = k'"
  using assms by (metis ctx_wf_find option.inject)

lemma ctx_wf_init: "hash_table_law (e_sess E) \<Longrightarrow> pfpa_ctx_init E = Some ctx \<Longrightarrow> ctx_wf E ctx"
  by (auto simp: ctx_wf_def pfpa_ctx_init_def pfpa_ctx_find_tcp_session_def hash_table_law_def
      split: option.splits)

lemma ht_find_put:
  "hash_table_law H \<Longrightarrow> ht_find H t k = None \<Longrightarrow>
   ht_find H (ht_put H t k v) k' = (if k' = k then Some v else ht_find H t k')"
  by (simp add: hash_table_law_def)

lemma ht_find_remove:
  "hash_table_law H \<Longrightarrow>
   ht_find H (ht_remove H t k) k' = (if k' = k then None else ht_find H t k')"
  by (simp add: hash_table_law_def)

lemma remove_absent:
  "pfpa_ctx_find_tcp_session E ctx k = None \<Longrightarrow> pfpa_ctx_remove_tcp_session E ctx k = Inr ctx"
  by (simp add: pfpa_ctx_remove_tcp_session_def pfpa_ctx_find_tcp_session_def)

lemma remove_present:
  assumes "pfpa_ctx_find_tcp_session E ctx k = Some p" "c_heap ctx p = Some s"
  shows "pfpa_ctx_remove_tcp_session E ctx k =
    Inr (ctx\<lparr>c_tcp_session_dict := ht_remove (e_sess E) (c_tcp_session_dict ctx) k,
             c_heap := (c_heap ctx)(p := None)\<rparr>)"
  using assms by (simp add: pfpa_ctx_remove_tcp_session_def pfpa_ctx_find_tcp_session_def
      pfpa_hashtable_free_tcp_session_def)

text \<open>
  Removing a session faults on no well-formed context, keeps it well formed, forgets the key and
  no other key.
\<close>

lemma remove_session_ok:
  assumes law: "hash_table_law (e_sess E)" and wf: "ctx_wf E ctx"
  shows "\<exists>ctx'. pfpa_ctx_remove_tcp_session E ctx k = Inr ctx' \<and> ctx_wf E ctx' \<and>
    (\<forall>k'. pfpa_ctx_find_tcp_session E ctx' k' =
       (if k' = k then None else pfpa_ctx_find_tcp_session E ctx k')) \<and>
    c_log ctx' = c_log ctx \<and> c_user_data ctx' = c_user_data ctx \<and>
    (\<forall>p. c_heap ctx' p =
       (if pfpa_ctx_find_tcp_session E ctx k = Some p then None else c_heap ctx p))"
proof (cases "pfpa_ctx_find_tcp_session E ctx k")
  case None
  with wf show ?thesis by (auto simp: remove_absent)
next
  case (Some p)
  with wf obtain s where s: "c_heap ctx p = Some s" "s_key s = k" by (rule ctx_wf_find)
  let ?ctx' = "ctx\<lparr>c_tcp_session_dict := ht_remove (e_sess E) (c_tcp_session_dict ctx) k,
      c_heap := (c_heap ctx)(p := None)\<rparr>"
  have find: "pfpa_ctx_find_tcp_session E ?ctx' k' =
      (if k' = k then None else pfpa_ctx_find_tcp_session E ctx k')" for k'
    using law by (simp add: pfpa_ctx_find_tcp_session_def ht_find_remove)
  have other: "q \<noteq> p" if "pfpa_ctx_find_tcp_session E ctx k' = Some q" "k' \<noteq> k" for k' q
    using that Some ctx_wf_distinct [OF wf] by blast
  have "s_key s' \<noteq> k" if "c_heap ctx q = Some s'" "q \<noteq> p" for q s'
    using that ctx_wf_live [OF wf] Some by fastforce
  with other wf have "ctx_wf E ?ctx'"
    unfolding ctx_wf_def find by (auto split: if_splits)
  with remove_present [OF Some s(1)] find Some show ?thesis by auto
qed

lemma free_sessions_ok:
  assumes "distinct ps" "\<forall>p \<in> set ps. h p \<noteq> None"
  shows "free_sessions ps h = Inr (\<lambda>p. if p \<in> set ps then None else h p)"
  using assms
proof (induction ps arbitrary: h)
  case Nil
  then show ?case by simp
next
  case (Cons p ps)
  then obtain s where s: "h p = Some s" by auto
  have "free_sessions ps (h(p := None)) =
      Inr (\<lambda>q. if q \<in> set ps then None else (h(p := None)) q)"
    using Cons.prems by (intro Cons.IH) auto
  moreover have "(\<lambda>q. if q \<in> set ps then None else (h(p := None)) q) =
      (\<lambda>q. if q \<in> set (p # ps) then None else h q)" by auto
  ultimately show ?case
    using s by (simp add: pfpa_hashtable_free_tcp_session_def)
qed

lemma ht_values_wf:
  assumes law: "hash_table_law (e_sess E)" and wf: "ctx_wf E ctx"
  shows "distinct (ht_values (e_sess E) (c_tcp_session_dict ctx)) \<and>
    set (ht_values (e_sess E) (c_tcp_session_dict ctx)) = dom (c_heap ctx)"
proof -
  let ?find = "pfpa_ctx_find_tcp_session E ctx"
  obtain ks where ks: "distinct ks" "set ks = {k. ?find k \<noteq> None}"
    "ht_values (e_sess E) (c_tcp_session_dict ctx) = map (\<lambda>k. the (?find k)) ks"
    using law unfolding hash_table_law_def pfpa_ctx_find_tcp_session_def by blast
  have "inj_on (\<lambda>k. the (?find k)) (set ks)"
    using wf ks(2) ctx_wf_distinct [OF wf] by (intro inj_onI) auto
  moreover have "(\<lambda>k. the (?find k)) ` set ks = dom (c_heap ctx)"
  proof (intro equalityI subsetI)
    fix p assume "p \<in> (\<lambda>k. the (?find k)) ` set ks"
    with ks(2) obtain k where "?find k = Some p" by auto
    with wf show "p \<in> dom (c_heap ctx)" by (auto elim: ctx_wf_find)
  next
    fix p assume "p \<in> dom (c_heap ctx)"
    then obtain s where "c_heap ctx p = Some s" by auto
    with wf have "?find (s_key s) = Some p" by (rule ctx_wf_live)
    with ks(2) show "p \<in> (\<lambda>k. the (?find k)) ` set ks" by (intro image_eqI [of _ _ "s_key s"]) auto
  qed
  ultimately show ?thesis using ks by (simp add: distinct_map)
qed

lemma destroy_frees_all:
  assumes "hash_table_law (e_sess E)" and "ctx_wf E ctx"
  shows "pfpa_ctx_destroy E ctx = Inr (ctx\<lparr>c_heap := Map.empty\<rparr>)"
proof -
  note v = ht_values_wf [OF assms]
  then have "free_sessions (ht_values (e_sess E) (c_tcp_session_dict ctx)) (c_heap ctx) =
      Inr (\<lambda>p. if p \<in> dom (c_heap ctx) then None else c_heap ctx p)"
    using free_sessions_ok [of "ht_values (e_sess E) (c_tcp_session_dict ctx)" "c_heap ctx"] by auto
  moreover have "(\<lambda>p. if p \<in> dom (c_heap ctx) then None else c_heap ctx p) = Map.empty"
    by (auto simp: domIff)
  ultimately show ?thesis by (simp add: pfpa_ctx_destroy_def)
qed

end
