(* ===== verification/Pfpa_Tcp.thy ===== *)
theory Pfpa_Tcp
  imports Pfpa_Context
begin

text \<open>
  TCP handling of the packet file parsing assistant: src/play/c/pfpa/pfpa/pfpa_tcp_handle.c.

  \<open>pfpa_tcp_packet_handle\<close> follows the source from the output line to the last assignment to the
  session's status. A session is a pointer into the heap of the context, so the assignments made
  after the disconnect branch has freed the session are faults of the model.

  The callback is an argument. The locale \<open>tcp_callback\<close> states what the handler relies on: a
  callback may write to the output and to the byte buffer of its own session, and touches nothing
  else of the dictionaries or of any session. The applications interpret it on their callbacks.
\<close>

section \<open>Headers and flags\<close>

record tcphdr =
  th_sport :: u16
  th_dport :: u16
  th_seq :: u32
  th_ack_seq :: u32
  th_off :: u8
  th_flags :: u8

definition hdr_fin :: "tcphdr \<Rightarrow> bool" where
  "hdr_fin h = bit (th_flags h) 0"

definition hdr_syn :: "tcphdr \<Rightarrow> bool" where
  "hdr_syn h = bit (th_flags h) 1"

definition hdr_ack :: "tcphdr \<Rightarrow> bool" where
  "hdr_ack h = bit (th_flags h) 4"

text \<open>
  One of the six blocks of \<open>pfpa_tcp_get_flags\<close>: the name is copied to the position reached so far,
  after a bar unless that position is 0. The string built so far stands for buffer and position.
\<close>

definition put_flag :: "u8 \<Rightarrow> u8 \<Rightarrow> string \<Rightarrow> string \<Rightarrow> string" where
  "put_flag tcp_flags fl name buf =
     (if tcp_flags AND fl \<noteq> 0
      then (if length buf = 0 then buf @ name else buf @ ''|'' @ name)
      else buf)"

definition pfpa_tcp_get_flags :: "u8 \<Rightarrow> string" where
  "pfpa_tcp_get_flags tcp_flags =
     (let buf = [];
          buf = put_flag tcp_flags 0x01 ''FIN'' buf;
          buf = put_flag tcp_flags 0x02 ''SYN'' buf;
          buf = put_flag tcp_flags 0x04 ''RST'' buf;
          buf = put_flag tcp_flags 0x08 ''PSH'' buf;
          buf = put_flag tcp_flags 0x10 ''ACK'' buf;
          buf = put_flag tcp_flags 0x20 ''URG'' buf
      in buf)"

definition pfpa_tcp_output ::
  "('f, 's, 'b) pfpa_context \<Rightarrow> pfpa_packet_context \<Rightarrow> tcphdr \<Rightarrow> ('f, 's, 'b) pfpa_context" where
  "pfpa_tcp_output ctx packet_ctx tcp_hdr =
     ctx\<lparr>c_fp := c_fp ctx @
       [''  - TCP|sport='' @ decw (p_src_port packet_ctx) @
        '';dport='' @ decw (p_dst_port packet_ctx) @
        '';flags=['' @ pfpa_tcp_get_flags (th_flags tcp_hdr) @
        ''];thl='' @ dec (unat (th_off tcp_hdr) * 4) @
        '';datalen='' @ decw (p_datalen packet_ctx) @
        '';seq='' @ decw (ntohl (th_seq tcp_hdr)) @
        '';ack='' @ decw (ntohl (th_ack_seq tcp_hdr)) @ [CHR 0x0A]]\<rparr>"

section \<open>The TCP packet handler\<close>

type_synonym ('f, 's, 'b) pfpa_fn_tcp_callback =
  "('f, 's, 'b) pfpa_context \<Rightarrow> pfpa_packet_context \<Rightarrow> ptr \<Rightarrow>
   (('f, 's, 'b) pfpa_context \<times> pfpa_packet_context) result"

type_synonym ('f, 's, 'b) pfpa_fn_udp_callback =
  "('f, 's, 'b) pfpa_context \<Rightarrow> pfpa_packet_context \<Rightarrow> bytes \<Rightarrow> u32 \<Rightarrow>
   ('f, 's, 'b) pfpa_context result"

record ('f, 's, 'b) pfpa_callbacks =
  cb_tcp :: "('f, 's, 'b) pfpa_fn_tcp_callback option"
  cb_udp :: "('f, 's, 'b) pfpa_fn_udp_callback option"

text \<open>Reading and writing through a session pointer.\<close>

definition get_session ::
  "('f, 's, 'b) pfpa_context \<Rightarrow> ptr \<Rightarrow> 'b pfpa_tcp_session result" where
  "get_session ctx p = (case c_heap ctx p of None \<Rightarrow> Inl UseAfterFree | Some s \<Rightarrow> Inr s)"

definition upd_session ::
  "('f, 's, 'b) pfpa_context \<Rightarrow> ptr \<Rightarrow> ('b pfpa_tcp_session \<Rightarrow> 'b pfpa_tcp_session) \<Rightarrow>
   ('f, 's, 'b) pfpa_context result" where
  "upd_session ctx p f =
     (case c_heap ctx p of
        None \<Rightarrow> Inl UseAfterFree
      | Some s \<Rightarrow> Inr (ctx\<lparr>c_heap := (c_heap ctx)(p \<mapsto> f s)\<rparr>))"

definition add_log :: "pfpa_log \<Rightarrow> ('f, 's, 'b) pfpa_context \<Rightarrow> ('f, 's, 'b) pfpa_context" where
  "add_log l ctx = ctx\<lparr>c_log := c_log ctx @ [l]\<rparr>"

definition conn_key_of :: "pfpa_packet_context \<Rightarrow> pfpa_conn_key" where
  "conn_key_of pc =
     \<lparr>k_src = \<lparr>a_addr = p_src_addr pc, a_port = p_src_port pc, a_pad = 0\<rparr>,
      k_dst = \<lparr>a_addr = p_dst_addr pc, a_port = p_dst_port pc, a_pad = 0\<rparr>\<rparr>"

definition remote_key_of ::
  "('f, 's, 'b) pfpa_env \<Rightarrow> pfpa_conn_key \<Rightarrow> pfpa_conn_key" where
  "remote_key_of E conn_key =
     \<lparr>k_src = \<lparr>a_addr = a_addr (k_dst conn_key), a_port = a_port (k_dst conn_key),
               a_pad = e_stack_pad E 1\<rparr>,
      k_dst = \<lparr>a_addr = a_addr (k_src conn_key), a_port = a_port (k_src conn_key),
               a_pad = e_stack_pad E 2\<rparr>\<rparr>"

definition tcp_new_session ::
  "('f, 's, 'b) pfpa_env \<Rightarrow> ('f, 's, 'b) pfpa_context \<Rightarrow> pfpa_conn_key \<Rightarrow> tcphdr \<Rightarrow>
   (('f, 's, 'b) pfpa_context \<times> ptr) result" where
  "tcp_new_session E ctx conn_key tcp_hdr =
     (let ctx = add_log (LogTcpConnection (c_total_pack ctx) conn_key) ctx in
      case e_malloc E (c_heap ctx) of
        None \<Rightarrow> Inl NullDeref
      | Some session \<Rightarrow>
          let ctx = ctx\<lparr>c_heap := (c_heap ctx)(session \<mapsto>
                \<lparr>s_key = conn_key, s_status = PFPA_TCP_STATUS_NULL, s_seq = 0,
                 s_bytes_buf = bb_init (e_bb E) (64 * 1024)\<rparr>)\<rparr>
          in rbind (pfpa_ctx_add_tcp_session E ctx session) (\<lambda>ctx.
             rbind (upd_session ctx session (\<lambda>s. s\<lparr>s_seq := ntohl (th_seq tcp_hdr)\<rparr>)) (\<lambda>ctx.
             rbind (upd_session ctx session
                      (\<lambda>s. s\<lparr>s_status := PFPA_TCP_STATUS_ESTABLISHED\<rparr>)) (\<lambda>ctx.
             Inr (ctx, session)))))"

definition tcp_disconnect ::
  "('f, 's, 'b) pfpa_env \<Rightarrow> ('f, 's, 'b) pfpa_context \<Rightarrow> pfpa_conn_key \<Rightarrow>
   ('f, 's, 'b) pfpa_context result" where
  "tcp_disconnect E ctx conn_key =
     (let remote_key = remote_key_of E conn_key in
      case pfpa_ctx_find_tcp_session E ctx remote_key of
        None \<Rightarrow> Inr ctx
      | Some remote_session \<Rightarrow>
          rbind (get_session ctx remote_session) (\<lambda>r.
          if s_status r = PFPA_TCP_STATUS_FIN_SENT then
            rbind (pfpa_ctx_remove_tcp_session E
                     (add_log (LogTcpDisconnect (c_total_pack ctx) conn_key) ctx) conn_key) (\<lambda>ctx.
            pfpa_ctx_remove_tcp_session E
              (add_log (LogTcpDisconnect (c_total_pack ctx) remote_key) ctx) remote_key)
          else Inr ctx))"

text \<open>The part of the handler after the callback: sequence number, disconnect, status.\<close>

definition tcp_track ::
  "('f, 's, 'b) pfpa_env \<Rightarrow> ('f, 's, 'b) pfpa_context \<Rightarrow> pfpa_packet_context \<Rightarrow> tcphdr \<Rightarrow>
   pfpa_conn_key \<Rightarrow> ptr \<Rightarrow> u32 \<Rightarrow> ('f, 's, 'b) pfpa_context result" where
  "tcp_track E ctx packet_ctx tcp_hdr conn_key session seq =
     rbind (if hdr_syn tcp_hdr \<or> hdr_fin tcp_hdr
            then upd_session ctx session (\<lambda>s. s\<lparr>s_seq := s_seq s + 1\<rparr>)
            else upd_session ctx session (\<lambda>s. s\<lparr>s_seq := seq + p_datalen packet_ctx\<rparr>)) (\<lambda>ctx.
     rbind (get_session ctx session) (\<lambda>s.
     rbind (if s_status s = PFPA_TCP_STATUS_FIN_SENT \<and> hdr_ack tcp_hdr
            then tcp_disconnect E ctx conn_key
            else Inr ctx) (\<lambda>ctx.
     if hdr_fin tcp_hdr
     then upd_session ctx session (\<lambda>s. s\<lparr>s_status := PFPA_TCP_STATUS_FIN_SENT\<rparr>)
     else Inr ctx)))"

definition pfpa_tcp_packet_handle ::
  "('f, 's, 'b) pfpa_env \<Rightarrow> ('f, 's, 'b) pfpa_callbacks \<Rightarrow> ('f, 's, 'b) pfpa_context \<Rightarrow>
   pfpa_packet_context \<Rightarrow> tcphdr \<Rightarrow> ('f, 's, 'b) pfpa_context result" where
  "pfpa_tcp_packet_handle E CB ctx packet_ctx tcp_hdr =
     (let ctx = pfpa_tcp_output ctx packet_ctx tcp_hdr;
          conn_key = conn_key_of packet_ctx in
      rbind (case pfpa_ctx_find_tcp_session E ctx conn_key of
               None \<Rightarrow> tcp_new_session E ctx conn_key tcp_hdr
             | Some session \<Rightarrow> Inr (ctx, session)) (\<lambda>(ctx, session).
      let seq = ntohl (th_seq tcp_hdr) in
      rbind (get_session ctx session) (\<lambda>s.
      let ctx = (if s_seq s \<noteq> seq
                 then add_log (LogUnexpectedSeq (s_seq s) seq (c_total_pack ctx) conn_key) ctx
                 else ctx) in
      rbind (case cb_tcp CB of
               None \<Rightarrow> Inr (ctx, packet_ctx)
             | Some cb \<Rightarrow> cb ctx packet_ctx session) (\<lambda>(ctx, packet_ctx).
      tcp_track E ctx packet_ctx tcp_hdr conn_key session seq))))"

section \<open>The flag string\<close>

fun join_bar :: "string list \<Rightarrow> string" where
  "join_bar [] = []"
| "join_bar [s] = s"
| "join_bar (s # t # ss) = s @ ''|'' @ join_bar (t # ss)"

definition flag_names :: "(nat \<times> string) list" where
  "flag_names = [(0, ''FIN''), (1, ''SYN''), (2, ''RST''), (3, ''PSH''), (4, ''ACK''), (5, ''URG'')]"

lemma and_single_bit: "(w AND fl :: u8) \<noteq> 0 \<longleftrightarrow> bit w n" if "fl = push_bit n 1" "n < 8" for w fl
proof -
  have "w AND fl = (if bit w n then fl else 0)"
    using that by (intro bit_word_eqI) (auto simp: bit_simps)
  then show ?thesis using that by (auto simp: push_bit_eq_0_iff dest: arg_cong [of _ _ "\<lambda>w. bit w n"])
qed

lemma put_flag_bit:
  assumes "fl = push_bit n 1" "n < 8"
  shows "put_flag w fl name buf =
    (if bit w n then (if buf = [] then name else buf @ ''|'' @ name) else buf)"
  using and_single_bit [OF assms, of w] by (simp add: put_flag_def)

lemma get_flags_join:
  "pfpa_tcp_get_flags w = join_bar (map snd (filter (\<lambda>(n, _). bit w n) flag_names))"
proof -
  have "put_flag w 1 = (\<lambda>s b. if bit w 0 then (if b = [] then s else b @ ''|'' @ s) else b)"
    "put_flag w 2 = (\<lambda>s b. if bit w 1 then (if b = [] then s else b @ ''|'' @ s) else b)"
    "put_flag w 4 = (\<lambda>s b. if bit w 2 then (if b = [] then s else b @ ''|'' @ s) else b)"
    "put_flag w 8 = (\<lambda>s b. if bit w 3 then (if b = [] then s else b @ ''|'' @ s) else b)"
    "put_flag w 16 = (\<lambda>s b. if bit w 4 then (if b = [] then s else b @ ''|'' @ s) else b)"
    "put_flag w 32 = (\<lambda>s b. if bit w 5 then (if b = [] then s else b @ ''|'' @ s) else b)"
    by (intro ext put_flag_bit; simp add: push_bit_eq_mult)+
  then show ?thesis by (simp add: pfpa_tcp_get_flags_def flag_names_def)
qed

lemma length_join_bar_le:
  "\<forall>s \<in> set ss. length s = 3 \<Longrightarrow> length (join_bar ss) \<le> 4 * length ss"
  by (induction ss rule: join_bar.induct) auto

text \<open>
  The flag string names exactly the flags that are set, lowest bit first and separated by
  bars, and with its terminating null it fits the 32 bytes of the caller's buffer.
\<close>

theorem get_flags_spec:
  "pfpa_tcp_get_flags w = join_bar (map snd (filter (\<lambda>(n, _). bit w n) flag_names)) \<and>
   length (pfpa_tcp_get_flags w) + 1 \<le> 32"
proof -
  let ?ss = "map snd (filter (\<lambda>(n, _). bit w n) flag_names)"
  have "length ?ss \<le> length flag_names" by simp
  also have "\<dots> = 6" by (simp add: flag_names_def)
  finally have "length ?ss \<le> 6" .
  moreover have "length (join_bar ?ss) \<le> 4 * length ?ss"
    by (rule length_join_bar_le) (auto simp: flag_names_def)
  ultimately show ?thesis by (simp add: get_flags_join)
qed

section \<open>The abstract session table\<close>

text \<open>
  What the handler does, seen from outside: a finite map from connection keys to the status and the
  next expected sequence number of each session. \<open>tcp_step\<close> returns \<open>None\<close> where the code faults.
\<close>

type_synonym session_map = "pfpa_conn_key \<rightharpoonup> pfpa_tcp_status \<times> u32"

definition abs_sessions ::
  "('f, 's, 'b) pfpa_env \<Rightarrow> ('f, 's, 'b) pfpa_context \<Rightarrow> session_map" where
  "abs_sessions E ctx = (\<lambda>k.
     case pfpa_ctx_find_tcp_session E ctx k of
        None \<Rightarrow> None
      | Some p \<Rightarrow> map_option (\<lambda>s. (s_status s, s_seq s)) (c_heap ctx p))"

definition step_key :: "session_map \<Rightarrow> pfpa_conn_key \<Rightarrow> u32 \<Rightarrow> pfpa_tcp_status \<times> u32" where
  "step_key m k seq = (case m k of None \<Rightarrow> (PFPA_TCP_STATUS_ESTABLISHED, seq) | Some x \<Rightarrow> x)"

definition next_seq :: "tcphdr \<Rightarrow> u32 \<Rightarrow> u32 \<Rightarrow> u32" where
  "next_seq h expected datalen =
     (if hdr_syn h \<or> hdr_fin h then expected + 1 else ntohl (th_seq h) + datalen)"

definition tcp_step ::
  "(pfpa_conn_key \<Rightarrow> pfpa_conn_key) \<Rightarrow> pfpa_conn_key \<Rightarrow> u32 \<Rightarrow> tcphdr \<Rightarrow> session_map \<Rightarrow>
   session_map option" where
  "tcp_step remote k datalen h m =
     (let (st, expected) = step_key m k (ntohl (th_seq h));
          m1 = m(k \<mapsto> (st, next_seq h expected datalen))
      in if st = PFPA_TCP_STATUS_FIN_SENT \<and> hdr_ack h \<and>
            (\<exists>q. m1 (remote k) = Some (PFPA_TCP_STATUS_FIN_SENT, q))
         then (if hdr_fin h then None else Some (m1(k := None, remote k := None)))
         else if hdr_fin h
         then Some (m(k \<mapsto> (PFPA_TCP_STATUS_FIN_SENT, next_seq h expected datalen)))
         else Some m1)"

text \<open>The warnings about unexpected sequence numbers in the log.\<close>

fun seq_warning :: "pfpa_log \<Rightarrow> (u32 \<times> u32) list" where
  "seq_warning (LogUnexpectedSeq expected actual _ _) = [(expected, actual)]"
| "seq_warning _ = []"

definition seq_warnings :: "('f, 's, 'b) pfpa_context \<Rightarrow> (u32 \<times> u32) list" where
  "seq_warnings ctx = concat (map seq_warning (c_log ctx))"

definition step_warnings :: "session_map \<Rightarrow> pfpa_conn_key \<Rightarrow> u32 \<Rightarrow> (u32 \<times> u32) list" where
  "step_warnings m k seq =
     (let expected = snd (step_key m k seq) in if expected \<noteq> seq then [(expected, seq)] else [])"

named_theorems ctx_frame \<open>what an operation of the context leaves alone\<close>

lemma same_tables:
  assumes "c_tcp_session_dict ctx' = c_tcp_session_dict ctx" "c_heap ctx' = c_heap ctx"
  shows "pfpa_ctx_find_tcp_session E ctx' = pfpa_ctx_find_tcp_session E ctx"
    "ctx_wf E ctx' = ctx_wf E ctx" "abs_sessions E ctx' = abs_sessions E ctx"
  using assms
  by (simp_all add: ctx_wf_def abs_sessions_def pfpa_ctx_find_tcp_session_def [abs_def]
      cong: option.case_cong)

lemma add_log_frame [ctx_frame]:
  "c_tcp_session_dict (add_log l ctx) = c_tcp_session_dict ctx"
  "c_heap (add_log l ctx) = c_heap ctx" "c_user_data (add_log l ctx) = c_user_data ctx"
  "c_total_pack (add_log l ctx) = c_total_pack ctx"
  "seq_warnings (add_log l ctx) = seq_warnings ctx @ seq_warning l"
  by (simp_all add: add_log_def seq_warnings_def)

lemma tcp_output_frame [ctx_frame]:
  "c_tcp_session_dict (pfpa_tcp_output ctx pc h) = c_tcp_session_dict ctx"
  "c_heap (pfpa_tcp_output ctx pc h) = c_heap ctx"
  "c_user_data (pfpa_tcp_output ctx pc h) = c_user_data ctx"
  "c_total_pack (pfpa_tcp_output ctx pc h) = c_total_pack ctx"
  "seq_warnings (pfpa_tcp_output ctx pc h) = seq_warnings ctx"
  by (simp_all add: pfpa_tcp_output_def seq_warnings_def)

lemma add_log_tables [ctx_frame]:
  "pfpa_ctx_find_tcp_session E (add_log l ctx) = pfpa_ctx_find_tcp_session E ctx"
  "ctx_wf E (add_log l ctx) = ctx_wf E ctx"
  "abs_sessions E (add_log l ctx) = abs_sessions E ctx"
  by (rule same_tables; simp add: ctx_frame)+

lemma tcp_output_tables [ctx_frame]:
  "pfpa_ctx_find_tcp_session E (pfpa_tcp_output ctx pc h) = pfpa_ctx_find_tcp_session E ctx"
  "ctx_wf E (pfpa_tcp_output ctx pc h) = ctx_wf E ctx"
  "abs_sessions E (pfpa_tcp_output ctx pc h) = abs_sessions E ctx"
  by (rule same_tables; simp add: ctx_frame)+

lemma abs_find:
  assumes "ctx_wf E ctx" "c_heap ctx p = Some s"
  shows "abs_sessions E ctx (s_key s) = Some (s_status s, s_seq s)"
  using ctx_wf_live [OF assms] assms(2) by (simp add: abs_sessions_def)

lemma abs_Some_iff:
  assumes "ctx_wf E ctx"
  shows "abs_sessions E ctx k = Some (st, q) \<longleftrightarrow>
    (\<exists>p s. pfpa_ctx_find_tcp_session E ctx k = Some p \<and> c_heap ctx p = Some s \<and> s_key s = k \<and>
       s_status s = st \<and> s_seq s = q)"
  using assms by (auto simp: abs_sessions_def split: option.splits elim: ctx_wf_find)

lemma abs_None_iff:
  "ctx_wf E ctx \<Longrightarrow> abs_sessions E ctx k = None \<longleftrightarrow> pfpa_ctx_find_tcp_session E ctx k = None"
  by (auto simp: abs_sessions_def split: option.splits elim: ctx_wf_find)

text \<open>Replacing a live session by one with the same key.\<close>

lemma heap_upd_ok:
  assumes wf: "ctx_wf E ctx" and s: "c_heap ctx p = Some s" and key: "s_key s' = s_key s"
    and d: "c_tcp_session_dict ctx' = c_tcp_session_dict ctx"
    and h: "c_heap ctx' = (c_heap ctx)(p \<mapsto> s')"
  shows "ctx_wf E ctx'"
    and "abs_sessions E ctx' = (abs_sessions E ctx)(s_key s \<mapsto> (s_status s', s_seq s'))"
proof -
  have find: "pfpa_ctx_find_tcp_session E ctx' = pfpa_ctx_find_tcp_session E ctx"
    using d by (simp add: fun_eq_iff pfpa_ctx_find_tcp_session_def)
  show "ctx_wf E ctx'"
    using wf s key unfolding ctx_wf_def find h by (auto split: if_splits) (metis option.inject)
  have "q \<noteq> p" if "pfpa_ctx_find_tcp_session E ctx k = Some q" "k \<noteq> s_key s" for k q
    using that ctx_wf_live [OF wf s] ctx_wf_distinct [OF wf] by blast
  then show "abs_sessions E ctx' = (abs_sessions E ctx)(s_key s \<mapsto> (s_status s', s_seq s'))"
    using ctx_wf_live [OF wf s]
    by (auto simp: fun_eq_iff abs_sessions_def find h split: option.splits)
qed

lemma upd_session_ok:
  assumes wf: "ctx_wf E ctx" and s: "c_heap ctx p = Some s" and key: "s_key (f s) = s_key s"
  shows "\<exists>ctx'. upd_session ctx p f = Inr ctx' \<and> ctx_wf E ctx' \<and>
    abs_sessions E ctx' = (abs_sessions E ctx)(s_key s \<mapsto> (s_status (f s), s_seq (f s))) \<and>
    c_heap ctx' p = Some (f s) \<and> c_user_data ctx' = c_user_data ctx \<and>
    seq_warnings ctx' = seq_warnings ctx"
proof -
  let ?ctx' = "ctx\<lparr>c_heap := (c_heap ctx)(p \<mapsto> f s)\<rparr>"
  have "upd_session ctx p f = Inr ?ctx'" using s by (simp add: upd_session_def)
  moreover have "ctx_wf E ?ctx' \<and>
      abs_sessions E ?ctx' = (abs_sessions E ctx)(s_key s \<mapsto> (s_status (f s), s_seq (f s)))"
    using heap_upd_ok [OF wf s key, of ?ctx'] by simp
  ultimately show ?thesis by (auto simp: seq_warnings_def)
qed

lemma remove_abs:
  assumes law: "hash_table_law (e_sess E)" and wf: "ctx_wf E ctx"
  shows "\<exists>ctx'. pfpa_ctx_remove_tcp_session E ctx k = Inr ctx' \<and> ctx_wf E ctx' \<and>
    abs_sessions E ctx' = (abs_sessions E ctx)(k := None) \<and>
    (\<forall>p. c_heap ctx' p = (if pfpa_ctx_find_tcp_session E ctx k = Some p then None else c_heap ctx p)) \<and>
    seq_warnings ctx' = seq_warnings ctx \<and> c_user_data ctx' = c_user_data ctx"
proof -
  obtain ctx' where c: "pfpa_ctx_remove_tcp_session E ctx k = Inr ctx'" "ctx_wf E ctx'"
    "\<forall>k'. pfpa_ctx_find_tcp_session E ctx' k' =
       (if k' = k then None else pfpa_ctx_find_tcp_session E ctx k')"
    "\<forall>p. c_heap ctx' p = (if pfpa_ctx_find_tcp_session E ctx k = Some p then None else c_heap ctx p)"
    "c_log ctx' = c_log ctx" "c_user_data ctx' = c_user_data ctx"
    using remove_session_ok [OF law wf, of k] by blast
  moreover have "abs_sessions E ctx' k' = ((abs_sessions E ctx)(k := None)) k'" for k'
    using c(3,4) ctx_wf_distinct [OF wf, of k]
    by (auto simp: abs_sessions_def split: option.splits)
  ultimately show ?thesis by (auto simp: seq_warnings_def)
qed

section \<open>The handler implements the abstract step\<close>

lemma conn_key_simps [simp]:
  "a_pad (k_src (conn_key_of pc)) = 0" "a_pad (k_dst (conn_key_of pc)) = 0"
  by (simp_all add: conn_key_of_def)

lemma new_session_ok:
  assumes laws: "hash_table_law (e_sess E)" "malloc_law E" and wf: "ctx_wf E ctx"
    and new: "pfpa_ctx_find_tcp_session E ctx k = None" and p: "e_malloc E (c_heap ctx) = Some p"
  shows "\<exists>ctx' s. tcp_new_session E ctx k h = Inr (ctx', p) \<and> ctx_wf E ctx' \<and>
    c_heap ctx' p = Some s \<and> s_key s = k \<and> s_status s = PFPA_TCP_STATUS_ESTABLISHED \<and>
    s_seq s = ntohl (th_seq h) \<and>
    abs_sessions E ctx' = (abs_sessions E ctx)(k \<mapsto> (PFPA_TCP_STATUS_ESTABLISHED, ntohl (th_seq h))) \<and>
    c_user_data ctx' = c_user_data ctx \<and> seq_warnings ctx' = seq_warnings ctx"
proof -
  let ?s = "\<lparr>s_key = k, s_status = PFPA_TCP_STATUS_ESTABLISHED, s_seq = ntohl (th_seq h),
      s_bytes_buf = bb_init (e_bb E) (64 * 1024)\<rparr>"
  let ?ctx = "(add_log (LogTcpConnection (c_total_pack ctx) k) ctx)\<lparr>
      c_tcp_session_dict := ht_put (e_sess E) (c_tcp_session_dict ctx) k p,
      c_heap := (c_heap ctx)(p \<mapsto> ?s)\<rparr>"
  have fresh: "c_heap ctx p = None" using laws(2) p by (simp add: malloc_law_def)
  have find: "pfpa_ctx_find_tcp_session E ?ctx k' =
      (if k' = k then Some p else pfpa_ctx_find_tcp_session E ctx k')" for k'
    using ht_find_put [OF laws(1)] new by (simp add: pfpa_ctx_find_tcp_session_def)
  have other: "q \<noteq> p" if "pfpa_ctx_find_tcp_session E ctx k' = Some q" for k' q
    using that wf fresh by (auto elim: ctx_wf_find)
  have "s_key s \<noteq> k" if "c_heap ctx q = Some s" for q s
    using ctx_wf_live [OF wf that] new by auto
  with wf other have "ctx_wf E ?ctx"
    unfolding ctx_wf_def find by (auto split: if_splits)
  moreover have "abs_sessions E ?ctx k' = ((abs_sessions E ctx)
      (k \<mapsto> (PFPA_TCP_STATUS_ESTABLISHED, ntohl (th_seq h)))) k'" for k'
    unfolding abs_sessions_def find by (auto split: option.splits dest: other)
  moreover have "tcp_new_session E ctx k h = Inr (?ctx, p)"
    using p by (simp add: tcp_new_session_def pfpa_ctx_add_tcp_session_def upd_session_def
        ctx_frame add_log_def)
  ultimately show ?thesis
    by (intro exI [of _ ?ctx] exI [of _ ?s]) (auto simp: ctx_frame seq_warnings_def add_log_def)
qed

lemma disconnect_ok:
  assumes law: "hash_table_law (e_sess E)" and wf: "ctx_wf E ctx"
    and s: "c_heap ctx p = Some s" "s_key s = k"
  shows "\<exists>ctx'. tcp_disconnect E ctx k = Inr ctx' \<and> ctx_wf E ctx' \<and>
    seq_warnings ctx' = seq_warnings ctx \<and> c_user_data ctx' = c_user_data ctx \<and>
    (if \<exists>q. abs_sessions E ctx (remote_key_of E k) = Some (PFPA_TCP_STATUS_FIN_SENT, q)
     then abs_sessions E ctx' = (abs_sessions E ctx)(k := None, remote_key_of E k := None) \<and>
       c_heap ctx' p = None
     else ctx' = ctx)"
proof (cases "\<exists>q. abs_sessions E ctx (remote_key_of E k) = Some (PFPA_TCP_STATUS_FIN_SENT, q)")
  case True
  let ?r = "remote_key_of E k" and ?l = "\<lambda>ctx. LogTcpDisconnect (c_total_pack ctx)"
  obtain r t where r: "pfpa_ctx_find_tcp_session E ctx ?r = Some r" "c_heap ctx r = Some t"
    "s_status t = PFPA_TCP_STATUS_FIN_SENT"
    using True wf by (auto simp: abs_Some_iff)
  obtain ctx1 where c1: "pfpa_ctx_remove_tcp_session E (add_log (?l ctx k) ctx) k = Inr ctx1"
    "ctx_wf E ctx1" "abs_sessions E ctx1 = (abs_sessions E ctx)(k := None)"
    "c_heap ctx1 p = None" "seq_warnings ctx1 = seq_warnings ctx"
    "c_user_data ctx1 = c_user_data ctx"
    using remove_abs [OF law, of "add_log (?l ctx k) ctx" k] ctx_wf_live [OF wf s(1)] s wf
    by (auto simp: ctx_frame)
  obtain ctx2 where c2: "pfpa_ctx_remove_tcp_session E (add_log (?l ctx1 ?r) ctx1) ?r = Inr ctx2"
    "ctx_wf E ctx2" "abs_sessions E ctx2 = (abs_sessions E ctx)(k := None, ?r := None)"
    "c_heap ctx2 p = None" "seq_warnings ctx2 = seq_warnings ctx"
    "c_user_data ctx2 = c_user_data ctx"
    using remove_abs [OF law, of "add_log (?l ctx1 ?r) ctx1" ?r] c1(2-)
    by (auto simp: ctx_frame)
  have "tcp_disconnect E ctx k = Inr ctx2"
    using r c1(1) c2(1) by (simp add: tcp_disconnect_def get_session_def)
  with c2 True show ?thesis by auto
next
  case False
  have "tcp_disconnect E ctx k = Inr ctx"
  proof (cases "pfpa_ctx_find_tcp_session E ctx (remote_key_of E k)")
    case (Some r)
    with wf obtain t where "c_heap ctx r = Some t" "s_key t = remote_key_of E k"
      by (rule ctx_wf_find)
    with False Some show ?thesis
      using abs_Some_iff [OF wf] by (auto simp: tcp_disconnect_def get_session_def)
  qed (simp add: tcp_disconnect_def)
  with wf False show ?thesis by auto
qed

lemma track_ok:
  assumes law: "hash_table_law (e_sess E)" and wf: "ctx_wf E ctx"
    and s: "c_heap ctx p = Some s" "s_key s = k" and seq: "seq = ntohl (th_seq h)"
  shows "case tcp_step (remote_key_of E) k (p_datalen pc) h (abs_sessions E ctx) of
      None \<Rightarrow> tcp_track E ctx pc h k p seq = Inl UseAfterFree
    | Some m \<Rightarrow> (\<exists>ctx'. tcp_track E ctx pc h k p seq = Inr ctx' \<and> ctx_wf E ctx' \<and>
        abs_sessions E ctx' = m \<and> seq_warnings ctx' = seq_warnings ctx \<and>
        c_user_data ctx' = c_user_data ctx)"
proof -
  let ?q = "next_seq h (s_seq s) (p_datalen pc)" and ?r = "remote_key_of E k"
  let ?gone = "\<lambda>m. s_status s = PFPA_TCP_STATUS_FIN_SENT \<and> hdr_ack h \<and>
      (\<exists>q. m ?r = Some (PFPA_TCP_STATUS_FIN_SENT, q))"
  let ?upd = "\<lambda>s. if hdr_syn h \<or> hdr_fin h then s\<lparr>s_seq := s_seq s + 1\<rparr>
      else s\<lparr>s_seq := seq + p_datalen pc\<rparr>"
  have upd: "?upd s = s\<lparr>s_seq := ?q\<rparr>" by (simp add: next_seq_def seq)
  have absk: "abs_sessions E ctx k = Some (s_status s, s_seq s)"
    using abs_find [OF wf s(1)] s(2) by simp
  obtain ctx1 where c1: "upd_session ctx p ?upd = Inr ctx1" "ctx_wf E ctx1"
    "abs_sessions E ctx1 = (abs_sessions E ctx)(k \<mapsto> (s_status s, ?q))"
    "c_heap ctx1 p = Some (s\<lparr>s_seq := ?q\<rparr>)" "seq_warnings ctx1 = seq_warnings ctx"
    "c_user_data ctx1 = c_user_data ctx"
    using upd_session_ok [OF wf s(1), of ?upd] s(2) by (auto simp: next_seq_def seq)
  have split: "(if hdr_syn h \<or> hdr_fin h then upd_session ctx p (\<lambda>s. s\<lparr>s_seq := s_seq s + 1\<rparr>)
      else upd_session ctx p (\<lambda>s. s\<lparr>s_seq := seq + p_datalen pc\<rparr>)) = Inr ctx1"
    using c1(1) by (auto split: if_splits)
  obtain ctx2 where c2: "tcp_disconnect E ctx1 k = Inr ctx2" "ctx_wf E ctx2"
    "seq_warnings ctx2 = seq_warnings ctx" "c_user_data ctx2 = c_user_data ctx"
    "if \<exists>q. abs_sessions E ctx1 ?r = Some (PFPA_TCP_STATUS_FIN_SENT, q)
     then abs_sessions E ctx2 = (abs_sessions E ctx1)(k := None, ?r := None) \<and> c_heap ctx2 p = None
     else ctx2 = ctx1"
    using disconnect_ok [OF law c1(2,4), of k] c1(5,6) s(2) by auto
  obtain ctx3 where c3: "upd_session ctx1 p (\<lambda>s. s\<lparr>s_status := PFPA_TCP_STATUS_FIN_SENT\<rparr>) = Inr ctx3"
    "ctx_wf E ctx3" "abs_sessions E ctx3 = (abs_sessions E ctx)(k \<mapsto> (PFPA_TCP_STATUS_FIN_SENT, ?q))"
    "seq_warnings ctx3 = seq_warnings ctx" "c_user_data ctx3 = c_user_data ctx"
    using upd_session_ok [OF c1(2,4), of "\<lambda>s. s\<lparr>s_status := PFPA_TCP_STATUS_FIN_SENT\<rparr>"] c1(3,5,6) s(2)
    by auto
  have run: "tcp_track E ctx pc h k p seq =
      rbind (if s_status s = PFPA_TCP_STATUS_FIN_SENT \<and> hdr_ack h then Inr ctx2 else Inr ctx1)
        (\<lambda>ctx. if hdr_fin h then upd_session ctx p (\<lambda>s. s\<lparr>s_status := PFPA_TCP_STATUS_FIN_SENT\<rparr>)
                else Inr ctx)"
    unfolding tcp_track_def split using c1(4) c2(1) by (simp add: get_session_def)
  have step: "tcp_step (remote_key_of E) k (p_datalen pc) h (abs_sessions E ctx) =
      (if ?gone (abs_sessions E ctx1)
       then (if hdr_fin h then None else Some ((abs_sessions E ctx1)(k := None, ?r := None)))
       else if hdr_fin h then Some (abs_sessions E ctx3) else Some (abs_sessions E ctx1))"
    by (simp only: tcp_step_def step_key_def absk c1(3) c3(3) Let_def option.case prod.case)
  show ?thesis
  proof (cases "?gone (abs_sessions E ctx1)")
    case True
    then have "abs_sessions E ctx2 = (abs_sessions E ctx1)(k := None, ?r := None)"
      "c_heap ctx2 p = None" using c2(5) by simp_all
    with True c2(2,3,4) show ?thesis unfolding step run by (auto simp: upd_session_def)
  next
    case False
    then have "tcp_track E ctx pc h k p seq = (if hdr_fin h then Inr ctx3 else Inr ctx1)"
      unfolding run using c2(5) c3(1) by auto
    with False c1 c3 show ?thesis unfolding step by auto
  qed
qed

text \<open>
  What the handler relies on from a callback. It may append to the output file, to the log
  (application warnings) and to the byte buffer of its own session.
\<close>

definition cb_frame ::
  "('f, 's, 'b) pfpa_context \<Rightarrow> ptr \<Rightarrow> ('f, 's, 'b) pfpa_context \<Rightarrow> bool" where
  "cb_frame ctx p ctx' \<longleftrightarrow>
     c_tcp_session_dict ctx' = c_tcp_session_dict ctx \<and> c_filter_dict ctx' = c_filter_dict ctx \<and>
     c_enable_fileter ctx' = c_enable_fileter ctx \<and> c_user_data ctx' = c_user_data ctx \<and>
     c_total_pack ctx' = c_total_pack ctx \<and> seq_warnings ctx' = seq_warnings ctx \<and>
     (\<exists>s s'. c_heap ctx p = Some s \<and> c_heap ctx' = (c_heap ctx)(p \<mapsto> s') \<and>
        s_key s' = s_key s \<and> s_status s' = s_status s \<and> s_seq s' = s_seq s)"

definition cb_total ::
  "('f, 's, 'b) pfpa_callbacks \<Rightarrow> pfpa_addr option \<Rightarrow> pfpa_packet_context \<Rightarrow> bool" where
  "cb_total CB ud pc \<longleftrightarrow> (\<forall>cb ctx p. cb_tcp CB = Some cb \<longrightarrow> c_user_data ctx = ud \<longrightarrow>
     c_heap ctx p \<noteq> None \<longrightarrow> is_ok (cb ctx pc p))"

lemma cb_frame_tables:
  assumes "cb_frame ctx p ctx'" "ctx_wf E ctx"
  shows "ctx_wf E ctx' \<and> abs_sessions E ctx' = abs_sessions E ctx"
proof -
  obtain s s' where s: "c_heap ctx p = Some s" "c_heap ctx' = (c_heap ctx)(p \<mapsto> s')"
    "s_key s' = s_key s" "s_status s' = s_status s" "s_seq s' = s_seq s"
    "c_tcp_session_dict ctx' = c_tcp_session_dict ctx"
    using assms(1) by (auto simp: cb_frame_def)
  note upd = heap_upd_ok [OF assms(2) s(1,3,6,2)]
  have "(abs_sessions E ctx)(s_key s \<mapsto> (s_status s', s_seq s')) = abs_sessions E ctx"
    using abs_find [OF assms(2) s(1)] s(4,5) by (simp add: fun_upd_idem)
  with upd show ?thesis by simp
qed

lemma tcp_step_open:
  "tcp_step remote k d h (m(k \<mapsto> step_key m k (ntohl (th_seq h)))) = tcp_step remote k d h m"
  by (auto simp: tcp_step_def step_key_def Let_def split_beta)

text \<open>Finding or creating the session of a packet.\<close>

lemma open_session_ok:
  assumes laws: "hash_table_law (e_sess E)" "malloc_law E" and wf: "ctx_wf E ctx"
    and ok: "abs_sessions E ctx k = None \<Longrightarrow> e_malloc E (c_heap ctx) \<noteq> None"
  shows "\<exists>ctx' p s. (case pfpa_ctx_find_tcp_session E ctx k of
        None \<Rightarrow> tcp_new_session E ctx k h | Some p \<Rightarrow> Inr (ctx, p)) = Inr (ctx', p) \<and>
      ctx_wf E ctx' \<and> c_heap ctx' p = Some s \<and> s_key s = k \<and>
      s_seq s = snd (step_key (abs_sessions E ctx) k (ntohl (th_seq h))) \<and>
      abs_sessions E ctx' = (abs_sessions E ctx)(k \<mapsto> step_key (abs_sessions E ctx) k (ntohl (th_seq h))) \<and>
      c_user_data ctx' = c_user_data ctx \<and> seq_warnings ctx' = seq_warnings ctx"
proof (cases "pfpa_ctx_find_tcp_session E ctx k")
  case None
  with wf have new: "abs_sessions E ctx k = None" by (simp add: abs_None_iff)
  with ok obtain p where "e_malloc E (c_heap ctx) = Some p" by auto
  from new_session_ok [OF laws wf None this, of h] show ?thesis
    using new None by (auto simp: step_key_def)
next
  case (Some p)
  with wf obtain s where s: "c_heap ctx p = Some s" "s_key s = k" by (rule ctx_wf_find)
  moreover have "abs_sessions E ctx k = Some (s_status s, s_seq s)"
    using abs_find [OF wf s(1)] s(2) by simp
  ultimately show ?thesis using Some wf by (auto simp: step_key_def fun_upd_idem)
qed

locale tcp_callback =
  fixes CB :: "('f, 's, 'b) pfpa_callbacks"
  assumes frame: "cb_tcp CB = Some cb \<Longrightarrow> c_heap ctx p = Some s \<Longrightarrow> cb ctx pc p = Inr (ctx', pc') \<Longrightarrow>
    cb_frame ctx p ctx' \<and> p_datalen pc' = p_datalen pc"
begin

lemma call_cases:
  assumes wf: "ctx_wf E ctx" and s: "c_heap ctx p = Some s"
  obtains e where "cb_tcp CB \<noteq> None" "\<not> cb_total CB (c_user_data ctx) pc"
      "(case cb_tcp CB of None \<Rightarrow> Inr (ctx, pc) | Some cb \<Rightarrow> cb ctx pc p) = Inl e"
  | ctx' pc' s' where "(case cb_tcp CB of None \<Rightarrow> Inr (ctx, pc) | Some cb \<Rightarrow> cb ctx pc p) = Inr (ctx', pc')"
      "p_datalen pc' = p_datalen pc" "ctx_wf E ctx'" "abs_sessions E ctx' = abs_sessions E ctx"
      "c_heap ctx' p = Some s'" "s_key s' = s_key s" "seq_warnings ctx' = seq_warnings ctx"
      "c_user_data ctx' = c_user_data ctx"
proof (cases "cb_tcp CB")
  case None
  with that(2) [of ctx pc s] wf s show ?thesis by simp
next
  case (Some cb)
  show ?thesis
  proof (cases "cb ctx pc p")
    case (Inl e)
    with Some s have "\<not> cb_total CB (c_user_data ctx) pc"
      by (force simp: cb_total_def)
    with that(1) [of e] Some Inl show ?thesis by simp
  next
    case (Inr r)
    obtain ctx' pc' where r: "r = (ctx', pc')" by fastforce
    have f: "cb_frame ctx p ctx'" "p_datalen pc' = p_datalen pc"
      using frame [OF Some s, of pc ctx' pc'] Inr r by simp_all
    then obtain s' where "c_heap ctx' p = Some s'" "s_key s' = s_key s"
      "seq_warnings ctx' = seq_warnings ctx" "c_user_data ctx' = c_user_data ctx"
      using s by (auto simp: cb_frame_def)
    with that(2) [of ctx' pc' s'] cb_frame_tables [OF f(1) wf] f(2) Some Inr r
    show ?thesis by simp
  qed
qed

text \<open>Either the packet handler stops with a fault of its environment, or it reaches the tracking part.\<close>

lemma handle_cases:
  assumes laws: "hash_table_law (e_sess E)" "malloc_law E" and wf: "ctx_wf E ctx"
    and k: "k = conn_key_of pc" and m: "m = abs_sessions E ctx"
  obtains e where "pfpa_tcp_packet_handle E CB ctx pc h = Inl e"
      "m k = None \<and> e_malloc E (c_heap ctx) = None \<or> \<not> cb_total CB (c_user_data ctx) pc"
  | ctx' pc' p s where
      "pfpa_tcp_packet_handle E CB ctx pc h = tcp_track E ctx' pc' h k p (ntohl (th_seq h))"
      "ctx_wf E ctx'" "c_heap ctx' p = Some s" "s_key s = k" "p_datalen pc' = p_datalen pc"
      "abs_sessions E ctx' = m(k \<mapsto> step_key m k (ntohl (th_seq h)))"
      "seq_warnings ctx' = seq_warnings ctx @ step_warnings m k (ntohl (th_seq h))"
      "c_user_data ctx' = c_user_data ctx"
proof (cases "m k = None \<and> e_malloc E (c_heap ctx) = None")
  case True
  then have "pfpa_tcp_packet_handle E CB ctx pc h = Inl NullDeref"
    using wf k m by (simp add: pfpa_tcp_packet_handle_def tcp_new_session_def ctx_frame abs_None_iff)
  with True that(1) show ?thesis by blast
next
  case False
  let ?seq = "ntohl (th_seq h)" and ?out = "pfpa_tcp_output ctx pc h"
  obtain ctx1 p s where c1: "(case pfpa_ctx_find_tcp_session E ?out k of
        None \<Rightarrow> tcp_new_session E ?out k h | Some p \<Rightarrow> Inr (?out, p)) = Inr (ctx1, p)"
    "ctx_wf E ctx1" "c_heap ctx1 p = Some s" "s_key s = k" "s_seq s = snd (step_key m k ?seq)"
    "abs_sessions E ctx1 = m(k \<mapsto> step_key m k ?seq)" "c_user_data ctx1 = c_user_data ctx"
    "seq_warnings ctx1 = seq_warnings ctx"
    using open_session_ok [OF laws, of ?out k h] wf m False by (auto simp: ctx_frame)
  define ctx2 where "ctx2 = (if s_seq s \<noteq> ?seq
      then add_log (LogUnexpectedSeq (s_seq s) ?seq (c_total_pack ctx1) k) ctx1 else ctx1)"
  have run: "pfpa_tcp_packet_handle E CB ctx pc h =
      rbind (case cb_tcp CB of None \<Rightarrow> Inr (ctx2, pc) | Some cb \<Rightarrow> cb ctx2 pc p)
        (\<lambda>(ctx, pc). tcp_track E ctx pc h k p ?seq)"
    unfolding pfpa_tcp_packet_handle_def Let_def k [symmetric] c1(1) ctx2_def
    using c1(3) by (simp add: get_session_def)
  have c2: "ctx_wf E ctx2" "c_heap ctx2 p = Some s" "abs_sessions E ctx2 = abs_sessions E ctx1"
    "c_user_data ctx2 = c_user_data ctx"
    "seq_warnings ctx2 = seq_warnings ctx @ step_warnings m k ?seq"
    using c1 by (simp_all add: ctx2_def ctx_frame step_warnings_def Let_def)
  show ?thesis
  proof (cases rule: call_cases [OF c2(1,2), of pc])
    case (1 e)
    with that(1) [of e] c2(4) run show ?thesis by simp
  next
    case (2 ctx' pc' s')
    with that(2) [of ctx' pc' p s'] run c1 c2 show ?thesis by simp
  qed
qed

lemma handle_refines:
  assumes laws: "hash_table_law (e_sess E)" "malloc_law E" and wf: "ctx_wf E ctx"
    and mem: "abs_sessions E ctx (conn_key_of pc) = None \<Longrightarrow> e_malloc E (c_heap ctx) \<noteq> None"
    and total: "cb_total CB (c_user_data ctx) pc"
  shows "case tcp_step (remote_key_of E) (conn_key_of pc) (p_datalen pc) h (abs_sessions E ctx) of
      None \<Rightarrow> pfpa_tcp_packet_handle E CB ctx pc h = Inl UseAfterFree
    | Some m \<Rightarrow> (\<exists>ctx'. pfpa_tcp_packet_handle E CB ctx pc h = Inr ctx' \<and> ctx_wf E ctx' \<and>
        abs_sessions E ctx' = m \<and> seq_warnings ctx' = seq_warnings ctx @
          step_warnings (abs_sessions E ctx) (conn_key_of pc) (ntohl (th_seq h)) \<and>
        c_user_data ctx' = c_user_data ctx)"
proof (cases rule: handle_cases [OF laws wf refl refl, of pc h])
  case (1 e)
  with mem total show ?thesis by auto
next
  case (2 ctx' pc' p s)
  from track_ok [OF laws(1) 2(2,3,4) refl, of pc' h] show ?thesis
    by (auto simp: 2 tcp_step_open split: option.splits)
qed

lemma handle_wf:
  assumes laws: "hash_table_law (e_sess E)" "malloc_law E" and wf: "ctx_wf E ctx"
    and run: "pfpa_tcp_packet_handle E CB ctx pc h = Inr ctx'"
  shows "ctx_wf E ctx' \<and> tcp_step (remote_key_of E) (conn_key_of pc) (p_datalen pc) h
    (abs_sessions E ctx) = Some (abs_sessions E ctx')"
proof (cases rule: handle_cases [OF laws wf refl refl, of pc h])
  case (1 e)
  with run show ?thesis by simp
next
  case (2 ctx2 pc' p s)
  from track_ok [OF laws(1) 2(2,3,4) refl, of pc' h] run show ?thesis
    by (auto simp: 2 tcp_step_open split: option.splits)
qed

end

end
