(* ===== verification/Pfpa_Apps.thy ===== *)
theory Pfpa_Apps
  imports Pfpa_Tcp
begin

text \<open>
  The callbacks of the applications built on pfpa: src/play/c/pfpa/apps/str/str_handle.c prints
  payloads as text, src/play/c/pfpa/apps/tgw/tgw_handle.c prints the headers of TGW messages. The
  application apps/hello sets no callback.

  The byte buffer of a session is a library type. \<open>bytes_buffer_law\<close> says what it promises: its
  content is a queue of bytes, of which a first part is contiguous in memory. The loops of the
  callbacks have fuel; the lemmas show that the fuel they are given is enough.

  Interpretations of \<open>tcp_callback\<close> show that the three applications give the TCP handler a
  callback that respects its contract.
\<close>

section \<open>Printing bytes\<close>

text \<open>
  \<open>printf("%.*s", n, p)\<close>: at most \<open>n\<close> characters, up to a null character; with a negative \<open>n\<close>
  there is no bound. Running past the end of the memory behind \<open>p\<close> is a fault.
\<close>

definition fmt_prec :: "int \<Rightarrow> bytes \<Rightarrow> string result" where
  "fmt_prec n bs =
     (let s = takeWhile (\<lambda>b. b \<noteq> 0) bs
      in if 0 \<le> n \<and> nat n \<le> length s then Inr (chars_of (take (nat n) s))
         else if length s < length bs then Inr (chars_of s)
         else Inl OutOfBounds)"

definition app_line :: "string \<Rightarrow> string" where
  "app_line s = ''  - Application|s='' @ s @ [CHR 0x0A]"

section \<open>The text application\<close>

text \<open>
  Writing \<open>n\<close> bytes of the packet to the buffer of the session, if there is room: the first
  statement of both TCP callbacks. The length is converted to \<open>int\<close>.
\<close>

definition buffer_packet ::
  "'b bytes_buffer \<Rightarrow> pfpa_packet_context \<Rightarrow> 'b \<Rightarrow> 'b result" where
  "buffer_packet B packet_ctx bytes_buf =
     (let n = sint (p_datalen packet_ctx) in
      if bb_writable B bytes_buf \<ge> n
      then (if n \<le> int (length (p_data packet_ctx))
            then Inr (bb_write B bytes_buf n (p_data packet_ctx))
            else Inl OutOfBounds)
      else Inr bytes_buf)"

fun str_loop ::
  "'b bytes_buffer \<Rightarrow> nat \<Rightarrow> 'b \<Rightarrow> string list \<Rightarrow> ('b \<times> string list) result" where
  "str_loop B 0 bytes_buf fp = Inl Diverges"
| "str_loop B (Suc fuel) bytes_buf fp =
     (let readable = bb_contiguous_readable B bytes_buf in
      if readable \<le> 0 then Inr (bytes_buf, fp)
      else case bb_reader_fc B bytes_buf readable of
             None \<Rightarrow> Inr (bytes_buf, fp)
           | Some str \<Rightarrow>
               rbind (fmt_prec readable str) (\<lambda>s.
               str_loop B fuel (bb_reader_move B bytes_buf readable) (fp @ [app_line s])))"

definition on_str_tcp_packet ::
  "('f, 's, 'b) pfpa_env \<Rightarrow> ('f, 's, 'b) pfpa_fn_tcp_callback" where
  "on_str_tcp_packet E ctx packet_ctx session =
     (if p_datalen packet_ctx = 0 then Inr (ctx, packet_ctx)
      else
        rbind (get_session ctx session) (\<lambda>s.
        rbind (buffer_packet (e_bb E) packet_ctx (s_bytes_buf s)) (\<lambda>bytes_buf.
        rbind (str_loop (e_bb E) (nat (bb_readable (e_bb E) bytes_buf) + 1) bytes_buf (c_fp ctx))
          (\<lambda>(bytes_buf, fp).
        rbind (upd_session (ctx\<lparr>c_fp := fp\<rparr>) session (\<lambda>s. s\<lparr>s_bytes_buf := bytes_buf\<rparr>)) (\<lambda>ctx.
        Inr (ctx, packet_ctx))))))"

definition on_str_udp_packet :: "('f, 's, 'b) pfpa_fn_udp_callback" where
  "on_str_udp_packet ctx packet_ctx data datalen =
     rbind (fmt_prec (sint datalen) data) (\<lambda>s. Inr (ctx\<lparr>c_fp := c_fp ctx @ [app_line s]\<rparr>))"

section \<open>The TGW application\<close>

record tgw_hdr =
  MsgType :: u32
  BodyLength :: u32

definition sizeof_tgw_hdr :: nat where
  "sizeof_tgw_hdr = 8"

definition sizeof_tgw_tail :: nat where
  "sizeof_tgw_tail = 4"

definition load_tgw_hdr :: "bytes \<Rightarrow> tgw_hdr result" where
  "load_tgw_hdr b =
     rbind (load32 b 0) (\<lambda>t. rbind (load32 b 4) (\<lambda>l. Inr \<lparr>MsgType = t, BodyLength = l\<rparr>))"

definition tgw_hdr_bytes :: "tgw_hdr \<Rightarrow> bytes" where
  "tgw_hdr_bytes h = bytes32 (MsgType h) @ bytes32 (BodyLength h)"

definition swap_hdr :: "('f, 's, 'b) pfpa_env \<Rightarrow> tgw_hdr \<Rightarrow> tgw_hdr" where
  "swap_hdr E h = h\<lparr>MsgType := e_swap32 E (MsgType h), BodyLength := e_swap32 E (BodyLength h)\<rparr>"

definition tgw_line :: "tgw_hdr \<Rightarrow> string" where
  "tgw_line h = ''  - TGW|MsgType='' @ decw (MsgType h) @ '';BodyLength='' @ decw (BodyLength h) @
     [CHR 0x0A]"

definition tgw_total :: "tgw_hdr \<Rightarrow> nat" where
  "tgw_total h = sizeof_tgw_hdr + unat (BodyLength h) + sizeof_tgw_tail"

text \<open>The header is swapped in place, in the memory of the packet.\<close>

definition handle_tgw_immediate ::
  "('f, 's, 'b) pfpa_env \<Rightarrow> ('f, 's, 'b) pfpa_fn_tcp_callback" where
  "handle_tgw_immediate E ctx packet_ctx session =
     (if unat (p_datalen packet_ctx) < sizeof_tgw_hdr
      then Inr (add_log (LogAppWarning (c_total_pack ctx) ''datalen < sizeof(tgw_hdr_t)'') ctx,
                packet_ctx)
      else
        rbind (load_tgw_hdr (p_data packet_ctx)) (\<lambda>hdr.
        let hdr = swap_hdr E hdr;
            packet_ctx = packet_ctx\<lparr>p_data := tgw_hdr_bytes hdr @ drop 8 (p_data packet_ctx)\<rparr>
        in if unat (p_datalen packet_ctx) = tgw_total hdr
           then Inr (ctx\<lparr>c_fp := c_fp ctx @ [tgw_line hdr]\<rparr>, packet_ctx)
           else Inr (add_log (LogAppWarning (c_total_pack ctx) ''datalen is incorrect'') ctx,
                     packet_ctx)))"

text \<open>
  The reassembling variant. \<open>total_len\<close> is a \<open>size_t\<close> sum stored in an \<open>int\<close>. When the message is
  not contiguous it is read into a temporary block, whose allocation is taken to succeed; when it
  is, the header is swapped in the buffer itself, in bytes that the next statement consumes.
\<close>

definition tgw_take :: "'b bytes_buffer \<Rightarrow> 'b \<Rightarrow> int \<Rightarrow> bytes \<times> 'b" where
  "tgw_take B bytes_buf total_len =
     (case bb_reader_fc B bytes_buf total_len of
        None \<Rightarrow> bb_read B bytes_buf total_len
      | Some p \<Rightarrow> (p, bb_reader_move B bytes_buf total_len))"

fun tgw_loop ::
  "('f, 's, 'b) pfpa_env \<Rightarrow> nat \<Rightarrow> 'b \<Rightarrow> ('f, 's, 'b) pfpa_context \<Rightarrow>
   ('b \<times> ('f, 's, 'b) pfpa_context) result" where
  "tgw_loop E 0 bytes_buf ctx = Inl Diverges"
| "tgw_loop E (Suc fuel) bytes_buf ctx =
     (let B = e_bb E in
      if bb_readable B bytes_buf < int sizeof_tgw_hdr then Inr (bytes_buf, ctx)
      else
        rbind (load_tgw_hdr (bb_fetch B bytes_buf (int sizeof_tgw_hdr))) (\<lambda>tmphdr.
        let tmphdr = swap_hdr E tmphdr;
            total_len = sint (of_nat (tgw_total tmphdr) :: u32)
        in if bb_readable B bytes_buf < total_len
           then Inr (bytes_buf, add_log (LogAppWarning (c_total_pack ctx)
                  (''ignore total len: '' @ deci total_len)) ctx)
           else
             let (block, bytes_buf) = tgw_take B bytes_buf total_len
             in rbind (load_tgw_hdr block) (\<lambda>hdr.
                tgw_loop E fuel bytes_buf (ctx\<lparr>c_fp := c_fp ctx @ [tgw_line (swap_hdr E hdr)]\<rparr>))))"

definition handle_tgw ::
  "('f, 's, 'b) pfpa_env \<Rightarrow> ('f, 's, 'b) pfpa_fn_tcp_callback" where
  "handle_tgw E ctx packet_ctx session =
     rbind (get_session ctx session) (\<lambda>s.
     rbind (buffer_packet (e_bb E) packet_ctx (s_bytes_buf s)) (\<lambda>bytes_buf.
     rbind (tgw_loop E (nat (bb_readable (e_bb E) bytes_buf) + 1) bytes_buf ctx)
       (\<lambda>(bytes_buf, ctx).
     rbind (upd_session ctx session (\<lambda>s. s\<lparr>s_bytes_buf := bytes_buf\<rparr>)) (\<lambda>ctx.
     Inr (ctx, packet_ctx)))))"

definition on_tcp_packet ::
  "('f, 's, 'b) pfpa_env \<Rightarrow> ('f, 's, 'b) pfpa_fn_tcp_callback" where
  "on_tcp_packet E ctx packet_ctx session =
     (if p_datalen packet_ctx = 0 then Inr (ctx, packet_ctx)
      else
        rbind (get_session ctx session) (\<lambda>s.
        case c_user_data ctx of
          None \<Rightarrow> Inl NullDeref
        | Some match_addr \<Rightarrow>
            if memcmp (addr_bytes (k_src (s_key s))) (addr_bytes match_addr) \<noteq> 0 \<and>
               memcmp (addr_bytes (k_dst (s_key s))) (addr_bytes match_addr) \<noteq> 0
            then Inr (ctx, packet_ctx)
            else if True then handle_tgw_immediate E ctx packet_ctx session
            else handle_tgw E ctx packet_ctx session))"

section \<open>The callbacks of the applications keep the contract of the handler\<close>

definition hello_callbacks :: "('f, 's, 'b) pfpa_callbacks" where
  "hello_callbacks = \<lparr>cb_tcp = None, cb_udp = None\<rparr>"

definition str_callbacks :: "('f, 's, 'b) pfpa_env \<Rightarrow> ('f, 's, 'b) pfpa_callbacks" where
  "str_callbacks E = \<lparr>cb_tcp = Some (on_str_tcp_packet E), cb_udp = Some on_str_udp_packet\<rparr>"

definition tgw_callbacks :: "('f, 's, 'b) pfpa_env \<Rightarrow> ('f, 's, 'b) pfpa_callbacks" where
  "tgw_callbacks E = \<lparr>cb_tcp = Some (on_tcp_packet E), cb_udp = None\<rparr>"

lemma cb_frame_refl: "c_heap ctx p = Some s \<Longrightarrow> cb_frame ctx p ctx"
  unfolding cb_frame_def by (intro conjI exI [of _ s]) auto

lemma cb_frame_output:
  assumes "c_heap ctx p = Some s"
  shows "cb_frame ctx p (ctx\<lparr>c_fp := f\<rparr>)" "cb_frame ctx p (add_log (LogAppWarning n w) ctx)"
  using cb_frame_refl [OF assms] by (simp_all add: cb_frame_def add_log_def seq_warnings_def)

lemma cb_frame_buffer:
  assumes "c_heap ctx p = Some s"
    and "upd_session (ctx\<lparr>c_fp := f\<rparr>) p (\<lambda>s. s\<lparr>s_bytes_buf := b\<rparr>) = Inr ctx'"
  shows "cb_frame ctx p ctx'"
proof -
  have "ctx' = ctx\<lparr>c_fp := f, c_heap := (c_heap ctx)(p \<mapsto> s\<lparr>s_bytes_buf := b\<rparr>)\<rparr>"
    using assms by (simp add: upd_session_def)
  then show ?thesis
    unfolding cb_frame_def using assms(1)
    by (intro conjI exI [of _ s] exI [of _ "s\<lparr>s_bytes_buf := b\<rparr>"]) (simp_all add: seq_warnings_def)
qed

lemma str_cb_frame:
  assumes s: "c_heap ctx p = Some s" and run: "on_str_tcp_packet E ctx pc p = Inr (ctx', pc')"
  shows "cb_frame ctx p ctx' \<and> p_datalen pc' = p_datalen pc"
proof (cases "p_datalen pc = 0")
  case True
  with run cb_frame_refl [OF s] show ?thesis by (simp add: on_str_tcp_packet_def)
next
  case False
  with run s obtain f b where "upd_session (ctx\<lparr>c_fp := f\<rparr>) p (\<lambda>s. s\<lparr>s_bytes_buf := b\<rparr>) = Inr ctx'"
    "pc' = pc" by (auto simp: on_str_tcp_packet_def rbind_Inr_iff)
  with cb_frame_buffer [OF s] show ?thesis by blast
qed

lemma immediate_frame:
  assumes s: "c_heap ctx p = Some s" and run: "handle_tgw_immediate E ctx pc p = Inr (ctx', pc')"
  shows "cb_frame ctx p ctx' \<and> p_datalen pc' = p_datalen pc"
  using run cb_frame_output [OF s]
  by (auto simp: handle_tgw_immediate_def rbind_Inr_iff Let_def split: if_splits)

lemma tgw_cb_frame:
  assumes s: "c_heap ctx p = Some s" and run: "on_tcp_packet E ctx pc p = Inr (ctx', pc')"
  shows "cb_frame ctx p ctx' \<and> p_datalen pc' = p_datalen pc"
proof (cases "handle_tgw_immediate E ctx pc p = Inr (ctx', pc')")
  case True
  with s show ?thesis by (rule immediate_frame)
next
  case False
  with run have "ctx' = ctx" "pc' = pc"
    by (simp_all add: on_tcp_packet_def rbind_Inr_iff split: if_split_asm option.split_asm) blast+
  with cb_frame_refl [OF s] show ?thesis by simp
qed

interpretation hello: tcp_callback hello_callbacks
  by unfold_locales (simp add: hello_callbacks_def)

interpretation str: tcp_callback "str_callbacks E" for E
proof
  fix cb ctx p s pc ctx' pc'
  assume "cb_tcp (str_callbacks E) = Some cb" "c_heap ctx p = Some s" "cb ctx pc p = Inr (ctx', pc')"
  then show "cb_frame ctx p ctx' \<and> p_datalen pc' = p_datalen pc"
    using str_cb_frame [of ctx p s E pc ctx' pc'] by (auto simp: str_callbacks_def)
qed

interpretation tgw: tcp_callback "tgw_callbacks E" for E
proof
  fix cb ctx p s pc ctx' pc'
  assume "cb_tcp (tgw_callbacks E) = Some cb" "c_heap ctx p = Some s" "cb ctx pc p = Inr (ctx', pc')"
  then show "cb_frame ctx p ctx' \<and> p_datalen pc' = p_datalen pc"
    using tgw_cb_frame [of ctx p s E pc ctx' pc'] by (auto simp: tgw_callbacks_def)
qed

section \<open>The byte buffer\<close>

text \<open>
  What the byte buffer promises, in terms of the bytes it holds: writing within the writable space
  appends, reading and moving the reader remove from the front, a contiguous fetch returns the
  front, and a buffer that is not empty has a contiguous part that is not empty.
\<close>

definition bytes_buffer_law :: "'b bytes_buffer \<Rightarrow> ('b \<Rightarrow> bytes) \<Rightarrow> bool" where
  "bytes_buffer_law B content \<longleftrightarrow>
     (\<forall>n. content (bb_init B n) = []) \<and>
     (\<forall>b. bb_readable B b = int (length (content b))) \<and>
     (\<forall>b n d. 0 \<le> n \<and> n \<le> bb_writable B b \<and> n \<le> int (length d) \<longrightarrow>
        content (bb_write B b n d) = content b @ take (nat n) d) \<and>
     (\<forall>b. 0 \<le> bb_contiguous_readable B b \<and>
        bb_contiguous_readable B b \<le> int (length (content b)) \<and>
        (bb_contiguous_readable B b = 0 \<longrightarrow> content b = [])) \<and>
     (\<forall>b n. 0 < n \<and> n \<le> bb_contiguous_readable B b \<longrightarrow> bb_reader_fc B b n \<noteq> None) \<and>
     (\<forall>b n p. 0 < n \<and> bb_reader_fc B b n = Some p \<longrightarrow> p = take (nat n) (content b)) \<and>
     (\<forall>b n. 0 < n \<and> n \<le> int (length (content b)) \<longrightarrow>
        content (bb_reader_move B b n) = drop (nat n) (content b) \<and>
        bb_fetch B b n = take (nat n) (content b) \<and>
        fst (bb_read B b n) = take (nat n) (content b) \<and>
        content (snd (bb_read B b n)) = drop (nat n) (content b))"

lemma bb_law_simps:
  assumes "bytes_buffer_law B content"
  shows "bb_readable B b = int (length (content b))"
    "int m \<le> bb_writable B b \<Longrightarrow> m \<le> length d \<Longrightarrow>
     content (bb_write B b (int m) d) = content b @ take m d"
  using assms by (simp_all add: bytes_buffer_law_def)

lemma bb_law_contiguous:
  assumes law: "bytes_buffer_law B content"
  obtains n where "bb_contiguous_readable B b = int n" "n \<le> length (content b)"
    "n = 0 \<longrightarrow> content b = []" "0 < n \<longrightarrow> bb_reader_fc B b (int n) = Some (take n (content b))"
proof -
  let ?c = "bb_contiguous_readable B b"
  have c: "0 \<le> ?c" "?c \<le> int (length (content b))" "?c = 0 \<longrightarrow> content b = []"
    using law unfolding bytes_buffer_law_def by blast+
  have "bb_reader_fc B b ?c \<noteq> None" if "0 < ?c"
    using law that unfolding bytes_buffer_law_def by blast
  moreover have "p = take (nat ?c) (content b)" if "0 < ?c" "bb_reader_fc B b ?c = Some p" for p
    using law that unfolding bytes_buffer_law_def by blast
  ultimately have "0 < ?c \<Longrightarrow> bb_reader_fc B b ?c = Some (take (nat ?c) (content b))" by blast
  with c that [of "nat ?c"] show ?thesis by auto
qed

lemma bb_law_front:
  assumes law: "bytes_buffer_law B content" and "0 < n" "n \<le> length (content b)"
  shows "content (bb_reader_move B b (int n)) = drop n (content b)"
    "bb_fetch B b (int n) = take n (content b)"
    "fst (bb_read B b (int n)) = take n (content b)"
    "content (snd (bb_read B b (int n))) = drop n (content b)"
    "bb_reader_fc B b (int n) = Some p \<Longrightarrow> p = take n (content b)"
proof -
  have "0 < int n \<and> int n \<le> int (length (content b)) \<longrightarrow>
      content (bb_reader_move B b (int n)) = drop (nat (int n)) (content b) \<and>
      bb_fetch B b (int n) = take (nat (int n)) (content b) \<and>
      fst (bb_read B b (int n)) = take (nat (int n)) (content b) \<and>
      content (snd (bb_read B b (int n))) = drop (nat (int n)) (content b)"
    using law unfolding bytes_buffer_law_def by blast
  then show "content (bb_reader_move B b (int n)) = drop n (content b)"
    "bb_fetch B b (int n) = take n (content b)"
    "fst (bb_read B b (int n)) = take n (content b)"
    "content (snd (bb_read B b (int n))) = drop n (content b)"
    using assms(2,3) by simp_all
  have "0 < int n \<and> bb_reader_fc B b (int n) = Some p \<longrightarrow> p = take (nat (int n)) (content b)"
    using law unfolding bytes_buffer_law_def by blast
  then show "bb_reader_fc B b (int n) = Some p \<Longrightarrow> p = take n (content b)"
    using assms(2) by simp
qed

definition cstr :: "bytes \<Rightarrow> string" where
  "cstr bs = chars_of (takeWhile (\<lambda>b. b \<noteq> 0) bs)"

lemma fmt_prec_all: "fmt_prec (int (length bs)) bs = Inr (cstr bs)"
proof -
  have "length (takeWhile (\<lambda>b. b \<noteq> 0) bs) \<le> length bs" by (rule length_takeWhile_le)
  then show ?thesis by (auto simp: fmt_prec_def cstr_def Let_def)
qed

lemma str_loop_ok:
  assumes law: "bytes_buffer_law B content" and "length (content b) < fuel"
  shows "\<exists>b' pieces. str_loop B fuel b fp = Inr (b', fp @ map (\<lambda>x. app_line (cstr x)) pieces) \<and>
    content b' = [] \<and> concat pieces = content b"
  using assms(2)
proof (induction fuel arbitrary: b fp)
  case (Suc fuel)
  obtain n where n: "bb_contiguous_readable B b = int n" "n \<le> length (content b)"
    "n = 0 \<longrightarrow> content b = []" "0 < n \<longrightarrow> bb_reader_fc B b (int n) = Some (take n (content b))"
    by (rule bb_law_contiguous [OF law, of b])
  show ?case
  proof (cases "n = 0")
    case True
    with n show ?thesis by (intro exI [of _ b] exI [of _ "[]"]) simp
  next
    case False
    let ?s = "take n (content b)" and ?b = "bb_reader_move B b (int n)"
    have mv: "content ?b = drop n (content b)" using bb_law_front(1) [OF law, of n b] n(2) False by simp
    have shorter: "length (content ?b) < fuel" using mv Suc.prems n(2) False by simp
    have fmt: "fmt_prec (int n) ?s = Inr (cstr ?s)"
      using fmt_prec_all [of ?s] n(2) by (simp add: min_absorb2)
    obtain b' pieces where "str_loop B fuel ?b (fp @ [app_line (cstr ?s)]) =
        Inr (b', (fp @ [app_line (cstr ?s)]) @ map (\<lambda>x. app_line (cstr x)) pieces)"
      "content b' = []" "concat pieces = content ?b"
      using Suc.IH [OF shorter, of "fp @ [app_line (cstr ?s)]"] by blast
    with n(1,4) fmt mv False show ?thesis
      by (intro exI [of _ b'] exI [of _ "?s # pieces"]) simp
  qed
qed simp

text \<open>
  The text application prints the payload of each TCP packet: when the packet fits the buffer
  of its session, which is empty between packets, the callback ends without a fault, prints the
  payload cut into consecutive pieces, one line each (a piece up to its first null character), and
  leaves the buffer empty again.
\<close>

theorem str_prints_payload:
  assumes law: "bytes_buffer_law (e_bb E) content"
    and s: "c_heap ctx p = Some s" "content (s_bytes_buf s) = []"
    and room: "int (unat (p_datalen pc)) \<le> bb_writable (e_bb E) (s_bytes_buf s)"
    and len: "unat (p_datalen pc) \<le> length (p_data pc)" "unat (p_datalen pc) < 2 ^ 31"
  shows "\<exists>ctx' pieces s'. on_str_tcp_packet E ctx pc p = Inr (ctx', pc) \<and>
    c_fp ctx' = c_fp ctx @ map (\<lambda>x. app_line (cstr x)) pieces \<and>
    concat pieces = take (unat (p_datalen pc)) (p_data pc) \<and>
    c_heap ctx' p = Some s' \<and> content (s_bytes_buf s') = []"
proof (cases "p_datalen pc = 0")
  case True
  with s show ?thesis
    by (intro exI [of _ ctx] exI [of _ "[]"] exI [of _ s]) (simp add: on_str_tcp_packet_def)
next
  case False
  define n where "n = unat (p_datalen pc)"
  let ?b = "bb_write (e_bb E) (s_bytes_buf s) (int n) (p_data pc)"
  have sint: "sint (p_datalen pc) = int n" using sint_u32_small len(2) by (simp only: n_def)
  have content: "content ?b = take n (p_data pc)"
    using bb_law_simps(2) [OF law] room len(1) s(2) by (simp only: n_def append_Nil)
  obtain b' pieces where "str_loop (e_bb E) (length (content ?b) + 1) ?b (c_fp ctx) =
      Inr (b', c_fp ctx @ map (\<lambda>x. app_line (cstr x)) pieces)"
    "content b' = []" "concat pieces = content ?b"
    using str_loop_ok [OF law less_add_one, of ?b "c_fp ctx"] by blast
  moreover have "buffer_packet (e_bb E) pc (s_bytes_buf s) = Inr ?b"
    using room len(1) by (simp add: buffer_packet_def sint n_def [symmetric])
  ultimately show ?thesis
    using False s(1) content bb_law_simps(1) [OF law, of ?b]
    by (simp add: on_str_tcp_packet_def get_session_def upd_session_def n_def [symmetric]
        del: str_loop.simps) blast
qed

section \<open>TGW messages\<close>

definition swap_law :: "('f, 's, 'b) pfpa_env \<Rightarrow> bool" where
  "swap_law E \<longleftrightarrow> (\<forall>w. e_swap32 E (e_swap32 E w) = w)"

text \<open>A message on the wire: header in the other byte order, body, four bytes of checksum.\<close>

type_synonym tgw_msg = "u32 \<times> bytes \<times> u32"

definition msg_hdr :: "tgw_msg \<Rightarrow> tgw_hdr" where
  "msg_hdr m = (case m of (t, body, _) \<Rightarrow> \<lparr>MsgType = t, BodyLength = of_nat (length body)\<rparr>)"

definition msg_bytes :: "('f, 's, 'b) pfpa_env \<Rightarrow> tgw_msg \<Rightarrow> bytes" where
  "msg_bytes E m = (case m of (t, body, checksum) \<Rightarrow>
     tgw_hdr_bytes (swap_hdr E (msg_hdr m)) @ body @ bytes32 checksum)"

definition msg_fits :: "tgw_msg \<Rightarrow> bool" where
  "msg_fits m \<longleftrightarrow> length (fst (snd m)) + 12 < 2 ^ 31"

lemma swap_hdr_swap: "swap_law E \<Longrightarrow> swap_hdr E (swap_hdr E h) = h"
  by (simp add: swap_law_def swap_hdr_def)

lemma load_hdr_bytes: "load_tgw_hdr (tgw_hdr_bytes h @ xs) = Inr h"
  using load32_append [of "[]" 0 "MsgType h" "bytes32 (BodyLength h) @ xs"]
    load32_append [of "bytes32 (MsgType h)" 4 "BodyLength h" xs]
  by (simp add: load_tgw_hdr_def tgw_hdr_bytes_def)

lemma load_hdr_take:
  "8 \<le> n \<Longrightarrow> load_tgw_hdr (take n bs) = load_tgw_hdr bs"
  by (cases "8 \<le> length bs") (auto simp: load_tgw_hdr_def load32_def min_def)

lemma length_hdr_bytes [simp]: "length (tgw_hdr_bytes h) = 8"
  by (simp add: tgw_hdr_bytes_def)

lemma length_msg_bytes: "msg_fits m \<Longrightarrow> length (msg_bytes E m) = tgw_total (msg_hdr m)"
  by (cases m) (simp add: msg_bytes_def msg_hdr_def tgw_total_def msg_fits_def
      sizeof_tgw_hdr_def sizeof_tgw_tail_def unat_of_nat_u32)

text \<open>
  A TGW message that arrives alone in a TCP segment is recognised: the header printed is the
  header of the message, whatever its type, body and checksum.
\<close>

theorem tgw_immediate_roundtrip:
  assumes "swap_law E" "msg_fits m" "p_datalen pc = of_nat (length (msg_bytes E m))"
    "p_data pc = msg_bytes E m @ padding"
  shows "\<exists>ctx' pc'. handle_tgw_immediate E ctx pc p = Inr (ctx', pc') \<and>
    c_fp ctx' = c_fp ctx @ [tgw_line (msg_hdr m)] \<and> c_log ctx' = c_log ctx"
proof -
  have "tgw_total (msg_hdr m) < 2 ^ 32"
    using assms(2) by (cases m) (simp add: tgw_total_def msg_hdr_def msg_fits_def
        sizeof_tgw_hdr_def sizeof_tgw_tail_def unat_of_nat_u32)
  then have len: "unat (p_datalen pc) = tgw_total (msg_hdr m)"
    using assms(3) by (simp only: length_msg_bytes [OF assms(2)] unat_of_nat_u32)
  have "load_tgw_hdr (p_data pc) = Inr (swap_hdr E (msg_hdr m))"
    using load_hdr_bytes by (cases m) (simp add: assms(4) msg_bytes_def)
  then show ?thesis
    using len swap_hdr_swap [OF assms(1)]
    by (simp add: handle_tgw_immediate_def Let_def tgw_total_def sizeof_tgw_hdr_def)
qed

lemma msg_bytes_load: "load_tgw_hdr (msg_bytes E m @ xs) = Inr (swap_hdr E (msg_hdr m))"
  using load_hdr_bytes by (cases m) (simp add: msg_bytes_def)

lemma msg_total:
  "msg_fits m \<Longrightarrow> 12 \<le> tgw_total (msg_hdr m) \<and> tgw_total (msg_hdr m) < 2 ^ 31"
  by (cases m) (simp add: msg_fits_def msg_hdr_def tgw_total_def sizeof_tgw_hdr_def
      sizeof_tgw_tail_def unat_of_nat_u32)

text \<open>One round of the reassembling loop on a buffer that starts with a complete message.\<close>

lemma tgw_loop_msg:
  assumes law: "bytes_buffer_law (e_bb E) content" and sw: "swap_law E" and fits: "msg_fits m"
    and b: "content b = msg_bytes E m @ xs"
  shows "\<exists>b'. content b' = xs \<and> tgw_loop E (Suc fuel) b ctx =
    tgw_loop E fuel b' (ctx\<lparr>c_fp := c_fp ctx @ [tgw_line (msg_hdr m)]\<rparr>)"
proof -
  let ?n = "tgw_total (msg_hdr m)" and ?B = "e_bb E"
  have n: "12 \<le> ?n" "?n < 2 ^ 31" "?n \<le> length (content b)" "8 \<le> length (content b)"
    using msg_total [OF fits] length_msg_bytes [OF fits, of E] b by simp_all
  define r where "r = tgw_take ?B b (int ?n)"
  have "0 < ?n" using n(1) by simp
  note front = bb_law_front [OF law this n(3)]
  have r: "fst r = take ?n (content b)" "content (snd r) = drop ?n (content b)"
    using front by (auto simp: r_def tgw_take_def split: option.splits)
  have fetch: "bb_fetch ?B b 8 = take 8 (content b)"
    using bb_law_front(2) [OF law, of 8 b] n(4) by simp
  have hd: "load_tgw_hdr (bb_fetch ?B b 8) = Inr (swap_hdr E (msg_hdr m))"
    "load_tgw_hdr (fst r) = Inr (swap_hdr E (msg_hdr m))"
    using n(1) load_hdr_take [of _ "content b"] msg_bytes_load [of E m xs]
    by (simp_all add: fetch r b [symmetric] del: take_append)
  have "tgw_loop E (Suc fuel) b ctx =
      tgw_loop E fuel (snd r) (ctx\<lparr>c_fp := c_fp ctx @ [tgw_line (msg_hdr m)]\<rparr>)"
    using n hd swap_hdr_swap [OF sw]
    by (simp add: bb_law_simps(1) [OF law] sizeof_tgw_hdr_def sint_of_nat_u32 Let_def split_beta
        r_def [symmetric])
  with r(2) show ?thesis
    using length_msg_bytes [OF fits, of E] b by (intro exI [of _ "snd r"]) simp
qed

text \<open>A buffer that holds less than one complete message.\<close>

definition msg_incomplete :: "('f, 's, 'b) pfpa_env \<Rightarrow> bytes \<Rightarrow> bool" where
  "msg_incomplete E bs \<longleftrightarrow> length bs < 8 \<or>
     (\<exists>m ys. msg_fits m \<and> msg_bytes E m = bs @ ys \<and> ys \<noteq> [])"

lemma tgw_loop_rest:
  assumes law: "bytes_buffer_law (e_bb E) content" and sw: "swap_law E"
    and rest: "msg_incomplete E (content b)"
  shows "\<exists>ctx'. tgw_loop E (Suc fuel) b ctx = Inr (b, ctx') \<and> c_fp ctx' = c_fp ctx \<and>
    c_heap ctx' = c_heap ctx"
proof (cases "length (content b) < 8")
  case True
  then show ?thesis by (simp add: bb_law_simps(1) [OF law] sizeof_tgw_hdr_def)
next
  case False
  with rest obtain m ys where m: "msg_fits m" "msg_bytes E m = content b @ ys" "ys \<noteq> []"
    by (auto simp: msg_incomplete_def)
  let ?n = "tgw_total (msg_hdr m)"
  have n: "?n < 2 ^ 31" "length (content b) < ?n"
    using msg_total [OF m(1)] length_msg_bytes [OF m(1), of E] m(2,3) by (cases ys; simp)+
  have "bb_fetch (e_bb E) b 8 = take 8 (content b)"
    using bb_law_front(2) [OF law, of 8 b] False by simp
  also have "\<dots> = take 8 (msg_bytes E m)" using m(2) False by simp
  finally have "load_tgw_hdr (bb_fetch (e_bb E) b 8) = Inr (swap_hdr E (msg_hdr m))"
    using msg_bytes_load [of E m "[]"] by (simp add: load_hdr_take)
  then show ?thesis
    using False n swap_hdr_swap [OF sw]
    by (simp add: bb_law_simps(1) [OF law] sizeof_tgw_hdr_def sint_of_nat_u32 Let_def add_log_def)
qed

lemma tgw_loop_msgs:
  assumes law: "bytes_buffer_law (e_bb E) content" and sw: "swap_law E"
    and "\<forall>m \<in> set ms. msg_fits m" "content b = concat (map (msg_bytes E) ms) @ rest"
    and rest: "msg_incomplete E rest" and "length ms < fuel"
  shows "\<exists>b' ctx'. tgw_loop E fuel b ctx = Inr (b', ctx') \<and> content b' = rest \<and>
    c_fp ctx' = c_fp ctx @ map (\<lambda>m. tgw_line (msg_hdr m)) ms \<and> c_heap ctx' = c_heap ctx"
  using assms(3,4,6)
proof (induction ms arbitrary: b ctx fuel)
  case Nil
  then obtain f where "fuel = Suc f" by (cases fuel) auto
  with Nil tgw_loop_rest [OF law sw, of b f ctx] rest show ?case by auto
next
  case (Cons m ms)
  then obtain f where f: "fuel = Suc f" by (cases fuel) auto
  have fits: "msg_fits m"
    and b: "content b = msg_bytes E m @ (concat (map (msg_bytes E) ms) @ rest)"
    using Cons.prems(1,2) by simp_all
  obtain b1 where b1: "content b1 = concat (map (msg_bytes E) ms) @ rest"
    "tgw_loop E fuel b ctx = tgw_loop E f b1 (ctx\<lparr>c_fp := c_fp ctx @ [tgw_line (msg_hdr m)]\<rparr>)"
    using tgw_loop_msg [OF law sw fits b] f by blast
  with Cons.IH [of b1 f "ctx\<lparr>c_fp := c_fp ctx @ [tgw_line (msg_hdr m)]\<rparr>"] Cons.prems f
  show ?case by auto
qed

lemma length_concat_msgs:
  "\<forall>m \<in> set ms. msg_fits m \<Longrightarrow> length ms \<le> length (concat (map (msg_bytes E) ms))"
proof (induction ms)
  case (Cons m ms)
  then show ?case using msg_total [of m] length_msg_bytes [of m E] by simp
qed simp

text \<open>
  The reassembling TGW handler finds the messages of the byte stream: if the bytes kept from
  earlier segments followed by the payload are the messages \<open>ms\<close> and an incomplete rest, it prints
  the headers of exactly \<open>ms\<close> in their order and keeps the rest for the next segment.
\<close>

theorem tgw_reassembles:
  assumes law: "bytes_buffer_law (e_bb E) content" and sw: "swap_law E"
    and s: "c_heap ctx p = Some s"
    and room: "int (unat (p_datalen pc)) \<le> bb_writable (e_bb E) (s_bytes_buf s)"
    and len: "unat (p_datalen pc) \<le> length (p_data pc)" "unat (p_datalen pc) < 2 ^ 31"
    and ms: "\<forall>m \<in> set ms. msg_fits m" and rest: "msg_incomplete E rest"
    and stream: "content (s_bytes_buf s) @ take (unat (p_datalen pc)) (p_data pc) =
      concat (map (msg_bytes E) ms) @ rest"
  shows "\<exists>ctx' s'. handle_tgw E ctx pc p = Inr (ctx', pc) \<and>
    c_fp ctx' = c_fp ctx @ map (\<lambda>m. tgw_line (msg_hdr m)) ms \<and>
    c_heap ctx' p = Some s' \<and> content (s_bytes_buf s') = rest"
proof -
  define n where "n = unat (p_datalen pc)"
  let ?b = "bb_write (e_bb E) (s_bytes_buf s) (int n) (p_data pc)"
  have sint: "sint (p_datalen pc) = int n" using sint_u32_small len(2) by (simp only: n_def)
  have content: "content ?b = concat (map (msg_bytes E) ms) @ rest"
    using bb_law_simps(2) [OF law] room len(1) stream by (simp only: n_def)
  have wr: "buffer_packet (e_bb E) pc (s_bytes_buf s) = Inr ?b"
    using room len(1) by (simp add: buffer_packet_def sint n_def [symmetric])
  let ?fuel = "nat (bb_readable (e_bb E) ?b) + 1"
  have "length ms < ?fuel"
    using length_concat_msgs [OF ms, of E] content by (simp add: bb_law_simps(1) [OF law])
  then obtain b' ctx' where loop: "tgw_loop E ?fuel ?b ctx = Inr (b', ctx')" "content b' = rest"
    "c_fp ctx' = c_fp ctx @ map (\<lambda>m. tgw_line (msg_hdr m)) ms" "c_heap ctx' = c_heap ctx"
    using tgw_loop_msgs [OF law sw ms content rest, of ?fuel ctx] by blast
  then show ?thesis
    using s wr by (simp add: handle_tgw_def get_session_def upd_session_def del: tgw_loop.simps)
qed

end
