(* ===== verification/Pfpa_Pcap.thy ===== *)
theory Pfpa_Pcap
  imports Pfpa_Apps
begin

text \<open>
  Packet decoding: src/play/c/pfpa/pfpa/pfpa_pcap_handle.c and pfpa_udp_handle.c.

  A captured packet is the list of its captured bytes. The C code overlays header structures on the
  packet without comparing with the capture length; here each field is loaded at its offset when
  the code reads it, and a load past the captured bytes is the fault \<open>OutOfBounds\<close>.

  The properties show that a complete frame is decoded to the fields and the payload it was built
  from, whatever options its headers have and however many padding bytes the link layer appended,
  and what the length computation does when the lengths in the headers are inconsistent.
\<close>

record pcap_pkthdr =
  tv_sec :: u32
  tv_usec :: u32
  caplen :: u32
  pkt_len :: u32

section \<open>UDP\<close>

definition pfpa_udp_output ::
  "('f, 's, 'b) pfpa_context \<Rightarrow> pfpa_packet_context \<Rightarrow> ('f, 's, 'b) pfpa_context" where
  "pfpa_udp_output ctx packet_ctx =
     ctx\<lparr>c_fp := c_fp ctx @
       [''  - UDP|sport='' @ decw (p_src_port packet_ctx) @
        '';dport='' @ decw (p_dst_port packet_ctx) @
        '';uhl='' @ dec 8 @ '';datalen='' @ decw (p_datalen packet_ctx) @ [CHR 0x0A]]\<rparr>"

definition pfpa_udp_packet_handle ::
  "('f, 's, 'b) pfpa_callbacks \<Rightarrow> ('f, 's, 'b) pfpa_context \<Rightarrow> pfpa_packet_context \<Rightarrow>
   ('f, 's, 'b) pfpa_context result" where
  "pfpa_udp_packet_handle CB ctx packet_ctx =
     (let ctx = pfpa_udp_output ctx packet_ctx in
      case cb_udp CB of
        None \<Rightarrow> Inr ctx
      | Some cb \<Rightarrow> cb ctx packet_ctx (p_data packet_ctx) (p_datalen packet_ctx))"

section \<open>The IP layer\<close>

definition inet_ntop :: "u32 \<Rightarrow> string" where
  "inet_ntop a = (case bytes32 a of [b0, b1, b2, b3] \<Rightarrow>
     decw b0 @ ''.'' @ decw b1 @ ''.'' @ decw b2 @ ''.'' @ decw b3)"

definition mac_string :: "bytes \<Rightarrow> string" where
  "mac_string m = (case m of [a, b, c, d, e, f] \<Rightarrow>
     hex2 a @ '':'' @ hex2 b @ '':'' @ hex2 c @ '':'' @ hex2 d @ '':'' @ hex2 e @ '':'' @ hex2 f)"

definition pfpa_output_ip_infos ::
  "('f, 's, 'b) pfpa_context \<Rightarrow> pfpa_packet_context \<Rightarrow> pcap_pkthdr \<Rightarrow> bytes \<Rightarrow> u8 \<Rightarrow> u32 \<Rightarrow> u32 \<Rightarrow>
   u32 \<Rightarrow> ('f, 's, 'b) pfpa_context" where
  "pfpa_output_ip_infos ctx packet_ctx pcap_hdr packet ihl eth_padding ip_hdr_len ip_len =
     ctx\<lparr>c_fp := c_fp ctx @
       [''['' @ decw (c_total_pack ctx) @ '']|ts='' @
          pad0 2 (deci (tm_hour (p_t packet_ctx))) @ '':'' @
          pad0 2 (deci (tm_min (p_t packet_ctx))) @ '':'' @
          pad0 2 (deci (tm_sec (p_t packet_ctx))) @ ''.'' @ pad0 9 (decw (p_ns packet_ctx)) @ '';'' @
          p_src_ip packet_ctx @ '':'' @ decw (p_src_port packet_ctx) @ ''->'' @
          p_dst_ip packet_ctx @ '':'' @ decw (p_dst_port packet_ctx) @
          '';caplen='' @ decw (caplen pcap_hdr) @ '';len='' @ decw (pkt_len pcap_hdr) @ [CHR 0x0A],
        ''  - ether|dst='' @ mac_string (take 6 packet) @
          '';src='' @ mac_string (take 6 (drop 6 packet)) @
          '';ehl='' @ dec 14 @ '';padding='' @ decw eth_padding @ [CHR 0x0A],
        ''  - IPv4|saddr='' @ p_src_ip packet_ctx @ '';daddr='' @ p_dst_ip packet_ctx @
          '';ihl='' @ decw ihl @ ''('' @ decw ip_hdr_len @ '');tot_len='' @ decw ip_len @ '';'' @
          [CHR 0x0A]]\<rparr>"

text \<open>The rest of the TCP header, which the TCP handler reads.\<close>

definition load_tcphdr :: "bytes \<Rightarrow> nat \<Rightarrow> tcphdr result" where
  "load_tcphdr packet ofs =
     rbind (load16 packet ofs) (\<lambda>sport.
     rbind (load16 packet (ofs + 2)) (\<lambda>dport.
     rbind (load32 packet (ofs + 4)) (\<lambda>seq.
     rbind (load32 packet (ofs + 8)) (\<lambda>ack_seq.
     rbind (load8 packet (ofs + 12)) (\<lambda>off.
     rbind (load8 packet (ofs + 13)) (\<lambda>flags.
     Inr \<lparr>th_sport = sport, th_dport = dport, th_seq = seq, th_ack_seq = ack_seq,
          th_off = drop_bit 4 off, th_flags = flags\<rparr>))))))"

text \<open>
  Bytes behind the IP packet (\<open>total_len\<close> is the length of the IP packet with its Ethernet header),
  and the length of the TCP payload. The C expression mixes \<open>uint32_t\<close> and \<open>size_t\<close>; its value is
  stored in a \<open>uint32_t\<close>, so it is computed modulo \<open>2 ^ 32\<close>.
\<close>

definition eth_padding_of :: "u32 \<Rightarrow> u32 \<Rightarrow> u32" where
  "eth_padding_of cap total_len = (if total_len < cap then cap - total_len else 0)"

definition tcp_datalen_of :: "u32 \<Rightarrow> u32 \<Rightarrow> u32 \<Rightarrow> u32 \<Rightarrow> u32" where
  "tcp_datalen_of cap eth_padding ip_hdr_len tcp_hdr_len =
     cap - eth_padding - 14 - ip_hdr_len - tcp_hdr_len"

definition ipv4_tcp ::
  "('f, 's, 'b) pfpa_env \<Rightarrow> ('f, 's, 'b) pfpa_callbacks \<Rightarrow> ('f, 's, 'b) pfpa_context \<Rightarrow> pcap_pkthdr \<Rightarrow>
   bytes \<Rightarrow> pfpa_packet_context \<Rightarrow> u8 \<Rightarrow> u32 \<Rightarrow> u32 \<Rightarrow> u32 \<Rightarrow> ('f, 's, 'b) pfpa_context result" where
  "ipv4_tcp E CB ctx pcap_hdr packet packet_ctx ihl eth_padding ip_hdr_len ip_len =
     (let ofs = 14 + unat ip_hdr_len in
      rbind (load16 packet ofs) (\<lambda>sport.
      rbind (load16 packet (ofs + 2)) (\<lambda>dport.
      rbind (load8 packet (ofs + 12)) (\<lambda>off.
      let tcp_hdr_len = ucast (drop_bit 4 off) * 4 :: u32;
          packet_ctx = packet_ctx\<lparr>p_src_port := ntohs sport, p_dst_port := ntohs dport,
            p_data := drop (ofs + unat tcp_hdr_len) packet,
            p_datalen := tcp_datalen_of (caplen pcap_hdr) eth_padding ip_hdr_len tcp_hdr_len\<rparr>
      in if \<not> pfpa_ctx_check_filter E ctx packet_ctx then Inr ctx
         else
           let ctx = pfpa_output_ip_infos ctx packet_ctx pcap_hdr packet ihl eth_padding
                       ip_hdr_len ip_len
           in rbind (load_tcphdr packet ofs) (\<lambda>tcp_hdr.
              pfpa_tcp_packet_handle E CB ctx packet_ctx tcp_hdr)))))"

definition ipv4_udp ::
  "('f, 's, 'b) pfpa_env \<Rightarrow> ('f, 's, 'b) pfpa_callbacks \<Rightarrow> ('f, 's, 'b) pfpa_context \<Rightarrow> pcap_pkthdr \<Rightarrow>
   bytes \<Rightarrow> pfpa_packet_context \<Rightarrow> u8 \<Rightarrow> u32 \<Rightarrow> u32 \<Rightarrow> u32 \<Rightarrow> ('f, 's, 'b) pfpa_context result" where
  "ipv4_udp E CB ctx pcap_hdr packet packet_ctx ihl eth_padding ip_hdr_len ip_len =
     (let ofs = 14 + unat ip_hdr_len in
      rbind (load16 packet ofs) (\<lambda>sport.
      rbind (load16 packet (ofs + 2)) (\<lambda>dport.
      rbind (load16 packet (ofs + 4)) (\<lambda>ulen.
      let packet_ctx = packet_ctx\<lparr>p_src_port := ntohs sport, p_dst_port := ntohs dport,
            p_data := drop (ofs + 8) packet, p_datalen := ucast (ntohs ulen) - 8\<rparr>
      in if \<not> pfpa_ctx_check_filter E ctx packet_ctx then Inr ctx
         else pfpa_udp_packet_handle CB
                (pfpa_output_ip_infos ctx packet_ctx pcap_hdr packet ihl eth_padding ip_hdr_len
                   ip_len) packet_ctx))))"

definition pfpa_ipv4_packet_handle ::
  "('f, 's, 'b) pfpa_env \<Rightarrow> ('f, 's, 'b) pfpa_callbacks \<Rightarrow> ('f, 's, 'b) pfpa_context \<Rightarrow> pcap_pkthdr \<Rightarrow>
   bytes \<Rightarrow> ('f, 's, 'b) pfpa_context result" where
  "pfpa_ipv4_packet_handle E CB ctx pcap_hdr packet =
     rbind (load8 packet 14) (\<lambda>ver_ihl.
     let ihl = ver_ihl AND 0x0F; ip_hdr_len = ucast ihl * 4 :: u32 in
     rbind (load16 packet 16) (\<lambda>tot_len.
     let ip_len = ucast (ntohs tot_len) :: u32;
         total_len = ip_len + 14;
         eth_padding = eth_padding_of (caplen pcap_hdr) total_len in
     rbind (load32 packet 26) (\<lambda>saddr.
     rbind (load32 packet 30) (\<lambda>daddr.
     let packet_ctx = \<lparr>p_t = e_localtime E (tv_sec pcap_hdr), p_ns = tv_usec pcap_hdr,
           p_src_addr = saddr, p_dst_addr = daddr, p_src_port = 0, p_dst_port = 0,
           p_src_ip = inet_ntop saddr, p_dst_ip = inet_ntop daddr, p_data = [], p_datalen = 0\<rparr> in
     rbind (load8 packet 23) (\<lambda>protocol.
     if protocol = 6
     then ipv4_tcp E CB ctx pcap_hdr packet packet_ctx ihl eth_padding ip_hdr_len ip_len
     else if protocol = 17
     then ipv4_udp E CB ctx pcap_hdr packet packet_ctx ihl eth_padding ip_hdr_len ip_len
     else Inr (add_log (LogProtocol protocol) ctx))))))"

definition pfpa_packet_handle ::
  "('f, 's, 'b) pfpa_env \<Rightarrow> ('f, 's, 'b) pfpa_callbacks \<Rightarrow> ('f, 's, 'b) pfpa_context \<Rightarrow> pcap_pkthdr \<Rightarrow>
   bytes \<Rightarrow> ('f, 's, 'b) pfpa_context result" where
  "pfpa_packet_handle E CB ctx header packet =
     (let ctx = ctx\<lparr>c_total_pack := c_total_pack ctx + 1\<rparr>;
          ctx = (if c_total_pack ctx mod 1000 = 0
                 then add_log (LogPacketNum (c_total_pack ctx)) ctx else ctx) in
      rbind (load16 packet 12) (\<lambda>raw_type.
      let ether_type = ntohs raw_type in
      if ether_type = 0x0800 then pfpa_ipv4_packet_handle E CB ctx header packet
      else if ether_type = 0x86DD then Inr (add_log LogIgnoreIpv6 ctx)
      else Inr (add_log (LogEtherType ether_type) ctx)))"

text \<open>\<open>pcap_loop\<close> calls the handler on each packet of the file in turn.\<close>

fun pcap_packets ::
  "('f, 's, 'b) pfpa_env \<Rightarrow> ('f, 's, 'b) pfpa_callbacks \<Rightarrow> (pcap_pkthdr \<times> bytes) list \<Rightarrow>
   ('f, 's, 'b) pfpa_context \<Rightarrow> ('f, 's, 'b) pfpa_context result" where
  "pcap_packets E CB [] ctx = Inr ctx"
| "pcap_packets E CB ((h, p) # ps) ctx =
     rbind (pfpa_packet_handle E CB ctx h p) (pcap_packets E CB ps)"

section \<open>Frames\<close>

text \<open>
  A frame as a sender builds it. \<open>f_verihl\<close> is the first byte of the IP header and \<open>f_off\<close> the byte
  that carries the length of the TCP header; ports and sequence numbers are in host byte order.
\<close>

record tcp_frame =
  f_macs :: bytes
  f_verihl :: u8
  f_tos :: u8
  f_id_frag :: u32
  f_ttl :: u8
  f_ip_check :: u16
  f_saddr :: u32
  f_daddr :: u32
  f_ip_opts :: bytes
  f_sport :: u16
  f_dport :: u16
  f_seq :: u32
  f_ack :: u32
  f_off :: u8
  f_flags :: u8
  f_window :: bytes
  f_tcp_opts :: bytes
  f_payload :: bytes

definition ip_hdr_size :: "tcp_frame \<Rightarrow> nat" where
  "ip_hdr_size f = unat (f_verihl f AND 0x0F) * 4"

definition tcp_hdr_size :: "tcp_frame \<Rightarrow> nat" where
  "tcp_hdr_size f = unat (drop_bit 4 (f_off f)) * 4"

definition ip_size :: "tcp_frame \<Rightarrow> nat" where
  "ip_size f = ip_hdr_size f + tcp_hdr_size f + length (f_payload f)"

definition frame_ok :: "tcp_frame \<Rightarrow> bool" where
  "frame_ok f \<longleftrightarrow> length (f_macs f) = 12 \<and> length (f_window f) = 6 \<and>
     20 + length (f_ip_opts f) = ip_hdr_size f \<and> 20 + length (f_tcp_opts f) = tcp_hdr_size f \<and>
     ip_size f < 2 ^ 16"

definition tcp_bytes :: "tcp_frame \<Rightarrow> bytes" where
  "tcp_bytes f = bytes16 (ntohs (f_sport f)) @ bytes16 (ntohs (f_dport f)) @
     bytes32 (ntohl (f_seq f)) @ bytes32 (ntohl (f_ack f)) @ [f_off f, f_flags f] @ f_window f @
     f_tcp_opts f"

definition ip_bytes :: "tcp_frame \<Rightarrow> bytes" where
  "ip_bytes f = [f_verihl f, f_tos f] @ bytes16 (ntohs (of_nat (ip_size f))) @
     bytes32 (f_id_frag f) @ [f_ttl f, 6] @ bytes16 (f_ip_check f) @ bytes32 (f_saddr f) @
     bytes32 (f_daddr f) @ f_ip_opts f"

definition eth_bytes :: "tcp_frame \<Rightarrow> bytes" where
  "eth_bytes f = f_macs f @ [0x08, 0x00]"

definition frame_bytes :: "tcp_frame \<Rightarrow> bytes \<Rightarrow> bytes" where
  "frame_bytes f padding = eth_bytes f @ ip_bytes f @ tcp_bytes f @ f_payload f @ padding"

definition frame_ctx ::
  "('f, 's, 'b) pfpa_env \<Rightarrow> pcap_pkthdr \<Rightarrow> tcp_frame \<Rightarrow> bytes \<Rightarrow> pfpa_packet_context" where
  "frame_ctx E h f padding =
     \<lparr>p_t = e_localtime E (tv_sec h), p_ns = tv_usec h, p_src_addr = f_saddr f,
      p_dst_addr = f_daddr f, p_src_port = f_sport f, p_dst_port = f_dport f,
      p_src_ip = inet_ntop (f_saddr f), p_dst_ip = inet_ntop (f_daddr f),
      p_data = f_payload f @ padding, p_datalen = of_nat (length (f_payload f))\<rparr>"

definition frame_tcphdr :: "tcp_frame \<Rightarrow> tcphdr" where
  "frame_tcphdr f = \<lparr>th_sport = ntohs (f_sport f), th_dport = ntohs (f_dport f),
     th_seq = ntohl (f_seq f), th_ack_seq = ntohl (f_ack f), th_off = drop_bit 4 (f_off f),
     th_flags = f_flags f\<rparr>"

lemma load_shift:
  assumes "length pre = n"
  shows "load8 (pre @ xs) (n + i) = load8 xs i" "load16 (pre @ xs) (n + i) = load16 xs i"
    "load32 (pre @ xs) (n + i) = load32 xs i"
  using assms by (auto simp: load8_def load16_def load32_def nth_append)

lemma unat_times4: "unat (ucast w * 4 :: u32) = unat w * 4" for w :: u8
proof -
  have "unat w < 256" using unsigned_less [of w, where 'a = nat] by simp
  then show ?thesis by (simp add: unat_word_ariths unsigned_ucast_eq take_bit_nat_eq_self)
qed

lemma load_tcp_bytes:
  assumes "frame_ok f"
  shows "load16 (tcp_bytes f @ xs) 0 = Inr (ntohs (f_sport f))"
    "load16 (tcp_bytes f @ xs) 2 = Inr (ntohs (f_dport f))"
    "load32 (tcp_bytes f @ xs) 4 = Inr (ntohl (f_seq f))"
    "load32 (tcp_bytes f @ xs) 8 = Inr (ntohl (f_ack f))"
    "load8 (tcp_bytes f @ xs) 12 = Inr (f_off f)"
    "load8 (tcp_bytes f @ xs) 13 = Inr (f_flags f)"
  by (simp_all add: load8_def load16_def load32_def tcp_bytes_def bytes16_def bytes32_def byte_simps)

lemma load_ip_bytes:
  shows "load8 (ip_bytes f @ xs) 0 = Inr (f_verihl f)"
    "load16 (ip_bytes f @ xs) 2 = Inr (ntohs (of_nat (ip_size f)))"
    "load8 (ip_bytes f @ xs) 9 = Inr 6"
    "load32 (ip_bytes f @ xs) 12 = Inr (f_saddr f)"
    "load32 (ip_bytes f @ xs) 16 = Inr (f_daddr f)"
  by (simp_all add: load8_def load16_def load32_def ip_bytes_def bytes16_def bytes32_def byte_simps)

lemma load_eth_type: "length (f_macs f) = 12 \<Longrightarrow> load16 (eth_bytes f @ xs) 12 = Inr 0x0008"
  by (simp add: load16_def eth_bytes_def nth_append le16_def)

lemma frame_layout:
  assumes "frame_ok f"
  shows "length (eth_bytes f) = 14" "length (ip_bytes f) = ip_hdr_size f"
    "length (tcp_bytes f) = tcp_hdr_size f"
    "length (frame_bytes f padding) = 14 + ip_size f + length padding"
  using assms
  by (simp_all add: frame_ok_def eth_bytes_def ip_bytes_def tcp_bytes_def frame_bytes_def ip_size_def)

lemma load_frame_ip:
  assumes "frame_ok f"
  shows "load16 (frame_bytes f pd) 12 = Inr 0x0008" "load8 (frame_bytes f pd) 14 = Inr (f_verihl f)"
    "load16 (frame_bytes f pd) 16 = Inr (ntohs (of_nat (ip_size f)))"
    "load8 (frame_bytes f pd) 23 = Inr 6" "load32 (frame_bytes f pd) 26 = Inr (f_saddr f)"
    "load32 (frame_bytes f pd) 30 = Inr (f_daddr f)"
proof -
  note eth = load_shift [OF frame_layout(1) [OF assms]]
  show "load16 (frame_bytes f pd) 12 = Inr 0x0008"
    using assms load_eth_type by (simp add: frame_bytes_def frame_ok_def)
  show "load8 (frame_bytes f pd) 14 = Inr (f_verihl f)"
    "load16 (frame_bytes f pd) 16 = Inr (ntohs (of_nat (ip_size f)))"
    "load8 (frame_bytes f pd) 23 = Inr 6" "load32 (frame_bytes f pd) 26 = Inr (f_saddr f)"
    "load32 (frame_bytes f pd) 30 = Inr (f_daddr f)"
    using eth(1) [of _ 0] eth(2) [of _ 2] eth(1) [of _ 9] eth(3) [of _ 12] eth(3) [of _ 16]
    by (simp_all add: frame_bytes_def load_ip_bytes)
qed

lemma load_frame_tcp:
  assumes "frame_ok f"
  shows "load16 (frame_bytes f pd) (14 + ip_hdr_size f) = Inr (ntohs (f_sport f))"
    "load16 (frame_bytes f pd) (14 + ip_hdr_size f + 2) = Inr (ntohs (f_dport f))"
    "load8 (frame_bytes f pd) (14 + ip_hdr_size f + 12) = Inr (f_off f)"
    "load_tcphdr (frame_bytes f pd) (14 + ip_hdr_size f) = Inr (frame_tcphdr f)"
    "drop (14 + ip_hdr_size f + tcp_hdr_size f) (frame_bytes f pd) = f_payload f @ pd"
proof -
  have pre: "length (eth_bytes f @ ip_bytes f) = 14 + ip_hdr_size f"
    using frame_layout [OF assms] by simp
  note tcp = load_shift [OF pre]
  have frame: "frame_bytes f pd = (eth_bytes f @ ip_bytes f) @ tcp_bytes f @ (f_payload f @ pd)"
    by (simp add: frame_bytes_def)
  show "load16 (frame_bytes f pd) (14 + ip_hdr_size f) = Inr (ntohs (f_sport f))"
    "load16 (frame_bytes f pd) (14 + ip_hdr_size f + 2) = Inr (ntohs (f_dport f))"
    "load8 (frame_bytes f pd) (14 + ip_hdr_size f + 12) = Inr (f_off f)"
    "load_tcphdr (frame_bytes f pd) (14 + ip_hdr_size f) = Inr (frame_tcphdr f)"
    using tcp(2) [of _ 0] load_tcp_bytes [OF assms]
    unfolding frame load_tcphdr_def frame_tcphdr_def by (simp_all only: tcp add_0_right rbind.simps)
  have "length (eth_bytes f @ ip_bytes f @ tcp_bytes f) = 14 + ip_hdr_size f + tcp_hdr_size f"
    using frame_layout [OF assms] by simp
  then show "drop (14 + ip_hdr_size f + tcp_hdr_size f) (frame_bytes f pd) = f_payload f @ pd"
    unfolding frame_bytes_def by (metis append_assoc append_eq_conv_conj)
qed

section \<open>Lengths\<close>

lemma cap_minus_padding: "cap - eth_padding_of cap tot = min cap tot"
  by (auto simp: eth_padding_of_def min_def)

text \<open>
  The payload length as the code computes it: the captured part of the IP packet, less the three
  headers, modulo \<open>2 ^ 32\<close>.
\<close>

lemma tcp_datalen_unat:
  "unat (tcp_datalen_of cap (eth_padding_of cap tot) ihl thl) =
     nat ((int (min (unat cap) (unat tot)) - 14 - int (unat ihl) - int (unat thl)) mod 2 ^ 32)"
proof -
  let ?d = "int (unat (min cap tot)) - 14 - int (unat ihl) - int (unat thl)"
  have "tcp_datalen_of cap (eth_padding_of cap tot) ihl thl = word_of_int ?d"
    by (simp only: tcp_datalen_of_def cap_minus_padding of_int_diff of_int_of_nat_eq
        of_nat_unat of_int_uint ucast_id of_int_numeral)
  then have "unat (tcp_datalen_of cap (eth_padding_of cap tot) ihl thl) = nat (?d mod 2 ^ 32)"
    by (simp only: unat_of_int_u32)
  moreover have "unat (min cap tot) = min (unat cap) (unat tot)"
    by (simp add: min_def word_le_nat_alt)
  ultimately show ?thesis by simp
qed

text \<open>
  The length of a TCP payload. If the captured part of the IP packet reaches the end of the
  three headers, the computed length is the number of bytes behind them; otherwise it wraps around
  to a value of almost \<open>2 ^ 32\<close> (the headers have at most 134 bytes).
\<close>

theorem tcp_datalen_bounds:
  assumes "unat ihl \<le> 60" "unat thl \<le> 60"
  shows "unat (tcp_datalen_of cap (eth_padding_of cap tot) ihl thl) =
    (let present = min (unat cap) (unat tot); headers = 14 + unat ihl + unat thl
     in if headers \<le> present then present - headers else 2 ^ 32 - (headers - present))"
proof -
  define have_bytes where "have_bytes = min (unat cap) (unat tot)"
  define headers where "headers = 14 + unat ihl + unat thl"
  let ?d = "int have_bytes - int headers"
  have unat: "unat (tcp_datalen_of cap (eth_padding_of cap tot) ihl thl) = nat (?d mod 2 ^ 32)"
    unfolding tcp_datalen_unat have_bytes_def headers_def by (simp add: algebra_simps)
  have small: "have_bytes < 2 ^ 32" "headers < 2 ^ 32"
    using assms(1,2) unsigned_less [of cap, where 'a = nat]
    by (simp_all add: have_bytes_def headers_def)
  have "unat (tcp_datalen_of cap (eth_padding_of cap tot) ihl thl) =
      (if headers \<le> have_bytes then have_bytes - headers else 2 ^ 32 - (headers - have_bytes))"
  proof (cases "headers \<le> have_bytes")
    case True
    then have "?d mod 2 ^ 32 = ?d" using small by (intro mod_pos_pos_trivial) auto
    with True unat show ?thesis by simp
  next
    case False
    have "?d mod 2 ^ 32 = (?d + 2 ^ 32) mod 2 ^ 32" by simp
    also have "\<dots> = ?d + 2 ^ 32" using False small by (intro mod_pos_pos_trivial) auto
    finally show ?thesis using False unat small by simp
  qed
  then show ?thesis unfolding Let_def have_bytes_def headers_def .
qed

lemma frame_lengths:
  assumes "frame_ok f" "caplen h = of_nat (length (frame_bytes f pd))"
    "length (frame_bytes f pd) < 2 ^ 32"
  shows "tcp_datalen_of (caplen h)
      (eth_padding_of (caplen h) (ucast (of_nat (ip_size f) :: u16) + 14))
      (ucast (f_verihl f AND 0x0F) * 4) (ucast (drop_bit 4 (f_off f)) * 4) =
    of_nat (length (f_payload f))"
proof -
  let ?tot = "ucast (of_nat (ip_size f) :: u16) + 14 :: u32"
  have "ip_size f < 2 ^ 16" using assms(1) by (simp add: frame_ok_def)
  then have "?tot = of_nat (ip_size f + 14)"
    by (simp add: ucast_of_nat_u16)
  then have tot: "unat ?tot = ip_size f + 14"
    using unat_of_nat_u32 [of "ip_size f + 14"] \<open>ip_size f < 2 ^ 16\<close> by (simp only:) simp
  have cap: "unat (caplen h) = 14 + ip_size f + length pd"
    using assms frame_layout(4) [OF assms(1), of pd] by (simp only: unat_of_nat_u32)
  have pay: "length (f_payload f) < 2 ^ 32" using \<open>ip_size f < 2 ^ 16\<close> by (simp add: ip_size_def)
  have "unat (tcp_datalen_of (caplen h) (eth_padding_of (caplen h) ?tot)
      (ucast (f_verihl f AND 0x0F) * 4) (ucast (drop_bit 4 (f_off f)) * 4)) =
      nat (int (length (f_payload f)) mod 2 ^ 32)"
    unfolding tcp_datalen_unat unat_times4 tot cap by (simp add: ip_size_def ip_hdr_size_def tcp_hdr_size_def)
  also have "\<dots> = unat (of_nat (length (f_payload f)) :: u32)"
    using pay by (simp add: unat_of_nat_u32)
  finally show ?thesis by (simp only: word_unat_eq_iff)
qed

text \<open>
  C29. A complete TCP/IPv4 frame is decoded to what it was built from: ports, addresses, sequence
  numbers, flags, and a payload whose length does not count the padding bytes that follow it,
  whatever the options of the two headers are. The context passed on has counted the packet and is
  otherwise unchanged but for the log.
\<close>

theorem frame_decoded:
  assumes ok: "frame_ok f" and cap: "caplen h = of_nat (length (frame_bytes f pd))"
    "length (frame_bytes f pd) < 2 ^ 32"
  shows "\<exists>ctx1 l. ctx1 = ctx\<lparr>c_total_pack := c_total_pack ctx + 1, c_log := l\<rparr> \<and>
    pfpa_packet_handle E CB ctx h (frame_bytes f pd) =
    (if pfpa_ctx_check_filter E ctx1 (frame_ctx E h f pd)
     then pfpa_tcp_packet_handle E CB
       (pfpa_output_ip_infos ctx1 (frame_ctx E h f pd) h (frame_bytes f pd) (f_verihl f AND 0x0F)
          (eth_padding_of (caplen h) (of_nat (ip_size f) + 14)) (of_nat (ip_hdr_size f))
          (of_nat (ip_size f)))
       (frame_ctx E h f pd) (frame_tcphdr f)
     else Inr ctx1)"
proof -
  define ctx0 where "ctx0 = ctx\<lparr>c_total_pack := c_total_pack ctx + 1\<rparr>"
  define ctx1 where "ctx1 = (if c_total_pack ctx0 mod 1000 = 0
      then add_log (LogPacketNum (c_total_pack ctx0)) ctx0 else ctx0)"
  have small: "ip_size f < 2 ^ 16" using ok by (simp add: frame_ok_def)
  have ihl: "ucast (f_verihl f AND 0x0F) * 4 = (of_nat (ip_hdr_size f) :: u32)"
    by (simp add: ip_hdr_size_def)
  have len: "ucast (of_nat (ip_size f) :: u16) = (of_nat (ip_size f) :: u32)"
    using small by (rule ucast_of_nat_u16)
  have hdr: "unat (of_nat (ip_hdr_size f) :: u32) = ip_hdr_size f"
    using small by (intro unat_of_nat_u32) (simp add: ip_size_def)
  have thl: "unat (ucast (drop_bit 4 (f_off f)) * 4 :: u32) = tcp_hdr_size f"
    by (simp only: unat_times4 tcp_hdr_size_def)
  note dl = frame_lengths [OF ok cap, unfolded ihl len]
  have eth: "ntohs 0x0008 = (0x0800 :: u16)" by (simp add: ntohs_def le16_def)
  have "pfpa_packet_handle E CB ctx h (frame_bytes f pd) =
    (if pfpa_ctx_check_filter E ctx1 (frame_ctx E h f pd)
     then pfpa_tcp_packet_handle E CB
       (pfpa_output_ip_infos ctx1 (frame_ctx E h f pd) h (frame_bytes f pd) (f_verihl f AND 0x0F)
          (eth_padding_of (caplen h) (of_nat (ip_size f) + 14)) (of_nat (ip_hdr_size f))
          (of_nat (ip_size f)))
       (frame_ctx E h f pd) (frame_tcphdr f)
     else Inr ctx1)"
    unfolding pfpa_packet_handle_def Let_def ctx0_def [symmetric] ctx1_def [symmetric]
      load_frame_ip [OF ok] rbind.simps eth pfpa_ipv4_packet_handle_def ntohs_ntohs ihl len
      ipv4_tcp_def hdr load_frame_tcp [OF ok] thl dl
    by (simp add: frame_ctx_def)
  moreover have "ctx1 = ctx\<lparr>c_total_pack := c_total_pack ctx + 1, c_log := c_log ctx1\<rparr>"
    by (simp add: ctx1_def ctx0_def add_log_def)
  ultimately show ?thesis by blast
qed

section \<open>The packet loop keeps the session tables\<close>

text \<open>
  The UDP callback, too, must leave the sessions alone. With that, handling a packet keeps the
  dictionary and the heap in step, and so does a whole capture file.
\<close>

definition same_sessions ::
  "('f, 's, 'b) pfpa_context \<Rightarrow> ('f, 's, 'b) pfpa_context \<Rightarrow> bool" where
  "same_sessions ctx ctx' \<longleftrightarrow>
     c_tcp_session_dict ctx' = c_tcp_session_dict ctx \<and> c_heap ctx' = c_heap ctx"

lemma same_sessions_wf: "same_sessions ctx ctx' \<Longrightarrow> ctx_wf E ctx' = ctx_wf E ctx"
  using same_tables(2) [of ctx' ctx E] by (simp add: same_sessions_def)

lemma count_packet_wf [ctx_frame]: "ctx_wf E (ctx\<lparr>c_total_pack := n\<rparr>) = ctx_wf E ctx"
  by (rule same_tables) simp_all

lemma same_sessions_ops [simp]:
  "same_sessions ctx ctx" "same_sessions ctx (add_log l ctx)"
  "same_sessions ctx (pfpa_output_ip_infos ctx pc h p i e hl t)"
  "same_sessions ctx (pfpa_udp_output ctx pc)" "same_sessions ctx (ctx\<lparr>c_total_pack := n\<rparr>)"
  by (simp_all add: same_sessions_def ctx_frame pfpa_output_ip_infos_def pfpa_udp_output_def)

lemma same_sessions_trans:
  "same_sessions a b \<Longrightarrow> same_sessions b c \<Longrightarrow> same_sessions a c"
  by (simp add: same_sessions_def)

locale packet_callbacks = tcp_callback +
  assumes udp_frame: "cb_udp CB = Some cb \<Longrightarrow> cb ctx pc d n = Inr ctx' \<Longrightarrow> same_sessions ctx ctx'"
begin

lemma udp_handle_same:
  "pfpa_udp_packet_handle CB ctx pc = Inr ctx' \<Longrightarrow> same_sessions ctx ctx'"
proof (cases "cb_udp CB")
  case (Some cb)
  assume "pfpa_udp_packet_handle CB ctx pc = Inr ctx'"
  with Some have "same_sessions (pfpa_udp_output ctx pc) ctx'"
    using udp_frame [OF Some] by (simp add: pfpa_udp_packet_handle_def)
  then show ?thesis by (rule same_sessions_trans [OF same_sessions_ops(4)])
qed (auto simp: pfpa_udp_packet_handle_def)

lemma ipv4_wf:
  assumes laws: "hash_table_law (e_sess E)" "malloc_law E" and wf: "ctx_wf E ctx"
    and run: "pfpa_ipv4_packet_handle E CB ctx h p = Inr ctx'"
  shows "ctx_wf E ctx'"
proof -
  have tcp: "ctx_wf E ctx'" if "pfpa_tcp_packet_handle E CB c pc t = Inr ctx'"
    "same_sessions ctx c" for c pc t
    using handle_wf [OF laws _ that(1)] same_sessions_wf [OF that(2)] wf by simp
  have udp: "ctx_wf E ctx'" if "pfpa_udp_packet_handle CB c pc = Inr ctx'"
    "same_sessions ctx c" for c pc
    using udp_handle_same [OF that(1)] that(2) wf by (auto simp: same_sessions_wf)
  show ?thesis
    using run wf
    by (auto simp: pfpa_ipv4_packet_handle_def ipv4_tcp_def ipv4_udp_def rbind_Inr_iff Let_def
        ctx_frame split: if_split_asm dest: tcp udp)
qed

lemma packet_wf:
  assumes "hash_table_law (e_sess E)" "malloc_law E" "ctx_wf E ctx"
    and "pfpa_packet_handle E CB ctx h p = Inr ctx'"
  shows "ctx_wf E ctx'"
proof -
  have "ctx_wf E ctx'" if "pfpa_ipv4_packet_handle E CB c h p = Inr ctx'" "same_sessions ctx c" for c
    using ipv4_wf [OF assms(1,2) _ that(1)] same_sessions_wf [OF that(2)] assms(3) by simp
  then show ?thesis
    using assms(3,4) same_sessions_trans [OF same_sessions_ops(5) same_sessions_ops(2)]
    by (auto simp: pfpa_packet_handle_def rbind_Inr_iff Let_def ctx_frame same_sessions_wf
        split: if_split_asm)
qed

lemma packets_wf:
  assumes "hash_table_law (e_sess E)" "malloc_law E" "ctx_wf E ctx"
    and "pcap_packets E CB ps ctx = Inr ctx'"
  shows "ctx_wf E ctx'"
  using assms(3,4)
proof (induction ps arbitrary: ctx)
  case (Cons hp ps)
  obtain h p where hp: "hp = (h, p)" by fastforce
  with Cons.prems(2) obtain c where c: "pfpa_packet_handle E CB ctx h p = Inr c"
    "pcap_packets E CB ps c = Inr ctx'" by (auto simp: rbind_Inr_iff)
  show ?case by (rule Cons.IH [OF packet_wf [OF assms(1,2) Cons.prems(1) c(1)] c(2)])
qed simp

end

interpretation hello: packet_callbacks hello_callbacks
  by unfold_locales (simp add: hello_callbacks_def)

interpretation str: packet_callbacks "str_callbacks E" for E
  by unfold_locales
    (auto simp: str_callbacks_def on_str_udp_packet_def rbind_Inr_iff same_sessions_def)

interpretation tgw: packet_callbacks "tgw_callbacks E" for E
  by unfold_locales (simp add: tgw_callbacks_def)

end
