(* ===== verification/Pfpa_Main.thy ===== *)
theory Pfpa_Main
  imports Pfpa_Pcap
begin

text \<open>
  The command line programs of pfpa: src/play/c/pfpa/apps/hello/main.c, apps/str/main.c and
  apps/tgw/main.c. Each has its own copy of \<open>parse_args\<close>, \<open>offline_capture\<close> and \<open>main\<close>; the first two
  programs differ only in the callbacks they set.

  \<open>getopt_long\<close> appears as the list of the options it returns, each with its argument. The world
  the programs run in is a \<open>host\<close>: what \<open>fopen\<close> and libpcap do with a file name, the content of
  freshly allocated memory, and the string search of the muggle library. The logger is not
  modelled beyond the messages it is given.

  The properties show that the notation \<open>a.b.c.d:port\<close> of a filter is read correctly up to the
  padding of the tuple, and that each program frees every session it created.
\<close>

section \<open>Standard library functions\<close>

text \<open>
  \<open>inet_pton(AF_INET, ...)\<close>: four decimal numbers below 256 without leading zeros, separated by
  dots. \<open>None\<close> is the result 0, which leaves the destination unchanged.
\<close>

fun split_dots :: "string \<Rightarrow> string list" where
  "split_dots [] = [[]]"
| "split_dots (c # cs) =
     (if c = CHR ''.'' then [] # split_dots cs
      else case split_dots cs of p # ps \<Rightarrow> (c # p) # ps | [] \<Rightarrow> [[c]])"

definition octet :: "string \<Rightarrow> u8 option" where
  "octet s =
     (if s \<noteq> [] \<and> list_all is_digit s \<and> (hd s = CHR ''0'' \<longrightarrow> length s = 1) \<and> digits_value 0 s < 256
      then Some (of_nat (digits_value 0 s)) else None)"

definition inet_pton :: "string \<Rightarrow> u32 option" where
  "inet_pton s =
     (case map octet (split_dots s) of
        [Some a, Some b, Some c, Some d] \<Rightarrow> Some (le32 a b c d)
      | _ \<Rightarrow> None)"

section \<open>Command lines\<close>

record host =
  h_addr_strlen :: nat
  h_str_find :: "string \<Rightarrow> string \<Rightarrow> int \<Rightarrow> int \<Rightarrow> int"
  h_fresh_tuple :: "nat \<Rightarrow> pfpa_addr"
  h_fopen :: "string \<Rightarrow> bool"
  h_pcap :: "string \<Rightarrow> (pcap_pkthdr \<times> bytes) list option"

record sys_args =
  sa_input :: string
  sa_output :: string
  sa_match_host :: string
  sa_match_port :: u16

text \<open>
  The argument of option \<open>f\<close>. The tuple comes from \<open>malloc\<close> and is not cleared; the port is only
  assigned when there is a colon, the address only when \<open>inet_pton\<close> accepts the text.
\<close>

definition parse_filter :: "host \<Rightarrow> pfpa_addr \<Rightarrow> string \<Rightarrow> pfpa_addr" where
  "parse_filter W tuple optarg =
     (let addr = strncpy_buf (h_addr_strlen W) optarg;
          pos = h_str_find W addr '':'' 0 0;
          tuple = (if pos \<ge> 0
                   then tuple\<lparr>a_port := word_of_int (atoi (drop (nat pos + 1) addr))\<rparr> else tuple);
          addr = (if pos \<ge> 0 then take (nat pos) addr else addr)
      in case inet_pton addr of None \<Rightarrow> tuple | Some a \<Rightarrow> tuple\<lparr>a_addr := a\<rparr>)"

text \<open>
  One round of the option loop of apps/hello/main.c and apps/str/main.c. \<open>n\<close> counts the options, to
  name the memory each allocation returns.
\<close>

definition parse_opt ::
  "('f, 's, 'b) pfpa_env \<Rightarrow> host \<Rightarrow> nat \<Rightarrow> char \<Rightarrow> string \<Rightarrow> sys_args \<times> ('f, 's, 'b) pfpa_context \<Rightarrow>
   (sys_args \<times> ('f, 's, 'b) pfpa_context) parsed" where
  "parse_opt E W n c optarg = (\<lambda>(cfg, ctx).
     if c = CHR ''h'' then ExitSuccess
     else if c = CHR ''i'' then Parsed (cfg\<lparr>sa_input := strncpy_buf 512 optarg\<rparr>, ctx)
     else if c = CHR ''o'' then Parsed (cfg\<lparr>sa_output := strncpy_buf 512 optarg\<rparr>, ctx)
     else if c = CHR ''f'' then
       Parsed (cfg, pfpa_ctx_add_filter E (ctx\<lparr>c_enable_fileter := True\<rparr>)
                      (parse_filter W (h_fresh_tuple W n) optarg))
     else ParseFailed)"

definition tgw_parse_opt ::
  "('f, 's, 'b) pfpa_env \<Rightarrow> host \<Rightarrow> nat \<Rightarrow> char \<Rightarrow> string \<Rightarrow> sys_args \<times> ('f, 's, 'b) pfpa_context \<Rightarrow>
   (sys_args \<times> ('f, 's, 'b) pfpa_context) parsed" where
  "tgw_parse_opt E W n c optarg = (\<lambda>(cfg, ctx).
     if c = CHR ''H'' then Parsed (cfg\<lparr>sa_match_host := strncpy_buf 256 optarg\<rparr>, ctx)
     else if c = CHR ''P'' then Parsed (cfg\<lparr>sa_match_port := word_of_int (atoi optarg)\<rparr>, ctx)
     else parse_opt E W n c optarg (cfg, ctx))"

fun parse_opts ::
  "(nat \<Rightarrow> char \<Rightarrow> string \<Rightarrow> 'a \<Rightarrow> 'a parsed) \<Rightarrow> nat \<Rightarrow> (char \<times> string) list \<Rightarrow> 'a \<Rightarrow> 'a parsed" where
  "parse_opts step n [] st = Parsed st"
| "parse_opts step n ((c, optarg) # opts) st =
     (case step n c optarg st of
        Parsed st \<Rightarrow> parse_opts step (n + 1) opts st
      | ParseFailed \<Rightarrow> ParseFailed
      | ExitSuccess \<Rightarrow> ExitSuccess)"

definition empty_args :: sys_args where
  "empty_args = \<lparr>sa_input = [], sa_output = [], sa_match_host = [], sa_match_port = 0\<rparr>"

definition check_args :: "(sys_args \<times> 'c) parsed \<Rightarrow> (sys_args \<times> 'c) parsed" where
  "check_args r =
     (case r of
        Parsed (cfg, ctx) \<Rightarrow>
          if sa_input cfg = [] then ParseFailed
          else if sa_output cfg = [] then ParseFailed
          else Parsed (cfg, ctx)
      | _ \<Rightarrow> r)"

definition parse_args ::
  "('f, 's, 'b) pfpa_env \<Rightarrow> host \<Rightarrow> (char \<times> string) list \<Rightarrow> ('f, 's, 'b) pfpa_context \<Rightarrow>
   (sys_args \<times> ('f, 's, 'b) pfpa_context) parsed" where
  "parse_args E W opts ctx = check_args (parse_opts (parse_opt E W) 0 opts (empty_args, ctx))"

definition tgw_parse_args ::
  "('f, 's, 'b) pfpa_env \<Rightarrow> host \<Rightarrow> (char \<times> string) list \<Rightarrow> ('f, 's, 'b) pfpa_context \<Rightarrow>
   (sys_args \<times> ('f, 's, 'b) pfpa_context) parsed" where
  "tgw_parse_args E W opts ctx =
     check_args (parse_opts (tgw_parse_opt E W) 0 opts (empty_args, ctx))"

section \<open>The programs\<close>

definition offline_capture ::
  "('f, 's, 'b) pfpa_env \<Rightarrow> ('f, 's, 'b) pfpa_callbacks \<Rightarrow> host \<Rightarrow> sys_args \<Rightarrow>
   ('f, 's, 'b) pfpa_context \<Rightarrow> ('f, 's, 'b) pfpa_context result" where
  "offline_capture E CB W cfg ctx =
     (if \<not> h_fopen W (sa_output cfg) then Inr ctx
      else
        let ctx = ctx\<lparr>c_fp := []\<rparr> in
        case h_pcap W (sa_input cfg) of
          None \<Rightarrow> Inr ctx
        | Some packets \<Rightarrow> pcap_packets E CB packets ctx)"

datatype 'a program_end = Returned 'a | ExitWith bool

text \<open>
  The programs ignore the result of \<open>pfpa_ctx_init\<close>; working on with tables that were not set up is
  the fault \<open>Uninitialised\<close>. \<open>ExitWith False\<close> is \<open>exit(EXIT_FAILURE)\<close>.
\<close>

definition run_program ::
  "('f, 's, 'b) pfpa_env \<Rightarrow> ('f, 's, 'b) pfpa_callbacks \<Rightarrow> host \<Rightarrow>
   (sys_args \<Rightarrow> ('f, 's, 'b) pfpa_context \<Rightarrow> ('f, 's, 'b) pfpa_context) \<Rightarrow>
   (('f, 's, 'b) pfpa_context \<Rightarrow> (sys_args \<times> ('f, 's, 'b) pfpa_context) parsed) \<Rightarrow>
   ('f, 's, 'b) pfpa_context program_end result" where
  "run_program E CB W setup parse =
     (case pfpa_ctx_init E of
        None \<Rightarrow> Inl Uninitialised
      | Some ctx \<Rightarrow>
          (case parse ctx of
             ExitSuccess \<Rightarrow> Inr (ExitWith True)
           | ParseFailed \<Rightarrow> Inr (ExitWith False)
           | Parsed (cfg, ctx) \<Rightarrow>
               rbind (offline_capture E CB W cfg (setup cfg ctx)) (\<lambda>ctx.
               rbind (pfpa_ctx_destroy E ctx) (\<lambda>ctx. Inr (Returned ctx)))))"

definition hello_main ::
  "('f, 's, 'b) pfpa_env \<Rightarrow> host \<Rightarrow> (char \<times> string) list \<Rightarrow>
   ('f, 's, 'b) pfpa_context program_end result" where
  "hello_main E W opts = run_program E hello_callbacks W (\<lambda>cfg ctx. ctx) (parse_args E W opts)"

definition str_main ::
  "('f, 's, 'b) pfpa_env \<Rightarrow> host \<Rightarrow> (char \<times> string) list \<Rightarrow>
   ('f, 's, 'b) pfpa_context program_end result" where
  "str_main E W opts = run_program E (str_callbacks E) W (\<lambda>cfg ctx. ctx) (parse_args E W opts)"

definition tgw_match_addr :: "sys_args \<Rightarrow> pfpa_addr" where
  "tgw_match_addr args =
     (let match_addr = \<lparr>a_addr = 0, a_port = 0, a_pad = 0\<rparr> in
      if sa_match_host args \<noteq> []
      then (case inet_pton (sa_match_host args) of
              None \<Rightarrow> match_addr | Some a \<Rightarrow> match_addr\<lparr>a_addr := a\<rparr>)
           \<lparr>a_port := sa_match_port args\<rparr>
      else match_addr)"

definition tgw_main ::
  "('f, 's, 'b) pfpa_env \<Rightarrow> host \<Rightarrow> (char \<times> string) list \<Rightarrow>
   ('f, 's, 'b) pfpa_context program_end result" where
  "tgw_main E W opts =
     run_program E (tgw_callbacks E) W
       (\<lambda>cfg ctx. ctx\<lparr>c_user_data := Some (tgw_match_addr cfg)\<rparr>) (tgw_parse_args E W opts)"

section \<open>The programs free what they allocate\<close>

lemma add_filter_same: "same_sessions ctx (pfpa_ctx_add_filter E (ctx\<lparr>c_enable_fileter := True\<rparr>) a)"
  by (simp add: same_sessions_def pfpa_ctx_add_filter_def)

lemma parse_opt_same:
  "parse_opt E W n c s (cfg, ctx) = Parsed (cfg', ctx') \<Longrightarrow> same_sessions ctx ctx'"
  by (auto simp: parse_opt_def add_filter_same split: if_splits)

lemma tgw_parse_opt_same:
  "tgw_parse_opt E W n c s (cfg, ctx) = Parsed (cfg', ctx') \<Longrightarrow> same_sessions ctx ctx'"
  by (auto simp: tgw_parse_opt_def dest: parse_opt_same split: if_splits)

lemma parse_opts_same:
  assumes "\<And>n c s cfg ctx cfg' ctx'. step n c s (cfg, ctx) = Parsed (cfg', ctx') \<Longrightarrow>
    same_sessions ctx ctx'"
  shows "parse_opts step n opts (cfg, ctx) = Parsed (cfg', ctx') \<Longrightarrow> same_sessions ctx ctx'"
proof (induction opts arbitrary: n cfg ctx)
  case (Cons o1 opts)
  obtain c s where "o1 = (c, s)" by fastforce
  with Cons.prems obtain cfg1 ctx1 where "step n c s (cfg, ctx) = Parsed (cfg1, ctx1)"
    "parse_opts step (n + 1) opts (cfg1, ctx1) = Parsed (cfg', ctx')"
    by (auto split: parsed.splits)
  with Cons.IH assms show ?case by (metis same_sessions_trans)
qed simp

lemma check_args_Parsed: "check_args r = Parsed x \<Longrightarrow> r = Parsed x"
  by (auto simp: check_args_def split: parsed.splits prod.splits if_splits)

lemma parse_args_same:
  assumes "parse_args E W opts ctx = Parsed (cfg, ctx')"
  shows "same_sessions ctx ctx'"
proof -
  have "parse_opts (parse_opt E W) 0 opts (empty_args, ctx) = Parsed (cfg, ctx')"
    using assms unfolding parse_args_def by (rule check_args_Parsed)
  with parse_opt_same show ?thesis by (rule parse_opts_same)
qed

lemma tgw_parse_args_same:
  assumes "tgw_parse_args E W opts ctx = Parsed (cfg, ctx')"
  shows "same_sessions ctx ctx'"
proof -
  have "parse_opts (tgw_parse_opt E W) 0 opts (empty_args, ctx) = Parsed (cfg, ctx')"
    using assms unfolding tgw_parse_args_def by (rule check_args_Parsed)
  with tgw_parse_opt_same show ?thesis by (rule parse_opts_same)
qed

context packet_callbacks
begin

text \<open>A program that returns has freed every session, whatever the capture file holds.\<close>

lemma run_program_frees:
  assumes laws: "hash_table_law (e_sess E)" "malloc_law E"
    and parse: "\<And>ctx cfg ctx'. parse ctx = Parsed (cfg, ctx') \<Longrightarrow> same_sessions ctx (setup cfg ctx')"
    and run: "run_program E CB W setup parse = Inr (Returned ctx)"
  shows "c_heap ctx = Map.empty"
proof -
  obtain c0 cfg c1 c2 where c: "pfpa_ctx_init E = Some c0" "parse c0 = Parsed (cfg, c1)"
    "offline_capture E CB W cfg (setup cfg c1) = Inr c2" "pfpa_ctx_destroy E c2 = Inr ctx"
    using run by (auto simp: run_program_def rbind_Inr_iff split: option.splits parsed.splits)
  have "ctx_wf E (setup cfg c1)"
    using ctx_wf_init [OF laws(1) c(1)] same_sessions_wf [OF parse [OF c(2)]] by simp
  moreover have "ctx_wf E (x\<lparr>c_fp := f\<rparr>) = ctx_wf E x" for x f
    by (rule same_tables) simp_all
  ultimately have "ctx_wf E c2"
    using c(3) packets_wf [OF laws, of "setup cfg c1\<lparr>c_fp := []\<rparr>" _ c2]
    by (auto simp: offline_capture_def Let_def split: if_splits option.splits)
  from destroy_frees_all [OF laws(1) this] c(4) show ?thesis by simp
qed

end

section \<open>Numbers and addresses as text\<close>

lemma digit_char: "n < 10 \<Longrightarrow> (of_char (char_of (48 + n) :: char) :: nat) = 48 + n"
  by (simp add: of_char_of)

lemma is_digit_char: "n < 10 \<Longrightarrow> is_digit (char_of (48 + n))" for n :: nat
  by (simp add: is_digit_def digit_char)

lemma dec_digits: "list_all is_digit (dec n)"
proof (induction n rule: dec.induct)
  case (1 n)
  then show ?case by (subst dec.simps) (auto simp: is_digit_char)
qed

lemma dec_not_Nil: "dec n \<noteq> []"
  by (subst dec.simps) simp

lemma digits_value_append: "digits_value acc (xs @ ys) = digits_value (digits_value acc xs) ys"
  by (induction xs arbitrary: acc) simp_all

lemma digits_value_dec: "digits_value 0 (dec n) = n"
proof (induction n rule: dec.induct)
  case (1 n)
  then show ?case by (subst dec.simps) (auto simp: digits_value_append digit_char)
qed

lemma dec_leading_zero: "hd (dec n) = CHR ''0'' \<Longrightarrow> length (dec n) = 1"
proof (induction n rule: dec.induct)
  case (1 n)
  show ?case
  proof (cases "n < 10")
    case True
    then show ?thesis by (subst dec.simps) simp
  next
    case False
    have "hd (dec (n div 10)) = CHR ''0''"
      using 1(2) False dec_not_Nil by (subst (asm) dec.simps) simp
    with 1(1) False have "length (dec (n div 10)) = 1" by simp
    then obtain c where "dec (n div 10) = [c]" by (auto simp: length_Suc_conv)
    with \<open>hd (dec (n div 10)) = CHR ''0''\<close> digits_value_dec [of "n div 10"] False
    show ?thesis by (auto split: if_splits)
  qed
qed

lemma octet_dec: "n < 256 \<Longrightarrow> octet (dec n) = Some (of_nat n)"
  using dec_digits dec_not_Nil dec_leading_zero by (simp add: octet_def digits_value_dec)

lemma digit_facts: "is_digit c \<Longrightarrow> c \<noteq> CHR ''.'' \<and> c \<noteq> CHR '':'' \<and> \<not> is_space c \<and> c \<noteq> CHR ''-'' \<and> c \<noteq> CHR ''+''"
  by (auto simp: is_digit_def is_space_def)

lemma dec_chars: "c \<in> set (dec n) \<Longrightarrow> is_digit c"
  using dec_digits by (auto simp: list_all_iff)

lemma split_dots_append:
  "CHR ''.'' \<notin> set s \<Longrightarrow> split_dots (s @ ''.'' @ rest) = s # split_dots rest"
  by (induction s) auto

lemma split_dots_single: "CHR ''.'' \<notin> set s \<Longrightarrow> split_dots s = [s]"
  by (induction s) auto

lemma inet_pton_ntop: "inet_pton (inet_ntop a) = Some a"
proof -
  have dot: "CHR ''.'' \<notin> set (dec n)" for n using dec_chars digit_facts by blast
  have small: "unat (b :: u8) < 256" for b using unsigned_less [of b, where 'a = nat] by simp
  obtain b0 b1 b2 b3 where a: "bytes32 a = [b0, b1, b2, b3]" by (simp add: bytes32_def)
  have le: "le32 b0 b1 b2 b3 = a"
    using a by (auto simp: bytes32_def byte_simps)
  have "split_dots (inet_ntop a) = [decw b0, decw b1, decw b2, decw b3]"
    by (simp add: inet_ntop_def a decw_def split_dots_append [OF dot, simplified]
        split_dots_single [OF dot])
  then show ?thesis
    using le by (simp add: inet_pton_def decw_def octet_dec [OF small])
qed

lemma atoi_dec: "atoi (dec n) = int n"
proof -
  obtain c cs where c: "dec n = c # cs" using dec_not_Nil [of n] by (cases "dec n") auto
  have "is_digit x" if "x \<in> set (c # cs)" for x using dec_chars [of x n] that c by simp
  then have "is_digit c" "\<forall>x \<in> set cs. is_digit x" by simp_all
  then show ?thesis
    using digit_facts [of c] digits_value_dec [of n] c takeWhile_eq_all_conv [of is_digit cs]
    by (simp add: atoi_def del: takeWhile_eq_all_conv)
qed

text \<open>What the code relies on from the string search: the position of the first colon, or -1.\<close>

definition str_find_law :: "host \<Rightarrow> bool" where
  "str_find_law W \<longleftrightarrow>
     (\<forall>pre post. CHR '':'' \<notin> set pre \<longrightarrow>
        h_str_find W (pre @ '':'' @ post) '':'' 0 0 = int (length pre)) \<and>
     (\<forall>s. CHR '':'' \<notin> set s \<longrightarrow> h_str_find W s '':'' 0 0 = -1)"

lemma inet_ntop_colon: "CHR '':'' \<notin> set (inet_ntop a)"
proof -
  have "CHR '':'' \<notin> set (dec n)" for n using dec_chars digit_facts by blast
  then show ?thesis by (simp add: inet_ntop_def bytes32_def decw_def)
qed

text \<open>
  Filter arguments: \<open>address:port\<close> is read back to exactly that address and port, and the
  padding stays what \<open>malloc\<close> left in the tuple; an address without a port leaves the port, too, at
  what \<open>malloc\<close> left there.
\<close>

theorem filter_text_roundtrip:
  assumes "str_find_law W" "length (inet_ntop a @ '':'' @ decw port) < h_addr_strlen W"
  shows "parse_filter W t (inet_ntop a @ '':'' @ decw port) =
      \<lparr>a_addr = a, a_port = port, a_pad = a_pad t\<rparr> \<and>
    parse_filter W t (inet_ntop a) = \<lparr>a_addr = a, a_port = a_port t, a_pad = a_pad t\<rparr>"
proof -
  have "h_str_find W (inet_ntop a @ '':'' @ decw port) '':'' 0 0 = int (length (inet_ntop a))"
    "h_str_find W (inet_ntop a) '':'' 0 0 = -1"
    using assms(1) inet_ntop_colon unfolding str_find_law_def by blast+
  moreover have "strncpy_buf (h_addr_strlen W) (inet_ntop a @ '':'' @ decw port) =
      inet_ntop a @ '':'' @ decw port" "strncpy_buf (h_addr_strlen W) (inet_ntop a) = inet_ntop a"
    using assms(2) by (simp_all add: strncpy_buf_fits)
  moreover have "word_of_int (atoi (decw port)) = port" by (simp add: decw_def atoi_dec)
  ultimately show ?thesis
    by (simp add: parse_filter_def inet_pton_ntop)
qed

end
