(* ===== verification/Pfpa_Sessions.thy ===== *)
theory Pfpa_Sessions
  imports Pfpa_Main
begin

text \<open>
  Properties of the packet file parsing assistant that span its parts: TCP sessions as the three
  applications drive them, command line filters, and whole program runs. They rest on the
  interpretations of the locales \<open>tcp_callback\<close> and \<open>packet_callbacks\<close>.
\<close>

section \<open>Sessions\<close>

definition app_callbacks :: "('f, 's, 'b) pfpa_env \<Rightarrow> ('f, 's, 'b) pfpa_callbacks \<Rightarrow> bool" where
  "app_callbacks E CB \<longleftrightarrow> CB = hello_callbacks \<or> CB = str_callbacks E \<or> CB = tgw_callbacks E"

lemma app_callback: "app_callbacks E CB \<Longrightarrow> packet_callbacks CB"
  unfolding app_callbacks_def
  using hello.packet_callbacks_axioms str.packet_callbacks_axioms tgw.packet_callbacks_axioms by auto

lemma app_tcp_callback: "app_callbacks E CB \<Longrightarrow> tcp_callback CB"
  unfolding app_callbacks_def
  using hello.tcp_callback_axioms str.tcp_callback_axioms tgw.tcp_callback_axioms by auto

lemmas app_handle_refines = tcp_callback.handle_refines [OF app_tcp_callback]

text \<open>
  C1. The TCP handler implements the abstract session table. For each application, on a
  well-formed context, with memory for a new session and a callback that does not fault on this
  packet: the handler makes the step \<open>tcp_step\<close> of the abstract table, keeps the context well formed
  and logs exactly the warnings the table implies; it faults, with a use after free, exactly where
  \<open>tcp_step\<close> has no result.
\<close>

theorem tcp_handler_refines:
  assumes "app_callbacks E CB" "hash_table_law (e_sess E)" "malloc_law E" "ctx_wf E ctx"
    and "abs_sessions E ctx (conn_key_of pc) = None \<Longrightarrow> e_malloc E (c_heap ctx) \<noteq> None"
    and "cb_total CB (c_user_data ctx) pc"
  shows "case tcp_step (remote_key_of E) (conn_key_of pc) (p_datalen pc) h (abs_sessions E ctx) of
      None \<Rightarrow> pfpa_tcp_packet_handle E CB ctx pc h = Inl UseAfterFree
    | Some m \<Rightarrow> (\<exists>ctx'. pfpa_tcp_packet_handle E CB ctx pc h = Inr ctx' \<and> ctx_wf E ctx' \<and>
        abs_sessions E ctx' = m \<and> seq_warnings ctx' = seq_warnings ctx @
          step_warnings (abs_sessions E ctx) (conn_key_of pc) (ntohl (th_seq h)) \<and>
        c_user_data ctx' = c_user_data ctx)"
  by (rule app_handle_refines [OF assms])

lemma tcp_step_None_iff:
  "tcp_step remote k d h m = None \<longleftrightarrow> hdr_fin h \<and> hdr_ack h \<and>
     (\<exists>q. m k = Some (PFPA_TCP_STATUS_FIN_SENT, q)) \<and>
     (\<exists>q. m (remote k) = Some (PFPA_TCP_STATUS_FIN_SENT, q))"
  by (cases "m k") (auto simp: tcp_step_def step_key_def Let_def split: prod.splits)

section \<open>Streams\<close>

fun tcp_run ::
  "('f, 's, 'b) pfpa_env \<Rightarrow> ('f, 's, 'b) pfpa_callbacks \<Rightarrow> (pfpa_packet_context \<times> tcphdr) list \<Rightarrow>
   ('f, 's, 'b) pfpa_context \<Rightarrow> ('f, 's, 'b) pfpa_context result" where
  "tcp_run E CB [] ctx = Inr ctx"
| "tcp_run E CB ((pc, h) # segs) ctx =
     rbind (pfpa_tcp_packet_handle E CB ctx pc h) (tcp_run E CB segs)"

text \<open>Consecutive data segments of one direction, the first with sequence number \<open>q\<close>.\<close>

fun in_order :: "pfpa_conn_key \<Rightarrow> u32 \<Rightarrow> (pfpa_packet_context \<times> tcphdr) list \<Rightarrow> bool" where
  "in_order k q [] = True"
| "in_order k q ((pc, h) # segs) \<longleftrightarrow> conn_key_of pc = k \<and> ntohl (th_seq h) = q \<and>
     \<not> hdr_syn h \<and> \<not> hdr_fin h \<and> in_order k (q + p_datalen pc) segs"

definition stream_len :: "(pfpa_packet_context \<times> tcphdr) list \<Rightarrow> u32" where
  "stream_len segs = sum_list (map (\<lambda>(pc, _). p_datalen pc) segs)"

lemma tcp_step_data:
  assumes "m k = Some (PFPA_TCP_STATUS_ESTABLISHED, q) \<or> m k = None" "ntohl (th_seq h) = q"
    "\<not> hdr_syn h" "\<not> hdr_fin h"
  shows "tcp_step remote k d h m = Some (m(k \<mapsto> (PFPA_TCP_STATUS_ESTABLISHED, q + d)))"
    "step_warnings m k q = []"
  using assms by (auto simp: tcp_step_def step_key_def step_warnings_def next_seq_def Let_def)

lemma tcp_run_in_order:
  assumes app: "app_callbacks E CB" "hash_table_law (e_sess E)" "malloc_law E"
    and "ctx_wf E ctx" "in_order k q segs" "c_user_data ctx = ud"
    and total: "\<forall>(pc, h) \<in> set segs. cb_total CB ud pc"
    and "abs_sessions E ctx k = Some (PFPA_TCP_STATUS_ESTABLISHED, q) \<or>
      abs_sessions E ctx k = None \<and> e_malloc E (c_heap ctx) \<noteq> None"
  shows "\<exists>ctx'. tcp_run E CB segs ctx = Inr ctx' \<and> ctx_wf E ctx' \<and>
    seq_warnings ctx' = seq_warnings ctx \<and>
    (segs \<noteq> [] \<longrightarrow> abs_sessions E ctx' =
       (abs_sessions E ctx)(k \<mapsto> (PFPA_TCP_STATUS_ESTABLISHED, q + stream_len segs)))"
  using assms(4-)
proof (induction segs arbitrary: ctx q)
  case (Cons seg segs)
  obtain pc h where seg: "seg = (pc, h)" by fastforce
  let ?m = "abs_sessions E ctx"
  have k: "conn_key_of pc = k" "ntohl (th_seq h) = q" "\<not> hdr_syn h" "\<not> hdr_fin h"
    "in_order k (q + p_datalen pc) segs" using Cons.prems(2) seg by simp_all
  note step = tcp_step_data [where m = ?m and k = k, OF _ k(2-4)]
  have mk: "?m k = Some (PFPA_TCP_STATUS_ESTABLISHED, q) \<or> ?m k = None"
    using Cons.prems(5) by (elim disjE conjE) simp_all
  obtain ctx1 where c1: "pfpa_tcp_packet_handle E CB ctx pc h = Inr ctx1" "ctx_wf E ctx1"
    "abs_sessions E ctx1 = ?m(k \<mapsto> (PFPA_TCP_STATUS_ESTABLISHED, q + p_datalen pc))"
    "seq_warnings ctx1 = seq_warnings ctx" "c_user_data ctx1 = ud"
    using app_handle_refines [OF app Cons.prems(1), of pc h] step [OF mk] Cons.prems(3-5) k(1,2) seg
    by auto
  have next_q: "abs_sessions E ctx1 k = Some (PFPA_TCP_STATUS_ESTABLISHED, q + p_datalen pc)"
    using c1(3) by simp
  have tl: "\<forall>(pc, h) \<in> set segs. cb_total CB ud pc" using Cons.prems(4) by simp
  obtain ctx' where
    "tcp_run E CB segs ctx1 = Inr ctx'" "ctx_wf E ctx'" "seq_warnings ctx' = seq_warnings ctx1"
    "segs \<noteq> [] \<longrightarrow> abs_sessions E ctx' = (abs_sessions E ctx1)
       (k \<mapsto> (PFPA_TCP_STATUS_ESTABLISHED, q + p_datalen pc + stream_len segs))"
    using Cons.IH [OF c1(2) k(5) c1(5) tl disjI1 [OF next_q]] by blast
  with c1 seg show ?case
    by (cases "segs = []") (auto simp: stream_len_def algebra_simps)
qed simp

text \<open>
  Sequence tracking: a run of consecutive data segments of a new connection is accepted
  without a single warning about an unexpected sequence number, and leaves the session established
  with the next sequence number after the last byte (modulo \<open>2 ^ 32\<close>).
\<close>

theorem tcp_stream_tracked:
  assumes "app_callbacks E CB" "hash_table_law (e_sess E)" "malloc_law E"
    and "ctx_wf E ctx" "in_order k q segs" "c_user_data ctx = ud"
    and "\<forall>(pc, h) \<in> set segs. cb_total CB ud pc"
    and "abs_sessions E ctx k = None" "e_malloc E (c_heap ctx) \<noteq> None" "segs \<noteq> []"
  shows "\<exists>ctx'. tcp_run E CB segs ctx = Inr ctx' \<and> ctx_wf E ctx' \<and>
    seq_warnings ctx' = seq_warnings ctx \<and>
    abs_sessions E ctx' =
      (abs_sessions E ctx)(k \<mapsto> (PFPA_TCP_STATUS_ESTABLISHED, q + stream_len segs))"
  using tcp_run_in_order [OF assms(1-7)] assms(8-) by blast

section \<open>Closing a connection\<close>

definition flip_key :: "pfpa_conn_key \<Rightarrow> pfpa_conn_key" where
  "flip_key k = \<lparr>k_src = k_dst k, k_dst = k_src k\<rparr>"

lemma remote_key_flip:
  "remote_key_of E (conn_key_of pc) = flip_key (conn_key_of pc) \<longleftrightarrow>
   e_stack_pad E 1 = 0 \<and> e_stack_pad E 2 = 0"
  by (auto simp: remote_key_of_def flip_key_def conn_key_of_def)

lemma tcp_step_last_ack:
  assumes "m k = Some (PFPA_TCP_STATUS_FIN_SENT, q)" "hdr_ack h" "\<not> hdr_fin h"
    "m (remote k) = Some (PFPA_TCP_STATUS_FIN_SENT, q')"
  shows "tcp_step remote k d h m = Some (m(k := None, remote k := None))"
  using assms by (auto simp: tcp_step_def step_key_def Let_def)

text \<open>
  Closing: once both directions have sent a FIN, the next plain ACK removes both sessions and
  no other, provided the padding of the remote key on the stack is zero; with any other padding
  the handler does not find the opposite direction, and removes nothing.
\<close>

theorem tcp_close_needs_clean_padding:
  assumes "app_callbacks E CB" "hash_table_law (e_sess E)" "malloc_law E" "ctx_wf E ctx"
    and "cb_total CB (c_user_data ctx) pc" "hdr_ack h" "\<not> hdr_fin h"
    and k: "abs_sessions E ctx (conn_key_of pc) = Some (PFPA_TCP_STATUS_FIN_SENT, q)"
    and r: "abs_sessions E ctx (flip_key (conn_key_of pc)) = Some (PFPA_TCP_STATUS_FIN_SENT, q')"
    and clean: "\<forall>k. abs_sessions E ctx k \<noteq> None \<longrightarrow> a_pad (k_src k) = 0 \<and> a_pad (k_dst k) = 0"
  shows "\<exists>ctx'. pfpa_tcp_packet_handle E CB ctx pc h = Inr ctx' \<and> ctx_wf E ctx' \<and>
    (if e_stack_pad E 1 = 0 \<and> e_stack_pad E 2 = 0
     then abs_sessions E ctx' =
       (abs_sessions E ctx)(conn_key_of pc := None, flip_key (conn_key_of pc) := None)
     else dom (abs_sessions E ctx') = dom (abs_sessions E ctx))"
proof -
  let ?k = "conn_key_of pc" and ?m = "abs_sessions E ctx"
  let ?step = "tcp_step (remote_key_of E) ?k (p_datalen pc) h ?m"
  have "?step = (if e_stack_pad E 1 = 0 \<and> e_stack_pad E 2 = 0
      then Some (?m(?k := None, flip_key ?k := None))
      else Some (?m(?k \<mapsto> (PFPA_TCP_STATUS_FIN_SENT, next_seq h q (p_datalen pc)))))"
  proof (cases "e_stack_pad E 1 = 0 \<and> e_stack_pad E 2 = 0")
    case True
    then have "remote_key_of E ?k = flip_key ?k" by (simp add: remote_key_flip)
    with True tcp_step_last_ack [where m = ?m and k = ?k, OF k assms(6,7)] r show ?thesis by simp
  next
    case False
    then have "a_pad (k_src (remote_key_of E ?k)) \<noteq> 0 \<or> a_pad (k_dst (remote_key_of E ?k)) \<noteq> 0"
      by (auto simp: remote_key_of_def)
    moreover from this have "?m (remote_key_of E ?k) = None"
      using clean by (cases "?m (remote_key_of E ?k)") auto
    ultimately have "?m (remote_key_of E ?k) = None" "remote_key_of E ?k \<noteq> ?k" by auto
    with False k assms(7) show ?thesis
      by (auto simp: tcp_step_def step_key_def Let_def)
  qed
  then show ?thesis
    using app_handle_refines [OF assms(1-4) _ assms(5), of h] k by (auto split: if_splits)
qed

section \<open>The freed session\<close>

text \<open>The directions that have sent a FIN, and what a step of the table makes of them.\<close>

definition fins :: "session_map \<Rightarrow> pfpa_conn_key set" where
  "fins m = {k. \<exists>q. m k = Some (PFPA_TCP_STATUS_FIN_SENT, q)}"

lemma tcp_step_fins:
  assumes "tcp_step remote k d h m = Some m'"
  shows "fins m' = (if hdr_ack h \<and> k \<in> fins m \<and> remote k \<in> fins m then fins m - {k, remote k}
      else if hdr_fin h then insert k (fins m) else fins m)" "dom m' \<subseteq> insert k (dom m)"
  using assms by (auto simp: tcp_step_def step_key_def fins_def Let_def split: if_splits option.splits prod.splits)

text \<open>
  A connection is closed a second time: a packet with FIN and ACK arrives in a direction that, like the opposite one, has
  sent a FIN since the two were last forgotten. \<open>F\<close> are the directions that have sent a FIN; a plain ACK in such a
  direction makes the analyser forget both.
\<close>

fun late_fin :: "pfpa_conn_key set \<Rightarrow> (pfpa_packet_context \<times> tcphdr) list \<Rightarrow> bool" where
  "late_fin F [] = False"
| "late_fin F ((pc, h) # segs) =
     (let k = conn_key_of pc in
      if hdr_ack h \<and> k \<in> F \<and> flip_key k \<in> F then hdr_fin h \<or> late_fin (F - {k, flip_key k}) segs
      else late_fin (if hdr_fin h then insert k F else F) segs)"

definition clean_keys :: "session_map \<Rightarrow> bool" where
  "clean_keys m \<longleftrightarrow> (\<forall>k \<in> dom m. a_pad (k_src k) = 0 \<and> a_pad (k_dst k) = 0)"

lemma heap_bound:
  assumes "ctx_wf E ctx" "finite (dom (abs_sessions E ctx))"
  shows "finite (dom (c_heap ctx)) \<and> card (dom (c_heap ctx)) \<le> card (dom (abs_sessions E ctx))"
proof -
  let ?f = "\<lambda>p. s_key (the (c_heap ctx p))"
  have find: "pfpa_ctx_find_tcp_session E ctx (?f p) = Some p" if "p \<in> dom (c_heap ctx)" for p
    using that ctx_wf_live [OF assms(1)] by auto
  have "inj_on ?f (dom (c_heap ctx))"
  proof (rule inj_onI)
    fix p q assume pq: "p \<in> dom (c_heap ctx)" "q \<in> dom (c_heap ctx)" "?f p = ?f q"
    show "p = q" using find [OF pq(1)] find [OF pq(2)] unfolding pq(3) by simp
  qed
  moreover have "?f ` dom (c_heap ctx) \<subseteq> dom (abs_sessions E ctx)" using ctx_wf_live [OF assms(1)] by (auto simp: abs_sessions_def)
  ultimately show ?thesis using assms(2) by (meson card_inj_on_le finite_subset inj_on_finite)
qed

lemma step_of_run:
  assumes "clean_keys m" "k = conn_key_of pc"
  shows "tcp_step (remote_key_of E) k d h m = None \<longleftrightarrow>
      e_stack_pad E 1 = 0 \<and> e_stack_pad E 2 = 0 \<and> hdr_fin h \<and> hdr_ack h \<and> k \<in> fins m \<and> flip_key k \<in> fins m"
    "tcp_step (remote_key_of E) k d h m = Some m' \<Longrightarrow> clean_keys m' \<and> dom m' \<subseteq> insert k (dom m) \<and>
      (e_stack_pad E 1 = 0 \<and> e_stack_pad E 2 = 0 \<longrightarrow>
        fins m' = (if hdr_ack h \<and> k \<in> fins m \<and> flip_key k \<in> fins m then fins m - {k, flip_key k}
          else if hdr_fin h then insert k (fins m) else fins m))"
proof -
  have dirty: "m (remote_key_of E k) = None" if "\<not> (e_stack_pad E 1 = 0 \<and> e_stack_pad E 2 = 0)"
    using assms(1) that by (force simp: clean_keys_def remote_key_of_def)
  have flip: "remote_key_of E k = flip_key k" if "e_stack_pad E 1 = 0 \<and> e_stack_pad E 2 = 0"
    using remote_key_flip [of E pc] that assms(2) by simp
  show "tcp_step (remote_key_of E) k d h m = None \<longleftrightarrow>
      e_stack_pad E 1 = 0 \<and> e_stack_pad E 2 = 0 \<and> hdr_fin h \<and> hdr_ack h \<and> k \<in> fins m \<and> flip_key k \<in> fins m"
    using dirty flip by (cases "e_stack_pad E 1 = 0 \<and> e_stack_pad E 2 = 0") (auto simp: tcp_step_None_iff fins_def)
  assume "tcp_step (remote_key_of E) k d h m = Some m'"
  note s = tcp_step_fins [OF this]
  have "a_pad (k_src k) = 0" "a_pad (k_dst k) = 0" by (simp_all add: assms(2) conn_key_of_def)
  then have "clean_keys m'" using assms(1) s(2) unfolding clean_keys_def by blast
  then show "clean_keys m' \<and> dom m' \<subseteq> insert k (dom m) \<and>
      (e_stack_pad E 1 = 0 \<and> e_stack_pad E 2 = 0 \<longrightarrow>
        fins m' = (if hdr_ack h \<and> k \<in> fins m \<and> flip_key k \<in> fins m then fins m - {k, flip_key k}
          else if hdr_fin h then insert k (fins m) else fins m))"
    using s flip by simp
qed

lemma tcp_run_faults:
  assumes "app_callbacks E CB" "hash_table_law (e_sess E)" "malloc_law E"
    and mem: "\<forall>h. finite (dom h) \<and> card (dom h) < n \<longrightarrow> e_malloc E h \<noteq> None"
    and "ctx_wf E ctx" "clean_keys (abs_sessions E ctx)" "finite (dom (abs_sessions E ctx))"
    and "card (dom (abs_sessions E ctx)) + length segs \<le> n" "\<forall>(pc, h) \<in> set segs. cb_total CB (c_user_data ctx) pc"
  shows "if e_stack_pad E 1 = 0 \<and> e_stack_pad E 2 = 0 \<and> late_fin (fins (abs_sessions E ctx)) segs
    then tcp_run E CB segs ctx = Inl UseAfterFree else \<exists>ctx'. tcp_run E CB segs ctx = Inr ctx'"
  using assms(5-)
proof (induction segs arbitrary: ctx)
  case (Cons seg segs)
  obtain pc h where seg: "seg = (pc, h)" by fastforce
  let ?m = "abs_sessions E ctx" and ?k = "conn_key_of pc"
  have "e_malloc E (c_heap ctx) \<noteq> None" using mem heap_bound [OF Cons.prems(1,3)] Cons.prems(4) by simp
  then have ref: "case tcp_step (remote_key_of E) ?k (p_datalen pc) h ?m of
      None \<Rightarrow> pfpa_tcp_packet_handle E CB ctx pc h = Inl UseAfterFree
    | Some m \<Rightarrow> (\<exists>ctx'. pfpa_tcp_packet_handle E CB ctx pc h = Inr ctx' \<and> ctx_wf E ctx' \<and> abs_sessions E ctx' = m \<and>
        c_user_data ctx' = c_user_data ctx)"
    using app_handle_refines [OF assms(1-3) Cons.prems(1), of pc h] Cons.prems(5) seg by (auto split: option.splits)
  show ?case
  proof (cases "tcp_step (remote_key_of E) ?k (p_datalen pc) h ?m")
    case None
    then show ?thesis using ref step_of_run(1) [OF Cons.prems(2) refl, of E pc "p_datalen pc" h] seg by (simp add: Let_def)
  next
    case (Some m')
    then obtain ctx1 where c1: "pfpa_tcp_packet_handle E CB ctx pc h = Inr ctx1" "ctx_wf E ctx1" "abs_sessions E ctx1 = m'"
      "c_user_data ctx1 = c_user_data ctx" using ref by auto
    note st = step_of_run(2) [OF Cons.prems(2) refl Some]
    have "finite (dom m')" "card (dom m') \<le> Suc (card (dom ?m))"
      using st Cons.prems(3) card_mono [of "insert ?k (dom ?m)" "dom m'"] card_insert_le_m1 finite_subset [of "dom m'" "insert ?k (dom ?m)"]
      by (auto simp: card_insert_if split: if_splits)
    then have IH: "if e_stack_pad E 1 = 0 \<and> e_stack_pad E 2 = 0 \<and> late_fin (fins m') segs
        then tcp_run E CB segs ctx1 = Inl UseAfterFree else \<exists>ctx'. tcp_run E CB segs ctx1 = Inr ctx'"
      using Cons.IH [of ctx1] c1(2-4) st Cons.prems(4,5) by simp
    have "\<not> (e_stack_pad E 1 = 0 \<and> e_stack_pad E 2 = 0 \<and> hdr_fin h \<and> hdr_ack h \<and> ?k \<in> fins ?m \<and> flip_key ?k \<in> fins ?m)"
      using Some step_of_run(1) [OF Cons.prems(2) refl, of E pc "p_datalen pc" h] by simp
    then have "e_stack_pad E 1 = 0 \<and> e_stack_pad E 2 = 0 \<Longrightarrow> late_fin (fins ?m) (seg # segs) = late_fin (fins m') segs"
      using st seg by (auto simp: Let_def)
    then show ?thesis using IH c1(1) seg by (auto simp del: late_fin.simps)
  qed
qed simp

text \<open>
  C32. Exactly which captures make the analyser write to a freed session. The analyser starts without sessions, there is memory for
  as many sessions as there are packets, and the callback of the program does not fault on a packet. When the padding of the key that
  the handler builds on its stack for the opposite direction is zero, the packets are handled without a fault if and only if no
  connection is closed a second time (\<open>late_fin\<close>), and otherwise the first such packet makes it use a session after it was freed;
  with any other padding the handler never finds the opposite direction, and no packet makes it fault.
\<close>

theorem capture_fault_iff:
  assumes "app_callbacks E CB" "hash_table_law (e_sess E)" "malloc_law E" "ctx_wf E ctx" "abs_sessions E ctx = Map.empty"
    and "\<forall>h. finite (dom h) \<and> card (dom h) < length segs \<longrightarrow> e_malloc E h \<noteq> None"
    and "\<forall>(pc, h) \<in> set segs. cb_total CB (c_user_data ctx) pc"
  shows "if e_stack_pad E 1 = 0 \<and> e_stack_pad E 2 = 0 \<and> late_fin {} segs
    then tcp_run E CB segs ctx = Inl UseAfterFree else \<exists>ctx'. tcp_run E CB segs ctx = Inr ctx'"
  using tcp_run_faults [OF assms(1-3,6,4) _ _ _ assms(7)] assms(5) by (simp add: clean_keys_def fins_def)

section \<open>Whole programs\<close>

text \<open>
  C27. No session outlives a program: when one of the three programs returns from \<open>main\<close>, every TCP
  session that any packet of the capture file created has been freed, each exactly once.
\<close>

theorem programs_free_sessions:
  assumes "hash_table_law (e_sess E)" "malloc_law E"
    and "hello_main E W opts = Inr (Returned ctx) \<or> str_main E W opts = Inr (Returned ctx) \<or>
      tgw_main E W opts = Inr (Returned ctx)"
  shows "c_heap ctx = Map.empty"
  using assms(3)
proof (elim disjE)
  assume run: "hello_main E W opts = Inr (Returned ctx)"
  show ?thesis
    using parse_args_same run unfolding hello_main_def
    by (rule hello.run_program_frees [OF assms(1,2)])
next
  assume run: "str_main E W opts = Inr (Returned ctx)"
  show ?thesis
    using parse_args_same run unfolding str_main_def
    by (rule str.run_program_frees [OF assms(1,2)])
next
  assume run: "tgw_main E W opts = Inr (Returned ctx)"
  have "same_sessions c (c'\<lparr>c_user_data := Some (tgw_match_addr cfg)\<rparr>)"
    if "tgw_parse_args E W opts c = Parsed (cfg, c')" for c cfg c'
    using tgw_parse_args_same [OF that] by (simp add: same_sessions_def)
  then show ?thesis
    using run unfolding tgw_main_def by (rule tgw.run_program_frees [OF assms(1,2)])
qed

end
