(* ===== verification/Pfpa_Examples.thy ===== *)
theory Pfpa_Examples
  imports Pfpa_Sessions
begin

text \<open>
  A small concrete environment in which the hypotheses of the pfpa properties hold: association
  lists as hash tables, byte lists as byte buffers, a heap of three cells. Each witness applies a
  property there.
\<close>

section \<open>The environment\<close>

definition list_buffer :: "bytes bytes_buffer" where
  "list_buffer = \<lparr>bb_init = (\<lambda>n. []), bb_writable = (\<lambda>b. 65536 - int (length b)),
     bb_write = (\<lambda>b n d. b @ take (nat n) d), bb_readable = (\<lambda>b. int (length b)),
     bb_contiguous_readable = (\<lambda>b. int (length b)), bb_fetch = (\<lambda>b n. take (nat n) b),
     bb_reader_fc = (\<lambda>b n. Some (take (nat n) b)),
     bb_read = (\<lambda>b n. (take (nat n) b, drop (nat n) b)),
     bb_reader_move = (\<lambda>b n. drop (nat n) b)\<rparr>"

lemma list_buffer_law: "bytes_buffer_law list_buffer (\<lambda>b. b)"
  by (simp add: bytes_buffer_law_def list_buffer_def)

type_synonym demo_ctx =
  "((pfpa_addr \<times> pfpa_addr) list, (pfpa_conn_key \<times> ptr) list, bytes) pfpa_context"

definition demo_env ::
  "u16 \<Rightarrow> ((pfpa_addr \<times> pfpa_addr) list, (pfpa_conn_key \<times> ptr) list, bytes) pfpa_env" where
  "demo_env pad = \<lparr>e_filter = alist_table, e_sess = alist_table, e_bb = list_buffer,
     e_malloc = (\<lambda>h. if h 0 = None then Some 0 else if h 1 = None then Some 1
                     else if h 2 = None then Some 2 else None),
     e_localtime = (\<lambda>t. \<lparr>tm_hour = 0, tm_min = 0, tm_sec = 0\<rparr>),
     e_stack_pad = (\<lambda>_. pad), e_swap32 = ntohl\<rparr>"

lemma demo_laws:
  "hash_table_law (e_filter (demo_env pad))" "hash_table_law (e_sess (demo_env pad))"
  "malloc_law (demo_env pad)" "bytes_buffer_law (e_bb (demo_env pad)) (\<lambda>b. b)"
  "swap_law (demo_env pad)"
  by (simp_all add: demo_env_def alist_table_law list_buffer_law malloc_law_def swap_law_def)

definition demo_empty :: demo_ctx where
  "demo_empty = \<lparr>c_fp = [], c_log = [], c_total_pack = 0, c_enable_fileter = False,
     c_filter_dict = [], c_tcp_session_dict = [], c_user_data = None, c_heap = Map.empty\<rparr>"

lemma demo_init: "pfpa_ctx_init (demo_env pad) = Some demo_empty"
  by (simp add: pfpa_ctx_init_def demo_env_def alist_table_def demo_empty_def)

lemma demo_empty_wf: "ctx_wf (demo_env pad) demo_empty"
  by (rule ctx_wf_init [OF demo_laws(2) demo_init])

lemma demo_empty_abs: "abs_sessions (demo_env pad) demo_empty k = None"
  by (simp add: abs_sessions_def pfpa_ctx_find_tcp_session_def demo_env_def alist_table_def
      demo_empty_def)

section \<open>Packets\<close>

definition demo_pc :: "bytes \<Rightarrow> pfpa_packet_context" where
  "demo_pc d = \<lparr>p_t = \<lparr>tm_hour = 0, tm_min = 0, tm_sec = 0\<rparr>, p_ns = 0, p_src_addr = 1, p_dst_addr = 2,
     p_src_port = 80, p_dst_port = 90, p_src_ip = ''1.0.0.0'', p_dst_ip = ''2.0.0.0'',
     p_data = d, p_datalen = of_nat (length d)\<rparr>"

definition demo_hdr :: "u32 \<Rightarrow> u8 \<Rightarrow> tcphdr" where
  "demo_hdr seq flags = \<lparr>th_sport = 0, th_dport = 0, th_seq = ntohl seq, th_ack_seq = 0, th_off = 5,
     th_flags = flags\<rparr>"

lemma demo_hdr_simps [simp]:
  "ntohl (th_seq (demo_hdr q f)) = q" "hdr_fin (demo_hdr q f) = bit f 0"
  "hdr_syn (demo_hdr q f) = bit f 1" "hdr_ack (demo_hdr q f) = bit f 4"
  by (simp_all add: demo_hdr_def hdr_fin_def hdr_syn_def hdr_ack_def)

lemma hello_total: "cb_total hello_callbacks ud pc"
  by (simp add: cb_total_def hello_callbacks_def)

lemma hello_app: "app_callbacks E hello_callbacks"
  by (simp add: app_callbacks_def)

definition demo_key :: pfpa_conn_key where
  "demo_key = \<lparr>k_src = \<lparr>a_addr = 1, a_port = 80, a_pad = 0\<rparr>, k_dst = \<lparr>a_addr = 2, a_port = 90, a_pad = 0\<rparr>\<rparr>"

lemma demo_datalen [simp]: "p_datalen (demo_pc d) = of_nat (length d)"
  by (simp add: demo_pc_def)

lemma demo_key_of [simp]: "conn_key_of (demo_pc d) = demo_key"
  by (simp add: conn_key_of_def demo_pc_def demo_key_def)

text \<open>A context in which both directions of the connection have sent a FIN.\<close>

definition demo_session :: "pfpa_conn_key \<Rightarrow> bytes pfpa_tcp_session" where
  "demo_session k = \<lparr>s_key = k, s_status = PFPA_TCP_STATUS_FIN_SENT, s_seq = 7, s_bytes_buf = []\<rparr>"

definition demo_closing :: demo_ctx where
  "demo_closing = demo_empty\<lparr>c_tcp_session_dict := [(demo_key, 0), (flip_key demo_key, 1)],
     c_heap := [0 \<mapsto> demo_session demo_key, 1 \<mapsto> demo_session (flip_key demo_key)]\<rparr>"

lemma flip_demo_key: "flip_key demo_key \<noteq> demo_key" "demo_key \<noteq> flip_key demo_key"
  by (simp_all add: flip_key_def demo_key_def)

lemma demo_closing_find:
  "pfpa_ctx_find_tcp_session (demo_env pad) demo_closing k =
     (if k = demo_key then Some 0 else if k = flip_key demo_key then Some 1 else None)"
  by (simp add: pfpa_ctx_find_tcp_session_def demo_env_def alist_table_def demo_closing_def)

lemma demo_closing_heap:
  "c_heap demo_closing p = (if p = 1 then Some (demo_session (flip_key demo_key))
     else if p = 0 then Some (demo_session demo_key) else None)"
  by (simp add: demo_closing_def)

lemma demo_closing_wf: "ctx_wf (demo_env pad) demo_closing"
  using flip_demo_key
  by (auto simp: ctx_wf_def demo_closing_find demo_closing_heap demo_session_def split: if_splits)

lemma demo_closing_abs:
  "abs_sessions (demo_env pad) demo_closing k =
     (if k = demo_key \<or> k = flip_key demo_key then Some (PFPA_TCP_STATUS_FIN_SENT, 7) else None)"
  by (simp add: abs_sessions_def demo_closing_find demo_closing_heap demo_session_def)

lemma demo_remote: "remote_key_of (demo_env 0) demo_key = flip_key demo_key"
  by (simp add: remote_key_of_def demo_env_def flip_key_def demo_key_def)

section \<open>Witnesses\<close>

lemma demo_malloc: "e_malloc (demo_env pad) (c_heap demo_empty) \<noteq> None"
  by (simp add: demo_env_def demo_empty_def)

theorem tcp_handler_refines_witness:
  "\<exists>ctx'. pfpa_tcp_packet_handle (demo_env 0) hello_callbacks demo_empty (demo_pc [104, 105])
       (demo_hdr 5 0x18) = Inr ctx' \<and>
     abs_sessions (demo_env 0) ctx' demo_key = Some (PFPA_TCP_STATUS_ESTABLISHED, 7)"
proof -
  have step: "tcp_step (remote_key_of (demo_env 0)) demo_key 2 (demo_hdr 5 0x18)
      (abs_sessions (demo_env 0) demo_empty) =
      Some ((abs_sessions (demo_env 0) demo_empty)(demo_key \<mapsto> (PFPA_TCP_STATUS_ESTABLISHED, 7)))"
    by (simp add: tcp_step_def step_key_def demo_empty_abs next_seq_def Let_def)
  show ?thesis
    using tcp_handler_refines [where E = "demo_env 0" and pc = "demo_pc [104, 105]" and
        h = "demo_hdr 5 0x18", OF hello_app demo_laws(2,3) demo_empty_wf demo_malloc hello_total]
    by (auto simp: step)
qed

text \<open>Both sides send a FIN, and the first sends its own again.\<close>

definition demo_back :: pfpa_packet_context where
  "demo_back = (demo_pc [])\<lparr>p_src_addr := 2, p_src_port := 90, p_dst_addr := 1, p_dst_port := 80\<rparr>"

lemma demo_back_key: "conn_key_of demo_back = flip_key demo_key"
  by (simp add: demo_back_def conn_key_of_def flip_key_def demo_key_def)

lemma demo_memory: "finite (dom h) \<Longrightarrow> card (dom h) < 3 \<Longrightarrow> e_malloc (demo_env pad) h \<noteq> None"
proof (rule ccontr)
  assume "finite (dom h)" "card (dom h) < 3" "\<not> e_malloc (demo_env pad) h \<noteq> None"
  then have "h 0 \<noteq> None \<and> h 1 \<noteq> None \<and> h 2 \<noteq> None" by (simp add: demo_env_def split: if_splits)
  then have "card {0 :: ptr, 1, 2} \<le> card (dom h)" using \<open>finite (dom h)\<close> by (intro card_mono) auto
  then show False using \<open>card (dom h) < 3\<close> by simp
qed

theorem capture_fault_iff_witness:
  "tcp_run (demo_env 0) hello_callbacks [(demo_pc [], demo_hdr 5 0x11), (demo_back, demo_hdr 9 0x11), (demo_pc [], demo_hdr 5 0x11)]
     demo_empty = Inl UseAfterFree \<and>
   is_ok (tcp_run (demo_env 1) hello_callbacks [(demo_pc [], demo_hdr 5 0x11), (demo_back, demo_hdr 9 0x11), (demo_pc [], demo_hdr 5 0x11)]
     demo_empty)"
proof -
  let ?segs = "[(demo_pc [], demo_hdr 5 0x11), (demo_back, demo_hdr 9 0x11), (demo_pc [], demo_hdr 5 0x11)]"
  have "late_fin {} ?segs" using flip_demo_key by (simp add: demo_back_key flip_key_def)
  moreover have "abs_sessions (demo_env pad) demo_empty = Map.empty" "e_stack_pad (demo_env pad) i = pad" for pad i
    using demo_empty_abs by (auto simp: demo_env_def)
  ultimately show ?thesis
    using capture_fault_iff [where E = "demo_env 0" and segs = ?segs, OF hello_app demo_laws(2,3) demo_empty_wf]
      capture_fault_iff [where E = "demo_env 1" and segs = ?segs, OF hello_app demo_laws(2,3) demo_empty_wf] demo_memory
    by (simp add: hello_total is_ok_iff del: late_fin.simps tcp_run.simps)
qed

theorem tcp_stream_tracked_witness:
  "\<exists>ctx'. tcp_run (demo_env 0) hello_callbacks
       [(demo_pc [1, 2], demo_hdr 0xFFFFFFFF 0x10), (demo_pc [3], demo_hdr 1 0x10)] demo_empty =
       Inr ctx' \<and>
     seq_warnings ctx' = [] \<and>
     abs_sessions (demo_env 0) ctx' demo_key = Some (PFPA_TCP_STATUS_ESTABLISHED, 2)"
proof -
  let ?segs = "[(demo_pc [1, 2], demo_hdr 0xFFFFFFFF 0x10), (demo_pc [3], demo_hdr 1 0x10)]"
  have ord: "in_order demo_key 0xFFFFFFFF ?segs" by simp
  have len: "0xFFFFFFFF + stream_len ?segs = 2" by (simp add: stream_len_def)
  have none: "seq_warnings demo_empty = []" by (simp add: seq_warnings_def demo_empty_def)
  from tcp_stream_tracked [where E = "demo_env 0", OF hello_app demo_laws(2,3) demo_empty_wf ord refl
      _ demo_empty_abs demo_malloc] show ?thesis
    by (auto simp: hello_total len none simp del: tcp_run.simps)
qed

theorem tcp_close_needs_clean_padding_witness:
  "(\<exists>ctx'. pfpa_tcp_packet_handle (demo_env 0) hello_callbacks demo_closing (demo_pc [])
       (demo_hdr 7 0x10) = Inr ctx' \<and> abs_sessions (demo_env 0) ctx' demo_key = None) \<and>
   (\<exists>ctx'. pfpa_tcp_packet_handle (demo_env 1) hello_callbacks demo_closing (demo_pc [])
       (demo_hdr 7 0x10) = Inr ctx' \<and> demo_key \<in> dom (abs_sessions (demo_env 1) ctx'))"
proof -
  have clean: "\<forall>k. abs_sessions (demo_env pad) demo_closing k \<noteq> None \<longrightarrow>
      a_pad (k_src k) = 0 \<and> a_pad (k_dst k) = 0" for pad
    by (auto simp: demo_closing_abs demo_key_def flip_key_def split: if_splits)
  have pad: "e_stack_pad (demo_env p) i = p" for p i by (simp add: demo_env_def)
  have "\<exists>ctx'. pfpa_tcp_packet_handle (demo_env 0) hello_callbacks demo_closing (demo_pc [])
       (demo_hdr 7 0x10) = Inr ctx' \<and> ctx_wf (demo_env 0) ctx' \<and> abs_sessions (demo_env 0) ctx' =
       (abs_sessions (demo_env 0) demo_closing)(demo_key := None, flip_key demo_key := None)"
    using tcp_close_needs_clean_padding [where E = "demo_env 0" and pc = "demo_pc []" and
        h = "demo_hdr 7 0x10", OF hello_app demo_laws(2,3) demo_closing_wf hello_total _ _ _ _ clean]
    by (simp add: demo_closing_abs pad)
  moreover have "\<exists>ctx'. pfpa_tcp_packet_handle (demo_env 1) hello_callbacks demo_closing (demo_pc [])
       (demo_hdr 7 0x10) = Inr ctx' \<and> ctx_wf (demo_env 1) ctx' \<and>
       dom (abs_sessions (demo_env 1) ctx') = dom (abs_sessions (demo_env 1) demo_closing)"
    using tcp_close_needs_clean_padding [where E = "demo_env 1" and pc = "demo_pc []" and
        h = "demo_hdr 7 0x10", OF hello_app demo_laws(2,3) demo_closing_wf hello_total _ _ _ _ clean]
    by (simp add: demo_closing_abs pad)
  moreover have "demo_key \<in> dom (abs_sessions (demo_env 1) demo_closing)"
    by (simp add: demo_closing_abs domIff)
  ultimately show ?thesis by auto
qed

definition demo_host :: "(pcap_pkthdr \<times> bytes) list \<Rightarrow> host" where
  "demo_host packets = \<lparr>h_addr_strlen = 64,
     h_str_find = (\<lambda>s sub i j. let n = length (takeWhile (\<lambda>c. c \<noteq> hd sub) s)
                               in if n < length s then int n else -1),
     h_fresh_tuple = (\<lambda>_. \<lparr>a_addr = 0xAAAAAAAA, a_port = 0xBBBB, a_pad = 0xCCCC\<rparr>),
     h_fopen = (\<lambda>_. True), h_pcap = (\<lambda>_. Some packets)\<rparr>"

lemma demo_str_find: "str_find_law (demo_host packets)"
proof -
  have "takeWhile (\<lambda>c. c \<noteq> CHR '':'') (pre @ CHR '':'' # post) = pre"
    if "CHR '':'' \<notin> set pre" for pre post using that by (induction pre) auto
  then have "h_str_find (demo_host packets) (pre @ '':'' @ post) '':'' 0 0 = int (length pre)"
    if "CHR '':'' \<notin> set pre" for pre post using that by (simp add: demo_host_def Let_def)
  moreover have eq: "takeWhile (\<lambda>c. c \<noteq> CHR '':'') s = s" if "CHR '':'' \<notin> set s" for s
    using that by (induction s) auto
  have "h_str_find (demo_host packets) s '':'' 0 0 = -1" if "CHR '':'' \<notin> set s" for s
    by (simp add: demo_host_def Let_def eq [OF that] del: takeWhile_eq_all_conv)
  ultimately show ?thesis by (simp add: str_find_law_def)
qed

theorem filter_text_roundtrip_witness:
  "parse_filter (demo_host []) \<lparr>a_addr = 0, a_port = 9, a_pad = 5\<rparr>
     (inet_ntop 0x0100007F @ '':'' @ decw (8080 :: u16)) =
     \<lparr>a_addr = 0x0100007F, a_port = 8080, a_pad = 5\<rparr> \<and>
   parse_filter (demo_host []) \<lparr>a_addr = 0, a_port = 9, a_pad = 5\<rparr> (inet_ntop 0x0100007F) =
     \<lparr>a_addr = 0x0100007F, a_port = 9, a_pad = 5\<rparr>"
proof -
  have "length (inet_ntop 0x0100007F @ '':'' @ decw (8080 :: u16)) < h_addr_strlen (demo_host [])"
    by (simp add: demo_host_def inet_ntop_def bytes32_def decw_def dec.simps [of 8080]
        dec.simps [of 808] dec.simps [of 80] dec.simps [of 8] dec.simps [of 127] dec.simps [of 12]
        dec.simps [of "Suc 0"] dec.simps [of 0])
  from filter_text_roundtrip [OF demo_str_find this, of "\<lparr>a_addr = 0, a_port = 9, a_pad = 5\<rparr>"]
  show ?thesis by simp
qed

theorem session_hash_cmp_witness:
  "pfpa_tcp_session_hash (demo_key\<lparr>k_src := \<lparr>a_addr = 3, a_port = 80, a_pad = 0\<rparr>\<rparr>) \<noteq>
     pfpa_tcp_session_hash demo_key"
proof -
  let ?k = "demo_key\<lparr>k_src := \<lparr>a_addr = 3, a_port = 80, a_pad = 0\<rparr>\<rparr>"
  have "key_blocks ?k = (key_blocks demo_key)[0 := 3]" "?k \<noteq> demo_key"
    by (simp_all add: key_blocks_def demo_key_def port_word_def)
  then show ?thesis
    using session_hash_cmp [of demo_key ?k] by (metis zero_less_numeral)
qed

theorem check_filter_exact_witness:
  "pfpa_ctx_check_filter (demo_env 0) (add_filters (demo_env 0) [\<lparr>a_addr = 2, a_port = 0, a_pad = 0\<rparr>]
       (demo_empty\<lparr>c_enable_fileter := True\<rparr>)) (demo_pc []) \<and>
   \<not> pfpa_ctx_check_filter (demo_env 0) (add_filters (demo_env 0) [\<lparr>a_addr = 2, a_port = 0, a_pad = 7\<rparr>]
       (demo_empty\<lparr>c_enable_fileter := True\<rparr>)) (demo_pc [])"
  unfolding check_filter_exact [OF demo_laws(1) demo_init]
  by (simp add: demo_env_def filter_matches_def demo_pc_def)

theorem str_prints_payload_witness:
  "\<exists>ctx' pieces. on_str_tcp_packet (demo_env 0) demo_closing (demo_pc [104, 105]) 0 =
       Inr (ctx', demo_pc [104, 105]) \<and> concat pieces = [104, 105] \<and>
     c_fp ctx' = map (\<lambda>x. app_line (cstr x)) pieces"
proof -
  have "c_heap demo_closing 0 = Some (demo_session demo_key)" "s_bytes_buf (demo_session demo_key) = []"
    by (simp_all add: demo_closing_heap demo_session_def)
  from str_prints_payload [OF demo_laws(4) [of 0] this, of "demo_pc [104, 105]"] show ?thesis
    by (auto simp: demo_env_def list_buffer_def demo_session_def demo_pc_def demo_closing_def
        demo_empty_def)
qed

definition demo_msg :: tgw_msg where
  "demo_msg = (5, [1, 2], 9)"

theorem tgw_immediate_roundtrip_witness:
  "\<exists>ctx' pc'. handle_tgw_immediate (demo_env 0) demo_empty
       (demo_pc (msg_bytes (demo_env 0) demo_msg)) 0 = Inr (ctx', pc') \<and>
     c_fp ctx' = [tgw_line \<lparr>MsgType = 5, BodyLength = 2\<rparr>]"
  using tgw_immediate_roundtrip [OF demo_laws(5), of demo_msg "demo_pc (msg_bytes (demo_env 0) demo_msg)"
      0 "[]" demo_empty 0]
  by (auto simp: demo_pc_def demo_msg_def msg_fits_def msg_hdr_def demo_empty_def)

theorem tgw_reassembles_witness:
  "\<exists>ctx' s'. handle_tgw (demo_env 0) demo_closing
       (demo_pc (msg_bytes (demo_env 0) demo_msg @ [0, 0, 0])) 0 =
       Inr (ctx', demo_pc (msg_bytes (demo_env 0) demo_msg @ [0, 0, 0])) \<and>
     c_fp ctx' = [tgw_line \<lparr>MsgType = 5, BodyLength = 2\<rparr>] \<and>
     c_heap ctx' 0 = Some s' \<and> s_bytes_buf s' = [0, 0, 0]"
proof -
  let ?b = "msg_bytes (demo_env 0) demo_msg"
  have fits: "\<forall>m \<in> set [demo_msg]. msg_fits m" by (simp add: demo_msg_def msg_fits_def)
  have len: "length ?b = 14"
    using length_msg_bytes [of demo_msg "demo_env 0"] fits
    by (simp add: demo_msg_def msg_hdr_def tgw_total_def sizeof_tgw_hdr_def sizeof_tgw_tail_def)
  have heap: "c_heap demo_closing 0 = Some (demo_session demo_key)" by (simp add: demo_closing_heap)
  have rest: "msg_incomplete (demo_env 0) [0, 0, 0]" by (simp add: msg_incomplete_def)
  show ?thesis
    using tgw_reassembles [OF demo_laws(4,5) heap _ _ _ fits rest, of "demo_pc (?b @ [0, 0, 0])"] len
    by (simp add: demo_env_def list_buffer_def demo_session_def demo_pc_def demo_closing_def
        demo_empty_def demo_msg_def msg_hdr_def)
qed

theorem tcp_datalen_bounds_witness:
  "unat (tcp_datalen_of 60 (eth_padding_of 60 54) 20 20) = 0 \<and>
   unat (tcp_datalen_of 60 (eth_padding_of 60 14) 20 20) = 2 ^ 32 - 40"
  using tcp_datalen_bounds [of 20 20 60 54] tcp_datalen_bounds [of 20 20 60 14] by simp

definition demo_frame :: tcp_frame where
  "demo_frame = \<lparr>f_macs = replicate 12 0, f_verihl = 0x45, f_tos = 0, f_id_frag = 0, f_ttl = 64,
     f_ip_check = 0, f_saddr = 1, f_daddr = 2, f_ip_opts = [], f_sport = 80, f_dport = 90,
     f_seq = 5, f_ack = 0, f_off = 0x50, f_flags = 0x18, f_window = replicate 6 0,
     f_tcp_opts = [], f_payload = [104, 105]\<rparr>"

definition demo_cap :: pcap_pkthdr where
  "demo_cap = \<lparr>tv_sec = 0, tv_usec = 0, caplen = 60, pkt_len = 60\<rparr>"

lemma demo_frame_ok:
  "frame_ok demo_frame" "length (frame_bytes demo_frame (replicate 4 0)) = 60"
  by (simp_all add: frame_ok_def demo_frame_def ip_hdr_size_def tcp_hdr_size_def ip_size_def
      frame_bytes_def eth_bytes_def ip_bytes_def tcp_bytes_def)

theorem frame_decoded_witness:
  "\<exists>ctx1. pfpa_packet_handle (demo_env 0) hello_callbacks demo_empty demo_cap
       (frame_bytes demo_frame (replicate 4 0)) =
     pfpa_tcp_packet_handle (demo_env 0) hello_callbacks ctx1
       (frame_ctx (demo_env 0) demo_cap demo_frame (replicate 4 0)) (frame_tcphdr demo_frame)"
proof -
  have cap: "caplen demo_cap = of_nat (length (frame_bytes demo_frame (replicate 4 0)))"
    by (simp add: demo_frame_ok(2)) (simp add: demo_cap_def)
  have len: "length (frame_bytes demo_frame (replicate 4 0)) < 2 ^ 32" by (simp only: demo_frame_ok) simp
  have "pfpa_ctx_check_filter E (demo_empty\<lparr>c_total_pack := n, c_log := l\<rparr>) pc" for E n l pc
    by (simp add: pfpa_ctx_check_filter_def demo_empty_def)
  with frame_decoded [OF demo_frame_ok(1) cap len, of demo_empty "demo_env 0" hello_callbacks]
  show ?thesis by auto
qed

definition demo_capture :: "(pcap_pkthdr \<times> bytes) list" where
  "demo_capture = [(demo_cap, frame_bytes demo_frame (replicate 4 0))]"

lemma demo_run: "case hello_main (demo_env 0) (demo_host demo_capture)
    [(CHR ''i'', ''x.cap''), (CHR ''o'', ''x.txt'')] of Inr (Returned ctx) \<Rightarrow> True | _ \<Rightarrow> False"
  by code_simp

theorem programs_free_sessions_witness:
  "\<exists>ctx. hello_main (demo_env 0) (demo_host demo_capture)
       [(CHR ''i'', ''x.cap''), (CHR ''o'', ''x.txt'')] = Inr (Returned ctx) \<and> c_heap ctx = Map.empty"
proof -
  obtain ctx where "hello_main (demo_env 0) (demo_host demo_capture)
      [(CHR ''i'', ''x.cap''), (CHR ''o'', ''x.txt'')] = Inr (Returned ctx)"
    using demo_run by (auto split: sum.splits program_end.splits)
  with programs_free_sessions [OF demo_laws(2,3) disjI1 [OF this]] show ?thesis by blast
qed

end
