(* ===== verification/Sniffer.thy ===== *)
theory Sniffer
  imports Pfpa_Examples
begin

text \<open>
  src/use/c/use-pcap/examples: seven programs that lead up to a packet analyser. They list the capture devices and
  their addresses (ch01, ch02), capture from the device a command line names (ch03 to ch06) or read a capture file
  (ch07), and print what they find in the headers.

  The system is the record \<open>pcap_sys\<close>: what the calls of libpcap return. A program's state is what it holds (the
  list of devices and a capture handle; giving back what is not held is a fault) and the lines of its log, which shows
  the level INFO and above. A packet is its address, its capture header and its captured bytes.
\<close>

unbundle bit_operations_syntax

section \<open>State and system\<close>

datatype pcap_res = DeviceList | CaptureHandle

record sniffer =
  sn_held :: "pcap_res list"
  sn_log :: "string list"

type_synonym packet = "nat \<times> pcap_pkthdr \<times> bytes"

text \<open>A socket address is its bytes: the family, then the fields of the family; both pointers may be null.\<close>

record pcap_addr =
  pa_addr :: "bytes option"
  pa_netmask :: "bytes option"

record pcap_if =
  if_name :: string
  if_addresses :: "pcap_addr list"

record pcap_sys =
  ps_devs :: "pcap_if list option"
  ps_live :: "string \<Rightarrow> packet list option"
  ps_next :: "string \<Rightarrow> packet option"
  ps_file :: "string \<Rightarrow> packet list option"
  ps_ntop6 :: "bytes \<Rightarrow> string"
  ps_err :: string


definition say :: "string list \<Rightarrow> sniffer \<Rightarrow> sniffer" where
  "say ls s = s\<lparr>sn_log := sn_log s @ ls\<rparr>"

definition hold :: "pcap_res \<Rightarrow> sniffer \<Rightarrow> sniffer" where
  "hold r s = s\<lparr>sn_held := r # sn_held s\<rparr>"

definition let_go :: "pcap_res \<Rightarrow> sniffer \<Rightarrow> sniffer result" where
  "let_go r s = rbind (release r (sn_held s)) (\<lambda>h. Inr (s\<lparr>sn_held := h\<rparr>))"

definition pcap_freealldevs_if :: "pcap_if list \<Rightarrow> sniffer \<Rightarrow> sniffer result" where
  "pcap_freealldevs_if devs s = (if devs = [] then Inr s else let_go DeviceList s)"

text \<open>\<open>pcap_findalldevs\<close>; when there is no device the list is a null pointer.\<close>

definition with_devices ::
  "pcap_sys \<Rightarrow> (pcap_if list \<Rightarrow> sniffer \<Rightarrow> sniffer result) \<Rightarrow> sniffer \<Rightarrow> (int \<times> sniffer) result" where
  "with_devices S body s =
     (case ps_devs S of
        None \<Rightarrow> Inr (1, say [''Call pcap_findalldevs return error, '' @ ps_err S] s)
      | Some devs \<Rightarrow>
          rbind (body devs (if devs = [] then s else hold DeviceList s)) (\<lambda>s.
          rbind (pcap_freealldevs_if devs s) (\<lambda>s. Inr (0, s))))"

section \<open>Listing devices\<close>

definition ch01_main :: "pcap_sys \<Rightarrow> sniffer \<Rightarrow> (int \<times> sniffer) result" where
  "ch01_main S = with_devices S (\<lambda>devs s. Inr (say (map (\<lambda>d. ''found device: '' @ if_name d) devs) s))"

definition AF_INET :: u16 where "AF_INET = 2"
definition AF_INET6 :: u16 where "AF_INET6 = 10"
definition INET_ADDRSTRLEN :: nat where "INET_ADDRSTRLEN = 16"
definition INET6_ADDRSTRLEN :: nat where "INET6_ADDRSTRLEN = 46"

text \<open>
  \<open>inet_ntop\<close> on the address at an offset of a structure, into a buffer of \<open>n\<close> bytes: it reads what the family
  has, and fails for another family and when the text does not fit.
\<close>

definition ntop_at :: "pcap_sys \<Rightarrow> u16 \<Rightarrow> bytes \<Rightarrow> nat \<Rightarrow> nat \<Rightarrow> string option result" where
  "ntop_at S family sa ofs n =
     (let fit = (\<lambda>t. if length t < n then Some t else None) in
      if family = AF_INET then rbind (load32 sa ofs) (\<lambda>a. Inr (fit (inet_ntop a)))
      else if family = AF_INET6 then rbind (read_range sa ofs 16) (\<lambda>b. Inr (fit (ps_ntop6 S b)))
      else Inr None)"

text \<open>After a failure of the second conversion the code goes on and prints a buffer it has not written.\<close>

definition output_inet_dev_info :: "pcap_sys \<Rightarrow> bytes \<Rightarrow> bytes \<Rightarrow> sniffer \<Rightarrow> sniffer result" where
  "output_inet_dev_info S addr netmask s =
     rbind (load16 addr 0) (\<lambda>sin_family.
     rbind (ntop_at S sin_family addr 4 (INET_ADDRSTRLEN + 1)) (\<lambda>straddr.
     case straddr of
       None \<Rightarrow> Inr (say [''failed get device address: '' @ ps_err S] s)
     | Some straddr \<Rightarrow>
         rbind (load16 netmask 0) (\<lambda>sin_family.
         rbind (ntop_at S sin_family netmask 4 (INET_ADDRSTRLEN + 1)) (\<lambda>strnetmask.
         case strnetmask of
           None \<Rightarrow> Inl Uninitialised
         | Some strnetmask \<Rightarrow> Inr (say [''inet '' @ straddr @ '' netmask '' @ strnetmask] s)))))"

definition output_inet6_dev_info :: "pcap_sys \<Rightarrow> bytes \<Rightarrow> bytes \<Rightarrow> sniffer \<Rightarrow> sniffer result" where
  "output_inet6_dev_info S addr netmask s =
     rbind (load16 addr 0) (\<lambda>sin6_family.
     rbind (ntop_at S sin6_family addr 8 (INET6_ADDRSTRLEN + 1)) (\<lambda>straddr.
     case straddr of
       None \<Rightarrow> Inr (say [''failed get device address: '' @ ps_err S] s)
     | Some straddr \<Rightarrow>
         rbind (load16 netmask 0) (\<lambda>sin6_family.
         rbind (ntop_at S sin6_family netmask 8 (INET6_ADDRSTRLEN + 1)) (\<lambda>strnetmask.
         case strnetmask of
           None \<Rightarrow> Inl Uninitialised
         | Some strnetmask \<Rightarrow> Inr (say [''inet6 '' @ straddr @ ''  netmask '' @ strnetmask] s)))))"

fun output_addresses :: "pcap_sys \<Rightarrow> pcap_addr list \<Rightarrow> sniffer \<Rightarrow> sniffer result" where
  "output_addresses S [] s = Inr s"
| "output_addresses S (a # as) s =
     (case (pa_addr a, pa_netmask a) of
        (Some addr, Some netmask) \<Rightarrow>
          rbind (load16 addr 0) (\<lambda>sa_family.
          rbind (if sa_family = AF_INET then output_inet_dev_info S addr netmask s
                 else if sa_family = AF_INET6 then output_inet6_dev_info S addr netmask s
                 else Inr s)
            (output_addresses S as))
      | _ \<Rightarrow> output_addresses S as s)"

definition output_dev_info :: "pcap_sys \<Rightarrow> pcap_if \<Rightarrow> sniffer \<Rightarrow> sniffer result" where
  "output_dev_info S device s =
     output_addresses S (if_addresses device)
       (say [''-------------------------'', ''found device: '' @ if_name device] s)"

fun output_devices :: "pcap_sys \<Rightarrow> pcap_if list \<Rightarrow> sniffer \<Rightarrow> sniffer result" where
  "output_devices S [] s = Inr s"
| "output_devices S (d # ds) s = rbind (output_dev_info S d s) (output_devices S ds)"

definition ch02_main :: "pcap_sys \<Rightarrow> sniffer \<Rightarrow> (int \<times> sniffer) result" where
  "ch02_main S = with_devices S (output_devices S)"

section \<open>Command lines\<close>









section \<open>Packet handlers\<close>




fun hexn :: "nat \<Rightarrow> string" where
  "hexn n = (if n < 16 then [hex_digit n] else hexn (n div 16) @ [hex_digit (n mod 16)])"

declare hexn.simps [simp del]

text \<open>\<open>ignored\<close> is what the log shows of a packet that was not captured whole: nothing in ch06, a warning in ch07.\<close>

definition ipv4_packet_handler :: "string list \<Rightarrow> nat \<Rightarrow> pcap_pkthdr \<Rightarrow> bytes \<Rightarrow> string list result" where
  "ipv4_packet_handler ignored address header packet =
     (let lines = [''-----------------------------------------'',
            ''total packet available: '' @ deci (sint (caplen header)) @ '' bytes'',
            ''expected packet size: '' @ deci (sint (pkt_len header)) @ '' bytes''] in
      if caplen header < pkt_len header then Inr (lines @ ignored)
      else
        let lines = lines @ [''============== Ether =============='', ''ether header length: 14''] in
        rbind (load8 packet 14) (\<lambda>ver_ihl.
        let ihl = unat (ver_ihl AND 0x0F) * 4 in
        rbind (load8 packet 23) (\<lambda>protocol.
        let str_protocol = (if protocol = 6 then ''TCP'' else if protocol = 17 then ''UDP'' else ''unknown'');
            lines = lines @ [''============== IP =============='', ''version: '' @ decw (drop_bit 4 ver_ihl),
              ''IHL(IP header length) in bytes: '' @ dec ihl, ''protocol: '' @ str_protocol] in
        if protocol = 6 then
          rbind (load8 packet (14 + ihl + 12)) (\<lambda>off.
          let tcp_header_len = unat (drop_bit 4 off) * 4;
              total_header_size = 14 + ihl + tcp_header_len in
          Inr (lines @ [''============== TCP =============='', ''TCP header length in bytes: '' @ dec tcp_header_len,
            ''============== payload =============='',
            ''payload size: '' @ deci (sint (pkt_len header - of_nat total_header_size)),
            ''payload memory address: 0x'' @ hexn (address + total_header_size)]))
        else Inr lines)))"

definition packet_handle :: "string list \<Rightarrow> packet \<Rightarrow> string list result" where
  "packet_handle ignored p =
     (case p of (address, header, packet) \<Rightarrow>
      rbind (load16 packet 12) (\<lambda>raw.
      let ether_type = ntohs raw in
      if ether_type = 0x0800 then ipv4_packet_handler ignored address header packet
      else if ether_type = 0x86DD then Inr []
      else Inr [''ignore packet'']))"

definition ch06_handler :: "packet \<Rightarrow> string list result" where
  "ch06_handler = packet_handle []"

definition ch07_handler :: "packet \<Rightarrow> string list result" where
  "ch07_handler = packet_handle [''capture length < packet length, ignore'']"

section \<open>Capturing\<close>











section \<open>What a program holds\<close>

lemma state_simps [simp]:
  "sn_held (say ls s) = sn_held s" "sn_log (say ls s) = sn_log s @ ls" "sn_held (hold r s) = r # sn_held s"
  "sn_log (hold r s) = sn_log s"
  by (simp_all add: say_def hold_def)

lemma say_simps [simp]: "say ls' (say ls s) = say (ls @ ls') s" "say [] s = s"
  by (simp_all add: say_def)

lemma let_go_held [simp]:
  "sn_held s = r # h \<Longrightarrow> let_go r s = Inr (s\<lparr>sn_held := h\<rparr>)"
  "sn_held s = r # q # h \<Longrightarrow> r \<noteq> q \<Longrightarrow> let_go q s = Inr (s\<lparr>sn_held := r # h\<rparr>)"
  by (simp_all add: let_go_def release_def)

text \<open>
  The contract of the bodies that \<open>with_devices\<close> runs: they return, having added a list to what is held and lines to
  the log.
\<close>

definition adds :: "pcap_res list \<Rightarrow> string list \<Rightarrow> (sniffer \<Rightarrow> sniffer result) \<Rightarrow> bool" where
  "adds rs ls f \<longleftrightarrow> (\<forall>s. f s = Inr \<lparr>sn_held = rs @ sn_held s, sn_log = sn_log s @ ls\<rparr>)"

lemma addsD: "adds rs ls f \<Longrightarrow> f s = Inr \<lparr>sn_held = rs @ sn_held s, sn_log = sn_log s @ ls\<rparr>"
  by (simp add: adds_def)

lemma addsI: "(\<And>s. f s = Inr (say ls (s\<lparr>sn_held := rs @ sn_held s\<rparr>))) \<Longrightarrow> adds rs ls f"
  by (simp add: adds_def say_def)

lemma adds_say: "(\<And>s. f s = Inr (say ls s)) \<Longrightarrow> adds [] ls f"
  by (rule addsI) simp


lemma with_devices_result:
  assumes "ps_devs S = Some devs" "adds rs ls (body devs)" "DeviceList \<notin> set rs"
  shows "with_devices S body s = Inr (0, \<lparr>sn_held = rs @ sn_held s, sn_log = sn_log s @ ls\<rparr>)"
  using assms(1,3) addsD [OF assms(2)]
  by (simp add: with_devices_def pcap_freealldevs_if_def let_go_def release_def remove1_append)






section \<open>Choosing the device\<close>







definition idle :: sniffer where
  "idle = \<lparr>sn_held = [], sn_log = []\<rparr>"











section \<open>Packets\<close>

lemma load_ok:
  "is_ok (load8 b i) \<longleftrightarrow> i < length b" "is_ok (load16 b i) \<longleftrightarrow> i + 2 \<le> length b"
  by (simp_all add: load8_def load16_def)

lemma ihl_bound: "unat (ver AND 0x0F) \<le> 15" for ver :: u8
proof -
  have "ver AND 0x0F \<le> 0x0F" by (rule word_and_le1)
  then show ?thesis by (simp add: word_le_nat_alt)
qed

text \<open>
  The bytes of a packet hold the headers the handler reads: the Ethernet header, and in an IPv4 packet that was captured whole the fixed
  part of the IP header up to the protocol and, for TCP, the length byte of the TCP header where the IP header says it is. Any 87 bytes do.
\<close>

definition headers_in :: "pcap_pkthdr \<Rightarrow> bytes \<Rightarrow> bool" where
  "headers_in h b \<longleftrightarrow> 14 \<le> length b \<and>
     (ntohs (le16 (b ! 12) (b ! 13)) = 0x0800 \<and> \<not> caplen h < pkt_len h \<longrightarrow>
        24 \<le> length b \<and> (b ! 23 = 6 \<longrightarrow> 14 + unat (b ! 14 AND 0x0F) * 4 + 13 \<le> length b))"

lemma headers_in_87: "87 \<le> length b \<Longrightarrow> headers_in h b"
  using ihl_bound [of "b ! 14"] by (simp add: headers_in_def)


text \<open>
  Being captured whole does not make a packet long enough: in a frame of the least length Ethernet sends, an IP header that claims
  sixty bytes puts the TCP header behind the end.
\<close>

lemma short_frame_read_past:
  assumes "length b = 60" "b ! 12 = 0x08" "b ! 13 = 0x00" "b ! 14 = 0x4F" "b ! 23 = 6" "caplen h = 60" "pkt_len h = 60"
  shows "packet_handle ignored (address, h, b) = Inl OutOfBounds"
  using assms by (simp add: packet_handle_def ipv4_packet_handler_def load8_def load16_def Let_def ntohs_def le16_def)

text \<open>The lines ch06 and ch07 print of a whole TCP frame with \<open>n\<close> bytes behind its headers.\<close>

definition frame_report :: "tcp_frame \<Rightarrow> nat \<Rightarrow> nat \<Rightarrow> string list" where
  "frame_report f address n =
     (let headers = 14 + ip_hdr_size f + tcp_hdr_size f in
      [''-----------------------------------------'', ''total packet available: '' @ dec (headers + n) @ '' bytes'',
       ''expected packet size: '' @ dec (headers + n) @ '' bytes'', ''============== Ether =============='', ''ether header length: 14'',
       ''============== IP =============='', ''version: '' @ decw (drop_bit 4 (f_verihl f)),
       ''IHL(IP header length) in bytes: '' @ dec (ip_hdr_size f), ''protocol: TCP'', ''============== TCP =============='',
       ''TCP header length in bytes: '' @ dec (tcp_hdr_size f), ''============== payload =============='', ''payload size: '' @ dec n,
       ''payload memory address: 0x'' @ hexn (address + headers)])"

lemma deci_of_nat: "n < 2 ^ 31 \<Longrightarrow> deci (sint (of_nat n :: u32)) = dec n"
  by (simp add: deci_def sint_of_nat_u32)

lemma packet_handle_frame:
  assumes "frame_ok f" "caplen h = of_nat (length (frame_bytes f pd))" "pkt_len h = caplen h" "length (frame_bytes f pd) < 2 ^ 31"
  shows "packet_handle ignored (address, h, frame_bytes f pd) = Inr (frame_report f address (length (f_payload f) + length pd))"
proof -
  let ?n = "length (f_payload f) + length pd" and ?hd = "14 + ip_hdr_size f + tcp_hdr_size f"
  have len: "length (frame_bytes f pd) = ?hd + ?n" using frame_layout(4) [OF assms(1)] by (simp add: ip_size_def)
  have sub: "(of_nat (?hd + ?n) - of_nat ?hd :: u32) = of_nat ?n" by simp
  have t: "ntohs 0x0008 = 0x0800" by (simp add: ntohs_def le16_def)
  have d: "deci (sint (of_nat (?hd + ?n) :: u32)) = dec (?hd + ?n)" "deci (sint (of_nat ?n :: u32)) = dec ?n"
    by (rule deci_of_nat, use assms(4) len in linarith)+
  have h: "caplen h = of_nat (?hd + ?n)" "pkt_len h = of_nat (?hd + ?n)" using assms len by simp_all
  show ?thesis
    unfolding packet_handle_def ipv4_packet_handler_def frame_report_def Let_def h prod.case load_frame_ip [OF assms(1)] rbind.simps t
      ip_hdr_size_def [symmetric] load_frame_tcp(3) [OF assms(1)] tcp_hdr_size_def [symmetric] sub d
    by simp
qed

section \<open>Addresses of a device\<close>

text \<open>What the list of a device's addresses can hold; the remaining bytes of the structures (port, flow, scope) are arbitrary.\<close>

datatype dev_addr =
    NoAddress "bytes option"
  | NoNetmask bytes
  | Inet u32 u32 bytes bytes
  | Inet6 bytes bytes bytes bytes
  | OtherFamily u16 bytes bytes

fun pcap_addr_of :: "dev_addr \<Rightarrow> pcap_addr" where
  "pcap_addr_of (NoAddress m) = \<lparr>pa_addr = None, pa_netmask = m\<rparr>"
| "pcap_addr_of (NoNetmask a) = \<lparr>pa_addr = Some a, pa_netmask = None\<rparr>"
| "pcap_addr_of (Inet a m p q) = \<lparr>pa_addr = Some (bytes16 AF_INET @ p @ bytes32 a), pa_netmask = Some (bytes16 AF_INET @ q @ bytes32 m)\<rparr>"
| "pcap_addr_of (Inet6 a m p q) = \<lparr>pa_addr = Some (bytes16 AF_INET6 @ p @ a), pa_netmask = Some (bytes16 AF_INET6 @ q @ m)\<rparr>"
| "pcap_addr_of (OtherFamily f a m) = \<lparr>pa_addr = Some (bytes16 f @ a), pa_netmask = Some m\<rparr>"

fun dev_addr_ok :: "dev_addr \<Rightarrow> bool" where
  "dev_addr_ok (Inet a m p q) \<longleftrightarrow> length p = 2 \<and> length q = 2"
| "dev_addr_ok (Inet6 a m p q) \<longleftrightarrow> length a = 16 \<and> length m = 16 \<and> length p = 6 \<and> length q = 6"
| "dev_addr_ok (OtherFamily f a m) \<longleftrightarrow> f \<noteq> AF_INET \<and> f \<noteq> AF_INET6"
| "dev_addr_ok _ \<longleftrightarrow> True"

fun dev_addr_lines :: "pcap_sys \<Rightarrow> dev_addr \<Rightarrow> string list" where
  "dev_addr_lines S (Inet a m p q) = [''inet '' @ inet_ntop a @ '' netmask '' @ inet_ntop m]"
| "dev_addr_lines S (Inet6 a m p q) = [''inet6 '' @ ps_ntop6 S a @ ''  netmask '' @ ps_ntop6 S m]"
| "dev_addr_lines S _ = []"

lemma length_dec_byte: "n < 256 \<Longrightarrow> length (dec n) \<le> 3"
  using dec.simps [of n] dec.simps [of "n div 10"] dec.simps [of "n div 10 div 10"] by (auto split: if_splits)

lemma length_inet_ntop: "length (inet_ntop a) < 17"
proof -
  have "length (decw b) \<le> 3" for b :: u8
    using length_dec_byte [of "unat b"] unsigned_less [of b, where 'a = nat] by (simp add: decw_def)
  from this [of "ucast a"] this [of "ucast (drop_bit 8 a)"] this [of "ucast (drop_bit 16 a)"] this [of "ucast (drop_bit 24 a)"]
  show ?thesis by (simp add: inet_ntop_def bytes32_def)
qed

lemma family_at [simp]: "load16 (bytes16 f @ r) 0 = Inr f"
  using load16_append [of "[]" 0 f r] by simp

lemma ntop_inet: "length p = 2 \<Longrightarrow> ntop_at S AF_INET (bytes16 AF_INET @ p @ bytes32 a) 4 17 = Inr (Some (inet_ntop a))"
  using load32_append [of "bytes16 AF_INET @ p" 4 a "[]"] by (simp add: ntop_at_def length_inet_ntop)

lemma ntop_inet6:
  "length p = 6 \<Longrightarrow> length a = 16 \<Longrightarrow> length (ps_ntop6 S a) < 47 \<Longrightarrow>
   ntop_at S AF_INET6 (bytes16 AF_INET6 @ p @ a) 8 47 = Inr (Some (ps_ntop6 S a))"
  by (simp add: ntop_at_def read_range_def AF_INET_def AF_INET6_def)

lemma output_address:
  assumes "dev_addr_ok a" "\<forall>b. length (ps_ntop6 S b) < INET6_ADDRSTRLEN"
  shows "output_addresses S (pcap_addr_of a # as) s = output_addresses S as (say (dev_addr_lines S a) s)"
proof -
  have "length (ps_ntop6 S b) < 47" for b using assms(2) [rule_format, of b] by (simp add: INET6_ADDRSTRLEN_def)
  moreover have "AF_INET6 \<noteq> AF_INET" by (simp add: AF_INET_def AF_INET6_def)
  ultimately show ?thesis using assms(1)
    by (cases a) (simp_all add: output_inet_dev_info_def output_inet6_dev_info_def INET_ADDRSTRLEN_def INET6_ADDRSTRLEN_def ntop_inet ntop_inet6)
qed

lemma output_addresses_result:
  assumes "\<forall>a \<in> set as. dev_addr_ok a" "\<forall>b. length (ps_ntop6 S b) < INET6_ADDRSTRLEN"
  shows "output_addresses S (map pcap_addr_of as) s = Inr (say (concat (map (dev_addr_lines S) as)) s)"
  using assms(1)
proof (induction as arbitrary: s)
  case Nil then show ?case by (simp add: say_def)
next
  case (Cons a as) then show ?case using output_address [OF _ assms(2)] by (simp del: output_addresses.simps)
qed

definition device_lines :: "pcap_sys \<Rightarrow> string \<times> dev_addr list \<Rightarrow> string list" where
  "device_lines S d = [''-------------------------'', ''found device: '' @ fst d] @ concat (map (dev_addr_lines S) (snd d))"

definition pcap_if_of :: "string \<times> dev_addr list \<Rightarrow> pcap_if" where
  "pcap_if_of d = \<lparr>if_name = fst d, if_addresses = map pcap_addr_of (snd d)\<rparr>"

lemma output_devices_result:
  assumes "\<forall>d \<in> set ds. \<forall>a \<in> set (snd d). dev_addr_ok a" "\<forall>b. length (ps_ntop6 S b) < INET6_ADDRSTRLEN"
  shows "output_devices S (map pcap_if_of ds) s = Inr (say (concat (map (device_lines S) ds)) s)"
  using assms(1)
proof (induction ds arbitrary: s)
  case Nil then show ?case by (simp add: say_def)
next
  case (Cons d ds)
  then show ?case using output_addresses_result [OF _ assms(2), of "snd d"] by (simp add: output_dev_info_def pcap_if_of_def device_lines_def)
qed

text \<open>A netmask whose family the conversion does not know is reported and then printed from a buffer nothing was written to.\<close>

lemma netmask_family_uninitialised:
  assumes "length p = 2" "f \<noteq> AF_INET" "f \<noteq> AF_INET6"
  shows "output_addresses S (\<lparr>pa_addr = Some (bytes16 AF_INET @ p @ bytes32 a), pa_netmask = Some (bytes16 f @ m)\<rparr> # as) s = Inl Uninitialised"
  using ntop_inet [OF assms(1)] assms(2,3) by (simp add: output_inet_dev_info_def INET_ADDRSTRLEN_def ntop_at_def)

section \<open>Properties\<close>

text \<open>
  Listing. The first two programs give back the device list and end with status 0, having printed the name of every device; the second prints under
  each name the address and the netmask of every Internet address that has both, in the order of the list, and nothing of the others.
\<close>

theorem devices_listed:
  assumes "ps_devs S = Some (map pcap_if_of ds)" "\<forall>d \<in> set ds. \<forall>a \<in> set (snd d). dev_addr_ok a"
    "\<forall>b. length (ps_ntop6 S b) < INET6_ADDRSTRLEN"
  shows "ch01_main S s = Inr (0, say (map (\<lambda>d. ''found device: '' @ fst d) ds) s) \<and>
    ch02_main S s = Inr (0, say (concat (map (device_lines S) ds)) s)"
proof
  let ?l1 = "map (\<lambda>d. ''found device: '' @ fst d) ds" and ?l2 = "concat (map (device_lines S) ds)"
  have "adds [] ?l1 (\<lambda>s. Inr (say (map (\<lambda>d. ''found device: '' @ if_name d) (map pcap_if_of ds)) s))"
    by (rule adds_say) (simp add: pcap_if_of_def comp_def)
  from with_devices_result [where body = "\<lambda>devs s. Inr (say (map (\<lambda>d. ''found device: '' @ if_name d) devs) s)", OF assms(1) this]
  show "ch01_main S s = Inr (0, say ?l1 s)" by (simp add: ch01_main_def say_def)
  have "adds [] ?l2 (output_devices S (map pcap_if_of ds))" using output_devices_result [OF assms(2,3)] by (rule adds_say)
  from with_devices_result [where body = "output_devices S", OF assms(1) this]
  show "ch02_main S s = Inr (0, say ?l2 s)" by (simp add: ch02_main_def say_def)
qed

text \<open>
  Payloads. Of a well-formed TCP frame that was captured whole, ch06 and ch07 print the lengths of the headers and the place
  where the payload begins. The payload size they print counts the padding the link layer appended, which is exactly what the
  analyser pfpa takes off. Of a packet that was not captured whole they print the two lengths only.
\<close>

theorem payload_reported:
  assumes "frame_ok f" "caplen h = of_nat (length (frame_bytes f pd))" "length (frame_bytes f pd) < 2 ^ 31"
  shows "(pkt_len h = caplen h \<longrightarrow>
      ch06_handler (address, h, frame_bytes f pd) = Inr (frame_report f address (length (f_payload f) + length pd)) \<and>
      ch07_handler (address, h, frame_bytes f pd) = Inr (frame_report f address (length (f_payload f) + length pd))) \<and>
    drop (14 + ip_hdr_size f + tcp_hdr_size f) (frame_bytes f pd) = f_payload f @ pd \<and>
    tcp_datalen_of (caplen h) (eth_padding_of (caplen h) (ucast (of_nat (ip_size f) :: u16) + 14))
      (ucast (f_verihl f AND 0x0F) * 4) (ucast (drop_bit 4 (f_off f)) * 4) = of_nat (length (f_payload f)) \<and>
    (caplen h < pkt_len h \<longrightarrow>
      ch06_handler (address, h, frame_bytes f pd) =
        Inr [''-----------------------------------------'', ''total packet available: '' @ dec (length (frame_bytes f pd)) @ '' bytes'',
             ''expected packet size: '' @ deci (sint (pkt_len h)) @ '' bytes''])"
proof (intro conjI impI)
  show "ch06_handler (address, h, frame_bytes f pd) = Inr (frame_report f address (length (f_payload f) + length pd))"
    "ch07_handler (address, h, frame_bytes f pd) = Inr (frame_report f address (length (f_payload f) + length pd))" if "pkt_len h = caplen h"
    using packet_handle_frame [OF assms(1,2) that assms(3)] by (simp_all add: ch06_handler_def ch07_handler_def)
  show "drop (14 + ip_hdr_size f + tcp_hdr_size f) (frame_bytes f pd) = f_payload f @ pd" by (rule load_frame_tcp(5) [OF assms(1)])
  show "tcp_datalen_of (caplen h) (eth_padding_of (caplen h) (ucast (of_nat (ip_size f) :: u16) + 14))
      (ucast (f_verihl f AND 0x0F) * 4) (ucast (drop_bit 4 (f_off f)) * 4) = of_nat (length (f_payload f))"
    using frame_lengths [OF assms(1,2)] assms(3) by simp
  have "ntohs 0x0008 = 0x0800" by (simp add: ntohs_def le16_def)
  then show "ch06_handler (address, h, frame_bytes f pd) =
        Inr [''-----------------------------------------'', ''total packet available: '' @ dec (length (frame_bytes f pd)) @ '' bytes'',
             ''expected packet size: '' @ deci (sint (pkt_len h)) @ '' bytes'']" if "caplen h < pkt_len h"
    using that deci_of_nat [OF assms(3)] unfolding ch06_handler_def packet_handle_def ipv4_packet_handler_def Let_def prod.case load_frame_ip [OF assms(1)] rbind.simps
    by (simp add: assms(2))
qed


section \<open>Examples\<close>

text \<open>Two devices; the second, without traffic, is the one the command line names.\<close>

definition demo_sys :: pcap_sys where
  "demo_sys = \<lparr>ps_devs = Some (map pcap_if_of [(''lo'', [Inet 0x0100007F 0x000000FF [0, 0] [0, 0], NoAddress None]), (''eth0'', [])]),
     ps_live = (\<lambda>_. Some []), ps_next = (\<lambda>_. None), ps_file = (\<lambda>_. None), ps_ntop6 = (\<lambda>_. ''::1''), ps_err = ''down''\<rparr>"

theorem devices_listed_witness:
  "ch02_main demo_sys idle =
     Inr (0, say ([''-------------------------'', ''found device: lo'', ''inet '' @ inet_ntop 0x0100007F @ '' netmask '' @ inet_ntop 0x000000FF] @
                  [''-------------------------'', ''found device: eth0'']) idle)"
  using devices_listed [of demo_sys "[(''lo'', [Inet 0x0100007F 0x000000FF [0, 0] [0, 0], NoAddress None]), (''eth0'', [])]" idle]
  by (simp add: demo_sys_def INET6_ADDRSTRLEN_def device_lines_def)

theorem payload_reported_witness:
  "ch06_handler (4096, demo_cap, frame_bytes demo_frame (replicate 4 0)) = Inr (frame_report demo_frame 4096 6) \<and> length (f_payload demo_frame) = 2"
proof -
  have "length (f_payload demo_frame) = 2" "length (frame_bytes demo_frame (replicate 4 0)) < 2 ^ 31"
      "caplen demo_cap = of_nat (length (frame_bytes demo_frame (replicate 4 0)))" "pkt_len demo_cap = caplen demo_cap"
    by (simp_all add: demo_frame_ok(2)) (simp_all add: demo_cap_def demo_frame_def)
  then show ?thesis using payload_reported [of demo_frame demo_cap "replicate 4 0" 4096] demo_frame_ok(1) by simp
qed



end
