(* ===== verification/ObjectCodec.thy ===== *)
theory ObjectCodec
  imports Prelude
begin

text \<open>
  The object messages of the libevent samples: src/use/c/use-libevent_2.1.8/src/common/object.c with
  object.h and the byte order macros of utils.h.

  A message is a \<open>streamHead\<close> of 24 bytes followed by the fields of a \<open>Foo\<close>, \<open>Bar\<close> or \<open>TimeRecord\<close>. A
  \<open>char buf[32]\<close> is the list of its bytes; an object that was decoded carries the bytes that were
  written, up to and including the null byte. \<open>decodeMsg\<close> allocates as many bytes as the message says
  it has, so each assignment to a field of the new object is checked against the size of that block,
  and each load against the bytes that were received.

  The locale \<open>object_codec\<close> is the contract of one entry of the function table \<open>obj_fn\<close>: what the
  entry encodes, it decodes. The three entries interpret it; the round trip of whole messages is
  proved once.
\<close>

section \<open>Byte order\<close>

definition util_ex_32 :: "u32 \<Rightarrow> u32" where
  "util_ex_32 v = push_bit 24 (v AND 0xff) OR push_bit 8 (v AND 0xff00) OR
     drop_bit 8 (v AND 0xff0000) OR drop_bit 24 (v AND 0xff000000)"

definition util_ex_64 :: "u64 \<Rightarrow> u64" where
  "util_ex_64 v = push_bit 56 (v AND 0xff) OR push_bit 40 (v AND 0xff00) OR
     push_bit 24 (v AND 0xff0000) OR push_bit 8 (v AND 0xff000000) OR
     drop_bit 8 (v AND 0xff00000000) OR drop_bit 24 (v AND 0xff0000000000) OR
     drop_bit 40 (v AND 0xff000000000000) OR drop_bit 56 (v AND 0xff00000000000000)"

definition IS_LITTLE_ENDIAN :: bool where
  "IS_LITTLE_ENDIAN = (hd (bytes32 1) \<noteq> 0)"

definition util_hton_32 :: "u32 \<Rightarrow> u32" where
  "util_hton_32 v = (if IS_LITTLE_ENDIAN then util_ex_32 v else v)"

definition util_hton_64 :: "u64 \<Rightarrow> u64" where
  "util_hton_64 v = (if IS_LITTLE_ENDIAN then util_ex_64 v else v)"

definition util_ntoh_32 :: "u32 \<Rightarrow> u32" where
  "util_ntoh_32 v = util_hton_32 v"

definition util_ntoh_64 :: "u64 \<Rightarrow> u64" where
  "util_ntoh_64 v = util_hton_64 v"

definition bytes64 :: "u64 \<Rightarrow> bytes" where
  "bytes64 w = bytes32 (ucast w) @ bytes32 (ucast (drop_bit 32 w))"

definition load64 :: "bytes \<Rightarrow> nat \<Rightarrow> u64 result" where
  "load64 b i =
     rbind (load32 b i) (\<lambda>lo. rbind (load32 b (i + 4)) (\<lambda>hi.
     Inr (ucast lo OR push_bit 32 (ucast hi))))"

section \<open>Objects\<close>

datatype obj =
    Foo u32 bytes
  | Bar bytes u32
  | TimeRecord u64 u64

definition OBJ_TYPE_MAX :: int where
  "OBJ_TYPE_MAX = 3"

definition sizeof_streamHead :: nat where
  "sizeof_streamHead = 24"

definition sizeof_buf :: nat where
  "sizeof_buf = 32"

definition strnlen :: "bytes \<Rightarrow> nat \<Rightarrow> nat" where
  "strnlen b n = length (takeWhile (\<lambda>c. c \<noteq> 0) (take n b))"

text \<open>A write of \<open>n\<close> bytes at an offset of a heap block.\<close>

definition put_field :: "nat \<Rightarrow> nat \<Rightarrow> nat \<Rightarrow> unit result" where
  "put_field block ofs n = (if ofs + n \<le> block then Inr () else Inl HeapOverflow)"

text \<open>
  Encoders return the bytes behind the head. Decoders take the size of the block the object was
  given, the received bytes and the length; \<open>None\<close> is their error result.
\<close>

definition s_names :: "string list" where
  "s_names = [''foo'', ''bar'', ''timerecord'']"

definition fooGetName :: string where
  "fooGetName = s_names ! 0"

definition fooPrint :: "obj \<Rightarrow> string result" where
  "fooPrint ob = (case ob of Foo foo_id buf \<Rightarrow>
     rbind (fmt_str buf) (\<lambda>s.
     Inr (fooGetName @ '': '' @ deci (sint foo_id) @ '', '' @ s @ ''\<newline>'')) | _ \<Rightarrow> Inr [])"

definition fooEncode :: "obj \<Rightarrow> bytes" where
  "fooEncode ob = (case ob of Foo foo_id buf \<Rightarrow>
     bytes32 (util_hton_32 foo_id) @ take (strnlen buf sizeof_buf) buf | _ \<Rightarrow> [])"

definition fooDecode :: "nat \<Rightarrow> bytes \<Rightarrow> int \<Rightarrow> obj option result" where
  "fooDecode block buf len =
     rbind (load32 buf sizeof_streamHead) (\<lambda>raw.
     rbind (put_field block 4 4) (\<lambda>_.
     let foo_id = util_ntoh_32 raw; buf_len = to_int (len - int sizeof_streamHead - 4) in
     if buf_len < 0 \<or> int sizeof_buf \<le> buf_len then Inr None
     else if buf_len = 0 then
       rbind (put_field block 8 1) (\<lambda>_. Inr (Some (Foo foo_id [0])))
     else
       rbind (read_range buf (sizeof_streamHead + 4) (nat buf_len)) (\<lambda>s.
       rbind (put_field block 8 (nat buf_len)) (\<lambda>_.
       rbind (put_field block (8 + nat buf_len) 1) (\<lambda>_.
       Inr (Some (Foo foo_id (s @ [0]))))))))"

definition barGetName :: string where
  "barGetName = s_names ! 1"

definition barPrint :: "obj \<Rightarrow> string result" where
  "barPrint ob = (case ob of Bar buf bar_id \<Rightarrow>
     rbind (fmt_str buf) (\<lambda>s.
     Inr (barGetName @ '': '' @ deci (sint bar_id) @ '', '' @ s @ ''\<newline>'')) | _ \<Rightarrow> Inr [])"

definition barEncode :: "obj \<Rightarrow> bytes" where
  "barEncode ob = (case ob of Bar buf bar_id \<Rightarrow>
     take (strnlen buf sizeof_buf) buf @ bytes32 (util_hton_32 bar_id) | _ \<Rightarrow> [])"

definition barDecode :: "nat \<Rightarrow> bytes \<Rightarrow> int \<Rightarrow> obj option result" where
  "barDecode block buf len =
     (let buf_len = to_int (len - int sizeof_streamHead - 4) in
      if buf_len < 0 \<or> int sizeof_buf \<le> buf_len then Inr None
      else
        rbind (if buf_len = 0 then rbind (put_field block 4 1) (\<lambda>_. Inr [0])
               else
                 rbind (read_range buf sizeof_streamHead (nat buf_len)) (\<lambda>s.
                 rbind (put_field block 4 (nat buf_len)) (\<lambda>_.
                 rbind (put_field block (4 + nat buf_len) 1) (\<lambda>_. Inr (s @ [0]))))) (\<lambda>s.
        rbind (load32 buf (sizeof_streamHead + nat buf_len)) (\<lambda>raw.
        rbind (put_field block 36 4) (\<lambda>_.
        Inr (Some (Bar s (util_ntoh_32 raw)))))))"

definition trGetName :: string where
  "trGetName = s_names ! 2"

definition trPrint :: "obj \<Rightarrow> string result" where
  "trPrint ob = (case ob of TimeRecord sec usec \<Rightarrow>
     Inr (trGetName @ '': '' @ deci (sint sec) @ '', '' @ deci (sint usec) @ ''\<newline>'') | _ \<Rightarrow> Inr [])"

definition trEncode :: "obj \<Rightarrow> bytes" where
  "trEncode ob = (case ob of TimeRecord sec usec \<Rightarrow>
     bytes64 (util_hton_64 sec) @ bytes64 (util_hton_64 usec) | _ \<Rightarrow> [])"

definition trDecode :: "nat \<Rightarrow> bytes \<Rightarrow> int \<Rightarrow> obj option result" where
  "trDecode block buf len =
     rbind (load64 buf sizeof_streamHead) (\<lambda>sec.
     rbind (put_field block 8 8) (\<lambda>_.
     rbind (load64 buf (sizeof_streamHead + 8)) (\<lambda>usec.
     rbind (put_field block 16 8) (\<lambda>_.
     Inr (Some (TimeRecord (util_ntoh_64 sec) (util_ntoh_64 usec)))))))"

record objFunc =
  fn_getname :: string
  fn_print :: "obj \<Rightarrow> string result"
  fn_encode :: "obj \<Rightarrow> bytes"
  fn_decode :: "nat \<Rightarrow> bytes \<Rightarrow> int \<Rightarrow> obj option result"

definition obj_fn :: "objFunc list" where
  "obj_fn =
     [\<lparr>fn_getname = fooGetName, fn_print = fooPrint,
         fn_encode = fooEncode, fn_decode = fooDecode\<rparr>,
      \<lparr>fn_getname = barGetName, fn_print = barPrint,
         fn_encode = barEncode, fn_decode = barDecode\<rparr>,
      \<lparr>fn_getname = trGetName, fn_print = trPrint,
         fn_encode = trEncode, fn_decode = trDecode\<rparr>]"

fun obj_type :: "obj \<Rightarrow> nat" where
  "obj_type (Foo _ _) = 0"
| "obj_type (Bar _ _) = 1"
| "obj_type (TimeRecord _ _) = 2"

definition getName :: "obj \<Rightarrow> string option" where
  "getName ob = (if int (obj_type ob) < OBJ_TYPE_MAX then Some (fn_getname (obj_fn ! obj_type ob)) else None)"

definition printObj :: "obj \<Rightarrow> string result" where
  "printObj ob =
     (if int (obj_type ob) < OBJ_TYPE_MAX then fn_print (obj_fn ! obj_type ob) ob else Inr [])"

text \<open>
  \<open>tv\<close> is what \<open>evutil_gettimeofday\<close> returns, \<open>junk\<close> the sixteen bytes of uninitialised memory the two
  time fields have when it fails; \<open>mem\<close> tells which allocations succeed.
\<close>

definition encodeMsg :: "(nat \<Rightarrow> bool) \<Rightarrow> (u64 \<times> u64) option \<Rightarrow> bytes \<Rightarrow> obj \<Rightarrow> bytes option" where
  "encodeMsg mem tv junk ob =
     (if int (obj_type ob) < OBJ_TYPE_MAX then
        let body = fn_encode (obj_fn ! obj_type ob) ob;
            len = sizeof_streamHead + length body
        in if mem len then
             Some (bytes32 (util_hton_32 (of_nat len)) @ bytes32 (util_hton_32 (of_nat (obj_type ob))) @
                   (case tv of
                      None \<Rightarrow> junk
                    | Some (sec, usec) \<Rightarrow> bytes64 (util_hton_64 sec) @ bytes64 (util_hton_64 usec)) @
                   body)
           else None
      else None)"

text \<open>
  The length test of \<open>decodeMsg\<close> compares as \<open>size_t\<close>, where a negative length is large. A negative
  size asks \<open>malloc\<close> for almost \<open>2 ^ 64\<close> bytes, which fails. An index past the function table is
  the fault \<open>OutOfBounds\<close>.
\<close>

definition decodeMsg :: "(nat \<Rightarrow> bool) \<Rightarrow> bytes \<Rightarrow> int \<Rightarrow> obj option result" where
  "decodeMsg mem buf len =
     (if 0 \<le> len \<and> len < int sizeof_streamHead then Inr None
      else
        rbind (load32 buf 0) (\<lambda>raw_size.
        rbind (load32 buf 4) (\<lambda>raw_type.
        let size = sint (util_ntoh_32 raw_size); type = sint (util_ntoh_32 raw_type) in
        if type < 0 \<or> type > OBJ_TYPE_MAX then Inr None
        else if size < 0 \<or> \<not> mem (nat size) then Inr None
        else
          rbind (put_field (nat size) 0 4) (\<lambda>_.
          if nat type < length obj_fn then
            rbind (fn_decode (obj_fn ! nat type) (nat size) buf size) (\<lambda>r.
            case r of
              None \<Rightarrow> Inr None
            | Some ob \<Rightarrow>
                rbind (load64 buf 8) (\<lambda>_. rbind (load64 buf 16) (\<lambda>_. Inr (Some ob))))
          else Inl OutOfBounds))))"

section \<open>Byte swapping\<close>

lemma little: "IS_LITTLE_ENDIAN"
  by (simp add: IS_LITTLE_ENDIAN_def bytes32_def)

text \<open>Byte \<open>k\<close> of the result is byte \<open>3 - k\<close> (or \<open>7 - k\<close>) of the argument.\<close>

lemma masks_32:
  "(0xff :: u32) = push_bit 0 (mask 8)" "(0xff00 :: u32) = push_bit 8 (mask 8)"
  "(0xff0000 :: u32) = push_bit 16 (mask 8)" "(0xff000000 :: u32) = push_bit 24 (mask 8)"
  by (simp_all add: mask_eq_exp_minus_1 push_bit_eq_mult)

lemma masks_64:
  "(0xff :: u64) = push_bit 0 (mask 8)" "(0xff00 :: u64) = push_bit 8 (mask 8)"
  "(0xff0000 :: u64) = push_bit 16 (mask 8)" "(0xff000000 :: u64) = push_bit 24 (mask 8)"
  "(0xff00000000 :: u64) = push_bit 32 (mask 8)" "(0xff0000000000 :: u64) = push_bit 40 (mask 8)"
  "(0xff000000000000 :: u64) = push_bit 48 (mask 8)" "(0xff00000000000000 :: u64) = push_bit 56 (mask 8)"
  by (simp_all add: mask_eq_exp_minus_1 push_bit_eq_mult)

lemma bit_util_ex_32:
  assumes "k < 4" "r < 8"
  shows "bit (util_ex_32 v) (8 * k + r) = bit v (8 * (3 - k) + r)"
proof -
  consider "k = 0" | "k = 1" | "k = 2" | "k = 3" using assms(1) by linarith
  then show ?thesis
    unfolding util_ex_32_def masks_32 using assms(2) by cases (auto simp: bit_simps)
qed

lemma bit_util_ex_64:
  assumes "k < 8" "r < 8"
  shows "bit (util_ex_64 v) (8 * k + r) = bit v (8 * (7 - k) + r)"
proof -
  consider "k = 0" | "k = 1" | "k = 2" | "k = 3" | "k = 4" | "k = 5" | "k = 6" | "k = 7"
    using assms(1) by linarith
  then show ?thesis
    unfolding util_ex_64_def masks_64 using assms(2) by cases (auto simp: bit_simps)
qed

lemma bit_index: "n = 8 * (n div 8) + n mod 8" "n mod 8 < 8" for n :: nat
  by simp_all

lemma util_ex_32_twice: "util_ex_32 (util_ex_32 v) = v"
proof (rule bit_word_eqI)
  fix n assume "n < LENGTH(32)"
  then have k: "n div 8 < 4" "3 - n div 8 < 4" "3 - (3 - n div 8) = n div 8" by auto
  have "bit (util_ex_32 (util_ex_32 v)) (8 * (n div 8) + n mod 8) = bit v (8 * (n div 8) + n mod 8)"
    by (simp only: bit_util_ex_32 [OF k(1) bit_index(2)] bit_util_ex_32 [OF k(2) bit_index(2)] k(3))
  then show "bit (util_ex_32 (util_ex_32 v)) n = bit v n" by simp
qed

lemma util_ex_64_twice: "util_ex_64 (util_ex_64 v) = v"
proof (rule bit_word_eqI)
  fix n assume "n < LENGTH(64)"
  then have k: "n div 8 < 8" "7 - n div 8 < 8" "7 - (7 - n div 8) = n div 8" by auto
  have "bit (util_ex_64 (util_ex_64 v)) (8 * (n div 8) + n mod 8) = bit v (8 * (n div 8) + n mod 8)"
    by (simp only: bit_util_ex_64 [OF k(1) bit_index(2)] bit_util_ex_64 [OF k(2) bit_index(2)] k(3))
  then show "bit (util_ex_64 (util_ex_64 v)) n = bit v n" by simp
qed

lemma ntoh_hton [simp]:
  "util_ntoh_32 (util_hton_32 v) = v" "util_ntoh_64 (util_hton_64 w) = w"
  by (simp_all add: util_ntoh_32_def util_hton_32_def util_ntoh_64_def util_hton_64_def
      util_ex_32_twice util_ex_64_twice)

section \<open>Messages\<close>

lemma length_bytes64 [simp]: "length (bytes64 w) = 8"
  by (simp add: bytes64_def)

lemma load64_append:
  assumes "length xs = i"
  shows "load64 (xs @ bytes64 w @ ys) i = Inr w"
proof -
  have "ucast (ucast w :: u32) OR push_bit 32 (ucast (ucast (drop_bit 32 w) :: u32)) = w"
    by (rule bit_word_eqI) (auto simp: bit_simps)
  moreover have "load32 (xs @ bytes64 w @ ys) i = Inr (ucast w)"
    using load32_append [OF assms, of "ucast w"] by (simp add: bytes64_def)
  moreover have "load32 (xs @ bytes64 w @ ys) (i + 4) = Inr (ucast (drop_bit 32 w))"
    using load32_append [of "xs @ bytes32 (ucast w)" "i + 4" "ucast (drop_bit 32 w)" ys] assms
    by (simp add: bytes64_def)
  ultimately show ?thesis by (simp add: load64_def)
qed

text \<open>What a message preserves of an object: identifiers, times, and the text in the buffer.\<close>

fun obj_view :: "obj \<Rightarrow> obj" where
  "obj_view (Foo foo_id buf) = Foo foo_id (takeWhile (\<lambda>c. c \<noteq> 0) (take sizeof_buf buf))"
| "obj_view (Bar buf bar_id) = Bar (takeWhile (\<lambda>c. c \<noteq> 0) (take sizeof_buf buf)) bar_id"
| "obj_view (TimeRecord sec usec) = TimeRecord sec usec"

fun text_len :: "obj \<Rightarrow> nat" where
  "text_len (Foo _ buf) = strnlen buf sizeof_buf"
| "text_len (Bar buf _) = strnlen buf sizeof_buf"
| "text_len (TimeRecord _ _) = 0"

locale object_codec =
  fixes ty :: nat and good :: "obj \<Rightarrow> bool"
  assumes entry: "ty < length obj_fn"
    and good_type: "good ob \<Longrightarrow> obj_type ob = ty"
    and body_size: "good ob \<Longrightarrow> length (fn_encode (obj_fn ! ty) ob) \<le> 40"
    and decode_encode: "good ob \<Longrightarrow> length head = sizeof_streamHead \<Longrightarrow>
      body = fn_encode (obj_fn ! ty) ob \<Longrightarrow> n = sizeof_streamHead + length body \<Longrightarrow>
      \<exists>ob'. fn_decode (obj_fn ! ty) n (head @ body @ rest) (int n) = Inr (Some ob') \<and>
        obj_view ob' = obj_view ob"
begin

lemma message_roundtrip:
  assumes "good ob" "length junk = 16" "\<forall>n. mem n"
  shows "\<exists>msg ob'. encodeMsg mem tv junk ob = Some msg \<and>
    decodeMsg mem (msg @ rest) (int (length msg)) = Inr (Some ob') \<and> obj_view ob' = obj_view ob"
proof -
  let ?body = "fn_encode (obj_fn ! ty) ob"
  define n where "n = sizeof_streamHead + length ?body"
  define times where "times = (case tv of None \<Rightarrow> junk
      | Some (sec, usec) \<Rightarrow> bytes64 (util_hton_64 sec) @ bytes64 (util_hton_64 usec))"
  define head where "head = bytes32 (util_hton_32 (of_nat n)) @ bytes32 (util_hton_32 (of_nat ty)) @ times"
  have len: "length times = 16" "length head = sizeof_streamHead"
    using assms(2) by (auto simp: times_def head_def sizeof_streamHead_def split: option.splits)
  have ty: "ty < 3" "obj_type ob = ty"
    using entry good_type [OF assms(1)] by (simp_all add: obj_fn_def)
  have msg: "encodeMsg mem tv junk ob = Some (head @ ?body)"
    using assms(3) ty
    by (simp add: encodeMsg_def OBJ_TYPE_MAX_def Let_def head_def times_def n_def)
  have small: "n < 2 ^ 31" using body_size [OF assms(1)] by (simp add: n_def sizeof_streamHead_def)
  have ints: "sint (of_nat n :: u32) = int n" "sint (of_nat ty :: u32) = int ty"
    using small ty(1) by (simp_all add: sint_of_nat_u32)
  have big: "24 \<le> n" by (simp add: n_def sizeof_streamHead_def)
  have loads: "load32 (head @ ?body @ rest) 0 = Inr (util_hton_32 (of_nat n))"
    "load32 (head @ ?body @ rest) 4 = Inr (util_hton_32 (of_nat ty))"
    using load32_append [of "[]" 0] load32_append [of "bytes32 (util_hton_32 (of_nat n))" 4]
    by (simp_all add: head_def)
  have long: "24 \<le> length (head @ ?body @ rest)" using len(2) by (simp add: sizeof_streamHead_def)
  have times: "\<exists>w. load64 (head @ ?body @ rest) 8 = Inr w" "\<exists>w. load64 (head @ ?body @ rest) 16 = Inr w"
    using long by (simp_all add: load64_def load32_def)
  obtain ob' where dec: "fn_decode (obj_fn ! ty) n (head @ ?body @ rest) (int n) = Inr (Some ob')"
    "obj_view ob' = obj_view ob"
    using decode_encode [OF assms(1) len(2) refl n_def] by blast
  have "length (head @ ?body) = n" using len(2) by (simp add: n_def)
  then have "decodeMsg mem ((head @ ?body) @ rest) (int (length (head @ ?body))) = Inr (Some ob')"
    using loads times dec(1) ints ty(1) entry assms(3) big
    by (auto simp: decodeMsg_def Let_def OBJ_TYPE_MAX_def put_field_def sizeof_streamHead_def)
  with msg dec(2) show ?thesis by blast
qed

end

section \<open>The three entries of the function table\<close>

lemma takeWhile_text:
  "strnlen buf n = k \<Longrightarrow> take k buf = takeWhile (\<lambda>c. c \<noteq> 0) (take n buf)"
proof -
  assume "strnlen buf n = k"
  then have k: "length (takeWhile (\<lambda>c. c \<noteq> 0) (take n buf)) = k" by (simp add: strnlen_def)
  have "takeWhile (\<lambda>c. c \<noteq> 0) (take n buf) = take k (take n buf)"
    using takeWhile_eq_take [of "\<lambda>c. c \<noteq> 0" "take n buf"] k by simp
  moreover have "k \<le> n" using k length_takeWhile_le [of "\<lambda>c. c \<noteq> 0" "take n buf"] by simp
  ultimately show ?thesis by (simp add: min_def)
qed

lemma text_terminated:
  assumes "\<forall>c \<in> set s. c \<noteq> 0" "length s < sizeof_buf"
  shows "takeWhile (\<lambda>c. c \<noteq> 0) (take sizeof_buf (s @ [0])) = s"
  using assms by (simp add: takeWhile_append2)

lemma text_nonzero: "c \<in> set (take (strnlen buf n) buf) \<Longrightarrow> c \<noteq> 0"
  unfolding takeWhile_text [OF refl] by (auto dest: set_takeWhileD)

lemma length_text: "length (take (strnlen buf n) buf) = strnlen buf n"
  unfolding takeWhile_text [OF refl] by (simp add: strnlen_def)

definition foo_ok :: "obj \<Rightarrow> bool" where
  "foo_ok ob \<longleftrightarrow> obj_type ob = 0 \<and> text_len ob < sizeof_buf"

definition bar_ok :: "obj \<Rightarrow> bool" where
  "bar_ok ob \<longleftrightarrow> obj_type ob = 1 \<and> 12 \<le> text_len ob \<and> text_len ob < sizeof_buf"

definition tr_ok :: "obj \<Rightarrow> bool" where
  "tr_ok ob \<longleftrightarrow> obj_type ob = 2"

lemma head_load32:
  "length head = sizeof_streamHead \<Longrightarrow> load32 (head @ bytes32 w @ xs) sizeof_streamHead = Inr w"
  by (rule load32_append)

lemma fooDecode_Encode:
  assumes "strnlen buf sizeof_buf = k" "k < sizeof_buf" "length head = sizeof_streamHead"
    and "n = sizeof_streamHead + length (fooEncode (Foo i buf))"
  shows "fooDecode n (head @ fooEncode (Foo i buf) @ rest) (int n) =
    Inr (Some (Foo i (take k buf @ [0])))"
proof -
  let ?s = "take k buf"
  have s: "length ?s = k" using length_text [of buf sizeof_buf] assms(1) by simp
  have body: "fooEncode (Foo i buf) = bytes32 (util_hton_32 i) @ ?s"
    by (simp add: fooEncode_def assms(1))
  have n: "n = 28 + k" using assms(4) s by (simp add: body sizeof_streamHead_def)
  have ld: "load32 (head @ fooEncode (Foo i buf) @ rest) sizeof_streamHead = Inr (util_hton_32 i)"
    using head_load32 [OF assms(3), of "util_hton_32 i" "?s @ rest"] by (simp add: body)
  have "to_int (int n - int sizeof_streamHead - 4) = int k"
    using n assms(2) by (simp add: sizeof_streamHead_def sizeof_buf_def to_int_small)
  moreover have "read_range (head @ fooEncode (Foo i buf) @ rest) (sizeof_streamHead + 4) k = Inr ?s"
    using assms(3) s by (simp add: read_range_def body)
  ultimately show ?thesis
    using ld n assms(2)
    by (auto simp: fooDecode_def Let_def put_field_def sizeof_buf_def sizeof_streamHead_def)
qed

lemma barDecode_Encode:
  assumes "strnlen buf sizeof_buf = k" "k < sizeof_buf" "length head = sizeof_streamHead"
    and "n = sizeof_streamHead + length (barEncode (Bar buf i))"
  shows "barDecode n (head @ barEncode (Bar buf i) @ rest) (int n) =
    (if 12 \<le> k then Inr (Some (Bar (take k buf @ [0]) i)) else Inl HeapOverflow)"
proof -
  let ?s = "take k buf"
  have s: "length ?s = k" using length_text [of buf sizeof_buf] assms(1) by simp
  have body: "barEncode (Bar buf i) = ?s @ bytes32 (util_hton_32 i)"
    by (simp add: barEncode_def assms(1))
  have n: "n = 28 + k" using assms(4) s by (simp add: body sizeof_streamHead_def)
  have ld: "load32 (head @ barEncode (Bar buf i) @ rest) (sizeof_streamHead + k) = Inr (util_hton_32 i)"
    using load32_append [of "head @ ?s" "sizeof_streamHead + k" "util_hton_32 i" rest] assms(3) s
    by (simp add: body)
  have "to_int (int n - int sizeof_streamHead - 4) = int k"
    using n assms(2) by (simp add: sizeof_streamHead_def sizeof_buf_def to_int_small)
  moreover have "read_range (head @ barEncode (Bar buf i) @ rest) sizeof_streamHead k = Inr ?s"
    using assms(3) s by (simp add: read_range_def body)
  ultimately show ?thesis
    using ld n assms(2)
    by (auto simp: barDecode_def Let_def put_field_def sizeof_buf_def sizeof_streamHead_def)
qed

lemma trDecode_Encode:
  assumes "length head = sizeof_streamHead" "n = sizeof_streamHead + 16"
  shows "trDecode n (head @ trEncode (TimeRecord s u) @ rest) (int n) = Inr (Some (TimeRecord s u))"
proof -
  let ?b = "head @ trEncode (TimeRecord s u) @ rest"
  have "load64 ?b sizeof_streamHead = Inr (util_hton_64 s)"
    using load64_append [OF assms(1), of "util_hton_64 s"] by (simp add: trEncode_def)
  moreover have "load64 ?b (sizeof_streamHead + 8) = Inr (util_hton_64 u)"
    using load64_append [of "head @ bytes64 (util_hton_64 s)" "sizeof_streamHead + 8" "util_hton_64 u" rest]
      assms(1) by (simp add: trEncode_def)
  ultimately show ?thesis
    using assms(2) by (simp add: trDecode_def put_field_def sizeof_streamHead_def)
qed

lemma view_text:
  assumes "strnlen buf sizeof_buf = k" "k < sizeof_buf"
  shows "takeWhile (\<lambda>c. c \<noteq> 0) (take sizeof_buf (take k buf @ [0])) =
    takeWhile (\<lambda>c. c \<noteq> 0) (take sizeof_buf buf)"
proof -
  have "takeWhile (\<lambda>c. c \<noteq> 0) (take sizeof_buf (take k buf @ [0])) = take k buf"
    using text_nonzero [of _ buf sizeof_buf] assms by (intro text_terminated) auto
  then show ?thesis using takeWhile_text [OF assms(1)] by simp
qed

interpretation foo: object_codec 0 foo_ok
proof
  fix ob :: obj and head body rest :: bytes and n :: nat
  assume ok: "foo_ok ob" and h: "length head = sizeof_streamHead"
    and body: "body = fn_encode (obj_fn ! 0) ob" and n: "n = sizeof_streamHead + length body"
  obtain i buf where ob: "ob = Foo i buf" using ok by (cases ob) (auto simp: foo_ok_def)
  have k: "strnlen buf sizeof_buf < sizeof_buf" using ok by (simp add: foo_ok_def ob)
  show "\<exists>ob'. fn_decode (obj_fn ! 0) n (head @ body @ rest) (int n) = Inr (Some ob') \<and>
      obj_view ob' = obj_view ob"
    using fooDecode_Encode [OF refl k h, of n i rest] view_text [OF refl k] n body
    by (simp add: obj_fn_def ob)
next
  fix ob assume "foo_ok ob"
  then show "obj_type ob = 0" "length (fn_encode (obj_fn ! 0) ob) \<le> 40"
    using length_text by (auto simp: foo_ok_def obj_fn_def fooEncode_def sizeof_buf_def split: obj.splits)
qed (simp add: obj_fn_def)

interpretation bar: object_codec 1 bar_ok
proof
  fix ob :: obj and head body rest :: bytes and n :: nat
  assume ok: "bar_ok ob" and h: "length head = sizeof_streamHead"
    and body: "body = fn_encode (obj_fn ! 1) ob" and n: "n = sizeof_streamHead + length body"
  obtain i buf where ob: "ob = Bar buf i" using ok by (cases ob) (auto simp: bar_ok_def)
  have k: "strnlen buf sizeof_buf < sizeof_buf" "12 \<le> strnlen buf sizeof_buf"
    using ok by (simp_all add: bar_ok_def ob)
  show "\<exists>ob'. fn_decode (obj_fn ! 1) n (head @ body @ rest) (int n) = Inr (Some ob') \<and>
      obj_view ob' = obj_view ob"
    using barDecode_Encode [OF refl k(1) h, of n i rest] view_text [OF refl k(1)] n body k(2)
    by (simp add: obj_fn_def ob)
next
  fix ob assume "bar_ok ob"
  then show "obj_type ob = 1" "length (fn_encode (obj_fn ! 1) ob) \<le> 40"
    using length_text by (auto simp: bar_ok_def obj_fn_def barEncode_def sizeof_buf_def split: obj.splits)
qed (simp add: obj_fn_def)

interpretation tr: object_codec 2 tr_ok
proof
  fix ob :: obj and head body rest :: bytes and n :: nat
  assume ok: "tr_ok ob" and h: "length head = sizeof_streamHead"
    and body: "body = fn_encode (obj_fn ! 2) ob" and n: "n = sizeof_streamHead + length body"
  obtain s u where ob: "ob = TimeRecord s u" using ok by (cases ob) (auto simp: tr_ok_def)
  have "n = sizeof_streamHead + 16" using n body by (simp add: obj_fn_def ob trEncode_def)
  from trDecode_Encode [OF h this, of s u rest]
  show "\<exists>ob'. fn_decode (obj_fn ! 2) n (head @ body @ rest) (int n) = Inr (Some ob') \<and>
      obj_view ob' = obj_view ob"
    using body by (simp add: obj_fn_def ob)
next
  fix ob assume "tr_ok ob"
  then show "obj_type ob = 2" "length (fn_encode (obj_fn ! 2) ob) \<le> 40"
    by (auto simp: tr_ok_def obj_fn_def trEncode_def split: obj.splits)
qed (simp add: obj_fn_def)

text \<open>
  C21. Messages survive the wire: a \<open>Foo\<close> with at most 31 characters, a \<open>Bar\<close> with 12 to 31 and every
  \<open>TimeRecord\<close> is decoded to the object that was encoded, whatever bytes follow the message and
  whether or not the clock could be read.
\<close>

theorem object_roundtrip:
  assumes "foo_ok ob \<or> bar_ok ob \<or> tr_ok ob" "length junk = 16" "\<forall>n. mem n"
  shows "\<exists>msg ob'. encodeMsg mem tv junk ob = Some msg \<and>
    decodeMsg mem (msg @ rest) (int (length msg)) = Inr (Some ob') \<and> obj_view ob' = obj_view ob"
  using assms(1) foo.message_roundtrip [OF _ assms(2,3)] bar.message_roundtrip [OF _ assms(2,3)]
    tr.message_roundtrip [OF _ assms(2,3)] by blast

theorem object_roundtrip_witness:
  "\<exists>msg ob'. encodeMsg (\<lambda>_. True) None (replicate 16 0xcd) (Foo 7 [0x68, 0x69, 0, 0x7a]) = Some msg \<and>
    decodeMsg (\<lambda>_. True) (msg @ [1, 2, 3]) (int (length msg)) = Inr (Some ob') \<and>
    obj_view ob' = obj_view (Foo 7 [0x68, 0x69, 0, 0x7a])"
  using object_roundtrip [where ob = "Foo 7 [0x68, 0x69, 0, 0x7a]" and junk = "replicate 16 0xcd" and
      mem = "\<lambda>_. True" and tv = None and rest = "[1, 2, 3]"]
  by (simp add: foo_ok_def strnlen_def sizeof_buf_def)

text \<open>The head of a message says how long it is.\<close>

lemma encodeMsg_head:
  assumes "encodeMsg mem tv junk ob = Some msg" "length junk = 16" "foo_ok ob \<or> bar_ok ob \<or> tr_ok ob"
  shows "load32 (msg @ rest) 0 = Inr (util_hton_32 (of_nat (length msg)))" "24 \<le> length msg" "length msg \<le> 64"
proof -
  let ?body = "fn_encode (obj_fn ! obj_type ob) ob"
  define times where "times = (case tv of None \<Rightarrow> junk
      | Some (sec, usec) \<Rightarrow> bytes64 (util_hton_64 sec) @ bytes64 (util_hton_64 usec))"
  have msg: "msg = bytes32 (util_hton_32 (of_nat (sizeof_streamHead + length ?body))) @
      (bytes32 (util_hton_32 (of_nat (obj_type ob))) @ times @ ?body)"
    using assms(1) by (simp add: encodeMsg_def Let_def times_def split: if_splits)
  have "length times = 16" using assms(2) by (auto simp: times_def split: option.splits)
  then have len: "length msg = sizeof_streamHead + length ?body"
    by (subst msg) (simp add: sizeof_streamHead_def)
  show "load32 (msg @ rest) 0 = Inr (util_hton_32 (of_nat (length msg)))"
    unfolding len by (subst msg) (simp add: load32_append [of "[]" 0, simplified])
  show "24 \<le> length msg" using len by (simp add: sizeof_streamHead_def)
  have "length ?body \<le> 40"
    using assms(3) foo.good_type foo.body_size bar.good_type bar.body_size tr.good_type tr.body_size by metis
  then show "length msg \<le> 64" using len by (simp add: sizeof_streamHead_def)
qed

text \<open>What the decoders return, whatever bytes they are given.\<close>

lemma fooDecode_typed:
  "fooDecode block buf len = Inr (Some ob) \<Longrightarrow> \<exists>i s. ob = Foo i (s @ [0]) \<and> length s < sizeof_buf"
  by (auto simp: fooDecode_def Let_def rbind_Inr_iff read_range_def sizeof_buf_def split: if_splits)

lemma barDecode_typed:
  "barDecode block buf len = Inr (Some ob) \<Longrightarrow> \<exists>s i. ob = Bar (s @ [0]) i \<and> length s < sizeof_buf"
  by (auto simp: barDecode_def Let_def rbind_Inr_iff read_range_def sizeof_buf_def split: if_splits)

lemma trDecode_typed: "trDecode block buf len = Inr (Some ob) \<Longrightarrow> \<exists>s u. ob = TimeRecord s u"
  by (auto simp: trDecode_def rbind_Inr_iff)

fun obj_buf :: "obj \<Rightarrow> bytes" where
  "obj_buf (Foo _ buf) = buf"
| "obj_buf (Bar buf _) = buf"
| "obj_buf (TimeRecord _ _) = [0]"

lemma decoded_object:
  assumes "decodeMsg mem buf len = Inr (Some ob)"
  shows "(\<exists>raw. load32 buf 4 = Inr raw \<and> int (obj_type ob) = sint (util_ntoh_32 raw)) \<and>
    0 \<in> set (obj_buf ob) \<and> length (obj_buf ob) \<le> sizeof_buf \<and> getName ob \<noteq> None \<and> is_ok (printObj ob)"
proof -
  obtain raw_size raw_type where raw: "load32 buf 4 = Inr raw_type" "0 \<le> sint (util_ntoh_32 raw_type)"
    "nat (sint (util_ntoh_32 raw_type)) < length obj_fn"
    "fn_decode (obj_fn ! nat (sint (util_ntoh_32 raw_type))) (nat (sint (util_ntoh_32 raw_size))) buf (sint (util_ntoh_32 raw_size)) = Inr (Some ob)"
    using assms by (auto simp: decodeMsg_def Let_def rbind_Inr_iff split: if_splits option.splits)
  define ty where "ty = nat (sint (util_ntoh_32 raw_type))"
  have "ty < 3" using raw(3) by (simp add: ty_def obj_fn_def)
  then consider "ty = 0" | "ty = 1" | "ty = 2" by linarith
  then have typed: "obj_type ob = ty \<and> 0 \<in> set (obj_buf ob) \<and> length (obj_buf ob) \<le> sizeof_buf"
  proof cases
    case 1
    then show ?thesis using raw(4) fooDecode_typed by (fastforce simp: ty_def [symmetric] obj_fn_def)
  next
    case 2
    then show ?thesis using raw(4) barDecode_typed by (fastforce simp: ty_def [symmetric] obj_fn_def)
  next
    case 3
    then show ?thesis using raw(4) trDecode_typed by (fastforce simp: ty_def [symmetric] obj_fn_def sizeof_buf_def)
  qed
  then have "getName ob \<noteq> None" using \<open>ty < 3\<close> by (simp add: getName_def OBJ_TYPE_MAX_def)
  moreover have "is_ok (printObj ob)"
    using typed by (cases ob) (simp_all add: printObj_def OBJ_TYPE_MAX_def obj_fn_def fooPrint_def barPrint_def trPrint_def fmt_str_def)
  ultimately show ?thesis using typed raw(1,2) by (auto simp: ty_def)
qed

text \<open>
  C30. Every object that \<open>decodeMsg\<close> returns, from whatever bytes, is of the type its message announces;
  its text has its null byte inside the 32 bytes of the buffer; and it has a name and can be printed
  without reading past the buffer.
\<close>

theorem decode_typed:
  assumes "decodeMsg mem buf len = Inr (Some ob)"
  shows "(\<exists>raw. load32 buf 4 = Inr raw \<and> int (obj_type ob) = sint (util_ntoh_32 raw)) \<and>
    0 \<in> set (obj_buf ob) \<and> length (obj_buf ob) \<le> sizeof_buf \<and> getName ob \<noteq> None \<and> is_ok (printObj ob)"
  by (rule decoded_object [OF assms])

theorem decode_typed_witness:
  "\<exists>msg ob. decodeMsg (\<lambda>_. True) msg (int (length msg)) = Inr (Some ob) \<and>
    (\<exists>raw. load32 msg 4 = Inr raw \<and> int (obj_type ob) = sint (util_ntoh_32 raw)) \<and>
    0 \<in> set (obj_buf ob) \<and> length (obj_buf ob) \<le> sizeof_buf \<and> getName ob \<noteq> None \<and> is_ok (printObj ob)"
proof -
  have "foo_ok (Foo 7 [0x68, 0x69, 0])" by (simp add: foo_ok_def strnlen_def sizeof_buf_def)
  then obtain msg ob where dec: "decodeMsg (\<lambda>_. True) msg (int (length msg)) = Inr (Some ob)"
    using foo.message_roundtrip [of "Foo 7 [0x68, 0x69, 0]" "replicate 16 0" "\<lambda>_. True" None "[]"] by auto
  show ?thesis using dec decode_typed [OF dec] by blast
qed

section \<open>Messages that go wrong\<close>

text \<open>The outcome of \<open>decodeMsg\<close> is that of the entry of the table, once the head was read.\<close>

lemma decodeMsg_entry:
  assumes "length head = 24" "24 \<le> len"
    and "load32 (head @ xs) 0 = Inr (util_hton_32 (of_nat n))" "n < 2 ^ 31" "4 \<le> n" "mem n"
    and "load32 (head @ xs) 4 = Inr (util_hton_32 (of_nat ty))" "ty < length obj_fn"
    and "fn_decode (obj_fn ! ty) n (head @ xs) (int n) = Inl e"
  shows "decodeMsg mem (head @ xs) len = Inl e"
proof -
  have ty: "ty < 3" using assms(8) by (simp add: obj_fn_def)
  have ints: "sint (of_nat n :: u32) = int n" "sint (of_nat ty :: u32) = int ty"
    using assms(4) ty by (simp_all add: sint_of_nat_u32)
  show ?thesis
    using assms ints ty
    by (auto simp: decodeMsg_def Let_def OBJ_TYPE_MAX_def put_field_def sizeof_streamHead_def)
qed

text \<open>
  A \<open>Bar\<close> with fewer than 12 characters is encoded into a message shorter than the object, and
  decoding that message writes past the end of the block of the size of the message.
\<close>

theorem short_bar_overflows:
  assumes "strnlen buf sizeof_buf < 12" "length junk = 16" "\<forall>n. mem n"
  shows "\<exists>msg. encodeMsg mem tv junk (Bar buf i) = Some msg \<and>
    decodeMsg mem (msg @ rest) (int (length msg)) = Inl HeapOverflow"
proof -
  let ?body = "barEncode (Bar buf i)"
  define n where "n = sizeof_streamHead + length ?body"
  define times where "times = (case tv of None \<Rightarrow> junk
      | Some (sec, usec) \<Rightarrow> bytes64 (util_hton_64 sec) @ bytes64 (util_hton_64 usec))"
  define head where "head = bytes32 (util_hton_32 (of_nat n)) @ bytes32 (util_hton_32 (of_nat 1)) @ times"
  have len: "length head = sizeof_streamHead"
    using assms(2) by (auto simp: times_def head_def sizeof_streamHead_def split: option.splits)
  have msg: "encodeMsg mem tv junk (Bar buf i) = Some (head @ ?body)"
    using assms(3) by (simp add: encodeMsg_def OBJ_TYPE_MAX_def Let_def head_def times_def n_def obj_fn_def)
  have k: "strnlen buf sizeof_buf < sizeof_buf" using assms(1) by (simp add: sizeof_buf_def)
  have "n = 28 + strnlen buf sizeof_buf"
    using length_text [of buf sizeof_buf] by (simp add: n_def barEncode_def sizeof_streamHead_def)
  then have small: "n < 2 ^ 31" "24 \<le> n" using assms(1) by simp_all
  have loads: "load32 (head @ ?body @ rest) 0 = Inr (util_hton_32 (of_nat n))"
    "load32 (head @ ?body @ rest) 4 = Inr (util_hton_32 (of_nat 1))"
    using load32_append [of "[]" 0] load32_append [of "bytes32 (util_hton_32 (of_nat n))" 4]
    by (simp_all add: head_def)
  have dec: "fn_decode (obj_fn ! 1) n (head @ ?body @ rest) (int n) = Inl HeapOverflow"
    using barDecode_Encode [OF refl k len n_def, of rest] assms(1) by (simp add: obj_fn_def)
  have "int (length (head @ ?body)) = int n" using len by (simp add: n_def)
  then have "decodeMsg mem (head @ ?body @ rest) (int (length (head @ ?body))) = Inl HeapOverflow"
    using decodeMsg_entry [OF _ _ loads(1) small(1) _ _ loads(2) _ dec] len small(2) assms(3)
    by (simp add: sizeof_streamHead_def obj_fn_def)
  with msg show ?thesis by simp
qed

theorem short_bar_overflows_witness:
  "\<exists>msg. encodeMsg (\<lambda>_. True) None (replicate 16 0) (Bar [0x68, 0x69, 0] 5) = Some msg \<and>
    decodeMsg (\<lambda>_. True) (msg @ []) (int (length msg)) = Inl HeapOverflow"
  using short_bar_overflows [where buf = "[0x68, 0x69, 0]" and junk = "replicate 16 0" and
      mem = "\<lambda>_. True" and tv = None and rest = "[]" and i = 5]
  by (simp add: strnlen_def sizeof_buf_def)

text \<open>
  The range check of \<open>decodeMsg\<close> lets the type \<open>OBJ_TYPE_MAX\<close> itself pass: every message of that type
  is dispatched through an entry past the end of the function table.
\<close>

theorem type_max_out_of_bounds:
  assumes "24 \<le> length msg" "load32 msg 0 = Inr (util_hton_32 (of_nat n))" "4 \<le> n" "n < 2 ^ 31" "mem n"
    and "load32 msg 4 = Inr (util_hton_32 3)"
  shows "decodeMsg mem msg (int (length msg)) = Inl OutOfBounds"
proof -
  have ints: "sint (of_nat n :: u32) = int n" "sint (3 :: u32) = 3"
    using assms(4) by (simp_all add: sint_of_nat_u32)
  show ?thesis
    using assms ints
    by (auto simp: decodeMsg_def Let_def OBJ_TYPE_MAX_def put_field_def sizeof_streamHead_def obj_fn_def)
qed

theorem type_max_out_of_bounds_witness:
  "decodeMsg (\<lambda>_. True) ([0, 0, 0, 24, 0, 0, 0, 3] @ replicate 16 0) 24 = Inl OutOfBounds"
  using type_max_out_of_bounds [where msg = "[0, 0, 0, 24, 0, 0, 0, 3] @ replicate 16 0" and n = 24 and
      mem = "\<lambda>_. True"]
  by (simp add: load32_def le32_def util_hton_32_def little util_ex_32_def)

end
