(* ===== verification/DemoCodec.thy ===== *)
theory DemoCodec
  imports ObjectCodec "HOL-Library.Sublist"
begin

text \<open>
  The message protocol of src/use/cpp/use_mugglecpp/tcp_custom_protocol: the header (src/demo/msg.h), the codec that cuts a byte stream into
  messages (codec_bytes.cpp, codec.cpp), the dispatcher (dispatcher.cpp) and the session that holds the pieces together (session.cpp).

  The socket is the bytes that can be read now, the bytes that were sent and how many more can be sent before it would block. The byte buffer
  of the muggle library is a record of functions with the laws \<open>buffer_laws\<close>. A message in memory is the list of bytes from its address
  to the end of the memory it lies in: the block that was allocated for it or the rest of the buffer. Loads past that end are faults.
\<close>

unbundle bit_operations_syntax

section \<open>Headers\<close>

definition sizeof_msg_hdr :: nat where "sizeof_msg_hdr = 16"

record demo_msg_hdr =
  mh_magic :: bytes
  mh_flags :: bytes
  mh_msg_id :: u32
  mh_payload_len :: u32

definition MUGGLE_DEMO_MAGIC_WORD :: bytes where "MUGGLE_DEMO_MAGIC_WORD = [0x44, 0x45, 0x4D, 0x4F]"
definition s_protocol_ver :: u8 where "s_protocol_ver = 1"

definition hdr_of :: "bytes \<Rightarrow> demo_msg_hdr" where
  "hdr_of b = \<lparr>mh_magic = take 4 b, mh_flags = take 4 (drop 4 b), mh_msg_id = le32 (b ! 8) (b ! 9) (b ! 10) (b ! 11),
     mh_payload_len = le32 (b ! 12) (b ! 13) (b ! 14) (b ! 15)\<rparr>"

text \<open>The macro that makes a message on the stack: cleared memory with the message id; the fields of the payload are then assigned.\<close>

definition NEW_STACK_DEMO_MSG :: "u32 \<Rightarrow> bytes \<Rightarrow> bytes" where
  "NEW_STACK_DEMO_MSG demo_msg_id payload = replicate 8 0 @ bytes32 demo_msg_id @ replicate 4 0 @ payload"

section \<open>Sockets, buffers and sessions\<close>

record socket =
  sk_in :: bytes
  sk_out :: bytes
  sk_room :: "nat option"
  sk_shut :: bool
  sk_close :: bool     \<comment> \<open>the flag that makes the event loop close the context\<close>
  sk_refs :: nat

definition ctx_Read :: "nat \<Rightarrow> socket \<Rightarrow> int \<times> bytes \<times> socket" where
  "ctx_Read n k = (let bs = take n (sk_in k) in (if bs = [] then -1 else int (length bs), bs, k\<lparr>sk_in := drop n (sk_in k)\<rparr>))"

text \<open>
  Writing is \<open>send\<close> on the socket: it takes as many bytes as there is room for, fails when there is none, and fails on a socket that was shut down.
\<close>

definition ctx_Write :: "bytes \<Rightarrow> socket \<Rightarrow> int \<times> socket" where
  "ctx_Write bs k =
     (if sk_shut k then (-1, k)
      else
        case sk_room k of
          None \<Rightarrow> (int (length bs), k\<lparr>sk_out := sk_out k @ bs\<rparr>)
        | Some r \<Rightarrow>
            if r = 0 then (-1, k)
            else (int (min r (length bs)), k\<lparr>sk_out := sk_out k @ take r bs, sk_room := Some (r - length bs)\<rparr>))"

text \<open>
  \<open>BytesBuffer\<close>: \<open>WriterFc\<close> gives a pointer to contiguous writable memory or null, \<open>WriterMove\<close> takes the bytes that were stored there;
  \<open>ReaderFc\<close> gives the memory from the reading position to the end of the storage if that holds enough bytes, else null.
\<close>

record 'b buffer_ops =
  b_new :: "int \<Rightarrow> 'b"
  b_WriterFc :: "'b \<Rightarrow> int \<Rightarrow> bool"
  b_WriterMove :: "'b \<Rightarrow> bytes \<Rightarrow> 'b"
  b_Fetch :: "'b \<Rightarrow> int \<Rightarrow> bytes option"
  b_Readable :: "'b \<Rightarrow> int"
  b_ReaderFc :: "'b \<Rightarrow> int \<Rightarrow> bytes option"
  b_ReaderMove :: "'b \<Rightarrow> int \<Rightarrow> 'b"
  b_Read :: "'b \<Rightarrow> int \<Rightarrow> bytes \<times> 'b"

record ('b, 'p) session =
  user_data :: "'p option"
  bytes_buf :: "'b option"
  ctx :: "socket option"
  detached :: bool
  last_actived_ts :: int
  addr :: string
  ses_log :: "string list"   \<comment> \<open>what the dispatcher and the peers log\<close>
  ticks :: nat               \<comment> \<open>how often \<open>time(NULL)\<close> was called for this session\<close>

definition new_session :: "('b, 'p) session" where
  "new_session = \<lparr>user_data = None, bytes_buf = None, ctx = None, detached = False, last_actived_ts = 0, addr = [], ses_log = [], ticks = 0\<rparr>"

definition initBytesBuffer :: "'b buffer_ops \<Rightarrow> int \<Rightarrow> ('b, 'p) session \<Rightarrow> ('b, 'p) session" where
  "initBytesBuffer B cap s = s\<lparr>bytes_buf := Some (b_new B cap)\<rparr>"

definition say_log :: "string \<Rightarrow> ('b, 'p) session \<Rightarrow> ('b, 'p) session" where
  "say_log t s = s\<lparr>ses_log := ses_log s @ [t]\<rparr>"

definition updateActiveTime :: "int \<Rightarrow> ('b, 'p) session \<Rightarrow> ('b, 'p) session" where
  "updateActiveTime ts s = s\<lparr>last_actived_ts := ts\<rparr>"

definition Shutdown :: "socket \<Rightarrow> socket" where
  "Shutdown k = k\<lparr>sk_shut := True\<rparr>"

definition session_Close :: "('b, 'p) session \<Rightarrow> ('b, 'p) session result" where
  "session_Close s = (case ctx s of None \<Rightarrow> Inl NullDeref | Some k \<Rightarrow> Inr (s\<lparr>ctx := Some (Shutdown k)\<rparr>))"

section \<open>The dispatcher\<close>

text \<open>
  \<open>s_endianess\<close> is the constant of the muggle library for the byte order of the host. The chain of codecs is the list from \<open>codec_list_head_\<close> to \<open>codec_list_tail_\<close>,
  as \<open>Codec::append\<close> links them.
\<close>

record codec_bytes =
  recv_unit_size :: u32
  msg_len_limit :: u32
  s_endianess :: u8

definition CodecBytes :: "u8 \<Rightarrow> codec_bytes" where
  "CodecBytes endian = \<lparr>recv_unit_size = 4 * 1024, msg_len_limit = 32 * 1024, s_endianess = endian\<rparr>"

definition setRecvUnitSize :: "u32 \<Rightarrow> codec_bytes \<Rightarrow> codec_bytes" where
  "setRecvUnitSize n c = c\<lparr>recv_unit_size := n\<rparr>"

definition setMsgLenLimit :: "u32 \<Rightarrow> codec_bytes \<Rightarrow> codec_bytes" where
  "setMsgLenLimit n c = c\<lparr>msg_len_limit := n\<rparr>"

type_synonym ('b, 'p) net_callback = "bytes \<Rightarrow> ('b, 'p) session \<Rightarrow> ('b, 'p) session result"

record ('b, 'p) dispatcher =
  total_msg :: u32
  callbacks :: "('b, 'p) net_callback option list"
  codecs :: "codec_bytes list"

definition new_dispatcher :: "('b, 'p) dispatcher" where
  "new_dispatcher = \<lparr>total_msg = 0, callbacks = [], codecs = []\<rparr>"

text \<open>\<open>mem\<close> tells whether the allocation succeeds.\<close>

definition setTotalMessage :: "bool \<Rightarrow> u32 \<Rightarrow> ('b, 'p) dispatcher \<Rightarrow> bool \<times> ('b, 'p) dispatcher" where
  "setTotalMessage mem n d =
     (if total_msg d \<noteq> 0 then (False, d)
      else if \<not> mem then (False, d\<lparr>callbacks := []\<rparr>)
      else (True, d\<lparr>callbacks := replicate (unat n) None, total_msg := n\<rparr>))"

definition registerCallback :: "u32 \<Rightarrow> ('b, 'p) net_callback \<Rightarrow> ('b, 'p) dispatcher \<Rightarrow> bool \<times> ('b, 'p) dispatcher" where
  "registerCallback msg_id cb d =
     (if msg_id \<ge> total_msg d then (False, d)
      else if \<not> Option.is_none (callbacks d ! unat msg_id) then (False, d)
      else (True, d\<lparr>callbacks := (callbacks d)[unat msg_id := Some cb]\<rparr>))"

definition appendCodec :: "codec_bytes \<Rightarrow> ('b, 'p) dispatcher \<Rightarrow> ('b, 'p) dispatcher" where
  "appendCodec c d = d\<lparr>codecs := codecs d @ [c]\<rparr>"

subsection \<open>Sending\<close>

text \<open>\<open>CodecBytes::encode\<close> on the message in memory.\<close>

definition stamp_hdr :: "codec_bytes \<Rightarrow> bytes \<Rightarrow> nat \<Rightarrow> bytes" where
  "stamp_hdr c data datalen =
     MUGGLE_DEMO_MAGIC_WORD @ [s_endianess c, s_protocol_ver, 0] @ [data ! 7] @ take 4 (drop 8 data) @
     bytes32 (of_nat datalen - of_nat sizeof_msg_hdr) @ drop 16 data"

text \<open>The assertion that the socket context is there is active in builds with debug information; both builds end without sending.\<close>

fun dispatcher_encode :: "codec_bytes list \<Rightarrow> bytes \<Rightarrow> nat \<Rightarrow> ('b, 'p) session \<Rightarrow> (bool \<times> ('b, 'p) session) result" where
  "dispatcher_encode (c # cs) data datalen s =
     (if length data < 16 then Inl HeapOverflow else dispatcher_encode cs (stamp_hdr c data datalen) datalen s)"
| "dispatcher_encode [] data datalen s =
     (case ctx s of
        None \<Rightarrow> Inl AssertFailed
      | Some k \<Rightarrow>
          rbind (load32 data 8) (\<lambda>msg_id.
          rbind (read_range data 0 datalen) (\<lambda>bs.
          let (n, k) = ctx_Write bs k in
          Inr (n = int datalen, s\<lparr>ctx := Some k\<rparr>))))"

text \<open>The first codec of the dispatcher is the head of the list.\<close>

definition sendMessage :: "codec_bytes list \<Rightarrow> bytes \<Rightarrow> nat \<Rightarrow> ('b, 'p) session \<Rightarrow> (bool \<times> ('b, 'p) session) result" where
  "sendMessage cs = dispatcher_encode cs"

subsection \<open>Receiving\<close>

text \<open>The loop that fills the buffer; the fuel is one more than the bytes that can be read.\<close>

fun fill_buffer :: "nat \<Rightarrow> 'b buffer_ops \<Rightarrow> nat \<Rightarrow> 'b \<Rightarrow> socket \<Rightarrow> ('b \<times> socket) result" where
  "fill_buffer 0 B u buf k = Inl Diverges"
| "fill_buffer (Suc fuel) B u buf k =
     (if \<not> b_WriterFc B buf (int u) then Inr (buf, k)
      else
        let (n, bs, k) = ctx_Read u k;
            buf = (if n > 0 then b_WriterMove B buf bs else buf) in
        if n < int u then Inr (buf, k) else fill_buffer fuel B u buf k)"

datatype hdr_check = HdrBad | HdrShort | HdrReady u32

definition check_hdr :: "codec_bytes \<Rightarrow> bytes \<Rightarrow> int \<Rightarrow> hdr_check" where
  "check_hdr c raw readable =
     (let h = hdr_of raw; total_bytes = of_nat sizeof_msg_hdr + mh_payload_len h in
      if mh_magic h \<noteq> MUGGLE_DEMO_MAGIC_WORD then HdrBad
      else if mh_flags h ! 0 \<noteq> s_endianess c then HdrBad
      else if mh_flags h ! 1 \<noteq> s_protocol_ver then HdrBad
      else if mh_flags h ! 2 \<noteq> 0 then HdrBad
      else if mh_flags h ! 3 \<noteq> 0 then HdrBad
      else if msg_len_limit c > 0 \<and> total_bytes > msg_len_limit c then HdrBad
      else if (word_of_int readable :: u32) < total_bytes then HdrShort
      else HdrReady total_bytes)"

text \<open>The loop that takes messages out of the buffer and gives them to the next codec or the dispatcher (\<open>upper\<close>). \<open>malloc\<close> is not tested.\<close>

fun parse_messages ::
  "nat \<Rightarrow> 'b buffer_ops \<Rightarrow> (nat \<Rightarrow> bool) \<Rightarrow> codec_bytes \<Rightarrow> (bytes \<Rightarrow> ('b, 'p) session \<Rightarrow> (bool \<times> ('b, 'p) session) result) \<Rightarrow>
   ('b, 'p) session \<Rightarrow> (bool \<times> ('b, 'p) session) result" where
  "parse_messages 0 B mem c upper s = Inl Diverges"
| "parse_messages (Suc fuel) B mem c upper s =
     (case bytes_buf s of
        None \<Rightarrow> Inl NullDeref
      | Some buf \<Rightarrow>
          (case b_Fetch B buf (int sizeof_msg_hdr) of
             None \<Rightarrow> Inr (True, s)
           | Some raw \<Rightarrow>
               (case check_hdr c raw (b_Readable B buf) of
                  HdrBad \<Rightarrow> Inr (False, s)
                | HdrShort \<Rightarrow> Inr (True, s)
                | HdrReady total_bytes \<Rightarrow>
                    (case b_ReaderFc B buf (int (unat total_bytes)) of
                       None \<Rightarrow>
                         if unat total_bytes \<noteq> 0 \<and> \<not> mem (unat total_bytes) then Inl NullDeref
                         else
                           let (data, buf) = b_Read B buf (int (unat total_bytes)) in
                           rbind (upper data (s\<lparr>bytes_buf := Some buf\<rparr>)) (\<lambda>(ok, s).
                           if \<not> ok then Inr (False, s) else parse_messages fuel B mem c upper s)
                     | Some p_msg \<Rightarrow>
                         rbind (upper p_msg s) (\<lambda>(ok, s).
                         case bytes_buf s of
                           None \<Rightarrow> Inl NullDeref
                         | Some buf \<Rightarrow>
                             let s = s\<lparr>bytes_buf := Some (b_ReaderMove B buf (int (unat total_bytes)))\<rparr> in
                             if \<not> ok then Inr (False, s) else parse_messages fuel B mem c upper s)))))"

declare parse_messages.simps [simp del]

text \<open>\<open>CodecBytes::decode\<close>: its own data is not looked at.\<close>

definition codec_decode ::
  "'b buffer_ops \<Rightarrow> (nat \<Rightarrow> bool) \<Rightarrow> codec_bytes \<Rightarrow> (bytes \<Rightarrow> ('b, 'p) session \<Rightarrow> (bool \<times> ('b, 'p) session) result) \<Rightarrow>
   ('b, 'p) session \<Rightarrow> (bool \<times> ('b, 'p) session) result" where
  "codec_decode B mem c upper s =
     (case (bytes_buf s, ctx s) of
        (Some buf, Some k) \<Rightarrow>
          rbind (fill_buffer (Suc (length (sk_in k))) B (unat (recv_unit_size c)) buf k) (\<lambda>(buf, k).
          parse_messages (Suc (nat (b_Readable B buf))) B mem c upper (s\<lparr>bytes_buf := Some buf, ctx := Some k\<rparr>))
      | _ \<Rightarrow> Inl AssertFailed)"

definition dispatch :: "('b, 'p) dispatcher \<Rightarrow> bytes \<Rightarrow> ('b, 'p) session \<Rightarrow> (bool \<times> ('b, 'p) session) result" where
  "dispatch D data s =
     (case ctx s of
        None \<Rightarrow> Inl AssertFailed
      | Some _ \<Rightarrow>
          rbind (load32 data 8) (\<lambda>msg_id.
          case (if msg_id < total_msg D then callbacks D ! unat msg_id else None) of
            Some cb_func \<Rightarrow> rbind (cb_func data s) (\<lambda>s. Inr (True, s))
          | None \<Rightarrow> Inr (True, say_log (''failed find callback, addr='' @ addr s @ '', msg_id='' @ decw msg_id) s)))"

fun dispatcher_decode ::
  "'b buffer_ops \<Rightarrow> (nat \<Rightarrow> bool) \<Rightarrow> ('b, 'p) dispatcher \<Rightarrow> codec_bytes list \<Rightarrow> bytes \<Rightarrow> ('b, 'p) session \<Rightarrow> (bool \<times> ('b, 'p) session) result" where
  "dispatcher_decode B mem D (c # cs) data s = codec_decode B mem c (dispatcher_decode B mem D cs) s"
| "dispatcher_decode B mem D [] data s = dispatch D data s"

text \<open>Decoding begins at the tail of the chain.\<close>

definition recvMessage :: "'b buffer_ops \<Rightarrow> (nat \<Rightarrow> bool) \<Rightarrow> ('b, 'p) dispatcher \<Rightarrow> ('b, 'p) session \<Rightarrow> (bool \<times> ('b, 'p) session) result" where
  "recvMessage B mem D s = dispatcher_decode B mem D (rev (codecs D)) [] s"

section \<open>What the buffer promises\<close>

definition buffer_laws :: "'b buffer_ops \<Rightarrow> ('b \<Rightarrow> bytes) \<Rightarrow> bool" where
  "buffer_laws B content \<longleftrightarrow>
     (\<forall>n. content (b_new B n) = []) \<and>
     (\<forall>b n bs. b_WriterFc B b (int n) \<and> length bs \<le> n \<longrightarrow> content (b_WriterMove B b bs) = content b @ bs) \<and>
     (\<forall>b. b_Readable B b = int (length (content b))) \<and>
     (\<forall>b n. b_Fetch B b (int n) = (if n \<le> length (content b) then Some (take n (content b)) else None)) \<and>
     (\<forall>b n p. b_ReaderFc B b (int n) = Some p \<and> n \<le> length (content b) \<longrightarrow> (\<exists>r. p = take n (content b) @ r)) \<and>
     (\<forall>b n. n \<le> length (content b) \<longrightarrow> content (b_ReaderMove B b (int n)) = drop n (content b) \<and>
        fst (b_Read B b (int n)) = take n (content b) \<and> content (snd (b_Read B b (int n))) = drop n (content b))"

lemma buffer_lawsD:
  assumes "buffer_laws B content"
  shows "b_WriterFc B b (int n) \<Longrightarrow> length bs \<le> n \<Longrightarrow> content (b_WriterMove B b bs) = content b @ bs"
    "b_Readable B b = int (length (content b))"
    "b_Fetch B b (int n) = (if n \<le> length (content b) then Some (take n (content b)) else None)"
    "b_ReaderFc B b (int n) = Some p \<Longrightarrow> n \<le> length (content b) \<Longrightarrow> \<exists>r. p = take n (content b) @ r"
    "n \<le> length (content b) \<Longrightarrow> content (b_ReaderMove B b (int n)) = drop n (content b)"
    "n \<le> length (content b) \<Longrightarrow> fst (b_Read B b (int n)) = take n (content b)"
    "n \<le> length (content b) \<Longrightarrow> content (snd (b_Read B b (int n))) = drop n (content b)"
    "content (b_new B m) = []"
  using assms unfolding buffer_laws_def by blast+

text \<open>There is room to receive \<open>u\<close> more bytes as long as at most \<open>cap\<close> are kept.\<close>

definition roomy :: "'b buffer_ops \<Rightarrow> ('b \<Rightarrow> bytes) \<Rightarrow> nat \<Rightarrow> nat \<Rightarrow> bool" where
  "roomy B content u cap \<longleftrightarrow> (\<forall>b. length (content b) \<le> cap \<longrightarrow> b_WriterFc B b (int u))"

text \<open>Filling the buffer moves bytes from the socket to the buffer, until there are none or the buffer has no room.\<close>

lemma fill_buffer_moves:
  assumes "buffer_laws B content" "0 < u" "length (sk_in k) < fuel"
  shows "\<exists>buf' rest. fill_buffer fuel B u buf k = Inr (buf', k\<lparr>sk_in := rest\<rparr>) \<and> content buf' @ rest = content buf @ sk_in k \<and>
    (rest = [] \<or> \<not> b_WriterFc B buf' (int u))"
  using assms(3)
proof (induction fuel arbitrary: buf k)
  case (Suc fuel)
  let ?bs = "take u (sk_in k)" and ?k = "k\<lparr>sk_in := drop u (sk_in k)\<rparr>"
  show ?case
  proof (cases "b_WriterFc B buf (int u)")
    case False
    then show ?thesis by (intro exI [of _ buf] exI [of _ "sk_in k"]) simp
  next
    case True
    have w: "content (b_WriterMove B buf ?bs) = content buf @ ?bs" using buffer_lawsD(1) [OF assms(1) True] by simp
    consider "sk_in k = []" | "sk_in k \<noteq> []" "length (sk_in k) < u" | "u \<le> length (sk_in k)" by linarith
    then show ?thesis
    proof cases
      case 1
      then show ?thesis using True assms(2) by (intro exI [of _ buf] exI [of _ "[]"]) (simp add: ctx_Read_def)
    next
      case 2
      then show ?thesis using True w by (intro exI [of _ "b_WriterMove B buf ?bs"] exI [of _ "[]"]) (simp add: ctx_Read_def Let_def)
    next
      case 3
      then have "sk_in k \<noteq> []" using assms(2) by auto
      then have step: "fill_buffer (Suc fuel) B u buf k = fill_buffer fuel B u (b_WriterMove B buf ?bs) ?k"
        using True 3 assms(2) by (simp add: ctx_Read_def Let_def)
      have "length (sk_in ?k) < fuel" using Suc.prems assms(2) 3 by simp
      from Suc.IH [OF this, of "b_WriterMove B buf ?bs"] obtain buf' rest where
        r: "fill_buffer fuel B u (b_WriterMove B buf ?bs) ?k = Inr (buf', ?k\<lparr>sk_in := rest\<rparr>)"
           "content buf' @ rest = content (b_WriterMove B buf ?bs) @ drop u (sk_in k)" "rest = [] \<or> \<not> b_WriterFc B buf' (int u)" by auto
      then show ?thesis using step w by (intro exI [of _ buf'] exI [of _ rest]) simp
    qed
  qed
qed simp

section \<open>Messages\<close>

text \<open>A message as it goes over the wire.\<close>

definition msg_ok :: "codec_bytes \<Rightarrow> bytes \<Rightarrow> bool" where
  "msg_ok c m \<longleftrightarrow> (\<exists>id payload. m = MUGGLE_DEMO_MAGIC_WORD @ [s_endianess c, s_protocol_ver, 0, 0] @ bytes32 id @ bytes32 (of_nat (length payload)) @ payload \<and>
     16 + length payload < 2 ^ 31 \<and> (msg_len_limit c > 0 \<longrightarrow> 16 + length payload \<le> unat (msg_len_limit c)))"

lemma hdr_of_wire:
  "length fl = 4 \<Longrightarrow> hdr_of (MUGGLE_DEMO_MAGIC_WORD @ fl @ bytes32 msg_id @ bytes32 n @ r) =
     \<lparr>mh_magic = MUGGLE_DEMO_MAGIC_WORD, mh_flags = fl, mh_msg_id = msg_id, mh_payload_len = n\<rparr>"
  by (simp add: hdr_of_def MUGGLE_DEMO_MAGIC_WORD_def bytes32_def nth_append le32_bytes32)

lemma msg_ok_length: "msg_ok c m \<Longrightarrow> 16 \<le> length m \<and> length m < 2 ^ 31"
  by (auto simp: msg_ok_def MUGGLE_DEMO_MAGIC_WORD_def)

text \<open>The header of a message that has arrived in part.\<close>

lemma check_hdr_msg:
  assumes "msg_ok c m" "16 \<le> length p" "p = take (length p) (m @ r)" "length p < 2 ^ 31"
  shows "check_hdr c (take 16 p) (int (length p)) = (if length p < length m then HdrShort else HdrReady (of_nat (length m)))"
proof -
  obtain id payload where m: "m = MUGGLE_DEMO_MAGIC_WORD @ [s_endianess c, s_protocol_ver, 0, 0] @ bytes32 id @ bytes32 (of_nat (length payload)) @ payload"
      "16 + length payload < 2 ^ 31" "msg_len_limit c > 0 \<longrightarrow> 16 + length payload \<le> unat (msg_len_limit c)"
    using assms(1) by (auto simp: msg_ok_def)
  have len: "length m = 16 + length payload" by (simp add: m(1) MUGGLE_DEMO_MAGIC_WORD_def)
  have "take 16 p = take 16 (take (length p) (m @ r))" using assms(3) by simp
  then have "take 16 p = take 16 m" using assms(2) len by (simp add: min_def)
  then have h: "hdr_of (take 16 p) = \<lparr>mh_magic = MUGGLE_DEMO_MAGIC_WORD, mh_flags = [s_endianess c, s_protocol_ver, 0, 0],
      mh_msg_id = id, mh_payload_len = of_nat (length payload)\<rparr>"
    by (simp add: m(1) hdr_of_def MUGGLE_DEMO_MAGIC_WORD_def bytes32_def le32_bytes32)
  have t: "unat (16 + of_nat (length payload) :: u32) = length m"
    using m(2) len unat_of_nat_u32 [of "16 + length payload"] by simp
  have tot: "(16 + of_nat (length payload) :: u32) = of_nat (length m)" using len by simp
  have "\<not> (msg_len_limit c > 0 \<and> (16 + of_nat (length payload) :: u32) > msg_len_limit c)"
    using m(3) t len by (auto simp: word_less_nat_alt)
  moreover have "(word_of_int (int (length p)) :: u32) < 16 + of_nat (length payload) \<longleftrightarrow> length p < length m"
    using t assms(4) by (simp add: word_less_nat_alt unat_of_nat_u32)
  ultimately show ?thesis by (simp add: check_hdr_def h sizeof_msg_hdr_def Let_def tot)
qed

lemma check_hdr_short:
  assumes "msg_ok c m" "16 \<le> length r" "r = take (length r) m" "length r < length m"
  shows "check_hdr c (take 16 r) (int (length r)) = HdrShort"
  using check_hdr_msg [OF assms(1,2), of "[]"] assms msg_ok_length [OF assms(1)] by simp

text \<open>A part of a stream of messages is a number of whole ones and the beginning of the next.\<close>

lemma stream_split:
  assumes "prefix p (concat todo)"
  shows "\<exists>ms todo' r. todo = ms @ todo' \<and> p = concat ms @ r \<and> (todo' = [] \<and> r = [] \<or> (\<exists>m t. todo' = m # t \<and> prefix r m \<and> length r < length m))"
  using assms
proof (induction todo arbitrary: p)
  case (Cons m todo)
  show ?case
  proof (cases "length p < length m")
    case True
    then have "prefix p m" using Cons.prems by (metis concat.simps(2) nat_less_le prefixI prefix_length_prefix)
    then show ?thesis using True by (intro exI [of _ "[]"] exI [of _ "m # todo"] exI [of _ p]) simp
  next
    case False
    then obtain q where q: "p = m @ q" "prefix q (concat todo)"
      using Cons.prems by (metis concat.simps(2) linorder_not_less prefixE prefixI prefix_length_prefix same_prefix_prefix)
    from Cons.IH [OF q(2)] obtain ms todo' r where "todo = ms @ todo'" "q = concat ms @ r"
        "todo' = [] \<and> r = [] \<or> (\<exists>m t. todo' = m # t \<and> prefix r m \<and> length r < length m)" by blast
    then show ?thesis using q(1) by (intro exI [of _ "m # ms"] exI [of _ todo'] exI [of _ r]) simp
  qed
qed simp

section \<open>Delivery\<close>

text \<open>
  The contract of what stands above a codec: for the messages it accepts, it looks at no byte behind the message, and neither looks at nor
  changes what waits in the byte buffer of the session and in the socket.
\<close>

type_synonym ('b, 'p) sink = "bytes \<Rightarrow> ('b, 'p) session \<Rightarrow> (bool \<times> ('b, 'p) session) result"

definition set_io :: "'b option \<Rightarrow> bytes \<Rightarrow> ('b, 'p) session \<Rightarrow> ('b, 'p) session" where
  "set_io b i s = s\<lparr>bytes_buf := b, ctx := map_option (\<lambda>k. k\<lparr>sk_in := i\<rparr>) (ctx s)\<rparr>"

definition waiting :: "('b, 'p) session \<Rightarrow> bytes" where
  "waiting s = (case ctx s of None \<Rightarrow> [] | Some k \<Rightarrow> sk_in k)"

definition put_io :: "'b option \<Rightarrow> bytes \<Rightarrow> (bool \<times> ('b, 'p) session) result \<Rightarrow> (bool \<times> ('b, 'p) session) result" where
  "put_io b i x = rbind x (\<lambda>(ok, s). Inr (ok, set_io b i s))"

lemma set_io_simps [simp]:
  "set_io b i (set_io b' i' s) = set_io b i s" "bytes_buf (set_io b i s) = b" "ctx (set_io b i s) = map_option (\<lambda>k. k\<lparr>sk_in := i\<rparr>) (ctx s)"
  "set_io b (waiting s) s = s\<lparr>bytes_buf := b\<rparr>" "set_io (bytes_buf s) (waiting s) s = s"
  by (auto simp: set_io_def waiting_def option.map_comp comp_def split: option.splits)

lemma set_io_buf: "(set_io b' i s)\<lparr>bytes_buf := b\<rparr> = set_io b i s"
  by (simp add: set_io_def)

lemma put_io_simps [simp]: "put_io b i (Inr (ok, s)) = Inr (ok, set_io b i s)" "put_io b i (Inl e) = Inl e"
  by (simp_all add: put_io_def)

lemma waiting_set_io: "ctx s \<noteq> None \<Longrightarrow> waiting (set_io b i s) = i"
  by (auto simp: waiting_def)

fun deliver :: "('b, 'p) sink \<Rightarrow> bytes list \<Rightarrow> ('b, 'p) session \<Rightarrow> (bool \<times> ('b, 'p) session) result" where
  "deliver upper [] s = Inr (True, s)"
| "deliver upper (m # ms) s = rbind (upper m s) (\<lambda>(ok, s). if \<not> ok then Inr (False, s) else deliver upper ms s)"

lemma deliver_append:
  "deliver upper (ms @ ms') s = Inr (True, s') \<longleftrightarrow> (\<exists>s1. deliver upper ms s = Inr (True, s1) \<and> deliver upper ms' s1 = Inr (True, s'))"
  by (induction ms arbitrary: s) (auto simp: rbind_Inr_iff split: if_splits)

text \<open>Bytes arrive in pieces, each followed by a call of the decoder.\<close>

definition demo_arrive :: "bytes \<Rightarrow> ('b, 'p) session \<Rightarrow> ('b, 'p) session" where
  "demo_arrive p s = s\<lparr>ctx := map_option (\<lambda>k. k\<lparr>sk_in := sk_in k @ p\<rparr>) (ctx s)\<rparr>"

lemma demo_arrive_set_io: "demo_arrive p (set_io b i s) = set_io b (i @ p) s"
  by (simp add: demo_arrive_def set_io_def option.map_comp comp_def)

fun demo_recv :: "(('b, 'p) session \<Rightarrow> (bool \<times> ('b, 'p) session) result) \<Rightarrow> bytes list \<Rightarrow> ('b, 'p) session \<Rightarrow> (bool \<times> ('b, 'p) session) result" where
  "demo_recv decode [] s = Inr (True, s)"
| "demo_recv decode (p # ps) s = rbind (decode (demo_arrive p s)) (\<lambda>(ok, s). if \<not> ok then Inr (False, s) else demo_recv decode ps s)"

locale message_sink =
  fixes upper :: "('b, 'p) sink"
    and accepts :: "bytes \<Rightarrow> bool"
  assumes framed: "accepts m \<Longrightarrow> upper (m @ r) (set_io b i s) = put_io b i (upper m s)"
    and stays: "accepts m \<Longrightarrow> upper m s = Inr (ok, s') \<Longrightarrow> ctx s \<noteq> None \<Longrightarrow> ctx s' \<noteq> None"
begin

lemma upper_io: "accepts m \<Longrightarrow> upper m (set_io b i s) = put_io b i (upper m s)"
  using framed [where r = "[]"] by simp

lemma upper_memory: "accepts m \<Longrightarrow> upper (m @ r) s = upper m s"
  using framed [where b = "bytes_buf s" and i = "waiting s" and s = s] upper_io [where b = "bytes_buf s" and i = "waiting s" and s = s] by simp

lemma upper_keeps:
  assumes "accepts m" "upper m s = Inr (ok, s')"
  shows "set_io (bytes_buf s) (waiting s) s' = s'"
  using upper_io [OF assms(1), of "bytes_buf s" "waiting s" s] assms(2) by simp

lemma upper_buf:
  assumes "accepts m" "upper m s = Inr (ok, s')"
  shows "upper m (s\<lparr>bytes_buf := b\<rparr>) = Inr (ok, s'\<lparr>bytes_buf := b\<rparr>)"
proof -
  have "upper m (s\<lparr>bytes_buf := b\<rparr>) = Inr (ok, set_io b (waiting s) s')" using upper_io [OF assms(1), of b "waiting s" s] assms(2) by simp
  also have "set_io b (waiting s) s' = s'\<lparr>bytes_buf := b\<rparr>" using arg_cong [OF upper_keeps [OF assms], of ctx] by (simp add: set_io_def)
  finally show ?thesis .
qed

lemma upper_buf_Inl: "accepts m \<Longrightarrow> upper m s = Inl e \<Longrightarrow> upper m (s\<lparr>bytes_buf := b\<rparr>) = Inl e"
  using upper_io [of m b "waiting s" s] by simp

lemma upper_buf_kept: "accepts m \<Longrightarrow> upper m s = Inr (ok, s') \<Longrightarrow> bytes_buf s' = bytes_buf s"
  using arg_cong [OF upper_keeps, of m s ok s' bytes_buf] by simp

lemmas upper_laws = upper_memory upper_buf upper_buf_Inl upper_buf_kept

lemma deliver_io: "\<forall>m \<in> set ms. accepts m \<Longrightarrow> deliver upper ms (set_io b i s) = put_io b i (deliver upper ms s)"
proof (induction ms arbitrary: s)
  case (Cons m ms)
  show ?case
  proof (cases "upper m s")
    case (Inr x)
    obtain ok s' where "x = (ok, s')" by (cases x)
    then show ?thesis using upper_io [of m b i s] Inr Cons.IH [of s'] Cons.prems by simp
  qed (use upper_io [of m b i s] Cons.prems in simp)
qed simp

lemma deliver_buf:
  "\<forall>m \<in> set ms. accepts m \<Longrightarrow> deliver upper ms s = Inr (True, s') \<Longrightarrow> deliver upper ms (s\<lparr>bytes_buf := b\<rparr>) = Inr (True, s'\<lparr>bytes_buf := b\<rparr>)"
proof (induction ms arbitrary: s)
  case (Cons m ms)
  then obtain s1 where "upper m s = Inr (True, s1)" "deliver upper ms s1 = Inr (True, s')" by (auto simp: rbind_Inr_iff split: if_splits)
  then show ?case using upper_buf [of m s True s1 b] Cons.IH [of s1] Cons.prems(1) by simp
qed simp

text \<open>One round of the loop on a buffer that begins with a whole message.\<close>

lemma parse_one:
  assumes "buffer_laws B content" "bytes_buf s = Some buf" "content buf = m @ r" "msg_ok c m" "accepts m" "length (m @ r) < 2 ^ 31" "\<forall>n. mem n"
  shows "\<exists>buf'. content buf' = r \<and> parse_messages (Suc fuel) B mem c upper s =
    rbind (upper m (s\<lparr>bytes_buf := Some buf'\<rparr>)) (\<lambda>(ok, s). if \<not> ok then Inr (False, s) else parse_messages fuel B mem c upper s)"
proof -
  note laws = buffer_lawsD [OF assms(1)]
  let ?n = "length m"
  have n: "16 \<le> ?n" "?n < 2 ^ 31" using msg_ok_length [OF assms(4)] by auto
  have f: "b_Fetch B buf (int sizeof_msg_hdr) = Some (take 16 (m @ r))"
    using laws(3) [of buf 16] n by (simp add: assms(3) sizeof_msg_hdr_def)
  have h: "check_hdr c (take 16 (m @ r)) (b_Readable B buf) = HdrReady (of_nat ?n)"
    using check_hdr_msg [OF assms(4), of "m @ r" r] n(1) assms(6) by (simp add: laws(2) assms(3))
  have u: "unat (of_nat ?n :: u32) = ?n" using n(2) by (simp add: unat_of_nat_u32)
  show ?thesis
  proof (cases "b_ReaderFc B buf (int ?n)")
    case None
    obtain data buf' where d: "b_Read B buf (int ?n) = (data, buf')" by fastforce
    then have "data = m" "content buf' = r" using laws(6,7) [of ?n buf] by (simp_all add: assms(3))
    then show ?thesis using None assms(2,7) f h u d by (intro exI [of _ buf']) (simp add: parse_messages.simps)
  next
    case (Some p)
    then obtain x where x: "p = m @ x" using laws(4) [of buf ?n p] by (auto simp: assms(3))
    let ?buf = "b_ReaderMove B buf (int ?n)"
    have c: "content ?buf = r" using laws(5) [of ?n buf] by (simp add: assms(3))
    have p: "upper p s = upper m s" using upper_memory [OF assms(5)] x by simp
    show ?thesis
    proof (cases "upper m s")
      case (Inl e)
      then show ?thesis using Some c assms(2) f h u p upper_buf_Inl [OF assms(5) Inl] by (intro exI [of _ ?buf]) (simp add: parse_messages.simps)
    next
      case (Inr y)
      obtain ok s1 where y: "upper m s = Inr (ok, s1)" using Inr by (cases y) auto
      then show ?thesis using Some c assms(2) f h u p upper_buf [OF assms(5) y] upper_buf_kept [OF assms(5) y]
        by (intro exI [of _ ?buf]) (simp add: parse_messages.simps)
    qed
  qed
qed

lemma parse_rest:
  assumes "buffer_laws B content" "bytes_buf s = Some buf" "content buf = r" "length r < 16 \<or> check_hdr c (take 16 r) (int (length r)) = HdrShort"
  shows "parse_messages (Suc fuel) B mem c upper s = Inr (True, s)"
  using assms(2-4) buffer_lawsD(2) [OF assms(1), of buf] buffer_lawsD(3) [OF assms(1), of buf 16]
  by (auto simp: parse_messages.simps sizeof_msg_hdr_def)

text \<open>The loop delivers the whole messages in order and leaves the rest in the buffer.\<close>

lemma parse_delivers:
  assumes "buffer_laws B content" "\<forall>m \<in> set ms. msg_ok c m \<and> accepts m" "\<forall>n. mem n"
    "length r < 16 \<or> check_hdr c (take 16 r) (int (length r)) = HdrShort"
    "bytes_buf s = Some buf" "content buf = concat ms @ r" "length (concat ms @ r) < 2 ^ 31" "length ms < fuel" "deliver upper ms s = Inr (True, s')"
  shows "\<exists>buf'. parse_messages fuel B mem c upper s = Inr (True, s'\<lparr>bytes_buf := Some buf'\<rparr>) \<and> content buf' = r"
  using assms(2,5-9)
proof (induction ms arbitrary: s s' buf fuel)
  case Nil
  obtain f where f: "fuel = Suc f" using Nil.prems(5) by (cases fuel) auto
  have "parse_messages fuel B mem c upper s = Inr (True, s)" unfolding f using parse_rest [OF assms(1) Nil.prems(2) _ assms(4)] Nil.prems(3) by simp
  then show ?case using Nil.prems(2,3,6) by (intro exI [of _ buf]) simp
next
  case (Cons m ms)
  obtain f where f: "fuel = Suc f" using Cons.prems(5) by (cases fuel) auto
  have m: "msg_ok c m" "accepts m" "\<forall>m \<in> set ms. msg_ok c m \<and> accepts m" using Cons.prems(1) by auto
  from parse_one [OF assms(1) Cons.prems(2) _ m(1,2) _ assms(3), of "concat ms @ r" f] Cons.prems(3,4) obtain buf1 where
    b: "content buf1 = concat ms @ r" "parse_messages fuel B mem c upper s =
        rbind (upper m (s\<lparr>bytes_buf := Some buf1\<rparr>)) (\<lambda>(ok, s). if \<not> ok then Inr (False, s) else parse_messages f B mem c upper s)"
    by (auto simp: f)
  obtain s1 where s1: "upper m s = Inr (True, s1)" "deliver upper ms s1 = Inr (True, s')"
    using Cons.prems(6) by (auto simp: rbind_Inr_iff split: if_splits)
  let ?s = "s1\<lparr>bytes_buf := Some buf1\<rparr>"
  have step: "parse_messages fuel B mem c upper s = parse_messages f B mem c upper ?s" using b(2) upper_buf [OF m(2) s1(1)] by simp
  have "deliver upper ms ?s = Inr (True, s'\<lparr>bytes_buf := Some buf1\<rparr>)" using deliver_buf [OF _ s1(2)] m(3) by simp
  from Cons.IH [OF m(3) _ b(1) _ _ this] Cons.prems(4,5) obtain buf' where
    "parse_messages f B mem c upper ?s = Inr (True, s'\<lparr>bytes_buf := Some buf1, bytes_buf := Some buf'\<rparr>)" "content buf' = r" by (auto simp: f)
  then show ?case using step by auto
qed


lemma deliver_stays: "\<forall>m \<in> set ms. accepts m \<Longrightarrow> deliver upper ms s = Inr (True, s') \<Longrightarrow> ctx s \<noteq> None \<Longrightarrow> ctx s' \<noteq> None"
proof (induction ms arbitrary: s)
  case (Cons m ms)
  then obtain s1 where "upper m s = Inr (True, s1)" "deliver upper ms s1 = Inr (True, s')" by (auto simp: rbind_Inr_iff split: if_splits)
  then show ?case using Cons.IH [of s1] Cons.prems(1,3) stays [of m s True s1] by simp
qed simp

text \<open>One call of the decoder: the whole messages in the buffer and in the socket are delivered, the beginning of the next stays in the buffer.\<close>

lemma decode_delivers:
  assumes "buffer_laws B content" "roomy B content (unat (recv_unit_size c)) cap" "0 < unat (recv_unit_size c)" "\<forall>n. mem n" "cap < 2 ^ 31"
    "\<forall>m \<in> set ms. msg_ok c m \<and> accepts m" "length r < 16 \<or> check_hdr c (take 16 r) (int (length r)) = HdrShort"
    "ctx s \<noteq> None" "content buf @ i = concat ms @ r" "length (content buf @ i) \<le> cap" "deliver upper ms s = Inr (True, s')"
  shows "\<exists>buf'. codec_decode B mem c upper (set_io (Some buf) i s) = Inr (True, set_io (Some buf') [] s') \<and> content buf' = r"
proof -
  obtain k where k: "ctx s = Some k" using assms(8) by auto
  let ?k = "k\<lparr>sk_in := i\<rparr>" and ?u = "unat (recv_unit_size c)"
  from fill_buffer_moves [OF assms(1,3), of ?k "Suc (length i)" buf] obtain buf1 rest where
    f: "fill_buffer (Suc (length i)) B ?u buf ?k = Inr (buf1, k\<lparr>sk_in := rest\<rparr>)" "content buf1 @ rest = content buf @ i"
       "rest = [] \<or> \<not> b_WriterFc B buf1 (int ?u)" by auto
  have "length (content buf1) \<le> cap" using assms(10) arg_cong [OF f(2), of length] by simp
  then have rest: "rest = []" using f(3) assms(2) by (auto simp: roomy_def)
  then have c1: "content buf1 = concat ms @ r" using f(2) assms(9) by simp
  have n: "length (concat ms @ r) < 2 ^ 31" using assms(5,9,10) by simp
  have d: "deliver upper ms (set_io (Some buf1) [] s) = Inr (True, set_io (Some buf1) [] s')" using deliver_io [of ms] assms(6,11) by simp
  have "length ms \<le> length (concat ms)" using assms(6) msg_ok_length by (induction ms) fastforce+
  then have fuel: "length ms < Suc (nat (b_Readable B buf1))" using c1 by (simp add: buffer_lawsD(2) [OF assms(1)])
  from parse_delivers [OF assms(1,6,4,7) _ c1 n fuel d] obtain buf' where
    "parse_messages (Suc (nat (b_Readable B buf1))) B mem c upper (set_io (Some buf1) [] s) = Inr (True, set_io (Some buf') [] s')" "content buf' = r"
    by (auto simp: set_io_buf)
  then show ?thesis using f(1) rest k by (intro exI [of _ buf']) (simp add: codec_decode_def set_io_def)
qed

text \<open>Whatever the pieces are in which a stream of messages arrives, each message is delivered once and in order.\<close>

lemma pieces_deliver:
  assumes "buffer_laws B content" "roomy B content (unat (recv_unit_size c)) cap" "0 < unat (recv_unit_size c)" "\<forall>n. mem n" "cap < 2 ^ 31"
    "\<forall>m \<in> set ms. msg_ok c m \<and> accepts m \<and> length m \<le> big" "\<forall>p \<in> set ps. big + length p \<le> cap"
    "ctx s \<noteq> None" "content buf @ concat ps = concat ms" "content buf = [] \<or> (\<exists>m t. ms = m # t \<and> length (content buf) < length m)"
    "deliver upper ms s = Inr (True, s')"
  shows "\<exists>buf'. demo_recv (codec_decode B mem c upper) ps (set_io (Some buf) [] s) = Inr (True, set_io (Some buf') [] s') \<and> content buf' = []"
  using assms(6-)
proof (induction ps arbitrary: ms s buf)
  case Nil
  have "content buf = []" using Nil.prems(4,5) by (auto dest: arg_cong [where f = length])
  moreover have "ms = []" using Nil.prems(1,4) calculation msg_ok_length by (cases ms) fastforce+
  ultimately show ?case using Nil.prems(6) by auto
next
  case (Cons p ps)
  have "prefix (content buf @ p) (concat ms)" using Cons.prems(4) by (metis append.assoc concat.simps(2) prefixI)
  from stream_split [OF this] obtain ms1 todo r where sp: "ms = ms1 @ todo" "content buf @ p = concat ms1 @ r"
    "todo = [] \<and> r = [] \<or> (\<exists>m t. todo = m # t \<and> prefix r m \<and> length r < length m)" by blast
  obtain s1 where s1: "deliver upper ms1 s = Inr (True, s1)" "deliver upper todo s1 = Inr (True, s')"
    using Cons.prems(6) by (auto simp: sp(1) deliver_append)
  have ms1: "\<forall>m \<in> set ms1. msg_ok c m \<and> accepts m" and todo: "\<forall>m \<in> set todo. msg_ok c m \<and> accepts m \<and> length m \<le> big" using Cons.prems(1) sp(1) by auto
  have short: "length r < 16 \<or> check_hdr c (take 16 r) (int (length r)) = HdrShort"
  proof (cases "todo")
    case (Cons m t)
    then have "r = take (length r) m" "length r < length m" "msg_ok c m" using sp(3) todo by (auto simp: prefix_def)
    then show ?thesis using check_hdr_short [of c m r] by linarith
  qed (use sp(3) in simp)
  have "length (content buf) \<le> big" using Cons.prems(1,5) by auto
  then have len: "length (content buf @ p) \<le> cap" using Cons.prems(2) by simp
  from decode_delivers [OF assms(1-5) ms1 short Cons.prems(3) sp(2) len s1(1)] obtain buf1 where
    b: "codec_decode B mem c upper (set_io (Some buf) p s) = Inr (True, set_io (Some buf1) [] s1)" "content buf1 = r" by blast
  have c1: "ctx s1 \<noteq> None" using deliver_stays [OF _ s1(1)] ms1 Cons.prems(3) by blast
  have eq: "content buf1 @ concat ps = concat todo" 
  proof -
    have "(content buf @ p) @ concat ps = concat ms1 @ concat todo" using Cons.prems(4) sp(1) by simp
    then show ?thesis unfolding sp(2) by (simp add: b(2))
  qed
  have "\<forall>p \<in> set ps. big + length p \<le> cap" using Cons.prems(2) by simp
  from Cons.IH [OF todo this c1 eq _ s1(2)] show ?case using b sp(3) by (auto simp: demo_arrive_set_io)
qed

end

section \<open>A message that is never consumed\<close>

text \<open>
  The length of a message is computed with 32 bits. A header that announces \<open>2 ^ 32 - 16\<close> bytes of payload is a message of length 0: it is
  delivered, nothing is taken out of the buffer and the loop meets it again.
\<close>

definition endless_hdr :: "codec_bytes \<Rightarrow> u32 \<Rightarrow> bytes" where
  "endless_hdr c mid = MUGGLE_DEMO_MAGIC_WORD @ [s_endianess c, s_protocol_ver, 0, 0] @ bytes32 mid @ bytes32 (- 16)"

lemma check_endless: "check_hdr c (endless_hdr c mid) (int n) = HdrReady 0"
  using hdr_of_wire [of "[s_endianess c, s_protocol_ver, 0, 0]" mid "- 16" "[]"]
  by (simp add: check_hdr_def endless_hdr_def sizeof_msg_hdr_def Let_def)

lemma parse_endless:
  assumes "buffer_laws B content" "content buf = endless_hdr c mid @ r" "b_ReaderFc B buf 0 = Some p" "b_ReaderMove B buf 0 = buf"
    "\<And>s. P s \<Longrightarrow> \<exists>s'. upper p s = Inr (True, s') \<and> bytes_buf s' = bytes_buf s \<and> P (s'\<lparr>bytes_buf := Some buf\<rparr>)" "bytes_buf s = Some buf" "P s"
  shows "parse_messages fuel B mem c upper s = Inl Diverges"
  using assms(6,7)
proof (induction fuel arbitrary: s)
  case (Suc fuel)
  obtain s' where s': "upper p s = Inr (True, s')" "bytes_buf s' = bytes_buf s" "P (s'\<lparr>bytes_buf := Some buf\<rparr>)" using assms(5) Suc.prems(2) by blast
  have "b_Fetch B buf (int sizeof_msg_hdr) = Some (endless_hdr c mid)" "b_Readable B buf = int (length (endless_hdr c mid @ r))"
    using buffer_lawsD(3) [OF assms(1), of buf 16] buffer_lawsD(2) [OF assms(1), of buf] assms(2)
    by (simp_all add: sizeof_msg_hdr_def endless_hdr_def MUGGLE_DEMO_MAGIC_WORD_def)
  then have "parse_messages (Suc fuel) B mem c upper s = parse_messages fuel B mem c upper (s'\<lparr>bytes_buf := Some buf\<rparr>)"
    using s'(1,2) Suc.prems(1) assms(3,4) by (simp add: parse_messages.simps check_endless del: length_append)
  then show ?case using Suc.IH s'(3) by simp
qed (simp add: parse_messages.simps)

end
