(* ===== verification/DemoPeers.thy ===== *)
theory DemoPeers
  imports DemoCodec
begin

text \<open>
  The programs that speak the protocol of \<open>DemoCodec\<close>: src/use/cpp/use_mugglecpp/tcp_custom_protocol, the messages (include/demo_msg.h) and
  the peers of example/tcp_server, example/tcp_server_worker and example/tcp_client (server_peer.cpp, client_peer.cpp, and the dispatchers
  and command lines of their main.cpp).

  A peer is the user data of its session, and its methods are functions of the peer, the memory from the message behind the header on, and
  the session. \<open>now\<close> is the clock: \<open>now n\<close> is the time that the \<open>n\<close>-th call of \<open>time(NULL)\<close> for the session gives. \<open>codecs\<close> of the
  dispatcher of the session are an argument of what sends.
\<close>

section \<open>Messages\<close>

definition DEMO_MSG_ID_REQ_LOGIN :: u32 where "DEMO_MSG_ID_REQ_LOGIN = 1"
definition DEMO_MSG_ID_RSP_LOGIN :: u32 where "DEMO_MSG_ID_RSP_LOGIN = 2"
definition DEMO_MSG_ID_PING :: u32 where "DEMO_MSG_ID_PING = 3"
definition DEMO_MSG_ID_PONG :: u32 where "DEMO_MSG_ID_PONG = 4"
definition DEMO_MSG_ID_REQ_SUM :: u32 where "DEMO_MSG_ID_REQ_SUM = 5"
definition DEMO_MSG_ID_RSP_SUM :: u32 where "DEMO_MSG_ID_RSP_SUM = 6"
definition MAX_DEMO_MSG_ID :: u32 where "MAX_DEMO_MSG_ID = 7"

lemmas demo_msg_ids = DEMO_MSG_ID_REQ_LOGIN_def DEMO_MSG_ID_RSP_LOGIN_def DEMO_MSG_ID_PING_def DEMO_MSG_ID_PONG_def
  DEMO_MSG_ID_REQ_SUM_def DEMO_MSG_ID_RSP_SUM_def MAX_DEMO_MSG_ID_def

text \<open>The payloads, packed.\<close>

definition demo_msg_req_login :: "u32 \<Rightarrow> bytes \<Rightarrow> bytes \<Rightarrow> bytes" where
  "demo_msg_req_login req_id user_id password = bytes32 req_id @ user_id @ password"

definition demo_msg_rsp_login :: "u32 \<Rightarrow> u8 \<Rightarrow> bytes" where
  "demo_msg_rsp_login req_id login_result = bytes32 req_id @ [login_result]"

definition demo_msg_ping :: "u64 \<Rightarrow> u32 \<Rightarrow> bytes" where
  "demo_msg_ping sec nsec = bytes64 sec @ bytes32 nsec"

definition demo_msg_pong :: "u64 \<Rightarrow> u32 \<Rightarrow> bytes" where
  "demo_msg_pong sec nsec = bytes64 sec @ bytes32 nsec"

definition demo_msg_req_sum :: "u32 \<Rightarrow> u32 list \<Rightarrow> bytes" where
  "demo_msg_req_sum req_id arr = bytes32 req_id @ bytes32 (of_nat (length arr)) @ concat (map bytes32 arr)"

definition demo_msg_rsp_sum :: "u32 \<Rightarrow> int \<Rightarrow> bytes" where
  "demo_msg_rsp_sum req_id acc = bytes32 req_id @ bytes32 (word_of_int acc)"

lemmas demo_payloads = demo_msg_req_login_def demo_msg_rsp_login_def demo_msg_ping_def demo_msg_pong_def demo_msg_req_sum_def demo_msg_rsp_sum_def

definition DEMO_SESSION_SEND_MSG :: "codec_bytes list \<Rightarrow> bytes \<Rightarrow> ('b, 'p) session \<Rightarrow> ('b, 'p) session result" where
  "DEMO_SESSION_SEND_MSG cs data s = rbind (sendMessage cs data (length data) s) (\<lambda>(ok, s). Inr s)"

text \<open>A line of the log with the address of the session in it.\<close>

definition log_addr :: "string \<Rightarrow> string \<Rightarrow> ('b, 'p) session \<Rightarrow> ('b, 'p) session" where
  "log_addr pre post s = say_log (pre @ addr s @ post) s"

definition time_update :: "(nat \<Rightarrow> int) \<Rightarrow> ('b, 'p) session \<Rightarrow> ('b, 'p) session" where
  "time_update now s = updateActiveTime (now (ticks s)) (s\<lparr>ticks := Suc (ticks s)\<rparr>)"

text \<open>The addition of \<open>int32_t\<close>.\<close>

definition add_int32 :: "int \<Rightarrow> int \<Rightarrow> int result" where
  "add_int32 a b = (if - (2 ^ 31) \<le> a + b \<and> a + b < 2 ^ 31 then Inr (a + b) else Inl SignedOverflow)"

section \<open>The peer of the server\<close>

record server_peer =
  user_id :: string
  is_logined :: bool

definition ServerPeer :: server_peer where
  "ServerPeer = \<lparr>user_id = [], is_logined = False\<rparr>"

definition onPing :: "(nat \<Rightarrow> int) \<Rightarrow> codec_bytes list \<Rightarrow> server_peer \<Rightarrow> bytes \<Rightarrow> ('b, server_peer) session \<Rightarrow> ('b, server_peer) session result" where
  "onPing now cs peer msg s =
     rbind (load64 msg 0) (\<lambda>sec.
     rbind (load32 msg 8) (\<lambda>nsec.
     DEMO_SESSION_SEND_MSG cs (NEW_STACK_DEMO_MSG DEMO_MSG_ID_PONG (demo_msg_pong sec nsec))
       (time_update now (log_addr ''recv req ping: addr='' ('', sec='' @ decw sec @ '', nsec='' @ pad0 9 (decw nsec)) s))))"

definition close_if :: "bool \<Rightarrow> string \<Rightarrow> ('b, 'p) session \<Rightarrow> ('b, 'p) session result" where
  "close_if bad text s = (if bad then session_Close (say_log text s) else Inr s)"

text \<open>
  \<open>onLogin\<close> is the same in the two servers but for the lines by which the worker variant hands the session over to another event loop
  (\<open>detach_session\<close>), which are the argument \<open>detach\<close>.
\<close>

definition login_with ::
  "(string \<Rightarrow> ('b, server_peer) session \<Rightarrow> ('b, server_peer) session result) \<Rightarrow> codec_bytes list \<Rightarrow> server_peer \<Rightarrow> bytes \<Rightarrow>
   ('b, server_peer) session \<Rightarrow> ('b, server_peer) session result" where
  "login_with detach cs peer msg s =
     rbind (fmt_str (drop 4 msg)) (\<lambda>user.
     rbind (close_if (16 \<le> length user) ''user id length beyond limit'' s) (\<lambda>s.
     rbind (fmt_str (drop 20 msg)) (\<lambda>password.
     rbind (close_if (32 \<le> length password) ''password length beyond limit'' s) (\<lambda>s.
     rbind (load32 msg 0) (\<lambda>req_id.
     rbind (detach user ((log_addr ''recv req login: addr='' ('', user_id='' @ user @ '', req_id='' @ decw req_id) s)
              \<lparr>user_data := Some (peer\<lparr>user_id := user, is_logined := True\<rparr>)\<rparr>)) (\<lambda>s.
     DEMO_SESSION_SEND_MSG cs (NEW_STACK_DEMO_MSG DEMO_MSG_ID_RSP_LOGIN (demo_msg_rsp_login req_id 1)) s))))))"

definition onLogin :: "codec_bytes list \<Rightarrow> server_peer \<Rightarrow> bytes \<Rightarrow> ('b, server_peer) session \<Rightarrow> ('b, server_peer) session result" where
  "onLogin = login_with (\<lambda>user s. Inr s)"

fun sum_array :: "nat \<Rightarrow> bytes \<Rightarrow> nat \<Rightarrow> int \<Rightarrow> int result" where
  "sum_array 0 msg i acc = Inr acc"
| "sum_array (Suc n) msg i acc =
     rbind (load32 msg (8 + 4 * i)) (\<lambda>w. rbind (add_int32 acc (sint w)) (\<lambda>acc. sum_array n msg (Suc i) acc))"

definition onReqSum :: "codec_bytes list \<Rightarrow> server_peer \<Rightarrow> bytes \<Rightarrow> ('b, server_peer) session \<Rightarrow> ('b, server_peer) session result" where
  "onReqSum cs peer msg s =
     rbind (load32 msg 4) (\<lambda>arr_len.
     rbind (close_if (arr_len > 16) ''req sum array length beyond limit'' s) (\<lambda>s.
     rbind (close_if (\<not> is_logined peer) ''req without login'' s) (\<lambda>s.
     rbind (load32 msg 0) (\<lambda>req_id.
     rbind (sum_array (unat arr_len) msg 0 0) (\<lambda>acc.
     DEMO_SESSION_SEND_MSG cs (NEW_STACK_DEMO_MSG DEMO_MSG_ID_RSP_SUM (demo_msg_rsp_sum req_id acc))
       (log_addr ''recv req sum: addr='' ('', user_id='' @ user_id peer @ '', req_id='' @ decw req_id) s))))))"

text \<open>The peer of the server with workers: the session leaves the event loop that accepted it when its user has logged in.\<close>

definition detach_session :: "string \<Rightarrow> ('b, server_peer) session \<Rightarrow> ('b, server_peer) session result" where
  "detach_session user s =
     (case ctx s of
        None \<Rightarrow> Inl NullDeref
      | Some k \<Rightarrow>
          Inr (log_addr ''prapare detach session: addr='' ('', user_id='' @ user)
            (s\<lparr>detached := True, ctx := Some (k\<lparr>sk_refs := Suc (sk_refs k), sk_close := True\<rparr>)\<rparr>)))"

definition worker_onPing :: "(nat \<Rightarrow> int) \<Rightarrow> codec_bytes list \<Rightarrow> server_peer \<Rightarrow> bytes \<Rightarrow> ('b, server_peer) session \<Rightarrow> ('b, server_peer) session result" where
  "worker_onPing = onPing"

definition worker_onLogin :: "codec_bytes list \<Rightarrow> server_peer \<Rightarrow> bytes \<Rightarrow> ('b, server_peer) session \<Rightarrow> ('b, server_peer) session result" where
  "worker_onLogin = login_with detach_session"

definition worker_onReqSum :: "codec_bytes list \<Rightarrow> server_peer \<Rightarrow> bytes \<Rightarrow> ('b, server_peer) session \<Rightarrow> ('b, server_peer) session result" where
  "worker_onReqSum = onReqSum"

section \<open>The peer of the client\<close>

record client_peer =
  cp_req_id :: u32
  cp_logined :: bool

definition ClientPeer :: client_peer where
  "ClientPeer = \<lparr>cp_req_id = 0, cp_logined = False\<rparr>"

definition onConnection :: "codec_bytes list \<Rightarrow> client_peer \<Rightarrow> ('b, client_peer) session \<Rightarrow> ('b, client_peer) session result" where
  "onConnection cs peer s =
     DEMO_SESSION_SEND_MSG cs
       (NEW_STACK_DEMO_MSG DEMO_MSG_ID_REQ_LOGIN
         (demo_msg_req_login (cp_req_id peer) (strncpy_bytes 15 ''foo'' @ [0]) (strncpy_bytes 31 ''123456'' @ [0])))
       (log_addr ''req login: addr='' '', user_id=foo'' (s\<lparr>user_data := Some (peer\<lparr>cp_req_id := cp_req_id peer + 1\<rparr>)\<rparr>))"

text \<open>
  \<open>rnd n\<close> is the \<open>n\<close>-th result of \<open>rand\<close> in this call. The numbers are printed into 51 zeros, each by a \<open>snprintf\<close> that stores four
  characters and a null byte at most and returns how long the text would be.
\<close>

definition sum_number :: "(nat \<Rightarrow> u32) \<Rightarrow> nat \<Rightarrow> u32" where
  "sum_number rnd i = word_of_int (uint (rnd (Suc i) mod 201) - 100)"

definition sum_len :: "(nat \<Rightarrow> u32) \<Rightarrow> nat" where
  "sum_len rnd = unat (rnd 0 mod 10 + 1)"

definition timer_numbers :: "(nat \<Rightarrow> u32) \<Rightarrow> u32 list" where
  "timer_numbers rnd = map (sum_number rnd) [0..<sum_len rnd]"

fun print_numbers :: "u32 list \<Rightarrow> string \<Rightarrow> nat \<Rightarrow> string result" where
  "print_numbers [] str p = Inr str"
| "print_numbers (w # ws) str p =
     (let text = deci (sint w) @ '' '' in
      rbind (write_range str p (take 4 text @ [CHR 0x00])) (\<lambda>str. print_numbers ws str (p + length text)))"

definition onTimer ::
  "bool \<Rightarrow> u64 \<times> u32 \<Rightarrow> (nat \<Rightarrow> u32) \<Rightarrow> codec_bytes list \<Rightarrow> client_peer \<Rightarrow> ('b, client_peer) session \<Rightarrow> ('b, client_peer) session result" where
  "onTimer mem ts rnd cs peer s =
     rbind (DEMO_SESSION_SEND_MSG cs (NEW_STACK_DEMO_MSG DEMO_MSG_ID_PING (demo_msg_ping (fst ts) (snd ts)))
       (log_addr ''send req ping: addr='' ('', sec='' @ decw (fst ts) @ '', nsec='' @ pad0 9 (decw (snd ts))) s)) (\<lambda>s.
     if \<not> cp_logined peer then Inr s
     else
       let cnt = sum_len rnd; arr = timer_numbers rnd in
       if \<not> mem then Inl NullDeref
       else
         rbind (print_numbers arr (replicate 51 (CHR 0x00)) 0) (\<lambda>str.
         rbind (sendMessage cs (NEW_STACK_DEMO_MSG DEMO_MSG_ID_REQ_SUM (demo_msg_req_sum (cp_req_id peer) arr)) (16 + 8 + 4 * cnt)
           (say_log (''send req sum: req_id='' @ decw (cp_req_id peer) @ '', req_array=['' @ takeWhile (\<lambda>c. c \<noteq> CHR 0x00) str @ '']'')
             (s\<lparr>user_data := Some (peer\<lparr>cp_req_id := cp_req_id peer + 1\<rparr>)\<rparr>))) (\<lambda>(ok, s).
         Inr s)))"

definition onPong :: "(nat \<Rightarrow> int) \<Rightarrow> client_peer \<Rightarrow> bytes \<Rightarrow> ('b, client_peer) session \<Rightarrow> ('b, client_peer) session result" where
  "onPong now peer msg s =
     rbind (load64 msg 0) (\<lambda>sec.
     rbind (load32 msg 8) (\<lambda>nsec.
     Inr (time_update now (log_addr ''recv rsp pong: addr='' ('', sec='' @ decw sec @ '', nsec='' @ pad0 9 (decw nsec)) s))))"

definition onRspLogin :: "client_peer \<Rightarrow> bytes \<Rightarrow> ('b, client_peer) session \<Rightarrow> ('b, client_peer) session result" where
  "onRspLogin peer msg s =
     rbind (load8 msg 4) (\<lambda>login_result.
     if login_result = 0 then session_Close (say_log ''login failed'' s)
     else Inr (say_log ''recv rsp login success'' (s\<lparr>user_data := Some (peer\<lparr>cp_logined := True\<rparr>)\<rparr>)))"

definition onRspSum :: "client_peer \<Rightarrow> bytes \<Rightarrow> ('b, client_peer) session \<Rightarrow> ('b, client_peer) session result" where
  "onRspSum peer msg s =
     rbind (load32 msg 0) (\<lambda>req_id.
     rbind (load32 msg 4) (\<lambda>acc.
     Inr (say_log (''recv rsp sum: req_id='' @ decw req_id @ '', sum='' @ deci (sint acc)) s)))"

section \<open>The dispatchers\<close>

text \<open>The macro that makes a callback of the dispatcher out of a method of the peer.\<close>

definition CALLBACK_IMPL :: "('p \<Rightarrow> bytes \<Rightarrow> ('b, 'p) session \<Rightarrow> ('b, 'p) session result) \<Rightarrow> ('b, 'p) net_callback" where
  "CALLBACK_IMPL func data s =
     (case user_data s of None \<Rightarrow> Inr (say_log ''failed get peer'' s) | Some peer \<Rightarrow> func peer (drop sizeof_msg_hdr data) s)"

fun register_all :: "(u32 \<times> ('b, 'p) net_callback) list \<Rightarrow> ('b, 'p) dispatcher \<Rightarrow> ('b, 'p) dispatcher" where
  "register_all [] d = d"
| "register_all ((msg_id, cb) # cbs) d = register_all cbs (snd (registerCallback msg_id cb d))"

text \<open>The codec that each \<open>initDispatcher\<close> makes; \<open>mem\<close> tells whether the table of callbacks can be allocated.\<close>

definition demo_codec :: "u8 \<Rightarrow> codec_bytes" where
  "demo_codec endian = setMsgLenLimit (32 * 1024) (setRecvUnitSize (4 * 1024) (CodecBytes endian))"

definition init_dispatcher :: "u8 \<Rightarrow> bool \<Rightarrow> (codec_bytes list \<Rightarrow> (u32 \<times> ('b, 'p) net_callback) list) \<Rightarrow> ('b, 'p) dispatcher" where
  "init_dispatcher endian mem cbs =
     (let codec = demo_codec endian; d = appendCodec codec (snd (setTotalMessage mem MAX_DEMO_MSG_ID new_dispatcher)) in
      register_all (cbs (codecs d)) d)"

definition server_initDispatcher :: "(nat \<Rightarrow> int) \<Rightarrow> u8 \<Rightarrow> bool \<Rightarrow> ('b, server_peer) dispatcher" where
  "server_initDispatcher now endian mem =
     init_dispatcher endian mem (\<lambda>cs.
       [(DEMO_MSG_ID_PING, CALLBACK_IMPL (onPing now cs)), (DEMO_MSG_ID_REQ_LOGIN, CALLBACK_IMPL (onLogin cs)),
        (DEMO_MSG_ID_REQ_SUM, CALLBACK_IMPL (onReqSum cs))])"

definition worker_initDispatcher :: "(nat \<Rightarrow> int) \<Rightarrow> u8 \<Rightarrow> bool \<Rightarrow> ('b, server_peer) dispatcher" where
  "worker_initDispatcher now endian mem =
     init_dispatcher endian mem (\<lambda>cs.
       [(DEMO_MSG_ID_PING, CALLBACK_IMPL (worker_onPing now cs)), (DEMO_MSG_ID_REQ_LOGIN, CALLBACK_IMPL (worker_onLogin cs)),
        (DEMO_MSG_ID_REQ_SUM, CALLBACK_IMPL (worker_onReqSum cs))])"

definition client_initDispatcher :: "(nat \<Rightarrow> int) \<Rightarrow> u8 \<Rightarrow> bool \<Rightarrow> ('b, client_peer) dispatcher" where
  "client_initDispatcher now endian mem =
     init_dispatcher endian mem (\<lambda>cs.
       [(DEMO_MSG_ID_PONG, CALLBACK_IMPL (onPong now)), (DEMO_MSG_ID_RSP_LOGIN, CALLBACK_IMPL onRspLogin),
        (DEMO_MSG_ID_RSP_SUM, CALLBACK_IMPL onRspSum)])"

section \<open>Command lines\<close>

text \<open>\<open>parse_sys_args\<close>, the same in the three programs, on the options that \<open>getopt\<close> finds.\<close>

fun sys_args_opts :: "(char \<times> string) list \<Rightarrow> string \<times> string \<Rightarrow> (string \<times> string) parsed" where
  "sys_args_opts [] args = Parsed args"
| "sys_args_opts ((opt, optarg) # opts) (host, port) =
     (if opt = CHR ''h'' then ExitSuccess
      else if opt = CHR ''H'' then sys_args_opts opts (strncpy_buf 64 optarg, port)
      else if opt = CHR ''P'' then sys_args_opts opts (host, strncpy_buf 16 optarg)
      else sys_args_opts opts (host, port))"

definition demo_parse_sys_args :: "(char \<times> string) list \<Rightarrow> (string \<times> string) parsed" where
  "demo_parse_sys_args opts =
     (case sys_args_opts opts ([], []) of
        Parsed (host, port) \<Rightarrow> if host = [] \<or> port = [] then ParseFailed else Parsed (host, port)
      | r \<Rightarrow> r)"


section \<open>Requests and responses\<close>

text \<open>A message on the wire, the requests and responses of the protocol, and which requests are well-formed.\<close>

definition wire :: "codec_bytes \<Rightarrow> u32 \<Rightarrow> bytes \<Rightarrow> bytes" where
  "wire c msg_id payload =
     MUGGLE_DEMO_MAGIC_WORD @ [s_endianess c, s_protocol_ver, 0, 0] @ bytes32 msg_id @ bytes32 (of_nat (length payload)) @ payload"

datatype demo_req = Login u32 string string | Ping u64 u32 | ReqSum u32 "u32 list"

datatype demo_rsp = LoginOk u32 | Pong u64 u32 | SumIs u32 int

definition text_field :: "nat \<Rightarrow> string \<Rightarrow> bytes" where
  "text_field n s = str_bytes s @ replicate (n - length s) 0"

fun req_msg :: "codec_bytes \<Rightarrow> demo_req \<Rightarrow> bytes" where
  "req_msg c (Login n u p) = wire c DEMO_MSG_ID_REQ_LOGIN (demo_msg_req_login n (text_field 16 u) (text_field 32 p))"
| "req_msg c (Ping sec nsec) = wire c DEMO_MSG_ID_PING (demo_msg_ping sec nsec)"
| "req_msg c (ReqSum n arr) = wire c DEMO_MSG_ID_REQ_SUM (demo_msg_req_sum n arr)"

fun rsp_msg :: "codec_bytes \<Rightarrow> demo_rsp \<Rightarrow> bytes" where
  "rsp_msg c (LoginOk n) = wire c DEMO_MSG_ID_RSP_LOGIN (demo_msg_rsp_login n 1)"
| "rsp_msg c (Pong sec nsec) = wire c DEMO_MSG_ID_PONG (demo_msg_pong sec nsec)"
| "rsp_msg c (SumIs n v) = wire c DEMO_MSG_ID_RSP_SUM (demo_msg_rsp_sum n v)"

fun reply :: "demo_req \<Rightarrow> demo_rsp" where
  "reply (Login n u p) = LoginOk n"
| "reply (Ping sec nsec) = Pong sec nsec"
| "reply (ReqSum n arr) = SumIs n (sum_list (map sint arr))"

definition in_int32 :: "int \<Rightarrow> bool" where
  "in_int32 v \<longleftrightarrow> - (2 ^ 31) \<le> v \<and> v < 2 ^ 31"

fun sums_fit :: "int \<Rightarrow> u32 list \<Rightarrow> bool" where
  "sums_fit v [] = True"
| "sums_fit v (w # ws) = (in_int32 (v + sint w) \<and> sums_fit (v + sint w) ws)"

definition text_ok :: "nat \<Rightarrow> string \<Rightarrow> bool" where
  "text_ok n s \<longleftrightarrow> length s < n \<and> CHR 0x00 \<notin> set s"

fun req_ok :: "demo_req \<Rightarrow> bool" where
  "req_ok (Login n u p) = (text_ok 16 u \<and> text_ok 32 p)"
| "req_ok (Ping sec nsec) = True"
| "req_ok (ReqSum n arr) = (length arr \<le> 16 \<and> sums_fit 0 arr)"

lemma length_wire [simp]: "length (wire c msg_id payload) = 16 + length payload"
  by (simp add: wire_def MUGGLE_DEMO_MAGIC_WORD_def)

lemma drop_wire [simp]: "drop 16 (wire c msg_id payload) = payload"
  by (simp add: wire_def MUGGLE_DEMO_MAGIC_WORD_def bytes32_def)

lemma load_wire_id [simp]: "load32 (wire c msg_id payload @ x) 8 = Inr msg_id"
  using load32_append [of "MUGGLE_DEMO_MAGIC_WORD @ [s_endianess c, s_protocol_ver, 0, 0]" 8 msg_id "bytes32 (of_nat (length payload)) @ payload @ x"]
  by (simp add: wire_def MUGGLE_DEMO_MAGIC_WORD_def)

lemma msg_ok_wire: "16 + length payload \<le> unat (msg_len_limit c) \<Longrightarrow> 16 + length payload < 2 ^ 31 \<Longrightarrow> msg_ok c (wire c msg_id payload)"
  by (auto simp: msg_ok_def wire_def)

text \<open>Sending stamps the header.\<close>

lemma stamp_wire: "stamp_hdr c (NEW_STACK_DEMO_MSG msg_id payload) (16 + length payload) = wire c msg_id payload"
  by (simp add: stamp_hdr_def NEW_STACK_DEMO_MSG_def wire_def sizeof_msg_hdr_def bytes32_def numeral_eq_Suc)

lemma encode_wire:
  assumes "ctx s = Some k" "sk_room k = None" "\<not> sk_shut k"
  shows "sendMessage [c] (NEW_STACK_DEMO_MSG msg_id payload) (16 + length payload) s =
    Inr (True, s\<lparr>ctx := Some (k\<lparr>sk_out := sk_out k @ wire c msg_id payload\<rparr>)\<rparr>)"
proof -
  have "length (NEW_STACK_DEMO_MSG msg_id payload) = 16 + length payload" by (simp add: NEW_STACK_DEMO_MSG_def)
  then show ?thesis using assms stamp_wire [of c msg_id payload] load_wire_id [of c msg_id payload "[]"]
    by (simp add: sendMessage_def ctx_Write_def read_range_def)
qed

lemma send_wire:
  assumes "ctx s = Some k" "sk_room k = None" "\<not> sk_shut k"
  shows "DEMO_SESSION_SEND_MSG [c] (NEW_STACK_DEMO_MSG msg_id payload) s = Inr (s\<lparr>ctx := Some (k\<lparr>sk_out := sk_out k @ wire c msg_id payload\<rparr>)\<rparr>)"
proof -
  have "length (NEW_STACK_DEMO_MSG msg_id payload) = 16 + length payload" by (simp add: NEW_STACK_DEMO_MSG_def)
  then show ?thesis using encode_wire [OF assms] by (simp add: DEMO_SESSION_SEND_MSG_def)
qed

text \<open>A socket that was shut down takes nothing, and the sender does not look at the result.\<close>

lemma send_shut:
  assumes "ctx s = Some k" "sk_shut k"
  shows "DEMO_SESSION_SEND_MSG [c] (NEW_STACK_DEMO_MSG msg_id payload) s = Inr s"
proof -
  have "length (NEW_STACK_DEMO_MSG msg_id payload) = 16 + length payload" by (simp add: NEW_STACK_DEMO_MSG_def)
  moreover have "s\<lparr>ctx := Some k\<rparr> = s" using assms(1) by simp
  ultimately show ?thesis using assms stamp_wire [of c msg_id payload] load_wire_id [of c msg_id payload "[]"]
    by (simp add: DEMO_SESSION_SEND_MSG_def sendMessage_def ctx_Write_def read_range_def)
qed

subsection \<open>Reading the fields\<close>

lemma fmt_text_field:
  assumes "text_ok n s"
  shows "fmt_str (text_field n s @ x) = Inr s"
proof -
  obtain m where m: "n - length s = Suc m" using assms by (metis Suc_diff_Suc text_ok_def)
  have "takeWhile (\<lambda>b. b \<noteq> 0) (str_bytes s @ 0 # replicate m 0 @ x) = str_bytes s"
    using assms str_bytes_nonzero by (subst takeWhile_append2) (auto simp: text_ok_def)
  then show ?thesis by (simp add: fmt_str_def text_field_def m chars_of_str_bytes)
qed

lemma sum_array_fit:
  "sums_fit v arr \<Longrightarrow> length pre = 8 + 4 * i \<Longrightarrow> sum_array (length arr) (pre @ concat (map bytes32 arr) @ x) i v = Inr (v + sum_list (map sint arr))"
proof (induction arr arbitrary: pre i v)
  case (Cons w arr)
  have "load32 (pre @ bytes32 w @ concat (map bytes32 arr) @ x) (8 + 4 * i) = Inr w" by (rule load32_append) (simp add: Cons.prems(2))
  then show ?case using Cons.IH [of "v + sint w" "pre @ bytes32 w" "Suc i"] Cons.prems by (simp add: add_int32_def in_int32_def add.assoc)
qed simp


subsection \<open>What the peers do with well-formed messages\<close>

fun act :: "(nat \<Rightarrow> int) \<Rightarrow> codec_bytes list \<Rightarrow> demo_req \<Rightarrow> server_peer \<Rightarrow> ('b, server_peer) session \<Rightarrow> ('b, server_peer) session result" where
  "act now cs (Ping sec nsec) peer s =
     DEMO_SESSION_SEND_MSG cs (NEW_STACK_DEMO_MSG DEMO_MSG_ID_PONG (demo_msg_pong sec nsec))
       (time_update now (log_addr ''recv req ping: addr='' ('', sec='' @ decw sec @ '', nsec='' @ pad0 9 (decw nsec)) s))"
| "act now cs (Login n u p) peer s =
     DEMO_SESSION_SEND_MSG cs (NEW_STACK_DEMO_MSG DEMO_MSG_ID_RSP_LOGIN (demo_msg_rsp_login n 1))
       ((log_addr ''recv req login: addr='' ('', user_id='' @ u @ '', req_id='' @ decw n) s)
          \<lparr>user_data := Some (peer\<lparr>user_id := u, is_logined := True\<rparr>)\<rparr>)"
| "act now cs (ReqSum n arr) peer s =
     rbind (close_if (\<not> is_logined peer) ''req without login'' s) (\<lambda>s.
     DEMO_SESSION_SEND_MSG cs (NEW_STACK_DEMO_MSG DEMO_MSG_ID_RSP_SUM (demo_msg_rsp_sum n (sum_list (map sint arr))))
       (log_addr ''recv req sum: addr='' ('', user_id='' @ user_id peer @ '', req_id='' @ decw n) s))"

fun hear :: "(nat \<Rightarrow> int) \<Rightarrow> demo_rsp \<Rightarrow> client_peer \<Rightarrow> ('b, client_peer) session \<Rightarrow> ('b, client_peer) session" where
  "hear now (Pong sec nsec) peer s =
     time_update now (log_addr ''recv rsp pong: addr='' ('', sec='' @ decw sec @ '', nsec='' @ pad0 9 (decw nsec)) s)"
| "hear now (LoginOk n) peer s = say_log ''recv rsp login success'' (s\<lparr>user_data := Some (peer\<lparr>cp_logined := True\<rparr>)\<rparr>)"
| "hear now (SumIs n v) peer s = say_log (''recv rsp sum: req_id='' @ decw n @ '', sum='' @ deci v) s"

fun rsp_ok :: "demo_rsp \<Rightarrow> bool" where
  "rsp_ok (SumIs n v) = in_int32 v"
| "rsp_ok _ = True"

lemma ping_loads: "load64 (bytes64 sec @ bytes32 nsec @ x) 0 = Inr sec" "load32 (bytes64 sec @ bytes32 nsec @ x) 8 = Inr nsec"
  using load64_append [of "[]" 0 sec] load32_append [of "bytes64 sec" 8 nsec x] by simp_all

lemma pair_loads: "load32 (bytes32 a @ bytes32 b @ x) 0 = Inr a" "load32 (bytes32 a @ bytes32 b @ x) 4 = Inr b"
  using load32_append [of "[]" 0 a] load32_append [of "bytes32 a" 4 b x] by simp_all

lemma onPing_act: "onPing now cs peer (demo_msg_ping sec nsec @ x) s = act now cs (Ping sec nsec) peer s"
  by (simp add: onPing_def demo_msg_ping_def ping_loads)

lemma login_with_act:
  assumes "req_ok (Login n u p)"
  shows "login_with detach cs peer (demo_msg_req_login n (text_field 16 u) (text_field 32 p) @ x) s =
    rbind (detach u ((log_addr ''recv req login: addr='' ('', user_id='' @ u @ '', req_id='' @ decw n) s)
              \<lparr>user_data := Some (peer\<lparr>user_id := u, is_logined := True\<rparr>)\<rparr>)) (\<lambda>s.
     DEMO_SESSION_SEND_MSG cs (NEW_STACK_DEMO_MSG DEMO_MSG_ID_RSP_LOGIN (demo_msg_rsp_login n 1)) s)"
proof -
  let ?m = "demo_msg_req_login n (text_field 16 u) (text_field 32 p) @ x"
  have ok: "text_ok 16 u" "text_ok 32 p" "length u < 16" "length p < 32" using assms by (auto simp: text_ok_def)
  have "length (text_field 16 u) = 16" using ok by (simp add: text_field_def str_bytes_def)
  then have "drop 4 ?m = text_field 16 u @ text_field 32 p @ x" "drop 20 ?m = text_field 32 p @ x" "load32 ?m 0 = Inr n"
    using load32_append [of "[]" 0 n] by (simp_all add: demo_msg_req_login_def)
  then show ?thesis using ok by (simp add: login_with_def fmt_text_field close_if_def)
qed

lemma onLogin_act:
  "req_ok (Login n u p) \<Longrightarrow>
     onLogin cs peer (demo_msg_req_login n (text_field 16 u) (text_field 32 p) @ x) s = act now cs (Login n u p) peer s"
  by (simp add: onLogin_def login_with_act)

lemma onReqSum_act:
  assumes "req_ok (ReqSum n arr)"
  shows "onReqSum cs peer (demo_msg_req_sum n arr @ x) s = act now cs (ReqSum n arr) peer s"
proof -
  let ?m = "demo_msg_req_sum n arr @ x"
  have l: "load32 ?m 4 = Inr (of_nat (length arr))" "load32 ?m 0 = Inr n" by (simp_all add: demo_msg_req_sum_def pair_loads)
  have u: "unat (of_nat (length arr) :: u32) = length arr" using assms by (simp add: unat_of_nat_u32)
  then have "\<not> (of_nat (length arr) :: u32) > 16" using assms by (simp add: word_less_nat_alt)
  moreover have "sum_array (length arr) ?m 0 0 = Inr (sum_list (map sint arr))"
    using sum_array_fit [of 0 arr "bytes32 n @ bytes32 (of_nat (length arr))" 0 x] assms by (simp add: demo_msg_req_sum_def)
  ultimately show ?thesis using l u by (simp add: onReqSum_def close_if_def)
qed

lemma sint_of_int32: "in_int32 v \<Longrightarrow> sint (word_of_int v :: u32) = v"
  using to_int_mod [of v] by (simp add: in_int32_def to_int_def)

lemma client_hears:
  "onPong now peer (demo_msg_pong sec nsec @ x) s = Inr (hear now (Pong sec nsec) peer s)"
  "onRspLogin peer (demo_msg_rsp_login n 1 @ x) s = Inr (hear now (LoginOk n) peer s)"
  "in_int32 v \<Longrightarrow> onRspSum peer (demo_msg_rsp_sum n v @ x) s = Inr (hear now (SumIs n v) peer s)"
  using load8_append [of "bytes32 n" 4 1 x]
  by (simp_all add: onPong_def demo_msg_pong_def ping_loads onRspLogin_def demo_msg_rsp_login_def onRspSum_def demo_msg_rsp_sum_def pair_loads sint_of_int32)

subsection \<open>The dispatchers\<close>

lemma replicate_7: "replicate 7 x = [x, x, x, x, x, x, x]"
  by (simp add: numeral_eq_Suc)

lemma update_numeral: "(x # xs)[numeral v := y] = x # xs[pred_numeral v := y]"
  by (simp add: numeral_eq_Suc)

lemmas table_simps = init_dispatcher_def setTotalMessage_def registerCallback_def new_dispatcher_def appendCodec_def demo_msg_ids Let_def
  replicate_7 update_numeral

lemma max_id_1 [simp]: "\<not> (7 :: u32) \<le> 1"
  by (simp add: word_le_nat_alt)

lemma server_table:
  "total_msg (server_initDispatcher now endian True) = 7" "codecs (server_initDispatcher now endian True) = [demo_codec endian]"
  "callbacks (server_initDispatcher now endian True) =
     [None, Some (CALLBACK_IMPL (onLogin [demo_codec endian])), None, Some (CALLBACK_IMPL (onPing now [demo_codec endian])), None,
      Some (CALLBACK_IMPL (onReqSum [demo_codec endian])), None]"
  by (simp_all add: server_initDispatcher_def table_simps)

lemma client_table:
  "total_msg (client_initDispatcher now endian True) = 7" "codecs (client_initDispatcher now endian True) = [demo_codec endian]"
  "callbacks (client_initDispatcher now endian True) =
     [None, None, Some (CALLBACK_IMPL onRspLogin), None, Some (CALLBACK_IMPL (onPong now)), None, Some (CALLBACK_IMPL onRspSum)]"
  by (simp_all add: client_initDispatcher_def table_simps)

text \<open>Every well-formed message reaches its method, whatever lies behind it in memory.\<close>

lemma dispatch_req:
  assumes "req_ok r"
  shows "dispatch (server_initDispatcher now endian True) (req_msg (demo_codec endian) r @ x) s =
    (case ctx s of None \<Rightarrow> Inl AssertFailed
     | Some _ \<Rightarrow> (case user_data s of None \<Rightarrow> Inr (True, say_log ''failed get peer'' s)
         | Some peer \<Rightarrow> rbind (act now [demo_codec endian] r peer s) (\<lambda>s. Inr (True, s))))"
  using assms
  by (cases r) (auto simp: dispatch_def server_table CALLBACK_IMPL_def sizeof_msg_hdr_def onPing_act onLogin_act [where now = now]
      onReqSum_act [where now = now] demo_msg_ids simp del: act.simps split: option.split)

lemma dispatch_rsp:
  assumes "rsp_ok r"
  shows "dispatch (client_initDispatcher now endian True) (rsp_msg (demo_codec endian) r @ x) s =
    (case ctx s of None \<Rightarrow> Inl AssertFailed
     | Some _ \<Rightarrow> (case user_data s of None \<Rightarrow> Inr (True, say_log ''failed get peer'' s) | Some peer \<Rightarrow> Inr (True, hear now r peer s)))"
  using assms
  by (cases r) (auto simp: client_hears [where now = now] dispatch_def client_table CALLBACK_IMPL_def sizeof_msg_hdr_def demo_msg_ids simp del: hear.simps split: option.split)

subsection \<open>Nothing above the codec looks at what is still to be read\<close>

definition map_io :: "'b option \<Rightarrow> bytes \<Rightarrow> ('b, 'p) session result \<Rightarrow> ('b, 'p) session result" where
  "map_io b i x = rbind x (\<lambda>s. Inr (set_io b i s))"

lemma map_io_simps [simp]: "map_io b i (Inr s) = Inr (set_io b i s)" "map_io b i (Inl e) = Inl e"
  by (simp_all add: map_io_def)

lemma set_io_fields [simp]:
  "addr (set_io b i s) = addr s" "ticks (set_io b i s) = ticks s" "user_data (set_io b i s) = user_data s" "last_actived_ts (set_io b i s) = last_actived_ts s"
  by (simp_all add: set_io_def)

lemma io_commutes [simp]:
  "say_log t (set_io b i s) = set_io b i (say_log t s)" "log_addr pre post (set_io b i s) = set_io b i (log_addr pre post s)"
  "time_update now (set_io b i s) = set_io b i (time_update now s)" "(set_io b i s)\<lparr>user_data := u\<rparr> = set_io b i (s\<lparr>user_data := u\<rparr>)"
  by (simp_all add: say_log_def log_addr_def time_update_def updateActiveTime_def set_io_def)

lemma session_Close_io [simp]: "session_Close (set_io b i s) = map_io b i (session_Close s)"
  by (cases "ctx s") (simp_all add: session_Close_def Shutdown_def set_io_def)

lemma close_if_io [simp]: "close_if bad t (set_io b i s) = map_io b i (close_if bad t s)"
  by (simp add: close_if_def)

lemma encode_io: "dispatcher_encode cs data n (set_io b i s) = put_io b i (dispatcher_encode cs data n s)"
proof (induction cs arbitrary: data)
  case Nil
  show ?case
    by (cases "ctx s"; cases "load32 data 8"; cases "read_range data 0 n")
      (auto simp: ctx_Write_def set_io_def split: option.splits)
qed simp

lemma send_io [simp]: "DEMO_SESSION_SEND_MSG cs data (set_io b i s) = map_io b i (DEMO_SESSION_SEND_MSG cs data s)"
  by (cases "dispatcher_encode cs data (length data) s") (auto simp: DEMO_SESSION_SEND_MSG_def sendMessage_def encode_io)

lemma act_io: "act now cs r peer (set_io b i s) = map_io b i (act now cs r peer s)"
  by (cases "(now, cs, r, peer, s)" rule: act.cases) (auto simp: map_io_def rbind_assoc close_if_def)

lemma hear_io: "hear now r peer (set_io b i s) = set_io b i (hear now r peer s)"
  by (cases r) simp_all


section \<open>Streams of requests\<close>

definition server_accepts :: "u8 \<Rightarrow> bytes \<Rightarrow> bool" where
  "server_accepts endian m \<longleftrightarrow> (\<exists>r. req_ok r \<and> m = req_msg (demo_codec endian) r)"

definition client_accepts :: "u8 \<Rightarrow> bytes \<Rightarrow> bool" where
  "client_accepts endian m \<longleftrightarrow> (\<exists>r. rsp_ok r \<and> m = rsp_msg (demo_codec endian) r)"

lemma send_keeps_ctx: "DEMO_SESSION_SEND_MSG cs data s = Inr s' \<Longrightarrow> ctx s' \<noteq> None"
proof -
  have "dispatcher_encode cs data n s = Inr (ok, s1) \<Longrightarrow> ctx s1 \<noteq> None" for data n ok s1
    by (induction cs data n s rule: dispatcher_encode.induct) (auto simp: rbind_Inr_iff case_prod_beta Let_def split: option.splits if_splits)
  then show "DEMO_SESSION_SEND_MSG cs data s = Inr s' \<Longrightarrow> ctx s' \<noteq> None"
    by (auto simp: DEMO_SESSION_SEND_MSG_def sendMessage_def rbind_Inr_iff)
qed

lemma act_keeps_ctx: "act now cs r peer s = Inr s' \<Longrightarrow> ctx s' \<noteq> None"
  by (cases r) (auto simp: rbind_Inr_iff dest: send_keeps_ctx)

lemma hear_keeps_ctx: "ctx (hear now r peer s) = ctx s"
  by (cases r) (simp_all add: say_log_def log_addr_def time_update_def updateActiveTime_def)

interpretation demo_srv: message_sink "dispatch (server_initDispatcher now endian True)" "server_accepts endian" for now endian
proof
  fix m r b i and s :: "('a, server_peer) session"
  assume "server_accepts endian m"
  then obtain q where q: "req_ok q" "m = req_msg (demo_codec endian) q" by (auto simp: server_accepts_def)
  note d = dispatch_req [OF q(1), of now endian]
  show "dispatch (server_initDispatcher now endian True) (m @ r) (set_io b i s) = put_io b i (dispatch (server_initDispatcher now endian True) m s)"
    using d [of r "set_io b i s"] d [of "[]" s]
    by (auto simp: q(2) act_io map_io_def put_io_def rbind_assoc split: option.split)
  fix ok s'
  assume "dispatch (server_initDispatcher now endian True) m s = Inr (ok, s')" "ctx s \<noteq> None"
  then have "dispatch (server_initDispatcher now endian True) (req_msg (demo_codec endian) q @ []) s = Inr (ok, s')" "ctx s \<noteq> None" using q(2) by simp_all
  then show "ctx s' \<noteq> None" unfolding d by (auto simp: rbind_Inr_iff say_log_def dest: act_keeps_ctx split: option.splits)
qed

interpretation demo_cli: message_sink "dispatch (client_initDispatcher now endian True)" "client_accepts endian" for now endian
proof
  fix m r b i and s :: "('a, client_peer) session"
  assume "client_accepts endian m"
  then obtain q where q: "rsp_ok q" "m = rsp_msg (demo_codec endian) q" by (auto simp: client_accepts_def)
  note d = dispatch_rsp [OF q(1), of now endian]
  show "dispatch (client_initDispatcher now endian True) (m @ r) (set_io b i s) = put_io b i (dispatch (client_initDispatcher now endian True) m s)"
    using d [of r "set_io b i s"] d [of "[]" s] by (auto simp: q(2) hear_io split: option.split)
  fix ok s'
  assume "dispatch (client_initDispatcher now endian True) m s = Inr (ok, s')" "ctx s \<noteq> None"
  then show "ctx s' \<noteq> None" using d [of "[]" s] by (auto simp: q(2) say_log_def hear_keeps_ctx split: option.splits)
qed

subsection \<open>The server\<close>

fun after :: "demo_req \<Rightarrow> server_peer \<Rightarrow> server_peer" where
  "after (Login n u p) peer = peer\<lparr>user_id := u, is_logined := True\<rparr>"
| "after _ peer = peer"

fun refused :: "server_peer \<Rightarrow> demo_req list \<Rightarrow> bool" where
  "refused peer [] = False"
| "refused peer (r # rs) = ((\<exists>n arr. r = ReqSum n arr) \<and> \<not> is_logined peer \<or> refused (after r peer) rs)"

text \<open>The requests that are answered: those before the first sum that is asked for without a login.\<close>

fun answered :: "server_peer \<Rightarrow> demo_req list \<Rightarrow> demo_req list" where
  "answered peer [] = []"
| "answered peer (r # rs) = (if refused peer [r] then [] else r # answered (after r peer) rs)"

lemma answered_all: "\<not> refused peer rs \<Longrightarrow> answered peer rs = rs"
  by (induction rs arbitrary: peer) auto

text \<open>A session whose messages are all handled and whose socket takes whatever is sent.\<close>

definition at_rest :: "('b \<Rightarrow> bytes) \<Rightarrow> bytes \<Rightarrow> 'p \<Rightarrow> ('b, 'p) session \<Rightarrow> bool" where
  "at_rest content out peer s \<longleftrightarrow>
     user_data s = Some peer \<and> (\<exists>buf. bytes_buf s = Some buf \<and> content buf = []) \<and>
     (\<exists>k. ctx s = Some k \<and> sk_in k = [] \<and> sk_out k = out \<and> sk_room k = None)"

definition shut :: "('b, 'p) session \<Rightarrow> bool" where
  "shut s = (case ctx s of None \<Rightarrow> False | Some k \<Rightarrow> sk_shut k)"

lemma act_effect:
  assumes "at_rest content out peer s"
  shows "\<exists>s'. act now [c] r peer s = Inr s' \<and> at_rest content (if shut s \<or> refused peer [r] then out else out @ rsp_msg c (reply r)) (after r peer) s' \<and>
    (shut s' \<longleftrightarrow> shut s \<or> refused peer [r])"
proof -
  obtain k where k: "ctx s = Some k" "sk_room k = None" "sk_in k = []" "sk_out k = out" using assms by (auto simp: at_rest_def)
  have u: "user_data s = Some peer" "\<exists>buf. bytes_buf s = Some buf \<and> content buf = []" using assms by (auto simp: at_rest_def)
  note defs = log_addr_def say_log_def time_update_def updateActiveTime_def at_rest_def shut_def send_wire send_shut close_if_def session_Close_def Shutdown_def
  show ?thesis using k u by (cases r; cases "sk_shut k") (simp_all add: defs)
qed

lemma server_delivers:
  assumes "\<forall>r \<in> set rs. req_ok r" "at_rest content out peer s"
  shows "\<exists>s'. deliver (dispatch (server_initDispatcher now endian True)) (map (req_msg (demo_codec endian)) rs) s = Inr (True, s') \<and>
    at_rest content (out @ concat (map (rsp_msg (demo_codec endian) \<circ> reply) (if shut s then [] else answered peer rs))) (fold after rs peer) s' \<and>
    (shut s' \<longleftrightarrow> shut s \<or> refused peer rs)"
  using assms
proof (induction rs arbitrary: s out peer)
  case (Cons r rs)
  let ?c = "demo_codec endian"
  from act_effect [OF Cons.prems(2), of now ?c r] obtain s1 where
    s1: "act now [?c] r peer s = Inr s1" "at_rest content (if shut s \<or> refused peer [r] then out else out @ rsp_msg ?c (reply r)) (after r peer) s1"
        "shut s1 \<longleftrightarrow> shut s \<or> refused peer [r]" by blast
  have "dispatch (server_initDispatcher now endian True) (req_msg ?c r) s = Inr (True, s1)"
    using dispatch_req [of r now endian "[]" s] Cons.prems s1(1) by (auto simp: at_rest_def)
  then show ?case using Cons.IH [OF _ s1(2)] Cons.prems(1) s1(3) by (cases "shut s \<or> refused peer [r]") auto
qed simp

lemma req_msg_ok: "req_ok r \<Longrightarrow> msg_ok (demo_codec endian) (req_msg (demo_codec endian) r) \<and> length (req_msg (demo_codec endian) r) \<le> 88"
proof -
  have l: "unat (msg_len_limit (demo_codec endian)) = 32768" by (simp add: demo_codec_def setMsgLenLimit_def)
  have t: "text_ok n u \<Longrightarrow> length (text_field n u) = n" for n u by (simp add: text_ok_def text_field_def str_bytes_def)
  have "length (concat (map bytes32 arr)) = 4 * length arr" for arr by (induction arr) simp_all
  then show "req_ok r \<Longrightarrow> ?thesis" using l t by (cases r) (auto simp: demo_payloads bytes64_def intro!: msg_ok_wire)
qed

text \<open>Decoding a stream with one codec below the dispatcher.\<close>

lemma recvMessage_codec: "codecs D = [c] \<Longrightarrow> recvMessage B mem D = codec_decode B mem c (dispatch D)"
proof -
  have "dispatcher_decode B mem D [] = dispatch D" by (intro ext) simp
  then show "codecs D = [c] \<Longrightarrow> ?thesis" by (intro ext) (simp add: recvMessage_def)
qed

definition receives :: "'b buffer_ops \<Rightarrow> ('b \<Rightarrow> bytes) \<Rightarrow> (nat \<Rightarrow> bool) \<Rightarrow> nat \<Rightarrow> bool" where
  "receives B content mem cap \<longleftrightarrow> buffer_laws B content \<and> roomy B content 4096 cap \<and> cap < 2 ^ 31 \<and> (\<forall>n. mem n)"

lemma unit_size: "unat (recv_unit_size (demo_codec endian)) = 4096"
  by (simp add: demo_codec_def setRecvUnitSize_def setMsgLenLimit_def)

lemma set_io_at_rest: "at_rest content out peer s \<Longrightarrow> bytes_buf s = Some buf \<Longrightarrow> set_io (Some buf) [] s = s"
  by (auto simp: at_rest_def set_io_def)

lemma at_rest_set_io: "at_rest content out peer s \<Longrightarrow> content buf = [] \<Longrightarrow> at_rest content out peer (set_io (Some buf) [] s)"
  by (auto simp: at_rest_def set_io_def)

lemma set_io_shut [simp]: "shut (set_io b i s) = shut s" "ses_log (set_io b i s) = ses_log s"
  by (auto simp: shut_def set_io_def split: option.split)

context message_sink
begin

lemma stream_delivers:
  assumes "receives B content mem cap" "\<forall>m \<in> set ms. msg_ok (demo_codec endian) m \<and> accepts m \<and> length m \<le> 88" "at_rest content out peer s"
    "concat ps = concat ms" "\<forall>p \<in> set ps. 88 + length p \<le> cap" "deliver upper ms s = Inr (True, s')" "at_rest content out' peer' s'"
  shows "\<exists>buf. demo_recv (codec_decode B mem (demo_codec endian) upper) ps s = Inr (True, set_io (Some buf) [] s') \<and>
    at_rest content out' peer' (set_io (Some buf) [] s')"
proof -
  let ?c = "demo_codec endian"
  obtain buf where buf: "bytes_buf s = Some buf" "content buf = []" "ctx s \<noteq> None" using assms(3) by (auto simp: at_rest_def)
  have B: "buffer_laws B content" "roomy B content (unat (recv_unit_size ?c)) cap" "0 < unat (recv_unit_size ?c)" "\<forall>n. mem n" "cap < 2 ^ 31"
    using assms(1) by (simp_all add: receives_def unit_size)
  have "\<exists>buf'. demo_recv (codec_decode B mem ?c upper) ps (set_io (Some buf) [] s) = Inr (True, set_io (Some buf') [] s') \<and> content buf' = []"
    using pieces_deliver [OF B assms(2,5) buf(3) _ _ assms(6), of buf] assms(4) buf(2) by simp
  then show ?thesis using set_io_at_rest [OF assms(3) buf(1)] at_rest_set_io [OF assms(7)] by auto
qed

end

text \<open>
  A stream of well-formed requests, in whatever pieces it arrives, is answered request by request and in order, until a sum is asked for
  without a login: then the connection is shut down, and this request and those after it are handled without an answer.
\<close>

lemma server_stream:
  assumes "receives B content mem cap" "\<forall>r \<in> set rs. req_ok r" "at_rest content out peer s"
    "concat ps = concat (map (req_msg (demo_codec endian)) rs)" "\<forall>p \<in> set ps. 88 + length p \<le> cap"
  shows "\<exists>s'. demo_recv (recvMessage B mem (server_initDispatcher now endian True)) ps s = Inr (True, s') \<and>
    at_rest content (out @ concat (map (rsp_msg (demo_codec endian) \<circ> reply) (if shut s then [] else answered peer rs))) (fold after rs peer) s' \<and>
    (shut s' \<longleftrightarrow> shut s \<or> refused peer rs)"
proof -
  let ?c = "demo_codec endian" and ?D = "server_initDispatcher now endian True"
  from server_delivers [OF assms(2,3), of now endian] obtain s' where
    d: "deliver (dispatch ?D) (map (req_msg ?c) rs) s = Inr (True, s')"
       "at_rest content (out @ concat (map (rsp_msg ?c \<circ> reply) (if shut s then [] else answered peer rs))) (fold after rs peer) s'" "shut s' \<longleftrightarrow> shut s \<or> refused peer rs" by blast
  have ms: "\<forall>m \<in> set (map (req_msg ?c) rs). msg_ok ?c m \<and> server_accepts endian m \<and> length m \<le> 88"
    using assms(2) req_msg_ok by (auto simp: server_accepts_def)
  from demo_srv.stream_delivers [OF assms(1) ms assms(3-5) d(1,2)] show ?thesis using d(3) by (auto simp: recvMessage_codec [OF server_table(2)])
qed

subsection \<open>The client\<close>

fun learn :: "demo_rsp \<Rightarrow> client_peer \<Rightarrow> client_peer" where
  "learn (LoginOk n) peer = peer\<lparr>cp_logined := True\<rparr>"
| "learn _ peer = peer"

fun heard_line :: "string \<Rightarrow> demo_rsp \<Rightarrow> string" where
  "heard_line a (Pong sec nsec) = ''recv rsp pong: addr='' @ a @ '', sec='' @ decw sec @ '', nsec='' @ pad0 9 (decw nsec)"
| "heard_line a (LoginOk n) = ''recv rsp login success''"
| "heard_line a (SumIs n v) = ''recv rsp sum: req_id='' @ decw n @ '', sum='' @ deci v"

lemma hear_effect:
  assumes "at_rest content out peer s"
  shows "at_rest content out (learn r peer) (hear now r peer s)" "ses_log (hear now r peer s) = ses_log s @ [heard_line (addr s) r]"
    "addr (hear now r peer s) = addr s" "shut (hear now r peer s) = shut s"
  using assms by (cases r; auto simp: at_rest_def shut_def log_addr_def say_log_def time_update_def updateActiveTime_def)+

lemma client_delivers:
  assumes "\<forall>r \<in> set rs. rsp_ok r" "at_rest content out peer s"
  shows "\<exists>s'. deliver (dispatch (client_initDispatcher now endian True)) (map (rsp_msg (demo_codec endian)) rs) s = Inr (True, s') \<and>
    at_rest content out (fold learn rs peer) s' \<and> ses_log s' = ses_log s @ map (heard_line (addr s)) rs \<and> addr s' = addr s \<and> shut s' = shut s"
  using assms
proof (induction rs arbitrary: s peer)
  case (Cons r rs)
  let ?s = "hear now r peer s"
  have "dispatch (client_initDispatcher now endian True) (rsp_msg (demo_codec endian) r) s = Inr (True, ?s)"
    using dispatch_rsp [of r now endian "[]" s] Cons.prems by (auto simp: at_rest_def)
  then show ?case using Cons.IH [OF _ hear_effect(1) [OF Cons.prems(2), where r = r and now = now]] Cons.prems(1)
      hear_effect(2-4) [OF Cons.prems(2), where r = r and now = now] by auto
qed simp

lemma rsp_msg_ok: "msg_ok (demo_codec endian) (rsp_msg (demo_codec endian) r) \<and> length (rsp_msg (demo_codec endian) r) \<le> 88"
proof -
  have "unat (msg_len_limit (demo_codec endian)) = 32768" by (simp add: demo_codec_def setMsgLenLimit_def)
  then show ?thesis by (cases r) (auto simp: demo_payloads bytes64_def intro!: msg_ok_wire)
qed

lemma client_stream:
  assumes "receives B content mem cap" "\<forall>r \<in> set rs. rsp_ok r" "at_rest content out peer s"
    "concat ps = concat (map (rsp_msg (demo_codec endian)) rs)" "\<forall>p \<in> set ps. 88 + length p \<le> cap"
  shows "\<exists>s'. demo_recv (recvMessage B mem (client_initDispatcher now endian True)) ps s = Inr (True, s') \<and>
    at_rest content out (fold learn rs peer) s' \<and> ses_log s' = ses_log s @ map (heard_line (addr s)) rs \<and> addr s' = addr s \<and> shut s' = shut s"
proof -
  let ?c = "demo_codec endian" and ?D = "client_initDispatcher now endian True"
  from client_delivers [OF assms(2,3), of now endian] obtain s' where
    d: "deliver (dispatch ?D) (map (rsp_msg ?c) rs) s = Inr (True, s')" "at_rest content out (fold learn rs peer) s'"
       "ses_log s' = ses_log s @ map (heard_line (addr s)) rs" "addr s' = addr s" "shut s' = shut s" by blast
  have ms: "\<forall>m \<in> set (map (rsp_msg ?c) rs). msg_ok ?c m \<and> client_accepts endian m \<and> length m \<le> 88"
    using assms(2) rsp_msg_ok by (auto simp: client_accepts_def)
  from demo_cli.stream_delivers [OF assms(1) ms assms(3-5) d(1,2)] show ?thesis using d(3-5) by (auto simp: recvMessage_codec [OF client_table(2)])
qed

end
