(* ===== verification/DemoTalk.thy ===== *)
theory DemoTalk
  imports DemoPeers
begin

text \<open>
  The event handlers of the programs of \<open>DemoPeers\<close> (tcp_server_handle.cpp, tcp_listen_handle.cpp, tcp_client_handle.cpp) and a conversation
  between the client and the server.

  A context is a number; its user data is the session that belongs to it, or null. The objects that a handle has allocated and not deleted
  are kept in a list. \<open>t\<close> is the result of \<open>time(NULL)\<close> in the call, \<open>a\<close> the address of the other side, and a new connection comes with
  its socket. The client handle has no log of its own here.
\<close>

section \<open>Handles of the servers\<close>

datatype demo_obj = PeerObj nat | SessionObj nat

record 'b server_handle =
  sh_sess :: "nat \<rightharpoonup> ('b, server_peer) session"
  ctx_set :: "nat list"
  last_timer_trigger :: int
  sh_objs :: "demo_obj list"
  sh_log :: "string list"

definition TcpServerHandle :: "'b server_handle" where
  "TcpServerHandle = \<lparr>sh_sess = Map.empty, ctx_set = [], last_timer_trigger = 0, sh_objs = [], sh_log = []\<rparr>"

definition handle_log :: "string \<Rightarrow> ('b, 'z) server_handle_scheme \<Rightarrow> ('b, 'z) server_handle_scheme" where
  "handle_log t h = h\<lparr>sh_log := sh_log h @ [t]\<rparr>"

text \<open>The session that a new connection gets, with a peer of its own.\<close>

definition open_session :: "'b buffer_ops \<Rightarrow> int \<Rightarrow> string \<Rightarrow> 'p \<Rightarrow> socket \<Rightarrow> ('b, 'p) session" where
  "open_session B t a peer k = updateActiveTime t ((initBytesBuffer B (4 * 1024 * 1024) new_session)\<lparr>user_data := Some peer, ctx := Some k, addr := a\<rparr>)"

definition connect_ctx :: "string \<Rightarrow> 'b buffer_ops \<Rightarrow> int \<Rightarrow> nat \<Rightarrow> string \<Rightarrow> socket \<Rightarrow> ('b, 'z) server_handle_scheme \<Rightarrow> ('b, 'z) server_handle_scheme" where
  "connect_ctx text B t i a k h =
     (handle_log (text @ a) h)
       \<lparr>sh_sess := (sh_sess h)(i \<mapsto> open_session B t a ServerPeer k), ctx_set := List.insert i (ctx_set h),
        sh_objs := PeerObj i # SessionObj i # sh_objs h\<rparr>"

definition server_OnConnect :: "'b buffer_ops \<Rightarrow> int \<Rightarrow> nat \<Rightarrow> string \<Rightarrow> socket \<Rightarrow> 'b server_handle \<Rightarrow> 'b server_handle" where
  "server_OnConnect = connect_ctx ''connection: addr=''"

definition shut_ctx :: "('b, 'p) session \<Rightarrow> ('b, 'p) session" where
  "shut_ctx s = s\<lparr>ctx := map_option Shutdown (ctx s)\<rparr>"

definition handleMessage :: "'b buffer_ops \<Rightarrow> (nat \<Rightarrow> bool) \<Rightarrow> ('b, 'p) dispatcher \<Rightarrow> ('b, 'p) session \<Rightarrow> (bool \<times> ('b, 'p) session) result" where
  "handleMessage B mem D s = recvMessage B mem D s"

definition message_arrived ::
  "string \<Rightarrow> 'b buffer_ops \<Rightarrow> (nat \<Rightarrow> bool) \<Rightarrow> ('b, server_peer) dispatcher \<Rightarrow> nat \<Rightarrow> ('b, 'z) server_handle_scheme \<Rightarrow> ('b, 'z) server_handle_scheme result" where
  "message_arrived text B mem D i h =
     (case sh_sess h i of
        None \<Rightarrow> Inl NullDeref
      | Some s \<Rightarrow>
          rbind (handleMessage B mem D s) (\<lambda>(ok, s).
          Inr (if ok then h\<lparr>sh_sess := (sh_sess h)(i \<mapsto> s)\<rparr>
               else (handle_log (text @ addr s) h)\<lparr>sh_sess := (sh_sess h)(i \<mapsto> shut_ctx s)\<rparr>)))"

definition server_OnMessage :: "'b buffer_ops \<Rightarrow> (nat \<Rightarrow> bool) \<Rightarrow> ('b, server_peer) dispatcher \<Rightarrow> nat \<Rightarrow> 'b server_handle \<Rightarrow> 'b server_handle result" where
  "server_OnMessage = message_arrived ''failed dispatcher message, addr=''"

definition log_close :: "string \<Rightarrow> nat \<Rightarrow> 'b server_handle \<Rightarrow> 'b server_handle result" where
  "log_close text i h = (case sh_sess h i of None \<Rightarrow> Inl NullDeref | Some s \<Rightarrow> Inr (handle_log (text @ addr s) h))"

definition server_OnClose :: "nat \<Rightarrow> 'b server_handle \<Rightarrow> 'b server_handle result" where
  "server_OnClose = log_close ''disconnection: addr=''"

definition release_ctx :: "nat \<Rightarrow> ('b, 'z) server_handle_scheme \<Rightarrow> ('b, 'z) server_handle_scheme result" where
  "release_ctx i h =
     (case sh_sess h i of
        None \<Rightarrow> Inl NullDeref
      | Some s \<Rightarrow>
          rbind (if user_data s = None then Inr (sh_objs h) else release (PeerObj i) (sh_objs h)) (\<lambda>objs.
          rbind (release (SessionObj i) objs) (\<lambda>objs.
          Inr ((handle_log (''release, addr='' @ addr s) h)
            \<lparr>sh_objs := objs, sh_sess := (sh_sess h)(i := None), ctx_set := removeAll i (ctx_set h)\<rparr>))))"

definition server_OnRelease :: "nat \<Rightarrow> 'b server_handle \<Rightarrow> 'b server_handle result" where
  "server_OnRelease = release_ctx"

text \<open>Every session of the set that was silent for more than 15 seconds is shut down.\<close>

fun shut_silent :: "int \<Rightarrow> nat list \<Rightarrow> (nat \<rightharpoonup> ('b, 'p) session) \<Rightarrow> (nat \<rightharpoonup> ('b, 'p) session) result" where
  "shut_silent t [] m = Inr m"
| "shut_silent t (i # is) m =
     (case m i of
        None \<Rightarrow> Inl NullDeref
      | Some s \<Rightarrow> shut_silent t is (if t - last_actived_ts s > 15 then m(i \<mapsto> shut_ctx s) else m))"

definition server_OnTimer :: "int \<Rightarrow> 'b server_handle \<Rightarrow> 'b server_handle result" where
  "server_OnTimer t h =
     (if t - last_timer_trigger h < 5 then Inr h
      else rbind (shut_silent t (ctx_set h) (sh_sess h)) (\<lambda>m. Inr (h\<lparr>last_timer_trigger := t, sh_sess := m\<rparr>)))"

subsection \<open>The server with workers\<close>

text \<open>
  The listening handle keeps a session until its user has logged in; \<open>worker_idx\<close> counts the users and \<open>handed\<close> are the contexts that
  were given to a worker, with their sessions. The event loop calls \<open>OnClose\<close> for a context whose close flag is set.
\<close>

record 'b listen_handle = "'b server_handle" +
  worker_idx :: int
  user_worker_dict :: "string \<rightharpoonup> int"
  handed :: "(nat \<times> nat \<times> ('b, server_peer) session) list"

definition ClearFlags :: "socket \<Rightarrow> socket" where
  "ClearFlags k = k\<lparr>sk_close := False\<rparr>"

definition listen_OnConnect :: "'b buffer_ops \<Rightarrow> int \<Rightarrow> nat \<Rightarrow> string \<Rightarrow> socket \<Rightarrow> 'b listen_handle \<Rightarrow> 'b listen_handle" where
  "listen_OnConnect = connect_ctx ''New connection: addr=''"

definition listen_OnMessage :: "'b buffer_ops \<Rightarrow> (nat \<Rightarrow> bool) \<Rightarrow> ('b, server_peer) dispatcher \<Rightarrow> nat \<Rightarrow> 'b listen_handle \<Rightarrow> 'b listen_handle result" where
  "listen_OnMessage = message_arrived ''failed dispatcher message, addr=''"

definition listen_OnRelease :: "nat \<Rightarrow> 'b listen_handle \<Rightarrow> 'b listen_handle result" where
  "listen_OnRelease = release_ctx"

definition pick_worker :: "nat \<Rightarrow> string \<Rightarrow> 'b listen_handle \<Rightarrow> (int \<times> 'b listen_handle) result" where
  "pick_worker workers user h =
     (case user_worker_dict h user of
        Some idx \<Rightarrow> Inr (idx, h)
      | None \<Rightarrow>
          rbind (add_int32 (worker_idx h) 1) (\<lambda>next_idx.
          if workers = 0 then Inl DivByZero
          else
            let idx = worker_idx h mod int workers in
            Inr (idx, h\<lparr>worker_idx := next_idx, user_worker_dict := (user_worker_dict h)(user \<mapsto> idx)\<rparr>)))"

definition listen_OnClose :: "nat \<Rightarrow> nat \<Rightarrow> 'b listen_handle \<Rightarrow> 'b listen_handle result" where
  "listen_OnClose workers i h =
     (case sh_sess h i of
        None \<Rightarrow> Inl NullDeref
      | Some s \<Rightarrow>
          if \<not> detached s then Inr h
          else
            (case user_data s of
               None \<Rightarrow> Inl NullDeref
             | Some peer \<Rightarrow>
                 rbind (pick_worker workers (user_id peer) h) (\<lambda>(idx, h).
                 if idx < 0 \<or> int workers \<le> idx then Inl OutOfBounds
                 else
                   let s = s\<lparr>detached := False, ctx := map_option ClearFlags (ctx s)\<rparr> in
                   Inr (h\<lparr>sh_sess := (sh_sess h)(i \<mapsto> s), handed := handed h @ [(nat idx, i, s)], ctx_set := removeAll i (ctx_set h),
                     sh_log := sh_log h @ [''move socket context to worker event loop: addr='' @ addr s @ '', user_id='' @ user_id peer @
                       '', worker_idx='' @ deci idx]\<rparr>))))"

definition listen_OnTimer :: "int \<Rightarrow> 'b listen_handle \<Rightarrow> 'b listen_handle result" where
  "listen_OnTimer t h = rbind (shut_silent t (ctx_set h) (sh_sess h)) (\<lambda>m. Inr (h\<lparr>sh_sess := m\<rparr>))"

text \<open>The handle of a worker: a context that is added has its session already.\<close>

definition worker_OnAddCtx :: "nat \<Rightarrow> ('b, server_peer) session \<Rightarrow> 'b server_handle \<Rightarrow> 'b server_handle" where
  "worker_OnAddCtx i s h =
     (handle_log (''event loop add context, addr='' @ addr s) h)\<lparr>sh_sess := (sh_sess h)(i \<mapsto> s), ctx_set := List.insert i (ctx_set h)\<rparr>"

definition worker_OnMessage :: "'b buffer_ops \<Rightarrow> (nat \<Rightarrow> bool) \<Rightarrow> ('b, server_peer) dispatcher \<Rightarrow> nat \<Rightarrow> 'b server_handle \<Rightarrow> 'b server_handle result" where
  "worker_OnMessage = message_arrived ''failed handle message, addr=''"

definition worker_OnClose :: "nat \<Rightarrow> 'b server_handle \<Rightarrow> 'b server_handle result" where
  "worker_OnClose = log_close ''disconnect, addr=''"

definition worker_OnRelease :: "nat \<Rightarrow> 'b server_handle \<Rightarrow> 'b server_handle result" where
  "worker_OnRelease = release_ctx"

definition worker_OnTimer :: "int \<Rightarrow> 'b server_handle \<Rightarrow> 'b server_handle result" where
  "worker_OnTimer = server_OnTimer"

section \<open>The handle of the client\<close>

record 'b client_handle =
  ch_sess :: "nat \<rightharpoonup> ('b, client_peer) session"
  ch_session :: "nat option"
  ch_last :: int
  ch_objs :: "demo_obj list"
  ch_connects :: nat   \<comment> \<open>how many threads were started to connect\<close>

definition TcpClientHandle :: "'b client_handle" where
  "TcpClientHandle = \<lparr>ch_sess = Map.empty, ch_session = None, ch_last = 0, ch_objs = [], ch_connects = 0\<rparr>"

text \<open>The thread of \<open>connect\<close> on the results of its attempts: the first that succeeds is the context it adds.\<close>

fun connect_thread :: "'k option list \<Rightarrow> 'k option" where
  "connect_thread [] = None"
| "connect_thread (None # rs) = connect_thread rs"
| "connect_thread (Some k # rs) = Some k"

definition client_OnAddCtx ::
  "'b buffer_ops \<Rightarrow> codec_bytes list \<Rightarrow> int \<Rightarrow> nat \<Rightarrow> string \<Rightarrow> socket \<Rightarrow> 'b client_handle \<Rightarrow> 'b client_handle result" where
  "client_OnAddCtx B cs t i a k h =
     rbind (onConnection cs ClientPeer (open_session B t a ClientPeer k)) (\<lambda>s.
     Inr (h\<lparr>ch_sess := (ch_sess h)(i \<mapsto> s), ch_session := Some i, ch_objs := PeerObj i # SessionObj i # ch_objs h\<rparr>))"

definition client_OnMessage :: "'b buffer_ops \<Rightarrow> (nat \<Rightarrow> bool) \<Rightarrow> ('b, client_peer) dispatcher \<Rightarrow> nat \<Rightarrow> 'b client_handle \<Rightarrow> 'b client_handle result" where
  "client_OnMessage B mem D i h =
     (case ch_sess h i of
        None \<Rightarrow> Inl NullDeref
      | Some s \<Rightarrow>
          rbind (handleMessage B mem D s) (\<lambda>(ok, s).
          Inr (h\<lparr>ch_sess := (ch_sess h)(i \<mapsto> (if ok then s else shut_ctx (say_log (''failed dispatcher message, addr='' @ addr s) s)))\<rparr>)))"

definition client_OnClose :: "'b client_handle \<Rightarrow> 'b client_handle" where
  "client_OnClose h = h\<lparr>ch_session := None, ch_connects := Suc (ch_connects h)\<rparr>"

definition client_OnRelease :: "nat \<Rightarrow> 'b client_handle \<Rightarrow> 'b client_handle result" where
  "client_OnRelease i h =
     (case ch_sess h i of
        None \<Rightarrow> Inr h
      | Some s \<Rightarrow> rbind (release (SessionObj i) (ch_objs h)) (\<lambda>objs. Inr (h\<lparr>ch_objs := objs, ch_sess := (ch_sess h)(i := None)\<rparr>)))"

definition client_OnTimer ::
  "bool \<Rightarrow> u64 \<times> u32 \<Rightarrow> (nat \<Rightarrow> u32) \<Rightarrow> codec_bytes list \<Rightarrow> int \<Rightarrow> 'b client_handle \<Rightarrow> 'b client_handle result" where
  "client_OnTimer mem ts rnd cs t h =
     (if t - ch_last h < 3 then Inr h
      else
        let h = h\<lparr>ch_last := t\<rparr> in
        case ch_session h of
          None \<Rightarrow> Inr h
        | Some i \<Rightarrow>
            (case ch_sess h i of
               None \<Rightarrow> Inl UseAfterFree
             | Some s \<Rightarrow>
                 (case user_data s of
                    None \<Rightarrow> Inr h
                  | Some peer \<Rightarrow> rbind (onTimer mem ts rnd cs peer s) (\<lambda>s. Inr (h\<lparr>ch_sess := (ch_sess h)(i \<mapsto> s)\<rparr>)))))"

section \<open>Users and workers\<close>

text \<open>
  What the listening handle keeps: the workers of the dictionary exist, and every context was handed to the worker of its user. A session is
  listed with what it was when it was handed over.
\<close>

definition at_home :: "(string \<rightharpoonup> int) \<Rightarrow> nat \<times> nat \<times> ('b, server_peer) session \<Rightarrow> bool" where
  "at_home d x = (case x of (w, i, s) \<Rightarrow> (case user_data s of None \<Rightarrow> False | Some peer \<Rightarrow> d (user_id peer) = Some (int w)))"

definition listen_inv :: "nat \<Rightarrow> 'b listen_handle \<Rightarrow> bool" where
  "listen_inv workers h \<longleftrightarrow> 0 \<le> worker_idx h \<and>
     (\<forall>u idx. user_worker_dict h u = Some idx \<longrightarrow> 0 \<le> idx \<and> idx < int workers) \<and> (\<forall>x \<in> set (handed h). at_home (user_worker_dict h) x)"

lemma at_home_mono: "(\<And>u v. d u = Some v \<Longrightarrow> d' u = Some v) \<Longrightarrow> at_home d x \<Longrightarrow> at_home d' x"
  by (auto simp: at_home_def split: prod.splits option.splits)

lemma pick_worker_inv:
  assumes "listen_inv workers h" "pick_worker workers user h = Inr (idx, h')"
  shows "listen_inv workers h'" "0 \<le> idx" "idx < int workers" "user_worker_dict h' user = Some idx" "sh_sess h' = sh_sess h" "handed h' = handed h"
proof -
  have "listen_inv workers h' \<and> 0 \<le> idx \<and> idx < int workers \<and> user_worker_dict h' user = Some idx \<and> sh_sess h' = sh_sess h \<and> handed h' = handed h"
  proof (cases "user_worker_dict h user")
    case (Some v)
    then show ?thesis using assms by (auto simp: pick_worker_def listen_inv_def)
  next
    case None
    then have h': "workers \<noteq> 0" "idx = worker_idx h mod int workers"
        "h' = h\<lparr>worker_idx := worker_idx h + 1, user_worker_dict := (user_worker_dict h)(user \<mapsto> idx)\<rparr>"
      using assms(2) by (auto simp: pick_worker_def rbind_Inr_iff add_int32_def Let_def split: if_splits)
    have keep: "at_home (user_worker_dict h) x \<Longrightarrow> at_home (user_worker_dict h') x" for x
      by (rule at_home_mono) (use None h'(3) in auto)
    have "0 \<le> idx" "idx < int workers" using h'(1,2) by simp_all
    moreover have "\<forall>u v. user_worker_dict h' u = Some v \<longrightarrow> 0 \<le> v \<and> v < int workers"
      using assms(1) h'(3) calculation by (auto simp: listen_inv_def)
    moreover have "0 \<le> worker_idx h'" "handed h' = handed h" using assms(1) h'(3) by (simp_all add: listen_inv_def)
    moreover have "\<forall>x \<in> set (handed h'). at_home (user_worker_dict h') x"
      unfolding calculation(5) using assms(1) by (auto simp: listen_inv_def intro: keep)
    moreover have "user_worker_dict h' user = Some idx" "sh_sess h' = sh_sess h" by (simp_all add: h'(3))
    ultimately show ?thesis by (simp add: listen_inv_def)
  qed
  then show "listen_inv workers h'" "0 \<le> idx" "idx < int workers" "user_worker_dict h' user = Some idx" "sh_sess h' = sh_sess h" "handed h' = handed h"
    by simp_all
qed

lemma listen_OnClose_inv:
  assumes "listen_inv workers h" "listen_OnClose workers i h = Inr h'"
  shows "listen_inv workers h'"
proof -
  obtain s where s: "sh_sess h i = Some s" using assms(2) by (cases "sh_sess h i") (auto simp: listen_OnClose_def)
  show ?thesis
  proof (cases "detached s")
    case True
    then obtain peer where p: "user_data s = Some peer" using assms(2) s by (cases "user_data s") (auto simp: listen_OnClose_def)
    then obtain idx h1 where h1: "pick_worker workers (user_id peer) h = Inr (idx, h1)" using assms(2) s True
      by (cases "pick_worker workers (user_id peer) h") (auto simp: listen_OnClose_def)
    note inv = pick_worker_inv [OF assms(1) h1]
    let ?s = "s\<lparr>detached := False, ctx := map_option ClearFlags (ctx s)\<rparr>"
    have "at_home (user_worker_dict h1) (nat idx, i, ?s)" using inv(2,4) p by (simp add: at_home_def)
    moreover have "worker_idx h' = worker_idx h1" "user_worker_dict h' = user_worker_dict h1" "handed h' = handed h1 @ [(nat idx, i, ?s)]"
      using assms(2) s True p h1 inv(2,3) by (auto simp: listen_OnClose_def Let_def)
    ultimately show ?thesis using inv(1) by (auto simp: listen_inv_def)
  qed (use assms s in \<open>simp add: listen_OnClose_def\<close>)
qed

text \<open>No fault on the way to a worker, as long as there is one and the counter of users does not overflow.\<close>

lemma listen_OnClose_ok:
  assumes "listen_inv workers h" "0 < workers" "worker_idx h < 2 ^ 31 - 1" "sh_sess h i = Some s" "user_data s = Some peer"
  shows "\<exists>h'. listen_OnClose workers i h = Inr h'"
proof -
  have "\<exists>idx h1. pick_worker workers (user_id peer) h = Inr (idx, h1)"
    using assms(1-3) by (auto simp: pick_worker_def listen_inv_def add_int32_def Let_def split: option.split)
  then obtain idx h1 where h1: "pick_worker workers (user_id peer) h = Inr (idx, h1)" by blast
  then show ?thesis using pick_worker_inv(2,3) [OF assms(1) h1] assms(4,5) by (auto simp: listen_OnClose_def Let_def)
qed

section \<open>Silent connections\<close>

lemma shut_silent_exact:
  assumes "\<forall>i \<in> set is. m i \<noteq> None" "distinct is"
  shows "shut_silent t is m = Inr (\<lambda>i. if i \<in> set is then map_option (\<lambda>s. if t - last_actived_ts s > 15 then shut_ctx s else s) (m i) else m i)"
  using assms
proof (induction "is" arbitrary: m)
  case (Cons i "is")
  then obtain s where s: "m i = Some s" by auto
  let ?m = "if t - last_actived_ts s > 15 then m(i \<mapsto> shut_ctx s) else m"
  have "\<forall>j \<in> set is. ?m j \<noteq> None" "distinct is" using Cons.prems by auto
  from Cons.IH [OF this] show ?case using s Cons.prems(2) by (auto intro!: ext)
qed simp

text \<open>Sessions and objects of the server: every context of the set has a session, and for every session a peer and a session object is held.\<close>

definition handle_inv :: "('b, 'z) server_handle_scheme \<Rightarrow> bool" where
  "handle_inv h \<longleftrightarrow> distinct (ctx_set h) \<and> (\<forall>i \<in> set (ctx_set h). sh_sess h i \<noteq> None)"

lemma handle_inv_keeps:
  "handle_inv (TcpServerHandle :: 'b server_handle)"
  "handle_inv h \<Longrightarrow> handle_inv (connect_ctx text B t i a k h)"
  "handle_inv h \<Longrightarrow> message_arrived text B mem D i h = Inr h' \<Longrightarrow> handle_inv h'"
  "handle_inv h \<Longrightarrow> release_ctx i h = Inr h' \<Longrightarrow> handle_inv h'"
  by (auto simp: handle_inv_def TcpServerHandle_def connect_ctx_def message_arrived_def release_ctx_def handle_log_def rbind_Inr_iff distinct_removeAll
      split: option.splits if_splits)

lemma server_OnTimer_exact:
  assumes "handle_inv h" "last_timer_trigger h + 5 \<le> t"
  shows "\<exists>h'. server_OnTimer t h = Inr h' \<and> handle_inv h' \<and>
    (\<forall>i. sh_sess h' i = (if i \<in> set (ctx_set h) then map_option (\<lambda>s. if t - last_actived_ts s > 15 then shut_ctx s else s) (sh_sess h i) else sh_sess h i))"
  using assms shut_silent_exact [of "ctx_set h" "sh_sess h" t] by (auto simp: server_OnTimer_def handle_inv_def)

subsection \<open>Objects\<close>

text \<open>The server deletes the peer and the session of a context that is released, the client only the session.\<close>

lemma server_objects_return:
  "server_OnRelease i (server_OnConnect B t i a k h) = Inr h' \<Longrightarrow> sh_objs h' = sh_objs h"
  by (auto simp: server_OnRelease_def release_ctx_def server_OnConnect_def connect_ctx_def handle_log_def open_session_def updateActiveTime_def
      initBytesBuffer_def release_def rbind_Inr_iff)

lemma client_peer_leaks:
  assumes "client_OnAddCtx B cs t i a k h = Inr h1" "client_OnRelease i h1 = Inr h2"
  shows "ch_objs h2 = PeerObj i # ch_objs h"
  using assms by (auto simp: client_OnAddCtx_def client_OnRelease_def release_def rbind_Inr_iff)

section \<open>The listening event loop\<close>

text \<open>The calls that the event loop makes of the listening handle, and bytes that arrive in between.\<close>

datatype listen_event = LConnect int nat string socket | LArrive nat bytes | LMessage nat | LClose nat | LRelease nat | LTimer int

fun listen_step :: "'b buffer_ops \<Rightarrow> (nat \<Rightarrow> bool) \<Rightarrow> ('b, server_peer) dispatcher \<Rightarrow> nat \<Rightarrow> listen_event \<Rightarrow> 'b listen_handle \<Rightarrow> 'b listen_handle result" where
  "listen_step B mem D workers (LConnect t i a k) h = Inr (listen_OnConnect B t i a k h)"
| "listen_step B mem D workers (LArrive i p) h = Inr (h\<lparr>sh_sess := (sh_sess h)(i := map_option (demo_arrive p) (sh_sess h i))\<rparr>)"
| "listen_step B mem D workers (LMessage i) h = listen_OnMessage B mem D i h"
| "listen_step B mem D workers (LClose i) h = listen_OnClose workers i h"
| "listen_step B mem D workers (LRelease i) h = listen_OnRelease i h"
| "listen_step B mem D workers (LTimer t) h = listen_OnTimer t h"

fun listen_run :: "'b buffer_ops \<Rightarrow> (nat \<Rightarrow> bool) \<Rightarrow> ('b, server_peer) dispatcher \<Rightarrow> nat \<Rightarrow> listen_event list \<Rightarrow> 'b listen_handle \<Rightarrow> 'b listen_handle result" where
  "listen_run B mem D workers [] h = Inr h"
| "listen_run B mem D workers (e # es) h = rbind (listen_step B mem D workers e h) (listen_run B mem D workers es)"

definition TcpListenHandle :: "'b listen_handle" where
  "TcpListenHandle = \<lparr>sh_sess = Map.empty, ctx_set = [], last_timer_trigger = 0, sh_objs = [], sh_log = [],
     worker_idx = 0, user_worker_dict = Map.empty, handed = []\<rparr>"

lemma listen_step_inv: "listen_inv workers h \<Longrightarrow> listen_step B mem D workers e h = Inr h' \<Longrightarrow> listen_inv workers h'"
proof (cases "\<exists>i. e = LClose i")
  case False
  then show "listen_inv workers h \<Longrightarrow> listen_step B mem D workers e h = Inr h' \<Longrightarrow> listen_inv workers h'"
    by (cases e) (auto simp: listen_OnConnect_def connect_ctx_def handle_log_def listen_OnMessage_def message_arrived_def listen_OnRelease_def release_ctx_def
        listen_OnTimer_def rbind_Inr_iff listen_inv_def split: option.splits if_splits)
qed (auto dest: listen_OnClose_inv)

lemma listen_run_inv: "listen_inv workers h \<Longrightarrow> listen_run B mem D workers es h = Inr h' \<Longrightarrow> listen_inv workers h'"
  by (induction es arbitrary: h) (auto simp: rbind_Inr_iff dest: listen_step_inv)

section \<open>The numbers in the log of the client\<close>

lemma length_dec: "n < 1000 \<Longrightarrow> length (dec n) \<le> 3"
  by (subst dec.simps, subst dec.simps, subst dec.simps) auto

lemma sint_sum_number: "- 100 \<le> sint (sum_number rnd i) \<and> sint (sum_number rnd i) \<le> 100"
proof -
  have "uint (rnd (Suc i) mod 201) = uint (rnd (Suc i)) mod 201" by (simp add: uint_mod)
  then have "0 \<le> uint (rnd (Suc i) mod 201)" "uint (rnd (Suc i) mod 201) < 201" by simp_all
  moreover from this have "sint (sum_number rnd i) = uint (rnd (Suc i) mod 201) - 100"
    unfolding sum_number_def by (intro sint_of_int32) (simp add: in_int32_def)
  ultimately show ?thesis by linarith
qed

lemma sums_fit_small: "\<forall>w \<in> set ws. - 100 \<le> sint w \<and> sint w \<le> 100 \<Longrightarrow> \<bar>v\<bar> + 100 * int (length ws) \<le> 100000 \<Longrightarrow> sums_fit v ws"
proof (induction ws arbitrary: v)
  case (Cons w ws)
  then have "\<bar>v + sint w\<bar> + 100 * int (length ws) \<le> 100000" by (simp add: abs_le_iff) linarith
  moreover from this have "v + sint w \<le> 100000" "- 100000 \<le> v + sint w" by linarith+
  then have "in_int32 (v + sint w)" by (simp add: in_int32_def)
  ultimately show ?case using Cons by simp
qed simp

lemma length_number: "- 100 \<le> sint w \<and> sint w \<le> 100 \<Longrightarrow> length (deci (sint (w :: u32))) \<le> 4"
  using length_dec [of "nat (sint w)"] length_dec [of "nat (- sint w)"] by (simp add: deci_def) linarith

lemma write_range_length: "p + length xs \<le> length buf \<Longrightarrow> \<exists>b. write_range buf p xs = Inr b \<and> length b = length buf"
  by (simp add: write_range_def)

text \<open>The text fits its array for every choice of numbers.\<close>

lemma print_numbers_fits:
  assumes "\<forall>w \<in> set ws. - 100 \<le> sint w \<and> sint w \<le> 100" "p + 5 * length ws \<le> 50" "length str = 51"
  shows "\<exists>str'. print_numbers ws str p = Inr str' \<and> length str' = 51"
  using assms
proof (induction ws arbitrary: p str)
  case (Cons w ws)
  let ?t = "deci (sint w) @ '' ''"
  have l: "length ?t \<le> 5" using length_number [of w] Cons.prems(1) by simp
  have "length (take 4 ?t @ [CHR 0x00]) \<le> 5" by (simp del: take_append)
  then obtain str1 where s1: "write_range str p (take 4 ?t @ [CHR 0x00]) = Inr str1" "length str1 = 51"
    using write_range_length [of p "take 4 ?t @ [CHR 0x00]" str] Cons.prems(2,3) by (auto simp del: take_append length_append)
  then show ?case using Cons.IH [of "p + length ?t" str1] Cons.prems l by (simp add: Let_def)
qed simp

definition numbers_text :: "u32 list \<Rightarrow> string" where
  "numbers_text ws = (case print_numbers ws (replicate 51 (CHR 0x00)) 0 of Inl _ \<Rightarrow> [] | Inr str \<Rightarrow> takeWhile (\<lambda>c. c \<noteq> CHR 0x00) str)"

section \<open>A conversation\<close>

text \<open>
  What one side has sent goes to the other in the pieces that \<open>pieces\<close> makes of it, and is then decoded; what the server answers goes back.
  A conversation is the login and then one exchange per tick of the timer of the client.
\<close>

definition sent :: "('b, 'p) session \<Rightarrow> bytes" where
  "sent s = (case ctx s of None \<Rightarrow> [] | Some k \<Rightarrow> sk_out k)"

definition take_sent :: "('b, 'p) session \<Rightarrow> ('b, 'p) session" where
  "take_sent s = s\<lparr>ctx := map_option (\<lambda>k. k\<lparr>sk_out := []\<rparr>) (ctx s)\<rparr>"

type_synonym 'b both = "('b, client_peer) session \<times> ('b, server_peer) session"

definition exchange :: "'b buffer_ops \<Rightarrow> (nat \<Rightarrow> bool) \<Rightarrow> (nat \<Rightarrow> int) \<Rightarrow> u8 \<Rightarrow> (bytes \<Rightarrow> bytes list) \<Rightarrow> 'b both \<Rightarrow> (bool \<times> 'b both) result" where
  "exchange B mem now endian pieces x =
     (case x of (c, s) \<Rightarrow>
        rbind (demo_recv (handleMessage B mem (server_initDispatcher now endian True)) (pieces (sent c)) s) (\<lambda>(ok1, s).
        rbind (demo_recv (handleMessage B mem (client_initDispatcher now endian True)) (pieces (sent s)) (take_sent c)) (\<lambda>(ok2, c).
        Inr (ok1 \<and> ok2, c, take_sent s))))"

fun client_rounds :: "'b buffer_ops \<Rightarrow> (nat \<Rightarrow> bool) \<Rightarrow> (nat \<Rightarrow> int) \<Rightarrow> u8 \<Rightarrow> (bytes \<Rightarrow> bytes list) \<Rightarrow> ((u64 \<times> u32) \<times> (nat \<Rightarrow> u32)) list \<Rightarrow> 'b both \<Rightarrow>
    (bool \<times> 'b both) result" where
  "client_rounds B mem now endian pieces [] x = Inr (True, x)"
| "client_rounds B mem now endian pieces ((ts, rnd) # rounds) (c, s) =
     (case user_data c of
        None \<Rightarrow> Inl NullDeref
      | Some peer \<Rightarrow>
          rbind (onTimer True ts rnd [demo_codec endian] peer c) (\<lambda>c.
          rbind (exchange B mem now endian pieces (c, s)) (\<lambda>(ok, x).
          if \<not> ok then Inr (False, x) else client_rounds B mem now endian pieces rounds x)))"

definition conversation :: "'b buffer_ops \<Rightarrow> (nat \<Rightarrow> bool) \<Rightarrow> (nat \<Rightarrow> int) \<Rightarrow> u8 \<Rightarrow> (bytes \<Rightarrow> bytes list) \<Rightarrow> ((u64 \<times> u32) \<times> (nat \<Rightarrow> u32)) list \<Rightarrow> 'b both \<Rightarrow>
    (bool \<times> 'b both) result" where
  "conversation B mem now endian pieces rounds x =
     (case x of (c, s) \<Rightarrow>
        rbind (onConnection [demo_codec endian] ClientPeer c) (\<lambda>c.
        rbind (exchange B mem now endian pieces (c, s)) (\<lambda>(ok, x).
        if \<not> ok then Inr (False, x) else client_rounds B mem now endian pieces rounds x)))"

definition cuts_well :: "nat \<Rightarrow> (bytes \<Rightarrow> bytes list) \<Rightarrow> bool" where
  "cuts_well cap pieces \<longleftrightarrow> (\<forall>x. concat (pieces x) = x \<and> (\<forall>p \<in> set (pieces x). 88 + length p \<le> cap))"

subsection \<open>One exchange\<close>

lemma handleMessage_eq: "handleMessage B mem D = recvMessage B mem D"
  by (intro ext) (simp add: handleMessage_def)

lemma take_sent_at_rest: "at_rest content out peer s \<Longrightarrow> at_rest content [] peer (take_sent s)"
  by (auto simp: at_rest_def take_sent_def)

lemma sent_at_rest: "at_rest content out peer s \<Longrightarrow> sent s = out"
  by (auto simp: at_rest_def sent_def)

lemma take_sent_fields [simp]: "ses_log (take_sent s) = ses_log s" "addr (take_sent s) = addr s" "shut (take_sent s) = shut s"
  by (auto simp: take_sent_def shut_def split: option.split)

lemma sums_fit_end: "sums_fit v ws \<Longrightarrow> in_int32 v \<Longrightarrow> in_int32 (v + sum_list (map sint ws))"
  by (induction ws arbitrary: v) (simp_all add: add.assoc [symmetric])

lemma rsp_ok_reply: "req_ok r \<Longrightarrow> rsp_ok (reply r)"
  using sums_fit_end [of 0] by (cases r) (auto simp: in_int32_def)

lemma exchange_ok:
  assumes "receives B content mem cap" "cuts_well cap pieces" "\<forall>r \<in> set rs. req_ok r"
    "at_rest content (concat (map (req_msg (demo_codec endian)) rs)) cpeer c" "at_rest content [] speer s" "\<not> shut s" "\<not> refused speer rs"
  shows "\<exists>c' s'. exchange B mem now endian pieces (c, s) = Inr (True, c', s') \<and> at_rest content [] (fold learn (map reply rs) cpeer) c' \<and>
    at_rest content [] (fold after rs speer) s' \<and> ses_log c' = ses_log c @ map (heard_line (addr c) \<circ> reply) rs \<and> addr c' = addr c \<and>
    shut c' = shut c \<and> \<not> shut s'"
proof -
  let ?c = "demo_codec endian"
  have pieces: "concat (pieces x) = x" "\<forall>p \<in> set (pieces x). 88 + length p \<le> cap" for x using assms(2) by (auto simp: cuts_well_def)
  from server_stream [OF assms(1,3,5), of "pieces (sent c)" endian now] obtain s1 where
    s1: "demo_recv (recvMessage B mem (server_initDispatcher now endian True)) (pieces (sent c)) s = Inr (True, s1)"
       "at_rest content (concat (map (rsp_msg ?c \<circ> reply) rs)) (fold after rs speer) s1" "\<not> shut s1"
    using pieces sent_at_rest [OF assms(4)] assms(6,7) answered_all [OF assms(7)] by auto
  from client_stream [OF assms(1) _ take_sent_at_rest [OF assms(4)], of "map reply rs" "pieces (sent s1)" endian now] obtain c1 where
    c1: "demo_recv (recvMessage B mem (client_initDispatcher now endian True)) (pieces (sent s1)) (take_sent c) = Inr (True, c1)"
       "at_rest content [] (fold learn (map reply rs) cpeer) c1" "ses_log c1 = ses_log c @ map (heard_line (addr c)) (map reply rs)"
       "addr c1 = addr c" "shut c1 = shut c"
    using pieces sent_at_rest [OF s1(2)] assms(3) rsp_ok_reply by auto
  show ?thesis using s1(1) c1 take_sent_at_rest [OF s1(2)] s1(3) by (auto simp: exchange_def handleMessage_eq)
qed

subsection \<open>Login and timer of the client\<close>

lemma login_fields: "strncpy_bytes 15 ''foo'' @ [0] = text_field 16 ''foo''" "strncpy_bytes 31 ''123456'' @ [0] = text_field 32 ''123456''"
  by (simp_all add: strncpy_bytes_def text_field_def str_bytes_def numeral_eq_Suc)

lemma onConnection_effect:
  assumes "at_rest content [] peer c" "\<not> shut c"
  shows "\<exists>c'. onConnection [cd] peer c = Inr c' \<and> at_rest content (req_msg cd (Login (cp_req_id peer) ''foo'' ''123456'')) (peer\<lparr>cp_req_id := cp_req_id peer + 1\<rparr>) c' \<and>
    ses_log c' = ses_log c @ [''req login: addr='' @ addr c @ '', user_id=foo''] \<and> addr c' = addr c \<and> shut c' = shut c"
  using assms by (auto simp: onConnection_def login_fields at_rest_def shut_def send_wire log_addr_def say_log_def)

definition timer_reqs :: "u32 \<Rightarrow> (u64 \<times> u32) \<times> (nat \<Rightarrow> u32) \<Rightarrow> demo_req list" where
  "timer_reqs n r = [Ping (fst (fst r)) (snd (fst r)), ReqSum n (timer_numbers (snd r))]"

definition timer_lines :: "string \<Rightarrow> u32 \<Rightarrow> (u64 \<times> u32) \<times> (nat \<Rightarrow> u32) \<Rightarrow> string list" where
  "timer_lines a n r =
     [''send req ping: addr='' @ a @ '', sec='' @ decw (fst (fst r)) @ '', nsec='' @ pad0 9 (decw (snd (fst r))),
      ''send req sum: req_id='' @ decw n @ '', req_array=['' @ numbers_text (timer_numbers (snd r)) @ '']'']"

lemma timer_numbers_small: "length (timer_numbers rnd) \<le> 10" "\<forall>w \<in> set (timer_numbers rnd). - 100 \<le> sint w \<and> sint w \<le> 100"
proof -
  have "rnd 0 mod 10 + 1 \<le> 10" using word_mod_less_divisor [of 10 "rnd 0"] by (simp add: inc_le)
  then have "sum_len rnd \<le> 10" by (simp add: sum_len_def word_le_nat_alt)
  then show "length (timer_numbers rnd) \<le> 10" by (simp add: timer_numbers_def)
  show "\<forall>w \<in> set (timer_numbers rnd). - 100 \<le> sint w \<and> sint w \<le> 100" using sint_sum_number by (auto simp: timer_numbers_def)
qed

lemma timer_reqs_ok: "\<forall>r \<in> set (timer_reqs n x). req_ok r"
  using timer_numbers_small [of "snd x"] sums_fit_small [of "timer_numbers (snd x)" 0] by (simp add: timer_reqs_def)

lemma length_timer_numbers: "length (timer_numbers rnd) = sum_len rnd"
  by (simp add: timer_numbers_def)

lemma onTimer_effect:
  assumes "at_rest content [] peer c" "cp_logined peer" "\<not> shut c"
  shows "\<exists>c'. onTimer True ts rnd [cd] peer c = Inr c' \<and>
    at_rest content (concat (map (req_msg cd) (timer_reqs (cp_req_id peer) (ts, rnd)))) (peer\<lparr>cp_req_id := cp_req_id peer + 1\<rparr>) c' \<and>
    ses_log c' = ses_log c @ timer_lines (addr c) (cp_req_id peer) (ts, rnd) \<and> addr c' = addr c \<and> shut c' = shut c"
proof -
  obtain k where k: "ctx c = Some k" "sk_room k = None" "sk_in k = []" "sk_out k = []" "\<not> sk_shut k" using assms(1,3) by (auto simp: at_rest_def shut_def)
  let ?ws = "timer_numbers rnd"
  obtain str where str: "print_numbers ?ws (replicate 51 (CHR 0x00)) 0 = Inr str" "numbers_text ?ws = takeWhile (\<lambda>c. c \<noteq> CHR 0x00) str"
    using print_numbers_fits [OF timer_numbers_small(2), of 0 rnd "replicate 51 (CHR 0x00)"] timer_numbers_small(1) [of rnd] by (auto simp: numbers_text_def)
  have "length (concat (map bytes32 ws)) = 4 * length ws" for ws by (induction ws) simp_all
  then have "16 + 8 + 4 * sum_len rnd = 16 + length (demo_msg_req_sum m ?ws)" for m
    by (simp add: demo_msg_req_sum_def length_timer_numbers)
  then have e: "ctx s = Some k \<Longrightarrow> sk_room k = None \<Longrightarrow> \<not> sk_shut k \<Longrightarrow> sendMessage [cd] (NEW_STACK_DEMO_MSG i (demo_msg_req_sum m ?ws)) (16 + 8 + 4 * sum_len rnd) s =
      Inr (True, s\<lparr>ctx := Some (k\<lparr>sk_out := sk_out k @ wire cd i (demo_msg_req_sum m ?ws)\<rparr>)\<rparr>)" for s :: "('a, client_peer) session" and k m i
    by (metis encode_wire)
  show ?thesis using assms k str(1)
    by (auto simp: onTimer_def timer_reqs_def timer_lines_def str(2) send_wire e [simplified] log_addr_def say_log_def at_rest_def shut_def Let_def)
qed

subsection \<open>Any number of rounds\<close>

definition round_log :: "string \<Rightarrow> u32 \<Rightarrow> (u64 \<times> u32) \<times> (nat \<Rightarrow> u32) \<Rightarrow> string list" where
  "round_log a n r = timer_lines a n r @ map (heard_line a \<circ> reply) (timer_reqs n r)"

fun rounds_log :: "string \<Rightarrow> u32 \<Rightarrow> ((u64 \<times> u32) \<times> (nat \<Rightarrow> u32)) list \<Rightarrow> string list" where
  "rounds_log a n [] = []"
| "rounds_log a n (r # rs) = round_log a n r @ rounds_log a (n + 1) rs"

lemma round_ok:
  assumes "receives B content mem cap" "cuts_well cap pieces" "at_rest content [] cpeer c" "at_rest content [] speer s" "cp_logined cpeer" "is_logined speer"
    "\<not> shut c" "\<not> shut s"
  shows "\<exists>c1 c' s'. onTimer True ts rnd [demo_codec endian] cpeer c = Inr c1 \<and> exchange B mem now endian pieces (c1, s) = Inr (True, c', s') \<and>
    at_rest content [] (cpeer\<lparr>cp_req_id := cp_req_id cpeer + 1\<rparr>) c' \<and> at_rest content [] speer s' \<and>
    ses_log c' = ses_log c @ round_log (addr c) (cp_req_id cpeer) (ts, rnd) \<and> addr c' = addr c \<and> \<not> shut c' \<and> \<not> shut s'"
proof -
  let ?rs = "timer_reqs (cp_req_id cpeer) (ts, rnd)"
  from onTimer_effect [OF assms(3,5,7), of ts rnd "demo_codec endian"] obtain c1 where
    c1: "onTimer True ts rnd [demo_codec endian] cpeer c = Inr c1" "at_rest content (concat (map (req_msg (demo_codec endian)) ?rs)) (cpeer\<lparr>cp_req_id := cp_req_id cpeer + 1\<rparr>) c1"
        "ses_log c1 = ses_log c @ timer_lines (addr c) (cp_req_id cpeer) (ts, rnd)" "addr c1 = addr c" "shut c1 = shut c" by blast
  have "\<not> refused speer ?rs" using assms(6) by (simp add: timer_reqs_def)
  from exchange_ok [OF assms(1,2) timer_reqs_ok c1(2) assms(4,8) this, of now] show ?thesis using c1(1,3-5) assms(7)
    by (auto simp: round_log_def timer_reqs_def)
qed

lemma client_rounds_ok:
  assumes "receives B content mem cap" "cuts_well cap pieces" "at_rest content [] cpeer c" "at_rest content [] speer s" "cp_logined cpeer" "is_logined speer"
    "\<not> shut c" "\<not> shut s"
  shows "\<exists>c' s'. client_rounds B mem now endian pieces rounds (c, s) = Inr (True, c', s') \<and> ses_log c' = ses_log c @ rounds_log (addr c) (cp_req_id cpeer) rounds \<and>
    \<not> shut c' \<and> \<not> shut s'"
  using assms(3-)
proof (induction rounds arbitrary: c s cpeer)
  case (Cons r rounds)
  obtain ts rnd where r: "r = (ts, rnd)" by (cases r)
  have u: "user_data c = Some cpeer" using Cons.prems(1) by (simp add: at_rest_def)
  from round_ok [OF assms(1,2) Cons.prems, of ts rnd endian now] obtain c1 c2 s2 where
    x: "onTimer True ts rnd [demo_codec endian] cpeer c = Inr c1" "exchange B mem now endian pieces (c1, s) = Inr (True, c2, s2)"
       "at_rest content [] (cpeer\<lparr>cp_req_id := cp_req_id cpeer + 1\<rparr>) c2" "at_rest content [] speer s2"
       "ses_log c2 = ses_log c @ round_log (addr c) (cp_req_id cpeer) (ts, rnd)" "addr c2 = addr c" "\<not> shut c2" "\<not> shut s2" by blast
  from Cons.IH [OF x(3,4) _ _ x(7,8)] Cons.prems(3,4) x(5,6) show ?case by (simp add: r u x(1,2))
qed simp

definition fresh_socket :: "socket \<Rightarrow> bool" where
  "fresh_socket k \<longleftrightarrow> sk_in k = [] \<and> sk_out k = [] \<and> sk_room k = None \<and> \<not> sk_shut k"

lemma open_session_at_rest: "buffer_laws B content \<Longrightarrow> fresh_socket k \<Longrightarrow> at_rest content [] peer (open_session B t a peer k)"
  using buffer_lawsD(8) [of B content] by (simp add: at_rest_def fresh_socket_def open_session_def initBytesBuffer_def updateActiveTime_def)

section \<open>Theorems\<close>

text \<open>
  C7. Whatever the pieces are in which a stream of well-formed requests arrives at a server whose connection is up: the server answers every request once and in the order of the requests, with the right response, until a sum is asked for before a login. It then shuts the connection down and sends nothing any more; what still arrives, from that request on, is handled without an answer. Otherwise every request is answered and the connection stays up. In both cases the server keeps the user that logged in last and leaves no byte unread. The buffer has room for every piece beside a message, allocations succeed, and the socket takes what is sent as long as it is not shut down.
\<close>

theorem demo_server_replies:
  assumes "receives B content mem cap" "\<forall>r \<in> set rs. req_ok r" "at_rest content [] peer s"
    "concat ps = concat (map (req_msg (demo_codec endian)) rs)" "\<forall>p \<in> set ps. 88 + length p \<le> cap" "\<not> shut s"
  shows "\<exists>s'. demo_recv (handleMessage B mem (server_initDispatcher now endian True)) ps s = Inr (True, s') \<and>
    at_rest content (concat (map (rsp_msg (demo_codec endian) \<circ> reply) (answered peer rs))) (fold after rs peer) s' \<and> (shut s' \<longleftrightarrow> refused peer rs) \<and>
    (\<not> refused peer rs \<longrightarrow> answered peer rs = rs)"
  using server_stream [OF assms(1-5)] assms(6) answered_all by (simp add: handleMessage_eq)

text \<open>A buffer that meets the laws: the list of its bytes, with room for any number.\<close>

definition list_ops :: "bytes buffer_ops" where
  "list_ops = \<lparr>b_new = (\<lambda>_. []), b_WriterFc = (\<lambda>_ _. True), b_WriterMove = (@), b_Fetch = (\<lambda>b n. if nat n \<le> length b then Some (take (nat n) b) else None),
     b_Readable = (\<lambda>b. int (length b)), b_ReaderFc = (\<lambda>b n. if nat n \<le> length b then Some b else None), b_ReaderMove = (\<lambda>b n. drop (nat n) b),
     b_Read = (\<lambda>b n. (take (nat n) b, drop (nat n) b))\<rparr>"

lemma receives_list: "receives list_ops (\<lambda>b. b) (\<lambda>_. True) 1000"
  by (auto simp: receives_def buffer_laws_def roomy_def list_ops_def intro: append_take_drop_id [symmetric])

definition free_socket :: socket where
  "free_socket = \<lparr>sk_in = [], sk_out = [], sk_room = None, sk_shut = False, sk_close = False, sk_refs = 1\<rparr>"

lemma fresh_free_socket: "fresh_socket free_socket"
  by (simp add: fresh_socket_def free_socket_def)

definition bytewise :: "bytes \<Rightarrow> bytes list" where
  "bytewise = map (\<lambda>b. [b])"

lemma cuts_bytewise: "cuts_well 1000 bytewise"
proof -
  have "concat (bytewise x) = x" for x by (induction x) (simp_all add: bytewise_def)
  then show ?thesis by (auto simp: cuts_well_def bytewise_def)
qed

definition early_sum :: "demo_req list" where
  "early_sum = [Ping 5 6, ReqSum 7 [1, 2], Ping 8 9]"

theorem demo_server_replies_witness:
  "\<exists>s'. demo_recv (handleMessage list_ops (\<lambda>_. True) (server_initDispatcher (\<lambda>_. 0) 1 True))
       (bytewise (concat (map (req_msg (demo_codec 1)) early_sum))) (open_session list_ops 0 [] ServerPeer free_socket) = Inr (True, s') \<and>
     at_rest (\<lambda>b. b) (rsp_msg (demo_codec 1) (Pong 5 6)) ServerPeer s' \<and> shut s'"
proof -
  have "\<forall>r \<in> set early_sum. req_ok r" by (simp add: in_int32_def early_sum_def)
  moreover have "at_rest (\<lambda>b. b) [] ServerPeer (open_session list_ops 0 [] ServerPeer free_socket)"
    by (rule open_session_at_rest [OF _ fresh_free_socket]) (use receives_list in \<open>simp add: receives_def\<close>)
  moreover have "concat (bytewise (concat (map (req_msg (demo_codec 1)) early_sum))) = concat (map (req_msg (demo_codec 1)) early_sum)"
    "\<forall>p \<in> set (bytewise (concat (map (req_msg (demo_codec 1)) early_sum))). 88 + length p \<le> 1000" using cuts_bytewise by (auto simp: cuts_well_def)
  moreover have "\<not> shut (open_session list_ops 0 [] ServerPeer free_socket)"
    by (simp add: shut_def open_session_def updateActiveTime_def initBytesBuffer_def free_socket_def)
  moreover have "answered ServerPeer early_sum = [Ping 5 6]" "refused ServerPeer early_sum" "fold after early_sum ServerPeer = ServerPeer"
    by (simp_all add: early_sum_def ServerPeer_def)
  ultimately show ?thesis
    using demo_server_replies [OF receives_list, where rs = early_sum and now = "\<lambda>_. 0" and endian = 1] by fastforce
qed

text \<open>A header of sixteen bytes that makes the server turn without end (see \<open>parse_endless\<close>).\<close>

lemma demo_server_endless:
  assumes "bytes_buf s = Some (endless_hdr (demo_codec endian) 0)" "ctx s \<noteq> None"
  shows "parse_messages fuel list_ops mem (demo_codec endian) (dispatch (server_initDispatcher now endian True)) s = Inl Diverges"
proof (rule parse_endless [where content = "\<lambda>b. b" and r = "[]" and P = "\<lambda>s. ctx s \<noteq> None", OF _ _ _ _ _ assms])
  show "buffer_laws list_ops (\<lambda>b. b)" using receives_list by (simp add: receives_def)
  have "load32 (endless_hdr (demo_codec endian) 0) 8 = Inr 0"
    using load32_append [of "MUGGLE_DEMO_MAGIC_WORD @ [s_endianess (demo_codec endian), s_protocol_ver, 0, 0]" 8 0 "bytes32 (- 16)"]
    by (simp add: endless_hdr_def MUGGLE_DEMO_MAGIC_WORD_def)
  then show "ctx s \<noteq> None \<Longrightarrow> \<exists>s'. dispatch (server_initDispatcher now endian True) (endless_hdr (demo_codec endian) 0) s = Inr (True, s') \<and>
      bytes_buf s' = bytes_buf s \<and> ctx (s'\<lparr>bytes_buf := Some (endless_hdr (demo_codec endian) 0)\<rparr>) \<noteq> None" for s :: "(bytes, server_peer) session"
    by (auto simp: dispatch_def server_table say_log_def)
qed (simp_all add: list_ops_def)

text \<open>
  C12. A client and a server with fresh sessions, over a network that cuts what they send into any pieces: the login succeeds, and every tick of the timer of the client, any number of them with any random numbers, is answered by a pong with the time that was sent and by the sum of the numbers that were sent; neither side shuts the connection down.
\<close>

theorem demo_conversation:
  assumes "receives B content mem cap" "cuts_well cap pieces" "fresh_socket k" "fresh_socket k'"
  shows "\<exists>c s. conversation B mem now endian pieces rounds (open_session B t a ClientPeer k, open_session B t' a' ServerPeer k') = Inr (True, c, s) \<and>
    ses_log c = [''req login: addr='' @ a @ '', user_id=foo'', ''recv rsp login success''] @ rounds_log a 1 rounds \<and> \<not> shut c \<and> \<not> shut s"
proof -
  let ?c = "open_session B t a ClientPeer k" and ?s = "open_session B t' a' ServerPeer k'" and ?cd = "demo_codec endian"
  have B: "buffer_laws B content" using assms(1) by (simp add: receives_def)
  note i = open_session_at_rest [OF B assms(3)] open_session_at_rest [OF B assms(4)]
  have f: "ses_log ?c = []" "addr ?c = a" "\<not> shut ?c" "\<not> shut ?s" using assms(3,4)
    by (simp_all add: fresh_socket_def open_session_def initBytesBuffer_def updateActiveTime_def new_session_def shut_def)
  from onConnection_effect [OF i(1) f(3), of ?cd] f obtain c1 where
    c1: "onConnection [?cd] ClientPeer ?c = Inr c1" "at_rest content (concat (map (req_msg ?cd) [Login 0 ''foo'' ''123456''])) (ClientPeer\<lparr>cp_req_id := 1\<rparr>) c1"
        "ses_log c1 = [''req login: addr='' @ a @ '', user_id=foo'']" "addr c1 = a" "\<not> shut c1" by (auto simp: ClientPeer_def)
  have "\<forall>r \<in> set [Login 0 ''foo'' ''123456'']. req_ok r" by (simp add: text_ok_def)
  from exchange_ok [OF assms(1,2) this c1(2) i(2) f(4), of now] c1(3-5) f obtain c2 s2 where
    x: "exchange B mem now endian pieces (c1, ?s) = Inr (True, c2, s2)" "at_rest content [] (ClientPeer\<lparr>cp_req_id := 1, cp_logined := True\<rparr>) c2"
       "at_rest content [] (ServerPeer\<lparr>user_id := ''foo'', is_logined := True\<rparr>) s2"
       "ses_log c2 = [''req login: addr='' @ a @ '', user_id=foo'', ''recv rsp login success'']" "addr c2 = a" "\<not> shut c2" "\<not> shut s2" by fastforce
  from client_rounds_ok [OF assms(1,2) x(2,3) _ _ x(6,7), of now endian rounds] x(4-7) show ?thesis by (auto simp: conversation_def c1(1) x(1))
qed

theorem demo_conversation_witness:
  "\<exists>c s. conversation list_ops (\<lambda>_. True) (\<lambda>_. 0) 1 bytewise [((5, 6), \<lambda>_. 0)]
      (open_session list_ops 0 ''s'' ClientPeer free_socket, open_session list_ops 0 ''c'' ServerPeer free_socket) = Inr (True, c, s) \<and>
    last (ses_log c) = ''recv rsp sum: req_id=1, sum=-100''"
proof -
  have "heard_line ''s'' (SumIs 1 (sum_list (map sint (timer_numbers (\<lambda>_. 0))))) = ''recv rsp sum: req_id=1, sum=-100''" by code_simp
  then show ?thesis
  using demo_conversation [OF receives_list cuts_bytewise fresh_free_socket fresh_free_socket, where now = "\<lambda>_. 0" and endian = 1 and
      rounds = "[((5, 6), \<lambda>_. 0)]" and t = 0 and t' = 0 and a = "''s''" and a' = "''c''"]
    by (auto simp: round_log_def timer_reqs_def simp del: heard_line.simps)
qed

text \<open>
  C26. Whatever happens on the listening event loop: contexts of the same user are handed to the same worker, and that worker exists.
\<close>

theorem demo_user_affinity:
  assumes "listen_run B mem D workers es TcpListenHandle = Inr h" "(w, i, s) \<in> set (handed h)" "(w', i', s') \<in> set (handed h)"
    "map_option user_id (user_data s) = map_option user_id (user_data s')"
  shows "w = w' \<and> w < workers"
proof -
  have "listen_inv workers (TcpListenHandle :: 'a listen_handle)" by (simp add: listen_inv_def TcpListenHandle_def)
  then have inv: "listen_inv workers h" using assms(1) by (rule listen_run_inv)
  then have "at_home (user_worker_dict h) (w, i, s)" "at_home (user_worker_dict h) (w', i', s')" using assms(2,3) by (auto simp: listen_inv_def)
  moreover have "user_worker_dict h u = Some v \<Longrightarrow> v < int workers" for u v using inv by (auto simp: listen_inv_def)
  ultimately show ?thesis using assms(4) by (fastforce simp: at_home_def split: option.splits)
qed


definition two_logins :: "listen_event list" where
  "two_logins =
     (let login = req_msg (demo_codec 1) (Login 0 ''foo'' ''1'') in
      [LConnect 0 1 ''a'' free_socket, LConnect 0 2 ''b'' free_socket, LArrive 1 login, LMessage 1, LArrive 2 login, LMessage 2, LClose 1, LClose 2])"

lemma two_logins_run:
  "(case listen_run list_ops (\<lambda>_. True) (worker_initDispatcher (\<lambda>_. 0) 1 True) 2 two_logins TcpListenHandle of
      Inl _ \<Rightarrow> False | Inr h \<Rightarrow> map (\<lambda>(w, i, s). (w, i, map_option user_id (user_data s))) (handed h) = [(0, 1, Some ''foo''), (0, 2, Some ''foo'')])"
  by code_simp

theorem demo_user_affinity_witness:
  "\<exists>h w w' s s'. listen_run list_ops (\<lambda>_. True) (worker_initDispatcher (\<lambda>_. 0) 1 True) 2 two_logins TcpListenHandle = Inr h \<and>
     handed h = [(w, 1, s), (w', 2, s')] \<and> w = w' \<and> w < 2"
proof -
  obtain h where h: "listen_run list_ops (\<lambda>_. True) (worker_initDispatcher (\<lambda>_. 0) 1 True) 2 two_logins TcpListenHandle = Inr h"
      "map (\<lambda>(w, i, s). (w, i, map_option user_id (user_data s))) (handed h) = [(0, 1, Some ''foo''), (0, 2, Some ''foo'')]"
    using two_logins_run by (auto split: sum.splits)
  then obtain w s w' s' where x: "handed h = [(w, 1, s), (w', 2, s')]" "map_option user_id (user_data s) = map_option user_id (user_data s')"
    by (auto simp: map_eq_Cons_conv)
  then show ?thesis using demo_user_affinity [OF h(1), of w 1 s w' 2 s'] h(1) by auto
qed

end
