(* ===== verification/Peer.thy ===== *)
theory Peer
  imports Prelude
begin

text \<open>
  Connections of the libevent samples: src/use/c/use-libevent_2.1.8/src/common/peer.c with peer.h, and
  \<open>get_sockaddr_port\<close> of utils.c.

  A \<open>Peer\<close> owns a bufferevent and up to two timers, one for heartbeats and one for the next attempt to
  connect. The state \<open>world\<close> holds the peer, its bufferevent, all timers that are allocated (also the
  ones no pointer reaches any more) and the open sockets; an access through a pointer to a freed object
  is a fault. libevent is represented by what the code sees of it: the objects it has created, and
  \<open>outcome n\<close>, whether its \<open>n\<close>-th call that can fail succeeds. The callbacks of the application are
  numbers; the argument \<open>prog\<close> gives the calls of the peer interface that a callback makes.
  \<open>peer_event\<close> is one event of the event loop.
\<close>

section \<open>State\<close>

definition PEER_AUTO_RECONNECT :: u32 where
  "PEER_AUTO_RECONNECT = 0x01"

definition PEER_WAIT_CLOSE :: u32 where
  "PEER_WAIT_CLOSE = 0x02"

type_synonym callback = nat

record PeerCallback =
  func_read :: "callback option"
  func_write :: "callback option"
  func_event :: "callback option"
  func_heartbeat :: "callback option"
  func_close :: "callback option"

record PeerTimeout =
  last_read :: int
  last_write :: int
  in_timeout :: u16
  out_timeout :: u16

text \<open>\<open>struct timeval\<close> is the pair of seconds and microseconds.\<close>

record PeerHeartbeat =
  hb_ev :: "ptr option"
  hb_interval :: "int \<times> int"

record PeerReconn =
  rc_ev :: "ptr option"
  rc_interval :: u16
  max_increase :: u16

datatype sockaddr =
    Inet bytes u16
  | Inet6 bytes u16
  | OtherFamily nat

record PeerBaseInfo =
  local_addr :: string
  remote_addr :: string
  remote_ss :: sockaddr
  first_connect_time :: "int \<times> int"

text \<open>The members of \<open>PeerBaseEvent\<close> are the fields \<open>heartbeat\<close>, \<open>timeout\<close> and \<open>reconn\<close>.\<close>

record Peer =
  flag :: u32
  has_bev :: bool
  base_info :: PeerBaseInfo
  callbacks :: PeerCallback
  heartbeat :: PeerHeartbeat
  timeout :: PeerTimeout
  reconn :: PeerReconn

datatype timer_fn = Fn_heartbeatcb | Fn_reconncb

record timer =
  t_fn :: timer_fn
  t_persist :: bool
  t_pending :: bool

datatype conn_state = Idle | Connecting | Connected

record bufferevent =
  b_fd :: int
  b_conn :: conn_state
  b_enabled :: bool

record world =
  w_peer :: "Peer option"
  w_bev :: "bufferevent option"
  w_timers :: "ptr \<Rightarrow> timer option"
  w_next :: ptr
  w_sockets :: "int list"
  w_calls :: nat
  w_now :: "int \<times> int"
  w_ran :: "callback list"

text \<open>
  The environment: whether \<open>bufferevent_get_base\<close> gives a base, which fallible library calls succeed, the descriptors of new sockets, the addresses
  of sockets, the text of addresses (\<open>evutil_inet_ntop\<close>, \<open>evutil_parse_sockaddr_port\<close>).
\<close>

record env =
  has_base :: bool
  outcome :: "nat \<Rightarrow> bool"
  new_fd :: "nat \<Rightarrow> int"
  sockname :: "int \<Rightarrow> sockaddr"
  inet_ntop :: "bytes \<Rightarrow> string option"
  parse_sockaddr :: "string \<Rightarrow> sockaddr option"

section \<open>The library\<close>

definition tick :: "world \<Rightarrow> world" where
  "tick w = w\<lparr>w_calls := Suc (w_calls w)\<rparr>"

definition succeeds :: "env \<Rightarrow> world \<Rightarrow> bool" where
  "succeeds E w = outcome E (w_calls w)"

definition the_peer :: "world \<Rightarrow> Peer result" where
  "the_peer w = (case w_peer w of None \<Rightarrow> Inl UseAfterFree | Some p \<Rightarrow> Inr p)"

definition the_bev :: "world \<Rightarrow> bufferevent result" where
  "the_bev w = (case w_bev w of None \<Rightarrow> Inl UseAfterFree | Some b \<Rightarrow> Inr b)"

definition upd_peer :: "world \<Rightarrow> (Peer \<Rightarrow> Peer) \<Rightarrow> world result" where
  "upd_peer w f = rbind (the_peer w) (\<lambda>p. Inr (w\<lparr>w_peer := Some (f p)\<rparr>))"

definition upd_bev :: "world \<Rightarrow> (bufferevent \<Rightarrow> bufferevent) \<Rightarrow> world result" where
  "upd_bev w f = rbind (the_bev w) (\<lambda>b. Inr (w\<lparr>w_bev := Some (f b)\<rparr>))"

definition event_new :: "env \<Rightarrow> bool \<Rightarrow> timer_fn \<Rightarrow> world \<Rightarrow> ptr option \<times> world" where
  "event_new E persist f w =
     (if succeeds E w then
        (Some (w_next w), tick (w\<lparr>w_next := Suc (w_next w),
           w_timers := (w_timers w)(w_next w \<mapsto> \<lparr>t_fn = f, t_persist = persist, t_pending = False\<rparr>)\<rparr>))
      else (None, tick w))"

definition event_add :: "env \<Rightarrow> ptr \<Rightarrow> world \<Rightarrow> (bool \<times> world) result" where
  "event_add E i w =
     (case w_timers w i of
        None \<Rightarrow> Inl UseAfterFree
      | Some t \<Rightarrow>
          Inr (if succeeds E w then (True, tick (w\<lparr>w_timers := (w_timers w)(i \<mapsto> t\<lparr>t_pending := True\<rparr>)\<rparr>))
               else (False, tick w)))"

definition event_free :: "ptr \<Rightarrow> world \<Rightarrow> world result" where
  "event_free i w =
     (case w_timers w i of
        None \<Rightarrow> Inl UseAfterFree
      | Some t \<Rightarrow> Inr (w\<lparr>w_timers := (w_timers w)(i := None)\<rparr>))"

definition evutil_closesocket :: "int \<Rightarrow> world \<Rightarrow> world" where
  "evutil_closesocket fd w = w\<lparr>w_sockets := remove1 fd (w_sockets w)\<rparr>"

definition bufferevent_free :: "world \<Rightarrow> world result" where
  "bufferevent_free w =
     rbind (the_bev w) (\<lambda>b.
     Inr ((if b_fd b < 0 then w else evutil_closesocket (b_fd b) w)\<lparr>w_bev := None\<rparr>))"

text \<open>
  Connecting opens a socket if the bufferevent has none; when it fails at once, that socket is closed
  again. The first component is whether the result is not negative.
\<close>

definition bufferevent_socket_connect :: "env \<Rightarrow> world \<Rightarrow> (bool \<times> world) result" where
  "bufferevent_socket_connect E w =
     rbind (the_bev w) (\<lambda>b.
     if succeeds E w then
       if b_fd b < 0 then
         let fd = new_fd E (w_calls w)
         in Inr (True, tick (w\<lparr>w_bev := Some (b\<lparr>b_fd := fd, b_conn := Connecting\<rparr>), w_sockets := fd # w_sockets w\<rparr>))
       else Inr (True, tick (w\<lparr>w_bev := Some (b\<lparr>b_conn := Connecting\<rparr>)\<rparr>))
     else Inr (False, tick w))"

section \<open>Timers\<close>

definition peerStartReconn :: "env \<Rightarrow> world \<Rightarrow> world result" where
  "peerStartReconn E w =
     rbind (the_peer w) (\<lambda>p.
     rbind (the_bev w) (\<lambda>b.
     let fd = b_fd b; w = (if fd > 0 then evutil_closesocket fd w else w) in
     rbind (upd_bev w (\<lambda>b. b\<lparr>b_fd := -1, b_conn := Idle, b_enabled := True\<rparr>)) (\<lambda>w.
     if \<not> has_base E then Inr w
     else case event_new E False Fn_reconncb w of
       (None, w) \<Rightarrow> Inr w
     | (Some ev, w) \<Rightarrow>
         rbind (event_add E ev w) (\<lambda>(ok, w).
         if \<not> ok then event_free ev w
         else upd_peer w (\<lambda>p. p\<lparr>reconn := (reconn p)\<lparr>rc_ev := Some ev\<rparr>\<rparr>)))))"

definition peerStopReconn :: "world \<Rightarrow> world result" where
  "peerStopReconn w =
     rbind (the_peer w) (\<lambda>p.
     case rc_ev (reconn p) of
       None \<Rightarrow> Inr w
     | Some ev \<Rightarrow>
         rbind (event_free ev w) (\<lambda>w.
         upd_peer w (\<lambda>p. p\<lparr>reconn := (reconn p)\<lparr>rc_ev := None\<rparr>\<rparr>)))"

definition peerClose :: "world \<Rightarrow> world result" where
  "peerClose w = upd_peer w (\<lambda>p. p\<lparr>flag := flag p OR PEER_WAIT_CLOSE\<rparr>)"

definition peerSetReadCb :: "callback option \<Rightarrow> world \<Rightarrow> world result" where
  "peerSetReadCb f w = upd_peer w (\<lambda>p. p\<lparr>callbacks := (callbacks p)\<lparr>func_read := f\<rparr>\<rparr>)"

definition peerSetWriteCb :: "callback option \<Rightarrow> world \<Rightarrow> world result" where
  "peerSetWriteCb f w = upd_peer w (\<lambda>p. p\<lparr>callbacks := (callbacks p)\<lparr>func_write := f\<rparr>\<rparr>)"

definition peerSetEventCb :: "callback option \<Rightarrow> world \<Rightarrow> world result" where
  "peerSetEventCb f w = upd_peer w (\<lambda>p. p\<lparr>callbacks := (callbacks p)\<lparr>func_event := f\<rparr>\<rparr>)"

definition peerSetCloseCb :: "callback option \<Rightarrow> world \<Rightarrow> world result" where
  "peerSetCloseCb f w = upd_peer w (\<lambda>p. p\<lparr>callbacks := (callbacks p)\<lparr>func_close := f\<rparr>\<rparr>)"

definition peerSetCb :: "callback option \<Rightarrow> callback option \<Rightarrow> callback option \<Rightarrow> world \<Rightarrow> world result" where
  "peerSetCb readfn writefn eventfn w =
     rbind (peerSetReadCb readfn w) (\<lambda>w. rbind (peerSetWriteCb writefn w) (peerSetEventCb eventfn))"

definition peerSetTimeout :: "u16 \<Rightarrow> u16 \<Rightarrow> world \<Rightarrow> world result" where
  "peerSetTimeout i out w =
     upd_peer w (\<lambda>p. p\<lparr>timeout := (timeout p)\<lparr>in_timeout := i, out_timeout := out\<rparr>\<rparr>)"

text \<open>The result is the return value and the state. A null pointer for the interval is \<open>None\<close>.\<close>

definition peerSetHeartbeat ::
  "env \<Rightarrow> callback option \<Rightarrow> (int \<times> int) option \<Rightarrow> world \<Rightarrow> (int \<times> world) result" where
  "peerSetHeartbeat E fn time_interval w =
     rbind (the_peer w) (\<lambda>p.
     if \<not> has_bev p then Inr (-1, w)
     else
       rbind (case hb_ev (heartbeat p) of
                None \<Rightarrow> Inr w
              | Some ev \<Rightarrow>
                  rbind (event_free ev w) (\<lambda>w.
                  upd_peer w (\<lambda>p. p\<lparr>heartbeat := (heartbeat p)\<lparr>hb_ev := None\<rparr>\<rparr>))) (\<lambda>w.
       case fn of
         None \<Rightarrow> rbind (upd_peer w (\<lambda>p. p\<lparr>callbacks := (callbacks p)\<lparr>func_heartbeat := None\<rparr>\<rparr>)) (\<lambda>w. Inr (0, w))
       | Some f \<Rightarrow>
           (case time_interval of
              None \<Rightarrow> Inl NullDeref
            | Some (sec, usec) \<Rightarrow>
                if sec > 0 \<or> usec > 0 then
                  if \<not> has_base E then Inr (-2, w)
                  else (case event_new E True Fn_heartbeatcb w of
                     (None, w) \<Rightarrow> Inr (-3, w)
                   | (Some ev, w) \<Rightarrow>
                       rbind (event_add E ev w) (\<lambda>(ok, w).
                       if \<not> ok then rbind (event_free ev w) (\<lambda>w. Inr (-4, w))
                       else
                         rbind (upd_peer w (\<lambda>p. p\<lparr>heartbeat := \<lparr>hb_ev = Some ev, hb_interval = (sec, usec)\<rparr>,
                                               callbacks := (callbacks p)\<lparr>func_heartbeat := Some f\<rparr>\<rparr>)) (\<lambda>w.
                         Inr (0, w))))
                else
                  rbind (upd_peer w (\<lambda>p. p\<lparr>callbacks := (callbacks p)\<lparr>func_heartbeat := None\<rparr>\<rparr>)) (\<lambda>w.
                  Inr (0, w)))))"

definition peerSetReconn :: "u16 \<Rightarrow> u16 \<Rightarrow> world \<Rightarrow> world result" where
  "peerSetReconn interval_sec max_incre w =
     rbind (if interval_sec > 0 then upd_peer w (\<lambda>p. p\<lparr>flag := flag p OR PEER_AUTO_RECONNECT\<rparr>)
            else
              rbind (upd_peer w (\<lambda>p. p\<lparr>flag := flag p AND NOT PEER_AUTO_RECONNECT\<rparr>)) peerStopReconn) (\<lambda>w.
     upd_peer w (\<lambda>p. p\<lparr>reconn := (reconn p)\<lparr>rc_interval := interval_sec, max_increase := max_incre\<rparr>\<rparr>))"

section \<open>Callbacks\<close>

text \<open>
  What a callback of the application does with its peer: calls of the interface, among them \<open>peerFree\<close>;
  \<open>Call_bufferevent\<close> reads from or writes to the bufferevent of the peer. \<open>peerFree\<close> runs the close callback, which may
  call \<open>peerFree\<close> itself; the fuel bounds this nesting.
\<close>

datatype peer_call =
    Call_peerClose
  | Call_peerSetReadCb "callback option"
  | Call_peerSetWriteCb "callback option"
  | Call_peerSetEventCb "callback option"
  | Call_peerSetCloseCb "callback option"
  | Call_peerSetTimeout u16 u16
  | Call_peerSetHeartbeat "callback option" "(int \<times> int) option"
  | Call_peerSetReconn u16 u16
  | Call_bufferevent

datatype peer_action = Api peer_call | Call_peerFree

type_synonym prog = "callback \<Rightarrow> u16 \<Rightarrow> peer_action list"

fun peer_api :: "env \<Rightarrow> peer_call \<Rightarrow> world \<Rightarrow> world result" where
  "peer_api E Call_peerClose w = peerClose w"
| "peer_api E (Call_peerSetReadCb f) w = peerSetReadCb f w"
| "peer_api E (Call_peerSetWriteCb f) w = peerSetWriteCb f w"
| "peer_api E (Call_peerSetEventCb f) w = peerSetEventCb f w"
| "peer_api E (Call_peerSetCloseCb f) w = peerSetCloseCb f w"
| "peer_api E (Call_peerSetTimeout i out) w = peerSetTimeout i out w"
| "peer_api E (Call_peerSetHeartbeat f t) w = rbind (peerSetHeartbeat E f t w) (\<lambda>(ret, w). Inr w)"
| "peer_api E (Call_peerSetReconn i k) w = peerSetReconn i k w"
| "peer_api E Call_bufferevent w = rbind (the_peer w) (\<lambda>p. rbind (the_bev w) (\<lambda>b. Inr w))"

fun peerFree :: "nat \<Rightarrow> env \<Rightarrow> prog \<Rightarrow> world \<Rightarrow> world result"
  and run_calls :: "nat \<Rightarrow> env \<Rightarrow> prog \<Rightarrow> peer_action list \<Rightarrow> world \<Rightarrow> world result" where
  "peerFree 0 E prog w = Inl Diverges"
| "peerFree (Suc fuel) E prog w =
     rbind (the_peer w) (\<lambda>p.
     rbind (case func_close (callbacks p) of
              None \<Rightarrow> Inr w
            | Some f \<Rightarrow> run_calls fuel E prog (prog f 0) (w\<lparr>w_ran := w_ran w @ [f]\<rparr>)) (\<lambda>w.
     rbind (peerSetTimeout 0 0 w) (\<lambda>w.
     rbind (peerSetHeartbeat E None None w) (\<lambda>(_, w).
     rbind (peerSetReconn 0 0 w) (\<lambda>w.
     rbind (the_peer w) (\<lambda>p.
     rbind (if has_bev p then
              rbind (bufferevent_free w) (\<lambda>w. upd_peer w (\<lambda>p. p\<lparr>has_bev := False\<rparr>))
            else Inr w) (\<lambda>w.
     rbind (the_peer w) (\<lambda>p. Inr (w\<lparr>w_peer := None\<rparr>)))))))))"
| "run_calls fuel E prog [] w = Inr w"
| "run_calls fuel E prog (c # cs) w =
     rbind (case c of Api call \<Rightarrow> peer_api E call w | Call_peerFree \<Rightarrow> peerFree fuel E prog w)
       (run_calls fuel E prog cs)"

definition run_callback :: "nat \<Rightarrow> env \<Rightarrow> prog \<Rightarrow> callback option \<Rightarrow> u16 \<Rightarrow> world \<Rightarrow> world result" where
  "run_callback fuel E prog f events w =
     (case f of
        None \<Rightarrow> Inr w
      | Some f \<Rightarrow> run_calls fuel E prog (prog f events) (w\<lparr>w_ran := w_ran w @ [f]\<rparr>))"

definition free_if_closing :: "nat \<Rightarrow> env \<Rightarrow> prog \<Rightarrow> world \<Rightarrow> world result" where
  "free_if_closing fuel E prog w =
     rbind (the_peer w) (\<lambda>p. if flag p AND PEER_WAIT_CLOSE \<noteq> 0 then peerFree fuel E prog w else Inr w)"

text \<open>
  The callbacks that \<open>peer.c\<close> registers. The comparison of the bufferevent with that of the peer is
  \<open>has_bev\<close>; the time of the loop is \<open>w_now\<close>.
\<close>

definition check_bev :: "world \<Rightarrow> Peer result" where
  "check_bev w = rbind (the_peer w) (\<lambda>p. if has_bev p then Inr p else Inl AssertFailed)"

definition readcb :: "nat \<Rightarrow> env \<Rightarrow> prog \<Rightarrow> world \<Rightarrow> world result" where
  "readcb fuel E prog w =
     rbind (check_bev w) (\<lambda>p.
     rbind (run_callback fuel E prog (func_read (callbacks p)) 0 w) (\<lambda>w.
     rbind (the_bev w) (\<lambda>b.
     rbind (upd_peer w (\<lambda>p. p\<lparr>timeout := (timeout p)\<lparr>last_read := fst (w_now w)\<rparr>\<rparr>))
       (free_if_closing fuel E prog))))"

definition writecb :: "nat \<Rightarrow> env \<Rightarrow> prog \<Rightarrow> world \<Rightarrow> world result" where
  "writecb fuel E prog w =
     rbind (check_bev w) (\<lambda>p.
     rbind (run_callback fuel E prog (func_write (callbacks p)) 0 w) (\<lambda>w.
     rbind (the_bev w) (\<lambda>b.
     rbind (upd_peer w (\<lambda>p. p\<lparr>timeout := (timeout p)\<lparr>last_write := fst (w_now w)\<rparr>\<rparr>))
       (free_if_closing fuel E prog))))"

definition BEV_EVENT_EOF :: u16 where "BEV_EVENT_EOF = 0x10"
definition BEV_EVENT_ERROR :: u16 where "BEV_EVENT_ERROR = 0x20"
definition BEV_EVENT_TIMEOUT :: u16 where "BEV_EVENT_TIMEOUT = 0x40"
definition BEV_EVENT_CONNECTED :: u16 where "BEV_EVENT_CONNECTED = 0x80"

definition eventcb :: "nat \<Rightarrow> env \<Rightarrow> prog \<Rightarrow> u16 \<Rightarrow> world \<Rightarrow> world result" where
  "eventcb fuel E prog events w =
     rbind (check_bev w) (\<lambda>p.
     rbind (if events AND BEV_EVENT_CONNECTED \<noteq> 0 then peerStopReconn w else Inr w) (\<lambda>w.
     rbind (the_peer w) (\<lambda>p.
     rbind (run_callback fuel E prog (func_event (callbacks p)) events w) (\<lambda>w.
     if events AND BEV_EVENT_ERROR \<noteq> 0 \<or> events AND BEV_EVENT_EOF \<noteq> 0 then
       rbind (the_peer w) (\<lambda>p.
       if flag p AND PEER_AUTO_RECONNECT \<noteq> 0 then peerStartReconn E w else peerFree fuel E prog w)
     else Inr w))))"

definition heartbeatcb :: "nat \<Rightarrow> env \<Rightarrow> prog \<Rightarrow> u16 \<Rightarrow> world \<Rightarrow> world result" where
  "heartbeatcb fuel E prog events w =
     rbind (the_peer w) (\<lambda>p.
     rbind (run_callback fuel E prog (func_heartbeat (callbacks p)) events w)
       (free_if_closing fuel E prog))"

definition reconncb :: "env \<Rightarrow> world \<Rightarrow> world result" where
  "reconncb E w =
     rbind (the_peer w) (\<lambda>p.
     if has_bev p then rbind (bufferevent_socket_connect E w) (\<lambda>(_, w). Inr w) else Inl NullDeref)"

section \<open>Creation\<close>

definition get_sockaddr_port :: "env \<Rightarrow> sockaddr \<Rightarrow> nat \<Rightarrow> string" where
  "get_sockaddr_port E sa outlen = strncpy_buf outlen
     (case sa of
        Inet addr port \<Rightarrow>
          (case inet_ntop E addr of
             Some b \<Rightarrow> b @ '':'' @ decw (ntohs port)
           | None \<Rightarrow> ''<addr with socktype '' @ dec 2 @ ''>'')
      | Inet6 addr port \<Rightarrow>
          (case inet_ntop E addr of
             Some b \<Rightarrow> ''['' @ b @ '']:'' @ decw (ntohs port)
           | None \<Rightarrow> ''<addr with socktype '' @ dec 10 @ ''>'')
      | OtherFamily n \<Rightarrow> ''<addr with socktype '' @ dec n @ ''>'')"

definition new_peer :: "string \<Rightarrow> string \<Rightarrow> sockaddr \<Rightarrow> int \<times> int \<Rightarrow> Peer" where
  "new_peer loc remote ss now =
     \<lparr>flag = 0, has_bev = True,
      base_info = \<lparr>local_addr = loc, remote_addr = remote, remote_ss = ss, first_connect_time = now\<rparr>,
      callbacks = \<lparr>func_read = None, func_write = None, func_event = None, func_heartbeat = None, func_close = None\<rparr>,
      heartbeat = \<lparr>hb_ev = None, hb_interval = (0, 0)\<rparr>,
      timeout = \<lparr>last_read = 0, last_write = 0, in_timeout = 0, out_timeout = 0\<rparr>,
      reconn = \<lparr>rc_ev = None, rc_interval = 0, max_increase = 0\<rparr>\<rparr>"

text \<open>
  The result says whether a peer was returned. Both functions start in a world without a peer.
  The allocation of the peer and \<open>bufferevent_socket_new\<close> are fallible calls.
\<close>

definition peerConnectTo :: "env \<Rightarrow> string \<Rightarrow> world \<Rightarrow> (bool \<times> world) result" where
  "peerConnectTo E addr w =
     (case parse_sockaddr E addr of
        None \<Rightarrow> Inr (False, w)
      | Some ss \<Rightarrow>
          if \<not> succeeds E w then Inr (False, tick w)
          else
            rbind (bufferevent_socket_connect E
                     (tick w\<lparr>w_bev := Some \<lparr>b_fd = -1, b_conn = Idle, b_enabled = False\<rparr>\<rparr>)) (\<lambda>(ok, w).
            if \<not> ok then rbind (bufferevent_free w) (\<lambda>w. Inr (False, w))
            else if \<not> succeeds E w then rbind (bufferevent_free (tick w)) (\<lambda>w. Inr (False, w))
            else
              rbind (upd_bev (tick w) (\<lambda>b. b\<lparr>b_enabled := True\<rparr>)) (\<lambda>w.
              rbind (the_bev w) (\<lambda>b.
              Inr (True, w\<lparr>w_peer := Some (new_peer (get_sockaddr_port E (sockname E (b_fd b)) 128)
                                           (strncpy_buf 128 addr) ss (w_now w))\<rparr>)))))"

text \<open>
  When \<open>bufferevent_socket_new\<close> fails, \<open>peerConnectIn\<close> hands the null pointer to \<open>bufferevent_free\<close>.
  The socket \<open>fd\<close> is open before the call.
\<close>

definition peerConnectIn :: "env \<Rightarrow> int \<Rightarrow> sockaddr \<Rightarrow> world \<Rightarrow> (bool \<times> world) result" where
  "peerConnectIn E fd ss w =
     (if \<not> succeeds E w then Inr (False, tick w)
      else
        let w = tick w in
        if \<not> succeeds E w then Inl NullDeref
        else
          Inr (True, tick w\<lparr>w_bev := Some \<lparr>b_fd = fd, b_conn = Connected, b_enabled = True\<rparr>,
                     w_peer := Some (new_peer (get_sockaddr_port E (sockname E fd) 128)
                                      (get_sockaddr_port E ss 128) ss (w_now w))\<rparr>))"

section \<open>Events\<close>

text \<open>The calls an application may make: a heartbeat callback needs an interval.\<close>

fun call_ok :: "peer_call \<Rightarrow> bool" where
  "call_ok (Call_peerSetHeartbeat (Some f) None) = False"
| "call_ok _ = True"

fun action_ok :: "peer_action \<Rightarrow> bool" where
  "action_ok (Api call) = call_ok call"
| "action_ok Call_peerFree = True"

text \<open>
  One event of the loop. A connection attempt succeeds or fails, a connection delivers data, can be
  written to or ends, a timer that is pending runs out. \<open>nested\<close> is the fuel of
  \<open>peerFree\<close>. Between events the application calls the interface of a peer that it has not freed.
\<close>

inductive peer_event :: "env \<Rightarrow> prog \<Rightarrow> nat \<Rightarrow> world \<Rightarrow> world result \<Rightarrow> bool" for E prog nested where
  on_read: "w_bev w = Some b \<Longrightarrow> b_conn b = Connected \<Longrightarrow> peer_event E prog nested w (readcb nested E prog w)"
| on_write: "w_bev w = Some b \<Longrightarrow> b_conn b = Connected \<Longrightarrow> peer_event E prog nested w (writecb nested E prog w)"
| on_connected: "w_bev w = Some b \<Longrightarrow> b_conn b = Connecting \<Longrightarrow>
    peer_event E prog nested w (eventcb nested E prog BEV_EVENT_CONNECTED (w\<lparr>w_bev := Some (b\<lparr>b_conn := Connected\<rparr>)\<rparr>))"
| on_failure: "w_bev w = Some b \<Longrightarrow> b_conn b \<noteq> Idle \<Longrightarrow> events AND BEV_EVENT_CONNECTED = 0 \<Longrightarrow>
    peer_event E prog nested w (eventcb nested E prog events w)"
| on_heartbeat: "w_timers w i = Some t \<Longrightarrow> t_pending t \<Longrightarrow> t_fn t = Fn_heartbeatcb \<Longrightarrow>
    peer_event E prog nested w (heartbeatcb nested E prog events (w\<lparr>w_timers := (w_timers w)(i \<mapsto> t\<lparr>t_pending := t_persist t\<rparr>)\<rparr>))"
| on_reconn: "w_timers w i = Some t \<Longrightarrow> t_pending t \<Longrightarrow> t_fn t = Fn_reconncb \<Longrightarrow>
    peer_event E prog nested w (reconncb E (w\<lparr>w_timers := (w_timers w)(i \<mapsto> t\<lparr>t_pending := t_persist t\<rparr>)\<rparr>))"
| on_time: "peer_event E prog nested w (Inr (w\<lparr>w_now := now\<rparr>))"

inductive peer_step :: "env \<Rightarrow> prog \<Rightarrow> nat \<Rightarrow> world \<Rightarrow> world result \<Rightarrow> bool" for E prog nested where
  on_event: "peer_event E prog nested w r \<Longrightarrow> peer_step E prog nested w r"
| on_call: "w_peer w \<noteq> None \<Longrightarrow> action_ok call \<Longrightarrow>
    peer_step E prog nested w (run_calls nested E prog [call] w)"

definition no_world :: "int list \<Rightarrow> int \<times> int \<Rightarrow> world" where
  "no_world fds now = \<lparr>w_peer = None, w_bev = None, w_timers = Map.empty, w_next = 0, w_sockets = fds,
     w_calls = 0, w_now = now, w_ran = []\<rparr>"

inductive peer_reach :: "env \<Rightarrow> prog \<Rightarrow> nat \<Rightarrow> world \<Rightarrow> bool" for E prog nested where
  connect_to: "peerConnectTo E addr (no_world [] now) = Inr (True, w) \<Longrightarrow> peer_reach E prog nested w"
| connect_in: "0 < fd \<Longrightarrow> peerConnectIn E fd ss (no_world [fd] now) = Inr (True, w) \<Longrightarrow> peer_reach E prog nested w"
| step: "peer_reach E prog nested w \<Longrightarrow> peer_step E prog nested w (Inr w') \<Longrightarrow> peer_reach E prog nested w'"

section \<open>The invariant\<close>

text \<open>
  Timers that are pending are reached from the peer, and a pending attempt to reconnect means that
  the bufferevent has no socket. Allocated timers that are not pending may be unreachable.
\<close>

definition timers_ok :: "Peer \<Rightarrow> bufferevent \<Rightarrow> world \<Rightarrow> bool" where
  "timers_ok p b w \<longleftrightarrow>
     (\<forall>i t. w_timers w i = Some t \<longrightarrow> i < w_next w) \<and>
     (\<forall>i. hb_ev (heartbeat p) = Some i \<longrightarrow> (\<exists>t. w_timers w i = Some t \<and> t_fn t = Fn_heartbeatcb \<and> t_persist t)) \<and>
     (\<forall>i. rc_ev (reconn p) = Some i \<longrightarrow> (\<exists>t. w_timers w i = Some t \<and> t_fn t = Fn_reconncb \<and> \<not> t_persist t)) \<and>
     (\<forall>i t. w_timers w i = Some t \<longrightarrow> t_pending t \<longrightarrow>
        (if t_fn t = Fn_heartbeatcb then hb_ev (heartbeat p) = Some i
         else rc_ev (reconn p) = Some i \<and> b_conn b = Idle))"

definition bev_ok :: "bufferevent \<Rightarrow> world \<Rightarrow> bool" where
  "bev_ok b w \<longleftrightarrow>
     (if b_conn b = Idle then b_fd b = -1 \<and> w_sockets w = [] else 0 < b_fd b \<and> w_sockets w = [b_fd b])"

definition alive :: "world \<Rightarrow> bool" where
  "alive w \<longleftrightarrow> (\<exists>p b. w_peer w = Some p \<and> w_bev w = Some b \<and> has_bev p \<and> bev_ok b w \<and> timers_ok p b w)"

definition released :: "world \<Rightarrow> bool" where
  "released w \<longleftrightarrow> w_peer w = None \<and> w_bev w = None \<and> w_sockets w = [] \<and>
     (\<forall>i t. w_timers w i = Some t \<longrightarrow> \<not> t_pending t)"

definition safe_run :: "bufferevent \<Rightarrow> world result \<Rightarrow> bool" where
  "safe_run b m \<longleftrightarrow> (\<exists>w. m = Inr w \<and> alive w \<and> w_bev w = Some b)"

lemma ok_update [simp]:
  "timers_ok p b (w\<lparr>w_peer := x\<rparr>) = timers_ok p b w" "timers_ok p b (w\<lparr>w_bev := y\<rparr>) = timers_ok p b w"
  "timers_ok p b (w\<lparr>w_calls := n\<rparr>) = timers_ok p b w" "timers_ok p b (w\<lparr>w_sockets := fds\<rparr>) = timers_ok p b w"
  "timers_ok p b (w\<lparr>w_ran := l\<rparr>) = timers_ok p b w" "timers_ok p b (w\<lparr>w_now := now\<rparr>) = timers_ok p b w"
  "bev_ok b (w\<lparr>w_peer := x\<rparr>) = bev_ok b w" "bev_ok b (w\<lparr>w_bev := y\<rparr>) = bev_ok b w"
  "bev_ok b (w\<lparr>w_calls := n\<rparr>) = bev_ok b w" "bev_ok b (w\<lparr>w_timers := ts\<rparr>) = bev_ok b w"
  "bev_ok b (w\<lparr>w_next := k\<rparr>) = bev_ok b w" "bev_ok b (w\<lparr>w_ran := l\<rparr>) = bev_ok b w"
  "bev_ok b (w\<lparr>w_now := now\<rparr>) = bev_ok b w"
  by (simp_all add: timers_ok_def bev_ok_def)

lemma alive_iff:
  "w_peer w = Some p \<Longrightarrow> w_bev w = Some b \<Longrightarrow> alive w \<longleftrightarrow> has_bev p \<and> bev_ok b w \<and> timers_ok p b w"
  by (simp add: alive_def)

lemma rbind_Inr_right [simp]: "rbind m Inr = m"
  by (cases m) simp_all

lemma safe_run_Inr [simp]: "safe_run b (Inr w) \<longleftrightarrow> alive w \<and> w_bev w = Some b"
  by (simp add: safe_run_def)

lemma safe_run_rbind:
  assumes "safe_run b m" "\<And>w. alive w \<Longrightarrow> w_bev w = Some b \<Longrightarrow> safe_run b (f w)"
  shows "safe_run b (rbind m f)"
  using assms by (auto simp: safe_run_def)

text \<open>The operations that leave a live peer alive and its connection as it is.\<close>

locale peer_operation =
  fixes operation :: "world \<Rightarrow> world result"
  assumes keeps: "alive w \<Longrightarrow> w_bev w = Some b \<Longrightarrow> safe_run b (operation w)"
begin

lemma then_keeps:
  assumes "\<And>w b. alive w \<Longrightarrow> w_bev w = Some b \<Longrightarrow> safe_run b (g w)" "alive w" "w_bev w = Some b"
  shows "safe_run b (rbind (operation w) g)"
  by (rule safe_run_rbind [OF keeps [OF assms(2,3)]]) (rule assms(1))

lemma no_fault: "alive w \<Longrightarrow> \<exists>w'. operation w = Inr w' \<and> alive w' \<and> w_bev w' = w_bev w"
  using keeps [of w] by (force simp: safe_run_def alive_def)

end

lemma upd_peer_keeps:
  assumes "alive w" "w_bev w = Some b"
    and "\<And>p. has_bev (f p) = has_bev p" "\<And>p. hb_ev (heartbeat (f p)) = hb_ev (heartbeat p)"
      "\<And>p. rc_ev (reconn (f p)) = rc_ev (reconn p)"
  shows "safe_run b (upd_peer w f)"
  using assms by (auto simp: alive_def upd_peer_def the_peer_def timers_ok_def bev_ok_def)

interpretation pc: peer_operation peerClose
  by unfold_locales (simp add: peerClose_def upd_peer_keeps)

interpretation prd: peer_operation "peerSetReadCb f" for f
  by unfold_locales (simp add: peerSetReadCb_def upd_peer_keeps)

interpretation pwr: peer_operation "peerSetWriteCb f" for f
  by unfold_locales (simp add: peerSetWriteCb_def upd_peer_keeps)

interpretation pev: peer_operation "peerSetEventCb f" for f
  by unfold_locales (simp add: peerSetEventCb_def upd_peer_keeps)

interpretation pcl: peer_operation "peerSetCloseCb f" for f
  by unfold_locales (simp add: peerSetCloseCb_def upd_peer_keeps)

interpretation pto: peer_operation "peerSetTimeout i out" for i out
  by unfold_locales (simp add: peerSetTimeout_def upd_peer_keeps)

interpretation pst: peer_operation peerStopReconn
proof unfold_locales
  fix w b assume "alive w" "w_bev w = Some b"
  then show "safe_run b (peerStopReconn w)"
    by (auto simp: alive_def peerStopReconn_def the_peer_def event_free_def upd_peer_def timers_ok_def bev_ok_def
        split: option.splits)
qed

interpretation prc: peer_operation "peerSetReconn i k" for i k
  by unfold_locales (auto simp: peerSetReconn_def intro!: safe_run_rbind upd_peer_keeps pst.keeps)

lemma drop_heartbeat_keeps:
  assumes "alive w" "w_bev w = Some b" "w_peer w = Some p" "hb_ev (heartbeat p) = Some ev"
  shows "\<exists>w'. rbind (event_free ev w) (\<lambda>w. upd_peer w (\<lambda>p. p\<lparr>heartbeat := (heartbeat p)\<lparr>hb_ev := None\<rparr>\<rparr>)) = Inr w' \<and>
    alive w' \<and> w_bev w' = Some b \<and> w_peer w' = Some (p\<lparr>heartbeat := (heartbeat p)\<lparr>hb_ev := None\<rparr>\<rparr>)"
proof -
  let ?p = "p\<lparr>heartbeat := (heartbeat p)\<lparr>hb_ev := None\<rparr>\<rparr>"
  have ok: "has_bev p" "bev_ok b w" "timers_ok p b w" using assms(1) alive_iff [OF assms(3,2)] by blast+
  obtain t where t: "w_timers w ev = Some t" "t_fn t = Fn_heartbeatcb"
    using ok(3) assms(4) by (auto simp: timers_ok_def)
  let ?w = "w\<lparr>w_timers := (w_timers w)(ev := None), w_peer := Some ?p\<rparr>"
  have "timers_ok ?p b ?w" using ok(3) t assms(4) unfolding timers_ok_def by (auto split: if_splits)
  then have "alive ?w" using ok assms(2) by (simp add: alive_iff bev_ok_def)
  then show ?thesis using t assms by (simp add: event_free_def upd_peer_def the_peer_def)
qed

text \<open>Adding a timer: when both calls succeed it is new and pending, otherwise nothing has changed.\<close>

lemma next_timer_free: "timers_ok p b w \<Longrightarrow> w_timers w (w_next w) = None"
  by (cases "w_timers w (w_next w)") (auto simp: timers_ok_def)

lemma fresh_timer:
  assumes "alive w" "w_bev w = Some b" "w_peer w = Some p"
  shows "event_new E persist f w = (None, tick w) \<or>
    (\<exists>w'. event_new E persist f w = (Some (w_next w), w') \<and>
       (event_add E (w_next w) w' = Inr (False, tick w') \<and>
          (\<exists>w''. event_free (w_next w) (tick w') = Inr w'' \<and> alive w'' \<and> w_bev w'' = Some b \<and> w_peer w'' = Some p) \<or>
        event_add E (w_next w) w' = Inr (True, w\<lparr>w_calls := Suc (Suc (w_calls w)), w_next := Suc (w_next w),
          w_timers := (w_timers w)(w_next w \<mapsto> \<lparr>t_fn = f, t_persist = persist, t_pending = True\<rparr>)\<rparr>)))"
proof -
  have "w_timers w (w_next w) = None"
    using assms(1) next_timer_free by (auto simp: alive_def)
  then have same: "(w_timers w)(w_next w := None) = w_timers w" by (simp add: fun_upd_idem_iff)
  have "alive (w\<lparr>w_next := Suc (w_next w), w_calls := n\<rparr>)" for n
    using assms by (fastforce simp: alive_def timers_ok_def bev_ok_def intro: less_SucI)
  then show ?thesis using assms same
    by (auto simp: event_new_def event_add_def event_free_def tick_def)
qed

lemma alive_tick: "alive (tick w) \<longleftrightarrow> alive w" "w_bev (tick w) = w_bev w" "w_peer (tick w) = w_peer w"
  by (auto simp: alive_def tick_def timers_ok_def bev_ok_def)

interpretation phb: peer_operation "\<lambda>w. rbind (peerSetHeartbeat E f (Some t) w) (\<lambda>(ret, w). Inr w)" for E f t
proof unfold_locales
  fix w b assume w: "alive w" "w_bev w = Some b"
  obtain p where p: "w_peer w = Some p" "has_bev p" using w(1) by (auto simp: alive_def)
  let ?drop = "case hb_ev (heartbeat p) of None \<Rightarrow> Inr w
    | Some ev \<Rightarrow> rbind (event_free ev w) (\<lambda>w. upd_peer w (\<lambda>p. p\<lparr>heartbeat := (heartbeat p)\<lparr>hb_ev := None\<rparr>\<rparr>))"
  obtain w' p' where w': "?drop = Inr w'" "alive w'" "w_bev w' = Some b" "w_peer w' = Some p'" "hb_ev (heartbeat p') = None"
    using drop_heartbeat_keeps [OF w p(1)] w p by (cases "hb_ev (heartbeat p)") auto
  have clear: "safe_run b (upd_peer w' (\<lambda>p. p\<lparr>callbacks := (callbacks p)\<lparr>func_heartbeat := None\<rparr>\<rparr>))"
    by (rule upd_peer_keeps [OF w'(2,3)]) simp_all
  let ?w = "w'\<lparr>w_calls := Suc (Suc (w_calls w')), w_next := Suc (w_next w'),
    w_timers := (w_timers w')(w_next w' \<mapsto> \<lparr>t_fn = Fn_heartbeatcb, t_persist = True, t_pending = True\<rparr>)\<rparr>"
  have ok: "has_bev p'" "bev_ok b w'" "timers_ok p' b w'" using w'(2) alive_iff [OF w'(4,3)] by blast+
  have set: "safe_run b (upd_peer ?w (\<lambda>p. p\<lparr>heartbeat := \<lparr>hb_ev = Some (w_next w'), hb_interval = t\<rparr>,
      callbacks := (callbacks p)\<lparr>func_heartbeat := Some g\<rparr>\<rparr>))" for g
  proof -
    have "timers_ok (p'\<lparr>heartbeat := \<lparr>hb_ev = Some (w_next w'), hb_interval = t\<rparr>,
      callbacks := (callbacks p')\<lparr>func_heartbeat := Some g\<rparr>\<rparr>) b ?w"
      using ok(3) w'(5) next_timer_free [OF ok(3)] unfolding timers_ok_def
      by (auto split: if_splits intro: less_SucI)
    then show ?thesis using ok w'(3,4) by (simp add: upd_peer_def the_peer_def alive_iff)
  qed
  show "safe_run b (rbind (peerSetHeartbeat E f (Some t) w) (\<lambda>(ret, w). Inr w))"
    using fresh_timer [OF w'(2,3,4), of E True Fn_heartbeatcb] clear set w'
    unfolding peerSetHeartbeat_def
    by (auto simp: the_peer_def p rbind_assoc alive_tick split: option.splits prod.splits)
qed

text \<open>The connection is given up: the socket is closed, and with success of the library the timer runs.\<close>

lemma peerStartReconn_keeps:
  assumes "alive w" "w_bev w = Some b" "b_conn b \<noteq> Idle"
  shows "safe_run (b\<lparr>b_fd := -1, b_conn := Idle, b_enabled := True\<rparr>) (peerStartReconn E w)"
proof -
  let ?b = "b\<lparr>b_fd := -1, b_conn := Idle, b_enabled := True\<rparr>"
  obtain p where p: "w_peer w = Some p" using assms(1) by (auto simp: alive_def)
  then have ok: "has_bev p" "bev_ok b w" "timers_ok p b w" using assms alive_iff [OF p] by blast+
  then have fd: "0 < b_fd b" "w_sockets w = [b_fd b]" using assms(3) by (simp_all add: bev_ok_def)
  define w' where "w' = w\<lparr>w_sockets := [], w_bev := Some ?b\<rparr>"
  have not_pending: "w_timers w i = Some t \<Longrightarrow> t_fn t \<noteq> Fn_heartbeatcb \<Longrightarrow> \<not> t_pending t" for i t
  proof -
    assume t: "w_timers w i = Some t" "t_fn t \<noteq> Fn_heartbeatcb"
    have "\<forall>i t. w_timers w i = Some t \<longrightarrow> t_pending t \<longrightarrow> t_fn t \<noteq> Fn_heartbeatcb \<longrightarrow> b_conn b = Idle"
      using ok(3) unfolding timers_ok_def by presburger
    then show ?thesis using t assms(3) by auto
  qed
  have ok': "timers_ok p ?b w'" "bev_ok ?b w'" "w_bev w' = Some ?b" "w_peer w' = Some p"
    using ok(3) p assms(3) by (auto simp: timers_ok_def w'_def bev_ok_def split: if_splits)
  then have alive': "alive w'" using ok(1) by (simp add: alive_iff)
  let ?w = "w'\<lparr>w_calls := Suc (Suc (w_calls w')), w_next := Suc (w_next w'),
    w_timers := (w_timers w')(w_next w' \<mapsto> \<lparr>t_fn = Fn_reconncb, t_persist = False, t_pending = True\<rparr>)\<rparr>"
  have "timers_ok (p\<lparr>reconn := (reconn p)\<lparr>rc_ev := Some (w_next w')\<rparr>\<rparr>) ?b ?w"
    using ok'(1) next_timer_free [OF ok'(1)] not_pending unfolding timers_ok_def w'_def
    by (auto split: if_splits intro: less_SucI)
  then have "safe_run ?b (upd_peer ?w (\<lambda>p. p\<lparr>reconn := (reconn p)\<lparr>rc_ev := Some (w_next w')\<rparr>\<rparr>))"
    using ok(1) ok'(2-4) by (simp add: upd_peer_def the_peer_def alive_iff)
  moreover have "upd_bev (evutil_closesocket (b_fd b) w) (\<lambda>b. b\<lparr>b_fd := -1, b_conn := Idle, b_enabled := True\<rparr>) = Inr w'"
    using assms(2) fd by (simp add: upd_bev_def the_bev_def evutil_closesocket_def w'_def)
  ultimately show ?thesis
    using fresh_timer [OF alive' ok'(3,4), of E False Fn_reconncb] p fd assms(2) alive' ok'(3)
    unfolding peerStartReconn_def by (auto simp: the_peer_def the_bev_def alive_tick)
qed

lemma peer_api_keeps:
  "call_ok c \<Longrightarrow> alive w \<Longrightarrow> w_bev w = Some b \<Longrightarrow> safe_run b (peer_api E c w)"
proof (cases c)
  case (Call_peerSetHeartbeat f t)
  assume c: "call_ok c" "alive w" "w_bev w = Some b"
  show ?thesis
  proof (cases t)
    case None
    with c Call_peerSetHeartbeat have "f = None" by (cases f) auto
    then have "peerSetHeartbeat E f t w = peerSetHeartbeat E f (Some (0, 0)) w"
      by (simp only: peerSetHeartbeat_def option.case)
    then show ?thesis using Call_peerSetHeartbeat phb.keeps [OF c(2,3), of E f "(0, 0)"] by simp
  next
    case (Some iv)
    then show ?thesis using Call_peerSetHeartbeat phb.keeps [OF c(2,3), of E f iv] by simp
  qed
qed (auto simp: the_peer_def the_bev_def alive_def intro: pc.keeps prd.keeps pwr.keeps pev.keeps pcl.keeps pto.keeps prc.keeps)

definition gentle :: "prog \<Rightarrow> bool" where
  "gentle prog \<longleftrightarrow> (\<forall>f events. \<forall>c \<in> set (prog f events). \<exists>call. c = Api call \<and> call_ok call)"

lemma run_calls_keeps:
  "\<forall>c \<in> set cs. \<exists>call. c = Api call \<and> call_ok call \<Longrightarrow> alive w \<Longrightarrow> w_bev w = Some b \<Longrightarrow>
     safe_run b (run_calls fuel E prog cs w)"
proof (induction cs arbitrary: w)
  case (Cons c cs)
  then obtain call where "c = Api call" "call_ok call" by auto
  then show ?case using Cons by (auto intro!: safe_run_rbind peer_api_keeps)
qed simp

lemma alive_ran: "alive (w\<lparr>w_ran := l\<rparr>) \<longleftrightarrow> alive w"
  by (auto simp: alive_def timers_ok_def bev_ok_def)

lemma run_callback_keeps:
  "gentle prog \<Longrightarrow> alive w \<Longrightarrow> w_bev w = Some b \<Longrightarrow> safe_run b (run_callback fuel E prog f events w)"
  by (auto simp: run_callback_def gentle_def alive_ran split: option.splits intro!: run_calls_keeps)

section \<open>Freeing\<close>

lemma heartbeat_cleared:
  assumes "alive w" "w_bev w = Some b"
  shows "\<exists>w' p. peerSetHeartbeat E None None w = Inr (0, w') \<and> alive w' \<and> w_bev w' = Some b \<and>
    w_peer w' = Some p \<and> hb_ev (heartbeat p) = None"
proof -
  obtain p where p: "w_peer w = Some p" "has_bev p" using assms(1) by (auto simp: alive_def)
  let ?drop = "case hb_ev (heartbeat p) of None \<Rightarrow> Inr w
    | Some ev \<Rightarrow> rbind (event_free ev w) (\<lambda>w. upd_peer w (\<lambda>p. p\<lparr>heartbeat := (heartbeat p)\<lparr>hb_ev := None\<rparr>\<rparr>))"
  obtain w' p' where w': "?drop = Inr w'" "alive w'" "w_bev w' = Some b" "w_peer w' = Some p'" "hb_ev (heartbeat p') = None"
    using drop_heartbeat_keeps [OF assms p(1)] assms p by (cases "hb_ev (heartbeat p)") auto
  have "safe_run b (upd_peer w' (\<lambda>p. p\<lparr>callbacks := (callbacks p)\<lparr>func_heartbeat := None\<rparr>\<rparr>))"
    by (rule upd_peer_keeps [OF w'(2,3)]) simp_all
  then show ?thesis using w' p by (auto simp: peerSetHeartbeat_def the_peer_def upd_peer_def)
qed

lemma reconn_cleared:
  assumes "alive w" "w_bev w = Some b" "w_peer w = Some p"
  shows "\<exists>w' p'. peerSetReconn 0 k w = Inr w' \<and> alive w' \<and> w_bev w' = Some b \<and>
    w_peer w' = Some p' \<and> rc_ev (reconn p') = None \<and> hb_ev (heartbeat p') = hb_ev (heartbeat p)"
proof -
  obtain w' where w': "peerSetReconn 0 k w = Inr w'" "alive w'" "w_bev w' = Some b"
    using prc.keeps [OF assms(1,2), of 0 k] by (auto simp: safe_run_def)
  then show ?thesis using assms(3)
    by (auto simp: peerSetReconn_def peerStopReconn_def event_free_def upd_peer_def the_peer_def split: option.splits)
qed

lemma peerFree_releases:
  assumes "alive w" "gentle prog"
  shows "\<exists>w'. peerFree (Suc fuel) E prog w = Inr w' \<and> released w'"
proof -
  obtain p b where p: "w_peer w = Some p" "w_bev w = Some b" using assms(1) by (auto simp: alive_def)
  obtain w1 where w1: "(case func_close (callbacks p) of None \<Rightarrow> Inr w
      | Some f \<Rightarrow> run_calls fuel E prog (prog f 0) (w\<lparr>w_ran := w_ran w @ [f]\<rparr>)) = Inr w1" "alive w1" "w_bev w1 = Some b"
    using run_callback_keeps [OF assms(2,1) p(2), of fuel E "func_close (callbacks p)" 0]
    by (auto simp: run_callback_def safe_run_def)
  obtain w2 where w2: "peerSetTimeout 0 0 w1 = Inr w2" "alive w2" "w_bev w2 = Some b"
    using pto.keeps [OF w1(2,3)] by (auto simp: safe_run_def)
  obtain w3 p3 where w3: "peerSetHeartbeat E None None w2 = Inr (0, w3)" "alive w3" "w_bev w3 = Some b"
    "w_peer w3 = Some p3" "hb_ev (heartbeat p3) = None"
    using heartbeat_cleared [OF w2(2,3)] by blast
  obtain w4 p4 where w4: "peerSetReconn 0 0 w3 = Inr w4" "alive w4" "w_bev w4 = Some b"
    "w_peer w4 = Some p4" "rc_ev (reconn p4) = None" "hb_ev (heartbeat p4) = None"
    using reconn_cleared [OF w3(2-4)] w3(5) by fastforce
  have ok: "has_bev p4" "bev_ok b w4" "timers_ok p4 b w4" using w4(2) alive_iff [OF w4(4,3)] by blast+
  then have "w_timers w4 i = Some t \<Longrightarrow> \<not> t_pending t" for i t
    using w4(5,6) by (cases "t_fn t") (auto simp: timers_ok_def)
  then show ?thesis
    using p w1 w2 w3 w4 ok(1,2)
    by (auto simp: the_peer_def the_bev_def upd_peer_def bufferevent_free_def evutil_closesocket_def released_def bev_ok_def
        split: if_splits)
qed

section \<open>Theorems\<close>

definition peer_inv :: "world \<Rightarrow> bool" where
  "peer_inv w \<longleftrightarrow> alive w \<or> released w"

lemma free_if_closing_inv:
  "alive w \<Longrightarrow> gentle prog \<Longrightarrow> \<exists>w'. free_if_closing (Suc fuel) E prog w = Inr w' \<and> peer_inv w'"
  using peerFree_releases [of w prog fuel E]
  by (auto simp: free_if_closing_def the_peer_def alive_def peer_inv_def simp del: peerFree.simps)

lemma safe_run_then:
  assumes "safe_run b m" "\<And>w. alive w \<Longrightarrow> w_bev w = Some b \<Longrightarrow> \<exists>w'. f w = Inr w' \<and> peer_inv w'"
  shows "\<exists>w'. rbind m f = Inr w' \<and> peer_inv w'"
  using assms by (auto simp: safe_run_def)

lemma safe_run_inv: "safe_run b m \<Longrightarrow> \<exists>w'. m = Inr w' \<and> peer_inv w'"
  by (auto simp: safe_run_def peer_inv_def)

lemma check_bev_alive: "alive w \<Longrightarrow> \<exists>p. w_peer w = Some p \<and> check_bev w = Inr p"
  by (auto simp: check_bev_def the_peer_def alive_def)

lemma stamp_inv:
  assumes "alive w" "w_bev w = Some b" "gentle prog"
    and "\<And>p. has_bev (f p) = has_bev p" "\<And>p. hb_ev (heartbeat (f p)) = hb_ev (heartbeat p)"
      "\<And>p. rc_ev (reconn (f p)) = rc_ev (reconn p)"
  shows "\<exists>w'. rbind (the_bev w) (\<lambda>b. rbind (upd_peer w f) (free_if_closing (Suc fuel) E prog)) = Inr w' \<and> peer_inv w'"
  using safe_run_then [OF upd_peer_keeps [OF assms(1,2,4-6)] free_if_closing_inv [OF _ assms(3)]] assms(2)
  by (simp add: the_bev_def)

lemma readcb_writecb_inv:
  assumes "alive w" "w_bev w = Some b" "gentle prog"
  shows "\<exists>w'. readcb (Suc fuel) E prog w = Inr w' \<and> peer_inv w'" "\<exists>w'. writecb (Suc fuel) E prog w = Inr w' \<and> peer_inv w'"
proof -
  obtain p where p: "check_bev w = Inr p" using check_bev_alive [OF assms(1)] by blast
  show "\<exists>w'. readcb (Suc fuel) E prog w = Inr w' \<and> peer_inv w'" unfolding readcb_def p rbind.simps(2)
    by (rule safe_run_then [OF run_callback_keeps [OF assms(3,1,2)]]) (rule stamp_inv [OF _ _ assms(3)], simp_all)
  show "\<exists>w'. writecb (Suc fuel) E prog w = Inr w' \<and> peer_inv w'" unfolding writecb_def p rbind.simps(2)
    by (rule safe_run_then [OF run_callback_keeps [OF assms(3,1,2)]]) (rule stamp_inv [OF _ _ assms(3)], simp_all)
qed

lemma heartbeatcb_inv:
  assumes "alive w" "w_bev w = Some b" "gentle prog"
  shows "\<exists>w'. heartbeatcb (Suc fuel) E prog events w = Inr w' \<and> peer_inv w'"
proof -
  obtain p where p: "w_peer w = Some p" using assms(1) by (auto simp: alive_def)
  show ?thesis unfolding heartbeatcb_def the_peer_def p option.case rbind.simps(2)
    by (rule safe_run_then [OF run_callback_keeps [OF assms(3,1,2)]]) (rule free_if_closing_inv [OF _ assms(3)])
qed

lemma eventcb_inv:
  assumes "alive w" "w_bev w = Some b" "b_conn b \<noteq> Idle" "gentle prog"
  shows "\<exists>w'. eventcb (Suc fuel) E prog events w = Inr w' \<and> peer_inv w'"
proof -
  obtain p where p: "w_peer w = Some p" "check_bev w = Inr p" using check_bev_alive [OF assms(1)] by blast
  have stop: "safe_run b (if events AND BEV_EVENT_CONNECTED \<noteq> 0 then peerStopReconn w else Inr w)"
    using pst.keeps [OF assms(1,2)] assms(1,2) by simp
  have finish: "\<exists>w'. (if events AND BEV_EVENT_ERROR \<noteq> 0 \<or> events AND BEV_EVENT_EOF \<noteq> 0 then
       rbind (the_peer w) (\<lambda>p.
       if flag p AND PEER_AUTO_RECONNECT \<noteq> 0 then peerStartReconn E w else peerFree (Suc fuel) E prog w)
     else Inr w) = Inr w' \<and> peer_inv w'" if w: "alive w" "w_bev w = Some b" for w
  proof -
    obtain p where "w_peer w = Some p" using w(1) by (auto simp: alive_def)
    then show ?thesis
      using safe_run_inv [OF peerStartReconn_keeps [OF w assms(3), of E]] peerFree_releases [OF w(1) assms(4), of fuel E] w(1)
      by (auto simp: the_peer_def peer_inv_def simp del: peerFree.simps)
  qed
  show ?thesis unfolding eventcb_def p(2) rbind.simps(2)
  proof (rule safe_run_then [OF stop])
    fix w1 assume w1: "alive w1" "w_bev w1 = Some b"
    then obtain p1 where p1: "the_peer w1 = Inr p1" by (auto simp: alive_def the_peer_def)
    show "\<exists>w'. rbind (the_peer w1) (\<lambda>p. rbind (run_callback (Suc fuel) E prog (func_event (callbacks p)) events w1) (\<lambda>w.
        if events AND BEV_EVENT_ERROR \<noteq> 0 \<or> events AND BEV_EVENT_EOF \<noteq> 0 then
          rbind (the_peer w) (\<lambda>p.
          if flag p AND PEER_AUTO_RECONNECT \<noteq> 0 then peerStartReconn E w else peerFree (Suc fuel) E prog w)
        else Inr w)) = Inr w' \<and> peer_inv w'"
      unfolding p1 rbind.simps(2) by (rule safe_run_then [OF run_callback_keeps [OF assms(4) w1] finish])
  qed
qed

lemma connected_alive:
  "alive w \<Longrightarrow> w_bev w = Some b \<Longrightarrow> b_conn b = Connecting \<Longrightarrow> alive (w\<lparr>w_bev := Some (b\<lparr>b_conn := Connected\<rparr>)\<rparr>)"
  by (fastforce simp: alive_def timers_ok_def bev_ok_def)

text \<open>A timer that runs out leaves the peer alive; the one for reconnecting is no longer pending.\<close>

lemma pending_heartbeat:
  assumes "timers_ok p b w" "w_timers w i = Some t" "t_pending t" "t_fn t = Fn_heartbeatcb"
  shows "hb_ev (heartbeat p) = Some i" "t_persist t"
proof -
  show hb: "hb_ev (heartbeat p) = Some i" using assms unfolding timers_ok_def by presburger
  then show "t_persist t" using assms(1,2) unfolding timers_ok_def by auto
qed

lemma pending_reconn:
  assumes "timers_ok p b w" "w_timers w i = Some t" "t_pending t" "t_fn t = Fn_reconncb"
  shows "rc_ev (reconn p) = Some i" "b_conn b = Idle" "\<not> t_persist t"
proof -
  have "t_fn t \<noteq> Fn_heartbeatcb" using assms(4) by simp
  then show rc: "rc_ev (reconn p) = Some i" "b_conn b = Idle" using assms(1-3) unfolding timers_ok_def by presburger+
  then show "\<not> t_persist t" using assms(1,2) unfolding timers_ok_def by auto
qed

lemma fired_timers:
  assumes "timers_ok p b w" "w_timers w i = Some t" "t_pending t" "t_fn t = Fn_reconncb"
  shows "timers_ok p b' (w\<lparr>w_timers := (w_timers w)(i \<mapsto> t\<lparr>t_pending := t_persist t\<rparr>)\<rparr>)"
proof -
  have known: "\<forall>i t. w_timers w i = Some t \<longrightarrow> i < w_next w"
    "\<forall>i. hb_ev (heartbeat p) = Some i \<longrightarrow> (\<exists>t. w_timers w i = Some t \<and> t_fn t = Fn_heartbeatcb \<and> t_persist t)"
    using assms(1) by (simp_all add: timers_ok_def)
  have owned: "if t_fn u = Fn_heartbeatcb then hb_ev (heartbeat p) = Some j else rc_ev (reconn p) = Some j \<and> b_conn b' = Idle"
    if "((w_timers w)(i \<mapsto> t\<lparr>t_pending := t_persist t\<rparr>)) j = Some u" "t_pending u" for j u
    using that pending_reconn [OF assms] pending_heartbeat(1) [OF assms(1), of j u] pending_reconn(1) [OF assms(1), of j u]
    by (cases "t_fn u") (auto split: if_splits)
  have own: "\<forall>i. rc_ev (reconn p) = Some i \<longrightarrow> (\<exists>t. w_timers w i = Some t \<and> t_fn t = Fn_reconncb \<and> \<not> t_persist t)"
    using assms(1) by (simp add: timers_ok_def)
  show ?thesis unfolding timers_ok_def
  proof (intro conjI)
    show "\<forall>j u. w_timers (w\<lparr>w_timers := (w_timers w)(i \<mapsto> t\<lparr>t_pending := t_persist t\<rparr>)\<rparr>) j = Some u \<longrightarrow> t_pending u \<longrightarrow>
      (if t_fn u = Fn_heartbeatcb then hb_ev (heartbeat p) = Some j else rc_ev (reconn p) = Some j \<and> b_conn b' = Idle)"
      by (intro allI impI owned) simp_all
  qed (use known own assms(2,4) in auto)
qed

lemma fired_alive:
  assumes "alive w" "w_timers w i = Some t" "t_pending t"
  shows "alive (w\<lparr>w_timers := (w_timers w)(i \<mapsto> t\<lparr>t_pending := t_persist t\<rparr>)\<rparr>)"
proof -
  obtain p b where p: "w_peer w = Some p" "w_bev w = Some b" "has_bev p" "bev_ok b w" "timers_ok p b w"
    using assms(1) by (auto simp: alive_def)
  show ?thesis
  proof (cases "t_fn t")
    case Fn_heartbeatcb
    have "t\<lparr>t_pending := t_persist t\<rparr> = t" using pending_heartbeat(2) [OF p(5) assms(2,3) Fn_heartbeatcb] assms(3) by simp
    then have "(w_timers w)(i \<mapsto> t\<lparr>t_pending := t_persist t\<rparr>) = w_timers w" using assms(2) by (simp add: fun_upd_idem_iff)
    then show ?thesis using assms(1) by simp
  next
    case Fn_reconncb
    show ?thesis using fired_timers [OF p(5) assms(2,3) Fn_reconncb] p by (simp add: alive_iff)
  qed
qed

lemma reconncb_inv:
  assumes "alive w" "w_timers w i = Some t" "t_pending t" "t_fn t = Fn_reconncb" "\<forall>n. 0 < new_fd E n"
  shows "\<exists>w'. reconncb E (w\<lparr>w_timers := (w_timers w)(i \<mapsto> t\<lparr>t_pending := t_persist t\<rparr>)\<rparr>) = Inr w' \<and> alive w'"
proof -
  let ?w = "w\<lparr>w_timers := (w_timers w)(i \<mapsto> t\<lparr>t_pending := t_persist t\<rparr>)\<rparr>"
  obtain p b where p: "w_peer w = Some p" "w_bev w = Some b" "has_bev p" "bev_ok b w" "timers_ok p b w"
    using assms(1) by (auto simp: alive_def)
  have idle: "b_fd b = -1" "w_sockets w = []"
    using p(4) pending_reconn(2) [OF p(5) assms(2-4)] by (simp_all add: bev_ok_def)
  show ?thesis
  proof (cases "succeeds E ?w")
    case True
    let ?fd = "new_fd E (w_calls w)"
    have "reconncb E ?w = Inr (tick (?w\<lparr>w_bev := Some (b\<lparr>b_fd := ?fd, b_conn := Connecting\<rparr>), w_sockets := [?fd]\<rparr>))"
      using True p idle by (simp add: reconncb_def the_peer_def the_bev_def bufferevent_socket_connect_def Let_def)
    moreover have "alive (?w\<lparr>w_bev := Some (b\<lparr>b_fd := ?fd, b_conn := Connecting\<rparr>), w_sockets := [?fd]\<rparr>)"
      using fired_timers [OF p(5) assms(2-4)] p assms(5) by (simp add: alive_iff) (simp add: bev_ok_def)
    ultimately show ?thesis by (simp add: alive_tick)
  next
    case False
    then show ?thesis using p fired_alive [OF assms(1-3)]
      by (simp add: reconncb_def the_peer_def the_bev_def bufferevent_socket_connect_def alive_tick)
  qed
qed

lemma run_call_inv:
  assumes "alive w" "gentle prog" "action_ok c"
  shows "\<exists>w'. run_calls (Suc fuel) E prog [c] w = Inr w' \<and> peer_inv w'"
proof (cases c)
  case (Api call)
  obtain b where b: "w_bev w = Some b" using assms(1) by (auto simp: alive_def)
  obtain w' where "peer_api E call w = Inr w'" "peer_inv w'"
    using safe_run_inv [OF peer_api_keeps [OF _ assms(1) b, of call E]] assms(3) Api by auto
  then show ?thesis using Api by simp
next
  case Call_peerFree
  then show ?thesis using peerFree_releases [OF assms(1,2), of fuel E]
    by (auto simp: peer_inv_def simp del: peerFree.simps)
qed

lemma peer_event_inv:
  assumes "peer_event E prog (Suc fuel) w r" "peer_inv w" "gentle prog" "\<forall>n. 0 < new_fd E n"
  shows "\<exists>w'. r = Inr w' \<and> peer_inv w'"
  using assms(1,2)
proof cases
  case (on_read b)
  then have "alive w" using assms(2) by (auto simp: peer_inv_def released_def)
  then show ?thesis using readcb_writecb_inv(1) [OF _ on_read(2) assms(3)] on_read(1) by simp
next
  case (on_write b)
  then have "alive w" using assms(2) by (auto simp: peer_inv_def released_def)
  then show ?thesis using readcb_writecb_inv(2) [OF _ on_write(2) assms(3)] on_write(1) by simp
next
  case (on_connected b)
  then have "alive w" using assms(2) by (auto simp: peer_inv_def released_def)
  then show ?thesis using eventcb_inv [OF connected_alive [OF _ on_connected(2,3)] _ _ assms(3)] on_connected(1) by simp
next
  case (on_failure b events)
  then have "alive w" using assms(2) by (auto simp: peer_inv_def released_def)
  then show ?thesis using eventcb_inv [OF _ on_failure(2,3) assms(3)] on_failure(1) by simp
next
  case (on_heartbeat i t events)
  then have "alive w" using assms(2) by (auto simp: peer_inv_def released_def)
  then show ?thesis
    using heartbeatcb_inv [OF fired_alive [OF _ on_heartbeat(2,3)] _ assms(3)] on_heartbeat(1)
    by (auto simp: alive_def)
next
  case (on_reconn i t)
  then have "alive w" using assms(2) by (auto simp: peer_inv_def released_def)
  then show ?thesis using reconncb_inv [OF _ on_reconn(2-4) assms(4)] on_reconn(1) by (auto simp: peer_inv_def)
next
  case (on_time now)
  have "alive (w\<lparr>w_now := now\<rparr>) = alive w" "released (w\<lparr>w_now := now\<rparr>) = released w"
    by (simp_all add: alive_def released_def)
  then show ?thesis using on_time assms(2) by (simp add: peer_inv_def)
qed

lemma peer_step_inv:
  assumes "peer_step E prog (Suc fuel) w r" "peer_inv w" "gentle prog" "\<forall>n. 0 < new_fd E n"
  shows "\<exists>w'. r = Inr w' \<and> peer_inv w'"
  using assms(1,2)
proof cases
  case on_event
  then show ?thesis by (rule peer_event_inv [OF _ assms(2-4)])
next
  case (on_call call)
  then have "alive w" using assms(2) by (auto simp: peer_inv_def released_def)
  then show ?thesis using run_call_inv [OF _ assms(3) on_call(3)] on_call(1) by simp
qed

lemma connectTo_alive:
  assumes "peerConnectTo E addr (no_world [] now) = Inr (True, w)" "\<forall>n. 0 < new_fd E n"
  shows "alive w"
  using assms
  by (auto simp: peerConnectTo_def bufferevent_socket_connect_def the_bev_def upd_bev_def bufferevent_free_def tick_def no_world_def
      Let_def new_peer_def alive_iff bev_ok_def timers_ok_def split: option.splits if_splits)

lemma connectIn_alive:
  assumes "peerConnectIn E fd ss (no_world [fd] now) = Inr (True, w)" "0 < fd"
  shows "alive w"
  using assms
  by (auto simp: peerConnectIn_def tick_def no_world_def Let_def new_peer_def alive_iff bev_ok_def timers_ok_def split: if_splits)

lemma peer_reach_inv:
  assumes "peer_reach E prog (Suc fuel) w" "gentle prog" "\<forall>n. 0 < new_fd E n"
  shows "peer_inv w"
  using assms(1)
proof induction
  case (connect_to addr now w)
  then show ?case using connectTo_alive assms(3) by (simp add: peer_inv_def)
next
  case (connect_in fd ss now w)
  then show ?case using connectIn_alive by (simp add: peer_inv_def)
next
  case (step w w')
  then show ?case using peer_step_inv [OF step(2) _ assms(2,3)] by simp
qed


text \<open>A peer whose event callback starts a heartbeat when it is connected, as the samples do.\<close>

definition sample_env :: env where
  "sample_env = \<lparr>has_base = True, outcome = (\<lambda>n. True), new_fd = (\<lambda>n. 3 + int n),
     sockname = (\<lambda>fd. Inet [127, 0, 0, 1] 0x5c11), inet_ntop = (\<lambda>b. Some ''127.0.0.1''),
     parse_sockaddr = (\<lambda>s. Some (Inet [127, 0, 0, 1] 0x099f))\<rparr>"

definition sample_prog :: prog where
  "sample_prog f events =
     (if f = 1 \<and> events AND BEV_EVENT_CONNECTED \<noteq> 0 then [Api (Call_peerSetHeartbeat (Some 2) (Some (2, 0)))]
      else [Api Call_bufferevent])"

definition sample_world :: world where
  "sample_world = (case peerConnectTo sample_env ''127.0.0.1:40713'' (no_world [] (0, 0)) of Inr (_, w) \<Rightarrow> w)"

lemma sample_connects:
  "peerConnectTo sample_env ''127.0.0.1:40713'' (no_world [] (0, 0)) = Inr (True, sample_world)"
  by (simp add: sample_world_def peerConnectTo_def sample_env_def succeeds_def bufferevent_socket_connect_def the_bev_def
      tick_def no_world_def upd_bev_def Let_def)


lemma sample_gentle: "gentle sample_prog"
  by (auto simp: gentle_def sample_prog_def)

lemma sample_fds: "\<forall>n. 0 < new_fd sample_env n"
  by (simp add: sample_env_def)


section \<open>Reconnecting\<close>

text \<open>
  An attempt to connect fails: the event callback of the bufferevent, then the timer it started.
\<close>

definition failed_attempt :: "env \<Rightarrow> prog \<Rightarrow> world \<Rightarrow> world result" where
  "failed_attempt E prog w =
     rbind (eventcb 1 E prog BEV_EVENT_ERROR w) (\<lambda>w.
     case Option.bind (w_peer w) (\<lambda>p. rc_ev (reconn p)) of
       None \<Rightarrow> Inr w
     | Some i \<Rightarrow>
         (case w_timers w i of
            None \<Rightarrow> Inl UseAfterFree
          | Some t \<Rightarrow> reconncb E (w\<lparr>w_timers := (w_timers w)(i \<mapsto> t\<lparr>t_pending := t_persist t\<rparr>)\<rparr>)))"

fun failed_attempts :: "env \<Rightarrow> prog \<Rightarrow> nat \<Rightarrow> world \<Rightarrow> world result" where
  "failed_attempts E prog 0 w = Inr w"
| "failed_attempts E prog (Suc n) w = rbind (failed_attempts E prog n w) (failed_attempt E prog)"

text \<open>The state after \<open>n\<close> failed attempts of a peer with the flags \<open>fl\<close>.\<close>

definition attempted :: "nat \<Rightarrow> u32 \<Rightarrow> world \<Rightarrow> bool" where
  "attempted n fl w \<longleftrightarrow>
     (\<exists>p b. w_peer w = Some p \<and> w_bev w = Some b \<and> has_bev p \<and> 0 < b_fd b \<and> b_conn b = Connecting \<and>
        w_sockets w = [b_fd b] \<and> flag p = fl \<and> func_event (callbacks p) = None \<and> func_close (callbacks p) = None \<and>
        hb_ev (heartbeat p) = None \<and> rc_ev (reconn p) = (if n = 0 then None else Some (n - 1)) \<and> w_next w = n \<and>
        w_timers w = (\<lambda>i. if i < n then Some \<lparr>t_fn = Fn_reconncb, t_persist = False, t_pending = False\<rparr> else None))"

lemma attempted_step:
  assumes "attempted n fl w" "fl AND PEER_AUTO_RECONNECT \<noteq> 0" "has_base E" "\<forall>k. outcome E k" "\<forall>k. 0 < new_fd E k"
  shows "\<exists>w'. failed_attempt E prog w = Inr w' \<and> attempted (Suc n) fl w'"
proof -
  let ?t = "\<lparr>t_fn = Fn_reconncb, t_persist = False, t_pending = True\<rparr>"
  obtain p b where p: "w_peer w = Some p" "w_bev w = Some b" "has_bev p" "0 < b_fd b" "w_sockets w = [b_fd b]" "flag p = fl"
    "func_event (callbacks p) = None" "func_close (callbacks p) = None" "hb_ev (heartbeat p) = None" "w_next w = n"
    and ts: "w_timers w = (\<lambda>i. if i < n then Some \<lparr>t_fn = Fn_reconncb, t_persist = False, t_pending = False\<rparr> else None)"
    using assms(1) by (auto simp: attempted_def)
  have bits: "BEV_EVENT_ERROR AND BEV_EVENT_CONNECTED = 0" "BEV_EVENT_ERROR AND BEV_EVENT_ERROR \<noteq> 0"
    by (simp_all add: BEV_EVENT_ERROR_def BEV_EVENT_CONNECTED_def)
  let ?w1 = "w\<lparr>w_sockets := [], w_bev := Some (b\<lparr>b_fd := -1, b_conn := Idle, b_enabled := True\<rparr>), w_next := Suc n,
    w_timers := (w_timers w)(n \<mapsto> ?t), w_calls := Suc (Suc (w_calls w)),
    w_peer := Some (p\<lparr>reconn := (reconn p)\<lparr>rc_ev := Some n\<rparr>\<rparr>)\<rparr>"
  have "eventcb 1 E prog BEV_EVENT_ERROR w = Inr ?w1"
    using p assms(2-4) bits
    by (simp add: eventcb_def check_bev_def the_peer_def run_callback_def peerStartReconn_def the_bev_def evutil_closesocket_def
        upd_bev_def event_new_def event_add_def succeeds_def tick_def upd_peer_def Let_def)
  then have "failed_attempt E prog w = reconncb E (?w1\<lparr>w_timers := (w_timers w)(n \<mapsto> ?t\<lparr>t_pending := False\<rparr>)\<rparr>)"
    by (simp add: failed_attempt_def)
  also have "\<dots> = Inr (?w1\<lparr>w_timers := (w_timers w)(n \<mapsto> ?t\<lparr>t_pending := False\<rparr>), w_calls := Suc (Suc (Suc (w_calls w))),
      w_bev := Some (b\<lparr>b_fd := new_fd E (Suc (Suc (w_calls w))), b_conn := Connecting, b_enabled := True\<rparr>),
      w_sockets := [new_fd E (Suc (Suc (w_calls w)))]\<rparr>)"
    using p(3) assms(4)
    by (simp add: reconncb_def the_peer_def bufferevent_socket_connect_def the_bev_def succeeds_def tick_def Let_def)
  finally show ?thesis using p assms(5) by (auto simp: attempted_def ts fun_eq_iff)
qed

lemma attempted_steps:
  assumes "attempted 0 fl w" "fl AND PEER_AUTO_RECONNECT \<noteq> 0" "has_base E" "\<forall>k. outcome E k" "\<forall>k. 0 < new_fd E k"
  shows "\<exists>w'. failed_attempts E prog n w = Inr w' \<and> attempted n fl w'"
proof (induction n)
  case (Suc n)
  then show ?case using attempted_step [OF _ assms(2-5)] by fastforce
qed (use assms(1) in simp)

lemma dom_attempted: "attempted n fl w \<Longrightarrow> dom (w_timers w) = {..<n}"
  by (auto simp: attempted_def dom_def split: if_splits)

lemma attempted_freed:
  assumes "attempted n fl w"
  shows "\<exists>w'. peerFree 1 E prog w = Inr w' \<and> dom (w_timers w') = {..<n - 1}"
proof -
  obtain p b where p: "w_peer w = Some p" "w_bev w = Some b" "has_bev p" "func_close (callbacks p) = None"
    "hb_ev (heartbeat p) = None" "rc_ev (reconn p) = (if n = 0 then None else Some (n - 1))"
    and ts: "w_timers w = (\<lambda>i. if i < n then Some \<lparr>t_fn = Fn_reconncb, t_persist = False, t_pending = False\<rparr> else None)"
    using assms by (auto simp: attempted_def)
  have "dom ((w_timers w)(n - 1 := None)) = {..<n - 1}" if "0 < n" using that by (auto simp: ts split: if_splits)
  moreover have "dom (w_timers w) = {..<n - 1}" if "n = 0" using that by (auto simp: ts)
  ultimately show ?thesis using p
    by (cases "n = 0")
      (simp_all add: the_peer_def the_bev_def upd_peer_def peerSetTimeout_def peerSetHeartbeat_def peerSetReconn_def peerStopReconn_def
        event_free_def bufferevent_free_def evutil_closesocket_def ts)
qed

lemma connected_to_attempted:
  assumes "peerConnectTo E addr (no_world [] now) = Inr (True, w)" "0 < k" "\<forall>n. 0 < new_fd E n"
  shows "\<exists>w'. rbind (peerSetReconn k m w) peerClose = Inr w' \<and> attempted 0 (PEER_AUTO_RECONNECT OR PEER_WAIT_CLOSE) w'"
  using assms
  by (auto simp: peerConnectTo_def bufferevent_socket_connect_def the_bev_def upd_bev_def bufferevent_free_def tick_def no_world_def
      Let_def new_peer_def peerSetReconn_def peerClose_def upd_peer_def the_peer_def attempted_def split: option.splits if_splits)

text \<open>
  A peer that reconnects and was closed before its connection was established stays: every failed
  attempt starts the next one, and the flag set by \<open>peerClose\<close> is not looked at. Each attempt allocates a
  timer and forgets the previous one, so that freeing the peer after \<open>n\<close> attempts leaves \<open>n - 1\<close> timers
  allocated.
\<close>

theorem reconnect_leaks:
  assumes "peerConnectTo E addr (no_world [] now) = Inr (True, w0)" "0 < interval_sec"
    and "has_base E" "\<forall>k. outcome E k" "\<forall>k. 0 < new_fd E k"
  shows "\<exists>w1 w w'. rbind (peerSetReconn interval_sec max_incre w0) peerClose = Inr w1 \<and>
    failed_attempts E prog n w1 = Inr w \<and> w_peer w \<noteq> None \<and> card (dom (w_timers w)) = n \<and>
    peerFree 1 E prog w = Inr w' \<and> card (dom (w_timers w')) = n - 1"
proof -
  let ?fl = "PEER_AUTO_RECONNECT OR PEER_WAIT_CLOSE"
  have fl: "?fl AND PEER_AUTO_RECONNECT \<noteq> 0" by (simp add: PEER_AUTO_RECONNECT_def PEER_WAIT_CLOSE_def)
  obtain w1 where w1: "rbind (peerSetReconn interval_sec max_incre w0) peerClose = Inr w1" "attempted 0 ?fl w1"
    using connected_to_attempted [OF assms(1,2,5)] by blast
  obtain w where w: "failed_attempts E prog n w1 = Inr w" "attempted n ?fl w"
    using attempted_steps [OF w1(2) fl assms(3-5)] by blast
  obtain w' where w': "peerFree 1 E prog w = Inr w'" "dom (w_timers w') = {..<n - 1}"
    using attempted_freed [OF w(2)] by blast
  have "w_peer w \<noteq> None" using w(2) by (auto simp: attempted_def)
  then show ?thesis using w1(1) w(1) w' dom_attempted [OF w(2)] card_lessThan
    by (metis (no_types, lifting))
qed

theorem reconnect_leaks_witness:
  "\<exists>w1 w w'. rbind (peerSetReconn 1 0 sample_world) peerClose = Inr w1 \<and>
    failed_attempts sample_env sample_prog 10 w1 = Inr w \<and> w_peer w \<noteq> None \<and> card (dom (w_timers w)) = 10 \<and>
    peerFree 1 sample_env sample_prog w = Inr w' \<and> card (dom (w_timers w')) = 9"
  using reconnect_leaks [OF sample_connects _ _ _ sample_fds, of 1 0 sample_prog 10] by (simp add: sample_env_def)

section \<open>Closing\<close>

definition closing :: "world \<Rightarrow> bool" where
  "closing w \<longleftrightarrow> (\<exists>p. w_peer w = Some p \<and> flag p AND PEER_WAIT_CLOSE \<noteq> 0)"

lemma wait_close_nonzero [simp]: "PEER_WAIT_CLOSE \<noteq> 0"
  by (simp add: PEER_WAIT_CLOSE_def)

lemma wait_close_bits [simp]:
  "(fl OR PEER_WAIT_CLOSE) AND PEER_WAIT_CLOSE \<noteq> 0"
  "(fl OR PEER_AUTO_RECONNECT) AND PEER_WAIT_CLOSE = fl AND PEER_WAIT_CLOSE"
  "(fl AND NOT PEER_AUTO_RECONNECT) AND PEER_WAIT_CLOSE = fl AND PEER_WAIT_CLOSE"
proof -
  show "(fl OR PEER_WAIT_CLOSE) AND PEER_WAIT_CLOSE \<noteq> 0"
    by (simp add: bit.conj_disj_distrib2 PEER_WAIT_CLOSE_def)
  have m: "PEER_AUTO_RECONNECT AND PEER_WAIT_CLOSE = 0" "NOT PEER_AUTO_RECONNECT AND PEER_WAIT_CLOSE = PEER_WAIT_CLOSE"
    by (simp_all add: PEER_AUTO_RECONNECT_def PEER_WAIT_CLOSE_def)
  show "(fl OR PEER_AUTO_RECONNECT) AND PEER_WAIT_CLOSE = fl AND PEER_WAIT_CLOSE"
    by (simp add: bit.conj_disj_distrib2 m)
  show "(fl AND NOT PEER_AUTO_RECONNECT) AND PEER_WAIT_CLOSE = fl AND PEER_WAIT_CLOSE"
    by (simp add: and.assoc m)
qed

lemma upd_peer_closing:
  "closing w \<Longrightarrow> (\<And>p. flag (f p) AND PEER_WAIT_CLOSE = flag p AND PEER_WAIT_CLOSE) \<Longrightarrow> upd_peer w f = Inr w' \<Longrightarrow> closing w'"
  by (auto simp: closing_def upd_peer_def the_peer_def)

lemma closing_lib [simp]:
  "closing (tick w) = closing w" "closing (w\<lparr>w_ran := l\<rparr>) = closing w"
  "event_free i w = Inr w' \<Longrightarrow> closing w' = closing w"
  "event_new E persist g w = (ev, w') \<Longrightarrow> closing w' = closing w"
  "event_add E i w = Inr (ok, w') \<Longrightarrow> closing w' = closing w"
  by (auto simp: closing_def tick_def event_free_def event_new_def event_add_def split: option.splits if_splits)

lemma stop_closing: "closing w \<Longrightarrow> peerStopReconn w = Inr w' \<Longrightarrow> closing w'"
  by (auto simp: peerStopReconn_def rbind_simps split: option.splits elim!: upd_peer_closing [rotated 2])

lemma heartbeat_closing: "closing w \<Longrightarrow> peerSetHeartbeat E f t w = Inr (ret, w') \<Longrightarrow> closing w'"
  by (auto simp: peerSetHeartbeat_def upd_peer_def the_peer_def event_new_def event_add_def event_free_def tick_def closing_def
      split: option.splits if_splits prod.splits)

lemma peer_api_closing: "closing w \<Longrightarrow> peer_api E c w = Inr w' \<Longrightarrow> closing w'"
proof (cases c)
  case (Call_peerSetReconn i k)
  assume c: "closing w" "peer_api E c w = Inr w'"
  show ?thesis
  proof (cases "0 < i")
    case True
    then show ?thesis using c Call_peerSetReconn
      by (auto simp: peerSetReconn_def upd_peer_def the_peer_def closing_def split: option.splits)
  next
    case False
    obtain w1 w2 where w1: "upd_peer w (\<lambda>p. p\<lparr>flag := flag p AND NOT PEER_AUTO_RECONNECT\<rparr>) = Inr w1"
      "peerStopReconn w1 = Inr w2" "upd_peer w2 (\<lambda>p. p\<lparr>reconn := (reconn p)\<lparr>rc_interval := i, max_increase := k\<rparr>\<rparr>) = Inr w'"
      using c(2) False Call_peerSetReconn by (auto simp: peerSetReconn_def rbind_Inr_iff)
    have "closing w1" by (rule upd_peer_closing [OF c(1) _ w1(1)]) simp
    then have "closing w2" using w1(2) by (rule stop_closing)
    then show ?thesis by (rule upd_peer_closing [OF _ _ w1(3)]) simp
  qed
qed (auto simp: peerClose_def peerSetReadCb_def peerSetWriteCb_def peerSetEventCb_def peerSetCloseCb_def peerSetTimeout_def
    upd_peer_def the_peer_def closing_def rbind_Inr_iff split: option.splits dest: heartbeat_closing [unfolded closing_def, rotated])

lemma run_callback_closing:
  assumes "gentle prog" "closing w" "run_callback fuel E prog f events w = Inr w'"
  shows "closing w'"
proof -
  have calls: "closing w \<Longrightarrow> \<forall>c \<in> set cs. \<exists>call. c = Api call \<and> call_ok call \<Longrightarrow> run_calls fuel E prog cs w = Inr w' \<Longrightarrow> closing w'" for cs w
  proof (induction cs arbitrary: w)
    case (Cons c cs)
    then show ?case by (auto simp: rbind_Inr_iff dest: peer_api_closing)
  qed simp
  show ?thesis
  proof (cases f)
    case (Some g)
    show ?thesis using calls [of "w\<lparr>w_ran := w_ran w @ [g]\<rparr>" "prog g events"] assms Some
      by (simp add: run_callback_def gentle_def)
  qed (use assms in \<open>simp add: run_callback_def\<close>)
qed

lemma free_if_closing_frees:
  "alive w \<Longrightarrow> closing w \<Longrightarrow> gentle prog \<Longrightarrow> \<exists>w'. free_if_closing (Suc fuel) E prog w = Inr w' \<and> released w'"
  using peerFree_releases [of w prog fuel E]
  by (auto simp: free_if_closing_def the_peer_def closing_def simp del: peerFree.simps)

lemma stamp_frees:
  assumes "alive w" "w_bev w = Some b" "closing w" "gentle prog" "\<And>p. flag (f p) = flag p"
    and "\<And>p. has_bev (f p) = has_bev p" "\<And>p. hb_ev (heartbeat (f p)) = hb_ev (heartbeat p)"
      "\<And>p. rc_ev (reconn (f p)) = rc_ev (reconn p)"
  shows "\<exists>w'. rbind (the_bev w) (\<lambda>b. rbind (upd_peer w f) (free_if_closing (Suc fuel) E prog)) = Inr w' \<and> released w'"
proof -
  obtain w1 where w1: "upd_peer w f = Inr w1" "alive w1"
    using upd_peer_keeps [OF assms(1,2,6-8)] by (auto simp: safe_run_def)
  have "closing w1" by (rule upd_peer_closing [OF assms(3) _ w1(1)]) (simp add: assms(5))
  then show ?thesis using free_if_closing_frees [OF w1(2) _ assms(4), of fuel E] w1(1) assms(2) by (simp add: the_bev_def)
qed

text \<open>
  After \<open>peerClose\<close> the next time the connection has data, can be written to, or the heartbeat runs,
  the peer is freed with all it owns, whatever the callbacks of the application still do with it.
\<close>

theorem close_takes_effect:
  assumes "gentle prog" "\<forall>n. 0 < new_fd E n" "peer_reach E prog (Suc nested) w" "w_peer w \<noteq> None"
  shows "\<exists>w1. peerClose w = Inr w1 \<and>
    (\<forall>m \<in> {readcb (Suc nested) E prog w1, writecb (Suc nested) E prog w1, heartbeatcb (Suc nested) E prog events w1}.
       \<exists>w2. m = Inr w2 \<and> released w2)"
proof -
  have "alive w" using peer_reach_inv [OF assms(3,1,2)] assms(4) by (auto simp: peer_inv_def released_def)
  then obtain w1 b where w1: "peerClose w = Inr w1" "alive w1" "w_bev w1 = Some b"
    using pc.no_fault [of w] by (auto simp: alive_def)
  have cl: "closing w1" using w1(1) by (auto simp: peerClose_def upd_peer_def the_peer_def closing_def split: option.splits)
  obtain p where p: "check_bev w1 = Inr p" "the_peer w1 = Inr p"
    using check_bev_alive [OF w1(2)] by (auto simp: the_peer_def)
  have cb: "\<exists>w2. run_callback (Suc nested) E prog f ev w1 = Inr w2 \<and> alive w2 \<and> w_bev w2 = Some b \<and> closing w2" for f ev
    using run_callback_keeps [OF assms(1) w1(2,3)] run_callback_closing [OF assms(1) cl] by (auto simp: safe_run_def) blast
  obtain wr where wr: "run_callback (Suc nested) E prog (func_read (callbacks p)) 0 w1 = Inr wr" "alive wr" "w_bev wr = Some b" "closing wr"
    using cb by blast
  obtain ww where ww: "run_callback (Suc nested) E prog (func_write (callbacks p)) 0 w1 = Inr ww" "alive ww" "w_bev ww = Some b" "closing ww"
    using cb by blast
  obtain wh where wh: "run_callback (Suc nested) E prog (func_heartbeat (callbacks p)) events w1 = Inr wh" "alive wh" "closing wh"
    using cb by blast
  have "\<exists>w2. readcb (Suc nested) E prog w1 = Inr w2 \<and> released w2"
    unfolding readcb_def p wr(1) rbind.simps(2) by (rule stamp_frees [OF wr(2-4) assms(1)]) simp_all
  moreover have "\<exists>w2. writecb (Suc nested) E prog w1 = Inr w2 \<and> released w2"
    unfolding writecb_def p ww(1) rbind.simps(2) by (rule stamp_frees [OF ww(2-4) assms(1)]) simp_all
  moreover have "\<exists>w2. heartbeatcb (Suc nested) E prog events w1 = Inr w2 \<and> released w2"
    unfolding heartbeatcb_def p wh(1) rbind.simps(2) by (rule free_if_closing_frees [OF wh(2,3) assms(1)])
  ultimately show ?thesis using w1(1) by blast
qed

theorem close_takes_effect_witness:
  "\<exists>w1. peerClose sample_world = Inr w1 \<and>
    (\<forall>m \<in> {readcb 1 sample_env sample_prog w1, writecb 1 sample_env sample_prog w1, heartbeatcb 1 sample_env sample_prog 1 w1}.
       \<exists>w2. m = Inr w2 \<and> released w2)"
proof -
  have "peer_reach sample_env sample_prog (Suc 0) sample_world"
    by (rule peer_reach.connect_to [OF sample_connects])
  moreover have "w_peer sample_world \<noteq> None"
    using connectTo_alive [OF sample_connects sample_fds] by (auto simp: alive_def)
  ultimately show ?thesis using close_takes_effect [OF sample_gentle sample_fds, of 0 sample_world 1] by simp
qed

end
