(* ===== verification/PeerClients.thy ===== *)
theory PeerClients
  imports Peer ObjectCodec "HOL-Library.Sublist"
begin

text \<open>
  The programs on top of peers and object messages: src/use/c/use-libevent_2.1.8/src, object_client.c,
  client.c, and the read callbacks of echo_server.c and simple_client.c.

  The input of a connection is the list of the bytes that have arrived. \<open>myReadCb\<close> of the object
  client cuts it into messages; its loop has fuel, and \<open>Diverges\<close> is the result of a loop that is not
  done when the fuel is used up. The callbacks of a client are also given as the calls they make of the
  peer interface, so that the theorems of \<open>Peer\<close> apply to it.
\<close>

section \<open>Messages of the object client\<close>

definition testEncodeDecode :: "(nat \<Rightarrow> bool) \<Rightarrow> (u64 \<times> u64) option \<Rightarrow> bytes \<Rightarrow> obj \<Rightarrow> string result" where
  "testEncodeDecode mem tv junk ob =
     (case encodeMsg mem tv junk ob of
        None \<Rightarrow> Inr []
      | Some stream_bytes \<Rightarrow>
          rbind (decodeMsg mem stream_bytes (int (length stream_bytes))) (\<lambda>r.
          case r of None \<Rightarrow> Inr [] | Some ob \<Rightarrow> printObj ob))"

definition testObj :: "(nat \<Rightarrow> bool) \<Rightarrow> u64 \<times> u64 \<Rightarrow> bytes \<Rightarrow> string result" where
  "testObj mem tv junk =
     rbind (testEncodeDecode mem (Some tv) junk (Foo 1 (strncpy_bytes 32 ''hello world''))) (\<lambda>s1.
     rbind (testEncodeDecode mem (Some tv) junk (Bar (replicate 31 (of_char CHR ''x'') @ [0]) 2)) (\<lambda>s2.
     rbind (testEncodeDecode mem (Some tv) junk (TimeRecord (fst tv) (snd tv))) (\<lambda>s3.
     Inr (s1 @ s2 @ s3))))"

text \<open>The bytes that the heartbeat and a line of input make the client send; \<open>req_id\<close> counts the lines.\<close>

definition myHeartbeat :: "(nat \<Rightarrow> bool) \<Rightarrow> (u64 \<times> u64) option \<Rightarrow> bytes \<Rightarrow> u64 \<times> u64 \<Rightarrow> bytes" where
  "myHeartbeat mem clock junk tv =
     (case encodeMsg mem clock junk (TimeRecord (fst tv) (snd tv)) of None \<Rightarrow> [] | Some stream_bytes \<Rightarrow> stream_bytes)"

definition manual_message :: "(nat \<Rightarrow> bool) \<Rightarrow> (u64 \<times> u64) option \<Rightarrow> bytes \<Rightarrow> u32 \<Rightarrow> bytes \<times> u32" where
  "manual_message mem clock junk req_id =
     (let req_id = req_id + 1 in
      ((case encodeMsg mem clock junk (Bar (strncpy_bytes 32 ''Hey, it's manual message'') req_id) of
          None \<Rightarrow> [] | Some stream_bytes \<Rightarrow> stream_bytes), req_id))"

section \<open>Reading messages\<close>

record client_state =
  input_ev :: bytes
  max_tv :: "u64 \<times> u64"
  screen :: string

definition show_interval :: "string \<Rightarrow> u64 \<times> u64 \<Rightarrow> string" where
  "show_interval label iv = label @ deci (sint (fst iv)) @ '', '' @ deci (sint (snd iv)) @ ''\<newline>''"

definition handle_obj :: "u64 \<times> u64 \<Rightarrow> obj \<Rightarrow> client_state \<Rightarrow> client_state result" where
  "handle_obj tv ob st =
     (case ob of
        TimeRecord sec usec \<Rightarrow>
          let interval = (fst tv - sec, snd tv - usec);
              st = st\<lparr>screen := screen st @ show_interval ''time interval: '' interval\<rparr>
          in Inr (if sint (fst interval) > sint (fst (max_tv st)) \<or>
                     sint (fst interval) = sint (fst (max_tv st)) \<and> sint (snd interval) > sint (snd (max_tv st))
                  then st\<lparr>max_tv := interval, screen := screen st @ show_interval ''max interval: '' interval\<rparr>
                  else st)
      | _ \<Rightarrow> rbind (printObj ob) (\<lambda>s. Inr (st\<lparr>screen := screen st @ s\<rparr>)))"

definition message_from :: "string \<Rightarrow> client_state \<Rightarrow> client_state" where
  "message_from connect_name st = st\<lparr>screen := screen st @ ''message from: '' @ connect_name @ ''\<newline>''\<rparr>"

text \<open>
  The comparison of the number of bytes with the length in the head is one of \<open>size_t\<close>, where a negative
  length is larger than any. \<open>pullup\<close> tells whether \<open>evbuffer_pullup\<close> succeeds.
\<close>

fun myReadCb :: "nat \<Rightarrow> (nat \<Rightarrow> bool) \<Rightarrow> (bytes \<Rightarrow> bool) \<Rightarrow> string \<Rightarrow> u64 \<times> u64 \<Rightarrow> client_state \<Rightarrow> client_state result" where
  "myReadCb 0 mem pullup connect_name tv st = Inl Diverges"
| "myReadCb (Suc fuel) mem pullup connect_name tv st =
     (if length (input_ev st) < 4 \<or> \<not> pullup (input_ev st) then Inr st
      else
        rbind (load32 (input_ev st) 0) (\<lambda>raw.
        let len = sint (util_ntoh_32 raw) in
        if 0 \<le> len \<and> nat len \<le> length (input_ev st) then
          if len \<noteq> 0 \<and> \<not> mem (nat len) then Inl NullDeref
          else
            let stream_bytes = take (nat len) (input_ev st);
                st = message_from connect_name (st\<lparr>input_ev := drop (nat len) (input_ev st)\<rparr>) in
            rbind (decodeMsg mem stream_bytes len) (\<lambda>r.
            rbind (case r of None \<Rightarrow> Inr st | Some ob \<Rightarrow> handle_obj tv ob st)
              (myReadCb fuel mem pullup connect_name tv))
        else Inr st))"

text \<open>Bytes arrive in pieces, each followed by a run of the callback at some time.\<close>

fun client_recv :: "(nat \<Rightarrow> bool) \<Rightarrow> (bytes \<Rightarrow> bool) \<Rightarrow> string \<Rightarrow> ((u64 \<times> u64) \<times> bytes) list \<Rightarrow> client_state \<Rightarrow> client_state result" where
  "client_recv mem pullup connect_name [] st = Inr st"
| "client_recv mem pullup connect_name ((tv, piece) # pieces) st =
     (let st = st\<lparr>input_ev := input_ev st @ piece\<rparr> in
      rbind (myReadCb (Suc (length (input_ev st))) mem pullup connect_name tv st)
        (client_recv mem pullup connect_name pieces))"

section \<open>The clients as users of peers\<close>

text \<open>The callbacks 1, 2 and 3 are \<open>myReadCb\<close>, \<open>myEventCb\<close> and \<open>myHeartbeat\<close>; \<open>period\<close> is the heartbeat interval.\<close>

definition client_prog :: "int \<times> int \<Rightarrow> prog" where
  "client_prog period f events =
     (if f = 2 then
        if events AND BEV_EVENT_CONNECTED \<noteq> 0 then [Api (Call_peerSetHeartbeat (Some 3) (Some period))] else []
      else [Api Call_bufferevent])"

definition object_client_prog :: prog where
  "object_client_prog = client_prog (2, 0)"

definition simple_peer_prog :: prog where
  "simple_peer_prog = client_prog (0, 50000)"

definition start_client :: "env \<Rightarrow> world \<Rightarrow> world result" where
  "start_client E w =
     rbind (peerConnectTo E ''127.0.0.1:40713'' w) (\<lambda>(ok, w).
     if \<not> ok then Inl NullDeref
     else rbind (peerSetCb (Some 1) None (Some 2) w) (peerSetReconn 1 0))"

section \<open>Reading in pieces of a buffer\<close>

text \<open>The loops of client.c, simple_client.c and echo_server.c read 128 bytes at a time until nothing is left.\<close>

function read_pieces :: "bytes \<Rightarrow> bytes list" where
  "read_pieces inp = (if inp = [] then [] else take 128 inp # read_pieces (drop 128 inp))"
  by pat_completeness auto
termination by (relation "measure length") auto

declare read_pieces.simps [simp del]

definition client_readcb :: "bytes \<Rightarrow> string" where
  "client_readcb inp = concat (map chars_of (read_pieces inp))"

definition echo_readcb :: "bytes \<Rightarrow> bytes \<Rightarrow> bytes" where
  "echo_readcb inp out = fold (\<lambda>buf out. out @ buf) (read_pieces inp) out"

lemma concat_read_pieces: "concat (read_pieces inp) = inp"
  by (induction inp rule: read_pieces.induct) (subst read_pieces.simps, simp)

lemma echo_readcb_eq: "echo_readcb inp out = out @ inp"
proof -
  have "fold (\<lambda>buf out. out @ buf) bs out = out @ concat bs" for bs and out :: bytes
    by (induction bs arbitrary: out) simp_all
  then show ?thesis by (simp add: echo_readcb_def concat_read_pieces)
qed

lemma client_readcb_eq: "client_readcb inp = chars_of inp"
proof -
  have "concat (map chars_of bs) = chars_of (concat bs)" for bs
    by (simp add: chars_of_def map_concat)
  then show ?thesis by (simp add: client_readcb_def concat_read_pieces)
qed

section \<open>Cutting the stream\<close>

text \<open>What the callback does with the objects of complete messages.\<close>

fun handle_objs :: "string \<Rightarrow> u64 \<times> u64 \<Rightarrow> obj list \<Rightarrow> client_state \<Rightarrow> client_state result" where
  "handle_objs connect_name tv [] st = Inr st"
| "handle_objs connect_name tv (ob # obs) st =
     rbind (handle_obj tv ob (message_from connect_name st)) (handle_objs connect_name tv obs)"

definition sendable :: "obj \<Rightarrow> bool" where
  "sendable ob \<longleftrightarrow> foo_ok ob \<or> bar_ok ob \<or> tr_ok ob"

text \<open>\<open>is_message ob msg\<close>: \<open>msg\<close> is an encoding of \<open>ob\<close>, at some time.\<close>

definition is_message :: "obj \<Rightarrow> bytes \<Rightarrow> bool" where
  "is_message ob msg \<longleftrightarrow> sendable ob \<and>
     (\<exists>clock junk. length junk = 16 \<and> encodeMsg (\<lambda>_. True) clock junk ob = Some msg)"

definition same_obj :: "obj \<Rightarrow> obj \<Rightarrow> bool" where
  "same_obj ob ob' \<longleftrightarrow> obj_view ob = obj_view ob'"

lemma message_head:
  assumes "is_message ob msg"
  shows "load32 (msg @ rest) 0 = Inr (util_hton_32 (of_nat (length msg)))" "24 \<le> length msg" "length msg \<le> 64"
  using assms encodeMsg_head by (auto simp: is_message_def sendable_def)

lemma message_decodes:
  assumes "is_message ob msg" "\<forall>n. mem n"
  shows "\<exists>ob'. decodeMsg mem msg (int (length msg)) = Inr (Some ob') \<and> same_obj ob ob'"
proof -
  obtain clock junk where enc: "length junk = 16" "encodeMsg (\<lambda>_. True) clock junk ob = Some msg" "sendable ob"
    using assms(1) by (auto simp: is_message_def)
  have mem: "mem = (\<lambda>_. True)" using assms(2) by auto
  have "\<exists>msg ob'. encodeMsg mem clock junk ob = Some msg \<and>
      decodeMsg mem (msg @ []) (int (length msg)) = Inr (Some ob') \<and> obj_view ob' = obj_view ob"
    using enc(3) foo.message_roundtrip [OF _ enc(1) assms(2)] bar.message_roundtrip [OF _ enc(1) assms(2)]
      tr.message_roundtrip [OF _ enc(1) assms(2)] unfolding sendable_def by blast
  then show ?thesis using enc(2) mem by (auto simp: same_obj_def)
qed

lemma handle_obj_ok:
  assumes "is_ok (printObj ob)"
  shows "\<exists>st'. handle_obj tv ob st = Inr st' \<and> input_ev st' = input_ev st"
  using assms by (auto simp: handle_obj_def Let_def is_ok_iff split: obj.splits)

lemma sint_len: "length msg \<le> 64 \<Longrightarrow> sint (util_ntoh_32 (util_hton_32 (of_nat (length msg)))) = int (length msg)"
  by (simp add: sint_of_nat_u32)

lemma message_from_input [simp]: "input_ev (message_from name st) = input_ev st"
  by (simp add: message_from_def)

lemma message_from_upd: "message_from name (st\<lparr>input_ev := y\<rparr>) = (message_from name st)\<lparr>input_ev := y\<rparr>"
  by (simp add: message_from_def)

lemma read_message:
  assumes "is_message ob msg" "\<forall>n. mem n" "\<forall>b. pullup b" "input_ev st = msg @ rest"
  shows "\<exists>ob'. same_obj ob ob' \<and> is_ok (printObj ob') \<and> myReadCb (Suc fuel) mem pullup name tv st =
    rbind (handle_obj tv ob' (message_from name (st\<lparr>input_ev := rest\<rparr>))) (myReadCb fuel mem pullup name tv)"
proof -
  note h = message_head [OF assms(1)]
  obtain ob' where ob': "decodeMsg mem msg (int (length msg)) = Inr (Some ob')" "same_obj ob ob'"
    using message_decodes [OF assms(1,2)] by blast
  have "is_ok (printObj ob')" using decoded_object [OF ob'(1)] by simp
  moreover have "myReadCb (Suc fuel) mem pullup name tv st =
      rbind (handle_obj tv ob' (message_from name (st\<lparr>input_ev := rest\<rparr>))) (myReadCb fuel mem pullup name tv)"
    using h(1) [of rest] h(2) sint_len [OF h(3)] assms(2-4) ob'(1) by (simp add: Let_def)
  ultimately show ?thesis using ob'(2) by blast
qed

lemma read_incomplete:
  assumes "is_message ob msg" "\<forall>b. pullup b" "strict_prefix part msg" "input_ev st = part"
  shows "myReadCb (Suc fuel) mem pullup name tv st = Inr st"
proof (cases "length part < 4")
  case True
  then show ?thesis using assms(4) by simp
next
  case False
  note h = message_head [OF assms(1)]
  obtain more where more: "msg = part @ more" "more \<noteq> []" using assms(3) by (auto simp: strict_prefix_def prefix_def)
  have "load32 part 0 = load32 msg 0" using False more(1) by (cases part) (auto simp: load32_def nth_append)
  then have "load32 part 0 = Inr (util_hton_32 (of_nat (length msg)))" using h(1) [of "[]"] by simp
  moreover have "length part < length msg" using more by simp
  ultimately show ?thesis using assms(4) sint_len [OF h(3)] by simp
qed

lemma handle_obj_input:
  "handle_obj tv ob st = Inr st' \<Longrightarrow> handle_obj tv ob (st\<lparr>input_ev := y\<rparr>) = Inr (st'\<lparr>input_ev := y\<rparr>)"
  by (auto simp: handle_obj_def Let_def rbind_Inr_iff split: obj.splits if_splits)

lemma handle_objs_input:
  "handle_objs name tv obs st = Inr st' \<Longrightarrow> handle_objs name tv obs (st\<lparr>input_ev := y\<rparr>) = Inr (st'\<lparr>input_ev := y\<rparr>)"
proof (induction obs arbitrary: st)
  case (Cons ob obs)
  then obtain st1 where st1: "handle_obj tv ob (message_from name st) = Inr st1" "handle_objs name tv obs st1 = Inr st'"
    by (auto simp: rbind_Inr_iff)
  then show ?case using Cons.IH [OF st1(2)] handle_obj_input [OF st1(1), of y] by (simp add: message_from_upd)
qed simp

text \<open>All complete messages at the front of the input are handled, the incomplete rest stays.\<close>

lemma read_messages:
  assumes "list_all2 is_message obs msgs" "\<forall>n. mem n" "\<forall>b. pullup b" "length obs < fuel"
    and "part = [] \<or> (\<exists>ob msg. is_message ob msg \<and> strict_prefix part msg)" "input_ev st = concat msgs @ part"
  shows "\<exists>obs' st'. list_all2 same_obj obs obs' \<and> myReadCb fuel mem pullup name tv st = Inr st' \<and>
    handle_objs name tv obs' (st\<lparr>input_ev := part\<rparr>) = Inr st' \<and> input_ev st' = part"
  using assms(1,4,6)
proof (induction obs arbitrary: msgs fuel st)
  case Nil
  then obtain k where k: "fuel = Suc k" by (cases fuel) simp_all
  have "input_ev st = part" using Nil by simp
  have "myReadCb fuel mem pullup name tv st = Inr st"
  proof (cases "part = []")
    case True
    then show ?thesis using k \<open>input_ev st = part\<close> by simp
  next
    case False
    then show ?thesis using assms(5) read_incomplete [OF _ assms(3) _ \<open>input_ev st = part\<close>] k by blast
  qed
  moreover have "st\<lparr>input_ev := part\<rparr> = st" using \<open>input_ev st = part\<close> by auto
  ultimately show ?case using \<open>input_ev st = part\<close> by (intro exI [of _ "[]"] exI [of _ st]) simp
next
  case (Cons ob obs)
  then obtain msg msgs' where msgs: "msgs = msg # msgs'" "is_message ob msg" "list_all2 is_message obs msgs'"
    by (cases msgs) auto
  obtain k where k: "fuel = Suc k" "length obs < k" using Cons.prems(2) by (cases fuel) auto
  obtain ob' where ob': "same_obj ob ob'" "is_ok (printObj ob')" "myReadCb fuel mem pullup name tv st =
      rbind (handle_obj tv ob' (message_from name (st\<lparr>input_ev := concat msgs' @ part\<rparr>))) (myReadCb k mem pullup name tv)"
    using read_message [OF msgs(2) assms(2,3), of st "concat msgs' @ part" k name tv] Cons.prems(3) msgs(1) k(1) by auto
  obtain st1 where st1: "handle_obj tv ob' (message_from name (st\<lparr>input_ev := concat msgs' @ part\<rparr>)) = Inr st1"
    "input_ev st1 = concat msgs' @ part"
    using handle_obj_ok [OF ob'(2)] by fastforce
  have move: "handle_obj tv ob' (message_from name (st\<lparr>input_ev := part\<rparr>)) = Inr (st1\<lparr>input_ev := part\<rparr>)"
    using handle_obj_input [OF st1(1), of part] by (simp add: message_from_upd)
  obtain obs' st' where st': "list_all2 same_obj obs obs'" "myReadCb k mem pullup name tv st1 = Inr st'"
    "handle_objs name tv obs' (st1\<lparr>input_ev := part\<rparr>) = Inr st'" "input_ev st' = part"
    using Cons.IH [OF msgs(3) k(2) st1(2)] by blast
  then show ?case using ob' st1(1) move by (intro exI [of _ "ob' # obs'"] exI [of _ st']) simp
qed

lemma cut_stream:
  assumes "list_all2 is_message obs msgs" "concat msgs = X @ Y"
  shows "\<exists>obs1 obs2 msgs1 msgs2 part. obs = obs1 @ obs2 \<and> list_all2 is_message obs1 msgs1 \<and> list_all2 is_message obs2 msgs2 \<and>
    X = concat msgs1 @ part \<and> concat msgs2 = part @ Y \<and> (part = [] \<or> (msgs2 \<noteq> [] \<and> strict_prefix part (hd msgs2))) \<and>
    msgs = msgs1 @ msgs2"
  using assms
proof (induction obs msgs arbitrary: X rule: list_all2_induct)
  case Nil
  then show ?case by (intro exI [of _ "[]"]) simp
next
  case (Cons ob obs msg msgs)
  show ?case
  proof (cases "length X < length msg")
    case True
    then have "strict_prefix X msg"
      using Cons.prems by (auto simp: append_eq_append_conv2 strict_prefix_def prefix_def)
    then show ?thesis using Cons.hyps Cons.prems
      by (intro exI [of _ "[]"] exI [of _ "ob # obs"] exI [of _ "[]"] exI [of _ "msg # msgs"] exI [of _ X]) simp
  next
    case False
    then obtain X' where X': "X = msg @ X'" "concat msgs = X' @ Y"
      using Cons.prems by (auto simp: append_eq_append_conv2)
    obtain obs1 obs2 msgs1 msgs2 part where IH: "obs = obs1 @ obs2" "list_all2 is_message obs1 msgs1" "list_all2 is_message obs2 msgs2"
      "X' = concat msgs1 @ part" "concat msgs2 = part @ Y" "part = [] \<or> (msgs2 \<noteq> [] \<and> strict_prefix part (hd msgs2))"
      "msgs = msgs1 @ msgs2"
      using Cons.IH [OF X'(2)] by blast
    then show ?thesis using Cons.hyps(1) X'(1)
      by (intro exI [of _ "ob # obs1"] exI [of _ obs2] exI [of _ "msg # msgs1"] exI [of _ msgs2] exI [of _ part]) simp
  qed
qed

fun handle_groups :: "string \<Rightarrow> ((u64 \<times> u64) \<times> obj list) list \<Rightarrow> client_state \<Rightarrow> client_state result" where
  "handle_groups name [] st = Inr st"
| "handle_groups name ((tv, obs) # groups) st = rbind (handle_objs name tv obs st) (handle_groups name groups)"

lemma number_of_messages: "list_all2 is_message obs msgs \<Longrightarrow> length obs \<le> length (concat msgs)"
  by (induction obs msgs rule: list_all2_induct) (auto dest: message_head(2))

text \<open>How many of the messages are complete in the first \<open>n\<close> bytes of their stream.\<close>

fun arrived :: "bytes list \<Rightarrow> nat \<Rightarrow> nat" where
  "arrived [] n = 0"
| "arrived (m # ms) n = (if length m \<le> n then Suc (arrived ms (n - length m)) else 0)"

lemma arrived_append: "arrived (ms @ ms') (length (concat ms) + n) = length ms + arrived ms' n"
  by (induction ms) simp_all

lemma arrived_all: "arrived ms (length (concat ms)) = length ms"
  using arrived_append [of ms "[]" 0] by simp

lemma arrived_part:
  assumes "list_all2 is_message obs msgs" "part = [] \<or> (msgs \<noteq> [] \<and> strict_prefix part (hd msgs))"
  shows "arrived msgs (length part) = 0"
proof (cases msgs)
  case (Cons m ms)
  then have "24 \<le> length m" using assms(1) message_head(2) by (auto simp: list_all2_Cons2)
  then show ?thesis using Cons assms(2) prefix_length_less by fastforce
qed simp

lemma arrived_le: "arrived ms n \<le> length ms"
  by (induction ms n rule: arrived.induct) simp_all

lemma recv_pieces:
  assumes "list_all2 is_message obs msgs" "\<forall>n. mem n" "\<forall>b. pullup b"
    and "input_ev st = [] \<or> (msgs \<noteq> [] \<and> strict_prefix (input_ev st) (hd msgs))"
    and "input_ev st @ concat (map snd pieces) = concat msgs"
  shows "\<exists>groups. length groups = length pieces \<and>
    (\<forall>j \<le> length pieces. \<exists>st' k. client_recv mem pullup name (take j pieces) st = Inr st' \<and>
      k = arrived msgs (length (input_ev st @ concat (map snd (take j pieces)))) \<and>
      list_all2 same_obj (take k obs) (concat (take j groups)) \<and>
      input_ev st' = drop (length (concat (take k msgs))) (input_ev st @ concat (map snd (take j pieces))) \<and>
      handle_groups name (zip (map fst (take j pieces)) (take j groups)) (st\<lparr>input_ev := []\<rparr>) = Inr (st'\<lparr>input_ev := []\<rparr>))"
  using assms(1,4,5)
proof (induction pieces arbitrary: obs msgs st)
  case Nil
  then show ?case using arrived_part [OF Nil.prems(1,2)] by (intro exI [of _ "[]"]) simp
next
  case (Cons tp pieces)
  obtain tv piece where tp: "tp = (tv, piece)" by (cases tp)
  let ?st = "st\<lparr>input_ev := input_ev st @ piece\<rparr>"
  obtain obs1 obs2 msgs1 msgs2 part where cut: "obs = obs1 @ obs2" "list_all2 is_message obs1 msgs1" "list_all2 is_message obs2 msgs2"
    "input_ev st @ piece = concat msgs1 @ part" "concat msgs2 = part @ concat (map snd pieces)"
    "part = [] \<or> (msgs2 \<noteq> [] \<and> strict_prefix part (hd msgs2))" "msgs = msgs1 @ msgs2"
    using cut_stream [OF Cons.prems(1), of "input_ev st @ piece" "concat (map snd pieces)"] Cons.prems(3) tp by auto
  have part: "part = [] \<or> (\<exists>ob msg. is_message ob msg \<and> strict_prefix part msg)"
    using cut(3,6) by (cases msgs2) (auto simp: list_all2_Cons2)
  have "length obs1 < Suc (length (input_ev ?st))" "input_ev ?st = concat msgs1 @ part"
    using number_of_messages [OF cut(2)] cut(4) by simp_all
  from read_messages [OF cut(2) assms(2,3) this(1) part this(2), of name tv]
  obtain obs' st1 where st1: "list_all2 same_obj obs1 obs'"
    "myReadCb (Suc (length (input_ev ?st))) mem pullup name tv ?st = Inr st1"
    "handle_objs name tv obs' (?st\<lparr>input_ev := part\<rparr>) = Inr st1" "input_ev st1 = part"
    by blast
  have first: "handle_objs name tv obs' (st\<lparr>input_ev := []\<rparr>) = Inr (st1\<lparr>input_ev := []\<rparr>)"
    using handle_objs_input [OF st1(3), of "[]"] by simp
  obtain groups where groups: "length groups = length pieces"
    "\<forall>j \<le> length pieces. \<exists>st' k. client_recv mem pullup name (take j pieces) st1 = Inr st' \<and>
      k = arrived msgs2 (length (part @ concat (map snd (take j pieces)))) \<and>
      list_all2 same_obj (take k obs2) (concat (take j groups)) \<and>
      input_ev st' = drop (length (concat (take k msgs2))) (part @ concat (map snd (take j pieces))) \<and>
      handle_groups name (zip (map fst (take j pieces)) (take j groups)) (st1\<lparr>input_ev := []\<rparr>) = Inr (st'\<lparr>input_ev := []\<rparr>)"
    using Cons.IH [OF cut(3), of st1] cut(5,6) st1(4) by auto
  have "\<exists>st' k. client_recv mem pullup name (take j (tp # pieces)) st = Inr st' \<and>
      k = arrived msgs (length (input_ev st @ concat (map snd (take j (tp # pieces))))) \<and>
      list_all2 same_obj (take k obs) (concat (take j (obs' # groups))) \<and>
      input_ev st' = drop (length (concat (take k msgs))) (input_ev st @ concat (map snd (take j (tp # pieces)))) \<and>
      handle_groups name (zip (map fst (take j (tp # pieces))) (take j (obs' # groups))) (st\<lparr>input_ev := []\<rparr>) = Inr (st'\<lparr>input_ev := []\<rparr>)"
    if "j \<le> length (tp # pieces)" for j
  proof (cases j)
    case 0
    then show ?thesis using arrived_part [OF Cons.prems(1,2)] by simp
  next
    case (Suc i)
    let ?X = "concat (map snd (take i pieces))"
    have i: "i \<le> length pieces" using that Suc by simp
    obtain st' k where st': "client_recv mem pullup name (take i pieces) st1 = Inr st'" "k = arrived msgs2 (length (part @ ?X))"
      "list_all2 same_obj (take k obs2) (concat (take i groups))" "input_ev st' = drop (length (concat (take k msgs2))) (part @ ?X)"
      "handle_groups name (zip (map fst (take i pieces)) (take i groups)) (st1\<lparr>input_ev := []\<rparr>) = Inr (st'\<lparr>input_ev := []\<rparr>)"
      using groups(2) [rule_format, OF i] by blast
    have len: "length msgs1 = length obs1" using cut(2) by (simp add: list_all2_lengthD)
    have X: "input_ev st @ concat (map snd (take j (tp # pieces))) = concat msgs1 @ part @ ?X" using Suc tp cut(4) by simp
    then have "arrived msgs (length (input_ev st @ concat (map snd (take j (tp # pieces))))) = length msgs1 + k"
      using arrived_append [of msgs1 msgs2 "length (part @ ?X)"] st'(2) cut(7) by simp
    moreover have "list_all2 same_obj (take (length msgs1 + k) obs) (concat (take j (obs' # groups)))"
      using Suc st1(1) st'(3) cut(1) len by (simp add: list_all2_appendI)
    moreover have "input_ev st' = drop (length (concat (take (length msgs1 + k) msgs))) (concat msgs1 @ part @ ?X)" using st'(4) cut(7) by simp
    moreover have "client_recv mem pullup name (take j (tp # pieces)) st = Inr st'" using Suc tp st1(2) st'(1) by (simp del: myReadCb.simps)
    moreover have "handle_groups name (zip (map fst (take j (tp # pieces))) (take j (obs' # groups))) (st\<lparr>input_ev := []\<rparr>) = Inr (st'\<lparr>input_ev := []\<rparr>)"
      using Suc tp first st'(5) by simp
    ultimately show ?thesis unfolding X by (intro exI [of _ st'] exI [of _ "length msgs1 + k"]) (simp only: simp_thms)
  qed
  then show ?case using groups(1) by (intro exI [of _ "obs' # groups"]) auto
qed

section \<open>Theorems\<close>

text \<open>
  C16. However the network cuts the stream of messages into pieces, as long as memory can be allocated and the buffer made contiguous, the object client
  has handled, after each run of its callback, exactly the objects whose messages were complete in the bytes that had arrived, in order and up to the
  bytes after the texts: each object is handled in the run in which its last byte has arrived, with the time of that run. The bytes of a message that
  is not complete stay in the buffer, and nothing is left over when the stream ends.
\<close>

theorem client_receives_objects:
  assumes "list_all2 is_message obs msgs" "\<forall>n. mem n" "\<forall>b. pullup b" "input_ev st = []"
    and "concat (map snd pieces) = concat msgs"
  shows "\<exists>groups. length groups = length pieces \<and> list_all2 same_obj obs (concat groups) \<and>
    (\<forall>j \<le> length pieces. \<exists>st'. client_recv mem pullup connect_name (take j pieces) st = Inr st' \<and>
      length (concat (take j groups)) = arrived msgs (length (concat (map snd (take j pieces)))) \<and>
      input_ev st' = drop (length (concat (take (length (concat (take j groups))) msgs))) (concat (map snd (take j pieces))) \<and>
      handle_groups connect_name (zip (map fst (take j pieces)) (take j groups)) st = Inr (st'\<lparr>input_ev := []\<rparr>))"
proof -
  have "st\<lparr>input_ev := []\<rparr> = st" using assms(4) by (cases st) simp
  with recv_pieces [OF assms(1-3), of st pieces connect_name] assms(4,5) obtain groups where g: "length groups = length pieces"
    "\<forall>j \<le> length pieces. \<exists>st' k. client_recv mem pullup connect_name (take j pieces) st = Inr st' \<and>
      k = arrived msgs (length (concat (map snd (take j pieces)))) \<and> list_all2 same_obj (take k obs) (concat (take j groups)) \<and>
      input_ev st' = drop (length (concat (take k msgs))) (concat (map snd (take j pieces))) \<and>
      handle_groups connect_name (zip (map fst (take j pieces)) (take j groups)) st = Inr (st'\<lparr>input_ev := []\<rparr>)" by auto
  have len: "length obs = length msgs" using assms(1) by (rule list_all2_lengthD)
  have "length (concat (take j groups)) = arrived msgs (length (concat (map snd (take j pieces))))"
    if "list_all2 same_obj (take (arrived msgs (length (concat (map snd (take j pieces))))) obs) (concat (take j groups))" for j
    using list_all2_lengthD [OF that] arrived_le [of msgs "length (concat (map snd (take j pieces)))"] len by simp
  moreover have "list_all2 same_obj obs (concat groups)"
    using g(2) [rule_format, of "length pieces"] g(1) arrived_all [of msgs] assms(5) len by auto
  ultimately show ?thesis using g by (intro exI [of _ groups]) fastforce
qed

text \<open>A message in two pieces: after the first nothing is handled, and its bytes wait.\<close>

theorem client_receives_objects_witness:
  "\<exists>msg groups. 24 \<le> length msg \<and> list_all2 same_obj [TimeRecord 7 8] (concat groups) \<and> concat (take 1 groups) = [] \<and>
    (\<exists>st'. client_recv (\<lambda>n. True) (\<lambda>b. True) ''my server'' (take 1 [((1, 2), take 5 msg), ((3, 4), drop 5 msg)])
      \<lparr>input_ev = [], max_tv = (0, 0), screen = []\<rparr> = Inr st' \<and> input_ev st' = take 5 msg)"
proof -
  obtain msg where enc: "encodeMsg (\<lambda>_. True) None (replicate 16 0) (TimeRecord 7 8) = Some msg"
    by (simp add: encodeMsg_def OBJ_TYPE_MAX_def Let_def)
  have "is_message (TimeRecord 7 8) msg"
    unfolding is_message_def sendable_def tr_ok_def using enc by (intro conjI exI [of _ None] exI [of _ "replicate 16 0"]) simp_all
  then have len: "24 \<le> length msg" and "list_all2 is_message [TimeRecord 7 8] [msg]" using message_head(2) by simp_all
  let ?ps = "[((1, 2), take 5 msg), ((3, 4), drop 5 msg)] :: ((u64 \<times> u64) \<times> bytes) list" and ?st = "\<lparr>input_ev = [], max_tv = (0, 0), screen = []\<rparr>"
  have "concat (map snd ?ps) = concat [msg]" by simp
  from client_receives_objects [OF \<open>list_all2 is_message [TimeRecord 7 8] [msg]\<close> _ _ _ this, of "\<lambda>n. True" "\<lambda>b. True" ?st "''my server''"]
  obtain groups where g: "list_all2 same_obj [TimeRecord 7 8] (concat groups)"
    "\<forall>j \<le> length ?ps. \<exists>st'. client_recv (\<lambda>n. True) (\<lambda>b. True) ''my server'' (take j ?ps) ?st = Inr st' \<and>
      length (concat (take j groups)) = arrived [msg] (length (concat (map snd (take j ?ps)))) \<and>
      input_ev st' = drop (length (concat (take (length (concat (take j groups))) [msg]))) (concat (map snd (take j ?ps))) \<and>
      handle_groups ''my server'' (zip (map fst (take j ?ps)) (take j groups)) ?st = Inr (st'\<lparr>input_ev := []\<rparr>)"
    by (simp only: client_state.select_convs) blast
  obtain st' where "client_recv (\<lambda>n. True) (\<lambda>b. True) ''my server'' (take 1 ?ps) ?st = Inr st'" "length (concat (take 1 groups)) = arrived [msg] 5"
    "input_ev st' = drop (length (concat (take (length (concat (take 1 groups))) [msg]))) (take 5 msg)"
    using g(2) [rule_format, of 1] len by auto
  moreover have "arrived [msg] 5 = 0" using len by simp
  ultimately have "client_recv (\<lambda>n. True) (\<lambda>b. True) ''my server'' (take 1 ?ps) ?st = Inr st'" "concat (take 1 groups) = []" "input_ev st' = take 5 msg"
    by simp_all
  then show ?thesis using g(1) len by blast
qed

text \<open>The places in the input where a message begins, and the length that its head gives.\<close>

inductive message_at :: "bytes \<Rightarrow> nat \<Rightarrow> bool" for inp where
  first: "message_at inp 0"
| following: "message_at inp k \<Longrightarrow> load32 inp k = Inr raw \<Longrightarrow> 0 < sint (util_ntoh_32 raw) \<Longrightarrow>
    k + nat (sint (util_ntoh_32 raw)) \<le> length inp \<Longrightarrow> message_at inp (k + nat (sint (util_ntoh_32 raw)))"

lemma decoders_return:
  "fooDecode block buf len \<noteq> Inl Diverges" "barDecode block buf len \<noteq> Inl Diverges" "trDecode block buf len \<noteq> Inl Diverges"
  by (auto simp: fooDecode_def barDecode_def trDecode_def Let_def rbind_Inl_iff load32_def load64_def put_field_def read_range_def
      split: if_splits)

lemma decodeMsg_returns: "decodeMsg mem buf len \<noteq> Inl Diverges"
proof -
  have "i < length obj_fn \<Longrightarrow> fn_decode (obj_fn ! i) block buf n \<noteq> Inl Diverges" for i block n
    using decoders_return by (cases i) (auto simp: obj_fn_def nth_Cons split: nat.splits)
  then show ?thesis
    by (auto simp: decodeMsg_def Let_def rbind_Inl_iff load32_def load64_def put_field_def split: if_splits option.splits)
qed

lemma handle_obj_returns: "handle_obj tv ob st \<noteq> Inl Diverges"
  by (cases ob) (auto simp: handle_obj_def Let_def rbind_Inl_iff printObj_def obj_fn_def fooPrint_def barPrint_def fmt_str_def
      split: if_splits)

lemma handle_obj_keeps_input: "handle_obj tv ob st = Inr st' \<Longrightarrow> input_ev st' = input_ev st"
  by (auto simp: handle_obj_def Let_def rbind_Inr_iff split: obj.splits if_splits)

lemma load32_drop: "k \<le> length inp \<Longrightarrow> load32 (drop k inp) 0 = load32 inp k"
  by (auto simp: load32_def add.commute)

lemma diverges_zero:
  assumes "myReadCb fuel mem pullup name tv st = Inl Diverges" "length (input_ev st) < fuel"
    and "input_ev st = drop k inp" "k \<le> length inp" "message_at inp k"
  shows "\<exists>j raw. message_at inp j \<and> load32 inp j = Inr raw \<and> sint (util_ntoh_32 raw) = 0"
  using assms
proof (induction fuel arbitrary: st k)
  case (Suc fuel)
  have long: "\<not> length (input_ev st) < 4" "pullup (input_ev st)" using Suc.prems(1) by (auto split: if_splits)
  then obtain raw where raw: "load32 (input_ev st) 0 = Inr raw" by (auto simp: load32_def)
  then have raw': "load32 inp k = Inr raw" using Suc.prems(3,4) load32_drop by simp
  let ?len = "sint (util_ntoh_32 raw)"
  let ?st = "message_from name (st\<lparr>input_ev := drop (nat ?len) (input_ev st)\<rparr>)"
  show ?case
  proof (cases "?len = 0")
    case False
    have fits: "0 < ?len" "nat ?len \<le> length (input_ev st)"
      using Suc.prems(1) raw long False by (auto simp: Let_def split: if_splits)
    obtain r where r: "rbind (case r of None \<Rightarrow> Inr ?st | Some ob \<Rightarrow> handle_obj tv ob ?st) (myReadCb fuel mem pullup name tv) = Inl Diverges"
      using Suc.prems(1) raw long fits decodeMsg_returns by (auto simp: Let_def rbind_Inl_iff [of "decodeMsg _ _ _"] split: if_splits)
    obtain st1 where st1: "myReadCb fuel mem pullup name tv st1 = Inl Diverges" "input_ev st1 = drop (nat ?len) (input_ev st)"
      using r handle_obj_returns by (cases r) (auto simp: rbind_Inl_iff dest: handle_obj_keeps_input)
    have next_at: "message_at inp (k + nat ?len)"
      using message_at.following [OF Suc.prems(5) raw' fits(1)] fits(2) Suc.prems(3,4) by simp
    show ?thesis
    proof (rule Suc.IH [OF st1(1) _ _ _ next_at])
      show "length (input_ev st1) < fuel" using st1(2) fits Suc.prems(2) by simp
      show "input_ev st1 = drop (k + nat ?len) inp" using st1(2) Suc.prems(3) by (simp add: add.commute)
      show "k + nat ?len \<le> length inp" using fits(2) Suc.prems(3,4) by simp
    qed
  qed (use Suc.prems(5) raw' in blast)
qed simp

text \<open>
  The loop of the read callback ends, with one round for each byte of input and one more as a bound,
  on every input, correct or not, in which no message has the length zero.
\<close>

theorem read_callback_ends:
  assumes "\<forall>k raw. message_at (input_ev st) k \<longrightarrow> load32 (input_ev st) k = Inr raw \<longrightarrow> sint (util_ntoh_32 raw) \<noteq> 0"
  shows "myReadCb (Suc (length (input_ev st))) mem pullup connect_name tv st \<noteq> Inl Diverges"
  using diverges_zero [of "Suc (length (input_ev st))" mem pullup connect_name tv st 0 "input_ev st"] assms message_at.first
  by auto

theorem read_callback_ends_witness:
  "myReadCb (Suc (length [0, 0, 0, 9, 1, 2 :: u8])) (\<lambda>n. True) (\<lambda>b. True) ''s'' (0, 0)
     \<lparr>input_ev = [0, 0, 0, 9, 1, 2], max_tv = (0, 0), screen = []\<rparr> \<noteq> Inl Diverges"
proof -
  have len: "load32 [0, 0, 0, 9, 1, 2] 0 = Inr raw \<Longrightarrow> sint (util_ntoh_32 raw) = 9" for raw
    by (auto simp: load32_def le32_def util_ntoh_32_def util_hton_32_def little util_ex_32_def)
  let ?st = "\<lparr>input_ev = [0, 0, 0, 9, 1, 2], max_tv = (0, 0), screen = []\<rparr>"
  have only: "k = 0" if "message_at [0, 0, 0, 9, 1, 2] k" for k
    using that by (induction rule: message_at.induct) (auto dest: len)
  have "\<forall>k raw. message_at (input_ev ?st) k \<longrightarrow> load32 (input_ev ?st) k = Inr raw \<longrightarrow> sint (util_ntoh_32 raw) \<noteq> 0"
  proof (intro allI impI)
    fix k raw assume "message_at (input_ev ?st) k" "load32 (input_ev ?st) k = Inr raw"
    then have "sint (util_ntoh_32 raw) = 9" using only [of k] len [of raw] by simp
    then show "sint (util_ntoh_32 raw) \<noteq> 0" by linarith
  qed
  from read_callback_ends [OF this, of "\<lambda>n. True" "\<lambda>b. True" "''s''" "(0, 0)"] show ?thesis
    by (simp only: client_state.select_convs not_False_eq_True)
qed

text \<open>
  Four zero bytes where a message should begin make the callback loop for ever: a message of length
  zero is removed from the input again and again without the input becoming shorter.
\<close>

theorem zero_length_hangs:
  assumes "pullup (0 # 0 # 0 # 0 # rest)" "input_ev st = 0 # 0 # 0 # 0 # rest"
  shows "myReadCb fuel mem pullup connect_name tv st = Inl Diverges"
  using assms(2)
proof (induction fuel arbitrary: st)
  case (Suc fuel)
  have raw: "load32 (input_ev st) 0 = Inr 0" using Suc.prems by (simp add: load32_def le32_def)
  have zero: "sint (util_ntoh_32 0) = 0" by (simp add: util_ntoh_32_def util_hton_32_def util_ex_32_def)
  have "decodeMsg mem [] 0 = Inr None" by (simp add: decodeMsg_def sizeof_streamHead_def)
  then show ?case using Suc raw zero assms(1) by (simp add: Let_def)
qed simp

theorem zero_length_hangs_witness:
  "myReadCb 1000 (\<lambda>n. True) (\<lambda>b. True) ''my server'' (0, 0)
     \<lparr>input_ev = [0, 0, 0, 0], max_tv = (0, 0), screen = []\<rparr> = Inl Diverges"
  by (rule zero_length_hangs [of _ "[]"]) simp_all

section \<open>Clients stay connected\<close>

text \<open>The states of a client after it was started and events have happened.\<close>

inductive client_run :: "env \<Rightarrow> int \<times> int \<Rightarrow> world \<Rightarrow> bool" for E period where
  started: "start_client E (no_world [] now) = Inr w \<Longrightarrow> client_run E period w"
| event: "client_run E period w \<Longrightarrow> peer_event E (client_prog period) (Suc 0) w (Inr w') \<Longrightarrow> client_run E period w'"

text \<open>What the callbacks of a client leave as it is: the flags, the connection, the timer for reconnecting.\<close>

definition quiet :: "world \<Rightarrow> world \<Rightarrow> bool" where
  "quiet w w' \<longleftrightarrow> alive w' \<and> w_bev w' = w_bev w \<and>
     (\<forall>p. w_peer w = Some p \<longrightarrow> (\<exists>p'. w_peer w' = Some p' \<and> flag p' = flag p \<and> rc_ev (reconn p') = rc_ev (reconn p) \<and>
        (\<forall>i. rc_ev (reconn p) = Some i \<longrightarrow> w_timers w' i = w_timers w i)))"

lemma quiet_trans: "quiet w w' \<Longrightarrow> quiet w' w'' \<Longrightarrow> quiet w w''"
  by (auto simp: quiet_def)

lemma quiet_refl: "alive w \<Longrightarrow> quiet w w"
  by (auto simp: quiet_def)

lemma quiet_ran: "alive w \<Longrightarrow> quiet w (w\<lparr>w_ran := l\<rparr>)"
  by (auto simp: quiet_def alive_ran)

lemma heartbeat_quiet:
  assumes "alive w" "peerSetHeartbeat E f (Some t) w = Inr (ret, w')"
  shows "quiet w w'"
proof -
  obtain p b where p: "w_peer w = Some p" "w_bev w = Some b" "timers_ok p b w" using assms(1) by (auto simp: alive_def)
  have other: "rc_ev (reconn p) = Some i \<Longrightarrow> hb_ev (heartbeat p) \<noteq> Some i \<and> i \<noteq> w_next w" for i
    using p(3) by (fastforce simp: timers_ok_def)
  have "alive w'" "w_bev w' = Some b"
    using phb.keeps [OF assms(1) p(2), of E f t] assms(2) by simp_all
  moreover have "\<exists>p'. w_peer w' = Some p' \<and> flag p' = flag p \<and> rc_ev (reconn p') = rc_ev (reconn p) \<and>
      (\<forall>i. rc_ev (reconn p) = Some i \<longrightarrow> w_timers w' i = w_timers w i)"
    using assms(2) p(1) other
    by (auto simp: peerSetHeartbeat_def upd_peer_def the_peer_def event_new_def event_add_def event_free_def tick_def
        split: option.splits if_splits prod.splits)
  ultimately show ?thesis using p by (simp add: quiet_def)
qed

lemma client_callback_quiet:
  assumes "alive w"
  shows "\<exists>w'. run_callback n E (client_prog period) f events w = Inr w' \<and> quiet w w'"
proof (cases f)
  case (Some g)
  let ?w = "w\<lparr>w_ran := w_ran w @ [g]\<rparr>"
  have w: "alive ?w" "quiet w ?w" using assms by (simp_all add: alive_ran quiet_ran)
  then obtain b p where b: "w_bev ?w = Some b" "w_peer ?w = Some p" by (auto simp: alive_def)
  obtain ret w' where hb: "peerSetHeartbeat E (Some 3) (Some period) ?w = Inr (ret, w')"
    using phb.keeps [OF w(1) b(1), of E "Some 3" period] by (auto simp: safe_run_def rbind_Inr_iff)
  have "quiet w w'" using quiet_trans [OF w(2) heartbeat_quiet [OF w(1) hb]] .
  then show ?thesis using Some w b hb by (auto simp: run_callback_def client_prog_def the_peer_def the_bev_def)
qed (use assms in \<open>auto simp: run_callback_def quiet_refl\<close>)

definition retrying :: "world \<Rightarrow> bool" where
  "retrying w \<longleftrightarrow> (\<exists>p b. w_peer w = Some p \<and> w_bev w = Some b \<and> flag p = PEER_AUTO_RECONNECT \<and>
     (b_conn b = Idle \<longrightarrow> (\<exists>i t. rc_ev (reconn p) = Some i \<and> w_timers w i = Some t \<and> t_pending t \<and> t_fn t = Fn_reconncb)))"

definition client_inv :: "world \<Rightarrow> bool" where
  "client_inv w \<longleftrightarrow> alive w \<and> retrying w"

lemma retrying_quiet: "retrying w \<Longrightarrow> quiet w w' \<Longrightarrow> client_inv w'"
  unfolding retrying_def quiet_def client_inv_def by (elim exE conjE) (simp, metis)

lemma auto_not_closing: "PEER_AUTO_RECONNECT AND PEER_WAIT_CLOSE = 0" "PEER_AUTO_RECONNECT AND PEER_AUTO_RECONNECT \<noteq> 0"
  by (simp_all add: PEER_AUTO_RECONNECT_def PEER_WAIT_CLOSE_def)

lemma not_closed: "retrying w \<Longrightarrow> free_if_closing n E prog w = Inr w"
  by (auto simp: retrying_def free_if_closing_def the_peer_def auto_not_closing)

lemma stamp_quiet:
  assumes "alive w" "\<And>p. has_bev (f p) = has_bev p" "\<And>p. heartbeat (f p) = heartbeat p" "\<And>p. reconn (f p) = reconn p" "\<And>p. flag (f p) = flag p"
  shows "\<exists>w'. upd_peer w f = Inr w' \<and> quiet w w'"
proof -
  obtain p b where "w_peer w = Some p" "w_bev w = Some b" using assms(1) by (auto simp: alive_def)
  then show ?thesis using assms upd_peer_keeps [OF assms(1), of b f] by (auto simp: upd_peer_def the_peer_def quiet_def)
qed

lemma start_reconn_retries:
  assumes "alive w" "w_bev w = Some b" "b_conn b \<noteq> Idle" "w_peer w = Some p" "flag p = PEER_AUTO_RECONNECT"
    and "has_base E" "\<forall>n. outcome E n"
  shows "\<exists>w'. peerStartReconn E w = Inr w' \<and> client_inv w'"
proof -
  obtain w' where w': "peerStartReconn E w = Inr w'" "alive w'"
    using peerStartReconn_keeps [OF assms(1-3), of E] by (auto simp: safe_run_def)
  have "retrying w'" using w'(1) assms
    by (auto simp: peerStartReconn_def the_peer_def the_bev_def upd_bev_def event_new_def event_add_def evutil_closesocket_def
        succeeds_def tick_def upd_peer_def Let_def retrying_def split: if_splits)
  then show ?thesis using w' by (simp add: client_inv_def)
qed

lemma stop_reconn_flag:
  assumes "alive w" "w_bev w = Some b" "w_peer w = Some p"
  shows "\<exists>w' p'. peerStopReconn w = Inr w' \<and> alive w' \<and> w_bev w' = Some b \<and> w_peer w' = Some p' \<and> flag p' = flag p"
  using pst.keeps [OF assms(1,2)] assms(3)
  by (auto simp: safe_run_def peerStopReconn_def the_peer_def upd_peer_def event_free_def split: option.splits)

lemma client_stamp:
  assumes "client_inv w"
    and "\<And>w p. has_bev (g w p) = has_bev p" "\<And>w p. heartbeat (g w p) = heartbeat p" "\<And>w p. reconn (g w p) = reconn p"
      "\<And>w p. flag (g w p) = flag p"
  shows "\<exists>w'. rbind (run_callback n E (client_prog period) f events w) (\<lambda>w. rbind (the_bev w) (\<lambda>b.
    rbind (upd_peer w (g w)) (free_if_closing n E (client_prog period)))) = Inr w' \<and> client_inv w'"
proof -
  have a: "alive w" "retrying w" using assms(1) by (simp_all add: client_inv_def)
  obtain w1 where w1: "run_callback n E (client_prog period) f events w = Inr w1" "quiet w w1"
    using client_callback_quiet [OF a(1)] by blast
  then obtain b where b: "alive w1" "w_bev w1 = Some b" by (auto simp: quiet_def alive_def)
  obtain w2 where w2: "upd_peer w1 (g w1) = Inr w2" "quiet w1 w2"
    using stamp_quiet [OF b(1), of "g w1"] assms(2-5) by blast
  have "client_inv w2" using retrying_quiet [OF a(2) quiet_trans [OF w1(2) w2(2)]] .
  then show ?thesis using w1(1) w2(1) b(2) not_closed [of w2] by (auto simp: the_bev_def client_inv_def)
qed

lemma client_readcb_inv:
  assumes "client_inv w"
  shows "\<exists>w'. readcb n E (client_prog period) w = Inr w' \<and> client_inv w'" "\<exists>w'. writecb n E (client_prog period) w = Inr w' \<and> client_inv w'"
proof -
  obtain p where p: "check_bev w = Inr p" using check_bev_alive assms by (auto simp: client_inv_def)
  show "\<exists>w'. readcb n E (client_prog period) w = Inr w' \<and> client_inv w'"
    unfolding readcb_def p rbind.simps(2) by (rule client_stamp [OF assms]) simp_all
  show "\<exists>w'. writecb n E (client_prog period) w = Inr w' \<and> client_inv w'"
    unfolding writecb_def p rbind.simps(2) by (rule client_stamp [OF assms]) simp_all
qed

lemma client_heartbeatcb_inv:
  assumes "client_inv w"
  shows "\<exists>w'. heartbeatcb n E (client_prog period) events w = Inr w' \<and> client_inv w'"
proof -
  have a: "alive w" "retrying w" using assms by (simp_all add: client_inv_def)
  then obtain p where p: "the_peer w = Inr p" by (auto simp: the_peer_def alive_def)
  obtain w1 where w1: "run_callback n E (client_prog period) (func_heartbeat (callbacks p)) events w = Inr w1" "quiet w w1"
    using client_callback_quiet [OF a(1)] by blast
  have "client_inv w1" using retrying_quiet [OF a(2) w1(2)] .
  then show ?thesis using w1(1) p not_closed [of w1] by (auto simp: heartbeatcb_def client_inv_def)
qed

lemma client_eventcb_inv:
  assumes "alive w" "w_bev w = Some b" "b_conn b \<noteq> Idle" "w_peer w = Some p" "flag p = PEER_AUTO_RECONNECT"
    and "has_base E" "\<forall>n. outcome E n"
  shows "\<exists>w'. eventcb n E (client_prog period) events w = Inr w' \<and> client_inv w'"
proof -
  obtain q where q: "check_bev w = Inr q" using check_bev_alive [OF assms(1)] by blast
  obtain w1 p1 where w1: "(if events AND BEV_EVENT_CONNECTED \<noteq> 0 then peerStopReconn w else Inr w) = Inr w1" "alive w1" "w_bev w1 = Some b"
    "w_peer w1 = Some p1" "flag p1 = PEER_AUTO_RECONNECT"
    using stop_reconn_flag [OF assms(1,2,4)] assms(1,2,4,5) by (cases "events AND BEV_EVENT_CONNECTED = 0") auto
  have r1: "retrying w1" using w1(3-5) assms(3) by (simp add: retrying_def)
  obtain w2 where w2: "run_callback n E (client_prog period) (func_event (callbacks p1)) events w1 = Inr w2" "quiet w1 w2"
    using client_callback_quiet [OF w1(2)] by blast
  then obtain p2 where p2: "alive w2" "w_bev w2 = Some b" "w_peer w2 = Some p2" "flag p2 = PEER_AUTO_RECONNECT"
    using w1(3-5) by (auto simp: quiet_def)
  have fin: "client_inv w2" using retrying_quiet [OF r1 w2(2)] .
  obtain w3 where w3: "peerStartReconn E w2 = Inr w3" "client_inv w3"
    using start_reconn_retries [OF p2(1,2) assms(3) p2(3,4) assms(6,7)] by blast
  show ?thesis unfolding eventcb_def q rbind.simps(2) w1(1) the_peer_def w1(4) option.case w2(1)
    using fin w3 p2(3,4) auto_not_closing(2) by simp
qed

lemma client_event_inv:
  assumes "peer_event E (client_prog period) n w r" "client_inv w" "has_base E" "\<forall>n. outcome E n" "\<forall>n. 0 < new_fd E n"
  shows "\<exists>w'. r = Inr w' \<and> client_inv w'"
proof -
  obtain p b where p: "alive w" "w_peer w = Some p" "w_bev w = Some b" "flag p = PEER_AUTO_RECONNECT"
    using assms(2) by (auto simp: client_inv_def retrying_def)
  show ?thesis using assms(1)
  proof cases
    case (on_read b)
    then show ?thesis using client_readcb_inv(1) [OF assms(2)] by simp
  next
    case (on_write b)
    then show ?thesis using client_readcb_inv(2) [OF assms(2)] by simp
  next
    case (on_connected b')
    then have "alive (w\<lparr>w_bev := Some (b'\<lparr>b_conn := Connected\<rparr>)\<rparr>)" using connected_alive [OF p(1)] by simp
    then show ?thesis using client_eventcb_inv [OF _ _ _ _ p(4) assms(3,4)] on_connected(1) p(2) by simp
  next
    case (on_failure b' events)
    then show ?thesis using client_eventcb_inv [OF p(1) _ _ p(2,4) assms(3,4)] by simp
  next
    case (on_heartbeat i t events)
    have "timers_ok p b w" using p(1) alive_iff [OF p(2,3)] by blast
    then have "t\<lparr>t_pending := t_persist t\<rparr> = t" using pending_heartbeat(2) [OF _ on_heartbeat(2-4)] on_heartbeat(3) by simp
    then have "(w_timers w)(i \<mapsto> t\<lparr>t_pending := t_persist t\<rparr>) = w_timers w" using on_heartbeat(2) by (simp add: fun_upd_idem_iff)
    then show ?thesis using client_heartbeatcb_inv [OF assms(2)] on_heartbeat(1) by simp
  next
    case (on_reconn i t)
    obtain w' where w': "r = Inr w'" "alive w'" using reconncb_inv [OF p(1) on_reconn(2-4) assms(5)] on_reconn(1) by blast
    moreover have "retrying w'" using w'(1) on_reconn(1) p assms(4)
      by (auto simp: retrying_def reconncb_def the_peer_def the_bev_def bufferevent_socket_connect_def succeeds_def tick_def
          Let_def split: if_splits)
    ultimately show ?thesis by (simp add: client_inv_def)
  next
    case (on_time now)
    then show ?thesis using assms(2) by (simp add: client_inv_def retrying_def alive_def)
  qed
qed

lemma start_client_inv:
  assumes "start_client E (no_world [] now) = Inr w" "\<forall>n. 0 < new_fd E n"
  shows "client_inv w"
proof -
  obtain w0 where w0: "peerConnectTo E ''127.0.0.1:40713'' (no_world [] now) = Inr (True, w0)"
    "rbind (peerSetCb (Some 1) None (Some 2) w0) (peerSetReconn 1 0) = Inr w"
    using assms(1) by (auto simp: start_client_def rbind_Inr_iff split: if_splits)
  have a0: "alive w0" using connectTo_alive [OF w0(1) assms(2)] .
  obtain p0 b0 where p0: "w_peer w0 = Some p0" "flag p0 = 0" "w_bev w0 = Some b0" "b_conn b0 = Connecting"
    using w0(1) assms(2)
    by (auto simp: peerConnectTo_def bufferevent_socket_connect_def the_bev_def upd_bev_def bufferevent_free_def tick_def no_world_def
        Let_def new_peer_def split: option.splits if_splits)
  have "safe_run b0 (rbind (peerSetCb (Some 1) None (Some 2) w0) (peerSetReconn 1 0))"
    unfolding peerSetCb_def by (auto intro!: safe_run_rbind prd.keeps pwr.keeps pev.keeps prc.keeps a0 p0(3))
  then have "alive w" "w_bev w = Some b0" using w0(2) by simp_all
  moreover have "\<exists>p. w_peer w = Some p \<and> flag p = PEER_AUTO_RECONNECT" using w0(2) p0(1,2)
    by (auto simp: peerSetCb_def peerSetReadCb_def peerSetWriteCb_def peerSetEventCb_def peerSetReconn_def upd_peer_def the_peer_def)
  ultimately show ?thesis using p0(4) by (auto simp: client_inv_def retrying_def)
qed

lemma client_run_inv:
  assumes "client_run E period w" "has_base E" "\<forall>n. outcome E n" "\<forall>n. 0 < new_fd E n"
  shows "client_inv w"
  using assms(1)
proof induction
  case (started now w)
  then show ?case using start_client_inv assms(4) by blast
next
  case (event w w')
  then show ?case using client_event_inv [OF event(2) _ assms(2-4)] by simp
qed

text \<open>
  A client of the samples never gives up its peer: after any events the peer exists, no event makes
  it fault, and while it is not connected and not connecting, the timer for the next attempt is
  pending; this for both samples, whatever their heartbeat interval, as long as the library has memory.
\<close>

theorem client_keeps_trying:
  assumes "client_run E period w" "has_base E" "\<forall>n. outcome E n" "\<forall>n. 0 < new_fd E n"
  shows "(\<exists>p b. w_peer w = Some p \<and> w_bev w = Some b \<and>
      (b_conn b = Idle \<longrightarrow> (\<exists>i t. w_timers w i = Some t \<and> t_pending t \<and> t_fn t = Fn_reconncb))) \<and>
    (\<forall>r. peer_event E (client_prog period) (Suc 0) w r \<longrightarrow> (\<exists>w'. r = Inr w'))"
  using client_run_inv [OF assms] client_event_inv [OF _ _ assms(2-4)] unfolding client_inv_def retrying_def by blast

theorem client_keeps_trying_witness:
  "\<exists>w. start_client sample_env (no_world [] (0, 0)) = Inr w \<and>
    (\<exists>p b. w_peer w = Some p \<and> w_bev w = Some b \<and>
      (b_conn b = Idle \<longrightarrow> (\<exists>i t. w_timers w i = Some t \<and> t_pending t \<and> t_fn t = Fn_reconncb))) \<and>
    (\<forall>r. peer_event sample_env (client_prog (2, 0)) (Suc 0) w r \<longrightarrow> (\<exists>w'. r = Inr w'))"
proof -
  obtain p where p: "w_peer sample_world = Some p"
    using connectTo_alive [OF sample_connects sample_fds] by (auto simp: alive_def)
  then obtain w where w: "start_client sample_env (no_world [] (0, 0)) = Inr w"
    by (simp add: start_client_def sample_connects peerSetCb_def peerSetReadCb_def peerSetWriteCb_def peerSetEventCb_def
        peerSetReconn_def upd_peer_def the_peer_def)
  have "has_base sample_env" "\<forall>n. outcome sample_env n" by (simp_all add: sample_env_def)
  from client_keeps_trying [OF client_run.started [OF w] this sample_fds] show ?thesis using w by blast
qed

end
