(* ===== verification/IoThreads.thy ===== *)
theory IoThreads
  imports PeerClients
begin

text \<open>
  The server with several threads of the libevent samples: src/use/c/use-libevent_2.1.8/src, common_cpp/peer_io_thread.cpp (a thread
  with an event base of its own, its peers and a tunnel through which it is given tasks), common_cpp/base_server.cpp (which accepts
  connections and spreads them over the threads) and object_server/object_server.cpp.

  A task is a structure that is written into the tunnel byte by byte; byte \<open>i\<close> of the structure \<open>t\<close> is the cell \<open>(t, i)\<close>. Each peer of a
  thread lives in a \<open>world\<close> of its own (\<open>Peer\<close>), and \<open>Es n\<close> is what the library answers the \<open>n\<close>-th peer. The callbacks 1, 2, 3 and 4 are
  \<open>do_read\<close>, \<open>do_write\<close>, \<open>do_event\<close> and \<open>onClosePeer\<close>. Sizes are those of 64-bit Linux.
\<close>

section \<open>Tasks\<close>

datatype task = CheckTimeout "int \<times> int" | AddSocket int sockaddr

definition TUNNEL_ADD_TIME :: u8 where "TUNNEL_ADD_TIME = 0"
definition TUNNEL_ADD_SOCKET :: u8 where "TUNNEL_ADD_SOCKET = 1"

definition sizeof_CheckTimeout :: nat where "sizeof_CheckTimeout = 24"
definition sizeof_AddSocket :: nat where "sizeof_AddSocket = 184"

fun sizeof_task :: "task \<Rightarrow> nat" where
  "sizeof_task (CheckTimeout iv) = sizeof_CheckTimeout"
| "sizeof_task (AddSocket fd ss) = sizeof_AddSocket"

fun task_type :: "task \<Rightarrow> u8" where
  "task_type (CheckTimeout iv) = TUNNEL_ADD_TIME"
| "task_type (AddSocket fd ss) = TUNNEL_ADD_SOCKET"

type_synonym tunnel_cell = "task \<times> nat"

definition struct_cells :: "task \<Rightarrow> tunnel_cell list" where
  "struct_cells t = map (Pair t) [0..<sizeof_task t]"

section \<open>Threads\<close>

record io_thread =
  thread_id :: int
  tunnel_in :: "tunnel_cell list"     \<comment> \<open>written and not yet at the other end\<close>
  tunnel_out :: "tunnel_cell list"    \<comment> \<open>what can be read\<close>
  peers :: "nat list"
  timeout_ev :: "(int \<times> int) option"
  in_timeout_sec :: u16
  out_timeout_sec :: u16
  it_heap :: "nat \<Rightarrow> world option"
  it_next :: nat
  it_calls :: nat
  it_now :: "int \<times> int"
  it_screen :: string

definition new_io_thread :: "int \<Rightarrow> io_thread" where
  "new_io_thread n =
     \<lparr>thread_id = n, tunnel_in = [], tunnel_out = [], peers = [], timeout_ev = None, in_timeout_sec = 0, out_timeout_sec = 0,
      it_heap = Map.empty, it_next = 0, it_calls = 0, it_now = (0, 0), it_screen = []\<rparr>"

text \<open>\<open>ok\<close> tells whether \<open>bufferevent_write\<close> succeeds; the result is what it returns.\<close>

definition tunnel_write :: "bool \<Rightarrow> task \<Rightarrow> io_thread \<Rightarrow> int \<times> io_thread" where
  "tunnel_write ok t io = (if ok then (0, io\<lparr>tunnel_in := tunnel_in io @ struct_cells t\<rparr>) else (-1, io))"

definition peerIOThreadSetTimeout :: "bool \<Rightarrow> int \<Rightarrow> u16 \<Rightarrow> u16 \<Rightarrow> io_thread \<Rightarrow> int \<times> io_thread" where
  "peerIOThreadSetTimeout ok check_interval_sec i out io =
     tunnel_write ok (CheckTimeout (check_interval_sec, 0)) (io\<lparr>in_timeout_sec := i, out_timeout_sec := out\<rparr>)"

definition peerIOThreadAddSocket :: "bool \<Rightarrow> int \<Rightarrow> sockaddr \<Rightarrow> io_thread \<Rightarrow> int \<times> io_thread" where
  "peerIOThreadAddSocket ok fd ss io = tunnel_write ok (AddSocket fd ss) io"

definition peerIOThreadGetPeerCnt :: "io_thread \<Rightarrow> int" where
  "peerIOThreadGetPeerCnt io = to_int (int (length (peers io)))"

subsection \<open>The tunnel\<close>

text \<open>Reading a structure: the cells are those of one structure when reading began at its first byte.\<close>

definition read_task :: "nat \<Rightarrow> io_thread \<Rightarrow> (task \<times> io_thread) result" where
  "read_task n io =
     (case take n (tunnel_out io) of
        [] \<Rightarrow> Inl Uninitialised
      | (t, i) # cells \<Rightarrow>
          if (t, i) # cells = struct_cells t then Inr (t, io\<lparr>tunnel_out := drop n (tunnel_out io)\<rparr>) else Inl Uninitialised)"

definition it_tick :: "io_thread \<Rightarrow> io_thread" where
  "it_tick io = io\<lparr>it_calls := Suc (it_calls io)\<rparr>"

text \<open>\<open>lib n\<close> tells whether the \<open>n\<close>-th call of the thread that can fail succeeds.\<close>

definition tunnelcb_timetask :: "(nat \<Rightarrow> bool) \<Rightarrow> io_thread \<Rightarrow> (int \<times> io_thread) result" where
  "tunnelcb_timetask lib io =
     (if length (tunnel_out io) < sizeof_CheckTimeout then Inr (-1, io)
      else
        rbind (read_task sizeof_CheckTimeout io) (\<lambda>(t, io).
        case t of
          AddSocket fd ss \<Rightarrow> Inl Uninitialised
        | CheckTimeout (sec, usec) \<Rightarrow>
            let io = io\<lparr>timeout_ev := None\<rparr> in
            if sec > 0 \<or> usec > 0 then
              if \<not> lib (it_calls io) then Inr (-2, it_tick io)
              else
                let io = it_tick io in
                if \<not> lib (it_calls io) then Inr (-3, it_tick io) else Inr (0, it_tick (io\<lparr>timeout_ev := Some (sec, usec)\<rparr>))
            else Inr (0, io)))"

definition do_init :: "nat \<Rightarrow> io_thread \<Rightarrow> io_thread result" where
  "do_init i io =
     (case it_heap io i of
        None \<Rightarrow> Inl UseAfterFree
      | Some w \<Rightarrow>
          rbind (the_peer w) (\<lambda>p.
          Inr (io\<lparr>it_screen := it_screen io @ ''#'' @ deci (thread_id io) @ '' Thread has peer: '' @ deci (peerIOThreadGetPeerCnt io) @ ''<'' @
            remote_addr (base_info p) @ ''>\<newline>''\<rparr>)))"

definition set_times :: "int \<Rightarrow> u16 \<Rightarrow> u16 \<Rightarrow> world \<Rightarrow> world result" where
  "set_times now i out w = upd_peer w (\<lambda>p. p\<lparr>timeout := \<lparr>last_read = now, last_write = now, in_timeout = i, out_timeout = out\<rparr>\<rparr>)"

definition tunnelcb_addsocktask :: "(nat \<Rightarrow> env) \<Rightarrow> io_thread \<Rightarrow> (int \<times> io_thread) result" where
  "tunnelcb_addsocktask Es io =
     (if length (tunnel_out io) < sizeof_AddSocket then Inr (-1, io)
      else
        rbind (read_task sizeof_AddSocket io) (\<lambda>(t, io).
        case t of
          CheckTimeout iv \<Rightarrow> Inl Uninitialised
        | AddSocket fd ss \<Rightarrow>
            let i = it_next io in
            rbind (peerConnectIn (Es i) fd ss (no_world [fd] (it_now io))) (\<lambda>(ok, w).
            if \<not> ok then Inr (-1, io\<lparr>it_next := Suc i, it_heap := (it_heap io)(i \<mapsto> w)\<rparr>)
            else
              rbind (peerSetCb (Some 1) (Some 2) (Some 3) w) (\<lambda>w.
              rbind (peerSetCloseCb (Some 4) w) (\<lambda>w.
              rbind (set_times (fst (it_now io)) (in_timeout_sec io) (out_timeout_sec io) w) (\<lambda>w.
              rbind (do_init i (io\<lparr>it_next := Suc i, it_heap := (it_heap io)(i \<mapsto> w), peers := List.insert i (peers io)\<rparr>)) (\<lambda>io.
              Inr (0, io))))))))"

text \<open>The loop over the tasks. A byte that is not the first of a structure would be taken for a type; one that is no type is never consumed.\<close>

fun tunnelcb :: "nat \<Rightarrow> (nat \<Rightarrow> bool) \<Rightarrow> (nat \<Rightarrow> env) \<Rightarrow> io_thread \<Rightarrow> io_thread result" where
  "tunnelcb 0 lib Es io = Inl Diverges"
| "tunnelcb (Suc fuel) lib Es io =
     (case tunnel_out io of
        [] \<Rightarrow> Inr io
      | (t, i) # _ \<Rightarrow>
          if i \<noteq> 0 then Inl Uninitialised
          else
            rbind (if task_type t = TUNNEL_ADD_TIME then tunnelcb_timetask lib io
                   else if task_type t = TUNNEL_ADD_SOCKET then tunnelcb_addsocktask Es io
                   else Inr (0, io)) (\<lambda>(ret, io).
            if ret \<noteq> 0 then Inr io else tunnelcb fuel lib Es io))"

declare tunnelcb.simps [simp del]

subsection \<open>Peers of a thread\<close>

text \<open>
  The callbacks of the base server: reading is what the application does with the input, the write callback of the application is not set,
  and every event that is reported closes the peer. \<open>onClosePeer\<close> is run by \<open>peerFree\<close>; that it ran is seen from the callbacks that ran.
\<close>

definition base_prog :: prog where
  "base_prog f events = (if f = 1 then [Api Call_bufferevent] else if f = 3 then [Api Call_peerClose] else [])"

definition onClosePeer :: "nat \<Rightarrow> io_thread \<Rightarrow> io_thread" where
  "onClosePeer i io = io\<lparr>peers := removeAll i (peers io)\<rparr>"

definition put_peer :: "nat \<Rightarrow> world \<Rightarrow> world \<Rightarrow> io_thread \<Rightarrow> io_thread" where
  "put_peer i w w' io =
     (let io = io\<lparr>it_heap := (it_heap io)(i \<mapsto> w')\<rparr> in
      if 4 \<in> set (drop (length (w_ran w)) (w_ran w')) then onClosePeer i io else io)"

definition timed_out :: "int \<Rightarrow> Peer \<Rightarrow> bool" where
  "timed_out cur_time p \<longleftrightarrow>
     in_timeout (timeout p) \<noteq> 0 \<and> cur_time - last_read (timeout p) > uint (in_timeout (timeout p)) \<or>
     out_timeout (timeout p) \<noteq> 0 \<and> cur_time - last_write (timeout p) > uint (out_timeout (timeout p))"

fun find_timed_out :: "io_thread \<Rightarrow> nat list \<Rightarrow> nat list result" where
  "find_timed_out io [] = Inr []"
| "find_timed_out io (i # is) =
     (case it_heap io i of
        None \<Rightarrow> Inl UseAfterFree
      | Some w \<Rightarrow> rbind (the_peer w) (\<lambda>p. rbind (find_timed_out io is) (\<lambda>del. Inr (if timed_out (fst (it_now io)) p then i # del else del))))"

fun free_peers :: "nat \<Rightarrow> (nat \<Rightarrow> env) \<Rightarrow> nat list \<Rightarrow> io_thread \<Rightarrow> io_thread result" where
  "free_peers nested Es [] io = Inr io"
| "free_peers nested Es (i # is) io =
     (case it_heap io i of
        None \<Rightarrow> Inl UseAfterFree
      | Some w \<Rightarrow> rbind (peerFree nested (Es i) base_prog w) (\<lambda>w'. free_peers nested Es is (put_peer i w w' io)))"

definition check_timeout :: "nat \<Rightarrow> (nat \<Rightarrow> env) \<Rightarrow> io_thread \<Rightarrow> io_thread result" where
  "check_timeout nested Es io = rbind (find_timed_out io (peers io)) (\<lambda>del_peers. free_peers nested Es del_peers io)"

text \<open>What happens to a thread: it is given a task, bytes come out of the tunnel, its timer fires, a peer has an event, time passes.\<close>

inductive io_step :: "(nat \<Rightarrow> bool) \<Rightarrow> (nat \<Rightarrow> env) \<Rightarrow> nat \<Rightarrow> io_thread \<Rightarrow> io_thread result \<Rightarrow> bool" for lib Es nested where
  given_timeout: "io_step lib Es nested io (Inr (snd (peerIOThreadSetTimeout ok sec i out io)))"
| refused_socket: "io_step lib Es nested io (Inr (snd (peerIOThreadAddSocket False fd ss io)))"
| tunnel: "io' = io\<lparr>tunnel_out := tunnel_out io @ take n (tunnel_in io), tunnel_in := drop n (tunnel_in io)\<rparr> \<Longrightarrow>
    io_step lib Es nested io (tunnelcb (Suc (length (tunnel_out io'))) lib Es io')"
| timer: "timeout_ev io \<noteq> None \<Longrightarrow> io_step lib Es nested io (check_timeout nested Es io)"
| peer: "it_heap io i = Some w \<Longrightarrow> peer_event (Es i) base_prog nested w r \<Longrightarrow> io_step lib Es nested io (rbind r (\<lambda>w'. Inr (put_peer i w w' io)))"
| clock: "io_step lib Es nested io (Inr (io\<lparr>it_now := now\<rparr>))"

text \<open>The states of a thread that was given \<open>k\<close> sockets.\<close>

inductive io_reach :: "(nat \<Rightarrow> bool) \<Rightarrow> (nat \<Rightarrow> env) \<Rightarrow> nat \<Rightarrow> nat \<Rightarrow> io_thread \<Rightarrow> bool" for lib Es nested where
  started: "io_reach lib Es nested 0 (new_io_thread n)"
| given_socket: "io_reach lib Es nested k io \<Longrightarrow> 0 < fd \<Longrightarrow> io_reach lib Es nested (Suc k) (snd (peerIOThreadAddSocket True fd ss io))"
| step: "io_reach lib Es nested k io \<Longrightarrow> io_step lib Es nested io (Inr io') \<Longrightarrow> io_reach lib Es nested k io'"

section \<open>The base server\<close>

text \<open>
  Starting a thread: which of the calls succeed. The thread tells its object to the creator through a condition variable; \<open>woken_early\<close> is a
  wake-up without a signal, after which the creator reads a pointer that nobody has set. A thread whose base or tunnel could not be made is
  returned all the same.
\<close>

record thread_start =
  arg_mem :: bool
  mutex_ok :: bool
  cond_ok :: bool
  lock_ok :: bool
  woken_early :: bool
  base_ok :: bool
  pair_ok :: bool

datatype created = NoThread | Thread io_thread | ThreadWithoutTunnel int

definition peerIOThreadFunc :: "thread_start \<Rightarrow> int \<Rightarrow> created" where
  "peerIOThreadFunc S n = (if base_ok S \<and> pair_ok S then Thread (new_io_thread n) else ThreadWithoutTunnel n)"

definition createPeerIOThread :: "thread_start \<Rightarrow> int \<Rightarrow> created result" where
  "createPeerIOThread S n =
     (if \<not> arg_mem S then Inl NullDeref
      else if \<not> mutex_ok S \<or> \<not> cond_ok S \<or> \<not> lock_ok S then Inr NoThread
      else if woken_early S then Inl Uninitialised
      else Inr (peerIOThreadFunc S n))"

record base_server =
  io_threads :: "created list"
  bs_in_timeout :: u16
  bs_out_timeout :: u16
  checktimout_interval :: int
  io_thread_num :: "int option"    \<comment> \<open>not set by the constructor\<close>
  io_thread_idx :: nat
  bs_closed :: "int list"          \<comment> \<open>sockets that were closed at once\<close>

definition BaseServer :: base_server where
  "BaseServer = \<lparr>io_threads = [], bs_in_timeout = 0, bs_out_timeout = 0, checktimout_interval = 15, io_thread_num = None,
     io_thread_idx = 0, bs_closed = []\<rparr>"

definition IOThread :: "int \<Rightarrow> base_server \<Rightarrow> base_server" where
  "IOThread num s = s\<lparr>io_thread_num := Some (if num \<ge> 1 then num else 1)\<rparr>"

definition IdleTimeout :: "u16 \<Rightarrow> u16 \<Rightarrow> base_server \<Rightarrow> base_server" where
  "IdleTimeout i out s = s\<lparr>bs_in_timeout := i, bs_out_timeout := out\<rparr>"

text \<open>\<open>starts n\<close> and \<open>writes n\<close> are what happens to the \<open>n\<close>-th thread and the first write into its tunnel.\<close>

fun create_threads :: "(nat \<Rightarrow> thread_start) \<Rightarrow> (nat \<Rightarrow> bool) \<Rightarrow> nat list \<Rightarrow> base_server \<Rightarrow> base_server result" where
  "create_threads starts writes [] s = Inr s"
| "create_threads starts writes (n # ns) s =
     rbind (createPeerIOThread (starts n) (int n)) (\<lambda>t.
     rbind (if checktimout_interval s > 0 then
              (case t of
                 Thread io \<Rightarrow> Inr (Thread (snd (peerIOThreadSetTimeout (writes n) (checktimout_interval s) (bs_in_timeout s) (bs_out_timeout s) io)))
               | _ \<Rightarrow> Inl NullDeref)
            else Inr t) (\<lambda>t.
     create_threads starts writes ns (s\<lparr>io_threads := io_threads s @ [t]\<rparr>)))"

definition createIOThread :: "(nat \<Rightarrow> thread_start) \<Rightarrow> (nat \<Rightarrow> bool) \<Rightarrow> base_server \<Rightarrow> base_server result" where
  "createIOThread starts writes s =
     (case io_thread_num s of None \<Rightarrow> Inl Uninitialised | Some n \<Rightarrow> create_threads starts writes [0..<nat n] s)"

definition onAccept :: "bool \<Rightarrow> int \<Rightarrow> sockaddr \<Rightarrow> base_server \<Rightarrow> base_server result" where
  "onAccept ok fd ss s =
     (let i = io_thread_idx s in
      if length (io_threads s) \<le> i then Inl OutOfBounds
      else
        (case io_threads s ! i of
           Thread io \<Rightarrow>
             let (ret, io) = peerIOThreadAddSocket ok fd ss io;
                 s = s\<lparr>io_threads := (io_threads s)[i := Thread io], io_thread_idx := Suc i\<rparr>;
                 s = (if ret < 0 then s\<lparr>bs_closed := bs_closed s @ [fd]\<rparr> else s) in
             Inr (if length (io_threads s) \<le> io_thread_idx s then s\<lparr>io_thread_idx := 0\<rparr> else s)
         | _ \<Rightarrow> Inl NullDeref))"

text \<open>\<open>accept\<close> gives a socket with the address of the other side, or fails.\<close>

definition serv_do_accept :: "bool \<Rightarrow> (int \<times> sockaddr) option \<Rightarrow> base_server \<Rightarrow> base_server result" where
  "serv_do_accept ok conn s = (case conn of None \<Rightarrow> Inr s | Some (fd, ss) \<Rightarrow> onAccept ok fd ss s)"

fun accept_all :: "(bool \<times> (int \<times> sockaddr) option) list \<Rightarrow> base_server \<Rightarrow> base_server result" where
  "accept_all [] s = Inr s"
| "accept_all ((ok, conn) # conns) s = rbind (serv_do_accept ok conn s) (accept_all conns)"

text \<open>The main loop: what is held when it returns because it cannot listen, or the server that listens.\<close>

datatype main_obj = EventBase | Listener

definition serv_mainLoop :: "bool \<times> bool \<times> bool \<Rightarrow> (bool \<times> (int \<times> sockaddr) option) list \<Rightarrow> base_server \<Rightarrow> (main_obj list \<times> base_server) result" where
  "serv_mainLoop start conns s =
     (case start of (base, bound, listens) \<Rightarrow>
        if \<not> base then Inr ([], s)
        else if \<not> bound \<or> \<not> listens then Inr ([Listener, EventBase], s)
        else rbind (accept_all conns s) (\<lambda>s. Inr ([Listener, EventBase], s)))"

definition serv_Run :: "(nat \<Rightarrow> thread_start) \<Rightarrow> (nat \<Rightarrow> bool) \<Rightarrow> bool \<times> bool \<times> bool \<Rightarrow> (bool \<times> (int \<times> sockaddr) option) list \<Rightarrow> base_server \<Rightarrow> (main_obj list \<times> base_server) result" where
  "serv_Run starts writes start conns s = rbind (createIOThread starts writes s) (serv_mainLoop start conns)"

section \<open>The object server\<close>

record obj_conn =
  oc_in :: bytes
  oc_out :: bytes

text \<open>
  The loop of \<open>myReadcb\<close>. The number of bytes is compared as an \<open>int32_t\<close>; \<open>malloc\<close> of a negative length fails, and the result is not tested.
\<close>

fun myReadcb :: "nat \<Rightarrow> (nat \<Rightarrow> bool) \<Rightarrow> (bytes \<Rightarrow> bool) \<Rightarrow> obj_conn \<Rightarrow> obj_conn result" where
  "myReadcb 0 mem pullup c = Inl Diverges"
| "myReadcb (Suc fuel) mem pullup c =
     (if length (oc_in c) < 4 \<or> \<not> pullup (oc_in c) then Inr c
      else
        rbind (load32 (oc_in c) 0) (\<lambda>raw.
        let len = sint (util_ntoh_32 raw) in
        if to_int (int (length (oc_in c))) \<ge> len then
          if len < 0 \<or> len \<noteq> 0 \<and> \<not> mem (nat len) then Inl NullDeref
          else
            let stream_bytes = take (nat len) (oc_in c) in
            rbind (decodeMsg mem stream_bytes len) (\<lambda>r.
            myReadcb fuel mem pullup (c\<lparr>oc_in := drop (nat len) (oc_in c), oc_out := oc_out c @ stream_bytes\<rparr>))
        else Inr c))"

declare myReadcb.simps [simp del]

fun obj_recv :: "(nat \<Rightarrow> bool) \<Rightarrow> (bytes \<Rightarrow> bool) \<Rightarrow> bytes list \<Rightarrow> obj_conn \<Rightarrow> obj_conn result" where
  "obj_recv mem pullup [] c = Inr c"
| "obj_recv mem pullup (p # ps) c =
     (let c = c\<lparr>oc_in := oc_in c @ p\<rparr> in rbind (myReadcb (Suc (length (oc_in c))) mem pullup c) (obj_recv mem pullup ps))"

definition object_server_main :: "(nat \<Rightarrow> thread_start) \<Rightarrow> (nat \<Rightarrow> bool) \<Rightarrow> bool \<times> bool \<times> bool \<Rightarrow> (bool \<times> (int \<times> sockaddr) option) list \<Rightarrow> (main_obj list \<times> base_server) result" where
  "object_server_main starts writes start conns = serv_Run starts writes start conns (IdleTimeout 30 0 (IOThread 8 BaseServer))"

section \<open>Peers of the base server\<close>

text \<open>What a peer of the server is while it lives: connected, without timers, with the callbacks of the server; and after it was freed.\<close>

definition serving :: "world \<Rightarrow> bool" where
  "serving w \<longleftrightarrow> (\<exists>p b. w_peer w = Some p \<and> w_bev w = Some b \<and> has_bev p \<and> b_conn b = Connected \<and> 0 < b_fd b \<and> w_sockets w = [b_fd b] \<and>
     w_timers w = Map.empty \<and> hb_ev (heartbeat p) = None \<and> rc_ev (reconn p) = None \<and> flag p AND PEER_AUTO_RECONNECT = 0 \<and>
     callbacks p = \<lparr>func_read = Some 1, func_write = Some 2, func_event = Some 3, func_heartbeat = None, func_close = Some 4\<rparr>)"

definition gone :: "world \<Rightarrow> bool" where
  "gone w \<longleftrightarrow> w_peer w = None \<and> w_bev w = None \<and> w_sockets w = [] \<and> w_timers w = Map.empty"

definition ran_since :: "world \<Rightarrow> world \<Rightarrow> callback list" where
  "ran_since w w' = drop (length (w_ran w)) (w_ran w')"

lemma auto_reconnect_or: "(f OR PEER_WAIT_CLOSE) AND PEER_AUTO_RECONNECT = f AND PEER_AUTO_RECONNECT"
  by (simp add: PEER_WAIT_CLOSE_def PEER_AUTO_RECONNECT_def bit.conj_disj_distrib2)

lemma peerFree_serving:
  assumes "serving w"
  shows "\<exists>w'. peerFree (Suc n) E base_prog w = Inr w' \<and> gone w' \<and> w_ran w' = w_ran w @ [4]"
  using assms
  by (auto simp: serving_def gone_def the_peer_def the_bev_def upd_peer_def base_prog_def peerSetTimeout_def peerSetHeartbeat_def peerSetReconn_def
      peerStopReconn_def bufferevent_free_def evutil_closesocket_def)

text \<open>The callbacks that a serving peer runs.\<close>

lemma serving_run:
  assumes "serving w" "f \<in> {1, 2, 3}"
  shows "\<exists>w'. run_callback n E base_prog (Some f) events w = Inr w' \<and> serving w' \<and> w_ran w' = w_ran w @ [f] \<and> w_now w' = w_now w"
  using assms
  by (auto simp: serving_def run_callback_def base_prog_def the_peer_def the_bev_def peerClose_def upd_peer_def auto_reconnect_or)

definition outcome_ok :: "world \<Rightarrow> world \<Rightarrow> bool" where
  "outcome_ok w w' \<longleftrightarrow> serving w' \<and> 4 \<notin> set (ran_since w w') \<or> gone w' \<and> 4 \<in> set (ran_since w w')"

lemma free_if_closing_serving:
  assumes "serving w" "w_ran w = r @ l" "4 \<notin> set l"
  shows "\<exists>w'. free_if_closing (Suc n) E base_prog w = Inr w' \<and>
    (serving w' \<and> w_ran w' = r @ l \<or> gone w' \<and> w_ran w' = r @ l @ [4])"
  using peerFree_serving [OF assms(1), of n E] assms by (auto simp: free_if_closing_def the_peer_def serving_def simp del: peerFree.simps)

lemma serving_upd_timeout: "serving w \<Longrightarrow> \<exists>w'. upd_peer w (\<lambda>p. p\<lparr>timeout := f p\<rparr>) = Inr w' \<and> serving w' \<and> w_ran w' = w_ran w"
  by (auto simp: serving_def upd_peer_def the_peer_def)

lemma serving_check: "serving w \<Longrightarrow> \<exists>p. w_peer w = Some p \<and> check_bev w = Inr p \<and> the_peer w = Inr p \<and> \<not> (flag p AND PEER_AUTO_RECONNECT \<noteq> 0) \<and>
    callbacks p = \<lparr>func_read = Some 1, func_write = Some 2, func_event = Some 3, func_heartbeat = None, func_close = Some 4\<rparr>"
  by (auto simp: serving_def check_bev_def the_peer_def)

lemma serving_bev: "serving w \<Longrightarrow> \<exists>b. the_bev w = Inr b \<and> w_bev w = Some b \<and> b_conn b = Connected"
  by (auto simp: serving_def the_bev_def)

lemma stamp_serving:
  assumes "serving w" "f \<in> {1, 2}"
  shows "\<exists>w'. rbind (run_callback (Suc n) E base_prog (Some f) 0 w) (\<lambda>w. rbind (the_bev w) (\<lambda>b.
      rbind (upd_peer w (\<lambda>p. p\<lparr>timeout := g p w\<rparr>)) (free_if_closing (Suc n) E base_prog))) = Inr w' \<and> outcome_ok w w'"
proof -
  from serving_run [OF assms(1), of f "Suc n" E 0] assms(2) obtain w1 where
    w1: "run_callback (Suc n) E base_prog (Some f) 0 w = Inr w1" "serving w1" "w_ran w1 = w_ran w @ [f]" by auto
  from serving_upd_timeout [OF w1(2), of "\<lambda>p. g p w1"] obtain w2 where
    w2: "upd_peer w1 (\<lambda>p. p\<lparr>timeout := g p w1\<rparr>) = Inr w2" "serving w2" "w_ran w2 = w_ran w1" by auto
  have "4 \<notin> set [f]" using assms(2) by auto
  from free_if_closing_serving [OF w2(2) _ this, of "w_ran w" n E] w2(3) w1(3) obtain w3 where
    w3: "free_if_closing (Suc n) E base_prog w2 = Inr w3" "serving w3 \<and> w_ran w3 = w_ran w @ [f] \<or> gone w3 \<and> w_ran w3 = w_ran w @ [f] @ [4]" by auto
  then show ?thesis using w1(1) w2(1) serving_bev [OF w1(2)] assms(2) by (auto simp: outcome_ok_def ran_since_def)
qed

lemma eventcb_serving:
  assumes "serving w" "events AND BEV_EVENT_CONNECTED = 0"
  shows "\<exists>w'. eventcb (Suc n) E base_prog events w = Inr w' \<and> outcome_ok w w'"
proof -
  obtain p where p: "check_bev w = Inr p" "the_peer w = Inr p" "func_event (callbacks p) = Some 3" using serving_check [OF assms(1)] by auto
  from serving_run [OF assms(1), of 3 "Suc n" E events] obtain w1 where
    w1: "run_callback (Suc n) E base_prog (Some 3) events w = Inr w1" "serving w1" "w_ran w1 = w_ran w @ [3]" by auto
  obtain p1 where p1: "the_peer w1 = Inr p1" "\<not> (flag p1 AND PEER_AUTO_RECONNECT \<noteq> 0)" using serving_check [OF w1(2)] by auto
  from peerFree_serving [OF w1(2), of n E] show ?thesis using p w1 p1 assms(2)
    by (auto simp: eventcb_def outcome_ok_def ran_since_def simp del: peerFree.simps)
qed

lemma event_serving:
  assumes "peer_event E base_prog (Suc n) w r" "serving w"
  shows "\<exists>w'. r = Inr w' \<and> outcome_ok w w'"
  using assms(1)
proof cases
  case on_read
  then show ?thesis using stamp_serving [OF assms(2), where f = 1 and n = n and E = E] serving_check [OF assms(2)] by (auto simp: readcb_def)
next
  case on_write
  then show ?thesis using stamp_serving [OF assms(2), where f = 2 and n = n and E = E] serving_check [OF assms(2)] by (auto simp: writecb_def)
next
  case (on_failure b events)
  then show ?thesis using eventcb_serving [OF assms(2)] by simp
qed (use assms(2) in \<open>auto simp: serving_def outcome_ok_def ran_since_def\<close>)

lemma event_gone:
  assumes "peer_event E base_prog (Suc n) w r" "gone w"
  shows "\<exists>w'. r = Inr w' \<and> gone w' \<and> ran_since w w' = []"
  using assms(1) by cases (use assms(2) in \<open>auto simp: gone_def ran_since_def\<close>)

section \<open>The invariant of a thread\<close>

text \<open>
  The cells in the tunnel are whole structures, of which the reader has seen the beginning; every object of the heap is a serving peer of the set or
  gone and not in it.
\<close>

definition thread_ok :: "io_thread \<Rightarrow> bool" where
  "thread_ok io \<longleftrightarrow> distinct (peers io) \<and> (\<forall>i. i \<ge> it_next io \<longrightarrow> it_heap io i = None) \<and> (\<forall>i \<in> set (peers io). it_heap io i \<noteq> None) \<and>
     (\<forall>i w. it_heap io i = Some w \<longrightarrow> (if i \<in> set (peers io) then serving w else gone w))"

fun socket_task_ok :: "task \<Rightarrow> bool" where
  "socket_task_ok (AddSocket fd ss) = (0 < fd)"
| "socket_task_ok _ = True"

definition pending :: "task list \<Rightarrow> io_thread \<Rightarrow> bool" where
  "pending ts io \<longleftrightarrow> tunnel_out io @ tunnel_in io = concat (map struct_cells ts) \<and> (\<forall>t \<in> set ts. socket_task_ok t)"

fun sockets_in :: "task list \<Rightarrow> nat" where
  "sockets_in [] = 0"
| "sockets_in (AddSocket fd ss # ts) = Suc (sockets_in ts)"
| "sockets_in (_ # ts) = sockets_in ts"

definition io_inv :: "nat \<Rightarrow> io_thread \<Rightarrow> bool" where
  "io_inv k io \<longleftrightarrow> thread_ok io \<and> (\<exists>ts. pending ts io \<and> it_next io + sockets_in ts = k)"

definition all_succeed :: "(nat \<Rightarrow> env) \<Rightarrow> bool" where
  "all_succeed Es \<longleftrightarrow> (\<forall>i n. outcome (Es i) n)"

lemma put_peer_ok:
  assumes "thread_ok io" "it_heap io i = Some w" "if i \<in> set (peers io) then outcome_ok w w' else gone w' \<and> ran_since w w' = []"
  shows "thread_ok (put_peer i w w' io)"
proof -
  have i: "i < it_next io" using assms(1,2) by (force simp: thread_ok_def not_le [symmetric])
  show ?thesis
  proof (cases "4 \<in> set (ran_since w w')")
    case True
    then have "gone w'" using assms(3) by (auto simp: outcome_ok_def split: if_splits)
    then show ?thesis using assms(1) i True by (auto simp: put_peer_def onClosePeer_def thread_ok_def ran_since_def distinct_removeAll)
  next
    case False
    then show ?thesis using assms i by (auto simp: put_peer_def thread_ok_def ran_since_def outcome_ok_def split: if_splits)
  qed
qed

subsection \<open>The tunnel\<close>

lemma struct_cells_hd: "\<exists>cs. struct_cells t = (t, 0) # cs"
  by (cases t) (simp_all add: struct_cells_def sizeof_CheckTimeout_def sizeof_AddSocket_def upt_conv_Cons)

lemma length_struct_cells [simp]: "length (struct_cells t) = sizeof_task t"
  by (simp add: struct_cells_def)

lemma read_task_whole:
  assumes "tunnel_out io = struct_cells t @ rest"
  shows "read_task (sizeof_task t) io = Inr (t, io\<lparr>tunnel_out := rest\<rparr>)"
proof -
  have "take (sizeof_task t) (tunnel_out io) = struct_cells t" "drop (sizeof_task t) (tunnel_out io) = rest" by (simp_all add: assms)
  moreover obtain cs where "struct_cells t = (t, 0) # cs" using struct_cells_hd by blast
  ultimately show ?thesis by (simp add: read_task_def)
qed

lemma pending_split:
  assumes "pending (t # ts) io" "sizeof_task t \<le> length (tunnel_out io)"
  obtains rest where "tunnel_out io = struct_cells t @ rest" "rest @ tunnel_in io = concat (map struct_cells ts)"
proof
  have e: "tunnel_out io @ tunnel_in io = struct_cells t @ concat (map struct_cells ts)" using assms(1) by (simp add: pending_def)
  let ?rest = "drop (sizeof_task t) (tunnel_out io)"
  have "take (sizeof_task t) (tunnel_out io) = struct_cells t" using arg_cong [OF e, of "take (sizeof_task t)"] assms(2) by simp
  then show o: "tunnel_out io = struct_cells t @ ?rest" by (metis append_take_drop_id)
  show "?rest @ tunnel_in io = concat (map struct_cells ts)" using e o by (metis append.assoc same_append_eq)
qed

lemma pending_short: "pending (t # ts) io \<Longrightarrow> length (tunnel_out io) < sizeof_task t \<Longrightarrow> tunnel_in io \<noteq> []"
  by (auto simp: pending_def dest: arg_cong [where f = length])

lemma timetask_ok:
  assumes "thread_ok io" "pending (CheckTimeout iv # ts) io"
  shows "\<exists>ret io' ts'. tunnelcb_timetask lib io = Inr (ret, io') \<and> thread_ok io' \<and> pending ts' io' \<and> it_next io' + sockets_in ts' = it_next io + sockets_in ts \<and>
    (ret = 0 \<longrightarrow> length (tunnel_out io') < length (tunnel_out io)) \<and> tunnel_in io' = tunnel_in io \<and> ((\<forall>n. lib n) \<and> tunnel_in io = [] \<longrightarrow> ret = 0)"
proof (cases "length (tunnel_out io) < sizeof_CheckTimeout")
  case True
  then have "tunnel_in io \<noteq> []" using pending_short [OF assms(2)] by simp
  then show ?thesis using assms True by (intro exI [of _ "-1"] exI [of _ io] exI [of _ "CheckTimeout iv # ts"]) (simp add: tunnelcb_timetask_def)
next
  case False
  then obtain rest where r: "tunnel_out io = struct_cells (CheckTimeout iv) @ rest" "rest @ tunnel_in io = concat (map struct_cells ts)"
    using pending_split [OF assms(2)] by (auto simp: not_less)
  let ?io = "io\<lparr>tunnel_out := rest, timeout_ev := None\<rparr>"
  have p: "pending ts ?io" "thread_ok ?io" using assms r(2) by (auto simp: pending_def thread_ok_def)
  have l: "length rest < length (tunnel_out io)" using r(1) by (simp add: sizeof_CheckTimeout_def)
  have t: "read_task sizeof_CheckTimeout io = Inr (CheckTimeout iv, io\<lparr>tunnel_out := rest\<rparr>)" using read_task_whole [OF r(1)] by simp
  show ?thesis using False t l p
    by (cases iv) (auto simp: tunnelcb_timetask_def it_tick_def Let_def pending_def thread_ok_def)
qed

lemma addsock_serving:
  assumes "all_succeed Es" "0 < fd"
  shows "\<exists>w1 w2 w3 w4. peerConnectIn (Es i) fd ss (no_world [fd] now) = Inr (True, w1) \<and> peerSetCb (Some 1) (Some 2) (Some 3) w1 = Inr w2 \<and>
    peerSetCloseCb (Some 4) w2 = Inr w3 \<and> set_times t a b w3 = Inr w4 \<and> serving w4"
  using assms
  by (simp add: all_succeed_def peerConnectIn_def succeeds_def tick_def no_world_def Let_def peerSetCb_def peerSetReadCb_def peerSetWriteCb_def
      peerSetEventCb_def peerSetCloseCb_def set_times_def upd_peer_def the_peer_def new_peer_def serving_def)

lemma addsocktask_ok:
  assumes "all_succeed Es" "thread_ok io" "pending (AddSocket fd ss # ts) io"
  shows "\<exists>ret io' ts'. tunnelcb_addsocktask Es io = Inr (ret, io') \<and> thread_ok io' \<and> pending ts' io' \<and>
    it_next io' + sockets_in ts' = it_next io + Suc (sockets_in ts) \<and> (ret = 0 \<longrightarrow> length (tunnel_out io') < length (tunnel_out io)) \<and>
    tunnel_in io' = tunnel_in io \<and> (tunnel_in io = [] \<longrightarrow> ret = 0)"
proof (cases "length (tunnel_out io) < sizeof_AddSocket")
  case True
  then have "tunnel_in io \<noteq> []" using pending_short [OF assms(3)] by simp
  then show ?thesis using assms True by (intro exI [of _ "-1"] exI [of _ io] exI [of _ "AddSocket fd ss # ts"]) (simp add: tunnelcb_addsocktask_def)
next
  case False
  then obtain rest where r: "tunnel_out io = struct_cells (AddSocket fd ss) @ rest" "rest @ tunnel_in io = concat (map struct_cells ts)"
    using pending_split [OF assms(3)] by (auto simp: not_less)
  have t: "read_task sizeof_AddSocket io = Inr (AddSocket fd ss, io\<lparr>tunnel_out := rest\<rparr>)" using read_task_whole [OF r(1)] by simp
  have "0 < fd" using assms(3) by (simp add: pending_def)
  from addsock_serving [OF assms(1) this, where i = "it_next io" and ss = ss and now = "it_now io" and t = "fst (it_now io)" and a = "in_timeout_sec io" and b = "out_timeout_sec io"]
  obtain w1 w2 w3 w4 where w: "peerConnectIn (Es (it_next io)) fd ss (no_world [fd] (it_now io)) = Inr (True, w1)"
    "peerSetCb (Some 1) (Some 2) (Some 3) w1 = Inr w2" "peerSetCloseCb (Some 4) w2 = Inr w3"
    "set_times (fst (it_now io)) (in_timeout_sec io) (out_timeout_sec io) w3 = Inr w4" "serving w4" by blast
  let ?io = "io\<lparr>tunnel_out := rest, it_next := Suc (it_next io), it_heap := (it_heap io)(it_next io \<mapsto> w4), peers := List.insert (it_next io) (peers io)\<rparr>"
  obtain p where p: "the_peer w4 = Inr p" using serving_check [OF w(5)] by blast
  obtain s where s: "do_init (it_next io) ?io = Inr (?io\<lparr>it_screen := s\<rparr>)" by (auto simp: do_init_def p)
  have "it_next io \<notin> set (peers io)" using assms(2) by (force simp: thread_ok_def)
  then have ok: "thread_ok (?io\<lparr>it_screen := s\<rparr>)" using assms(2) w(5) by (auto simp: thread_ok_def)
  have pend: "pending ts (?io\<lparr>it_screen := s\<rparr>)" using assms(3) r(2) by (auto simp: pending_def)
  have l: "length rest < length (tunnel_out io)" using r(1) by (simp add: sizeof_AddSocket_def)
  show ?thesis using False t w(1-4) s ok pend l by (auto simp: tunnelcb_addsocktask_def Let_def)
qed

lemma tunnelcb_ok:
  assumes "all_succeed Es" "thread_ok io" "pending ts io" "length (tunnel_out io) < fuel"
  shows "\<exists>io' ts'. tunnelcb fuel lib Es io = Inr io' \<and> thread_ok io' \<and> pending ts' io' \<and> it_next io' + sockets_in ts' = it_next io + sockets_in ts \<and>
    tunnel_in io' = tunnel_in io \<and> ((\<forall>n. lib n) \<and> tunnel_in io = [] \<longrightarrow> tunnel_out io' = [])"
  using assms(2-4)
proof (induction fuel arbitrary: io ts)
  case (Suc fuel)
  show ?case
  proof (cases "tunnel_out io")
    case Nil
    then show ?thesis using Suc.prems by (auto simp: tunnelcb.simps)
  next
    case (Cons c cs)
    then obtain t ts1 where ts: "ts = t # ts1" using Suc.prems(2) by (cases ts) (auto simp: pending_def)
    have c: "c = (t, 0)" using Suc.prems(2) struct_cells_hd [of t] Cons by (auto simp: pending_def ts)
    let ?task = "case t of CheckTimeout iv \<Rightarrow> tunnelcb_timetask lib io | AddSocket fd ss \<Rightarrow> tunnelcb_addsocktask Es io"
    have "\<exists>ret io' ts'. ?task = Inr (ret, io') \<and> thread_ok io' \<and> pending ts' io' \<and> it_next io' + sockets_in ts' = it_next io + sockets_in ts \<and>
        (ret = 0 \<longrightarrow> length (tunnel_out io') < length (tunnel_out io)) \<and> tunnel_in io' = tunnel_in io \<and> ((\<forall>n. lib n) \<and> tunnel_in io = [] \<longrightarrow> ret = 0)"
    proof (cases t)
      case (CheckTimeout iv)
      then show ?thesis using timetask_ok [OF Suc.prems(1), of iv ts1 lib] Suc.prems(2) by (simp add: ts)
    next
      case (AddSocket fd ss)
      then show ?thesis using addsocktask_ok [OF assms(1) Suc.prems(1), of fd ss ts1] Suc.prems(2) unfolding ts by fastforce
    qed
    then obtain ret io1 ts2 where x: "?task = Inr (ret, io1)" "thread_ok io1" "pending ts2 io1" "it_next io1 + sockets_in ts2 = it_next io + sockets_in ts"
      "ret = 0 \<longrightarrow> length (tunnel_out io1) < length (tunnel_out io)" "tunnel_in io1 = tunnel_in io" "(\<forall>n. lib n) \<and> tunnel_in io = [] \<longrightarrow> ret = 0" by blast
    have s: "tunnelcb (Suc fuel) lib Es io = (if ret \<noteq> 0 then Inr io1 else tunnelcb fuel lib Es io1)"
      using x(1) Cons c by (cases t) (auto simp: tunnelcb.simps TUNNEL_ADD_TIME_def TUNNEL_ADD_SOCKET_def)
    show ?thesis
    proof (cases "ret = 0")
      case True
      then show ?thesis using s Suc.IH [OF x(2,3)] x(4-6) Suc.prems(3) by auto
    next
      case False
      then show ?thesis using s x by (intro exI [of _ io1] exI [of _ ts2]) auto
    qed
  qed
qed simp

subsection \<open>Timeouts\<close>

lemma find_timed_out_exact:
  assumes "thread_ok io" "set is \<subseteq> set (peers io)"
  shows "find_timed_out io is = Inr (filter (\<lambda>i. \<exists>w p. it_heap io i = Some w \<and> w_peer w = Some p \<and> timed_out (fst (it_now io)) p) is)"
  using assms(2)
proof (induction "is")
  case (Cons i "is")
  then obtain w where w: "it_heap io i = Some w" "serving w" using assms(1) by (force simp: thread_ok_def)
  then obtain p where "the_peer w = Inr p" "w_peer w = Some p" using serving_check by blast
  then show ?case using Cons w(1) by auto
qed simp

lemma free_peers_exact:
  assumes "thread_ok io" "set is \<subseteq> set (peers io)" "distinct is"
  shows "\<exists>io'. free_peers (Suc n) Es is io = Inr io' \<and> thread_ok io' \<and> peers io' = filter (\<lambda>i. i \<notin> set is) (peers io) \<and>
    tunnel_in io' = tunnel_in io \<and> tunnel_out io' = tunnel_out io \<and> it_next io' = it_next io \<and> (\<forall>i. i \<notin> set is \<longrightarrow> it_heap io' i = it_heap io i)"
  using assms
proof (induction "is" arbitrary: io)
  case (Cons i "is")
  then obtain w where w: "it_heap io i = Some w" "serving w" "i \<in> set (peers io)" by (force simp: thread_ok_def)
  from peerFree_serving [OF w(2), of n "Es i"] obtain w' where
    w': "peerFree (Suc n) (Es i) base_prog w = Inr w'" "gone w'" "w_ran w' = w_ran w @ [4]" by blast
  let ?io = "put_peer i w w' io"
  have o: "outcome_ok w w'" using w'(2,3) by (simp add: outcome_ok_def ran_since_def)
  then have ok: "thread_ok ?io" using put_peer_ok [OF Cons.prems(1) w(1)] w(3) by simp
  have f: "peers ?io = removeAll i (peers io)" "tunnel_in ?io = tunnel_in io" "tunnel_out ?io = tunnel_out io" "it_next ?io = it_next io"
    "it_heap ?io = (it_heap io)(i \<mapsto> w')" using w'(3) by (simp_all add: put_peer_def onClosePeer_def Let_def)
  have "set is \<subseteq> set (peers ?io)" "distinct is" using Cons.prems(2,3) f(1) by auto
  from Cons.IH [OF ok this] show ?case using w(1) w'(1) f by (auto simp: removeAll_filter_not_eq simp del: peerFree.simps intro!: filter_cong)
qed simp

lemma check_timeout_ok:
  assumes "thread_ok io"
  shows "\<exists>io'. check_timeout (Suc n) Es io = Inr io' \<and> thread_ok io' \<and> tunnel_in io' = tunnel_in io \<and> tunnel_out io' = tunnel_out io \<and> it_next io' = it_next io \<and>
    peers io' = filter (\<lambda>i. \<not> (\<exists>w p. it_heap io i = Some w \<and> w_peer w = Some p \<and> timed_out (fst (it_now io)) p)) (peers io)"
proof -
  let ?late = "\<lambda>i. \<exists>w p. it_heap io i = Some w \<and> w_peer w = Some p \<and> timed_out (fst (it_now io)) p"
  have "distinct (filter ?late (peers io))" using assms by (simp add: thread_ok_def)
  from free_peers_exact [OF assms _ this, of n Es] obtain io' where
    "free_peers (Suc n) Es (filter ?late (peers io)) io = Inr io'" "thread_ok io'" "peers io' = filter (\<lambda>i. i \<notin> set (filter ?late (peers io))) (peers io)"
    "tunnel_in io' = tunnel_in io" "tunnel_out io' = tunnel_out io" "it_next io' = it_next io" by auto
  then show ?thesis using find_timed_out_exact [OF assms subset_refl] by (auto simp: check_timeout_def intro!: filter_cong)
qed

section \<open>Steps\<close>

lemma put_peer_tunnel: "tunnel_in (put_peer i w w' io) = tunnel_in io" "tunnel_out (put_peer i w w' io) = tunnel_out io" "it_next (put_peer i w w' io) = it_next io"
  by (simp_all add: put_peer_def onClosePeer_def Let_def)

lemma io_inv_same:
  "io_inv k io \<Longrightarrow> thread_ok io' \<Longrightarrow> tunnel_in io' = tunnel_in io \<Longrightarrow> tunnel_out io' = tunnel_out io \<Longrightarrow> it_next io' = it_next io \<Longrightarrow> io_inv k io'"
  by (simp add: io_inv_def pending_def)

lemma pending_write: "pending ts io \<Longrightarrow> socket_task_ok t \<Longrightarrow> pending (ts @ [t]) (io\<lparr>tunnel_in := tunnel_in io @ struct_cells t\<rparr>)"
  by (simp add: pending_def flip: append.assoc)

lemma sockets_in_append: "sockets_in (ts @ us) = sockets_in ts + sockets_in us"
  by (induction ts rule: sockets_in.induct) auto

lemma thread_ok_update [simp]:
  "thread_ok (io\<lparr>tunnel_in := x\<rparr>) = thread_ok io" "thread_ok (io\<lparr>tunnel_out := x\<rparr>) = thread_ok io" "thread_ok (io\<lparr>it_now := now\<rparr>) = thread_ok io"
  "thread_ok (io\<lparr>in_timeout_sec := a\<rparr>) = thread_ok io" "thread_ok (io\<lparr>out_timeout_sec := a\<rparr>) = thread_ok io"
  by (simp_all add: thread_ok_def)

lemma io_step_ok:
  assumes "io_step lib Es (Suc n) io r" "all_succeed Es" "io_inv k io"
  shows "\<exists>io'. r = Inr io' \<and> io_inv k io'"
  using assms(1)
proof cases
  case (given_timeout ok sec i out)
  obtain ts where ts: "pending ts io" "it_next io + sockets_in ts = k" "thread_ok io" using assms(3) by (auto simp: io_inv_def)
  let ?io = "io\<lparr>in_timeout_sec := i, out_timeout_sec := out\<rparr>"
  have "pending ts ?io" using ts(1) by (simp add: pending_def)
  then have p: "pending (ts @ [CheckTimeout (sec, 0)]) (?io\<lparr>tunnel_in := tunnel_in io @ struct_cells (CheckTimeout (sec, 0))\<rparr>)" "pending ts ?io"
    using pending_write [of ts ?io "CheckTimeout (sec, 0)"] by simp_all
  have "it_next io + sockets_in (ts @ [CheckTimeout (sec, 0)]) = k" using ts(2) by (simp add: sockets_in_append)
  then show ?thesis using p ts(2,3) given_timeout by (cases ok) (auto simp: io_inv_def peerIOThreadSetTimeout_def tunnel_write_def)
next
  case (refused_socket fd ss)
  then show ?thesis using assms(3) by (simp add: peerIOThreadAddSocket_def tunnel_write_def)
next
  case (tunnel io' m)
  obtain ts where ts: "pending ts io" "it_next io + sockets_in ts = k" "thread_ok io" using assms(3) by (auto simp: io_inv_def)
  have "pending ts io'" "thread_ok io'" "it_next io' = it_next io" using ts tunnel(2) by (auto simp: pending_def)
  then show ?thesis using tunnelcb_ok [OF assms(2), of io' ts "Suc (length (tunnel_out io'))" lib] tunnel(1) ts(2) by (auto simp: io_inv_def)
next
  case timer
  have "thread_ok io" using assms(3) by (simp add: io_inv_def)
  from check_timeout_ok [OF this, of n Es] obtain io' where
    "check_timeout (Suc n) Es io = Inr io'" "thread_ok io'" "tunnel_in io' = tunnel_in io" "tunnel_out io' = tunnel_out io" "it_next io' = it_next io" by blast
  then show ?thesis using timer(1) io_inv_same [OF assms(3)] by simp
next
  case (peer i w r')
  have th: "thread_ok io" using assms(3) by (simp add: io_inv_def)
  have "\<exists>w'. r' = Inr w' \<and> (if i \<in> set (peers io) then outcome_ok w w' else gone w' \<and> ran_since w w' = [])"
  proof (cases "i \<in> set (peers io)")
    case True
    then have "serving w" using th peer(2) by (force simp: thread_ok_def)
    then show ?thesis using event_serving [OF peer(3)] True by simp
  next
    case False
    then have "gone w" using th peer(2) by (force simp: thread_ok_def)
    then show ?thesis using event_gone [OF peer(3)] False by simp
  qed
  then obtain w' where "r' = Inr w'" "thread_ok (put_peer i w w' io)" using put_peer_ok [OF th peer(2)] by blast
  then show ?thesis using peer(1) io_inv_same [OF assms(3)] by (auto simp: put_peer_tunnel)
next
  case (clock now)
  then show ?thesis using assms(3) by (auto simp: io_inv_def pending_def)
qed

lemma io_reach_inv:
  assumes "io_reach lib Es (Suc n) k io" "all_succeed Es"
  shows "io_inv k io"
  using assms(1)
proof induction
  case (started m)
  show ?case by (auto simp: io_inv_def thread_ok_def new_io_thread_def pending_def intro: exI [of _ "[]"])
next
  case (given_socket k io fd ss)
  then obtain ts where ts: "pending ts io" "it_next io + sockets_in ts = k" "thread_ok io" by (auto simp: io_inv_def)
  from pending_write [OF ts(1), of "AddSocket fd ss"] given_socket(2) ts(2,3) show ?case
    by (auto simp: io_inv_def peerIOThreadAddSocket_def tunnel_write_def sockets_in_append intro: exI [of _ "ts @ [AddSocket fd ss]"])
next
  case (step k io io')
  then show ?case using io_step_ok [OF step(2) assms(2) step(3)] by auto
qed

section \<open>Spreading sockets over threads\<close>

text \<open>The sockets that thread \<open>j\<close> of \<open>n\<close> gets when the next goes to thread \<open>i\<close>.\<close>

fun share :: "nat \<Rightarrow> nat \<Rightarrow> nat \<Rightarrow> (int \<times> sockaddr) list \<Rightarrow> task list" where
  "share n j i [] = []"
| "share n j i ((fd, ss) # conns) = (if i = j then [AddSocket fd ss] else []) @ share n j (Suc i mod n) conns"

fun thread_of :: "created \<Rightarrow> io_thread option" where
  "thread_of (Thread io) = Some io"
| "thread_of _ = None"

lemma accept_spreads:
  assumes "\<forall>j < n. \<exists>io. io_threads s ! j = Thread io" "length (io_threads s) = n" "io_thread_idx s < n"
  shows "\<exists>s'. accept_all (map (\<lambda>c. (True, Some c)) conns) s = Inr s' \<and> length (io_threads s') = n \<and> bs_closed s' = bs_closed s \<and>
    (\<forall>j < n. \<exists>io. io_threads s ! j = Thread io \<and>
       io_threads s' ! j = Thread (io\<lparr>tunnel_in := tunnel_in io @ concat (map struct_cells (share n j (io_thread_idx s) conns))\<rparr>))"
  using assms
proof (induction conns arbitrary: s)
  case Nil
  then show ?case by auto
next
  case (Cons c conns)
  obtain fd ss where c: "c = (fd, ss)" by (cases c)
  let ?i = "io_thread_idx s"
  obtain io where io: "io_threads s ! ?i = Thread io" using Cons.prems(1,3) by blast
  let ?io = "io\<lparr>tunnel_in := tunnel_in io @ struct_cells (AddSocket fd ss)\<rparr>"
  let ?s = "s\<lparr>io_threads := (io_threads s)[?i := Thread ?io], io_thread_idx := Suc ?i mod n\<rparr>"
  have i: "Suc ?i mod n = (if n \<le> Suc ?i then 0 else Suc ?i)" using Cons.prems(3) by (auto simp: le_Suc_eq)
  then have step: "serv_do_accept True (Some c) s = Inr ?s" using Cons.prems(2,3) io
    by (simp add: serv_do_accept_def c onAccept_def Let_def peerIOThreadAddSocket_def tunnel_write_def)
  have "\<forall>j < n. \<exists>io. io_threads ?s ! j = Thread io" "length (io_threads ?s) = n" "io_thread_idx ?s < n"
    using Cons.prems by (auto simp: nth_list_update)
  from Cons.IH [OF this] obtain s' where s': "accept_all (map (\<lambda>c. (True, Some c)) conns) ?s = Inr s'" "length (io_threads s') = n" "bs_closed s' = bs_closed s"
    "\<forall>j < n. \<exists>io. io_threads ?s ! j = Thread io \<and>
       io_threads s' ! j = Thread (io\<lparr>tunnel_in := tunnel_in io @ concat (map struct_cells (share n j (Suc ?i mod n) conns))\<rparr>)" by auto
  have "\<exists>io. io_threads s ! j = Thread io \<and>
       io_threads s' ! j = Thread (io\<lparr>tunnel_in := tunnel_in io @ concat (map struct_cells (share n j ?i (c # conns)))\<rparr>)" if "j < n" for j
    using s'(4) [rule_format, OF that] that io Cons.prems(2) by (cases "j = ?i") (auto simp: c nth_list_update)
  then show ?case using step s'(1-3) by auto
qed

section \<open>Echoes of the object server\<close>

lemma echo_message:
  assumes "is_message ob msg" "\<forall>n. mem n" "\<forall>b. pullup b" "oc_in c = msg @ rest" "length (msg @ rest) < 2 ^ 31"
  shows "myReadcb (Suc fuel) mem pullup c = myReadcb fuel mem pullup (c\<lparr>oc_in := rest, oc_out := oc_out c @ msg\<rparr>)"
proof -
  note h = message_head [OF assms(1)]
  obtain ob' where "decodeMsg mem msg (int (length msg)) = Inr (Some ob')" using message_decodes [OF assms(1,2)] by blast
  moreover have "to_int (int (length (oc_in c))) = int (length (oc_in c))" using assms(4,5) by (intro to_int_small) simp_all
  ultimately show ?thesis using h(1) [of rest] h(2) sint_len [OF h(3)] assms(2-4) by (simp add: myReadcb.simps Let_def)
qed

lemma echo_incomplete:
  assumes "part = [] \<or> (\<exists>ob msg. is_message ob msg \<and> strict_prefix part msg)" "\<forall>b. pullup b" "oc_in c = part"
  shows "myReadcb (Suc fuel) mem pullup c = Inr c"
proof (cases "length part < 4")
  case True
  then show ?thesis using assms(3) by (simp add: myReadcb.simps)
next
  case False
  then obtain ob msg where m: "is_message ob msg" "strict_prefix part msg" using assms(1) by auto
  note h = message_head [OF m(1)]
  obtain more where more: "msg = part @ more" "more \<noteq> []" using m(2) by (auto simp: strict_prefix_def prefix_def)
  have "load32 part 0 = load32 msg 0" using False more(1) by (cases part) (auto simp: load32_def nth_append)
  then have "load32 part 0 = Inr (util_hton_32 (of_nat (length msg)))" using h(1) [of "[]"] by simp
  moreover have "length part < length msg" "length part < 2 ^ 31" using more h(3) by auto
  moreover from this(2) have "to_int (int (length part)) = int (length part)" by (intro to_int_small) simp_all
  ultimately show ?thesis using assms(3) sint_len [OF h(3)] by (simp add: myReadcb.simps Let_def)
qed

lemma echo_messages:
  assumes "list_all2 is_message obs msgs" "\<forall>n. mem n" "\<forall>b. pullup b" "length msgs < fuel" "part = [] \<or> (\<exists>ob msg. is_message ob msg \<and> strict_prefix part msg)"
    "oc_in c = concat msgs @ part" "length (concat msgs @ part) < 2 ^ 31"
  shows "myReadcb fuel mem pullup c = Inr (c\<lparr>oc_in := part, oc_out := oc_out c @ concat msgs\<rparr>)"
  using assms(1,4,6,7)
proof (induction obs msgs arbitrary: fuel c rule: list_all2_induct)
  case Nil
  then show ?case using echo_incomplete [OF assms(5,3), of c] by (cases fuel) auto
next
  case (Cons ob obs msg msgs)
  obtain f where f: "fuel = Suc f" using Cons.prems(1) by (cases fuel) auto
  have "myReadcb fuel mem pullup c = myReadcb f mem pullup (c\<lparr>oc_in := concat msgs @ part, oc_out := oc_out c @ msg\<rparr>)"
    using echo_message [OF Cons.hyps(1) assms(2,3), of c "concat msgs @ part" f] Cons.prems(2,3) by (simp add: f)
  then show ?case using Cons.IH [of f "c\<lparr>oc_in := concat msgs @ part, oc_out := oc_out c @ msg\<rparr>"] Cons.prems(1,3) by (simp add: f)
qed

lemma obj_recv_echoes:
  assumes "list_all2 is_message obs msgs" "\<forall>n. mem n" "\<forall>b. pullup b" "oc_in c = [] \<or> (msgs \<noteq> [] \<and> strict_prefix (oc_in c) (hd msgs))"
    "oc_in c @ concat ps = concat msgs" "\<forall>p \<in> set ps. length p < 2 ^ 30"
  shows "obj_recv mem pullup ps c = Inr (c\<lparr>oc_in := [], oc_out := oc_out c @ concat msgs\<rparr>)"
  using assms(1,4-)
proof (induction ps arbitrary: obs msgs c)
  case Nil
  have "msgs = []"
  proof (rule ccontr)
    assume "msgs \<noteq> []"
    then obtain m ms where m: "msgs = m # ms" by (cases msgs) auto
    then have "24 \<le> length m" using Nil.prems(1) message_head(2) by (auto simp: list_all2_Cons2)
    then show False using Nil.prems(2,3) m by (auto simp: strict_prefix_def prefix_def)
  qed
  then show ?case using Nil.prems(3) by simp
next
  case (Cons p ps)
  let ?c = "c\<lparr>oc_in := oc_in c @ p\<rparr>"
  obtain obs1 obs2 msgs1 msgs2 part where s: "list_all2 is_message obs1 msgs1" "list_all2 is_message obs2 msgs2"
    "oc_in c @ p = concat msgs1 @ part" "concat msgs2 = part @ concat ps" "part = [] \<or> (msgs2 \<noteq> [] \<and> strict_prefix part (hd msgs2))"
    using cut_stream [OF Cons.prems(1), of "oc_in c @ p" "concat ps"] Cons.prems(3) by auto
  have part: "part = [] \<or> (\<exists>ob msg. is_message ob msg \<and> strict_prefix part msg)" using s(2,5) by (cases msgs2) (auto simp: list_all2_Cons2)
  have "length (oc_in c) \<le> 64"
  proof (cases "oc_in c = []")
    case False
    then obtain m ms where m: "msgs = m # ms" "strict_prefix (oc_in c) m" using Cons.prems(2) by (cases msgs) auto
    then have "length m \<le> 64" using Cons.prems(1) message_head(3) by (auto simp: list_all2_Cons2)
    then show ?thesis using prefix_length_less [OF m(2)] by simp
  qed simp
  then have small: "length (concat msgs1 @ part) < 2 ^ 31" using Cons.prems(4) arg_cong [OF s(3), of length] by auto
  have "length msgs1 = length obs1" using s(1) by (simp add: list_all2_lengthD)
  then have "length msgs1 < Suc (length (oc_in ?c))" using number_of_messages [OF s(1)] s(3) by simp
  from echo_messages [OF s(1) assms(2,3) this part _ small] s(3) have
    "myReadcb (Suc (length (oc_in ?c))) mem pullup ?c = Inr (c\<lparr>oc_in := part, oc_out := oc_out c @ concat msgs1\<rparr>)" by simp
  moreover have "concat msgs = concat msgs1 @ concat msgs2" using Cons.prems(3) s(3,4) by (metis append.assoc concat.simps(2))
  ultimately show ?case using Cons.IH [OF s(2), of "c\<lparr>oc_in := part, oc_out := oc_out c @ concat msgs1\<rparr>"] s(4,5) Cons.prems(4) by (simp add: Let_def)
qed

section \<open>Theorems\<close>

text \<open>
  C9. As long as every library and memory call with which peers are created and served succeeds (\<open>all_succeed\<close>), whatever tasks a thread is given, however they come through its tunnel, whatever happens on the connections and whenever the timer fires: no peer is used after it was freed, the set of the thread holds exactly the peers that live, each with its socket open, the sockets of the others are closed, and every socket the thread was given is still in the tunnel or has become one peer. (A peer that cannot be created loses its socket: \<open>tunnelcb_addsocktask\<close> returns without closing it.)
\<close>

theorem io_thread_safe:
  assumes "all_succeed Es" "io_reach lib Es (Suc nested) k io" "io_step lib Es (Suc nested) io r"
  shows "\<exists>io' ts. r = Inr io' \<and> distinct (peers io') \<and> pending ts io' \<and> it_next io' + sockets_in ts = k \<and>
    (\<forall>i w. it_heap io' i = Some w \<longrightarrow> (if i \<in> set (peers io') then w_peer w \<noteq> None \<and> length (w_sockets w) = 1 else w_peer w = None \<and> w_sockets w = []))"
proof -
  from io_step_ok [OF assms(3,1) io_reach_inv [OF assms(2,1)]] obtain io' where io': "r = Inr io'" "io_inv k io'" by blast
  have "(if i \<in> set (peers io') then w_peer w \<noteq> None \<and> length (w_sockets w) = 1 else w_peer w = None \<and> w_sockets w = [])" if "it_heap io' i = Some w" for i w
  proof -
    have "if i \<in> set (peers io') then serving w else gone w" using io'(2) that by (simp add: io_inv_def thread_ok_def)
    then show ?thesis by (auto simp: serving_def gone_def split: if_splits)
  qed
  then show ?thesis using io' by (auto simp: io_inv_def thread_ok_def)
qed

definition good_env :: env where
  "good_env = sample_env\<lparr>outcome := \<lambda>_. True\<rparr>"

theorem io_thread_safe_witness:
  "\<exists>io' ts. tunnelcb 185 (\<lambda>_. True) (\<lambda>_. good_env) ((new_io_thread 0)\<lparr>tunnel_out := struct_cells (AddSocket 5 (OtherFamily 0))\<rparr>) = Inr io' \<and>
    pending ts io' \<and> it_next io' + sockets_in ts = 1"
proof -
  let ?Es = "\<lambda>_ :: nat. good_env" and ?io = "(new_io_thread 0)\<lparr>tunnel_in := struct_cells (AddSocket 5 (OtherFamily 0))\<rparr>"
  have E: "all_succeed ?Es" by (simp add: all_succeed_def good_env_def)
  have r: "io_reach (\<lambda>_. True) ?Es (Suc 0) (Suc 0) ?io"
    using io_reach.given_socket [OF io_reach.started, of 5 "\<lambda>_. True" ?Es "Suc 0" "OtherFamily 0" 0]
    by (simp add: peerIOThreadAddSocket_def tunnel_write_def new_io_thread_def)
  have n: "length (struct_cells (AddSocket 5 (OtherFamily 0))) = 184" by (simp add: sizeof_AddSocket_def)
  have "io_step (\<lambda>_. True) ?Es (Suc 0) ?io (tunnelcb 185 (\<lambda>_. True) ?Es ((new_io_thread 0)\<lparr>tunnel_out := struct_cells (AddSocket 5 (OtherFamily 0))\<rparr>))"
    using io_step.tunnel [OF refl, where io = ?io and n = 184 and lib = "\<lambda>_. True" and Es = ?Es and nested = "Suc 0"] n
    by (simp add: new_io_thread_def sizeof_AddSocket_def)
  from io_thread_safe [OF E r this] show ?thesis by auto
qed

text \<open>
  When the threads of the object server can be started and their tunnels written to, the connections are spread over them in turn: thread \<open>j\<close> of the eight is given the interval of the timer and then, in order, exactly the sockets whose number is \<open>j\<close> modulo 8; no socket is closed.
\<close>

theorem sockets_spread:
  assumes "\<forall>n. createPeerIOThread (starts n) (int n) = Inr (Thread (new_io_thread (int n)))" "\<forall>n. writes n"
  shows "\<exists>s. object_server_main starts writes (True, True, True) (map (\<lambda>c. (True, Some c)) conns) = Inr ([Listener, EventBase], s) \<and> bs_closed s = [] \<and>
    length (io_threads s) = 8 \<and> (\<forall>j < 8. \<exists>io. io_threads s ! j = Thread io \<and>
      tunnel_in io = concat (map struct_cells (CheckTimeout (15, 0) # share 8 j 0 conns)))"
proof -
  let ?new = "\<lambda>n. (new_io_thread (int n))\<lparr>in_timeout_sec := 30, out_timeout_sec := 0, tunnel_in := struct_cells (CheckTimeout (15, 0))\<rparr>"
  let ?s0 = "IdleTimeout 30 0 (IOThread 8 BaseServer)"
  have "create_threads starts writes ns s = Inr (s\<lparr>io_threads := io_threads s @ map (Thread \<circ> ?new) ns\<rparr>)"
    if "checktimout_interval s = 15" "bs_in_timeout s = 30" "bs_out_timeout s = 0" for ns s
    using that
  proof (induction ns arbitrary: s)
    case (Cons n ns)
    then show ?case using assms Cons.IH [of "s\<lparr>io_threads := io_threads s @ [Thread (?new n)]\<rparr>"]
      by (simp add: peerIOThreadSetTimeout_def tunnel_write_def) (simp add: new_io_thread_def)
  qed simp
  then have c: "createIOThread starts writes ?s0 = Inr (?s0\<lparr>io_threads := map (Thread \<circ> ?new) [0..<8]\<rparr>)"
    by (simp add: createIOThread_def IOThread_def IdleTimeout_def BaseServer_def)
  let ?s = "?s0\<lparr>io_threads := map (Thread \<circ> ?new) [0..<8]\<rparr>"
  have "\<forall>j < 8. \<exists>io. io_threads ?s ! j = Thread io" "length (io_threads ?s) = 8" "io_thread_idx ?s < 8" "io_thread_idx ?s = 0" "bs_closed ?s = []"
    by (simp_all add: IOThread_def IdleTimeout_def BaseServer_def)
  from accept_spreads [OF this(1-3), of conns] this(4,5) obtain s where
    s: "accept_all (map (\<lambda>c. (True, Some c)) conns) ?s = Inr s" "length (io_threads s) = 8" "bs_closed s = []"
       "\<forall>j < 8. \<exists>io. io_threads ?s ! j = Thread io \<and> io_threads s ! j = Thread (io\<lparr>tunnel_in := tunnel_in io @ concat (map struct_cells (share 8 j 0 conns))\<rparr>)"
    by auto
  then show ?thesis by (auto simp: object_server_main_def serv_Run_def c serv_mainLoop_def)
qed

theorem sockets_spread_witness:
  "\<exists>s io. object_server_main (\<lambda>_. \<lparr>arg_mem = True, mutex_ok = True, cond_ok = True, lock_ok = True, woken_early = False, base_ok = True, pair_ok = True\<rparr>)
      (\<lambda>_. True) (True, True, True) [(True, Some (5, OtherFamily 0)), (True, Some (6, OtherFamily 0))] = Inr ([Listener, EventBase], s) \<and>
    io_threads s ! 1 = Thread io \<and> tunnel_in io = struct_cells (CheckTimeout (15, 0)) @ struct_cells (AddSocket 6 (OtherFamily 0))"
proof -
  let ?S = "\<lambda>_ :: nat. \<lparr>arg_mem = True, mutex_ok = True, cond_ok = True, lock_ok = True, woken_early = False, base_ok = True, pair_ok = True\<rparr>"
  have "\<forall>n. createPeerIOThread (?S n) (int n) = Inr (Thread (new_io_thread (int n)))" by (simp add: createPeerIOThread_def peerIOThreadFunc_def)
  from sockets_spread [OF this, of "\<lambda>_. True" "[(5, OtherFamily 0), (6, OtherFamily 0)]"] obtain s where
    s: "object_server_main ?S (\<lambda>_. True) (True, True, True) [(True, Some (5, OtherFamily 0)), (True, Some (6, OtherFamily 0))] = Inr ([Listener, EventBase], s)"
       "\<forall>j < 8. \<exists>io. io_threads s ! j = Thread io \<and>
          tunnel_in io = concat (map struct_cells (CheckTimeout (15, 0) # share 8 j 0 [(5, OtherFamily 0), (6, OtherFamily 0)]))" by auto
  from s(2) [rule_format, of 1] show ?thesis using s(1) by auto
qed

text \<open>
  C22. However the network cuts a stream of messages, the object server sends back exactly the bytes of the stream, message by message, and leaves nothing unread.
\<close>

theorem object_server_echoes:
  assumes "list_all2 is_message obs msgs" "\<forall>n. mem n" "\<forall>b. pullup b" "concat ps = concat msgs" "\<forall>p \<in> set ps. length p < 2 ^ 30"
  shows "obj_recv mem pullup ps \<lparr>oc_in = [], oc_out = []\<rparr> = Inr \<lparr>oc_in = [], oc_out = concat msgs\<rparr>"
  using obj_recv_echoes [OF assms(1-3), of "\<lparr>oc_in = [], oc_out = []\<rparr>" ps] assms(4,5) by simp

theorem object_server_echoes_witness:
  "\<exists>msg. msg \<noteq> [] \<and> obj_recv (\<lambda>_. True) (\<lambda>_. True) [take 5 msg, drop 5 msg] \<lparr>oc_in = [], oc_out = []\<rparr> = Inr \<lparr>oc_in = [], oc_out = msg\<rparr>"
proof -
  obtain msg where enc: "encodeMsg (\<lambda>_. True) None (replicate 16 0) (TimeRecord 7 8) = Some msg"
    by (simp add: encodeMsg_def OBJ_TYPE_MAX_def Let_def)
  have m: "is_message (TimeRecord 7 8) msg"
    unfolding is_message_def sendable_def tr_ok_def using enc by (intro conjI exI [of _ None] exI [of _ "replicate 16 0"]) simp_all
  then have "24 \<le> length msg" "length msg \<le> 64" using message_head by blast+
  then show ?thesis using object_server_echoes [of "[TimeRecord 7 8]" "[msg]" "\<lambda>_. True" "\<lambda>_. True" "[take 5 msg, drop 5 msg]"] m
    by (intro exI [of _ msg]) auto
qed

text \<open>A message whose head announces no bytes keeps the thread of its connection busy for ever.\<close>

lemma object_server_hangs:
  assumes "oc_in c = bytes32 0 @ rest" "\<forall>b. pullup b" "length (oc_in c) < 2 ^ 31"
  shows "myReadcb fuel mem pullup c = Inl Diverges"
  using assms(1,3)
proof (induction fuel arbitrary: c)
  case (Suc fuel)
  have "load32 (oc_in c) 0 = Inr 0" using load32_append [of "[]" 0 0 rest] Suc.prems(1) by simp
  moreover have "to_int (int (length (oc_in c))) = int (length (oc_in c))" using Suc.prems(2) by (intro to_int_small) simp_all
  moreover have "util_ntoh_32 0 = 0" by (simp add: util_ntoh_32_def util_hton_32_def util_ex_32_def)
  moreover have "decodeMsg mem [] 0 = Inr None" by (simp add: decodeMsg_def sizeof_streamHead_def)
  ultimately show ?case using Suc assms(2) by (simp add: myReadcb.simps Let_def)
qed (simp add: myReadcb.simps)

end
