(* ===== verification/ProtoCodec.thy ===== *)
theory ProtoCodec
  imports Prelude
begin

text \<open>
  The protobuf messages of src/use/cross/protobuf/cpp: the codec that frames a message with its length, a version and its type name
  (src/msg_handle/codec.cpp), the handler that gives a message to the callback of its type (src/msg_handle/msg_handler.h), and the program
  that sends messages to itself, through memory or through a file (example/local).

  The messages are those of res/proto; a float is its 32 bits. The protobuf library is a record of functions: the size and the bytes of a message, which type
  names it knows, and what it makes of bytes as a message of a type. A pointer into memory is the list of bytes from there to the end of the memory.
\<close>

section \<open>Messages\<close>

datatype position = Position u32 u32 u32
datatype rotation = Rotation u32 u32 u32
datatype scale = Scale u32 u32 u32

text \<open>The enumeration \<open>Taste\<close> is open: a field can hold any number.\<close>

datatype food = RiceFood string | DumplingFood string int | NoodleFood string int | FoodNotSet

datatype proto_message =
    PositionMsg position
  | RotationMsg rotation
  | ScaleMsg scale
  | TransformMsg "position option" "rotation option" "scale option"
  | LunchMsg "food list"
  | OtherMsg string bytes   \<comment> \<open>a message of another type, by its full name and contents\<close>

fun GetTypeName :: "proto_message \<Rightarrow> string" where
  "GetTypeName (PositionMsg _) = ''gen.proto.Position''"
| "GetTypeName (RotationMsg _) = ''gen.proto.Rotation''"
| "GetTypeName (ScaleMsg _) = ''gen.proto.Scale''"
| "GetTypeName (TransformMsg _ _ _) = ''gen.proto.Transform''"
| "GetTypeName (LunchMsg _) = ''gen.proto.Lunch''"
| "GetTypeName (OtherMsg t _) = t"

definition Taste_Name :: "int \<Rightarrow> string" where
  "Taste_Name t = (if t = 0 then ''NO_SPICY'' else if t = 1 then ''SPICY'' else if t = 2 then ''HEAVY_SPICY'' else [])"

section \<open>The codec\<close>

record proto_lib =
  pb_ByteSizeLong :: "proto_message \<Rightarrow> nat"
  pb_SerializeToArray :: "proto_message \<Rightarrow> int \<Rightarrow> bytes option"
  pb_FindMessageTypeByName :: "string \<Rightarrow> bool"
  pb_ParseFromArray :: "string \<Rightarrow> bytes \<Rightarrow> proto_message option"

text \<open>A new message is empty and stands for its type.\<close>

definition CreateProtoMessage :: "proto_lib \<Rightarrow> string \<Rightarrow> string option" where
  "CreateProtoMessage P message_name = (if pb_FindMessageTypeByName P message_name then Some message_name else None)"

text \<open>\<open>mem\<close> tells which calls of \<open>malloc\<close> succeed; \<open>junk\<close> is what a new block holds.\<close>

definition Serialize :: "proto_lib \<Rightarrow> (int \<Rightarrow> bool) \<Rightarrow> u8 \<Rightarrow> proto_message \<Rightarrow> (bytes option \<times> int) result" where
  "Serialize P mem junk msg =
     (let size = pb_ByteSizeLong P msg; type_name = GetTypeName msg;
          total_len = to_int (int (4 + 16 + 4 + length type_name + size)) in
      if \<not> mem total_len then Inr (None, total_len)
      else
        rbind (write_range (replicate (nat total_len) junk) 0 (bytes32 (ntohl (word_of_int total_len)))) (\<lambda>b.
        rbind (write_range b 4 (replicate 16 0)) (\<lambda>b.
        rbind (write_range b 4 (strncpy_bytes 15 ''0.0.1'')) (\<lambda>b.
        rbind (write_range b 20 (bytes32 (ntohl (of_nat (length type_name))))) (\<lambda>b.
        rbind (write_range b 24 (str_bytes type_name)) (\<lambda>b.
        case pb_SerializeToArray P msg (to_int (int size)) of
          None \<Rightarrow> Inr (None, total_len)
        | Some data \<Rightarrow> rbind (write_range b (24 + length type_name) data) (\<lambda>b. Inr (Some b, total_len))))))))"

definition limit_name_len :: int where "limit_name_len = 129"

text \<open>A negative size is outside of what \<open>ParseFromArray\<close> takes; it counts as a read outside of the memory.\<close>

definition Deserialize :: "proto_lib \<Rightarrow> bytes \<Rightarrow> (proto_message option \<times> int) result" where
  "Deserialize P p =
     rbind (load32 p 0) (\<lambda>w. let total_len = sint (ntohl w) in
     rbind (read_range p 4 15) (\<lambda>version.
     rbind (load32 p 20) (\<lambda>w. let name_len = sint (ntohl w) in
     if name_len \<le> 0 \<or> name_len \<ge> limit_name_len then Inr (None, total_len)
     else
       rbind (read_range p 24 (nat name_len)) (\<lambda>name.
       case CreateProtoMessage P (chars_of (takeWhile (\<lambda>b. b \<noteq> 0) name)) of
         None \<Rightarrow> Inr (None, total_len)
       | Some msg \<Rightarrow>
           let size = to_int (total_len - 4 - 16 - 4 - name_len) in
           if size < 0 then Inl OutOfBounds
           else rbind (read_range p (24 + nat name_len) (nat size)) (\<lambda>data. Inr (pb_ParseFromArray P msg data, total_len))))))"

section \<open>The handler\<close>

text \<open>
  A callback object has the message type it was made for, None for \<open>Message\<close> itself, and the function it calls, None for an empty one. A
  callback gives the lines it logs. \<open>live_callbacks\<close> counts the objects that were made with \<open>new\<close> and not deleted.
\<close>

record msg_callback =
  cb_type :: "string option"
  cb_fun :: "(proto_message \<Rightarrow> string list) option"

record proto_handler =
  type_callbacks :: "string \<rightharpoonup> msg_callback"
  default_callback :: "msg_callback option"
  live_callbacks :: nat

definition TMsgCallback_OnMessage :: "msg_callback \<Rightarrow> proto_message \<Rightarrow> string list" where
  "TMsgCallback_OnMessage c msg =
     (let derived_msg = (case cb_type c of None \<Rightarrow> True | Some t \<Rightarrow> GetTypeName msg = t) in
      case cb_fun c of Some f \<Rightarrow> if derived_msg then f msg else [] | None \<Rightarrow> [])"

definition ProtoMessageHandler :: proto_handler where
  "ProtoMessageHandler = \<lparr>type_callbacks = Map.empty, default_callback = None, live_callbacks = 0\<rparr>"

definition RegisterDefault :: "string option \<Rightarrow> (proto_message \<Rightarrow> string list) option \<Rightarrow> proto_handler \<Rightarrow> proto_handler" where
  "RegisterDefault T callback h =
     (let h = (case default_callback h of None \<Rightarrow> h | Some _ \<Rightarrow> h\<lparr>live_callbacks := live_callbacks h - 1\<rparr>) in
      h\<lparr>default_callback := Some \<lparr>cb_type = T, cb_fun = callback\<rparr>, live_callbacks := live_callbacks h + 1\<rparr>)"

text \<open>\<open>std::map::insert\<close> leaves an entry that is there.\<close>

definition Register :: "string \<Rightarrow> (proto_message \<Rightarrow> string list) option \<Rightarrow> proto_handler \<Rightarrow> proto_handler" where
  "Register T callback h =
     (let h = h\<lparr>live_callbacks := live_callbacks h + 1\<rparr> in
      case type_callbacks h T of
        Some _ \<Rightarrow> h
      | None \<Rightarrow> h\<lparr>type_callbacks := (type_callbacks h)(T \<mapsto> \<lparr>cb_type = Some T, cb_fun = callback\<rparr>)\<rparr>)"

definition handler_OnMessage :: "proto_handler \<Rightarrow> proto_message \<Rightarrow> string list" where
  "handler_OnMessage h msg =
     (case type_callbacks h (GetTypeName msg) of
        Some it \<Rightarrow> TMsgCallback_OnMessage it msg
      | None \<Rightarrow> (case default_callback h of Some c \<Rightarrow> TMsgCallback_OnMessage c msg | None \<Rightarrow> []))"

section \<open>The reader\<close>

text \<open>\<open>ff\<close> is the text of a float in the format \<open>%f\<close>. A callback is called with a message of its type; the other equations are never used.\<close>

definition ruler :: string where "ruler = ''========================''"
definition newline :: string where "newline = [CHR 0x0A]"
definition c_str :: "string \<Rightarrow> string" where "c_str = takeWhile (\<lambda>c. c \<noteq> CHR 0x00)"

definition triple :: "(u32 \<Rightarrow> string) \<Rightarrow> u32 \<Rightarrow> u32 \<Rightarrow> u32 \<Rightarrow> string" where
  "triple ff x y z = ''('' @ ff x @ '', '' @ ff y @ '', '' @ ff z @ '')''"

definition reader_OnMessage :: "proto_message \<Rightarrow> string list" where
  "reader_OnMessage msg = [ruler, ''on message: '' @ GetTypeName msg @ ''; (no callback function specified, use default callback)'']"

fun OnMessagePosition :: "(u32 \<Rightarrow> string) \<Rightarrow> proto_message \<Rightarrow> string list" where
  "OnMessagePosition ff (PositionMsg (Position x y z)) = [ruler, ''OnMessagePosition: '' @ triple ff x y z]"
| "OnMessagePosition ff _ = []"

fun OnMessageRotation :: "(u32 \<Rightarrow> string) \<Rightarrow> proto_message \<Rightarrow> string list" where
  "OnMessageRotation ff (RotationMsg (Rotation x y z)) = [ruler, ''OnMessageRotation: '' @ triple ff x y z]"
| "OnMessageRotation ff _ = []"

text \<open>A part that is not set is the default instance of its type.\<close>

fun OnMessageTransform :: "(u32 \<Rightarrow> string) \<Rightarrow> proto_message \<Rightarrow> string list" where
  "OnMessageTransform ff (TransformMsg p r s) =
     [ruler,
      ''OnMessageTransform:'' @ newline @
      ''position: '' @ (case p of Some (Position x y z) \<Rightarrow> triple ff x y z | None \<Rightarrow> triple ff 0 0 0) @ newline @
      ''rotation: '' @ (case r of Some (Rotation x y z) \<Rightarrow> triple ff x y z | None \<Rightarrow> triple ff 0 0 0) @ newline @
      ''scale: '' @ (case s of Some (Scale x y z) \<Rightarrow> triple ff x y z | None \<Rightarrow> triple ff 0 0 0)]"
| "OnMessageTransform ff _ = []"

fun food_line :: "nat \<Rightarrow> food \<Rightarrow> string" where
  "food_line i (RiceFood origin_place) = dec i @ '') rice: '' @ c_str origin_place"
| "food_line i (DumplingFood stuffing taste) = dec i @ '') dumpling: '' @ c_str stuffing @ '', '' @ Taste_Name taste"
| "food_line i (NoodleFood material taste) = dec i @ '') noodle: '' @ c_str material @ '', '' @ Taste_Name taste"
| "food_line i FoodNotSet = dec i @ '') not set:''"

fun OnMessageLunch :: "proto_message \<Rightarrow> string list" where
  "OnMessageLunch (LunchMsg foods) = ruler # ''OnMessageLunch:'' # map (\<lambda>i. food_line i (foods ! i)) [0..<length foods]"
| "OnMessageLunch _ = []"

definition reader_Register :: "(u32 \<Rightarrow> string) \<Rightarrow> proto_handler \<Rightarrow> proto_handler" where
  "reader_Register ff h =
     Register ''gen.proto.Lunch'' (Some OnMessageLunch)
       (Register ''gen.proto.Transform'' (Some (OnMessageTransform ff))
         (Register ''gen.proto.Rotation'' (Some (OnMessageRotation ff))
           (Register ''gen.proto.Position'' (Some (OnMessagePosition ff)) (RegisterDefault None (Some reader_OnMessage) h))))"

definition LocalReader_Parse :: "proto_lib \<Rightarrow> proto_handler \<Rightarrow> bytes \<Rightarrow> (int \<times> string list) result" where
  "LocalReader_Parse P h p =
     rbind (Deserialize P p) (\<lambda>(msg, total_len).
     Inr (total_len, case msg of Some m \<Rightarrow> handler_OnMessage h m | None \<Rightarrow> []))"

section \<open>The program\<close>

definition sample_pos :: position where "sample_pos = Position 0x40A00000 0x3F800000 0x40C00000"
definition sample_rot :: rotation where "sample_rot = Rotation 0x4048F5C3 0 0x3FC8F5C3"

definition sample_messages :: "proto_message list" where
  "sample_messages =
     [PositionMsg sample_pos,
      RotationMsg sample_rot,
      ScaleMsg (Scale 0x3F800000 0x3F800000 0x3F800000),
      TransformMsg (Some sample_pos) (Some sample_rot) None,
      LunchMsg [RiceFood ''fujian'', NoodleFood ''flour'' 0, DumplingFood ''Leek pork'' 1, FoodNotSet]]"

text \<open>The parameters of the environment: the library, the allocator, the text of floats and what a call of \<open>fwrite\<close> makes of a file.\<close>

record proto_env =
  pe_lib :: proto_lib
  pe_mem :: "int \<Rightarrow> bool"
  pe_junk :: u8
  pe_ff :: "u32 \<Rightarrow> string"
  pe_disk :: "bytes \<Rightarrow> bytes \<Rightarrow> bytes"

fun local_messages :: "proto_env \<Rightarrow> proto_handler \<Rightarrow> proto_message list \<Rightarrow> string list result" where
  "local_messages E h [] = Inr []"
| "local_messages E h (m # ms) =
     rbind (Serialize (pe_lib E) (pe_mem E) (pe_junk E) m) (\<lambda>(bytes, total_len).
     case bytes of
       None \<Rightarrow> Inl NullDeref
     | Some b \<Rightarrow>
         rbind (LocalReader_Parse (pe_lib E) h b) (\<lambda>(_, out).
         rbind (local_messages E h ms) (\<lambda>outs. Inr (out @ outs))))"

definition localSample :: "proto_env \<Rightarrow> string list result" where
  "localSample E = local_messages E (reader_Register (pe_ff E) ProtoMessageHandler) sample_messages"

fun write_messages :: "proto_env \<Rightarrow> proto_message list \<Rightarrow> bytes \<Rightarrow> bytes result" where
  "write_messages E [] file = Inr file"
| "write_messages E (m # ms) file =
     rbind (Serialize (pe_lib E) (pe_mem E) (pe_junk E) m) (\<lambda>(bytes, total_len).
     case bytes of None \<Rightarrow> Inl NullDeref | Some b \<Rightarrow> write_messages E ms (pe_disk E file (take (nat total_len) b)))"

text \<open>\<open>can_open\<close> tells whether the file can be created; None is a file that does not exist.\<close>

definition writeSample :: "proto_env \<Rightarrow> bool \<Rightarrow> bytes option \<Rightarrow> bytes option result" where
  "writeSample E can_open file =
     (if \<not> can_open then Inr file else rbind (write_messages E sample_messages []) (\<lambda>f. Inr (Some f)))"

text \<open>\<open>parse\<close> is \<open>reader.Parse\<close>.\<close>

fun read_loop :: "nat \<Rightarrow> (bytes \<Rightarrow> (int \<times> string list) result) \<Rightarrow> bytes \<Rightarrow> int \<Rightarrow> string list result" where
  "read_loop 0 parse bytes accum_len = Inl Diverges"
| "read_loop (Suc fuel) parse bytes accum_len =
     (if accum_len < 0 then Inl OutOfBounds
      else
        rbind (parse (drop (nat accum_len) bytes)) (\<lambda>(parse_len, out).
        let accum_len' = accum_len + parse_len in
        if accum_len' < - (2 ^ 31) \<or> accum_len' \<ge> 2 ^ 31 then Inl SignedOverflow
        else if accum_len' \<ge> int (length bytes) then Inr out
        else rbind (read_loop fuel parse bytes accum_len') (\<lambda>outs. Inr (out @ outs))))"

definition readSample :: "nat \<Rightarrow> proto_env \<Rightarrow> bytes option \<Rightarrow> string list result" where
  "readSample fuel E file =
     (case file of
        None \<Rightarrow> Inr []
      | Some bytes \<Rightarrow>
          if \<not> pe_mem E (int (length bytes)) then Inl NullDeref
          else read_loop fuel (LocalReader_Parse (pe_lib E) (reader_Register (pe_ff E) ProtoMessageHandler)) bytes 0)"

text \<open>The log takes its first argument as a format: \<open>%%\<close> is a percent sign, and there is no argument for anything else.\<close>

fun no_args :: "string \<Rightarrow> string result" where
  "no_args [] = Inr []"
| "no_args (c # cs) =
     (if c = CHR 0x25 then
        (case cs of d # ds \<Rightarrow> if d = CHR 0x25 then rbind (no_args ds) (\<lambda>t. Inr (CHR 0x25 # t)) else Inl MissingArgument | [] \<Rightarrow> Inl MissingArgument)
      else rbind (no_args cs) (\<lambda>t. Inr (c # t)))"

definition usage_str :: "string \<Rightarrow> string" where
  "usage_str prog = strncpy_buf 512 (newline @ ''Usage: '' @ prog @ '' <l|r|w>'' @ newline @ ''  l: local'' @ newline @ ''  r: read'' @ newline @ ''  w: write'')"

definition proto_main :: "nat \<Rightarrow> proto_env \<Rightarrow> bool \<Rightarrow> string list \<Rightarrow> bytes option \<Rightarrow> (string list \<times> bytes option) result" where
  "proto_main fuel E can_open argv file =
     rbind (if length argv \<noteq> 2 then rbind (no_args (usage_str (argv ! 0))) (\<lambda>u. Inr (CHR ''l'', [u, ''without specify mode, use '' @ [CHR 0x27, CHR ''l'', CHR 0x27]]))
            else Inr (case argv ! 1 of [] \<Rightarrow> CHR 0x00 | c # _ \<Rightarrow> c, []))
       (\<lambda>(mode, out).
        if mode = CHR ''l'' then rbind (localSample E) (\<lambda>o2. Inr (out @ o2, file))
        else if mode = CHR ''r'' then rbind (readSample fuel E file) (\<lambda>o2. Inr (out @ o2, file))
        else if mode = CHR ''w'' then rbind (writeSample E can_open file) (\<lambda>f. Inr (out, f))
        else if mode = CHR ''h'' then rbind (no_args (usage_str (argv ! 0))) (\<lambda>u. Inr (out @ [u], file))
        else rbind (no_args (usage_str (argv ! 0))) (\<lambda>u. Inr (out @ [''invalid mode '' @ [CHR 0x27, mode, CHR 0x27], u], file)))"


section \<open>Framing\<close>

text \<open>A message that the library can write and read back and whose name and length the head can hold.\<close>

definition framable :: "proto_lib \<Rightarrow> proto_message \<Rightarrow> bool" where
  "framable P m \<longleftrightarrow>
     (let t = GetTypeName m; s = pb_ByteSizeLong P m in
      t \<noteq> [] \<and> int (length t) < limit_name_len \<and> CHR 0x00 \<notin> set t \<and> 24 + length t + s < 2 ^ 31 \<and> pb_FindMessageTypeByName P t \<and>
      (\<exists>data. pb_SerializeToArray P m (int s) = Some data \<and> length data = s \<and> pb_ParseFromArray P t data = Some m))"

definition frame :: "proto_lib \<Rightarrow> proto_message \<Rightarrow> bytes" where
  "frame P m =
     (let t = GetTypeName m; s = pb_ByteSizeLong P m in
      bytes32 (ntohl (of_nat (24 + length t + s))) @ strncpy_bytes 16 ''0.0.1'' @ bytes32 (ntohl (of_nat (length t))) @ str_bytes t @
      the (pb_SerializeToArray P m (int s)))"

lemma name_of_bytes: "CHR 0x00 \<notin> set s \<Longrightarrow> chars_of (takeWhile (\<lambda>b. b \<noteq> 0) (str_bytes s)) = s"
  using str_bytes_nonzero [of s] by (subst takeWhile_eq_all_conv [THEN iffD2]) (auto simp: chars_of_str_bytes)

lemma version_bytes: "strncpy_bytes 16 ''0.0.1'' = strncpy_bytes 15 ''0.0.1'' @ [0]" "length (strncpy_bytes 15 ''0.0.1'') = 15"
  by (simp_all add: strncpy_bytes_def str_bytes_def numeral_eq_Suc)

lemma sixteen: "replicate 16 x @ xs = replicate 15 x @ x # xs"
  by (simp add: numeral_eq_Suc)

lemma write_next: "length pre = i \<Longrightarrow> length old = length xs \<Longrightarrow> write_range (pre @ old @ post) i xs = Inr (pre @ xs @ post)"
  by (simp add: write_range_def)

lemma write_junk: "length pre = i \<Longrightarrow> length xs \<le> n \<Longrightarrow> write_range (pre @ replicate n w) i xs = Inr (pre @ xs @ replicate (n - length xs) w)"
  using write_range_append [of pre n w xs] by simp

lemma length_str_bytes [simp]: "length (str_bytes s) = length s"
  by (simp add: str_bytes_def)

lemma serialize_frame:
  assumes ok: "framable P m" and mem: "mem (int (length (frame P m)))"
  shows "Serialize P mem junk m = Inr (Some (frame P m), int (length (frame P m)))"
proof -
  define t s where "t = GetTypeName m" and "s = pb_ByteSizeLong P m"
  obtain data where data: "pb_SerializeToArray P m (int s) = Some data" "length data = s" and small: "24 + length t + s < 2 ^ 31"
    using ok by (auto simp: framable_def Let_def t_def s_def)
  define n where "n = 24 + length t + s"
  have f: "frame P m = bytes32 (ntohl (of_nat n)) @ strncpy_bytes 16 ''0.0.1'' @ bytes32 (ntohl (of_nat (length t))) @ str_bytes t @ data"
    by (simp add: frame_def Let_def data n_def flip: t_def s_def)
  then have len: "length (frame P m) = n" by (simp add: version_bytes data n_def)
  have total: "to_int (24 + int (length t) + int s) = int n" "to_int (int s) = int s"
    using small by (simp_all add: n_def to_int_small)
  let ?h = "bytes32 (ntohl (of_nat n))" and ?v = "strncpy_bytes 15 ''0.0.1''"
  have 1: "write_range (replicate n junk) 0 ?h = Inr (?h @ replicate (20 + length t + s) junk)"
    using write_junk [of "[]" 0 ?h n junk] by (simp add: n_def)
  have 2: "write_range (?h @ replicate (20 + length t + s) junk) 4 (replicate 16 0) = Inr (?h @ replicate 16 0 @ replicate (4 + length t + s) junk)"
    using write_junk [of ?h 4 "replicate 16 0" "20 + length t + s" junk] by simp
  have 3: "write_range (?h @ replicate 16 0 @ replicate (4 + length t + s) junk) 4 ?v =
      Inr ((?h @ strncpy_bytes 16 ''0.0.1'') @ replicate (4 + length t + s) junk)"
    using write_next [of ?h 4 "replicate 15 0" ?v "0 # replicate (4 + length t + s) junk"]
    by (simp add: version_bytes sixteen)
  have 4: "write_range ((?h @ strncpy_bytes 16 ''0.0.1'') @ replicate (4 + length t + s) junk) 20 (bytes32 w) =
      Inr ((?h @ strncpy_bytes 16 ''0.0.1'' @ bytes32 w) @ replicate (length t + s) junk)" for w
    using write_junk [of "?h @ strncpy_bytes 16 ''0.0.1''" 20 "bytes32 w" "4 + length t + s" junk] by (simp add: version_bytes)
  have 5: "write_range ((?h @ strncpy_bytes 16 ''0.0.1'' @ bytes32 w) @ replicate (length t + s) junk) 24 (str_bytes t) =
      Inr ((?h @ strncpy_bytes 16 ''0.0.1'' @ bytes32 w @ str_bytes t) @ replicate s junk)" for w
    using write_junk [of "?h @ strncpy_bytes 16 ''0.0.1'' @ bytes32 w" 24 "str_bytes t" "length t + s" junk] by (simp add: version_bytes)
  let ?w = "ntohl (of_nat (length t))"
  have 6: "write_range ((?h @ strncpy_bytes 16 ''0.0.1'' @ bytes32 ?w @ str_bytes t) @ replicate s junk) (24 + length t) data = Inr (frame P m)"
    using write_junk [of "?h @ strncpy_bytes 16 ''0.0.1'' @ bytes32 ?w @ str_bytes t" "24 + length t" data s junk] data by (simp add: version_bytes f)
  show ?thesis
    using mem by (simp add: Serialize_def Let_def total 1 2 3 4 [simplified] 5 [simplified] 6 [simplified] len data flip: t_def s_def)
qed

lemma frame_not_empty: "frame P m \<noteq> []"
  by (simp add: frame_def Let_def bytes32_def)

lemma read_next: "length pre = i \<Longrightarrow> length xs = n \<Longrightarrow> read_range (pre @ xs @ post) i n = Inr xs"
  by (simp add: read_range_def)

lemma deserialize_frame:
  assumes ok: "framable P m"
  shows "Deserialize P (frame P m @ rest) = Inr (Some m, int (length (frame P m)))"
proof -
  define t s where "t = GetTypeName m" and "s = pb_ByteSizeLong P m"
  obtain data where data: "pb_SerializeToArray P m (int s) = Some data" "length data = s" "pb_ParseFromArray P t data = Some m"
    and t: "t \<noteq> []" "int (length t) < limit_name_len" "CHR 0x00 \<notin> set t" "24 + length t + s < 2 ^ 31" "pb_FindMessageTypeByName P t"
    using ok by (auto simp: framable_def Let_def t_def s_def)
  let ?h = "bytes32 (ntohl (of_nat (24 + length t + s)))" and ?v = "strncpy_bytes 15 ''0.0.1''" and ?l = "bytes32 (ntohl (of_nat (length t)))"
  have f: "frame P m @ rest = ?h @ ?v @ [0] @ ?l @ str_bytes t @ data @ rest"
    by (simp add: frame_def Let_def data version_bytes flip: t_def s_def)
  have len: "length (frame P m) = 24 + length t + s" using f [THEN arg_cong, of length] by (simp add: version_bytes data)
  have small: "length t < 129" using t by (simp add: limit_name_len_def)
  have 1: "load32 (frame P m @ rest) 0 = Inr (ntohl (of_nat (24 + length t + s)))"
    unfolding f using load32_append [of "[]" 0] by simp
  have 2: "read_range (frame P m @ rest) 4 15 = Inr ?v"
    unfolding f using read_next [of ?h 4 ?v 15] by (simp add: version_bytes)
  have 3: "load32 (frame P m @ rest) 20 = Inr (ntohl (of_nat (length t)))"
    unfolding f using load32_append [of "?h @ ?v @ [0]" 20] by (simp add: version_bytes)
  have 4: "read_range (frame P m @ rest) 24 (length t) = Inr (str_bytes t)"
    unfolding f using read_next [of "?h @ ?v @ [0] @ ?l" 24 "str_bytes t" "length t"] by (simp add: version_bytes)
  have 5: "read_range (frame P m @ rest) (24 + length t) s = Inr data"
    unfolding f using read_next [of "?h @ ?v @ [0] @ ?l @ str_bytes t" "24 + length t" data s] by (simp add: version_bytes data)
  have w: "sint (of_nat (24 + length t + s) :: u32) = int (24 + length t + s)" "sint (of_nat (length t) :: u32) = int (length t)"
    using t(4) small by (simp_all only: sint_of_nat_u32)
  have size: "to_int (int (24 + length t + s) - 4 - 16 - 4 - int (length t)) = int s" using t(4) by (simp add: to_int_small)
  show ?thesis
    unfolding Deserialize_def 1 2 3 rbind.simps Let_def ntohl_ntohl w size
    using t(1,5) small by (simp add: limit_name_len_def 4 5 CreateProtoMessage_def name_of_bytes [OF t(3)] data(3) len)
qed


section \<open>Streams of messages\<close>

text \<open>
  What a reader needs of a codec: the parser takes one encoded message from the front of the memory, tells its length and shows it, and no
  encoding is empty.
\<close>

locale framed_messages =
  fixes enc :: "'m \<Rightarrow> bytes" and parse :: "bytes \<Rightarrow> (int \<times> string list) result" and show_msg :: "'m \<Rightarrow> string list" and good :: "'m \<Rightarrow> bool"
  assumes takes_one: "good m \<Longrightarrow> parse (enc m @ rest) = Inr (int (length (enc m)), show_msg m)"
    and not_empty: "good m \<Longrightarrow> enc m \<noteq> []"
begin

lemma read_loop_stream:
  assumes "ms \<noteq> []" "list_all good ms" "length ms \<le> fuel" "length (pre @ concat (map enc ms)) < 2 ^ 31"
  shows "read_loop fuel parse (pre @ concat (map enc ms)) (int (length pre)) = Inr (concat (map show_msg ms))"
  using assms
proof (induction ms arbitrary: fuel pre)
  case (Cons m ms)
  obtain f where fuel: "fuel = Suc f" using Cons.prems(3) by (cases fuel) auto
  have one: "parse (enc m @ concat (map enc ms)) = Inr (int (length (enc m)), show_msg m)" using Cons.prems(2) by (simp add: takes_one)
  show ?case
  proof (cases ms)
    case Nil
    then show ?thesis using one Cons.prems(4) by (simp add: fuel Let_def)
  next
    case (Cons m' ms')
    have "enc m' \<noteq> []" using Cons Cons.prems(2) not_empty by simp
    then have more: "length pre + length (enc m) < length (pre @ enc m @ concat (map enc ms))" using Cons by simp
    have "read_loop f parse ((pre @ enc m) @ concat (map enc ms)) (int (length (pre @ enc m))) = Inr (concat (map show_msg ms))"
      using Cons Cons.prems by (intro Cons.IH) (simp_all add: fuel)
    then show ?thesis using one more Cons.prems(4) by (auto simp: fuel Let_def)
  qed
qed simp

end

interpretation proto: framed_messages "frame P" "LocalReader_Parse P h" "handler_OnMessage h" "framable P" for P h
  by unfold_locales (simp_all add: LocalReader_Parse_def deserialize_frame frame_not_empty)

definition sample_handler :: "proto_env \<Rightarrow> proto_handler" where
  "sample_handler E = reader_Register (pe_ff E) ProtoMessageHandler"

text \<open>An environment in which allocation succeeds and \<open>fwrite\<close> stores what it is given.\<close>

definition works :: "proto_env \<Rightarrow> bool" where
  "works E \<longleftrightarrow> (\<forall>k. pe_mem E k) \<and> (\<forall>a b. pe_disk E a b = a @ b)"

lemma write_messages_stream:
  "works E \<Longrightarrow> list_all (framable (pe_lib E)) ms \<Longrightarrow> write_messages E ms f0 = Inr (f0 @ concat (map (frame (pe_lib E)) ms))"
  by (induction ms arbitrary: f0) (simp_all add: serialize_frame works_def)

lemma local_messages_stream:
  "works E \<Longrightarrow> list_all (framable (pe_lib E)) ms \<Longrightarrow> local_messages E h ms = Inr (concat (map (handler_OnMessage h) ms))"
  using proto.takes_one [where rest = "[]"] by (induction ms) (simp_all add: serialize_frame works_def)

text \<open>Who gets a message: the callback of its type, or the default one.\<close>

fun logged_for :: "(u32 \<Rightarrow> string) \<Rightarrow> proto_message \<Rightarrow> string list" where
  "logged_for ff (PositionMsg p) = OnMessagePosition ff (PositionMsg p)"
| "logged_for ff (RotationMsg r) = OnMessageRotation ff (RotationMsg r)"
| "logged_for ff (TransformMsg p r s) = OnMessageTransform ff (TransformMsg p r s)"
| "logged_for ff (LunchMsg foods) = OnMessageLunch (LunchMsg foods)"
| "logged_for ff msg = reader_OnMessage msg"

fun own_name :: "proto_message \<Rightarrow> bool" where
  "own_name (OtherMsg t _) = (t \<notin> {''gen.proto.Position'', ''gen.proto.Rotation'', ''gen.proto.Scale'', ''gen.proto.Transform'', ''gen.proto.Lunch''})"
| "own_name _ = True"

lemma handler_shows:
  "own_name m \<Longrightarrow> handler_OnMessage (reader_Register ff ProtoMessageHandler) m = logged_for ff m"
  by (cases m) (simp_all add: handler_OnMessage_def reader_Register_def Register_def RegisterDefault_def ProtoMessageHandler_def
      TMsgCallback_OnMessage_def Let_def)

lemma handler_shows_all:
  "list_all own_name ms \<Longrightarrow> concat (map (handler_OnMessage (sample_handler E)) ms) = concat (map (logged_for (pe_ff E)) ms)"
  by (rule arg_cong [of _ _ concat]) (auto simp: sample_handler_def handler_shows list_all_iff)

text \<open>
  C20. Messages of any types, sent through the codec one by one or written to a file that is read back: the reader gives
  every message, in order, to the callback of its type or to the default callback, in both cases the same. The names of the types have at most the
  128 characters the codec allows and known to the library, a frame fits an \<open>int\<close>, and what the library serializes it parses back.
\<close>

theorem messages_read_back:
  assumes "works E" "list_all (framable (pe_lib E)) ms" "list_all own_name ms" "ms \<noteq> []"
    and "length (concat (map (frame (pe_lib E)) ms)) < 2 ^ 31" "length ms \<le> fuel"
  shows "\<exists>file. write_messages E ms [] = Inr file \<and>
      read_loop fuel (LocalReader_Parse (pe_lib E) (sample_handler E)) file 0 = Inr (concat (map (logged_for (pe_ff E)) ms)) \<and>
      local_messages E (sample_handler E) ms = Inr (concat (map (logged_for (pe_ff E)) ms))"
proof -
  have "concat (map (handler_OnMessage (sample_handler E)) ms) = concat (map (logged_for (pe_ff E)) ms)"
    using assms(3) by (rule handler_shows_all)
  then show ?thesis
    using assms write_messages_stream [of E ms "[]"] local_messages_stream [of E ms]
      proto.read_loop_stream [of ms "pe_lib E" fuel "[]" "sample_handler E"] by simp
qed

text \<open>
  The program: what it writes with the argument w it reads back with the argument r, and the lines it logs then are those it logs
  with the argument l, which need no file.
\<close>

theorem proto_programs_agree:
  assumes "works E" "list_all (framable (pe_lib E)) sample_messages"
    and "length (concat (map (frame (pe_lib E)) sample_messages)) < 2 ^ 31" "5 \<le> fuel"
  shows "\<exists>file. proto_main fuel E True [prog, ''w''] old = Inr ([], Some file) \<and>
      proto_main fuel E can_open [prog, ''r''] (Some file) = Inr (concat (map (logged_for (pe_ff E)) sample_messages), Some file) \<and>
      proto_main fuel E can_open [prog, ''l''] old = Inr (concat (map (logged_for (pe_ff E)) sample_messages), old)"
proof -
  let ?file = "concat (map (frame (pe_lib E)) sample_messages)"
  have handled: "concat (map (handler_OnMessage (sample_handler E)) sample_messages) = concat (map (logged_for (pe_ff E)) sample_messages)"
    by (rule handler_shows_all) (simp add: sample_messages_def)
  have five: "sample_messages \<noteq> []" "length sample_messages \<le> fuel" using assms(4) by (simp_all add: sample_messages_def)
  have w: "writeSample E True old = Inr (Some ?file)" using write_messages_stream [OF assms(1,2)] by (simp add: writeSample_def)
  have r: "readSample fuel E (Some ?file) = Inr (concat (map (logged_for (pe_ff E)) sample_messages))"
    using assms(1,3) proto.read_loop_stream [OF five(1) assms(2) five(2), of "[]" "sample_handler E"] handled
    by (simp add: readSample_def works_def flip: sample_handler_def)
  have l: "localSample E = Inr (concat (map (logged_for (pe_ff E)) sample_messages))"
    using local_messages_stream [OF assms(1,2)] handled by (simp add: localSample_def flip: sample_handler_def)
  show ?thesis by (rule exI [of _ ?file]) (simp add: proto_main_def w r l)
qed


section \<open>A library, and what goes wrong\<close>

text \<open>A library that knows the messages of the program: their contents are empty and their types tell them apart.\<close>

definition sample_lib :: proto_lib where
  "sample_lib = \<lparr>pb_ByteSizeLong = \<lambda>_. 0, pb_SerializeToArray = \<lambda>_ _. Some [],
     pb_FindMessageTypeByName = \<lambda>t. t \<in> GetTypeName ` set sample_messages,
     pb_ParseFromArray = \<lambda>t _. find (\<lambda>m. GetTypeName m = t) sample_messages\<rparr>"

definition proto_sample_env :: proto_env where
  "proto_sample_env = \<lparr>pe_lib = sample_lib, pe_mem = \<lambda>_. True, pe_junk = 0xCD, pe_ff = \<lambda>w. dec (unat w), pe_disk = (@)\<rparr>"

lemma sample_sendable: "list_all (framable sample_lib) sample_messages"
  by (simp add: framable_def sample_lib_def sample_messages_def limit_name_len_def)

lemma sample_works: "works proto_sample_env" "pe_lib proto_sample_env = sample_lib"
  by (simp_all add: works_def proto_sample_env_def)

lemma sample_length: "length (concat (map (frame sample_lib) sample_messages)) < 2 ^ 31"
  by (simp add: frame_def sample_lib_def sample_messages_def version_bytes)

theorem messages_read_back_witness:
  "\<exists>file. write_messages proto_sample_env sample_messages [] = Inr file \<and>
     read_loop 5 (LocalReader_Parse sample_lib (sample_handler proto_sample_env)) file 0 = Inr (concat (map (logged_for (pe_ff proto_sample_env)) sample_messages)) \<and>
     local_messages proto_sample_env (sample_handler proto_sample_env) sample_messages = Inr (concat (map (logged_for (pe_ff proto_sample_env)) sample_messages))"
  using messages_read_back [of proto_sample_env sample_messages 5] sample_works sample_sendable sample_length by (simp add: sample_messages_def)

theorem proto_programs_agree_witness:
  "\<exists>file. proto_main 5 proto_sample_env True [''local'', ''w''] None = Inr ([], Some file) \<and>
     proto_main 5 proto_sample_env True [''local'', ''r''] (Some file) = Inr (concat (map (logged_for (pe_ff proto_sample_env)) sample_messages), Some file) \<and>
     proto_main 5 proto_sample_env True [''local'', ''l''] None = Inr (concat (map (logged_for (pe_ff proto_sample_env)) sample_messages), None)"
  using proto_programs_agree [of proto_sample_env 5 "''local''" None True] sample_works sample_sendable sample_length by simp

text \<open>A file whose first message announces the length 0 is read for ever; an empty file is read outside of its memory.\<close>

lemma reader_endless:
  assumes "load32 file 0 = Inr 0" "load32 file 20 = Inr 0"
  shows "read_loop fuel (LocalReader_Parse P h) file 0 = Inl Diverges"
proof (induction fuel)
  case (Suc fuel)
  have len: "24 \<le> length file" using assms(2) by (simp add: load32_def split: if_splits)
  then have "file \<noteq> []" by auto
  moreover have "LocalReader_Parse P h file = Inr (0, [])"
    using assms len by (simp add: LocalReader_Parse_def Deserialize_def ntohl_def le32_def read_range_def)
  ultimately show ?case using Suc by simp
qed simp

lemma empty_file_faults: "read_loop (Suc fuel) (LocalReader_Parse P h) [] 0 = Inl OutOfBounds"
  by (simp add: LocalReader_Parse_def Deserialize_def load32_def)

text \<open>A second registration for a type has no effect, and its callback object is lost.\<close>

lemma register_twice:
  assumes "type_callbacks h T = Some c"
  shows "handler_OnMessage (Register T f h) = handler_OnMessage h" "live_callbacks (Register T f h) = live_callbacks h + 1"
  using assms by (simp_all add: Register_def handler_OnMessage_def [abs_def] Let_def fun_eq_iff split: option.split)

end
