(* ===== verification/HugePage.thy ===== *)
theory HugePage
  imports Prelude "HOL-Library.Signed_Division"
begin

text \<open>
  The experiment of src/play/c/hugepage_test/src/main.c: it takes one large piece of memory from one of four sources, divides it into two arrays
  of positions and two arrays of records, fills the first three and copies records between the last two at the given positions.

  The memory is a list of bytes, in which every load and store is checked. What the kernel and the allocator answer, the random
  numbers, the arithmetic of floats (as 32-bit patterns) and the table of instrument names (instrument_id.h) are arguments.
\<close>

unbundle bit_operations_syntax

section \<open>Arguments\<close>

record huge_args =
  use_hugepage :: int
  random_access :: int
  prefetch :: int
  page_size :: string
  hugetlbfs_file :: string

text \<open>\<open>getopt_long\<close> appears as the options it returns, each with its argument.\<close>

definition huge_parse_opt :: "char \<Rightarrow> string \<Rightarrow> huge_args \<Rightarrow> huge_args parsed" where
  "huge_parse_opt c optarg args =
     (if c = CHR ''h'' then ExitSuccess
      else if c = CHR ''p'' then Parsed (args\<lparr>use_hugepage := to_int (atoi optarg)\<rparr>)
      else if c = CHR ''r'' then Parsed (args\<lparr>random_access := to_int (atoi optarg)\<rparr>)
      else if c = CHR ''s'' then Parsed (args\<lparr>page_size := strncpy_buf 16 optarg\<rparr>)
      else if c = CHR ''f'' then Parsed (args\<lparr>hugetlbfs_file := strncpy_buf 512 optarg\<rparr>)
      else if c = CHR ''P'' then Parsed (args\<lparr>prefetch := to_int (atoi optarg)\<rparr>)
      else Parsed args)"

fun huge_parse_opts :: "(char \<times> string) list \<Rightarrow> huge_args \<Rightarrow> huge_args parsed" where
  "huge_parse_opts [] args = Parsed args"
| "huge_parse_opts ((c, optarg) # opts) args =
     (case huge_parse_opt c optarg args of Parsed args \<Rightarrow> huge_parse_opts opts args | r \<Rightarrow> r)"

definition huge_parse_args :: "(char \<times> string) list \<Rightarrow> huge_args parsed" where
  "huge_parse_args opts =
     huge_parse_opts opts \<lparr>use_hugepage = 0, random_access = 0, prefetch = 0, page_size = [], hugetlbfs_file = []\<rparr>"

section \<open>Memory\<close>

definition ROUND_UP_POW_OF_2_MUL :: "u64 \<Rightarrow> u64 \<Rightarrow> u64" where
  "ROUND_UP_POW_OF_2_MUL x n = (x + n - 1) AND NOT (n - 1)"

definition PAGE_SIZE_2M :: nat where "PAGE_SIZE_2M = 2 * 1024 * 1024"
definition PAGE_SIZE_1G :: nat where "PAGE_SIZE_1G = 1024 * 1024 * 1024"

definition ALIGN_PAGE :: "nat \<Rightarrow> nat \<Rightarrow> nat" where
  "ALIGN_PAGE n page = unat (ROUND_UP_POW_OF_2_MUL (of_nat n) (of_nat page))"

text \<open>
  What the program can hold, and what it prints: \<open>Out\<close> on the standard output, \<open>Err\<close> on the error output. The file descriptor \<open>s_fd\<close> is open when
  \<open>HugeFile\<close> is held.
\<close>

datatype huge_res = HeapBlock | Mapping | HugeFile
datatype huge_line = Out string | Err string
datatype map_kind = HugeDefault | Huge2MB | Huge1GB | HugeShared

record huge_os =
  os_mmap :: "map_kind \<Rightarrow> nat \<Rightarrow> bool"
  os_open :: "string \<Rightarrow> bool"
  os_aligned_alloc :: "nat \<Rightarrow> bool"
  os_madvise_hugepage :: bool
  os_populate :: "bool option"    \<comment> \<open>None: built without \<open>MADV_POPULATE_WRITE\<close>\<close>
  os_munmap :: bool
  os_errno :: int
  os_fresh :: "nat \<Rightarrow> u8"        \<comment> \<open>what new memory holds\<close>

definition fresh_block :: "huge_os \<Rightarrow> nat \<Rightarrow> bytes" where
  "fresh_block S n = map (os_fresh S) [0..<n]"

type_synonym huge_alloc = "bytes option \<times> huge_res list \<times> huge_line list"

definition alloc_datas_hugetlb_mmap :: "huge_os \<Rightarrow> huge_args \<Rightarrow> nat \<Rightarrow> huge_alloc" where
  "alloc_datas_hugetlb_mmap S args n_bytes =
     (let flags = (if page_size args = ''2MB'' then Huge2MB else if page_size args = ''1GB'' then Huge1GB else HugeDefault) in
      if \<not> os_mmap S flags n_bytes then (None, [], [Err (''failed mmap, n_bytes='' @ dec n_bytes @ '', errno='' @ deci (os_errno S))])
      else (Some (fresh_block S n_bytes), [Mapping], []))"

definition alloc_datas_hugetlbfs :: "huge_os \<Rightarrow> huge_args \<Rightarrow> nat \<Rightarrow> huge_alloc" where
  "alloc_datas_hugetlbfs S args n_bytes =
     (if hugetlbfs_file args = [] then (None, [], [Err ''use hugetlbfs+mmap without specify file''])
      else if \<not> os_open S (hugetlbfs_file args) then (None, [], [Err (''failed open '' @ hugetlbfs_file args)])
      else if \<not> os_mmap S HugeShared n_bytes then (None, [], [Err (''failed mmap hugetlbfs, errno='' @ deci (os_errno S))])
      else (Some (fresh_block S n_bytes), [Mapping, HugeFile], []))"

definition alloc_datas_thp :: "huge_os \<Rightarrow> nat \<Rightarrow> huge_alloc" where
  "alloc_datas_thp S n_bytes =
     (if os_aligned_alloc S n_bytes \<and> os_madvise_hugepage S then (Some (fresh_block S n_bytes), [HeapBlock], [])
      else (None, [], [Err (''failed madvise MADV_HUGEPAGE, n_bytes: '' @ dec n_bytes @ '', errno: '' @ deci (os_errno S))]))"

definition alloc_datas_heap :: "huge_os \<Rightarrow> nat \<Rightarrow> huge_alloc" where
  "alloc_datas_heap S n_bytes = (if os_aligned_alloc S n_bytes then (Some (fresh_block S n_bytes), [HeapBlock], []) else (None, [], []))"

definition prefetch_datas :: "huge_os \<Rightarrow> bytes \<Rightarrow> bytes \<times> huge_line list" where
  "prefetch_datas S datas =
     (case os_populate S of
        Some False \<Rightarrow>
          (datas, [Err (''failed madivse MADV_POPULATE_WRITE, n_bytes: '' @ dec (length datas) @ '', errno: '' @ deci (os_errno S))])
      | Some True \<Rightarrow> (replicate (length datas) 0, [Err ''use memset to prefetch''])
      | None \<Rightarrow> (replicate (length datas) 0, []))"

definition alloc_datas :: "huge_os \<Rightarrow> huge_args \<Rightarrow> nat \<Rightarrow> huge_alloc" where
  "alloc_datas S args n_bytes =
     (let (datas, res, log) =
        (if use_hugepage args = 1 then alloc_datas_hugetlb_mmap S args n_bytes
         else if use_hugepage args = 2 then alloc_datas_hugetlbfs S args n_bytes
         else if use_hugepage args = 3 then alloc_datas_thp S n_bytes
         else alloc_datas_heap S n_bytes) in
      case datas of
        None \<Rightarrow> (None, res, log @ [Err ''failed allocate memory''])
      | Some d \<Rightarrow>
          if prefetch args \<noteq> 0 then let (d, log') = prefetch_datas S d in (Some d, res, log @ log')
          else (Some d, res, log))"

section \<open>Records and positions\<close>

definition sizeof_record :: nat where "sizeof_record = 132"

definition s_exchanges :: "string list" where "s_exchanges = [''SHFE'', ''DCE'', ''CZCE'', ''CFFEX'', ''INE'', ''GFX'']"

record huge_float =
  fl_price :: "nat \<Rightarrow> u32"              \<comment> \<open>\<open>n + 1000.0\<close> as a float\<close>
  fl_times :: "u32 \<Rightarrow> u32 \<Rightarrow> u32"      \<comment> \<open>a float times an unsigned integer\<close>
  fl_minus :: "u32 \<Rightarrow> nat \<Rightarrow> u32"
  fl_plus :: "u32 \<Rightarrow> nat \<Rightarrow> u32"

record huge_env =
  he_os :: huge_os
  he_float :: huge_float
  he_rand :: "nat \<Rightarrow> nat"               \<comment> \<open>what call number \<open>k\<close> of \<open>rand()\<close> gives\<close>
  he_ids :: "string list"                 \<comment> \<open>\<open>s_instrument_ids\<close>\<close>
  he_start :: "int \<times> int"                \<comment> \<open>the two readings of the clock: seconds and nanoseconds\<close>
  he_end :: "int \<times> int"

text \<open>The state of the program while it works: the memory and the number of calls of \<open>rand()\<close>.\<close>

type_synonym huge_st = "bytes \<times> nat"

definition store :: "nat \<Rightarrow> bytes \<Rightarrow> bytes \<Rightarrow> bytes result" where
  "store p bs mem = write_range mem p bs"

definition fill_prices :: "huge_float \<Rightarrow> nat \<Rightarrow> u32 \<Rightarrow> nat \<Rightarrow> bytes \<Rightarrow> bytes result" where
  "fill_prices F data last_price i mem =
     rbind (store (data + 92 + 4 * i) (bytes32 (fl_minus F last_price i)) mem) (store (data + 112 + 4 * i) (bytes32 (fl_plus F last_price i)))"

definition fill_record :: "huge_env \<Rightarrow> nat \<Rightarrow> nat \<Rightarrow> huge_st \<Rightarrow> huge_st result" where
  "fill_record E src_datas i = (\<lambda>(mem, k).
     let data = src_datas + sizeof_record * i; F = he_float E;
         idx_exchange = he_rand E k mod length s_exchanges in
     rbind (store data (strncpy_bytes 15 (s_exchanges ! idx_exchange)) mem) (\<lambda>mem.
     if he_ids E = [] then Inl DivByZero
     else
       let idx_instrument_id = he_rand E (k + 1) mod length (he_ids E);
           last_price = fl_price F (he_rand E (k + 2) mod 1000);
           qty = of_nat (he_rand E (k + 3) mod 1000 + 1000) in
       rbind (store (data + 16) (strncpy_bytes 63 (he_ids E ! idx_instrument_id)) mem) (\<lambda>mem.
       rbind (store (data + 80) (bytes32 last_price) mem) (\<lambda>mem.
       rbind (store (data + 84) (bytes32 qty) mem) (\<lambda>mem.
       rbind (store (data + 88) (bytes32 (fl_times F last_price qty)) mem) (\<lambda>mem.
       rbind (for_each (fill_prices F data last_price) [0..<5] mem) (\<lambda>mem. Inr (mem, k + 4))))))))"

definition fill_pos :: "huge_env \<Rightarrow> huge_args \<Rightarrow> nat \<Rightarrow> nat \<Rightarrow> nat \<Rightarrow> huge_st \<Rightarrow> huge_st result" where
  "fill_pos E args pos_arr n i = (\<lambda>(mem, k).
     if random_access args \<noteq> 0 then rbind (store (pos_arr + 4 * i) (bytes32 (of_nat (he_rand E k mod n))) mem) (\<lambda>mem. Inr (mem, k + 1))
     else rbind (store (pos_arr + 4 * i) (bytes32 (of_nat (i mod n))) mem) (\<lambda>mem. Inr (mem, k)))"

definition run_access :: "nat \<Rightarrow> nat \<Rightarrow> nat \<Rightarrow> nat \<Rightarrow> nat \<Rightarrow> nat \<Rightarrow> nat \<Rightarrow> bytes \<Rightarrow> bytes result" where
  "run_access src_pos_arr n_src_pos dst_pos_arr n_dst_pos src_datas dst_datas i mem =
     rbind (load32 mem (src_pos_arr + 4 * (i mod n_src_pos))) (\<lambda>src_pos.
     rbind (load32 mem (dst_pos_arr + 4 * (i mod n_dst_pos))) (\<lambda>dst_pos.
     rbind (read_range mem (src_datas + sizeof_record * unat src_pos) sizeof_record) (\<lambda>src_data.
     store (dst_datas + sizeof_record * unat dst_pos) src_data mem)))"

section \<open>The program\<close>

definition huge_usage :: "string \<Rightarrow> string" where
  "huge_usage argv0 =
     ''Usage: '' @ argv0 @ ''
  -p, --hugepage    use huge page
    * 0: without HUGE_TLB
    * 1: use HUGE_TLB with mmap
    * 2: use HUGE_TLB with hugetlbfs + mmap
    * 3: use THP with madvise
  -r, --random      random access data
  -s, --pagesize    specific page size, run with '-p 1'
  -f, --file        filepath in hugetlbfs
  -P, --prefetch    prefetch memory''"

definition on_off :: "int \<Rightarrow> string" where "on_off k = (if k \<noteq> 0 then ''on'' else ''off'')"


definition first_lines :: "huge_args \<Rightarrow> huge_line list" where
  "first_lines args =
     [Out ''----------------'',
      Out (''use hugepage: '' @ on_off (use_hugepage args)),
      Out (''random access: '' @ on_off (random_access args)),
      Out (''page size: '' @ (if page_size args \<noteq> [] then page_size args else ''default'')),
      Out (''hugetlbfs filepath: '' @ (if hugetlbfs_file args \<noteq> [] then hugetlbfs_file args else ''(null)'')),
      Out (''prefetch: '' @ on_off (prefetch args)),
      Out ''----------------'']"

text \<open>The sizes of the experiment: numbers of positions and of records.\<close>

definition n_src_pos :: nat where "n_src_pos = PAGE_SIZE_2M"
definition n_dst_pos :: nat where "n_dst_pos = PAGE_SIZE_2M"
definition n_src :: nat where "n_src = PAGE_SIZE_2M"
definition n_dst :: nat where "n_dst = 2 * PAGE_SIZE_2M"
definition access_times :: nat where "access_times = (if n_src_pos > n_dst_pos then n_src_pos else n_dst_pos)"

definition n_bytes :: nat where "n_bytes = 4 * n_src_pos + 4 * n_dst_pos + sizeof_record * n_src + n_dst * sizeof_record"

definition n_total_bytes :: "huge_args \<Rightarrow> nat" where
  "n_total_bytes args =
     (if page_size args = ''2MB'' then ALIGN_PAGE n_bytes PAGE_SIZE_2M
      else if page_size args = ''1GB'' then ALIGN_PAGE n_bytes PAGE_SIZE_1G
      else ALIGN_PAGE n_bytes PAGE_SIZE_2M)"

definition size_lines :: "huge_args \<Rightarrow> huge_line list" where
  "size_lines args =
     [Out ''number of datas:'', Out (''  - n_src_pos: '' @ dec n_src_pos), Out (''  - n_dst_pos: '' @ dec n_dst_pos), Out (''  - n_src: '' @ dec n_src),
      Out (''  - n_dst: '' @ dec n_dst), Out (''  - access_times: '' @ dec access_times),
      Out ''bytes of datas:'', Out (''  - n_bytes_src_pos: '' @ dec (4 * n_src_pos)), Out (''  - n_bytes_dst_pos: '' @ dec (4 * n_dst_pos)),
      Out (''  - n_bytes_src: '' @ dec (sizeof_record * n_src)), Out (''  - n_bytes_dst: '' @ dec (n_dst * sizeof_record)),
      Out (''  - total_bytes: '' @ dec n_bytes), Out (''total bytes after aligned: '' @ dec (n_total_bytes args)), Out ''start allocate datas'']"

text \<open>The work on the memory: filling and copying.\<close>

definition huge_fill :: "huge_env \<Rightarrow> huge_args \<Rightarrow> bytes \<Rightarrow> huge_st result" where
  "huge_fill E args datas =
     (let src_pos_arr = 0; dst_pos_arr = src_pos_arr + 4 * n_src_pos; src_datas = dst_pos_arr + 4 * n_dst_pos in
      rbind (for_each (fill_record E src_datas) [0..<n_src] (datas, 0)) (\<lambda>s.
      rbind (for_each (fill_pos E args src_pos_arr n_src) [0..<n_src_pos] s)
        (for_each (fill_pos E args dst_pos_arr n_dst) [0..<n_dst_pos])))"

definition huge_access :: "bytes \<Rightarrow> bytes result" where
  "huge_access datas =
     (let src_pos_arr = 0; dst_pos_arr = src_pos_arr + 4 * n_src_pos; src_datas = dst_pos_arr + 4 * n_dst_pos;
          dst_datas = src_datas + sizeof_record * n_src in
      for_each (run_access src_pos_arr n_src_pos dst_pos_arr n_dst_pos src_datas dst_datas) [0..<access_times] datas)"

definition elapsed_ms :: "int \<times> int \<Rightarrow> int \<times> int \<Rightarrow> int" where
  "elapsed_ms start_ts end_ts = (fst end_ts - fst start_ts) * 1000 + (snd end_ts - snd start_ts) sdiv 1000000"

text \<open>\<open>munmap\<close> gives back a mapping; on other memory it leaves the allocator's block behind.\<close>

definition huge_cleanup :: "huge_os \<Rightarrow> huge_args \<Rightarrow> huge_res list \<Rightarrow> (nat \<times> huge_res list \<times> huge_line list) result" where
  "huge_cleanup S args held =
     (if use_hugepage args \<noteq> 0 then
        if \<not> os_munmap S then Inr (1, held, [Err (''failed munmap, errno='' @ deci (os_errno S))])
        else Inr (0, remove1 HugeFile (remove1 Mapping held), [Out ''cleanup datas completed''])
      else rbind (release HeapBlock held) (\<lambda>held. Inr (0, held, [Out ''cleanup datas completed''])))"

record huge_end =
  end_exit :: nat
  end_mem :: bytes               \<comment> \<open>the memory before it is given back\<close>
  end_held :: "huge_res list"
  end_log :: "huge_line list"

definition huge_main :: "huge_env \<Rightarrow> string \<Rightarrow> (char \<times> string) list \<Rightarrow> huge_end result" where
  "huge_main E argv0 opts =
     (case huge_parse_args opts of
        Parsed args \<Rightarrow>
          let (datas, held, log) = alloc_datas (he_os E) args (n_total_bytes args); before = first_lines args @ size_lines args @ log in
          (case datas of
             None \<Rightarrow> Inr \<lparr>end_exit = 1, end_mem = [], end_held = held, end_log = before @ [Err ''failed allocate datas'', Err (huge_usage argv0)]\<rparr>
           | Some mem \<Rightarrow>
               rbind (huge_fill E args mem) (\<lambda>(mem, _).
               rbind (huge_access mem) (\<lambda>mem.
               rbind (huge_cleanup (he_os E) args held) (\<lambda>(ret, held, log).
               Inr \<lparr>end_exit = ret, end_mem = mem, end_held = held,
                 end_log = before @
                   [Out ''allocate datas completed'', Out ''fillup source datas'', Out ''fillup source datas complated'',
                    Out ''prepare access datas'', Out ''prepare access datas completed'', Out ''access data begin'', Out ''access data completed'',
                    Out (''elapsed ms: '' @ deci (elapsed_ms (he_start E) (he_end E)))] @ log\<rparr>))))
      | _ \<Rightarrow> Inr \<lparr>end_exit = 0, end_mem = [], end_held = [], end_log = [Out (huge_usage argv0)]\<rparr>)"

section \<open>Arrays in memory\<close>

text \<open>An array of \<open>n\<close> elements of \<open>w\<close> bytes.\<close>

definition array :: "nat \<Rightarrow> nat \<Rightarrow> bytes list \<Rightarrow> bool" where
  "array w n xs \<longleftrightarrow> length xs = n \<and> (\<forall>x \<in> set xs. length x = w)"

lemma array_update [intro]: "array w n xs \<Longrightarrow> length x = w \<Longrightarrow> array w n (xs[i := x])"
  using set_update_subset_insert [of xs i x] by (auto simp: array_def)

lemma array_length: "array w n xs \<Longrightarrow> length (concat xs) = w * n"
  by (induction xs arbitrary: n) (auto simp: array_def)

lemma array_elem: "array w n xs \<Longrightarrow> i < n \<Longrightarrow> length (xs ! i) = w"
  by (simp add: array_def)

lemma array_split:
  assumes "array w n xs" "i < n"
  obtains before after where "concat xs = before @ xs ! i @ after" "length before = w * i"
    "\<And>x. concat (xs[i := x]) = before @ x @ after"
proof
  have i: "i < length xs" using assms by (simp add: array_def)
  show "concat xs = concat (take i xs) @ xs ! i @ concat (drop (Suc i) xs)" using arg_cong [OF id_take_nth_drop [OF i], of concat] by simp
  have "array w i (take i xs)" using assms by (auto simp: array_def dest: in_set_takeD)
  then show "length (concat (take i xs)) = w * i" by (rule array_length)
  show "concat (xs[i := x]) = concat (take i xs) @ x @ concat (drop (Suc i) xs)" for x using i by (simp add: upd_conv_take_nth_drop)
qed

text \<open>Reading an element and writing a part of one, of an array that begins after \<open>pre\<close>.\<close>

lemma read_elem:
  assumes "array w n xs" "i < n" "p = length pre + w * i"
  shows "read_range (pre @ concat xs @ post) p w = Inr (xs ! i)"
proof -
  obtain b a where "concat xs = b @ xs ! i @ a" "length b = w * i" using array_split [OF assms(1,2)] by metis
  then show ?thesis using array_elem [OF assms(1,2)] assms(3) by (simp add: read_range_def)
qed

lemma load32_read: "read_range mem i 4 = Inr (bytes32 v) \<Longrightarrow> load32 mem i = Inr v"
proof -
  assume r: "read_range mem i 4 = Inr (bytes32 v)"
  then have i: "i + 4 \<le> length mem" and "take 4 (drop i mem) = bytes32 v" by (simp_all add: read_range_def split: if_splits)
  then have "mem = take i mem @ bytes32 v @ drop (i + 4) mem"
    by (metis append_take_drop_id add.commute drop_drop)
  then show ?thesis using i load32_append [of "take i mem" i v "drop (i + 4) mem"] by simp
qed

definition patch :: "nat \<Rightarrow> 'a list \<Rightarrow> 'a list \<Rightarrow> 'a list" where
  "patch off bs e = take off e @ bs @ drop (off + length bs) e"

definition field :: "nat \<Rightarrow> nat \<Rightarrow> 'a list \<Rightarrow> 'a list" where
  "field off n e = take n (drop off e)"

lemma length_patch [simp]: "off + length bs \<le> length e \<Longrightarrow> length (patch off bs e) = length e"
  by (simp add: patch_def)

lemma field_patch: "off + length bs \<le> length e \<Longrightarrow> n = length bs \<Longrightarrow> field off n (patch off bs e) = bs"
  by (simp add: field_def patch_def)

lemma field_patch_other:
  assumes "off + length bs \<le> length e" "o' + n \<le> off \<or> off + length bs \<le> o'"
  shows "field o' n (patch off bs e) = field o' n e"
  using assms by (auto simp: field_def patch_def take_drop min_def)

lemma store_elem:
  assumes "array w n xs" "i < n" "p = length pre + w * i + off" "off + length bs \<le> w"
  shows "store p bs (pre @ concat xs @ post) = Inr (pre @ concat (xs[i := patch off bs (xs ! i)]) @ post)"
proof -
  obtain b a where "concat xs = b @ xs ! i @ a" "length b = w * i" "\<And>x. concat (xs[i := x]) = b @ x @ a"
    using array_split [OF assms(1,2)] by metis
  then show ?thesis using array_elem [OF assms(1,2)] assms(3,4) by (simp add: store_def write_range_def patch_def)
qed

lemma chunks: "length xs = w * n \<Longrightarrow> \<exists>ys. concat ys = xs \<and> array w n ys"
proof (induction n arbitrary: xs)
  case (Suc n)
  then have "length (drop w xs) = w * n" "w \<le> length xs" by simp_all
  then obtain ys where "concat ys = drop w xs" "array w n ys" using Suc.IH by blast
  then show ?case using \<open>w \<le> length xs\<close> by (intro exI [of _ "take w xs # ys"]) (auto simp: array_def)
qed (simp add: array_def)

section \<open>Filling\<close>

text \<open>What a record says: the numbers come from the calls of \<open>rand()\<close> that begin with number \<open>k\<close>.\<close>

definition quote :: "huge_env \<Rightarrow> nat \<Rightarrow> bytes \<Rightarrow> bool" where
  "quote E k r \<longleftrightarrow>
     (let F = he_float E; last_price = fl_price F (he_rand E (k + 2) mod 1000); qty = of_nat (he_rand E (k + 3) mod 1000 + 1000) in
      field 0 15 r = strncpy_bytes 15 (s_exchanges ! (he_rand E k mod 6)) \<and>
      field 16 63 r = strncpy_bytes 63 (he_ids E ! (he_rand E (k + 1) mod length (he_ids E))) \<and>
      field 80 4 r = bytes32 last_price \<and> field 84 4 r = bytes32 qty \<and> field 88 4 r = bytes32 (fl_times F last_price qty) \<and>
      (\<forall>i < 5. field (92 + 4 * i) 4 r = bytes32 (fl_minus F last_price i) \<and> field (112 + 4 * i) 4 r = bytes32 (fl_plus F last_price i)))"

lemma length_strncpy_bytes [simp]: "length (strncpy_bytes n s) = n"
  by (simp add: strncpy_bytes_def)

lemma fill_prices_elem:
  assumes a: "array 132 n xs" and i: "i < n" and d: "data = length pre + 132 * i"
  shows "\<exists>x. for_each (fill_prices F data v) [0..<5] (pre @ concat xs @ post) = Inr (pre @ concat (xs[i := x]) @ post) \<and> length x = 132 \<and>
      (\<forall>j < 5. field (92 + 4 * j) 4 x = bytes32 (fl_minus F v j) \<and> field (112 + 4 * j) 4 x = bytes32 (fl_plus F v j)) \<and>
      (\<forall>o' m. o' + m \<le> 92 \<longrightarrow> field o' m x = field o' m (xs ! i))"
proof -
  let ?P = "\<lambda>k mem. \<exists>x. mem = pre @ concat (xs[i := x]) @ post \<and> length x = 132 \<and>
      (\<forall>j < k. field (92 + 4 * j) 4 x = bytes32 (fl_minus F v j) \<and> field (112 + 4 * j) 4 x = bytes32 (fl_plus F v j)) \<and>
      (\<forall>o' m. o' + m \<le> 92 \<longrightarrow> field o' m x = field o' m (xs ! i))"
  have il: "i < length xs" using a i by (simp add: array_def)
  have "\<exists>mem'. for_each (fill_prices F data v) [0..<5] (pre @ concat xs @ post) = Inr mem' \<and> ?P 5 mem'"
  proof (rule for_each_upto [where P = ?P])
    fix k mem
    assume k: "k < (5 :: nat)" and "?P k mem"
    then obtain x where x: "mem = pre @ concat (xs[i := x]) @ post" "length x = 132"
      "\<forall>j < k. field (92 + 4 * j) 4 x = bytes32 (fl_minus F v j) \<and> field (112 + 4 * j) 4 x = bytes32 (fl_plus F v j)"
      "\<forall>o' m. o' + m \<le> 92 \<longrightarrow> field o' m x = field o' m (xs ! i)" by blast
    let ?y = "patch (92 + 4 * k) (bytes32 (fl_minus F v k)) x"
    let ?z = "patch (112 + 4 * k) (bytes32 (fl_plus F v k)) ?y"
    have y: "length ?y = 132" and z: "length ?z = 132" using x(2) k by simp_all
    have 1: "store (data + 92 + 4 * k) (bytes32 (fl_minus F v k)) mem = Inr (pre @ concat (xs[i := ?y]) @ post)"
      unfolding x(1) using store_elem [of 132 n "xs[i := x]" i _ pre "92 + 4 * k" "bytes32 (fl_minus F v k)" post] a i k x(2) d il
      by (simp add: array_update add.assoc)
    have 2: "store (data + 112 + 4 * k) (bytes32 (fl_plus F v k)) (pre @ concat (xs[i := ?y]) @ post) = Inr (pre @ concat (xs[i := ?z]) @ post)"
      using store_elem [of 132 n "xs[i := ?y]" i _ pre "112 + 4 * k" "bytes32 (fl_plus F v k)" post] a i k y d il by (simp add: array_update add.assoc)
    have "?P (Suc k) (pre @ concat (xs[i := ?z]) @ post)"
      using x y z k by (intro exI [of _ ?z]) (auto simp: field_patch field_patch_other less_Suc_eq)
    then show "\<exists>mem'. fill_prices F data v k mem = Inr mem' \<and> ?P (Suc k) mem'" using 1 2 by (simp add: fill_prices_def)
  next
    show "?P 0 (pre @ concat xs @ post)" using array_elem [OF a i] by (intro exI [of _ "xs ! i"]) simp
  qed
  then show ?thesis by blast
qed

lemma fill_record_elem:
  assumes a: "array 132 n xs" and i: "i < n" and ids: "he_ids E \<noteq> []"
  shows "\<exists>x. fill_record E (length pre) i (pre @ concat xs @ post, k) = Inr (pre @ concat (xs[i := x]) @ post, k + 4) \<and> length x = 132 \<and> quote E k x"
proof -
  have il: "i < length xs" using a i by (simp add: array_def)
  have e: "length (xs ! i) = 132" by (rule array_elem [OF a i])
  have st: "store (length pre + 132 * i + off) bs (pre @ concat (xs[i := y]) @ post) = Inr (pre @ concat (xs[i := patch off bs y]) @ post)"
    if "off + length bs \<le> 132" "length y = 132" for off bs y
    using store_elem [of 132 n "xs[i := y]" i _ pre off bs post] a i il that by (simp add: array_update)
  define v where "v = fl_price (he_float E) (he_rand E (k + 2) mod 1000)"
  define q :: u32 where "q = of_nat (he_rand E (k + 3) mod 1000 + 1000)"
  define y0 where "y0 = patch 0 (strncpy_bytes 15 (s_exchanges ! (he_rand E k mod 6))) (xs ! i)"
  define y1 where "y1 = patch 16 (strncpy_bytes 63 (he_ids E ! (he_rand E (k + 1) mod length (he_ids E)))) y0"
  define y2 where "y2 = patch 80 (bytes32 v) y1"
  define y3 where "y3 = patch 84 (bytes32 q) y2"
  define y4 where "y4 = patch 88 (bytes32 (fl_times (he_float E) v q)) y3"
  have l: "length y0 = 132" "length y1 = 132" "length y2 = 132" "length y3 = 132" "length y4 = 132"
    by (simp_all add: y0_def y1_def y2_def y3_def y4_def e)
  obtain x where x: "for_each (fill_prices (he_float E) (length pre + 132 * i) v) [0..<5] (pre @ concat (xs[i := y4]) @ post) = Inr (pre @ concat (xs[i := x]) @ post)"
      "length x = 132" "\<forall>j < 5. field (92 + 4 * j) 4 x = bytes32 (fl_minus (he_float E) v j) \<and> field (112 + 4 * j) 4 x = bytes32 (fl_plus (he_float E) v j)"
      "\<forall>o' m. o' + m \<le> 92 \<longrightarrow> field o' m x = field o' m y4"
    using fill_prices_elem [of n "xs[i := y4]" i _ pre "he_float E" v post] a i il l(5) by (auto simp: array_update)
  have s: "store (length pre + 132 * i) (strncpy_bytes 15 (s_exchanges ! (he_rand E k mod 6))) (pre @ concat xs @ post) = Inr (pre @ concat (xs[i := y0]) @ post)"
    "store (length pre + 132 * i + 16) (strncpy_bytes 63 (he_ids E ! (he_rand E (k + 1) mod length (he_ids E)))) (pre @ concat (xs[i := y0]) @ post) =
      Inr (pre @ concat (xs[i := y1]) @ post)"
    "store (length pre + 132 * i + 80) (bytes32 v) (pre @ concat (xs[i := y1]) @ post) = Inr (pre @ concat (xs[i := y2]) @ post)"
    "store (length pre + 132 * i + 84) (bytes32 q) (pre @ concat (xs[i := y2]) @ post) = Inr (pre @ concat (xs[i := y3]) @ post)"
    "store (length pre + 132 * i + 88) (bytes32 (fl_times (he_float E) v q)) (pre @ concat (xs[i := y3]) @ post) = Inr (pre @ concat (xs[i := y4]) @ post)"
    using st [of 0 "strncpy_bytes 15 (s_exchanges ! (he_rand E k mod 6))" "xs ! i"] e l
    by (simp_all add: st y0_def [symmetric] y1_def [symmetric, unfolded One_nat_def add_Suc_right add_0_right] y2_def [symmetric] y3_def [symmetric] y4_def [symmetric])
  have "length s_exchanges = 6" by (simp add: s_exchanges_def)
  then have "fill_record E (length pre) i (pre @ concat xs @ post, k) = Inr (pre @ concat (xs[i := x]) @ post, k + 4)"
    by (simp only: fill_record_def Let_def prod.case sizeof_record_def v_def [symmetric] q_def [symmetric] s x(1) rbind.simps ids if_False)
  moreover have "quote E k x"
    unfolding quote_def Let_def v_def [symmetric] q_def [symmetric] using x(3) l e
    by (simp add: x(4)) (simp add: y0_def y1_def y2_def y3_def y4_def field_patch field_patch_other)
  ultimately show ?thesis using x(2) by blast
qed


section \<open>The memory of the experiment\<close>

definition laid_out :: "bytes \<Rightarrow> bytes list \<Rightarrow> bytes list \<Rightarrow> bytes list \<Rightarrow> bytes list \<Rightarrow> bytes \<Rightarrow> bool" where
  "laid_out mem sp dp ss ds rest \<longleftrightarrow>
     mem = concat sp @ concat dp @ concat ss @ concat ds @ rest \<and>
     array 4 n_src_pos sp \<and> array 4 n_dst_pos dp \<and> array 132 n_src ss \<and> array 132 n_dst ds"

lemma laid_out_ex: "n_bytes \<le> length mem \<Longrightarrow> \<exists>sp dp ss ds rest. laid_out mem sp dp ss ds rest"
proof -
  assume len: "n_bytes \<le> length mem"
  define a b c where "a = 4 * n_src_pos" and "b = 4 * n_dst_pos" and "c = 132 * n_src"
  define d where "d = 132 * n_dst"
  have sum: "a + b + c + d \<le> length mem" using len by (simp add: n_bytes_def sizeof_record_def a_def b_def c_def d_def)
  have ch: "\<exists>ys. concat ys = take k xs \<and> array w n ys" if "k \<le> length xs" "k = w * n" for k w n and xs :: bytes
    using chunks [of "take k xs" w n] that by simp
  obtain sp where sp: "concat sp = take a mem" "array 4 n_src_pos sp" using ch [OF _ a_def, of mem] sum by force
  obtain dp where dp: "concat dp = take b (drop a mem)" "array 4 n_dst_pos dp" using ch [OF _ b_def, of "drop a mem"] sum by force
  obtain ss where ss: "concat ss = take c (drop b (drop a mem))" "array 132 n_src ss" using ch [OF _ c_def, of "drop b (drop a mem)"] sum by force
  obtain ds where ds: "concat ds = take d (drop c (drop b (drop a mem)))" "array 132 n_dst ds"
    using ch [OF _ d_def, of "drop c (drop b (drop a mem))"] sum by force
  have "mem = take a mem @ take b (drop a mem) @ take c (drop b (drop a mem)) @ take d (drop c (drop b (drop a mem))) @ drop d (drop c (drop b (drop a mem)))"
    by (simp only: append_take_drop_id)
  then have "laid_out mem sp dp ss ds (drop d (drop c (drop b (drop a mem))))"
    unfolding laid_out_def using sp dp ss ds by metis
  then show ?thesis by blast
qed

lemma laid_out_lengths:
  assumes "laid_out mem sp dp ss ds rest"
  shows "length (concat sp) = 4 * n_src_pos" "length (concat dp) = 4 * n_dst_pos" "length (concat ss) = 132 * n_src" "length (concat ds) = 132 * n_dst"
  using assms array_length by (auto simp: laid_out_def)

text \<open>Where record \<open>i\<close> of the program takes its positions from.\<close>

definition src_at :: "huge_env \<Rightarrow> huge_args \<Rightarrow> nat \<Rightarrow> nat" where
  "src_at E args i = (if random_access args \<noteq> 0 then he_rand E (4 * n_src + i) mod n_src else i mod n_src)"

definition dst_at :: "huge_env \<Rightarrow> huge_args \<Rightarrow> nat \<Rightarrow> nat" where
  "dst_at E args i = (if random_access args \<noteq> 0 then he_rand E (4 * n_src + n_src_pos + i) mod n_dst else i mod n_dst)"

lemma fill_records:
  assumes lay: "laid_out mem sp dp ss ds rest" and ids: "he_ids E \<noteq> []"
  shows "\<exists>mem' ss'. for_each (fill_record E (4 * n_src_pos + 4 * n_dst_pos)) [0..<n_src] (mem, 0) = Inr (mem', 4 * n_src) \<and>
    laid_out mem' sp dp ss' ds rest \<and> (\<forall>j < n_src. quote E (4 * j) (ss' ! j))"
proof -
  let ?P = "\<lambda>i (m, k). k = 4 * i \<and> (\<exists>ss'. laid_out m sp dp ss' ds rest \<and> (\<forall>j < i. quote E (4 * j) (ss' ! j)))"
  have "\<exists>s'. for_each (fill_record E (4 * n_src_pos + 4 * n_dst_pos)) [0..<n_src] (mem, 0) = Inr s' \<and> ?P n_src s'"
  proof (rule for_each_upto [where P = ?P])
    fix i s
    assume i: "i < n_src" and "?P i s"
    then obtain m xs where s: "s = (m, 4 * i)" and xs: "laid_out m sp dp xs ds rest" "\<forall>j < i. quote E (4 * j) (xs ! j)" by (cases s) auto
    have m: "m = (concat sp @ concat dp) @ concat xs @ (concat ds @ rest)" and a: "array 132 n_src xs" using xs(1) by (simp_all add: laid_out_def)
    have pre: "length (concat sp @ concat dp) = 4 * n_src_pos + 4 * n_dst_pos" using laid_out_lengths [OF xs(1)] by simp
    obtain x where x: "fill_record E (4 * n_src_pos + 4 * n_dst_pos) i (m, 4 * i) = Inr ((concat sp @ concat dp) @ concat (xs[i := x]) @ (concat ds @ rest), 4 * i + 4)"
      "length x = 132" "quote E (4 * i) x"
      using fill_record_elem [OF a i ids, of "concat sp @ concat dp" "concat ds @ rest" "4 * i"] pre m by auto
    have "laid_out ((concat sp @ concat dp) @ concat (xs[i := x]) @ (concat ds @ rest)) sp dp (xs[i := x]) ds rest"
      using xs(1) x(2) by (simp add: laid_out_def array_update)
    moreover have "\<forall>j < Suc i. quote E (4 * j) (xs[i := x] ! j)" using xs(2) x(3) a i by (auto simp: nth_list_update array_def less_Suc_eq)
    ultimately show "\<exists>s'. fill_record E (4 * n_src_pos + 4 * n_dst_pos) i s = Inr s' \<and> ?P (Suc i) s'" using x(1) s by auto
  qed (use lay in auto)
  then show ?thesis by auto
qed


lemma fill_pos_elem:
  assumes "array 4 n xs" "i < n"
  shows "fill_pos E args (length pre) m i (pre @ concat xs @ post, k + (if random_access args \<noteq> 0 then i else 0)) =
    Inr (pre @ concat (xs[i := bytes32 (of_nat (if random_access args \<noteq> 0 then he_rand E (k + i) mod m else i mod m))]) @ post,
      k + (if random_access args \<noteq> 0 then Suc i else 0))"
proof -
  have "patch 0 (bytes32 v) (xs ! i) = bytes32 v" for v using array_elem [OF assms] by (simp add: patch_def)
  then show ?thesis using store_elem [OF assms, of _ pre 0 "bytes32 v" post for v] by (simp add: fill_pos_def)
qed

lemma fill_positions:
  assumes a: "array 4 n xs"
  shows "\<exists>xs'. for_each (fill_pos E args (length pre) m) [0..<n] (pre @ concat xs @ post, k) =
      Inr (pre @ concat xs' @ post, k + (if random_access args \<noteq> 0 then n else 0)) \<and> array 4 n xs' \<and>
    (\<forall>j < n. xs' ! j = bytes32 (of_nat (if random_access args \<noteq> 0 then he_rand E (k + j) mod m else j mod m)))"
proof -
  let ?v = "\<lambda>j. bytes32 (of_nat (if random_access args \<noteq> 0 then he_rand E (k + j) mod m else j mod m))"
  let ?P = "\<lambda>i s. \<exists>ys. s = (pre @ concat ys @ post, k + (if random_access args \<noteq> 0 then i else 0)) \<and> array 4 n ys \<and> (\<forall>j < i. ys ! j = ?v j)"
  have "\<exists>s'. for_each (fill_pos E args (length pre) m) [0..<n] (pre @ concat xs @ post, k) = Inr s' \<and> ?P n s'"
  proof (rule for_each_upto [where P = ?P])
    fix i s
    assume i: "i < n" and "?P i s"
    then obtain ys where ys: "s = (pre @ concat ys @ post, k + (if random_access args \<noteq> 0 then i else 0))" "array 4 n ys" "\<forall>j < i. ys ! j = ?v j" by blast
    have "\<forall>j < Suc i. ys[i := ?v i] ! j = ?v j" using ys(2,3) i by (auto simp: nth_list_update array_def less_Suc_eq)
    moreover have "array 4 n (ys[i := ?v i])" using ys(2) by (simp add: array_update)
    ultimately show "\<exists>s'. fill_pos E args (length pre) m i s = Inr s' \<and> ?P (Suc i) s'"
      unfolding ys(1) fill_pos_elem [OF ys(2) i] by blast
  qed (use a in \<open>auto intro!: exI [of _ xs]\<close>)
  then show ?thesis by blast
qed

lemma huge_fill_result:
  assumes lay: "laid_out mem sp dp ss ds rest" and ids: "he_ids E \<noteq> []"
  shows "\<exists>mem' k sp' dp' ss'. huge_fill E args mem = Inr (mem', k) \<and> laid_out mem' sp' dp' ss' ds rest \<and>
    (\<forall>j < n_src. quote E (4 * j) (ss' ! j)) \<and> (\<forall>j < n_src_pos. sp' ! j = bytes32 (of_nat (src_at E args j))) \<and>
    (\<forall>j < n_dst_pos. dp' ! j = bytes32 (of_nat (dst_at E args j)))"
proof -
  obtain m1 ss' where r: "for_each (fill_record E (4 * n_src_pos + 4 * n_dst_pos)) [0..<n_src] (mem, 0) = Inr (m1, 4 * n_src)"
    and l1: "laid_out m1 sp dp ss' ds rest" and q: "\<forall>j < n_src. quote E (4 * j) (ss' ! j)"
    using fill_records [OF assms] by blast
  define k where "k = 4 * n_src + (if random_access args \<noteq> 0 then n_src_pos else 0)"
  obtain sp' where s: "for_each (fill_pos E args 0 n_src) [0..<n_src_pos] (m1, 4 * n_src) = Inr (concat sp' @ concat dp @ concat ss' @ concat ds @ rest, k)"
    and sp': "array 4 n_src_pos sp'" "\<forall>j < n_src_pos. sp' ! j = bytes32 (of_nat (src_at E args j))"
    using fill_positions [of n_src_pos sp E args "[]" n_src "concat dp @ concat ss' @ concat ds @ rest" "4 * n_src"] l1
    by (auto simp: laid_out_def src_at_def k_def)
  obtain dp' k' where d: "for_each (fill_pos E args (4 * n_src_pos) n_dst) [0..<n_dst_pos] (concat sp' @ concat dp @ concat ss' @ concat ds @ rest, k) =
      Inr (concat sp' @ concat dp' @ concat ss' @ concat ds @ rest, k')"
    and dp': "array 4 n_dst_pos dp'" "\<forall>j < n_dst_pos. dp' ! j = bytes32 (of_nat (dst_at E args j))"
    using fill_positions [of n_dst_pos dp E args "concat sp'" n_dst "concat ss' @ concat ds @ rest" k] l1 array_length [OF sp'(1)]
    by (auto simp: laid_out_def dst_at_def k_def)
  have "huge_fill E args mem = Inr (concat sp' @ concat dp' @ concat ss' @ concat ds @ rest, k')"
    by (simp add: huge_fill_def Let_def r s d)
  moreover have "laid_out (concat sp' @ concat dp' @ concat ss' @ concat ds @ rest) sp' dp' ss' ds rest" using l1 sp' dp' by (simp add: laid_out_def)
  ultimately show ?thesis using q sp'(2) dp'(2) by blast
qed

section \<open>Copying\<close>

lemma sizes: "n_src_pos = 2097152" "n_dst_pos = 2097152" "n_src = 2097152" "n_dst = 4194304" "access_times = 2097152"
  by (simp_all add: n_src_pos_def n_dst_pos_def n_src_def n_dst_def access_times_def PAGE_SIZE_2M_def)

lemma positions_fit: "src_at E args i < n_src" "dst_at E args i < n_dst"
  by (simp_all add: src_at_def dst_at_def sizes)

lemma run_access_elem:
  assumes lay: "laid_out mem sp dp ss ds rest" and i: "i < access_times"
    and sp: "\<forall>j < n_src_pos. sp ! j = bytes32 (of_nat (src_at E args j))" and dp: "\<forall>j < n_dst_pos. dp ! j = bytes32 (of_nat (dst_at E args j))"
  shows "\<exists>mem'. run_access 0 n_src_pos (4 * n_src_pos) n_dst_pos (4 * n_src_pos + 4 * n_dst_pos) (4 * n_src_pos + 4 * n_dst_pos + 132 * n_src) i mem = Inr mem' \<and>
    laid_out mem' sp dp ss (ds[dst_at E args i := ss ! src_at E args i]) rest"
proof -
  let ?s = "src_at E args i" and ?d = "dst_at E args i"
  note len = laid_out_lengths [OF lay]
  have mem: "mem = concat sp @ concat dp @ concat ss @ concat ds @ rest" and a: "array 4 n_src_pos sp" "array 4 n_dst_pos dp" "array 132 n_src ss" "array 132 n_dst ds"
    using lay by (simp_all add: laid_out_def)
  have i': "i mod n_src_pos = i" "i mod n_dst_pos = i" "i < n_src_pos" "i < n_dst_pos" using i by (simp_all add: sizes)
  have 1: "load32 mem (4 * i) = Inr (of_nat ?s)"
    using read_elem [OF a(1) i'(3), of _ "[]" "concat dp @ concat ss @ concat ds @ rest"] sp i' by (intro load32_read) (simp add: mem)
  have 2: "load32 mem (4 * n_src_pos + 4 * i) = Inr (of_nat ?d)"
    using read_elem [OF a(2) i'(4), of _ "concat sp" "concat ss @ concat ds @ rest"] dp i' len by (intro load32_read) (simp add: mem)
  have u: "unat (of_nat ?s :: u32) = ?s" "unat (of_nat ?d :: u32) = ?d"
    using positions_fit [of E args i] by (simp_all add: sizes unat_of_nat_u32)
  have 3: "read_range mem (4 * n_src_pos + 4 * n_dst_pos + 132 * ?s) 132 = Inr (ss ! ?s)"
    using read_elem [OF a(3) positions_fit(1) [of E args i], of _ "concat sp @ concat dp" "concat ds @ rest"] len by (simp add: mem)
  have l: "length (ss ! ?s) = 132" by (rule array_elem [OF a(3) positions_fit(1)])
  have p: "patch 0 (ss ! ?s) (ds ! ?d) = ss ! ?s" using array_elem [OF a(4) positions_fit(2) [of E args i]] l by (simp add: patch_def)
  have 4: "store (4 * n_src_pos + 4 * n_dst_pos + 132 * n_src + 132 * ?d) (ss ! ?s) mem = Inr (concat sp @ concat dp @ concat ss @ concat (ds[?d := ss ! ?s]) @ rest)"
    using store_elem [OF a(4) positions_fit(2) [of E args i], of _ "concat sp @ concat dp @ concat ss" 0 "ss ! ?s" rest] len l p by (simp add: mem add.assoc)
  show ?thesis using a l by (simp add: run_access_def i' 1 2 u sizeof_record_def 3 4 laid_out_def array_update)
qed

lemma huge_access_result:
  assumes lay: "laid_out mem sp dp ss ds rest"
    and sp: "\<forall>j < n_src_pos. sp ! j = bytes32 (of_nat (src_at E args j))" and dp: "\<forall>j < n_dst_pos. dp ! j = bytes32 (of_nat (dst_at E args j))"
  shows "\<exists>mem'. huge_access mem = Inr mem' \<and>
    laid_out mem' sp dp ss (fold (\<lambda>i ds. ds[dst_at E args i := ss ! src_at E args i]) [0..<access_times] ds) rest"
proof -
  let ?f = "\<lambda>i ds. ds[dst_at E args i := ss ! src_at E args i]"
  let ?P = "\<lambda>i m. laid_out m sp dp ss (fold ?f [0..<i] ds) rest"
  have "\<exists>mem'. for_each (run_access 0 n_src_pos (4 * n_src_pos) n_dst_pos (4 * n_src_pos + 4 * n_dst_pos) (4 * n_src_pos + 4 * n_dst_pos + 132 * n_src))
      [0..<access_times] mem = Inr mem' \<and> ?P access_times mem'"
    by (rule for_each_upto [where P = ?P]) (use lay run_access_elem [OF _ _ sp dp] in \<open>auto\<close>)
  then show ?thesis by (simp add: huge_access_def Let_def sizeof_record_def)
qed


text \<open>The records in the memory, as the program addresses them.\<close>

definition src_record :: "bytes \<Rightarrow> nat \<Rightarrow> bytes" where
  "src_record mem j = field (4 * n_src_pos + 4 * n_dst_pos + 132 * j) 132 mem"

definition dst_record :: "bytes \<Rightarrow> nat \<Rightarrow> bytes" where
  "dst_record mem j = field (4 * n_src_pos + 4 * n_dst_pos + 132 * n_src + 132 * j) 132 mem"

lemma read_field: "read_range mem p n = Inr bs \<Longrightarrow> field p n mem = bs"
  by (simp add: read_range_def field_def split: if_splits)

lemma laid_out_records:
  assumes lay: "laid_out mem sp dp ss ds rest"
  shows "j < n_src \<Longrightarrow> src_record mem j = ss ! j" "j < n_dst \<Longrightarrow> dst_record mem j = ds ! j"
proof -
  have mem: "mem = concat sp @ concat dp @ concat ss @ concat ds @ rest" and a: "array 132 n_src ss" "array 132 n_dst ds" using lay by (simp_all add: laid_out_def)
  show "j < n_src \<Longrightarrow> src_record mem j = ss ! j"
    using read_elem [OF a(1), of j _ "concat sp @ concat dp" "concat ds @ rest"] laid_out_lengths [OF lay] unfolding src_record_def by (intro read_field) (simp add: mem)
  show "j < n_dst \<Longrightarrow> dst_record mem j = ds ! j"
    using read_elem [OF a(2), of j _ "concat sp @ concat dp @ concat ss" rest] laid_out_lengths [OF lay] unfolding dst_record_def by (intro read_field) (simp add: mem add.assoc)
qed

lemma fold_updates:
  "j < length ds \<Longrightarrow> fold (\<lambda>i ds. ds[d i := f i]) is ds ! j = (case find (\<lambda>i. d i = j) (rev is) of Some i \<Rightarrow> f i | None \<Rightarrow> ds ! j)"
proof (induction "is" rule: rev_induct)
  case (snoc i "is")
  have "length (fold (\<lambda>i ds. ds[d i := f i]) is ds) = length ds" by (induction "is" arbitrary: ds) simp_all
  then show ?case using snoc by (simp add: nth_list_update)
qed simp

lemma alloc_datas_size: "alloc_datas S args n = (Some mem, held, log) \<Longrightarrow> length mem = n"
  by (auto simp: alloc_datas_def alloc_datas_hugetlb_mmap_def alloc_datas_hugetlbfs_def alloc_datas_thp_def alloc_datas_heap_def prefetch_datas_def
      fresh_block_def Let_def split: option.splits if_splits bool.splits)

lemma total_enough: "n_bytes \<le> n_total_bytes args"
  by (simp add: n_total_bytes_def ALIGN_PAGE_def ROUND_UP_POW_OF_2_MUL_def n_bytes_def sizes sizeof_record_def PAGE_SIZE_2M_def PAGE_SIZE_1G_def)


section \<open>The whole program\<close>

definition held_by :: "huge_args \<Rightarrow> huge_res list" where
  "held_by args = (if use_hugepage args = 1 then [Mapping] else if use_hugepage args = 2 then [Mapping, HugeFile] else [HeapBlock])"

lemma alloc_datas_held: "alloc_datas S args n = (Some mem, held, log) \<Longrightarrow> held = held_by args"
  by (auto simp: alloc_datas_def alloc_datas_hugetlb_mmap_def alloc_datas_hugetlbfs_def alloc_datas_thp_def alloc_datas_heap_def prefetch_datas_def
      held_by_def Let_def split: option.splits if_splits bool.splits prod.splits)

lemma alloc_datas_none: "alloc_datas S args n = (None, held, log) \<Longrightarrow> held = []"
  by (auto simp: alloc_datas_def alloc_datas_hugetlb_mmap_def alloc_datas_hugetlbfs_def alloc_datas_thp_def alloc_datas_heap_def prefetch_datas_def
      Let_def split: option.splits if_splits bool.splits prod.splits)

lemma cleanup_result:
  "huge_cleanup S args (held_by args) =
     Inr (if use_hugepage args \<noteq> 0 \<and> \<not> os_munmap S then (1, held_by args, [Err (''failed munmap, errno='' @ deci (os_errno S))])
          else (0, if use_hugepage args \<in> {0, 1, 2} then [] else [HeapBlock], [Out ''cleanup datas completed'']))"
  by (auto simp: huge_cleanup_def held_by_def)

text \<open>What is in the memory after a run, by the number of the last access that wrote a record.\<close>

definition copied :: "huge_env \<Rightarrow> huge_args \<Rightarrow> bytes \<Rightarrow> bytes \<Rightarrow> bool" where
  "copied E args before mem \<longleftrightarrow>
     (\<forall>j < n_dst. dst_record mem j =
        (case find (\<lambda>i. dst_at E args i = j) (rev [0..<access_times]) of
           Some i \<Rightarrow> src_record mem (src_at E args i)
         | None \<Rightarrow> dst_record before j))"

lemma huge_run:
  assumes alloc: "alloc_datas S args (n_total_bytes args) = (Some mem, held, log)" and ids: "he_ids E \<noteq> []"
  shows "\<exists>m1 k m2. huge_fill E args mem = Inr (m1, k) \<and> huge_access m1 = Inr m2 \<and>
    (\<forall>j < n_src. quote E (4 * j) (src_record m2 j)) \<and> copied E args mem m2"
proof -
  have "n_bytes \<le> length mem" using alloc_datas_size [OF alloc] total_enough by simp
  then obtain sp dp ss ds rest where lay: "laid_out mem sp dp ss ds rest" using laid_out_ex by blast
  obtain m1 k sp' dp' ss' where fill: "huge_fill E args mem = Inr (m1, k)" and l1: "laid_out m1 sp' dp' ss' ds rest"
    and q: "\<forall>j < n_src. quote E (4 * j) (ss' ! j)" and pos: "\<forall>j < n_src_pos. sp' ! j = bytes32 (of_nat (src_at E args j))"
      "\<forall>j < n_dst_pos. dp' ! j = bytes32 (of_nat (dst_at E args j))"
    using huge_fill_result [OF lay ids] by blast
  let ?ds = "fold (\<lambda>i ds. ds[dst_at E args i := ss' ! src_at E args i]) [0..<access_times] ds"
  obtain m2 where acc: "huge_access m1 = Inr m2" and l2: "laid_out m2 sp' dp' ss' ?ds rest" using huge_access_result [OF l1 pos] by blast
  have "length ds = n_dst" using lay by (simp add: laid_out_def array_def)
  then have "copied E args mem m2"
    using positions_fit by (auto simp: copied_def laid_out_records [OF lay] laid_out_records [OF l2] fold_updates split: option.split)
  then show ?thesis using fill acc q laid_out_records(1) [OF l2] by auto
qed

lemma huge_main_result:
  assumes "huge_parse_args opts = Parsed args" "he_ids E \<noteq> []" and alloc: "alloc_datas (he_os E) args (n_total_bytes args) = (Some mem, held, log)"
  shows "\<exists>fin. huge_main E argv0 opts = Inr fin \<and> (\<forall>j < n_src. quote E (4 * j) (src_record (end_mem fin) j)) \<and> copied E args mem (end_mem fin) \<and>
    (end_exit fin, end_held fin) =
      (if use_hugepage args \<noteq> 0 \<and> \<not> os_munmap (he_os E) then (1, held_by args)
       else (0, if use_hugepage args \<in> {0, 1, 2} then [] else [HeapBlock]))"
proof -
  obtain m1 k m2 where "huge_fill E args mem = Inr (m1, k)" "huge_access m1 = Inr m2" "\<forall>j < n_src. quote E (4 * j) (src_record m2 j)" "copied E args mem m2"
    using huge_run [OF alloc assms(2)] by blast
  then show ?thesis using assms(1) cleanup_result [of "he_os E" args] by (auto simp: huge_main_def alloc alloc_datas_held [OF alloc] split: if_splits)
qed

text \<open>
  C23. Whatever the random numbers, the sizes of pages and the source of the memory: the experiment stays inside its memory and ends; the
  records of the first array hold a quote each, made from four random numbers, and a record of the second array is the one that the last access to it
  copied, or as it was when there was none.
\<close>

theorem huge_copies:
  assumes "huge_parse_args opts = Parsed args" "he_ids E \<noteq> []" "alloc_datas (he_os E) args (n_total_bytes args) = (Some mem, held, log)"
  shows "\<exists>fin. huge_main E argv0 opts = Inr fin \<and> (\<forall>j < n_src. quote E (4 * j) (src_record (end_mem fin) j)) \<and>
    (\<forall>j < n_dst. dst_record (end_mem fin) j =
       (case find (\<lambda>i. dst_at E args i = j) (rev [0..<access_times]) of
          Some i \<Rightarrow> src_record (end_mem fin) (src_at E args i)
        | None \<Rightarrow> dst_record mem j))"
  using huge_main_result [OF assms] unfolding copied_def by blast

text \<open>
  With ordinary memory, huge pages from mmap or huge pages from a file the program has given back all it took when it ends, and ends
  with success exactly when it got the memory.
\<close>

theorem huge_gives_back:
  assumes "huge_parse_args opts = Parsed args" "he_ids E \<noteq> []" "use_hugepage args \<in> {0, 1, 2}" "os_munmap (he_os E)"
  shows "\<exists>fin. huge_main E argv0 opts = Inr fin \<and> end_held fin = [] \<and>
    (end_exit fin = 0 \<longleftrightarrow> fst (alloc_datas (he_os E) args (n_total_bytes args)) \<noteq> None)"
proof -
  obtain datas held log where alloc: "alloc_datas (he_os E) args (n_total_bytes args) = (datas, held, log)" by (metis prod_cases3)
  show ?thesis
  proof (cases datas)
    case None
    then show ?thesis using assms(1) alloc alloc_datas_none [of "he_os E" args] by (simp add: huge_main_def)
  next
    case (Some mem)
    then show ?thesis using huge_main_result [OF assms(1,2), of mem held log argv0] assms(3,4) alloc by (auto simp: prod_eq_iff)
  qed
qed

text \<open>In order, the first half of the second array becomes a copy of the first array and the second half stays.\<close>

lemma find_last: "i < n \<Longrightarrow> find (\<lambda>k. k = i) (rev [0..<n]) = Some i"
  by (induction n) (auto simp: less_Suc_eq)

lemma huge_in_order:
  assumes "random_access args = 0" "copied E args before mem" "j < n_dst"
  shows "dst_record mem j = (if j < access_times then src_record mem j else dst_record before j)"
proof -
  have id: "i \<in> set (rev [0..<access_times]) \<Longrightarrow> dst_at E args i = i \<and> src_at E args i = i" for i
    using assms(1) by (simp add: dst_at_def src_at_def sizes)
  have "find (\<lambda>i. dst_at E args i = j) (rev [0..<access_times]) = find (\<lambda>i. i = j) (rev [0..<access_times])"
    by (rule find_cong) (use id in auto)
  also have "\<dots> = (if j < access_times then Some j else None)" by (auto simp: find_last find_None_iff)
  finally show ?thesis using assms(2,3) id [of j] by (simp add: copied_def)
qed

text \<open>
  With transparent huge pages, and with every other number, the memory comes from the allocator but is given to \<open>munmap\<close>: the block is never freed.
\<close>

lemma thp_not_freed:
  assumes "huge_parse_args opts = Parsed args" "he_ids E \<noteq> []" "alloc_datas (he_os E) args (n_total_bytes args) = (Some mem, held, log)"
    and "use_hugepage args \<notin> {0, 1, 2}" "os_munmap (he_os E)"
  shows "\<exists>fin. huge_main E argv0 opts = Inr fin \<and> end_exit fin = 0 \<and> end_held fin = [HeapBlock]"
  using huge_main_result [OF assms(1-3)] assms(4,5) by auto

section \<open>A run\<close>

definition plain_os :: huge_os where
  "plain_os = \<lparr>os_mmap = \<lambda>_ _. True, os_open = \<lambda>_. True, os_aligned_alloc = \<lambda>_. True, os_madvise_hugepage = True, os_populate = None,
     os_munmap = True, os_errno = 0, os_fresh = \<lambda>_. 0xCD\<rparr>"

definition plain_env :: huge_env where
  "plain_env = \<lparr>he_os = plain_os, he_float = \<lparr>fl_price = of_nat, fl_times = (*), fl_minus = \<lambda>w i. w - of_nat i, fl_plus = \<lambda>w i. w + of_nat i\<rparr>,
     he_rand = \<lambda>k. 7 * k, he_ids = [''SM604'', ''SPD ZC610&ZC612''], he_start = (1, 0), he_end = (2, 5000000)\<rparr>"

definition plain_args :: huge_args where
  "plain_args = \<lparr>use_hugepage = 1, random_access = 1, prefetch = 0, page_size = ''2MB'', hugetlbfs_file = []\<rparr>"

lemma plain_parsed: "huge_parse_args [(CHR ''p'', ''1''), (CHR ''r'', ''1''), (CHR ''s'', ''2MB'')] = Parsed plain_args"
  by (simp add: huge_parse_args_def huge_parse_opt_def plain_args_def atoi_def is_space_def is_digit_def to_int_small strncpy_buf_def)

lemma plain_alloc: "alloc_datas plain_os plain_args n = (Some (fresh_block plain_os n), [Mapping], [])"
  by (simp add: alloc_datas_def alloc_datas_hugetlb_mmap_def plain_args_def plain_os_def)

theorem huge_copies_witness:
  "\<exists>fin. huge_main plain_env ''hugepage'' [(CHR ''p'', ''1''), (CHR ''r'', ''1''), (CHR ''s'', ''2MB'')] = Inr fin \<and>
    quote plain_env 0 (src_record (end_mem fin) 0)"
  using huge_copies [OF plain_parsed, of plain_env _ _ _ "''hugepage''"] plain_alloc [of "n_total_bytes plain_args"]
  by (fastforce simp: plain_env_def sizes)

theorem huge_gives_back_witness:
  "\<exists>fin. huge_main plain_env ''hugepage'' [(CHR ''p'', ''1''), (CHR ''r'', ''1''), (CHR ''s'', ''2MB'')] = Inr fin \<and> end_held fin = [] \<and> end_exit fin = 0"
  using huge_gives_back [OF plain_parsed, of plain_env "''hugepage''"] plain_alloc [of "n_total_bytes plain_args"]
  by (auto simp: plain_env_def plain_args_def plain_os_def)

end
