(* ===== verification/FooLog.thy ===== *)
theory FooLog
  imports Prelude
begin

text \<open>
  The program template of src/play/c/c_template/src/foo: the command line (foo_config.c), the set-up of the log over one of two libraries (foo_log.c), and
  the program (main.c). Which library is used is chosen when the program is built.

  Of the log libraries the model has the handlers that were added, with what they write to and their level, whether the thread of the
  asynchronous library runs, and which of the calls that open a handler fail. Levels are the numbers the library gives them.
\<close>

section \<open>Configuration\<close>

record foo_config =
  host :: string
  port :: string
  log_console_level :: string
  log_file_level :: string
  log_rotate :: bool

datatype foo_opt = OptChar char | OPT_LOG_CONSOLE_LEVEL | OPT_LOG_FILE_LEVEL | OPT_LOG_ROTATE

text \<open>
  \<open>getopt_long\<close> appears as the options it returns, each with \<open>optarg\<close>. An option that is not known has none, and its text is printed
  through a null pointer. What the parser prints is left out.
\<close>

definition foo_parse_opt :: "foo_opt \<Rightarrow> string option \<Rightarrow> foo_config \<Rightarrow> foo_config parsed result" where
  "foo_parse_opt c optarg cfg =
     (if c = OptChar CHR ''h'' \<or> c = OptChar CHR ''v'' then Inr ExitSuccess
      else
        case optarg of
          None \<Rightarrow> Inl NullDeref
        | Some s \<Rightarrow> Inr (Parsed
            (if c = OptChar CHR ''H'' then cfg\<lparr>host := strncpy_buf 64 s\<rparr>
             else if c = OptChar CHR ''P'' then cfg\<lparr>port := strncpy_buf 16 s\<rparr>
             else if c = OPT_LOG_CONSOLE_LEVEL then cfg\<lparr>log_console_level := strncpy_buf 8 s\<rparr>
             else if c = OPT_LOG_FILE_LEVEL then cfg\<lparr>log_file_level := strncpy_buf 8 s\<rparr>
             else if c = OPT_LOG_ROTATE then cfg\<lparr>log_rotate := to_int (atoi s) \<noteq> 0\<rparr>
             else cfg)))"

fun foo_parse_opts :: "(foo_opt \<times> string option) list \<Rightarrow> foo_config \<Rightarrow> foo_config parsed result" where
  "foo_parse_opts [] cfg = Inr (Parsed cfg)"
| "foo_parse_opts ((c, optarg) # opts) cfg =
     rbind (foo_parse_opt c optarg cfg) (\<lambda>r. case r of Parsed cfg \<Rightarrow> foo_parse_opts opts cfg | r \<Rightarrow> Inr r)"

definition foo_defaults :: foo_config where
  "foo_defaults = \<lparr>host = strncpy_buf 64 ''0.0.0.0'', port = strncpy_buf 16 ''10102'', log_console_level = strncpy_buf 8 ''info'',
     log_file_level = strncpy_buf 8 ''debug'', log_rotate = False\<rparr>"

definition foo_parse_sys_args :: "(foo_opt \<times> string option) list \<Rightarrow> foo_config parsed result" where
  "foo_parse_sys_args opts = foo_parse_opts opts foo_defaults"

section \<open>Log\<close>

datatype log_level = TRACE | DEBUG | INFO | WARNING | ERROR | FATAL
datatype log_target = Console | LogFile string | RotatingFile string

record log_state =
  handlers :: "(log_target \<times> int) list"
  broken :: "log_target list"        \<comment> \<open>handlers that were added though they could not be opened\<close>
  before_run :: bool                 \<comment> \<open>a callback is set for the start of the thread\<close>
  backend :: bool
  thread_ctx :: nat
  log_err :: "string list"

definition no_log :: log_state where
  "no_log = \<lparr>handlers = [], broken = [], before_run = False, backend = False, thread_ctx = 0, log_err = []\<rparr>"

text \<open>\<open>lv\<close> gives the levels of the library, \<open>can_open\<close> which handlers it can open.\<close>

record log_lib =
  lv :: "log_level \<Rightarrow> int"
  can_open :: "log_target \<Rightarrow> bool"

definition foo_sync_log_str2level :: "log_lib \<Rightarrow> string option \<Rightarrow> int" where
  "foo_sync_log_str2level L s =
     (case s of
        None \<Rightarrow> -1
      | Some s \<Rightarrow>
          if s = ''TRACE'' \<or> s = ''trace'' then lv L TRACE
          else if s = ''DEBUG'' \<or> s = ''debug'' then lv L DEBUG
          else if s = ''INFO'' \<or> s = ''info'' then lv L INFO
          else if s = ''WARNING'' \<or> s = ''warning'' \<or> s = ''WARN'' \<or> s = ''warn'' then lv L WARNING
          else if s = ''ERROR'' \<or> s = ''error'' then lv L ERROR
          else if s = ''FATAL'' \<or> s = ''fatal'' then lv L FATAL
          else -1)"

definition add_handler :: "log_target \<Rightarrow> int \<Rightarrow> log_state \<Rightarrow> log_state" where
  "add_handler t level s = s\<lparr>handlers := handlers s @ [(t, level)]\<rparr>"

definition complain :: "string \<Rightarrow> log_state \<Rightarrow> log_state" where
  "complain line s = s\<lparr>log_err := log_err s @ [line]\<rparr>"

text \<open>The result tells success; the callback is only whether there is one.\<close>

definition foo_sync_log_init :: "log_lib \<Rightarrow> string option \<Rightarrow> string option \<Rightarrow> string \<Rightarrow> bool \<Rightarrow> bool \<Rightarrow> log_state \<Rightarrow> bool \<times> log_state" where
  "foo_sync_log_init L str_console_level str_file_level filepath use_rotate fn s =
     (let level_console = foo_sync_log_str2level L str_console_level; level_file = foo_sync_log_str2level L str_file_level;
          s = (if level_console \<ge> 0 then add_handler Console level_console s else s);
          finish = (\<lambda>s. (True, if fn then s\<lparr>before_run := True\<rparr> else s)) in
      if level_file \<ge> 0 then
        if use_rotate then
          if \<not> can_open L (RotatingFile filepath) then (False, complain (''failed init file rotate handler with path: '' @ filepath) s)
          else finish (add_handler (RotatingFile filepath) level_file s)
        else
          let s = (if \<not> can_open L (LogFile filepath) then complain (''failed init file handler with path: '' @ filepath) (s\<lparr>broken := LogFile filepath # broken s\<rparr>) else s) in
          finish (add_handler (LogFile filepath) level_file s)
      else finish s)"

definition async_log_add_console_handler :: "log_lib \<Rightarrow> int \<Rightarrow> log_state \<Rightarrow> bool \<times> log_state" where
  "async_log_add_console_handler L level s =
     (if \<not> can_open L Console then (False, complain ''failed init console handler'' s) else (True, add_handler Console level s))"

definition async_log_add_file_handle :: "log_lib \<Rightarrow> int \<Rightarrow> string \<Rightarrow> log_state \<Rightarrow> bool \<times> log_state" where
  "async_log_add_file_handle L level filepath s =
     (if \<not> can_open L (LogFile filepath) then (False, complain ''failed init file handler'' s) else (True, add_handler (LogFile filepath) level s))"

definition async_log_add_timerot_handle :: "log_lib \<Rightarrow> int \<Rightarrow> string \<Rightarrow> log_state \<Rightarrow> bool \<times> log_state" where
  "async_log_add_timerot_handle L level filepath s =
     (if \<not> can_open L (RotatingFile filepath) then (False, complain ''failed init file time rotate handler'' s)
      else (True, add_handler (RotatingFile filepath) level s))"

definition foo_async_log_str2level :: "log_lib \<Rightarrow> string option \<Rightarrow> int" where
  "foo_async_log_str2level L s =
     (case s of
        None \<Rightarrow> -1
      | Some s \<Rightarrow>
          if s = ''TRACE'' \<or> s = ''trace'' then lv L TRACE
          else if s = ''DEBUG'' \<or> s = ''debug'' then lv L DEBUG
          else if s = ''INFO'' \<or> s = ''info'' then lv L INFO
          else if s = ''WARNING'' \<or> s = ''warning'' \<or> s = ''WARN'' \<or> s = ''warn'' then lv L WARNING
          else if s = ''ERROR'' \<or> s = ''error'' then lv L ERROR
          else if s = ''FATAL'' \<or> s = ''fatal'' then lv L FATAL
          else -1)"

definition foo_async_log_init :: "log_lib \<Rightarrow> string option \<Rightarrow> string option \<Rightarrow> string \<Rightarrow> bool \<Rightarrow> bool \<Rightarrow> log_state \<Rightarrow> bool \<times> log_state" where
  "foo_async_log_init L str_console_level str_file_level filepath use_rotate fn s =
     (let level_console = foo_async_log_str2level L str_console_level; level_file = foo_async_log_str2level L str_file_level;
          (ok, s) = (if level_console \<ge> 0 then async_log_add_console_handler L level_console s else (True, s)) in
      if \<not> ok then (False, complain ''failed add console log handler'' s)
      else
        let (ok, s) =
          (if level_file \<ge> 0 then
             if use_rotate then async_log_add_timerot_handle L level_file filepath s else async_log_add_file_handle L level_file filepath s
           else (True, s)) in
        if \<not> ok then (False, complain ''failed add file log handler'' s)
        else
          let s = (if fn then s\<lparr>before_run := True\<rparr> else s) in
          (True, s\<lparr>backend := True\<rparr>))"

text \<open>How the program is built.\<close>

datatype log_build = FOO_USE_SYNC_LOG | FOO_USE_ASYNC_LOG

fun foo_log_init :: "log_build \<Rightarrow> log_lib \<Rightarrow> string option \<Rightarrow> string option \<Rightarrow> string \<Rightarrow> bool \<Rightarrow> bool \<Rightarrow> log_state \<Rightarrow> bool \<times> log_state" where
  "foo_log_init FOO_USE_SYNC_LOG L console_level file_level filepath use_rotate fn s =
     foo_sync_log_init L console_level file_level filepath use_rotate fn s"
| "foo_log_init FOO_USE_ASYNC_LOG L console_level file_level filepath use_rotate fn s =
     foo_async_log_init L console_level file_level filepath use_rotate fn s"

fun foo_log_init_thread_ctx :: "log_build \<Rightarrow> log_state \<Rightarrow> log_state" where
  "foo_log_init_thread_ctx FOO_USE_SYNC_LOG s = s"
| "foo_log_init_thread_ctx FOO_USE_ASYNC_LOG s = s\<lparr>thread_ctx := thread_ctx s + 1\<rparr>"

fun foo_log_cleanup_thread_ctx :: "log_build \<Rightarrow> log_state \<Rightarrow> log_state" where
  "foo_log_cleanup_thread_ctx FOO_USE_SYNC_LOG s = s"
| "foo_log_cleanup_thread_ctx FOO_USE_ASYNC_LOG s = s\<lparr>thread_ctx := thread_ctx s - 1\<rparr>"

section \<open>Log lines of the synchronous library\<close>

record log_msg =
  msg_level :: log_level
  msg_file :: string
  msg_line :: nat
  msg_func :: string
  msg_tid :: nat
  msg_ts :: "int \<times> int"
  msg_payload :: "string option"

text \<open>
  \<open>level_str\<close>, \<open>basename\<close> and \<open>gm\<close> are what the library makes of a level and a path and \<open>gmtime_r\<close> of seconds. The result is the text in the buffer and the
  number \<open>snprintf\<close> returns.
\<close>

definition sync_log_complicated_init_fmt ::
    "(log_level \<Rightarrow> string) \<Rightarrow> (string \<Rightarrow> string) \<Rightarrow> (int \<Rightarrow> clock_tm) \<Rightarrow> log_msg \<Rightarrow> nat \<Rightarrow> string \<times> int" where
  "sync_log_complicated_init_fmt level_str basename gm msg bufsize =
     (let t = gm (fst (msg_ts msg)); payload = (case msg_payload msg of None \<Rightarrow> [] | Some p \<Rightarrow> p);
          line = level_str (msg_level msg) @ ''|'' @ deci (tm_year t + 1900) @ ''-'' @ fmt_0d 2 (tm_mon t + 1) @ ''-'' @ fmt_0d 2 (tm_mday t) @ ''T'' @
            fmt_0d 2 (tm_hour t) @ '':'' @ fmt_0d 2 (tm_min t) @ '':'' @ fmt_0d 2 (tm_sec t) @ ''.'' @ fmt_0d 9 (snd (msg_ts msg)) @ ''|'' @
            basename (msg_file msg) @ '':'' @ dec (msg_line msg) @ ''|'' @ msg_func msg @ ''|'' @ dec (msg_tid msg) @ '' - '' @ payload @ [CHR 0x0A] in
      (strncpy_buf bufsize line, int (length line)))"

section \<open>The program\<close>

definition foo_run :: "foo_config \<Rightarrow> string list" where
  "foo_run cfg =
     [''input arguments'', ''host: '' @ host cfg, ''port: '' @ port cfg, ''log.console: '' @ log_console_level cfg, ''log.file: '' @ log_file_level cfg,
      ''log.use_rotate: '' @ (if log_rotate cfg then ''true'' else ''false'')]"

record foo_end =
  fe_exit :: nat
  fe_logged :: "string list"
  fe_log :: log_state

definition foo_main :: "log_build \<Rightarrow> log_lib \<Rightarrow> (foo_opt \<times> string option) list \<Rightarrow> foo_end result" where
  "foo_main B L opts =
     rbind (foo_parse_sys_args opts) (\<lambda>r.
     case r of
       ParseFailed \<Rightarrow> Inr \<lparr>fe_exit = 1, fe_logged = [], fe_log = complain ''failed parse sys arguments'' no_log\<rparr>
     | ExitSuccess \<Rightarrow> Inr \<lparr>fe_exit = 0, fe_logged = [], fe_log = no_log\<rparr>
     | Parsed cfg \<Rightarrow>
         let (ok, s) = foo_log_init B L (Some (log_console_level cfg)) (Some (log_file_level cfg)) ''logs/foo.log'' False False no_log in
         if \<not> ok then Inr \<lparr>fe_exit = 1, fe_logged = [], fe_log = complain ''failed init log'' s\<rparr>
         else
           let s = foo_log_cleanup_thread_ctx B (foo_log_init_thread_ctx B s) in
           Inr \<lparr>fe_exit = 0, fe_logged = foo_run cfg, fe_log = s\<rparr>)"

section \<open>What is logged where\<close>

text \<open>The names of the levels, and what is foo_attached for two names.\<close>

fun level_of_name :: "string \<Rightarrow> log_level option" where
  "level_of_name s =
     map_of [(''TRACE'', TRACE), (''trace'', TRACE), (''DEBUG'', DEBUG), (''debug'', DEBUG), (''INFO'', INFO), (''info'', INFO), (''WARNING'', WARNING), (''warning'', WARNING),
       (''WARN'', WARNING), (''warn'', WARNING), (''ERROR'', ERROR), (''error'', ERROR), (''FATAL'', FATAL), (''fatal'', FATAL)] s"

definition foo_attached :: "log_lib \<Rightarrow> foo_config \<Rightarrow> (log_target \<times> int) list" where
  "foo_attached L cfg =
     (case level_of_name (log_console_level cfg) of None \<Rightarrow> [] | Some l \<Rightarrow> [(Console, lv L l)]) @
     (case level_of_name (log_file_level cfg) of None \<Rightarrow> [] | Some l \<Rightarrow> [(LogFile ''logs/foo.log'', lv L l)])"

lemma str2level: "foo_sync_log_str2level L (Some s) = (case level_of_name s of None \<Rightarrow> -1 | Some l \<Rightarrow> lv L l)"
  "foo_async_log_str2level L s' = foo_sync_log_str2level L s'"
  by (simp_all add: foo_sync_log_str2level_def foo_async_log_str2level_def)

text \<open>
  C37. Built with either library, when the handlers can be opened, no rotating file is asked for and the library numbers its levels from 0 up, the
  program attaches the console and the log file exactly when their levels are names it knows, with those levels, logs its arguments, leaves no
  thread context behind and ends with success; the asynchronous build has started its thread. (When a rotating file is asked for, the program
  attaches none, \<open>rotate_ignored\<close> below.)
\<close>

theorem foo_builds_agree:
  assumes "foo_parse_sys_args opts = Inr (Parsed cfg)" "\<forall>l. 0 \<le> lv L l" "\<forall>t. can_open L t" "\<not> log_rotate cfg"
  shows "\<exists>s. foo_main B L opts = Inr \<lparr>fe_exit = 0, fe_logged = foo_run cfg, fe_log = s\<rparr> \<and> handlers s = foo_attached L cfg \<and>
    broken s = [] \<and> log_err s = [] \<and> thread_ctx s = 0 \<and> (backend s \<longleftrightarrow> B = FOO_USE_ASYNC_LOG)"
  using assms
  by (cases B)
    (simp_all add: foo_main_def foo_sync_log_init_def foo_async_log_init_def async_log_add_console_handler_def async_log_add_file_handle_def
      foo_attached_def str2level add_handler_def no_log_def Let_def del: level_of_name.simps split: option.split)

lemma foo_fields_fit:
  assumes "foo_parse_opts opts cfg = Inr (Parsed cfg')" "length (host cfg) < 64 \<and> length (port cfg) < 16 \<and> length (log_console_level cfg) < 8 \<and> length (log_file_level cfg) < 8"
  shows "length (host cfg') < 64 \<and> length (port cfg') < 16 \<and> length (log_console_level cfg') < 8 \<and> length (log_file_level cfg') < 8"
  using assms
proof (induction opts arbitrary: cfg)
  case (Cons opt opts)
  obtain c optarg where opt: "opt = (c, optarg)" by fastforce
  obtain cfg1 where 1: "foo_parse_opt c optarg cfg = Inr (Parsed cfg1)" "foo_parse_opts opts cfg1 = Inr (Parsed cfg')"
    using Cons.prems(1) by (cases "foo_parse_opt c optarg cfg") (auto simp: opt split: parsed.splits)
  have "length (host cfg1) < 64 \<and> length (port cfg1) < 16 \<and> length (log_console_level cfg1) < 8 \<and> length (log_file_level cfg1) < 8"
    using 1(1) Cons.prems(2) length_strncpy_buf
    by (auto simp: foo_parse_opt_def split: if_splits option.splits)
  then show ?case by (rule Cons.IH [OF 1(2)])
qed simp

text \<open>The option for a rotating file is shown to the user and has no effect.\<close>

lemma rotate_ignored:
  assumes "foo_main B L opts = Inr fin"
  shows "RotatingFile p \<notin> fst ` set (handlers (fe_log fin))"
proof -
  have sub: "fst ` set (handlers (snd (foo_log_init B L c f ''logs/foo.log'' False False no_log))) \<subseteq> {Console, LogFile ''logs/foo.log''}" for c f
    by (cases B) (auto simp: foo_sync_log_init_def foo_async_log_init_def async_log_add_console_handler_def async_log_add_file_handle_def
      add_handler_def complain_def no_log_def Let_def)
  have init: "RotatingFile p \<notin> fst ` set (handlers s)" if "foo_log_init B L c f ''logs/foo.log'' False False no_log = (ok, s)" for c f ok s
    using sub [of c f] that by auto
  have keep: "handlers (foo_log_cleanup_thread_ctx B (foo_log_init_thread_ctx B s)) = handlers s" "handlers (complain x s) = handlers s" for s x
    by (cases B, simp_all add: complain_def)
  obtain r where r: "foo_parse_sys_args opts = Inr r" using assms by (cases "foo_parse_sys_args opts") (simp_all add: foo_main_def)
  show ?thesis
  proof (cases r)
    case (Parsed cfg)
    obtain ok s where s: "foo_log_init B L (Some (log_console_level cfg)) (Some (log_file_level cfg)) ''logs/foo.log'' False False no_log = (ok, s)" by fastforce
    show ?thesis using assms init [OF s] by (cases ok) (auto simp: foo_main_def r Parsed s keep)
  qed (use assms r in \<open>auto simp: foo_main_def no_log_def complain_def\<close>)
qed

text \<open>A log file that cannot be opened ends the asynchronous build; the synchronous one goes on with a handler that was never opened.\<close>

lemma sync_keeps_broken:
  assumes "foo_parse_sys_args opts = Inr (Parsed cfg)" "level_of_name (log_file_level cfg) = Some l" "0 \<le> lv L l" "\<not> can_open L (LogFile ''logs/foo.log'')"
  shows "\<exists>fin. foo_main FOO_USE_SYNC_LOG L opts = Inr fin \<and> fe_exit fin = 0 \<and> (LogFile ''logs/foo.log'', lv L l) \<in> set (handlers (fe_log fin)) \<and>
      LogFile ''logs/foo.log'' \<in> set (broken (fe_log fin))"
    and "\<exists>fin. foo_main FOO_USE_ASYNC_LOG L opts = Inr fin \<and> fe_exit fin = 1"
  using assms
  by (simp_all add: foo_main_def foo_sync_log_init_def foo_async_log_init_def async_log_add_console_handler_def async_log_add_file_handle_def
      str2level add_handler_def complain_def no_log_def Let_def del: level_of_name.simps split: option.split)


definition sample_log_lib :: log_lib where
  "sample_log_lib = \<lparr>lv = \<lambda>l. case l of TRACE \<Rightarrow> 0 | DEBUG \<Rightarrow> 1 | INFO \<Rightarrow> 2 | WARNING \<Rightarrow> 3 | ERROR \<Rightarrow> 4 | FATAL \<Rightarrow> 5, can_open = \<lambda>_. True\<rparr>"

lemma sample_log_levels: "0 \<le> lv sample_log_lib l" "lv sample_log_lib DEBUG = 1" "can_open sample_log_lib t"
  by (simp_all add: sample_log_lib_def split: log_level.split)

theorem foo_builds_agree_witness:
  "\<exists>s. foo_main FOO_USE_ASYNC_LOG sample_log_lib [(OPT_LOG_CONSOLE_LEVEL, Some ''none''), (OPT_LOG_ROTATE, Some ''0'')] =
      Inr \<lparr>fe_exit = 0, fe_logged = [''input arguments'', ''host: 0.0.0.0'', ''port: 10102'', ''log.console: none'', ''log.file: debug'', ''log.use_rotate: false''],
        fe_log = s\<rparr> \<and>
    handlers s = [(LogFile ''logs/foo.log'', 1)] \<and> backend s"
  using foo_builds_agree [of "[(OPT_LOG_CONSOLE_LEVEL, Some ''none''), (OPT_LOG_ROTATE, Some ''0'')]"
      "\<lparr>host = ''0.0.0.0'', port = ''10102'', log_console_level = ''none'', log_file_level = ''debug'', log_rotate = False\<rparr>" sample_log_lib FOO_USE_ASYNC_LOG]
  by (auto simp: foo_parse_sys_args_def foo_parse_opt_def foo_defaults_def strncpy_buf_def atoi_def is_space_def is_digit_def to_int_small foo_run_def
      foo_attached_def sample_log_levels)

end
