(* ===== verification/Shm.thy ===== *)
theory Shm
  imports Prelude
begin

text \<open>
  The shared-memory programs of src/play/c/shm/unix/example, one family on System V segments (\<open>shmget\<close>) and one on POSIX objects (\<open>shm_open\<close>):
  in each a writer that stores the time, a reader that prints it, a program that removes the segment and one that tries the calls.

  What outlives a program is the segment, None when there is none. A program gives its exit status, the lines it prints on either output, and the
  segment. Which calls the kernel refuses is an argument; it also refuses to open a segment that does not exist.
\<close>

record shm_env =
  e_key :: int            \<comment> \<open>what \<open>ftok\<close> gives\<close>
  e_id :: int             \<comment> \<open>the identifier or descriptor of the segment\<close>
  e_create :: bool
  e_open :: bool
  e_truncate :: bool
  e_stat :: bool
  e_attach :: bool
  e_detach :: bool
  e_remove :: bool
  e_errno :: int
  e_errmsg :: string
  e_now :: clock_tm       \<comment> \<open>the local time\<close>

type_synonym shm_prog = "(nat \<times> string list \<times> bytes option) result"

definition sizeof_shm_data :: nat where "sizeof_shm_data = 68"

section \<open>The data\<close>

definition shm_time :: "clock_tm \<Rightarrow> string" where
  "shm_time t =
     strncpy_buf 64 (deci (tm_year t + 1900) @ ''-'' @ fmt_0d 2 (tm_mon t + 1) @ ''-'' @ fmt_0d 2 (tm_mday t) @ ''T'' @
       fmt_0d 2 (tm_hour t) @ '':'' @ fmt_0d 2 (tm_min t) @ '':'' @ fmt_0d 2 (tm_sec t))"

definition write_data :: "shm_env \<Rightarrow> bytes \<Rightarrow> (string list \<times> bytes) result" where
  "write_data E mem =
     (let buf = shm_time (e_now E); len = length buf in
      rbind (write_range mem 0 (replicate sizeof_shm_data 0)) (\<lambda>mem.
      rbind (write_range mem 0 (bytes32 (of_nat len))) (\<lambda>mem.
      rbind (write_range mem 4 (str_bytes buf)) (\<lambda>mem.
      rbind (fmt_str (drop 4 mem)) (\<lambda>text. Inr ([''write data: '' @ text], mem))))))"

definition read_data :: "bytes \<Rightarrow> string list result" where
  "read_data mem =
     rbind (load32 mem 0) (\<lambda>len. rbind (fmt_str (drop 4 mem)) (\<lambda>text. Inr [''read data: ['' @ deci (sint len) @ ''] '' @ text]))"

section \<open>System V\<close>

definition ftok_failed :: string where "ftok_failed = ''failed ftok: path=/tmp, porj_id=5''"

definition output_errmsg :: "shm_env \<Rightarrow> string list" where
  "output_errmsg E = [''errno: '' @ deci (e_errno E) @ '', errmsg: '' @ strncpy_buf 512 (e_errmsg E)]"

definition shm_bytes :: nat where "shm_bytes = 32 * 1024 * 1024"

text \<open>\<open>shmget\<close> with \<open>IPC_EXCL\<close> makes a segment of zeros only when there is none; without size and flags it finds the one that is there.\<close>

definition shmget_create :: "shm_env \<Rightarrow> bytes option \<Rightarrow> bytes option" where
  "shmget_create E k = (if k = None \<and> e_create E then Some (replicate shm_bytes 0) else None)"

definition shmget_find :: "shm_env \<Rightarrow> bytes option \<Rightarrow> bytes option" where
  "shmget_find E k = (if e_open E then k else None)"

text \<open>A segment is made or found; without one the program ends. Then it goes on with the lines printed so far and the segment.\<close>

definition sysv_segment :: "shm_env \<Rightarrow> string list \<Rightarrow> (string list \<Rightarrow> bytes \<Rightarrow> shm_prog) \<Rightarrow> bytes option \<Rightarrow> shm_prog" where
  "sysv_segment E complaint go k =
     (case shmget_create E k of
        Some seg \<Rightarrow> go [''success create shm, key='' @ deci (e_key E)] seg
      | None \<Rightarrow>
          (case shmget_find E k of
             None \<Rightarrow> Inr (1, complaint @ [''failed get shm, key='' @ deci (e_key E)] @ (if complaint = [] then [] else output_errmsg E), k)
           | Some seg \<Rightarrow>
               if \<not> e_stat E then Inr (1, complaint @ [''success get shm id: '' @ deci (e_id E), ''failed shmctl(IPC_STAT)''], k)
               else go (complaint @ [''success get shm id: '' @ deci (e_id E), ''get shm size: '' @ deci (to_int (int (length seg)))]) seg))"

definition sysv_line :: "shm_env \<Rightarrow> string \<Rightarrow> string" where
  "sysv_line E what = what @ '', shm_id='' @ deci (e_id E)"

definition shmget_writer :: "shm_env \<Rightarrow> bytes option \<Rightarrow> shm_prog" where
  "shmget_writer E k =
     (if e_key E = -1 then Inr (1, [ftok_failed], k)
      else
        sysv_segment E ([''failed create shm, key='' @ deci (e_key E) @ '', filepath=/tmp''] @ output_errmsg E) (\<lambda>log seg.
          if \<not> e_attach E then Inr (1, log @ [''failed shmat''], Some seg)
          else
            rbind (write_data E seg) (\<lambda>(out, seg).
            let log = log @ [sysv_line E ''success shmat''] @ out in
            if \<not> e_detach E then Inr (1, log @ [''failed shmdt''], Some seg)
            else Inr (0, log @ [sysv_line E ''success shmdt''], Some seg))) k)"

definition shmget_reader :: "shm_env \<Rightarrow> bytes option \<Rightarrow> shm_prog" where
  "shmget_reader E k =
     (if e_key E = -1 then Inr (1, [ftok_failed], k)
      else
        case shmget_find E k of
          None \<Rightarrow> Inr (1, [''failed get shm, key='' @ deci (e_key E) @ '', filepath=/tmp''] @ output_errmsg E, k)
        | Some seg \<Rightarrow>
            let log = [''success get shm id: '' @ deci (e_id E)] in
            if \<not> e_stat E then Inr (1, log @ [''failed shmctl(IPC_STAT)''], k)
            else
              let log = log @ [''get shm size: '' @ deci (to_int (int (length seg)))] in
              if \<not> e_attach E then Inr (1, log @ [''failed shmat''], k)
              else
                rbind (read_data seg) (\<lambda>out.
                let log = log @ [sysv_line E ''success shmat''] @ out in
                if \<not> e_detach E then Inr (1, log @ [''failed shmdt''], k)
                else Inr (0, log @ [sysv_line E ''success shmdt''], k)))"

definition rm_shmget :: "shm_env \<Rightarrow> bytes option \<Rightarrow> shm_prog" where
  "rm_shmget E k =
     (if e_key E = -1 then Inr (1, [ftok_failed], k)
      else
        case shmget_find E k of
          None \<Rightarrow> Inr (1, [''failed open shm, key='' @ deci (e_key E)], k)
        | Some seg \<Rightarrow>
            let log = [''success get shm id: '' @ deci (e_id E)] in
            if \<not> e_remove E then Inr (1, log @ [''failed shmctl(IPC_RMID)''], k)
            else Inr (0, log @ [sysv_line E ''success rm shm''], None))"

definition try_shmget :: "shm_env \<Rightarrow> bytes option \<Rightarrow> shm_prog" where
  "try_shmget E k =
     (if e_key E = -1 then Inr (1, [ftok_failed], k)
      else
        sysv_segment E [] (\<lambda>log seg.
          if \<not> e_attach E then Inr (1, log @ [''failed shmat''], Some seg)
          else
            let log = log @ [sysv_line E ''success shmat''] in
            if \<not> e_detach E then Inr (1, log @ [''failed shmdt''], Some seg)
            else
              let log = log @ [sysv_line E ''success shmdt''] in
              if \<not> e_remove E then Inr (1, log @ [''failed shmctl(IPC_RMID)''], Some seg)
              else Inr (0, log @ [sysv_line E ''success rm shm''], None)) k)"

section \<open>POSIX\<close>

definition shm_name :: string where "shm_name = ''muggle_test_shm''"

text \<open>\<open>shm_open\<close> with \<open>O_CREAT | O_EXCL\<close> makes an empty object.\<close>

definition shm_open_create :: "shm_env \<Rightarrow> bytes option \<Rightarrow> bool" where
  "shm_open_create E k \<longleftrightarrow> k = None \<and> e_create E"

definition shm_open_find :: "shm_env \<Rightarrow> bytes option \<Rightarrow> bytes option" where
  "shm_open_find E k = (if e_open E then k else None)"

text \<open>
  A mapping of \<open>n\<close> bytes: the kernel refuses an empty one and one whose size is negative as an integer. Work on the mapping changes the first
  \<open>n\<close> bytes of the object; behind its end there is no memory.
\<close>

definition mapped :: "shm_env \<Rightarrow> int \<Rightarrow> bool" where
  "mapped E n \<longleftrightarrow> e_attach E \<and> 0 < n"

definition on_mapping :: "int \<Rightarrow> (bytes \<Rightarrow> ('a \<times> bytes) result) \<Rightarrow> bytes \<Rightarrow> ('a \<times> bytes) result" where
  "on_mapping n work seg = rbind (work (take (nat n) seg)) (\<lambda>(x, mem). Inr (x, mem @ drop (nat n) seg))"

text \<open>The writer fills the rest of the mapping with copies.\<close>

definition copy_data :: "nat \<Rightarrow> bytes \<Rightarrow> bytes result" where
  "copy_data i mem = rbind (read_range mem 0 sizeof_shm_data) (\<lambda>d. write_range mem (sizeof_shm_data * (i + 1)) d)"

definition write_all :: "shm_env \<Rightarrow> int \<Rightarrow> bytes \<Rightarrow> (string list \<times> bytes) result" where
  "write_all E shm_size mem =
     rbind (write_data E mem) (\<lambda>(out, mem).
     let remain_size = to_int (shm_size - int sizeof_shm_data); n = to_int ((remain_size mod 2 ^ 64) div int sizeof_shm_data) in
     rbind (for_each copy_data [0..<nat n] mem) (\<lambda>mem. Inr (out, mem)))"

definition mmap_work :: "shm_env \<Rightarrow> string list \<Rightarrow> int \<Rightarrow> bytes \<Rightarrow> shm_prog" where
  "mmap_work E log shm_size seg =
     (if \<not> mapped E shm_size then Inr (1, log @ [''failed mmap''], Some seg)
      else
        rbind (on_mapping shm_size (write_all E shm_size) seg) (\<lambda>(out, seg).
        let log = log @ [''success mmap''] @ out in
        if \<not> e_detach E then Inr (1, log @ [''failed mnump''], Some seg) else Inr (0, log @ [''success munmap''], Some seg)))"

definition shm_mmap_writer :: "shm_env \<Rightarrow> bytes option \<Rightarrow> shm_prog" where
  "shm_mmap_writer E k =
     (if shm_open_create E k then
        if \<not> e_truncate E then Inr (1, [''failed truncate shm''], Some [])
        else
          mmap_work E [''success create shm, name='' @ shm_name @ '', size='' @ dec shm_bytes] (int shm_bytes) (replicate shm_bytes 0)
      else
        let log = [''failed create shm: '' @ shm_name] in
        case shm_open_find E k of
          None \<Rightarrow> Inr (1, log @ [''failed shm_open: '' @ shm_name], k)
        | Some seg \<Rightarrow>
            let log = log @ [''success open shm, name='' @ shm_name] in
            if \<not> e_stat E then Inr (1, log @ [''failed fstat(shm_fd)''], k)
            else
              let shm_size = to_int (int (length seg)) in
              mmap_work E (log @ [''get shm size: '' @ deci shm_size]) shm_size seg)"

definition shm_mmap_reader :: "shm_env \<Rightarrow> bytes option \<Rightarrow> shm_prog" where
  "shm_mmap_reader E k =
     (case shm_open_find E k of
        None \<Rightarrow> Inr (1, [''failed shm_open: '' @ shm_name], k)
      | Some seg \<Rightarrow>
          let log = [''success open shm, name='' @ shm_name @ '', fd='' @ deci (e_id E)] in
          if \<not> e_stat E then Inr (1, log @ [''failed fstat(shm_fd)''], k)
          else
            let log = log @ [''get shm size: '' @ dec (length seg)] in
            if \<not> mapped E (int (length seg)) then Inr (1, log @ [''failed mmap''], k)
            else
              rbind (read_data seg) (\<lambda>out.
              let log = log @ [''success mmap''] @ out in
              if \<not> e_detach E then Inr (1, log @ [''failed mnump''], k) else Inr (0, log @ [''success munmap''], k)))"

definition rm_shm_mmap :: "shm_env \<Rightarrow> bytes option \<Rightarrow> shm_prog" where
  "rm_shm_mmap E k =
     (case shm_open_find E k of
        None \<Rightarrow> Inr (1, [''failed shm_open: '' @ shm_name], k)
      | Some seg \<Rightarrow>
          let log = [''success open shm, name='' @ shm_name @ '', fd='' @ deci (e_id E)] in
          if \<not> e_remove E then Inr (1, log @ [''failed shm_unlink''], k) else Inr (0, log @ [''success shm_unlink''], None))"

definition try_map :: "shm_env \<Rightarrow> string list \<Rightarrow> bytes \<Rightarrow> shm_prog" where
  "try_map E log seg =
     (let log = log @ [''success open shm, name='' @ shm_name @ '', fd='' @ deci (e_id E)] in
      if \<not> e_attach E then Inr (1, log @ [''failed mmap''], Some seg)
      else
        let log = log @ [''success mmap''] in
        if \<not> e_detach E then Inr (1, log @ [''failed mnump''], Some seg)
        else
          let log = log @ [''success munmap''] in
          if \<not> e_remove E then Inr (1, log @ [''failed shm_unlink''], Some seg) else Inr (0, log @ [''success shm_unlink''], None))"

definition try_shm_mmap :: "shm_env \<Rightarrow> bytes option \<Rightarrow> shm_prog" where
  "try_shm_mmap E k =
     (if \<not> shm_open_create E k then
        let log = [''failed shm_open: '' @ shm_name] in
        (case shm_open_find E k of
           None \<Rightarrow> Inr (1, log @ [''failed shm_open: '' @ shm_name], k)
         | Some seg \<Rightarrow> try_map E log seg)
      else if \<not> e_truncate E then Inr (1, [''failed truncate shm''], Some [])
      else try_map E [] (replicate 1024 0))"

section \<open>Programs one after the other\<close>

datatype shm_cmd = Write | Read | Remove

fun run_shm :: "(shm_env \<Rightarrow> bytes option \<Rightarrow> shm_prog) \<Rightarrow> (shm_env \<Rightarrow> bytes option \<Rightarrow> shm_prog) \<Rightarrow> (shm_env \<Rightarrow> bytes option \<Rightarrow> shm_prog) \<Rightarrow>
    (shm_env \<times> shm_cmd) list \<Rightarrow> bytes option \<Rightarrow> ((nat \<times> string list) list \<times> bytes option) result" where
  "run_shm writer reader remover [] k = Inr ([], k)"
| "run_shm writer reader remover ((E, c) # cs) k =
     rbind (case c of Write \<Rightarrow> writer E k | Read \<Rightarrow> reader E k | Remove \<Rightarrow> remover E k) (\<lambda>(ret, out, k).
     rbind (run_shm writer reader remover cs k) (\<lambda>(rs, k). Inr ((ret, out) # rs, k)))"

text \<open>What is promised: a board that holds the last text. Each command has an exit status and, for a reader, a line.\<close>

fun board :: "(shm_env \<times> shm_cmd) list \<Rightarrow> string option \<Rightarrow> (nat \<times> string list) list" where
  "board [] a = []"
| "board ((E, Write) # cs) a = (0, [''write data: '' @ shm_time (e_now E)]) # board cs (Some (shm_time (e_now E)))"
| "board ((E, Read) # cs) None = (1, []) # board cs None"
| "board ((E, Read) # cs) (Some t) = (0, [''read data: ['' @ dec (length t) @ ''] '' @ t]) # board cs (Some t)"
| "board ((E, Remove) # cs) None = (1, []) # board cs None"
| "board ((E, Remove) # cs) (Some t) = (0, []) # board cs None"

text \<open>A program keeps a promise when it ends as promised and prints the promised lines among others.\<close>

definition kept :: "nat \<times> string list \<Rightarrow> nat \<times> string list \<Rightarrow> bool" where
  "kept r p \<longleftrightarrow> fst r = fst p \<and> set (snd p) \<subseteq> set (snd r)"

lemma kept_pair [simp]: "kept (r, out) (r', lines) \<longleftrightarrow> r = r' \<and> set lines \<subseteq> set out"
  by (simp add: kept_def)

definition allows :: "shm_env \<Rightarrow> bool" where
  "allows E \<longleftrightarrow> e_key E \<noteq> -1 \<and> e_create E \<and> e_open E \<and> e_truncate E \<and> e_stat E \<and> e_attach E \<and> e_detach E \<and> e_remove E"

definition holds_text :: "bytes option \<Rightarrow> string option \<Rightarrow> bool" where
  "holds_text k a \<longleftrightarrow>
     (case k of
        None \<Rightarrow> a = None
      | Some seg \<Rightarrow> sizeof_shm_data \<le> length seg \<and> length seg < 2 ^ 31 \<and>
          (\<exists>t. a = Some t \<and> length t < 64 \<and> load32 seg 0 = Inr (of_nat (length t)) \<and> fmt_str (drop 4 seg) = Inr t))"

locale shm_family =
  fixes writer reader remover :: "shm_env \<Rightarrow> bytes option \<Rightarrow> shm_prog"
  assumes writes: "allows E \<Longrightarrow> holds_text k a \<Longrightarrow>
      \<exists>out k'. writer E k = Inr (0, out, k') \<and> ''write data: '' @ shm_time (e_now E) \<in> set out \<and> holds_text k' (Some (shm_time (e_now E)))"
    and reads: "allows E \<Longrightarrow> holds_text k (Some t) \<Longrightarrow> \<exists>out. reader E k = Inr (0, out, k) \<and> ''read data: ['' @ dec (length t) @ ''] '' @ t \<in> set out"
    and reads_nothing: "allows E \<Longrightarrow> \<exists>out. reader E None = Inr (1, out, None)"
    and removes: "allows E \<Longrightarrow> holds_text k (Some t) \<Longrightarrow> \<exists>out. remover E k = Inr (0, out, None)"
    and removes_nothing: "allows E \<Longrightarrow> \<exists>out. remover E None = Inr (1, out, None)"
begin

lemma keeps_board:
  assumes "holds_text k a" "\<forall>E \<in> fst ` set cs. allows E"
  shows "\<exists>rs k'. run_shm writer reader remover cs k = Inr (rs, k') \<and> list_all2 kept rs (board cs a)"
  using assms
proof (induction cs arbitrary: k a)
  case (Cons ec cs)
  obtain E c where ec: "ec = (E, c)" by fastforce
  have E: "allows E" and rest: "\<forall>E \<in> fst ` set cs. allows E" using Cons.prems(2) ec by auto
  have none: "holds_text None None" by (simp add: holds_text_def)
  have go: ?case if h: "(case c of Write \<Rightarrow> writer E k | Read \<Rightarrow> reader E k | Remove \<Rightarrow> remover E k) = Inr (ret, out, k1)" "holds_text k1 a1"
      "board ((E, c) # cs) a = (ret, lines) # board cs a1" "set lines \<subseteq> set out" for ret out k1 a1 lines
  proof -
    obtain rs k2 where "run_shm writer reader remover cs k1 = Inr (rs, k2)" "list_all2 kept rs (board cs a1)" using Cons.IH [OF h(2) rest] by blast
    then show ?thesis unfolding ec h(3) using h(1,4) by simp
  qed
  show ?case
  proof (cases c)
    case Write
    then show ?thesis using writes [OF E Cons.prems(1)] by (elim exE conjE, intro go) auto
  next
    case Read
    show ?thesis
    proof (cases a)
      case None
      then have "k = None" using Cons.prems(1) by (auto simp: holds_text_def split: option.splits)
      then show ?thesis using reads_nothing [OF E] Read None by (elim exE, intro go [OF _ none]) auto
    next
      case (Some t)
      then obtain out where "reader E k = Inr (0, out, k)" "''read data: ['' @ dec (length t) @ ''] '' @ t \<in> set out" using reads [OF E] Cons.prems(1) by blast
      then show ?thesis using Read Some Cons.prems(1) by (intro go [of 0 out k a]) auto
    qed
  next
    case Remove
    show ?thesis
    proof (cases a)
      case None
      then have "k = None" using Cons.prems(1) by (auto simp: holds_text_def split: option.splits)
      then show ?thesis using removes_nothing [OF E] Remove None by (elim exE, intro go [OF _ none]) auto
    next
      case (Some t)
      then obtain out where "remover E k = Inr (0, out, None)" using removes [OF E] Cons.prems(1) by blast
      then show ?thesis using Remove Some by (intro go [OF _ none]) auto
    qed
  qed
qed simp

end


section \<open>What is stored\<close>

lemma shm_time_text: "CHR 0x00 \<notin> set (shm_time t)" "length (shm_time t) < 64"
proof -
  have nonnull: "(of_char c :: nat) \<noteq> 0" if "c \<in> set (shm_time t)" for c
    using that unfolding shm_time_def strncpy_buf_def by (drule_tac in_set_takeD) (auto dest: fmt_nonnull)
  show "CHR 0x00 \<notin> set (shm_time t)" using nonnull [of "CHR 0x00"] by auto
  show "length (shm_time t) < 64" unfolding shm_time_def by (rule length_strncpy_buf) simp
qed

lemma text_stored:
  assumes "CHR 0x00 \<notin> set t" "length t < 64" "sizeof_shm_data \<le> length seg"
  shows "holds_text (Some (bytes32 (of_nat (length t)) @ str_bytes t @ replicate (64 - length t) 0 @ rest)) (Some t) \<longleftrightarrow> 68 + length rest < 2 ^ 31"
proof -
  obtain m where m: "64 - length t = Suc m" using assms(2) by (metis Suc_diff_Suc)
  have "takeWhile (\<lambda>b. b \<noteq> 0) (str_bytes t @ 0 # replicate m 0 @ rest) = str_bytes t"
    using str_bytes_nonzero [OF assms(1)] by (subst takeWhile_append2) auto
  then have "fmt_str (str_bytes t @ replicate (64 - length t) 0 @ rest) = Inr t" by (simp add: fmt_str_def m chars_of_str_bytes)
  moreover have "load32 (bytes32 (of_nat (length t)) @ str_bytes t @ replicate (64 - length t) 0 @ rest) 0 = Inr (of_nat (length t))"
    using load32_append [of "[]" 0] by simp
  moreover have "length (bytes32 (of_nat (length t)) @ str_bytes t @ replicate (64 - length t) 0 @ rest) = 68 + length rest"
    using assms(2) by (simp add: str_bytes_def)
  ultimately show ?thesis using assms(2) unfolding holds_text_def by (auto simp: sizeof_shm_data_def)
qed

lemma write_data_result:
  assumes "sizeof_shm_data \<le> length mem" "t = shm_time (e_now E)"
  shows "write_data E mem =
    Inr ([''write data: '' @ t], bytes32 (of_nat (length t)) @ str_bytes t @ replicate (64 - length t) 0 @ drop 68 mem)"
proof -
  note t = shm_time_text [of "e_now E", folded assms(2)]
  have l: "length (str_bytes t) = length t" by (simp add: str_bytes_def)
  obtain m where m: "64 - length t = Suc m" using t(2) by (metis Suc_diff_Suc)
  have 1: "write_range mem 0 (replicate 68 0) = Inr (replicate 68 0 @ drop 68 mem)" using assms(1) by (simp add: write_range_def sizeof_shm_data_def)
  have 2: "write_range (replicate 68 0 @ drop 68 mem) 0 (bytes32 w) = Inr (bytes32 w @ replicate 64 0 @ drop 68 mem)" for w by (simp add: write_range_def)
  have 3: "write_range (bytes32 w @ replicate 64 0 @ drop 68 mem) 4 (str_bytes t) = Inr (bytes32 w @ str_bytes t @ replicate (64 - length t) 0 @ drop 68 mem)" for w
    using t(2) by (simp add: write_range_def l)
  have "takeWhile (\<lambda>b. b \<noteq> 0) (str_bytes t @ 0 # replicate m 0 @ drop 68 mem) = str_bytes t"
    using str_bytes_nonzero [OF t(1)] by (subst takeWhile_append2) auto
  then have 4: "fmt_str (str_bytes t @ replicate (64 - length t) 0 @ drop 68 mem) = Inr t" by (simp add: fmt_str_def m chars_of_str_bytes)
  show ?thesis unfolding write_data_def assms(2) [symmetric] sizeof_shm_data_def Let_def by (simp add: 1 2 3 4)
qed

lemma written_holds:
  assumes "sizeof_shm_data \<le> length mem" "length mem < 2 ^ 31" "t = shm_time (e_now E)"
  shows "\<exists>mem'. write_data E mem = Inr ([''write data: '' @ t], mem') \<and> length mem' = length mem \<and> holds_text (Some mem') (Some t)"
proof -
  note t = shm_time_text [of "e_now E", folded assms(3)]
  have "holds_text (Some (bytes32 (of_nat (length t)) @ str_bytes t @ replicate (64 - length t) 0 @ drop 68 mem)) (Some t)"
    using text_stored [OF t assms(1), of "drop 68 mem"] assms(1,2) by (simp add: sizeof_shm_data_def)
  then show ?thesis using write_data_result [OF assms(1,3)] assms(1) t(2) by (simp add: sizeof_shm_data_def str_bytes_def)
qed

lemma read_data_text:
  assumes "holds_text (Some seg) (Some t)"
  shows "read_data seg = Inr [''read data: ['' @ dec (length t) @ ''] '' @ t]"
  using assms by (auto simp: holds_text_def read_data_def deci_def sint_of_nat_u32)

lemma fresh_fits: "sizeof_shm_data \<le> shm_bytes" "shm_bytes < 2 ^ 31" "to_int (int shm_bytes) = int shm_bytes"
  by (simp_all add: sizeof_shm_data_def shm_bytes_def to_int_small)


section \<open>Both families keep the promise\<close>

lemma holds_some: "holds_text k (Some t) \<Longrightarrow> \<exists>seg. k = Some seg \<and> sizeof_shm_data \<le> length seg \<and> length seg < 2 ^ 31"
  by (auto simp: holds_text_def split: option.splits)

lemma shmget_writes:
  assumes "allows E" "holds_text k a"
  shows "\<exists>out k'. shmget_writer E k = Inr (0, out, k') \<and> ''write data: '' @ shm_time (e_now E) \<in> set out \<and> holds_text k' (Some (shm_time (e_now E)))"
proof (cases k)
  case None
  obtain mem where mem: "write_data E (replicate shm_bytes 0) = Inr ([''write data: '' @ shm_time (e_now E)], mem)" "holds_text (Some mem) (Some (shm_time (e_now E)))"
    using written_holds [of "replicate shm_bytes 0"] fresh_fits by auto
  then show ?thesis using None assms(1) by (simp add: shmget_writer_def sysv_segment_def shmget_create_def allows_def)
next
  case (Some seg)
  then obtain mem where mem: "write_data E seg = Inr ([''write data: '' @ shm_time (e_now E)], mem)" "holds_text (Some mem) (Some (shm_time (e_now E)))"
    using written_holds [of seg] assms(2) by (auto simp: holds_text_def)
  then show ?thesis using Some assms(1) by (simp add: shmget_writer_def sysv_segment_def shmget_create_def shmget_find_def allows_def)
qed

interpretation sysv: shm_family shmget_writer shmget_reader rm_shmget
proof
  show "\<exists>out. shmget_reader E k = Inr (0, out, k) \<and> ''read data: ['' @ dec (length t) @ ''] '' @ t \<in> set out" if "allows E" "holds_text k (Some t)" for E k t
    using that holds_some [OF that(2)] read_data_text by (auto simp: shmget_reader_def shmget_find_def allows_def)
  show "\<exists>out. rm_shmget E k = Inr (0, out, None)" if "allows E" "holds_text k (Some t)" for E k t
    using that holds_some [OF that(2)] by (auto simp: rm_shmget_def shmget_find_def allows_def)
qed (use shmget_writes in \<open>auto simp: shmget_reader_def rm_shmget_def shmget_find_def allows_def\<close>)

text \<open>The copies behind the data leave the data alone.\<close>

lemma copies_keep:
  assumes "sizeof_shm_data * (n + 1) \<le> length mem"
  shows "\<exists>mem'. for_each copy_data [0..<n] mem = Inr mem' \<and> take 68 mem' = take 68 mem \<and> length mem' = length mem"
proof -
  let ?P = "\<lambda>i m. take 68 m = take 68 mem \<and> length m = length mem"
  have "\<exists>mem'. for_each copy_data [0..<n] mem = Inr mem' \<and> ?P n mem'"
  proof (rule for_each_upto [where P = ?P])
    fix i m
    assume i: "i < n" and m: "?P i m"
    have "68 * (i + 1) + 68 \<le> 68 * (n + 1)" using i by simp
    then have fits: "68 * (i + 1) + 68 \<le> length m" using assms m by (simp add: sizeof_shm_data_def)
    then show "\<exists>m'. copy_data i m = Inr m' \<and> ?P (Suc i) m'" using m by (auto simp: copy_data_def read_range_def write_range_def sizeof_shm_data_def)
  qed simp
  then show ?thesis by blast
qed

lemma write_all_holds:
  assumes "sizeof_shm_data \<le> length mem" "length mem < 2 ^ 31" "t = shm_time (e_now E)"
  shows "\<exists>mem'. write_all E (int (length mem)) mem = Inr ([''write data: '' @ t], mem') \<and> holds_text (Some mem') (Some t)"
proof -
  note tx = shm_time_text [of "e_now E", folded assms(3)]
  let ?d = "bytes32 (of_nat (length t)) @ str_bytes t @ replicate (64 - length t) 0"
  define n where "n = (length mem - 68) div 68"
  have len: "length ?d = 68" using tx(2) by (simp add: str_bytes_def)
  have remain: "to_int (int (length mem) - 68) = int (length mem - 68)" using assms(1,2) by (simp add: to_int_small sizeof_shm_data_def of_nat_diff)
  have "(int (length mem - 68) mod 2 ^ 64) div 68 = int n" using assms(2) by (simp add: n_def zdiv_int)
  then have n: "to_int ((int (length mem - 68) mod 2 ^ 64) div 68) = int n" using assms(2) by (simp add: to_int_small n_def)
  have "sizeof_shm_data * (n + 1) \<le> length (?d @ drop 68 mem)" using len assms(1) by (simp add: n_def sizeof_shm_data_def)
  then obtain mem' where mem': "for_each copy_data [0..<n] (?d @ drop 68 mem) = Inr mem'" "take 68 mem' = ?d" "length mem' = length mem"
    using copies_keep [of n "?d @ drop 68 mem"] len assms(1) by (auto simp: sizeof_shm_data_def)
  have "mem' = ?d @ drop 68 mem'" using append_take_drop_id [of 68 mem'] mem'(2) by simp
  then have "holds_text (Some mem') (Some t)" using text_stored [OF tx assms(1), of "drop 68 mem'"] mem'(3) assms(1,2) by (simp add: sizeof_shm_data_def)
  moreover have "write_all E (int (length mem)) mem = Inr ([''write data: '' @ t], mem')"
    using mem'(1) by (simp add: write_all_def write_data_result [OF assms(1,3)] Let_def sizeof_shm_data_def remain n [simplified])
  ultimately show ?thesis by blast
qed

lemma mmap_work_result:
  assumes "allows E" "sizeof_shm_data \<le> length seg" "length seg < 2 ^ 31"
  shows "\<exists>out k'. mmap_work E log (int (length seg)) seg = Inr (0, out, k') \<and> ''write data: '' @ shm_time (e_now E) \<in> set out \<and>
    holds_text k' (Some (shm_time (e_now E)))"
proof -
  obtain seg' where "write_all E (int (length seg)) seg = Inr ([''write data: '' @ shm_time (e_now E)], seg')" "holds_text (Some seg') (Some (shm_time (e_now E)))"
    using write_all_holds [OF assms(2,3) refl] by blast
  moreover have "mapped E (int (length seg))" using assms(1,2) by (auto simp: mapped_def allows_def sizeof_shm_data_def)
  ultimately show ?thesis using assms(1) by (simp add: mmap_work_def on_mapping_def allows_def)
qed

lemma mmap_writes:
  assumes "allows E" "holds_text k a"
  shows "\<exists>out k'. shm_mmap_writer E k = Inr (0, out, k') \<and> ''write data: '' @ shm_time (e_now E) \<in> set out \<and> holds_text k' (Some (shm_time (e_now E)))"
proof (cases k)
  case None
  then show ?thesis using mmap_work_result [OF assms(1), of "replicate shm_bytes 0"] fresh_fits assms(1) by (simp add: shm_mmap_writer_def shm_open_create_def allows_def)
next
  case (Some seg)
  then have seg: "sizeof_shm_data \<le> length seg" "length seg < 2 ^ 31" using assms(2) by (auto simp: holds_text_def)
  then show ?thesis using mmap_work_result [OF assms(1) seg] Some assms(1)
    by (simp add: shm_mmap_writer_def shm_open_create_def shm_open_find_def allows_def to_int_small Let_def)
qed

interpretation posix: shm_family shm_mmap_writer shm_mmap_reader rm_shm_mmap
proof
  show "\<exists>out. shm_mmap_reader E k = Inr (0, out, k) \<and> ''read data: ['' @ dec (length t) @ ''] '' @ t \<in> set out" if "allows E" "holds_text k (Some t)" for E k t
    using that holds_some [OF that(2)] read_data_text by (auto simp: shm_mmap_reader_def shm_open_find_def mapped_def sizeof_shm_data_def allows_def Let_def)
  show "\<exists>out. rm_shm_mmap E k = Inr (0, out, None)" if "allows E" "holds_text k (Some t)" for E k t
    using that holds_some [OF that(2)] by (auto simp: rm_shm_mmap_def shm_open_find_def allows_def)
qed (use mmap_writes in \<open>auto simp: shm_mmap_reader_def rm_shm_mmap_def shm_open_find_def allows_def\<close>)

text \<open>
  C34. Writers, readers and removers run one after the other, in any order, while the system calls succeed: in both families a reader prints the time of
  the last writer and its length, or fails when nothing was written since the segment was removed; a remover fails exactly when there is no segment. No
  program reads or writes outside of the segment.
\<close>

theorem shm_last_time:
  assumes "\<forall>E \<in> fst ` set cs. allows E"
  shows "(\<exists>rs k. run_shm shmget_writer shmget_reader rm_shmget cs None = Inr (rs, k) \<and> list_all2 kept rs (board cs None)) \<and>
    (\<exists>rs k. run_shm shm_mmap_writer shm_mmap_reader rm_shm_mmap cs None = Inr (rs, k) \<and> list_all2 kept rs (board cs None))"
proof -
  have "holds_text None None" by (simp add: holds_text_def)
  then show ?thesis using sysv.keeps_board posix.keeps_board assms by blast
qed

text \<open>The programs that try the calls leave no segment when they succeed.\<close>

lemma tries_remove:
  "try_shmget E k = Inr (0, out, k') \<Longrightarrow> k' = None" "try_shm_mmap E k = Inr (0, out, k') \<Longrightarrow> k' = None"
  by (auto simp: try_shmget_def sysv_segment_def try_shm_mmap_def try_map_def Let_def split: if_splits option.splits)

text \<open>
  When the new object cannot be given its size it stays behind empty, and then neither writer nor reader can map it, until it is removed.
\<close>

lemma empty_object_blocks:
  assumes "e_create E" "\<not> e_truncate E"
  shows "shm_mmap_writer E None = Inr (1, [''failed truncate shm''], Some [])"
    and "\<exists>out. shm_mmap_writer E' (Some []) = Inr (1, out, Some [])" "\<exists>out. shm_mmap_reader E' (Some []) = Inr (1, out, Some [])"
  using assms by (simp_all add: shm_mmap_writer_def shm_mmap_reader_def shm_open_create_def shm_open_find_def mmap_work_def mapped_def to_int_def Let_def)

text \<open>A segment that another program made too small is written beyond its end.\<close>

lemma small_segment_overflows:
  assumes "allows E" "length seg < sizeof_shm_data"
  shows "shmget_writer E (Some seg) = Inl HeapOverflow"
  using assms by (simp add: shmget_writer_def sysv_segment_def shmget_create_def shmget_find_def allows_def write_data_def write_range_def)

definition sample_shm_env :: "int \<Rightarrow> shm_env" where
  "sample_shm_env s = \<lparr>e_key = 17, e_id = 3, e_create = True, e_open = True, e_truncate = True, e_stat = True, e_attach = True, e_detach = True, e_remove = True,
     e_errno = 0, e_errmsg = [], e_now = \<lparr>tm_year = 120, tm_mon = 0, tm_mday = 2, tm_hour = 3, tm_min = 4, tm_sec = s\<rparr>\<rparr>"

definition sample_cmds :: "(shm_env \<times> shm_cmd) list" where
  "sample_cmds = [(sample_shm_env 5, Read), (sample_shm_env 6, Write), (sample_shm_env 7, Write), (sample_shm_env 8, Read), (sample_shm_env 9, Remove)]"

theorem shm_last_time_witness:
  "\<exists>rs k. run_shm shmget_writer shmget_reader rm_shmget sample_cmds None = Inr (rs, k) \<and>
    list_all2 kept rs [(1, []), (0, [''write data: 2020-01-02T03:04:06'']), (0, [''write data: 2020-01-02T03:04:07'']),
      (0, [''read data: [19] 2020-01-02T03:04:07'']), (0, [])]"
proof -
  have ok: "\<forall>E \<in> fst ` set sample_cmds. allows E" by (simp add: sample_cmds_def allows_def sample_shm_env_def)
  have "board sample_cmds None = [(1, []), (0, [''write data: 2020-01-02T03:04:06'']), (0, [''write data: 2020-01-02T03:04:07'']),
      (0, [''read data: [19] 2020-01-02T03:04:07'']), (0, [])]"
    by (simp add: sample_cmds_def sample_shm_env_def shm_time_def strncpy_buf_def deci_def fmt_0d_def pad0_def dec.simps char_of_def bit_0)
  then show ?thesis using shm_last_time [OF ok] by simp
qed

end
