(* ===== verification/VarSerialize.thy ===== *)
theory VarSerialize
  imports Prelude
begin

text \<open>
  The serialization of src/play/cpp/template_meta/example/serialize/serialize.cpp: four overloads that append a tagged value to a buffer of 1024 bytes, and a
  variadic function that appends values until one does not fit.

  A value is given by the overload that the compiler chooses for it. A store behind the buffer is a fault; in the program it changes the position, which lies there.
\<close>

definition VAR_TYPE_CONST :: u32 where "VAR_TYPE_CONST = 0"
definition VAR_TYPE_STR :: u32 where "VAR_TYPE_STR = 1"

record bytes_buf =
  bb_bytes :: bytes
  bb_pos :: u32

definition sizeof_bytes :: nat where "sizeof_bytes = 1024"

definition empty_buf :: bytes_buf where
  "empty_buf = \<lparr>bb_bytes = replicate sizeof_bytes 0, bb_pos = 0\<rparr>"

text \<open>
  \<open>ConstVar\<close> is a value of fixed width by its bytes, \<open>ArrayVar\<close> an array of characters with its terminating null, the others are pointers to strings.
\<close>

datatype var = ConstVar bytes | ArrayVar bytes | ConstCharPtr string | CharPtr string

definition append_bytes :: "bytes \<Rightarrow> bytes_buf \<Rightarrow> bytes_buf result" where
  "append_bytes bs buf =
     rbind (write_range (bb_bytes buf) (unat (bb_pos buf)) bs) (\<lambda>m. Inr \<lparr>bb_bytes = m, bb_pos = bb_pos buf + of_nat (length bs)\<rparr>)"

definition remain :: "bytes_buf \<Rightarrow> u32" where
  "remain buf = of_nat sizeof_bytes - bb_pos buf"

text \<open>The result tells whether the value was stored, with the line that is printed.\<close>

definition Serialize_const :: "bytes \<Rightarrow> bytes_buf \<Rightarrow> (bool \<times> string \<times> bytes_buf) result" where
  "Serialize_const v buf =
     (let line = ''Serialize Template T''; need = of_nat (length v + 4) in
      if remain buf < need then Inr (False, line, buf)
      else rbind (append_bytes (bytes32 VAR_TYPE_CONST) buf) (\<lambda>buf. rbind (append_bytes v buf) (\<lambda>buf. Inr (True, line, buf))))"

definition Serialize_array :: "bytes \<Rightarrow> bytes_buf \<Rightarrow> (bool \<times> string \<times> bytes_buf) result" where
  "Serialize_array v buf =
     (let line = ''Serialize Template nontype param: const char[N]''; N = length v; v_size = of_nat N; need = of_nat (N + 4 + N) in
      if remain buf < need then Inr (False, line, buf)
      else
        rbind (append_bytes (bytes32 VAR_TYPE_STR) buf) (\<lambda>buf.
        rbind (append_bytes (bytes32 v_size) buf) (\<lambda>buf.
        rbind (append_bytes v buf) (\<lambda>buf. Inr (True, line, buf)))))"

definition store_string :: "string \<Rightarrow> string \<Rightarrow> bytes_buf \<Rightarrow> (bool \<times> string \<times> bytes_buf) result" where
  "store_string line v buf =
     (let v_size = of_nat (length v + 1); need = 8 + 4 + v_size in
      if remain buf < need then Inr (False, line, buf)
      else
        rbind (append_bytes (bytes32 VAR_TYPE_STR) buf) (\<lambda>buf.
        rbind (append_bytes (bytes32 v_size) buf) (\<lambda>buf.
        rbind (append_bytes (take (unat v_size) (str_bytes v @ [0])) buf) (\<lambda>buf. Inr (True, line, buf)))))"

definition Serialize_const_char_ptr :: "string \<Rightarrow> bytes_buf \<Rightarrow> (bool \<times> string \<times> bytes_buf) result" where
  "Serialize_const_char_ptr v buf = store_string ''Serialize Template specialization: const char*'' v buf"

definition Serialize_char_ptr :: "string \<Rightarrow> bytes_buf \<Rightarrow> (bool \<times> string \<times> bytes_buf) result" where
  "Serialize_char_ptr v buf = store_string ''Serialize Template specialization: char*'' v buf"

fun Serialize_var :: "var \<Rightarrow> bytes_buf \<Rightarrow> (bool \<times> string \<times> bytes_buf) result" where
  "Serialize_var (ConstVar v) buf = Serialize_const v buf"
| "Serialize_var (ArrayVar v) buf = Serialize_array v buf"
| "Serialize_var (ConstCharPtr v) buf = Serialize_const_char_ptr v buf"
| "Serialize_var (CharPtr v) buf = Serialize_char_ptr v buf"

fun SerializeVars :: "var list \<Rightarrow> bytes_buf \<Rightarrow> (bool \<times> string list \<times> bytes_buf) result" where
  "SerializeVars [] buf = Inr (True, [], buf)"
| "SerializeVars (v # rest) buf =
     rbind (Serialize_var v buf) (\<lambda>(ok, line, buf).
     if \<not> ok then Inr (False, [line], buf)
     else rbind (SerializeVars rest buf) (\<lambda>(ok, lines, buf). Inr (ok, line # lines, buf)))"

definition serialize_main :: "(bool \<times> string list \<times> bytes_buf) result" where
  "serialize_main =
     SerializeVars
       [ConstVar (bytes32 1), ConstVar [2, 0, 0, 0, 0, 0, 0, 0], ConstVar (bytes32 0x4048F5C3), ArrayVar (str_bytes ''hello'' @ [0]),
        ConstCharPtr ''foo'', CharPtr ''bar''] empty_buf"

section \<open>What is stored\<close>

fun encoded :: "var \<Rightarrow> bytes" where
  "encoded (ConstVar v) = bytes32 VAR_TYPE_CONST @ v"
| "encoded (ArrayVar v) = bytes32 VAR_TYPE_STR @ bytes32 (of_nat (length v)) @ v"
| "encoded (ConstCharPtr s) = bytes32 VAR_TYPE_STR @ bytes32 (of_nat (length s + 1)) @ str_bytes s @ [0]"
| "encoded (CharPtr s) = bytes32 VAR_TYPE_STR @ bytes32 (of_nat (length s + 1)) @ str_bytes s @ [0]"

text \<open>What the overload asks for before it stores.\<close>

fun room_for :: "var \<Rightarrow> nat" where
  "room_for (ConstVar v) = 4 + length v"
| "room_for (ArrayVar v) = length v + 4 + length v"
| "room_for (ConstCharPtr s) = 13 + length s"
| "room_for (CharPtr s) = 13 + length s"

text \<open>Values whose sizes fit the 32-bit arithmetic; an array of fewer than four characters asks for too little.\<close>

fun asks_enough :: "var \<Rightarrow> bool" where
  "asks_enough (ArrayVar v) = (4 \<le> length v \<and> 2 * length v + 4 < 2 ^ 32)"
| "asks_enough v = (room_for v < 2 ^ 32)"

text \<open>A buffer that holds \<open>bs\<close>.\<close>

definition holds :: "bytes_buf \<Rightarrow> bytes \<Rightarrow> bool" where
  "holds buf bs \<longleftrightarrow> length (bb_bytes buf) = sizeof_bytes \<and> length bs \<le> sizeof_bytes \<and> take (length bs) (bb_bytes buf) = bs \<and> bb_pos buf = of_nat (length bs)"

text \<open>The values that are stored: until the first that does not find the room it asks for.\<close>

fun stored :: "var list \<Rightarrow> nat \<Rightarrow> bytes" where
  "stored [] used = []"
| "stored (v # vs) used = (if sizeof_bytes - used < room_for v then [] else encoded v @ stored vs (used + length (encoded v)))"

fun all_stored :: "var list \<Rightarrow> nat \<Rightarrow> bool" where
  "all_stored [] used \<longleftrightarrow> True"
| "all_stored (v # vs) used \<longleftrightarrow> room_for v \<le> sizeof_bytes - used \<and> all_stored vs (used + length (encoded v))"

lemma append_bytes_holds:
  assumes "holds buf bs" "length bs + length xs \<le> sizeof_bytes"
  shows "\<exists>buf'. append_bytes xs buf = Inr buf' \<and> holds buf' (bs @ xs)"
proof -
  have pos: "unat (bb_pos buf) = length bs" using assms by (simp add: holds_def sizeof_bytes_def unat_of_nat_u32)
  then show ?thesis using assms by (simp add: append_bytes_def write_range_def holds_def)
qed

lemma remain_holds: "holds buf bs \<Longrightarrow> n < 2 ^ 32 \<Longrightarrow> remain buf < of_nat n \<longleftrightarrow> sizeof_bytes - length bs < n"
proof -
  assume h: "holds buf bs" "n < 2 ^ 32"
  then have "remain buf = of_nat (sizeof_bytes - length bs)" by (simp add: remain_def holds_def)
  then show ?thesis using h by (simp add: word_less_nat_alt unat_of_nat_u32 sizeof_bytes_def)
qed

lemma store_tagged:
  assumes h: "holds buf bs" and fits: "length bs + (4 + length xs) \<le> sizeof_bytes"
  shows "\<exists>buf'. rbind (append_bytes (bytes32 a) buf) (\<lambda>buf. rbind (append_bytes xs buf) (\<lambda>buf. Inr (True, line, buf))) = Inr (True, line, buf') \<and>
    holds buf' (bs @ bytes32 a @ xs)"
proof -
  obtain b1 where b1: "append_bytes (bytes32 a) buf = Inr b1" "holds b1 (bs @ bytes32 a)" using append_bytes_holds [OF h, of "bytes32 a"] fits by auto
  obtain b2 where "append_bytes xs b1 = Inr b2" "holds b2 ((bs @ bytes32 a) @ xs)" using append_bytes_holds [OF b1(2), of xs] fits by auto
  then show ?thesis using b1(1) by simp
qed

lemma store_sized:
  assumes h: "holds buf bs" and fits: "length bs + (8 + length xs) \<le> sizeof_bytes"
  shows "\<exists>buf'. rbind (append_bytes (bytes32 a) buf) (\<lambda>buf. rbind (append_bytes (bytes32 n) buf) (\<lambda>buf. rbind (append_bytes xs buf)
      (\<lambda>buf. Inr (True, line, buf)))) = Inr (True, line, buf') \<and> holds buf' (bs @ bytes32 a @ bytes32 n @ xs)"
proof -
  obtain b1 where b1: "append_bytes (bytes32 a) buf = Inr b1" "holds b1 (bs @ bytes32 a)" using append_bytes_holds [OF h, of "bytes32 a"] fits by auto
  then show ?thesis using store_tagged [OF b1(2), of xs n line] fits by simp
qed

lemma store_string_result:
  assumes h: "holds buf bs" and v: "13 + length s < 2 ^ 32"
  shows "\<exists>buf'. store_string line s buf = Inr (13 + length s \<le> sizeof_bytes - length bs, line, buf') \<and>
    holds buf' (bs @ (if 13 + length s \<le> sizeof_bytes - length bs then bytes32 VAR_TYPE_STR @ bytes32 (of_nat (length s + 1)) @ str_bytes s @ [0] else []))"
proof -
  have need: "8 + 4 + of_nat (length s + 1) = (of_nat (13 + length s) :: u32)" by simp
  have size: "unat (of_nat (length s + 1) :: u32) = length s + 1" using v by (intro unat_of_nat_u32) simp
  have take: "take (unat (of_nat (length s + 1) :: u32)) (str_bytes s @ [0]) = str_bytes s @ [0]" unfolding size by (simp add: str_bytes_def)
  show ?thesis
  proof (cases "sizeof_bytes - length bs < 13 + length s")
    case True
    then show ?thesis using h by (simp only: store_string_def Let_def need remain_holds [OF h v]) simp
  next
    case False
    have "length bs \<le> sizeof_bytes" using h by (simp add: holds_def)
    then have "length bs + (8 + length (str_bytes s @ [0])) \<le> sizeof_bytes" using False by (simp add: str_bytes_def)
    then show ?thesis
      using store_sized [OF h, of "str_bytes s @ [0]" VAR_TYPE_STR "of_nat (length s + 1)" line] False
      by (simp only: store_string_def Let_def need remain_holds [OF h v] take) auto
  qed
qed

lemma Serialize_var_result:
  assumes h: "holds buf bs" and v: "asks_enough v"
  shows "\<exists>line buf'. Serialize_var v buf = Inr (room_for v \<le> sizeof_bytes - length bs, line, buf') \<and>
    holds buf' (bs @ (if room_for v \<le> sizeof_bytes - length bs then encoded v else []))"
proof (cases v)
  case (ConstVar x)
  have le: "length bs \<le> sizeof_bytes" using h by (simp add: holds_def)
  have r: "remain buf < of_nat (length x + 4) \<longleftrightarrow> sizeof_bytes - length bs < length x + 4" using v ConstVar by (intro remain_holds [OF h]) simp
  show ?thesis
  proof (cases "sizeof_bytes - length bs < length x + 4")
    case True
    then show ?thesis using h ConstVar by (simp only: ConstVar Serialize_var.simps Serialize_const_def Let_def r) simp
  next
    case False
    then have "length bs + (4 + length x) \<le> sizeof_bytes" using le by simp
    then show ?thesis using store_tagged [OF h, of x VAR_TYPE_CONST "''Serialize Template T''"] False
      by (simp only: ConstVar Serialize_var.simps Serialize_const_def Let_def r) auto
  qed
next
  case (ArrayVar x)
  have le: "length bs \<le> sizeof_bytes" using h by (simp add: holds_def)
  have r: "remain buf < of_nat (length x + 4 + length x) \<longleftrightarrow> sizeof_bytes - length bs < length x + 4 + length x" using v ArrayVar by (intro remain_holds [OF h]) simp
  show ?thesis
  proof (cases "sizeof_bytes - length bs < length x + 4 + length x")
    case True
    then show ?thesis using h by (simp only: ArrayVar Serialize_var.simps Serialize_array_def Let_def r) simp
  next
    case False
    then have "length bs + (8 + length x) \<le> sizeof_bytes" using le v ArrayVar by auto
    then show ?thesis using store_sized [OF h, of x VAR_TYPE_STR "of_nat (length x)" "''Serialize Template nontype param: const char[N]''"] False
      by (simp only: ArrayVar Serialize_var.simps Serialize_array_def Let_def r) auto
  qed
next
  case (ConstCharPtr s)
  then have "13 + length s < 2 ^ 32" using v by simp
  then show ?thesis using store_string_result [OF h] ConstCharPtr
    by (simp only: Serialize_var.simps Serialize_const_char_ptr_def room_for.simps encoded.simps) blast
next
  case (CharPtr s)
  then have "13 + length s < 2 ^ 32" using v by simp
  then show ?thesis using store_string_result [OF h] CharPtr
    by (simp only: Serialize_var.simps Serialize_char_ptr_def room_for.simps encoded.simps) blast
qed

lemma vars_stored:
  assumes "holds buf bs" "list_all asks_enough vs"
  shows "\<exists>lines buf'. SerializeVars vs buf = Inr (all_stored vs (length bs), lines, buf') \<and> holds buf' (bs @ stored vs (length bs))"
  using assms
proof (induction vs arbitrary: buf bs)
  case (Cons v vs)
  obtain line b1 where b1: "Serialize_var v buf = Inr (room_for v \<le> sizeof_bytes - length bs, line, b1)"
    "holds b1 (bs @ (if room_for v \<le> sizeof_bytes - length bs then encoded v else []))"
    using Serialize_var_result [OF Cons.prems(1), of v] Cons.prems(2) by (simp only: list.pred_inject(2)) blast
  show ?case
  proof (cases "room_for v \<le> sizeof_bytes - length bs")
    case True
    then have "holds b1 (bs @ encoded v)" using b1(2) by simp
    then show ?thesis using Cons.IH [of b1 "bs @ encoded v"] Cons.prems(2) b1(1) True by auto
  next
    case False
    then show ?thesis using b1 by simp
  qed
qed simp

text \<open>
  C36. Values whose arrays have at least four characters: they are stored one behind the other, each with its tag and its size, until one does not find the room it
  asks for; the result tells whether all were stored, and nothing is written outside of the buffer.
\<close>

theorem SerializeVars_stores:
  assumes "holds buf bs" "list_all asks_enough vs"
  shows "\<exists>lines buf'. SerializeVars vs buf = Inr (all_stored vs (length bs), lines, buf') \<and> holds buf' (bs @ stored vs (length bs))"
  using assms by (rule vars_stored)

lemma empty_holds: "holds empty_buf []"
  by (simp add: holds_def empty_buf_def)

theorem SerializeVars_stores_witness:
  "\<exists>lines buf. SerializeVars [ConstVar (bytes32 7), CharPtr ''bar'', ArrayVar (replicate 600 65)] empty_buf = Inr (False, lines, buf) \<and>
    holds buf [0, 0, 0, 0, 7, 0, 0, 0, 1, 0, 0, 0, 4, 0, 0, 0, 98, 97, 114, 0]"
  using SerializeVars_stores [OF empty_holds, of "[ConstVar (bytes32 7), CharPtr ''bar'', ArrayVar (replicate 600 65)]"]
  by (simp add: sizeof_bytes_def bytes32_def VAR_TYPE_CONST_def VAR_TYPE_STR_def str_bytes_def)

text \<open>An array of two characters and its null asks for ten bytes and stores eleven.\<close>

lemma append_overflows: "holds buf bs \<Longrightarrow> sizeof_bytes < length bs + length xs \<Longrightarrow> append_bytes xs buf = Inl HeapOverflow"
  by (simp add: append_bytes_def write_range_def holds_def unat_of_nat_u32 sizeof_bytes_def)

lemma short_array_overflows:
  assumes h: "holds buf bs" and "length bs = 1014" "length v = 3"
  shows "Serialize_array v buf = Inl HeapOverflow"
proof -
  have r: "\<not> remain buf < of_nat (length v + 4 + length v)" using remain_holds [OF h, of "length v + 4 + length v"] assms by (simp add: sizeof_bytes_def)
  obtain b1 where b1: "append_bytes (bytes32 VAR_TYPE_STR) buf = Inr b1" "holds b1 (bs @ bytes32 VAR_TYPE_STR)"
    using append_bytes_holds [OF h, of "bytes32 VAR_TYPE_STR"] assms by (auto simp: sizeof_bytes_def)
  obtain b2 where b2: "append_bytes (bytes32 (of_nat (length v))) b1 = Inr b2" "holds b2 ((bs @ bytes32 VAR_TYPE_STR) @ bytes32 (of_nat (length v)))"
    using append_bytes_holds [OF b1(2), of "bytes32 (of_nat (length v))"] assms by (auto simp: sizeof_bytes_def)
  have "append_bytes v b2 = Inl HeapOverflow" by (rule append_overflows [OF b2(2)]) (simp add: assms sizeof_bytes_def)
  then show ?thesis using r b1(1) b2(1) by (simp only: Serialize_array_def Let_def if_False rbind.simps)
qed

lemma main_stores: "\<exists>lines buf. serialize_main = Inr (True, lines, buf) \<and> bb_pos buf = 66"
  using vars_stored [OF empty_holds, of "[ConstVar (bytes32 1), ConstVar [2, 0, 0, 0, 0, 0, 0, 0], ConstVar (bytes32 0x4048F5C3), ArrayVar (str_bytes ''hello'' @ [0]),
        ConstCharPtr ''foo'', CharPtr ''bar'']"]
  by (auto simp: serialize_main_def sizeof_bytes_def str_bytes_def holds_def)

end
