(* ===== verification/Animation.thy ===== *)
theory Animation
  imports Prelude "HOL-Library.Signed_Division"
begin

text \<open>
  The terminal samples of src/use/c/use_ansi_escape_code/example that draw a message, case06_show_msg (in the middle of the window) and
  case07_animation_msg (moving and bouncing off the edges of the window).

  The terminal is the text that is sent to it. The size of the window, the clock and the random numbers are arguments. The fields of 16
  bits are integers, cut to 16 bits (\<open>to_i16\<close>, \<open>to_u16\<close>) wherever the program stores one. The signal that the window
  has another size is handled between two rounds; one that arrives inside \<open>on_update\<close> is not modelled.
\<close>

definition to_i16 :: "int \<Rightarrow> int" where "to_i16 k = sint (word_of_int k :: u16)"
definition to_u16 :: "int \<Rightarrow> int" where "to_u16 k = uint (word_of_int k :: u16)"

lemma to_i16_small: "- 32768 \<le> k \<Longrightarrow> k < 32768 \<Longrightarrow> to_i16 k = k"
  by (simp add: to_i16_def signed_of_int signed_take_bit_int_eq_self)

lemma to_u16_small: "0 \<le> k \<Longrightarrow> k < 65536 \<Longrightarrow> to_u16 k = k"
  by (simp add: to_u16_def unsigned_of_int take_bit_int_eq_self)

section \<open>Escape sequences\<close>

definition ANSI_CSI :: string where "ANSI_CSI = CHR 0x1B # ''[''"
definition ANSI_ALTER_BUF_ON :: string where "ANSI_ALTER_BUF_ON = ANSI_CSI @ ''?1049h''"
definition ANSI_ALTER_BUF_OFF :: string where "ANSI_ALTER_BUF_OFF = ANSI_CSI @ ''?1049l''"
definition ANSI_CURSOR_ON :: string where "ANSI_CURSOR_ON = ANSI_CSI @ ''?25h''"
definition ANSI_CURSOR_OFF :: string where "ANSI_CURSOR_OFF = ANSI_CSI @ ''?25l''"
definition ANSI_CLEAN_SCREEN :: string where "ANSI_CLEAN_SCREEN = ANSI_CSI @ ''2J''"
definition ANSI_COLOR_RGB :: string where "ANSI_COLOR_RGB = ANSI_CSI @ ''38;2;''"

definition anim_cleanup :: string where
  "anim_cleanup = ANSI_CLEAN_SCREEN @ ANSI_ALTER_BUF_OFF @ ANSI_CURSOR_ON"

text \<open>The arguments are promoted to \<open>int\<close> and printed as unsigned numbers.\<close>

definition move_to :: "int \<Rightarrow> int \<Rightarrow> string" where
  "move_to row col = ANSI_CSI @ dec (nat (row mod 2 ^ 32)) @ '';'' @ dec (nat (col mod 2 ^ 32)) @ ''H''"

definition hello_msg :: string where "hello_msg = ''hello world''"

section \<open>Case 6\<close>

definition show_on_render :: "int \<Rightarrow> int \<Rightarrow> string" where
  "show_on_render win_col win_row =
     (let r = to_u16 (win_row div 2); c = to_u16 (win_col div 2 - int (length hello_msg div 2)) in
      ANSI_CLEAN_SCREEN @ move_to (to_i16 r) (to_i16 c) @ hello_msg)"

section \<open>Case 7\<close>

record anim =
  win_col :: int
  win_row :: int
  velocity_y :: int
  velocity_x :: int
  pos_y :: int
  pos_x :: int
  rhythm :: int
  msg :: string
  len :: int
  ts :: "int \<times> int"
  rand_calls :: nat
  screen :: string

definition on_win_resize :: "int \<Rightarrow> int \<Rightarrow> anim \<Rightarrow> anim" where
  "on_win_resize ws_col ws_row g = g\<lparr>win_col := ws_col, win_row := ws_row\<rparr>"

definition update_color :: "(nat \<Rightarrow> nat) \<Rightarrow> anim \<Rightarrow> anim" where
  "update_color rnd g =
     (let k = rand_calls g in
      g\<lparr>rand_calls := k + 3,
        screen := screen g @ ANSI_COLOR_RGB @ dec (rnd k mod 256) @ '';'' @ dec (rnd (k + 1) mod 256) @ '';'' @ dec (rnd (k + 2) mod 256) @ ''m''\<rparr>)"

definition elapsed_since :: "int \<times> int \<Rightarrow> int \<times> int \<Rightarrow> int" where
  "elapsed_since before now = ((fst now - fst before) * 1000 + snd now sdiv 1000000 - snd before sdiv 1000000) mod 2 ^ 64"

definition bounce_y :: "(nat \<Rightarrow> nat) \<Rightarrow> anim \<Rightarrow> anim" where
  "bounce_y rnd g =
     (if pos_y g \<ge> win_row g then update_color rnd (g\<lparr>pos_y := to_i16 (win_row g), velocity_y := to_i16 (- velocity_y g)\<rparr>)
      else if pos_y g \<le> 1 then update_color rnd (g\<lparr>pos_y := 1, velocity_y := to_i16 (- velocity_y g)\<rparr>)
      else g)"

definition bounce_x :: "(nat \<Rightarrow> nat) \<Rightarrow> anim \<Rightarrow> anim" where
  "bounce_x rnd g =
     (if pos_x g + len g \<ge> win_col g then update_color rnd (g\<lparr>pos_x := to_i16 (win_col g - len g), velocity_x := to_i16 (- velocity_x g)\<rparr>)
      else if pos_x g \<le> 1 then update_color rnd (g\<lparr>pos_x := 1, velocity_x := to_i16 (- velocity_x g)\<rparr>)
      else g)"

definition on_update :: "(nat \<Rightarrow> nat) \<Rightarrow> int \<times> int \<Rightarrow> anim \<Rightarrow> anim" where
  "on_update rnd now g =
     (let elapsed_ms = elapsed_since (ts g) now in
      if elapsed_ms < rhythm g then g
      else
        let g = g\<lparr>ts := now\<rparr>;
            offset_y = to_i16 ((elapsed_ms div rhythm g) * velocity_y g);
            offset_x = to_i16 ((elapsed_ms div rhythm g) * velocity_x g);
            g = g\<lparr>pos_y := to_i16 (pos_y g + offset_y), pos_x := to_i16 (pos_x g + offset_x)\<rparr> in
        bounce_x rnd (bounce_y rnd g))"

definition on_render :: "anim \<Rightarrow> anim" where
  "on_render g =
     g\<lparr>screen := screen g @ ANSI_CLEAN_SCREEN @ move_to (pos_y g) (pos_x g) @ msg g @ move_to (to_i16 (win_row g)) 0 @
        ''col='' @ deci (pos_x g) @ '', row='' @ deci (pos_y g)\<rparr>"

text \<open>How long a round of the loop sleeps, from the two readings of the clock.\<close>

definition sleep_ms :: "int \<times> int \<Rightarrow> int \<times> int \<Rightarrow> int" where
  "sleep_ms ts1 ts2 =
     (let elapsed_ms = (((fst ts2 - fst ts1) * 1000000 + snd ts2 sdiv 1000 - snd ts1 sdiv 1000) sdiv 1000) mod 2 ^ 64 in
      if elapsed_ms < 16 then 16 - elapsed_ms else 0)"

text \<open>\<open>main\<close> up to the loop; without a terminal the size of the window can be 0.\<close>

definition anim_start :: "(nat \<Rightarrow> nat) \<Rightarrow> int \<Rightarrow> int \<Rightarrow> int \<times> int \<Rightarrow> anim result" where
  "anim_start rnd ws_col ws_row now =
     (if ws_col = 0 \<or> ws_row = 0 then Inl DivByZero
      else Inr \<lparr>win_col = ws_col, win_row = ws_row,
        velocity_y = (if rnd 3 mod 2 = 0 then -1 else 1), velocity_x = (if rnd 2 mod 2 = 0 then -1 else 1),
        pos_y = to_i16 (int (rnd 1) mod ws_row), pos_x = to_i16 (int (rnd 0) mod ws_col),
        rhythm = 100, msg = hello_msg, len = int (length hello_msg), ts = now, rand_calls = 4,
        screen = ANSI_ALTER_BUF_ON @ ANSI_CLEAN_SCREEN @ ANSI_CURSOR_OFF\<rparr>)"

text \<open>A signal ends the program, which leaves the terminal as it was.\<close>

definition cleanup_die :: "anim \<Rightarrow> nat \<times> string" where
  "cleanup_die g = (1, screen g @ anim_cleanup)"

text \<open>What happens to the running program: a round of the loop, or the signal that the window has another size.\<close>

datatype anim_ev = Round "int \<times> int" | Resize int int

fun anim_step :: "(nat \<Rightarrow> nat) \<Rightarrow> anim_ev \<Rightarrow> anim \<Rightarrow> anim" where
  "anim_step rnd (Round now) g = on_render (on_update rnd now g)"
| "anim_step rnd (Resize c r) g = on_win_resize c r g"

definition anim_run :: "(nat \<Rightarrow> nat) \<Rightarrow> anim_ev list \<Rightarrow> anim \<Rightarrow> anim" where
  "anim_run rnd es g = fold (anim_step rnd) es g"

section \<open>The message stays in the window\<close>

definition wide :: "int \<Rightarrow> int \<Rightarrow> bool" where
  "wide c r \<longleftrightarrow> 12 \<le> c \<and> c < 32768 \<and> 1 \<le> r \<and> r < 32768"

fun wide_ev :: "anim_ev \<Rightarrow> bool" where
  "wide_ev (Resize c r) = wide c r"
| "wide_ev (Round _) = True"

definition inside :: "anim \<Rightarrow> bool" where
  "inside g \<longleftrightarrow> 1 \<le> pos_y g \<and> pos_y g \<le> win_row g \<and> 1 \<le> pos_x g \<and> pos_x g + len g \<le> win_col g"

definition anim_inv :: "anim \<Rightarrow> bool" where
  "anim_inv g \<longleftrightarrow> velocity_y g \<in> {-1, 1} \<and> velocity_x g \<in> {-1, 1} \<and> wide (win_col g) (win_row g) \<and> msg g = hello_msg \<and> len g = 11 \<and> rhythm g = 100"

lemma update_color_fields [simp]:
  "win_col (update_color rnd g) = win_col g" "win_row (update_color rnd g) = win_row g" "velocity_y (update_color rnd g) = velocity_y g"
  "velocity_x (update_color rnd g) = velocity_x g" "pos_y (update_color rnd g) = pos_y g" "pos_x (update_color rnd g) = pos_x g"
  "rhythm (update_color rnd g) = rhythm g" "msg (update_color rnd g) = msg g" "len (update_color rnd g) = len g" "ts (update_color rnd g) = ts g"
  by (simp_all add: update_color_def Let_def)

lemma flip: "v \<in> {-1, 1} \<Longrightarrow> to_i16 (- v) \<in> {-1, 1}"
  by (auto simp: to_i16_small)

lemma bounce_inv:
  assumes "anim_inv g"
  shows "anim_inv (bounce_x rnd (bounce_y rnd g))" "inside (bounce_x rnd (bounce_y rnd g))"
proof -
  have y: "anim_inv (bounce_y rnd g)" using assms flip by (auto simp: anim_inv_def bounce_y_def)
  then show "anim_inv (bounce_x rnd (bounce_y rnd g))" using flip by (auto simp: anim_inv_def bounce_x_def)
  have "1 \<le> pos_y (bounce_y rnd g) \<and> pos_y (bounce_y rnd g) \<le> win_row g" "win_row (bounce_y rnd g) = win_row g"
    using assms by (auto simp: anim_inv_def wide_def bounce_y_def to_i16_small)
  moreover have "pos_y (bounce_x rnd g') = pos_y g'" "win_row (bounce_x rnd g') = win_row g'" for g' by (auto simp: bounce_x_def)
  moreover have "1 \<le> pos_x (bounce_x rnd g') \<and> pos_x (bounce_x rnd g') + len (bounce_x rnd g') \<le> win_col (bounce_x rnd g')" if "anim_inv g'" for g'
    using that by (auto simp: anim_inv_def wide_def bounce_x_def to_i16_small)
  ultimately show "inside (bounce_x rnd (bounce_y rnd g))" using y by (simp add: inside_def)
qed

definition is_due :: "int \<times> int \<Rightarrow> anim \<Rightarrow> bool" where
  "is_due now g \<longleftrightarrow> rhythm g \<le> elapsed_since (ts g) now"

lemma on_update_inv:
  assumes "anim_inv g"
  shows "anim_inv (on_update rnd now g)" "is_due now g \<Longrightarrow> inside (on_update rnd now g)" "\<not> is_due now g \<Longrightarrow> on_update rnd now g = g"
proof -
  have "anim_inv (g\<lparr>ts := now, pos_y := y, pos_x := x\<rparr>)" for x y using assms by (simp add: anim_inv_def)
  then show "anim_inv (on_update rnd now g)" "is_due now g \<Longrightarrow> inside (on_update rnd now g)" "\<not> is_due now g \<Longrightarrow> on_update rnd now g = g"
    using assms bounce_inv by (auto simp: on_update_def Let_def is_due_def)
qed

lemma on_render_fields [simp]: "anim_inv (on_render g) = anim_inv g" "inside (on_render g) = inside g"
  by (simp_all add: on_render_def anim_inv_def inside_def)

lemma anim_step_inv: "anim_inv g \<Longrightarrow> wide_ev e \<Longrightarrow> anim_inv (anim_step rnd e g)"
  by (cases e) (auto simp: on_update_inv, auto simp: anim_inv_def on_win_resize_def)

lemma anim_run_inv: "anim_inv g \<Longrightarrow> list_all wide_ev es \<Longrightarrow> anim_inv (anim_run rnd es g)"
  unfolding anim_run_def by (induction es arbitrary: g) (simp_all add: anim_step_inv)

lemma anim_start_inv: "anim_start rnd c r now = Inr g \<Longrightarrow> wide c r \<Longrightarrow> anim_inv g"
  by (auto simp: anim_start_def anim_inv_def hello_msg_def split: if_splits)

text \<open>The message is never left of or above the window, and where a round moves it when nothing wraps around.\<close>

definition placed :: "anim \<Rightarrow> bool" where
  "placed g \<longleftrightarrow> anim_inv g \<and> 0 \<le> pos_y g \<and> 0 \<le> pos_x g"

lemma placed_step: "placed g \<Longrightarrow> wide_ev e \<Longrightarrow> placed (anim_step rnd e g)"
proof (cases e)
  case (Round now)
  assume g: "placed g"
  have "placed (on_update rnd now g)"
    using g on_update_inv [where g = g and now = now and rnd = rnd] by (cases "is_due now g") (auto simp: placed_def inside_def)
  then show ?thesis using Round by (simp add: placed_def on_render_def anim_inv_def)
qed (auto simp: placed_def anim_inv_def on_win_resize_def)

lemma placed_run: "placed g \<Longrightarrow> list_all wide_ev es \<Longrightarrow> placed (anim_run rnd es g)"
  unfolding anim_run_def by (induction es arbitrary: g) (simp_all add: placed_step)

lemma placed_start: "anim_start rnd c r now = Inr g \<Longrightarrow> wide c r \<Longrightarrow> placed g"
  using anim_start_inv [of rnd c r now g]
proof -
  assume s: "anim_start rnd c r now = Inr g" and w: "wide c r"
  have "to_i16 (int k mod n) = int k mod n \<and> 0 \<le> int k mod n" if "1 \<le> n" "n < 32768" for k n
  proof -
    have "0 \<le> int k mod n" "int k mod n < n" using that(1) by simp_all
    then show ?thesis using that(2) to_i16_small [of "int k mod n"] by linarith
  qed
  then show "placed g" using s w anim_start_inv [OF s w] by (auto simp: placed_def anim_start_def wide_def split: if_splits)
qed

lemma bounce_fields:
  assumes "wide (win_col g) (win_row g)" "len g = 11" "velocity_y g \<in> {-1, 1}" "velocity_x g \<in> {-1, 1}"
  shows "pos_y (bounce_x rnd (bounce_y rnd g)) = max 1 (min (win_row g) (pos_y g))"
    "pos_x (bounce_x rnd (bounce_y rnd g)) = max 1 (min (win_col g - 11) (pos_x g))"
    "velocity_y (bounce_x rnd (bounce_y rnd g)) = (if 1 < pos_y g \<and> pos_y g < win_row g then velocity_y g else - velocity_y g)"
    "velocity_x (bounce_x rnd (bounce_y rnd g)) = (if 1 < pos_x g \<and> pos_x g < win_col g - 11 then velocity_x g else - velocity_x g)"
  using assms by (auto simp: bounce_x_def bounce_y_def wide_def to_i16_small)

lemma on_update_moves:
  assumes "placed g" "is_due now g" "k = elapsed_since (ts g) now div 100" "pos_y g + k < 32768" "pos_x g + k < 32768"
  shows "pos_y (on_update rnd now g) = max 1 (min (win_row g) (pos_y g + k * velocity_y g))"
    "pos_x (on_update rnd now g) = max 1 (min (win_col g - 11) (pos_x g + k * velocity_x g))"
    "velocity_y (on_update rnd now g) = (if 1 < pos_y g + k * velocity_y g \<and> pos_y g + k * velocity_y g < win_row g then velocity_y g else - velocity_y g)"
    "velocity_x (on_update rnd now g) = (if 1 < pos_x g + k * velocity_x g \<and> pos_x g + k * velocity_x g < win_col g - 11 then velocity_x g else - velocity_x g)"
proof -
  have inv: "velocity_y g \<in> {-1, 1}" "velocity_x g \<in> {-1, 1}" "wide (win_col g) (win_row g)" "len g = 11" "rhythm g = 100" "0 \<le> pos_y g" "0 \<le> pos_x g"
    using assms(1) by (simp_all add: placed_def anim_inv_def)
  have k: "0 \<le> k" "k < 32768" using assms(3,4) inv(6) by (simp_all add: elapsed_since_def)
  let ?g = "g\<lparr>ts := now, pos_y := pos_y g + k * velocity_y g, pos_x := pos_x g + k * velocity_x g\<rparr>"
  have "to_i16 (k * velocity_y g) = k * velocity_y g" "to_i16 (k * velocity_x g) = k * velocity_x g"
    "to_i16 (pos_y g + k * velocity_y g) = pos_y g + k * velocity_y g" "to_i16 (pos_x g + k * velocity_x g) = pos_x g + k * velocity_x g"
    using inv(1,2,6,7) k assms(4,5) by (auto simp: to_i16_small)
  then have "on_update rnd now g = bounce_x rnd (bounce_y rnd ?g)"
    using assms(2,3) inv(5) by (simp add: on_update_def is_due_def Let_def)
  then show "pos_y (on_update rnd now g) = max 1 (min (win_row g) (pos_y g + k * velocity_y g))"
    "pos_x (on_update rnd now g) = max 1 (min (win_col g - 11) (pos_x g + k * velocity_x g))"
    "velocity_y (on_update rnd now g) = (if 1 < pos_y g + k * velocity_y g \<and> pos_y g + k * velocity_y g < win_row g then velocity_y g else - velocity_y g)"
    "velocity_x (on_update rnd now g) = (if 1 < pos_x g + k * velocity_x g \<and> pos_x g + k * velocity_x g < win_col g - 11 then velocity_x g else - velocity_x g)"
    using bounce_fields [of ?g rnd] inv by simp_all
qed

text \<open>
  C35. In windows of at least twelve columns, however their size changes between the rounds and whatever the clock shows (even when it is set back):
  a round in which less than 100 milliseconds have passed since the last move leaves the message where it is. In any other round the message ends
  wholly inside the window. With \<open>k\<close> the number of full 100 milliseconds that have passed, and unless the position would leave the range of
  16 bits, it has moved by \<open>k\<close> rows and \<open>k\<close> columns in its directions, stopped at the edges of the window, and turns round in
  exactly the directions in which it has reached an edge.
\<close>

theorem message_moves_inside:
  assumes "anim_start rnd c r t0 = Inr g" "wide c r" "list_all wide_ev es"
    and "g0 = anim_run rnd es g" "g1 = anim_run rnd (es @ [Round now]) g" "k = elapsed_since (ts g0) now div 100"
    and "y = pos_y g0 + k * velocity_y g0" "x = pos_x g0 + k * velocity_x g0"
  shows "velocity_y g0 \<in> {-1, 1} \<and> velocity_x g0 \<in> {-1, 1} \<and> 0 \<le> k \<and>
    (if k = 0 then pos_y g1 = pos_y g0 \<and> pos_x g1 = pos_x g0 \<and> velocity_y g1 = velocity_y g0 \<and> velocity_x g1 = velocity_x g0
     else inside g1 \<and>
       (pos_y g0 + k < 32768 \<and> pos_x g0 + k < 32768 \<longrightarrow>
          pos_y g1 = max 1 (min (win_row g0) y) \<and> pos_x g1 = max 1 (min (win_col g0 - 11) x) \<and>
          velocity_y g1 = (if 1 < y \<and> y < win_row g0 then velocity_y g0 else - velocity_y g0) \<and>
          velocity_x g1 = (if 1 < x \<and> x < win_col g0 - 11 then velocity_x g0 else - velocity_x g0)))"
proof -
  have p: "placed g0" using placed_run [OF placed_start [OF assms(1,2)] assms(3)] assms(4) by simp
  then have inv: "anim_inv g0" "velocity_y g0 \<in> {-1, 1}" "velocity_x g0 \<in> {-1, 1}" "rhythm g0 = 100" by (simp_all add: placed_def anim_inv_def)
  have k: "0 \<le> k" "k \<noteq> 0 \<longleftrightarrow> is_due now g0" using inv(4) assms(6) by (auto simp: is_due_def elapsed_since_def)
  have g1: "g1 = on_render (on_update rnd now g0)" using assms(4,5) by (simp add: anim_run_def)
  have f: "pos_y g1 = pos_y (on_update rnd now g0)" "pos_x g1 = pos_x (on_update rnd now g0)" "inside g1 = inside (on_update rnd now g0)"
    "velocity_y g1 = velocity_y (on_update rnd now g0)" "velocity_x g1 = velocity_x (on_update rnd now g0)"
    by (simp_all add: g1, simp_all add: on_render_def)
  show ?thesis
  proof (cases "k = 0")
    case True
    then show ?thesis using k inv(2,3) f on_update_inv(3) [OF inv(1), of now rnd] by simp
  next
    case False
    then show ?thesis using k inv(2,3) f on_update_inv(2) [OF inv(1), of now rnd] on_update_moves [OF p _ assms(6), of rnd] assms(7,8) by simp
  qed
qed

text \<open>The program sleeps at most 16 milliseconds in a round.\<close>

lemma sleep_short: "0 \<le> sleep_ms t1 t2" "sleep_ms t1 t2 \<le> 16"
  by (simp_all add: sleep_ms_def Let_def)

text \<open>The message of case 6 is in the middle: the columns on its left and right differ by at most two.\<close>

lemma show_centered:
  assumes "12 \<le> c" "c < 32768" "2 \<le> r" "r < 32768"
  shows "\<exists>row col. show_on_render c r = ANSI_CLEAN_SCREEN @ move_to row col @ hello_msg \<and> 1 \<le> row \<and> row \<le> r \<and> 1 \<le> col \<and>
    col + int (length hello_msg) \<le> c + 1 \<and> \<bar>(col - 1) - (c - (col - 1) - int (length hello_msg))\<bar> \<le> 2"
proof -
  let ?row = "r div 2" and ?col = "c div 2 - 5"
  have "show_on_render c r = ANSI_CLEAN_SCREEN @ move_to ?row ?col @ hello_msg"
    using assms by (simp add: show_on_render_def hello_msg_def to_u16_small to_i16_small)
  moreover have "1 \<le> ?row" "?row \<le> r" "1 \<le> ?col" "?col + 11 \<le> c + 1" "\<bar>(?col - 1) - (c - (?col - 1) - 11)\<bar> \<le> 2" using assms by arith+
  ultimately show ?thesis by (intro exI [of _ ?row] exI [of _ ?col]) (simp add: hello_msg_def)
qed

text \<open>In a window that is too narrow the column wraps around and is sent as a huge number.\<close>

lemma narrow_column: "show_on_render 8 24 = ANSI_CLEAN_SCREEN @ ANSI_CSI @ ''12;4294967295H'' @ hello_msg"
  by (simp add: show_on_render_def hello_msg_def to_u16_def to_i16_def move_to_def dec.simps char_of_def bit_0)

theorem message_moves_inside_witness:
  "\<exists>g g1. anim_start (\<lambda>k. 3 * k) 80 24 (0, 0) = Inr g \<and> (pos_y g, pos_x g) = (3, 0) \<and>
     g1 = anim_run (\<lambda>k. 3 * k) ([Round (0, 50000000), Resize 40 10] @ [Round (0, 600000000)]) g \<and> inside g1 \<and>
     (pos_y g1, pos_x g1, velocity_y g1, velocity_x g1) = (9, 1, 1, 1)"
proof -
  define g where "g = \<lparr>win_col = 80, win_row = 24, velocity_y = 1, velocity_x = -1, pos_y = 3, pos_x = 0, rhythm = 100, msg = hello_msg, len = 11, ts = (0, 0),
     rand_calls = 4, screen = ANSI_ALTER_BUF_ON @ ANSI_CLEAN_SCREEN @ ANSI_CURSOR_OFF\<rparr>"
  let ?es = "[Round (0, 50000000), Resize 40 10]"
  have start: "anim_start (\<lambda>k. 3 * k) 80 24 (0, 0) = Inr g" by (simp add: anim_start_def g_def hello_msg_def to_i16_small)
  have g0: "pos_y (anim_run (\<lambda>k. 3 * k) ?es g) = 3" "pos_x (anim_run (\<lambda>k. 3 * k) ?es g) = 0" "win_row (anim_run (\<lambda>k. 3 * k) ?es g) = 10"
    "win_col (anim_run (\<lambda>k. 3 * k) ?es g) = 40" "velocity_y (anim_run (\<lambda>k. 3 * k) ?es g) = 1" "velocity_x (anim_run (\<lambda>k. 3 * k) ?es g) = -1"
    "ts (anim_run (\<lambda>k. 3 * k) ?es g) = (0, 0)"
    by (simp_all add: anim_run_def on_update_def on_render_def on_win_resize_def elapsed_since_def g_def signed_divide_int_def sgn_if)
  have k: "6 = elapsed_since (ts (anim_run (\<lambda>k. 3 * k) ?es g)) (0, 600000000) div 100" by (simp add: g0 elapsed_since_def signed_divide_int_def sgn_if)
  from message_moves_inside [OF start _ _ refl refl k refl refl] g0 start
  have "inside (anim_run (\<lambda>k. 3 * k) (?es @ [Round (0, 600000000)]) g) \<and> pos_y (anim_run (\<lambda>k. 3 * k) (?es @ [Round (0, 600000000)]) g) = 9 \<and>
    pos_x (anim_run (\<lambda>k. 3 * k) (?es @ [Round (0, 600000000)]) g) = 1 \<and> velocity_y (anim_run (\<lambda>k. 3 * k) (?es @ [Round (0, 600000000)]) g) = 1 \<and>
    velocity_x (anim_run (\<lambda>k. 3 * k) (?es @ [Round (0, 600000000)]) g) = 1" by (simp add: wide_def)
  moreover have "(pos_y g, pos_x g) = (3, 0)" by (simp add: g_def)
  ultimately show ?thesis using start by blast
qed

end
