(* ===== verification/DaoMapper.thy ===== *)
theory DaoMapper
  imports Prelude "HOL-Library.Multiset"
begin

text \<open>
  The data mapper of src/use/c/use_mysqlclient/example/example10_dao_mapper (the sample for MariaDB is the same code): users are inserted into a table and
  queried by name through prepared statements (mapper_user.c), and the program that uses it (main.c).

  The database with its client library is a record of functions. A row that is inserted has the name by its bytes, the age and the time; a row that is found
  has an id as well. What the program holds of the library is tracked by the list of handles that are open.
\<close>

text \<open>
  The fields of a time that the program sets and prints. Its initialisers clear the others, the fraction of a second, the sign and the kind of the time,
  so that the times it sends are whole seconds, which a column of type \<open>DATETIME\<close> keeps as they are.
\<close>

record mysql_time =
  t_year :: int
  t_month :: int
  t_day :: int
  t_hour :: int
  t_minute :: int
  t_second :: int

record dao_user =
  du_id :: nat
  du_name :: bytes           \<comment> \<open>the array of 32 characters\<close>
  du_age :: int
  du_ts :: mysql_time

type_synonym dao_row = "bytes \<times> int \<times> mysql_time"
type_synonym found_row = "nat \<times> dao_row"

datatype sql_handle = Con | Stmt

record sql_args =
  sa_host :: string
  sa_port :: nat
  sa_user :: string
  sa_passwd :: string

text \<open>
  The calls of the library: whether those succeed that can only fail, and what the others do to the database. \<open>sq_alloc\<close> is the call of
  \<open>malloc\<close>. None is a statement that fails.
\<close>

record 'd sql =
  sq_con :: bool
  sq_connect :: "sql_args \<Rightarrow> bool"
  sq_exec :: "string \<Rightarrow> 'd \<Rightarrow> 'd option"
  sq_stmt_init :: bool
  sq_prepare :: bool
  sq_bind_param :: bool
  sq_bind_result :: bool
  sq_store_result :: bool
  sq_alloc :: "nat \<Rightarrow> bool"
  sq_insert :: "dao_row \<Rightarrow> 'd \<Rightarrow> 'd option"
  sq_select :: "bytes \<Rightarrow> 'd \<Rightarrow> found_row list option"

section \<open>The mapper\<close>

definition sizeof_name :: nat where "sizeof_name = 32"

text \<open>\<open>strlen\<close> of a name runs past the array when that has no null.\<close>

definition name_strlen :: "bytes \<Rightarrow> nat result" where
  "name_strlen name = (if 0 \<in> set name then Inr (length (takeWhile (\<lambda>b. b \<noteq> 0) name)) else Inl OutOfBounds)"

definition bound_name :: "bytes \<Rightarrow> bytes result" where
  "bound_name name = rbind (name_strlen name) (\<lambda>name_len. Inr (take (if name_len \<ge> sizeof_name then sizeof_name - 1 else name_len) name))"

text \<open>\<open>PREPARE_STMT\<close>: with the statement the function goes on, without one it returns false.\<close>

definition PREPARE_STMT :: "'d sql \<Rightarrow> (sql_handle list \<Rightarrow> (bool \<times> 'a \<times> sql_handle list) result) \<Rightarrow> 'a \<Rightarrow> sql_handle list \<Rightarrow> (bool \<times> 'a \<times> sql_handle list) result" where
  "PREPARE_STMT S go x held =
     (if \<not> sq_stmt_init S then Inr (False, x, held)
      else if \<not> sq_prepare S then rbind (release Stmt (Stmt # held)) (\<lambda>held. Inr (False, x, held))
      else go (Stmt # held))"

definition CLOSE_STMT :: "bool \<Rightarrow> 'a \<Rightarrow> sql_handle list \<Rightarrow> (bool \<times> 'a \<times> sql_handle list) result" where
  "CLOSE_STMT ret x held = rbind (release Stmt held) (\<lambda>held. Inr (ret, x, held))"

fun insert_rows :: "'d sql \<Rightarrow> dao_user list \<Rightarrow> 'd \<Rightarrow> (bool \<times> 'd) result" where
  "insert_rows S [] d = Inr (True, d)"
| "insert_rows S (u # us) d =
     rbind (bound_name (du_name u)) (\<lambda>name.
     case sq_insert S (name, du_age u, du_ts u) d of None \<Rightarrow> Inr (False, d) | Some d \<Rightarrow> insert_rows S us d)"

definition user_mapper_insert :: "'d sql \<Rightarrow> dao_user list \<Rightarrow> 'd \<Rightarrow> sql_handle list \<Rightarrow> (bool \<times> 'd \<times> sql_handle list) result" where
  "user_mapper_insert S users d held =
     PREPARE_STMT S (\<lambda>held.
       if \<not> sq_bind_param S then CLOSE_STMT False d held
       else rbind (insert_rows S users d) (\<lambda>(ok, d). CLOSE_STMT ok d held)) d held"

text \<open>
  \<open>mysql_stmt_fetch\<close> fills the bound variables; a name longer than its buffer makes it answer \<open>MYSQL_DATA_TRUNCATED\<close>, which ends the loop like any answer but 0.
  An element of the result that was never assigned is None; \<open>junk\<close> is what the rest of a name holds.
\<close>

fun fetch_rows :: "bytes \<Rightarrow> found_row list \<Rightarrow> nat \<Rightarrow> dao_user option list \<Rightarrow> dao_user option list result" where
  "fetch_rows junk [] row users = Inr users"
| "fetch_rows junk ((user_id, user_name, user_age, user_update_ts) # rows) row users =
     (if length user_name > sizeof_name then Inr users
      else if row \<ge> length users then Inl HeapOverflow
      else
        let user_name_len = (if length user_name \<ge> sizeof_name then sizeof_name - 1 else length user_name);
            name = take user_name_len user_name @ [0] @ drop (user_name_len + 1) junk in
        fetch_rows junk rows (row + 1) (users[row := Some \<lparr>du_id = user_id, du_name = name, du_age = user_age, du_ts = user_update_ts\<rparr>]))"

text \<open>The users that were found, or None when the pointer was left alone, and \<open>*rowcnt\<close>. The function returns the address of its parameter, which is true.\<close>

type_synonym query_result = "dao_user option list option \<times> nat"

definition user_mapper_query_by_name :: "'d sql \<Rightarrow> bytes \<Rightarrow> dao_user \<Rightarrow> nat \<Rightarrow> 'd \<Rightarrow> sql_handle list \<Rightarrow> (bool \<times> query_result \<times> sql_handle list) result" where
  "user_mapper_query_by_name S junk user rowcnt d held =
     PREPARE_STMT S (\<lambda>held.
       if \<not> sq_bind_param S then CLOSE_STMT False (None, rowcnt) held
       else
         rbind (bound_name (du_name user)) (\<lambda>name.
         case sq_select S name d of
           None \<Rightarrow> CLOSE_STMT False (None, rowcnt) held
         | Some rows \<Rightarrow>
             if \<not> sq_bind_result S then CLOSE_STMT False (None, rowcnt) held
             else if \<not> sq_store_result S then CLOSE_STMT False (None, rowcnt) held
             else
               let rowcnt = length rows in
               if rowcnt > 0 then
                 if \<not> sq_alloc S rowcnt then CLOSE_STMT False (None, rowcnt) held
                 else rbind (fetch_rows junk rows 0 (replicate rowcnt None)) (\<lambda>users. CLOSE_STMT True (Some users, rowcnt) held)
               else CLOSE_STMT True (None, rowcnt) held)) (None, rowcnt) held"

section \<open>The program\<close>

text \<open>\<open>getopt_long\<close> appears as the options it returns; \<open>str_tou\<close> is \<open>muggle_str_tou\<close>, None when it fails.\<close>

definition sql_parse_opt :: "(string \<Rightarrow> nat option) \<Rightarrow> char \<times> string \<Rightarrow> sql_args \<Rightarrow> sql_args" where
  "sql_parse_opt str_tou opt args =
     (let (c, optarg) = opt in
      if c = CHR ''h'' then args\<lparr>sa_host := strncpy_buf 64 optarg\<rparr>
      else if c = CHR ''u'' then args\<lparr>sa_user := strncpy_buf 32 optarg\<rparr>
      else if c = CHR ''p'' then args\<lparr>sa_passwd := strncpy_buf 32 optarg\<rparr>
      else if c = CHR ''P'' then (case str_tou optarg of Some n \<Rightarrow> args\<lparr>sa_port := n\<rparr> | None \<Rightarrow> args)
      else args)"

definition sql_parse_args :: "(string \<Rightarrow> nat option) \<Rightarrow> (char \<times> string) list \<Rightarrow> sql_args" where
  "sql_parse_args str_tou opts =
     (let args = fold (sql_parse_opt str_tou) opts \<lparr>sa_host = [], sa_port = 0, sa_user = [], sa_passwd = []\<rparr>;
          args = (if sa_host args = [] then args\<lparr>sa_host := ''127.0.0.1''\<rparr> else args) in
      if sa_port args = 0 then args\<lparr>sa_port := 3306\<rparr> else args)"

definition drop_sql :: string where "drop_sql = ''DROP TABLE IF EXISTS users''"
definition create_sql :: string where
  "create_sql = ''CREATE TABLE users (id INT PRIMARY KEY AUTO_INCREMENT,name VARCHAR(64),age INT,update_ts DATETIME) CHARACTER SET utf8mb4 COLLATE utf8mb4_bin''"

definition now_of :: "clock_tm \<Rightarrow> mysql_time" where
  "now_of t = \<lparr>t_year = tm_year t + 1900, t_month = tm_mon t + 1, t_day = tm_mday t, t_hour = tm_hour t, t_minute = tm_min t, t_second = tm_sec t\<rparr>"

definition name32 :: "string \<Rightarrow> bytes" where
  "name32 s = str_bytes s @ replicate (32 - length s) 0"

definition main_users :: "clock_tm \<Rightarrow> dao_user list" where
  "main_users t = map (\<lambda>(name, age). \<lparr>du_id = 0, du_name = name32 name, du_age = age, du_ts = now_of t\<rparr>) [(''foo'', 25), (''bar'', 30), (''baz'', 28)]"

definition result_line :: "dao_user option \<Rightarrow> string result" where
  "result_line u =
     (case u of
        None \<Rightarrow> Inl Uninitialised
      | Some u \<Rightarrow>
          rbind (fmt_str (du_name u)) (\<lambda>name.
          let t = du_ts u in
          Inr (''query result: '' @ dec (du_id u) @ '', '' @ name @ '', '' @ deci (du_age u) @ '', '' @ deci (t_year t) @ ''-'' @ fmt_0d 2 (t_month t) @ ''-'' @
            fmt_0d 2 (t_day t) @ ''T'' @ fmt_0d 2 (t_hour t) @ '':'' @ fmt_0d 2 (t_minute t) @ '':'' @ fmt_0d 2 (t_second t))))"

fun result_lines :: "dao_user option list \<Rightarrow> string list result" where
  "result_lines [] = Inr []"
| "result_lines (u # us) = rbind (result_line u) (\<lambda>l. rbind (result_lines us) (\<lambda>ls. Inr (l # ls)))"

text \<open>The exit status, the lines with the results, the database and what is still open.\<close>

definition dao_main :: "'d sql \<Rightarrow> (string \<Rightarrow> nat option) \<Rightarrow> (char \<times> string) list \<Rightarrow> bytes \<Rightarrow> clock_tm \<Rightarrow> 'd \<Rightarrow> (nat \<times> string list \<times> 'd \<times> sql_handle list) result" where
  "dao_main S str_tou opts junk now d =
     (if \<not> sq_con S then Inr (1, [], d, [])
      else if \<not> sq_connect S (sql_parse_args str_tou opts) then rbind (release Con [Con]) (\<lambda>held. Inr (1, [], d, held))
      else
        case sq_exec S drop_sql d of
          None \<Rightarrow> rbind (release Con [Con]) (\<lambda>held. Inr (1, [], d, held))
        | Some d \<Rightarrow>
            (case sq_exec S create_sql d of
               None \<Rightarrow> rbind (release Con [Con]) (\<lambda>held. Inr (1, [], d, held))
             | Some d \<Rightarrow>
                 rbind (user_mapper_insert S (main_users now) d [Con]) (\<lambda>(ok, d, held).
                 if \<not> ok then Inr (1, [], d, held)
                 else
                   rbind (user_mapper_query_by_name S junk (main_users now ! 1) 0 d held) (\<lambda>(ok, (user, rowcnt), held).
                   if \<not> ok then Inr (1, [], d, held)
                   else
                     rbind (case user of None \<Rightarrow> if rowcnt = 0 then Inr [] else Inl NullDeref | Some us \<Rightarrow> result_lines (take rowcnt us)) (\<lambda>out.
                     rbind (release Con held) (\<lambda>held. Inr (0, out, d, held)))))))"


section \<open>Statements are closed\<close>

lemma closes: "CLOSE_STMT ret x (Stmt # held) = Inr (ret, x, held)"
  by (simp add: CLOSE_STMT_def)

lemma insert_closes: "user_mapper_insert S us d held = Inr (ok, d', held') \<Longrightarrow> held' = held"
  by (auto simp: user_mapper_insert_def PREPARE_STMT_def closes rbind_Inr_iff split: if_splits)

lemma query_closes: "user_mapper_query_by_name S junk u n d held = Inr (ok, r, held') \<Longrightarrow> held' = held"
  by (cases "bound_name (du_name u)"; cases "sq_select S (projr (bound_name (du_name u))) d";
      cases "fetch_rows junk (the (sq_select S (projr (bound_name (du_name u))) d)) 0 (replicate (length (the (sq_select S (projr (bound_name (du_name u))) d))) None)")
    (auto simp: user_mapper_query_by_name_def PREPARE_STMT_def closes Let_def split: if_splits)

lemma main_closes:
  assumes "dao_main S str_tou opts junk now d = Inr (0, out, d', held)"
  shows "held = []"
proof -
  obtain d1 d2 where ex: "sq_exec S drop_sql d = Some d1" "sq_exec S create_sql d1 = Some d2" and up: "sq_con S" "sq_connect S (sql_parse_args str_tou opts)"
    using assms by (auto simp: dao_main_def split: if_splits option.splits)
  obtain d3 h1 where ins: "user_mapper_insert S (main_users now) d2 [Con] = Inr (True, d3, h1)"
    using assms ex up by (auto simp: dao_main_def rbind_Inr_iff split: if_splits)
  obtain r h2 where q: "user_mapper_query_by_name S junk (main_users now ! 1) 0 d3 h1 = Inr (True, r, h2)"
    using assms ex up ins by (auto simp: dao_main_def rbind_Inr_iff split: if_splits)
  have "h2 = [Con]" using insert_closes [OF ins] query_closes [OF q] by simp
  then show ?thesis using assms ex up ins q by (auto simp: dao_main_def rbind_Inr_iff)
qed

section \<open>What was inserted is found\<close>

text \<open>
  What the program relies on: \<open>table\<close> is the contents of the table. An insertion adds its row with a new id; a new table is empty; a query finds
  the rows with the name, in any order, where the comparison of the database disregards spaces at the end.
\<close>

definition unpad :: "bytes \<Rightarrow> bytes" where
  "unpad n = rev (dropWhile (\<lambda>b. b = 32) (rev n))"

definition sql_laws :: "'d sql \<Rightarrow> ('d \<Rightarrow> found_row list) \<Rightarrow> bool" where
  "sql_laws S table \<longleftrightarrow>
     (\<forall>r d d'. sq_insert S r d = Some d' \<longrightarrow> (\<exists>i. i \<notin> fst ` set (table d) \<and> table d' = table d @ [(i, r)])) \<and>
     (\<forall>n d rows. sq_select S n d = Some rows \<longrightarrow> mset rows = mset (filter (\<lambda>r. unpad (fst (snd r)) = unpad n) (table d))) \<and>
     (\<forall>d d'. sq_exec S create_sql d = Some d' \<longrightarrow> table d' = [])"

definition terminated_name :: "dao_user \<Rightarrow> bool" where
  "terminated_name u \<longleftrightarrow> length (du_name u) = sizeof_name \<and> 0 \<in> set (du_name u)"

text \<open>A user as the caller sees it: the name up to its null, the age and the time.\<close>

definition user_view :: "dao_user \<Rightarrow> dao_row" where
  "user_view u = (takeWhile (\<lambda>b. b \<noteq> 0) (du_name u), du_age u, du_ts u)"

definition same_name :: "dao_user \<Rightarrow> dao_user \<Rightarrow> bool" where
  "same_name u v \<longleftrightarrow> unpad (fst (user_view u)) = unpad (fst (user_view v))"

lemma bound_name_view:
  assumes "terminated_name u"
  shows "bound_name (du_name u) = Inr (fst (user_view u))" "length (fst (user_view u)) < sizeof_name" "0 \<notin> set (fst (user_view u))"
proof -
  let ?n = "takeWhile (\<lambda>b. b \<noteq> 0) (du_name u)"
  have "length ?n \<noteq> length (du_name u)" using assms takeWhile_eq_take [of "\<lambda>b. b \<noteq> 0" "du_name u"] set_takeWhileD [of 0 "\<lambda>b. b \<noteq> 0" "du_name u"]
    by (auto simp: terminated_name_def)
  moreover have "length ?n \<le> length (du_name u)" by (rule length_takeWhile_le)
  ultimately have "length ?n < sizeof_name" using assms by (simp add: terminated_name_def)
  moreover have "take (length ?n) (du_name u) = ?n" by (simp flip: takeWhile_eq_take)
  ultimately show "bound_name (du_name u) = Inr (fst (user_view u))" "length (fst (user_view u)) < sizeof_name"
    using assms by (auto simp: bound_name_def name_strlen_def terminated_name_def user_view_def)
  show "0 \<notin> set (fst (user_view u))" by (auto simp: user_view_def dest: set_takeWhileD)
qed

lemma insert_rows_table:
  assumes laws: "sql_laws S table" and "list_all terminated_name us" "insert_rows S us d = Inr (True, d')"
  shows "map snd (table d') = map snd (table d) @ map user_view us"
  using assms(2,3)
proof (induction us arbitrary: d)
  case (Cons u us)
  have u: "terminated_name u" using Cons.prems(1) by simp
  obtain d1 where d1: "sq_insert S (fst (user_view u), du_age u, du_ts u) d = Some d1" "insert_rows S us d1 = Inr (True, d')"
    using Cons.prems(2) by (auto simp: bound_name_view(1) [OF u] split: option.splits)
  obtain i where "table d1 = table d @ [(i, fst (user_view u), du_age u, du_ts u)]" using laws d1(1) unfolding sql_laws_def by blast
  then have "map snd (table d1) = map snd (table d) @ [user_view u]" by (simp add: user_view_def)
  then show ?case using Cons.IH [OF _ d1(2)] Cons.prems(1) by simp
qed simp

text \<open>A row that fits, as the mapper stores it.\<close>

fun user_of :: "bytes \<Rightarrow> found_row \<Rightarrow> dao_user" where
  "user_of junk (i, n, a, t) = \<lparr>du_id = i, du_name = n @ [0] @ drop (length n + 1) junk, du_age = a, du_ts = t\<rparr>"

lemma fetch_rows_all:
  assumes "\<forall>(_, n, _) \<in> set rows. length n < sizeof_name" "length users = row + length rows"
  shows "fetch_rows junk rows row users = Inr (take row users @ map (Some \<circ> user_of junk) rows)"
  using assms
proof (induction rows arbitrary: row users)
  case (Cons r rows)
  obtain i n a t where r: "r = (i, n, a, t)" by (metis prod_cases4)
  have n: "length n < sizeof_name" using Cons.prems(1) r by simp
  have "take (row + 1) (users[row := x]) = take row users @ [x]" for x using Cons.prems(2) by (simp add: take_Suc_conv_app_nth)
  then show ?case using Cons.IH [of "users[row := Some (user_of junk r)]" "row + 1"] Cons.prems n by (simp add: r Let_def)
qed simp

lemma user_of_view: "0 \<notin> set n \<Longrightarrow> user_view (user_of junk (i, n, a, t)) = (n, a, t)"
  by (simp add: user_view_def, subst takeWhile_append2) auto

text \<open>The calls that can only fail do not.\<close>

definition sql_up :: "'d sql \<Rightarrow> bool" where
  "sql_up S \<longleftrightarrow> sq_stmt_init S \<and> sq_prepare S \<and> sq_bind_param S \<and> sq_bind_result S \<and> sq_store_result S \<and> (\<forall>n. sq_alloc S n)"

lemma query_result:
  assumes laws: "sql_laws S table" and up: "sql_up S" and u: "terminated_name u" and us: "list_all terminated_name us"
    and tab: "map snd (table d) = map user_view us" and found: "sq_select S (fst (user_view u)) d \<noteq> None"
  shows "\<exists>res vs. user_mapper_query_by_name S junk u k d held = Inr (True, (res, length vs), held) \<and>
    res = (if vs = [] then None else Some (map Some vs)) \<and> mset (map user_view vs) = mset (map user_view (filter (same_name u) us))"
proof -
  obtain rows where rows: "sq_select S (fst (user_view u)) d = Some rows" using found by blast
  let ?p = "\<lambda>r. unpad (fst (snd r)) = unpad (fst (user_view u))"
  have ms: "mset rows = mset (filter ?p (table d))" using laws rows by (simp add: sql_laws_def)
  have views: "snd r \<in> user_view ` set us" if "r \<in> set rows" for r
  proof -
    have "r \<in> set (table d)" using that mset_eq_setD [OF ms] by auto
    then have "snd r \<in> set (map snd (table d))" by simp
    then show ?thesis unfolding tab by simp
  qed
  have fits: "length n < sizeof_name \<and> 0 \<notin> set n" if r: "(i, n, a, t) \<in> set rows" for i n a t
  proof -
    obtain v where v: "v \<in> set us" "(n, a, t) = user_view v" using views [OF r] by auto
    then have "terminated_name v" using us by (simp add: list_all_iff)
    then show ?thesis using bound_name_view(2,3) [of v] v(2) by (metis fst_conv)
  qed
  let ?vs = "map (user_of junk) rows"
  have fetch: "fetch_rows junk rows 0 (replicate (length rows) None) = Inr (map Some ?vs)"
    using fetch_rows_all [of rows "replicate (length rows) None" 0 junk] fits by fastforce
  have "user_view (user_of junk r) = snd r" if "r \<in> set rows" for r using fits user_of_view that by (cases r) auto
  then have "map user_view ?vs = map snd rows" by simp
  then have "mset (map user_view ?vs) = mset (map snd (filter ?p (table d)))" by (simp only: mset_map [of snd] ms)
  also have "map snd (filter ?p (table d)) = filter (\<lambda>r. unpad (fst r) = unpad (fst (user_view u))) (map snd (table d))"
    by (simp add: filter_map comp_def case_prod_beta)
  also have "\<dots> = map user_view (filter (same_name u) us)"
    unfolding tab by (auto simp: filter_map comp_def case_prod_beta same_name_def intro!: arg_cong [of _ _ "map user_view"] filter_cong)
  finally have "mset (map user_view ?vs) = mset (map user_view (filter (same_name u) us))" .
  moreover have "user_mapper_query_by_name S junk u k d held = Inr (True, (if ?vs = [] then None else Some (map Some ?vs), length ?vs), held)"
    using up rows fetch by (simp add: user_mapper_query_by_name_def PREPARE_STMT_def sql_up_def bound_name_view(1) [OF u] closes Let_def)
  ultimately show ?thesis by blast
qed

text \<open>
  C33. Users with terminated names that were inserted into a new table, and then queried by a name: the query finds exactly the users with this name (up to spaces at the end), with
  their names, ages and times, every element of the result is assigned, and no statement stays open.
\<close>

theorem inserted_users_found:
  assumes "sql_laws S table" "sql_up S" "table d = []" "list_all terminated_name us" "terminated_name u"
    and "user_mapper_insert S us d held = Inr (True, d', held')" "sq_select S (fst (user_view u)) d' \<noteq> None"
  shows "\<exists>res vs. user_mapper_query_by_name S junk u k d' held' = Inr (True, (res, length vs), held) \<and>
    res = (if vs = [] then None else Some (map Some vs)) \<and> mset (map user_view vs) = mset (map user_view (filter (same_name u) us))"
proof -
  have "insert_rows S us d = Inr (True, d')"
    using assms(2,6) by (auto simp: user_mapper_insert_def PREPARE_STMT_def sql_up_def closes rbind_Inr_iff)
  then have "map snd (table d') = map user_view us" using insert_rows_table [OF assms(1,4)] assms(3) by simp
  then show ?thesis using query_result [OF assms(1,2,5,4) _ assms(7)] insert_closes [OF assms(6)] by simp
qed


text \<open>A name of more than 32 bytes, which the table allows, ends the fetching: the rows from there on are counted but never assigned.\<close>

lemma long_name_ends_fetch:
  assumes "sizeof_name < length n"
  shows "fetch_rows junk ((i, n, a, t) # rows) k users = Inr users"
  using assms by simp

section \<open>A database in memory\<close>

definition list_sql :: "found_row list sql" where
  "list_sql = \<lparr>sq_con = True, sq_connect = \<lambda>_. True, sq_exec = \<lambda>_ _. Some [], sq_stmt_init = True, sq_prepare = True, sq_bind_param = True, sq_bind_result = True,
     sq_store_result = True, sq_alloc = \<lambda>_. True,
     sq_insert = \<lambda>r d. Some (d @ [(Suc (Max (insert 0 (fst ` set d))), r)]), sq_select = \<lambda>n d. Some (filter (\<lambda>r. unpad (fst (snd r)) = unpad n) d)\<rparr>"

lemma list_sql_laws: "sql_laws list_sql (\<lambda>d. d)" "sql_up list_sql"
proof -
  have "Suc (Max (insert 0 (fst ` set d))) \<notin> fst ` set d" for d :: "found_row list"
  proof
    assume "Suc (Max (insert 0 (fst ` set d))) \<in> fst ` set d"
    then have "Suc (Max (insert 0 (fst ` set d))) \<le> Max (insert 0 (fst ` set d))" by (intro Max_ge) auto
    then show False by simp
  qed
  then show "sql_laws list_sql (\<lambda>d. d)" by (simp add: sql_laws_def list_sql_def)
  show "sql_up list_sql" by (simp add: sql_up_def list_sql_def)
qed

definition sample_tm :: clock_tm where
  "sample_tm = \<lparr>tm_year = 120, tm_mon = 0, tm_mday = 2, tm_hour = 3, tm_min = 4, tm_sec = 5\<rparr>"

lemma name32_text: "CHR 0x00 \<notin> set s \<Longrightarrow> length s < 32 \<Longrightarrow> takeWhile (\<lambda>b. b \<noteq> 0) (name32 s) = str_bytes s"
  using str_bytes_nonzero [of s] by (cases "32 - length s") (auto simp: name32_def takeWhile_append)

lemma main_users_ok: "list_all terminated_name (main_users t)"
  by (simp add: main_users_def terminated_name_def name32_def str_bytes_def sizeof_name_def)

lemma list_insert: "list_all terminated_name us \<Longrightarrow> \<exists>d'. user_mapper_insert list_sql us d held = Inr (True, d', held)"
proof -
  assume us: "list_all terminated_name us"
  have "\<exists>d'. insert_rows list_sql us d = Inr (True, d')" using us by (induction us arbitrary: d) (simp_all add: bound_name_view list_sql_def)
  then show ?thesis by (auto simp: user_mapper_insert_def PREPARE_STMT_def closes list_sql_def)
qed

theorem inserted_users_found_witness:
  "\<exists>d vs. user_mapper_insert list_sql (main_users sample_tm) [] [Con] = Inr (True, d, [Con]) \<and>
    user_mapper_query_by_name list_sql [] (main_users sample_tm ! 1) 0 d [Con] = Inr (True, (Some (map Some vs), 1), [Con]) \<and>
    map user_view vs = [(str_bytes ''bar'', 30, now_of sample_tm)]"
proof -
  let ?us = "main_users sample_tm"
  have u: "terminated_name (?us ! 1)" by (simp add: main_users_def terminated_name_def name32_def str_bytes_def sizeof_name_def)
  obtain d where d: "user_mapper_insert list_sql ?us [] [Con] = Inr (True, d, [Con])" using list_insert [OF main_users_ok] by blast
  have "sq_select list_sql (fst (user_view (?us ! 1))) d \<noteq> None" by (simp add: list_sql_def)
  from inserted_users_found [OF list_sql_laws refl main_users_ok u d this, of "[]" 0]
  obtain res vs where q: "user_mapper_query_by_name list_sql [] (?us ! 1) 0 d [Con] = Inr (True, (res, length vs), [Con])"
    "res = (if vs = [] then None else Some (map Some vs))" "mset (map user_view vs) = mset (map user_view (filter (same_name (?us ! 1)) ?us))" by blast
  have "map user_view (filter (same_name (?us ! 1)) ?us) = [(str_bytes ''bar'', 30, now_of sample_tm)]"
    by (simp add: main_users_def same_name_def user_view_def name32_text) (simp add: str_bytes_def unpad_def)
  then have "map user_view vs = [(str_bytes ''bar'', 30, now_of sample_tm)]" using q(3) by (simp only: mset.simps mset_single_iff)
  then show ?thesis using d q(1,2) by (auto intro!: exI [of _ d] exI [of _ vs])
qed

end
