(* ===== verification/MemoryPool.thy ===== *)
theory MemoryPool
  imports Prelude
begin

text \<open>
  The growing memory pool of src/play/cpp/try/src/memory_pool.c.

  The pool keeps the pointers to its free blocks in a ring: \<open>alloc_index\<close> is the next pointer to
  hand out, \<open>free_index\<close> the next slot for a pointer that comes back. A block is named by the data
  buffer it lies in and its byte offset there. Counters are naturals below \<open>2 ^ 32\<close> and every
  operation on them that can wrap is written with \<open>uadd\<close>, \<open>usub\<close> and \<open>umul\<close>. Allocations from the
  system are taken to succeed, as the code does not test them.

  The free blocks form a queue (\<open>avail\<close>): the operations are its \<open>dequeue\<close>, \<open>enqueue\<close> and an extension
  at the end. The locale \<open>block_queue\<close> states this contract and proves that no block is handed out
  twice; the pool interprets it. \<open>MemoryPoolEnsureSpace\<close> satisfies the contract only while blocks are
  in use: on an unused pool it leaves the two indices apart.
\<close>

datatype blk = Blk nat nat | Wild

record MemoryPool =
  memory_pool_data_bufs :: "nat list"
  memory_pool_ptr_buf :: "blk list"
  alloc_index :: nat
  free_index :: nat
  capacity :: nat
  used :: nat
  block_size :: nat
  num_buf :: nat
  peak :: nat

text \<open>Pointers to \<open>n\<close> consecutive blocks of data buffer number \<open>b\<close>: \<open>buf + i * block_size\<close>.\<close>

definition buf_blocks :: "nat \<Rightarrow> nat \<Rightarrow> nat \<Rightarrow> blk list" where
  "buf_blocks b bs n = map (\<lambda>i. Blk b (umul i bs)) [0..<n]"

definition MemoryPoolInit :: "nat \<Rightarrow> nat \<Rightarrow> MemoryPool" where
  "MemoryPoolInit init_capacity bs =
     (let init_capacity = (if init_capacity = 0 then 8 else init_capacity)
      in \<lparr>memory_pool_data_bufs = [umul bs init_capacity],
          memory_pool_ptr_buf = buf_blocks 0 bs init_capacity,
          alloc_index = 0, free_index = 0, capacity = init_capacity, used = 0,
          block_size = bs, num_buf = 1, peak = 0\<rparr>)"

text \<open>Start and length of the first section, and length of the second, which starts at index 0.\<close>

type_synonym sections = "nat \<times> nat \<times> nat"

definition pool_sections :: "MemoryPool \<Rightarrow> (sections \<times> sections) result" where
  "pool_sections pool =
     (if used pool = capacity pool then
        (if alloc_index pool = free_index pool
         then Inr ((free_index pool, usub (capacity pool) (free_index pool), free_index pool), (0, 0, 0))
         else Inl AssertFailed)
      else if free_index pool < alloc_index pool then
        Inr ((free_index pool, usub (alloc_index pool) (free_index pool), 0),
             (alloc_index pool, usub (capacity pool) (alloc_index pool), free_index pool))
      else
        Inr ((free_index pool, usub (capacity pool) (free_index pool), alloc_index pool),
             (alloc_index pool, usub (free_index pool) (alloc_index pool), 0)))"

text \<open>Copying two sections of the old ring behind each other, from \<open>offset\<close> on.\<close>

definition copy_sections ::
  "blk list \<Rightarrow> blk list \<Rightarrow> nat \<Rightarrow> sections \<Rightarrow> (blk list \<times> nat) result" where
  "copy_sections old new offset s =
     (case s of (start, n1, n2) \<Rightarrow>
        rbind (read_range old start n1) (\<lambda>sec1.
        rbind (write_range new offset sec1) (\<lambda>new.
        if n2 > 0 then
          rbind (read_range old 0 n2) (\<lambda>sec2.
          rbind (write_range new (uadd offset n1) sec2) (\<lambda>new.
          Inr (new, uadd (uadd offset n1) n2)))
        else Inr (new, uadd offset n1))))"

definition MemoryPoolEnsureSpace :: "MemoryPool \<Rightarrow> nat \<Rightarrow> MemoryPool result" where
  "MemoryPoolEnsureSpace pool cap =
     (if cap < capacity pool then Inr pool
      else
        let delta_size = usub cap (capacity pool);
            data_bufs = memory_pool_data_bufs pool @ [umul (block_size pool) delta_size]
        in rbind (pool_sections pool) (\<lambda>(free_secs, alloc_secs).
           rbind (copy_sections (memory_pool_ptr_buf pool) (replicate cap Wild) 0 free_secs)
             (\<lambda>(new, offset).
           let alloc_at = offset in
           rbind (if fst (snd free_secs) > 0
                  then copy_sections (memory_pool_ptr_buf pool) new offset alloc_secs
                  else Inr (new, offset)) (\<lambda>(new, offset).
           rbind (write_range new offset (buf_blocks (num_buf pool) (block_size pool) delta_size))
             (\<lambda>new.
           Inr (pool\<lparr>memory_pool_data_bufs := data_bufs, memory_pool_ptr_buf := new,
                     free_index := 0, alloc_index := alloc_at,
                     num_buf := uadd (num_buf pool) 1, capacity := cap\<rparr>))))))"

definition next_index :: "MemoryPool \<Rightarrow> nat \<Rightarrow> nat" where
  "next_index pool i = (if uadd i 1 = capacity pool then 0 else uadd i 1)"

definition MemoryPoolAlloc :: "MemoryPool \<Rightarrow> (blk \<times> MemoryPool) result" where
  "MemoryPoolAlloc pool =
     rbind (if used pool = capacity pool
            then MemoryPoolEnsureSpace pool (umul (capacity pool) 2) else Inr pool) (\<lambda>pool.
     let pool = pool\<lparr>used := uadd (used pool) 1\<rparr>;
         pool = (if used pool > peak pool then pool\<lparr>peak := used pool\<rparr> else pool)
     in if alloc_index pool < length (memory_pool_ptr_buf pool)
        then Inr (memory_pool_ptr_buf pool ! alloc_index pool,
                  pool\<lparr>alloc_index := next_index pool (alloc_index pool)\<rparr>)
        else Inl OutOfBounds)"

definition MemoryPoolFree :: "MemoryPool \<Rightarrow> blk \<Rightarrow> MemoryPool result" where
  "MemoryPoolFree pool p_data =
     (if free_index pool < length (memory_pool_ptr_buf pool)
      then Inr (pool\<lparr>memory_pool_ptr_buf := (memory_pool_ptr_buf pool)[free_index pool := p_data],
                     free_index := next_index pool (free_index pool),
                     used := usub (used pool) 1\<rparr>)
      else Inl HeapOverflow)"

text \<open>\<open>MemoryPoolDestroy\<close> frees the first \<open>num_buf\<close> data buffers and clears the structure.\<close>

definition MemoryPoolDestroy :: "MemoryPool \<Rightarrow> (nat list \<times> MemoryPool) result" where
  "MemoryPoolDestroy pool =
     rbind (read_range (memory_pool_data_bufs pool) 0 (num_buf pool)) (\<lambda>freed.
     Inr (freed, \<lparr>memory_pool_data_bufs = [], memory_pool_ptr_buf = [], alloc_index = 0,
                  free_index = 0, capacity = 0, used = 0, block_size = 0, num_buf = 0, peak = 0\<rparr>))"

section \<open>The ring\<close>

definition ring :: "'a list \<Rightarrow> nat \<Rightarrow> nat \<Rightarrow> 'a list" where
  "ring xs i n = map (\<lambda>j. xs ! ((i + j) mod length xs)) [0..<n]"

definition avail :: "MemoryPool \<Rightarrow> blk list" where
  "avail p = ring (memory_pool_ptr_buf p) (alloc_index p) (capacity p - used p)"

text \<open>
  Well-formed pools: the used slots are the \<open>used\<close> slots from \<open>free_index\<close> on, and the capacity is the
  number of blocks that fit the data buffers.
\<close>

definition pool_wf :: "MemoryPool \<Rightarrow> bool" where
  "pool_wf p \<longleftrightarrow> 0 < capacity p \<and> capacity p * block_size p < 2 ^ 32 \<and> 0 < block_size p \<and>
     length (memory_pool_ptr_buf p) = capacity p \<and>
     free_index p < capacity p \<and> used p \<le> capacity p \<and>
     alloc_index p = (free_index p + used p) mod capacity p \<and>
     length (memory_pool_data_bufs p) = num_buf p \<and> num_buf p \<le> capacity p \<and>
     sum_list (map (\<lambda>n. n div block_size p) (memory_pool_data_bufs p)) = capacity p"

lemma wf_capacity: "pool_wf p \<Longrightarrow> capacity p < 2 ^ 32"
proof -
  assume "pool_wf p"
  then have "capacity p \<le> capacity p * block_size p" "capacity p * block_size p < 2 ^ 32"
    by (simp_all add: pool_wf_def)
  then show ?thesis by (rule le_less_trans)
qed

lemma length_ring [simp]: "length (ring xs i n) = n"
  by (simp add: ring_def)

lemma ring_Suc: "ring xs i (Suc n) = xs ! (i mod length xs) # ring xs (Suc i) n"
  unfolding ring_def by (subst map_upt_Suc) (simp add: add.assoc)

lemma ring_snoc: "ring xs i (Suc n) = ring xs i n @ [xs ! ((i + n) mod length xs)]"
  by (simp add: ring_def)

lemma ring_mod: "ring xs (i mod length xs) n = ring xs i n"
  by (simp add: ring_def mod_simps)

lemma ring_add: "ring xs i (m + n) = ring xs i m @ ring xs (i + m) n"
  by (induction n) (simp_all add: ring_snoc add.assoc ring_def)

lemma ring_straight: "i + n \<le> length xs \<Longrightarrow> ring xs i n = take n (drop i xs)"
  by (rule nth_equalityI) (auto simp: ring_def)

text \<open>The two sections of a range that wraps around the end.\<close>

lemma ring_two:
  assumes "i < length xs" "n = (length xs - i) + m" "m \<le> i"
  shows "ring xs i n = take (length xs - i) (drop i xs) @ take m xs"
proof -
  have "ring xs i n = ring xs i (length xs - i) @ ring xs (length xs) m"
    using assms(1,2) ring_add [of xs i "length xs - i" m] by simp
  moreover have "ring xs (length xs) m = ring xs 0 m" using ring_mod [of xs "length xs" m] by simp
  ultimately show ?thesis using assms ring_straight [of 0 m xs] ring_straight [of i "length xs - i" xs]
    by simp
qed

section \<open>Growing\<close>

definition section_of :: "'a list \<Rightarrow> sections \<Rightarrow> 'a list" where
  "section_of old s = (case s of (start, n1, n2) \<Rightarrow> take n1 (drop start old) @ take n2 old)"

lemma copy_sections_ok:
  assumes "start + n1 \<le> length old" "n2 \<le> length old" "n1 + n2 \<le> k" "length xs + k < 2 ^ 32"
  shows "copy_sections old (xs @ replicate k Wild) (length xs) (start, n1, n2) =
    Inr ((xs @ section_of old (start, n1, n2)) @ replicate (k - (n1 + n2)) Wild,
         length xs + (n1 + n2))"
proof -
  have l: "length (take n1 (drop start old)) = n1" "length (take n2 old) = n2"
    using assms by simp_all
  have len: "uadd (length xs) n1 = length (xs @ take n1 (drop start old))"
    "uadd (uadd (length xs) n1) n2 = length xs + (n1 + n2)"
    using assms by (simp_all add: uadd_small)
  have r: "read_range old start n1 = Inr (take n1 (drop start old))" "read_range old 0 n2 = Inr (take n2 old)"
    using assms by (simp_all add: read_range_def)
  have "write_range (xs @ replicate k Wild) (length xs) (take n1 (drop start old)) =
      Inr ((xs @ take n1 (drop start old)) @ replicate (k - n1) Wild)"
    using assms(3) write_range_append [of xs k Wild "take n1 (drop start old)"] unfolding l by simp
  moreover have "write_range ((xs @ take n1 (drop start old)) @ replicate (k - n1) Wild)
      (length (xs @ take n1 (drop start old))) (take n2 old) =
      Inr (((xs @ take n1 (drop start old)) @ take n2 old) @ replicate (k - n1 - n2) Wild)"
    using assms(3) write_range_append [of "xs @ take n1 (drop start old)" "k - n1" Wild "take n2 old"]
    unfolding l by simp
  ultimately show ?thesis
    using r len assms(1) unfolding copy_sections_def section_of_def
    by (cases "n2 = 0") (simp_all add: min_absorb2)
qed

lemma mod_wrap: "n < m \<Longrightarrow> k < m \<Longrightarrow> (n + k) mod m = (if n + k < m then n + k else n + k - m)" for n :: nat
  by (simp add: mod_if)

lemma pool_sections_ok:
  assumes wf: "pool_wf p" and busy: "0 < used p"
  shows "\<exists>fs as. pool_sections p = Inr (fs, as) \<and>
    section_of (memory_pool_ptr_buf p) fs = ring (memory_pool_ptr_buf p) (free_index p) (used p) \<and>
    section_of (memory_pool_ptr_buf p) as = avail p \<and>
    0 < fst (snd fs) \<and> fst (snd fs) + snd (snd fs) = used p \<and>
    fst (snd as) + snd (snd as) = capacity p - used p \<and>
    fst fs + fst (snd fs) \<le> capacity p \<and> fst as + fst (snd as) \<le> capacity p"
proof -
  let ?b = "memory_pool_ptr_buf p" and ?c = "capacity p" and ?u = "used p"
  let ?f = "free_index p" and ?a = "alloc_index p"
  have c: "length ?b = ?c" "?f < ?c" "?u \<le> ?c" "?a = (?f + ?u) mod ?c" "?c < 2 ^ 32"
    using wf wf_capacity [OF wf] by (auto simp: pool_wf_def)
  consider (full) "?u = ?c" | (plain) "?u < ?c" "?f + ?u < ?c" | (wrap) "?u < ?c" "?c \<le> ?f + ?u"
    using c(3) by linarith
  then show ?thesis
  proof cases
    case full
    then have a: "?a = ?f" using c(2,4) by simp
    have "ring ?b ?f ?u = take (?c - ?f) (drop ?f ?b) @ take ?f ?b"
      using ring_two [of ?f ?b ?u ?f] c full by simp
    with full a c show ?thesis
      by (simp add: pool_sections_def section_of_def usub_small avail_def ring_def)
  next
    case plain
    then have a: "?a = ?f + ?u" using c(2,4) by simp
    have "ring ?b ?f ?u = take ?u (drop ?f ?b)" using ring_straight [of ?f ?u ?b] c plain by simp
    moreover have "avail p = take (?c - ?a) (drop ?a ?b) @ take ?f ?b"
      unfolding avail_def using ring_two [of ?a ?b "?c - ?u" ?f] c(1) a plain by simp
    ultimately show ?thesis
      using plain a c busy by (simp add: pool_sections_def section_of_def usub_small)
  next
    case wrap
    then have a: "?a = ?f + ?u - ?c" using c(2,4) mod_wrap [of ?f ?c ?u] by simp
    have "ring ?b ?f ?u = take (?c - ?f) (drop ?f ?b) @ take ?a ?b"
      using ring_two [of ?f ?b ?u ?a] c(1,2) a wrap by simp
    moreover have "?c - ?u = ?f - ?a" "?a + (?f - ?a) \<le> length ?b" using a wrap c(1,2) by simp_all
    then have "avail p = take (?f - ?a) (drop ?a ?b)"
      unfolding avail_def using ring_straight [of ?a "?f - ?a" ?b] by simp
    ultimately show ?thesis
      using wrap a c by (simp add: pool_sections_def section_of_def usub_small)
  qed
qed

definition new_blocks :: "MemoryPool \<Rightarrow> nat \<Rightarrow> blk list" where
  "new_blocks p cap = buf_blocks (num_buf p) (block_size p) (cap - capacity p)"

lemma length_buf_blocks [simp]: "length (buf_blocks b bs n) = n"
  by (simp add: buf_blocks_def)

text \<open>Growing a pool in use appends the new blocks to the queue of free blocks.\<close>

lemma EnsureSpace_ok:
  assumes wf: "pool_wf p" and busy: "0 < used p" and grow: "capacity p < cap" "cap * block_size p < 2 ^ 32"
  shows "\<exists>p'. MemoryPoolEnsureSpace p cap = Inr p' \<and> pool_wf p' \<and>
    avail p' = avail p @ new_blocks p cap \<and> capacity p' = cap \<and> used p' = used p \<and>
    block_size p' = block_size p \<and> num_buf p' = num_buf p + 1 \<and>
    memory_pool_data_bufs p' = memory_pool_data_bufs p @ [block_size p * (cap - capacity p)]"
proof -
  let ?b = "memory_pool_ptr_buf p" and ?u = "used p" and ?c = "capacity p" and ?n = "new_blocks p cap"
  have c: "length ?b = ?c" "?u \<le> ?c" "0 < block_size p" "num_buf p \<le> ?c"
    "length (memory_pool_data_bufs p) = num_buf p" "free_index p < ?c"
    "sum_list (map (\<lambda>n. n div block_size p) (memory_pool_data_bufs p)) = ?c"
    using wf by (simp_all add: pool_wf_def)
  have "cap * 1 \<le> cap * block_size p" using c(3) by (intro mult_le_mono) auto
  then have cap: "cap < 2 ^ 32" using grow(2) by linarith
  have size: "umul (block_size p) (cap - ?c) = block_size p * (cap - ?c)"
  proof (rule umul_small)
    have "block_size p * (cap - ?c) \<le> cap * block_size p"
      by (metis diff_le_self mult.commute mult_le_mono1)
    then show "block_size p * (cap - ?c) < 2 ^ 32" using grow(2) by (rule le_less_trans)
  qed
  obtain fs as where s: "pool_sections p = Inr (fs, as)"
    "section_of ?b fs = ring ?b (free_index p) ?u" "section_of ?b as = avail p" "0 < fst (snd fs)"
    "fst (snd fs) + snd (snd fs) = ?u" "fst (snd as) + snd (snd as) = ?c - ?u"
    "fst fs + fst (snd fs) \<le> ?c" "fst as + fst (snd as) \<le> ?c"
    using pool_sections_ok [OF wf busy] by blast
  let ?r = "ring ?b (free_index p) ?u"
  have f: "copy_sections ?b (replicate cap Wild) 0 fs = Inr (?r @ replicate (cap - ?u) Wild, ?u)"
    using copy_sections_ok [of "fst fs" "fst (snd fs)" ?b "snd (snd fs)" cap "[]"] s(2,5,7) c(1,2) cap grow
    by simp
  have a: "copy_sections ?b (?r @ replicate (cap - ?u) Wild) ?u as =
      Inr ((?r @ avail p) @ replicate (cap - ?c) Wild, ?c)"
    using copy_sections_ok [of "fst as" "fst (snd as)" ?b "snd (snd as)" "cap - ?u" ?r] s(3,6,8) c(1,2) cap grow
    by simp
  have w: "write_range ((?r @ avail p) @ replicate (cap - ?c) Wild) ?c ?n = Inr (?r @ avail p @ ?n)"
    using write_range_append [of "?r @ avail p" "cap - ?c" Wild ?n] c(2)
    by (simp add: avail_def new_blocks_def)
  let ?p = "p\<lparr>memory_pool_data_bufs := memory_pool_data_bufs p @ [block_size p * (cap - ?c)],
      memory_pool_ptr_buf := ?r @ avail p @ ?n, free_index := 0, alloc_index := ?u,
      num_buf := num_buf p + 1, capacity := cap\<rparr>"
  have run: "MemoryPoolEnsureSpace p cap = Inr ?p"
    using s(1,4) f a w grow(1) cap c(4)
    by (simp add: MemoryPoolEnsureSpace_def Let_def usub_small uadd_small size new_blocks_def)
  have "length (?r @ avail p @ ?n) = cap" using c(2) grow(1) by (simp add: avail_def new_blocks_def)
  moreover have "avail ?p = avail p @ ?n"
    using ring_straight [of ?u "cap - ?u" "?r @ avail p @ ?n"] calculation c(2) grow(1)
    by (simp add: avail_def [of ?p] drop_append) (simp add: avail_def new_blocks_def)
  moreover have "pool_wf ?p"
    using calculation(1) c grow by (simp add: pool_wf_def)
  ultimately show ?thesis using run by simp
qed

section \<open>Allocating and freeing\<close>

lemma next_index_mod: "i < capacity p \<Longrightarrow> capacity p < 2 ^ 32 \<Longrightarrow> next_index p i = (i + 1) mod capacity p"
  by (auto simp: next_index_def uadd_small)

lemma Alloc_free_slot:
  assumes wf: "pool_wf p" and free: "used p < capacity p"
  shows "\<exists>p'. MemoryPoolAlloc p = Inr (hd (avail p), p') \<and> pool_wf p' \<and> avail p' = tl (avail p) \<and>
    used p' = used p + 1 \<and> capacity p' = capacity p \<and> block_size p' = block_size p \<and>
    memory_pool_data_bufs p' = memory_pool_data_bufs p"
proof -
  let ?b = "memory_pool_ptr_buf p" and ?a = "alloc_index p" and ?c = "capacity p"
  have c: "length ?b = ?c" "?a = (free_index p + used p) mod ?c" "?a < ?c" "?c < 2 ^ 32"
    using wf wf_capacity [OF wf] by (auto simp: pool_wf_def)
  obtain k where k: "?c - used p = Suc k" using free by (cases "?c - used p") auto
  then have k': "?c - Suc (used p) = k" by simp
  have av: "avail p = ?b ! ?a # ring ?b (Suc ?a) k"
    using c(1,3) k by (simp add: avail_def ring_Suc)
  let ?q = "p\<lparr>used := used p + 1, alloc_index := (?a + 1) mod ?c,
      peak := (if used p + 1 > peak p then used p + 1 else peak p)\<rparr>"
  have "avail ?q = ring ?b (Suc ?a) k"
    using k c(1) ring_mod [of ?b "Suc ?a" k] k' by (simp add: avail_def)
  moreover have "MemoryPoolAlloc p = Inr (?b ! ?a, ?q)"
    using c(1,3,4) free by (simp add: MemoryPoolAlloc_def Let_def uadd_small next_index_mod)
  moreover have "pool_wf ?q"
    using wf free c(2) by (auto simp: pool_wf_def mod_Suc_eq)
  ultimately show ?thesis using av by simp
qed

lemma Free_ok:
  assumes wf: "pool_wf p" and busy: "0 < used p"
  shows "\<exists>p'. MemoryPoolFree p d = Inr p' \<and> pool_wf p' \<and> avail p' = avail p @ [d] \<and>
    used p' = used p - 1 \<and> capacity p' = capacity p \<and> block_size p' = block_size p \<and>
    memory_pool_data_bufs p' = memory_pool_data_bufs p"
proof -
  let ?b = "memory_pool_ptr_buf p" and ?f = "free_index p" and ?c = "capacity p" and ?u = "used p"
  have c: "length ?b = ?c" "alloc_index p = (?f + ?u) mod ?c" "?f < ?c" "?c < 2 ^ 32" "?u \<le> ?c"
    using wf wf_capacity [OF wf] by (auto simp: pool_wf_def)
  let ?q = "p\<lparr>memory_pool_ptr_buf := ?b[?f := d], free_index := (?f + 1) mod ?c, used := ?u - 1\<rparr>"
  have run: "MemoryPoolFree p d = Inr ?q"
    using c busy by (simp add: MemoryPoolFree_def next_index_mod usub_small)
  have miss: "(?f + ?u + j) mod ?c \<noteq> ?f" if "j < ?c - ?u" for j
    using mod_wrap [of ?f ?c "?u + j"] that busy c(3) by (simp add: add.assoc) linarith
  have "ring (?b[?f := d]) (?f + ?u) (?c - ?u) = ring ?b (?f + ?u) (?c - ?u)"
    using miss c(1) by (simp add: ring_def nth_list_update_neq [OF not_sym])
  moreover have "?b[?f := d] ! ((?f + ?u + (?c - ?u)) mod length ?b) = d"
    using c by simp
  ultimately have "ring (?b[?f := d]) (?f + ?u) (Suc (?c - ?u)) = ring ?b (?f + ?u) (?c - ?u) @ [d]"
    by (simp add: ring_snoc)
  moreover have "Suc (?c - ?u) = ?c - (?u - 1)" using busy c(5) by simp
  ultimately have "avail ?q = avail p @ [d]"
    using c(1,2) ring_mod [of ?b "?f + ?u"] ring_mod [of "?b[?f := d]" "?f + ?u"]
    by (simp add: avail_def)
  moreover have "((?f + 1) mod ?c + (?u - 1)) mod ?c = (?f + ?u) mod ?c"
    unfolding mod_add_left_eq using busy by simp
  then have "pool_wf ?q" using wf by (auto simp: pool_wf_def)
  ultimately show ?thesis using run by simp
qed

section \<open>The contract of a queue of blocks\<close>

text \<open>
  A client of a block allocator sees a queue of available blocks and the set of all blocks. The
  allocator may extend both when it hands out a block. From these laws alone, the blocks a client
  holds and the available ones stay disjoint and make up all blocks.
\<close>

locale block_queue =
  fixes wf :: "'s \<Rightarrow> bool" and free_list :: "'s \<Rightarrow> 'b list" and all_of :: "'s \<Rightarrow> 'b set"
    and alloc :: "'s \<Rightarrow> ('b \<times> 's) result" and give_back :: "'s \<Rightarrow> 'b \<Rightarrow> 's result"
    and room :: "'s \<Rightarrow> bool"
  assumes alloc_law: "wf s \<Longrightarrow> room s \<Longrightarrow> \<exists>b s' new. alloc s = Inr (b, s') \<and> wf s' \<and>
      b # free_list s' = free_list s @ new \<and> all_of s' = all_of s \<union> set new \<and>
      all_of s \<inter> set new = {} \<and> distinct new"
    and free_law: "wf s \<Longrightarrow> length (free_list s) < card (all_of s) \<Longrightarrow>
      \<exists>s'. give_back s b = Inr s' \<and> wf s' \<and> free_list s' = free_list s @ [b] \<and> all_of s' = all_of s"
begin

lemma alloc_fresh:
  assumes "wf s" "room s" "distinct (free_list s @ held)" "set (free_list s @ held) = all_of s"
  shows "\<exists>b s'. alloc s = Inr (b, s') \<and> wf s' \<and> b \<notin> set held \<and>
    distinct (free_list s' @ b # held) \<and> set (free_list s' @ b # held) = all_of s'"
proof -
  obtain b s' new where a: "alloc s = Inr (b, s')" "wf s'" "b # free_list s' = free_list s @ new"
    "all_of s' = all_of s \<union> set new" "all_of s \<inter> set new = {}" "distinct new"
    using alloc_law [OF assms(1,2)] by blast
  have "distinct ((free_list s @ new) @ held)" "set ((free_list s @ new) @ held) = all_of s'"
    using assms(3,4) a(4-6) by auto
  then have "distinct ((b # free_list s') @ held)" "set ((b # free_list s') @ held) = all_of s'"
    unfolding a(3) .
  with a(1,2) show ?thesis by auto
qed

lemma give_back_ok:
  assumes "wf s" "distinct (free_list s @ held)" "set (free_list s @ held) = all_of s" "b \<in> set held"
  shows "\<exists>s'. give_back s b = Inr s' \<and> wf s' \<and> distinct (free_list s' @ remove1 b held) \<and>
    set (free_list s' @ remove1 b held) = all_of s'"
proof -
  have "card (all_of s) = length (free_list s) + length held"
    using distinct_card [OF assms(2)] assms(3) by simp
  moreover have "0 < length held" using assms(4) by (cases held) auto
  ultimately obtain s' where s': "give_back s b = Inr s'" "wf s'" "free_list s' = free_list s @ [b]"
    "all_of s' = all_of s" using free_law [OF assms(1), of b] by auto
  have "set (remove1 b held) = set held - {b}" using assms(2) by (simp add: set_remove1_eq)
  with s' assms(2-4) show ?thesis by auto
qed

end

section \<open>The pool as a queue of blocks\<close>

fun blocks_from :: "nat \<Rightarrow> nat \<Rightarrow> nat list \<Rightarrow> blk list" where
  "blocks_from b bs [] = []"
| "blocks_from b bs (n # ns) = map (\<lambda>i. Blk b (i * bs)) [0..<n div bs] @ blocks_from (Suc b) bs ns"

text \<open>All blocks of a pool: \<open>n div block_size\<close> blocks in a data buffer of \<open>n\<close> bytes.\<close>

definition pool_blocks :: "MemoryPool \<Rightarrow> blk list" where
  "pool_blocks p = blocks_from 0 (block_size p) (memory_pool_data_bufs p)"

lemma blocks_from_append:
  "blocks_from b bs (ms @ ns) = blocks_from b bs ms @ blocks_from (b + length ms) bs ns"
  by (induction ms arbitrary: b) simp_all

lemma blocks_from_bounds: "Blk c i \<in> set (blocks_from b bs ns) \<Longrightarrow> b \<le> c \<and> c < b + length ns"
  by (induction ns arbitrary: b) fastforce+

lemma blocks_from_Blk: "x \<in> set (blocks_from b bs ns) \<Longrightarrow> \<exists>c i. x = Blk c i"
  by (induction ns arbitrary: b) auto

lemma distinct_blocks_from: "0 < bs \<Longrightarrow> distinct (blocks_from b bs ns)"
proof (induction ns arbitrary: b)
  case (Cons n ns)
  have "inj (\<lambda>i. Blk b (i * bs))" using Cons.prems by (intro injI) simp
  moreover have "Blk b i \<notin> set (blocks_from (Suc b) bs ns)" for i
    using blocks_from_bounds [of b i "Suc b"] by auto
  ultimately show ?case using Cons by (auto simp: distinct_map intro: inj_on_subset)
qed simp

lemma length_blocks_from: "length (blocks_from b bs ns) = sum_list (map (\<lambda>n. n div bs) ns)"
  by (induction ns arbitrary: b) simp_all

lemma buf_blocks_exact:
  assumes "0 < bs" "n * bs < 2 ^ 32"
  shows "buf_blocks b bs n = blocks_from b bs [bs * n]"
proof -
  have "umul i bs = i * bs" if "i < n" for i
  proof (rule umul_small)
    have "i * bs \<le> n * bs" using that by simp
    then show "i * bs < 2 ^ 32" using assms(2) by (rule le_less_trans)
  qed
  then show ?thesis using assms(1) by (simp add: buf_blocks_def)
qed

definition pool_room :: "MemoryPool \<Rightarrow> bool" where
  "pool_room p \<longleftrightarrow> used p < capacity p \<or> 2 * capacity p * block_size p < 2 ^ 32"

lemma card_pool_blocks: "pool_wf p \<Longrightarrow> card (set (pool_blocks p)) = capacity p"
  by (simp add: pool_blocks_def distinct_card distinct_blocks_from length_blocks_from pool_wf_def)

lemma new_blocks_fresh:
  assumes "pool_wf p" "capacity p < cap" "cap * block_size p < 2 ^ 32"
  shows "new_blocks p cap = blocks_from (num_buf p) (block_size p) [block_size p * (cap - capacity p)]"
    "set (pool_blocks p) \<inter> set (new_blocks p cap) = {}" "distinct (new_blocks p cap)"
proof -
  have "(cap - capacity p) * block_size p \<le> cap * block_size p" by simp
  then have "(cap - capacity p) * block_size p < 2 ^ 32" using assms(3) by (rule le_less_trans)
  then show new: "new_blocks p cap =
      blocks_from (num_buf p) (block_size p) [block_size p * (cap - capacity p)]"
    using assms(1) by (simp add: new_blocks_def buf_blocks_exact pool_wf_def)
  show "distinct (new_blocks p cap)"
    unfolding new using assms(1) by (intro distinct_blocks_from) (simp add: pool_wf_def)
  have "x \<notin> set (new_blocks p cap)" if "x \<in> set (pool_blocks p)" for x
    using blocks_from_bounds blocks_from_Blk that assms(1) unfolding new pool_blocks_def pool_wf_def
    by (metis add_0 leD)
  then show "set (pool_blocks p) \<inter> set (new_blocks p cap) = {}" by blast
qed

lemma EnsureSpace_blocks:
  assumes "pool_wf p" "0 < used p" "capacity p < cap" "cap * block_size p < 2 ^ 32"
  shows "\<exists>p'. MemoryPoolEnsureSpace p cap = Inr p' \<and> pool_wf p' \<and>
    avail p' = avail p @ new_blocks p cap \<and> pool_blocks p' = pool_blocks p @ new_blocks p cap \<and>
    used p' = used p \<and> capacity p' = cap"
proof -
  obtain p' where p': "MemoryPoolEnsureSpace p cap = Inr p'" "pool_wf p'"
    "avail p' = avail p @ new_blocks p cap" "block_size p' = block_size p" "used p' = used p"
    "memory_pool_data_bufs p' = memory_pool_data_bufs p @ [block_size p * (cap - capacity p)]"
    "capacity p' = cap"
    using EnsureSpace_ok [OF assms] by blast
  have "pool_blocks p' = pool_blocks p @ new_blocks p cap"
    using new_blocks_fresh(1) [OF assms(1,3,4)] p'(4,6) assms(1)
    by (simp add: pool_blocks_def blocks_from_append pool_wf_def)
  with p' show ?thesis by blast
qed

lemma Alloc_grow_eq:
  assumes "used p = capacity p" "MemoryPoolEnsureSpace p (umul (capacity p) 2) = Inr p'"
    "used p' < capacity p'"
  shows "MemoryPoolAlloc p = MemoryPoolAlloc p'"
  using assms by (simp add: MemoryPoolAlloc_def)

lemma umul_double: "pool_wf p \<Longrightarrow> 2 * capacity p * block_size p < 2 ^ 32 \<Longrightarrow>
    umul (capacity p) 2 = 2 * capacity p"
proof -
  assume wf: "pool_wf p" and small: "2 * capacity p * block_size p < 2 ^ 32"
  have "2 * capacity p \<le> 2 * capacity p * block_size p" using wf by (simp add: pool_wf_def)
  then have "2 * capacity p < 2 ^ 32" using small by (rule le_less_trans)
  then show ?thesis by (simp add: umul_small mult.commute)
qed

interpretation pool: block_queue pool_wf avail "\<lambda>p. set (pool_blocks p)" MemoryPoolAlloc MemoryPoolFree pool_room
proof
  fix p assume wf: "pool_wf p" and room: "pool_room p"
  show "\<exists>b p' new. MemoryPoolAlloc p = Inr (b, p') \<and> pool_wf p' \<and> b # avail p' = avail p @ new \<and>
      set (pool_blocks p') = set (pool_blocks p) \<union> set new \<and> set (pool_blocks p) \<inter> set new = {} \<and>
      distinct new"
  proof (cases "used p < capacity p")
    case True
    obtain p' where p': "MemoryPoolAlloc p = Inr (hd (avail p), p')" "pool_wf p'" "avail p' = tl (avail p)"
      "pool_blocks p' = pool_blocks p"
      using Alloc_free_slot [OF wf True] by (auto simp: pool_blocks_def)
    have "avail p \<noteq> []" using True by (simp add: avail_def ring_def)
    with p' show ?thesis by (intro exI [of _ "hd (avail p)"] exI [of _ p'] exI [of _ "[]"]) simp
  next
    case False
    let ?cap = "2 * capacity p"
    have full: "used p = capacity p" "0 < used p" "capacity p < ?cap" "?cap * block_size p < 2 ^ 32"
      using False wf room by (auto simp: pool_wf_def pool_room_def)
    obtain p1 where p1: "MemoryPoolEnsureSpace p ?cap = Inr p1" "pool_wf p1"
      "avail p1 = avail p @ new_blocks p ?cap" "pool_blocks p1 = pool_blocks p @ new_blocks p ?cap"
      "used p1 = used p" "capacity p1 = ?cap"
      using EnsureSpace_blocks [OF wf full(2-4)] by blast
    have lt: "used p1 < capacity p1" using p1(5,6) full by simp
    obtain p' where p': "MemoryPoolAlloc p1 = Inr (hd (avail p1), p')" "pool_wf p'"
      "avail p' = tl (avail p1)" "pool_blocks p' = pool_blocks p1"
      using Alloc_free_slot [OF p1(2) lt] by (auto simp: pool_blocks_def)
    have "MemoryPoolAlloc p = MemoryPoolAlloc p1"
      using Alloc_grow_eq [OF full(1) _ lt] p1(1) umul_double [OF wf full(4)] by simp
    moreover have "avail p1 \<noteq> []" using lt by (simp add: avail_def ring_def)
    ultimately show ?thesis
      using p' p1(3,4) new_blocks_fresh [OF wf full(3,4)]
      by (intro exI [of _ "hd (avail p1)"] exI [of _ p'] exI [of _ "new_blocks p ?cap"]) auto
  qed
next
  fix p b assume wf: "pool_wf p" and less: "length (avail p) < card (set (pool_blocks p))"
  then have "0 < used p" using card_pool_blocks [OF wf] by (simp add: avail_def)
  from Free_ok [OF wf this, of b] show "\<exists>p'. MemoryPoolFree p b = Inr p' \<and> pool_wf p' \<and>
      avail p' = avail p @ [b] \<and> set (pool_blocks p') = set (pool_blocks p)"
    by (auto simp: pool_blocks_def)
qed

section \<open>Pools in use\<close>

text \<open>
  The states a pool goes through, with the blocks its client holds: allocations while the counters
  have room, returns of held blocks, and explicit growth while some block is held.
\<close>

inductive pool_reach :: "nat \<Rightarrow> nat \<Rightarrow> MemoryPool \<Rightarrow> blk list \<Rightarrow> bool" for n bs where
  init: "pool_reach n bs (MemoryPoolInit n bs) []"
| alloc: "pool_reach n bs p held \<Longrightarrow> pool_room p \<Longrightarrow> MemoryPoolAlloc p = Inr (b, p') \<Longrightarrow>
    pool_reach n bs p' (b # held)"
| free: "pool_reach n bs p held \<Longrightarrow> b \<in> set held \<Longrightarrow> MemoryPoolFree p b = Inr p' \<Longrightarrow>
    pool_reach n bs p' (remove1 b held)"
| grow: "pool_reach n bs p held \<Longrightarrow> held \<noteq> [] \<Longrightarrow> capacity p < cap \<Longrightarrow> cap * block_size p < 2 ^ 32 \<Longrightarrow>
    MemoryPoolEnsureSpace p cap = Inr p' \<Longrightarrow> pool_reach n bs p' held"

definition pool_inv :: "MemoryPool \<Rightarrow> blk list \<Rightarrow> bool" where
  "pool_inv p held \<longleftrightarrow> pool_wf p \<and> distinct (avail p @ held) \<and>
     set (avail p @ held) = set (pool_blocks p)"

lemma Init_inv:
  assumes "0 < bs" "(if n = 0 then 8 else n) * bs < 2 ^ 32"
  shows "pool_inv (MemoryPoolInit n bs) []"
proof -
  let ?n = "if n = 0 then 8 else n" and ?p = "MemoryPoolInit n bs"
  have size: "umul bs ?n = bs * ?n" using assms(2) by (simp add: umul_small mult.commute)
  then have wf: "pool_wf ?p" using assms by (simp add: MemoryPoolInit_def pool_wf_def Let_def)
  have blocks: "pool_blocks ?p = buf_blocks 0 bs ?n"
    using size assms buf_blocks_exact [OF assms, of 0]
    by (simp add: MemoryPoolInit_def pool_blocks_def Let_def)
  moreover have "avail ?p = buf_blocks 0 bs ?n"
    using ring_straight [of 0 ?n "buf_blocks 0 bs ?n"]
    by (simp add: avail_def MemoryPoolInit_def Let_def)
  moreover have "distinct (pool_blocks ?p)"
    using wf by (simp add: pool_blocks_def distinct_blocks_from pool_wf_def)
  ultimately show ?thesis using wf by (simp add: pool_inv_def)
qed

lemma inv_used: "pool_inv p held \<Longrightarrow> length held = used p"
proof -
  assume inv: "pool_inv p held"
  then have "length (avail p @ held) = capacity p"
    using card_pool_blocks by (metis distinct_card pool_inv_def)
  with inv show ?thesis by (auto simp: avail_def pool_inv_def pool_wf_def)
qed

lemma grow_inv:
  assumes "pool_inv p held" "held \<noteq> []" "capacity p < cap" "cap * block_size p < 2 ^ 32"
    "MemoryPoolEnsureSpace p cap = Inr p'"
  shows "pool_inv p' held"
proof -
  have "0 < used p" using inv_used [OF assms(1)] assms(2) by (cases held) auto
  with assms EnsureSpace_blocks [of p cap] new_blocks_fresh [of p cap] show ?thesis
    by (auto simp: pool_inv_def)
qed

lemma pool_reach_inv:
  assumes "pool_reach n bs p held" "0 < bs" "(if n = 0 then 8 else n) * bs < 2 ^ 32"
  shows "pool_inv p held"
  using assms(1)
proof induction
  case init
  show ?case using assms(2,3) by (rule Init_inv)
next
  case (alloc p held b p')
  then show ?case using pool.alloc_fresh [of p held] by (auto simp: pool_inv_def)
next
  case (free p held b p')
  then show ?case using pool.give_back_ok [of p held b] by (auto simp: pool_inv_def)
next
  case (grow p held cap p')
  then show ?case using grow_inv by blast
qed

text \<open>
  C2. The memory pool never hands out a block twice: in every state a client can reach, the
  next allocation succeeds while the counters have room, and returns a block that the client does
  not hold; held and available blocks are disjoint and together all blocks of the data buffers.
\<close>

theorem pool_alloc_fresh:
  assumes "pool_reach n bs p held" "0 < bs" "(if n = 0 then 8 else n) * bs < 2 ^ 32" "pool_room p"
  shows "\<exists>b p'. MemoryPoolAlloc p = Inr (b, p') \<and> b \<notin> set held \<and> b \<in> set (pool_blocks p') \<and>
    distinct (avail p' @ b # held) \<and> set (avail p' @ b # held) = set (pool_blocks p')"
proof -
  have "pool_inv p held" using assms(1-3) by (rule pool_reach_inv)
  with assms(4) pool.alloc_fresh [of p held] show ?thesis
    unfolding pool_inv_def by fastforce
qed

theorem pool_alloc_fresh_witness:
  "\<exists>b p'. MemoryPoolAlloc (MemoryPoolInit 0 16) = Inr (b, p') \<and> b \<in> set (pool_blocks p') \<and>
     distinct (avail p' @ [b])"
  using pool_alloc_fresh [OF pool_reach.init, of 16 0]
  by (simp add: pool_room_def MemoryPoolInit_def) blast

text \<open>
  Growth of a pool in use: \<open>MemoryPoolEnsureSpace\<close> keeps the held blocks, appends the new blocks
  behind the available ones and keeps the pool well formed, provided at least one block is in use
  and the capacity really grows.
\<close>

theorem ensure_space_appends:
  assumes "pool_wf p" "0 < used p" "capacity p < cap" "cap * block_size p < 2 ^ 32"
  shows "\<exists>p'. MemoryPoolEnsureSpace p cap = Inr p' \<and> pool_wf p' \<and>
    avail p' = avail p @ new_blocks p cap \<and> pool_blocks p' = pool_blocks p @ new_blocks p cap \<and>
    used p' = used p \<and> capacity p' = cap"
  by (rule EnsureSpace_blocks [OF assms])

definition demo_pool :: MemoryPool where
  "demo_pool = \<lparr>memory_pool_data_bufs = [32], memory_pool_ptr_buf = [Blk 0 16, Blk 0 0],
     alloc_index = 0, free_index = 1, capacity = 2, used = 1, block_size = 16, num_buf = 1, peak = 2\<rparr>"

theorem ensure_space_appends_witness:
  "\<exists>p'. MemoryPoolEnsureSpace demo_pool 4 = Inr p' \<and>
     avail p' = [Blk 0 16, Blk 1 0, Blk 1 16]"
proof -
  have wf: "pool_wf demo_pool" by (simp add: demo_pool_def pool_wf_def)
  have av: "avail demo_pool = [Blk 0 16]" by (simp add: demo_pool_def avail_def ring_def)
  have new: "new_blocks demo_pool 4 = [Blk 1 0, Blk 1 16]"
    by (simp add: demo_pool_def new_blocks_def buf_blocks_def umul_def upt_conv_Cons)
  have "0 < used demo_pool" "capacity demo_pool < 4" "4 * block_size demo_pool < 2 ^ 32"
    by (simp_all add: demo_pool_def)
  from ensure_space_appends [OF wf this] show ?thesis by (auto simp: av new)
qed

lemmas pool_eval = MemoryPoolInit_def MemoryPoolEnsureSpace_def MemoryPoolAlloc_def MemoryPoolFree_def
  pool_sections_def copy_sections_def read_range_def write_range_def buf_blocks_def next_index_def
  uadd_def usub_def umul_def Let_def

text \<open>
  Growth of an unused pool loses this: after \<open>MemoryPoolEnsureSpace\<close> on a fresh pool, one
  allocation and its return, the next two allocations both return the same block.
\<close>

theorem ensure_space_unused_duplicates:
  "rbind (MemoryPoolEnsureSpace (MemoryPoolInit 1 16) 2) (\<lambda>p.
   rbind (MemoryPoolAlloc p) (\<lambda>(b, p).
   rbind (MemoryPoolFree p b) (\<lambda>p.
   rbind (MemoryPoolAlloc p) (\<lambda>(b1, p).
   rbind (MemoryPoolAlloc p) (\<lambda>(b2, p). Inr (b1, b2)))))) = Inr (Blk 1 0, Blk 1 0)"
  by (simp add: pool_eval)

text \<open>
  Asking a full pool for the capacity it has leaves the allocation index behind the ring, and
  the next allocation stops in the assertion of the next growth.
\<close>

theorem ensure_space_same_capacity_aborts:
  "rbind (MemoryPoolAlloc (MemoryPoolInit 1 16)) (\<lambda>(b, p).
   rbind (MemoryPoolEnsureSpace p 1) MemoryPoolAlloc) = Inl AssertFailed"
  by (simp add: pool_eval)

end
