(* ===== verification/ListPool.thy ===== *)
theory ListPool
  imports Prelude
begin

text \<open>
  The pools of src/play/cpp/try/inc/list_memory_pool.h and list_memory_pool_use_index.h: a ring of free blocks and a
  doubly linked list of the blocks in use, linked by pointers or by indices.

  Indices and counters are unsigned 32-bit numbers. A pointer to a block is the buffer it lies in, counted by
  generations since a larger buffer replaces the old one, and its index there; using a block of an older
  buffer is a fault. Builds with \<open>_DEBUG\<close> have \<open>debug\<close>. \<open>mem\<close> says whether \<open>malloc\<close> succeeds, which the code does not test.
\<close>

section \<open>Blocks linked by pointers\<close>

datatype lptr = Null | HeadP | TailP | BlockP nat nat | Wild

record 'd lblock =
  ptr_prev :: lptr
  ptr_next :: lptr
  lb_id :: nat
  lb_data :: 'd
  lb_status :: nat

record 'd list_pool =
  block_buf :: "'d lblock list"
  block_ptr_buf :: "lptr list"
  generation :: nat
  alloc_index :: nat
  free_index :: nat
  pool_size :: nat
  working_num :: nat
  enable_realloc :: bool
  peak :: nat
  list_head :: "'d lblock"
  list_tail :: "'d lblock"

definition zero_block :: "'d \<Rightarrow> 'd lblock" where
  "zero_block z = \<lparr>ptr_prev = Null, ptr_next = Null, lb_id = 0, lb_data = z, lb_status = 0\<rparr>"

text \<open>\<open>z\<close> are the data of a block that \<open>memset\<close> has cleared.\<close>

definition ListMemoryPool :: "bool \<Rightarrow> 'd \<Rightarrow> nat \<Rightarrow> bool \<Rightarrow> 'd list_pool result" where
  "ListMemoryPool mem z init_size realloc =
     (if \<not> mem then Inl NullDeref
      else Inr \<lparr>block_buf = map (\<lambda>i. (zero_block z)\<lparr>lb_id := i\<rparr>) [0..<init_size], block_ptr_buf = map (BlockP 0) [0..<init_size],
        generation = 0, alloc_index = 0, free_index = 0, pool_size = init_size, working_num = 0, enable_realloc = realloc, peak = 0,
        list_head = (zero_block z)\<lparr>ptr_next := TailP\<rparr>, list_tail = (zero_block z)\<lparr>ptr_prev := HeadP\<rparr>\<rparr>)"

definition block_at :: "lptr \<Rightarrow> 'd list_pool \<Rightarrow> 'd lblock result" where
  "block_at p pool =
     (case p of
        Null \<Rightarrow> Inl NullDeref
      | HeadP \<Rightarrow> Inr (list_head pool)
      | TailP \<Rightarrow> Inr (list_tail pool)
      | BlockP g i \<Rightarrow>
          if g \<noteq> generation pool then Inl UseAfterFree
          else if i < length (block_buf pool) then Inr (block_buf pool ! i) else Inl OutOfBounds
      | Wild \<Rightarrow> Inl OutOfBounds)"

definition set_block :: "lptr \<Rightarrow> 'd lblock \<Rightarrow> 'd list_pool \<Rightarrow> 'd list_pool" where
  "set_block p b pool =
     (case p of
        HeadP \<Rightarrow> pool\<lparr>list_head := b\<rparr>
      | TailP \<Rightarrow> pool\<lparr>list_tail := b\<rparr>
      | BlockP g i \<Rightarrow> pool\<lparr>block_buf := (block_buf pool)[i := b]\<rparr>
      | _ \<Rightarrow> pool)"

definition upd_block :: "lptr \<Rightarrow> ('d lblock \<Rightarrow> 'd lblock) \<Rightarrow> 'd list_pool \<Rightarrow> 'd list_pool result" where
  "upd_block p f pool = rbind (block_at p pool) (\<lambda>b. Inr (set_block p (f b) pool))"

text \<open>Adding the distance of the two buffers to a pointer.\<close>

definition relocate :: "nat \<Rightarrow> nat \<Rightarrow> lptr \<Rightarrow> lptr" where
  "relocate old new p = (case p of BlockP g i \<Rightarrow> if g = old then BlockP new i else Wild | _ \<Rightarrow> Wild)"

text \<open>The loops that correct the working list; \<open>old\<close> is the generation of the pointers that are still in the blocks.\<close>

fun correct_next :: "nat \<Rightarrow> nat \<Rightarrow> lptr \<Rightarrow> 'd list_pool \<Rightarrow> 'd list_pool result" where
  "correct_next 0 old cur pool = Inl Diverges"
| "correct_next (Suc fuel) old cur pool =
     rbind (block_at cur pool) (\<lambda>b.
     if ptr_next b = TailP then Inr pool
     else
       let next = relocate old (generation pool) (ptr_next b) in
       rbind (upd_block cur (\<lambda>b. b\<lparr>ptr_next := next\<rparr>) pool) (correct_next fuel old next))"

fun correct_prev :: "nat \<Rightarrow> nat \<Rightarrow> lptr \<Rightarrow> 'd list_pool \<Rightarrow> 'd list_pool result" where
  "correct_prev 0 old cur pool = Inl Diverges"
| "correct_prev (Suc fuel) old cur pool =
     rbind (block_at cur pool) (\<lambda>b.
     if ptr_prev b = HeadP then Inr pool
     else
       let prev = relocate old (generation pool) (ptr_prev b) in
       rbind (upd_block cur (\<lambda>b. b\<lparr>ptr_prev := prev\<rparr>) pool) (correct_prev fuel old prev))"

definition EnsureSize :: "bool \<Rightarrow> 'd \<Rightarrow> nat \<Rightarrow> 'd list_pool \<Rightarrow> (bool \<times> 'd list_pool) result" where
  "EnsureSize mem z sz pool =
     (if sz \<le> pool_size pool then Inr (True, pool)
      else if enable_realloc pool then
        if \<not> mem then Inl NullDeref
        else
          let old = generation pool; n = pool_size pool;
              new_block_buf = block_buf pool @ map (\<lambda>i. (zero_block z)\<lparr>lb_id := i\<rparr>) [n..<sz];
              new_ptr_buf = map (relocate old (Suc old)) (block_ptr_buf pool) @ map (BlockP (Suc old)) [n..<sz];
              pool = pool\<lparr>block_buf := new_block_buf, block_ptr_buf := new_ptr_buf, generation := Suc old\<rparr> in
          rbind (correct_next (Suc n) old HeadP pool) (\<lambda>pool.
          rbind (correct_prev (Suc n) old TailP pool) (\<lambda>pool.
          Inr (True, pool\<lparr>alloc_index := n, free_index := 0, pool_size := sz\<rparr>)))
      else Inr (False, pool))"

definition LinkToTail :: "lptr \<Rightarrow> 'd list_pool \<Rightarrow> 'd list_pool result" where
  "LinkToTail blk pool =
     rbind (upd_block (ptr_prev (list_tail pool)) (\<lambda>b. b\<lparr>ptr_next := blk\<rparr>) pool) (\<lambda>pool.
     rbind (upd_block blk (\<lambda>b. b\<lparr>ptr_prev := ptr_prev (list_tail pool)\<rparr>) pool) (\<lambda>pool.
     rbind (upd_block TailP (\<lambda>b. b\<lparr>ptr_prev := blk\<rparr>) pool) (\<lambda>pool.
     upd_block blk (\<lambda>b. b\<lparr>ptr_next := TailP\<rparr>) pool)))"

definition LinkToHead :: "lptr \<Rightarrow> 'd list_pool \<Rightarrow> 'd list_pool result" where
  "LinkToHead blk pool =
     rbind (upd_block (ptr_next (list_head pool)) (\<lambda>b. b\<lparr>ptr_prev := blk\<rparr>) pool) (\<lambda>pool.
     rbind (upd_block blk (\<lambda>b. b\<lparr>ptr_next := ptr_next (list_head pool)\<rparr>) pool) (\<lambda>pool.
     rbind (upd_block HeadP (\<lambda>b. b\<lparr>ptr_next := blk\<rparr>) pool) (\<lambda>pool.
     upd_block blk (\<lambda>b. b\<lparr>ptr_prev := HeadP\<rparr>) pool)))"

text \<open>The next place of the ring.\<close>

definition ring_next :: "nat \<Rightarrow> nat \<Rightarrow> nat" where
  "ring_next sz i = (let i = uadd i 1 in if i = sz then 0 else i)"

definition pool_no_block :: nat where
  "pool_no_block = 2 ^ 32 - 1"

definition mark_alloc :: "bool \<Rightarrow> lptr \<Rightarrow> 'd list_pool \<Rightarrow> 'd list_pool result" where
  "mark_alloc debug p pool =
     (if debug then
        rbind (block_at p pool) (\<lambda>b.
        if lb_status b \<noteq> 0 then Inl AssertFailed else upd_block p (\<lambda>b. b\<lparr>lb_status := 1\<rparr>) pool)
      else Inr pool)"

text \<open>\<open>Alloc\<close> after the test for space.\<close>

definition alloc_block :: "bool \<Rightarrow> 'd list_pool \<Rightarrow> (nat \<times> 'd list_pool) result" where
  "alloc_block debug pool =
     (if \<not> alloc_index pool < length (block_ptr_buf pool) then Inl OutOfBounds
      else
        let p = block_ptr_buf pool ! alloc_index pool in
        rbind (mark_alloc debug p pool) (\<lambda>pool.
        let pool = pool\<lparr>alloc_index := ring_next (pool_size pool) (alloc_index pool), working_num := uadd (working_num pool) 1\<rparr>;
            pool = (if debug \<and> peak pool < working_num pool then pool\<lparr>peak := working_num pool\<rparr> else pool) in
        rbind (LinkToTail p pool) (\<lambda>pool.
        rbind (block_at p pool) (\<lambda>b. Inr (lb_id b, pool)))))"

definition Alloc :: "bool \<Rightarrow> bool \<Rightarrow> 'd \<Rightarrow> 'd list_pool \<Rightarrow> (nat \<times> 'd list_pool) result" where
  "Alloc debug mem z pool =
     rbind (if working_num pool \<ge> pool_size pool then EnsureSize mem z (umul (pool_size pool) 2) pool else Inr (True, pool)) (\<lambda>(ok, pool).
     if \<not> ok then Inr (pool_no_block, pool) else alloc_block debug pool)"

definition mark_free :: "bool \<Rightarrow> lptr \<Rightarrow> 'd list_pool \<Rightarrow> 'd list_pool result" where
  "mark_free debug p pool =
     (if debug then
        rbind (block_at p pool) (\<lambda>b.
        if lb_status b \<noteq> 1 then Inl AssertFailed else upd_block p (\<lambda>b. b\<lparr>lb_status := 0\<rparr>) pool)
      else Inr pool)"

definition Free_ptr :: "bool \<Rightarrow> lptr \<Rightarrow> 'd list_pool \<Rightarrow> 'd list_pool result" where
  "Free_ptr debug p pool =
     (if debug \<and> working_num pool = 0 then Inl AssertFailed
      else if \<not> free_index pool < length (block_ptr_buf pool) then Inl HeapOverflow
      else
        let pool = pool\<lparr>block_ptr_buf := (block_ptr_buf pool)[free_index pool := p]\<rparr> in
        rbind (mark_free debug p pool) (\<lambda>pool.
        let pool = pool\<lparr>free_index := ring_next (pool_size pool) (free_index pool), working_num := usub (working_num pool) 1\<rparr> in
        rbind (block_at p pool) (\<lambda>b.
        rbind (upd_block (ptr_prev b) (\<lambda>c. c\<lparr>ptr_next := ptr_next b\<rparr>) pool) (\<lambda>pool.
        rbind (block_at p pool) (\<lambda>b.
        upd_block (ptr_next b) (\<lambda>c. c\<lparr>ptr_prev := ptr_prev b\<rparr>) pool)))))"

definition Free :: "bool \<Rightarrow> nat \<Rightarrow> 'd list_pool \<Rightarrow> 'd list_pool result" where
  "Free debug block_index pool = Free_ptr debug (BlockP (generation pool) block_index) pool"

definition GetData :: "nat \<Rightarrow> 'd list_pool \<Rightarrow> 'd result" where
  "GetData i pool = (if i < length (block_buf pool) then Inr (lb_data (block_buf pool ! i)) else Inl OutOfBounds)"

definition SetData :: "nat \<Rightarrow> 'd \<Rightarrow> 'd list_pool \<Rightarrow> 'd list_pool result" where
  "SetData i d pool = upd_block (BlockP (generation pool) i) (\<lambda>b. b\<lparr>lb_data := d\<rparr>) pool"

definition EnableRealloc :: "bool \<Rightarrow> 'd list_pool \<Rightarrow> 'd list_pool" where
  "EnableRealloc is_enable pool = pool\<lparr>enable_realloc := is_enable\<rparr>"

text \<open>The walk of \<open>Print\<close> over the working list, as the numbers it prints.\<close>

fun working_ids :: "nat \<Rightarrow> lptr \<Rightarrow> 'd list_pool \<Rightarrow> nat list result" where
  "working_ids 0 p pool = Inl Diverges"
| "working_ids (Suc fuel) p pool =
     (if p = TailP then Inr []
      else rbind (block_at p pool) (\<lambda>b. rbind (working_ids fuel (ptr_next b) pool) (\<lambda>ids. Inr (lb_id b # ids))))"

section \<open>Blocks linked by indices\<close>

record 'd iblock =
  index_prev :: nat
  index_next :: nat
  ib_id :: nat
  ib_data :: 'd
  ib_status :: nat

record 'd index_pool =
  ix_block_buf :: "'d iblock list"
  ix_index_buf :: "nat list"
  ix_alloc_index :: nat
  ix_free_index :: nat
  ix_size :: nat
  ix_working_num :: nat
  ix_enable_realloc :: bool
  ix_peak :: nat
  ix_head :: "'d iblock"
  ix_tail :: "'d iblock"

definition HEAD_ID :: nat where "HEAD_ID = 2 ^ 32 - 1"
definition TAIL_ID :: nat where "TAIL_ID = 2 ^ 32 - 2"

definition zero_iblock :: "'d \<Rightarrow> 'd iblock" where
  "zero_iblock z = \<lparr>index_prev = 0, index_next = 0, ib_id = 0, ib_data = z, ib_status = 0\<rparr>"

definition ListMemoryPool_UseIndex :: "bool \<Rightarrow> 'd \<Rightarrow> nat \<Rightarrow> bool \<Rightarrow> 'd index_pool result" where
  "ListMemoryPool_UseIndex mem z init_size realloc =
     (if \<not> mem then Inl NullDeref
      else Inr \<lparr>ix_block_buf = map (\<lambda>i. (zero_iblock z)\<lparr>ib_id := i\<rparr>) [0..<init_size], ix_index_buf = [0..<init_size],
        ix_alloc_index = 0, ix_free_index = 0, ix_size = init_size, ix_working_num = 0, ix_enable_realloc = realloc, ix_peak = 0,
        ix_head = (zero_iblock z)\<lparr>ib_id := HEAD_ID, index_next := TAIL_ID\<rparr>,
        ix_tail = (zero_iblock z)\<lparr>ib_id := TAIL_ID, index_prev := HEAD_ID\<rparr>\<rparr>)"

text \<open>
  \<open>EnsureSize\<close>: the indices are copied with the size of a pointer, \<open>w\<close> bytes, for each of them. \<open>memcpy\<close>
  faults when it reads past the old buffer or writes past the new one.
\<close>

definition ix_EnsureSize :: "nat \<Rightarrow> bool \<Rightarrow> 'd \<Rightarrow> nat \<Rightarrow> 'd index_pool \<Rightarrow> (bool \<times> 'd index_pool) result" where
  "ix_EnsureSize w mem z sz pool =
     (if sz \<le> ix_size pool then Inr (True, pool)
      else if ix_enable_realloc pool then
        if \<not> mem then Inl NullDeref
        else
          let n = ix_size pool in
          rbind (write_range (replicate n (zero_iblock z) @ map (\<lambda>i. (zero_iblock z)\<lparr>ib_id := i\<rparr>) [n..<sz]) 0 (ix_block_buf pool))
            (\<lambda>new_block_buf.
          rbind (read_range (ix_index_buf pool) 0 (n * w div 4)) (\<lambda>old_indices.
          rbind (write_range (replicate n 0 @ [n..<sz]) 0 old_indices) (\<lambda>new_index_buf.
          Inr (True, pool\<lparr>ix_alloc_index := n, ix_free_index := 0, ix_size := sz, ix_block_buf := new_block_buf,
            ix_index_buf := new_index_buf\<rparr>))))
      else Inr (False, pool))"

text \<open>A block is the head, the tail, or an element of the buffer.\<close>

datatype node = HeadN | TailN | BlockN nat

definition GetNext :: "'d iblock \<Rightarrow> node" where
  "GetNext b = (if index_next b \<noteq> TAIL_ID then BlockN (index_next b) else TailN)"

definition GetPrev :: "'d iblock \<Rightarrow> node" where
  "GetPrev b = (if index_prev b \<noteq> HEAD_ID then BlockN (index_prev b) else HeadN)"

definition node_at :: "node \<Rightarrow> 'd index_pool \<Rightarrow> 'd iblock result" where
  "node_at p pool =
     (case p of
        HeadN \<Rightarrow> Inr (ix_head pool)
      | TailN \<Rightarrow> Inr (ix_tail pool)
      | BlockN i \<Rightarrow> if i < length (ix_block_buf pool) then Inr (ix_block_buf pool ! i) else Inl OutOfBounds)"

definition set_node :: "node \<Rightarrow> 'd iblock \<Rightarrow> 'd index_pool \<Rightarrow> 'd index_pool" where
  "set_node p b pool =
     (case p of
        HeadN \<Rightarrow> pool\<lparr>ix_head := b\<rparr>
      | TailN \<Rightarrow> pool\<lparr>ix_tail := b\<rparr>
      | BlockN i \<Rightarrow> pool\<lparr>ix_block_buf := (ix_block_buf pool)[i := b]\<rparr>)"

definition upd_node :: "node \<Rightarrow> ('d iblock \<Rightarrow> 'd iblock) \<Rightarrow> 'd index_pool \<Rightarrow> 'd index_pool result" where
  "upd_node p f pool = rbind (node_at p pool) (\<lambda>b. Inr (set_node p (f b) pool))"

definition ix_LinkToTail :: "node \<Rightarrow> 'd index_pool \<Rightarrow> 'd index_pool result" where
  "ix_LinkToTail p pool =
     rbind (node_at p pool) (\<lambda>b.
     rbind (upd_node (GetPrev (ix_tail pool)) (\<lambda>c. c\<lparr>index_next := ib_id b\<rparr>) pool) (\<lambda>pool.
     rbind (upd_node p (\<lambda>b. b\<lparr>index_prev := index_prev (ix_tail pool)\<rparr>) pool) (\<lambda>pool.
     rbind (upd_node TailN (\<lambda>c. c\<lparr>index_prev := ib_id b\<rparr>) pool) (\<lambda>pool.
     upd_node p (\<lambda>b. b\<lparr>index_next := TAIL_ID\<rparr>) pool))))"

definition ix_LinkToHead :: "node \<Rightarrow> 'd index_pool \<Rightarrow> 'd index_pool result" where
  "ix_LinkToHead p pool =
     rbind (node_at p pool) (\<lambda>b.
     rbind (upd_node (GetNext (ix_head pool)) (\<lambda>c. c\<lparr>index_prev := ib_id b\<rparr>) pool) (\<lambda>pool.
     rbind (upd_node p (\<lambda>b. b\<lparr>index_next := index_next (ix_head pool)\<rparr>) pool) (\<lambda>pool.
     rbind (upd_node HeadN (\<lambda>c. c\<lparr>index_next := ib_id b\<rparr>) pool) (\<lambda>pool.
     upd_node p (\<lambda>b. b\<lparr>index_prev := HEAD_ID\<rparr>) pool))))"

definition ix_mark_alloc :: "bool \<Rightarrow> node \<Rightarrow> 'd index_pool \<Rightarrow> 'd index_pool result" where
  "ix_mark_alloc debug p pool =
     (if debug then
        rbind (node_at p pool) (\<lambda>b.
        if ib_status b \<noteq> 0 then Inl AssertFailed else upd_node p (\<lambda>b. b\<lparr>ib_status := 1\<rparr>) pool)
      else Inr pool)"

definition ix_alloc_block :: "bool \<Rightarrow> 'd index_pool \<Rightarrow> (nat \<times> 'd index_pool) result" where
  "ix_alloc_block debug pool =
     (if \<not> ix_alloc_index pool < length (ix_index_buf pool) then Inl OutOfBounds
      else
        let p = BlockN (ix_index_buf pool ! ix_alloc_index pool) in
        rbind (ix_mark_alloc debug p pool) (\<lambda>pool.
        let pool = pool\<lparr>ix_alloc_index := ring_next (ix_size pool) (ix_alloc_index pool), ix_working_num := uadd (ix_working_num pool) 1\<rparr>;
            pool = (if debug \<and> ix_peak pool < ix_working_num pool then pool\<lparr>ix_peak := ix_working_num pool\<rparr> else pool) in
        rbind (ix_LinkToTail p pool) (\<lambda>pool.
        rbind (node_at p pool) (\<lambda>b. Inr (ib_id b, pool)))))"

definition ix_Alloc :: "nat \<Rightarrow> bool \<Rightarrow> bool \<Rightarrow> 'd \<Rightarrow> 'd index_pool \<Rightarrow> (nat \<times> 'd index_pool) result" where
  "ix_Alloc w debug mem z pool =
     rbind (if ix_working_num pool \<ge> ix_size pool then ix_EnsureSize w mem z (umul (ix_size pool) 2) pool else Inr (True, pool)) (\<lambda>(ok, pool).
     if \<not> ok then Inr (pool_no_block, pool) else ix_alloc_block debug pool)"

definition ix_mark_free :: "bool \<Rightarrow> node \<Rightarrow> 'd index_pool \<Rightarrow> 'd index_pool result" where
  "ix_mark_free debug p pool =
     (if debug then
        rbind (node_at p pool) (\<lambda>b.
        if ib_status b \<noteq> 1 then Inl AssertFailed else upd_node p (\<lambda>b. b\<lparr>ib_status := 0\<rparr>) pool)
      else Inr pool)"

definition ix_Free :: "bool \<Rightarrow> nat \<Rightarrow> 'd index_pool \<Rightarrow> 'd index_pool result" where
  "ix_Free debug block_index pool =
     (if debug \<and> ix_working_num pool = 0 then Inl AssertFailed
      else if \<not> ix_free_index pool < length (ix_index_buf pool) then Inl HeapOverflow
      else
        let pool = pool\<lparr>ix_index_buf := (ix_index_buf pool)[ix_free_index pool := block_index]\<rparr>; p = BlockN block_index in
        rbind (ix_mark_free debug p pool) (\<lambda>pool.
        let pool = pool\<lparr>ix_free_index := ring_next (ix_size pool) (ix_free_index pool), ix_working_num := usub (ix_working_num pool) 1\<rparr> in
        rbind (node_at p pool) (\<lambda>b.
        rbind (upd_node (GetPrev b) (\<lambda>c. c\<lparr>index_next := index_next b\<rparr>) pool) (\<lambda>pool.
        rbind (node_at p pool) (\<lambda>b.
        upd_node (GetNext b) (\<lambda>c. c\<lparr>index_prev := index_prev b\<rparr>) pool)))))"

text \<open>Freeing a block by its address: its number is read from the block.\<close>

definition ix_Free_ptr :: "bool \<Rightarrow> node \<Rightarrow> 'd index_pool \<Rightarrow> 'd index_pool result" where
  "ix_Free_ptr debug p pool = rbind (node_at p pool) (\<lambda>b. ix_Free debug (ib_id b) pool)"

definition ix_GetData :: "nat \<Rightarrow> 'd index_pool \<Rightarrow> 'd result" where
  "ix_GetData i pool = (if i < length (ix_block_buf pool) then Inr (ib_data (ix_block_buf pool ! i)) else Inl OutOfBounds)"

definition ix_SetData :: "nat \<Rightarrow> 'd \<Rightarrow> 'd index_pool \<Rightarrow> 'd index_pool result" where
  "ix_SetData i d pool = upd_node (BlockN i) (\<lambda>b. b\<lparr>ib_data := d\<rparr>) pool"

definition ix_EnableRealloc :: "bool \<Rightarrow> 'd index_pool \<Rightarrow> 'd index_pool" where
  "ix_EnableRealloc is_enable pool = pool\<lparr>ix_enable_realloc := is_enable\<rparr>"

fun ix_working_ids :: "nat \<Rightarrow> node \<Rightarrow> 'd index_pool \<Rightarrow> nat list result" where
  "ix_working_ids 0 p pool = Inl Diverges"
| "ix_working_ids (Suc fuel) p pool =
     (if p = TailN then Inr []
      else rbind (node_at p pool) (\<lambda>b. rbind (ix_working_ids fuel (GetNext b) pool) (\<lambda>ids. Inr (ib_id b # ids))))"

end
