(* ===== verification/ListPoolLinks.thy ===== *)
theory ListPoolLinks
  imports ListPool
begin

text \<open>
  Doubly linked lists and rings, for the two pools of \<open>ListPool\<close>. A list is a path along the next links and one
  back along the previous links; the locale \<open>list_nodes\<close> says what the nodes are.
\<close>

section \<open>Paths\<close>

text \<open>\<open>R i\<close> is what a link to block \<open>i\<close> looks like and \<open>B i\<close> the node that is then visited.\<close>

fun path :: "(nat \<Rightarrow> 'n) \<Rightarrow> (nat \<Rightarrow> 'n) \<Rightarrow> ('n \<Rightarrow> 'n) \<Rightarrow> 'n \<Rightarrow> nat list \<Rightarrow> 'n \<Rightarrow> bool" where
  "path R B f a [] b \<longleftrightarrow> f a = b"
| "path R B f a (i # V) b \<longleftrightarrow> f a = R i \<and> path R B f (B i) V b"

definition last_node :: "(nat \<Rightarrow> 'n) \<Rightarrow> 'n \<Rightarrow> nat list \<Rightarrow> 'n" where
  "last_node B a V = (if V = [] then a else B (last V))"

lemma last_node_simps [simp]: "last_node B a [] = a" "last_node B a (i # V) = last_node B (B i) V"
  by (simp_all add: last_node_def)

lemma last_node_in: "last_node B a V \<in> insert a (B ` set V)"
  by (simp add: last_node_def)

lemma path_cong:
  assumes "path R B f a V b" "\<And>x. x \<in> insert a (B ` set V) \<Longrightarrow> g x = f x"
  shows "path R B g a V b"
  using assms by (induction V arbitrary: a) auto

lemma path_end: "path R B f a V b \<Longrightarrow> f (last_node B a V) = b"
  by (induction V arbitrary: a) auto

lemma path_hd: "path R B f a V b \<Longrightarrow> f a = hd (map R V @ [b])"
  by (cases V) auto

lemma path_restart:
  assumes "path R B f a V b" "g c = f a" "\<And>x. x \<in> B ` set V \<Longrightarrow> g x = f x"
  shows "path R B g c V b"
  using assms path_cong [of R B f] by (cases V) auto

lemma path_retarget:
  assumes "path R B f a V b" "distinct V" "inj B" "a \<notin> B ` set V"
  shows "path R B (f(last_node B a V := c)) a V c"
  using assms
proof (induction V arbitrary: a)
  case (Cons i V)
  then have i: "B i \<notin> B ` set V" by (auto dest: injD)
  have "last_node B (B i) V \<noteq> a" using last_node_in [of B "B i" V] Cons.prems(4) by auto
  then show ?case using Cons i by simp
qed simp

lemma path_append: "path R B f a (U @ V) b \<longleftrightarrow> path R B f a U (hd (map R V @ [b])) \<and> (V \<noteq> [] \<longrightarrow> path R B f (B (hd V)) (tl V) b)"
  by (induction U arbitrary: a) (cases V; auto)+

lemma path_visit: "path R B f a (U @ [i] @ V) b \<longleftrightarrow> path R B f a U (R i) \<and> path R B f (B i) V b"
  by (simp add: path_append)

text \<open>Taking a block out: the node before it gets its link.\<close>

lemma path_unlink:
  assumes "path B B f a (U @ [i] @ V) b" "distinct (U @ [i] @ V)" "inj B" "a \<notin> range B"
  shows "path B B (f(last_node B a U := f (B i))) a (U @ V) b"
proof -
  let ?f = "f(last_node B a U := f (B i))"
  have U: "path B B f a U (B i)" and V: "path B B f (B i) V b" using assms(1) unfolding path_visit by blast+
  have "f (B i) = hd (map B V @ [b])" using path_hd [OF V] .
  moreover have "path B B ?f a U (f (B i))" using assms(2-4) by (intro path_retarget [OF U]) auto
  moreover have "path B B ?f (B (hd V)) (tl V) b" if "V \<noteq> []"
  proof -
    have V': "path B B f (B (hd V)) (tl V) b" using V that by (cases V) auto
    have "last_node B a U \<notin> insert (B (hd V)) (B ` set (tl V))"
      using last_node_in [of B a U] assms(2,4) that by (cases V) (auto simp: inj_eq [OF assms(3)])
    then show ?thesis by (intro path_cong [OF V']) auto
  qed
  ultimately show ?thesis by (simp add: path_append)
qed

section \<open>Lists\<close>

definition dll :: "'n \<Rightarrow> 'n \<Rightarrow> (nat \<Rightarrow> 'n) \<Rightarrow> ('n \<Rightarrow> 'n) \<Rightarrow> ('n \<Rightarrow> 'n) \<Rightarrow> nat list \<Rightarrow> bool" where
  "dll H T B nxt prv W \<longleftrightarrow> distinct W \<and> path B B nxt H W T \<and> path B B prv T (rev W) H"

locale list_nodes =
  fixes H T :: 'n and B :: "nat \<Rightarrow> 'n"
  assumes ends: "H \<notin> range B" "T \<notin> range B" "H \<noteq> T" and inj: "inj B"
begin

lemma opposite: "list_nodes T H B"
  using ends inj by unfold_locales auto

lemma prev_end: "dll H T B nxt prv W \<Longrightarrow> prv T = last_node B H W"
  using path_hd [of B B prv T "rev W" H] by (cases W rule: rev_cases) (simp_all add: dll_def last_node_def)

lemma link_end:
  assumes "dll H T B nxt prv W" "i \<notin> set W"
  shows "dll H T B (nxt(prv T := B i, B i := T)) (prv(B i := prv T, T := B i)) (W @ [i])"
proof -
  have W: "distinct W" "path B B nxt H W T" "path B B prv T (rev W) H" using assms(1) by (simp_all add: dll_def)
  note e = prev_end [OF assms(1)]
  have "prv T \<noteq> B i" using last_node_in [of B H W] assms(2) ends inj unfolding e by (auto dest: injD)
  then have "path B B (nxt(prv T := B i)) H W (B i)" unfolding e
    by (intro path_retarget [OF W(2,1) inj]) (use ends in auto)
  then have "path B B (nxt(prv T := B i, B i := T)) H W (B i)"
    by (rule path_cong) (use assms(2) ends inj in \<open>auto dest: injD\<close>)
  moreover have "path B B (prv(B i := prv T, T := B i)) (B i) (rev W) H"
    by (rule path_restart [OF W(3)]) (use assms(2) ends inj in \<open>auto dest: injD\<close>)
  ultimately show ?thesis using W(1) assms(2) ends path_visit [of B B _ H W i "[]" T] by (auto simp: dll_def)
qed

lemma neighbours:
  assumes "dll H T B nxt prv (U @ [i] @ V)"
  shows "prv (B i) = last_node B H U" "nxt (B i) = last_node B T (rev V)"
    "prv (B i) \<noteq> B i" "nxt (B i) \<noteq> B i" "prv (B i) \<in> insert H (B ` set (U @ V))" "nxt (B i) \<in> insert T (B ` set (U @ V))"
proof -
  have W: "path B B nxt H (U @ [i] @ V) T" "path B B prv T (rev V @ [i] @ rev U) H" "i \<notin> set U" "i \<notin> set V"
    using assms by (simp_all add: dll_def)
  have "path B B prv (B i) (rev U) H" "path B B nxt (B i) V T" using W(1,2) unfolding path_visit by blast+
  then show p: "prv (B i) = last_node B H U" and n: "nxt (B i) = last_node B T (rev V)"
    using path_hd [of B B prv "B i" "rev U" H] path_hd [of B B nxt "B i" V T]
    by (cases U rule: rev_cases, simp_all add: last_node_def) (cases V, simp_all add: last_node_def)
  show "prv (B i) \<in> insert H (B ` set (U @ V))" "nxt (B i) \<in> insert T (B ` set (U @ V))"
    using last_node_in [of B H U] last_node_in [of B T "rev V"] unfolding p n by auto
  then show "prv (B i) \<noteq> B i" "nxt (B i) \<noteq> B i" using W(3,4) ends inj by (auto dest: injD)
qed

lemma unlink:
  assumes "dll H T B nxt prv W" "i \<in> set W"
  shows "dll H T B (nxt(prv (B i) := nxt (B i))) (prv(nxt (B i) := prv (B i))) (remove1 i W)"
proof -
  obtain U V where W: "W = U @ [i] @ V" "i \<notin> set U" using split_list_first [OF assms(2)] by auto
  note d = assms(1) [unfolded W(1)]
  have dist: "distinct (U @ [i] @ V)" and nxt: "path B B nxt H (U @ [i] @ V) T" and prv: "path B B prv T (rev V @ [i] @ rev U) H"
    using d by (simp_all add: dll_def)
  have "path B B (nxt(prv (B i) := nxt (B i))) H (U @ V) T"
    using path_unlink [OF nxt dist inj] ends neighbours(1) [OF d] by simp
  moreover have "distinct (rev V @ [i] @ rev U)" using dist by auto
  then have "path B B (prv(nxt (B i) := prv (B i))) T (rev V @ rev U) H"
    using path_unlink [OF prv _ inj] ends neighbours(2) [OF d] by simp
  moreover have "remove1 i W = U @ V" using W by (simp add: remove1_append)
  ultimately show ?thesis using dist by (simp add: dll_def)
qed

end

section \<open>Rings\<close>

text \<open>The free blocks \<open>F\<close> are in the ring from the place of the next allocation to that of the next free.\<close>

definition ring_inv :: "(nat \<Rightarrow> 'x) \<Rightarrow> 'x list \<Rightarrow> nat \<Rightarrow> nat \<Rightarrow> nat list \<Rightarrow> bool" where
  "ring_inv R ring a f F \<longleftrightarrow>
     length ring < 2 ^ 32 \<and> a < length ring \<and> length F \<le> length ring \<and> f = (a + length F) mod length ring \<and>
     (\<forall>k < length F. ring ! ((a + k) mod length ring) = R (F ! k))"

lemma ring_next_mod: "i < n \<Longrightarrow> n < 2 ^ 32 \<Longrightarrow> ring_next n i = Suc i mod n"
  by (auto simp: ring_next_def uadd_def Let_def mod_Suc)

lemma ring_pop:
  assumes "ring_inv R ring a f (i # F)"
  shows "ring ! a = R i" "ring_inv R ring (ring_next (length ring) a) f F"
proof -
  have r: "length ring < 2 ^ 32" "a < length ring" "Suc (length F) \<le> length ring" "f = (a + Suc (length F)) mod length ring"
    and nth: "\<And>k. k < Suc (length F) \<Longrightarrow> ring ! ((a + k) mod length ring) = R ((i # F) ! k)"
    using assms by (simp_all add: ring_inv_def)
  show "ring ! a = R i" using nth [of 0] r(2) by simp
  have "ring ! ((Suc a mod length ring + k) mod length ring) = R (F ! k)" if "k < length F" for k
    using nth [of "Suc k"] that by (simp add: mod_add_left_eq)
  moreover have "f = (Suc a mod length ring + length F) mod length ring" using r(4) by (simp add: mod_add_left_eq)
  moreover have "Suc a mod length ring < length ring" by (rule mod_less_divisor) (use r(2) in linarith)
  ultimately show "ring_inv R ring (ring_next (length ring) a) f F" using r by (simp add: ring_inv_def ring_next_mod)
qed

lemma ring_push:
  assumes "ring_inv R ring a f F" "length F < length ring"
  shows "f < length ring" "ring_inv R (ring[f := R i]) a (ring_next (length ring) f) (F @ [i])"
proof -
  have r: "length ring < 2 ^ 32" "a < length ring" "f = (a + length F) mod length ring"
    and nth: "\<And>k. k < length F \<Longrightarrow> ring ! ((a + k) mod length ring) = R (F ! k)"
    using assms by (simp_all add: ring_inv_def)
  show f: "f < length ring" unfolding r(3) by (rule mod_less_divisor) (use r(2) in linarith)
  have other: "(a + k) mod length ring \<noteq> f" if "k < length F" for k
  proof
    assume "(a + k) mod length ring = f"
    then have "(a + k) mod length ring = (a + length F) mod length ring" using r(3) by simp
    then have "length ring dvd (length F - k)" using that by (metis add_diff_cancel_left mod_eq_dvd_iff_nat nat_add_left_cancel_le less_imp_le)
    then show False using that assms(2) by (metis dvd_imp_le less_imp_diff_less not_less zero_less_diff)
  qed
  have "(ring[f := R i]) ! ((a + k) mod length ring) = R ((F @ [i]) ! k)" if "k < Suc (length F)" for k
  proof (cases "k < length F")
    case True
    then show ?thesis using nth [OF True] other [OF True] by (simp add: nth_append)
  next
    case False
    then show ?thesis using that r(3) f by (simp add: less_Suc_eq)
  qed
  moreover have "ring_next (length ring) f = (a + Suc (length F)) mod length ring"
    using ring_next_mod [OF f r(1)] r(3) by (simp add: mod_Suc_eq)
  ultimately show "ring_inv R (ring[f := R i]) a (ring_next (length ring) f) (F @ [i])"
    using r assms(2) by (simp add: ring_inv_def)
qed

lemma ring_grown:
  assumes "n < sz" "sz < 2 ^ 32" "length xs = n"
  shows "ring_inv R (xs @ map R [n..<sz]) n 0 [n..<sz]"
  using assms by (auto simp: ring_inv_def nth_append)

end
