(* ===== verification/ListPoolPtr.thy ===== *)
theory ListPoolPtr
  imports ListPoolLinks
begin

text \<open>
  The pool with pointers: what its operations do to the links of the blocks, the invariant, and how a larger
  buffer takes the place of the old one.
\<close>

section \<open>Links\<close>

definition next_of :: "'d list_pool \<Rightarrow> lptr \<Rightarrow> lptr" where
  "next_of pool p = (case block_at p pool of Inl _ \<Rightarrow> Wild | Inr b \<Rightarrow> ptr_next b)"

definition prev_of :: "'d list_pool \<Rightarrow> lptr \<Rightarrow> lptr" where
  "prev_of pool p = (case block_at p pool of Inl _ \<Rightarrow> Wild | Inr b \<Rightarrow> ptr_prev b)"

definition valid :: "'d list_pool \<Rightarrow> lptr \<Rightarrow> bool" where
  "valid pool p \<longleftrightarrow> is_ok (block_at p pool)"

text \<open>A pool without its links.\<close>

definition strip_block :: "'d lblock \<Rightarrow> 'd lblock" where
  "strip_block b = b\<lparr>ptr_prev := Null, ptr_next := Null\<rparr>"

definition strip :: "'d list_pool \<Rightarrow> 'd list_pool" where
  "strip pool = pool\<lparr>block_buf := map strip_block (block_buf pool), list_head := strip_block (list_head pool),
     list_tail := strip_block (list_tail pool)\<rparr>"

lemma strip_block_fields:
  assumes "strip_block b = strip_block c" shows "lb_id b = lb_id c" "lb_status b = lb_status c" "lb_data b = lb_data c"
  using arg_cong [OF assms, of lb_id] arg_cong [OF assms, of lb_status] arg_cong [OF assms, of lb_data]
  by (simp_all add: strip_block_def)

lemma strip_fields:
  assumes "strip pool' = strip pool"
  shows "length (block_buf pool') = length (block_buf pool)" "block_ptr_buf pool' = block_ptr_buf pool" "generation pool' = generation pool"
    "alloc_index pool' = alloc_index pool" "free_index pool' = free_index pool" "pool_size pool' = pool_size pool"
    "working_num pool' = working_num pool" "enable_realloc pool' = enable_realloc pool"
    "i < length (block_buf pool) \<Longrightarrow> strip_block (block_buf pool' ! i) = strip_block (block_buf pool ! i)"
proof -
  have bufs: "map strip_block (block_buf pool') = map strip_block (block_buf pool)"
    using arg_cong [OF assms, of block_buf] by (simp add: strip_def)
  then show len: "length (block_buf pool') = length (block_buf pool)" by (rule map_eq_imp_length_eq)
  show "block_ptr_buf pool' = block_ptr_buf pool" using arg_cong [OF assms, of block_ptr_buf] by (simp add: strip_def)
  show "generation pool' = generation pool" using arg_cong [OF assms, of generation] by (simp add: strip_def)
  show "alloc_index pool' = alloc_index pool" using arg_cong [OF assms, of alloc_index] by (simp add: strip_def)
  show "free_index pool' = free_index pool" using arg_cong [OF assms, of free_index] by (simp add: strip_def)
  show "pool_size pool' = pool_size pool" using arg_cong [OF assms, of pool_size] by (simp add: strip_def)
  show "working_num pool' = working_num pool" using arg_cong [OF assms, of working_num] by (simp add: strip_def)
  show "enable_realloc pool' = enable_realloc pool" using arg_cong [OF assms, of enable_realloc] by (simp add: strip_def)
  show "i < length (block_buf pool) \<Longrightarrow> strip_block (block_buf pool' ! i) = strip_block (block_buf pool ! i)"
    using bufs len by (metis nth_map)
qed

lemma valid_iff:
  "valid pool p \<longleftrightarrow> p = HeadP \<or> p = TailP \<or> (\<exists>i < length (block_buf pool). p = BlockP (generation pool) i)"
  by (cases p) (auto simp: valid_def block_at_def)

lemma valid_strip: "strip pool' = strip pool \<Longrightarrow> valid pool' p = valid pool p"
  using strip_fields(1,3) by (metis valid_iff)

lemma valid_block: "valid pool p \<Longrightarrow> \<exists>b. block_at p pool = Inr b \<and> next_of pool p = ptr_next b \<and> prev_of pool p = ptr_prev b"
  by (auto simp: valid_def is_ok_iff next_of_def prev_of_def)

lemma block_at_set:
  "valid pool p \<Longrightarrow> block_at q (set_block p b pool) = (if q = p then Inr b else block_at q pool)"
  by (auto simp: valid_iff block_at_def set_block_def split: lptr.splits)

lemma set_block_strip:
  assumes "block_at p pool = Inr b" "strip_block c = strip_block b"
  shows "strip (set_block p c pool) = strip pool"
proof (cases p)
  case (BlockP g i)
  then have "i < length (block_buf pool)" "block_buf pool ! i = b" using assms(1) by (auto simp: block_at_def split: if_splits)
  then have "map strip_block ((block_buf pool)[i := c]) = map strip_block (block_buf pool)"
    using assms(2) by (auto simp: map_update list_update_same_conv)
  then show ?thesis using BlockP by (simp add: set_block_def strip_def)
qed (use assms in \<open>auto simp: block_at_def set_block_def strip_def\<close>)

lemma upd_link:
  assumes "valid pool p"
  shows "\<exists>pool'. upd_block p (\<lambda>b. b\<lparr>ptr_next := q\<rparr>) pool = Inr pool' \<and> next_of pool' = (next_of pool)(p := q) \<and>
      prev_of pool' = prev_of pool \<and> strip pool' = strip pool"
    and "\<exists>pool'. upd_block p (\<lambda>b. b\<lparr>ptr_prev := q\<rparr>) pool = Inr pool' \<and> prev_of pool' = (prev_of pool)(p := q) \<and>
      next_of pool' = next_of pool \<and> strip pool' = strip pool"
proof -
  obtain b where b: "block_at p pool = Inr b" using assms by (auto simp: valid_def is_ok_iff)
  have s: "strip_block (b\<lparr>ptr_next := q\<rparr>) = strip_block b" "strip_block (b\<lparr>ptr_prev := q\<rparr>) = strip_block b"
    by (simp_all add: strip_block_def)
  show "\<exists>pool'. upd_block p (\<lambda>b. b\<lparr>ptr_next := q\<rparr>) pool = Inr pool' \<and> next_of pool' = (next_of pool)(p := q) \<and>
      prev_of pool' = prev_of pool \<and> strip pool' = strip pool"
    using set_block_strip [OF b s(1)] b by (auto simp: upd_block_def fun_eq_iff next_of_def prev_of_def block_at_set [OF assms])
  show "\<exists>pool'. upd_block p (\<lambda>b. b\<lparr>ptr_prev := q\<rparr>) pool = Inr pool' \<and> prev_of pool' = (prev_of pool)(p := q) \<and>
      next_of pool' = next_of pool \<and> strip pool' = strip pool"
    using set_block_strip [OF b s(2)] b by (auto simp: upd_block_def fun_eq_iff next_of_def prev_of_def block_at_set [OF assms])
qed

lemma link_tail_result:
  assumes "valid pool p" "valid pool (prev_of pool TailP)"
  shows "\<exists>pool'. LinkToTail p pool = Inr pool' \<and> strip pool' = strip pool \<and>
    next_of pool' = (next_of pool)(prev_of pool TailP := p, p := TailP) \<and>
    prev_of pool' = (prev_of pool)(p := prev_of pool TailP, TailP := p)"
proof -
  have tail: "ptr_prev (list_tail q) = prev_of q TailP" for q :: "'a list_pool" by (simp add: prev_of_def block_at_def)
  obtain a where a: "upd_block (prev_of pool TailP) (\<lambda>b. b\<lparr>ptr_next := p\<rparr>) pool = Inr a"
      "next_of a = (next_of pool)(prev_of pool TailP := p)" "prev_of a = prev_of pool" "strip a = strip pool"
    using upd_link(1) [OF assms(2)] by blast
  have "valid a p" using valid_strip [OF a(4)] assms(1) by simp
  then obtain b where b: "upd_block p (\<lambda>b. b\<lparr>ptr_prev := prev_of a TailP\<rparr>) a = Inr b"
      "prev_of b = (prev_of a)(p := prev_of a TailP)" "next_of b = next_of a" "strip b = strip a"
    using upd_link(2) by blast
  have "valid b TailP" by (simp add: valid_iff)
  then obtain c where c: "upd_block TailP (\<lambda>b. b\<lparr>ptr_prev := p\<rparr>) b = Inr c" "prev_of c = (prev_of b)(TailP := p)" "next_of c = next_of b" "strip c = strip b"
    using upd_link(2) by blast
  have "valid c p" using valid_strip c(4) b(4) a(4) assms(1) by metis
  then obtain d where d: "upd_block p (\<lambda>b. b\<lparr>ptr_next := TailP\<rparr>) c = Inr d" "next_of d = (next_of c)(p := TailP)" "prev_of d = prev_of c" "strip d = strip c"
    using upd_link(1) by blast
  have "LinkToTail p pool = Inr d" using a(1) b(1) c(1) d(1) by (simp add: LinkToTail_def tail)
  then show ?thesis using a b c d by auto
qed

lemma unlink_result:
  assumes "valid pool p" "valid pool (prev_of pool p)" "valid pool (next_of pool p)" "prev_of pool p \<noteq> p"
  shows "\<exists>pool'. rbind (block_at p pool) (\<lambda>b. rbind (upd_block (ptr_prev b) (\<lambda>c. c\<lparr>ptr_next := ptr_next b\<rparr>) pool) (\<lambda>pool.
      rbind (block_at p pool) (\<lambda>b. upd_block (ptr_next b) (\<lambda>c. c\<lparr>ptr_prev := ptr_prev b\<rparr>) pool))) = Inr pool' \<and> strip pool' = strip pool \<and>
    next_of pool' = (next_of pool)(prev_of pool p := next_of pool p) \<and> prev_of pool' = (prev_of pool)(next_of pool p := prev_of pool p)"
proof -
  obtain b where b: "block_at p pool = Inr b" "next_of pool p = ptr_next b" "prev_of pool p = ptr_prev b"
    using valid_block [OF assms(1)] by blast
  obtain a where a: "upd_block (ptr_prev b) (\<lambda>c. c\<lparr>ptr_next := ptr_next b\<rparr>) pool = Inr a"
      "next_of a = (next_of pool)(ptr_prev b := ptr_next b)" "prev_of a = prev_of pool" "strip a = strip pool"
    using upd_link(1) [OF assms(2)] b(3) by metis
  have "valid a p" using valid_strip [OF a(4)] assms(1) by simp
  then obtain c where c: "block_at p a = Inr c" "next_of a p = ptr_next c" "prev_of a p = ptr_prev c" using valid_block by blast
  have same: "ptr_next c = ptr_next b" "ptr_prev c = ptr_prev b" using c(2,3) a(2,3) b assms(4) by simp_all
  have "valid a (ptr_next b)" using valid_strip [OF a(4)] assms(3) b(2) by simp
  then obtain d where "upd_block (ptr_next b) (\<lambda>c. c\<lparr>ptr_prev := ptr_prev b\<rparr>) a = Inr d"
      "prev_of d = (prev_of a)(ptr_next b := ptr_prev b)" "next_of d = next_of a" "strip d = strip a"
    using upd_link(2) by blast
  then show ?thesis using a b c(1) same by simp
qed

interpretation ptr: list_nodes HeadP TailP "BlockP g" for g
  by unfold_locales (auto simp: inj_def)

section \<open>The invariant\<close>

text \<open>\<open>W\<close> are the blocks in use in the order of the list, \<open>F\<close> the free blocks in the order in which they will be used.\<close>

definition lpool_inv :: "bool \<Rightarrow> 'd list_pool \<Rightarrow> nat list \<Rightarrow> nat list \<Rightarrow> bool" where
  "lpool_inv debug pool W F \<longleftrightarrow>
     length (block_buf pool) = pool_size pool \<and> length (block_ptr_buf pool) = pool_size pool \<and> pool_size pool \<le> 2 ^ 32 - 2 \<and>
     distinct (W @ F) \<and> set (W @ F) = {..<pool_size pool} \<and> working_num pool = length W \<and>
     (\<forall>i < pool_size pool. lb_id (block_buf pool ! i) = i \<and> (debug \<longrightarrow> lb_status (block_buf pool ! i) = of_bool (i \<in> set W))) \<and>
     ring_inv (BlockP (generation pool)) (block_ptr_buf pool) (alloc_index pool) (free_index pool) F \<and>
     dll HeadP TailP (BlockP (generation pool)) (next_of pool) (prev_of pool) W"

lemma lpool_invD:
  assumes "lpool_inv debug pool W F"
  shows "length (block_buf pool) = pool_size pool" "length (block_ptr_buf pool) = pool_size pool" "pool_size pool \<le> 2 ^ 32 - 2"
    "distinct (W @ F)" "set (W @ F) = {..<pool_size pool}" "working_num pool = length W"
    "\<And>i. i < pool_size pool \<Longrightarrow> lb_id (block_buf pool ! i) = i"
    "\<And>i. i < pool_size pool \<Longrightarrow> debug \<Longrightarrow> lb_status (block_buf pool ! i) = of_bool (i \<in> set W)"
    "ring_inv (BlockP (generation pool)) (block_ptr_buf pool) (alloc_index pool) (free_index pool) F"
    "dll HeadP TailP (BlockP (generation pool)) (next_of pool) (prev_of pool) W"
    "length W + length F = pool_size pool" "\<And>i. i \<in> set W \<union> set F \<Longrightarrow> valid pool (BlockP (generation pool) i)"
proof -
  show *: "length (block_buf pool) = pool_size pool" "length (block_ptr_buf pool) = pool_size pool" "pool_size pool \<le> 2 ^ 32 - 2"
    "distinct (W @ F)" "set (W @ F) = {..<pool_size pool}" "working_num pool = length W"
    "\<And>i. i < pool_size pool \<Longrightarrow> lb_id (block_buf pool ! i) = i"
    "\<And>i. i < pool_size pool \<Longrightarrow> debug \<Longrightarrow> lb_status (block_buf pool ! i) = of_bool (i \<in> set W)"
    "ring_inv (BlockP (generation pool)) (block_ptr_buf pool) (alloc_index pool) (free_index pool) F"
    "dll HeadP TailP (BlockP (generation pool)) (next_of pool) (prev_of pool) W"
    using assms unfolding lpool_inv_def by blast+
  show "length W + length F = pool_size pool" using distinct_card [OF *(4)] *(5) by simp
  show "\<And>i. i \<in> set W \<union> set F \<Longrightarrow> valid pool (BlockP (generation pool) i)" using *(1,5) by (auto simp: valid_iff)
qed

text \<open>Two steps that do not touch the links: the marks of debug builds and the counters.\<close>

lemma field_result:
  assumes "valid pool (BlockP (generation pool) i)" "\<And>b. ptr_next (f b) = ptr_next b" "\<And>b. ptr_prev (f b) = ptr_prev b"
  shows "upd_block (BlockP (generation pool) i) f pool = Inr (pool\<lparr>block_buf := (block_buf pool)[i := f (block_buf pool ! i)]\<rparr>)"
    "next_of (pool\<lparr>block_buf := (block_buf pool)[i := f (block_buf pool ! i)]\<rparr>) = next_of pool"
    "prev_of (pool\<lparr>block_buf := (block_buf pool)[i := f (block_buf pool ! i)]\<rparr>) = prev_of pool"
proof -
  let ?p = "BlockP (generation pool) i"
  have i: "i < length (block_buf pool)" using assms(1) by (auto simp: valid_iff)
  have "next_of (set_block ?p (f (block_buf pool ! i)) pool) = next_of pool" "prev_of (set_block ?p (f (block_buf pool ! i)) pool) = prev_of pool"
    using i assms(2,3) by (auto simp: fun_eq_iff next_of_def prev_of_def block_at_set [OF assms(1)]) (simp_all add: block_at_def)
  then show "next_of (pool\<lparr>block_buf := (block_buf pool)[i := f (block_buf pool ! i)]\<rparr>) = next_of pool"
    "prev_of (pool\<lparr>block_buf := (block_buf pool)[i := f (block_buf pool ! i)]\<rparr>) = prev_of pool"
    by (simp_all add: set_block_def)
  show "upd_block ?p f pool = Inr (pool\<lparr>block_buf := (block_buf pool)[i := f (block_buf pool ! i)]\<rparr>)"
    using i by (simp add: upd_block_def block_at_def set_block_def)
qed

lemma status_result:
  assumes "valid pool (BlockP (generation pool) i)"
  shows "\<exists>pool'. upd_block (BlockP (generation pool) i) (\<lambda>b. b\<lparr>lb_status := s\<rparr>) pool = Inr pool' \<and>
    pool' = pool\<lparr>block_buf := (block_buf pool)[i := (block_buf pool ! i)\<lparr>lb_status := s\<rparr>]\<rparr> \<and>
    next_of pool' = next_of pool \<and> prev_of pool' = prev_of pool"
  using field_result [OF assms, of "\<lambda>b. b\<lparr>lb_status := s\<rparr>"] by simp

definition counters :: "'d list_pool \<Rightarrow> lptr list \<Rightarrow> nat \<Rightarrow> nat \<Rightarrow> nat \<Rightarrow> nat \<Rightarrow> 'd list_pool" where
  "counters pool ring a f n k = pool\<lparr>block_ptr_buf := ring, alloc_index := a, free_index := f, working_num := n, peak := k\<rparr>"

lemma counters_links: "next_of (counters pool ring a f n k) = next_of pool" "prev_of (counters pool ring a f n k) = prev_of pool"
  "valid (counters pool ring a f n k) p = valid pool p"
  by (simp_all add: fun_eq_iff next_of_def prev_of_def block_at_def counters_def valid_def split: lptr.splits)

section \<open>Allocating and freeing\<close>

lemma mark_alloc_result:
  assumes "lpool_inv debug pool W F" "i \<in> set F"
  shows "\<exists>buf. mark_alloc debug (BlockP (generation pool) i) pool = Inr (pool\<lparr>block_buf := buf\<rparr>) \<and> length buf = pool_size pool \<and>
    (\<forall>j < pool_size pool. lb_id (buf ! j) = j \<and> lb_data (buf ! j) = lb_data (block_buf pool ! j) \<and>
       (debug \<longrightarrow> lb_status (buf ! j) = of_bool (j \<in> set (W @ [i])))) \<and>
    next_of (pool\<lparr>block_buf := buf\<rparr>) = next_of pool \<and> prev_of (pool\<lparr>block_buf := buf\<rparr>) = prev_of pool"
proof -
  note I = lpool_invD [OF assms(1)]
  have v: "valid pool (BlockP (generation pool) i)" using I(12) assms(2) by blast
  then have i: "i < pool_size pool" using I(1) by (auto simp: valid_iff)
  have "i \<notin> set W" using I(4) assms(2) by auto
  then have st: "debug \<Longrightarrow> lb_status (block_buf pool ! i) = 0" using I(8) [OF i] by simp
  show ?thesis
  proof (cases debug)
    case True
    then show ?thesis using status_result [OF v, of 1] st I(1,7,8) i
      by (auto simp: mark_alloc_def block_at_def nth_list_update intro!: exI [of _ "(block_buf pool)[i := (block_buf pool ! i)\<lparr>lb_status := 1\<rparr>]"])
  next
    case False
    then show ?thesis using I(1,7) by (auto simp: mark_alloc_def intro!: exI [of _ "block_buf pool"])
  qed
qed

text \<open>The invariant from what a step has left of a pool with the same links.\<close>

lemma lpool_inv_strip:
  assumes "strip pool' = strip pool" "length (block_buf pool) = pool_size pool" "length (block_ptr_buf pool) = pool_size pool"
    and "pool_size pool \<le> 2 ^ 32 - 2" "distinct (W @ F)" "set (W @ F) = {..<pool_size pool}" "working_num pool = length W"
    and "\<forall>j < pool_size pool. lb_id (block_buf pool ! j) = j \<and> (debug \<longrightarrow> lb_status (block_buf pool ! j) = of_bool (j \<in> set W))"
    and "ring_inv (BlockP (generation pool)) (block_ptr_buf pool) (alloc_index pool) (free_index pool) F"
    and "dll HeadP TailP (BlockP (generation pool)) (next_of pool') (prev_of pool') W"
  shows "lpool_inv debug pool' W F" "\<And>j. j < pool_size pool \<Longrightarrow> lb_data (block_buf pool' ! j) = lb_data (block_buf pool ! j)"
    "\<And>j. j < pool_size pool \<Longrightarrow> block_at (BlockP (generation pool) j) pool' = Inr (block_buf pool' ! j) \<and> lb_id (block_buf pool' ! j) = j"
proof -
  note s = strip_fields [OF assms(1)]
  have b: "lb_id (block_buf pool' ! j) = lb_id (block_buf pool ! j)" "lb_status (block_buf pool' ! j) = lb_status (block_buf pool ! j)"
      "lb_data (block_buf pool' ! j) = lb_data (block_buf pool ! j)" if "j < pool_size pool" for j
    using strip_block_fields [OF s(9)] that assms(2) by simp_all
  then show "\<And>j. j < pool_size pool \<Longrightarrow> lb_data (block_buf pool' ! j) = lb_data (block_buf pool ! j)" by simp
  show "lpool_inv debug pool' W F" using assms(2-) s(1-7) b(1,2) by (simp add: lpool_inv_def)
  show "\<And>j. j < pool_size pool \<Longrightarrow> block_at (BlockP (generation pool) j) pool' = Inr (block_buf pool' ! j) \<and> lb_id (block_buf pool' ! j) = j"
    using s(1,3) assms(2,8) b(1) by (simp add: block_at_def)
qed

lemma alloc_block_result:
  assumes "lpool_inv debug pool W (i # F)"
  shows "\<exists>pool'. alloc_block debug pool = Inr (i, pool') \<and> lpool_inv debug pool' (W @ [i]) F \<and> enable_realloc pool' = enable_realloc pool \<and>
    pool_size pool' = pool_size pool \<and> (\<forall>j < pool_size pool. lb_data (block_buf pool' ! j) = lb_data (block_buf pool ! j))"
proof -
  note I = lpool_invD [OF assms]
  let ?g = "generation pool"
  let ?p = "BlockP ?g i"
  have ring: "block_ptr_buf pool ! alloc_index pool = ?p"
      "ring_inv (BlockP ?g) (block_ptr_buf pool) (ring_next (pool_size pool) (alloc_index pool)) (free_index pool) F"
    using ring_pop [OF I(9)] I(2) by simp_all
  have a: "alloc_index pool < length (block_ptr_buf pool)" using I(9) by (simp add: ring_inv_def)
  obtain buf where buf: "mark_alloc debug ?p pool = Inr (pool\<lparr>block_buf := buf\<rparr>)" "length buf = pool_size pool"
      "\<forall>j < pool_size pool. lb_id (buf ! j) = j \<and> lb_data (buf ! j) = lb_data (block_buf pool ! j) \<and> (debug \<longrightarrow> lb_status (buf ! j) = of_bool (j \<in> set (W @ [i])))"
      "next_of (pool\<lparr>block_buf := buf\<rparr>) = next_of pool" "prev_of (pool\<lparr>block_buf := buf\<rparr>) = prev_of pool"
    using mark_alloc_result [OF assms, of i] by auto
  have i: "i < pool_size pool" "i \<notin> set W" using I(4,5) by auto
  have num: "uadd (working_num pool) 1 = Suc (length W)" using I(3,6,11) by (simp add: uadd_small)
  let ?k = "if debug \<and> peak pool < Suc (length W) then Suc (length W) else peak pool"
  obtain c where cdef: "c = counters (pool\<lparr>block_buf := buf\<rparr>) (block_ptr_buf pool) (ring_next (pool_size pool) (alloc_index pool)) (free_index pool) (Suc (length W)) ?k"
    by simp
  have links: "next_of c = next_of pool" "prev_of c = prev_of pool" using buf(4,5) by (simp_all add: cdef counters_links)
  have c: "generation c = ?g" "pool_size c = pool_size pool" "block_buf c = buf" "block_ptr_buf c = block_ptr_buf pool" "working_num c = Suc (length W)"
      "alloc_index c = ring_next (pool_size pool) (alloc_index pool)" "free_index c = free_index pool" "enable_realloc c = enable_realloc pool"
    by (simp_all add: cdef counters_def)
  have v: "valid c ?p" using i buf(2) c by (auto simp: valid_iff)
  have "prev_of pool TailP = last_node (BlockP ?g) HeadP W" by (rule ptr.prev_end [OF I(10)])
  then have "prev_of pool TailP \<in> insert HeadP (BlockP ?g ` set W)" using last_node_in by metis
  then have "valid c (prev_of c TailP)" using I(5) buf(2) c links(2) by (auto simp: valid_iff)
  then obtain pool' where p': "LinkToTail ?p c = Inr pool'" "strip pool' = strip c"
      "next_of pool' = (next_of pool)(prev_of pool TailP := ?p, ?p := TailP)" "prev_of pool' = (prev_of pool)(?p := prev_of pool TailP, TailP := ?p)"
    using link_tail_result [OF v] links by metis
  have "dll HeadP TailP (BlockP ?g) (next_of pool') (prev_of pool') (W @ [i])" using ptr.link_end [OF I(10) i(2)] p'(3,4) by simp
  then have inv: "lpool_inv debug pool' (W @ [i]) F" "\<And>j. j < pool_size pool \<Longrightarrow> lb_data (block_buf pool' ! j) = lb_data (buf ! j)"
      "block_at ?p pool' = Inr (block_buf pool' ! i) \<and> lb_id (block_buf pool' ! i) = i"
    using lpool_inv_strip [OF p'(2), of "W @ [i]" F debug] buf(2,3) I(2-5) ring(2) i(1) by (simp_all add: c)
  have "alloc_block debug pool = rbind (LinkToTail ?p c) (\<lambda>pool. rbind (block_at ?p pool) (\<lambda>b. Inr (lb_id b, pool)))"
    using a ring(1) buf(1) num by (simp add: alloc_block_def cdef counters_def Let_def)
  then show ?thesis using p'(1) inv strip_fields(6,8) [OF p'(2)] buf(3) c by simp
qed

lemma mark_free_result:
  assumes "lpool_inv debug pool W F" "i \<in> set W"
  shows "\<exists>buf. mark_free debug (BlockP (generation pool) i) (pool\<lparr>block_ptr_buf := r\<rparr>) = Inr (pool\<lparr>block_ptr_buf := r, block_buf := buf\<rparr>) \<and> length buf = pool_size pool \<and>
    (\<forall>j < pool_size pool. lb_id (buf ! j) = j \<and> lb_data (buf ! j) = lb_data (block_buf pool ! j) \<and>
       (debug \<longrightarrow> lb_status (buf ! j) = of_bool (j \<in> set (remove1 i W)))) \<and>
    next_of (pool\<lparr>block_buf := buf\<rparr>) = next_of pool \<and> prev_of (pool\<lparr>block_buf := buf\<rparr>) = prev_of pool"
proof -
  note I = lpool_invD [OF assms(1)]
  have v: "valid pool (BlockP (generation pool) i)" using I(12) assms(2) by blast
  then have i: "i < pool_size pool" using I(1) by (auto simp: valid_iff)
  have W: "set (remove1 i W) = set W - {i}" using I(4) by (simp add: set_remove1_eq)
  have st: "debug \<Longrightarrow> lb_status (block_buf pool ! i) = 1" using I(8) [OF i] assms(2) by simp
  show ?thesis
  proof (cases debug)
    case True
    then show ?thesis using status_result [OF v, of 0] st I(1,7,8) i W
      by (auto simp: mark_free_def upd_block_def set_block_def block_at_def nth_list_update
          intro!: exI [of _ "(block_buf pool)[i := (block_buf pool ! i)\<lparr>lb_status := 0\<rparr>]"])
  next
    case False
    then show ?thesis using I(1,7) by (auto simp: mark_free_def intro!: exI [of _ "block_buf pool"])
  qed
qed

lemma Free_result:
  assumes "lpool_inv debug pool W F" "i \<in> set W"
  shows "\<exists>pool'. Free debug i pool = Inr pool' \<and> lpool_inv debug pool' (remove1 i W) (F @ [i]) \<and> enable_realloc pool' = enable_realloc pool \<and>
    pool_size pool' = pool_size pool \<and> (\<forall>j < pool_size pool. lb_data (block_buf pool' ! j) = lb_data (block_buf pool ! j))"
proof -
  note I = lpool_invD [OF assms(1)]
  let ?g = "generation pool"
  let ?p = "BlockP ?g i"
  have "1 \<le> length W" using assms(2) by (cases W) auto
  then have F: "length F < length (block_ptr_buf pool)" "working_num pool \<noteq> 0" "usub (working_num pool) 1 = length W - 1"
    using I(2,3,11) usub_small [of 1 "length W"] unfolding I(6) by linarith+
  note ring = ring_push(1) [OF I(9) F(1)] ring_push(2) [OF I(9) F(1), of i]
  define r where "r = (block_ptr_buf pool)[free_index pool := ?p]"
  obtain buf where buf: "mark_free debug ?p (pool\<lparr>block_ptr_buf := r\<rparr>) = Inr (pool\<lparr>block_ptr_buf := r, block_buf := buf\<rparr>)" "length buf = pool_size pool"
      "\<forall>j < pool_size pool. lb_id (buf ! j) = j \<and> lb_data (buf ! j) = lb_data (block_buf pool ! j) \<and> (debug \<longrightarrow> lb_status (buf ! j) = of_bool (j \<in> set (remove1 i W)))"
      "next_of (pool\<lparr>block_buf := buf\<rparr>) = next_of pool" "prev_of (pool\<lparr>block_buf := buf\<rparr>) = prev_of pool"
    using mark_free_result [OF assms] by metis
  obtain c where cdef: "c = counters (pool\<lparr>block_buf := buf\<rparr>) r (alloc_index pool) (ring_next (pool_size pool) (free_index pool)) (length W - 1) (peak pool)"
    by simp
  have links: "next_of c = next_of pool" "prev_of c = prev_of pool" using buf(4,5) by (simp_all add: cdef counters_links)
  have c: "generation c = ?g" "pool_size c = pool_size pool" "block_buf c = buf" "block_ptr_buf c = r" "working_num c = length W - 1"
      "alloc_index c = alloc_index pool" "free_index c = ring_next (pool_size pool) (free_index pool)" "enable_realloc c = enable_realloc pool"
    by (simp_all add: cdef counters_def)
  obtain U V where W: "W = U @ [i] @ V" using split_list [OF assms(2)] by auto
  note nb = ptr.neighbours [OF I(10) [unfolded W]]
  have v: "valid c ?p" "valid c (prev_of c ?p)" "valid c (next_of c ?p)" "prev_of c ?p \<noteq> ?p"
    using nb I(5) buf(2) c links W by (auto simp: valid_iff)
  obtain pool' where p': "rbind (block_at ?p c) (\<lambda>b. rbind (upd_block (ptr_prev b) (\<lambda>c. c\<lparr>ptr_next := ptr_next b\<rparr>) c) (\<lambda>pool.
      rbind (block_at ?p pool) (\<lambda>b. upd_block (ptr_next b) (\<lambda>c. c\<lparr>ptr_prev := ptr_prev b\<rparr>) pool))) = Inr pool'" "strip pool' = strip c"
      "next_of pool' = (next_of pool)(prev_of pool ?p := next_of pool ?p)" "prev_of pool' = (prev_of pool)(next_of pool ?p := prev_of pool ?p)"
    using unlink_result [OF v] links by metis
  have "dll HeadP TailP (BlockP ?g) (next_of pool') (prev_of pool') (remove1 i W)" using ptr.unlink [OF I(10) assms(2)] p'(3,4) by simp
  moreover have "distinct (remove1 i W @ F @ [i])" "set (remove1 i W @ F @ [i]) = {..<pool_size pool}"
    using I(4,5) assms(2) by (auto simp: set_remove1_eq)
  ultimately have inv: "lpool_inv debug pool' (remove1 i W) (F @ [i])" "\<And>j. j < pool_size pool \<Longrightarrow> lb_data (block_buf pool' ! j) = lb_data (buf ! j)"
    using lpool_inv_strip [OF p'(2), of "remove1 i W" "F @ [i]" debug] buf(2,3) I(2,3) ring(2) assms(2)
    by (simp_all add: c r_def length_remove1)
  have "c = pool\<lparr>block_ptr_buf := r, block_buf := buf, free_index := ring_next (pool_size pool) (free_index pool), working_num := length W - 1\<rparr>"
    by (rule list_pool.equality) (simp_all add: cdef counters_def)
  then have "Free debug i pool = Inr pool'" using F(2,3) ring(1) buf(1) p'(1) by (simp add: Free_def Free_ptr_def Let_def r_def)
  then show ?thesis using inv strip_fields(6,8) [OF p'(2)] buf(3) c by simp
qed

section \<open>A larger buffer\<close>

text \<open>One of the two loops that correct the working list, along the links \<open>link_of\<close> to the block \<open>stop\<close>.\<close>

locale correcting_loop =
  fixes loop :: "nat \<Rightarrow> nat \<Rightarrow> lptr \<Rightarrow> 'd list_pool \<Rightarrow> 'd list_pool result" and link_of other_of :: "'d list_pool \<Rightarrow> lptr \<Rightarrow> lptr" and stop :: lptr
  assumes at_stop: "valid pool cur \<Longrightarrow> link_of pool cur = stop \<Longrightarrow> loop (Suc fuel) old cur pool = Inr pool"
    and at_block: "valid pool cur \<Longrightarrow> link_of pool cur = BlockP old i \<Longrightarrow>
      \<exists>a. loop (Suc fuel) old cur pool = loop fuel old (BlockP (generation pool) i) a \<and> strip a = strip pool \<and>
        link_of a = (link_of pool)(cur := BlockP (generation pool) i) \<and> other_of a = other_of pool"
begin

lemma corrects:
  assumes "path (BlockP old) (BlockP g) (link_of pool) cur V stop" "generation pool = g" "valid pool cur"
    and "\<forall>i \<in> set V. i < length (block_buf pool)" "distinct V" "cur \<notin> BlockP g ` set V" "length V < fuel"
  shows "\<exists>pool'. loop fuel old cur pool = Inr pool' \<and> strip pool' = strip pool \<and> other_of pool' = other_of pool \<and>
    path (BlockP g) (BlockP g) (link_of pool') cur V stop \<and>
    (\<forall>x. x \<notin> insert cur (BlockP g ` set V) \<longrightarrow> link_of pool' x = link_of pool x)"
  using assms
proof (induction V arbitrary: cur pool fuel)
  case Nil
  then obtain n where "fuel = Suc n" by (cases fuel) auto
  then show ?case using at_stop [of pool cur] Nil by auto
next
  case (Cons i V)
  then obtain n where n: "fuel = Suc n" by (cases fuel) auto
  obtain a where a: "loop (Suc n) old cur pool = loop n old (BlockP g i) a" "strip a = strip pool"
      "link_of a = (link_of pool)(cur := BlockP g i)" "other_of a = other_of pool"
    using at_block [of pool cur old i n] Cons.prems(1-3) by auto
  note s = strip_fields [OF a(2)]
  have "path (BlockP old) (BlockP g) (link_of a) (BlockP g i) V stop"
    using Cons.prems(1,6) by (auto simp: a(3) elim!: path_cong)
  moreover have "valid a (BlockP g i)" using Cons.prems(2,4) s(1,3) by (simp add: valid_iff)
  ultimately obtain pool' where p': "loop n old (BlockP g i) a = Inr pool'" "strip pool' = strip a" "other_of pool' = other_of a"
      "path (BlockP g) (BlockP g) (link_of pool') (BlockP g i) V stop"
      "\<forall>x. x \<notin> insert (BlockP g i) (BlockP g ` set V) \<longrightarrow> link_of pool' x = link_of a x"
    using Cons.IH [of a "BlockP g i" n] Cons.prems(2,4,5,7) s(1,3) n by auto
  then show ?case using a Cons.prems(6) n by auto
qed

end

lemma correct_next_loop: "correcting_loop correct_next next_of prev_of TailP"
proof
  fix pool :: "'d list_pool" and cur fuel old i
  assume v: "valid pool cur"
  obtain b where b: "block_at cur pool = Inr b" "next_of pool cur = ptr_next b" using valid_block [OF v] by blast
  show "next_of pool cur = TailP \<Longrightarrow> correct_next (Suc fuel) old cur pool = Inr pool" using b by simp
  show "next_of pool cur = BlockP old i \<Longrightarrow> \<exists>a. correct_next (Suc fuel) old cur pool = correct_next fuel old (BlockP (generation pool) i) a \<and>
      strip a = strip pool \<and> next_of a = (next_of pool)(cur := BlockP (generation pool) i) \<and> prev_of a = prev_of pool"
    using b upd_link(1) [OF v, of "BlockP (generation pool) i"] by (auto simp: relocate_def)
qed

lemma correct_prev_loop: "correcting_loop correct_prev prev_of next_of HeadP"
proof
  fix pool :: "'d list_pool" and cur fuel old i
  assume v: "valid pool cur"
  obtain b where b: "block_at cur pool = Inr b" "prev_of pool cur = ptr_prev b" using valid_block [OF v] by blast
  show "prev_of pool cur = HeadP \<Longrightarrow> correct_prev (Suc fuel) old cur pool = Inr pool" using b by simp
  show "prev_of pool cur = BlockP old i \<Longrightarrow> \<exists>a. correct_prev (Suc fuel) old cur pool = correct_prev fuel old (BlockP (generation pool) i) a \<and>
      strip a = strip pool \<and> prev_of a = (prev_of pool)(cur := BlockP (generation pool) i) \<and> next_of a = next_of pool"
    using b upd_link(2) [OF v, of "BlockP (generation pool) i"] by (auto simp: relocate_def)
qed

declare correct_next.simps [simp del] correct_prev.simps [simp del]

interpretation nexts: correcting_loop correct_next next_of prev_of TailP by (rule correct_next_loop)

interpretation prevs: correcting_loop correct_prev prev_of next_of HeadP by (rule correct_prev_loop)

text \<open>The working list in the new buffer, and what is left of the pool.\<close>

lemma path_rename:
  assumes "path R B f a V b" "g a' = f a" "\<And>i. i \<in> set V \<Longrightarrow> g (B' i) = f (B i)"
  shows "path R B' g a' V b"
  using assms by (induction V arbitrary: a a') auto

lemma grown_blocks:
  assumes "distinct W" "set W = {..<n}" "n < sz"
  shows "distinct (W @ [n..<sz])" "set (W @ [n..<sz]) = {..<sz}"
  using assms(1,3) unfolding distinct_append set_append assms(2) by (simp_all add: ivl_disj_int ivl_disj_un)

lemma EnsureSize_result:
  assumes "lpool_inv debug pool W []" "pool_size pool < sz" "sz \<le> 2 ^ 32 - 2" "enable_realloc pool"
  shows "\<exists>pool'. EnsureSize True z sz pool = Inr (True, pool') \<and> lpool_inv debug pool' W [pool_size pool..<sz] \<and> enable_realloc pool' \<and>
    pool_size pool' = sz \<and> (\<forall>j < sz. lb_data (block_buf pool' ! j) = (if j < pool_size pool then lb_data (block_buf pool ! j) else z))"
proof -
  note I = lpool_invD [OF assms(1)]
  let ?n = "pool_size pool"
  define g where "g = Suc (generation pool)"
  define a where "a = pool\<lparr>block_buf := block_buf pool @ map (\<lambda>i. (zero_block z)\<lparr>lb_id := i\<rparr>) [?n..<sz],
    block_ptr_buf := map (relocate (generation pool) g) (block_ptr_buf pool) @ map (BlockP g) [?n..<sz], generation := g\<rparr>"
  have a: "generation a = g" "length (block_buf a) = sz" "enable_realloc a" using assms(2,4) I(1) by (simp_all add: a_def)
  have links: "next_of a HeadP = next_of pool HeadP" "prev_of a TailP = prev_of pool TailP"
      "\<And>i. i < ?n \<Longrightarrow> next_of a (BlockP g i) = next_of pool (BlockP (generation pool) i)"
      "\<And>i. i < ?n \<Longrightarrow> prev_of a (BlockP g i) = prev_of pool (BlockP (generation pool) i)"
    using I(1) by (simp_all add: a_def next_of_def prev_of_def block_at_def nth_append)
  have W: "distinct W" "length W < Suc ?n" "\<forall>i \<in> set W. i < ?n" "\<forall>i \<in> set W. i < length (block_buf a)"
    using I(4,5,11) a(2) assms(2) by auto
  have ends: "valid q HeadP" "valid q TailP" "HeadP \<notin> BlockP g ` set W" "TailP \<notin> BlockP g ` set (rev W)" for q :: "'a list_pool"
    by (auto simp: valid_iff)
  have n: "path (BlockP (generation pool)) (BlockP g) (next_of a) HeadP W TailP"
    using I(10) links(1,3) W(3) by (auto simp: dll_def elim!: path_rename)
  obtain b where b: "correct_next (Suc ?n) (generation pool) HeadP a = Inr b" "strip b = strip a" "prev_of b = prev_of a"
      "path (BlockP g) (BlockP g) (next_of b) HeadP W TailP"
    using nexts.corrects [OF n a(1) ends(1) W(4,1) ends(3) W(2)] by blast
  note s = strip_fields [OF b(2)]
  have p: "path (BlockP (generation pool)) (BlockP g) (prev_of b) TailP (rev W) HeadP"
    using I(10) links(2,4) W(3) by (auto simp: dll_def b(3) elim!: path_rename)
  have r: "\<forall>i \<in> set (rev W). i < length (block_buf b)" "distinct (rev W)" "length (rev W) < Suc ?n" "generation b = g"
    using W(1,2,4) s(1,3) a(1) by simp_all
  obtain c where c: "correct_prev (Suc ?n) (generation pool) TailP b = Inr c" "strip c = strip b" "next_of c = next_of b"
      "path (BlockP g) (BlockP g) (prev_of c) TailP (rev W) HeadP"
    using prevs.corrects [OF p r(4) ends(2) r(1,2) ends(4) r(3)] by blast
  have dll: "dll HeadP TailP (BlockP g) (next_of c) (prev_of c) W" using b(4) c(3,4) W(1) by (simp add: dll_def)
  define pool' where "pool' = c\<lparr>alloc_index := ?n, free_index := 0, pool_size := sz\<rparr>"
  define e where "e = a\<lparr>alloc_index := ?n, free_index := 0, pool_size := sz\<rparr>"
  have "strip pool' = (strip c)\<lparr>alloc_index := ?n, free_index := 0, pool_size := sz\<rparr>" by (simp add: strip_def pool'_def)
  then have st: "strip pool' = strip e" using b(2) c(2) by (simp add: strip_def e_def)
  have l: "next_of pool' = next_of c" "prev_of pool' = prev_of c"
    by (simp_all add: fun_eq_iff pool'_def next_of_def prev_of_def block_at_def split: lptr.splits)
  have e: "pool_size e = sz" "generation e = g" "length (block_buf e) = sz" "length (block_ptr_buf e) = sz" "working_num e = length W"
      "alloc_index e = ?n" "free_index e = 0" "enable_realloc e"
    using I(1,2,6) assms(2,4) by (simp_all add: e_def a_def)
  have blocks: "lb_id (block_buf e ! j) = j" "debug \<longrightarrow> lb_status (block_buf e ! j) = of_bool (j \<in> set W)"
      "lb_data (block_buf e ! j) = (if j < ?n then lb_data (block_buf pool ! j) else z)" if "j < sz" for j
    using that I(1,7,8) W(3) by (auto simp: e_def a_def nth_append zero_block_def)
  have "ring_inv (BlockP g) (block_ptr_buf e) ?n 0 [?n..<sz]"
    using ring_grown [OF assms(2), of "map (relocate (generation pool) g) (block_ptr_buf pool)" "BlockP g"] assms(3) I(2) by (simp add: e_def a_def)
  moreover have "distinct (W @ [?n..<sz])" "set (W @ [?n..<sz]) = {..<sz}" using grown_blocks [OF W(1)] I(5) assms(2) by simp_all
  ultimately have inv: "lpool_inv debug pool' W [?n..<sz]" "\<And>j. j < sz \<Longrightarrow> lb_data (block_buf pool' ! j) = lb_data (block_buf e ! j)"
    using lpool_inv_strip [OF st, of W "[?n..<sz]" debug] dll assms(3) blocks(1,2) by (simp_all add: e l)
  have "EnsureSize True z sz pool = Inr (True, pool')"
    using assms(2,4) b(1) c(1) by (simp add: EnsureSize_def Let_def a_def g_def pool'_def)
  then show ?thesis using inv blocks(3) strip_fields(8) [OF st] e(8) by (simp add: pool'_def)
qed

lemma new_lpool_inv:
  assumes "0 < n" "n \<le> 2 ^ 32 - 2"
  shows "\<exists>pool. ListMemoryPool True z n realloc = Inr pool \<and> lpool_inv debug pool [] [0..<n] \<and> enable_realloc pool = realloc \<and> pool_size pool = n \<and>
    (\<forall>j < n. lb_data (block_buf pool ! j) = z)"
proof -
  have "{0..<n} = {..<n}" by auto
  then show ?thesis using assms
    by (simp add: ListMemoryPool_def lpool_inv_def dll_def next_of_def prev_of_def block_at_def zero_block_def ring_inv_def)
qed

end
