(* ===== verification/ListPoolSpec.thy ===== *)
theory ListPoolSpec
  imports ListPoolPtr
begin

text \<open>
  What a list pool promises: a list of blocks in use, a queue of spare blocks and the data of all blocks. A pool
  implements the specification when each of its operations gives the answer of the specification and a pool that
  stands for the new state; the sequences of operations then agree too. The pool with pointers is an instance.
\<close>

section \<open>The specification\<close>

record 'd pool_spec =
  used :: "nat list"
  spare :: "nat list"
  contents :: "'d list"
  growing :: bool

definition spec_new :: "'d \<Rightarrow> nat \<Rightarrow> bool \<Rightarrow> 'd pool_spec" where
  "spec_new z n realloc = \<lparr>used = [], spare = [0..<n], contents = replicate n z, growing = realloc\<rparr>"

definition spec_grow :: "'d \<Rightarrow> 'd pool_spec \<Rightarrow> 'd pool_spec" where
  "spec_grow z s =
     (if spare s = [] \<and> growing s then
        let n = length (contents s) in s\<lparr>spare := [n..<2 * n], contents := contents s @ replicate n z\<rparr>
      else s)"

definition spec_take :: "'d pool_spec \<Rightarrow> nat \<times> 'd pool_spec" where
  "spec_take s = (case spare s of [] \<Rightarrow> (pool_no_block, s) | i # F \<Rightarrow> (i, s\<lparr>used := used s @ [i], spare := F\<rparr>))"

definition spec_alloc :: "'d \<Rightarrow> 'd pool_spec \<Rightarrow> nat \<times> 'd pool_spec" where
  "spec_alloc z s = spec_take (spec_grow z s)"

definition spec_free :: "nat \<Rightarrow> 'd pool_spec \<Rightarrow> 'd pool_spec" where
  "spec_free i s = s\<lparr>used := remove1 i (used s), spare := spare s @ [i]\<rparr>"

definition spec_put :: "nat \<Rightarrow> 'd \<Rightarrow> 'd pool_spec \<Rightarrow> 'd pool_spec" where
  "spec_put i d s = s\<lparr>contents := (contents s)[i := d]\<rparr>"

text \<open>A pool is never empty, and the double of a full one has to be a size: \<open>Alloc\<close> asks for it even where the pool may not grow.\<close>

definition spec_ok :: "'d pool_spec \<Rightarrow> bool" where
  "spec_ok s \<longleftrightarrow> contents s \<noteq> [] \<and> (spare s = [] \<longrightarrow> 2 * length (contents s) \<le> 2 ^ 32 - 2)"

datatype 'd pool_op = PAlloc | PFree nat | PGet nat | PSet nat 'd | PPrint
datatype 'd pool_out = BlockId nat | Done | BlockData 'd | BlockIds "nat list"

definition spec_step :: "'d \<Rightarrow> 'd pool_op \<Rightarrow> 'd pool_spec \<Rightarrow> 'd pool_out \<times> 'd pool_spec" where
  "spec_step z op s =
     (case op of
        PAlloc \<Rightarrow> (let (i, s) = spec_alloc z s in (BlockId i, s))
      | PFree i \<Rightarrow> (Done, spec_free i s)
      | PGet i \<Rightarrow> (BlockData (contents s ! i), s)
      | PSet i d \<Rightarrow> (Done, spec_put i d s)
      | PPrint \<Rightarrow> (BlockIds (used s), s))"

text \<open>Only blocks in use are freed, read and written.\<close>

definition legal :: "'d pool_op \<Rightarrow> 'd pool_spec \<Rightarrow> bool" where
  "legal op s \<longleftrightarrow>
     (case op of
        PAlloc \<Rightarrow> spec_ok s | PFree i \<Rightarrow> i \<in> set (used s) | PGet i \<Rightarrow> i \<in> set (used s) | PSet i _ \<Rightarrow> i \<in> set (used s) | PPrint \<Rightarrow> True)"

fun legal_run :: "'d \<Rightarrow> 'd pool_op list \<Rightarrow> 'd pool_spec \<Rightarrow> bool" where
  "legal_run z [] s \<longleftrightarrow> True"
| "legal_run z (op # ops) s \<longleftrightarrow> legal op s \<and> legal_run z ops (snd (spec_step z op s))"

fun spec_run :: "'d \<Rightarrow> 'd pool_op list \<Rightarrow> 'd pool_spec \<Rightarrow> 'd pool_out list \<times> 'd pool_spec" where
  "spec_run z [] s = ([], s)"
| "spec_run z (op # ops) s =
     (let (out, s) = spec_step z op s; (outs, s) = spec_run z ops s in (out # outs, s))"

lemma legal_run_append: "legal_run z (ops @ ops') s \<longleftrightarrow> legal_run z ops s \<and> legal_run z ops' (snd (spec_run z ops s))"
  by (induction ops arbitrary: s) (auto simp: split_beta Let_def)

lemma spec_alloc_fresh:
  assumes "distinct (used s @ spare s)" "set (used s @ spare s) = {..<length (contents s)}" "length (contents s) \<le> 2 ^ 32 - 2"
  shows "fst (spec_alloc z s) \<notin> set (used s)"
    "fst (spec_alloc z s) = pool_no_block \<and> used (snd (spec_alloc z s)) = used s \<or> used (snd (spec_alloc z s)) = used s @ [fst (spec_alloc z s)]"
    "j \<in> set (used s) \<Longrightarrow> contents (snd (spec_alloc z s)) ! j = contents s ! j"
proof -
  have lt: "j < length (contents s)" if "j \<in> set (used s)" for j using that assms(2) by auto
  have "fst (spec_alloc z s) \<in> set (spare s) \<or> length (contents s) \<le> fst (spec_alloc z s)"
  proof (cases "spare s")
    case Nil
    then show ?thesis using assms(3) upt_conv_Cons [of "length (contents s)" "2 * length (contents s)"]
      by (cases "contents s = []") (simp_all add: spec_alloc_def spec_take_def spec_grow_def pool_no_block_def Let_def)
  qed (simp add: spec_alloc_def spec_take_def spec_grow_def)
  then show "fst (spec_alloc z s) \<notin> set (used s)" using lt assms(1) by fastforce
  show "fst (spec_alloc z s) = pool_no_block \<and> used (snd (spec_alloc z s)) = used s \<or> used (snd (spec_alloc z s)) = used s @ [fst (spec_alloc z s)]"
    by (simp add: spec_alloc_def spec_take_def spec_grow_def Let_def split: list.splits)
  show "j \<in> set (used s) \<Longrightarrow> contents (snd (spec_alloc z s)) ! j = contents s ! j"
    using lt by (auto simp: spec_alloc_def spec_take_def spec_grow_def Let_def nth_append split: list.splits)
qed

section \<open>Pools that implement it\<close>

definition pool_step :: "('p \<Rightarrow> (nat \<times> 'p) result) \<Rightarrow> (nat \<Rightarrow> 'p \<Rightarrow> 'p result) \<Rightarrow> (nat \<Rightarrow> 'p \<Rightarrow> 'd result) \<Rightarrow> (nat \<Rightarrow> 'd \<Rightarrow> 'p \<Rightarrow> 'p result) \<Rightarrow>
    ('p \<Rightarrow> nat list result) \<Rightarrow> 'd pool_op \<Rightarrow> 'p \<Rightarrow> ('d pool_out \<times> 'p) result" where
  "pool_step alloc fre get put show op p =
     (case op of
        PAlloc \<Rightarrow> rbind (alloc p) (\<lambda>(i, p). Inr (BlockId i, p))
      | PFree i \<Rightarrow> rbind (fre i p) (\<lambda>p. Inr (Done, p))
      | PGet i \<Rightarrow> rbind (get i p) (\<lambda>d. Inr (BlockData d, p))
      | PSet i d \<Rightarrow> rbind (put i d p) (\<lambda>p. Inr (Done, p))
      | PPrint \<Rightarrow> rbind (show p) (\<lambda>ids. Inr (BlockIds ids, p)))"

fun pool_run :: "('o \<Rightarrow> 'p \<Rightarrow> ('r \<times> 'p) result) \<Rightarrow> 'o list \<Rightarrow> 'p \<Rightarrow> ('r list \<times> 'p) result" where
  "pool_run step [] p = Inr ([], p)"
| "pool_run step (op # ops) p =
     rbind (step op p) (\<lambda>(out, p). rbind (pool_run step ops p) (\<lambda>(outs, p). Inr (out # outs, p)))"

locale list_pool_impl =
  fixes rep :: "'p \<Rightarrow> 'd pool_spec \<Rightarrow> bool" and z :: 'd
    and alloc :: "'p \<Rightarrow> (nat \<times> 'p) result" and fre :: "nat \<Rightarrow> 'p \<Rightarrow> 'p result" and get :: "nat \<Rightarrow> 'p \<Rightarrow> 'd result"
    and put :: "nat \<Rightarrow> 'd \<Rightarrow> 'p \<Rightarrow> 'p result" and print :: "'p \<Rightarrow> nat list result"
  assumes alloc: "rep p s \<Longrightarrow> spec_ok s \<Longrightarrow> \<exists>p'. alloc p = Inr (fst (spec_alloc z s), p') \<and> rep p' (snd (spec_alloc z s))"
    and free: "rep p s \<Longrightarrow> i \<in> set (used s) \<Longrightarrow> \<exists>p'. fre i p = Inr p' \<and> rep p' (spec_free i s)"
    and get: "rep p s \<Longrightarrow> i \<in> set (used s) \<Longrightarrow> get i p = Inr (contents s ! i)"
    and put: "rep p s \<Longrightarrow> i \<in> set (used s) \<Longrightarrow> \<exists>p'. put i d p = Inr p' \<and> rep p' (spec_put i d s)"
    and print: "rep p s \<Longrightarrow> print p = Inr (used s)"
    and blocks: "rep p s \<Longrightarrow> distinct (used s @ spare s) \<and> set (used s @ spare s) = {..<length (contents s)} \<and>
      length (contents s) \<le> 2 ^ 32 - 2"
begin

abbreviation impl_step :: "'d pool_op \<Rightarrow> 'p \<Rightarrow> ('d pool_out \<times> 'p) result" where
  "impl_step \<equiv> pool_step alloc fre get put print"

lemma step_simulates:
  assumes "rep p s" "legal op s"
  shows "\<exists>p'. impl_step op p = Inr (fst (spec_step z op s), p') \<and> rep p' (snd (spec_step z op s))"
proof (cases op)
  case PAlloc
  then show ?thesis using alloc [OF assms(1)] assms(2) by (auto simp: pool_step_def spec_step_def legal_def split_beta)
next
  case (PFree i)
  then show ?thesis using free [OF assms(1)] assms(2) by (force simp: pool_step_def spec_step_def legal_def)
next
  case (PSet i d)
  then show ?thesis using put [OF assms(1)] assms(2) by (force simp: pool_step_def spec_step_def legal_def)
qed (use get [OF assms(1)] print [OF assms(1)] assms in \<open>auto simp: pool_step_def spec_step_def legal_def\<close>)

lemma run_simulates:
  assumes "rep p s" "legal_run z ops s"
  shows "\<exists>p'. pool_run impl_step ops p = Inr (fst (spec_run z ops s), p') \<and> rep p' (snd (spec_run z ops s))"
  using assms
proof (induction ops arbitrary: p s)
  case (Cons op ops)
  obtain a where a: "impl_step op p = Inr (fst (spec_step z op s), a)" "rep a (snd (spec_step z op s))"
    using step_simulates [of p s op] Cons.prems by auto
  then show ?case using Cons.IH [OF a(2)] Cons.prems(2) by (auto simp: split_beta Let_def)
qed auto

text \<open>A block that is handed out was not in use, and is not handed out again before it is freed.\<close>

lemma alloc_fresh:
  assumes "rep p s" "spec_ok s"
  shows "\<exists>i p'. alloc p = Inr (i, p') \<and> i \<notin> set (used s) \<and> (i = pool_no_block \<or> print p' = Inr (used s @ [i])) \<and>
    (\<forall>j \<in> set (used s). get j p' = get j p)"
proof -
  let ?s = "snd (spec_alloc z s)"
  obtain p' where p': "alloc p = Inr (fst (spec_alloc z s), p')" "rep p' ?s" using alloc [OF assms] by blast
  note b = blocks [OF assms(1)]
  have f: "fst (spec_alloc z s) \<notin> set (used s)" "fst (spec_alloc z s) = pool_no_block \<and> used ?s = used s \<or> used ?s = used s @ [fst (spec_alloc z s)]"
      "\<And>j. j \<in> set (used s) \<Longrightarrow> contents ?s ! j = contents s ! j"
    using spec_alloc_fresh [of s] b by blast+
  have "get j p' = get j p" if "j \<in> set (used s)" for j
    using f(2,3) that get [OF assms(1)] get [OF p'(2)] by fastforce
  then show ?thesis using p' f(1,2) print [OF p'(2)] by fastforce
qed

end

section \<open>The pool with pointers\<close>

definition ptr_rep :: "bool \<Rightarrow> 'd list_pool \<Rightarrow> 'd pool_spec \<Rightarrow> bool" where
  "ptr_rep debug pool s \<longleftrightarrow>
     lpool_inv debug pool (used s) (spare s) \<and> enable_realloc pool = growing s \<and> map lb_data (block_buf pool) = contents s"

lemma ptr_repD:
  assumes "ptr_rep debug pool s"
  shows "lpool_inv debug pool (used s) (spare s)" "enable_realloc pool = growing s" "pool_size pool = length (contents s)"
    "j < pool_size pool \<Longrightarrow> lb_data (block_buf pool ! j) = contents s ! j" "length (contents s) \<le> 2 ^ 32 - 2"
proof -
  show inv: "lpool_inv debug pool (used s) (spare s)" and "enable_realloc pool = growing s" using assms by (simp_all add: ptr_rep_def)
  have m: "map lb_data (block_buf pool) = contents s" using assms by (simp add: ptr_rep_def)
  show n: "pool_size pool = length (contents s)" using lpool_invD(1) [OF inv] arg_cong [OF m, of length] by simp
  show "j < pool_size pool \<Longrightarrow> lb_data (block_buf pool ! j) = contents s ! j" using lpool_invD(1) [OF inv] m by (auto simp: nth_map [symmetric] simp del: nth_map)
  show "length (contents s) \<le> 2 ^ 32 - 2" using lpool_invD(3) [OF inv] n by simp
qed

lemma ptr_repI:
  assumes "lpool_inv debug pool (used s) (spare s)" "enable_realloc pool = growing s" "pool_size pool = length (contents s)"
    "\<And>j. j < pool_size pool \<Longrightarrow> lb_data (block_buf pool ! j) = contents s ! j"
  shows "ptr_rep debug pool s"
  using assms lpool_invD(1) [OF assms(1)] by (auto simp: ptr_rep_def list_eq_iff_nth_eq)

lemma ptr_alloc_spare:
  assumes "ptr_rep debug pool s" "spare s \<noteq> []"
  shows "\<exists>pool'. alloc_block debug pool = Inr (fst (spec_take s), pool') \<and> ptr_rep debug pool' (snd (spec_take s))"
proof -
  note R = ptr_repD [OF assms(1)]
  obtain i F where F: "spare s = i # F" using assms(2) by (cases "spare s") auto
  then show ?thesis using alloc_block_result [of debug pool "used s" i F] R by (auto simp: spec_take_def intro!: ptr_repI)
qed

lemma ptr_grow:
  assumes "ptr_rep debug pool s" "spec_ok s" "spare s = []" "growing s"
  shows "\<exists>pool'. EnsureSize True z (umul (pool_size pool) 2) pool = Inr (True, pool') \<and> ptr_rep debug pool' (spec_grow z s)"
proof -
  note R = ptr_repD [OF assms(1)]
  have n: "0 < pool_size pool" "2 * pool_size pool \<le> 2 ^ 32 - 2" using assms(2-4) R(3) by (simp_all add: spec_ok_def)
  then have "umul (pool_size pool) 2 = 2 * pool_size pool" by (simp add: umul_def)
  then show ?thesis using EnsureSize_result [of debug pool "used s" "2 * pool_size pool" z] n R assms(3,4)
    by (auto simp: spec_grow_def Let_def nth_append intro!: ptr_repI)
qed

lemma ptr_alloc:
  assumes "ptr_rep debug pool s" "spec_ok s"
  shows "\<exists>pool'. Alloc debug True z pool = Inr (fst (spec_alloc z s), pool') \<and> ptr_rep debug pool' (snd (spec_alloc z s))"
proof -
  note R = ptr_repD [OF assms(1)]
  note I = lpool_invD [OF R(1)]
  have n: "0 < pool_size pool" using assms(2) R(3) by (simp add: spec_ok_def)
  consider (spare) "spare s \<noteq> []" | (grow) "spare s = []" "growing s" | (full) "spare s = []" "\<not> growing s" by blast
  then show ?thesis
  proof cases
    case spare
    then have "working_num pool < pool_size pool" using I(6,11) by (cases "spare s") auto
    then show ?thesis using ptr_alloc_spare [OF assms(1) spare] spare by (simp add: Alloc_def spec_alloc_def spec_grow_def)
  next
    case grow
    then have w: "pool_size pool \<le> working_num pool" using I(6,11) by simp
    obtain a where a: "EnsureSize True z (umul (pool_size pool) 2) pool = Inr (True, a)" "ptr_rep debug a (spec_grow z s)"
      using ptr_grow [OF assms grow] by blast
    have "spare (spec_grow z s) \<noteq> []" using grow n R(3) by (simp add: spec_grow_def Let_def)
    then show ?thesis using ptr_alloc_spare [OF a(2)] w a(1) by (simp add: Alloc_def spec_alloc_def)
  next
    case full
    have "umul (pool_size pool) 2 = 2 * pool_size pool" using assms(2) full(1) R(3) by (simp add: umul_def spec_ok_def)
    then have "EnsureSize True z (umul (pool_size pool) 2) pool = Inr (False, pool)" using full R(2) n by (simp add: EnsureSize_def)
    moreover have "pool_size pool \<le> working_num pool" using full I(6,11) by simp
    ultimately show ?thesis using full assms(1) by (simp add: Alloc_def spec_alloc_def spec_take_def spec_grow_def)
  qed
qed

lemma ptr_put:
  assumes "ptr_rep debug pool s" "i \<in> set (used s)"
  shows "\<exists>pool'. SetData i d pool = Inr pool' \<and> ptr_rep debug pool' (spec_put i d s)"
proof -
  note R = ptr_repD [OF assms(1)]
  note I = lpool_invD [OF R(1)]
  have v: "valid pool (BlockP (generation pool) i)" using I(12) assms(2) by blast
  then have i: "i < length (block_buf pool)" by (auto simp: valid_iff)
  note f = field_result [OF v, of "\<lambda>b. b\<lparr>lb_data := d\<rparr>", simplified]
  let ?pool = "pool\<lparr>block_buf := (block_buf pool)[i := (block_buf pool ! i)\<lparr>lb_data := d\<rparr>]\<rparr>"
  have "ptr_rep debug ?pool (spec_put i d s)"
  proof (rule ptr_repI)
    show "lpool_inv debug ?pool (used (spec_put i d s)) (spare (spec_put i d s))"
      using R(1) f(2,3) i by (auto simp: lpool_inv_def spec_put_def nth_list_update)
  qed (use R(2-4) I(1) i in \<open>auto simp: spec_put_def nth_list_update\<close>)
  then show ?thesis using f(1) by (simp add: SetData_def)
qed

lemma working_ids_path:
  assumes "path (BlockP g) (BlockP g) (next_of pool) cur V TailP" "generation pool = g" "length V < fuel"
    "\<And>i. i \<in> set V \<Longrightarrow> i < length (block_buf pool) \<and> lb_id (block_buf pool ! i) = i"
  shows "working_ids fuel (next_of pool cur) pool = Inr V"
  using assms
proof (induction V arbitrary: cur fuel)
  case Nil
  then show ?case by (cases fuel) auto
next
  case (Cons i V)
  then obtain n where n: "fuel = Suc n" by (cases fuel) auto
  have b: "block_at (BlockP g i) pool = Inr (block_buf pool ! i)" using Cons.prems(2,4) by (simp add: block_at_def)
  then have "next_of pool (BlockP g i) = ptr_next (block_buf pool ! i)" by (simp add: next_of_def)
  then show ?case using Cons.IH [of "BlockP g i" n] Cons.prems n b by auto
qed

text \<open>The walk of \<open>Print\<close>, which is compiled into debug builds only. It ends after as many steps as there are blocks.\<close>

definition ptr_print :: "'d list_pool \<Rightarrow> nat list result" where
  "ptr_print pool = working_ids (Suc (pool_size pool)) (ptr_next (list_head pool)) pool"

lemma ptr_print_result:
  assumes "ptr_rep debug pool s"
  shows "ptr_print pool = Inr (used s)"
proof -
  note I = lpool_invD [OF ptr_repD(1) [OF assms]]
  have "working_ids (Suc (pool_size pool)) (next_of pool HeadP) pool = Inr (used s)"
    by (rule working_ids_path [of "generation pool"]) (use I(1,5,7,10,11) in \<open>auto simp: dll_def\<close>)
  then show ?thesis by (simp add: ptr_print_def next_of_def block_at_def)
qed

lemma ptr_impl: "list_pool_impl (ptr_rep debug) z (Alloc debug True z) (Free debug) GetData SetData ptr_print"
proof
  fix p :: "'a list_pool" and s i d
  assume r: "ptr_rep debug p s"
  note R = ptr_repD [OF r]
  note I = lpool_invD [OF R(1)]
  show "spec_ok s \<Longrightarrow> \<exists>p'. Alloc debug True z p = Inr (fst (spec_alloc z s), p') \<and> ptr_rep debug p' (snd (spec_alloc z s))" by (rule ptr_alloc [OF r])
  show "distinct (used s @ spare s) \<and> set (used s @ spare s) = {..<length (contents s)} \<and> length (contents s) \<le> 2 ^ 32 - 2" using I(4,5) R(3,5) by simp
  show "ptr_print p = Inr (used s)" by (rule ptr_print_result [OF r])
  assume i: "i \<in> set (used s)"
  show "\<exists>p'. SetData i d p = Inr p' \<and> ptr_rep debug p' (spec_put i d s)" by (rule ptr_put [OF r i])
  show "\<exists>p'. Free debug i p = Inr p' \<and> ptr_rep debug p' (spec_free i s)" using Free_result [OF R(1) i] R by (auto simp: spec_free_def intro!: ptr_repI)
  have "i < pool_size p" using i I(5) by auto
  then show "GetData i p = Inr (contents s ! i)" using R(4) I(1) by (simp add: GetData_def)
qed

interpretation ptr_pool: list_pool_impl "ptr_rep debug" z "Alloc debug True z" "Free debug" GetData SetData ptr_print for debug z
  by (rule ptr_impl)

lemma ptr_new: "0 < n \<Longrightarrow> n \<le> 2 ^ 32 - 2 \<Longrightarrow> \<exists>pool. ListMemoryPool True z n realloc = Inr pool \<and> ptr_rep debug pool (spec_new z n realloc)"
  using new_lpool_inv [of n z realloc debug] by (auto simp: spec_new_def intro!: ptr_repI)

end
