(* ===== verification/ListPoolIndex.thy ===== *)
theory ListPoolIndex
  imports ListPoolSpec
begin

text \<open>
  The pool with indices. Read with its indices as pointers into one buffer, each of its operations is the operation
  of the pool with pointers, as long as the blocks carry their own numbers; so it implements the same specification
  where an index is as wide as a pointer. On machines with wider pointers it fails as soon as it grows.
\<close>

section \<open>Indices as pointers\<close>

definition link_next :: "nat \<Rightarrow> lptr" where
  "link_next k = (if k = TAIL_ID then TailP else BlockP 0 k)"

definition link_prev :: "nat \<Rightarrow> lptr" where
  "link_prev k = (if k = HEAD_ID then HeadP else BlockP 0 k)"

definition to_block :: "'d iblock \<Rightarrow> 'd lblock" where
  "to_block b = \<lparr>ptr_prev = link_prev (index_prev b), ptr_next = link_next (index_next b), lb_id = ib_id b, lb_data = ib_data b,
     lb_status = ib_status b\<rparr>"

definition to_ptr :: "'d index_pool \<Rightarrow> 'd list_pool" where
  "to_ptr pool = \<lparr>block_buf = map to_block (ix_block_buf pool), block_ptr_buf = map (BlockP 0) (ix_index_buf pool), generation = 0,
     alloc_index = ix_alloc_index pool, free_index = ix_free_index pool, pool_size = ix_size pool, working_num = ix_working_num pool,
     enable_realloc = ix_enable_realloc pool, peak = ix_peak pool, list_head = to_block (ix_head pool), list_tail = to_block (ix_tail pool)\<rparr>"

fun to_lptr :: "node \<Rightarrow> lptr" where
  "to_lptr HeadN = HeadP"
| "to_lptr TailN = TailP"
| "to_lptr (BlockN i) = BlockP 0 i"

lemma to_lptr_links: "to_lptr (GetNext b) = ptr_next (to_block b)" "to_lptr (GetPrev b) = ptr_prev (to_block b)"
  by (simp_all add: GetNext_def GetPrev_def to_block_def link_next_def link_prev_def)

lemma to_ptr_fields [simp]:
  "list_tail (to_ptr pool) = to_block (ix_tail pool)" "list_head (to_ptr pool) = to_block (ix_head pool)" "pool_size (to_ptr pool) = ix_size pool"
  "alloc_index (to_ptr pool) = ix_alloc_index pool" "free_index (to_ptr pool) = ix_free_index pool" "working_num (to_ptr pool) = ix_working_num pool"
  "enable_realloc (to_ptr pool) = ix_enable_realloc pool" "peak (to_ptr pool) = ix_peak pool" "generation (to_ptr pool) = 0"
  "block_ptr_buf (to_ptr pool) = map (BlockP 0) (ix_index_buf pool)" "block_buf (to_ptr pool) = map to_block (ix_block_buf pool)"
  by (simp_all add: to_ptr_def)

lemma to_block_fields [simp]:
  "lb_id (to_block b) = ib_id b" "lb_data (to_block b) = ib_data b" "lb_status (to_block b) = ib_status b"
  "ptr_prev (to_block b) = link_prev (index_prev b)" "ptr_next (to_block b) = link_next (index_next b)"
  "to_block (b\<lparr>ib_status := k\<rparr>) = (to_block b)\<lparr>lb_status := k\<rparr>" "to_block (b\<lparr>ib_data := d\<rparr>) = (to_block b)\<lparr>lb_data := d\<rparr>"
  "to_block (b\<lparr>index_next := k\<rparr>) = (to_block b)\<lparr>ptr_next := link_next k\<rparr>" "to_block (b\<lparr>index_prev := k\<rparr>) = (to_block b)\<lparr>ptr_prev := link_prev k\<rparr>"
  by (simp_all add: to_block_def)

lemma node_sim: "block_at (to_lptr n) (to_ptr pool) = rbind (node_at n pool) (\<lambda>b. Inr (to_block b))"
  by (cases n) (simp_all add: block_at_def node_at_def)

lemma upd_sim:
  assumes "\<And>b. f' (to_block b) = to_block (f b)"
  shows "upd_block (to_lptr n) f' (to_ptr pool) = rbind (upd_node n f pool) (\<lambda>pool. Inr (to_ptr pool))"
  using assms by (cases n) (auto simp: upd_block_def upd_node_def node_sim node_at_def set_block_def set_node_def to_ptr_def block_at_def map_update)

text \<open>The step for a block whose place is known.\<close>

lemmas node_sim_block = node_sim [of "BlockN i", simplified to_lptr.simps] for i

lemmas upd_sim_block = upd_sim [where n = "BlockN i", simplified to_lptr.simps] for i

lemmas upd_sim_tail = upd_sim [where n = TailN, simplified to_lptr.simps]

section \<open>The operations\<close>

text \<open>The numbers of the blocks, and that none of them is the mark of an end of the list.\<close>

definition ids_ok :: "'d index_pool \<Rightarrow> bool" where
  "ids_ok pool \<longleftrightarrow> length (ix_block_buf pool) \<le> TAIL_ID \<and> (\<forall>i < length (ix_block_buf pool). ib_id (ix_block_buf pool ! i) = i)"

lemma upd_node_keeps:
  assumes "upd_node n f pool = Inr pool'" "\<And>b. ib_id (f b) = ib_id b"
  shows "ids_ok pool' = ids_ok pool" "ix_size pool' = ix_size pool"
  using assms by (auto simp: upd_node_def ids_ok_def node_at_def set_node_def nth_list_update rbind_simps split: node.splits if_splits)

lemma link_sim:
  assumes "ids_ok pool" "i < length (ix_block_buf pool)"
  shows "LinkToTail (BlockP 0 i) (to_ptr pool) = rbind (ix_LinkToTail (BlockN i) pool) (\<lambda>pool. Inr (to_ptr pool))"
proof -
  obtain b where b: "node_at (BlockN i) pool = Inr b" "ib_id b = i" using assms by (simp add: node_at_def ids_ok_def)
  have ends: "link_next i = BlockP 0 i" "link_prev i = BlockP 0 i" "link_next TAIL_ID = TailP"
    using assms by (auto simp: link_next_def link_prev_def ids_ok_def HEAD_ID_def TAIL_ID_def)
  have u: "upd_block (link_prev (index_prev c)) (\<lambda>c. c\<lparr>ptr_next := BlockP 0 i\<rparr>) (to_ptr q) =
      rbind (upd_node (GetPrev c) (\<lambda>c. c\<lparr>index_next := i\<rparr>) q) (\<lambda>q. Inr (to_ptr q))" for c q
    using upd_sim [of "\<lambda>c. c\<lparr>ptr_next := BlockP 0 i\<rparr>" "\<lambda>c. c\<lparr>index_next := i\<rparr>" "GetPrev c"] by (simp add: ends to_lptr_links)
  have v: "upd_block (BlockP 0 i) (\<lambda>c. c\<lparr>ptr_prev := link_prev k\<rparr>) (to_ptr q) =
      rbind (upd_node (BlockN i) (\<lambda>c. c\<lparr>index_prev := k\<rparr>) q) (\<lambda>q. Inr (to_ptr q))" for k q
    by (rule upd_sim_block) simp
  have w: "upd_block TailP (\<lambda>c. c\<lparr>ptr_prev := BlockP 0 i\<rparr>) (to_ptr q) = rbind (upd_node TailN (\<lambda>c. c\<lparr>index_prev := i\<rparr>) q) (\<lambda>q. Inr (to_ptr q))" for q
    by (rule upd_sim_tail) (simp add: ends)
  have x: "upd_block (BlockP 0 i) (\<lambda>c. c\<lparr>ptr_next := TailP\<rparr>) (to_ptr q) =
      rbind (upd_node (BlockN i) (\<lambda>c. c\<lparr>index_next := TAIL_ID\<rparr>) q) (\<lambda>q. Inr (to_ptr q))" for q
    by (rule upd_sim_block) (simp add: ends)
  show ?thesis unfolding LinkToTail_def ix_LinkToTail_def by (simp add: b u v w x rbind_assoc)
qed

lemma to_ptr_updates:
  "(to_ptr pool)\<lparr>alloc_index := a, working_num := n\<rparr> = to_ptr (pool\<lparr>ix_alloc_index := a, ix_working_num := n\<rparr>)"
  "(to_ptr pool)\<lparr>free_index := a, working_num := n\<rparr> = to_ptr (pool\<lparr>ix_free_index := a, ix_working_num := n\<rparr>)"
  "(to_ptr pool)\<lparr>peak := k\<rparr> = to_ptr (pool\<lparr>ix_peak := k\<rparr>)"
  "(to_ptr pool)\<lparr>block_ptr_buf := (map (BlockP 0) (ix_index_buf pool))[j := BlockP 0 i]\<rparr> = to_ptr (pool\<lparr>ix_index_buf := (ix_index_buf pool)[j := i]\<rparr>)"
  by (simp_all add: to_ptr_def map_update)

lemma mark_sim:
  "mark_alloc debug (BlockP 0 i) (to_ptr pool) = rbind (ix_mark_alloc debug (BlockN i) pool) (\<lambda>pool. Inr (to_ptr pool))"
  "mark_free debug (BlockP 0 i) (to_ptr pool) = rbind (ix_mark_free debug (BlockN i) pool) (\<lambda>pool. Inr (to_ptr pool))"
proof -
  have u: "upd_block (BlockP 0 i) (\<lambda>b. b\<lparr>lb_status := k\<rparr>) (to_ptr pool) =
      rbind (upd_node (BlockN i) (\<lambda>b. b\<lparr>ib_status := k\<rparr>) pool) (\<lambda>pool. Inr (to_ptr pool))" for k
    by (rule upd_sim_block) simp
  show "mark_alloc debug (BlockP 0 i) (to_ptr pool) = rbind (ix_mark_alloc debug (BlockN i) pool) (\<lambda>pool. Inr (to_ptr pool))"
    by (cases "node_at (BlockN i) pool") (auto simp: mark_alloc_def ix_mark_alloc_def node_sim_block u)
  show "mark_free debug (BlockP 0 i) (to_ptr pool) = rbind (ix_mark_free debug (BlockN i) pool) (\<lambda>pool. Inr (to_ptr pool))"
    by (cases "node_at (BlockN i) pool") (auto simp: mark_free_def ix_mark_free_def node_sim_block u)
qed

lemma mark_keeps:
  "ix_mark_alloc debug (BlockN i) pool = Inr pool' \<Longrightarrow> ids_ok pool \<Longrightarrow> ids_ok pool' \<and> length (ix_block_buf pool') = length (ix_block_buf pool)"
  by (auto simp: ix_mark_alloc_def upd_node_def ids_ok_def node_at_def set_node_def nth_list_update rbind_simps split: if_splits)

lemma alloc_block_sim:
  assumes "ids_ok pool" "ix_alloc_index pool < length (ix_index_buf pool)" "ix_index_buf pool ! ix_alloc_index pool < length (ix_block_buf pool)"
  shows "alloc_block debug (to_ptr pool) = rbind (ix_alloc_block debug pool) (\<lambda>(i, pool). Inr (i, to_ptr pool))"
proof -
  define i where "i = ix_index_buf pool ! ix_alloc_index pool"
  show ?thesis
  proof (cases "ix_mark_alloc debug (BlockN i) pool")
    case (Inl e)
    then show ?thesis using assms(2) mark_sim(1) [of debug i pool] by (simp add: alloc_block_def ix_alloc_block_def Let_def i_def)
  next
    case (Inr a)
    have a: "ids_ok (a\<lparr>ix_alloc_index := j, ix_working_num := n\<rparr>)" "i < length (ix_block_buf a)" "ids_ok (a\<lparr>ix_alloc_index := j, ix_working_num := n, ix_peak := k\<rparr>)" for j n k
      using mark_keeps [OF Inr assms(1)] assms(3) by (auto simp: ids_ok_def i_def)
    show ?thesis using assms(2) mark_sim(1) [of debug i pool] Inr a(2)
      by (simp add: alloc_block_def ix_alloc_block_def Let_def i_def [symmetric] to_ptr_updates link_sim [OF a(1)] link_sim [OF a(3)] rbind_assoc node_sim_block)
  qed
qed

lemma Free_sim: "Free debug i (to_ptr pool) = rbind (ix_Free debug i pool) (\<lambda>pool. Inr (to_ptr pool))"
proof -
  have u: "upd_block (link_prev (index_prev b)) (\<lambda>c. c\<lparr>ptr_next := link_next k\<rparr>) (to_ptr q) =
      rbind (upd_node (GetPrev b) (\<lambda>c. c\<lparr>index_next := k\<rparr>) q) (\<lambda>q. Inr (to_ptr q))" for b k q
    using upd_sim [of "\<lambda>c. c\<lparr>ptr_next := link_next k\<rparr>" "\<lambda>c. c\<lparr>index_next := k\<rparr>" "GetPrev b"] by (simp add: to_lptr_links)
  have v: "upd_block (link_next (index_next b)) (\<lambda>c. c\<lparr>ptr_prev := link_prev k\<rparr>) (to_ptr q) =
      rbind (upd_node (GetNext b) (\<lambda>c. c\<lparr>index_prev := k\<rparr>) q) (\<lambda>q. Inr (to_ptr q))" for b k q
    using upd_sim [of "\<lambda>c. c\<lparr>ptr_prev := link_prev k\<rparr>" "\<lambda>c. c\<lparr>index_prev := k\<rparr>" "GetNext b"] by (simp add: to_lptr_links)
  show ?thesis by (simp add: Free_def Free_ptr_def ix_Free_def Let_def to_ptr_updates mark_sim(2) node_sim_block u v rbind_assoc)
qed

section \<open>The pool implements the specification\<close>

lemma ix_EnsureSize_copy:
  assumes "length (ix_block_buf pool) = ix_size pool" "length (ix_index_buf pool) = ix_size pool" "ix_size pool < sz" "ix_enable_realloc pool"
  shows "ix_EnsureSize 4 True z sz pool = Inr (True, pool\<lparr>ix_alloc_index := ix_size pool, ix_free_index := 0, ix_size := sz,
    ix_block_buf := ix_block_buf pool @ map (\<lambda>i. (zero_iblock z)\<lparr>ib_id := i\<rparr>) [ix_size pool..<sz],
    ix_index_buf := ix_index_buf pool @ [ix_size pool..<sz]\<rparr>)"
  using assms by (simp add: ix_EnsureSize_def Let_def read_range_def write_range_def)

lemma index_inv_grown:
  assumes "lpool_inv debug pool W []" "pool_size pool < sz" "sz \<le> 2 ^ 32 - 2" "length new = sz - pool_size pool"
    "\<And>i. i < length new \<Longrightarrow> lb_id (new ! i) = pool_size pool + i \<and> lb_status (new ! i) = 0"
    "pool' = pool\<lparr>block_buf := block_buf pool @ new, block_ptr_buf := block_ptr_buf pool @ map (BlockP (generation pool)) [pool_size pool..<sz],
      alloc_index := pool_size pool, free_index := 0, pool_size := sz\<rparr>"
  shows "lpool_inv debug pool' W [pool_size pool..<sz]"
proof -
  note I = lpool_invD [OF assms(1)]
  let ?n = "pool_size pool" and ?g = "generation pool"
  have W: "distinct W" "set W = {..<?n}" using I(4,5) by simp_all
  then have lt: "i < ?n" if "i \<in> set W" for i using that by blast
  have links: "next_of pool' x = next_of pool x" "prev_of pool' x = prev_of pool x" if "x \<in> insert HeadP (insert TailP (BlockP ?g ` set W))" for x
    using that I(1) lt by (auto simp: assms(6) next_of_def prev_of_def block_at_def nth_append trans_less_add1)
  have "dll HeadP TailP (BlockP ?g) (next_of pool') (prev_of pool') W"
    using I(10) path_cong [of _ _ "next_of pool" _ _ _ "next_of pool'"] path_cong [of _ _ "prev_of pool" _ _ _ "prev_of pool'"] links
    unfolding dll_def by fastforce
  moreover note grown_blocks [OF W assms(2)]
  moreover have "ring_inv (BlockP ?g) (block_ptr_buf pool') ?n 0 [?n..<sz]"
    using ring_grown [OF assms(2) _ I(2), of "BlockP ?g"] assms(3) by (simp add: assms(6))
  moreover have "lb_id (block_buf pool' ! j) = j \<and> (debug \<longrightarrow> lb_status (block_buf pool' ! j) = of_bool (j \<in> set W))" if "j < sz" for j
    using that I(1,7,8) assms(4) assms(5) [of "j - ?n"] lt [of j] by (auto simp: assms(6) nth_append)
  ultimately show ?thesis using assms(2-4) I(1,2,6) by (simp add: lpool_inv_def assms(6))
qed

definition ix_rep :: "bool \<Rightarrow> 'd index_pool \<Rightarrow> 'd pool_spec \<Rightarrow> bool" where
  "ix_rep debug pool s \<longleftrightarrow> ptr_rep debug (to_ptr pool) s"

lemma ix_grow:
  assumes "ix_rep debug pool s" "spec_ok s" "spare s = []" "growing s"
  shows "\<exists>pool'. ix_EnsureSize 4 True z (umul (ix_size pool) 2) pool = Inr (True, pool') \<and> ix_rep debug pool' (spec_grow z s)"
proof -
  note R = ptr_repD [OF assms(1) [unfolded ix_rep_def]]
  note I = lpool_invD [OF R(1)]
  let ?n = "ix_size pool"
  have n: "0 < ?n" "2 * ?n \<le> 2 ^ 32 - 2" using assms(2-4) R(3) by (simp_all add: spec_ok_def)
  then have u: "umul ?n 2 = 2 * ?n" "?n < 2 * ?n" by (simp_all add: umul_def)
  define new where "new = map (\<lambda>i. (zero_iblock z)\<lparr>ib_id := i\<rparr>) [?n..<2 * ?n]"
  define pool' where "pool' = pool\<lparr>ix_alloc_index := ?n, ix_free_index := 0, ix_size := 2 * ?n, ix_block_buf := ix_block_buf pool @ new,
    ix_index_buf := ix_index_buf pool @ [?n..<2 * ?n]\<rparr>"
  have e: "ix_EnsureSize 4 True z (umul ?n 2) pool = Inr (True, pool')"
    using ix_EnsureSize_copy [OF _ _ u(2), of z] I(1,2) R(2) assms(4) by (simp add: u(1) pool'_def new_def)
  have "lpool_inv debug (to_ptr pool') (used s) [?n..<2 * ?n]"
    using index_inv_grown [of debug "to_ptr pool" "used s" "2 * ?n" "map to_block new" "to_ptr pool'"] R(1) assms(3) u(2) n(2)
    by (simp add: pool'_def new_def to_ptr_def zero_iblock_def)
  then have "ptr_rep debug (to_ptr pool') (spec_grow z s)"
    using R assms(3,4) I(1) by (intro ptr_repI) (auto simp: spec_grow_def Let_def pool'_def new_def zero_iblock_def nth_append)
  then show ?thesis using e by (simp add: ix_rep_def)
qed

lemma ix_alloc_spare:
  assumes "ix_rep debug pool s" "spare s \<noteq> []"
  shows "\<exists>pool'. ix_alloc_block debug pool = Inr (fst (spec_take s), pool') \<and> ix_rep debug pool' (snd (spec_take s))"
proof -
  note R = ptr_repD [OF assms(1) [unfolded ix_rep_def]]
  note I = lpool_invD [OF R(1)]
  obtain i F where F: "spare s = i # F" using assms(2) by (cases "spare s") auto
  have r: "ring_inv (BlockP 0) (map (BlockP 0) (ix_index_buf pool)) (ix_alloc_index pool) (ix_free_index pool) (i # F)" using I(9) F by simp
  have a: "ix_alloc_index pool < length (ix_index_buf pool)" using r by (simp add: ring_inv_def)
  then have "ix_index_buf pool ! ix_alloc_index pool = i" using ring_pop(1) [OF r] by simp
  moreover have "i < ix_size pool" "length (ix_block_buf pool) = ix_size pool" using I(1,5) F by auto
  moreover have "ids_ok pool" using I(1,3,7) by (simp add: ids_ok_def TAIL_ID_def)
  ultimately show ?thesis
    using alloc_block_sim [of pool debug] a ptr_alloc_spare [OF assms(1) [unfolded ix_rep_def] assms(2)] by (auto simp: ix_rep_def rbind_simps split: prod.splits)
qed

lemma ix_alloc:
  assumes "ix_rep debug pool s" "spec_ok s"
  shows "\<exists>pool'. ix_Alloc 4 debug True z pool = Inr (fst (spec_alloc z s), pool') \<and> ix_rep debug pool' (snd (spec_alloc z s))"
proof -
  note R = ptr_repD [OF assms(1) [unfolded ix_rep_def]]
  note I = lpool_invD [OF R(1)]
  have n: "0 < ix_size pool" using assms(2) R(3) by (simp add: spec_ok_def)
  consider (spare) "spare s \<noteq> []" | (grow) "spare s = []" "growing s" | (full) "spare s = []" "\<not> growing s" by blast
  then show ?thesis
  proof cases
    case spare
    then have "ix_working_num pool < ix_size pool" using I(6,11) by (cases "spare s") auto
    then show ?thesis using ix_alloc_spare [OF assms(1) spare] spare by (simp add: ix_Alloc_def spec_alloc_def spec_grow_def)
  next
    case grow
    then have w: "ix_size pool \<le> ix_working_num pool" using I(6,11) by simp
    obtain a where a: "ix_EnsureSize 4 True z (umul (ix_size pool) 2) pool = Inr (True, a)" "ix_rep debug a (spec_grow z s)"
      using ix_grow [OF assms grow] by blast
    have "spare (spec_grow z s) \<noteq> []" using grow n R(3) by (simp add: spec_grow_def Let_def)
    then show ?thesis using ix_alloc_spare [OF a(2)] w a(1) by (simp add: ix_Alloc_def spec_alloc_def)
  next
    case full
    have "umul (ix_size pool) 2 = 2 * ix_size pool" using assms(2) full(1) R(3) by (simp add: umul_def spec_ok_def)
    then have "ix_EnsureSize 4 True z (umul (ix_size pool) 2) pool = Inr (False, pool)" using full R(2) n by (simp add: ix_EnsureSize_def)
    moreover have "ix_size pool \<le> ix_working_num pool" using full I(6,11) by simp
    ultimately show ?thesis using full assms(1) by (simp add: ix_Alloc_def spec_alloc_def spec_take_def spec_grow_def)
  qed
qed

lemma ix_put:
  assumes "ix_rep debug pool s" "i \<in> set (used s)"
  shows "\<exists>pool'. ix_SetData i d pool = Inr pool' \<and> ix_rep debug pool' (spec_put i d s)"
proof -
  have "SetData i d (to_ptr pool) = rbind (ix_SetData i d pool) (\<lambda>pool. Inr (to_ptr pool))"
    unfolding SetData_def ix_SetData_def to_ptr_fields by (rule upd_sim_block) simp
  then show ?thesis using ptr_put [of debug "to_ptr pool" s i d] assms by (auto simp: ix_rep_def rbind_simps)
qed

text \<open>The walk of \<open>Print\<close>, which is compiled into debug builds only.\<close>

definition ix_print :: "'d index_pool \<Rightarrow> nat list result" where
  "ix_print pool = ix_working_ids (Suc (ix_size pool)) (GetNext (ix_head pool)) pool"

lemma working_ids_sim: "ix_working_ids fuel n pool = working_ids fuel (to_lptr n) (to_ptr pool)"
proof (induction fuel arbitrary: n)
  case (Suc fuel)
  have "to_lptr n = TailP \<longleftrightarrow> n = TailN" by (cases n) simp_all
  then show ?case using Suc.IH by (simp add: node_sim rbind_assoc to_lptr_links)
qed simp

lemma ix_impl: "list_pool_impl (ix_rep debug) z (ix_Alloc 4 debug True z) (ix_Free debug) ix_GetData ix_SetData ix_print"
proof
  fix p :: "'a index_pool" and s i d
  assume r: "ix_rep debug p s"
  note R = ptr_repD [OF r [unfolded ix_rep_def]]
  note I = lpool_invD [OF R(1)]
  show "spec_ok s \<Longrightarrow> \<exists>p'. ix_Alloc 4 debug True z p = Inr (fst (spec_alloc z s), p') \<and> ix_rep debug p' (snd (spec_alloc z s))" by (rule ix_alloc [OF r])
  show "distinct (used s @ spare s) \<and> set (used s @ spare s) = {..<length (contents s)} \<and> length (contents s) \<le> 2 ^ 32 - 2" using I(4,5) R(3,5) by simp
  show "ix_print p = Inr (used s)"
    using ptr_print_result [OF r [unfolded ix_rep_def]] by (simp add: ix_print_def ptr_print_def working_ids_sim to_lptr_links)
  assume i: "i \<in> set (used s)"
  show "\<exists>p'. ix_SetData i d p = Inr p' \<and> ix_rep debug p' (spec_put i d s)" by (rule ix_put [OF r i])
  show "\<exists>p'. ix_Free debug i p = Inr p' \<and> ix_rep debug p' (spec_free i s)"
    using ptr_pool.free [of debug "to_ptr p" s i] r i Free_sim [of debug i p] by (auto simp: ix_rep_def rbind_simps)
  have "i < ix_size p" using i I(5) by auto
  then show "ix_GetData i p = Inr (contents s ! i)" using R(4) [of i] I(1) by (simp add: ix_GetData_def)
qed

interpretation ix_pool: list_pool_impl "ix_rep debug" z "ix_Alloc 4 debug True z" "ix_Free debug" ix_GetData ix_SetData ix_print for debug z
  by (rule ix_impl)

lemma ix_new:
  assumes "0 < n" "n \<le> 2 ^ 32 - 2"
  shows "\<exists>pool. ListMemoryPool_UseIndex True z n realloc = Inr pool \<and> ix_rep debug pool (spec_new z n realloc)"
proof -
  define pool where "pool = projr (ListMemoryPool_UseIndex True z n realloc)"
  have "{0..<n} = {..<n}" by auto
  then have "lpool_inv debug (to_ptr pool) [] [0..<n]" using assms
    by (simp add: pool_def ListMemoryPool_UseIndex_def lpool_inv_def dll_def next_of_def prev_of_def block_at_def to_ptr_def to_block_def
        link_next_def link_prev_def zero_iblock_def ring_inv_def)
  then have "ix_rep debug pool (spec_new z n realloc)" unfolding ix_rep_def
    by (intro ptr_repI) (simp_all add: pool_def spec_new_def ListMemoryPool_UseIndex_def zero_iblock_def)
  moreover have "ListMemoryPool_UseIndex True z n realloc = Inr pool" by (simp add: pool_def ListMemoryPool_UseIndex_def)
  ultimately show ?thesis by blast
qed

section \<open>Properties\<close>

text \<open>
  C3. Both list pools implement one specification: on a new pool of \<open>n\<close> blocks, for every sequence of allocations, frees, reads,
  writes and, in debug builds, prints that only names blocks in use (and whose full pools have a double that is a size), the pool with
  pointers and, on machines whose pointers have the four bytes of an index, the pool with indices answer what a queue of spare blocks
  and a list of used blocks answer, with no fault and no failed assertion, whether they grow on the way or not. Memory can be
  allocated. (With pointers of eight bytes the growth of the pool with indices reads out of bounds, \<open>index_pool_64_bit\<close> below.)
\<close>

theorem list_pools_refine:
  assumes "0 < n" "n \<le> 2 ^ 32 - 2" "legal_run z ops (spec_new z n realloc)" "PPrint \<in> set ops \<Longrightarrow> debug"
  shows "\<exists>p p' q q'.
    ListMemoryPool True z n realloc = Inr p \<and>
    pool_run (pool_step (Alloc debug True z) (Free debug) GetData SetData ptr_print) ops p = Inr (fst (spec_run z ops (spec_new z n realloc)), p') \<and>
    ListMemoryPool_UseIndex True z n realloc = Inr q \<and>
    pool_run (pool_step (ix_Alloc 4 debug True z) (ix_Free debug) ix_GetData ix_SetData ix_print) ops q = Inr (fst (spec_run z ops (spec_new z n realloc)), q')"
proof -
  obtain p where p: "ListMemoryPool True z n realloc = Inr p" "ptr_rep debug p (spec_new z n realloc)" using ptr_new [OF assms(1,2), of z realloc debug] by blast
  obtain q where q: "ListMemoryPool_UseIndex True z n realloc = Inr q" "ix_rep debug q (spec_new z n realloc)" using ix_new [OF assms(1,2), of z realloc debug] by blast
  show ?thesis using p(1) q(1) ptr_pool.run_simulates [OF p(2) assms(3)] ix_pool.run_simulates [OF q(2) assms(3)] by blast
qed

text \<open>Three allocations in a growing pool of one block, the first block freed, a write, a read and a print.\<close>

theorem list_pools_refine_witness:
  "\<exists>p p' q q'.
    ListMemoryPool True (0::nat) 1 True = Inr p \<and>
    pool_run (pool_step (Alloc True True 0) (Free True) GetData SetData ptr_print) [PAlloc, PAlloc, PFree 0, PAlloc, PSet 1 7, PGet 1, PPrint] p =
      Inr ([BlockId 0, BlockId 1, Done, BlockId 0, Done, BlockData 7, BlockIds [1, 0]], p') \<and>
    ListMemoryPool_UseIndex True (0::nat) 1 True = Inr q \<and>
    pool_run (pool_step (ix_Alloc 4 True True 0) (ix_Free True) ix_GetData ix_SetData ix_print) [PAlloc, PAlloc, PFree 0, PAlloc, PSet 1 7, PGet 1, PPrint] q =
      Inr ([BlockId 0, BlockId 1, Done, BlockId 0, Done, BlockData 7, BlockIds [1, 0]], q')"
  using list_pools_refine [of 1 "0::nat" "[PAlloc, PAlloc, PFree 0, PAlloc, PSet 1 7, PGet 1, PPrint]" True True]
  by (simp add: legal_def spec_step_def spec_alloc_def spec_grow_def spec_take_def spec_free_def spec_put_def spec_new_def spec_ok_def Let_def upt_conv_Cons)

text \<open>
  A block that the pool with pointers hands out after such a sequence was not in use and joins the working list at its end, and
  the blocks in use keep their data, also when the pool moves them to a larger buffer; a full pool that may not grow answers
  that it has no block.
\<close>

theorem list_pool_alloc_fresh:
  assumes "0 < n" "n \<le> 2 ^ 32 - 2" "legal_run z (ops @ [PAlloc]) (spec_new z n realloc)" "ListMemoryPool True z n realloc = Inr p"
    and "s = snd (spec_run z ops (spec_new z n realloc))"
  shows "\<exists>outs p' i p''.
    pool_run (pool_step (Alloc debug True z) (Free debug) GetData SetData ptr_print) ops p = Inr (outs, p') \<and>
    Alloc debug True z p' = Inr (i, p'') \<and> ptr_print p' = Inr (used s) \<and> i \<notin> set (used s) \<and>
    (i = pool_no_block \<or> ptr_print p'' = Inr (used s @ [i])) \<and> (\<forall>j \<in> set (used s). GetData j p'' = GetData j p')"
proof -
  have legal: "legal_run z ops (spec_new z n realloc)" "spec_ok s" using assms(3,5) by (simp_all add: legal_run_append legal_def)
  have r: "ptr_rep debug p (spec_new z n realloc)" using ptr_new [OF assms(1,2), of z realloc debug] assms(4) by auto
  obtain p' where p': "pool_run (pool_step (Alloc debug True z) (Free debug) GetData SetData ptr_print) ops p = Inr (fst (spec_run z ops (spec_new z n realloc)), p')"
      "ptr_rep debug p' s"
    using ptr_pool.run_simulates [OF r legal(1)] unfolding assms(5) by blast
  show ?thesis using p' ptr_pool.alloc_fresh [OF p'(2) legal(2)] ptr_pool.print [OF p'(2)] by blast
qed

text \<open>
  The growth of the pool with indices copies a pointer's width for each index: where pointers have 8 bytes, the first allocation
  of a full pool that may grow reads past the end of the old indices, whatever the pool has done before.
\<close>

theorem index_pool_64_bit:
  assumes "ix_rep debug pool s" "spec_ok s" "spare s = []" "growing s"
  shows "ix_Alloc 8 debug True z pool = Inl OutOfBounds"
proof -
  note R = ptr_repD [OF assms(1) [unfolded ix_rep_def]]
  note I = lpool_invD [OF R(1)]
  have n: "0 < ix_size pool" "2 * ix_size pool \<le> 2 ^ 32 - 2" using assms(2-4) R(3) by (simp_all add: spec_ok_def)
  then have "umul (ix_size pool) 2 = 2 * ix_size pool" by (simp add: umul_def)
  moreover have "read_range (ix_index_buf pool) 0 (ix_size pool * 8 div 4) = Inl OutOfBounds" using I(2) n(1) by (simp add: read_range_def)
  moreover have "is_ok (write_range (replicate (ix_size pool) (zero_iblock z) @ map (\<lambda>i. (zero_iblock z)\<lparr>ib_id := i\<rparr>) [ix_size pool..<2 * ix_size pool]) 0 (ix_block_buf pool))"
    using I(1) by (simp add: write_range_def)
  ultimately show ?thesis using R(2) assms(3,4) n(1) I(6,11) by (auto simp: ix_Alloc_def ix_EnsureSize_def Let_def is_ok_iff)
qed

theorem index_pool_64_bit_witness:
  "\<exists>pool. ix_rep True pool (snd (spec_alloc 0 (spec_new (0::nat) 1 True))) \<and> ix_Alloc 8 True True 0 pool = Inl OutOfBounds"
proof -
  let ?s = "spec_new (0::nat) 1 True"
  obtain q where q: "ix_rep True q ?s" using ix_new [of 1 "0::nat" True True] by auto
  have s: "spec_ok ?s" "spec_ok (snd (spec_alloc 0 ?s))" "spare (snd (spec_alloc 0 ?s)) = []" "growing (snd (spec_alloc 0 ?s))"
    by (simp_all add: spec_new_def spec_ok_def spec_alloc_def spec_grow_def spec_take_def)
  obtain p where "ix_rep True p (snd (spec_alloc 0 ?s))" using ix_alloc [OF q s(1)] by blast
  then show ?thesis using index_pool_64_bit [of True p "snd (spec_alloc 0 ?s)" 0] s(2-4) by blast
qed

theorem list_pool_alloc_fresh_witness:
  "\<exists>p outs p' i p''. ListMemoryPool True (0::nat) 2 False = Inr p \<and>
    pool_run (pool_step (Alloc False True 0) (Free False) GetData SetData ptr_print) [PAlloc, PSet 0 5] p = Inr (outs, p') \<and>
    Alloc False True 0 p' = Inr (i, p'') \<and> i \<noteq> 0 \<and> (i = pool_no_block \<or> ptr_print p'' = Inr [0, i]) \<and> GetData 0 p'' = GetData 0 p'"
proof -
  have s: "snd (spec_run (0::nat) [PAlloc, PSet 0 5] (spec_new 0 2 False)) = \<lparr>used = [0], spare = [1], contents = [5, 0], growing = False\<rparr>"
    and l: "legal_run (0::nat) ([PAlloc, PSet 0 5] @ [PAlloc]) (spec_new 0 2 False)"
    by (simp_all add: legal_def spec_step_def spec_alloc_def spec_grow_def spec_take_def spec_put_def spec_new_def spec_ok_def Let_def upt_conv_Cons numeral_2_eq_2)
  obtain p where "ListMemoryPool True (0::nat) 2 False = Inr p" by (simp add: ListMemoryPool_def)
  then show ?thesis using list_pool_alloc_fresh [OF _ _ l _ s [symmetric], of p False] by fastforce
qed

text \<open>Asking for a larger buffer while blocks are free: the free ones are lost and the blocks in use are handed out again.\<close>

definition early_growth :: "bool \<Rightarrow> nat list result" where
  "early_growth debug =
     rbind (ListMemoryPool True (0::nat) 2 True) (\<lambda>p.
     rbind (Alloc debug True 0 p) (\<lambda>(i, p).
     rbind (EnsureSize True 0 4 p) (\<lambda>(_, p).
     rbind (Alloc debug True 0 p) (\<lambda>(j, p).
     rbind (Alloc debug True 0 p) (\<lambda>(k, p).
     rbind (Alloc debug True 0 p) (\<lambda>(l, p). Inr [i, j, k, l]))))))"

lemma early_growth_reuses: "early_growth False = Inr [0, 2, 3, 0]" "early_growth True = Inl AssertFailed"
  by (simp_all add: early_growth_def ListMemoryPool_def Alloc_def EnsureSize_def alloc_block_def mark_alloc_def upd_block_def block_at_def set_block_def
      LinkToTail_def ring_next_def uadd_def umul_def correct_next.simps correct_prev.simps relocate_def zero_block_def Let_def upt_conv_Cons
      correct_next.simps(2) [of "Suc 0", folded numeral_2_eq_2] correct_prev.simps(2) [of "Suc 0", folded numeral_2_eq_2])

end
