(* ===== verification/Matrix.thy ===== *)
theory Matrix
  imports Prelude
begin

text \<open>
  The 4x4 matrices of src/play/c/use_simd: the scalar routines of matrix.c, the routines with SSE4, AVX2 and NEON
  instructions beside it, and the program examples/matrix/main.c that runs them on an array.

  Memory is a list of floats that begins at an address which is a multiple of 64, so that float \<open>i\<close> has the address
  \<open>4 * i\<close> up to such a multiple; a pointer to a matrix is the place of its first float. The arithmetic of the
  floats is the record \<open>float_ops\<close>; a fused multiplication and addition, which rounds once, is an
  operation of its own. What the NEON routine needs of the arithmetic is the predicate \<open>float_laws\<close>.
  Builds with \<open>INCREASE_SIMD_ILP\<close> have \<open>ilp\<close>, those in which \<open>MUGGLE_ASSERT_MSG\<close> stops the program have \<open>debug\<close>.
\<close>

section \<open>Floats and memory\<close>

record 'f float_ops =
  f_zero :: 'f
  f_add :: "'f \<Rightarrow> 'f \<Rightarrow> 'f"
  f_mul :: "'f \<Rightarrow> 'f \<Rightarrow> 'f"
  f_fma :: "'f \<Rightarrow> 'f \<Rightarrow> 'f \<Rightarrow> 'f"

text \<open>Addition of zero changes nothing, when the two zeros are identified, and both operations are commutative.\<close>

definition float_laws :: "'f float_ops \<Rightarrow> bool" where
  "float_laws F \<longleftrightarrow>
     (\<forall>x. f_add F (f_zero F) x = x) \<and> (\<forall>x y. f_add F x y = f_add F y x) \<and> (\<forall>x y. f_mul F x y = f_mul F y x)"

definition aligned :: "nat \<Rightarrow> nat \<Rightarrow> bool" where
  "aligned n p \<longleftrightarrow> (4 * p) mod n = 0"

definition float_at :: "'f list \<Rightarrow> nat \<Rightarrow> 'f result" where
  "float_at m i = (if i < length m then Inr (m ! i) else Inl OutOfBounds)"

definition float_put :: "'f list \<Rightarrow> nat \<Rightarrow> 'f \<Rightarrow> 'f list result" where
  "float_put m i x = (if i < length m then Inr (m[i := x]) else Inl HeapOverflow)"

section \<open>Scalar routines\<close>

text \<open>\<open>__builtin_assume_aligned(p, 64)\<close>\<close>

definition assume_aligned :: "nat \<Rightarrow> (unit \<Rightarrow> 'b result) \<Rightarrow> 'b result" where
  "assume_aligned p f = (if aligned 64 p then f () else Inl Unaligned)"

fun add_loop :: "'f float_ops \<Rightarrow> nat \<Rightarrow> nat \<Rightarrow> nat \<Rightarrow> nat list \<Rightarrow> 'f list \<Rightarrow> 'f list result" where
  "add_loop F a b c [] m = Inr m"
| "add_loop F a b c (i # is) m =
     rbind (float_at m (a + i)) (\<lambda>x.
     rbind (float_at m (b + i)) (\<lambda>y.
     rbind (float_put m (c + i) (f_add F x y)) (add_loop F a b c is)))"

definition matrix4_add :: "'f float_ops \<Rightarrow> nat \<Rightarrow> nat \<Rightarrow> nat \<Rightarrow> 'f list \<Rightarrow> 'f list result" where
  "matrix4_add F a b c m =
     assume_aligned a (\<lambda>_. assume_aligned b (\<lambda>_. assume_aligned c (\<lambda>_. add_loop F a b c [0..<16] m)))"

fun mul_sum :: "'f float_ops \<Rightarrow> nat \<Rightarrow> nat \<Rightarrow> nat \<Rightarrow> nat \<Rightarrow> nat list \<Rightarrow> 'f list \<Rightarrow> 'f \<Rightarrow> 'f result" where
  "mul_sum F a b i j [] m acc = Inr acc"
| "mul_sum F a b i j (k # ks) m acc =
     rbind (float_at m (a + (i * 4 + k))) (\<lambda>x.
     rbind (float_at m (b + (k * 4 + j))) (\<lambda>y.
     mul_sum F a b i j ks m (f_add F acc (f_mul F x y))))"

fun mul_cols :: "'f float_ops \<Rightarrow> nat \<Rightarrow> nat \<Rightarrow> nat \<Rightarrow> nat \<Rightarrow> nat list \<Rightarrow> 'f list \<Rightarrow> 'f list result" where
  "mul_cols F a b c i [] m = Inr m"
| "mul_cols F a b c i (j # js) m =
     rbind (mul_sum F a b i j [0..<4] m (f_zero F)) (\<lambda>acc.
     rbind (float_put m (c + (i * 4 + j)) acc) (mul_cols F a b c i js))"

fun mul_rows :: "'f float_ops \<Rightarrow> nat \<Rightarrow> nat \<Rightarrow> nat \<Rightarrow> nat list \<Rightarrow> 'f list \<Rightarrow> 'f list result" where
  "mul_rows F a b c [] m = Inr m"
| "mul_rows F a b c (i # is) m = rbind (mul_cols F a b c i [0..<4] m) (mul_rows F a b c is)"

definition matrix4_mul :: "'f float_ops \<Rightarrow> nat \<Rightarrow> nat \<Rightarrow> nat \<Rightarrow> 'f list \<Rightarrow> 'f list result" where
  "matrix4_mul F a b c m =
     assume_aligned a (\<lambda>_. assume_aligned b (\<lambda>_. assume_aligned c (\<lambda>_. mul_rows F a b c [0..<4] m)))"

section \<open>Vector instructions\<close>

text \<open>
  A register is the list of its lanes. Loads and stores of SSE and AVX need an address that is a multiple of the size of
  the register in bytes; those of NEON do not.
\<close>

definition vec_load :: "nat \<Rightarrow> nat \<Rightarrow> 'f list \<Rightarrow> 'f list result" where
  "vec_load n p m = (if aligned n p then read_range m p (n div 4) else Inl Unaligned)"

definition vec_store :: "nat \<Rightarrow> nat \<Rightarrow> 'f list \<Rightarrow> 'f list \<Rightarrow> 'f list result" where
  "vec_store n p v m = (if aligned n p then write_range m p v else Inl Unaligned)"

definition vec_add :: "'f float_ops \<Rightarrow> 'f list \<Rightarrow> 'f list \<Rightarrow> 'f list" where
  "vec_add F = map2 (f_add F)"

definition vec_mul :: "'f float_ops \<Rightarrow> 'f list \<Rightarrow> 'f list \<Rightarrow> 'f list" where
  "vec_mul F = map2 (f_mul F)"

definition vec_fmadd :: "'f float_ops \<Rightarrow> 'f list \<Rightarrow> 'f list \<Rightarrow> 'f list \<Rightarrow> 'f list" where
  "vec_fmadd F a b c = map2 (\<lambda>(x, y) z. f_fma F x y z) (zip a b) c"

text \<open>\<open>_mm_shuffle_ps(a, b, _MM_SHUFFLE(w, x, y, z))\<close> and, on both halves, \<open>_mm256_shuffle_ps\<close>.\<close>

definition mm_shuffle_ps :: "'f list \<Rightarrow> 'f list \<Rightarrow> nat \<Rightarrow> nat \<Rightarrow> nat \<Rightarrow> nat \<Rightarrow> 'f list" where
  "mm_shuffle_ps a b w x y z = [a ! z, a ! y, b ! x, b ! w]"

definition mm256_shuffle_ps :: "'f list \<Rightarrow> 'f list \<Rightarrow> nat \<Rightarrow> nat \<Rightarrow> nat \<Rightarrow> nat \<Rightarrow> 'f list" where
  "mm256_shuffle_ps a b w x y z =
     mm_shuffle_ps (take 4 a) (take 4 b) w x y z @ mm_shuffle_ps (drop 4 a) (drop 4 b) w x y z"

definition mm256_broadcast_ps :: "nat \<Rightarrow> 'f list \<Rightarrow> 'f list result" where
  "mm256_broadcast_ps p m = rbind (read_range m p 4) (\<lambda>v. Inr (v @ v))"

text \<open>\<open>vmlaq_n_f32(a, b, c)\<close> adds to \<open>a\<close> the products of the lanes of \<open>b\<close> with the scalar.\<close>

definition vmlaq_n_f32 :: "'f float_ops \<Rightarrow> 'f list \<Rightarrow> 'f list \<Rightarrow> 'f \<Rightarrow> 'f list" where
  "vmlaq_n_f32 F a b c = map2 (\<lambda>x y. f_add F x (f_mul F y c)) a b"

definition assert_aligned :: "bool \<Rightarrow> nat \<Rightarrow> nat list \<Rightarrow> (unit \<Rightarrow> 'b result) \<Rightarrow> 'b result" where
  "assert_aligned debug n ps f = (if debug \<and> \<not> list_all (aligned n) ps then Inl AssertFailed else f ())"

text \<open>The four loads and stores of a matrix, four floats at a time.\<close>

definition load_rows :: "(nat \<Rightarrow> 'f list \<Rightarrow> 'f list result) \<Rightarrow> nat \<Rightarrow> 'f list \<Rightarrow> ('f list \<times> 'f list \<times> 'f list \<times> 'f list) result" where
  "load_rows load p m =
     rbind (load (p + 0) m) (\<lambda>r0. rbind (load (p + 4) m) (\<lambda>r1.
     rbind (load (p + 8) m) (\<lambda>r2. rbind (load (p + 12) m) (\<lambda>r3. Inr (r0, r1, r2, r3)))))"

definition store_rows ::
  "(nat \<Rightarrow> 'f list \<Rightarrow> 'f list \<Rightarrow> 'f list result) \<Rightarrow> nat \<Rightarrow> 'f list \<times> 'f list \<times> 'f list \<times> 'f list \<Rightarrow> 'f list \<Rightarrow> 'f list result" where
  "store_rows store p rows m =
     (case rows of (r0, r1, r2, r3) \<Rightarrow>
        rbind (store (p + 0) r0 m) (\<lambda>m. rbind (store (p + 4) r1 m) (\<lambda>m.
        rbind (store (p + 8) r2 m) (store (p + 12) r3))))"

section \<open>SSE4\<close>

definition simd_sse4_matrix4_add :: "bool \<Rightarrow> 'f float_ops \<Rightarrow> nat \<Rightarrow> nat \<Rightarrow> nat \<Rightarrow> 'f list \<Rightarrow> 'f list result" where
  "simd_sse4_matrix4_add debug F mat1 mat2 mat m =
     assert_aligned debug 16 [mat1, mat2, mat] (\<lambda>_.
     rbind (load_rows (vec_load 16) mat1 m) (\<lambda>(a0, a1, a2, a3).
     rbind (load_rows (vec_load 16) mat2 m) (\<lambda>(b0, b1, b2, b3).
     store_rows (vec_store 16) mat (vec_add F a0 b0, vec_add F a1 b1, vec_add F a2 b2, vec_add F a3 b3) m)))"

definition M128_BROADCAST :: "'f list \<Rightarrow> nat \<Rightarrow> 'f list" where
  "M128_BROADCAST v i = mm_shuffle_ps v v i i i i"

definition sse4_rows ::
  "'f float_ops \<Rightarrow> 'f list \<times> 'f list \<times> 'f list \<times> 'f list \<Rightarrow> 'f list \<times> 'f list \<times> 'f list \<times> 'f list \<Rightarrow>
   'f list \<times> 'f list \<times> 'f list \<times> 'f list" where
  "sse4_rows F a b =
     (case a of (a0, a1, a2, a3) \<Rightarrow> case b of (b0, b1, b2, b3) \<Rightarrow>
      let c0 = vec_mul F (M128_BROADCAST a0 0) b0;
          c0 = vec_add F c0 (vec_mul F (M128_BROADCAST a0 1) b1);
          c0 = vec_add F c0 (vec_mul F (M128_BROADCAST a0 2) b2);
          c0 = vec_add F c0 (vec_mul F (M128_BROADCAST a0 3) b3);
          c1 = vec_mul F (M128_BROADCAST a1 0) b0;
          c1 = vec_add F c1 (vec_mul F (M128_BROADCAST a1 1) b1);
          c1 = vec_add F c1 (vec_mul F (M128_BROADCAST a1 2) b2);
          c1 = vec_add F c1 (vec_mul F (M128_BROADCAST a1 3) b3);
          c2 = vec_mul F (M128_BROADCAST a2 0) b0;
          c2 = vec_add F c2 (vec_mul F (M128_BROADCAST a2 1) b1);
          c2 = vec_add F c2 (vec_mul F (M128_BROADCAST a2 2) b2);
          c2 = vec_add F c2 (vec_mul F (M128_BROADCAST a2 3) b3);
          c3 = vec_mul F (M128_BROADCAST a3 0) b0;
          c3 = vec_add F c3 (vec_mul F (M128_BROADCAST a3 1) b1);
          c3 = vec_add F c3 (vec_mul F (M128_BROADCAST a3 2) b2);
          c3 = vec_add F c3 (vec_mul F (M128_BROADCAST a3 3) b3)
      in (c0, c1, c2, c3))"

definition sse4_rows_ilp ::
  "'f float_ops \<Rightarrow> 'f list \<times> 'f list \<times> 'f list \<times> 'f list \<Rightarrow> 'f list \<times> 'f list \<times> 'f list \<times> 'f list \<Rightarrow>
   'f list \<times> 'f list \<times> 'f list \<times> 'f list" where
  "sse4_rows_ilp F a b =
     (case a of (a0, a1, a2, a3) \<Rightarrow> case b of (b0, b1, b2, b3) \<Rightarrow>
      let c0 = vec_mul F (M128_BROADCAST a0 0) b0;
          c1 = vec_mul F (M128_BROADCAST a1 0) b0;
          c2 = vec_mul F (M128_BROADCAST a2 0) b0;
          c3 = vec_mul F (M128_BROADCAST a3 0) b0;
          c0 = vec_add F c0 (vec_mul F (M128_BROADCAST a0 1) b1);
          c1 = vec_add F c1 (vec_mul F (M128_BROADCAST a1 1) b1);
          c2 = vec_add F c2 (vec_mul F (M128_BROADCAST a2 1) b1);
          c3 = vec_add F c3 (vec_mul F (M128_BROADCAST a3 1) b1);
          c0 = vec_add F c0 (vec_mul F (M128_BROADCAST a0 2) b2);
          c1 = vec_add F c1 (vec_mul F (M128_BROADCAST a1 2) b2);
          c2 = vec_add F c2 (vec_mul F (M128_BROADCAST a2 2) b2);
          c3 = vec_add F c3 (vec_mul F (M128_BROADCAST a3 2) b2);
          c0 = vec_add F c0 (vec_mul F (M128_BROADCAST a0 3) b3);
          c1 = vec_add F c1 (vec_mul F (M128_BROADCAST a1 3) b3);
          c2 = vec_add F c2 (vec_mul F (M128_BROADCAST a2 3) b3);
          c3 = vec_add F c3 (vec_mul F (M128_BROADCAST a3 3) b3)
      in (c0, c1, c2, c3))"

definition simd_sse4_matrix4_mul :: "bool \<Rightarrow> bool \<Rightarrow> 'f float_ops \<Rightarrow> nat \<Rightarrow> nat \<Rightarrow> nat \<Rightarrow> 'f list \<Rightarrow> 'f list result" where
  "simd_sse4_matrix4_mul debug ilp F mat1 mat2 mat m =
     assert_aligned debug 16 [mat1, mat2, mat] (\<lambda>_.
     rbind (load_rows (vec_load 16) mat1 m) (\<lambda>a.
     rbind (load_rows (vec_load 16) mat2 m) (\<lambda>b.
     store_rows (vec_store 16) mat (if \<not> ilp then sse4_rows F a b else sse4_rows_ilp F a b) m)))"

section \<open>AVX2\<close>

definition simd_avx2_matrix4_add :: "bool \<Rightarrow> 'f float_ops \<Rightarrow> nat \<Rightarrow> nat \<Rightarrow> nat \<Rightarrow> 'f list \<Rightarrow> 'f list result" where
  "simd_avx2_matrix4_add debug F mat1 mat2 mat m =
     assert_aligned debug 32 [mat1, mat2, mat] (\<lambda>_.
     rbind (vec_load 32 (mat1 + 0) m) (\<lambda>a0. rbind (vec_load 32 (mat1 + 8) m) (\<lambda>a1.
     rbind (vec_load 32 (mat2 + 0) m) (\<lambda>b0. rbind (vec_load 32 (mat2 + 8) m) (\<lambda>b1.
     rbind (vec_store 32 (mat + 0) (vec_add F a0 b0) m) (vec_store 32 (mat + 8) (vec_add F a1 b1)))))))"

definition avx2_broadcast :: "'f list \<Rightarrow> nat \<Rightarrow> 'f list" where
  "avx2_broadcast a i = mm256_shuffle_ps a a i i i i"

text \<open>Two rows of the product, from two rows of the first matrix and the doubled rows of the second.\<close>

definition avx2_pair :: "'f float_ops \<Rightarrow> 'f list \<Rightarrow> 'f list \<times> 'f list \<times> 'f list \<times> 'f list \<Rightarrow> 'f list" where
  "avx2_pair F a b =
     (case b of (b_00, b_11, b_22, b_33) \<Rightarrow>
      let c = vec_mul F (avx2_broadcast a 0) b_00;
          c = vec_fmadd F (avx2_broadcast a 1) b_11 c;
          c = vec_fmadd F (avx2_broadcast a 2) b_22 c
      in vec_fmadd F (avx2_broadcast a 3) b_33 c)"

text \<open>Without \<open>INCREASE_SIMD_ILP\<close> the first two rows are stored before the others are loaded.\<close>

definition simd_avx2_matrix4_mul :: "bool \<Rightarrow> bool \<Rightarrow> 'f float_ops \<Rightarrow> nat \<Rightarrow> nat \<Rightarrow> nat \<Rightarrow> 'f list \<Rightarrow> 'f list result" where
  "simd_avx2_matrix4_mul debug ilp F mat1 mat2 mat m =
     assert_aligned debug 32 [mat1, mat2, mat] (\<lambda>_.
     rbind (load_rows mm256_broadcast_ps mat2 m) (\<lambda>b.
     if \<not> ilp then
       rbind (vec_load 32 (mat1 + 0) m) (\<lambda>a_01.
       rbind (vec_store 32 (mat + 0) (avx2_pair F a_01 b) m) (\<lambda>m.
       rbind (vec_load 32 (mat1 + 8) m) (\<lambda>a_23.
       vec_store 32 (mat + 8) (avx2_pair F a_23 b) m)))
     else
       rbind (vec_load 32 (mat1 + 0) m) (\<lambda>a_01.
       rbind (vec_load 32 (mat1 + 8) m) (\<lambda>a_23.
       rbind (vec_store 32 (mat + 0) (avx2_pair F a_01 b) m) (vec_store 32 (mat + 8) (avx2_pair F a_23 b))))))"

section \<open>NEON\<close>

definition simd_neon_matrix4_add :: "'f float_ops \<Rightarrow> nat \<Rightarrow> nat \<Rightarrow> nat \<Rightarrow> 'f list \<Rightarrow> 'f list result" where
  "simd_neon_matrix4_add F mat1 mat2 mat m =
     rbind (load_rows (\<lambda>p m. read_range m p 4) mat1 m) (\<lambda>(a0, a1, a2, a3).
     rbind (load_rows (\<lambda>p m. read_range m p 4) mat2 m) (\<lambda>(b0, b1, b2, b3).
     store_rows (\<lambda>p v m. write_range m p v) mat (vec_add F a0 b0, vec_add F a1 b1, vec_add F a2 b2, vec_add F a3 b3) m))"

definition neon_rows ::
  "'f float_ops \<Rightarrow> 'f list \<times> 'f list \<times> 'f list \<times> 'f list \<Rightarrow> 'f list \<times> 'f list \<times> 'f list \<times> 'f list \<Rightarrow>
   'f list \<times> 'f list \<times> 'f list \<times> 'f list" where
  "neon_rows F a b =
     (case a of (a0, a1, a2, a3) \<Rightarrow> case b of (b0, b1, b2, b3) \<Rightarrow>
      let c0 = replicate 4 (f_zero F);
          c0 = vmlaq_n_f32 F c0 b0 (a0 ! 0);
          c0 = vmlaq_n_f32 F c0 b1 (a0 ! 1);
          c0 = vmlaq_n_f32 F c0 b2 (a0 ! 2);
          c0 = vmlaq_n_f32 F c0 b3 (a0 ! 3);
          c1 = vmlaq_n_f32 F c0 b0 (a1 ! 0);
          c1 = vmlaq_n_f32 F c0 b1 (a1 ! 1);
          c1 = vmlaq_n_f32 F c0 b2 (a1 ! 2);
          c1 = vmlaq_n_f32 F c0 b3 (a1 ! 3);
          c2 = vmlaq_n_f32 F c0 b0 (a2 ! 0);
          c2 = vmlaq_n_f32 F c0 b1 (a2 ! 1);
          c2 = vmlaq_n_f32 F c0 b2 (a2 ! 2);
          c2 = vmlaq_n_f32 F c0 b3 (a2 ! 3);
          c3 = vmlaq_n_f32 F c0 b0 (a3 ! 0);
          c3 = vmlaq_n_f32 F c0 b1 (a3 ! 1);
          c3 = vmlaq_n_f32 F c0 b2 (a3 ! 2);
          c3 = vmlaq_n_f32 F c0 b3 (a3 ! 3)
      in (c0, c1, c2, c3))"

definition neon_rows_ilp ::
  "'f float_ops \<Rightarrow> 'f list \<times> 'f list \<times> 'f list \<times> 'f list \<Rightarrow> 'f list \<times> 'f list \<times> 'f list \<times> 'f list \<Rightarrow>
   'f list \<times> 'f list \<times> 'f list \<times> 'f list" where
  "neon_rows_ilp F a b =
     (case a of (a0, a1, a2, a3) \<Rightarrow> case b of (b0, b1, b2, b3) \<Rightarrow>
      let c0 = replicate 4 (f_zero F);
          c0 = vmlaq_n_f32 F c0 b0 (a0 ! 0);
          c1 = vmlaq_n_f32 F c0 b0 (a1 ! 0);
          c2 = vmlaq_n_f32 F c0 b0 (a2 ! 0);
          c3 = vmlaq_n_f32 F c0 b0 (a3 ! 0);
          c0 = vmlaq_n_f32 F c0 b1 (a0 ! 1);
          c1 = vmlaq_n_f32 F c0 b1 (a1 ! 1);
          c2 = vmlaq_n_f32 F c0 b1 (a2 ! 1);
          c3 = vmlaq_n_f32 F c0 b1 (a3 ! 1);
          c0 = vmlaq_n_f32 F c0 b2 (a0 ! 2);
          c1 = vmlaq_n_f32 F c0 b2 (a1 ! 2);
          c2 = vmlaq_n_f32 F c0 b2 (a2 ! 2);
          c3 = vmlaq_n_f32 F c0 b2 (a3 ! 2);
          c0 = vmlaq_n_f32 F c0 b3 (a0 ! 3);
          c1 = vmlaq_n_f32 F c0 b3 (a1 ! 3);
          c2 = vmlaq_n_f32 F c0 b3 (a2 ! 3);
          c3 = vmlaq_n_f32 F c0 b3 (a3 ! 3)
      in (c0, c1, c2, c3))"

definition simd_neon_matrix4_mul :: "bool \<Rightarrow> 'f float_ops \<Rightarrow> nat \<Rightarrow> nat \<Rightarrow> nat \<Rightarrow> 'f list \<Rightarrow> 'f list result" where
  "simd_neon_matrix4_mul ilp F mat1 mat2 mat m =
     rbind (load_rows (\<lambda>p m. read_range m p 4) mat1 m) (\<lambda>a.
     rbind (load_rows (\<lambda>p m. read_range m p 4) mat2 m) (\<lambda>b.
     store_rows (\<lambda>p v m. write_range m p v) mat (if \<not> ilp then neon_rows F a b else neon_rows_ilp F a b) m))"

section \<open>The program\<close>

record example_matrix_cfg_t =
  cfg_instruct :: string
  cfg_op :: string
  cfg_total_n :: int
  cfg_warnup_n :: int

datatype matrix_opt = Letter char | OPT_VAL_INSTRUCT | OPT_VAL_METHOD

definition matrix_parse_opt :: "matrix_opt \<Rightarrow> string \<Rightarrow> example_matrix_cfg_t \<Rightarrow> example_matrix_cfg_t parsed" where
  "matrix_parse_opt c optarg cfg =
     (case c of
        Letter x \<Rightarrow>
          if x = CHR ''h'' then ExitSuccess
          else if x = CHR ''n'' then Parsed (cfg\<lparr>cfg_total_n := to_int (atoi optarg)\<rparr>)
          else if x = CHR ''w'' then Parsed (cfg\<lparr>cfg_warnup_n := to_int (atoi optarg)\<rparr>)
          else Parsed cfg
      | OPT_VAL_INSTRUCT \<Rightarrow> Parsed (cfg\<lparr>cfg_instruct := strncpy_buf 8 optarg\<rparr>)
      | OPT_VAL_METHOD \<Rightarrow> Parsed (cfg\<lparr>cfg_op := strncpy_buf 8 optarg\<rparr>))"

fun matrix_parse_opts :: "(matrix_opt \<times> string) list \<Rightarrow> example_matrix_cfg_t \<Rightarrow> example_matrix_cfg_t parsed" where
  "matrix_parse_opts [] cfg = Parsed cfg"
| "matrix_parse_opts ((c, optarg) # opts) cfg =
     (case matrix_parse_opt c optarg cfg of Parsed cfg \<Rightarrow> matrix_parse_opts opts cfg | r \<Rightarrow> r)"

definition matrix_parse_args :: "(matrix_opt \<times> string) list \<Rightarrow> example_matrix_cfg_t parsed" where
  "matrix_parse_args opts =
     matrix_parse_opts opts \<lparr>cfg_instruct = ''scalar'', cfg_op = ''add'', cfg_total_n = 100000, cfg_warnup_n = 20000\<rparr>"

text \<open>
  The loops of the \<open>run_\<close> functions over the indices from \<open>i\<close> to \<open>n\<close>: the matrices of index \<open>i\<close> are
  \<open>i * 3\<close> and the two after it, which is before the array for a negative index.
\<close>

fun run_span :: "(nat \<Rightarrow> nat \<Rightarrow> nat \<Rightarrow> 'f list \<Rightarrow> 'f list result) \<Rightarrow> int list \<Rightarrow> 'f list \<Rightarrow> 'f list result" where
  "run_span f [] m = Inr m"
| "run_span f (i # is) m =
     (if i < 0 then Inl OutOfBounds
      else rbind (f (16 * (nat i * 3 + 0)) (16 * (nat i * 3 + 1)) (16 * (nat i * 3 + 2)) m) (run_span f is))"

definition run_matrix ::
  "(nat \<Rightarrow> nat \<Rightarrow> nat \<Rightarrow> 'f list \<Rightarrow> 'f list result) \<Rightarrow> example_matrix_cfg_t \<Rightarrow> 'f list \<Rightarrow> 'f list result" where
  "run_matrix f cfg m =
     rbind (run_span f [0..cfg_warnup_n cfg - 1] m) (run_span f [cfg_warnup_n cfg..cfg_total_n cfg - 1])"

definition run_scalar_add where "run_scalar_add F = run_matrix (matrix4_add F)"
definition run_scalar_mul where "run_scalar_mul F = run_matrix (matrix4_mul F)"
definition run_sse4_add where "run_sse4_add debug F = run_matrix (simd_sse4_matrix4_add debug F)"
definition run_sse4_mul where "run_sse4_mul debug ilp F = run_matrix (simd_sse4_matrix4_mul debug ilp F)"
definition run_avx2_add where "run_avx2_add debug F = run_matrix (simd_avx2_matrix4_add debug F)"
definition run_avx2_mul where "run_avx2_mul debug ilp F = run_matrix (simd_avx2_matrix4_mul debug ilp F)"
definition run_neon_add where "run_neon_add F = run_matrix (simd_neon_matrix4_add F)"
definition run_neon_mul where "run_neon_mul ilp F = run_matrix (simd_neon_matrix4_mul ilp F)"

text \<open>
  The build: which instruction sets it has. The memory is filled with \<open>rnd\<close>; an allocation that is larger than the address
  space allows fails, so does that of a negative number of matrices. The number of matrices is an \<open>int\<close> product. The result is the exit status
  and the memory at the end.
\<close>

record matrix_build =
  SIMD_HAS_SSE4 :: bool
  SIMD_HAS_AVX2 :: bool
  SIMD_HAS_NEON :: bool
  INCREASE_SIMD_ILP :: bool
  is_debug :: bool

definition matrix_size :: "int \<Rightarrow> nat" where
  "matrix_size total_n = nat (64 * total_n * 3 mod 2 ^ 64)"

definition matrix_run ::
  "matrix_build \<Rightarrow> 'f float_ops \<Rightarrow> example_matrix_cfg_t \<Rightarrow> 'f list \<Rightarrow> 'f list result" where
  "matrix_run B F cfg m =
     (if cfg_instruct cfg = ''scalar'' then
        if cfg_op cfg = ''add'' then run_scalar_add F cfg m
        else if cfg_op cfg = ''mul'' then run_scalar_mul F cfg m else Inr m
      else if cfg_instruct cfg = ''sse4'' then
        if SIMD_HAS_SSE4 B then
          if cfg_op cfg = ''add'' then run_sse4_add (is_debug B) F cfg m
          else if cfg_op cfg = ''mul'' then run_sse4_mul (is_debug B) (INCREASE_SIMD_ILP B) F cfg m else Inr m
        else Inr m
      else if cfg_instruct cfg = ''avx2'' then
        if SIMD_HAS_AVX2 B then
          if cfg_op cfg = ''add'' then run_avx2_add (is_debug B) F cfg m
          else if cfg_op cfg = ''mul'' then run_avx2_mul (is_debug B) (INCREASE_SIMD_ILP B) F cfg m else Inr m
        else Inr m
      else if cfg_instruct cfg = ''neon'' then
        if SIMD_HAS_NEON B then
          if cfg_op cfg = ''add'' then run_neon_add F cfg m
          else if cfg_op cfg = ''mul'' then run_neon_mul (INCREASE_SIMD_ILP B) F cfg m else Inr m
        else Inr m
      else Inr m)"

definition matrix_main ::
  "matrix_build \<Rightarrow> 'f float_ops \<Rightarrow> bool \<Rightarrow> (nat \<Rightarrow> bool) \<Rightarrow> (nat \<Rightarrow> 'f) \<Rightarrow> (matrix_opt \<times> string) list \<Rightarrow> (nat \<times> 'f list) result" where
  "matrix_main B F log_ok alloc_ok rnd opts =
     (case matrix_parse_args opts of
        ExitSuccess \<Rightarrow> Inr (0, [])
      | ParseFailed \<Rightarrow> Inr (1, [])
      | Parsed cfg \<Rightarrow>
          if \<not> log_ok then Inr (1, [])
          else if matrix_size (cfg_total_n cfg) \<ge> 2 ^ 63 \<or> \<not> alloc_ok (matrix_size (cfg_total_n cfg)) then Inr (1, [])
          else if cfg_total_n cfg * 3 \<ge> 2 ^ 31 then Inl SignedOverflow
          else rbind (matrix_run B F cfg (map rnd [0..<matrix_size (cfg_total_n cfg) div 4])) (\<lambda>m. Inr (0, m)))"

section \<open>Matrices in memory\<close>

definition mat_at :: "nat \<Rightarrow> 'f list \<Rightarrow> 'f list" where
  "mat_at p m = take 16 (drop p m)"

definition mat_put :: "nat \<Rightarrow> 'f list \<Rightarrow> 'f list \<Rightarrow> 'f list" where
  "mat_put r C m = take r m @ C @ drop (r + length C) m"

definition mat_sum :: "'f float_ops \<Rightarrow> 'f list \<Rightarrow> 'f list \<Rightarrow> 'f list" where
  "mat_sum F A B = map2 (f_add F) A B"

definition mat_entry :: "'f float_ops \<Rightarrow> 'f list \<Rightarrow> 'f list \<Rightarrow> nat \<Rightarrow> nat \<Rightarrow> 'f" where
  "mat_entry F A B i j = foldl (\<lambda>s k. f_add F s (f_mul F (A ! (i * 4 + k)) (B ! (k * 4 + j)))) (f_zero F) [0..<4]"

definition mat_prod :: "'f float_ops \<Rightarrow> 'f list \<Rightarrow> 'f list \<Rightarrow> 'f list" where
  "mat_prod F A B = map (\<lambda>n. mat_entry F A B (n div 4) (n mod 4)) [0..<16]"

text \<open>
  The products without the zero: the first product of an entry, to which the other three are added by \<open>step\<close>, the addition of a
  rounded product (\<open>mat_dot\<close>) or the fused operation (\<open>mat_dot_fma\<close>).
\<close>

definition mat_chain :: "'f float_ops \<Rightarrow> ('f \<Rightarrow> 'f \<Rightarrow> 'f \<Rightarrow> 'f) \<Rightarrow> 'f list \<Rightarrow> 'f list \<Rightarrow> 'f list" where
  "mat_chain F step A B =
     map (\<lambda>n. foldl (\<lambda>acc k. step (A ! (n div 4 * 4 + k)) (B ! (k * 4 + n mod 4)) acc) (f_mul F (A ! (n div 4 * 4)) (B ! (n mod 4))) [1, 2, 3]) [0..<16]"

definition mat_dot :: "'f float_ops \<Rightarrow> 'f list \<Rightarrow> 'f list \<Rightarrow> 'f list" where
  "mat_dot F = mat_chain F (\<lambda>x y acc. f_add F acc (f_mul F x y))"

definition mat_dot_fma :: "'f float_ops \<Rightarrow> 'f list \<Rightarrow> 'f list \<Rightarrow> 'f list" where
  "mat_dot_fma F = mat_chain F (f_fma F)"

definition rows_of :: "'f list \<Rightarrow> 'f list \<times> 'f list \<times> 'f list \<times> 'f list" where
  "rows_of A = (take 4 A, take 4 (drop 4 A), take 4 (drop 8 A), take 4 (drop 12 A))"

definition concat_rows :: "'f list \<times> 'f list \<times> 'f list \<times> 'f list \<Rightarrow> 'f list" where
  "concat_rows R = (case R of (r0, r1, r2, r3) \<Rightarrow> r0 @ r1 @ r2 @ r3)"

lemma aligned_64: "aligned 64 p \<Longrightarrow> aligned 16 (p + 4 * k)" "aligned 64 p \<Longrightarrow> aligned 32 (p + 8 * k)"
  by (auto simp: aligned_def mod_eq_0_iff_dvd dvd_def)

lemma length_mat_at: "p + 16 \<le> length m \<Longrightarrow> length (mat_at p m) = 16"
  by (simp add: mat_at_def)

lemma list16:
  assumes "length xs = 16"
  obtains a0 a1 a2 a3 a4 a5 a6 a7 a8 a9 a10 a11 a12 a13 a14 a15
    where "xs = [a0, a1, a2, a3, a4, a5, a6, a7, a8, a9, a10, a11, a12, a13, a14, a15]"
  using assms by (auto simp: numeral_eq_Suc length_Suc_conv)

lemma vec_load_row: "aligned 16 p \<Longrightarrow> p + 4 \<le> length m \<Longrightarrow> vec_load 16 p m = Inr (take 4 (drop p m))"
  by (simp add: vec_load_def read_range_def)

lemma vec_load_pair: "aligned 32 p \<Longrightarrow> p + 8 \<le> length m \<Longrightarrow> vec_load 32 p m = Inr (take 8 (drop p m))"
  by (simp add: vec_load_def read_range_def)

lemma write_range_put: "p + length v \<le> length m \<Longrightarrow> write_range m p v = Inr (mat_put p v m)"
  by (simp add: write_range_def mat_put_def)

lemma vec_store_put: "aligned n p \<Longrightarrow> p + length v \<le> length m \<Longrightarrow> vec_store n p v m = Inr (mat_put p v m)"
  by (simp add: vec_store_def write_range_put)

lemma length_mat_put: "p + length C \<le> length m \<Longrightarrow> length (mat_put p C m) = length m"
  by (simp add: mat_put_def)

lemma mat_put_put:
  "p + length C + length D \<le> length m \<Longrightarrow> mat_put (p + length C) D (mat_put p C m) = mat_put p (C @ D) m"
  by (simp add: mat_put_def ac_simps)

lemma rows_at: "rows_of (mat_at p m) = (take 4 (drop p m), take 4 (drop (p + 4) m), take 4 (drop (p + 8) m), take 4 (drop (p + 12) m))"
  by (simp add: rows_of_def mat_at_def drop_take add.commute min_def)

lemma load_rows_ok:
  assumes "\<And>k. k < 4 \<Longrightarrow> load (p + 4 * k) m = Inr (g (take 4 (drop (p + 4 * k) m)))"
  shows "load_rows load p m = (case rows_of (mat_at p m) of (r0, r1, r2, r3) \<Rightarrow> Inr (g r0, g r1, g r2, g r3))"
  using assms [of 0] assms [of 1] assms [of 2] assms [of 3] by (simp add: load_rows_def rows_at)

lemma store_rows_ok:
  assumes "\<And>k v m'. k < 4 \<Longrightarrow> length v = 4 \<Longrightarrow> length m' = length m \<Longrightarrow> store (p + 4 * k) v m' = Inr (mat_put (p + 4 * k) v m')"
    and "rows = (r0, r1, r2, r3)" "length r0 = 4" "length r1 = 4" "length r2 = 4" "length r3 = 4" "p + 16 \<le> length m"
  shows "store_rows store p rows m = Inr (mat_put p (concat_rows rows) m)"
proof -
  let ?m0 = "mat_put p r0 m" and ?m1 = "mat_put p (r0 @ r1) m" and ?m2 = "mat_put p (r0 @ r1 @ r2) m"
  have len: "length ?m0 = length m" "length ?m1 = length m" "length ?m2 = length m"
    using assms(3-7) by (simp_all add: length_mat_put)
  have "mat_put (p + 4) r1 ?m0 = ?m1" "mat_put (p + 8) r2 ?m1 = ?m2" "mat_put (p + 12) r3 ?m2 = mat_put p (r0 @ r1 @ r2 @ r3) m"
    using mat_put_put [of p r0 r1 m] mat_put_put [of p "r0 @ r1" r2 m] mat_put_put [of p "r0 @ r1 @ r2" r3 m] assms(3-7)
    by simp_all
  then show ?thesis
    using assms(1) [of 0 r0 m] assms(1) [of 1 r1 ?m0] assms(1) [of 2 r2 ?m1] assms(1) [of 3 r3 ?m2] assms(3-7) len
    by (simp add: store_rows_def concat_rows_def assms(2))
qed

section \<open>What the registers hold\<close>

lemmas vec_defs = vec_mul_def vec_add_def vec_fmadd_def M128_BROADCAST_def mm_shuffle_ps_def avx2_broadcast_def
  mm256_shuffle_ps_def vmlaq_n_f32_def rows_of_def concat_rows_def

lemma upt_4: "[0..<4] = [0, 1, 2, 3 :: nat]" and upt_16: "[0..<16] = [0, 1, 2, 3, 4, 5, 6, 7, 8, 9, 10, 11, 12, 13, 14, 15 :: nat]"
  by (code_simp, code_simp)

lemma mat_entry_unfold:
  "mat_entry F A B i j =
     f_add F (f_add F (f_add F (f_add F (f_zero F) (f_mul F (A ! (i * 4)) (B ! j))) (f_mul F (A ! (i * 4 + 1)) (B ! (4 + j))))
       (f_mul F (A ! (i * 4 + 2)) (B ! (8 + j)))) (f_mul F (A ! (i * 4 + 3)) (B ! (12 + j)))"
  by (simp add: mat_entry_def upt_4)

lemma float_lawsD:
  assumes "float_laws F"
  shows "f_add F (f_zero F) x = x" "f_add F x y = f_add F y x" "f_mul F x y = f_mul F y x"
  using assms unfolding float_laws_def by blast+

lemma sse4_product:
  assumes "length A = 16" "length B = 16"
  shows "concat_rows (sse4_rows F (rows_of A) (rows_of B)) = mat_dot F A B"
proof -
  from assms(1) obtain a0 a1 a2 a3 a4 a5 a6 a7 a8 a9 a10 a11 a12 a13 a14 a15
    where A: "A = [a0, a1, a2, a3, a4, a5, a6, a7, a8, a9, a10, a11, a12, a13, a14, a15]" by (rule list16)
  from assms(2) obtain b0 b1 b2 b3 b4 b5 b6 b7 b8 b9 b10 b11 b12 b13 b14 b15
    where B: "B = [b0, b1, b2, b3, b4, b5, b6, b7, b8, b9, b10, b11, b12, b13, b14, b15]" by (rule list16)
  show ?thesis unfolding A B by (simp add: sse4_rows_def vec_defs Let_def mat_dot_def mat_chain_def upt_16)
qed

lemma sse4_rows_ilp_eq: "sse4_rows_ilp F a b = sse4_rows F a b"
  by (simp add: sse4_rows_def sse4_rows_ilp_def Let_def split: prod.splits)

definition doubled :: "'f list \<Rightarrow> 'f list \<times> 'f list \<times> 'f list \<times> 'f list" where
  "doubled B = (case rows_of B of (b0, b1, b2, b3) \<Rightarrow> (b0 @ b0, b1 @ b1, b2 @ b2, b3 @ b3))"

lemma avx2_product:
  assumes "length A = 16" "length B = 16"
  shows "avx2_pair F (take 8 A) (doubled B) @ avx2_pair F (take 8 (drop 8 A)) (doubled B) = mat_dot_fma F A B"
    and "length (avx2_pair F (take 8 A) (doubled B)) = 8" "length (avx2_pair F (take 8 (drop 8 A)) (doubled B)) = 8"
proof -
  from assms(1) obtain a0 a1 a2 a3 a4 a5 a6 a7 a8 a9 a10 a11 a12 a13 a14 a15
    where A: "A = [a0, a1, a2, a3, a4, a5, a6, a7, a8, a9, a10, a11, a12, a13, a14, a15]" by (rule list16)
  from assms(2) obtain b0 b1 b2 b3 b4 b5 b6 b7 b8 b9 b10 b11 b12 b13 b14 b15
    where B: "B = [b0, b1, b2, b3, b4, b5, b6, b7, b8, b9, b10, b11, b12, b13, b14, b15]" by (rule list16)
  show "avx2_pair F (take 8 A) (doubled B) @ avx2_pair F (take 8 (drop 8 A)) (doubled B) = mat_dot_fma F A B"
    unfolding A B by (simp add: avx2_pair_def doubled_def vec_defs Let_def mat_dot_fma_def mat_chain_def upt_16)
  show "length (avx2_pair F (take 8 A) (doubled B)) = 8" "length (avx2_pair F (take 8 (drop 8 A)) (doubled B)) = 8"
    unfolding A B by (simp_all add: avx2_pair_def doubled_def vec_defs Let_def)
qed

text \<open>Where the formulas give the same: no product is a zero with a sign, and every product is exact.\<close>

lemma in_mat: "length A = 16 \<Longrightarrow> n < 16 \<Longrightarrow> k < 4 \<Longrightarrow> A ! (n div 4 * 4 + k) \<in> set A \<and> A ! (k * 4 + n mod 4) \<in> set A"
proof -
  assume a: "length A = 16" "n < 16" "k < 4"
  then have "n div 4 * 4 + k < 16" "k * 4 + n mod 4 < 16" by presburger+
  then show ?thesis using a(1) by simp
qed

lemma mat_dot_prod:
  assumes "length A = 16" "length B = 16" "\<forall>x \<in> set A. \<forall>y \<in> set B. f_add F (f_zero F) (f_mul F x y) = f_mul F x y"
  shows "mat_dot F A B = mat_prod F A B"
proof -
  have "f_add F (f_zero F) (f_mul F (A ! (n div 4 * 4)) (B ! (n mod 4))) = f_mul F (A ! (n div 4 * 4)) (B ! (n mod 4))" if "n < 16" for n
    using assms(3) in_mat [OF assms(1) that, of 0] in_mat [OF assms(2) that, of 0] by simp
  then show ?thesis by (simp add: mat_dot_def mat_chain_def mat_prod_def mat_entry_unfold)
qed

lemma mat_dot_fma_dot:
  assumes "length A = 16" "length B = 16" "\<forall>x \<in> set A. \<forall>y \<in> set B. \<forall>z. f_fma F x y z = f_add F z (f_mul F x y)"
  shows "mat_dot_fma F A B = mat_dot F A B"
proof -
  have "f_fma F (A ! (n div 4 * 4 + k)) (B ! (k * 4 + n mod 4)) z = f_add F z (f_mul F (A ! (n div 4 * 4 + k)) (B ! (k * 4 + n mod 4)))"
    if "n < 16" "k < 4" for n k z
    using assms(3) in_mat [OF assms(1) that] in_mat [OF assms(2) that] by simp
  from this [of _ 1] this [of _ 2] this [of _ 3] show ?thesis by (simp add: mat_dot_def mat_dot_fma_def mat_chain_def)
qed

text \<open>
  The rows that the NEON routine stores: its first row is that of the product; the others start from it.
\<close>

definition neon_result :: "'f float_ops \<Rightarrow> 'f list \<Rightarrow> 'f list \<Rightarrow> 'f list" where
  "neon_result F A B =
     (let row = take 4 (mat_prod F A B) in
      row @ concat (map (\<lambda>i. map2 (\<lambda>x y. f_add F x (f_mul F (A ! (i * 4 + 3)) y)) row (drop 12 B)) [1, 2, 3]))"

lemma replicate_4: "replicate 4 x = [x, x, x, x]"
  by (simp add: numeral_eq_Suc)

lemma neon_product:
  assumes "float_laws F" "length A = 16" "length B = 16"
  shows "concat_rows (neon_rows F (rows_of A) (rows_of B)) = neon_result F A B"
proof -
  note comm = float_lawsD(3) [OF assms(1)]
  from assms(2) obtain a0 a1 a2 a3 a4 a5 a6 a7 a8 a9 a10 a11 a12 a13 a14 a15
    where A: "A = [a0, a1, a2, a3, a4, a5, a6, a7, a8, a9, a10, a11, a12, a13, a14, a15]" by (rule list16)
  from assms(3) obtain b0 b1 b2 b3 b4 b5 b6 b7 b8 b9 b10 b11 b12 b13 b14 b15
    where B: "B = [b0, b1, b2, b3, b4, b5, b6, b7, b8, b9, b10, b11, b12, b13, b14, b15]" by (rule list16)
  show ?thesis unfolding A B
    by (simp add: neon_rows_def neon_result_def vec_defs Let_def mat_prod_def mat_entry_unfold upt_16 comm replicate_4)
qed

lemma neon_rows_ilp_eq: "neon_rows_ilp F a b = neon_rows F a b"
  by (simp add: neon_rows_def neon_rows_ilp_def Let_def split: prod.splits)

section \<open>The routines\<close>

text \<open>Three places for matrices.\<close>

definition places :: "nat \<Rightarrow> nat \<Rightarrow> nat \<Rightarrow> 'f list \<Rightarrow> bool" where
  "places p q r m \<longleftrightarrow> list_all (\<lambda>i. aligned 64 i \<and> i + 16 \<le> length m) [p, q, r]"

lemma placesD:
  assumes "places p q r m"
  shows "length (mat_at p m) = 16" "length (mat_at q m) = 16" "r + 16 \<le> length m"
    "load_rows (vec_load 16) p m = Inr (rows_of (mat_at p m))" "load_rows (vec_load 16) q m = Inr (rows_of (mat_at q m))"
    "load_rows (\<lambda>p m. read_range m p 4) p m = Inr (rows_of (mat_at p m))"
    "load_rows (\<lambda>p m. read_range m p 4) q m = Inr (rows_of (mat_at q m))"
    "load_rows mm256_broadcast_ps q m = Inr (doubled (mat_at q m))"
proof -
  have b: "p + 16 \<le> length m" "q + 16 \<le> length m" "r + 16 \<le> length m" and al: "aligned 64 p" "aligned 64 q" "aligned 64 r"
    using assms by (simp_all add: places_def)
  show "length (mat_at p m) = 16" "length (mat_at q m) = 16" "r + 16 \<le> length m" using b by (simp_all add: length_mat_at)
  have row: "vec_load 16 (p + 4 * k) m = Inr (take 4 (drop (p + 4 * k) m))" "vec_load 16 (q + 4 * k) m = Inr (take 4 (drop (q + 4 * k) m))"
    if "k < 4" for k
    using that b aligned_64(1) [OF al(1), of k] aligned_64(1) [OF al(2), of k] by (simp_all add: vec_load_row)
  show "load_rows (vec_load 16) p m = Inr (rows_of (mat_at p m))" "load_rows (vec_load 16) q m = Inr (rows_of (mat_at q m))"
    using load_rows_ok [of "vec_load 16" p m id, unfolded id_apply, OF row(1)] load_rows_ok [of "vec_load 16" q m id, unfolded id_apply, OF row(2)]
    by (simp_all add: rows_of_def)
  show "load_rows (\<lambda>p m. read_range m p 4) p m = Inr (rows_of (mat_at p m))"
      "load_rows (\<lambda>p m. read_range m p 4) q m = Inr (rows_of (mat_at q m))"
    using load_rows_ok [of "\<lambda>p m. read_range m p 4" p m id] load_rows_ok [of "\<lambda>p m. read_range m p 4" q m id] b
    by (simp_all add: rows_of_def read_range_def)
  show "load_rows mm256_broadcast_ps q m = Inr (doubled (mat_at q m))"
    using load_rows_ok [of mm256_broadcast_ps q m "\<lambda>v. v @ v"] b
    by (simp add: mm256_broadcast_ps_def read_range_def doubled_def rows_of_def)
qed

lemma assert_places:
  "places p q r m \<Longrightarrow> assert_aligned debug 16 [p, q, r] f = f ()"
  "places p q r m \<Longrightarrow> assert_aligned debug 32 [p, q, r] f = f ()"
  using aligned_64(1) [of _ 0] aligned_64(2) [of _ 0] by (simp_all add: assert_aligned_def places_def)

lemma store_rows_places:
  assumes "places p q r m" "\<forall>v \<in> set [fst rows, fst (snd rows), fst (snd (snd rows)), snd (snd (snd rows))]. length v = 4"
  shows "store_rows (vec_store 16) r rows m = Inr (mat_put r (concat_rows rows) m)"
    and "store_rows (\<lambda>p v m. write_range m p v) r rows m = Inr (mat_put r (concat_rows rows) m)"
proof -
  obtain r0 r1 r2 r3 where rows: "rows = (r0, r1, r2, r3)" by (cases rows)
  have r: "r + 16 \<le> length m" "aligned 64 r" using assms(1) by (simp_all add: places_def)
  have "vec_store 16 (r + 4 * k) v m' = Inr (mat_put (r + 4 * k) v m')" "write_range m' (r + 4 * k) v = Inr (mat_put (r + 4 * k) v m')"
    if "k < 4" "length v = 4" "length m' = length m" for k v m'
    using that r aligned_64(1) [OF r(2), of k] by (simp_all add: vec_store_put write_range_put)
  then show "store_rows (vec_store 16) r rows m = Inr (mat_put r (concat_rows rows) m)"
    and "store_rows (\<lambda>p v m. write_range m p v) r rows m = Inr (mat_put r (concat_rows rows) m)"
    using assms(2) r(1) rows by (auto intro!: store_rows_ok)
qed

lemma rows_lengths:
  assumes "length B = 16"
  shows "\<forall>v \<in> (\<lambda>(c0, c1, c2, c3). {c0, c1, c2, c3}) (sse4_rows F a (rows_of B)). length v = 4"
    and "\<forall>v \<in> (\<lambda>(c0, c1, c2, c3). {c0, c1, c2, c3}) (neon_rows F a (rows_of B)). length v = 4"
  using assms by (auto simp: sse4_rows_def neon_rows_def Let_def vec_defs split: prod.splits)

lemma sse4_mul_result:
  assumes "places p q r m"
  shows "simd_sse4_matrix4_mul debug ilp F p q r m = Inr (mat_put r (mat_dot F (mat_at p m) (mat_at q m)) m)"
proof -
  note P = placesD [OF assms]
  have "store_rows (vec_store 16) r (sse4_rows F (rows_of (mat_at p m)) (rows_of (mat_at q m))) m =
      Inr (mat_put r (mat_dot F (mat_at p m) (mat_at q m)) m)"
    using store_rows_places(1) [OF assms] rows_lengths(1) [OF P(2), of F "rows_of (mat_at p m)"] sse4_product [OF P(1,2)]
    by (simp add: case_prod_beta)
  then show ?thesis using P(4,5) by (simp add: simd_sse4_matrix4_mul_def sse4_rows_ilp_eq assert_places [OF assms])
qed

lemma neon_mul_result:
  assumes "float_laws F" "places p q r m"
  shows "simd_neon_matrix4_mul ilp F p q r m = Inr (mat_put r (neon_result F (mat_at p m) (mat_at q m)) m)"
proof -
  note P = placesD [OF assms(2)]
  have "store_rows (\<lambda>p v m. write_range m p v) r (neon_rows F (rows_of (mat_at p m)) (rows_of (mat_at q m))) m =
      Inr (mat_put r (neon_result F (mat_at p m) (mat_at q m)) m)"
    using store_rows_places(2) [OF assms(2)] rows_lengths(2) [OF P(2), of F "rows_of (mat_at p m)"] neon_product [OF assms(1) P(1,2)]
    by (simp add: case_prod_beta)
  then show ?thesis using P(6,7) by (simp add: simd_neon_matrix4_mul_def neon_rows_ilp_eq)
qed

lemma sum_rows:
  assumes "length A = 16" "length B = 16"
  shows "concat_rows (case rows_of A of (a0, a1, a2, a3) \<Rightarrow> case rows_of B of (b0, b1, b2, b3) \<Rightarrow>
      (vec_add F a0 b0, vec_add F a1 b1, vec_add F a2 b2, vec_add F a3 b3)) = mat_sum F A B"
    "vec_add F (take 8 A) (take 8 B) @ vec_add F (take 8 (drop 8 A)) (take 8 (drop 8 B)) = mat_sum F A B"
proof -
  from assms(1) obtain a0 a1 a2 a3 a4 a5 a6 a7 a8 a9 a10 a11 a12 a13 a14 a15
    where A: "A = [a0, a1, a2, a3, a4, a5, a6, a7, a8, a9, a10, a11, a12, a13, a14, a15]" by (rule list16)
  from assms(2) obtain b0 b1 b2 b3 b4 b5 b6 b7 b8 b9 b10 b11 b12 b13 b14 b15
    where B: "B = [b0, b1, b2, b3, b4, b5, b6, b7, b8, b9, b10, b11, b12, b13, b14, b15]" by (rule list16)
  show "concat_rows (case rows_of A of (a0, a1, a2, a3) \<Rightarrow> case rows_of B of (b0, b1, b2, b3) \<Rightarrow>
      (vec_add F a0 b0, vec_add F a1 b1, vec_add F a2 b2, vec_add F a3 b3)) = mat_sum F A B"
    "vec_add F (take 8 A) (take 8 B) @ vec_add F (take 8 (drop 8 A)) (take 8 (drop 8 B)) = mat_sum F A B"
    unfolding A B by (simp_all add: vec_defs mat_sum_def)
qed

lemma rows_add_result:
  assumes "places p q r m"
  shows "simd_sse4_matrix4_add debug F p q r m = Inr (mat_put r (mat_sum F (mat_at p m) (mat_at q m)) m)"
    and "simd_neon_matrix4_add F p q r m = Inr (mat_put r (mat_sum F (mat_at p m) (mat_at q m)) m)"
proof -
  note P = placesD [OF assms]
  let ?rows = "case rows_of (mat_at p m) of (a0, a1, a2, a3) \<Rightarrow> case rows_of (mat_at q m) of (b0, b1, b2, b3) \<Rightarrow>
    (vec_add F a0 b0, vec_add F a1 b1, vec_add F a2 b2, vec_add F a3 b3)"
  have len: "\<forall>v \<in> set [fst ?rows, fst (snd ?rows), fst (snd (snd ?rows)), snd (snd (snd ?rows))]. length v = 4"
    using P(1,2) by (simp add: rows_of_def vec_add_def)
  have "store_rows (vec_store 16) r ?rows m = Inr (mat_put r (mat_sum F (mat_at p m) (mat_at q m)) m)"
    "store_rows (\<lambda>p v m. write_range m p v) r ?rows m = Inr (mat_put r (mat_sum F (mat_at p m) (mat_at q m)) m)"
    using store_rows_places [OF assms len] sum_rows(1) [OF P(1,2), of F] by simp_all
  then show "simd_sse4_matrix4_add debug F p q r m = Inr (mat_put r (mat_sum F (mat_at p m) (mat_at q m)) m)"
    and "simd_neon_matrix4_add F p q r m = Inr (mat_put r (mat_sum F (mat_at p m) (mat_at q m)) m)"
    using P(4-7) by (simp_all add: simd_sse4_matrix4_add_def simd_neon_matrix4_add_def rows_of_def assert_places [OF assms])
qed

text \<open>The registers of AVX2 hold two rows.\<close>

lemma take_drop_put:
  assumes "r + length C \<le> length m" "i + n \<le> r \<or> r + length C \<le> i"
  shows "take n (drop i (mat_put r C m)) = take n (drop i m)"
proof -
  have nth: "mat_put r C m ! k = m ! k" if "k < r \<or> r + length C \<le> k" "k < length m" for k
    using that assms(1) by (auto simp: mat_put_def nth_append)
  show ?thesis
    by (rule nth_equalityI) (use nth assms in \<open>auto simp: length_mat_put\<close>)
qed

lemma aligned_apart: "aligned 64 p \<Longrightarrow> aligned 64 r \<Longrightarrow> p = r \<or> p + 16 \<le> r \<or> r + 16 \<le> p"
  by (auto simp: aligned_def mod_eq_0_iff_dvd dvd_def)

lemma pairs_of:
  assumes "places p q r m"
  shows "vec_load 32 p m = Inr (take 8 (mat_at p m))" "vec_load 32 (p + 8) m = Inr (take 8 (drop 8 (mat_at p m)))"
    "vec_load 32 q m = Inr (take 8 (mat_at q m))" "vec_load 32 (q + 8) m = Inr (take 8 (drop 8 (mat_at q m)))"
    "length C = 8 \<Longrightarrow> length D = 8 \<Longrightarrow> vec_store 32 r C m = Inr (mat_put r C m) \<and>
      vec_store 32 (r + 8) D (mat_put r C m) = Inr (mat_put r (C @ D) m)"
    "length C = 8 \<Longrightarrow> vec_load 32 (p + 8) (mat_put r C m) = vec_load 32 (p + 8) m"
proof -
  have b: "p + 16 \<le> length m" "q + 16 \<le> length m" "r + 16 \<le> length m" and al: "aligned 64 p" "aligned 64 q" "aligned 64 r"
    using assms by (simp_all add: places_def)
  note al' = aligned_64(2) [OF al(1), of 0] aligned_64(2) [OF al(1), of 1] aligned_64(2) [OF al(2), of 0]
    aligned_64(2) [OF al(2), of 1] aligned_64(2) [OF al(3), of 0] aligned_64(2) [OF al(3), of 1]
  show "vec_load 32 p m = Inr (take 8 (mat_at p m))" "vec_load 32 (p + 8) m = Inr (take 8 (drop 8 (mat_at p m)))"
    "vec_load 32 q m = Inr (take 8 (mat_at q m))" "vec_load 32 (q + 8) m = Inr (take 8 (drop 8 (mat_at q m)))"
    using al' b by (simp_all add: vec_load_pair mat_at_def drop_take add.commute)
  show "length C = 8 \<Longrightarrow> length D = 8 \<Longrightarrow> vec_store 32 r C m = Inr (mat_put r C m) \<and>
      vec_store 32 (r + 8) D (mat_put r C m) = Inr (mat_put r (C @ D) m)"
    using al' b mat_put_put [of r C D m] by (simp add: vec_store_put length_mat_put)
  show "length C = 8 \<Longrightarrow> vec_load 32 (p + 8) (mat_put r C m) = vec_load 32 (p + 8) m"
    using al' b aligned_apart [OF al(1,3)] by (auto simp: vec_load_pair length_mat_put intro!: take_drop_put)
qed

lemma avx2_results:
  assumes "places p q r m"
  shows "simd_avx2_matrix4_add debug F p q r m = Inr (mat_put r (mat_sum F (mat_at p m) (mat_at q m)) m)"
    and "simd_avx2_matrix4_mul debug ilp F p q r m = Inr (mat_put r (mat_dot_fma F (mat_at p m) (mat_at q m)) m)"
proof -
  note P = placesD [OF assms] and Q = pairs_of [OF assms]
  let ?A = "mat_at p m" and ?B = "mat_at q m"
  have "length (vec_add F (take 8 ?A) (take 8 ?B)) = 8" "length (vec_add F (take 8 (drop 8 ?A)) (take 8 (drop 8 ?B))) = 8"
    using P(1,2) by (simp_all add: vec_add_def)
  then show "simd_avx2_matrix4_add debug F p q r m = Inr (mat_put r (mat_sum F ?A ?B) m)"
    using Q(1-5) sum_rows(2) [OF P(1,2), of F] by (simp add: simd_avx2_matrix4_add_def assert_places [OF assms])
  show "simd_avx2_matrix4_mul debug ilp F p q r m = Inr (mat_put r (mat_dot_fma F ?A ?B) m)"
    using Q(1,2,5,6) avx2_product [OF P(1,2), of F] P(8) by (simp add: simd_avx2_matrix4_mul_def assert_places [OF assms])
qed

text \<open>The scalar loops write float by float.\<close>

lemma fold_put: "r + n \<le> length m \<Longrightarrow> foldl (\<lambda>m j. m[r + j := f j]) m [0..<n] = mat_put r (map f [0..<n]) m"
proof (induction n)
  case (Suc n)
  have "(mat_put r (map f [0..<n]) m)[r + n := x] = mat_put r (map f [0..<n] @ [x]) m" for x
    using Suc.prems by (simp add: mat_put_def list_update_append Cons_nth_drop_Suc [symmetric])
  then show ?case using Suc by simp
qed (simp add: mat_put_def)

lemma nth_mat_at: "n < 16 \<Longrightarrow> p + n < length m \<Longrightarrow> mat_at p m ! n = m ! (p + n)"
  by (simp add: mat_at_def)

lemma mat_at_update: "r + n < p \<or> p + 16 \<le> r + n \<Longrightarrow> mat_at p (m[r + n := x]) = mat_at p m"
  by (auto simp: mat_at_def intro!: nth_equalityI)

lemma add_loop_result:
  assumes "places p q r m" "k \<le> 16" "length m' = length m" "\<And>j. k \<le> j \<Longrightarrow> j < 16 \<Longrightarrow> m' ! (p + j) = m ! (p + j) \<and> m' ! (q + j) = m ! (q + j)"
  shows "add_loop F p q r [k..<16] m' = Inr (foldl (\<lambda>m' j. m'[r + j := f_add F (m ! (p + j)) (m ! (q + j))]) m' [k..<16])"
  using assms(2-4)
proof (induction "16 - k" arbitrary: k m')
  case (Suc n)
  then have k: "k < 16" and upt: "[k..<16] = k # [Suc k..<16]" by (simp_all add: upt_conv_Cons)
  have b: "p + 16 \<le> length m" "q + 16 \<le> length m" "r + 16 \<le> length m" and al: "aligned 64 p" "aligned 64 q" "aligned 64 r"
    using assms(1) by (simp_all add: places_def)
  let ?m = "m'[r + k := f_add F (m ! (p + k)) (m ! (q + k))]"
  have "r + k \<noteq> p + j \<and> r + k \<noteq> q + j" if "Suc k \<le> j" "j < 16" for j
    using aligned_apart [OF al(1,3)] aligned_apart [OF al(2,3)] that k by auto
  then have "?m ! (p + j) = m ! (p + j) \<and> ?m ! (q + j) = m ! (q + j)" if "Suc k \<le> j" "j < 16" for j
    using that Suc.prems(3) [of j] by simp
  then have "add_loop F p q r [Suc k..<16] ?m = Inr (foldl (\<lambda>m' j. m'[r + j := f_add F (m ! (p + j)) (m ! (q + j))]) ?m [Suc k..<16])"
    using Suc.hyps k Suc.prems(2) by (intro Suc.hyps(1)) auto
  then show ?case using Suc.prems(2,3) k b by (simp add: upt float_at_def float_put_def)
qed simp

lemma matrix4_add_result:
  assumes "places p q r m"
  shows "matrix4_add F p q r m = Inr (mat_put r (mat_sum F (mat_at p m) (mat_at q m)) m)"
proof -
  note P = placesD(1-3) [OF assms]
  have b: "p + 16 \<le> length m" "q + 16 \<le> length m" using assms by (simp_all add: places_def)
  have "map (\<lambda>j. f_add F (m ! (p + j)) (m ! (q + j))) [0..<16] = mat_sum F (mat_at p m) (mat_at q m)"
    using P b by (intro nth_equalityI) (simp_all add: mat_sum_def nth_mat_at)
  then show ?thesis using add_loop_result [OF assms, of 0 m F] fold_put [OF P(3)] assms
    by (simp add: matrix4_add_def assume_aligned_def places_def)
qed

lemma mul_sum_result:
  assumes "p + 16 \<le> length m" "q + 16 \<le> length m" "i < 4" "j < 4" "\<forall>k \<in> set ks. k < 4"
  shows "mul_sum F p q i j ks m acc =
    Inr (foldl (\<lambda>s k. f_add F s (f_mul F (mat_at p m ! (i * 4 + k)) (mat_at q m ! (k * 4 + j)))) acc ks)"
  using assms(5) by (induction ks arbitrary: acc) (use assms(1-4) in \<open>auto simp: float_at_def nth_mat_at\<close>)

lemma mul_cols_result:
  assumes "places p q r m" "r \<noteq> p" "r \<noteq> q" "i < 4" "\<forall>j \<in> set js. j < 4"
  shows "mul_cols F p q r i js m =
    Inr (foldl (\<lambda>m' j. m'[r + (i * 4 + j) := mat_entry F (mat_at p m) (mat_at q m) i j]) m js)"
  using assms(1,5)
proof (induction js arbitrary: m)
  case (Cons j js)
  have b: "p + 16 \<le> length m" "q + 16 \<le> length m" "r + 16 \<le> length m" and al: "aligned 64 p" "aligned 64 q" "aligned 64 r"
    using Cons.prems(1) by (simp_all add: places_def)
  let ?m = "m[r + (i * 4 + j) := mat_entry F (mat_at p m) (mat_at q m) i j]"
  have n: "i * 4 + j < 16" using assms(4) Cons.prems(2) by simp
  have same: "mat_at p ?m = mat_at p m" "mat_at q ?m = mat_at q m"
    using aligned_apart [OF al(1,3)] aligned_apart [OF al(2,3)] assms(2,3) n by (auto intro!: mat_at_update)
  have "places p q r ?m" using Cons.prems(1) by (simp add: places_def)
  then have "mul_cols F p q r i js ?m = Inr (foldl (\<lambda>m' j. m'[r + (i * 4 + j) := mat_entry F (mat_at p m) (mat_at q m) i j]) ?m js)"
    using Cons.IH [of ?m] Cons.prems(2) same by simp
  then show ?case using mul_sum_result [OF b(1,2) assms(4), of j "[0..<4]" F] Cons.prems(2) n b(3)
    by (simp add: float_put_def mat_entry_def)
qed simp

lemma fold_update_keeps:
  assumes "\<forall>j \<in> set js. r + g j < p \<or> p + 16 \<le> r + g j"
  shows "mat_at p (foldl (\<lambda>m' j. m'[r + g j := f j]) m js) = mat_at p m" "length (foldl (\<lambda>m' j. m'[r + g j := f j]) m js) = length m"
  using assms by (induction js arbitrary: m) (simp_all add: mat_at_update)

lemma mul_rows_result:
  assumes "places p q r m" "r \<noteq> p" "r \<noteq> q" "\<forall>i \<in> set is. i < 4"
  shows "mul_rows F p q r is m =
    Inr (foldl (\<lambda>m' i. foldl (\<lambda>m' j. m'[r + (i * 4 + j) := mat_entry F (mat_at p m) (mat_at q m) i j]) m' [0..<4]) m is)"
  using assms(1,4)
proof (induction "is" arbitrary: m)
  case (Cons i "is")
  have al: "aligned 64 p" "aligned 64 q" "aligned 64 r" using Cons.prems(1) by (simp_all add: places_def)
  let ?m = "foldl (\<lambda>m' j. m'[r + (i * 4 + j) := mat_entry F (mat_at p m) (mat_at q m) i j]) m [0..<4]"
  have apart: "\<forall>j \<in> set [0..<4]. r + (i * 4 + j) < p \<or> p + 16 \<le> r + (i * 4 + j)" "\<forall>j \<in> set [0..<4]. r + (i * 4 + j) < q \<or> q + 16 \<le> r + (i * 4 + j)"
    using aligned_apart [OF al(1,3)] aligned_apart [OF al(2,3)] assms(2,3) Cons.prems(2) by auto
  have keep: "mat_at p ?m = mat_at p m" "length ?m = length m" "mat_at q ?m = mat_at q m"
    by (rule fold_update_keeps [OF apart(1)] fold_update_keeps [OF apart(2)])+
  have "places p q r ?m" using Cons.prems(1) keep(2) by (simp add: places_def)
  then show ?case using Cons.IH [of ?m] mul_cols_result [OF Cons.prems(1) assms(2,3), of i "[0..<4]" F] Cons.prems(2) keep(1,3) by simp
qed simp

lemma matrix4_mul_result:
  assumes "places p q r m" "r \<noteq> p" "r \<noteq> q"
  shows "matrix4_mul F p q r m = Inr (mat_put r (mat_prod F (mat_at p m) (mat_at q m)) m)"
proof -
  have "foldl (\<lambda>m' i. foldl (\<lambda>m' j. m'[r + (i * 4 + j) := e i j]) m' [0..<4]) m [0..<4] =
      foldl (\<lambda>m' n. m'[r + n := e (n div 4) (n mod 4)]) m [0..<16]" for e :: "nat \<Rightarrow> nat \<Rightarrow> 'a"
    by (simp add: upt_4 upt_16 add.commute [of r])
  then show ?thesis
    using mul_rows_result [OF assms, of "[0..<4]" F] fold_put [OF placesD(3) [OF assms(1)]] assms(1)
    by (simp add: matrix4_mul_def assume_aligned_def places_def mat_prod_def)
qed

section \<open>Agreement of the routines\<close>

text \<open>
  C11. What the routines store, in every float arithmetic: the four additions, that of NEON included, the sums of the entries; the scalar
  multiplication, in a place that is not a factor, four rounded products added to zero; that of SSE4 the first product with the other three added;
  that of AVX2 the first product with the other three added by the fused operation. The last two do so also when the result takes the place of a
  factor, interleaved or not, in debug builds or not; everything else in memory stays. So SSE4 agrees with the scalar routine where adding zero
  leaves the products of entries (it does but for negative zeros), and AVX2 with SSE4 where the fused operation on entries is the sum with the
  rounded product, as it is when the products of entries are exact; elsewhere they differ in rounding.
\<close>

theorem matrix_routines_store:
  assumes "places p q r m" "A = mat_at p m" "B = mat_at q m"
  shows "simd_sse4_matrix4_mul debug ilp F p q r m = Inr (mat_put r (mat_dot F A B) m) \<and>
    simd_avx2_matrix4_mul debug ilp F p q r m = Inr (mat_put r (mat_dot_fma F A B) m) \<and>
    (r \<noteq> p \<and> r \<noteq> q \<longrightarrow> matrix4_mul F p q r m = Inr (mat_put r (mat_prod F A B) m)) \<and>
    (\<forall>f \<in> {matrix4_add F, simd_sse4_matrix4_add debug F, simd_avx2_matrix4_add debug F, simd_neon_matrix4_add F}.
       f p q r m = Inr (mat_put r (mat_sum F A B) m)) \<and>
    ((\<forall>x \<in> set A. \<forall>y \<in> set B. f_add F (f_zero F) (f_mul F x y) = f_mul F x y) \<longrightarrow> mat_dot F A B = mat_prod F A B) \<and>
    ((\<forall>x \<in> set A. \<forall>y \<in> set B. \<forall>z. f_fma F x y z = f_add F z (f_mul F x y)) \<longrightarrow> mat_dot_fma F A B = mat_dot F A B)"
  using sse4_mul_result [OF assms(1)] avx2_results [OF assms(1)] matrix4_mul_result [OF assms(1)] matrix4_add_result [OF assms(1)]
    rows_add_result [OF assms(1)] mat_dot_prod mat_dot_fma_dot placesD(1,2) [OF assms(1)] unfolding assms(2,3) by auto

definition int_ops :: "int float_ops" where
  "int_ops = \<lparr>f_zero = 0, f_add = (+), f_mul = (*), f_fma = (\<lambda>x y z. x * y + z)\<rparr>"

lemma int_ops_laws: "float_laws int_ops"
  by (simp_all add: float_laws_def int_ops_def)

text \<open>An arithmetic that rounds: numbers from 16 on are multiples of four. The fused operation rounds once.\<close>

definition round4 :: "int \<Rightarrow> int" where
  "round4 x = (if \<bar>x\<bar> < 16 then x else (x + 2) div 4 * 4)"

definition coarse_ops :: "int float_ops" where
  "coarse_ops = \<lparr>f_zero = 0, f_add = (\<lambda>x y. round4 (x + y)), f_mul = (\<lambda>x y. round4 (x * y)), f_fma = (\<lambda>x y z. round4 (x * y + z))\<rparr>"

definition small_entries :: "int list" where
  "small_entries = [3, 1, 2, 3,  1, 3, 2, 2,  2, 2, 3, 1,  3, 3, 1, 2]"

text \<open>With small entries the products are exact and the three routines agree, though the sums are rounded; with a larger one they do not.\<close>

theorem matrix_routines_store_witness:
  "simd_sse4_matrix4_mul True False coarse_ops 0 16 32 (small_entries @ small_entries @ replicate 16 0) =
     matrix4_mul coarse_ops 0 16 32 (small_entries @ small_entries @ replicate 16 0) \<and>
   simd_avx2_matrix4_mul True True coarse_ops 0 16 32 (small_entries @ small_entries @ replicate 16 0) =
     matrix4_mul coarse_ops 0 16 32 (small_entries @ small_entries @ replicate 16 0) \<and>
   mat_dot coarse_ops small_entries small_entries \<noteq> mat_prod int_ops small_entries small_entries \<and>
   mat_dot_fma coarse_ops (small_entries[1 := 7]) (small_entries[4 := 7]) \<noteq> mat_dot coarse_ops (small_entries[1 := 7]) (small_entries[4 := 7])"
proof -
  let ?m = "small_entries @ small_entries @ replicate 16 0"
  have P: "places 0 16 32 ?m" by (simp add: places_def aligned_def small_entries_def)
  have at: "small_entries = mat_at 0 ?m" "small_entries = mat_at 16 ?m" by (simp_all add: mat_at_def small_entries_def)
  have "set small_entries \<subseteq> {1, 2, 3}" by (simp add: small_entries_def)
  moreover have "round4 (x * y) = x * y" if "x \<in> {1, 2, 3}" "y \<in> {1, 2, 3}" for x y using that by (auto simp: round4_def)
  ultimately have exact: "\<forall>x \<in> set small_entries. \<forall>y \<in> set small_entries. round4 (x * y) = x * y" by blast
  then have "\<forall>x \<in> set small_entries. \<forall>y \<in> set small_entries. f_add coarse_ops (f_zero coarse_ops) (f_mul coarse_ops x y) = f_mul coarse_ops x y"
    "\<forall>x \<in> set small_entries. \<forall>y \<in> set small_entries. \<forall>z. f_fma coarse_ops x y z = f_add coarse_ops z (f_mul coarse_ops x y)"
    by (simp_all add: coarse_ops_def add.commute)
  moreover have "mat_dot coarse_ops small_entries small_entries \<noteq> mat_prod int_ops small_entries small_entries"
    "mat_dot_fma coarse_ops (small_entries[1 := 7]) (small_entries[4 := 7]) \<noteq> mat_dot coarse_ops (small_entries[1 := 7]) (small_entries[4 := 7])"
    by code_simp+
  ultimately show ?thesis
    using matrix_routines_store [OF P at, of True False coarse_ops] matrix_routines_store [OF P at, of True True coarse_ops] by auto
qed

text \<open>
  The scalar multiplication in place uses entries of the result for those of the factor, and the NEON multiplication
  starts every row but the first from the first row of the product.
\<close>

definition swap_rows :: "int list" where
  "swap_rows = [0, 1, 0, 0,  1, 0, 0, 0,  0, 0, 1, 0,  0, 0, 0, 1]"

lemma scalar_mul_in_place_wrong:
  "matrix4_mul int_ops 0 16 0 (swap_rows @ swap_rows) \<noteq> simd_sse4_matrix4_mul True False int_ops 0 16 0 (swap_rows @ swap_rows)"
  by code_simp

lemma neon_result_wrong: "neon_result int_ops swap_rows swap_rows \<noteq> mat_prod int_ops swap_rows swap_rows"
  by code_simp

section \<open>The program\<close>

text \<open>
  What the loops rely on: an operation stores a value that depends on its two matrices, and outside of the memory it
  reads out of bounds.
\<close>

definition cell :: "nat \<Rightarrow> 'f list \<Rightarrow> 'f list" where
  "cell n m = mat_at (16 * n) m"

lemma cell_put:
  assumes "length C = 16" "16 * k + 16 \<le> length m"
  shows "cell n (mat_put (16 * k) C m) = (if n = k then C else cell n m)"
proof (cases "n = k")
  case False
  then have "16 * n + 16 \<le> 16 * k \<or> 16 * k + length C \<le> 16 * n" using assms(1) by auto
  then show ?thesis using False take_drop_put [of "16 * k" C m "16 * n" 16] assms by (simp add: cell_def mat_at_def)
qed (use assms in \<open>simp add: cell_def mat_at_def mat_put_def\<close>)

locale matrix_op =
  fixes f :: "nat \<Rightarrow> nat \<Rightarrow> nat \<Rightarrow> 'f list \<Rightarrow> 'f list result"
    and spec :: "'f list \<Rightarrow> 'f list \<Rightarrow> 'f list"
  assumes stores: "places p q r m \<Longrightarrow> r \<noteq> p \<Longrightarrow> r \<noteq> q \<Longrightarrow> f p q r m = Inr (mat_put r (spec (mat_at p m) (mat_at q m)) m)"
    and spec_length: "length A = 16 \<Longrightarrow> length B = 16 \<Longrightarrow> length (spec A B) = 16"
    and outside: "list_all (aligned 64) [p, q, r] \<Longrightarrow> length m \<le> p \<Longrightarrow> length m \<le> q \<Longrightarrow> f p q r m = Inl OutOfBounds"
begin

lemma run_step:
  assumes "length m = 48 * t" "i < t"
  obtains m' where "f (16 * (i * 3 + 0)) (16 * (i * 3 + 1)) (16 * (i * 3 + 2)) m = Inr m'" "length m' = 48 * t"
    "\<And>n. cell n m' = (if n = 3 * i + 2 then spec (cell (3 * i) m) (cell (3 * i + 1) m) else cell n m)"
proof -
  let ?p = "16 * (i * 3 + 0)" and ?q = "16 * (i * 3 + 1)" and ?r = "16 * (i * 3 + 2)"
  let ?C = "spec (mat_at ?p m) (mat_at ?q m)"
  have b: "?p + 16 \<le> length m" "?q + 16 \<le> length m" "?r + 16 \<le> length m" using assms by simp_all
  then have "places ?p ?q ?r m" by (simp add: places_def aligned_def)
  then have "f ?p ?q ?r m = Inr (mat_put ?r ?C m)" by (rule stores) simp_all
  moreover have C: "length ?C = 16" using b by (intro spec_length length_mat_at)
  moreover have "length (mat_put ?r ?C m) = 48 * t" using b C assms(1) by (simp add: length_mat_put)
  moreover have "cell n (mat_put ?r ?C m) = (if n = 3 * i + 2 then spec (cell (3 * i) m) (cell (3 * i + 1) m) else cell n m)" for n
    using cell_put [OF C b(3), of n] by (simp add: cell_def mult.commute)
  ultimately show ?thesis using that by blast
qed

lemma run_span_result:
  assumes "length m = 48 * t" "\<forall>i \<in> set is. 0 \<le> i \<and> i < int t"
  shows "\<exists>m'. run_span f is m = Inr m' \<and> length m' = 48 * t \<and>
    (\<forall>n. cell n m' = (if n mod 3 = 2 \<and> int (n div 3) \<in> set is then spec (cell (n - 2) m) (cell (n - 1) m) else cell n m))"
  using assms
proof (induction "is" arbitrary: m)
  case (Cons i "is")
  then have i: "0 \<le> i" "nat i < t" by auto
  obtain m1 where m1: "f (16 * (nat i * 3 + 0)) (16 * (nat i * 3 + 1)) (16 * (nat i * 3 + 2)) m = Inr m1" "length m1 = 48 * t"
      "\<And>n. cell n m1 = (if n = 3 * nat i + 2 then spec (cell (3 * nat i) m) (cell (3 * nat i + 1) m) else cell n m)"
    using run_step [OF Cons.prems(1) i(2)] by blast
  obtain m' where m': "run_span f is m1 = Inr m'" "length m' = 48 * t"
      "\<And>n. cell n m' = (if n mod 3 = 2 \<and> int (n div 3) \<in> set is then spec (cell (n - 2) m1) (cell (n - 1) m1) else cell n m1)"
    using Cons.IH [OF m1(2)] Cons.prems(2) by auto
  have "cell n m' = (if n mod 3 = 2 \<and> int (n div 3) \<in> set (i # is) then spec (cell (n - 2) m) (cell (n - 1) m) else cell n m)" for n
  proof (cases "n mod 3 = 2")
    case True
    then obtain k where n: "n = 3 * k + 2" by (metis mult_div_mod_eq)
    have mods: "Suc (Suc (3 * k)) mod 3 = 2" "Suc (Suc (3 * k)) div 3 = k" by presburger+
    have "3 * k \<noteq> 3 * x + 2" "Suc (3 * k) \<noteq> 3 * x + 2" for x by presburger+
    then have "cell (3 * k) m1 = cell (3 * k) m" "cell (Suc (3 * k)) m1 = cell (Suc (3 * k)) m"
      using m1(3) [of "3 * k"] m1(3) [of "Suc (3 * k)"] by simp_all
    moreover have "cell n m1 = (if int k = i then spec (cell (3 * k) m) (cell (Suc (3 * k)) m) else cell n m)"
      using m1(3) [of n] n i(1) by auto
    ultimately show ?thesis using m'(3) [of n] n mods by (simp add: disj_commute)
  next
    case False
    then have "n \<noteq> 3 * x + 2" for x by presburger
    then show ?thesis using False by (simp add: m'(3) m1(3))
  qed
  then show ?case using m1(1) m'(1,2) i(1) by auto
qed simp

lemma run_matrix_result:
  assumes "length m = 48 * nat (cfg_total_n cfg)" "0 \<le> cfg_warnup_n cfg" "cfg_warnup_n cfg \<le> cfg_total_n cfg"
  shows "\<exists>m'. run_matrix f cfg m = Inr m' \<and> length m' = length m \<and>
    (\<forall>i < nat (cfg_total_n cfg). cell (3 * i) m' = cell (3 * i) m \<and> cell (3 * i + 1) m' = cell (3 * i + 1) m \<and>
       cell (3 * i + 2) m' = spec (cell (3 * i) m) (cell (3 * i + 1) m))"
proof -
  let ?t = "nat (cfg_total_n cfg)" and ?w = "cfg_warnup_n cfg"
  have "\<forall>i \<in> set [0..?w - 1]. 0 \<le> i \<and> i < int ?t" "\<forall>i \<in> set [?w..cfg_total_n cfg - 1]. 0 \<le> i \<and> i < int ?t" using assms(2,3) by auto
  note span = run_span_result [OF _ this(1)] run_span_result [OF _ this(2)]
  obtain m1 where m1: "run_span f [0..?w - 1] m = Inr m1" "length m1 = 48 * ?t"
      "\<And>n. cell n m1 = (if n mod 3 = 2 \<and> int (n div 3) \<in> set [0..?w - 1] then spec (cell (n - 2) m) (cell (n - 1) m) else cell n m)"
    using span(1) [OF assms(1)] by blast
  obtain m' where m': "run_span f [?w..cfg_total_n cfg - 1] m1 = Inr m'" "length m' = 48 * ?t"
      "\<And>n. cell n m' = (if n mod 3 = 2 \<and> int (n div 3) \<in> set [?w..cfg_total_n cfg - 1] then spec (cell (n - 2) m1) (cell (n - 1) m1) else cell n m1)"
    using span(2) [OF m1(2)] by blast
  have "cell (3 * i) m' = cell (3 * i) m \<and> cell (3 * i + 1) m' = cell (3 * i + 1) m \<and>
      cell (3 * i + 2) m' = spec (cell (3 * i) m) (cell (3 * i + 1) m)" if "i < ?t" for i
  proof -
    have mods: "Suc (Suc (3 * i)) mod 3 = 2" "Suc (Suc (3 * i)) div 3 = i" "Suc (3 * i) mod 3 = 1" by presburger+
    have "int i < ?w \<or> ?w \<le> int i \<and> int i \<le> cfg_total_n cfg - 1" using that by linarith
    then show ?thesis by (auto simp: m'(3) m1(3) mods)
  qed
  then show ?thesis using m1(1) m'(1,2) assms(1) by (simp add: run_matrix_def)
qed

lemma run_matrix_outside:
  assumes "length m = 48 * nat (cfg_total_n cfg)" "0 \<le> cfg_total_n cfg" "cfg_total_n cfg < cfg_warnup_n cfg"
  shows "run_matrix f cfg m = Inl OutOfBounds"
proof -
  let ?t = "cfg_total_n cfg"
  have split: "run_span f (is @ js) = (\<lambda>m. rbind (run_span f is m) (run_span f js))" for "is" js
  proof (induction "is")
    case (Cons i "is")
    show ?case by (rule ext) (simp add: Cons.IH rbind_assoc)
  qed auto
  have upto: "[0..cfg_warnup_n cfg - 1] = [0..?t - 1] @ [?t..cfg_warnup_n cfg - 1]" using upto_split1 [of 0 ?t] assms(2,3) by simp
  obtain m1 where m1: "run_span f [0..?t - 1] m = Inr m1" "length m1 = 48 * nat ?t"
    using run_span_result [OF assms(1), of "[0..?t - 1]"] by auto
  let ?p = "16 * (nat ?t * 3 + 0)" and ?q = "16 * (nat ?t * 3 + 1)" and ?r = "16 * (nat ?t * 3 + 2)"
  have "list_all (aligned 64) [?p, ?q, ?r]" by (simp add: aligned_def mod_eq_0_iff_dvd dvd_def) presburger
  then have "f ?p ?q ?r m1 = Inl OutOfBounds" by (rule outside) (simp_all add: m1(2))
  then have "run_span f [?t..cfg_warnup_n cfg - 1] m1 = Inl OutOfBounds"
    using assms(2,3) by (simp add: upto_rec1 [of ?t])
  then show ?thesis using m1(1) by (simp add: run_matrix_def upto split)
qed

end

text \<open>Outside of the memory every routine faults with its first read.\<close>

lemma outside_rows:
  assumes "length m \<le> p"
  shows "aligned 64 p \<Longrightarrow> load_rows (vec_load 16) p m = Inl OutOfBounds" "load_rows (\<lambda>p m. read_range m p 4) p m = Inl OutOfBounds"
    "load_rows mm256_broadcast_ps p m = Inl OutOfBounds" "aligned 64 p \<Longrightarrow> vec_load 32 p m = Inl OutOfBounds"
  using assms aligned_64(1) [of p 0] aligned_64(2) [of p 0]
  by (simp_all add: load_rows_def vec_load_def read_range_def mm256_broadcast_ps_def)

lemma assert_aligned_64: "list_all (aligned 64) ps \<Longrightarrow> assert_aligned debug 16 ps f = f () \<and> assert_aligned debug 32 ps f = f ()"
  using aligned_64(1) [of _ 0] aligned_64(2) [of _ 0] by (auto simp: assert_aligned_def list_all_iff)

lemma routines_outside:
  assumes "list_all (aligned 64) [p, q, r]" "length m \<le> p" "length m \<le> q"
  shows "matrix4_add F p q r m = Inl OutOfBounds" "matrix4_mul F p q r m = Inl OutOfBounds"
    "simd_sse4_matrix4_add debug F p q r m = Inl OutOfBounds" "simd_sse4_matrix4_mul debug ilp F p q r m = Inl OutOfBounds"
    "simd_avx2_matrix4_add debug F p q r m = Inl OutOfBounds" "simd_avx2_matrix4_mul debug ilp F p q r m = Inl OutOfBounds"
    "simd_neon_matrix4_add F p q r m = Inl OutOfBounds" "simd_neon_matrix4_mul ilp F p q r m = Inl OutOfBounds"
  using assms outside_rows [OF assms(2)] outside_rows [OF assms(3)]
  by (simp_all add: assert_aligned_64 matrix4_add_def matrix4_mul_def assume_aligned_def simd_sse4_matrix4_add_def simd_sse4_matrix4_mul_def
      simd_avx2_matrix4_add_def simd_avx2_matrix4_mul_def simd_neon_matrix4_add_def simd_neon_matrix4_mul_def upt_16 upt_4
      float_at_def)

lemma spec_lengths:
  "length A = 16 \<Longrightarrow> length B = 16 \<Longrightarrow> length (mat_sum F A B) = 16" "length (mat_prod F A B) = 16"
  "length (mat_dot F A B) = 16" "length (mat_dot_fma F A B) = 16"
  by (simp_all add: mat_sum_def mat_prod_def mat_dot_def mat_dot_fma_def mat_chain_def)

interpretation scalar_add: matrix_op "matrix4_add F" "mat_sum F" for F
  by unfold_locales (simp_all only: matrix4_add_result spec_lengths routines_outside)

interpretation scalar_mul: matrix_op "matrix4_mul F" "mat_prod F" for F
  by unfold_locales (simp_all only: matrix4_mul_result spec_lengths routines_outside not_False_eq_True)

interpretation sse4_add: matrix_op "simd_sse4_matrix4_add debug F" "mat_sum F" for debug F
  by unfold_locales (simp_all only: rows_add_result spec_lengths routines_outside)

interpretation avx2_add: matrix_op "simd_avx2_matrix4_add debug F" "mat_sum F" for debug F
  by unfold_locales (simp_all only: avx2_results spec_lengths routines_outside)

interpretation neon_add: matrix_op "simd_neon_matrix4_add F" "mat_sum F" for F
  by unfold_locales (simp_all only: rows_add_result spec_lengths routines_outside)

interpretation sse4_mul: matrix_op "simd_sse4_matrix4_mul debug ilp F" "mat_dot F" for debug ilp F
  by unfold_locales (simp_all only: sse4_mul_result spec_lengths routines_outside)

interpretation avx2_mul: matrix_op "simd_avx2_matrix4_mul debug ilp F" "mat_dot_fma F" for debug ilp F
  by unfold_locales (simp_all only: avx2_results spec_lengths routines_outside)

lemma neon_mul_op: "float_laws F \<Longrightarrow> matrix_op (simd_neon_matrix4_mul ilp F) (neon_result F)"
proof (unfold_locales, goal_cases)
  case (2 A B)
  then show ?case by (simp add: neon_result_def Let_def mat_prod_def)
qed (simp_all only: neon_mul_result routines_outside)

text \<open>The operation that a configuration asks for, as a routine and as what it should compute.\<close>

definition matrix_routine :: "matrix_build \<Rightarrow> 'f float_ops \<Rightarrow> example_matrix_cfg_t \<Rightarrow> nat \<Rightarrow> nat \<Rightarrow> nat \<Rightarrow> 'f list \<Rightarrow> 'f list result" where
  "matrix_routine B F cfg =
     (if cfg_instruct cfg = ''scalar'' then if cfg_op cfg = ''add'' then matrix4_add F else matrix4_mul F
      else if cfg_instruct cfg = ''sse4'' then
        if cfg_op cfg = ''add'' then simd_sse4_matrix4_add (is_debug B) F else simd_sse4_matrix4_mul (is_debug B) (INCREASE_SIMD_ILP B) F
      else if cfg_instruct cfg = ''avx2'' then
        if cfg_op cfg = ''add'' then simd_avx2_matrix4_add (is_debug B) F else simd_avx2_matrix4_mul (is_debug B) (INCREASE_SIMD_ILP B) F
      else if cfg_op cfg = ''add'' then simd_neon_matrix4_add F else simd_neon_matrix4_mul (INCREASE_SIMD_ILP B) F)"

definition matrix_supported :: "matrix_build \<Rightarrow> example_matrix_cfg_t \<Rightarrow> bool" where
  "matrix_supported B cfg \<longleftrightarrow>
     (cfg_op cfg = ''add'' \<or> cfg_op cfg = ''mul'') \<and>
     (cfg_instruct cfg = ''scalar'' \<or> cfg_instruct cfg = ''sse4'' \<and> SIMD_HAS_SSE4 B \<or> cfg_instruct cfg = ''avx2'' \<and> SIMD_HAS_AVX2 B \<or>
      cfg_instruct cfg = ''neon'' \<and> SIMD_HAS_NEON B)"

definition matrix_spec :: "'f float_ops \<Rightarrow> example_matrix_cfg_t \<Rightarrow> 'f list \<Rightarrow> 'f list \<Rightarrow> 'f list" where
  "matrix_spec F cfg =
     (if cfg_op cfg = ''add'' then mat_sum F else if cfg_instruct cfg = ''neon'' then neon_result F
      else if cfg_instruct cfg = ''sse4'' then mat_dot F else if cfg_instruct cfg = ''avx2'' then mat_dot_fma F else mat_prod F)"

lemma matrix_run_routine: "matrix_supported B cfg \<Longrightarrow> matrix_run B F cfg m = run_matrix (matrix_routine B F cfg) cfg m"
  by (auto simp: matrix_supported_def matrix_run_def matrix_routine_def run_scalar_add_def run_scalar_mul_def run_sse4_add_def
      run_sse4_mul_def run_avx2_add_def run_avx2_mul_def run_neon_add_def run_neon_mul_def)

lemma matrix_routine_op:
  assumes "float_laws F" "matrix_supported B cfg"
  shows "matrix_op (matrix_routine B F cfg) (matrix_spec F cfg)"
  using assms(2) scalar_add.matrix_op_axioms scalar_mul.matrix_op_axioms sse4_add.matrix_op_axioms avx2_add.matrix_op_axioms
    neon_add.matrix_op_axioms sse4_mul.matrix_op_axioms avx2_mul.matrix_op_axioms neon_mul_op [OF assms(1)]
  by (auto simp: matrix_supported_def matrix_routine_def matrix_spec_def)

text \<open>
  The program, for every instruction set of the build, both operations and every number of them whose matrices an \<open>int\<close> can count, ends successfully when it is asked for at
  least as many operations as for the warm-up: then the third matrix of every triple holds the sum or product of the
  other two, which are unchanged, except that NEON multiplies wrongly. With a larger warm-up it runs out of its array.
\<close>

theorem matrix_program:
  assumes "float_laws F" "matrix_parse_args opts = Parsed cfg" "matrix_supported B cfg" "0 \<le> cfg_total_n cfg"
    and "cfg_total_n cfg * 3 < 2 ^ 31" and "alloc_ok (matrix_size (cfg_total_n cfg))"
  shows "(0 \<le> cfg_warnup_n cfg \<longrightarrow> cfg_warnup_n cfg \<le> cfg_total_n cfg \<longrightarrow>
      (\<exists>m. matrix_main B F True alloc_ok rnd opts = Inr (0, m) \<and> length m = 48 * nat (cfg_total_n cfg) \<and>
        (\<forall>i < nat (cfg_total_n cfg). \<forall>A B. A = map rnd [48 * i..<48 * i + 16] \<longrightarrow> B = map rnd [48 * i + 16..<48 * i + 32] \<longrightarrow>
           cell (3 * i) m = A \<and> cell (3 * i + 1) m = B \<and> cell (3 * i + 2) m = matrix_spec F cfg A B))) \<and>
    (cfg_total_n cfg < cfg_warnup_n cfg \<longrightarrow> matrix_main B F True alloc_ok rnd opts = Inl OutOfBounds)"
proof -
  let ?t = "nat (cfg_total_n cfg)"
  let ?m = "map rnd [0..<48 * ?t]"
  have t: "cfg_total_n cfg < 2 ^ 31" using assms(4,5) by linarith
  have size: "matrix_size (cfg_total_n cfg) = 192 * ?t" using t assms(4) by (simp add: matrix_size_def nat_mult_distrib)
  have "?t < 2 ^ 31" using t assms(4) by simp
  then have "\<not> 2 ^ 63 \<le> matrix_size (cfg_total_n cfg)" and floats: "matrix_size (cfg_total_n cfg) div 4 = 48 * ?t"
    unfolding size by simp_all
  then have main: "matrix_main B F True alloc_ok rnd opts = rbind (run_matrix (matrix_routine B F cfg) cfg ?m) (\<lambda>m. Inr (0, m))"
    using assms(2,5,6) by (simp add: matrix_main_def matrix_run_routine [OF assms(3)])
  have cells: "cell k ?m = map rnd [16 * k..<16 * k + 16]" if "k < 3 * ?t" for k
    using that by (simp add: cell_def mat_at_def take_map drop_map)
  note oper = matrix_routine_op [OF assms(1,3)]
  have len: "length ?m = 48 * ?t" by simp
  have ok: "\<exists>m. matrix_main B F True alloc_ok rnd opts = Inr (0, m) \<and> length m = 48 * ?t \<and>
      (\<forall>i < ?t. \<forall>A B. A = map rnd [48 * i..<48 * i + 16] \<longrightarrow> B = map rnd [48 * i + 16..<48 * i + 32] \<longrightarrow>
         cell (3 * i) m = A \<and> cell (3 * i + 1) m = B \<and> cell (3 * i + 2) m = matrix_spec F cfg A B)"
    if w: "0 \<le> cfg_warnup_n cfg" "cfg_warnup_n cfg \<le> cfg_total_n cfg"
  proof -
    obtain m' where m': "run_matrix (matrix_routine B F cfg) cfg ?m = Inr m'" "length m' = length ?m"
        "\<forall>i < ?t. cell (3 * i) m' = cell (3 * i) ?m \<and> cell (3 * i + 1) m' = cell (3 * i + 1) ?m \<and>
           cell (3 * i + 2) m' = matrix_spec F cfg (cell (3 * i) ?m) (cell (3 * i + 1) ?m)"
      using matrix_op.run_matrix_result [OF oper len w] by blast
    have "cell (3 * i) ?m = map rnd [48 * i..<48 * i + 16] \<and> cell (3 * i + 1) ?m = map rnd [48 * i + 16..<48 * i + 32]" if "i < ?t" for i
      using that cells [of "3 * i"] cells [of "3 * i + 1"] by (simp add: add.commute)
    then show ?thesis using m' main by simp
  qed
  have "matrix_main B F True alloc_ok rnd opts = Inl OutOfBounds" if "cfg_total_n cfg < cfg_warnup_n cfg"
    using matrix_op.run_matrix_outside [OF oper len assms(4) that] main by simp
  then show ?thesis using ok by blast
qed

theorem matrix_program_witness:
  "\<exists>m. matrix_main \<lparr>SIMD_HAS_SSE4 = True, SIMD_HAS_AVX2 = True, SIMD_HAS_NEON = False, INCREASE_SIMD_ILP = True, is_debug = True\<rparr>
      int_ops True (\<lambda>n. True) int [(OPT_VAL_INSTRUCT, ''avx2''), (OPT_VAL_METHOD, ''mul''), (Letter CHR ''n'', ''2''), (Letter CHR ''w'', ''1'')] = Inr (0, m) \<and>
    cell 5 m = mat_dot_fma int_ops [48..63] [64..79]"
proof -
  let ?B = "\<lparr>SIMD_HAS_SSE4 = True, SIMD_HAS_AVX2 = True, SIMD_HAS_NEON = False, INCREASE_SIMD_ILP = True, is_debug = True\<rparr>"
  let ?opts = "[(OPT_VAL_INSTRUCT, ''avx2''), (OPT_VAL_METHOD, ''mul''), (Letter CHR ''n'', ''2''), (Letter CHR ''w'', ''1'')]"
  let ?cfg = "\<lparr>cfg_instruct = ''avx2'', cfg_op = ''mul'', cfg_total_n = 2, cfg_warnup_n = 1\<rparr>"
  have opts: "matrix_parse_args ?opts = Parsed ?cfg" by code_simp
  have sup: "matrix_supported ?B ?cfg" by (simp add: matrix_supported_def)
  have cells: "map int [48..<64] = [48..63]" "map int [64..<80] = [64..79]" by code_simp+
  from matrix_program [OF int_ops_laws opts sup, of "\<lambda>n. True" int]
  obtain m where m: "matrix_main ?B int_ops True (\<lambda>n. True) int ?opts = Inr (0, m)"
      "\<forall>i < nat 2. \<forall>A B. A = map int [48 * i..<48 * i + 16] \<longrightarrow> B = map int [48 * i + 16..<48 * i + 32] \<longrightarrow>
           cell (3 * i) m = A \<and> cell (3 * i + 1) m = B \<and> cell (3 * i + 2) m = matrix_spec int_ops ?cfg A B"
    by auto
  have "cell (3 * 1 + 2) m = matrix_spec int_ops ?cfg (map int [48 * 1..<48 * 1 + 16]) (map int [48 * 1 + 16..<48 * 1 + 32])"
    using m(2) [rule_format, of 1] by simp
  then have "cell 5 m = mat_dot_fma int_ops [48..63] [64..79]" using cells by (simp add: matrix_spec_def)
  then show ?thesis using m(1) by blast
qed

end
