(* ===== verification/BootRecord.thy ===== *)
theory BootRecord
  imports Prelude
begin

text \<open>
  src/play/c/read_boot_info/example/read_mbr/read_mbr.c: a program that reads the master boot record of a block
  device and prints its partition table. The system calls on the device are the record \<open>device\<close>; \<open>fds\<close> are the
  open file descriptors, and closing one that is not open is a fault.
\<close>

unbundle bit_operations_syntax

section \<open>The structures\<close>

definition MBR_SIZE :: nat where "MBR_SIZE = 512"

text \<open>The bit fields of a \<open>uint16_t\<close> are filled from its low end.\<close>

record mbr_partition =
  mp_status :: u8
  mp_start_head :: u8
  mp_start_sector :: u16
  mp_start_cylinder :: u16
  mp_part_type :: u8
  mp_end_head :: u8
  mp_end_sector :: u16
  mp_end_cylinder :: u16
  mp_lba_offset :: u32
  mp_lba_sectors :: u32

definition partition_of :: "bytes \<Rightarrow> mbr_partition" where
  "partition_of e =
     \<lparr>mp_status = e ! 0, mp_start_head = e ! 1,
      mp_start_sector = take_bit 6 (le16 (e ! 2) (e ! 3)), mp_start_cylinder = drop_bit 6 (le16 (e ! 2) (e ! 3)),
      mp_part_type = e ! 4, mp_end_head = e ! 5,
      mp_end_sector = take_bit 6 (le16 (e ! 6) (e ! 7)), mp_end_cylinder = drop_bit 6 (le16 (e ! 6) (e ! 7)),
      mp_lba_offset = le32 (e ! 8) (e ! 9) (e ! 10) (e ! 11), mp_lba_sectors = le32 (e ! 12) (e ! 13) (e ! 14) (e ! 15)\<rparr>"

record MBR =
  code_area :: bytes
  tables :: "bytes list"
  boot_signature :: bytes

definition mbr_of :: "bytes \<Rightarrow> MBR" where
  "mbr_of buf = \<lparr>code_area = take 446 buf, tables = map (\<lambda>i. take 16 (drop (446 + 16 * i) buf)) [0..<4], boot_signature = take 2 (drop 510 buf)\<rparr>"

section \<open>Reading\<close>

text \<open>The outcome of a read is its return value and the bytes that were stored.\<close>

record device =
  d_open :: int
  d_fstat :: bool
  d_block :: bool
  d_size :: "nat option"
  d_sector :: "int option"
  d_read :: "nat \<Rightarrow> int \<times> bytes"

definition err_read_mbr :: "int \<Rightarrow> bytes \<Rightarrow> int list \<Rightarrow> (int \<times> bytes \<times> int list) result" where
  "err_read_mbr fd buf fds = rbind (if fd \<noteq> -1 then release fd fds else Inr fds) (\<lambda>fds. Inr (-1, buf, fds))"

definition read_mbr :: "device \<Rightarrow> bytes \<Rightarrow> nat \<Rightarrow> int list \<Rightarrow> (int \<times> bytes \<times> int list) result" where
  "read_mbr D mbr_buf mbr_bufsize fds =
     (let fd = d_open D in
      if fd < 0 then err_read_mbr fd mbr_buf fds
      else
        let fds = fd # fds in
        if \<not> d_fstat D then err_read_mbr fd mbr_buf fds
        else if \<not> d_block D then Inl MissingArgument
        else if d_size D = None then err_read_mbr fd mbr_buf fds
        else if d_sector D = None then err_read_mbr fd mbr_buf fds
        else
          let (n, data) = d_read D mbr_bufsize in
          rbind (write_range mbr_buf 0 data) (\<lambda>mbr_buf.
          if n \<noteq> int mbr_bufsize then err_read_mbr fd mbr_buf fds
          else rbind (release fd fds) (\<lambda>fds. Inr (n, mbr_buf, fds))))"

section \<open>Printing\<close>

fun hexdump_loop :: "nat \<Rightarrow> bytes \<Rightarrow> string" where
  "hexdump_loop i [] = []"
| "hexdump_loop i (b # bs) = hex2 b @ '' '' @ (if (i + 1) mod 16 = 0 then ''\<newline>'' else []) @ hexdump_loop (i + 1) bs"

definition hexdump :: "bytes \<Rightarrow> string" where
  "hexdump mbr = hexdump_loop 0 mbr @ ''\<newline>''"

definition print_partition :: "nat \<Rightarrow> bytes \<Rightarrow> mbr_partition \<Rightarrow> string" where
  "print_partition i e p =
     ''##### Partition entry #'' @ dec (i + 1) @ '' #####\<newline>'' @ hexdump e @
     ''status: '' @ decw (mp_status p) @ ''\<newline>partition type: '' @ hex2 (mp_part_type p) @
     ''\<newline>start head: '' @ decw (mp_start_head p) @ ''\<newline>start sector: '' @ decw (mp_start_sector p) @
     ''\<newline>start cylinder: '' @ decw (mp_start_cylinder p) @ ''\<newline>end head: '' @ decw (mp_end_head p) @
     ''\<newline>end sector: '' @ decw (mp_end_sector p) @ ''\<newline>end cylinder: '' @ decw (mp_end_cylinder p) @
     ''\<newline>LBA offset: '' @ decw (mp_lba_offset p) @ ''\<newline>LBA sector count: '' @ decw (mp_lba_sectors p) @ ''\<newline>\<newline>''"

definition print_mbr :: "MBR \<Rightarrow> (bytes \<Rightarrow> mbr_partition) \<Rightarrow> string" where
  "print_mbr mbr parts =
     ''---------------- Code Area ----------------\<newline>'' @ hexdump (code_area mbr) @ ''\<newline>'' @
     ''---------------- Partition Table ----------------\<newline>'' @
     concat (map (\<lambda>(i, e). print_partition i e (parts e)) (enumerate 0 (tables mbr))) @
     ''---------------- Boot Signature ----------------\<newline>'' @ hexdump (boot_signature mbr)"

text \<open>\<open>raw\<close> is what the stack held; without an argument the usage prints \<open>argv[1]\<close>, a null pointer.\<close>

definition mbr_main :: "nat \<Rightarrow> device \<Rightarrow> bytes \<Rightarrow> int list \<Rightarrow> (nat \<times> string \<times> int list) result" where
  "mbr_main argc D raw fds =
     (if argc < 2 then Inl NullDeref
      else
        rbind (read_mbr D raw MBR_SIZE fds) (\<lambda>(n, buf, fds).
        if n \<noteq> int MBR_SIZE then Inr (1, [], fds)
        else Inr (0, print_mbr (mbr_of buf) partition_of, fds)))"

section \<open>Reading gives back the descriptor\<close>

text \<open>What the system promises: \<open>open\<close> returns -1 or a descriptor that was not open, a read stores as many bytes as it returns.\<close>

definition device_ok :: "device \<Rightarrow> int list \<Rightarrow> bool" where
  "device_ok D fds \<longleftrightarrow> -1 \<le> d_open D \<and> d_open D \<notin> set fds \<and> (\<forall>n. fst (d_read D n) \<ge> -1 \<and> length (snd (d_read D n)) = nat (fst (d_read D n)) \<and> fst (d_read D n) \<le> int n)"

definition opens_block :: "device \<Rightarrow> bool" where
  "opens_block D \<longleftrightarrow> (0 \<le> d_open D \<and> d_fstat D \<longrightarrow> d_block D)"

definition readable :: "device \<Rightarrow> nat \<Rightarrow> bool" where
  "readable D n \<longleftrightarrow> 0 \<le> d_open D \<and> d_fstat D \<and> d_size D \<noteq> None \<and> d_sector D \<noteq> None \<and> fst (d_read D n) = int n"

lemma read_mbr_result:
  assumes "device_ok D fds" "opens_block D" "length buf = n"
  shows "\<exists>buf'. read_mbr D buf n fds = Inr (if readable D n then int n else -1, buf', fds) \<and> (readable D n \<longrightarrow> buf' = snd (d_read D n))"
proof -
  obtain k data where r: "d_read D n = (k, data)" by (cases "d_read D n")
  have d: "length data = nat k" "k \<le> int n" using assms(1) r by (auto simp: device_ok_def dest!: spec [of _ n])
  have w: "write_range buf 0 data = Inr (data @ drop (nat k) buf)" using d assms(3) by (simp add: write_range_def)
  show ?thesis using assms r d w by (auto simp: read_mbr_def err_read_mbr_def release_def opens_block_def device_ok_def readable_def Let_def)
qed

section \<open>Partition entries\<close>

text \<open>
  An entry as the standard lays it out. A cylinder has ten bits: the high two are in the byte of the sector, the low eight in
  the byte after it.
\<close>

record partition =
  pt_status :: u8
  pt_start :: "nat \<times> nat \<times> nat"
  pt_type :: u8
  pt_end :: "nat \<times> nat \<times> nat"
  pt_offset :: u32
  pt_sectors :: u32

definition chs_ok :: "nat \<times> nat \<times> nat \<Rightarrow> bool" where
  "chs_ok a \<longleftrightarrow> (case a of (h, s, c) \<Rightarrow> h < 256 \<and> s < 64 \<and> c < 1024)"

definition chs_bytes :: "nat \<times> nat \<times> nat \<Rightarrow> bytes" where
  "chs_bytes a = (case a of (h, s, c) \<Rightarrow> [of_nat h, of_nat (s + 64 * (c div 256)), of_nat (c mod 256)])"

definition entry_bytes :: "partition \<Rightarrow> bytes" where
  "entry_bytes p = [pt_status p] @ chs_bytes (pt_start p) @ [pt_type p] @ chs_bytes (pt_end p) @ bytes32 (pt_offset p) @ bytes32 (pt_sectors p)"

text \<open>What the bit fields make of a cylinder.\<close>

definition rotated :: "nat \<Rightarrow> nat" where
  "rotated c = 4 * (c mod 256) + c div 256"

definition shown :: "partition \<Rightarrow> mbr_partition" where
  "shown p = (case (pt_start p, pt_end p) of ((h, s, c), (h', s', c')) \<Rightarrow>
     \<lparr>mp_status = pt_status p, mp_start_head = of_nat h, mp_start_sector = of_nat s, mp_start_cylinder = of_nat (rotated c),
      mp_part_type = pt_type p, mp_end_head = of_nat h', mp_end_sector = of_nat s', mp_end_cylinder = of_nat (rotated c'),
      mp_lba_offset = pt_offset p, mp_lba_sectors = pt_sectors p\<rparr>)"

lemma unat_le16: "unat (le16 a b) = unat a + 256 * unat b"
proof -
  have "le16 a b = ucast a + push_bit 8 (ucast b)" unfolding le16_def
    by (rule disjunctive_add [symmetric]) (auto simp: bit_simps dest: bit_imp_le_length)
  moreover have "unat a < 256" "unat b < 256" using unsigned_less [of a, where 'a = nat] unsigned_less [of b, where 'a = nat] by simp_all
  ultimately show ?thesis by (simp add: push_bit_eq_mult unat_word_ariths unsigned_ucast_eq take_bit_eq_mod)
qed

lemma chs_fields:
  assumes "s < 64" "c < 1024"
  shows "take_bit 6 (le16 (of_nat (s + 64 * (c div 256))) (of_nat (c mod 256))) = of_nat s"
    "drop_bit 6 (le16 (of_nat (s + 64 * (c div 256))) (of_nat (c mod 256))) = of_nat (rotated c)"
proof -
  let ?w = "le16 (of_nat (s + 64 * (c div 256))) (of_nat (c mod 256))"
  have "c div 256 < 4" using assms(2) by (simp add: div_less_iff_less_mult)
  then have lt: "s + 64 * (c div 256) < 256" "c mod 256 < 256" using assms(1) by simp_all
  have u: "unat (of_nat k :: u8) = k" if "k < 256" for k using that by (simp add: unat_of_nat)
  have w: "unat ?w = s + 64 * rotated c" unfolding unat_le16 u [OF lt(1)] u [OF lt(2)] rotated_def by simp
  show "take_bit 6 ?w = of_nat s" using assms(1) unfolding word_unat_eq_iff unsigned_take_bit_eq w by (simp add: take_bit_eq_mod unat_of_nat)
  have "rotated c < 2 ^ 10" using \<open>c div 256 < 4\<close> lt(2) unfolding rotated_def by simp
  then show "drop_bit 6 ?w = of_nat (rotated c)" using assms(1) unfolding word_unat_eq_iff unsigned_drop_bit_eq w
    by (simp add: take_bit_eq_mod drop_bit_eq_div unat_of_nat)
qed

lemma partition_of_entry: "chs_ok (pt_start p) \<Longrightarrow> chs_ok (pt_end p) \<Longrightarrow> partition_of (entry_bytes p) = shown p"
  by (auto simp: partition_of_def entry_bytes_def shown_def chs_ok_def chs_bytes_def chs_fields [simplified] bytes32_def le32_bytes32 split: prod.splits)

lemma length_entry: "length (entry_bytes p) = 16"
  by (simp add: entry_bytes_def chs_bytes_def split: prod.splits)

lemma mbr_tables:
  assumes "length code = 446" "length ps = 4" "length sig = 2"
  shows "mbr_of (code @ concat (map entry_bytes ps) @ sig) = \<lparr>code_area = code, tables = map entry_bytes ps, boot_signature = sig\<rparr>"
proof -
  obtain p q r s where "ps = [p, q, r, s]" using assms(2) by (auto simp: numeral_eq_Suc length_Suc_conv)
  then show ?thesis using assms(1,3) by (simp add: mbr_of_def length_entry upt_conv_Cons)
qed

section \<open>Reading back a dump\<close>

definition digit_value :: "char \<Rightarrow> nat" where
  "digit_value c = (if is_digit c then of_char c - 48 else of_char c - 87)"

fun undump :: "string \<Rightarrow> bytes" where
  "undump (h # l # r) = (if is_space h then undump (l # r) else of_nat (16 * digit_value h + digit_value l) # undump r)"
| "undump _ = []"

lemma hex_digit_value: "n < 16 \<Longrightarrow> digit_value (hex_digit n) = n \<and> \<not> is_space (hex_digit n)"
  by (auto simp: digit_value_def hex_digit_def is_digit_def is_space_def char_of_eq_iff take_bit_eq_mod)

lemma undump_byte: "undump (hex2 b @ r) = b # undump r"
proof -
  have "unat b < 256" using unsigned_less [of b, where 'a = nat] by simp
  then have "unat b div 16 < 16" "unat b mod 16 < 16" by (simp_all add: div_less_iff_less_mult)
  then have "undump (hex2 b @ r) = of_nat (16 * (unat b div 16) + unat b mod 16) # undump r" using hex_digit_value by (simp add: hex2_def)
  then show ?thesis by (simp only: mult_div_mod_eq) simp
qed

lemma undump_space: "is_space c \<Longrightarrow> undump (c # r) = undump r"
  by (cases r) simp_all

lemma hexdump_undump: "undump (hexdump bs) = bs"
proof -
  have "undump (hexdump_loop i bs @ ''\<newline>'') = bs" for i
    by (induction bs arbitrary: i) (auto simp: undump_byte undump_space is_space_def)
  then show ?thesis by (simp add: hexdump_def)
qed

section \<open>Properties\<close>

text \<open>
  C38. The program, run on a block device, closes the device on every path and ends with status 0 exactly when all calls have succeeded and 512
  bytes were read. When these are a boot record with four entries laid out as the standard says, it prints their status, type, heads, sectors
  and block numbers as they are; of each cylinder it prints the ten bits rotated by two. The dump of each entry reads back to its bytes.
\<close>

theorem mbr_printed:
  assumes "device_ok D fds" "opens_block D" "length raw = MBR_SIZE"
  shows "\<exists>status out. mbr_main 2 D raw fds = Inr (status, out, fds) \<and> (status = 0 \<longleftrightarrow> readable D MBR_SIZE) \<and>
    (\<forall>code ps sig. status = 0 \<and> snd (d_read D MBR_SIZE) = code @ concat (map entry_bytes ps) @ sig \<and>
       length code = 446 \<and> length ps = 4 \<and> length sig = 2 \<and> (\<forall>p \<in> set ps. chs_ok (pt_start p) \<and> chs_ok (pt_end p)) \<longrightarrow>
       out = ''---------------- Code Area ----------------\<newline>'' @ hexdump code @ ''\<newline>---------------- Partition Table ----------------\<newline>'' @
         concat (map (\<lambda>(i, p). print_partition i (entry_bytes p) (shown p)) (enumerate 0 ps)) @
         ''---------------- Boot Signature ----------------\<newline>'' @ hexdump sig \<and>
       (\<forall>p \<in> set ps. undump (hexdump (entry_bytes p)) = entry_bytes p))"
proof -
  obtain buf where r: "read_mbr D raw MBR_SIZE fds = Inr (if readable D MBR_SIZE then int MBR_SIZE else -1, buf, fds)"
      "readable D MBR_SIZE \<longrightarrow> buf = snd (d_read D MBR_SIZE)"
    using read_mbr_result [OF assms] by blast
  have "concat (map (\<lambda>(i, e). print_partition i e (partition_of e)) (enumerate k (map entry_bytes ps))) =
      concat (map (\<lambda>(i, p). print_partition i (entry_bytes p) (shown p)) (enumerate k ps))"
    if "\<forall>p \<in> set ps. chs_ok (pt_start p) \<and> chs_ok (pt_end p)" for k ps
    using that by (induction ps arbitrary: k) (auto simp: partition_of_entry)
  then show ?thesis using r by (auto simp: mbr_main_def print_mbr_def mbr_tables hexdump_undump MBR_SIZE_def)
qed

text \<open>A device with four times the same entry; cylinder 300 is printed as 177.\<close>

definition demo_partition :: partition where
  "demo_partition = \<lparr>pt_status = 0x80, pt_start = (1, 1, 300), pt_type = 0x83, pt_end = (254, 63, 1023), pt_offset = 2048, pt_sectors = 4096\<rparr>"

definition demo_device :: device where
  "demo_device = \<lparr>d_open = 3, d_fstat = True, d_block = True, d_size = Some 1000000, d_sector = Some 512,
     d_read = (\<lambda>n. (int (min n 512), take n (replicate 446 0 @ concat (map entry_bytes (replicate 4 demo_partition)) @ [0x55, 0xAA])))\<rparr>"

theorem mbr_printed_witness:
  "\<exists>out. mbr_main 2 demo_device (replicate 512 0) [] = Inr (0, out, []) \<and>
     out = ''---------------- Code Area ----------------\<newline>'' @ hexdump (replicate 446 0) @ ''\<newline>---------------- Partition Table ----------------\<newline>'' @
       concat (map (\<lambda>(i, p). print_partition i (entry_bytes p) (shown p)) (enumerate 0 (replicate 4 demo_partition))) @
       ''---------------- Boot Signature ----------------\<newline>'' @ hexdump [0x55, 0xAA] \<and>
     mp_start_cylinder (shown demo_partition) = 177"
proof -
  let ?data = "replicate 446 0 @ concat (map entry_bytes (replicate 4 demo_partition)) @ [0x55, 0xAA]"
  have len: "length ?data = 512" by (simp add: length_concat sum_list_replicate length_entry)
  then have "length (take n ?data) = min n 512" for n by (metis length_take min.commute)
  then have ok: "device_ok demo_device []" "opens_block demo_device"
    unfolding device_ok_def demo_device_def opens_block_def by (simp_all del: take_append length_take)
  have r: "readable demo_device MBR_SIZE" "snd (d_read demo_device MBR_SIZE) = ?data" using len by (simp_all add: readable_def demo_device_def MBR_SIZE_def)
  have c: "chs_ok (pt_start demo_partition)" "chs_ok (pt_end demo_partition)" "mp_start_cylinder (shown demo_partition) = 177"
    by (simp_all add: demo_partition_def chs_ok_def shown_def rotated_def)
  from mbr_printed [OF ok, of "replicate 512 0"] obtain out where
    "mbr_main 2 demo_device (replicate 512 0) [] = Inr (0, out, [])"
    "\<forall>code ps sig. ?data = code @ concat (map entry_bytes ps) @ sig \<and> length code = 446 \<and> length ps = 4 \<and> length sig = 2 \<and>
       (\<forall>p \<in> set ps. chs_ok (pt_start p) \<and> chs_ok (pt_end p)) \<longrightarrow>
       out = ''---------------- Code Area ----------------\<newline>'' @ hexdump code @ ''\<newline>---------------- Partition Table ----------------\<newline>'' @
         concat (map (\<lambda>(i, p). print_partition i (entry_bytes p) (shown p)) (enumerate 0 ps)) @
         ''---------------- Boot Signature ----------------\<newline>'' @ hexdump sig"
    using r by (auto simp: MBR_SIZE_def)
  moreover from this(2) [rule_format, of "replicate 446 0" "replicate 4 demo_partition" "[0x55, 0xAA]"] have
    "out = ''---------------- Code Area ----------------\<newline>'' @ hexdump (replicate 446 0) @ ''\<newline>---------------- Partition Table ----------------\<newline>'' @
       concat (map (\<lambda>(i, p). print_partition i (entry_bytes p) (shown p)) (enumerate 0 (replicate 4 demo_partition))) @
       ''---------------- Boot Signature ----------------\<newline>'' @ hexdump [0x55, 0xAA]"
    using c(1,2) by simp
  ultimately show ?thesis using c(3) by blast
qed

end
