(* ===== verification/Zlib.thy ===== *)
theory Zlib
  imports Prelude
begin

text \<open>
  The programs of src/use/c/use_zlib/example: gz, which compresses and decompresses files, and deflate_inflate, which does so with a
  message in memory. zlib is an argument of the model: the records \<open>gz_lib\<close> and \<open>zlib\<close> of its functions, with the
  predicates \<open>gz_laws\<close> and \<open>zlib_laws\<close> for what its manual promises. The open files and streams are a list of resources.
\<close>

section \<open>gz: files\<close>

datatype gz_handle = InFile | OutFile | InGz | OutGz

text \<open>A file opened for reading: what is in it, and where reading it fails, if it does.\<close>

record in_file =
  if_data :: bytes
  if_error :: "nat option"

definition fread :: "nat \<Rightarrow> in_file \<Rightarrow> bytes \<times> in_file" where
  "fread n f =
     (let k = (case if_error f of None \<Rightarrow> n | Some e \<Rightarrow> min n e) in
      (take k (if_data f), f\<lparr>if_data := drop k (if_data f), if_error := map_option (\<lambda>e. e - k) (if_error f)\<rparr>))"

record ('w, 'r) gz_lib =
  gz_new :: 'w
  gz_write :: "bytes \<Rightarrow> 'w \<Rightarrow> int \<times> 'w"
  gz_file :: "'w \<Rightarrow> bytes"
  gz_load :: "bytes \<Rightarrow> 'r"
  gz_read :: "nat \<Rightarrow> 'r \<Rightarrow> int \<times> bytes \<times> 'r"

definition file_size :: "bytes option \<Rightarrow> int" where
  "file_size f = (case f of None \<Rightarrow> -1 | Some data \<Rightarrow> to_int (int (length data)))"

text \<open>The loop; the result says whether a write has failed.\<close>

fun compress_loop :: "nat \<Rightarrow> ('w, 'r) gz_lib \<Rightarrow> in_file \<Rightarrow> 'w \<Rightarrow> nat \<Rightarrow> (bool \<times> 'w \<times> nat) result" where
  "compress_loop 0 G input_fp output_fp total_read = Inl Diverges"
| "compress_loop (Suc fuel) G input_fp output_fp total_read =
     (let (buf, input_fp) = fread 128 input_fp in
      if length buf = 0 then Inr (True, output_fp, total_read)
      else
        let total_read = uadd total_read (length buf); (num_write, output_fp) = gz_write G buf output_fp in
        if num_write \<noteq> int (length buf) then Inr (False, output_fp, total_read)
        else compress_loop fuel G input_fp output_fp total_read)"

definition compress_one_file_except :: "bool \<Rightarrow> bool \<Rightarrow> gz_handle list \<Rightarrow> gz_handle list result" where
  "compress_one_file_except input_fp output_fp held =
     rbind (if input_fp then release InFile held else Inr held) (\<lambda>held. if output_fp then release OutGz held else Inr held)"

text \<open>
  The input is None where it cannot be opened. The result is the return value, the output file if it was created, and the two
  numbers of the last log message.
\<close>

definition compress_one_file :: "('w, 'r) gz_lib \<Rightarrow> in_file option \<Rightarrow> bool \<Rightarrow> gz_handle list \<Rightarrow>
    (int \<times> bytes option \<times> (nat \<times> int) option \<times> gz_handle list) result" where
  "compress_one_file G input_file output_ok held =
     (case input_file of
        None \<Rightarrow> rbind (compress_one_file_except False False held) (\<lambda>held. Inr (-1, None, None, held))
      | Some input_fp \<Rightarrow>
          let held = InFile # held in
          if \<not> output_ok then rbind (compress_one_file_except True False held) (\<lambda>held. Inr (-1, None, None, held))
          else
            let held = OutGz # held in
            rbind (compress_loop (Suc (length (if_data input_fp))) G input_fp (gz_new G) 0) (\<lambda>(ok, output_fp, total_read).
            if \<not> ok then rbind (compress_one_file_except True True held) (\<lambda>held. Inr (-1, Some (gz_file G output_fp), None, held))
            else
              rbind (release InFile held) (\<lambda>held.
              rbind (release OutGz held) (\<lambda>held.
              let out = gz_file G output_fp in Inr (0, Some out, Some (total_read, file_size (Some out)), held)))))"

text \<open>What \<open>fwrite\<close> stores is not looked at: \<open>disk\<close> is what it makes of the file.\<close>

fun decompress_loop :: "nat \<Rightarrow> ('w, 'r) gz_lib \<Rightarrow> (bytes \<Rightarrow> bytes \<Rightarrow> bytes) \<Rightarrow> 'r \<Rightarrow> bytes \<Rightarrow> bytes result" where
  "decompress_loop 0 G disk input_fp out = Inl Diverges"
| "decompress_loop (Suc fuel) G disk input_fp out =
     (let (num_read, buf, input_fp) = gz_read G 128 input_fp in
      if num_read > 0 then decompress_loop fuel G disk input_fp (disk out buf) else Inr out)"

definition decompress_one_file_except :: "bool \<Rightarrow> bool \<Rightarrow> gz_handle list \<Rightarrow> gz_handle list result" where
  "decompress_one_file_except input_fp output_fp held =
     rbind (if input_fp then release InGz held else Inr held) (\<lambda>held. if output_fp then release OutFile held else Inr held)"

definition decompress_one_file :: "nat \<Rightarrow> ('w, 'r) gz_lib \<Rightarrow> (bytes \<Rightarrow> bytes \<Rightarrow> bytes) \<Rightarrow> bytes option \<Rightarrow> bool \<Rightarrow> gz_handle list \<Rightarrow>
    (int \<times> bytes option \<times> gz_handle list) result" where
  "decompress_one_file fuel G disk input_file output_ok held =
     (case input_file of
        None \<Rightarrow> rbind (decompress_one_file_except False False held) (\<lambda>held. Inr (-1, None, held))
      | Some data \<Rightarrow>
          let held = InGz # held in
          if \<not> output_ok then rbind (decompress_one_file_except True False held) (\<lambda>held. Inr (-1, None, held))
          else
            let held = OutFile # held in
            rbind (decompress_loop fuel G disk (gz_load G data) []) (\<lambda>out.
            rbind (release InGz held) (\<lambda>held. rbind (release OutFile held) (\<lambda>held. Inr (0, Some out, held)))))"

text \<open>
  \<open>main\<close>: the files by their names, which of them can be created, and the exit status. The input file is read without error. Both
  functions open the input before they create the output, which empties a file of that name, and read after that: when both names
  are the same, \<open>input\<close> exists and has nothing left to read.
\<close>

definition gz_main :: "nat \<Rightarrow> ('w, 'r) gz_lib \<Rightarrow> (bytes \<Rightarrow> bytes \<Rightarrow> bytes) \<Rightarrow> (string \<Rightarrow> bool) \<Rightarrow> string list \<Rightarrow> (string \<rightharpoonup> bytes) \<Rightarrow>
    (nat \<times> (string \<rightharpoonup> bytes)) result" where
  "gz_main fuel G disk can_create argv files =
     (if length argv \<noteq> 4 then Inr (1, files)
      else
        let src = argv ! 2; dst = argv ! 3; input = (if files src = None then None else (files(dst \<mapsto> [])) src);
            put = (\<lambda>out. case out of None \<Rightarrow> files | Some data \<Rightarrow> files(dst \<mapsto> data)) in
        case argv ! 1 of
          [] \<Rightarrow> Inr (0, files)
        | c # _ \<Rightarrow>
            if c = CHR ''c'' \<or> c = CHR ''C'' then
              rbind (compress_one_file G (map_option (\<lambda>data. \<lparr>if_data = data, if_error = None\<rparr>) input) (can_create dst) [])
                (\<lambda>(ret, out, _, _). Inr (if ret \<noteq> 0 then 1 else 0, put out))
            else if c = CHR ''d'' \<or> c = CHR ''D'' then
              rbind (decompress_one_file fuel G disk input (can_create dst) []) (\<lambda>(ret, out, _). Inr (if ret \<noteq> 0 then 1 else 0, put out))
            else Inr (0, files))"

section \<open>Files come back\<close>

text \<open>
  \<open>written w\<close> is what has been written to a stream and \<open>pending r\<close> what is still to be read from one, None for a damaged one. A read
  gives at least one byte while there are any. \<open>accepts\<close> says that the library takes every write.
\<close>

definition gz_laws :: "('w, 'r) gz_lib \<Rightarrow> ('w \<Rightarrow> bytes) \<Rightarrow> ('r \<Rightarrow> bytes option) \<Rightarrow> bool" where
  "gz_laws G written pending \<longleftrightarrow>
     written (gz_new G) = [] \<and>
     (\<forall>b w. fst (gz_write G b w) = int (length b) \<longrightarrow> written (snd (gz_write G b w)) = written w @ b) \<and>
     (\<forall>w. pending (gz_load G (gz_file G w)) = Some (written w)) \<and>
     (\<forall>k r p. pending r = Some p \<longrightarrow>
        (\<exists>b r' q. gz_read G k r = (int (length b), b, r') \<and> length b \<le> k \<and> pending r' = Some q \<and> p = b @ q \<and> (0 < k \<and> p \<noteq> [] \<longrightarrow> b \<noteq> [])))"

definition accepts :: "('w, 'r) gz_lib \<Rightarrow> bool" where
  "accepts G \<longleftrightarrow> (\<forall>b w. fst (gz_write G b w) = int (length b))"

lemma gz_lawsD:
  assumes "gz_laws G written pending"
  shows "written (gz_new G) = []" "fst (gz_write G b w) = int (length b) \<Longrightarrow> written (snd (gz_write G b w)) = written w @ b"
    "pending (gz_load G (gz_file G w)) = Some (written w)"
    "pending r = Some p \<Longrightarrow>
      \<exists>b r' q. gz_read G k r = (int (length b), b, r') \<and> length b \<le> k \<and> pending r' = Some q \<and> p = b @ q \<and> (0 < k \<and> p \<noteq> [] \<longrightarrow> b \<noteq> [])"
  using assms unfolding gz_laws_def by blast+

text \<open>The loop ends whatever the library does, and has written the whole file when it takes every write.\<close>

lemma compress_loop_result:
  assumes "length (if_data f) < fuel"
  shows "\<exists>ok w n. compress_loop fuel G f w0 n0 = Inr (ok, w, n) \<and>
    (gz_laws G written pending \<and> accepts G \<and> if_error f = None \<longrightarrow> ok \<and> written w = written w0 @ if_data f)"
  using assms
proof (induction fuel arbitrary: f w0 n0)
  case (Suc fuel)
  obtain buf f' where f: "fread 128 f = (buf, f')" by (cases "fread 128 f")
  have f': "if_data f = buf @ if_data f'" "if_error f = None \<longrightarrow> if_error f' = None \<and> (buf = [] \<longrightarrow> if_data f = [])"
    using f by (auto simp: fread_def Let_def split: option.splits)
  obtain k w' where w: "gz_write G buf w0 = (k, w')" by (cases "gz_write G buf w0")
  show ?case
  proof (cases "buf = [] \<or> k \<noteq> int (length buf)")
    case True
    have "k \<noteq> int (length buf) \<Longrightarrow> \<not> accepts G" using w unfolding accepts_def by (metis fst_conv)
    then show ?thesis using True f f' w by (cases "buf = []") auto
  next
    case False
    then have "length (if_data f') < fuel" using Suc.prems f'(1) by (cases buf) auto
    then obtain ok w n where r: "compress_loop fuel G f' w' (uadd n0 (length buf)) = Inr (ok, w, n)"
        "gz_laws G written pending \<and> accepts G \<and> if_error f' = None \<longrightarrow> ok \<and> written w = written w' @ if_data f'"
      using Suc.IH [of f' w' "uadd n0 (length buf)"] by auto
    have "gz_laws G written pending \<Longrightarrow> written w' = written w0 @ buf" using gz_lawsD(2) [of G written pending buf w0] w False by simp
    then show ?thesis using False f f' w r by simp
  qed
qed simp

lemma decompress_loop_result:
  assumes "gz_laws G written pending" "pending r = Some p" "length p < fuel"
  shows "decompress_loop fuel G (@) r out = Inr (out @ p)"
  using assms(2,3)
proof (induction fuel arbitrary: r p out)
  case (Suc fuel)
  obtain b r' q where r: "gz_read G 128 r = (int (length b), b, r')" "pending r' = Some q" "p = b @ q" "p \<noteq> [] \<longrightarrow> b \<noteq> []"
    using gz_lawsD(4) [OF assms(1) Suc.prems(1), of 128] by auto
  show ?case
  proof (cases "b = []")
    case True
    then show ?thesis using r(1,4) by simp
  next
    case False
    then have "length q < fuel" using Suc.prems(2) r(3) by (cases b) auto
    then have "decompress_loop fuel G (@) r' (out @ b) = Inr ((out @ b) @ q)" by (rule Suc.IH [OF r(2)])
    then show ?thesis using False by (simp add: r(1,3))
  qed
qed simp

declare compress_loop.simps [simp del] decompress_loop.simps [simp del]

section \<open>Properties of gz\<close>

text \<open>
  C14. Compressing a file into another and decompressing that one gives the file back, byte for byte, for every size of file: the two runs of the
  program end with status 0. In each run the file that is written is not the one that is read (the last may be the first), the files can be created,
  zlib and the disk take every write, zlib keeps what it documents of its file functions, and there are enough rounds to read.
\<close>

theorem gz_roundtrip:
  assumes "gz_laws G written pending" "accepts G" "files src = Some data" "can_create z" "can_create dst" "length data < fuel"
    and "src \<noteq> z" "z \<noteq> dst"
  shows "\<exists>files'. gz_main fuel G (@) can_create [''gz'', ''c'', src, z] files = Inr (0, files') \<and>
    (\<exists>files''. gz_main fuel G (@) can_create [''gz'', ''d'', z, dst] files' = Inr (0, files'') \<and> files'' dst = Some data)"
proof -
  let ?f = "\<lparr>if_data = data, if_error = None\<rparr>"
  obtain w n where c: "compress_loop (Suc (length data)) G ?f (gz_new G) 0 = Inr (True, w, n)" "written w = data"
    using compress_loop_result [of ?f "Suc (length data)" G "gz_new G" 0 written pending] assms(1,2) gz_lawsD(1) [OF assms(1)] by auto
  have d: "decompress_loop fuel G (@) (gz_load G (gz_file G w)) [] = Inr data"
    using decompress_loop_result [OF assms(1) gz_lawsD(3) [OF assms(1), of w]] assms(6) c(2) by simp
  let ?files = "files(z \<mapsto> gz_file G w)"
  have "gz_main fuel G (@) can_create [''gz'', ''c'', src, z] files = Inr (0, ?files)"
    using assms(3,4,7) c(1) by (simp add: gz_main_def compress_one_file_def Let_def release_def)
  moreover have "gz_main fuel G (@) can_create [''gz'', ''d'', z, dst] ?files = Inr (0, ?files(dst \<mapsto> data))"
    using assms(5,8) d by (simp add: gz_main_def decompress_one_file_def Let_def release_def)
  ultimately show ?thesis by auto
qed

text \<open>A library that stores without compressing.\<close>

definition stored_gz :: "(bytes, bytes) gz_lib" where
  "stored_gz = \<lparr>gz_new = [], gz_write = (\<lambda>b w. (int (length b), w @ b)), gz_file = (\<lambda>w. w), gz_load = (\<lambda>r. r),
     gz_read = (\<lambda>k r. (int (length (take k r)), take k r, drop k r))\<rparr>"

lemma stored_gz_laws: "gz_laws stored_gz (\<lambda>w. w) Some" "accepts stored_gz"
  by (auto simp: gz_laws_def accepts_def stored_gz_def intro: exI [of _ "take k r" for k r])

theorem gz_roundtrip_witness:
  "\<exists>files'. gz_main 301 stored_gz (@) (\<lambda>_. True) [''gz'', ''c'', ''a'', ''b''] [''a'' \<mapsto> replicate 300 7] = Inr (0, files') \<and>
    (\<exists>files''. gz_main 301 stored_gz (@) (\<lambda>_. True) [''gz'', ''d'', ''b'', ''c''] files' = Inr (0, files'') \<and> files'' ''c'' = Some (replicate 300 7))"
  using gz_roundtrip [OF stored_gz_laws, of "[''a'' \<mapsto> replicate 300 7]" "''a''" "replicate 300 7" "\<lambda>_. True" "''b''" "''c''" 301] by simp

text \<open>A file that is compressed into itself is lost: the program ends with success and leaves the file of nothing.\<close>

lemma gz_in_place_loses:
  assumes "files f = Some data" "can_create f"
  shows "gz_main fuel G disk can_create [''gz'', ''c'', f, f] files = Inr (0, files(f \<mapsto> gz_file G (gz_new G)))"
  using assms by (simp add: gz_main_def compress_one_file_def compress_loop.simps fread_def Let_def release_def)

text \<open>Every path of the two functions closes what it has opened, whatever the library does.\<close>

lemma compress_closes: "\<exists>ret out sizes. compress_one_file G input_file output_ok held = Inr (ret, out, sizes, held)"
proof (cases input_file)
  case (Some f)
  obtain ok w n where "compress_loop (Suc (length (if_data f))) G f (gz_new G) 0 = Inr (ok, w, n)"
    using compress_loop_result [of f "Suc (length (if_data f))" G "gz_new G" 0] by blast
  then show ?thesis using Some by (simp add: compress_one_file_def compress_one_file_except_def Let_def release_def)
qed (simp add: compress_one_file_def compress_one_file_except_def)

lemma decompress_closes:
  "is_ok (decompress_one_file fuel G disk input_file output_ok held) \<Longrightarrow>
   \<exists>ret out. decompress_one_file fuel G disk input_file output_ok held = Inr (ret, out, held)"
  by (auto simp: decompress_one_file_def decompress_one_file_except_def Let_def release_def is_ok_iff rbind_simps split: option.splits)

text \<open>
  A damaged file is reported as decompressed: whatever could be read before the error is written, and the function returns 0.
\<close>

lemma decompress_hides_error:
  assumes "gz_read G 128 (gz_load G data) = (n, b, r)" "0 < n" "gz_read G 128 r = (-1, b', r')"
  shows "decompress_one_file (Suc (Suc fuel)) G (@) (Some data) True held = Inr (0, Some b, held)"
  using assms by (simp add: decompress_one_file_def Let_def release_def decompress_loop.simps)

text \<open>So is a file whose reading fails: the part before the error is compressed, and the function returns 0.\<close>

lemma compress_hides_error:
  assumes "gz_laws G written pending" "accepts G" "e < 128" "e < length data"
  shows "\<exists>out sizes. compress_one_file G (Some \<lparr>if_data = data, if_error = Some e\<rparr>) True held = Inr (0, Some out, sizes, held) \<and>
    pending (gz_load G out) = Some (take e data)"
proof -
  let ?f = "\<lparr>if_data = data, if_error = Some e\<rparr>"
  obtain m where m: "length data = Suc m" using assms(4) by (cases "length data") auto
  obtain k w where w: "gz_write G (take e data) (gz_new G) = (k, w)" by (cases "gz_write G (take e data) (gz_new G)")
  have k: "k = int (length (take e data))" using assms(2) w unfolding accepts_def by (metis fst_conv)
  then have "written w = take e data" using gz_lawsD(1,2) [OF assms(1)] w by (metis append_Nil fst_conv snd_conv)
  then have p: "pending (gz_load G (gz_file G w)) = Some (take e data)" using gz_lawsD(3) [OF assms(1)] by simp
  have "\<exists>n. compress_loop (Suc (length data)) G ?f (gz_new G) 0 = Inr (True, if e = 0 then gz_new G else w, n)"
    using assms(3,4) w k m by (auto simp: compress_loop.simps fread_def Let_def min_def)
  moreover have "pending (gz_load G (gz_file G (gz_new G))) = Some (take e data)" if "e = 0"
    using gz_lawsD(1,3) [OF assms(1)] that by simp
  ultimately show ?thesis using p by (auto simp: compress_one_file_def Let_def release_def)
qed

section \<open>deflate and inflate\<close>

datatype z_flush = Z_NO_FLUSH | Z_FINISH

definition Z_OK :: int where "Z_OK = 0"
definition Z_STREAM_END :: int where "Z_STREAM_END = 1"

text \<open>\<open>next_out\<close> holds what has been written behind the first output pointer, so \<open>total_out\<close> is its length.\<close>

record 's z_stream =
  next_in :: bytes
  next_out :: bytes
  avail_out :: nat
  z_state :: 's

text \<open>
  A call gets the input, the free space and the state; it returns a code, how much input it has taken, what it has written and
  the state. The functions that begin and end a stream may fail.
\<close>

record 's zlib =
  z_deflateInit :: "'s option"
  z_deflate :: "z_flush \<Rightarrow> bytes \<Rightarrow> nat \<Rightarrow> 's \<Rightarrow> int \<times> nat \<times> bytes \<times> 's"
  z_inflateInit :: "'s option"
  z_inflate :: "z_flush \<Rightarrow> bytes \<Rightarrow> nat \<Rightarrow> 's \<Rightarrow> int \<times> nat \<times> bytes \<times> 's"

definition z_call :: "(bytes \<Rightarrow> nat \<Rightarrow> 's \<Rightarrow> int \<times> nat \<times> bytes \<times> 's) \<Rightarrow> 's z_stream \<Rightarrow> (int \<times> 's z_stream) result" where
  "z_call f strm =
     (case f (next_in strm) (avail_out strm) (z_state strm) of (res, taken, out, s) \<Rightarrow>
        if length out > avail_out strm then Inl HeapOverflow
        else Inr (res, strm\<lparr>next_in := drop taken (next_in strm), next_out := next_out strm @ out, avail_out := avail_out strm - length out, z_state := s\<rparr>))"

datatype z_res = DeflateS | InflateS

definition do_compress :: "'s zlib \<Rightarrow> bytes \<Rightarrow> nat \<Rightarrow> z_res list \<Rightarrow> (bytes option \<times> z_res list) result" where
  "do_compress Z msg compr_len held =
     (case z_deflateInit Z of
        None \<Rightarrow> Inr (None, held)
      | Some s \<Rightarrow>
          let held = DeflateS # held; strm = \<lparr>next_in = msg, next_out = [], avail_out = compr_len, z_state = s\<rparr> in
          rbind (z_call (z_deflate Z Z_NO_FLUSH) strm) (\<lambda>(res, strm).
          if res \<noteq> Z_OK then rbind (release DeflateS held) (\<lambda>held. Inr (None, held))
          else if length (next_in strm) \<noteq> 0 then rbind (release DeflateS held) (\<lambda>held. Inr (None, held))
          else
            rbind (z_call (z_deflate Z Z_FINISH) strm) (\<lambda>(res, strm).
            if res \<noteq> Z_STREAM_END then rbind (release DeflateS held) (\<lambda>held. Inr (None, held))
            else rbind (release DeflateS held) (\<lambda>held. Inr (Some (next_out strm), held)))))"

definition do_uncompress :: "'s zlib \<Rightarrow> bytes \<Rightarrow> nat \<Rightarrow> z_res list \<Rightarrow> (bytes option \<times> z_res list) result" where
  "do_uncompress Z compr uncompr_len held =
     (case z_inflateInit Z of
        None \<Rightarrow> Inr (None, held)
      | Some s \<Rightarrow>
          let held = InflateS # held; strm = \<lparr>next_in = compr, next_out = [], avail_out = uncompr_len, z_state = s\<rparr> in
          rbind (z_call (z_inflate Z Z_NO_FLUSH) strm) (\<lambda>(res, strm).
          if res \<noteq> Z_STREAM_END then rbind (release InflateS held) (\<lambda>held. Inr (None, held))
          else rbind (release InflateS held) (\<lambda>held. Inr (Some (next_out strm), held))))"

definition z_msg :: bytes where
  "z_msg = map (\<lambda>c. of_nat (of_char c))
     (''abcdefghijklmnopqrstuvwxyz'' @ ''ABCDEFGHIJKLMNOPQRSTUVWXYZ'' @ ''0123456789'' @ '')!@#$%^&*('' @ ''ABABABABABABABABABABABABAB'' @
      ''BBBBBBBBBBBBBBBBBBBBBBBBBB'' @ ''CCCCCCCCCCCCCCCCCCCCCCCCCC'' @ ''DDDDDDDDDDDDDDDDDDDDDDDDDD'')"

text \<open>The exit status; the two assertions compare the message with what came back.\<close>

definition zlib_main :: "'s zlib \<Rightarrow> nat result" where
  "zlib_main Z =
     rbind (do_compress Z z_msg (1024 * 16) []) (\<lambda>(compr, held).
     case compr of
       None \<Rightarrow> Inr 1
     | Some compr \<Rightarrow>
         rbind (do_uncompress Z compr (1024 * 16) held) (\<lambda>(uncompr, held).
         case uncompr of
           None \<Rightarrow> Inr 1
         | Some uncompr \<Rightarrow> if length z_msg \<noteq> length uncompr \<or> z_msg \<noteq> take (length z_msg) uncompr then Inl AssertFailed else Inr 0))"

text \<open>
  What zlib documents: \<open>fed\<close> and \<open>emitted\<close> are what a compressing stream has taken and written; finished, it has written a stream
  that \<open>decode\<close> gives back. \<open>inflate\<close> decodes a whole stream in one call when there is space for it. No call writes more than there is
  space for.
\<close>

definition zlib_laws :: "'s zlib \<Rightarrow> ('s \<Rightarrow> bytes) \<Rightarrow> ('s \<Rightarrow> bytes) \<Rightarrow> (bytes \<Rightarrow> bytes option) \<Rightarrow> bool" where
  "zlib_laws Z fed emitted decode \<longleftrightarrow>
     (\<forall>s. z_deflateInit Z = Some s \<longrightarrow> fed s = [] \<and> emitted s = []) \<and>
     (\<forall>fl i n s. case z_deflate Z fl i n s of (res, k, out, s') \<Rightarrow>
        k \<le> length i \<and> length out \<le> n \<and> (0 \<le> res \<longrightarrow> fed s' = fed s @ take k i \<and> emitted s' = emitted s @ out) \<and>
        (fl = Z_FINISH \<and> res = Z_STREAM_END \<longrightarrow> k = length i \<and> decode (emitted s') = Some (fed s'))) \<and>
     (\<forall>fl i n s. case z_inflate Z fl i n s of (res, k, out, s') \<Rightarrow> length out \<le> n) \<and>
     (\<forall>s fl c n m. z_inflateInit Z = Some s \<and> decode c = Some m \<and> length m \<le> n \<longrightarrow>
        (\<exists>s'. z_inflate Z fl c n s = (Z_STREAM_END, length c, m, s')))"

lemma zlib_lawsD:
  assumes "zlib_laws Z fed emitted decode"
  shows "z_deflateInit Z = Some s \<Longrightarrow> fed s = [] \<and> emitted s = []"
    "z_deflate Z fl i n s = (res, k, out, s') \<Longrightarrow> length out \<le> n"
    "z_deflate Z fl i n s = (res, k, out, s') \<Longrightarrow> 0 \<le> res \<Longrightarrow> fed s' = fed s @ take k i \<and> emitted s' = emitted s @ out"
    "z_deflate Z Z_FINISH i n s = (Z_STREAM_END, k, out, s') \<Longrightarrow> k = length i \<and> decode (emitted s') = Some (fed s')"
    "z_inflate Z fl i n s = (res, k, out, s') \<Longrightarrow> length out \<le> n"
    "z_inflateInit Z = Some s \<Longrightarrow> decode c = Some m \<Longrightarrow> length m \<le> n \<Longrightarrow> \<exists>s'. z_inflate Z fl c n s = (Z_STREAM_END, length c, m, s')"
proof -
  note laws = assms [unfolded zlib_laws_def]
  have d: "case z_deflate Z fl i n s of (res, k, out, s') \<Rightarrow>
      k \<le> length i \<and> length out \<le> n \<and> (0 \<le> res \<longrightarrow> fed s' = fed s @ take k i \<and> emitted s' = emitted s @ out) \<and>
      (fl = Z_FINISH \<and> res = Z_STREAM_END \<longrightarrow> k = length i \<and> decode (emitted s') = Some (fed s'))" for fl i n s
    by (rule laws [THEN conjunct2, THEN conjunct1, rule_format])
  have e: "case z_inflate Z fl i n s of (res, k, out, s') \<Rightarrow> length out \<le> n" for fl i n s
    by (rule laws [THEN conjunct2, THEN conjunct2, THEN conjunct1, rule_format])
  show "z_deflateInit Z = Some s \<Longrightarrow> fed s = [] \<and> emitted s = []" by (rule laws [THEN conjunct1, rule_format])
  show "z_deflate Z fl i n s = (res, k, out, s') \<Longrightarrow> length out \<le> n" using d [where fl = fl and i = i and n = n and s = s] by simp
  show "z_deflate Z fl i n s = (res, k, out, s') \<Longrightarrow> 0 \<le> res \<Longrightarrow> fed s' = fed s @ take k i \<and> emitted s' = emitted s @ out"
    using d [where fl = fl and i = i and n = n and s = s] by simp
  show "z_deflate Z Z_FINISH i n s = (Z_STREAM_END, k, out, s') \<Longrightarrow> k = length i \<and> decode (emitted s') = Some (fed s')"
    using d [where fl = Z_FINISH and i = i and n = n and s = s] by simp
  show "z_inflate Z fl i n s = (res, k, out, s') \<Longrightarrow> length out \<le> n" using e [where fl = fl and i = i and n = n and s = s] by simp
  show "z_inflateInit Z = Some s \<Longrightarrow> decode c = Some m \<Longrightarrow> length m \<le> n \<Longrightarrow> \<exists>s'. z_inflate Z fl c n s = (Z_STREAM_END, length c, m, s')"
    using laws [THEN conjunct2, THEN conjunct2, THEN conjunct2] by blast
qed

text \<open>What a call makes of a stream that the library has filled so far.\<close>

lemma z_call_deflate:
  assumes "zlib_laws Z fed emitted decode" "emitted (z_state strm) = next_out strm" "fed (z_state strm) @ next_in strm = msg"
  shows "\<exists>res strm'. z_call (z_deflate Z fl) strm = Inr (res, strm') \<and> length (next_out strm') + avail_out strm' = length (next_out strm) + avail_out strm \<and>
    (0 \<le> res \<longrightarrow> emitted (z_state strm') = next_out strm' \<and> fed (z_state strm') @ next_in strm' = msg) \<and>
    (fl = Z_FINISH \<and> res = Z_STREAM_END \<longrightarrow> decode (next_out strm') = Some msg)"
proof -
  obtain res k out s' where d: "z_deflate Z fl (next_in strm) (avail_out strm) (z_state strm) = (res, k, out, s')"
    by (cases "z_deflate Z fl (next_in strm) (avail_out strm) (z_state strm)")
  note l = zlib_lawsD [OF assms(1)]
  have "fed s' @ drop k (next_in strm) = msg" if "0 \<le> res" using l(3) [OF d that] assms(3) by auto
  moreover have "decode (next_out strm @ out) = Some msg" if f: "fl = Z_FINISH" "res = Z_STREAM_END"
    using l(4) [OF d [unfolded f]] l(3) [OF d [unfolded f]] assms(2,3) by (simp add: Z_STREAM_END_def)
  ultimately show ?thesis using d l(2) [OF d] l(3) [OF d] assms(2) by (auto simp: z_call_def)
qed

lemma do_compress_result:
  assumes "zlib_laws Z fed emitted decode"
  shows "\<exists>r. do_compress Z msg cap held = Inr (r, held) \<and> (\<forall>c. r = Some c \<longrightarrow> decode c = Some msg \<and> length c \<le> cap)"
proof (cases "z_deflateInit Z")
  case (Some s)
  let ?strm = "\<lparr>next_in = msg, next_out = [], avail_out = cap, z_state = s\<rparr>"
  have "emitted (z_state ?strm) = next_out ?strm" "fed (z_state ?strm) @ next_in ?strm = msg" using zlib_lawsD(1) [OF assms Some] by simp_all
  from z_call_deflate [OF assms this, of Z_NO_FLUSH]
  obtain res a where a: "z_call (z_deflate Z Z_NO_FLUSH) ?strm = Inr (res, a)" "length (next_out a) + avail_out a = cap"
      "0 \<le> res \<longrightarrow> emitted (z_state a) = next_out a \<and> fed (z_state a) @ next_in a = msg" by auto
  show ?thesis
  proof (cases "res = Z_OK \<and> next_in a = []")
    case True
    then have "emitted (z_state a) = next_out a" "fed (z_state a) @ next_in a = msg" using a(3) by (simp_all add: Z_OK_def)
    from z_call_deflate [OF assms this, of Z_FINISH]
    obtain res' b where b: "z_call (z_deflate Z Z_FINISH) a = Inr (res', b)" "length (next_out b) + avail_out b = cap"
        "res' = Z_STREAM_END \<longrightarrow> decode (next_out b) = Some msg" using a(2) by auto
    then show ?thesis using True Some a(1) by (auto simp: do_compress_def Let_def)
  qed (use Some a(1) in \<open>auto simp: do_compress_def Let_def\<close>)
qed (simp add: do_compress_def)

text \<open>
  Whatever zlib does within its manual, \<open>do_compress\<close> writes no further than the buffer it is given, gives back its stream on every
  path, and when it succeeds \<open>do_uncompress\<close> returns the message from what it has written; so neither assertion of the program can fail.
\<close>

theorem deflate_roundtrip:
  assumes "zlib_laws Z fed emitted decode"
  shows "\<exists>r. do_compress Z msg cap held = Inr (r, held) \<and>
    (\<forall>c cap'. r = Some c \<and> length msg \<le> cap' \<and> z_inflateInit Z \<noteq> None \<longrightarrow>
       length c \<le> cap \<and> do_uncompress Z c cap' held = Inr (Some msg, held)) \<and>
    (zlib_main Z = Inr 0 \<or> zlib_main Z = Inr 1)"
proof -
  have undone: "do_uncompress Z c cap' held = Inr (Some m, held)" if "decode c = Some m" "length m \<le> cap'" "z_inflateInit Z = Some s" for c m cap' s held
    using zlib_lawsD(6) [OF assms that(3,1,2), of Z_NO_FLUSH] that(2,3) by (auto simp: do_uncompress_def z_call_def Let_def)
  obtain r where r: "do_compress Z msg cap held = Inr (r, held)" "\<forall>c. r = Some c \<longrightarrow> decode c = Some msg \<and> length c \<le> cap"
    using do_compress_result [OF assms] by blast
  obtain q where q: "do_compress Z z_msg (1024 * 16) [] = Inr (q, [])" "\<forall>c. q = Some c \<longrightarrow> decode c = Some z_msg"
    using do_compress_result [OF assms, of z_msg "1024 * 16" "[]"] by blast
  have "length z_msg \<le> 1024 * 16" by (simp add: z_msg_def)
  then have "zlib_main Z = Inr 0 \<or> zlib_main Z = Inr 1"
    using q undone [of _ z_msg "1024 * 16"] by (cases q; cases "z_inflateInit Z") (auto simp: zlib_main_def do_uncompress_def)
  then show ?thesis using r undone by auto
qed

definition stored_zlib :: "bytes zlib" where
  "stored_zlib = \<lparr>z_deflateInit = Some [],
     z_deflate = (\<lambda>fl i n s. if length i \<le> n then (if fl = Z_FINISH then Z_STREAM_END else Z_OK, length i, i, s @ i) else (-5, 0, [], s)),
     z_inflateInit = Some [],
     z_inflate = (\<lambda>fl i n s. if length i \<le> n then (Z_STREAM_END, length i, i, s) else (-5, 0, [], s))\<rparr>"

theorem deflate_roundtrip_witness:
  "\<exists>r. do_compress stored_zlib [1, 2, 3] 16 [] = Inr (Some r, []) \<and> do_uncompress stored_zlib r 3 [] = Inr (Some [1, 2, 3], [])"
proof -
  have "zlib_laws stored_zlib (\<lambda>s. s) (\<lambda>s. s) Some" by (auto simp: zlib_laws_def stored_zlib_def Z_STREAM_END_def)
  from deflate_roundtrip [OF this, of "[1, 2, 3]" 16 "[]"]
  show ?thesis by (auto simp: do_compress_def stored_zlib_def z_call_def Z_OK_def Z_STREAM_END_def)
qed

end
