(* ===== verification/Evp.thy ===== *)
theory Evp
  imports Prelude
begin

text \<open>
  The programs of src/use/c/use_openssl/example that use the EVP functions of OpenSSL: rsa_sign.c of crypt04_rsa_sign, rsa_enc_dec.c of
  crypt03_rsa_enc_dec and cipher.c of crypt02_cipher.

  What a program holds is a list of resources. \<open>ok\<close> says which of the calls succeed; the results of the cryptographic functions
  are the records \<open>rsa_lib\<close> and \<open>cipher_lib\<close>, with predicates for what the programs rely on. The muggle library's conversion to
  hexadecimal digits and back is part of them.
\<close>

datatype evp_res =
    MdCtx | OutDigest | Bio | Pkey | PkeyCtx | SignBytes | SignHex | SigBuf | CipherText | CipherHex | PlainText | CipherCtx | CipherAlgo | HexBuf

datatype evp_call =
    MD_CTX_new | DigestInit | DigestUpdate | Digest_malloc | DigestFinal | BIO_new | BIO_read | PKEY_new | PEM_read | PKEY_CTX_new
  | Operation_init | Set_padding | Set_md | Get_length | Operation | Malloc_bytes | Malloc_hex | Malloc_plain
  | CIPHER_CTX_new | CIPHER_fetch | CipherInit | CipherUpdate | CipherFinal

record 'k rsa_lib =
  sha256 :: "bytes \<Rightarrow> bytes"
  pri_key :: "string \<Rightarrow> string \<Rightarrow> 'k option"
  pub_key :: "string \<Rightarrow> 'k option"
  key_size :: "'k \<Rightarrow> nat"
  rsa_signs :: "'k \<Rightarrow> bytes \<Rightarrow> bytes"
  rsa_verifies :: "'k \<Rightarrow> bytes \<Rightarrow> bytes \<Rightarrow> int"
  rsa_encrypts :: "'k \<Rightarrow> bytes \<Rightarrow> bytes option"
  rsa_decrypts :: "'k \<Rightarrow> bytes \<Rightarrow> bytes option"
  hex_from_bytes :: "bytes \<Rightarrow> string"
  hex_to_bytes :: "string \<Rightarrow> bytes"

text \<open>Giving back at the exit label what a pointer that is not null stands for.\<close>

definition release_if :: "bool \<Rightarrow> 'r \<Rightarrow> 'r list \<Rightarrow> 'r list result" where
  "release_if p r held = (if p then release r held else Inr held)"

section \<open>Signatures\<close>

definition digest :: "(evp_call \<Rightarrow> bool) \<Rightarrow> 'k rsa_lib \<Rightarrow> bytes \<Rightarrow> evp_res list \<Rightarrow> (bytes option \<times> evp_res list) result" where
  "digest ok L plaintext held =
     (if \<not> ok MD_CTX_new then Inr (None, held)
      else
        let held = MdCtx # held in
        rbind
          (if \<not> ok DigestInit then Inr (None, held)
           else if \<not> ok DigestUpdate then Inr (None, held)
           else if \<not> ok Digest_malloc then Inr (None, held)
           else
             let held = OutDigest # held in
             if \<not> ok DigestFinal then rbind (release OutDigest held) (\<lambda>held. Inr (None, held))
             else Inr (Some (sha256 L plaintext), held))
          (\<lambda>(outdigest, held). rbind (release MdCtx held) (\<lambda>held. Inr (outdigest, held))))"

text \<open>
  The four functions that make a context from a key file differ in the kind of key, the operation they prepare, and whether a digest
  algorithm is set.
\<close>

definition init_ctx :: "(evp_call \<Rightarrow> bool) \<Rightarrow> bool \<Rightarrow> 'k option \<Rightarrow> evp_res list \<Rightarrow> ('k option \<times> evp_res list) result" where
  "init_ctx ok set_md file_key held =
     rbind
       (if \<not> ok BIO_new then Inr (None, False, False, held)
        else
          let held = Bio # held in
          if \<not> ok BIO_read then Inr (None, False, True, held)
          else
            let key = ok PKEY_new; held = (if key then Pkey # held else held) in
            case (if ok PEM_read then file_key else None) of
              None \<Rightarrow> Inr (None, key, True, held)
            | Some k \<Rightarrow>
                let held = (if key then held else Pkey # held) in
                if \<not> ok PKEY_CTX_new then Inr (None, True, True, held)
                else
                  let held = PkeyCtx # held in
                  if \<not> ok Operation_init then rbind (release PkeyCtx held) (\<lambda>held. Inr (None, True, True, held))
                  else if \<not> ok Set_padding then rbind (release PkeyCtx held) (\<lambda>held. Inr (None, True, True, held))
                  else if set_md \<and> \<not> ok Set_md then rbind (release PkeyCtx held) (\<lambda>held. Inr (None, True, True, held))
                  else Inr (Some k, True, True, held))
       (\<lambda>(ctx, key, bp, held).
          rbind (release_if key Pkey held) (\<lambda>held. rbind (release_if bp Bio held) (\<lambda>held. Inr (ctx, held))))"

definition init_sign_ctx :: "(evp_call \<Rightarrow> bool) \<Rightarrow> 'k rsa_lib \<Rightarrow> string \<Rightarrow> string \<Rightarrow> evp_res list \<Rightarrow> ('k option \<times> evp_res list) result" where
  "init_sign_ctx ok L pem_filepath passphrase = init_ctx ok True (pri_key L pem_filepath passphrase)"

definition init_verify_ctx :: "(evp_call \<Rightarrow> bool) \<Rightarrow> 'k rsa_lib \<Rightarrow> string \<Rightarrow> evp_res list \<Rightarrow> ('k option \<times> evp_res list) result" where
  "init_verify_ctx ok L pem_filepath = init_ctx ok True (pub_key L pem_filepath)"

definition sign :: "(evp_call \<Rightarrow> bool) \<Rightarrow> 'k rsa_lib \<Rightarrow> string \<Rightarrow> string \<Rightarrow> bytes \<Rightarrow> evp_res list \<Rightarrow> (string option \<times> evp_res list) result" where
  "sign ok L pem_filepath passphrase plaintext held =
     rbind (digest ok L plaintext held) (\<lambda>(outdigest, held).
     case outdigest of
       None \<Rightarrow> Inr (None, held)
     | Some d \<Rightarrow>
         rbind (init_sign_ctx ok L pem_filepath passphrase held) (\<lambda>(sign_ctx, held).
         rbind
           (case sign_ctx of
              None \<Rightarrow> Inr (None, False, held)
            | Some k \<Rightarrow>
                if \<not> ok Get_length then Inr (None, False, held)
                else
                  let outlen = key_size L k in
                  if \<not> ok Malloc_bytes then Inl NullDeref
                  else
                    let held = SignBytes # held in
                    if \<not> ok Operation then rbind (release SignBytes held) (\<lambda>held. Inr (None, False, held))
                    else if length (rsa_signs L k d) > outlen then Inl HeapOverflow
                    else if \<not> ok Malloc_hex then Inl NullDeref
                    else Inr (Some (hex_from_bytes L (rsa_signs L k d)), True, SignHex # held))
           (\<lambda>(sign_hex, sign_bytes, held).
              rbind (release_if sign_bytes SignBytes held) (\<lambda>held.
              rbind (release_if (sign_ctx \<noteq> None) PkeyCtx held) (\<lambda>held.
              rbind (release OutDigest held) (\<lambda>held. Inr (sign_hex, held)))))))"

definition verify :: "(evp_call \<Rightarrow> bool) \<Rightarrow> 'k rsa_lib \<Rightarrow> string \<Rightarrow> bytes \<Rightarrow> string \<Rightarrow> evp_res list \<Rightarrow> (bool \<times> evp_res list) result" where
  "verify ok L pem_filepath plaintext sign_hex held =
     (let verify_ret = True in
      rbind (digest ok L plaintext held) (\<lambda>(outdigest, held).
      case outdigest of
        None \<Rightarrow> Inr (verify_ret, held)
      | Some d \<Rightarrow>
          rbind (init_verify_ctx ok L pem_filepath held) (\<lambda>(verify_ctx, held).
          rbind
            (case verify_ctx of
               None \<Rightarrow> Inr (verify_ret, False, held)
             | Some k \<Rightarrow>
                 let siglen = length sign_hex div 2 in
                 if \<not> ok Malloc_bytes then Inl NullDeref
                 else
                   let held = SigBuf # held; sig = hex_to_bytes L sign_hex in
                   if length sig > siglen then Inl HeapOverflow
                   else
                     let ret = (if ok Operation then rsa_verifies L k sig d else -1) in
                     Inr (if ret = 0 then False else if ret < 0 then False else verify_ret, True, held))
            (\<lambda>(verify_ret, sig, held).
               rbind (release_if sig SigBuf held) (\<lambda>held.
               rbind (release OutDigest held) (\<lambda>held.
               rbind (release_if (verify_ctx \<noteq> None) PkeyCtx held) (\<lambda>held. Inr (verify_ret, held))))))))"

text \<open>\<open>muggle_path_join\<close> is the argument \<open>join\<close>. The result is the exit status and whether the program has logged that the signature is good.\<close>

definition sign_main :: "nat \<Rightarrow> (evp_call \<Rightarrow> bool) \<Rightarrow> (evp_call \<Rightarrow> bool) \<Rightarrow> 'k rsa_lib \<Rightarrow> (string \<Rightarrow> string \<Rightarrow> string) \<Rightarrow> string \<Rightarrow> bytes \<Rightarrow> evp_res list \<Rightarrow>
    (nat \<times> bool option \<times> evp_res list) result" where
  "sign_main argc ok_sign ok_verify L join key_dir plaintext held =
     (if argc < 3 then Inr (1, None, held)
      else rbind (sign ok_sign L (join key_dir ''bob.enc.private'') ''hello123'' plaintext held) (\<lambda>(sign_hex, held).
     case sign_hex of
       None \<Rightarrow> Inr (1, None, held)
     | Some hex \<Rightarrow>
         rbind (verify ok_verify L (join key_dir ''bob.public'') plaintext hex held) (\<lambda>(good, held).
         rbind (release SignHex held) (\<lambda>held. Inr (0, Some good, held)))))"

section \<open>What the functions give back\<close>

definition digest_ok :: "(evp_call \<Rightarrow> bool) \<Rightarrow> bool" where
  "digest_ok ok \<longleftrightarrow> ok MD_CTX_new \<and> ok DigestInit \<and> ok DigestUpdate \<and> ok Digest_malloc \<and> ok DigestFinal"

definition ctx_calls_ok :: "(evp_call \<Rightarrow> bool) \<Rightarrow> bool \<Rightarrow> bool" where
  "ctx_calls_ok ok set_md \<longleftrightarrow> ok BIO_new \<and> ok BIO_read \<and> ok PEM_read \<and> ok PKEY_CTX_new \<and> ok Operation_init \<and> ok Set_padding \<and> (set_md \<longrightarrow> ok Set_md)"

lemma digest_result:
  "digest ok L plaintext held = Inr (if digest_ok ok then (Some (sha256 L plaintext), OutDigest # held) else (None, held))"
  by (simp add: digest_def digest_ok_def Let_def release_def)

lemma init_ctx_result:
  "init_ctx ok set_md file_key held =
     Inr (if ctx_calls_ok ok set_md then (file_key, if file_key = None then held else PkeyCtx # held) else (None, held))"
  by (cases file_key) (auto simp: init_ctx_def ctx_calls_ok_def release_if_def release_def Let_def)

text \<open>
  What the programs rely on: a signature is not longer than the key and verifies with the public key of the pair, hexadecimal digits read
  back to the bytes they were made from, and reading digits gives half as many bytes.
\<close>

definition rsa_pair :: "'k rsa_lib \<Rightarrow> 'k \<Rightarrow> 'k \<Rightarrow> bool" where
  "rsa_pair L pri pub \<longleftrightarrow> (\<forall>d. length (rsa_signs L pri d) \<le> key_size L pri \<and> rsa_verifies L pub (rsa_signs L pri d) d = 1)"

definition hex_laws :: "'k rsa_lib \<Rightarrow> bool" where
  "hex_laws L \<longleftrightarrow> (\<forall>b. hex_to_bytes L (hex_from_bytes L b) = b \<and> length (hex_from_bytes L b) = 2 * length b) \<and> (\<forall>s. length (hex_to_bytes L s) \<le> length s div 2)"

lemma sign_result:
  assumes "ok Malloc_bytes" "ok Malloc_hex" "\<And>k. pri_key L path pass = Some k \<Longrightarrow> length (rsa_signs L k (sha256 L m)) \<le> key_size L k"
  shows "sign ok L path pass m held =
    Inr (case pri_key L path pass of
        Some k \<Rightarrow>
          if digest_ok ok \<and> ctx_calls_ok ok True \<and> ok Get_length \<and> ok Operation then (Some (hex_from_bytes L (rsa_signs L k (sha256 L m))), SignHex # held) else (None, held)
      | None \<Rightarrow> (None, held))"
  using assms by (auto simp: sign_def digest_result init_sign_ctx_def init_ctx_result release_if_def release_def Let_def split: option.splits)

lemma verify_result:
  assumes "ok Malloc_bytes" "length (hex_to_bytes L hex) \<le> length hex div 2"
  shows "verify ok L path m hex held =
    Inr (case pub_key L path of
        Some k \<Rightarrow> digest_ok ok \<and> ctx_calls_ok ok True \<longrightarrow> ok Operation \<and> 0 < rsa_verifies L k (hex_to_bytes L hex) (sha256 L m)
      | None \<Rightarrow> True, held)"
  using assms by (auto simp: verify_def digest_result init_verify_ctx_def init_ctx_result release_if_def release_def Let_def split: option.splits)

text \<open>
  C8. The signing program, with two matching keys and memory that can be allocated: whichever calls of OpenSSL fail, everything acquired is
  given back exactly once; it ends with status 0 exactly when the message was signed, and when the calls of both steps succeed it
  reports that the signature is good.
\<close>

theorem signature_program:
  assumes "pri_key L (join dir ''bob.enc.private'') ''hello123'' = Some pri" "pub_key L (join dir ''bob.public'') = Some pub" "rsa_pair L pri pub" "hex_laws L"
    and "ok_sign Malloc_bytes" "ok_sign Malloc_hex" "ok_verify Malloc_bytes"
  shows "\<exists>good. sign_main 3 ok_sign ok_verify L join dir m held =
      Inr (if digest_ok ok_sign \<and> ctx_calls_ok ok_sign True \<and> ok_sign Get_length \<and> ok_sign Operation then (0, Some good, held) else (1, None, held)) \<and>
    ((\<forall>c. ok_verify c) \<longrightarrow> good)"
proof -
  have len: "length (rsa_signs L pri (sha256 L m)) \<le> key_size L pri" "0 < rsa_verifies L pub (rsa_signs L pri (sha256 L m)) (sha256 L m)"
    using assms(3) by (auto simp: rsa_pair_def)
  have s: "sign ok_sign L (join dir ''bob.enc.private'') ''hello123'' m held =
      Inr (if digest_ok ok_sign \<and> ctx_calls_ok ok_sign True \<and> ok_sign Get_length \<and> ok_sign Operation
        then (Some (hex_from_bytes L (rsa_signs L pri (sha256 L m))), SignHex # held) else (None, held))"
    using sign_result [of ok_sign L "join dir ''bob.enc.private''" "''hello123''" m held] assms(1,5,6) len(1) by simp
  have hex: "hex_to_bytes L (hex_from_bytes L b) = b" "length (hex_to_bytes L h) \<le> length h div 2" for b h using assms(4) by (simp_all add: hex_laws_def)
  have "verify ok_verify L (join dir ''bob.public'') m (hex_from_bytes L (rsa_signs L pri (sha256 L m))) (SignHex # held) =
      Inr (digest_ok ok_verify \<and> ctx_calls_ok ok_verify True \<longrightarrow> ok_verify Operation, SignHex # held)"
    using verify_result [of ok_verify L, OF assms(7) hex(2)] assms(2) len(2) by (simp add: hex(1))
  then show ?thesis by (auto simp: sign_main_def s)
qed

text \<open>
  A signature is accepted without being looked at when it cannot be checked: if the digest of the message cannot be made, the key
  file cannot be read, or any call that prepares the context fails, \<open>verify\<close> returns true for every message and every signature.
\<close>

theorem verify_accepts_unchecked:
  assumes "\<not> digest_ok ok \<or> \<not> ctx_calls_ok ok True \<or> pub_key L path = None"
  shows "verify ok L path m hex held = Inr (True, held)"
  using assms by (auto simp: verify_def digest_result init_verify_ctx_def init_ctx_result release_if_def release_def Let_def)

section \<open>Encryption with RSA\<close>

definition load_pub_key :: "(evp_call \<Rightarrow> bool) \<Rightarrow> 'k rsa_lib \<Rightarrow> string \<Rightarrow> evp_res list \<Rightarrow> ('k option \<times> evp_res list) result" where
  "load_pub_key ok L pem_filepath = init_ctx ok False (pub_key L pem_filepath)"

definition load_pri_key :: "(evp_call \<Rightarrow> bool) \<Rightarrow> 'k rsa_lib \<Rightarrow> string \<Rightarrow> string \<Rightarrow> evp_res list \<Rightarrow> ('k option \<times> evp_res list) result" where
  "load_pri_key ok L pem_filepath passphrase = init_ctx ok False (pri_key L pem_filepath passphrase)"

definition pub_encrypt :: "(evp_call \<Rightarrow> bool) \<Rightarrow> 'k rsa_lib \<Rightarrow> string \<Rightarrow> bytes \<Rightarrow> evp_res list \<Rightarrow> (string option \<times> evp_res list) result" where
  "pub_encrypt ok L pem_filepath plaintext held =
     rbind (load_pub_key ok L pem_filepath held) (\<lambda>(enc_ctx, held).
     rbind
       (case enc_ctx of
          None \<Rightarrow> Inr (None, False, held)
        | Some k \<Rightarrow>
            if \<not> ok Get_length then Inr (None, False, held)
            else
              let outlen = key_size L k; ciphertext = ok Malloc_bytes; held = (if ciphertext then CipherText # held else held) in
              case (if ok Operation then rsa_encrypts L k plaintext else None) of
                None \<Rightarrow> Inr (None, ciphertext, held)
              | Some ct \<Rightarrow>
                  if \<not> ciphertext then Inl NullDeref
                  else if length ct > outlen then Inl HeapOverflow
                  else if \<not> ok Malloc_hex then Inl NullDeref
                  else Inr (Some (hex_from_bytes L ct), ciphertext, CipherHex # held))
       (\<lambda>(ciphertext_hex, ciphertext, held).
          rbind (release_if ciphertext CipherText held) (\<lambda>held.
          rbind (release_if (enc_ctx \<noteq> None) PkeyCtx held) (\<lambda>held. Inr (ciphertext_hex, held)))))"

text \<open>The buffer is returned also when the decryption into it has failed.\<close>

definition pri_decrypt :: "(evp_call \<Rightarrow> bool) \<Rightarrow> 'k rsa_lib \<Rightarrow> string \<Rightarrow> string \<Rightarrow> string \<Rightarrow> evp_res list \<Rightarrow> (bytes option \<times> evp_res list) result" where
  "pri_decrypt ok L pem_filepath passphrase ciphertext_hex held =
     rbind (load_pri_key ok L pem_filepath passphrase held) (\<lambda>(dec_ctx, held).
     rbind
       (case dec_ctx of
          None \<Rightarrow> Inr (None, False, held)
        | Some k \<Rightarrow>
            if \<not> ok Malloc_bytes then Inl NullDeref
            else
              let held = CipherText # held; ct = hex_to_bytes L ciphertext_hex in
              if length ct > length ciphertext_hex div 2 then Inl HeapOverflow
              else if \<not> ok Get_length then Inr (None, True, held)
              else
                let outlen = key_size L k in
                if \<not> ok Malloc_plain then Inl NullDeref
                else
                  let held = PlainText # held in
                  case (if ok Operation then rsa_decrypts L k ct else None) of
                    None \<Rightarrow> Inr (Some (replicate outlen 0), True, held)
                  | Some m \<Rightarrow>
                      if length m > outlen then Inl HeapOverflow
                      else Inr (Some (m @ replicate (outlen - length m) 0), True, held))
       (\<lambda>(plaintext, ciphertext, held).
          rbind (release_if ciphertext CipherText held) (\<lambda>held.
          rbind (release_if (dec_ctx \<noteq> None) PkeyCtx held) (\<lambda>held. Inr (plaintext, held)))))"

text \<open>The exit status and the message that is printed at the end.\<close>

definition enc_main :: "nat \<Rightarrow> (evp_call \<Rightarrow> bool) \<Rightarrow> (evp_call \<Rightarrow> bool) \<Rightarrow> 'k rsa_lib \<Rightarrow> (string \<Rightarrow> string \<Rightarrow> string) \<Rightarrow> string \<Rightarrow> bytes \<Rightarrow> evp_res list \<Rightarrow>
    (nat \<times> string option \<times> evp_res list) result" where
  "enc_main argc ok_enc ok_dec L join key_dir plaintext held =
     (if argc < 3 then Inr (1, None, held)
      else rbind (pub_encrypt ok_enc L (join key_dir ''alice.public'') plaintext held) (\<lambda>(ciphertext_hex, held).
     case ciphertext_hex of
       None \<Rightarrow> Inr (1, None, held)
     | Some hex \<Rightarrow>
         rbind (pri_decrypt ok_dec L (join key_dir ''alice.enc.private'') ''hello123'' hex held) (\<lambda>(dec_ret_plaintext, held).
         case dec_ret_plaintext of
           None \<Rightarrow> Inr (1, None, held)
         | Some buf \<Rightarrow>
             rbind (fmt_str buf) (\<lambda>text.
             rbind (release PlainText held) (\<lambda>held.
             rbind (release CipherHex held) (\<lambda>held. Inr (0, Some text, held)))))))"

text \<open>Decryption undoes encryption, and the padding makes a message shorter than the key.\<close>

definition enc_pair :: "'k rsa_lib \<Rightarrow> 'k \<Rightarrow> 'k \<Rightarrow> bool" where
  "enc_pair L pub pri \<longleftrightarrow>
     0 < key_size L pri \<and>
     (\<forall>m ct. rsa_encrypts L pub m = Some ct \<longrightarrow> length ct \<le> key_size L pub \<and> rsa_decrypts L pri ct = Some m \<and> length m < key_size L pri)"

lemma enc_pairD:
  "enc_pair L pub pri \<Longrightarrow> rsa_encrypts L pub m = Some ct \<Longrightarrow>
   length ct \<le> key_size L pub \<and> rsa_decrypts L pri ct = Some m \<and> length m < key_size L pri"
  by (simp add: enc_pair_def)

lemma pub_encrypt_result:
  assumes "enc_pair L pub pri" "pub_key L path = Some pub" "\<forall>c. ok c"
  shows "pub_encrypt ok L path m held = Inr (case rsa_encrypts L pub m of None \<Rightarrow> (None, held) | Some ct \<Rightarrow> (Some (hex_from_bytes L ct), CipherHex # held))"
  using assms(2,3) enc_pairD [OF assms(1)]
  by (cases "rsa_encrypts L pub m") (simp_all add: pub_encrypt_def load_pub_key_def init_ctx_result ctx_calls_ok_def release_if_def release_def Let_def not_less)

lemma pri_decrypt_result:
  assumes "enc_pair L pub pri" "pri_key L path pass = Some pri" "rsa_encrypts L pub m = Some ct" "hex_laws L" "\<forall>c. c \<noteq> Operation \<longrightarrow> ok c"
  shows "pri_decrypt ok L path pass (hex_from_bytes L ct) held =
    Inr (Some (if ok Operation then m @ replicate (key_size L pri - length m) 0 else replicate (key_size L pri) 0), PlainText # held)"
  using assms(2,5) enc_pairD [OF assms(1,3)] assms(4)
  by (auto simp: pri_decrypt_def load_pri_key_def init_ctx_result ctx_calls_ok_def hex_laws_def release_if_def release_def Let_def)

text \<open>
  The encryption program with two matching keys and calls that succeed prints the message it was given, when the key is long
  enough to encrypt it, and ends with an error otherwise. But when only the decryption itself fails, it prints an empty message
  and ends successfully.
\<close>

theorem encryption_program:
  assumes "pub_key L (join dir ''alice.public'') = Some pub" "pri_key L (join dir ''alice.enc.private'') ''hello123'' = Some pri" "enc_pair L pub pri" "hex_laws L"
    and "\<forall>c. ok_enc c" "\<forall>c. c \<noteq> Operation \<longrightarrow> ok_dec c" "0 \<notin> set m"
  shows "enc_main 3 ok_enc ok_dec L join dir m held =
    Inr (if rsa_encrypts L pub m = None then (1, None, held) else (0, Some (if ok_dec Operation then chars_of m else []), held))"
proof (cases "rsa_encrypts L pub m")
  case None
  then show ?thesis using pub_encrypt_result [OF assms(3,1,5)] by (simp add: enc_main_def)
next
  case (Some ct)
  have k: "length m < key_size L pri" using assms(3) Some by (auto simp: enc_pair_def)
  have "fmt_str (m @ replicate (key_size L pri - length m) 0) = Inr (chars_of m)" "fmt_str (replicate (key_size L pri) 0) = Inr []"
    using k assms(7) by (auto simp: fmt_str_def chars_of_def takeWhile_append)
  then show ?thesis using pub_encrypt_result [OF assms(3,1,5)] pri_decrypt_result [OF assms(3,2) Some assms(4,6)] Some
    by (simp add: enc_main_def release_def)
qed

section \<open>Block ciphers\<close>

text \<open>
  The sizes of the key, the initial vector and the blocks of an algorithm, and what the calls write for a whole message. The three
  sizes a caller names are compared with those of the algorithm by assertions.
\<close>

record cipher_lib =
  c_sizes :: "string \<Rightarrow> nat \<times> nat \<times> nat"
  c_update :: "bool \<Rightarrow> string \<Rightarrow> bytes \<Rightarrow> bytes \<Rightarrow> bytes \<Rightarrow> bytes"
  c_final :: "bool \<Rightarrow> string \<Rightarrow> bytes \<Rightarrow> bytes \<Rightarrow> bytes \<Rightarrow> bytes option"

text \<open>
  The calls that encryption and decryption share; \<open>cap\<close> is the size of the output buffer. The result is whether all have succeeded and
  the output that has been counted so far.
\<close>

definition cipher_run :: "(evp_call \<Rightarrow> bool) \<Rightarrow> cipher_lib \<Rightarrow> bool \<Rightarrow> string \<Rightarrow> bytes \<Rightarrow> bytes \<Rightarrow> bytes \<Rightarrow> nat \<times> nat \<times> nat \<Rightarrow> nat \<Rightarrow> evp_res list \<Rightarrow>
    (bool \<times> bytes \<times> evp_res list) result" where
  "cipher_run ok C enc algorithm text key iv sizes cap held =
     rbind
       (if \<not> ok CIPHER_CTX_new then Inr (False, [], False, False, held)
        else
          let held = CipherCtx # held in
          if \<not> ok CIPHER_fetch then Inr (False, [], False, True, held)
          else
            let held = CipherAlgo # held in
            if \<not> ok CipherInit then Inr (False, [], True, True, held)
            else if c_sizes C algorithm \<noteq> sizes then Inl AssertFailed
            else if \<not> ok CipherUpdate then Inr (False, [], True, True, held)
            else
              let u = c_update C enc algorithm key iv text in
              if length u > cap then Inl HeapOverflow
              else
                case (if ok CipherFinal then c_final C enc algorithm key iv text else None) of
                  None \<Rightarrow> Inr (False, u, True, True, held)
                | Some f \<Rightarrow> if length u + length f > cap then Inl HeapOverflow else Inr (True, u @ f, True, True, held))
       (\<lambda>(ret, out, algo, ctx, held).
          rbind (release_if algo CipherAlgo held) (\<lambda>held. rbind (release_if ctx CipherCtx held) (\<lambda>held. Inr (ret, out, held))))"

text \<open>After success the hexadecimal digits of the output are logged from a buffer that is freed at once.\<close>

definition cipher_encrypt :: "(evp_call \<Rightarrow> bool) \<Rightarrow> cipher_lib \<Rightarrow> string \<Rightarrow> bytes \<Rightarrow> bytes \<Rightarrow> bytes \<Rightarrow> nat \<times> nat \<times> nat \<Rightarrow> nat \<Rightarrow> evp_res list \<Rightarrow>
    (bool \<times> bytes \<times> evp_res list) result" where
  "cipher_encrypt ok C algorithm plaintext key iv sizes cap held =
     rbind (cipher_run ok C True algorithm plaintext key iv sizes cap held) (\<lambda>(ret, out, held).
     if ret \<and> \<not> ok Malloc_hex then Inl NullDeref else Inr (ret, out, held))"

definition cipher_decrypt :: "(evp_call \<Rightarrow> bool) \<Rightarrow> cipher_lib \<Rightarrow> string \<Rightarrow> bytes \<Rightarrow> bytes \<Rightarrow> bytes \<Rightarrow> nat \<times> nat \<times> nat \<Rightarrow> nat \<Rightarrow> evp_res list \<Rightarrow>
    (bool \<times> bytes \<times> evp_res list) result" where
  "cipher_decrypt ok C algorithm ciphertext key iv sizes cap held = cipher_run ok C False algorithm ciphertext key iv sizes cap held"

definition to_bytes :: "string \<Rightarrow> bytes" where
  "to_bytes = map (\<lambda>c. of_nat (of_char c))"

definition EVP_MAX_BLOCK_LENGTH :: nat where "EVP_MAX_BLOCK_LENGTH = 32"

definition ciphers :: "(string \<times> bytes \<times> bytes \<times> nat \<times> nat \<times> nat) list" where
  "ciphers =
     [(''DES-EDE3-CBC'', to_bytes ''0123456789abcdefghijklmn'', to_bytes ''12345678'', 24, 8, 8),
      (''AES-128-CBC'', to_bytes ''0123456789abcdef'', to_bytes ''1234567887654321'', 16, 16, 16),
      (''AES-256-CBC'', to_bytes ''0123456789abcdeffedcba9876543210'', to_bytes ''1234567887654321'', 32, 16, 16)]"

text \<open>The messages that the decryptions log, one after the other; the results of the encryptions are not looked at.\<close>

fun cipher_loop :: "(evp_call \<Rightarrow> bool) \<Rightarrow> cipher_lib \<Rightarrow> bytes \<Rightarrow> nat \<Rightarrow> (string \<times> bytes \<times> bytes \<times> nat \<times> nat \<times> nat) list \<Rightarrow> evp_res list \<Rightarrow>
    (bytes option list \<times> evp_res list) result" where
  "cipher_loop ok C plaintext cap [] held = Inr ([], held)"
| "cipher_loop ok C plaintext cap ((algorithm, key, iv, sizes) # rest) held =
     rbind (cipher_encrypt ok C algorithm plaintext key iv sizes cap held) (\<lambda>(_, ciphertext, held).
     rbind (cipher_decrypt ok C algorithm ciphertext key iv sizes cap held) (\<lambda>(ret, pt, held).
     rbind (cipher_loop ok C plaintext cap rest held) (\<lambda>(pts, held). Inr ((if ret then Some pt else None) # pts, held))))"

definition cipher_main :: "nat \<Rightarrow> (evp_call \<Rightarrow> bool) \<Rightarrow> cipher_lib \<Rightarrow> bytes \<Rightarrow> (nat \<times> bytes option list \<times> evp_res list) result" where
  "cipher_main argc ok C plaintext =
     (if argc < 2 then Inr (1, [], [])
      else if \<not> ok Malloc_bytes then Inl NullDeref
      else if \<not> ok Malloc_plain then Inl NullDeref
      else
        rbind (cipher_loop ok C plaintext (uadd (length plaintext) EVP_MAX_BLOCK_LENGTH) ciphers [PlainText, CipherText]) (\<lambda>(pts, held).
        rbind (release PlainText held) (\<lambda>held. rbind (release CipherText held) (\<lambda>held. Inr (0, pts, held)))))"

text \<open>
  The manual: a block cipher with padding fills the message up to the next multiple of its block, by at least one byte, and
  decryption undoes it.
\<close>

definition cipher_ok :: "cipher_lib \<Rightarrow> string \<times> bytes \<times> bytes \<times> nat \<times> nat \<times> nat \<Rightarrow> bool" where
  "cipher_ok C a \<longleftrightarrow>
     (case a of (algorithm, key, iv, ks, ivs, bs) \<Rightarrow>
        c_sizes C algorithm = (ks, ivs, bs) \<and>
        (\<forall>m. \<exists>f. c_final C True algorithm key iv m = Some f \<and>
           length (c_update C True algorithm key iv m @ f) = (length m div bs + 1) * bs \<and>
           (\<exists>g. c_final C False algorithm key iv (c_update C True algorithm key iv m @ f) = Some g \<and>
              c_update C False algorithm key iv (c_update C True algorithm key iv m @ f) @ g = m)))"

lemma padded_length: "0 < bs \<Longrightarrow> (n div bs + 1) * bs \<le> n + (bs :: nat)"
  by (simp add: algebra_simps)

lemma cipher_roundtrip:
  assumes "cipher_ok C (algorithm, key, iv, ks, ivs, bs)" "\<forall>c. ok c" "0 < bs" "length m + bs \<le> cap"
  shows "\<exists>ct. cipher_encrypt ok C algorithm m key iv (ks, ivs, bs) cap held = Inr (True, ct, held) \<and> length ct \<le> cap \<and>
    cipher_decrypt ok C algorithm ct key iv (ks, ivs, bs) cap held = Inr (True, m, held)"
proof -
  obtain f g where c: "c_sizes C algorithm = (ks, ivs, bs)" "c_final C True algorithm key iv m = Some f"
      "length (c_update C True algorithm key iv m @ f) = (length m div bs + 1) * bs"
      "c_final C False algorithm key iv (c_update C True algorithm key iv m @ f) = Some g"
      "c_update C False algorithm key iv (c_update C True algorithm key iv m @ f) @ g = m"
    using assms(1) unfolding cipher_ok_def prod.case by blast
  let ?u = "c_update C True algorithm key iv m" and ?v = "c_update C False algorithm key iv (c_update C True algorithm key iv m @ f)"
  have "length (?u @ f) \<le> cap" unfolding c(3) using padded_length [OF assms(3), of "length m"] assms(4) by linarith
  moreover have "length ?v + length g \<le> cap" using arg_cong [OF c(5), of length] assms(4) by simp
  ultimately show ?thesis using c(1,2,4,5) assms(2)
    by (intro exI [of _ "?u @ f"]) (simp add: cipher_encrypt_def cipher_decrypt_def cipher_run_def Let_def release_if_def)
qed

text \<open>
  The cipher program decrypts what it has encrypted with each of its three algorithms to the message it was given, writes
  no further than the two buffers that hold a message and one block of the largest kind, and frees what it has allocated.
\<close>

theorem cipher_program:
  assumes "\<forall>a \<in> set ciphers. cipher_ok C a" "\<forall>c. ok c" "length m + EVP_MAX_BLOCK_LENGTH < 2 ^ 32"
  shows "cipher_main 2 ok C m = Inr (0, [Some m, Some m, Some m], [])"
proof -
  have cap: "uadd (length m) EVP_MAX_BLOCK_LENGTH = length m + 32" using assms(3) by (simp add: uadd_small EVP_MAX_BLOCK_LENGTH_def)
  have "cipher_loop ok C m (length m + 32) as held = Inr (replicate (length as) (Some m), held)"
    if "\<forall>(a, k, i, ks, ivs, bs) \<in> set as. cipher_ok C (a, k, i, ks, ivs, bs) \<and> 0 < bs \<and> bs \<le> 32" for as held
    using that
  proof (induction as)
    case (Cons x as)
    obtain a k i ks ivs bs where x: "x = (a, k, i, ks, ivs, bs)" by (cases x)
    have h: "cipher_ok C (a, k, i, ks, ivs, bs)" "0 < bs" "length m + bs \<le> length m + 32" using Cons.prems x by simp_all
    show ?case using cipher_roundtrip [OF h(1) assms(2) h(2,3), of held] Cons x by auto
  qed simp
  from this [of ciphers] have "cipher_loop ok C m (length m + 32) ciphers held = Inr ([Some m, Some m, Some m], held)" for held
    using assms(1) by (simp add: ciphers_def)
  then show ?thesis using assms(2) by (simp add: cipher_main_def cap release_def)
qed

section \<open>Libraries for which the hypotheses hold\<close>

definition toy_hex :: "bytes \<Rightarrow> string" where
  "toy_hex b = concat (map (\<lambda>x. [char_of (unat x), CHR ''.'']) b)"

fun toy_unhex :: "string \<Rightarrow> bytes" where
  "toy_unhex (c # d # r) = of_nat (of_char c) # toy_unhex r"
| "toy_unhex _ = []"

definition toy_rsa :: "unit rsa_lib" where
  "toy_rsa = \<lparr>sha256 = (\<lambda>m. m), pri_key = (\<lambda>_ _. Some ()), pub_key = (\<lambda>_. Some ()), key_size = (\<lambda>_. 8), rsa_signs = (\<lambda>_ d. take 8 d),
     rsa_verifies = (\<lambda>_ s d. if s = take 8 d then 1 else 0), rsa_encrypts = (\<lambda>_ m. if length m < 8 then Some m else None),
     rsa_decrypts = (\<lambda>_. Some), hex_from_bytes = toy_hex, hex_to_bytes = toy_unhex\<rparr>"

lemma toy_hex_laws: "hex_laws toy_rsa"
proof -
  have "unat (x :: u8) mod 256 = unat x" for x using unsigned_less [of x, where 'a = nat] by simp
  then have "toy_unhex (toy_hex b) = b \<and> length (toy_hex b) = 2 * length b" for b
    by (induction b) (auto simp: toy_hex_def)
  moreover have "length (toy_unhex s) \<le> length s div 2" for s by (induction s rule: toy_unhex.induct) auto
  ultimately show ?thesis by (simp add: hex_laws_def toy_rsa_def)
qed

theorem signature_program_witness:
  "\<exists>good. sign_main 3 (\<lambda>c. True) (\<lambda>c. True) toy_rsa (@) ''keys/'' [1, 2, 3] [] = Inr (0, Some good, []) \<and> good"
  using signature_program [of toy_rsa "(@)" "''keys/''" "()" "()" "\<lambda>c. True" "\<lambda>c. True" "[1, 2, 3]" "[]"] toy_hex_laws
  by (simp add: toy_rsa_def rsa_pair_def digest_ok_def ctx_calls_ok_def)

theorem verify_accepts_unchecked_witness:
  "verify (\<lambda>c. c \<noteq> BIO_read) toy_rsa ''missing'' [1, 2, 3] ''forged'' [] = Inr (True, [])"
  using verify_accepts_unchecked [of "\<lambda>c. c \<noteq> BIO_read" toy_rsa "''missing''" "[1, 2, 3]" "''forged''" "[]"] by (simp add: ctx_calls_ok_def)

theorem encryption_program_witness:
  "enc_main 3 (\<lambda>c. True) (\<lambda>c. c \<noteq> Operation) toy_rsa (@) ''keys/'' [72, 105] [] = Inr (0, Some [], [])"
  using encryption_program [of toy_rsa "(@)" "''keys/''" "()" "()" "\<lambda>c. True" "\<lambda>c. c \<noteq> Operation" "[72, 105]" "[]"] toy_hex_laws
  by (simp add: toy_rsa_def enc_pair_def)

text \<open>A cipher that only pads, as PKCS #7 does.\<close>

definition toy_cipher :: cipher_lib where
  "toy_cipher =
     (let sizes = (\<lambda>a. if a = ''DES-EDE3-CBC'' then (24, 8, 8) else if a = ''AES-128-CBC'' then (16, 16, 16) else (32, 16, 16)) in
      \<lparr>c_sizes = sizes, c_update = (\<lambda>_ _ _ _ _. []),
       c_final = (\<lambda>enc a _ _ m. Some (if enc then let p = (case sizes a of (_, _, bs) \<Rightarrow> bs - length m mod bs) in m @ replicate p (of_nat p)
         else take (length m - unat (last m)) m))\<rparr>)"

lemma toy_unpad:
  assumes "0 < p" "p < 256"
  shows "let c = m @ replicate p (of_nat p :: u8) in take (length c - unat (last c)) c = m"
  using assms by (simp add: Let_def unat_of_nat)

lemma toy_pad_length:
  assumes "0 < bs" "bs \<le> 16"
  shows "length m + (bs - length m mod bs) = bs + length m div bs * bs" "0 < bs - length m mod bs" "bs - length m mod bs < 256"
proof -
  have "length m mod bs < bs" "length m div bs * bs + length m mod bs = length m" using assms(1) by simp_all
  then show "length m + (bs - length m mod bs) = bs + length m div bs * bs" "0 < bs - length m mod bs" "bs - length m mod bs < 256"
    using assms(2) by linarith+
qed

lemma toy_cipher_ok: "\<forall>a \<in> set ciphers. cipher_ok toy_cipher a"
proof -
  have "cipher_ok toy_cipher (a, key, iv, ks, ivs, bs)" if "c_sizes toy_cipher a = (ks, ivs, bs)" "0 < bs" "bs \<le> 16" for a key iv ks ivs bs
  proof -
    have f: "c_final toy_cipher True a key iv m = Some (m @ replicate (bs - length m mod bs) (of_nat (bs - length m mod bs)))"
        "c_update toy_cipher enc a key iv m = []" "c_final toy_cipher False a key iv m = Some (take (length m - unat (last m)) m)" for enc m
      using that(1) by (simp_all add: toy_cipher_def Let_def)
    have unpad: "take (bs + length m div bs * bs - unat (last (m @ replicate (bs - length m mod bs) (of_nat (bs - length m mod bs)))))
        (m @ replicate (bs - length m mod bs) (of_nat (bs - length m mod bs))) = m" for m :: bytes
      using toy_unpad [OF toy_pad_length(2,3) [OF that(2,3), of m], of m] toy_pad_length(1) [OF that(2,3), of m]
      by (simp only: Let_def length_append length_replicate)
    show ?thesis unfolding cipher_ok_def prod.case f append_Nil length_append length_replicate
      using that(1) toy_pad_length(1) [OF that(2,3)] unpad by (auto simp del: of_nat_diff take_append)
  qed
  then show ?thesis by (simp add: ciphers_def toy_cipher_def)
qed

theorem cipher_program_witness: "cipher_main 2 (\<lambda>c. True) toy_cipher [1, 2, 3] = Inr (0, [Some [1, 2, 3], Some [1, 2, 3], Some [1, 2, 3]], [])"
  using cipher_program [OF toy_cipher_ok, of "\<lambda>c. True" "[1, 2, 3]"] by (simp add: EVP_MAX_BLOCK_LENGTH_def)

end
