(* ===== verification/CmdUtils.thy ===== *)
theory CmdUtils
  imports Prelude
begin

text \<open>
  Command lines of src/play/cpp/try: src/cmd_utils.c, src/str_utils.c, and the program
  run_test/run_test_cmd_utils.c.

  \<open>cmd_buf\<close> is the list of its characters with the terminating null; pointers into it are indices, and
  a read or write behind its end is a fault. The parser puts null characters into the buffer, and the
  options it hands to the callback are the places where they begin, so that their texts are read off
  the buffer at the end. The memory for the copy is there: the code does not test the result of its allocation.
  \<open>debug\<close> says whether \<open>MASSERT_MSG\<close> aborts the program; in a release build it
  does nothing. The function that knows the types of options is an argument.
\<close>

section \<open>Characters of the buffer\<close>

abbreviation NUL :: char where "NUL \<equiv> CHR 0x00"
abbreviation BLANK :: char where "BLANK \<equiv> CHR '' ''"

definition peek :: "string \<Rightarrow> int \<Rightarrow> char result" where
  "peek buf i = (if 0 \<le> i \<and> nat i < length buf then Inr (buf ! nat i) else Inl OutOfBounds)"

text \<open>The loop \<open>while (P(*p)) ++p\<close>.\<close>

definition scan :: "(char \<Rightarrow> bool) \<Rightarrow> string \<Rightarrow> nat \<Rightarrow> nat result" where
  "scan P buf i =
     (let j = i + length (takeWhile P (drop i buf)) in if j < length buf then Inr j else Inl OutOfBounds)"

definition text_at :: "string \<Rightarrow> nat \<Rightarrow> string" where
  "text_at buf i = takeWhile (\<lambda>c. c \<noteq> NUL) (drop i buf)"

definition StrUtils_AllocByDiff :: "string \<Rightarrow> nat \<Rightarrow> nat \<Rightarrow> string result" where
  "StrUtils_AllocByDiff buf p_start p_end = read_range buf p_start (p_end - p_start + 1)"

section \<open>Options\<close>

datatype MG_eOptionType = MG_OT_Null | MG_OT_Single | MG_OT_FollowOne | MG_OT_FollowArbitrary | MG_OT_WithArug

definition MASSERT_MSG :: "bool \<Rightarrow> 'a option result" where
  "MASSERT_MSG debug = (if debug then Inl AssertFailed else Inr None)"

text \<open>
  The search for an equals sign followed by a quoted text, from \<open>p_start\<close> up to the character before
  \<open>p_end\<close>: \<open>None\<close> if there is none, \<open>Some None\<close> if the closing quote is missing, and otherwise its place.
\<close>

definition quoted_argument :: "string \<Rightarrow> nat \<Rightarrow> nat \<Rightarrow> int option option result" where
  "quoted_argument buf p_start p_end =
     (let k = p_start + length (takeWhile (\<lambda>c. c \<noteq> CHR ''='') (take (p_end - p_start) (drop p_start buf))) in
      if k < p_end then
        rbind (peek buf (int k + 1)) (\<lambda>c.
        if c = CHR 0x22 then
          rbind (scan (\<lambda>c. c \<noteq> NUL \<and> c \<noteq> CHR 0x22) buf (k + 2)) (\<lambda>p.
          rbind (peek buf (int p)) (\<lambda>c. Inr (Some (if c = NUL then None else Some (int p)))))
        else Inr None)
      else Inr None)"

text \<open>The result is the place of the last character of the option with its arguments.\<close>

definition CmdUtils_ParseOption ::
  "bool \<Rightarrow> (string \<Rightarrow> MG_eOptionType) \<Rightarrow> string \<Rightarrow> nat \<Rightarrow> nat \<Rightarrow> int option result" where
  "CmdUtils_ParseOption debug get_option_type buf p_start p_end =
     (if p_end < p_start then MASSERT_MSG debug
      else
        rbind (peek buf (int p_start)) (\<lambda>c.
        if c = CHR ''='' then MASSERT_MSG debug
        else
          rbind (quoted_argument buf p_start p_end) (\<lambda>quoted.
          case quoted of
            Some result \<Rightarrow> Inr result
          | None \<Rightarrow>
              (case get_option_type (take (p_end - p_start + 1) (drop p_start buf)) of
                 MG_OT_Null \<Rightarrow> MASSERT_MSG debug
               | MG_OT_Single \<Rightarrow> Inr (Some (int p_end))
               | MG_OT_FollowOne \<Rightarrow>
                   rbind (scan (\<lambda>c. c = BLANK) buf (p_end + 1)) (\<lambda>p_ret.
                   rbind (scan (\<lambda>c. c \<noteq> NUL \<and> c \<noteq> BLANK) buf p_ret) (\<lambda>p_ret.
                   Inr (Some (int p_ret - 1))))
               | MG_OT_FollowArbitrary \<Rightarrow>
                   rbind (scan (\<lambda>c. c \<noteq> NUL \<and> c \<noteq> CHR ''-'') buf p_end) (\<lambda>p_ret.
                   rbind (peek buf (int p_ret)) (\<lambda>c.
                   Inr (Some (if c = CHR ''-'' then int p_ret - 2 else int p_ret - 1))))
               | MG_OT_WithArug \<Rightarrow> Inr (Some (int p_end))))))"

section \<open>Command lines\<close>

definition MG_MAX_CMD_OPTION_NUM :: nat where
  "MG_MAX_CMD_OPTION_NUM = 64"

text \<open>
  The main loop. \<open>None\<close> is the result \<open>false\<close>; otherwise the result is what the callback is called with:
  the buffer, the place of the command and those of the options.
\<close>

fun parse_loop ::
  "nat \<Rightarrow> bool \<Rightarrow> (string \<Rightarrow> MG_eOptionType) \<Rightarrow> string \<Rightarrow> nat \<Rightarrow> nat option \<Rightarrow> nat list \<Rightarrow>
   (string \<times> nat option \<times> nat list) option result" where
  "parse_loop 0 debug get_option_type buf p p_command options = Inl Diverges"
| "parse_loop (Suc fuel) debug get_option_type buf p p_command options =
     rbind (scan (\<lambda>c. c = BLANK) buf p) (\<lambda>q.
     rbind (scan (\<lambda>c. c \<noteq> NUL \<and> c \<noteq> BLANK) buf q) (\<lambda>p.
     if p = q then Inr (Some (buf, p_command, options))
     else
       rbind (peek buf (int p)) (\<lambda>c.
       case p_command of
         None \<Rightarrow>
           if c = BLANK then parse_loop fuel debug get_option_type (buf[p := NUL]) (p + 1) (Some q) options
           else parse_loop fuel debug get_option_type buf p (Some q) options
       | Some command \<Rightarrow>
           if length options = MG_MAX_CMD_OPTION_NUM - 1 then MASSERT_MSG debug
           else
             rbind (CmdUtils_ParseOption debug get_option_type buf q (p - 1)) (\<lambda>r.
             case r of
               None \<Rightarrow> MASSERT_MSG debug
             | Some p_end \<Rightarrow>
                 if c = NUL then
                   if p_end - int q < 0 then MASSERT_MSG debug
                   else Inr (Some (buf, Some command, options @ [q]))
                 else
                   rbind (peek buf (p_end + 1)) (\<lambda>c.
                   if c = NUL then Inr (Some (buf, Some command, options @ [q]))
                   else parse_loop fuel debug get_option_type (buf[nat (p_end + 1) := NUL]) (nat (p_end + 1) + 1)
                          (Some command) (options @ [q]))))))"

definition CmdUtils_ParseCmdLine ::
  "bool \<Rightarrow> (string \<Rightarrow> MG_eOptionType) option \<Rightarrow> string \<Rightarrow> (string option \<times> string list) option result" where
  "CmdUtils_ParseCmdLine debug get_option_type cmd_line =
     (case get_option_type of
        None \<Rightarrow> MASSERT_MSG debug
      | Some f \<Rightarrow>
          rbind (parse_loop (MG_MAX_CMD_OPTION_NUM + 2) debug f (cmd_line @ [NUL]) 0 None []) (\<lambda>r.
          case r of
            None \<Rightarrow> Inr None
          | Some (buf, p_command, options) \<Rightarrow> Inr (Some (map_option (text_at buf) p_command, map (text_at buf) options))))"

section \<open>The program\<close>

text \<open>The option types of the test program, in a release build.\<close>

definition ParseOption_test :: "string \<Rightarrow> MG_eOptionType" where
  "ParseOption_test name =
     (let dash_count = length (takeWhile (\<lambda>c. c = CHR ''-'') name); q = drop dash_count name in
      if q = ''Mode'' \<and> dash_count = 2 then MG_OT_FollowOne
      else if q = ''OpenGL'' \<and> dash_count = 2 then MG_OT_Single
      else if q = ''i'' \<and> dash_count = 1 then MG_OT_FollowArbitrary
      else if q = ''o'' \<and> dash_count = 1 then MG_OT_FollowArbitrary
      else MG_OT_Null)"

definition executeCommand :: "string option \<times> string list \<Rightarrow> string result" where
  "executeCommand call =
     (case call of
        (None, options) \<Rightarrow> Inl NullDeref
      | (Some cmd_name, options) \<Rightarrow>
          Inr (''Result of parse command line: \<newline>command name: '' @ cmd_name @ ''\<newline>'' @
               concat (map (\<lambda>s. ''option: '' @ s @ ''\<newline>'') options) @ ''----------------\<newline>''))"

fun join_args :: "string list \<Rightarrow> string" where
  "join_args [] = []"
| "join_args [a] = a"
| "join_args (a # as) = a @ BLANK # join_args as"

definition test_main :: "bool \<Rightarrow> string list \<Rightarrow> string result" where
  "test_main debug argv =
     (let cmd_line =
            (if length argv > 1 then join_args argv
             else ''Test_CmdUtils  --Mode Test --OpenGL -i file1 file2 file3 -o out1 out2 out3'')
      in rbind (CmdUtils_ParseCmdLine debug (Some ParseOption_test) cmd_line) (\<lambda>r.
         case r of None \<Rightarrow> Inr [] | Some call \<Rightarrow> executeCommand call))"

section \<open>Bounds\<close>

definition well :: "string \<Rightarrow> bool" where
  "well buf \<longleftrightarrow> buf \<noteq> [] \<and> last buf = NUL"

lemma well_nth: "well buf \<Longrightarrow> i < length buf \<Longrightarrow> buf ! i \<noteq> NUL \<Longrightarrow> i + 1 < length buf"
  by (cases "i = length buf - 1") (auto simp: well_def last_conv_nth)

lemma well_update: "well buf \<Longrightarrow> well (buf[i := NUL])"
  by (auto simp: well_def last_list_update)

lemma scan_ok:
  assumes "well buf" "\<not> P NUL" "i < length buf"
  shows "\<exists>j. scan P buf i = Inr j \<and> i \<le> j \<and> j < length buf \<and> \<not> P (buf ! j) \<and> (\<forall>k. i \<le> k \<and> k < j \<longrightarrow> P (buf ! k))"
proof -
  let ?n = "length (takeWhile P (drop i buf))"
  have "NUL \<in> set (drop i buf)" using assms(1,3) by (metis drop_eq_Nil last_drop last_in_set not_le well_def)
  then have n: "?n < length (drop i buf)"
    using assms(2) by (metis length_takeWhile_le nat_less_le set_takeWhileD takeWhile_eq_take take_all_iff)
  then have "\<not> P (drop i buf ! ?n)" by (rule nth_length_takeWhile)
  then have "\<not> P (buf ! (i + ?n))" using n by simp
  moreover have "P (buf ! k)" if "i \<le> k" "k < i + ?n" for k
  proof -
    have "drop i buf ! (k - i) \<in> set (takeWhile P (drop i buf))"
      using that n by (metis add_less_cancel_left le_add_diff_inverse nth_mem takeWhile_nth)
    then show ?thesis using that n by (auto dest: set_takeWhileD)
  qed
  ultimately show ?thesis using n by (intro exI [of _ "i + ?n"]) (auto simp: scan_def Let_def)
qed

lemma peek_ok: "0 \<le> i \<Longrightarrow> nat i < length buf \<Longrightarrow> peek buf i = Inr (buf ! nat i)"
  by (simp add: peek_def)

lemma peek_nat: "i < length buf \<Longrightarrow> peek buf (int i) = Inr (buf ! i)"
  by (simp add: peek_def)

text \<open>The only fault is a failed assertion, and the character behind the returned place is in the buffer.\<close>

definition option_end :: "bool \<Rightarrow> string \<Rightarrow> int option result \<Rightarrow> bool" where
  "option_end debug buf r \<longleftrightarrow>
     (case r of Inl e \<Rightarrow> debug \<and> e = AssertFailed
      | Inr None \<Rightarrow> True
      | Inr (Some k) \<Rightarrow> 0 \<le> k + 1 \<and> nat (k + 1) < length buf)"

lemma option_end_simps [simp]:
  "option_end debug buf (MASSERT_MSG debug)" "option_end debug buf (Inr None)"
  "option_end debug buf (Inr (Some k)) \<longleftrightarrow> 0 \<le> k + 1 \<and> nat (k + 1) < length buf"
  by (simp_all add: option_end_def MASSERT_MSG_def)

lemma quoted_argument_ok:
  assumes "well buf" "p_end + 1 < length buf"
  shows "quoted_argument buf p_start p_end = Inr None \<or>
    (\<exists>r. quoted_argument buf p_start p_end = Inr (Some r) \<and> option_end debug buf (Inr r))"
proof -
  let ?k = "p_start + length (takeWhile (\<lambda>c. c \<noteq> CHR ''='') (take (p_end - p_start) (drop p_start buf)))"
  show ?thesis
  proof (cases "?k < p_end \<and> buf ! (?k + 1) = CHR 0x22")
    case True
    then have "?k + 1 < length buf" using assms(2) by linarith
    then have k2: "?k + 2 < length buf" using True well_nth [OF assms(1), of "?k + 1"] by simp
    obtain j where j: "scan (\<lambda>c. c \<noteq> NUL \<and> c \<noteq> CHR 0x22) buf (?k + 2) = Inr j" "j < length buf"
      using scan_ok [OF assms(1) _ k2, of "\<lambda>c. c \<noteq> NUL \<and> c \<noteq> CHR 0x22"] by auto
    have "buf ! j \<noteq> NUL \<Longrightarrow> nat (int j + 1) < length buf" using well_nth [OF assms(1) j(2)] by simp
    then show ?thesis using True j \<open>?k + 1 < length buf\<close>
      by (auto simp: quoted_argument_def Let_def peek_def nat_add_distrib)
  next
    case False
    then show ?thesis using assms(2) by (auto simp: quoted_argument_def Let_def peek_def nat_add_distrib)
  qed
qed

lemma ParseOption_end:
  assumes "well buf" "p_end + 1 < length buf" "1 \<le> p_start"
  shows "option_end debug buf (CmdUtils_ParseOption debug get_option_type buf p_start p_end)"
proof (cases "p_end < p_start \<or> buf ! p_start = CHR ''=''")
  case True
  then show ?thesis using assms(2) by (auto simp: CmdUtils_ParseOption_def peek_def)
next
  case False
  have follow: "\<exists>j. rbind (scan (\<lambda>c. c = BLANK) buf (p_end + 1)) (\<lambda>p_ret. rbind (scan (\<lambda>c. c \<noteq> NUL \<and> c \<noteq> BLANK) buf p_ret)
      (\<lambda>p_ret. Inr (Some (int p_ret - 1)))) = Inr (Some (int j - 1)) \<and> j < length buf"
  proof -
    obtain i where i: "scan (\<lambda>c. c = BLANK) buf (p_end + 1) = Inr i" "i < length buf"
      using scan_ok [OF assms(1) _ assms(2), of "\<lambda>c. c = BLANK"] by auto
    obtain j where "scan (\<lambda>c. c \<noteq> NUL \<and> c \<noteq> BLANK) buf i = Inr j" "j < length buf"
      using scan_ok [OF assms(1) _ i(2), of "\<lambda>c. c \<noteq> NUL \<and> c \<noteq> BLANK"] by auto
    then show ?thesis using i by auto
  qed
  obtain j where j: "scan (\<lambda>c. c \<noteq> NUL \<and> c \<noteq> CHR ''-'') buf p_end = Inr j" "p_end \<le> j" "j < length buf"
    using scan_ok [OF assms(1), of "\<lambda>c. c \<noteq> NUL \<and> c \<noteq> CHR ''-''" p_end] assms(2) by auto
  show ?thesis
    using False quoted_argument_ok [OF assms(1,2), of p_start debug] follow j assms(2,3)
    by (auto simp: CmdUtils_ParseOption_def peek_def nat_diff_distrib split: MG_eOptionType.splits)
qed

text \<open>The loop makes at most one round for the command, one per option and one more.\<close>

lemma parse_loop_safe:
  assumes "well buf" "p < length buf" "p_command \<noteq> None \<Longrightarrow> 1 \<le> p" "length options < MG_MAX_CMD_OPTION_NUM"
    and "MG_MAX_CMD_OPTION_NUM - length options + (if p_command = None then 1 else 0) < fuel"
    and "parse_loop fuel debug f buf p p_command options = Inl e"
  shows "debug \<and> e = AssertFailed"
  using assms
proof (induction fuel arbitrary: buf p p_command options)
  case (Suc fuel)
  obtain q where q: "scan (\<lambda>c. c = BLANK) buf p = Inr q" "p \<le> q" "q < length buf"
    using scan_ok [OF Suc.prems(1) _ Suc.prems(2), of "\<lambda>c. c = BLANK"] by auto
  obtain r where r: "scan (\<lambda>c. c \<noteq> NUL \<and> c \<noteq> BLANK) buf q = Inr r" "q \<le> r" "r < length buf" "buf ! r = NUL \<or> buf ! r = BLANK"
    using scan_ok [OF Suc.prems(1) _ q(3), of "\<lambda>c. c \<noteq> NUL \<and> c \<noteq> BLANK"] by auto
  have "r \<noteq> q" using Suc.prems(6) q r by auto
  show ?case
  proof (cases p_command)
    case None
    have "1 \<le> r" using \<open>r \<noteq> q\<close> r(2) by linarith
    have blank: "buf ! r = BLANK \<Longrightarrow> parse_loop fuel debug f (buf[r := NUL]) (Suc r) (Some q) options = Inl e"
      and nul: "buf ! r \<noteq> BLANK \<Longrightarrow> parse_loop fuel debug f buf r (Some q) options = Inl e"
      using Suc.prems(6) q(1) r None \<open>r \<noteq> q\<close> by (simp_all add: peek_nat)
    have fuel: "MG_MAX_CMD_OPTION_NUM - length options + (if Some q = None then 1 else 0) < fuel"
      using Suc.prems(5) None by simp
    show ?thesis
    proof (cases "buf ! r = BLANK")
      case True
      show ?thesis
        by (rule Suc.IH [OF well_update [OF Suc.prems(1), of r] _ _ Suc.prems(4) fuel blank [OF True]])
          (use True well_nth [OF Suc.prems(1) r(3)] in simp_all)
    next
      case False
      show ?thesis by (rule Suc.IH [OF Suc.prems(1) r(3) _ Suc.prems(4) fuel nul [OF False]]) (use \<open>1 \<le> r\<close> in simp)
    qed
  next
    case (Some c)
    have start: "1 \<le> q" using Suc.prems(3) Some q(2) by fastforce
    have small: "r - 1 + 1 < length buf" "r - 1 + 1 = r" using r \<open>r \<noteq> q\<close> by auto
    note fin = ParseOption_end [OF Suc.prems(1) small(1) start, of debug f]
    show ?thesis
    proof (cases "CmdUtils_ParseOption debug f buf q (r - 1)")
      case (Inl e')
      then show ?thesis using fin Suc.prems(6) q r Some \<open>r \<noteq> q\<close>
        by (auto simp: peek_nat option_end_def MASSERT_MSG_def split: if_splits)
    next
      case (Inr res)
      show ?thesis
      proof (cases res)
        case None
        then show ?thesis using Inr Suc.prems(6) q r Some \<open>r \<noteq> q\<close>
          by (auto simp: peek_nat MASSERT_MSG_def split: if_splits)
      next
        case (Some k)
        let ?k = "nat (k + 1)"
        have k: "0 \<le> k + 1" "?k < length buf" using fin Inr Some by simp_all
        have "buf ! ?k \<noteq> NUL \<Longrightarrow> ?k + 1 < length buf" using well_nth [OF Suc.prems(1) k(2)] by simp
        then show ?thesis using Inr Some \<open>p_command = Some c\<close> Suc.prems q r k \<open>r \<noteq> q\<close> well_update [OF Suc.prems(1), of ?k]
            Suc.IH [of "buf[?k := NUL]" "Suc ?k" "Some c" "options @ [q]"]
          by (auto simp: peek_nat peek_ok MASSERT_MSG_def split: if_splits)
      qed
    qed
  qed
qed simp

text \<open>
  C31. On every command line, whatever the types of its options, the parser returns, once the copy of the line is allocated: it reads and writes
  only inside its copy of the line and ends after at most 66 rounds of its loop; in a debug build it
  may end in a failed assertion instead.
\<close>

theorem parse_returns:
  "(\<exists>r. CmdUtils_ParseCmdLine debug get_option_type cmd_line = Inr r) \<or>
   debug \<and> CmdUtils_ParseCmdLine debug get_option_type cmd_line = Inl AssertFailed"
proof (cases "CmdUtils_ParseCmdLine debug get_option_type cmd_line")
  case (Inl e)
  show ?thesis
  proof (cases get_option_type)
    case None
    then show ?thesis by (auto simp: CmdUtils_ParseCmdLine_def MASSERT_MSG_def)
  next
    case (Some f)
    have "parse_loop (MG_MAX_CMD_OPTION_NUM + 2) debug f (cmd_line @ [NUL]) 0 None [] = Inl e"
      using Inl Some by (auto simp: CmdUtils_ParseCmdLine_def rbind_Inl_iff simp del: parse_loop.simps split: option.splits)
    then have "debug \<and> e = AssertFailed"
      by (rule parse_loop_safe [rotated 5]) (simp_all add: well_def MG_MAX_CMD_OPTION_NUM_def)
    then show ?thesis using Inl by simp
  qed
qed simp

section \<open>Well-formed command lines\<close>

text \<open>The forms of options that the header of the parser documents, with the name of the option first.\<close>

datatype option_form = Single string | Quoted string string | FollowOne string string | FollowMany string string

fun text_of :: "option_form \<Rightarrow> string" where
  "text_of (Single n) = n"
| "text_of (Quoted n v) = n @ CHR ''='' # CHR 0x22 # v @ [CHR 0x22]"
| "text_of (FollowOne n a) = n @ BLANK # a"
| "text_of (FollowMany n a) = n @ BLANK # a"

definition name_ok :: "string \<Rightarrow> bool" where
  "name_ok n \<longleftrightarrow> n \<noteq> [] \<and> hd n = CHR ''-'' \<and> BLANK \<notin> set n \<and> NUL \<notin> set n \<and> CHR ''='' \<notin> set n"

fun form_ok :: "(string \<Rightarrow> MG_eOptionType) \<Rightarrow> option_form \<Rightarrow> bool" where
  "form_ok f (Single n) \<longleftrightarrow> name_ok n \<and> f n = MG_OT_Single"
| "form_ok f (Quoted n v) \<longleftrightarrow> name_ok n \<and> NUL \<notin> set v \<and> CHR 0x22 \<notin> set v"
| "form_ok f (FollowOne n a) \<longleftrightarrow> name_ok n \<and> f n = MG_OT_FollowOne \<and> a \<noteq> [] \<and> NUL \<notin> set a \<and> BLANK \<notin> set a"
| "form_ok f (FollowMany n a) \<longleftrightarrow> name_ok n \<and> last n \<noteq> CHR ''-'' \<and> f n = MG_OT_FollowArbitrary \<and>
     NUL \<notin> set a \<and> CHR ''-'' \<notin> set a"

lemma takeWhile_not: "x \<notin> set xs \<Longrightarrow> takeWhile (\<lambda>c. c \<noteq> x) (xs @ ys) = xs @ takeWhile (\<lambda>c. c \<noteq> x) ys"
  by (induction xs) auto

lemma scan_append:
  "\<forall>c \<in> set xs. P c \<Longrightarrow> \<not> P y \<Longrightarrow> scan P (D @ xs @ y # ys) (length D) = Inr (length D + length xs)"
  by (simp add: scan_def Let_def)

lemma scan_here: "\<not> P y \<Longrightarrow> scan P (D @ y # ys) (length D) = Inr (length D)"
  using scan_append [of "[]" P y D ys] by simp

lemma peek_append: "peek (D @ y # ys) (int (length D)) = Inr y"
  by (simp add: peek_def)

lemma no_quoted:
  assumes "CHR ''='' \<notin> set n" "n \<noteq> []"
  shows "quoted_argument (D @ n @ X) (length D) (length D + length n - 1) = Inr None"
proof -
  have "takeWhile (\<lambda>c. c \<noteq> CHR ''='') (take (length D + length n - 1 - length D) (drop (length D) (D @ n @ X))) = butlast n"
    using assms by (auto simp: takeWhile_eq_all_conv butlast_conv_take dest: in_set_takeD)
  then show ?thesis using assms(2) by (cases n) (simp_all add: quoted_argument_def Let_def)
qed

text \<open>What stands behind an option: the end of the line, or a blank and the next option.\<close>

definition follows :: "string \<Rightarrow> bool" where
  "follows X \<longleftrightarrow> (\<exists>Y. X = NUL # Y) \<or> (\<exists>Y. X = BLANK # CHR ''-'' # Y)"

lemma ParseOption_named:
  assumes "name_ok n"
  shows "CmdUtils_ParseOption debug f (D @ n @ X) (length D) (length D + length n - 1) =
    (case f n of
       MG_OT_Null \<Rightarrow> MASSERT_MSG debug
     | MG_OT_Single \<Rightarrow> Inr (Some (int (length D + length n) - 1))
     | MG_OT_FollowOne \<Rightarrow>
         rbind (scan (\<lambda>c. c = BLANK) (D @ n @ X) (length D + length n)) (\<lambda>p_ret.
         rbind (scan (\<lambda>c. c \<noteq> NUL \<and> c \<noteq> BLANK) (D @ n @ X) p_ret) (\<lambda>p_ret. Inr (Some (int p_ret - 1))))
     | MG_OT_FollowArbitrary \<Rightarrow>
         rbind (scan (\<lambda>c. c \<noteq> NUL \<and> c \<noteq> CHR ''-'') (D @ n @ X) (length D + length n - 1)) (\<lambda>p_ret.
         rbind (peek (D @ n @ X) (int p_ret)) (\<lambda>c.
         Inr (Some (if c = CHR ''-'' then int p_ret - 2 else int p_ret - 1))))
     | MG_OT_WithArug \<Rightarrow> Inr (Some (int (length D + length n) - 1)))"
proof -
  have n: "n \<noteq> []" "hd n \<noteq> CHR ''=''" "CHR ''='' \<notin> set n" using assms by (auto simp: name_ok_def)
  have "peek (D @ n @ X) (int (length D)) = Inr (hd n)" using n(1) by (cases n) (auto simp: peek_def)
  then show ?thesis
    using n no_quoted [OF n(3,1), of D X]
    by (cases n) (auto simp: CmdUtils_ParseOption_def split: MG_eOptionType.splits)
qed

lemma follow_one_end:
  assumes "a \<noteq> []" "NUL \<notin> set a" "BLANK \<notin> set a" "follows X"
  shows "rbind (scan (\<lambda>c. c = BLANK) (D @ n @ BLANK # a @ X) (length D + length n)) (\<lambda>p_ret.
    rbind (scan (\<lambda>c. c \<noteq> NUL \<and> c \<noteq> BLANK) (D @ n @ BLANK # a @ X) p_ret) (\<lambda>p_ret. Inr (Some (int p_ret - 1)))) =
    Inr (Some (int (length D + length n + length a)))"
proof -
  obtain c cs where a: "a = c # cs" using assms(1) by (cases a) auto
  obtain x Y where X: "X = x # Y" "x = NUL \<or> x = BLANK" using assms(4) by (auto simp: follows_def)
  have "scan (\<lambda>c. c = BLANK) (D @ n @ BLANK # a @ X) (length D + length n) = Inr (length D + length n + 1)"
    using scan_append [of "[BLANK]" "\<lambda>c. c = BLANK" c "D @ n" "cs @ X"] a assms(3) by auto
  moreover have "scan (\<lambda>c. c \<noteq> NUL \<and> c \<noteq> BLANK) (D @ n @ BLANK # a @ X) (length D + length n + 1) = Inr (length D + length n + 1 + length a)"
    using scan_append [of a "\<lambda>c. c \<noteq> NUL \<and> c \<noteq> BLANK" x "D @ n @ [BLANK]" Y] assms(2,3) X by auto
  ultimately show ?thesis by simp
qed

lemma follow_many_end:
  assumes "name_ok n" "last n \<noteq> CHR ''-''" "NUL \<notin> set a" "CHR ''-'' \<notin> set a" "follows X"
  shows "rbind (scan (\<lambda>c. c \<noteq> NUL \<and> c \<noteq> CHR ''-'') (D @ n @ BLANK # a @ X) (length D + length n - 1)) (\<lambda>p_ret.
    rbind (peek (D @ n @ BLANK # a @ X) (int p_ret)) (\<lambda>c. Inr (Some (if c = CHR ''-'' then int p_ret - 2 else int p_ret - 1)))) =
    Inr (Some (int (length D + length n + length a)))"
proof -
  let ?P = "\<lambda>c. c \<noteq> NUL \<and> c \<noteq> CHR ''-''"
  obtain m z where n: "n = m @ [z]" "?P z" using assms(1,2) by (cases n rule: rev_cases) (auto simp: name_ok_def)
  have start: "length D + length n - 1 = length (D @ m)" using n(1) by simp
  show ?thesis
  proof (cases "\<exists>Y. X = NUL # Y")
    case True
    then obtain Y where X: "X = NUL # Y" by blast
    have buf: "D @ n @ BLANK # a @ X = (D @ m) @ (z # BLANK # a) @ NUL # Y" using n(1) X by simp
    have "scan ?P ((D @ m) @ (z # BLANK # a) @ NUL # Y) (length (D @ m)) = Inr (length (D @ m) + length (z # BLANK # a))"
      using n(2) assms(3,4) by (intro scan_append) auto
    moreover have "peek ((D @ m) @ (z # BLANK # a) @ NUL # Y) (int (length (D @ m) + length (z # BLANK # a))) = Inr NUL"
      using peek_append [of "(D @ m) @ (z # BLANK # a)" NUL Y] by simp
    ultimately show ?thesis unfolding buf start using n(1) by simp
  next
    case False
    then obtain Y where X: "X = BLANK # CHR ''-'' # Y" using assms(5) by (auto simp: follows_def)
    have buf: "D @ n @ BLANK # a @ X = (D @ m) @ (z # BLANK # a @ [BLANK]) @ CHR ''-'' # Y" using n(1) X by simp
    have "scan ?P ((D @ m) @ (z # BLANK # a @ [BLANK]) @ CHR ''-'' # Y) (length (D @ m)) = Inr (length (D @ m) + length (z # BLANK # a @ [BLANK]))"
      using n(2) assms(3,4) by (intro scan_append) auto
    moreover have "peek ((D @ m) @ (z # BLANK # a @ [BLANK]) @ CHR ''-'' # Y) (int (length (D @ m) + length (z # BLANK # a @ [BLANK]))) = Inr (CHR ''-'')"
      using peek_append [of "(D @ m) @ (z # BLANK # a @ [BLANK])" "CHR ''-''" Y] by simp
    ultimately show ?thesis unfolding buf start using n(1) by simp
  qed
qed

lemma quoted_end:
  assumes "name_ok n" "NUL \<notin> set v" "CHR 0x22 \<notin> set v" "length D + length n < p_end"
  shows "quoted_argument (D @ (n @ CHR ''='' # CHR 0x22 # v @ [CHR 0x22]) @ X) (length D) p_end =
    Inr (Some (Some (int (length D + length n + length v + 2))))"
proof -
  let ?buf = "D @ (n @ CHR ''='' # CHR 0x22 # v @ [CHR 0x22]) @ X"
  have "takeWhile (\<lambda>c. c \<noteq> CHR ''='') (take (p_end - length D) (drop (length D) ?buf)) = n"
  proof -
    obtain k where "p_end = length D + length n + Suc k" using less_imp_Suc_add [OF assms(4)] by auto
    then have k: "p_end - length D = length n + Suc k" by simp
    have "\<forall>c \<in> set n. c \<noteq> CHR ''=''" using assms(1) by (auto simp: name_ok_def)
    then show ?thesis unfolding k by (simp add: takeWhile_append2)
  qed
  moreover have "peek ?buf (int (length D + length n) + 1) = Inr (CHR 0x22)"
    using peek_append [of "D @ n @ [CHR ''='']" "CHR 0x22" "v @ [CHR 0x22] @ X"] by (simp add: add.commute)
  moreover have "scan (\<lambda>c. c \<noteq> NUL \<and> c \<noteq> CHR 0x22) ?buf (length D + length n + 2) = Inr (length D + length n + 2 + length v)"
    using scan_append [of v "\<lambda>c. c \<noteq> NUL \<and> c \<noteq> CHR 0x22" "CHR 0x22" "D @ n @ [CHR ''='', CHR 0x22]" X] assms(2,3) by auto
  moreover have "peek ?buf (int (length D + length n + 2 + length v)) = Inr (CHR 0x22)"
    using peek_append [of "D @ n @ CHR ''='' # CHR 0x22 # v" "CHR 0x22" X] by (simp add: add_ac)
  ultimately show ?thesis using assms(4) by (simp add: quoted_argument_def Let_def add_ac)
qed

lemma form_start: "form_ok f fo \<Longrightarrow> \<exists>cs. text_of fo = CHR ''-'' # cs" "form_ok f fo \<Longrightarrow> NUL \<notin> set (text_of fo)"
  by (cases fo; auto simp: name_ok_def neq_Nil_conv)+

definition word :: "string \<Rightarrow> string" where
  "word s = takeWhile (\<lambda>c. c \<noteq> BLANK) s"

lemma ParseOption_form:
  assumes "form_ok f fo" "follows X"
  shows "CmdUtils_ParseOption debug f (D @ text_of fo @ X) (length D) (length D + length (word (text_of fo)) - 1) =
    Inr (Some (int (length D + length (text_of fo)) - 1))"
proof (cases fo)
  case (Single n)
  then have "word n = n" using assms(1) by (auto simp: word_def name_ok_def takeWhile_eq_all_conv)
  then show ?thesis using Single assms(1) ParseOption_named [of n debug f D X] by simp
next
  case (Quoted n v)
  let ?buf = "D @ text_of fo @ X" and ?e = "length D + length (word (text_of fo)) - 1"
  have n: "name_ok n" "n \<noteq> []" "hd n \<noteq> CHR ''=''" using Quoted assms(1) by (auto simp: name_ok_def)
  have "\<forall>c \<in> set n. c \<noteq> BLANK" using n(1) by (auto simp: name_ok_def)
  then have "word (text_of fo) = n @ CHR ''='' # CHR 0x22 # word (v @ [CHR 0x22])"
    using Quoted by (simp add: word_def takeWhile_append2)
  then have e: "length D + length n < ?e" by simp
  have "peek ?buf (int (length D)) = Inr (hd n)" using n(2) Quoted by (cases n) (auto simp: peek_def)
  then show ?thesis
    using quoted_end [OF n(1) _ _ e, of v X] assms(1) Quoted n(3) e by (simp add: CmdUtils_ParseOption_def)
next
  case (FollowOne n a)
  have n: "name_ok n" "word (n @ BLANK # a) = n" using FollowOne assms(1) by (auto simp: word_def name_ok_def takeWhile_not)
  show ?thesis using ParseOption_named [OF n(1), of debug f D "BLANK # a @ X"] follow_one_end [OF _ _ _ assms(2), of a D n] n(2) FollowOne assms(1)
    by simp
next
  case (FollowMany n a)
  have n: "name_ok n" "word (n @ BLANK # a) = n" using FollowMany assms(1) by (auto simp: word_def name_ok_def takeWhile_not)
  show ?thesis using ParseOption_named [OF n(1), of debug f D "BLANK # a @ X"] follow_many_end [OF n(1) _ _ _ assms(2), of a D] n(2) FollowMany assms(1)
    by simp
qed

text \<open>The character that ends the first word of an option.\<close>

lemma word_end:
  assumes "NUL \<notin> set s" "follows X"
  shows "\<exists>c. scan (\<lambda>c. c \<noteq> NUL \<and> c \<noteq> BLANK) (D @ s @ X) (length D) = Inr (length D + length (word s)) \<and>
    peek (D @ s @ X) (int (length D + length (word s))) = Inr c \<and> (c = NUL \<longleftrightarrow> word s = s \<and> hd X = NUL)"
proof -
  let ?t = "dropWhile (\<lambda>c. c \<noteq> BLANK) s"
  have s: "s = word s @ ?t" by (simp add: word_def)
  have w: "\<forall>c \<in> set (word s). c \<noteq> NUL \<and> c \<noteq> BLANK" using assms(1) by (auto simp: word_def dest: set_takeWhileD)
  show ?thesis
  proof (cases ?t)
    case Nil
    then have "word s = s" using s by (metis append_Nil2)
    obtain x Y where X: "X = x # Y" "x = NUL \<or> x = BLANK" using assms(2) by (auto simp: follows_def)
    then show ?thesis using scan_append [of s "\<lambda>c. c \<noteq> NUL \<and> c \<noteq> BLANK" x D Y] w \<open>word s = s\<close> peek_append [of "D @ s" x Y]
      by auto
  next
    case (Cons c cs)
    then have "c = BLANK" using hd_dropWhile [of "\<lambda>c. c \<noteq> BLANK" s] by simp
    have buf: "D @ s @ X = D @ word s @ BLANK # cs @ X" using s Cons \<open>c = BLANK\<close> by (metis append.assoc append_Cons)
    have "word s \<noteq> s" using s Cons by (metis append_self_conv list.distinct(1))
    then show ?thesis unfolding buf
      using scan_append [of "word s" "\<lambda>c. c \<noteq> NUL \<and> c \<noteq> BLANK" BLANK D "cs @ X"] w peek_append [of "D @ word s" BLANK "cs @ X"] by auto
  qed
qed

lemma text_at_here: "NUL \<notin> set s \<Longrightarrow> text_at (D @ s @ NUL # Y) (length D) = s"
  by (simp add: text_at_def takeWhile_not)

lemma text_at_prefix:
  assumes "take (length (D @ s @ [NUL])) buf = D @ s @ [NUL]" "NUL \<notin> set s"
  shows "text_at buf (length D) = s"
proof -
  have "buf = D @ s @ NUL # drop (length (D @ s @ [NUL])) buf"
    using assms(1) append_take_drop_id [of "length (D @ s @ [NUL])" buf] by (metis append.assoc append_Cons append_Nil)
  then show ?thesis using text_at_here [OF assms(2)] by metis
qed

lemma join_Cons: "os \<noteq> [] \<Longrightarrow> join_args (a # os) = a @ BLANK # join_args os"
  by (cases os) simp_all

lemma parse_options:
  assumes "\<forall>fo \<in> set fos. form_ok f fo" "fos \<noteq> []" "length options + length fos \<le> 63" "length fos < fuel"
  shows "\<exists>buf' starts. parse_loop fuel debug f (D @ join_args (map text_of fos) @ [NUL]) (length D) (Some c) options =
      Inr (Some (buf', Some c, options @ starts)) \<and>
    map (text_at buf') starts = map text_of fos \<and> take (length D) buf' = D"
  using assms
proof (induction fos arbitrary: D options fuel)
  case (Cons fo fos)
  obtain k where k: "fuel = Suc k" using Cons.prems(4) by (cases fuel) auto
  let ?s = "text_of fo"
  define X where "X = (if fos = [] then [NUL] else BLANK # join_args (map text_of fos) @ [NUL])"
  have ok: "form_ok f fo" using Cons.prems(1) by simp
  have buf: "D @ join_args (map text_of (fo # fos)) @ [NUL] = D @ ?s @ X"
    by (cases "fos = []") (simp_all add: X_def join_Cons)
  have X: "follows X"
  proof (cases fos)
    case (Cons fo' fos')
    then obtain cs where "text_of fo' = CHR ''-'' # cs" using Cons.prems(1) form_start(1) [of f fo'] by auto
    then show ?thesis using Cons by (cases fos') (auto simp: X_def follows_def)
  qed (simp add: X_def follows_def)
  obtain cs where s: "?s = CHR ''-'' # cs" "NUL \<notin> set ?s" using form_start [OF ok] by blast
  have q: "scan (\<lambda>c. c = BLANK) (D @ ?s @ X) (length D) = Inr (length D)"
    unfolding s(1) append_Cons by (rule scan_here) simp
  obtain ch where w: "scan (\<lambda>c. c \<noteq> NUL \<and> c \<noteq> BLANK) (D @ ?s @ X) (length D) = Inr (length D + length (word ?s))"
    "peek (D @ ?s @ X) (int (length D + length (word ?s))) = Inr ch" "ch = NUL \<longleftrightarrow> word ?s = ?s \<and> hd X = NUL"
    using word_end [OF s(2) X, of D] by blast
  have ne: "word ?s \<noteq> []" by (simp add: s(1) word_def)
  note parsed = ParseOption_form [OF ok X, of debug D]
  have few: "length options \<noteq> MG_MAX_CMD_OPTION_NUM - 1" using Cons.prems(3) by (simp add: MG_MAX_CMD_OPTION_NUM_def)
  have pk: "peek (D @ ?s @ X) (int (length D + length ?s)) = Inr (hd X)"
    using peek_append [of "D @ ?s" "hd X" "tl X"] X by (auto simp: follows_def)
  define m where "m = length D + length ?s"
  have m: "length D < m" by (simp add: m_def s(1))
  have step: "parse_loop fuel debug f (D @ ?s @ X) (length D) (Some c) options =
      (if hd X = NUL then Inr (Some (D @ ?s @ X, Some c, options @ [length D]))
       else parse_loop k debug f ((D @ ?s @ X)[length D + length ?s := NUL]) (length D + length ?s + 1) (Some c) (options @ [length D]))"
    using q w ne few parsed [folded m_def] pk [folded m_def] m unfolding m_def [symmetric] by (auto simp: k)
  show ?case
  proof (cases "fos = []")
    case True
    then have "X = [NUL]" by (simp add: X_def)
    then show ?thesis unfolding buf step using True text_at_here [OF s(2), of D "[]"]
      by (intro exI [of _ "D @ ?s @ X"] exI [of _ "[length D]"]) simp
  next
    case False
    let ?D = "D @ ?s @ [NUL]"
    have X': "X = BLANK # join_args (map text_of fos) @ [NUL]" using False by (simp add: X_def)
    have "(D @ ?s @ X)[length D + length ?s := NUL] = ?D @ join_args (map text_of fos) @ [NUL]"
      by (simp add: X' list_update_append)
    then have "parse_loop fuel debug f (D @ ?s @ X) (length D) (Some c) options =
        parse_loop k debug f (?D @ join_args (map text_of fos) @ [NUL]) (length ?D) (Some c) (options @ [length D])"
      unfolding step by (simp add: X')
    moreover obtain buf' starts where IH: "parse_loop k debug f (?D @ join_args (map text_of fos) @ [NUL]) (length ?D) (Some c) (options @ [length D]) =
        Inr (Some (buf', Some c, (options @ [length D]) @ starts))" "map (text_at buf') starts = map text_of fos" "take (length ?D) buf' = ?D"
      using Cons.IH [of "options @ [length D]" k ?D] Cons.prems False k by auto
    moreover have "text_at buf' (length D) = ?s" by (rule text_at_prefix [OF IH(3) s(2)])
    moreover have "take (length D) buf' = D" using arg_cong [OF IH(3), of "take (length D)"] by (simp add: min_def)
    ultimately show ?thesis unfolding buf by (intro exI [of _ buf'] exI [of _ "length D # starts"]) simp
  qed
qed simp

text \<open>
  C18. A command line made of a command and at most 63 options of the documented forms (a single option,
  one with a quoted text, one followed by one argument, one followed by any number) reaches the
  callback as the command and exactly these options, in debug and in release builds, provided that
  the names hold no blank and no equals sign and have the type of their form, a quoted text holds no
  quotation mark, a single argument no blank, and the arguments of an option with any number of them
  no hyphen. The header documents no such limit for hyphens; one inside such an argument cuts it,
  as \<open>hyphen_cuts_argument\<close> below shows.
\<close>

theorem command_line_roundtrip:
  assumes "cmd \<noteq> []" "BLANK \<notin> set cmd" "NUL \<notin> set cmd" "\<forall>fo \<in> set fos. form_ok f fo" "length fos \<le> 63"
  shows "CmdUtils_ParseCmdLine debug (Some f) (join_args (cmd # map text_of fos)) = Inr (Some (Some cmd, map text_of fos))"
proof -
  obtain c cs where c: "cmd = c # cs" "c \<noteq> BLANK" "\<forall>x \<in> set cmd. x \<noteq> NUL \<and> x \<noteq> BLANK"
    using assms(1-3) by (cases cmd) auto
  have q: "scan (\<lambda>c. c = BLANK) (cmd @ X) 0 = Inr 0" for X
    using scan_here [of "\<lambda>c. c = BLANK" c "[]" "cs @ X"] c by simp
  have w: "x = NUL \<or> x = BLANK \<Longrightarrow> scan (\<lambda>c. c \<noteq> NUL \<and> c \<noteq> BLANK) (cmd @ x # X) 0 = Inr (length cmd)" for x X
    using scan_append [of cmd "\<lambda>c. c \<noteq> NUL \<and> c \<noteq> BLANK" x "[]" X] c(3) by auto
  show ?thesis
  proof (cases "fos = []")
    case True
    have "parse_loop (Suc (Suc n)) debug f (cmd @ [NUL]) 0 None [] = Inr (Some (cmd @ [NUL], Some 0, []))" for n
      using q [of "[NUL]"] w [of NUL "[]"] assms(1) peek_append [of cmd NUL "[]"] scan_here [of "\<lambda>c. c = BLANK" NUL cmd "[]"]
        scan_here [of "\<lambda>c. c \<noteq> NUL \<and> c \<noteq> BLANK" NUL cmd "[]"] by simp
    then have "parse_loop (MG_MAX_CMD_OPTION_NUM + 2) debug f (cmd @ [NUL]) 0 None [] = Inr (Some (cmd @ [NUL], Some 0, []))"
      by (simp only: add_2_eq_Suc')
    then show ?thesis using True text_at_here [OF assms(3), of "[]" "[]"] by (simp add: CmdUtils_ParseCmdLine_def del: parse_loop.simps)
  next
    case False
    let ?D = "cmd @ [NUL]" and ?J = "join_args (map text_of fos) @ [NUL]"
    obtain buf' starts where p: "parse_loop 65 debug f (?D @ ?J) (length ?D) (Some 0) [] = Inr (Some (buf', Some 0, [] @ starts))"
      "map (text_at buf') starts = map text_of fos" "take (length ?D) buf' = ?D"
      using parse_options [OF assms(4) False, of "[]" 65 debug ?D 0] assms(5) by auto
    have "parse_loop (Suc n) debug f (cmd @ BLANK # ?J) 0 None [] = parse_loop n debug f (?D @ ?J) (length ?D) (Some 0) []" for n
      using q [of "BLANK # ?J"] w [of BLANK ?J] assms(1) peek_append [of cmd BLANK ?J] by (simp add: list_update_append)
    from this [of 65] have "parse_loop (MG_MAX_CMD_OPTION_NUM + 2) debug f (cmd @ BLANK # ?J) 0 None [] = Inr (Some (buf', Some 0, starts))"
      using p(1) by (simp add: MG_MAX_CMD_OPTION_NUM_def del: parse_loop.simps)
    moreover have "text_at buf' 0 = cmd" using text_at_prefix [of "[]" cmd buf'] p(3) assms(3) by simp
    ultimately show ?thesis using False p(2)
      by (simp add: CmdUtils_ParseCmdLine_def join_Cons del: parse_loop.simps)
  qed
qed

definition sample_forms :: "option_form list" where
  "sample_forms = [FollowOne ''--Mode'' ''Test'', Single ''--OpenGL'', FollowMany ''-i'' ''file1 file2 file3'',
     Quoted ''-o'' ''out1 out2 out3'']"

theorem command_line_roundtrip_witness:
  "CmdUtils_ParseCmdLine True (Some ParseOption_test) (join_args (''Test_CmdUtils'' # map text_of sample_forms)) =
    Inr (Some (Some ''Test_CmdUtils'', map text_of sample_forms))"
  using command_line_roundtrip [of "''Test_CmdUtils''" sample_forms ParseOption_test True]
  by (simp add: sample_forms_def name_ok_def ParseOption_test_def)

text \<open>
  A hyphen inside an argument of an option with any number of arguments cuts it: the character before
  the hyphen is lost, and the rest is taken for the next option.
\<close>

theorem hyphen_cuts_argument:
  "CmdUtils_ParseCmdLine debug (Some (\<lambda>name. if name = ''-i'' then MG_OT_FollowArbitrary else MG_OT_Single)) ''cp -i file-1'' =
    Inr (Some (Some ''cp'', [''-i fil'', ''-1'']))"
  by (simp add: CmdUtils_ParseCmdLine_def CmdUtils_ParseOption_def quoted_argument_def MG_MAX_CMD_OPTION_NUM_def scan_def peek_def
      text_at_def eval_nat_numeral)

end
