(* ===== verification/BevServers.thy ===== *)
theory BevServers
  imports PeerClients
begin

text \<open>
  The servers and the client of src/use/c/use-libevent_2.1.8/src that work on bufferevents directly: echo_server.c, time_server.c and
  simple_client.c.

  A bufferevent is a \<open>conn\<close>: its socket, its two buffers, and what has passed over the socket in both directions. What libevent and
  the network do is the event type \<open>serv_ev\<close>; \<open>serv_legal\<close> says when an event can happen (never on a bufferevent that was freed). The
  servers keep all live bufferevents and all open sockets; using a freed bufferevent or closing a socket twice is a fault.
\<close>

unbundle bit_operations_syntax

section \<open>Bufferevents\<close>

record conn =
  cn_fd :: int
  cn_in :: bytes
  cn_out :: bytes
  cn_wire :: bytes    \<comment> \<open>what was sent over the socket\<close>
  cn_got :: bytes     \<comment> \<open>what has arrived from the socket\<close>
  cn_reads :: bool    \<comment> \<open>\<open>EV_READ\<close> is enabled\<close>
  cn_high :: nat      \<comment> \<open>high-water mark for reading, 0 for none\<close>

definition new_conn :: "int \<Rightarrow> bool \<Rightarrow> nat \<Rightarrow> conn" where
  "new_conn fd reads high = \<lparr>cn_fd = fd, cn_in = [], cn_out = [], cn_wire = [], cn_got = [], cn_reads = reads, cn_high = high\<rparr>"

definition bufferevent_write :: "bytes \<Rightarrow> conn \<Rightarrow> conn" where
  "bufferevent_write bs c = c\<lparr>cn_out := cn_out c @ bs\<rparr>"

definition conn_arrive :: "bytes \<Rightarrow> conn \<Rightarrow> conn" where
  "conn_arrive bs c = c\<lparr>cn_in := cn_in c @ bs, cn_got := cn_got c @ bs\<rparr>"

definition conn_sent :: "nat \<Rightarrow> conn \<Rightarrow> conn" where
  "conn_sent n c = c\<lparr>cn_out := drop n (cn_out c), cn_wire := cn_wire c @ take n (cn_out c)\<rparr>"

definition can_arrive :: "bytes \<Rightarrow> conn \<Rightarrow> bool" where
  "can_arrive bs c \<longleftrightarrow> cn_reads c \<and> (cn_high c = 0 \<or> length (cn_in c) + length bs \<le> cn_high c)"

section \<open>Servers\<close>

record srv =
  s_conns :: "nat \<Rightarrow> conn option"
  s_next :: nat
  s_fds :: "int list"
  s_closed :: "conn list"
  s_print :: "string list"

definition serv_bev_free :: "nat \<Rightarrow> srv \<Rightarrow> srv result" where
  "serv_bev_free bev s =
     (case s_conns s bev of
        None \<Rightarrow> Inl UseAfterFree
      | Some c \<Rightarrow>
          rbind (release (cn_fd c) (s_fds s)) (\<lambda>fds.
          Inr (s\<lparr>s_conns := (s_conns s)(bev := None), s_fds := fds, s_closed := c # s_closed s\<rparr>)))"

definition on_conn :: "nat \<Rightarrow> (conn \<Rightarrow> conn) \<Rightarrow> srv \<Rightarrow> srv result" where
  "on_conn bev f s =
     (case s_conns s bev of None \<Rightarrow> Inl UseAfterFree | Some c \<Rightarrow> Inr (s\<lparr>s_conns := (s_conns s)(bev \<mapsto> f c)\<rparr>))"

definition print_line :: "string \<Rightarrow> srv \<Rightarrow> srv" where
  "print_line t s = s\<lparr>s_print := s_print s @ [t]\<rparr>"

text \<open>The outcome of \<open>accept\<close>, with whether \<open>bufferevent_socket_new\<close> succeeds and what \<open>evutil_gettimeofday\<close> says afterwards.\<close>

datatype accept_res = AcceptFailed | Accepted int sockaddr bool "(int \<times> int) option"

definition add_conn :: "conn \<Rightarrow> srv \<Rightarrow> srv" where
  "add_conn c s = s\<lparr>s_conns := (s_conns s)(s_next s \<mapsto> c), s_next := s_next s + 1, s_fds := cn_fd c # s_fds s\<rparr>"

datatype serv_ev = Accept accept_res | Arrive nat bytes | ReadReady nat | Sent nat nat | WriteDone nat | BevEvent nat u16

subsection \<open>The echo server\<close>

definition serv_readcb :: "nat \<Rightarrow> srv \<Rightarrow> srv result" where
  "serv_readcb bev = on_conn bev (\<lambda>c. c\<lparr>cn_in := [], cn_out := echo_readcb (cn_in c) (cn_out c)\<rparr>)"

definition errorcb :: "nat \<Rightarrow> u16 \<Rightarrow> srv \<Rightarrow> srv result" where
  "errorcb bev error s =
     (let s = (if error AND BEV_EVENT_EOF \<noteq> 0 then print_line ''event eof'' s
               else if error AND BEV_EVENT_ERROR \<noteq> 0 then print_line ''event error'' s
               else if error AND BEV_EVENT_TIMEOUT \<noteq> 0 then print_line ''event timeout'' s
               else s) in
      serv_bev_free bev s)"

definition echo_do_accept :: "env \<Rightarrow> accept_res \<Rightarrow> srv \<Rightarrow> srv result" where
  "echo_do_accept E r s =
     (case r of
        AcceptFailed \<Rightarrow> Inr (print_line ''accept'' s)
      | Accepted fd ss ok tv \<Rightarrow>
          if \<not> ok then Inl NullDeref
          else Inr (print_line (''client connected: '' @ get_sockaddr_port E ss 128) (add_conn (new_conn fd True (1024 * 1024 * 2)) s)))"

text \<open>No write callback is set.\<close>

fun echo_serve :: "env \<Rightarrow> serv_ev \<Rightarrow> srv \<Rightarrow> srv result" where
  "echo_serve E (Accept r) s = echo_do_accept E r s"
| "echo_serve E (Arrive bev bs) s = on_conn bev (conn_arrive bs) s"
| "echo_serve E (ReadReady bev) s = serv_readcb bev s"
| "echo_serve E (Sent bev n) s = on_conn bev (conn_sent n) s"
| "echo_serve E (WriteDone bev) s = Inr s"
| "echo_serve E (BevEvent bev ev) s = errorcb bev ev s"

subsection \<open>The time server\<close>

definition time_writecb :: "nat \<Rightarrow> srv \<Rightarrow> srv result" where
  "time_writecb bev s =
     (case s_conns s bev of
        None \<Rightarrow> Inl UseAfterFree
      | Some c \<Rightarrow> if length (cn_out c) = 0 then serv_bev_free bev s else Inr s)"

definition time_text :: "string \<Rightarrow> int \<times> int \<Rightarrow> bytes" where
  "time_text label tv = str_bytes (take 255 (label @ deci (fst tv) @ ''.'' @ pad0 6 (deci (snd tv)) @ ''\<newline>''))"

definition time_do_accept :: "accept_res \<Rightarrow> srv \<Rightarrow> srv result" where
  "time_do_accept r s =
     (case r of
        AcceptFailed \<Rightarrow> Inr (print_line ''accept'' s)
      | Accepted fd ss ok tv \<Rightarrow>
          if \<not> ok then Inl NullDeref
          else
            let c = new_conn fd False 0;
                c = (case tv of None \<Rightarrow> c | Some t \<Rightarrow> bufferevent_write (time_text [] t) c) in
            Inr (add_conn c s))"

text \<open>Neither a read nor an event callback is set.\<close>

fun time_serve :: "serv_ev \<Rightarrow> srv \<Rightarrow> srv result" where
  "time_serve (Accept r) s = time_do_accept r s"
| "time_serve (Arrive bev bs) s = on_conn bev (conn_arrive bs) s"
| "time_serve (ReadReady bev) s = Inr s"
| "time_serve (Sent bev n) s = on_conn bev (conn_sent n) s"
| "time_serve (WriteDone bev) s = time_writecb bev s"
| "time_serve (BevEvent bev ev) s = Inr s"

subsection \<open>Starting\<close>

text \<open>
  \<open>run\<close> of both servers up to the loop. The results are whether it got there and the sockets that are open then; what fails is an
  argument. The event for the listener is not tested.
\<close>

record start_res =
  ok_base :: bool
  ok_listener :: int
  ok_bind :: bool
  ok_listen :: bool
  ok_event :: bool

definition idle_srv :: "int list \<Rightarrow> srv" where
  "idle_srv fds = \<lparr>s_conns = (\<lambda>_. None), s_next = 0, s_fds = fds, s_closed = [], s_print = []\<rparr>"

definition server_run :: "start_res \<Rightarrow> (bool \<times> srv) result" where
  "server_run R =
     (if \<not> ok_base R then Inr (False, print_line ''Failed in event_base_new()'' (idle_srv []))
      else
        let s = idle_srv (if ok_listener R < 0 then [] else [ok_listener R]) in
        if ok_listener R < 0 \<or> \<not> ok_bind R then Inr (False, print_line ''bind'' s)
        else if \<not> ok_listen R then Inr (False, print_line ''listen'' s)
        else if \<not> ok_event R then Inl NullDeref
        else Inr (True, s))"

fun serve_all :: "(serv_ev \<Rightarrow> srv \<Rightarrow> srv result) \<Rightarrow> serv_ev list \<Rightarrow> srv \<Rightarrow> srv result" where
  "serve_all serve [] s = Inr s"
| "serve_all serve (e # es) s = rbind (serve e s) (serve_all serve es)"

definition echo_main :: "env \<Rightarrow> start_res \<Rightarrow> serv_ev list \<Rightarrow> srv result" where
  "echo_main E R es = rbind (server_run R) (\<lambda>(ok, s). if ok then serve_all (echo_serve E) es s else Inr s)"

definition time_main :: "start_res \<Rightarrow> serv_ev list \<Rightarrow> srv result" where
  "time_main R es = rbind (server_run R) (\<lambda>(ok, s). if ok then serve_all time_serve es s else Inr s)"

section \<open>What every server keeps\<close>

text \<open>When libevent and the system can produce an event: a new socket was not open, and a bufferevent is still there.\<close>

fun serv_legal :: "serv_ev \<Rightarrow> srv \<Rightarrow> bool" where
  "serv_legal (Accept AcceptFailed) s = True"
| "serv_legal (Accept (Accepted fd ss ok tv)) s = (ok \<and> fd \<notin> set (s_fds s))"
| "serv_legal (Arrive bev bs) s = (case s_conns s bev of None \<Rightarrow> False | Some c \<Rightarrow> can_arrive bs c)"
| "serv_legal (ReadReady bev) s = (s_conns s bev \<noteq> None)"
| "serv_legal (Sent bev n) s = (case s_conns s bev of None \<Rightarrow> False | Some c \<Rightarrow> n \<le> length (cn_out c))"
| "serv_legal (WriteDone bev) s = (s_conns s bev \<noteq> None)"
| "serv_legal (BevEvent bev ev) s = (s_conns s bev \<noteq> None)"

text \<open>
  The sockets that are open are the listener's and one for each live bufferevent; \<open>good\<close> holds of the live bufferevents, \<open>closed\<close> of
  those that were freed.
\<close>

definition owns :: "int \<Rightarrow> int list \<Rightarrow> (nat \<Rightarrow> int option) \<Rightarrow> bool" where
  "owns L fds m \<longleftrightarrow> distinct fds \<and> set fds = insert L (ran m) \<and> L \<notin> ran m \<and> inj_on m (dom m)"

lemma owns_add:
  assumes "owns L fds m" "m i = None" "fd \<notin> set fds"
  shows "owns L (fd # fds) (m(i \<mapsto> fd))"
proof -
  have fresh: "m j \<noteq> Some fd" for j using assms(1,3) ranI [of m j fd] by (auto simp: owns_def)
  have inj: "inj_on m (dom m)" using assms(1) by (simp add: owns_def)
  have "inj_on (m(i \<mapsto> fd)) (dom (m(i \<mapsto> fd)))"
  proof (rule inj_onI)
    fix x y assume "x \<in> dom (m(i \<mapsto> fd))" "y \<in> dom (m(i \<mapsto> fd))" "(m(i \<mapsto> fd)) x = (m(i \<mapsto> fd)) y"
    then show "x = y" using inj_onD [OF inj, of x y] fresh [of x] fresh [of y] by (cases "x = i"; cases "y = i") simp_all
  qed
  then show ?thesis using assms by (simp add: owns_def insert_commute)
qed

lemma owns_remove:
  assumes "owns L fds m" "m i = Some fd"
  shows "owns L (remove1 fd fds) (m(i := None))"
proof -
  have inj: "inj_on m (dom m)" and L: "L \<notin> ran m" using assms(1) by (simp_all add: owns_def)
  have "fd \<in> ran m" using assms(2) by (rule ranI)
  have only: "j = i" if "m j = Some fd" for j using inj_onD [OF inj, of j i] that assms(2) by (simp add: domIff)
  have "x \<in> ran (m(i := None)) \<longleftrightarrow> x \<in> ran m - {fd}" for x
  proof
    assume "x \<in> ran (m(i := None))"
    then obtain j where "m j = Some x" "j \<noteq> i" by (auto simp: ran_def split: if_splits)
    then show "x \<in> ran m - {fd}" using only ranI by fastforce
  next
    assume "x \<in> ran m - {fd}"
    then obtain j where "m j = Some x" "x \<noteq> fd" by (auto simp: ran_def)
    then have "(m(i := None)) j = Some x" using assms(2) by auto
    then show "x \<in> ran (m(i := None))" by (rule ranI)
  qed
  then have "ran (m(i := None)) = ran m - {fd}" by (rule set_eqI)
  moreover have "inj_on (m(i := None)) (dom (m(i := None)))"
  proof (rule inj_onI)
    fix x y assume "x \<in> dom (m(i := None))" "y \<in> dom (m(i := None))" "(m(i := None)) x = (m(i := None)) y"
    then show "x = y" using inj_onD [OF inj, of x y] by (cases "x = i"; cases "y = i") simp_all
  qed
  moreover have "fd \<noteq> L" using L \<open>fd \<in> ran m\<close> by auto
  ultimately show ?thesis using assms(1) L by (simp add: owns_def insert_Diff_if)
qed

definition sockets :: "srv \<Rightarrow> nat \<Rightarrow> int option" where
  "sockets s i = map_option cn_fd (s_conns s i)"

definition srv_inv :: "(conn \<Rightarrow> bool) \<Rightarrow> (conn \<Rightarrow> bool) \<Rightarrow> int \<Rightarrow> srv \<Rightarrow> bool" where
  "srv_inv good closed L s \<longleftrightarrow> owns L (s_fds s) (sockets s) \<and> (\<forall>i \<ge> s_next s. s_conns s i = None) \<and>
     (\<forall>i c. s_conns s i = Some c \<longrightarrow> good c) \<and> (\<forall>c \<in> set (s_closed s). closed c)"

lemma srv_invD:
  assumes "srv_inv good closed L s" "s_conns s i = Some c"
  shows "good c" "cn_fd c \<in> set (s_fds s)"
proof -
  show "good c" using assms by (simp add: srv_inv_def)
  have "cn_fd c \<in> ran (sockets s)" using assms(2) by (intro ranI [of _ i]) (simp add: sockets_def)
  then show "cn_fd c \<in> set (s_fds s)" using assms(1) by (simp add: srv_inv_def owns_def)
qed

lemma print_line_simps [simp]: "s_conns (print_line t s) = s_conns s" "s_fds (print_line t s) = s_fds s"
    "srv_inv good closed L (print_line t s) = srv_inv good closed L s"
  by (simp_all add: srv_inv_def print_line_def sockets_def [abs_def])

lemma on_conn_keeps:
  assumes "srv_inv good closed L s" "s_conns s i = Some c" "good (f c)" "cn_fd (f c) = cn_fd c"
  shows "\<exists>s'. on_conn i f s = Inr s' \<and> srv_inv good closed L s'"
proof -
  let ?s = "s\<lparr>s_conns := (s_conns s)(i \<mapsto> f c)\<rparr>"
  have "sockets ?s = sockets s" using assms(2,4) by (auto simp: sockets_def)
  moreover have "\<not> s_next s \<le> i" using assms(1,2) by (auto simp: srv_inv_def)
  ultimately have "srv_inv good closed L ?s" using assms(1,3) by (auto simp: srv_inv_def)
  then show ?thesis using assms(2) by (simp add: on_conn_def)
qed

lemma add_conn_keeps:
  assumes "srv_inv good closed L s" "good c" "cn_fd c \<notin> set (s_fds s)"
  shows "srv_inv good closed L (add_conn c s)"
proof -
  have "sockets (add_conn c s) = (sockets s)(s_next s \<mapsto> cn_fd c)" by (auto simp: sockets_def add_conn_def)
  moreover have "sockets s (s_next s) = None" using assms(1) by (simp add: srv_inv_def sockets_def)
  ultimately have "owns L (s_fds (add_conn c s)) (sockets (add_conn c s))"
    using owns_add [of L "s_fds s" "sockets s"] assms(1,3) by (simp add: srv_inv_def add_conn_def)
  then show ?thesis using assms(1,2) by (auto simp: srv_inv_def add_conn_def)
qed

lemma serv_bev_free_keeps:
  assumes "srv_inv good closed L s" "s_conns s i = Some c" "closed c"
  shows "\<exists>s'. serv_bev_free i s = Inr s' \<and> srv_inv good closed L s'"
proof -
  let ?s = "s\<lparr>s_conns := (s_conns s)(i := None), s_fds := remove1 (cn_fd c) (s_fds s), s_closed := c # s_closed s\<rparr>"
  have "sockets ?s = (sockets s)(i := None)" by (auto simp: sockets_def)
  moreover have "sockets s i = Some (cn_fd c)" using assms(2) by (simp add: sockets_def)
  ultimately have "owns L (s_fds ?s) (sockets ?s)" using owns_remove [of L "s_fds s" "sockets s"] assms(1) by (simp add: srv_inv_def)
  then have "srv_inv good closed L ?s" using assms(1,3) by (auto simp: srv_inv_def)
  then show ?thesis using assms(2) srv_invD(2) [OF assms(1,2)] by (simp add: serv_bev_free_def release_def)
qed

text \<open>The contract of a server: every event that can happen is handled and keeps the invariant.\<close>

fun legal_serve :: "(serv_ev \<Rightarrow> srv \<Rightarrow> srv result) \<Rightarrow> serv_ev list \<Rightarrow> srv \<Rightarrow> bool" where
  "legal_serve serve [] s = True"
| "legal_serve serve (e # es) s = (serv_legal e s \<and> (case serve e s of Inl _ \<Rightarrow> True | Inr s' \<Rightarrow> legal_serve serve es s'))"

locale bev_server =
  fixes serve :: "serv_ev \<Rightarrow> srv \<Rightarrow> srv result"
    and good closed :: "conn \<Rightarrow> bool"
  assumes keeps: "srv_inv good closed L s \<Longrightarrow> serv_legal e s \<Longrightarrow> \<exists>s'. serve e s = Inr s' \<and> srv_inv good closed L s'"
begin

lemma serve_all_keeps:
  assumes "srv_inv good closed L s" "legal_serve serve es s"
  shows "\<exists>s'. serve_all serve es s = Inr s' \<and> srv_inv good closed L s'"
  using assms
proof (induction es arbitrary: s)
  case (Cons e es)
  obtain s1 where "serve e s = Inr s1" "srv_inv good closed L s1" using keeps [OF Cons.prems(1), of e] Cons.prems(2) by auto
  then show ?case using Cons.IH [of s1] Cons.prems(2) by simp
qed simp

end

lemma idle_inv: "srv_inv good closed L (idle_srv [L])"
  by (simp add: srv_inv_def idle_srv_def owns_def sockets_def ran_def dom_def)

text \<open>What a live bufferevent of the echo server has sent, will send and has still to read is what has arrived; a freed one had sent a part of it.\<close>

definition echo_good :: "conn \<Rightarrow> bool" where
  "echo_good c \<longleftrightarrow> cn_wire c @ cn_out c @ cn_in c = cn_got c \<and> cn_reads c \<and> cn_high c = 1024 * 1024 * 2"

definition echo_closed :: "conn \<Rightarrow> bool" where
  "echo_closed c \<longleftrightarrow> prefix (cn_wire c) (cn_got c)"

definition time_good :: "conn \<Rightarrow> bool" where
  "time_good c \<longleftrightarrow> \<not> cn_reads c \<and> (\<exists>tv. cn_wire c @ cn_out c = (case tv of None \<Rightarrow> [] | Some t \<Rightarrow> time_text [] t))"

definition time_closed :: "conn \<Rightarrow> bool" where
  "time_closed c \<longleftrightarrow> (\<exists>tv. cn_wire c = (case tv of None \<Rightarrow> [] | Some t \<Rightarrow> time_text [] t))"

interpretation echo: bev_server "echo_serve E" echo_good echo_closed for E
proof
  fix L s e assume inv: "srv_inv echo_good echo_closed L s" and legal: "serv_legal e s"
  have upd: "\<exists>s'. on_conn i f s = Inr s' \<and> srv_inv echo_good echo_closed L s'"
    if "s_conns s i = Some c" "echo_good c \<Longrightarrow> echo_good (f c)" "cn_fd (f c) = cn_fd c" for i c f
    using on_conn_keeps [where f = f, OF inv that(1) that(2) [OF srv_invD(1) [OF inv that(1)]] that(3)] .
  show "\<exists>s'. echo_serve E e s = Inr s' \<and> srv_inv echo_good echo_closed L s'"
  proof (cases e)
    case (Accept r)
    then show ?thesis using inv legal
      by (cases r) (auto simp: echo_do_accept_def new_conn_def echo_good_def intro!: add_conn_keeps)
  next
    case (Arrive i bs)
    then show ?thesis using legal upd [of i _ "conn_arrive bs"] by (auto simp: conn_arrive_def echo_good_def split: option.splits)
  next
    case (ReadReady i)
    then show ?thesis using legal upd [of i _ "\<lambda>c. c\<lparr>cn_in := [], cn_out := echo_readcb (cn_in c) (cn_out c)\<rparr>"]
      by (auto simp: serv_readcb_def echo_good_def echo_readcb_eq)
  next
    case (Sent i n)
    then obtain c where c: "s_conns s i = Some c" using legal by (auto split: option.splits)
    have "take n (cn_out c) @ drop n (cn_out c) @ r = cn_out c @ r" for r by (metis append.assoc append_take_drop_id)
    note sent = this
    have "echo_good c \<Longrightarrow> echo_good (conn_sent n c)" by (simp add: conn_sent_def echo_good_def sent)
    from upd [where f = "conn_sent n", OF c this] show ?thesis using Sent by (simp add: conn_sent_def)
  next
    case (WriteDone i)
    then show ?thesis using inv by simp
  next
    case (BevEvent i ev)
    then obtain c where c: "s_conns s i = Some c" using legal by auto
    have "echo_closed c" using srv_invD(1) [OF inv c] unfolding echo_good_def echo_closed_def by (metis prefixI)
    moreover obtain t where "errorcb i ev s = serv_bev_free i t" "srv_inv echo_good echo_closed L t" "s_conns t = s_conns s"
      using inv by (simp add: errorcb_def Let_def split: if_splits)
    ultimately show ?thesis using serv_bev_free_keeps [of echo_good echo_closed L t i c] c BevEvent by auto
  qed
qed

interpretation times: bev_server time_serve time_good time_closed
proof
  fix L s e assume inv: "srv_inv time_good time_closed L s" and legal: "serv_legal e s"
  show "\<exists>s'. time_serve e s = Inr s' \<and> srv_inv time_good time_closed L s'"
  proof (cases e)
    case (Accept r)
    show ?thesis
    proof (cases r)
      case (Accepted fd ss ok tv)
      let ?c = "case tv of None \<Rightarrow> new_conn fd False 0 | Some t \<Rightarrow> bufferevent_write (time_text [] t) (new_conn fd False 0)"
      have "time_good ?c" "cn_fd ?c = fd" by (cases tv; auto simp: time_good_def new_conn_def bufferevent_write_def intro: exI [of _ tv])+
      then show ?thesis using Accept Accepted legal add_conn_keeps [OF inv, of ?c] by (simp add: time_do_accept_def Let_def)
    qed (use Accept inv in \<open>simp add: time_do_accept_def\<close>)
  next
    case (Arrive i bs)
    then show ?thesis using legal srv_invD(1) [OF inv, of i] by (auto simp: can_arrive_def time_good_def split: option.splits)
  next
    case (Sent i n)
    then obtain c where c: "s_conns s i = Some c" using legal by (auto split: option.splits)
    have "time_good (conn_sent n c)" using srv_invD(1) [OF inv c] by (simp add: time_good_def conn_sent_def)
    then show ?thesis using on_conn_keeps [OF inv c] Sent by (simp add: conn_sent_def)
  next
    case (WriteDone i)
    then obtain c where c: "s_conns s i = Some c" using legal by auto
    have "cn_out c = [] \<Longrightarrow> time_closed c" using srv_invD(1) [OF inv c] by (auto simp: time_good_def time_closed_def)
    then show ?thesis using serv_bev_free_keeps [OF inv c] c inv WriteDone by (auto simp: time_writecb_def)
  qed (use inv in simp_all)
qed

section \<open>The simple client\<close>

text \<open>
  The client has one bufferevent and, from the connection on, one timer. \<open>sc_task\<close> is the pointer \<open>time_task_ev\<close>, \<open>sc_events\<close> the
  events that are allocated, each with whether it is pending; \<open>sc_ticks\<close> are the times that were written. The screen tells text that
  was read from the connection and notes about events apart.
\<close>

datatype screen_item = Heard string | Note string

fun heard :: "screen_item list \<Rightarrow> string" where
  "heard [] = []"
| "heard (Heard t # r) = t @ heard r"
| "heard (Note t # r) = heard r"

lemma heard_append [simp]: "heard (a @ b) = heard a @ heard b"
  by (induction a rule: heard.induct) simp_all

record simple_client =
  sc_bev :: "conn option"
  sc_connected :: bool
  sc_task :: "ptr option"
  sc_events :: "ptr \<Rightarrow> bool option"
  sc_next :: ptr
  sc_screen :: "screen_item list"
  sc_ticks :: "(int \<times> int) list"

definition on_bev :: "(conn \<Rightarrow> conn) \<Rightarrow> simple_client \<Rightarrow> simple_client result" where
  "on_bev f s = (case sc_bev s of None \<Rightarrow> Inl UseAfterFree | Some c \<Rightarrow> Inr (s\<lparr>sc_bev := Some (f c)\<rparr>))"

definition show_text :: "screen_item \<Rightarrow> simple_client \<Rightarrow> simple_client" where
  "show_text t s = s\<lparr>sc_screen := sc_screen s @ [t]\<rparr>"

definition simple_readcb :: "simple_client \<Rightarrow> simple_client result" where
  "simple_readcb s =
     (case sc_bev s of
        None \<Rightarrow> Inl UseAfterFree
      | Some c \<Rightarrow> Inr (show_text (Heard (client_readcb (cn_in c))) (s\<lparr>sc_bev := Some (c\<lparr>cn_in := []\<rparr>)\<rparr>)))"

definition cb_func :: "(int \<times> int) option \<Rightarrow> simple_client \<Rightarrow> simple_client result" where
  "cb_func now s =
     (case now of
        None \<Rightarrow> Inr s
      | Some tv \<Rightarrow>
          rbind (on_bev (bufferevent_write (time_text ''hello world: '' tv)) s) (\<lambda>s. Inr (s\<lparr>sc_ticks := sc_ticks s @ [tv]\<rparr>)))"

definition cli_event_free :: "ptr \<Rightarrow> simple_client \<Rightarrow> simple_client result" where
  "cli_event_free p s = (case sc_events s p of None \<Rightarrow> Inl UseAfterFree | Some _ \<Rightarrow> Inr (s\<lparr>sc_events := (sc_events s)(p := None)\<rparr>))"

definition free_bev :: "simple_client \<Rightarrow> simple_client result" where
  "free_bev s = (case sc_bev s of None \<Rightarrow> Inl UseAfterFree | Some _ \<Rightarrow> Inr (s\<lparr>sc_bev := None\<rparr>))"

text \<open>\<open>new_ok\<close> and \<open>add_ok\<close> are the outcomes of \<open>event_new\<close> and \<open>event_add\<close>.\<close>

definition simple_eventcb :: "bool \<Rightarrow> bool \<Rightarrow> u16 \<Rightarrow> simple_client \<Rightarrow> simple_client result" where
  "simple_eventcb new_ok add_ok events s =
     (if events AND BEV_EVENT_CONNECTED \<noteq> 0 then
        let s = show_text (Note ''connected\<newline>'') s in
        if \<not> new_ok then Inr (s\<lparr>sc_task := None\<rparr>)
        else
          let p = sc_next s;
              s = s\<lparr>sc_task := Some p, sc_events := (sc_events s)(p \<mapsto> False), sc_next := p + 1\<rparr> in
          if \<not> add_ok then Inr s else Inr (s\<lparr>sc_events := (sc_events s)(p \<mapsto> True)\<rparr>)
      else if events AND BEV_EVENT_EOF \<noteq> 0 then Inr (show_text (Note ''event eof\<newline>'') s)
      else if events AND BEV_EVENT_ERROR \<noteq> 0 then
        let s = show_text (Note ''event error\<newline>'') s in
        rbind (case sc_task s of None \<Rightarrow> Inr s | Some p \<Rightarrow> cli_event_free p s) free_bev
      else if events AND BEV_EVENT_TIMEOUT \<noteq> 0 then Inr (show_text (Note ''event timeout\<newline>'') s)
      else Inr s)"

text \<open>\<open>run\<close> up to the loop: the outcomes are those of parsing the address, making the bufferevent and starting to connect.\<close>

definition simple_run :: "bool \<Rightarrow> bool \<Rightarrow> bool \<Rightarrow> (bool \<times> simple_client) result" where
  "simple_run parse_ok new_ok connect_ok =
     (let s = \<lparr>sc_bev = None, sc_connected = False, sc_task = None, sc_events = (\<lambda>_. None), sc_next = 0, sc_screen = [], sc_ticks = []\<rparr> in
      if \<not> parse_ok then Inr (False, s)
      else if \<not> new_ok then Inr (False, s)
      else
        let s = s\<lparr>sc_bev := Some (new_conn (-1) True 0)\<rparr> in
        if \<not> connect_ok then rbind (free_bev s) (\<lambda>s. Inr (False, s)) else Inr (True, s))"

datatype cli_ev = CliArrive bytes | CliRead | CliSent nat | CliTick "(int \<times> int) option" | CliEvent bool bool u16

fun cli_handle :: "cli_ev \<Rightarrow> simple_client \<Rightarrow> simple_client result" where
  "cli_handle (CliArrive bs) s = on_bev (conn_arrive bs) s"
| "cli_handle CliRead s = simple_readcb s"
| "cli_handle (CliSent n) s = on_bev (conn_sent n) s"
| "cli_handle (CliTick now) s = cb_func now s"
| "cli_handle (CliEvent new_ok add_ok ev) s =
     simple_eventcb new_ok add_ok ev (if ev AND BEV_EVENT_CONNECTED \<noteq> 0 then s\<lparr>sc_connected := True\<rparr> else s)"

text \<open>libevent reports the connection once, and calls back only for what exists.\<close>

fun cli_legal :: "cli_ev \<Rightarrow> simple_client \<Rightarrow> bool" where
  "cli_legal (CliArrive bs) s = (case sc_bev s of None \<Rightarrow> False | Some c \<Rightarrow> can_arrive bs c)"
| "cli_legal CliRead s = (sc_bev s \<noteq> None)"
| "cli_legal (CliSent n) s = (case sc_bev s of None \<Rightarrow> False | Some c \<Rightarrow> n \<le> length (cn_out c))"
| "cli_legal (CliTick now) s = (\<exists>p. sc_events s p = Some True)"
| "cli_legal (CliEvent new_ok add_ok ev) s = (sc_bev s \<noteq> None \<and> (ev AND BEV_EVENT_CONNECTED \<noteq> 0 \<longrightarrow> \<not> sc_connected s))"

text \<open>The timer exists exactly as long as the pointer is of use: its event is the only one, and it goes with the bufferevent.\<close>

definition task_ok :: "bool \<Rightarrow> ptr option \<Rightarrow> (ptr \<Rightarrow> bool option) \<Rightarrow> bool" where
  "task_ok live task evs \<longleftrightarrow> dom evs = (if live then set_option task else {})"

lemma task_okD: "task_ok live task evs \<Longrightarrow> evs p \<noteq> None \<longleftrightarrow> live \<and> task = Some p"
  by (metis (full_types) domIff elem_set empty_iff task_ok_def)

lemma task_ok_none: "task_ok live None evs \<Longrightarrow> evs = Map.empty"
  using task_okD [of live None evs] by fastforce

lemma task_ok_new: "task_ok True (Some p) (Map.empty(p \<mapsto> b))"
  by (simp add: task_ok_def)

lemma task_ok_free: "task_ok True (Some p) evs \<Longrightarrow> task_ok False (Some p) (evs(p := None))"
  by (simp add: task_ok_def)

definition cli_inv :: "simple_client \<Rightarrow> bool" where
  "cli_inv s \<longleftrightarrow> task_ok (sc_bev s \<noteq> None) (sc_task s) (sc_events s) \<and>
     (\<not> sc_connected s \<longrightarrow> sc_task s = None \<and> sc_ticks s = []) \<and>
     (case sc_bev s of
        None \<Rightarrow> True
      | Some c \<Rightarrow> cn_wire c @ cn_out c = concat (map (time_text ''hello world: '') (sc_ticks s)) \<and>
          chars_of (cn_got c) = heard (sc_screen s) @ chars_of (cn_in c) \<and> cn_reads c \<and> cn_high c = 0)"

lemma chars_of_append [simp]: "chars_of (a @ b) = chars_of a @ chars_of b"
  by (simp add: chars_of_def)

lemma chars_of_Nil [simp]: "chars_of [] = []"
  by (simp add: chars_of_def)

lemma simple_eventcb_keeps:
  assumes "cli_inv s" "sc_bev s = Some c" "ev AND BEV_EVENT_CONNECTED = 0"
  shows "\<exists>s'. simple_eventcb new_ok add_ok ev s = Inr s' \<and> cli_inv s'"
proof (cases "sc_task s")
  case None
  then have "sc_events s = Map.empty" using assms(1) unfolding cli_inv_def by (metis task_ok_none)
  then have "task_ok False None (sc_events s)" by (simp add: task_ok_def)
  then show ?thesis using None assms by (simp add: simple_eventcb_def show_text_def free_bev_def cli_inv_def Let_def)
next
  case (Some p)
  then have "task_ok True (Some p) (sc_events s)" using assms(1,2) by (simp add: cli_inv_def)
  then have "sc_events s p \<noteq> None" "task_ok False (Some p) ((sc_events s)(p := None))" using task_okD task_ok_free by auto
  then show ?thesis using Some assms by (auto simp: simple_eventcb_def show_text_def free_bev_def cli_event_free_def cli_inv_def Let_def)
qed

lemma simple_eventcb_connects:
  assumes "cli_inv s" "sc_bev s = Some c" "\<not> sc_connected s" "ev AND BEV_EVENT_CONNECTED \<noteq> 0"
  shows "\<exists>s'. simple_eventcb new_ok add_ok ev (s\<lparr>sc_connected := True\<rparr>) = Inr s' \<and> cli_inv s'"
proof -
  have none: "sc_task s = None" using assms(1,3) by (simp add: cli_inv_def)
  then have evs: "sc_events s = Map.empty" using assms(1) unfolding cli_inv_def by (metis task_ok_none)
  then have "task_ok True None Map.empty" by (simp add: task_ok_def)
  then show ?thesis using assms none evs task_ok_new
    by (simp add: simple_eventcb_def show_text_def cli_inv_def Let_def)
qed

lemma cli_handle_keeps:
  assumes "cli_inv s" "cli_legal e s"
  shows "\<exists>s'. cli_handle e s = Inr s' \<and> cli_inv s'"
proof (cases e)
  case (CliArrive bs)
  then show ?thesis using assms by (simp add: on_bev_def conn_arrive_def cli_inv_def split: option.splits)
next
  case CliRead
  then obtain c where "sc_bev s = Some c" using assms(2) by auto
  then show ?thesis using CliRead assms(1) by (simp add: simple_readcb_def show_text_def cli_inv_def client_readcb_eq)
next
  case (CliSent n)
  then show ?thesis using assms by (simp add: on_bev_def conn_sent_def cli_inv_def split: option.splits)
next
  case (CliTick now)
  from assms(2) obtain p where p: "sc_events s p = Some True" using CliTick by auto
  have "task_ok (sc_bev s \<noteq> None) (sc_task s) (sc_events s)" using assms(1) by (simp add: cli_inv_def)
  from task_okD [OF this, of p] p obtain c where "sc_bev s = Some c" "sc_task s = Some p" by auto
  then show ?thesis using CliTick assms(1) by (cases now) (simp_all add: cb_func_def on_bev_def bufferevent_write_def cli_inv_def flip: append_assoc)
next
  case (CliEvent new_ok add_ok ev)
  then obtain c where c: "sc_bev s = Some c" using assms(2) by auto
  show ?thesis
  proof (cases "ev AND BEV_EVENT_CONNECTED = 0")
    case True
    from simple_eventcb_keeps [OF assms(1) c this] show ?thesis using True CliEvent by simp
  next
    case False
    then have "\<not> sc_connected s" using assms(2) CliEvent by simp
    from simple_eventcb_connects [OF assms(1) c this False] show ?thesis using False CliEvent by simp
  qed
qed

section \<open>A client at the echo server\<close>

text \<open>
  The client's bufferevent and the server's bufferevent \<open>i\<close> are the two ends of a connection: at either end arrives, in any pieces, what
  was sent at the other. All other events of both programs may happen at any time, also events of other connections of the server.
\<close>

record talk =
  tk_cli :: simple_client
  tk_srv :: srv

inductive talk_step :: "env \<Rightarrow> nat \<Rightarrow> talk \<Rightarrow> talk \<Rightarrow> bool" for E i where
  client: "cli_legal e (tk_cli t) \<Longrightarrow> \<forall>bs. e \<noteq> CliArrive bs \<Longrightarrow> cli_handle e (tk_cli t) = Inr c \<Longrightarrow> talk_step E i t (t\<lparr>tk_cli := c\<rparr>)"
| server: "serv_legal e (tk_srv t) \<Longrightarrow> \<forall>bs. e \<noteq> Arrive i bs \<Longrightarrow> echo_serve E e (tk_srv t) = Inr s \<Longrightarrow> talk_step E i t (t\<lparr>tk_srv := s\<rparr>)"
| up: "sc_bev (tk_cli t) = Some c \<Longrightarrow> s_conns (tk_srv t) i = Some d \<Longrightarrow> prefix (cn_got d @ bs) (cn_wire c) \<Longrightarrow>
    serv_legal (Arrive i bs) (tk_srv t) \<Longrightarrow> echo_serve E (Arrive i bs) (tk_srv t) = Inr s \<Longrightarrow> talk_step E i t (t\<lparr>tk_srv := s\<rparr>)"
| down: "sc_bev (tk_cli t) = Some c \<Longrightarrow> s_conns (tk_srv t) i = Some d \<Longrightarrow> prefix (cn_got c @ bs) (cn_wire d) \<Longrightarrow>
    cli_legal (CliArrive bs) (tk_cli t) \<Longrightarrow> cli_handle (CliArrive bs) (tk_cli t) = Inr s \<Longrightarrow> talk_step E i t (t\<lparr>tk_cli := s\<rparr>)"

definition greetings :: "simple_client \<Rightarrow> bytes" where
  "greetings s = concat (map (time_text ''hello world: '') (sc_ticks s))"

text \<open>
  What was heard is a part of what was written. While both ends are there, what has arrived at either is a part of what was sent at the other.
\<close>

definition ends_ok :: "conn option \<Rightarrow> conn option \<Rightarrow> bool" where
  "ends_ok c d \<longleftrightarrow>
     (case c of None \<Rightarrow> True
      | Some c \<Rightarrow> prefix (cn_got c) (cn_wire c) \<and>
          (case d of None \<Rightarrow> True | Some d \<Rightarrow> prefix (cn_got d) (cn_wire c) \<and> prefix (cn_got c) (cn_wire d)))"

definition talk_inv :: "nat \<Rightarrow> talk \<Rightarrow> bool" where
  "talk_inv i t \<longleftrightarrow> cli_inv (tk_cli t) \<and> (\<exists>L. srv_inv echo_good echo_closed L (tk_srv t)) \<and>
     i < s_next (tk_srv t) \<and> ends_ok (sc_bev (tk_cli t)) (s_conns (tk_srv t) i) \<and>
     prefix (heard (sc_screen (tk_cli t))) (chars_of (greetings (tk_cli t)))"

definition grows :: "conn option \<Rightarrow> conn option \<Rightarrow> bool" where
  "grows c c' \<longleftrightarrow> (case c' of None \<Rightarrow> True
     | Some c' \<Rightarrow> (case c of None \<Rightarrow> False | Some c \<Rightarrow> cn_got c' = cn_got c \<and> prefix (cn_wire c) (cn_wire c')))"

lemma ends_grow: "ends_ok c d \<Longrightarrow> grows c c' \<Longrightarrow> grows d d' \<Longrightarrow> ends_ok c' d'"
  by (auto simp: ends_ok_def grows_def split: option.splits intro: prefix_order.trans)

lemma grows_refl [simp]: "grows c c"
  by (simp add: grows_def split: option.splits)

lemma cli_grows:
  assumes "cli_handle e s = Inr s'" "\<forall>bs. e \<noteq> CliArrive bs"
  shows "grows (sc_bev s) (sc_bev s')"
proof (cases e)
  case (CliEvent a b ev)
  then show ?thesis using assms(1)
    by (auto simp: simple_eventcb_def show_text_def free_bev_def cli_event_free_def grows_def Let_def rbind_Inr_iff split: if_splits option.splits)
qed (use assms in \<open>auto simp: simple_readcb_def show_text_def on_bev_def cb_func_def bufferevent_write_def conn_sent_def grows_def rbind_Inr_iff split: option.splits\<close>)

lemma srv_grows:
  assumes "echo_serve E e s = Inr s'" "\<forall>bs. e \<noteq> Arrive i bs" "i < s_next s"
  shows "grows (s_conns s i) (s_conns s' i) \<and> s_next s \<le> s_next s'"
proof (cases e)
  case (Accept r)
  then show ?thesis using assms by (cases r) (auto simp: echo_do_accept_def add_conn_def print_line_def split: if_splits)
next
  case (Arrive j bs)
  then show ?thesis using assms by (auto simp: on_conn_def split: option.splits)
next
  case (BevEvent j ev)
  then show ?thesis using assms
    by (auto simp: errorcb_def serv_bev_free_def print_line_def grows_def Let_def rbind_Inr_iff split: if_splits option.splits)
qed (use assms in \<open>auto simp: serv_readcb_def on_conn_def conn_sent_def grows_def split: option.splits if_splits\<close>)

lemma heard_greetings:
  assumes "cli_inv s" "sc_bev s = Some c" "prefix (cn_got c) (cn_wire c)"
  shows "prefix (heard (sc_screen s)) (chars_of (greetings s))"
proof -
  have "chars_of (cn_got c) = heard (sc_screen s) @ chars_of (cn_in c)" "greetings s = cn_wire c @ cn_out c"
    using assms(1,2) by (simp_all add: cli_inv_def greetings_def)
  moreover obtain r where "cn_wire c = cn_got c @ r" using assms(3) by (auto simp: prefix_def)
  ultimately show ?thesis by simp
qed

lemma cli_silent:
  assumes "cli_handle e s = Inr s'" "sc_bev s' = None"
  shows "heard (sc_screen s') = heard (sc_screen s) \<and> greetings s' = greetings s"
proof (cases e)
  case (CliEvent a b ev)
  then show ?thesis using assms
    by (auto simp: simple_eventcb_def show_text_def free_bev_def cli_event_free_def greetings_def Let_def rbind_Inr_iff split: if_splits option.splits)
qed (use assms in \<open>auto simp: simple_readcb_def show_text_def on_bev_def cb_func_def greetings_def rbind_Inr_iff split: option.splits\<close>)

lemma echo_wire: "echo_good d \<Longrightarrow> prefix (cn_wire d) (cn_got d)"
  by (metis echo_good_def prefixI)

lemma talk_invI:
  assumes "cli_inv c" "srv_inv echo_good echo_closed L s" "i < s_next s" "ends_ok (sc_bev c) (s_conns s i)"
    "sc_bev c = None \<Longrightarrow> prefix (heard (sc_screen c)) (chars_of (greetings c))"
  shows "talk_inv i \<lparr>tk_cli = c, tk_srv = s\<rparr>"
  using assms heard_greetings [of c] by (cases "sc_bev c") (auto simp: talk_inv_def ends_ok_def)

lemma talk_step_inv:
  assumes "talk_step E i t t'" "talk_inv i t"
  shows "talk_inv i t'"
proof -
  obtain c s where t: "t = \<lparr>tk_cli = c, tk_srv = s\<rparr>" by (cases t)
  obtain L where inv: "cli_inv c" "srv_inv echo_good echo_closed L s" "i < s_next s" "ends_ok (sc_bev c) (s_conns s i)"
      "prefix (heard (sc_screen c)) (chars_of (greetings c))"
    using assms(2) by (auto simp: talk_inv_def t)
  show ?thesis using assms(1)
  proof cases
    case (client e c')
    then have c': "cli_handle e c = Inr c'" "\<forall>bs. e \<noteq> CliArrive bs" "cli_legal e c" by (simp_all add: t)
    have "cli_inv c'" using cli_handle_keeps [OF inv(1) c'(3)] c'(1) by auto
    moreover have "ends_ok (sc_bev c') (s_conns s i)" using ends_grow [OF inv(4) cli_grows [OF c'(1,2)]] by simp
    ultimately show ?thesis using client(1) talk_invI [of c' L s i] inv(2,3,5) cli_silent [OF c'(1)] by (simp add: t)
  next
    case (server e s')
    then have s': "echo_serve E e s = Inr s'" "\<forall>bs. e \<noteq> Arrive i bs" "serv_legal e s" by (simp_all add: t)
    have "srv_inv echo_good echo_closed L s'" using echo.keeps [where E = E, OF inv(2) s'(3)] s'(1) by auto
    moreover have "ends_ok (sc_bev c) (s_conns s' i)" "i < s_next s'" using ends_grow [OF inv(4)] srv_grows [OF s'(1,2) inv(3)] inv(3) by auto
    ultimately show ?thesis using server(1) talk_invI [of c L s' i] inv(1,5) by (simp add: t)
  next
    case (up b d bs s')
    then have s': "echo_serve E (Arrive i bs) s = Inr s'" "serv_legal (Arrive i bs) s" by (simp_all add: t)
    have "srv_inv echo_good echo_closed L s'" using echo.keeps [where E = E, OF inv(2) s'(2)] s'(1) by auto
    moreover have "s_conns s' i = Some (conn_arrive bs d)" "s_next s' = s_next s" using up s'(1) by (auto simp: t on_conn_def)
    moreover have "ends_ok (sc_bev c) (Some (conn_arrive bs d))" using up inv(4) by (simp add: t ends_ok_def conn_arrive_def)
    ultimately show ?thesis using up(1) talk_invI [of c L s' i] inv(1,3,5) by (simp add: t)
  next
    case (down b d bs c')
    then have c': "cli_handle (CliArrive bs) c = Inr c'" "cli_legal (CliArrive bs) c" by (simp_all add: t)
    have "cli_inv c'" using cli_handle_keeps [OF inv(1) c'(2)] c'(1) by auto
    moreover have b: "sc_bev c' = Some (conn_arrive bs b)" using down c'(1) by (auto simp: t on_bev_def)
    moreover have "prefix (cn_wire d) (cn_got d)" using echo_wire srv_invD(1) [OF inv(2)] down(3) by (simp add: t)
    then have "ends_ok (Some (conn_arrive bs b)) (s_conns s i)" using down inv(4)
      by (auto simp: t ends_ok_def conn_arrive_def intro: prefix_order.trans)
    ultimately show ?thesis using down(1) talk_invI [of c' L s i] inv(2,3) by (simp add: t)
  qed
qed

lemma talk_steps_inv:
  assumes "(talk_step E i)\<^sup>*\<^sup>* t t'" "talk_inv i t"
  shows "talk_inv i t'"
  using assms by (induction rule: rtranclp_induct) (auto intro: talk_step_inv)

section \<open>Everything comes back\<close>

text \<open>Both ends are there.\<close>

definition joined :: "nat \<Rightarrow> conn \<Rightarrow> conn \<Rightarrow> talk \<Rightarrow> bool" where
  "joined i c d t \<longleftrightarrow> talk_inv i t \<and> sc_bev (tk_cli t) = Some c \<and> s_conns (tk_srv t) i = Some d"

lemma joinedD:
  assumes "joined i c d t"
  shows "echo_good d" "cn_reads c" "cn_high c = 0" "prefix (cn_got d) (cn_wire c)" "prefix (cn_got c) (cn_wire d)"
    "cn_wire c @ cn_out c = greetings (tk_cli t)" "chars_of (cn_got c) = heard (sc_screen (tk_cli t)) @ chars_of (cn_in c)"
  using assms srv_invD(1) [of echo_good echo_closed _ "tk_srv t" i d]
  by (auto simp: joined_def talk_inv_def ends_ok_def cli_inv_def greetings_def)

text \<open>Each of these moves keeps both ends and what was written.\<close>

definition moves :: "env \<Rightarrow> nat \<Rightarrow> talk \<Rightarrow> conn \<Rightarrow> conn \<Rightarrow> talk \<Rightarrow> bool" where
  "moves E i t c d t' \<longleftrightarrow> (talk_step E i)\<^sup>*\<^sup>* t t' \<and> joined i c d t' \<and> sc_ticks (tk_cli t') = sc_ticks (tk_cli t)"

lemma moves_step:
  assumes "talk_inv i t" "talk_step E i t t'" "sc_bev (tk_cli t') = Some c" "s_conns (tk_srv t') i = Some d"
    "sc_ticks (tk_cli t') = sc_ticks (tk_cli t)"
  shows "moves E i t c d t'"
  using assms talk_step_inv [OF assms(2,1)] by (auto simp: moves_def joined_def)

lemma moves_trans: "moves E i t c d t' \<Longrightarrow> moves E i t' c' d' t'' \<Longrightarrow> moves E i t c' d' t''"
  by (auto simp: moves_def)

lemma client_sends_all:
  assumes "joined i c d t"
  shows "\<exists>t'. moves E i t (conn_sent (length (cn_out c)) c) d t'"
proof -
  let ?t = "t\<lparr>tk_cli := (tk_cli t)\<lparr>sc_bev := Some (conn_sent (length (cn_out c)) c)\<rparr>\<rparr>"
  have "talk_step E i t ?t" using assms by (intro talk_step.client [where e = "CliSent (length (cn_out c))"]) (auto simp: joined_def on_bev_def)
  then show ?thesis using moves_step [of i t E ?t] assms by (auto simp: joined_def)
qed

lemma server_reads:
  assumes "joined i c d t"
  shows "\<exists>t'. moves E i t c (d\<lparr>cn_in := [], cn_out := cn_out d @ cn_in d\<rparr>) t'"
proof -
  let ?d = "d\<lparr>cn_in := [], cn_out := cn_out d @ cn_in d\<rparr>"
  let ?t = "t\<lparr>tk_srv := (tk_srv t)\<lparr>s_conns := (s_conns (tk_srv t))(i \<mapsto> ?d)\<rparr>\<rparr>"
  have "talk_step E i t ?t" using assms
    by (intro talk_step.server [where e = "ReadReady i"]) (auto simp: joined_def serv_readcb_def on_conn_def echo_readcb_eq)
  then show ?thesis using moves_step [of i t E ?t] assms by (auto simp: joined_def)
qed

lemma server_sends_all:
  assumes "joined i c d t"
  shows "\<exists>t'. moves E i t c (conn_sent (length (cn_out d)) d) t'"
proof -
  let ?d = "conn_sent (length (cn_out d)) d"
  let ?t = "t\<lparr>tk_srv := (tk_srv t)\<lparr>s_conns := (s_conns (tk_srv t))(i \<mapsto> ?d)\<rparr>\<rparr>"
  have "talk_step E i t ?t" using assms by (intro talk_step.server [where e = "Sent i (length (cn_out d))"]) (auto simp: joined_def on_conn_def)
  then show ?thesis using moves_step [of i t E ?t] assms by (auto simp: joined_def)
qed

lemma server_gets_byte:
  assumes "joined i c d t" "cn_in d = []" "cn_wire c = cn_got d @ b # r"
  shows "\<exists>t'. moves E i t c (conn_arrive [b] d) t'"
proof -
  let ?t = "t\<lparr>tk_srv := (tk_srv t)\<lparr>s_conns := (s_conns (tk_srv t))(i \<mapsto> conn_arrive [b] d)\<rparr>\<rparr>"
  have "can_arrive [b] d" using joinedD(1) [OF assms(1)] assms(2) by (simp add: can_arrive_def echo_good_def)
  then have "talk_step E i t ?t" using assms by (intro talk_step.up [where c = c and d = d and bs = "[b]"]) (auto simp: joined_def on_conn_def)
  then show ?thesis using moves_step [of i t E ?t] assms by (auto simp: joined_def)
qed

lemma server_gets_all:
  assumes "joined i c d t" "cn_wire c = cn_got d @ r"
  shows "\<exists>t' d'. moves E i t c d' t' \<and> cn_in d' = [] \<and> cn_got d' = cn_wire c"
  using assms
proof (induction r arbitrary: d t)
  case Nil
  then show ?case using server_reads [of i c d t E] by fastforce
next
  case (Cons b r)
  let ?d = "d\<lparr>cn_in := [], cn_out := cn_out d @ cn_in d\<rparr>"
  obtain t1 where t1: "moves E i t c ?d t1" using server_reads [OF Cons.prems(1)] by blast
  then obtain t2 where t2: "moves E i t1 c (conn_arrive [b] ?d) t2"
    using server_gets_byte [of i c ?d t1 b r E] Cons.prems(2) by (auto simp: moves_def)
  have "joined i c (conn_arrive [b] ?d) t2" "cn_wire c = cn_got (conn_arrive [b] ?d) @ r"
    using t2 Cons.prems(2) by (simp_all add: moves_def conn_arrive_def)
  from Cons.IH [OF this] moves_trans [OF t1 t2] show ?case by (blast intro: moves_trans)
qed

lemma client_gets_all:
  assumes "joined i c d t" "cn_wire d = cn_got c @ r"
  shows "\<exists>t'. moves E i t (conn_arrive r c) d t'"
proof -
  let ?t = "t\<lparr>tk_cli := (tk_cli t)\<lparr>sc_bev := Some (conn_arrive r c)\<rparr>\<rparr>"
  have "can_arrive r c" using joinedD(2,3) [OF assms(1)] by (simp add: can_arrive_def)
  then have "talk_step E i t ?t" using assms by (intro talk_step.down [where c = c and d = d and bs = r]) (auto simp: joined_def on_bev_def)
  then show ?thesis using moves_step [of i t E ?t] assms by (auto simp: joined_def)
qed

lemma client_reads:
  assumes "joined i c d t"
  shows "\<exists>t'. moves E i t (c\<lparr>cn_in := []\<rparr>) d t'"
proof -
  let ?t = "t\<lparr>tk_cli := show_text (Heard (client_readcb (cn_in c))) ((tk_cli t)\<lparr>sc_bev := Some (c\<lparr>cn_in := []\<rparr>)\<rparr>)\<rparr>"
  have "talk_step E i t ?t" using assms by (intro talk_step.client [where e = CliRead]) (auto simp: joined_def simple_readcb_def)
  then show ?thesis using moves_step [of i t E ?t] assms by (auto simp: joined_def show_text_def)
qed

lemma everything_comes_back:
  assumes "joined i c d t"
  shows "\<exists>t'. (talk_step E i)\<^sup>*\<^sup>* t t' \<and> sc_ticks (tk_cli t') = sc_ticks (tk_cli t) \<and>
    heard (sc_screen (tk_cli t')) = chars_of (greetings (tk_cli t))"
proof -
  let ?c = "conn_sent (length (cn_out c)) c"
  obtain t1 where t1: "moves E i t ?c d t1" using client_sends_all [OF assms] by blast
  have wire: "cn_wire ?c = greetings (tk_cli t)" using joinedD(6) [OF assms] by (simp add: conn_sent_def)
  have j1: "joined i ?c d t1" using t1 by (simp add: moves_def)
  obtain r where "cn_wire ?c = cn_got d @ r" using joinedD(4) [OF j1] by (auto simp: prefix_def)
  then obtain t2 d2 where t2: "moves E i t1 ?c d2 t2" "cn_in d2 = []" "cn_got d2 = cn_wire ?c"
    using server_gets_all [OF j1] by blast
  let ?d = "conn_sent (length (cn_out d2)) d2"
  have j2: "joined i ?c d2 t2" using t2(1) by (simp add: moves_def)
  obtain t3 where t3: "moves E i t2 ?c ?d t3" using server_sends_all [OF j2] by blast
  have j3: "joined i ?c ?d t3" using t3 by (simp add: moves_def)
  have "cn_wire ?d = cn_wire ?c" using joinedD(1) [OF j2] t2(2,3) by (simp add: echo_good_def conn_sent_def)
  moreover obtain q where q: "cn_wire ?d = cn_got ?c @ q" using joinedD(5) [OF j3] by (auto simp: prefix_def)
  ultimately have got: "cn_got (conn_arrive q ?c) = greetings (tk_cli t)" using wire by (simp add: conn_arrive_def)
  obtain t4 where t4: "moves E i t3 (conn_arrive q ?c) ?d t4" using client_gets_all [OF j3 q] by blast
  then have j4: "joined i (conn_arrive q ?c) ?d t4" by (simp add: moves_def)
  obtain t5 where t5: "moves E i t4 ((conn_arrive q ?c)\<lparr>cn_in := []\<rparr>) ?d t5" using client_reads [OF j4] by blast
  have "moves E i t ((conn_arrive q ?c)\<lparr>cn_in := []\<rparr>) ?d t5" using t1 t2(1) t3 t4 t5 by (blast intro: moves_trans)
  moreover from this have "heard (sc_screen (tk_cli t5)) = chars_of (greetings (tk_cli t))"
    using joinedD(7) [of i "(conn_arrive q ?c)\<lparr>cn_in := []\<rparr>" ?d t5] got by (simp add: moves_def)
  ultimately show ?thesis by (auto simp: moves_def)
qed

section \<open>Properties\<close>

lemma legal_serve_snoc:
  assumes "legal_serve f (as @ [e]) a" "serve_all f as a = Inr b"
  shows "legal_serve f as a \<and> serv_legal e b \<and> serve_all f (as @ [e]) a = f e b"
  using assms
proof (induction as arbitrary: a)
  case Nil then show ?case by (cases "f e b") simp_all
next
  case (Cons x as) then show ?case by (cases "f x a") auto
qed

lemma server_run_idle: "server_run R = Inr (True, s) \<Longrightarrow> s = idle_srv [ok_listener R]"
  by (auto simp: server_run_def Let_def split: if_splits)

lemma srv_inv_fds: "srv_inv good closed L s \<Longrightarrow> distinct (s_fds s) \<and> set (s_fds s) = insert L (ran (sockets s))"
  by (simp add: srv_inv_def owns_def)

text \<open>
  Servers. Once they listen, the echo server and the time server handle every sequence of events that libevent can produce without using a
  freed bufferevent or closing a socket twice; the open sockets are the listener and one for each live bufferevent. At the echo server, what
  each connection has sent, holds to send and has not read is what arrived, in this order. Every connection the time server has closed was
  sent one whole time, or nothing if the clock failed.
\<close>

theorem bev_servers_safe:
  assumes "server_run R = Inr (True, s0)"
  shows "(legal_serve (echo_serve E) es s0 \<longrightarrow>
      (\<exists>s. echo_main E R es = Inr s \<and> distinct (s_fds s) \<and> set (s_fds s) = insert (ok_listener R) (ran (sockets s)) \<and>
        (\<forall>i c. s_conns s i = Some c \<longrightarrow> cn_wire c @ cn_out c @ cn_in c = cn_got c) \<and> (\<forall>c \<in> set (s_closed s). prefix (cn_wire c) (cn_got c)))) \<and>
    (legal_serve time_serve es s0 \<longrightarrow>
      (\<exists>s. time_main R es = Inr s \<and> distinct (s_fds s) \<and> set (s_fds s) = insert (ok_listener R) (ran (sockets s)) \<and>
        (\<forall>c \<in> set (s_closed s). cn_wire c = [] \<or> (\<exists>tv. cn_wire c = time_text [] tv))))"
proof (intro conjI impI)
  have s0: "s0 = idle_srv [ok_listener R]" using assms by (rule server_run_idle)
  show "\<exists>s. echo_main E R es = Inr s \<and> distinct (s_fds s) \<and> set (s_fds s) = insert (ok_listener R) (ran (sockets s)) \<and>
      (\<forall>i c. s_conns s i = Some c \<longrightarrow> cn_wire c @ cn_out c @ cn_in c = cn_got c) \<and> (\<forall>c \<in> set (s_closed s). prefix (cn_wire c) (cn_got c))"
    if "legal_serve (echo_serve E) es s0"
  proof -
    from echo.serve_all_keeps [OF idle_inv, of E es "ok_listener R"] that obtain s where
      s: "serve_all (echo_serve E) es s0 = Inr s" "srv_inv echo_good echo_closed (ok_listener R) s" by (auto simp: s0)
    then have "\<forall>i c. s_conns s i = Some c \<longrightarrow> cn_wire c @ cn_out c @ cn_in c = cn_got c" "\<forall>c \<in> set (s_closed s). prefix (cn_wire c) (cn_got c)"
      by (simp_all add: srv_inv_def echo_good_def echo_closed_def)
    then show ?thesis using s srv_inv_fds [OF s(2)] assms by (simp add: echo_main_def)
  qed
  show "\<exists>s. time_main R es = Inr s \<and> distinct (s_fds s) \<and> set (s_fds s) = insert (ok_listener R) (ran (sockets s)) \<and>
      (\<forall>c \<in> set (s_closed s). cn_wire c = [] \<or> (\<exists>tv. cn_wire c = time_text [] tv))" if "legal_serve time_serve es s0"
  proof -
    from times.serve_all_keeps [OF idle_inv, of es "ok_listener R"] that obtain s where
      s: "serve_all time_serve es s0 = Inr s" "srv_inv time_good time_closed (ok_listener R) s" by (auto simp: s0)
    then have "\<forall>c \<in> set (s_closed s). time_closed c" by (simp add: srv_inv_def)
    then have "\<forall>c \<in> set (s_closed s). cn_wire c = [] \<or> (\<exists>tv. cn_wire c = time_text [] tv)"
      unfolding time_closed_def by (metis option.case_eq_if)
    then show ?thesis using s srv_inv_fds [OF s(2)] assms by (simp add: time_main_def)
  qed
qed

lemma simple_run_inv: "simple_run True True True = Inr (True, c) \<Longrightarrow> cli_inv c \<and> sc_bev c = Some (new_conn (-1) True 0) \<and> sc_screen c = []"
  by (auto simp: simple_run_def Let_def cli_inv_def new_conn_def task_ok_def)

lemma talk_starts:
  assumes "simple_run True True True = Inr (True, c)" "srv_inv echo_good echo_closed L s"
    "serv_legal (Accept (Accepted fd ss True tv)) s" "echo_serve E (Accept (Accepted fd ss True tv)) s = Inr s'"
  shows "talk_inv (s_next s) \<lparr>tk_cli = c, tk_srv = s'\<rparr>"
proof -
  have "srv_inv echo_good echo_closed L s'" using echo.keeps [where E = E, OF assms(2,3)] assms(4) by auto
  moreover have "s_conns s' (s_next s) = Some (new_conn fd True (1024 * 1024 * 2))" "s_next s < s_next s'"
    using assms(4) by (auto simp: echo_do_accept_def add_conn_def print_line_def)
  ultimately show ?thesis using simple_run_inv [OF assms(1)] by (intro talk_invI) (auto simp: ends_ok_def new_conn_def)
qed

text \<open>
  C13. Greetings. A simple client connects to an echo server that may serve any number of others. However the network cuts the streams and whatever
  else happens at both, the client never hears anything but a part of the greetings it has sent, from the first on. As long as neither end was freed,
  there is a way to go on in which no further greeting is sent and all that were sent have been heard.
\<close>

theorem greetings_come_back:
  assumes "server_run R = Inr (True, s0)" "legal_serve (echo_serve E) (es @ [Accept (Accepted fd ss True tv)]) s0"
    "serve_all (echo_serve E) es s0 = Inr s" "serve_all (echo_serve E) (es @ [Accept (Accepted fd ss True tv)]) s0 = Inr s'"
    "simple_run True True True = Inr (True, c)" "(talk_step E (s_next s))\<^sup>*\<^sup>* \<lparr>tk_cli = c, tk_srv = s'\<rparr> t"
  shows "prefix (heard (sc_screen (tk_cli t))) (chars_of (greetings (tk_cli t))) \<and>
    (sc_bev (tk_cli t) \<noteq> None \<and> s_conns (tk_srv t) (s_next s) \<noteq> None \<longrightarrow>
       (\<exists>t'. (talk_step E (s_next s))\<^sup>*\<^sup>* t t' \<and> sc_ticks (tk_cli t') = sc_ticks (tk_cli t) \<and>
          heard (sc_screen (tk_cli t')) = chars_of (greetings (tk_cli t))))"
proof -
  have s0: "s0 = idle_srv [ok_listener R]" using assms(1) by (rule server_run_idle)
  from legal_serve_snoc [OF assms(2,3)] assms(4) have e: "legal_serve (echo_serve E) es s0" "serv_legal (Accept (Accepted fd ss True tv)) s"
      "echo_serve E (Accept (Accepted fd ss True tv)) s = Inr s'" by simp_all
  have "srv_inv echo_good echo_closed (ok_listener R) s"
    using echo.serve_all_keeps [OF idle_inv, of E es "ok_listener R"] e(1) assms(3) by (auto simp: s0)
  from talk_steps_inv [OF assms(6) talk_starts [OF assms(5) this e(2,3)]] have inv: "talk_inv (s_next s) t" .
  then have "prefix (heard (sc_screen (tk_cli t))) (chars_of (greetings (tk_cli t)))" by (simp add: talk_inv_def)
  moreover have "joined (s_next s) b d t" if "sc_bev (tk_cli t) = Some b" "s_conns (tk_srv t) (s_next s) = Some d" for b d
    using that inv by (simp add: joined_def)
  ultimately show ?thesis using everything_comes_back by blast
qed

text \<open>The time server sets no event callback: a connection that fails before its time was sent stays for ever.\<close>

lemma time_failed_stays:
  assumes "s_conns s i = Some c" "cn_out c \<noteq> []"
  shows "time_serve (BevEvent i ev) s = Inr s \<and> time_serve (WriteDone i) s = Inr s"
  using assms by (simp add: time_writecb_def)

section \<open>Examples\<close>

text \<open>A client connects to a server with no other clients, greets once and can hear its greeting.\<close>

definition demo_start :: start_res where
  "demo_start = \<lparr>ok_base = True, ok_listener = 3, ok_bind = True, ok_listen = True, ok_event = True\<rparr>"

definition demo_accept :: serv_ev where
  "demo_accept = Accept (Accepted 4 (OtherFamily 1) True (Some (7, 8)))"

lemma demo_started: "server_run demo_start = Inr (True, idle_srv [3])"
  by (simp add: server_run_def demo_start_def Let_def)

lemma demo_time_legal: "legal_serve time_serve [demo_accept, Sent 0 9, WriteDone 0] (idle_srv [3])"
  by code_simp

theorem bev_servers_safe_witness:
  "\<exists>s. time_main demo_start [demo_accept, Sent 0 9, WriteDone 0] = Inr s \<and> set (s_fds s) = insert 3 (ran (sockets s)) \<and>
     (\<forall>c \<in> set (s_closed s). cn_wire c = [] \<or> (\<exists>tv. cn_wire c = time_text [] tv))"
proof -
  have "ok_listener demo_start = 3" by (simp add: demo_start_def)
  with bev_servers_safe [OF demo_started, THEN conjunct2, rule_format, OF demo_time_legal] show ?thesis by auto
qed

lemma demo_talk:
  assumes "simple_run True True True = Inr (True, c)"
  shows "\<exists>c'. (talk_step E i)\<^sup>*\<^sup>* \<lparr>tk_cli = c, tk_srv = s\<rparr> \<lparr>tk_cli = c', tk_srv = s\<rparr> \<and> sc_ticks c' = [(7, 8)] \<and> sc_bev c' \<noteq> None"
proof -
  let ?e = "CliEvent True True BEV_EVENT_CONNECTED"
  have c: "sc_bev c = Some (new_conn (-1) True 0)" "\<not> sc_connected c" "sc_ticks c = []" using assms by (auto simp: simple_run_def Let_def)
  have nz: "BEV_EVENT_CONNECTED AND BEV_EVENT_CONNECTED \<noteq> 0" by (simp add: BEV_EVENT_CONNECTED_def)
  obtain c1 where c1: "cli_handle ?e c = Inr c1" "sc_bev c1 = sc_bev c" "sc_ticks c1 = []" "sc_events c1 (sc_next c) = Some True"
    using c nz by (auto simp: simple_eventcb_def show_text_def Let_def)
  obtain c2 where c2: "cli_handle (CliTick (Some (7, 8))) c1 = Inr c2" "sc_ticks c2 = [(7, 8)]" "sc_bev c2 \<noteq> None"
    using c c1 by (auto simp: cb_func_def on_bev_def)
  have "talk_step E i \<lparr>tk_cli = c, tk_srv = s\<rparr> \<lparr>tk_cli = c1, tk_srv = s\<rparr>"
    using talk_step.client [of ?e "\<lparr>tk_cli = c, tk_srv = s\<rparr>" c1 E i] c c1(1) by simp
  moreover have "talk_step E i \<lparr>tk_cli = c1, tk_srv = s\<rparr> \<lparr>tk_cli = c2, tk_srv = s\<rparr>"
    using talk_step.client [of "CliTick (Some (7, 8))" "\<lparr>tk_cli = c1, tk_srv = s\<rparr>" c2 E i] c1(4) c2(1) by auto
  ultimately show ?thesis using c2 by (meson converse_rtranclp_into_rtranclp rtranclp.rtrancl_refl)
qed

theorem greetings_come_back_witness:
  "\<exists>c s t. simple_run True True True = Inr (True, c) \<and> serve_all (echo_serve sample_env) [demo_accept] (idle_srv [3]) = Inr s \<and>
     (talk_step sample_env 0)\<^sup>*\<^sup>* \<lparr>tk_cli = c, tk_srv = s\<rparr> t \<and> heard (sc_screen (tk_cli t)) = chars_of (time_text ''hello world: '' (7, 8))"
proof -
  let ?s0 = "idle_srv [3]" and ?E = sample_env
  obtain c where c: "simple_run True True True = Inr (True, c)" by (auto simp: simple_run_def Let_def)
  obtain s where s: "serve_all (echo_serve ?E) ([] @ [demo_accept]) ?s0 = Inr s" "s_conns s 0 \<noteq> None"
    by (auto simp: demo_accept_def echo_do_accept_def add_conn_def print_line_def idle_srv_def)
  have legal: "legal_serve (echo_serve ?E) ([] @ [demo_accept]) ?s0" by (simp add: demo_accept_def idle_srv_def echo_do_accept_def)
  have next0: "s_next ?s0 = 0" by (simp add: idle_srv_def)
  obtain c' where c': "(talk_step ?E (s_next ?s0))\<^sup>*\<^sup>* \<lparr>tk_cli = c, tk_srv = s\<rparr> \<lparr>tk_cli = c', tk_srv = s\<rparr>" "sc_ticks c' = [(7, 8)]" "sc_bev c' \<noteq> None"
    using demo_talk [OF c] by blast
  from greetings_come_back [OF demo_started legal [unfolded demo_accept_def] _ s(1) [unfolded demo_accept_def] c c'(1), THEN conjunct2] c'(3) s(2)
  obtain t where "(talk_step ?E 0)\<^sup>*\<^sup>* \<lparr>tk_cli = c', tk_srv = s\<rparr> t" "heard (sc_screen (tk_cli t)) = chars_of (greetings c')"
    by (auto simp: next0)
  then show ?thesis using c s(1) c'(1,2) by (auto simp: greetings_def next0 simp del: serve_all.simps intro: rtranclp_trans)
qed

end
