(* ===== verification/TcpNData.thy ===== *)
theory TcpNData
  imports Prelude "HOL-Library.Signed_Division"
begin

text \<open>
  The throughput experiment of src/play/c/tcp_n_data/src: a client sends \<open>n\<close> records of 320 bytes with
  one of five methods (snd_method.c), the server sends back what it receives (serv.c), and the client
  counts the bytes that return and reports when all have arrived (cli.c). cfg.c reads the command line,
  data.c keeps the data of a session.

  The sockets of the muggle library are a parameter, the record \<open>sock\<close> over an arbitrary state of the
  network. \<open>stream_sock\<close> states what its documentation promises of a connected stream socket: a
  blocking write accepts all bytes in order, a vectored write accepts a non-empty prefix or asks to try
  again, and does not ask for ever. The locale \<open>send_method\<close> is the contract of a send method; the five
  methods interpret it.

  Sizes computed as \<open>size_t\<close> and kept in an \<open>int\<close> go through \<open>to_int\<close>. The retry loop of
  \<open>block_writev\<close> has fuel; \<open>write_fuel\<close> rounds are enough.
\<close>

section \<open>Sockets and configuration\<close>

datatype errno = WOULDBLOCK | AGAIN | INTR | OtherErrno int

text \<open>The value returned by a socket operation; an error carries the error number of the thread.\<close>

datatype io_ret = Bytes int | EventError errno

text \<open>
  \<open>sk_fresh n\<close> is the content of a fresh block of \<open>n\<close> bytes, \<open>sk_mss\<close> the value that
  \<open>getsockopt(TCP_MAXSEG)\<close> leaves in its destination.
\<close>

record 's sock =
  sk_writev :: "'s \<Rightarrow> bytes list \<Rightarrow> io_ret \<times> 's"
  sk_block_write :: "'s \<Rightarrow> bytes \<Rightarrow> io_ret \<times> 's"
  sk_mss :: "'s \<Rightarrow> int"
  sk_fresh :: "nat \<Rightarrow> bytes"

record cfg =
  cfg_host :: string
  cfg_port :: string
  cfg_role :: string
  cfg_method :: string
  cfg_n :: nat
  cfg_rcvbuf :: int
  cfg_sndbuf :: int

definition default_cfg :: cfg where
  "default_cfg = \<lparr>cfg_host = ''127.0.0.1'', cfg_port = ''10102'', cfg_role = ''?'',
     cfg_method = ''write'', cfg_n = 10000, cfg_rcvbuf = 512 * 1024, cfg_sndbuf = 512 * 1024\<rparr>"

text \<open>
  \<open>getopt_long\<close> appears as the options it returns; the two long options without a letter have their
  own constructors. A negative count converted to \<open>size_t\<close> is reduced modulo \<open>2 ^ 64\<close>.
  \<open>addr_strlen\<close> is the constant \<open>MUGGLE_SOCKET_ADDR_STRLEN\<close>.
\<close>

datatype opt = Opt char | OPT_VAL_RCVBUF | OPT_VAL_SNDBUF

definition ndata_parse_opt :: "nat \<Rightarrow> opt \<Rightarrow> string \<Rightarrow> cfg \<Rightarrow> cfg parsed" where
  "ndata_parse_opt addr_strlen c optarg cfg =
     (case c of
        Opt x \<Rightarrow>
          if x = CHR ''h'' then ExitSuccess
          else if x = CHR ''H'' then Parsed (cfg\<lparr>cfg_host := strncpy_buf addr_strlen optarg\<rparr>)
          else if x = CHR ''P'' then Parsed (cfg\<lparr>cfg_port := strncpy_buf 8 optarg\<rparr>)
          else if x = CHR ''r'' then Parsed (cfg\<lparr>cfg_role := strncpy_buf 8 optarg\<rparr>)
          else if x = CHR ''m'' then Parsed (cfg\<lparr>cfg_method := strncpy_buf 16 optarg\<rparr>)
          else if x = CHR ''n'' then Parsed (cfg\<lparr>cfg_n := nat (to_int (atoi optarg) mod 2 ^ 64)\<rparr>)
          else Parsed cfg
      | OPT_VAL_RCVBUF \<Rightarrow> Parsed (cfg\<lparr>cfg_rcvbuf := to_int (atoi optarg)\<rparr>)
      | OPT_VAL_SNDBUF \<Rightarrow> Parsed (cfg\<lparr>cfg_sndbuf := to_int (atoi optarg)\<rparr>))"

fun ndata_parse_opts :: "nat \<Rightarrow> (opt \<times> string) list \<Rightarrow> cfg \<Rightarrow> cfg parsed" where
  "ndata_parse_opts addr_strlen [] cfg = Parsed cfg"
| "ndata_parse_opts addr_strlen ((c, optarg) # opts) cfg =
     (case ndata_parse_opt addr_strlen c optarg cfg of
        Parsed cfg \<Rightarrow> ndata_parse_opts addr_strlen opts cfg
      | ParseFailed \<Rightarrow> ParseFailed
      | ExitSuccess \<Rightarrow> ExitSuccess)"

definition ndata_parse_args :: "nat \<Rightarrow> (opt \<times> string) list \<Rightarrow> cfg parsed" where
  "ndata_parse_args addr_strlen opts =
     ndata_parse_opts addr_strlen opts
       (default_cfg\<lparr>cfg_host := strncpy_buf addr_strlen ''127.0.0.1''\<rparr>)"

section \<open>Session data\<close>

datatype tc = TcZero | TcInit | TcStarted | TcEnded

definition sizeof_data :: nat where
  "sizeof_data = 320"

text \<open>\<open>sd_joins\<close> counts the calls of \<open>muggle_thread_join\<close> on the send thread.\<close>

record session_data =
  sd_local_ip :: string
  sd_local_port :: int
  sd_remote_ip :: string
  sd_remote_port :: int
  sd_rcv_bufsize :: int
  sd_snd_bufsize :: int
  sd_cfg :: "cfg option"
  sd_total_data_nbytes :: nat
  sd_total_rcv_nbytes :: nat
  sd_w_tc :: tc
  sd_r_tc :: tc
  sd_joins :: nat

record socket_context =
  ctx_data :: "session_data option"
  ctx_ref :: nat
  ctx_shutdown :: bool

text \<open>What the system says of a socket: addresses, buffer sizes, and whether an option can be set.\<close>

record fd_info =
  fi_local_ip :: string
  fi_local_port :: int
  fi_remote_ip :: string
  fi_remote_port :: int
  fi_rcvbuf :: int
  fi_sndbuf :: int
  fi_nodelay_ok :: bool

definition gen_session_info :: "fd_info \<Rightarrow> socket_context \<Rightarrow> socket_context" where
  "gen_session_info fd ctx =
     (let session_data = \<lparr>sd_local_ip = fi_local_ip fd, sd_local_port = fi_local_port fd,
            sd_remote_ip = fi_remote_ip fd, sd_remote_port = fi_remote_port fd,
            sd_rcv_bufsize = fi_rcvbuf fd, sd_snd_bufsize = fi_sndbuf fd,
            sd_cfg = None, sd_total_data_nbytes = 0, sd_total_rcv_nbytes = 0,
            sd_w_tc = TcZero, sd_r_tc = TcZero, sd_joins = 0\<rparr>;
          ctx = ctx\<lparr>ctx_data := Some session_data\<rparr>
      in if fi_nodelay_ok fd then ctx else ctx\<lparr>ctx_shutdown := True\<rparr>)"

definition get_session_info :: "socket_context \<Rightarrow> session_data option" where
  "get_session_info ctx = ctx_data ctx"

definition release_session_info :: "socket_context \<Rightarrow> socket_context" where
  "release_session_info ctx =
     (case ctx_data ctx of None \<Rightarrow> ctx | Some _ \<Rightarrow> ctx\<lparr>ctx_data := None\<rparr>)"

text \<open>The calls of \<open>setsockopt\<close>, with the value; a failing call is only logged.\<close>

datatype sockopt = SO_RCVBUF | SO_SNDBUF

definition set_socket_opt_bufsize :: "fd_info \<Rightarrow> cfg \<Rightarrow> (sockopt \<times> int) list" where
  "set_socket_opt_bufsize fd cfg =
     (if cfg_rcvbuf cfg > 0 \<and> fi_rcvbuf fd < cfg_rcvbuf cfg then [(SO_RCVBUF, cfg_rcvbuf cfg)] else []) @
     (if cfg_sndbuf cfg > 0 \<and> fi_sndbuf fd < cfg_sndbuf cfg then [(SO_SNDBUF, cfg_sndbuf cfg)] else [])"

section \<open>The send methods\<close>

text \<open>The messages a method logs: an unexpected return value, or a wrong rest in the assembly.\<close>

datatype snd_log = LogRet io_ret | LogRemain

definition log_ret :: "io_ret \<Rightarrow> int \<Rightarrow> snd_log list" where
  "log_ret ret expected = (if ret = Bytes expected then [] else [LogRet ret])"

definition timers_done :: "session_data \<Rightarrow> session_data" where
  "timers_done sd = sd\<lparr>sd_r_tc := TcStarted, sd_w_tc := TcEnded\<rparr>"

fun write_loop :: "'s sock \<Rightarrow> bytes list \<Rightarrow> 's \<Rightarrow> 's \<times> snd_log list" where
  "write_loop K [] net = (net, [])"
| "write_loop K (d # ds) net =
     (let (ret, net) = sk_block_write K net d;
          (net, log) = write_loop K ds net
      in (net, log_ret ret (int sizeof_data) @ log))"

definition method_write ::
  "'s sock \<Rightarrow> nat \<Rightarrow> session_data \<Rightarrow> bytes list \<Rightarrow> 's \<Rightarrow> (session_data \<times> 's \<times> snd_log list) result" where
  "method_write K fuel sd p_datas net =
     (let (net, log) = write_loop K p_datas net in Inr (timers_done sd, net, log))"

definition retryable :: "errno \<Rightarrow> bool" where
  "retryable e \<longleftrightarrow> e = WOULDBLOCK \<or> e = AGAIN \<or> e = INTR"

text \<open>The inner loop of \<open>block_writev\<close> over the vector, from index \<open>i\<close> on.\<close>

function advance :: "bytes list \<Rightarrow> nat \<Rightarrow> nat \<Rightarrow> int \<Rightarrow> nat \<times> bytes list" where
  "advance iov offset i remain =
     (if i < length iov then
        let len = to_int (int (length (iov ! i))) in
        if len > remain then (offset, iov[i := drop (nat remain) (iov ! i)])
        else advance iov (offset + 1) (i + 1) (remain - len)
      else (offset, iov))"
  by pat_completeness auto
termination by (relation "measure (\<lambda>(iov, offset, i, remain). length iov - i)") auto

declare advance.simps [simp del]

fun block_writev_loop ::
  "'s sock \<Rightarrow> nat \<Rightarrow> bytes list \<Rightarrow> nat \<Rightarrow> int \<Rightarrow> int \<Rightarrow> 's \<Rightarrow> (io_ret \<times> 's) result" where
  "block_writev_loop K 0 iov offset total_bytes total_snd_bytes net = Inl Diverges"
| "block_writev_loop K (Suc fuel) iov offset total_bytes total_snd_bytes net =
     (case sk_writev K net (drop offset iov) of
        (EventError e, net) \<Rightarrow>
          if retryable e then block_writev_loop K fuel iov offset total_bytes total_snd_bytes net
          else Inr (EventError e, net)
      | (Bytes send_bytes, net) \<Rightarrow>
          if send_bytes > 0 then
            let total_snd_bytes = total_snd_bytes + send_bytes in
            if total_snd_bytes = total_bytes then Inr (Bytes total_bytes, net)
            else
              let (offset, iov) = advance iov offset offset send_bytes
              in block_writev_loop K fuel iov offset total_bytes total_snd_bytes net
          else Inr (Bytes 0, net))"

definition block_writev :: "'s sock \<Rightarrow> nat \<Rightarrow> bytes list \<Rightarrow> int \<Rightarrow> 's \<Rightarrow> (io_ret \<times> 's) result" where
  "block_writev K fuel iov len net = block_writev_loop K fuel iov 0 (to_int len) 0 net"

fun send_batches ::
  "'s sock \<Rightarrow> nat \<Rightarrow> (bytes list \<times> int) list \<Rightarrow> 's \<Rightarrow> ('s \<times> snd_log list) result" where
  "send_batches K fuel [] net = Inr (net, [])"
| "send_batches K fuel ((iov, nbytes) # batches) net =
     rbind (block_writev K fuel iov nbytes net) (\<lambda>(ret, net).
     rbind (send_batches K fuel batches net) (\<lambda>(net, log).
     Inr (net, log_ret ret (to_int nbytes) @ log)))"

definition max_iovcnt :: nat where
  "max_iovcnt = 1024"

definition method_writev ::
  "'s sock \<Rightarrow> nat \<Rightarrow> session_data \<Rightarrow> bytes list \<Rightarrow> 's \<Rightarrow> (session_data \<times> 's \<times> snd_log list) result" where
  "method_writev K fuel sd p_datas net =
     (let iov = p_datas; n = length p_datas;
          n_batch = n div max_iovcnt; batch_remain = n mod max_iovcnt;
          batches = map (\<lambda>i. (take max_iovcnt (drop (i * max_iovcnt) iov), int (max_iovcnt * sizeof_data)))
                        [0..<n_batch];
          rest = (if batch_remain > 0
                  then [(take batch_remain (drop (n_batch * max_iovcnt) iov),
                         int (batch_remain * sizeof_data))] else [])
      in rbind (send_batches K fuel (batches @ rest) net) (\<lambda>(net, log).
         Inr (timers_done sd, net, log)))"

text \<open>
  Copying the records behind each other into a new block of \<open>nbytes\<close> bytes. A negative size asks
  \<open>malloc\<close> for more than it has, and the first copy goes through a null pointer.
\<close>

fun copy_datas :: "bytes \<Rightarrow> nat \<Rightarrow> bytes list \<Rightarrow> bytes result" where
  "copy_datas buf i [] = Inr buf"
| "copy_datas buf i (d # ds) =
     rbind (write_range buf (sizeof_data * i) d) (\<lambda>buf. copy_datas buf (i + 1) ds)"

definition combine_datas :: "'s sock \<Rightarrow> int \<Rightarrow> bytes list \<Rightarrow> bytes result" where
  "combine_datas K nbytes p_datas =
     (if nbytes < 0 then (if p_datas = [] then Inr [] else Inl NullDeref)
      else copy_datas (sk_fresh K (nat nbytes)) 0 p_datas)"

definition method_big_write ::
  "'s sock \<Rightarrow> nat \<Rightarrow> session_data \<Rightarrow> bytes list \<Rightarrow> 's \<Rightarrow> (session_data \<times> 's \<times> snd_log list) result" where
  "method_big_write K fuel sd p_datas net =
     (let nbytes = to_int (int (sd_total_data_nbytes sd)) in
      rbind (combine_datas K nbytes p_datas) (\<lambda>datas.
      rbind (if nbytes < 0 then Inl OutOfBounds else read_range datas 0 (nat nbytes)) (\<lambda>buf.
      let (ret, net) = sk_block_write K net buf in Inr (timers_done sd, net, log_ret ret nbytes))))"

text \<open>A negative length becomes a huge \<open>size_t\<close> in the call of \<open>muggle_socket_block_write\<close>.\<close>

fun assemble_loop ::
  "'s sock \<Rightarrow> nat \<Rightarrow> int \<Rightarrow> bytes \<Rightarrow> nat \<Rightarrow> int \<Rightarrow> 's \<Rightarrow> ('s \<times> snd_log list) result" where
  "assemble_loop K 0 mss datas p remain_bytes net = Inl Diverges"
| "assemble_loop K (Suc fuel) mss datas p remain_bytes net =
     (let cur_nbytes = (if remain_bytes > mss then mss else remain_bytes) in
      rbind (if cur_nbytes < 0 then Inl OutOfBounds else read_range datas p (nat cur_nbytes)) (\<lambda>buf.
      let (ret, net) = sk_block_write K net buf;
          remain_bytes = remain_bytes - cur_nbytes;
          log = log_ret ret cur_nbytes
      in if remain_bytes > 0 then
           rbind (assemble_loop K fuel mss datas (p + nat cur_nbytes) remain_bytes net) (\<lambda>(net, log').
           Inr (net, log @ log'))
         else Inr (net, log)))"

definition method_assemble_write ::
  "'s sock \<Rightarrow> nat \<Rightarrow> session_data \<Rightarrow> bytes list \<Rightarrow> 's \<Rightarrow> (session_data \<times> 's \<times> snd_log list) result" where
  "method_assemble_write K fuel sd p_datas net =
     (let mss = sk_mss K net; nbytes = to_int (int (sd_total_data_nbytes sd)) in
      rbind (combine_datas K nbytes p_datas) (\<lambda>datas.
      rbind (assemble_loop K fuel mss datas 0 nbytes net) (\<lambda>(net, log).
      Inr (timers_done sd, net, log))))"

text \<open>The vector of segments: \<open>k\<close> entries from position \<open>p\<close>; also the rest that remains.\<close>

fun build_iov :: "nat \<Rightarrow> int \<Rightarrow> bytes \<Rightarrow> nat \<Rightarrow> int \<Rightarrow> (bytes list \<times> int) result" where
  "build_iov 0 mss datas p remain = Inr ([], remain)"
| "build_iov (Suc k) mss datas p remain =
     (let cur_nbytes = (if remain > mss then mss else remain) in
      rbind (if cur_nbytes < 0 then Inl OutOfBounds else read_range datas p (nat cur_nbytes)) (\<lambda>buf.
      rbind (build_iov k mss datas (p + nat cur_nbytes) (remain - cur_nbytes)) (\<lambda>(iov, rest).
      Inr (buf # iov, rest))))"

definition batch_iov :: "bytes list \<Rightarrow> nat \<Rightarrow> bytes list \<times> int" where
  "batch_iov iov i =
     (let part = take max_iovcnt (drop (max_iovcnt * i) iov)
      in (part, foldl (\<lambda>nbytes b. to_int (nbytes + int (length b))) 0 part))"

text \<open>The quotient, and one more if the remainder is positive; both divisions truncate.\<close>

definition ceil_div :: "int \<Rightarrow> int \<Rightarrow> int" where
  "ceil_div a b = (let q = a sdiv b in if a smod b > 0 then q + 1 else q)"

definition method_assemble_writev ::
  "'s sock \<Rightarrow> nat \<Rightarrow> session_data \<Rightarrow> bytes list \<Rightarrow> 's \<Rightarrow> (session_data \<times> 's \<times> snd_log list) result" where
  "method_assemble_writev K fuel sd p_datas net =
     (let mss = sk_mss K net; nbytes = to_int (int (sd_total_data_nbytes sd)) in
      rbind (combine_datas K nbytes p_datas) (\<lambda>datas.
      if mss = 0 then Inl DivByZero
      else
        let n_iov = ceil_div nbytes mss
        in rbind (build_iov (nat n_iov) mss datas 0 nbytes) (\<lambda>(iov, remain).
           let n_batch = ceil_div n_iov (int max_iovcnt)
           in rbind (send_batches K fuel (map (batch_iov iov) [0..<nat n_batch]) net) (\<lambda>(net, log).
              Inr (timers_done sd, net, (if remain \<noteq> 0 then [LogRemain] else []) @ log)))))"

text \<open>
  The send thread. \<open>round_up\<close> is the macro \<open>MUGGLE_ROUND_UP_POW_OF_2_MUL\<close>. The records lie apart in one
  block whose content is not initialised.
\<close>

definition SND_METHOD_WRITE :: string where "SND_METHOD_WRITE = ''write''"
definition SND_METHOD_WRITEV :: string where "SND_METHOD_WRITEV = ''writev''"
definition SND_METHOD_BIG_WRITE :: string where "SND_METHOD_BIG_WRITE = ''big_write''"
definition SND_METHOD_ASSEMBLE_WRITE :: string where "SND_METHOD_ASSEMBLE_WRITE = ''assemble_write''"
definition SND_METHOD_ASSEMBLE_WRITEV :: string where "SND_METHOD_ASSEMBLE_WRITEV = ''assemble_writev''"

definition raw_records :: "'s sock \<Rightarrow> (nat \<Rightarrow> nat \<Rightarrow> nat) \<Rightarrow> nat \<Rightarrow> bytes list" where
  "raw_records K round_up n =
     (let raw_data_size = round_up (sizeof_data + 128) 1024;
          datas = sk_fresh K (raw_data_size * n)
      in map (\<lambda>i. take sizeof_data (drop (raw_data_size * i) datas)) [0..<n])"

definition snd_data_thread_routine ::
  "'s sock \<Rightarrow> (nat \<Rightarrow> nat \<Rightarrow> nat) \<Rightarrow> nat \<Rightarrow> cfg \<Rightarrow> session_data \<Rightarrow> 's \<Rightarrow>
   (session_data \<times> 's \<times> snd_log list) result" where
  "snd_data_thread_routine K round_up fuel cfg sd net =
     (let sd = sd\<lparr>sd_total_data_nbytes := (sizeof_data * cfg_n cfg) mod 2 ^ 64\<rparr>;
          p_datas = raw_records K round_up (cfg_n cfg)
      in if cfg_method cfg = SND_METHOD_WRITE then method_write K fuel sd p_datas net
         else if cfg_method cfg = SND_METHOD_WRITEV then method_writev K fuel sd p_datas net
         else if cfg_method cfg = SND_METHOD_BIG_WRITE then method_big_write K fuel sd p_datas net
         else if cfg_method cfg = SND_METHOD_ASSEMBLE_WRITE then method_assemble_write K fuel sd p_datas net
         else if cfg_method cfg = SND_METHOD_ASSEMBLE_WRITEV then method_assemble_writev K fuel sd p_datas net
         else Inr (sd, net, []))"

section \<open>Client and server\<close>

text \<open>
  \<open>reads\<close> are the results of the calls of \<open>muggle_socket_ctx_read\<close>, up to the first that is not
  positive. The second result of \<open>client_on_message\<close> tells whether the elapsed times were reported.
\<close>

fun read_all :: "int list \<Rightarrow> nat \<Rightarrow> nat" where
  "read_all [] total_rcv = total_rcv"
| "read_all (n # ns) total_rcv = (if n > 0 then read_all ns (total_rcv + nat n) else total_rcv)"

definition client_on_message :: "int list \<Rightarrow> session_data \<Rightarrow> session_data \<times> bool" where
  "client_on_message reads sd =
     (let sd = sd\<lparr>sd_total_rcv_nbytes := read_all reads (sd_total_rcv_nbytes sd)\<rparr>
      in if sd_total_rcv_nbytes sd = sd_total_data_nbytes sd
         then (sd\<lparr>sd_r_tc := TcEnded, sd_joins := sd_joins sd + 1\<rparr>, True)
         else (sd, False))"

text \<open>The handler runs in the event loop; the send thread is started here and holds a reference.\<close>

definition client_on_add_ctx :: "fd_info \<Rightarrow> cfg \<Rightarrow> socket_context \<Rightarrow> socket_context" where
  "client_on_add_ctx fd cfg ctx =
     (let ctx = gen_session_info fd ctx in
      case get_session_info ctx of
        None \<Rightarrow> ctx
      | Some sd \<Rightarrow>
          ctx\<lparr>ctx_data := Some (sd\<lparr>sd_cfg := Some cfg,
                 sd_total_data_nbytes := (sizeof_data * cfg_n cfg) mod 2 ^ 64,
                 sd_w_tc := TcInit, sd_r_tc := TcInit\<rparr>),
              ctx_ref := ctx_ref ctx + 1\<rparr>)"

definition client_on_release :: "socket_context \<Rightarrow> socket_context" where
  "client_on_release ctx = release_session_info ctx"


definition serv_on_connect :: "fd_info \<Rightarrow> socket_context \<Rightarrow> socket_context" where
  "serv_on_connect fd ctx = gen_session_info fd ctx"

definition serv_on_release :: "socket_context \<Rightarrow> socket_context" where
  "serv_on_release ctx = release_session_info ctx"

text \<open>The roles \<open>main\<close> knows.\<close>

datatype role = RunServer | RunClient | InvalidRole

definition ndata_main :: "nat \<Rightarrow> (opt \<times> string) list \<Rightarrow> (role \<times> cfg) parsed" where
  "ndata_main addr_strlen opts =
     (case ndata_parse_args addr_strlen opts of
        Parsed cfg \<Rightarrow>
          Parsed (if cfg_role cfg = ''server'' then RunServer
                  else if cfg_role cfg = ''client'' then RunClient else InvalidRole, cfg)
      | ParseFailed \<Rightarrow> ParseFailed
      | ExitSuccess \<Rightarrow> ExitSuccess)"

section \<open>A stream socket\<close>

text \<open>
  \<open>out\<close> is what the socket has accepted so far, \<open>stall\<close> how often it may still ask to try again.
\<close>

definition stream_sock :: "'s sock \<Rightarrow> ('s \<Rightarrow> bytes) \<Rightarrow> ('s \<Rightarrow> nat) \<Rightarrow> nat \<Rightarrow> bool" where
  "stream_sock K out stall B \<longleftrightarrow>
     (\<forall>n. length (sk_fresh K n) = n) \<and> (\<forall>net. stall net \<le> B) \<and>
     (\<forall>net d. \<exists>net'. sk_block_write K net d = (Bytes (int (length d)), net') \<and> out net' = out net @ d) \<and>
     (\<forall>net iov. concat iov \<noteq> [] \<longrightarrow>
        (\<exists>net'. (\<exists>k. sk_writev K net iov = (Bytes (int k), net') \<and> 0 < k \<and> k \<le> length (concat iov) \<and>
                     out net' = out net @ take k (concat iov)) \<or>
                (\<exists>e. sk_writev K net iov = (EventError e, net') \<and> retryable e \<and>
                     out net' = out net \<and> stall net' < stall net)))"

definition write_fuel :: "nat \<Rightarrow> nat \<Rightarrow> nat" where
  "write_fuel B nbytes = nbytes * (B + 1) + B + 1"

lemma stream_sockD:
  assumes "stream_sock K out stall B"
  shows "length (sk_fresh K n) = n" "stall net \<le> B"
    and "\<exists>net'. sk_block_write K net d = (Bytes (int (length d)), net') \<and> out net' = out net @ d"
  using assms by (auto simp: stream_sock_def)

lemma stream_writev:
  assumes "stream_sock K out stall B" "concat iov \<noteq> []"
  obtains k net' where "sk_writev K net iov = (Bytes (int k), net')" "0 < k" "k \<le> length (concat iov)"
      "out net' = out net @ take k (concat iov)"
    | e net' where "sk_writev K net iov = (EventError e, net')" "retryable e" "out net' = out net"
      "stall net' < stall net"
  using assms unfolding stream_sock_def by meson

lemma advance_spec:
  assumes "\<forall>b \<in> set iov. length b < 2 ^ 31" "r < length (concat (drop i iov))"
  shows "\<exists>j iov'. advance iov i i (int r) = (j, iov') \<and>
    concat (drop j iov') = drop r (concat (drop i iov)) \<and> (\<forall>b \<in> set iov'. length b < 2 ^ 31)"
  using assms
proof (induction "length iov - i" arbitrary: i r)
  case 0
  then show ?case by simp
next
  case (Suc k)
  then have i: "i < length iov" by simp
  let ?b = "iov ! i"
  have b: "length ?b < 2 ^ 31" using Suc.prems(1) i by simp
  have len: "to_int (int (length ?b)) = int (length ?b)" using b by (simp add: to_int_small)
  have split: "drop i iov = ?b # drop (Suc i) iov" using i by (simp add: Cons_nth_drop_Suc)
  show ?case
  proof (cases "r < length ?b")
    case True
    have small: "\<forall>b \<in> set (iov[i := drop r ?b]). length b < 2 ^ 31"
    proof
      fix b' assume "b' \<in> set (iov[i := drop r ?b])"
      then have "b' = drop r ?b \<or> b' \<in> set iov"
        using set_update_subset_insert [of iov i] by fastforce
      then show "length b' < 2 ^ 31" using Suc.prems(1) b by auto
    qed
    have "advance iov i i (int r) = (i, iov[i := drop r ?b])"
      using i True len by (simp add: advance.simps)
    moreover have "drop i (iov[i := drop r ?b]) = drop r ?b # drop (Suc i) iov"
      using i by (simp add: Cons_nth_drop_Suc [symmetric])
    ultimately show ?thesis using small True split by (auto simp: drop_append)
  next
    case False
    then have step: "advance iov i i (int r) = advance iov (Suc i) (Suc i) (int (r - length ?b))"
      using i len by (subst advance.simps) (simp add: of_nat_diff)
    have "r - length ?b < length (concat (drop (Suc i) iov))"
      using Suc.prems(2) split False by simp
    moreover have "k = length iov - Suc i" using Suc.hyps(2) by simp
    ultimately obtain j iov' where "advance iov (Suc i) (Suc i) (int (r - length ?b)) = (j, iov')"
      "concat (drop j iov') = drop (r - length ?b) (concat (drop (Suc i) iov))"
      "\<forall>b \<in> set iov'. length b < 2 ^ 31"
      using Suc.hyps(1) Suc.prems(1) by blast
    then show ?thesis using step split False by simp
  qed
qed

text \<open>The retry loop sends what is left of the vector, in order, and returns the total.\<close>

lemma block_writev_loop_spec:
  assumes "stream_sock K out stall B"
    and "\<forall>b \<in> set iov. length b < 2 ^ 31" "concat (drop offset iov) \<noteq> []"
    and "snt + int (length (concat (drop offset iov))) = total_bytes"
    and "length (concat (drop offset iov)) * (B + 1) + stall net < fuel"
  shows "\<exists>net'. block_writev_loop K fuel iov offset total_bytes snt net = Inr (Bytes total_bytes, net') \<and>
    out net' = out net @ concat (drop offset iov)"
  using assms(2-)
proof (induction fuel arbitrary: iov offset snt net)
  case 0
  then show ?case by simp
next
  case (Suc fuel)
  let ?rem = "concat (drop offset iov)"
  from assms(1) Suc.prems(2) show ?case
  proof (cases rule: stream_writev [where net = net])
    case (1 k net')
    show ?thesis
    proof (cases "k = length ?rem")
      case True
      then show ?thesis using 1 Suc.prems(3) by simp
    next
      case False
      then have "k < length ?rem" using 1 by simp
      from advance_spec [OF Suc.prems(1) this] obtain j iov' where
        adv: "advance iov offset offset (int k) = (j, iov')"
          "concat (drop j iov') = drop k ?rem" "\<forall>b \<in> set iov'. length b < 2 ^ 31" by blast
      have "length (drop k ?rem) * (B + 1) + stall net' < fuel"
      proof -
        have "length (drop k ?rem) \<le> length ?rem - 1" using 1(2) by simp
        then have "length (drop k ?rem) * (B + 1) \<le> (length ?rem - 1) * (B + 1)" by (rule mult_le_mono1)
        moreover have "(length ?rem - 1) * (B + 1) + (B + 1) = length ?rem * (B + 1)"
          using Suc.prems(2) by (cases "length ?rem") auto
        moreover have "stall net' \<le> B" using stream_sockD(2) [OF assms(1)] .
        ultimately show ?thesis using Suc.prems(4) by linarith
      qed
      moreover have "snt + int k + int (length (drop k ?rem)) = total_bytes"
        using Suc.prems(3) 1(3) by simp
      moreover have "drop k ?rem \<noteq> []" using \<open>k < length ?rem\<close> by simp
      ultimately obtain net'' where
        "block_writev_loop K fuel iov' j total_bytes (snt + int k) net' = Inr (Bytes total_bytes, net'')"
        "out net'' = out net' @ drop k ?rem"
        using Suc.IH [OF adv(3), of j "snt + int k" net'] adv(2) by auto
      then show ?thesis using 1 False adv(1) Suc.prems(3) by auto
    qed
  next
    case (2 e net')
    then have "length ?rem * (B + 1) + stall net' < fuel" using Suc.prems(4) by simp
    from Suc.IH [OF Suc.prems(1-3) this] show ?thesis using 2 by simp
  qed
qed

lemma block_writev_spec:
  assumes "stream_sock K out stall B" "concat iov \<noteq> []" "length (concat iov) < 2 ^ 31"
    and "write_fuel B (length (concat iov)) \<le> fuel"
  shows "\<exists>net'. block_writev K fuel iov (int (length (concat iov))) net =
      Inr (Bytes (int (length (concat iov))), net') \<and> out net' = out net @ concat iov"
proof -
  have "\<forall>b \<in> set iov. length b < 2 ^ 31"
  proof
    fix b assume "b \<in> set iov"
    then have "length b \<le> length (concat iov)" by (auto simp: length_concat intro: member_le_sum_list)
    then show "length b < 2 ^ 31" using assms(3) by simp
  qed
  moreover have "length (concat iov) * (B + 1) + stall net < fuel"
    using assms(4) stream_sockD(2) [OF assms(1), of net] by (simp add: write_fuel_def)
  ultimately show ?thesis
    using block_writev_loop_spec [OF assms(1), of iov 0 0 "int (length (concat iov))" net fuel] assms(2,3)
    by (simp add: block_writev_def to_int_small)
qed

section \<open>The methods send the records in order\<close>

text \<open>
  \<open>records_ok\<close>: there are as many bytes as the session says, and they can be counted in an \<open>int\<close>.
\<close>

definition records_ok :: "session_data \<Rightarrow> bytes list \<Rightarrow> bool" where
  "records_ok sd ps \<longleftrightarrow> (\<forall>d \<in> set ps. length d = sizeof_data) \<and>
     sd_total_data_nbytes sd = sizeof_data * length ps \<and> sizeof_data * length ps < 2 ^ 31"

lemma length_concat_records:
  "\<forall>d \<in> set ps. length d = sizeof_data \<Longrightarrow> length (concat ps) = sizeof_data * length ps"
  by (induction ps) auto

lemma concat_chunks:
  "concat (map (\<lambda>i. take m (drop (i * m) xs)) [0..<k]) = take (k * m) xs"
  by (induction k) (auto simp: take_add [symmetric] add.commute)

definition batch_ok :: "bytes list \<times> int \<Rightarrow> bool" where
  "batch_ok b \<longleftrightarrow> concat (fst b) \<noteq> [] \<and> snd b = int (length (concat (fst b)))"

lemma send_batches_spec:
  assumes "stream_sock K out stall B" "\<forall>b \<in> set batches. batch_ok b"
    and "length (concat (concat (map fst batches))) < 2 ^ 31"
    and "write_fuel B (length (concat (concat (map fst batches)))) \<le> fuel"
  shows "\<exists>net'. send_batches K fuel batches net = Inr (net', []) \<and>
    out net' = out net @ concat (concat (map fst batches))"
  using assms(2-)
proof (induction batches arbitrary: net)
  case Nil
  then show ?case by simp
next
  case (Cons b batches)
  obtain iov nb where b: "b = (iov, nb)" by (cases b)
  let ?rest = "concat (concat (map fst batches))"
  have ok: "concat iov \<noteq> []" "nb = int (length (concat iov))"
    using Cons.prems(1) by (auto simp: b batch_ok_def)
  have le: "length (concat iov) < 2 ^ 31" "length ?rest < 2 ^ 31" using Cons.prems(2) by (simp_all add: b)
  have fuel: "write_fuel B (length (concat iov)) \<le> fuel" "write_fuel B (length ?rest) \<le> fuel"
    using Cons.prems(3) by (simp_all add: b write_fuel_def add_mult_distrib)
  obtain net1 where one: "block_writev K fuel iov nb net = Inr (Bytes nb, net1)"
    "out net1 = out net @ concat iov"
    using block_writev_spec [OF assms(1) ok(1) le(1) fuel(1)] ok(2) by blast
  obtain net2 where "send_batches K fuel batches net1 = Inr (net2, [])" "out net2 = out net1 @ ?rest"
    using Cons.IH [of net1] Cons.prems(1) le(2) fuel(2) by auto
  then show ?case using one ok(2) le(1) by (simp add: b log_ret_def to_int_small)
qed

lemma write_loop_spec:
  assumes "stream_sock K out stall B" "\<forall>d \<in> set ps. length d = sizeof_data"
  shows "\<exists>net'. write_loop K ps net = (net', []) \<and> out net' = out net @ concat ps"
  using assms(2)
proof (induction ps arbitrary: net)
  case Nil
  then show ?case by simp
next
  case (Cons d ps)
  obtain net1 where "sk_block_write K net d = (Bytes (int (length d)), net1)" "out net1 = out net @ d"
    using stream_sockD(3) [OF assms(1)] by blast
  moreover obtain net2 where "write_loop K ps net1 = (net2, [])" "out net2 = out net1 @ concat ps"
    using Cons by auto
  ultimately show ?case using Cons.prems by (simp add: log_ret_def)
qed

lemma copy_datas_spec:
  assumes "\<forall>d \<in> set ps. length d = sizeof_data" "length pre = sizeof_data * i"
    and "length rest = sizeof_data * length ps"
  shows "copy_datas (pre @ rest) i ps = Inr (pre @ concat ps)"
  using assms
proof (induction ps arbitrary: pre rest i)
  case Nil
  then show ?case by simp
next
  case (Cons d ps)
  have d: "length d = sizeof_data" using Cons.prems(1) by simp
  have "write_range (pre @ rest) (sizeof_data * i) d = Inr ((pre @ d) @ drop sizeof_data rest)"
    using Cons.prems(2,3) d by (simp add: write_range_def)
  moreover have "copy_datas ((pre @ d) @ drop sizeof_data rest) (i + 1) ps = Inr ((pre @ d) @ concat ps)"
    using Cons.prems d by (intro Cons.IH) auto
  ultimately show ?case by simp
qed

lemma combine_datas_spec:
  assumes "stream_sock K out stall B" "records_ok sd ps"
  shows "to_int (int (sd_total_data_nbytes sd)) = int (length (concat ps))"
    and "combine_datas K (int (length (concat ps))) ps = Inr (concat ps)"
proof -
  have len: "length (concat ps) = sizeof_data * length ps"
    using assms(2) by (intro length_concat_records) (simp add: records_ok_def)
  then show "to_int (int (sd_total_data_nbytes sd)) = int (length (concat ps))"
    using assms(2) to_int_small [of "int (length (concat ps))"]
    by (simp add: records_ok_def del: of_nat_mult)
  have "copy_datas (sk_fresh K (length (concat ps))) 0 ps = Inr (concat ps)"
    using copy_datas_spec [of ps "[]" 0 "sk_fresh K (length (concat ps))"] assms(2) len
      stream_sockD(1) [OF assms(1)]
    by (simp add: records_ok_def)
  then show "combine_datas K (int (length (concat ps))) ps = Inr (concat ps)"
    by (simp add: combine_datas_def)
qed

lemma drop_split: "drop p xs = take k (drop p xs) @ drop (p + k) xs"
  using append_take_drop_id [of k "drop p xs"] by (simp add: drop_drop add.commute)

lemma assemble_loop_spec:
  assumes "stream_sock K out stall B" "0 < mss" "length datas - p < fuel" "p \<le> length datas"
    and "r = int (length datas - p)"
  shows "\<exists>net'. assemble_loop K fuel mss datas p r net = Inr (net', []) \<and> out net' = out net @ drop p datas"
  using assms(3-)
proof (induction fuel arbitrary: p r net)
  case 0
  then show ?case by simp
next
  case (Suc fuel)
  define cur where "cur = nat (if r > mss then mss else r)"
  have cur: "(if r > mss then mss else r) = int cur" using assms(2) Suc.prems(3) by (simp add: cur_def)
  have le: "p + cur \<le> length datas" "r - int cur = int (length datas - (p + cur))"
    using Suc.prems(2,3) assms(2) by (auto simp: cur_def)
  obtain net1 where w: "sk_block_write K net (take cur (drop p datas)) =
      (Bytes (int (length (take cur (drop p datas)))), net1)"
    "out net1 = out net @ take cur (drop p datas)"
    using stream_sockD(3) [OF assms(1)] by blast
  have len: "length (take cur (drop p datas)) = cur" using le(1) by simp
  have split: "drop p datas = take cur (drop p datas) @ drop (p + cur) datas"
    by (rule drop_split)
  show ?case
  proof (cases "r - int cur > 0")
    case True
    then have "length datas - (p + cur) < fuel"
      using Suc.prems(1,2,3) assms(2) le by (auto simp: cur_def split: if_splits)
    from Suc.IH [OF this le(1,2), of net1] obtain net2 where
      "assemble_loop K fuel mss datas (p + cur) (r - int cur) net1 = Inr (net2, [])"
      "out net2 = out net1 @ drop (p + cur) datas" by blast
    then show ?thesis
      using True w len le(1) split cur by (simp add: Let_def read_range_def log_ret_def)
  next
    case False
    then have "drop (p + cur) datas = []" using le by simp
    then show ?thesis
      using False w len le(1) split cur by (simp add: Let_def read_range_def log_ret_def)
  qed
qed

text \<open>The number of segments of \<open>r\<close> bytes, as the code computes it.\<close>

definition segments :: "nat \<Rightarrow> nat \<Rightarrow> nat" where
  "segments r m = r div m + (if r mod m > 0 then 1 else 0)"

lemma segments_0 [simp]: "segments 0 m = 0"
  by (simp add: segments_def)

lemma segments_step: "0 < m \<Longrightarrow> 0 < r \<Longrightarrow> segments r m = Suc (segments (r - min m r) m)"
  by (cases "m \<le> r") (auto simp: segments_def min_def le_div_geq le_mod_geq)

lemma segments_ge: "0 < m \<Longrightarrow> r \<le> segments r m * m"
proof -
  assume "0 < m"
  then have lt: "r mod m < m" by simp
  have r: "r = r div m * m + r mod m" by simp
  show ?thesis
  proof (cases "r mod m = 0")
    case True
    then have "segments r m * m = r div m * m" by (simp add: segments_def)
    with r True show ?thesis by linarith
  next
    case False
    then have "segments r m * m = m + r div m * m" by (simp add: segments_def)
    with r lt show ?thesis by linarith
  qed
qed

lemma below_segments:
  assumes "i < segments n m" "0 < m"
  shows "m * i < n"
proof (cases "n mod m = 0")
  case True
  then have "i * m < n div m * m" using assms by (simp add: segments_def)
  then show ?thesis using True div_mult_mod_eq [of n m] by (simp only: mult.commute add_0_right)
next
  case False
  then have "i \<le> n div m" using assms(1) by (simp add: segments_def)
  then have "i * m \<le> n div m * m" by simp
  then show ?thesis using False div_mult_mod_eq [of n m] by (simp only: mult.commute)
qed

lemma int_segments: "ceil_div (int r) (int m) = int (segments r m)"
  by (cases "m = 0")
    (auto simp: ceil_div_def segments_def signed_divide_int_def signed_modulo_int_def Let_def sgn_if
      zdiv_int [symmetric] zmod_int [symmetric] simp flip: of_nat_mod of_nat_div)

lemma build_iov_spec:
  assumes "0 < m" "p + r = length datas"
  shows "\<exists>iov. build_iov (segments r m) (int m) datas p (int r) = Inr (iov, 0) \<and>
    concat iov = drop p datas \<and> length iov = segments r m \<and> [] \<notin> set iov"
  using assms(2)
proof (induction "segments r m" arbitrary: p r)
  case 0
  have "r = 0" using segments_ge [OF assms(1), of r] 0 by simp
  then show ?case using 0 by simp
next
  case (Suc k)
  define cur where "cur = min m r"
  have r: "0 < r" using Suc.hyps(2) by (cases r) auto
  have cur: "(if int r > int m then int m else int r) = int cur" by (simp add: cur_def min_def)
  have le: "p + cur + (r - cur) = length datas" "0 < cur" "int r - int cur = int (r - cur)"
    using Suc.prems r assms(1) by (auto simp: cur_def)
  have k: "k = segments (r - cur) m"
    using segments_step [OF assms(1) r] Suc.hyps(2) by (simp add: cur_def)
  from Suc.hyps(1) [OF k le(1), folded k] obtain iov where
    iov: "build_iov k (int m) datas (p + cur) (int (r - cur)) = Inr (iov, 0)"
    "concat iov = drop (p + cur) datas" "length iov = k" "[] \<notin> set iov" by blast
  have split: "drop p datas = take cur (drop p datas) @ drop (p + cur) datas"
    by (rule drop_split)
  have rd: "read_range datas p cur = Inr (take cur (drop p datas))"
    using le(1) by (simp add: read_range_def)
  have "build_iov (Suc k) (int m) datas p (int r) = Inr (take cur (drop p datas) # iov, 0)"
    by (simp only: build_iov.simps Let_def cur le(3) nat_int rd rbind.simps iov(1) prod.case
        of_nat_less_0_iff if_False)
  moreover have "take cur (drop p datas) \<noteq> []" using le r Suc.prems by simp
  moreover have "concat (take cur (drop p datas) # iov) = drop p datas"
    unfolding concat.simps iov(2) by (rule split [symmetric])
  ultimately show ?case using iov(3,4) Suc.hyps(2) by (metis length_Cons set_ConsD)
qed

lemma foldl_to_int:
  "0 \<le> a \<Longrightarrow> a + int (length (concat bs)) < 2 ^ 31 \<Longrightarrow>
    foldl (\<lambda>nb b. to_int (nb + int (length b))) a bs = a + int (length (concat bs))"
  by (induction bs arbitrary: a) (auto simp: to_int_small)

lemma length_concat_take: "length (concat (take k xs)) \<le> length (concat xs)"
  by (induction xs arbitrary: k) (auto simp: take_Cons' )

lemma length_concat_drop: "length (concat (drop k xs)) \<le> length (concat xs)"
proof (induction xs arbitrary: k)
  case (Cons x xs)
  then show ?case by (cases k) (auto intro: trans_le_add2)
qed simp

lemma batch_iov_ok:
  assumes "[] \<notin> set iov" "max_iovcnt * i < length iov" "length (concat iov) < 2 ^ 31"
  shows "batch_ok (batch_iov iov i)"
proof -
  let ?part = "take max_iovcnt (drop (max_iovcnt * i) iov)"
  have "?part \<noteq> []" using assms(2) by (simp add: max_iovcnt_def)
  moreover have "set ?part \<subseteq> set iov" by (meson order_trans set_drop_subset set_take_subset)
  ultimately have ne: "concat ?part \<noteq> []"
    using assms(1) by (metis concat_eq_Nil_conv hd_in_set subsetD)
  have "length (concat ?part) \<le> length (concat iov)"
    using length_concat_take [of max_iovcnt "drop (max_iovcnt * i) iov"]
      length_concat_drop [of "max_iovcnt * i" iov] by linarith
  then have "foldl (\<lambda>nb b. to_int (nb + int (length b))) 0 ?part = int (length (concat ?part))"
    using foldl_to_int [of 0 ?part] assms(3) by simp
  with ne show ?thesis by (simp add: batch_ok_def batch_iov_def Let_def)
qed


section \<open>The contract of a send method\<close>

locale send_method =
  fixes send :: "'s sock \<Rightarrow> nat \<Rightarrow> session_data \<Rightarrow> bytes list \<Rightarrow> 's \<Rightarrow>
    (session_data \<times> 's \<times> snd_log list) result"
  assumes delivers: "stream_sock K out stall B \<Longrightarrow> records_ok sd ps \<Longrightarrow> 0 < sk_mss K net \<Longrightarrow>
    write_fuel B (length (concat ps)) \<le> fuel \<Longrightarrow>
    \<exists>net'. send K fuel sd ps net = Inr (timers_done sd, net', []) \<and> out net' = out net @ concat ps"
begin

text \<open>Whatever the socket had accepted before stays in front.\<close>

lemma sends_twice:
  assumes "stream_sock K out stall B" "records_ok sd ps" "\<forall>net. 0 < sk_mss K net"
    and "write_fuel B (length (concat ps)) \<le> fuel"
  shows "\<exists>net'. rbind (send K fuel sd ps net) (\<lambda>(sd', net, log). send K fuel sd ps net) =
      Inr (timers_done sd, net', []) \<and> out net' = out net @ concat ps @ concat ps"
proof -
  obtain net1 where "send K fuel sd ps net = Inr (timers_done sd, net1, [])" "out net1 = out net @ concat ps"
    using delivers assms by blast
  moreover obtain net2 where
    "send K fuel sd ps net1 = Inr (timers_done sd, net2, [])" "out net2 = out net1 @ concat ps"
    using delivers assms by blast
  ultimately show ?thesis by simp
qed

end

interpretation write_m: send_method method_write
proof
  fix K :: "'s sock" and out stall B sd ps net fuel
  assume "stream_sock K out stall B" "records_ok sd ps"
  then obtain net' where "write_loop K ps net = (net', [])" "out net' = out net @ concat ps"
    using write_loop_spec [of K out stall B ps net] by (auto simp: records_ok_def)
  then show "\<exists>net'. method_write K fuel sd ps net = Inr (timers_done sd, net', []) \<and> out net' = out net @ concat ps"
    by (simp add: method_write_def)
qed

interpretation writev_m: send_method method_writev
proof
  fix K :: "'s sock" and out stall B sd ps net fuel
  assume A: "stream_sock K out stall B" "records_ok sd ps"
    "write_fuel B (length (concat ps)) \<le> fuel"
  let ?m = max_iovcnt and ?n = "length ps"
  define batches where "batches =
    map (\<lambda>i. (take ?m (drop (i * ?m) ps), int (?m * sizeof_data))) [0..<?n div ?m] @
    (if ?n mod ?m > 0
     then [(take (?n mod ?m) (drop (?n div ?m * ?m) ps), int (?n mod ?m * sizeof_data))] else [])"
  have len: "\<forall>d \<in> set ps. length d = sizeof_data" "length (concat ps) < 2 ^ 31"
    using A(2) length_concat_records [of ps] by (auto simp: records_ok_def)
  have part: "batch_ok (take k (drop j ps), int (k * sizeof_data))" if "j + k \<le> ?n" "0 < k" for j k
  proof -
    have "\<forall>d \<in> set (take k (drop j ps)). length d = sizeof_data"
      using len(1) by (meson in_set_dropD in_set_takeD)
    then have "length (concat (take k (drop j ps))) = sizeof_data * k"
      using length_concat_records [of "take k (drop j ps)"] that(1) by simp
    then show ?thesis
      using that(2) by (auto simp: batch_ok_def sizeof_data_def simp del: concat_eq_Nil_conv simp flip: length_0_conv)
  qed
  have "concat (map fst batches) = ps"
    by (auto simp: batches_def comp_def concat_chunks simp flip: take_add)
  moreover have "\<forall>b \<in> set batches. batch_ok b"
  proof -
    have "i * ?m + ?m \<le> ?n" if "i < ?n div ?m" for i
      using that by (metis Suc_leI add.commute less_eq_div_iff_mult_less_eq max_iovcnt_def mult_Suc zero_less_numeral)
    then have "batch_ok (take ?m (drop (i * ?m) ps), int (?m * sizeof_data))" if "i < ?n div ?m" for i
      using that by (intro part) (simp_all add: max_iovcnt_def)
    moreover have "batch_ok (take (?n mod ?m) (drop (?n div ?m * ?m) ps), int (?n mod ?m * sizeof_data))"
      if "0 < ?n mod ?m"
      using that by (intro part) simp_all
    ultimately show ?thesis by (auto simp: batches_def simp del: of_nat_mult)
  qed
  ultimately obtain net' where "send_batches K fuel batches net = Inr (net', [])"
    "out net' = out net @ concat ps"
    using send_batches_spec [OF A(1), of batches fuel net] len(2) A(3) by auto
  then show "\<exists>net'. method_writev K fuel sd ps net = Inr (timers_done sd, net', []) \<and> out net' = out net @ concat ps"
    by (simp add: method_writev_def Let_def batches_def)
qed

interpretation big_write_m: send_method method_big_write
proof
  fix K :: "'s sock" and out stall B sd ps net fuel
  assume A: "stream_sock K out stall B" "records_ok sd ps"
  obtain net' where "sk_block_write K net (concat ps) = (Bytes (int (length (concat ps))), net')"
    "out net' = out net @ concat ps"
    using stream_sockD(3) [OF A(1)] by blast
  then show "\<exists>net'. method_big_write K fuel sd ps net = Inr (timers_done sd, net', []) \<and> out net' = out net @ concat ps"
    by (simp add: method_big_write_def combine_datas_spec [OF A] read_range_def log_ret_def)
qed

interpretation assemble_write_m: send_method method_assemble_write
proof
  fix K :: "'s sock" and out stall B sd ps net fuel
  assume A: "stream_sock K out stall B" "records_ok sd ps" "0 < sk_mss K net"
    "write_fuel B (length (concat ps)) \<le> fuel"
  have "length (concat ps) < fuel" using A(4) by (simp add: write_fuel_def)
  then obtain net' where "assemble_loop K fuel (sk_mss K net) (concat ps) 0 (int (length (concat ps))) net =
      Inr (net', [])" "out net' = out net @ concat ps"
    using assemble_loop_spec [OF A(1,3), of "concat ps" 0 fuel "int (length (concat ps))" net] by auto
  then show "\<exists>net'. method_assemble_write K fuel sd ps net = Inr (timers_done sd, net', []) \<and> out net' = out net @ concat ps"
    by (simp add: method_assemble_write_def combine_datas_spec [OF A(1,2)])
qed

interpretation assemble_writev_m: send_method method_assemble_writev
proof
  fix K :: "'s sock" and out stall B sd ps net fuel
  assume A: "stream_sock K out stall B" "records_ok sd ps" "0 < sk_mss K net"
    "write_fuel B (length (concat ps)) \<le> fuel"
  obtain m where m: "sk_mss K net = int m" "0 < m" using A(3) by (metis zero_less_imp_eq_int)
  let ?r = "length (concat ps)"
  have small: "?r < 2 ^ 31" using A(2) length_concat_records [of ps] by (simp add: records_ok_def)
  obtain iov where iov: "build_iov (segments ?r m) (int m) (concat ps) 0 (int ?r) = Inr (iov, 0)"
    "concat iov = concat ps" "length iov = segments ?r m" "[] \<notin> set iov"
    using build_iov_spec [OF m(2), of 0 ?r "concat ps"] by auto
  define k where "k = segments (segments ?r m) max_iovcnt"
  have k: "length iov \<le> k * max_iovcnt" using segments_ge [of max_iovcnt] iov(3) by (simp add: k_def max_iovcnt_def)
  have below: "max_iovcnt * i < length iov" if "i < k" for i
    using below_segments [OF that [unfolded k_def]] iov(3) by (simp add: max_iovcnt_def)
  have "concat (map fst (map (batch_iov iov) [0..<k])) = iov"
    using k concat_chunks [of max_iovcnt iov k] by (simp add: batch_iov_def Let_def comp_def mult.commute)
  moreover have "\<forall>b \<in> set (map (batch_iov iov) [0..<k]). batch_ok b"
    using batch_iov_ok [OF iov(4) below] small iov(2) by auto
  ultimately obtain net' where "send_batches K fuel (map (batch_iov iov) [0..<k]) net = Inr (net', [])"
    "out net' = out net @ concat ps"
    using send_batches_spec [OF A(1), of "map (batch_iov iov) [0..<k]" fuel net] small A(4) iov(2) by auto
  then show "\<exists>net'. method_assemble_writev K fuel sd ps net = Inr (timers_done sd, net', []) \<and> out net' = out net @ concat ps"
    using iov(1) m
    by (simp add: method_assemble_writev_def combine_datas_spec [OF A(1,2)] int_segments Let_def k_def)
qed

section \<open>The send thread and the echo\<close>

definition send_methods :: "string list" where
  "send_methods = [SND_METHOD_WRITE, SND_METHOD_WRITEV, SND_METHOD_BIG_WRITE, SND_METHOD_ASSEMBLE_WRITE,
     SND_METHOD_ASSEMBLE_WRITEV]"

lemmas snd_method_names = SND_METHOD_WRITE_def SND_METHOD_WRITEV_def SND_METHOD_BIG_WRITE_def
  SND_METHOD_ASSEMBLE_WRITE_def SND_METHOD_ASSEMBLE_WRITEV_def

lemma raw_records_ok:
  assumes "stream_sock K out stall B" "sizeof_data \<le> round_up (sizeof_data + 128) 1024"
  shows "length (raw_records K round_up n) = n" "\<forall>d \<in> set (raw_records K round_up n). length d = sizeof_data"
proof -
  show "length (raw_records K round_up n) = n" by (simp add: raw_records_def Let_def)
  let ?raw = "round_up (sizeof_data + 128) 1024"
  have "sizeof_data \<le> ?raw * n - ?raw * i" if "i < n" for i
  proof -
    have "?raw * Suc i \<le> ?raw * n" using that by (intro mult_le_mono2) simp
    then show ?thesis using assms(2) by simp
  qed
  then show "\<forall>d \<in> set (raw_records K round_up n). length d = sizeof_data"
    using stream_sockD(1) [OF assms(1)] by (auto simp: raw_records_def Let_def)
qed

text \<open>What every method does in the send thread.\<close>

lemma send_thread_delivers:
  assumes "stream_sock K out stall B" "sizeof_data \<le> round_up (sizeof_data + 128) 1024"
    and "cfg_method cfg \<in> set send_methods" "sizeof_data * cfg_n cfg < 2 ^ 31" "0 < sk_mss K net"
    and "write_fuel B (sizeof_data * cfg_n cfg) \<le> fuel"
  shows "\<exists>net'. snd_data_thread_routine K round_up fuel cfg sd net =
      Inr (timers_done (sd\<lparr>sd_total_data_nbytes := sizeof_data * cfg_n cfg\<rparr>), net', []) \<and>
    out net' = out net @ concat (raw_records K round_up (cfg_n cfg))"
proof -
  let ?sd = "sd\<lparr>sd_total_data_nbytes := sizeof_data * cfg_n cfg\<rparr>"
  let ?ps = "raw_records K round_up (cfg_n cfg)"
  note raw = raw_records_ok [OF assms(1), of round_up "cfg_n cfg", OF assms(2)]
  have ok: "records_ok ?sd ?ps" using raw assms(4) by (simp add: records_ok_def)
  have len: "write_fuel B (length (concat ?ps)) \<le> fuel"
    using length_concat_records [OF raw(2)] raw(1) assms(6) by simp
  have wrap: "sizeof_data * cfg_n cfg mod 2 ^ 64 = sizeof_data * cfg_n cfg" using assms(4) by simp
  consider "cfg_method cfg = SND_METHOD_WRITE" | "cfg_method cfg = SND_METHOD_WRITEV"
    | "cfg_method cfg = SND_METHOD_BIG_WRITE" | "cfg_method cfg = SND_METHOD_ASSEMBLE_WRITE"
    | "cfg_method cfg = SND_METHOD_ASSEMBLE_WRITEV"
    using assms(3) by (auto simp: send_methods_def)
  then show ?thesis
    unfolding snd_data_thread_routine_def Let_def wrap
    using write_m.delivers [OF assms(1) ok assms(5) len] writev_m.delivers [OF assms(1) ok assms(5) len]
      big_write_m.delivers [OF assms(1) ok assms(5) len] assemble_write_m.delivers [OF assms(1) ok assms(5) len]
      assemble_writev_m.delivers [OF assms(1) ok assms(5) len]
    by cases (simp_all only: snd_method_names, simp_all)
qed





text \<open>A socket that asks to try again before each byte, for the witnesses.\<close>

definition slow_sock :: "(bytes \<times> bool) sock" where
  "slow_sock = \<lparr>sk_writev = (\<lambda>(b, wait) iov.
       if wait then (EventError WOULDBLOCK, (b, False)) else (Bytes 1, (b @ take 1 (concat iov), True))),
     sk_block_write = (\<lambda>(b, wait) d. (Bytes (int (length d)), (b @ d, wait))),
     sk_mss = (\<lambda>_. 100), sk_fresh = (\<lambda>n. replicate n 0xab)\<rparr>"

lemma slow_sock_stream: "stream_sock slow_sock fst (\<lambda>s. if snd s then 1 else 0) 1"
proof -
  have "\<exists>net'. (\<exists>k. sk_writev slow_sock net iov = (Bytes (int k), net') \<and> 0 < k \<and> k \<le> length (concat iov) \<and>
        fst net' = fst net @ take k (concat iov)) \<or>
      (\<exists>e. sk_writev slow_sock net iov = (EventError e, net') \<and> retryable e \<and> fst net' = fst net \<and>
        (if snd net' then 1 else 0 :: nat) < (if snd net then 1 else 0))"
    if "concat iov \<noteq> []" for net iov
  proof (cases "snd net")
    case True
    then have "sk_writev slow_sock net iov = (EventError WOULDBLOCK, (fst net, False)) \<and> retryable WOULDBLOCK \<and>
        fst (fst net, False) = fst net \<and> (if snd (fst net, False) then 1 else 0 :: nat) < (if snd net then 1 else 0)"
      by (simp add: slow_sock_def retryable_def split_def)
    then show ?thesis by blast
  next
    case False
    have "1 \<le> length (concat iov)" using that by (simp add: Suc_le_eq del: concat_eq_Nil_conv)
    then have "sk_writev slow_sock net iov = (Bytes (int 1), (fst net @ take 1 (concat iov), True)) \<and> (0::nat) < 1 \<and>
        1 \<le> length (concat iov) \<and> fst (fst net @ take 1 (concat iov), True) = fst net @ take 1 (concat iov)"
      using False by (simp add: slow_sock_def split_def)
    then show ?thesis by blast
  qed
  moreover have "sk_block_write slow_sock net d = (Bytes (int (length d)), (fst net @ d, snd net))" for net d
    by (simp add: slow_sock_def split_def)
  moreover have "length (sk_fresh slow_sock n) = n" for n by (simp add: slow_sock_def)
  ultimately show ?thesis unfolding stream_sock_def by simp
qed

text \<open>
  C5. Each of the five send methods hands the same byte stream to the socket, the records in order, and
  logs no error, on every socket that accepts blocking writes and makes progress on vectored ones, as
  long as the byte count fits an \<open>int\<close> and the maximum segment size is positive.
\<close>

theorem send_methods_agree:
  assumes "stream_sock K out stall B" "sizeof_data \<le> round_up (sizeof_data + 128) 1024"
    and "cfg_method cfg \<in> set send_methods" "sizeof_data * cfg_n cfg < 2 ^ 31" "0 < sk_mss K net"
    and "write_fuel B (sizeof_data * cfg_n cfg) \<le> fuel"
  shows "\<exists>sd' net'. snd_data_thread_routine K round_up fuel cfg sd net = Inr (sd', net', []) \<and>
    out net' = out net @ concat (raw_records K round_up (cfg_n cfg)) \<and>
    sd_w_tc sd' = TcEnded \<and> sd_total_data_nbytes sd' = sizeof_data * cfg_n cfg"
  using send_thread_delivers [where round_up = round_up and sd = sd, OF assms] by (auto simp: timers_done_def)

definition demo_session :: session_data where
  "demo_session = \<lparr>sd_local_ip = [], sd_local_port = 0, sd_remote_ip = [], sd_remote_port = 0,
     sd_rcv_bufsize = 0, sd_snd_bufsize = 0, sd_cfg = None, sd_total_data_nbytes = 0,
     sd_total_rcv_nbytes = 0, sd_w_tc = TcInit, sd_r_tc = TcInit, sd_joins = 0\<rparr>"

theorem send_methods_agree_witness:
  "\<exists>sd' net'. snd_data_thread_routine slow_sock (\<lambda>_ m. m) 2000
      (default_cfg\<lparr>cfg_method := ''assemble_writev'', cfg_n := 2\<rparr>) demo_session ([], False) =
      Inr (sd', net', []) \<and> fst net' = concat (raw_records slow_sock (\<lambda>_ m. m) 2)"
  using send_methods_agree [where round_up = "\<lambda>_ m. m" and fuel = 2000 and
      cfg = "default_cfg\<lparr>cfg_method := ''assemble_writev'', cfg_n := 2\<rparr>" and sd = demo_session and
      net = "([], False)", OF slow_sock_stream]
  by (auto simp: sizeof_data_def send_methods_def snd_method_names write_fuel_def slow_sock_def)




lemma raw_records_slow:
  "concat (raw_records slow_sock (\<lambda>_ m. m) 1) = replicate 320 0xab"
  by (simp add: raw_records_def slow_sock_def sizeof_data_def)


text \<open>A report whose byte count stays complete is made again.\<close>

lemma client_reports_again:
  "client_on_message reads sd = (sd', True) \<Longrightarrow>
    \<exists>sd''. client_on_message [] sd' = (sd'', True) \<and> sd_joins sd'' = sd_joins sd' + 1"
  by (auto simp: client_on_message_def Let_def split: if_splits)

lemma assemble_loop_zero_mss:
  "0 < r \<Longrightarrow> p \<le> length datas \<Longrightarrow> assemble_loop K fuel 0 datas p r net = Inl Diverges"
proof (induction fuel arbitrary: net)
  case (Suc fuel)
  then show ?case by (simp add: Let_def read_range_def split: prod.splits)
qed simp

text \<open>
  The two assembling methods rely on a positive segment size, which the code does not check after
  \<open>getsockopt\<close>: with the value 0 the first writes empty pieces for ever and the second divides by zero.
\<close>

theorem zero_mss_fails:
  assumes "stream_sock K out stall B" "records_ok sd ps" "ps \<noteq> []" "sk_mss K net = 0"
  shows "method_assemble_write K fuel sd ps net = Inl Diverges \<and>
    method_assemble_writev K fuel sd ps net = Inl DivByZero"
proof
  have "0 < length (concat ps)"
    using length_concat_records [of ps] assms(2,3) by (simp add: records_ok_def sizeof_data_def)
  then show "method_assemble_write K fuel sd ps net = Inl Diverges"
    using assemble_loop_zero_mss [of "int (length (concat ps))" 0 "concat ps" K fuel net] assms(4)
    by (simp add: method_assemble_write_def combine_datas_spec [OF assms(1,2)])
  show "method_assemble_writev K fuel sd ps net = Inl DivByZero"
    using assms(4) by (simp add: method_assemble_writev_def combine_datas_spec [OF assms(1,2)])
qed

lemma stream_sock_mss: "stream_sock (K\<lparr>sk_mss := f\<rparr>) out stall B = stream_sock K out stall B"
  by (simp add: stream_sock_def)

theorem zero_mss_fails_witness:
  "method_assemble_write (slow_sock\<lparr>sk_mss := \<lambda>_. 0\<rparr>) 1000 (demo_session\<lparr>sd_total_data_nbytes := 320\<rparr>)
      [replicate 320 0] ([], False) = Inl Diverges \<and>
   method_assemble_writev (slow_sock\<lparr>sk_mss := \<lambda>_. 0\<rparr>) 1000 (demo_session\<lparr>sd_total_data_nbytes := 320\<rparr>)
      [replicate 320 0] ([], False) = Inl DivByZero"
  by (rule zero_mss_fails [where stall = "\<lambda>s. if snd s then 1 else 0" and out = fst and B = 1])
    (simp_all add: stream_sock_mss slow_sock_stream [simplified] records_ok_def sizeof_data_def)

text \<open>
  The methods that copy the records into one block count its bytes in an \<open>int\<close>: from
  6710887 records on (up to the next wrap-around) the size is negative, the allocation fails and the
  copy dereferences the null pointer.
\<close>

theorem many_records_overflow:
  assumes "cfg_method cfg \<in> {SND_METHOD_BIG_WRITE, SND_METHOD_ASSEMBLE_WRITE, SND_METHOD_ASSEMBLE_WRITEV}"
    and "2 ^ 31 \<le> sizeof_data * cfg_n cfg" "sizeof_data * cfg_n cfg < 2 ^ 32"
  shows "snd_data_thread_routine K round_up fuel cfg sd net = Inl NullDeref"
proof -
  define b where "b = sizeof_data * cfg_n cfg"
  have b: "2 ^ 31 \<le> b" "b < 2 ^ 32" using assms(2,3) by (simp_all add: b_def)
  have "(int b + 2 ^ 31) mod 2 ^ 32 = int b + 2 ^ 31 - 2 ^ 32"
    using b by (intro mod_pos_pos_trivial [THEN trans [OF minus_mod_self2 [symmetric]]]) simp_all
  then have neg: "to_int (int b) < 0" using b(2) by (simp add: to_int_mod)
  have "cfg_n cfg \<noteq> 0" using assms(2) by (cases "cfg_n cfg") auto
  then have ne: "raw_records K round_up (cfg_n cfg) \<noteq> []" by (simp add: raw_records_def Let_def)
  have "b mod 2 ^ 64 = b" using b by simp
  then show ?thesis
    using assms(1) neg ne
    by (auto simp: snd_data_thread_routine_def Let_def b_def [symmetric] method_big_write_def
        method_assemble_write_def method_assemble_writev_def combine_datas_def snd_method_names)
qed

theorem many_records_overflow_witness:
  "snd_data_thread_routine slow_sock (\<lambda>_ m. m) 10 (default_cfg\<lparr>cfg_method := ''big_write'', cfg_n := 6710887\<rparr>)
     demo_session ([], False) = Inl NullDeref"
  by (rule many_records_overflow) (simp_all add: snd_method_names sizeof_data_def)

end
