(* ===== verification/EventLoop.thy ===== *)
theory EventLoop
  imports Prelude "HOL-Library.Signed_Division" "HOL-Library.Multiset"
begin

text \<open>
  The two event loops of src/play/c/event_loop/example_linux: epoll_eventfd/evloop_epoll.c on \<open>epoll\<close> and
  select_eventfd/evloop_select.c on \<open>select\<close>. Both watch the file descriptors of registered contexts and
  an \<open>eventfd\<close> that other threads write to wake the loop.

  A callback acts on the world of the client and on the loop through its interface: it returns the new
  world, the contexts it registers with \<open>evloop_add_ctx\<close> and whether it sets the exit flag. What the
  kernel returns (descriptors, the outcome of each wait, the time) is an argument; the eventfd counter
  and, for \<open>epoll\<close>, the set of watched contexts are part of the state.

  The locale \<open>ev_backend\<close> is the registration contract that both loops interpret.
\<close>

section \<open>Contexts, callbacks and the timer\<close>

record ev_context =
  ec_fd :: int
  ec_data :: nat

record timespec =
  tv_sec :: int
  tv_nsec :: int

type_synonym 'w fn_evloop_callback = "'w \<Rightarrow> ev_context option \<Rightarrow> 'w \<times> ev_context list \<times> bool"

record 'w ev_callbacks =
  read_cb :: "'w fn_evloop_callback option"
  err_cb :: "'w fn_evloop_callback option"
  wake_cb :: "'w fn_evloop_callback option"
  timer_cb :: "'w fn_evloop_callback option"

definition no_callbacks :: "'w ev_callbacks" where
  "no_callbacks = \<lparr>read_cb = None, err_cb = None, wake_cb = None, timer_cb = None\<rparr>"

definition evloop_set_cb_read :: "'w fn_evloop_callback \<Rightarrow> 'w ev_callbacks \<Rightarrow> 'w ev_callbacks" where
  "evloop_set_cb_read cb CB = CB\<lparr>read_cb := Some cb\<rparr>"

definition evloop_set_cb_error :: "'w fn_evloop_callback \<Rightarrow> 'w ev_callbacks \<Rightarrow> 'w ev_callbacks" where
  "evloop_set_cb_error cb CB = CB\<lparr>err_cb := Some cb\<rparr>"

definition evloop_set_cb_timer :: "'w fn_evloop_callback \<Rightarrow> 'w ev_callbacks \<Rightarrow> 'w ev_callbacks" where
  "evloop_set_cb_timer cb CB = CB\<lparr>timer_cb := Some cb\<rparr>"

text \<open>Milliseconds between two times, the difference of the nanoseconds rounded towards zero.\<close>

definition interval_ms :: "timespec \<Rightarrow> timespec \<Rightarrow> int" where
  "interval_ms prev now =
     to_int ((tv_sec now - tv_sec prev) * 1000 + (tv_nsec now - tv_nsec prev) sdiv 1000000)"

text \<open>What both loops keep: the eventfd context and its counter, exit flag, timer, thread and client world.\<close>

record 'w loop_base =
  evfd_ctx :: ev_context
  ev_count :: nat
  exit_flag :: bool
  last_ts :: timespec
  timeout :: int
  loop_thread :: nat
  world :: 'w

definition evloop_set_timer :: "int \<Rightarrow> ('w, 'z) loop_base_scheme \<Rightarrow> ('w, 'z) loop_base_scheme" where
  "evloop_set_timer t L = L\<lparr>timeout := t\<rparr>"

definition evloop_set_cb_wakeup ::
  "'w fn_evloop_callback \<Rightarrow> nat \<Rightarrow> 'w ev_callbacks \<times> ('w, 'z) loop_base_scheme \<Rightarrow>
   'w ev_callbacks \<times> ('w, 'z) loop_base_scheme" where
  "evloop_set_cb_wakeup cb d = (\<lambda>(CB, L).
     (CB\<lparr>wake_cb := Some cb\<rparr>, L\<lparr>evfd_ctx := (evfd_ctx L)\<lparr>ec_data := d\<rparr>\<rparr>))"

text \<open>Writing 1 to the eventfd: a non-blocking write fails when the counter is at its maximum.\<close>

definition evloop_wakeup :: "('w, 'z) loop_base_scheme \<Rightarrow> ('w, 'z) loop_base_scheme" where
  "evloop_wakeup L = (if ev_count L + 1 < 2 ^ 64 - 1 then L\<lparr>ev_count := ev_count L + 1\<rparr> else L)"

text \<open>
  A callback in the loop: \<open>add\<close> is the \<open>evloop_add_ctx\<close> of the loop, whose result code is ignored.
\<close>

definition run_cb ::
  "(ev_context \<Rightarrow> ('w, 'z) loop_base_scheme \<Rightarrow> ('w, 'z) loop_base_scheme result) \<Rightarrow>
   'w fn_evloop_callback option \<Rightarrow> ev_context option \<Rightarrow> ('w, 'z) loop_base_scheme \<Rightarrow>
   ('w, 'z) loop_base_scheme result" where
  "run_cb add cb ctx L =
     (case cb of
        None \<Rightarrow> Inr L
      | Some f \<Rightarrow>
          (case f (world L) ctx of (w, added, ex) \<Rightarrow>
             foldl (\<lambda>r c. rbind r (add c)) (Inr (L\<lparr>world := w, exit_flag := exit_flag L \<or> ex\<rparr>)) added))"

definition evloop_handle_timer ::
  "(ev_context \<Rightarrow> ('w, 'z) loop_base_scheme \<Rightarrow> ('w, 'z) loop_base_scheme result) \<Rightarrow>
   'w ev_callbacks \<Rightarrow> timespec \<Rightarrow> ('w, 'z) loop_base_scheme \<Rightarrow> ('w, 'z) loop_base_scheme result" where
  "evloop_handle_timer add CB curr_ts L =
     (if timer_cb CB = None then Inr L
      else if interval_ms (last_ts L) curr_ts \<ge> timeout L then
        rbind (run_cb add (timer_cb CB) None L) (\<lambda>L. Inr (L\<lparr>last_ts := curr_ts\<rparr>))
      else Inr L)"

section \<open>The loop on epoll\<close>

text \<open>
  \<open>watch_evfd\<close> and \<open>watch\<close> are what the kernel watches; \<open>open_fds\<close> are the descriptors the loop has opened
  and not closed; 0 stands for no descriptor.
\<close>

record 'w epoll_loop = "'w loop_base" +
  epfd :: int
  watch_evfd :: bool
  watch :: "ev_context list"
  open_fds :: "int list"

text \<open>The system calls of the initialisation: -1 is failure.\<close>

record epoll_kernel =
  k_epoll_create1 :: int
  k_eventfd :: int
  k_ctl_add :: "int \<Rightarrow> bool"

definition epoll_close :: "int \<Rightarrow> 'w epoll_loop \<Rightarrow> 'w epoll_loop" where
  "epoll_close fd L = L\<lparr>open_fds := remove1 fd (open_fds L)\<rparr>"

definition epoll_destroy :: "'w epoll_loop \<Rightarrow> 'w epoll_loop" where
  "epoll_destroy L =
     (let L = (if epfd L > 0 then (epoll_close (epfd L) L)\<lparr>epfd := 0\<rparr> else L)
      in if ec_fd (evfd_ctx L) > 0
         then (epoll_close (ec_fd (evfd_ctx L)) L)\<lparr>evfd_ctx := (evfd_ctx L)\<lparr>ec_fd := 0\<rparr>\<rparr> else L)"

definition epoll_zero :: "'w \<Rightarrow> 'w epoll_loop" where
  "epoll_zero w = \<lparr>evfd_ctx = \<lparr>ec_fd = 0, ec_data = 0\<rparr>, ev_count = 0, exit_flag = False,
     last_ts = \<lparr>tv_sec = 0, tv_nsec = 0\<rparr>, timeout = 0, loop_thread = 0, world = w,
     epfd = 0, watch_evfd = False, watch = [], open_fds = []\<rparr>"

definition epoll_init :: "epoll_kernel \<Rightarrow> nat \<Rightarrow> 'w \<Rightarrow> int \<times> 'w epoll_loop" where
  "epoll_init K thread w =
     (let L = epoll_zero w in
      if k_epoll_create1 K = -1 then (-1, epoll_destroy L)
      else
        let L = L\<lparr>epfd := k_epoll_create1 K, open_fds := [k_epoll_create1 K]\<rparr> in
        if k_eventfd K = -1 then (-1, epoll_destroy L)
        else
          let L = L\<lparr>evfd_ctx := (evfd_ctx L)\<lparr>ec_fd := k_eventfd K\<rparr>, open_fds := k_eventfd K # open_fds L\<rparr> in
          if \<not> k_ctl_add K (k_eventfd K) then (-1, epoll_destroy L)
          else (0, L\<lparr>watch_evfd := True, timeout := -1, loop_thread := thread\<rparr>))"

definition epoll_add_ctx :: "epoll_kernel \<Rightarrow> nat \<Rightarrow> ev_context \<Rightarrow> 'w epoll_loop \<Rightarrow> int \<times> 'w epoll_loop" where
  "epoll_add_ctx K thread ctx L =
     (if loop_thread L \<noteq> thread then (-1, L)
      else if \<not> k_ctl_add K (ec_fd ctx) then (-1, L)
      else (0, L\<lparr>watch := watch L @ [ctx]\<rparr>))"

text \<open>
  One event of \<open>epoll_wait\<close>: the eventfd (\<open>None\<close>) or a context, and whether \<open>EPOLLIN\<close>, and one of
  \<open>EPOLLERR\<close> and \<open>EPOLLHUP\<close>, are set. One outcome of \<open>epoll_wait\<close>, with the time after it.
\<close>

type_synonym epoll_event = "ev_context option \<times> bool \<times> bool"

datatype 'e wait = Ready 'e | TimedOut | WaitFailed

definition epoll_add :: "epoll_kernel \<Rightarrow> ev_context \<Rightarrow> 'w epoll_loop \<Rightarrow> 'w epoll_loop result" where
  "epoll_add K ctx L = Inr (snd (epoll_add_ctx K (loop_thread L) ctx L))"

definition epoll_handle_event ::
  "epoll_kernel \<Rightarrow> 'w ev_callbacks \<Rightarrow> epoll_event \<Rightarrow> 'w epoll_loop \<Rightarrow> 'w epoll_loop result" where
  "epoll_handle_event K CB ev L =
     (case ev of (ptr, inp, err) \<Rightarrow>
        if inp then
          (case ptr of
             None \<Rightarrow> run_cb (epoll_add K) (wake_cb CB) (Some (evfd_ctx L)) (L\<lparr>ev_count := 0\<rparr>)
           | Some ctx \<Rightarrow> run_cb (epoll_add K) (read_cb CB) (Some ctx) L)
        else if err then
          (case ptr of
             None \<Rightarrow> run_cb (epoll_add K) (err_cb CB) (Some (evfd_ctx L)) (L\<lparr>watch_evfd := False\<rparr>)
           | Some ctx \<Rightarrow>
               run_cb (epoll_add K) (err_cb CB) (Some ctx)
                 (L\<lparr>watch := filter (\<lambda>c. ec_fd c \<noteq> ec_fd ctx) (watch L)\<rparr>))
        else Inr L)"

text \<open>The array that \<open>epoll_wait\<close> fills has 64 entries: of more events the first 64 are reported, the others by a later call.\<close>

definition epoll_round ::
  "epoll_kernel \<Rightarrow> 'w ev_callbacks \<Rightarrow> timespec \<times> epoll_event list wait \<Rightarrow> 'w epoll_loop \<Rightarrow>
   'w epoll_loop result" where
  "epoll_round K CB tw L =
     (case tw of (now, w) \<Rightarrow>
        (case w of
           Ready events \<Rightarrow>
             rbind (foldl (\<lambda>r ev. rbind r (epoll_handle_event K CB ev)) (Inr L) (take 64 events)) (\<lambda>L.
             if timeout L > 0 then evloop_handle_timer (epoll_add K) CB now L else Inr L)
         | TimedOut \<Rightarrow> evloop_handle_timer (epoll_add K) CB now L
         | WaitFailed \<Rightarrow> Inr (L\<lparr>exit_flag := True\<rparr>)))"

text \<open>The loop over the outcomes of \<open>epoll_wait\<close>; the flag tells whether it was left.\<close>

fun epoll_rounds ::
  "epoll_kernel \<Rightarrow> 'w ev_callbacks \<Rightarrow> (timespec \<times> epoll_event list wait) list \<Rightarrow> 'w epoll_loop \<Rightarrow>
   ('w epoll_loop \<times> bool) result" where
  "epoll_rounds K CB [] L = Inr (L, False)"
| "epoll_rounds K CB (tw # tws) L =
     rbind (epoll_round K CB tw L) (\<lambda>L.
     if exit_flag L then Inr (L, True) else epoll_rounds K CB tws L)"

definition epoll_run ::
  "epoll_kernel \<Rightarrow> 'w ev_callbacks \<Rightarrow> nat \<Rightarrow> (timespec \<times> epoll_event list wait) list \<Rightarrow> 'w epoll_loop \<Rightarrow>
   ('w epoll_loop \<times> bool) result" where
  "epoll_run K CB thread tws L = epoll_rounds K CB tws (L\<lparr>loop_thread := thread\<rparr>)"

section \<open>The loop on select\<close>

record 'w select_loop = "'w loop_base" +
  allset :: "int set"
  nfds :: int
  linked_list :: "ev_context list option"
  sel_fds :: "int list"

definition FD_SETSIZE :: int where
  "FD_SETSIZE = 1024"

text \<open>Setting a bit past the end of an \<open>fd_set\<close> writes past the object.\<close>

definition FD_SET :: "int \<Rightarrow> int set \<Rightarrow> int set result" where
  "FD_SET fd s = (if 0 \<le> fd \<and> fd < FD_SETSIZE then Inr (insert fd s) else Inl HeapOverflow)"

definition select_destroy :: "'w select_loop \<Rightarrow> 'w select_loop" where
  "select_destroy L =
     (let L = (if ec_fd (evfd_ctx L) \<noteq> -1
               then L\<lparr>sel_fds := remove1 (ec_fd (evfd_ctx L)) (sel_fds L),
                      evfd_ctx := (evfd_ctx L)\<lparr>ec_fd := -1\<rparr>\<rparr> else L)
      in L\<lparr>linked_list := None, allset := {}\<rparr>)"

text \<open>\<open>list_mem\<close> and \<open>list_ok\<close>: the allocation and the initialisation of the linked list succeed.\<close>

definition select_init ::
  "bool \<Rightarrow> (nat \<Rightarrow> bool) \<Rightarrow> int \<Rightarrow> nat \<Rightarrow> int \<Rightarrow> bool \<Rightarrow> 'w \<Rightarrow> (int \<times> 'w select_loop) result" where
  "select_init list_mem list_ok evfd thread hints_max_fd use_mem_pool w =
     (let L = \<lparr>evfd_ctx = \<lparr>ec_fd = -1, ec_data = 0\<rparr>, ev_count = 0, exit_flag = False,
                last_ts = \<lparr>tv_sec = 0, tv_nsec = 0\<rparr>, timeout = 0, loop_thread = 0, world = w,
                allset = {}, nfds = 0, linked_list = None, sel_fds = []\<rparr>;
          hints_max_fd = (if hints_max_fd < 1 then 8 else hints_max_fd);
          capacity = (if use_mem_pool then nat hints_max_fd else 0)
      in if \<not> list_mem then Inr (-1, select_destroy L)
         else if \<not> list_ok capacity then Inr (-1, select_destroy L)
         else
           let L = L\<lparr>linked_list := Some []\<rparr> in
           if evfd = -1 then Inr (-1, select_destroy L)
           else
             let L = L\<lparr>evfd_ctx := (evfd_ctx L)\<lparr>ec_fd := evfd\<rparr>, sel_fds := [evfd]\<rparr> in
             rbind (FD_SET evfd (allset L)) (\<lambda>s.
             Inr (0, L\<lparr>allset := s, nfds := evfd, timeout := -1, loop_thread := thread\<rparr>)))"

text \<open>\<open>node_ok\<close>: a node of the linked list can be allocated.\<close>

definition select_add_ctx ::
  "bool \<Rightarrow> nat \<Rightarrow> ev_context \<Rightarrow> 'w select_loop \<Rightarrow> (int \<times> 'w select_loop) result" where
  "select_add_ctx node_ok thread ctx L =
     (if loop_thread L \<noteq> thread then Inr (-1, L)
      else
        case linked_list L of
          None \<Rightarrow> Inl NullDeref
        | Some nodes \<Rightarrow>
            if \<not> node_ok then Inr (-1, L)
            else
              rbind (FD_SET (ec_fd ctx) (allset L)) (\<lambda>s.
              Inr (0, L\<lparr>linked_list := Some (nodes @ [ctx]), allset := s,
                        nfds := max (nfds L) (ec_fd ctx)\<rparr>)))"

definition select_add :: "bool \<Rightarrow> nat \<Rightarrow> ev_context \<Rightarrow> 'w select_loop \<Rightarrow> 'w select_loop result" where
  "select_add node_ok thread ctx L = rbind (select_add_ctx node_ok thread ctx L) (\<lambda>(ret, L). Inr L)"

text \<open>
  The walk along the linked list. \<open>i\<close> is the index of the node; the node after a removed one is looked
  up before the error callback runs. A callback can make the list longer, so the walk has fuel.
\<close>

fun select_nodes ::
  "(ev_context \<Rightarrow> 'w select_loop \<Rightarrow> 'w select_loop result) \<Rightarrow> 'w ev_callbacks \<Rightarrow> int set \<Rightarrow> int set \<Rightarrow> nat \<Rightarrow> nat \<Rightarrow> 'w select_loop \<Rightarrow>
   'w select_loop result" where
  "select_nodes add CB rset eset 0 i L = Inl Diverges"
| "select_nodes add CB rset eset (Suc fuel) i L =
     (case linked_list L of
        None \<Rightarrow> Inl NullDeref
      | Some nodes \<Rightarrow>
          if i < length nodes then
            let ctx = nodes ! i in
            rbind (if ec_fd ctx \<in> rset then run_cb add (read_cb CB) (Some ctx) L else Inr L) (\<lambda>L.
            if ec_fd ctx \<in> eset then
              (let nodes = the (linked_list L);
                   nodes = take i nodes @ drop (Suc i) nodes
               in rbind (run_cb add (err_cb CB) (Some ctx) (L\<lparr>linked_list := Some nodes\<rparr>)) (\<lambda>L.
                  if i < length nodes then select_nodes add CB rset eset fuel i L else Inr L))
            else
              rbind (FD_SET (ec_fd ctx) (allset L)) (\<lambda>s.
              select_nodes add CB rset eset fuel (Suc i)
                (L\<lparr>allset := s, nfds := max (nfds L) (ec_fd ctx)\<rparr>)))
          else Inr L)"

text \<open>An outcome of \<open>select\<close> is the pair of the sets of readable and of exceptional descriptors.\<close>

definition select_round ::
  "(ev_context \<Rightarrow> 'w select_loop \<Rightarrow> 'w select_loop result) \<Rightarrow> 'w ev_callbacks \<Rightarrow> nat \<Rightarrow> timespec \<times> (int set \<times> int set) wait \<Rightarrow> 'w select_loop \<Rightarrow>
   'w select_loop result" where
  "select_round add CB fuel tw L =
     (case tw of (now, w) \<Rightarrow>
        (case w of
           Ready (rset, eset) \<Rightarrow>
             rbind (if ec_fd (evfd_ctx L) \<in> rset
                    then run_cb add (wake_cb CB) (Some (evfd_ctx L)) (L\<lparr>allset := {}, ev_count := 0\<rparr>)
                    else Inr (L\<lparr>allset := {}\<rparr>)) (\<lambda>L.
             rbind (FD_SET (ec_fd (evfd_ctx L)) (allset L)) (\<lambda>s.
             rbind (select_nodes add CB rset eset fuel 0
                      (L\<lparr>allset := s, nfds := ec_fd (evfd_ctx L)\<rparr>)) (\<lambda>L.
             if timeout L > 0 then evloop_handle_timer add CB now L else Inr L)))
         | TimedOut \<Rightarrow> evloop_handle_timer add CB now L
         | WaitFailed \<Rightarrow> Inr (L\<lparr>exit_flag := True\<rparr>)))"

fun select_rounds ::
  "(ev_context \<Rightarrow> 'w select_loop \<Rightarrow> 'w select_loop result) \<Rightarrow> 'w ev_callbacks \<Rightarrow> nat \<Rightarrow> (timespec \<times> (int set \<times> int set) wait) list \<Rightarrow> 'w select_loop \<Rightarrow>
   ('w select_loop \<times> bool) result" where
  "select_rounds add CB fuel [] L = Inr (L, False)"
| "select_rounds add CB fuel (tw # tws) L =
     rbind (select_round add CB fuel tw L) (\<lambda>L.
     if exit_flag L then Inr (L, True) else select_rounds add CB fuel tws L)"

text \<open>Unlike the loop on \<open>epoll\<close>, this one does not record the thread that runs it.\<close>

definition select_run ::
  "bool \<Rightarrow> 'w ev_callbacks \<Rightarrow> nat \<Rightarrow> nat \<Rightarrow> (timespec \<times> (int set \<times> int set) wait) list \<Rightarrow>
   'w select_loop \<Rightarrow> ('w select_loop \<times> bool) result" where
  "select_run node_ok CB thread fuel tws L = select_rounds (select_add node_ok thread) CB fuel tws L"

section \<open>The registration contract\<close>

text \<open>A callback that registers at most \<open>A\<close> contexts per call, all with property \<open>P\<close>.\<close>

definition cb_reg :: "(ev_context \<Rightarrow> bool) \<Rightarrow> nat \<Rightarrow> 'w fn_evloop_callback option \<Rightarrow> bool" where
  "cb_reg P A cb \<longleftrightarrow> (\<forall>f. cb = Some f \<longrightarrow>
     (\<forall>w ctx. length (fst (snd (f w ctx))) \<le> A \<and> (\<forall>c \<in> set (fst (snd (f w ctx))). P c)))"

text \<open>
  \<open>registered\<close> are the contexts of the loop, \<open>can\<close> those the kernel accepts, \<open>ready\<close> the states in which
  the running thread may register.
\<close>

locale ev_backend =
  fixes add :: "ev_context \<Rightarrow> ('w, 'z) loop_base_scheme \<Rightarrow> ('w, 'z) loop_base_scheme result"
    and registered :: "('w, 'z) loop_base_scheme \<Rightarrow> ev_context list"
    and can :: "ev_context \<Rightarrow> bool"
    and ready :: "('w, 'z) loop_base_scheme \<Rightarrow> bool"
  assumes add_appends: "ready L \<Longrightarrow> can c \<Longrightarrow>
      \<exists>L'. add c L = Inr L' \<and> ready L' \<and> registered L' = registered L @ [c] \<and>
        loop_base.truncate L' = loop_base.truncate L"
    and world_ready: "ready L \<Longrightarrow> ready (L\<lparr>world := w, exit_flag := e\<rparr>)"
    and world_registered: "registered (L\<lparr>world := w, exit_flag := e\<rparr>) = registered L"
begin

lemma add_all:
  assumes "ready L" "\<forall>c \<in> set cs. can c"
  shows "\<exists>L'. foldl (\<lambda>r c. rbind r (add c)) (Inr L) cs = Inr L' \<and> ready L' \<and>
    registered L' = registered L @ cs \<and> loop_base.truncate L' = loop_base.truncate L"
  using assms
proof (induction cs arbitrary: L)
  case (Cons c cs)
  obtain L1 where "add c L = Inr L1" "ready L1" "registered L1 = registered L @ [c]"
    "loop_base.truncate L1 = loop_base.truncate L"
    using add_appends Cons.prems by force
  with Cons.IH [of L1] Cons.prems(2) show ?case by auto
qed simp

text \<open>A callback changes the world and the exit flag and appends what it registers.\<close>

lemma run_cb_spec:
  assumes "ready L" "\<forall>w. \<forall>c \<in> set (fst (snd (f w ctx))). can c"
  shows "\<exists>L'. run_cb add (Some f) ctx L = Inr L' \<and> ready L' \<and>
    registered L' = registered L @ fst (snd (f (world L) ctx)) \<and>
    loop_base.truncate L' = loop_base.truncate
      (L\<lparr>world := fst (f (world L) ctx), exit_flag := exit_flag L \<or> snd (snd (f (world L) ctx))\<rparr>)"
proof -
  obtain w cs e where f: "f (world L) ctx = (w, cs, e)" by (metis surj_pair)
  then have "\<forall>c \<in> set cs. can c" using assms(2) by (metis fst_conv snd_conv)
  from add_all [OF world_ready [where w = w and e = "exit_flag L \<or> e", OF assms(1)] this]
  show ?thesis by (simp add: run_cb_def f world_registered)
qed

lemma run_cb_reg:
  assumes "ready L" "cb_reg P A cb" "\<forall>c. P c \<longrightarrow> can c"
  shows "\<exists>L' cs. run_cb add cb ctx L = Inr L' \<and> ready L' \<and> registered L' = registered L @ cs \<and>
    length cs \<le> A \<and> (\<forall>c \<in> set cs. P c) \<and> evfd_ctx L' = evfd_ctx L \<and> timeout L' = timeout L \<and>
    loop_thread L' = loop_thread L \<and> last_ts L' = last_ts L"
proof (cases cb)
  case None
  then show ?thesis using assms(1) by (auto simp: run_cb_def intro!: exI [of _ "[]"])
next
  case (Some f)
  let ?cs = "fst (snd (f (world L) ctx))"
  have P: "length ?cs \<le> A" "\<forall>c \<in> set ?cs. P c" using assms(2) by (simp_all add: cb_reg_def Some)
  have "\<forall>w. \<forall>c \<in> set (fst (snd (f w ctx))). can c" using assms(2,3) by (simp add: cb_reg_def Some)
  from run_cb_spec [where f = f, OF assms(1) this] obtain L' where
    L': "run_cb add cb ctx L = Inr L'" "ready L'" "registered L' = registered L @ ?cs"
    and base: "loop_base.truncate L' = loop_base.truncate
      (L\<lparr>world := fst (f (world L) ctx), exit_flag := exit_flag L \<or> snd (snd (f (world L) ctx))\<rparr>)"
    unfolding Some by blast
  from base have "evfd_ctx L' = evfd_ctx L" "timeout L' = timeout L" "loop_thread L' = loop_thread L"
    "last_ts L' = last_ts L"
    by (simp_all add: loop_base.truncate_def)
  with L' P show ?thesis by blast
qed

end

interpretation epoll_be: ev_backend "epoll_add K" watch "\<lambda>c. k_ctl_add K (ec_fd c)" "\<lambda>_. True"
  by unfold_locales (auto simp: epoll_add_def epoll_add_ctx_def loop_base.truncate_def)

definition fd_ok :: "ev_context \<Rightarrow> bool" where
  "fd_ok c \<longleftrightarrow> 0 \<le> ec_fd c \<and> ec_fd c < FD_SETSIZE"

definition select_ready :: "nat \<Rightarrow> 'w select_loop \<Rightarrow> bool" where
  "select_ready th L \<longleftrightarrow> linked_list L \<noteq> None \<and> loop_thread L = th"

definition nodes_of :: "'w select_loop \<Rightarrow> ev_context list" where
  "nodes_of L = (case linked_list L of None \<Rightarrow> [] | Some nodes \<Rightarrow> nodes)"

interpretation select_be: ev_backend "select_add True th" nodes_of fd_ok "select_ready th"
  by unfold_locales
    (auto simp: select_add_def select_add_ctx_def FD_SET_def fd_ok_def select_ready_def nodes_of_def
      loop_base.truncate_def)

section \<open>The select loop watches what is registered\<close>

definition watched :: "'w select_loop \<Rightarrow> int \<Rightarrow> bool" where
  "watched L fd \<longleftrightarrow> fd \<in> allset L \<and> fd \<le> nfds L"

text \<open>
  During the walk the contexts before \<open>i\<close> are watched again, and so are those that callbacks appended
  behind the \<open>n\<close> contexts of the beginning.
\<close>

definition walk_inv :: "nat \<Rightarrow> nat \<Rightarrow> nat \<Rightarrow> 'w select_loop \<Rightarrow> bool" where
  "walk_inv th i n L \<longleftrightarrow> select_ready th L \<and> n \<le> length (nodes_of L) \<and> (\<forall>c \<in> set (nodes_of L). fd_ok c) \<and>
     fd_ok (evfd_ctx L) \<and> watched L (ec_fd (evfd_ctx L)) \<and>
     (\<forall>j < length (nodes_of L). j < i \<or> n \<le> j \<longrightarrow> watched L (ec_fd (nodes_of L ! j)))"

definition select_inv :: "nat \<Rightarrow> 'w select_loop \<Rightarrow> bool" where
  "select_inv th L \<longleftrightarrow> select_ready th L \<and> (\<forall>c \<in> set (nodes_of L). fd_ok c) \<and>
     fd_ok (evfd_ctx L) \<and> watched L (ec_fd (evfd_ctx L)) \<and>
     (\<forall>c \<in> set (nodes_of L). watched L (ec_fd c))"

lemma walk_inv_add:
  assumes "walk_inv th i n L" "fd_ok c"
  shows "\<exists>L'. select_add True th c L = Inr L' \<and> walk_inv th i n L' \<and> nodes_of L' = nodes_of L @ [c] \<and>
    loop_base.truncate L' = loop_base.truncate L"
proof -
  obtain nodes where nodes: "linked_list L = Some nodes" "loop_thread L = th"
    using assms(1) by (auto simp: walk_inv_def select_ready_def)
  let ?L = "L\<lparr>linked_list := Some (nodes @ [c]), allset := insert (ec_fd c) (allset L),
    nfds := max (nfds L) (ec_fd c)\<rparr>"
  have mono: "watched L fd \<Longrightarrow> watched ?L fd" for fd by (auto simp: watched_def)
  have new: "watched ?L (ec_fd c)" by (simp add: watched_def)
  have n: "nodes_of L = nodes" "nodes_of ?L = nodes @ [c]" using nodes by (simp_all add: nodes_of_def)
  have "select_add True th c L = Inr ?L"
    using assms(2) nodes by (simp add: select_add_def select_add_ctx_def FD_SET_def fd_ok_def)
  moreover have "\<forall>j < length (nodes @ [c]). j < i \<or> n \<le> j \<longrightarrow> watched ?L (ec_fd ((nodes @ [c]) ! j))"
    using assms(1) mono new by (auto simp: walk_inv_def n nth_append less_Suc_eq)
  then have "walk_inv th i n ?L"
    using assms nodes mono unfolding walk_inv_def n by (simp add: select_ready_def)
  ultimately show ?thesis by (simp add: n loop_base.truncate_def)
qed

interpretation walk: ev_backend "select_add True th" nodes_of fd_ok "walk_inv th i n"
proof
  fix L :: "'w select_loop" and c
  assume "walk_inv th i n L" "fd_ok c"
  then show "\<exists>L'. select_add True th c L = Inr L' \<and> walk_inv th i n L' \<and> nodes_of L' = nodes_of L @ [c] \<and>
      loop_base.truncate L' = loop_base.truncate L"
    by (rule walk_inv_add)
qed (simp_all add: walk_inv_def select_ready_def watched_def nodes_of_def)

lemma walk_inv_end: "walk_inv th i n L \<Longrightarrow> n \<le> i \<or> length (nodes_of L) \<le> i \<Longrightarrow> select_inv th L"
  unfolding walk_inv_def select_inv_def by (auto simp: in_set_conv_nth) (metis leI le_trans)+

lemma walk_inv_set:
  assumes "walk_inv th i n L" "i < length (nodes_of L)"
  defines "c \<equiv> nodes_of L ! i"
  defines "L' \<equiv> L\<lparr>allset := insert (ec_fd c) (allset L), nfds := max (nfds L) (ec_fd c)\<rparr>"
  shows "walk_inv th (Suc i) n L'" "FD_SET (ec_fd c) (allset L) = Inr (insert (ec_fd c) (allset L))"
proof -
  have "fd_ok c" using assms(1,2) by (simp add: walk_inv_def c_def)
  then show "FD_SET (ec_fd c) (allset L) = Inr (insert (ec_fd c) (allset L))"
    by (simp add: fd_ok_def FD_SET_def)
  have n: "nodes_of L' = nodes_of L" by (simp add: L'_def nodes_of_def)
  have mono: "watched L fd \<Longrightarrow> watched L' fd" "watched L' (ec_fd c)" for fd
    by (auto simp: watched_def L'_def)
  then show "walk_inv th (Suc i) n L'"
    using assms(1) unfolding walk_inv_def n
    by (auto simp: select_ready_def less_Suc_eq c_def [symmetric]) (simp_all add: L'_def)
qed

lemma walk_inv_remove:
  assumes "walk_inv th i n L" "i < n"
  defines "ns \<equiv> take i (nodes_of L) @ drop (Suc i) (nodes_of L)"
  shows "walk_inv th i (n - 1) (L\<lparr>linked_list := Some ns\<rparr>)"
proof -
  have le: "i < length (nodes_of L)" "n \<le> length (nodes_of L)"
    using assms(1,2) by (auto simp: walk_inv_def)
  have "watched L (ec_fd (ns ! j))" if "j < length ns" "j < i \<or> n - 1 \<le> j" for j
  proof (cases "j < i")
    case True
    then show ?thesis using assms(1) le by (simp add: walk_inv_def ns_def nth_append)
  next
    case False
    then have "ns ! j = nodes_of L ! Suc j" "Suc j < length (nodes_of L)" "n \<le> Suc j"
      using that le by (auto simp: ns_def nth_append)
    then show ?thesis using assms(1) by (simp add: walk_inv_def)
  qed
  moreover have "set ns \<subseteq> set (nodes_of L)"
    unfolding ns_def by (auto dest: in_set_takeD in_set_dropD)
  moreover have "n - 1 \<le> length ns" using le by (simp add: ns_def)
  ultimately show ?thesis
    using assms(1) by (auto simp: walk_inv_def select_ready_def nodes_of_def watched_def)
qed

definition walk_step :: "('w, 'z) loop_base_scheme \<Rightarrow> ('w, 'z) loop_base_scheme \<Rightarrow> bool" where
  "walk_step L L' \<longleftrightarrow> evfd_ctx L' = evfd_ctx L \<and> timeout L' = timeout L \<and>
     loop_thread L' = loop_thread L \<and> last_ts L' = last_ts L"

lemma walk_step_simps [simp]:
  "walk_step L L" "walk_step L (L'\<lparr>allset := s, nfds := k\<rparr>) = walk_step L L'"
  "walk_step L (L'\<lparr>linked_list := ns\<rparr>) = walk_step L L'"
  "walk_step (L'\<lparr>allset := s, nfds := k\<rparr>) L = walk_step L' L"
  "walk_step (L'\<lparr>linked_list := ns\<rparr>) L = walk_step L' L"
  by (auto simp: walk_step_def)

lemma walk_step_trans: "walk_step L L' \<Longrightarrow> walk_step L' L'' \<Longrightarrow> walk_step L L''"
  by (simp add: walk_step_def)

lemma walk_cb:
  assumes "walk_inv th i n L" "cb_reg (\<lambda>c. fd_ok c \<and> ec_fd c \<notin> F) A cb"
    and "\<forall>j < length (nodes_of L). n \<le> j \<longrightarrow> ec_fd (nodes_of L ! j) \<notin> F"
  shows "\<exists>L' cs. run_cb (select_add True th) cb ctx L = Inr L' \<and> walk_inv th i n L' \<and> walk_step L L' \<and>
    nodes_of L' = nodes_of L @ cs \<and> length cs \<le> A \<and>
    (\<forall>j < length (nodes_of L'). n \<le> j \<longrightarrow> ec_fd (nodes_of L' ! j) \<notin> F)"
proof -
  obtain L' cs where r: "run_cb (select_add True th) cb ctx L = Inr L'" "walk_inv th i n L'"
    "nodes_of L' = nodes_of L @ cs" "length cs \<le> A" "\<forall>c \<in> set cs. fd_ok c \<and> ec_fd c \<notin> F"
    "walk_step L L'"
    using walk.run_cb_reg [OF assms(1,2), of ctx] unfolding walk_step_def by blast
  then have "\<forall>j < length (nodes_of L'). n \<le> j \<longrightarrow> ec_fd (nodes_of L' ! j) \<notin> F"
    using assms(3) by (auto simp: nth_append)
  with r show ?thesis by blast
qed

definition fresh_from :: "nat \<Rightarrow> int set \<Rightarrow> 'w select_loop \<Rightarrow> bool" where
  "fresh_from n F L \<longleftrightarrow> (\<forall>j < length (nodes_of L). n \<le> j \<longrightarrow> ec_fd (nodes_of L ! j) \<notin> F)"

text \<open>One step of the walk over a context that callbacks appended: no callback runs.\<close>

lemma nodes_of_Some: "walk_inv th i n L \<Longrightarrow> linked_list L = Some (nodes_of L)"
  by (auto simp: walk_inv_def select_ready_def nodes_of_def)

lemma select_nodes_spec:
  assumes "cb_reg (\<lambda>c. fd_ok c \<and> ec_fd c \<notin> rset \<union> eset) A (read_cb CB)"
    and "cb_reg (\<lambda>c. fd_ok c \<and> ec_fd c \<notin> rset \<union> eset) A (err_cb CB)"
    and "walk_inv th i n L" "fresh_from n (rset \<union> eset) L"
    and "(n - i) * (2 * A) + (length (nodes_of L) - i) < fuel"
  shows "\<exists>L'. select_nodes (select_add True th) CB rset eset fuel i L = Inr L' \<and> select_inv th L' \<and> walk_step L L'"
  using assms(3-)
proof (induction fuel arbitrary: i n L)
  case 0
  then show ?case by simp
next
  case (Suc fuel)
  note nodes = nodes_of_Some [OF Suc.prems(1)]
  show ?case
  proof (cases "i < length (nodes_of L)")
    case False
    then show ?thesis using walk_inv_end [OF Suc.prems(1)] nodes by simp
  next
    case True
    let ?c = "nodes_of L ! i"
    have "\<exists>L1 cs. (if ec_fd ?c \<in> rset then run_cb (select_add True th) (read_cb CB) (Some ?c) L else Inr L) = Inr L1 \<and>
        walk_inv th i n L1 \<and> walk_step L L1 \<and> nodes_of L1 = nodes_of L @ cs \<and> length cs \<le> A \<and>
        (n \<le> i \<longrightarrow> cs = []) \<and> fresh_from n (rset \<union> eset) L1"
    proof (cases "ec_fd ?c \<in> rset")
      case inr: True
      then have "i < n" using Suc.prems(2) True by (auto simp: fresh_from_def not_less)
      then show ?thesis
        using walk_cb [OF Suc.prems(1) assms(1), of "Some ?c"] Suc.prems(2) inr
        unfolding fresh_from_def by auto
    next
      case False
      then show ?thesis using Suc.prems(1,2) by auto
    qed
    then obtain L1 cs where L1: "(if ec_fd ?c \<in> rset then run_cb (select_add True th) (read_cb CB) (Some ?c) L else Inr L) = Inr L1"
      "walk_inv th i n L1" "walk_step L L1" "nodes_of L1 = nodes_of L @ cs" "length cs \<le> A"
      "n \<le> i \<longrightarrow> cs = []" "fresh_from n (rset \<union> eset) L1" by blast
    have i1: "i < length (nodes_of L1)" "nodes_of L1 ! i = ?c" using True L1(4) by (simp_all add: nth_append)
    show ?thesis
    proof (cases "ec_fd ?c \<in> eset")
      case False
      let ?L2 = "L1\<lparr>allset := insert (ec_fd ?c) (allset L1), nfds := max (nfds L1) (ec_fd ?c)\<rparr>"
      note set = walk_inv_set [OF L1(2) i1(1), unfolded i1(2)]
      have n2: "nodes_of ?L2 = nodes_of L1" by (simp add: nodes_of_def)
      have "(n - Suc i) * (2 * A) + (length (nodes_of ?L2) - Suc i) < fuel"
      proof (cases "n \<le> i")
        case True
        then show ?thesis using Suc.prems(3) L1(4,6) \<open>i < length (nodes_of L)\<close> n2 by simp
      next
        case False
        then obtain k where "n - i = Suc k" by (metis Suc_diff_Suc not_le)
        moreover from this have "n - Suc i = k" by arith
        ultimately have "(n - Suc i) * (2 * A) = k * (2 * A)" "(n - i) * (2 * A) = k * (2 * A) + 2 * A"
          by simp_all
        moreover have "length (nodes_of ?L2) \<le> length (nodes_of L) + A" using L1(4,5) n2 by simp
        ultimately show ?thesis using Suc.prems(3) True by linarith
      qed
      from Suc.IH [OF set(1) _ this] obtain L' where
        "select_nodes (select_add True th) CB rset eset fuel (Suc i) ?L2 = Inr L'" "select_inv th L'" "walk_step L1 L'"
        using L1(7) by (auto simp: fresh_from_def n2)
      then show ?thesis
        using True nodes L1(1) set(2) False walk_step_trans [OF L1(3)] by auto
    next
      case inE: True
      then have lt: "i < n" using Suc.prems(2) True by (auto simp: fresh_from_def not_less)
      let ?ns = "take i (nodes_of L1) @ drop (Suc i) (nodes_of L1)"
      let ?L2 = "L1\<lparr>linked_list := Some ?ns\<rparr>"
      have n2: "nodes_of ?L2 = ?ns" by (simp add: nodes_of_def)
      note rem = walk_inv_remove [OF L1(2) lt]
      have fresh2: "fresh_from (n - 1) (rset \<union> eset) ?L2"
        using L1(7) lt i1(1) by (auto simp: fresh_from_def n2 nth_append)
      obtain L3 cs3 where L3: "run_cb (select_add True th) (err_cb CB) (Some ?c) ?L2 = Inr L3"
        "walk_inv th i (n - 1) L3" "walk_step ?L2 L3" "nodes_of L3 = ?ns @ cs3" "length cs3 \<le> A"
        "fresh_from (n - 1) (rset \<union> eset) L3"
        using walk_cb [OF rem assms(2), of "Some ?c"] fresh2 n2 unfolding fresh_from_def by auto
      have step: "select_nodes (select_add True th) CB rset eset (Suc fuel) i L =
          (if i < length ?ns then select_nodes (select_add True th) CB rset eset fuel i L3 else Inr L3)"
        using True nodes L1(1) inE nodes_of_Some [OF L1(2)] L3(1) by (simp add: Let_def)
      have ws: "walk_step L L3" using L1(3) L3(3) by (simp add: walk_step_def)
      show ?thesis
      proof (cases "i < length ?ns")
        case more: True
        obtain k where "n - i = Suc k" using lt by (metis Suc_diff_Suc)
        moreover from this have "n - 1 - i = k" by arith
        ultimately have "(n - 1 - i) * (2 * A) = k * (2 * A)" "(n - i) * (2 * A) = k * (2 * A) + 2 * A"
          by simp_all
        moreover have "length (nodes_of L3) + 1 \<le> length (nodes_of L) + 2 * A"
          using i1(1) L1(4,5) L3(4,5) by simp
        ultimately have "(n - 1 - i) * (2 * A) + (length (nodes_of L3) - i) < fuel"
          using Suc.prems(3) True by linarith
        from Suc.IH [OF L3(2,6) this] obtain L' where
          "select_nodes (select_add True th) CB rset eset fuel i L3 = Inr L'" "select_inv th L'" "walk_step L3 L'"
          by blast
        then show ?thesis unfolding step if_P [OF more] using walk_step_trans [OF ws] by blast
      next
        case False
        have "n \<le> length (nodes_of L1)" using L1(2) by (simp add: walk_inv_def)
        then have "n - 1 \<le> i" using False i1(1) by simp
        then have "select_inv th L3" using walk_inv_end [OF L3(2)] by simp
        then show ?thesis unfolding step if_not_P [OF False] using ws by blast
      qed
    qed
  qed
qed

text \<open>The timer handler may register contexts as well.\<close>

lemma walk_inv_0: "walk_inv th i 0 L \<longleftrightarrow> select_inv th L"
  by (auto simp: select_inv_def walk_inv_def all_set_conv_all_nth)

lemma select_timer:
  assumes "select_inv th L" "cb_reg fd_ok A (timer_cb CB)"
  shows "\<exists>L'. evloop_handle_timer (select_add True th) CB now L = Inr L' \<and> select_inv th L'"
proof (cases "timer_cb CB = None \<or> interval_ms (last_ts L) now < timeout L")
  case True
  then show ?thesis using assms(1) by (auto simp: evloop_handle_timer_def)
next
  case False
  have inv: "walk_inv th 0 0 L" using assms(1) by (simp add: walk_inv_0)
  obtain L1 where L1: "run_cb (select_add True th) (timer_cb CB) None L = Inr L1" "walk_inv th 0 0 L1"
    using walk.run_cb_reg [OF inv assms(2), of None] by blast
  then have "select_inv th (L1\<lparr>last_ts := now\<rparr>)"
    by (simp add: walk_inv_0 select_inv_def select_ready_def nodes_of_def watched_def)
  then show ?thesis using False L1(1) by (auto simp: evloop_handle_timer_def)
qed

lemma select_wake:
  assumes "select_ready th L" "\<forall>c \<in> set (nodes_of L). fd_ok c" "cb_reg fd_ok A (wake_cb CB)"
  shows "\<exists>L'. (if b then run_cb (select_add True th) (wake_cb CB) ctx (L\<lparr>allset := {}, ev_count := 0\<rparr>)
      else Inr (L\<lparr>allset := {}\<rparr>)) = Inr L' \<and> select_ready th L' \<and> (\<forall>c \<in> set (nodes_of L'). fd_ok c) \<and>
    length (nodes_of L') \<le> length (nodes_of L) + A \<and> evfd_ctx L' = evfd_ctx L"
proof (cases b)
  case False
  then show ?thesis using assms(1,2) by (auto simp: select_ready_def nodes_of_def)
next
  case True
  let ?L = "L\<lparr>allset := {}, ev_count := 0\<rparr>"
  have "select_ready th ?L" "nodes_of ?L = nodes_of L" using assms(1) by (simp_all add: select_ready_def nodes_of_def)
  then show ?thesis
    using select_be.run_cb_reg [OF _ assms(3), of th ?L ctx] assms(2) True by auto
qed

text \<open>
  C24. The loop on \<open>select\<close> never loses a descriptor: a round with ready descriptors ends, whatever the
  callbacks do, as long as they register a bounded number of descriptors of the supported range that
  were not ready in this round, and after it the eventfd and every registered context are in the set
  that the next \<open>select\<close> waits for.
\<close>

theorem select_round_watches:
  assumes "select_inv th L" "cb_reg fd_ok A (wake_cb CB)" "cb_reg fd_ok A (timer_cb CB)"
    and "cb_reg (\<lambda>c. fd_ok c \<and> ec_fd c \<notin> rset \<union> eset) A (read_cb CB)"
    and "cb_reg (\<lambda>c. fd_ok c \<and> ec_fd c \<notin> rset \<union> eset) A (err_cb CB)"
    and "(length (nodes_of L) + A) * (2 * A + 1) < fuel"
  shows "\<exists>L'. select_round (select_add True th) CB fuel (now, Ready (rset, eset)) L = Inr L' \<and> select_inv th L'"
proof -
  have ready: "select_ready th L" "\<forall>c \<in> set (nodes_of L). fd_ok c" "fd_ok (evfd_ctx L)"
    using assms(1) by (simp_all add: select_inv_def)
  obtain L1 where L1: "(if ec_fd (evfd_ctx L) \<in> rset
      then run_cb (select_add True th) (wake_cb CB) (Some (evfd_ctx L)) (L\<lparr>allset := {}, ev_count := 0\<rparr>)
      else Inr (L\<lparr>allset := {}\<rparr>)) = Inr L1"
    "select_ready th L1" "\<forall>c \<in> set (nodes_of L1). fd_ok c"
    "length (nodes_of L1) \<le> length (nodes_of L) + A" "evfd_ctx L1 = evfd_ctx L"
    using select_wake [OF ready(1,2) assms(2)] by blast
  let ?fd = "ec_fd (evfd_ctx L1)" and ?n = "length (nodes_of L1)"
  let ?L2 = "L1\<lparr>allset := insert ?fd (allset L1), nfds := ?fd\<rparr>"
  have n2: "nodes_of ?L2 = nodes_of L1" by (simp add: nodes_of_def)
  have "walk_inv th 0 ?n ?L2"
    unfolding walk_inv_def n2 using L1(2,3,5) ready(3) by (simp add: select_ready_def watched_def)
  moreover have "fresh_from ?n (rset \<union> eset) ?L2" by (simp add: fresh_from_def n2)
  moreover have "(?n - 0) * (2 * A) + (length (nodes_of ?L2) - 0) < fuel"
    using mult_le_mono1 [OF L1(4), of "2 * A + 1"] assms(6) by (simp add: n2 algebra_simps)
  ultimately obtain L3 where L3: "select_nodes (select_add True th) CB rset eset fuel 0 ?L2 = Inr L3"
    "select_inv th L3" "walk_step ?L2 L3"
    using select_nodes_spec [OF assms(4,5)] by blast
  moreover have "FD_SET ?fd (allset L1) = Inr (insert ?fd (allset L1))"
    using ready(3) L1(5) by (simp add: FD_SET_def fd_ok_def)
  ultimately show ?thesis
    using L1(1) select_timer [OF L3(2) assms(3), of now] by (auto simp: select_round_def)
qed

section \<open>The two loops agree\<close>

text \<open>
  What the client of a loop can see of it: its own world, the registered contexts, and whether the loop is
  going to end. A callback acts on this view; \<open>serve\<close> is the callback for the eventfd (\<open>None\<close>) or for a context.
\<close>

type_synonym 'w loop_view = "'w \<times> ev_context multiset \<times> bool"

definition view :: "(('w, 'z) loop_base_scheme \<Rightarrow> ev_context list) \<Rightarrow> ('w, 'z) loop_base_scheme \<Rightarrow> 'w loop_view" where
  "view reg L = (world L, mset (reg L), exit_flag L)"

definition cb_effect :: "'w fn_evloop_callback option \<Rightarrow> ev_context option \<Rightarrow> 'w loop_view \<Rightarrow> 'w loop_view" where
  "cb_effect cb ctx v =
     (case cb of
        None \<Rightarrow> v
      | Some f \<Rightarrow> (case v of (w, M, e) \<Rightarrow> (case f w ctx of (w', cs, ex) \<Rightarrow> (w', M + mset cs, e \<or> ex))))"

definition serve :: "'w ev_callbacks \<Rightarrow> ev_context \<Rightarrow> ev_context option \<Rightarrow> 'w loop_view \<Rightarrow> 'w loop_view" where
  "serve CB evfd ptr = (case ptr of None \<Rightarrow> cb_effect (wake_cb CB) (Some evfd) | Some c \<Rightarrow> cb_effect (read_cb CB) (Some c))"

definition timer_due :: "'w ev_callbacks \<Rightarrow> timespec \<Rightarrow> ('w, 'z) loop_base_scheme \<Rightarrow> bool" where
  "timer_due CB now L \<longleftrightarrow> timer_cb CB \<noteq> None \<and> interval_ms (last_ts L) now \<ge> timeout L"

text \<open>A round for a sequence of ready descriptors: their callbacks one after the other, then the timer if it is due.\<close>

definition round_view :: "'w ev_callbacks \<Rightarrow> timespec \<Rightarrow> ev_context option list \<Rightarrow> ('w, 'z) loop_base_scheme \<Rightarrow> 'w loop_view \<Rightarrow> 'w loop_view" where
  "round_view CB now ptrs L v =
     (let v = fold (serve CB (evfd_ctx L)) ptrs v
      in if timeout L > 0 \<and> timer_due CB now L then cb_effect (timer_cb CB) None v else v)"

context ev_backend
begin

lemma run_cb_effect:
  assumes "ready L" "cb_reg P A cb" "\<forall>c. P c \<longrightarrow> can c"
  shows "\<exists>L' cs. run_cb add cb ctx L = Inr L' \<and> ready L' \<and> registered L' = registered L @ cs \<and> length cs \<le> A \<and>
    (\<forall>c \<in> set cs. P c) \<and> view registered L' = cb_effect cb ctx (view registered L) \<and> walk_step L L' \<and> ev_count L' = ev_count L"
proof (cases cb)
  case None
  then show ?thesis using assms(1) by (auto simp: run_cb_def cb_effect_def walk_step_def intro!: exI [of _ "[]"])
next
  case (Some f)
  let ?cs = "fst (snd (f (world L) ctx))"
  have P: "length ?cs \<le> A" "\<forall>c \<in> set ?cs. P c" using assms(2) by (simp_all add: cb_reg_def Some)
  have "\<forall>w. \<forall>c \<in> set (fst (snd (f w ctx))). can c" using assms(2,3) by (simp add: cb_reg_def Some)
  from run_cb_spec [where f = f, OF assms(1) this] obtain L' where
    L': "run_cb add cb ctx L = Inr L'" "ready L'" "registered L' = registered L @ ?cs"
    and base: "loop_base.truncate L' = loop_base.truncate
      (L\<lparr>world := fst (f (world L) ctx), exit_flag := exit_flag L \<or> snd (snd (f (world L) ctx))\<rparr>)"
    unfolding Some by blast
  from base have "walk_step L L'" "ev_count L' = ev_count L" "world L' = fst (f (world L) ctx)"
    "exit_flag L' \<longleftrightarrow> exit_flag L \<or> snd (snd (f (world L) ctx))"
    by (simp_all add: loop_base.truncate_def walk_step_def)
  moreover from this have "view registered L' = cb_effect cb ctx (view registered L)"
    by (simp add: view_def cb_effect_def Some L'(3) case_prod_beta)
  ultimately show ?thesis using L' P by blast
qed

lemma timer_effect:
  assumes "ready L" "cb_reg P A (timer_cb CB)" "\<forall>c. P c \<longrightarrow> can c"
    and "\<And>L t. registered (L\<lparr>last_ts := t\<rparr>) = registered L"
  shows "\<exists>L'. evloop_handle_timer add CB now L = Inr L' \<and>
    view registered L' = (if timer_due CB now L then cb_effect (timer_cb CB) None (view registered L) else view registered L) \<and>
    evfd_ctx L' = evfd_ctx L \<and> ev_count L' = ev_count L \<and> timeout L' = timeout L \<and> loop_thread L' = loop_thread L \<and>
    last_ts L' = (if timer_due CB now L then now else last_ts L)"
  using run_cb_effect [OF assms(1-3), of None] assms(4)
  by (auto simp: evloop_handle_timer_def timer_due_def view_def walk_step_def)

end

text \<open>The events of \<open>epoll_wait\<close> for the descriptors of a set that are readable.\<close>

definition ready_ptrs :: "int set \<Rightarrow> ev_context \<Rightarrow> ev_context list \<Rightarrow> ev_context option list" where
  "ready_ptrs rset evfd cs = (if ec_fd evfd \<in> rset then [None] else []) @ map Some (filter (\<lambda>c. ec_fd c \<in> rset) cs)"

definition read_event :: "ev_context option \<Rightarrow> epoll_event" where
  "read_event ptr = (ptr, True, False)"

lemma epoll_served:
  assumes "cb_reg (\<lambda>c. k_ctl_add K (ec_fd c)) A (wake_cb CB)" "cb_reg (\<lambda>c. k_ctl_add K (ec_fd c)) A (read_cb CB)"
  shows "\<exists>L'. foldl (\<lambda>r ev. rbind r (epoll_handle_event K CB ev)) (Inr L) (map read_event ptrs) = Inr L' \<and>
    view watch L' = fold (serve CB (evfd_ctx L)) ptrs (view watch L) \<and> walk_step L L' \<and>
    ev_count L' = (if None \<in> set ptrs then 0 else ev_count L)"
proof (induction ptrs arbitrary: L)
  case (Cons ptr ptrs)
  have v: "view watch (L\<lparr>ev_count := 0\<rparr>) = view watch L" by (simp add: view_def)
  have "\<exists>L1. epoll_handle_event K CB (read_event ptr) L = Inr L1 \<and> view watch L1 = serve CB (evfd_ctx L) ptr (view watch L) \<and>
      walk_step L L1 \<and> ev_count L1 = (if ptr = None then 0 else ev_count L)"
  proof (cases ptr)
    case None
    then show ?thesis using epoll_be.run_cb_effect [OF TrueI assms(1), where K = K and ctx = "Some (evfd_ctx L)" and L = "L\<lparr>ev_count := 0\<rparr>"] v
      by (auto simp: epoll_handle_event_def read_event_def serve_def walk_step_def)
  next
    case (Some c)
    then show ?thesis using epoll_be.run_cb_effect [OF TrueI assms(2), where K = K and ctx = "Some c" and L = L]
      by (auto simp: epoll_handle_event_def read_event_def serve_def)
  qed
  then obtain L1 where L1: "epoll_handle_event K CB (read_event ptr) L = Inr L1"
    "view watch L1 = serve CB (evfd_ctx L) ptr (view watch L)" "walk_step L L1" "ev_count L1 = (if ptr = None then 0 else ev_count L)" by blast
  with Cons.IH [of L1] show ?case by (auto simp: walk_step_def)
qed (simp add: walk_step_def)

text \<open>The walk of the loop on \<open>select\<close> over \<open>n\<close> contexts and those that callbacks append, which are not ready.\<close>

lemma select_served:
  assumes "cb_reg (\<lambda>c. fd_ok c \<and> ec_fd c \<notin> rset) A (read_cb CB)"
    and "select_ready th L" "\<forall>c \<in> set (nodes_of L). fd_ok c" "fresh_from n rset L"
    and "(n - i) * A + (length (nodes_of L) - i) < fuel"
  shows "\<exists>L'. select_nodes (select_add True th) CB rset {} fuel i L = Inr L' \<and> select_ready th L' \<and>
    view nodes_of L' = fold (serve CB (evfd_ctx L)) (map Some (filter (\<lambda>c. ec_fd c \<in> rset) (drop i (nodes_of L)))) (view nodes_of L) \<and>
    walk_step L L' \<and> ev_count L' = ev_count L"
  using assms(2-)
proof (induction fuel arbitrary: i L)
  case (Suc fuel)
  have nodes: "linked_list L = Some (nodes_of L)" using Suc.prems(1) by (auto simp: select_ready_def nodes_of_def)
  show ?case
  proof (cases "i < length (nodes_of L)")
    case False
    then show ?thesis using Suc.prems(1) nodes by simp
  next
    case True
    let ?c = "nodes_of L ! i"
    let ?go = "ec_fd ?c \<in> rset"
    obtain N cs where N: "run_cb (select_add True th) (read_cb CB) (Some ?c) L = Inr N" "select_ready th N"
      "nodes_of N = nodes_of L @ cs" "length cs \<le> A" "\<forall>c \<in> set cs. fd_ok c \<and> ec_fd c \<notin> rset"
      "view nodes_of N = cb_effect (read_cb CB) (Some ?c) (view nodes_of L)" "walk_step L N" "ev_count N = ev_count L"
      using select_be.run_cb_effect [OF Suc.prems(1) assms(1), of "Some ?c"] by auto
    define M where "M = (if ?go then N else L)"
    define ds where "ds = (if ?go then cs else [])"
    let ?M = "M\<lparr>allset := insert (ec_fd ?c) (allset M), nfds := max (nfds M) (ec_fd ?c)\<rparr>"
    have M: "(if ?go then run_cb (select_add True th) (read_cb CB) (Some ?c) L else Inr L) = Inr M" "select_ready th ?M"
      "nodes_of ?M = nodes_of L @ ds" "length ds \<le> A" "\<forall>c \<in> set ds. fd_ok c \<and> ec_fd c \<notin> rset"
      "view nodes_of ?M = (if ?go then serve CB (evfd_ctx L) (Some ?c) (view nodes_of L) else view nodes_of L)"
      "walk_step L ?M" "ev_count ?M = ev_count L"
      using N Suc.prems(1) by (auto simp: M_def ds_def serve_def view_def nodes_of_def select_ready_def walk_step_def)
    have lt: "?go \<Longrightarrow> i < n" using Suc.prems(3) True by (auto simp: fresh_from_def not_less)
    have fresh: "fresh_from n rset ?M" using Suc.prems(3) M(3,5) by (auto simp: fresh_from_def nth_append)
    have fuel: "(n - Suc i) * A + (length (nodes_of ?M) - Suc i) < fuel"
    proof (cases "i < n")
      case False
      then show ?thesis using Suc.prems(4) True lt M(3) by (auto simp: ds_def)
    next
      case True
      then have "(n - i) * A = (n - Suc i) * A + A" by (metis Suc_diff_Suc add.commute mult_Suc)
      then show ?thesis using Suc.prems(4) \<open>i < length (nodes_of L)\<close> M(3,4) by simp
    qed
    have step: "filter (\<lambda>c. ec_fd c \<in> rset) (drop i (nodes_of L)) =
        (if ?go then [?c] else []) @ filter (\<lambda>c. ec_fd c \<in> rset) (drop (Suc i) (nodes_of L))"
      using True by (simp add: Cons_nth_drop_Suc [symmetric])
    have rest: "filter (\<lambda>c. ec_fd c \<in> rset) (drop (Suc i) (nodes_of ?M)) = filter (\<lambda>c. ec_fd c \<in> rset) (drop (Suc i) (nodes_of L))"
      using M(3,5) True by (auto simp: filter_empty_conv)
    have fd: "FD_SET (ec_fd ?c) (allset M) = Inr (insert (ec_fd ?c) (allset M))"
      using Suc.prems(2) True by (simp add: FD_SET_def fd_ok_def)
    have e: "evfd_ctx ?M = evfd_ctx L" using M(7) by (simp add: walk_step_def)
    have "\<forall>c \<in> set (nodes_of ?M). fd_ok c" using Suc.prems(2) M(3,5) by auto
    from Suc.IH [OF M(2) this fresh fuel] obtain L' where
      L': "select_nodes (select_add True th) CB rset {} fuel (Suc i) ?M = Inr L'" "select_ready th L'"
        "view nodes_of L' = fold (serve CB (evfd_ctx L)) (map Some (filter (\<lambda>c. ec_fd c \<in> rset) (drop (Suc i) (nodes_of L)))) (view nodes_of ?M)"
        "walk_step ?M L'" "ev_count L' = ev_count ?M"
      unfolding rest e by blast
    have "select_nodes (select_add True th) CB rset {} (Suc fuel) i L = Inr L'" using True nodes M(1) fd L'(1) by simp
    moreover have "view nodes_of L' = fold (serve CB (evfd_ctx L)) (map Some (filter (\<lambda>c. ec_fd c \<in> rset) (drop i (nodes_of L)))) (view nodes_of L)"
      unfolding L'(3) M(6) step by simp
    ultimately show ?thesis using L'(2,4,5) M(7,8) walk_step_trans by (metis (no_types, lifting))
  qed
qed simp

subsection \<open>Rounds\<close>

lemma epoll_round_view:
  assumes "cb_reg (\<lambda>c. k_ctl_add K (ec_fd c)) A (wake_cb CB)" "cb_reg (\<lambda>c. k_ctl_add K (ec_fd c)) A (read_cb CB)"
    "cb_reg (\<lambda>c. k_ctl_add K (ec_fd c)) A (timer_cb CB)" "length ptrs \<le> 64"
  shows "\<exists>L'. epoll_round K CB (now, Ready (map read_event ptrs)) L = Inr L' \<and> view watch L' = round_view CB now ptrs L (view watch L) \<and>
    evfd_ctx L' = evfd_ctx L \<and> timeout L' = timeout L \<and> loop_thread L' = loop_thread L \<and>
    ev_count L' = (if None \<in> set ptrs then 0 else ev_count L) \<and>
    last_ts L' = (if timeout L > 0 \<and> timer_due CB now L then now else last_ts L)"
proof -
  obtain X where X: "foldl (\<lambda>r ev. rbind r (epoll_handle_event K CB ev)) (Inr L) (map read_event ptrs) = Inr X"
    "view watch X = fold (serve CB (evfd_ctx L)) ptrs (view watch L)" "walk_step L X" "ev_count X = (if None \<in> set ptrs then 0 else ev_count L)"
    using epoll_served [OF assms(1,2)] by blast
  have same: "timeout X = timeout L" "last_ts X = last_ts L" "evfd_ctx X = evfd_ctx L" "loop_thread X = loop_thread L"
    using X(3) by (simp_all add: walk_step_def)
  show ?thesis using epoll_be.timer_effect [OF TrueI assms(3), where K = K and L = X and now = now] X(1,2,4) same assms(4)
    by (auto simp: epoll_round_def round_view_def timer_due_def)
qed

lemma select_round_view:
  assumes "select_inv th L" "cb_reg (\<lambda>c. fd_ok c \<and> ec_fd c \<notin> rset) A (wake_cb CB)" "cb_reg (\<lambda>c. fd_ok c \<and> ec_fd c \<notin> rset) A (read_cb CB)"
    "cb_reg fd_ok A (timer_cb CB)" "(length (nodes_of L) + A) * (A + 1) < fuel"
  defines "ptrs \<equiv> ready_ptrs rset (evfd_ctx L) (nodes_of L)"
  shows "\<exists>L'. select_round (select_add True th) CB fuel (now, Ready (rset, {})) L = Inr L' \<and>
    view nodes_of L' = round_view CB now ptrs L (view nodes_of L) \<and>
    evfd_ctx L' = evfd_ctx L \<and> timeout L' = timeout L \<and> loop_thread L' = loop_thread L \<and>
    ev_count L' = (if None \<in> set ptrs then 0 else ev_count L) \<and>
    last_ts L' = (if timeout L > 0 \<and> timer_due CB now L then now else last_ts L)"
proof -
  have ready: "select_ready th L" "\<forall>c \<in> set (nodes_of L). fd_ok c" "fd_ok (evfd_ctx L)"
    using assms(1) by (simp_all add: select_inv_def)
  let ?fd = "ec_fd (evfd_ctx L)" and ?M = "L\<lparr>allset := {}, ev_count := 0\<rparr>"
  have M: "select_ready th ?M" "nodes_of ?M = nodes_of L" "view nodes_of ?M = view nodes_of L" "walk_step L ?M"
    using ready(1) by (simp_all add: select_ready_def nodes_of_def view_def walk_step_def)
  obtain W cs where W: "run_cb (select_add True th) (wake_cb CB) (Some (evfd_ctx L)) ?M = Inr W" "select_ready th W"
    "nodes_of W = nodes_of L @ cs" "length cs \<le> A" "\<forall>c \<in> set cs. fd_ok c \<and> ec_fd c \<notin> rset"
    "view nodes_of W = serve CB (evfd_ctx L) None (view nodes_of L)" "walk_step ?M W" "ev_count W = 0"
    using select_be.run_cb_effect [OF M(1) assms(2), of "Some (evfd_ctx L)"] M(2,3) by (auto simp: serve_def)
  define V where "V = (if ?fd \<in> rset then W else L\<lparr>allset := {}\<rparr>)"
  define ds where "ds = (if ?fd \<in> rset then cs else [])"
  let ?U = "V\<lparr>allset := insert ?fd (allset V), nfds := ?fd\<rparr>"
  have U: "select_ready th ?U" "nodes_of ?U = nodes_of L @ ds" "length ds \<le> A" "\<forall>c \<in> set ds. fd_ok c \<and> ec_fd c \<notin> rset"
    "view nodes_of ?U = fold (serve CB (evfd_ctx L)) (if ?fd \<in> rset then [None] else []) (view nodes_of L)"
    "walk_step L ?U" "ev_count ?U = (if ?fd \<in> rset then 0 else ev_count L)"
    using W ready(1) by (auto simp: V_def ds_def select_ready_def nodes_of_def view_def walk_step_def)
  have fresh: "fresh_from (length (nodes_of ?U)) rset ?U" by (simp add: fresh_from_def)
  have "(length (nodes_of ?U) - 0) * A + (length (nodes_of ?U) - 0) \<le> (length (nodes_of L) + A) * (A + 1)"
    using mult_le_mono1 [of "length (nodes_of ?U)" "length (nodes_of L) + A" "A + 1"] U(2,3) by (simp add: algebra_simps)
  then have fuel: "(length (nodes_of ?U) - 0) * A + (length (nodes_of ?U) - 0) < fuel" using assms(5) by simp
  have fds: "\<forall>c \<in> set (nodes_of ?U). fd_ok c" using ready(2) U(2,4) by auto
  have e: "evfd_ctx ?U = evfd_ctx L" using U(6) by (simp add: walk_step_def)
  have rest: "filter (\<lambda>c. ec_fd c \<in> rset) (drop 0 (nodes_of ?U)) = filter (\<lambda>c. ec_fd c \<in> rset) (nodes_of L)"
    using U(2,4) by (auto simp: filter_empty_conv)
  obtain X where X: "select_nodes (select_add True th) CB rset {} fuel 0 ?U = Inr X" "select_ready th X"
    "view nodes_of X = fold (serve CB (evfd_ctx L)) ptrs (view nodes_of L)" "walk_step L X" "ev_count X = (if ?fd \<in> rset then 0 else ev_count L)"
    using select_served [OF assms(3) U(1) fds fresh fuel] U(5-7) walk_step_trans [OF U(6)] unfolding rest e
    by (auto simp: ptrs_def ready_ptrs_def)
  have same: "timeout X = timeout L" "last_ts X = last_ts L" "evfd_ctx X = evfd_ctx L" "loop_thread X = loop_thread L"
    using X(4) by (simp_all add: walk_step_def)
  have sel: "select_round (select_add True th) CB fuel (now, Ready (rset, {})) L =
      (if timeout X > 0 then evloop_handle_timer (select_add True th) CB now X else Inr X)"
    using W(1) X(1) U(6) ready(3) e by (auto simp: select_round_def V_def FD_SET_def fd_ok_def split: if_splits)
  have n: "None \<in> set ptrs \<longleftrightarrow> ?fd \<in> rset" by (auto simp: ptrs_def ready_ptrs_def)
  have l: "nodes_of (L\<lparr>last_ts := t\<rparr>) = nodes_of L" for L :: "'a select_loop" and t by (simp add: nodes_of_def)
  show ?thesis using select_be.timer_effect [OF X(2) assms(4) _ l, of now] X(3,5) same unfolding sel n
    by (auto simp: round_view_def timer_due_def)
qed

text \<open>
  The loops correspond when they have the same contexts registered, in any order, and the same eventfd, timer,
  exit flag, thread and client world. Callbacks commute when it does not matter in which order two of them run.
\<close>

definition alike :: "'w epoll_loop \<Rightarrow> 'w select_loop \<Rightarrow> bool" where
  "alike L1 L2 \<longleftrightarrow> mset (watch L1) = mset (nodes_of L2) \<and> loop_base.truncate L1 = loop_base.truncate L2"

definition commuting :: "'w ev_callbacks \<Rightarrow> ev_context \<Rightarrow> bool" where
  "commuting CB evfd \<longleftrightarrow> (\<forall>p q. serve CB evfd p \<circ> serve CB evfd q = serve CB evfd q \<circ> serve CB evfd p)"

lemma alike_eq: "alike L1 L2 \<longleftrightarrow> view watch L1 = view nodes_of L2 \<and> evfd_ctx L1 = evfd_ctx L2 \<and> ev_count L1 = ev_count L2 \<and>
    last_ts L1 = last_ts L2 \<and> timeout L1 = timeout L2 \<and> loop_thread L1 = loop_thread L2"
  by (auto simp: alike_def view_def loop_base.truncate_def)

lemma round_view_commutes:
  assumes "commuting CB (evfd_ctx L)" "mset ptrs = mset qs"
  shows "round_view CB now ptrs L v = round_view CB now qs L v"
proof -
  have "fold (serve CB (evfd_ctx L)) ptrs = fold (serve CB (evfd_ctx L)) qs"
    using assms(1) by (intro fold_multiset_equiv [OF _ assms(2)]) (simp add: commuting_def)
  then show ?thesis by (simp add: round_view_def)
qed

text \<open>
  C15. The two event loops are interchangeable. In states with the same contexts registered, the same client world and timer, let \<open>select\<close> report a set of readable descriptors and \<open>epoll_wait\<close> the same ones, at most 64, in any order. Then both rounds end, and each runs the callback of every ready descriptor exactly once and then the timer if it is due: the loop on \<open>epoll\<close> in the order in which the kernel reported the events, the loop on \<open>select\<close> the eventfd first and then in the order of registration. When the callbacks commute, so that this order makes no difference to the client, the loops end in such states again. No descriptor reports an error, the nodes of the list can be allocated, and callbacks register a bounded number of descriptors that both kernels accept and that are not ready in this round.
\<close>

theorem loops_agree:
  assumes "alike L1 L2" "select_inv th L2"
    and "cb_reg (\<lambda>c. fd_ok c \<and> k_ctl_add K (ec_fd c) \<and> ec_fd c \<notin> rset) A (wake_cb CB)"
    and "cb_reg (\<lambda>c. fd_ok c \<and> k_ctl_add K (ec_fd c) \<and> ec_fd c \<notin> rset) A (read_cb CB)"
    and "cb_reg (\<lambda>c. fd_ok c \<and> k_ctl_add K (ec_fd c)) A (timer_cb CB)"
    and "(length (nodes_of L2) + A) * (A + 1) < fuel"
    and "mset ptrs = mset (ready_ptrs rset (evfd_ctx L2) (nodes_of L2))" "length ptrs \<le> 64"
  shows "\<exists>L1' L2'. epoll_round K CB (now, Ready (map read_event ptrs)) L1 = Inr L1' \<and>
    select_round (select_add True th) CB fuel (now, Ready (rset, {})) L2 = Inr L2' \<and>
    view watch L1' = round_view CB now ptrs L1 (view watch L1) \<and>
    view nodes_of L2' = round_view CB now (ready_ptrs rset (evfd_ctx L2) (nodes_of L2)) L2 (view nodes_of L2) \<and>
    (commuting CB (evfd_ctx L1) \<longrightarrow> alike L1' L2')"
proof -
  have "cb_reg (\<lambda>c. k_ctl_add K (ec_fd c)) A (wake_cb CB)" "cb_reg (\<lambda>c. k_ctl_add K (ec_fd c)) A (read_cb CB)"
    "cb_reg (\<lambda>c. k_ctl_add K (ec_fd c)) A (timer_cb CB)"
    using assms(3-5) by (auto simp: cb_reg_def)
  from epoll_round_view [OF this assms(8), of now L1] obtain L1' where
    e: "epoll_round K CB (now, Ready (map read_event ptrs)) L1 = Inr L1'" "view watch L1' = round_view CB now ptrs L1 (view watch L1)"
       "evfd_ctx L1' = evfd_ctx L1" "timeout L1' = timeout L1" "loop_thread L1' = loop_thread L1"
       "ev_count L1' = (if None \<in> set ptrs then 0 else ev_count L1)"
       "last_ts L1' = (if timeout L1 > 0 \<and> timer_due CB now L1 then now else last_ts L1)" by blast
  have "cb_reg (\<lambda>c. fd_ok c \<and> ec_fd c \<notin> rset) A (wake_cb CB)" "cb_reg (\<lambda>c. fd_ok c \<and> ec_fd c \<notin> rset) A (read_cb CB)"
    "cb_reg fd_ok A (timer_cb CB)"
    using assms(3-5) by (auto simp: cb_reg_def)
  from select_round_view [OF assms(2) this assms(6), of now] obtain L2' where
    s: "select_round (select_add True th) CB fuel (now, Ready (rset, {})) L2 = Inr L2'"
       "view nodes_of L2' = round_view CB now (ready_ptrs rset (evfd_ctx L2) (nodes_of L2)) L2 (view nodes_of L2)"
       "evfd_ctx L2' = evfd_ctx L2" "timeout L2' = timeout L2" "loop_thread L2' = loop_thread L2"
       "ev_count L2' = (if None \<in> set (ready_ptrs rset (evfd_ctx L2) (nodes_of L2)) then 0 else ev_count L2)"
       "last_ts L2' = (if timeout L2 > 0 \<and> timer_due CB now L2 then now else last_ts L2)" by blast
  note D = assms(1) [unfolded alike_eq]
  have "set ptrs = set (ready_ptrs rset (evfd_ctx L2) (nodes_of L2))" using assms(7) by (metis set_mset_mset)
  moreover have "timer_due CB now L1 = timer_due CB now L2" "round_view CB now ptrs L1 = round_view CB now ptrs L2"
    using D by (auto simp: timer_due_def round_view_def)
  moreover have "commuting CB (evfd_ctx L1) \<Longrightarrow> view watch L1' = view nodes_of L2'"
    using round_view_commutes [OF _ assms(7), of CB L2] D e(2) s(2) calculation(3) by simp
  ultimately have "commuting CB (evfd_ctx L1) \<Longrightarrow> alike L1' L2'" using D e(3-7) s(3-7) by (simp add: alike_eq)
  then show ?thesis using e(1,2) s(1,2) by blast
qed

text \<open>A small loop for the witnesses: one context, a wake-up callback that registers another.\<close>

definition ex_ctx :: "int \<Rightarrow> ev_context" where
  "ex_ctx fd = \<lparr>ec_fd = fd, ec_data = 0\<rparr>"

definition ex_cbs :: "nat ev_callbacks" where
  "ex_cbs = no_callbacks\<lparr>read_cb := Some (\<lambda>w c. (w + 1, [], False)),
     wake_cb := Some (\<lambda>w c. (w * 10, [ex_ctx 9], False))\<rparr>"

definition ex_select :: "nat select_loop" where
  "ex_select = \<lparr>evfd_ctx = ex_ctx 4, ev_count = 1, exit_flag = False, last_ts = \<lparr>tv_sec = 0, tv_nsec = 0\<rparr>,
     timeout = -1, loop_thread = 7, world = 5, allset = {4, 6}, nfds = 6, linked_list = Some [ex_ctx 6],
     sel_fds = [4]\<rparr>"

definition ex_epoll :: "nat epoll_loop" where
  "ex_epoll = \<lparr>evfd_ctx = ex_ctx 4, ev_count = 1, exit_flag = False, last_ts = \<lparr>tv_sec = 0, tv_nsec = 0\<rparr>,
     timeout = -1, loop_thread = 7, world = 5, epfd = 3, watch_evfd = True, watch = [ex_ctx 6], open_fds = [4, 3]\<rparr>"

definition ex_kernel :: epoll_kernel where
  "ex_kernel = \<lparr>k_epoll_create1 = 3, k_eventfd = 4, k_ctl_add = (\<lambda>_. True)\<rparr>"

lemmas ex_simps = ex_ctx_def ex_cbs_def ex_select_def ex_epoll_def ex_kernel_def no_callbacks_def

lemma ex_select_inv: "select_inv 7 ex_select" "length (nodes_of ex_select) = 1"
  by (simp_all add: ex_simps select_inv_def select_ready_def nodes_of_def fd_ok_def watched_def FD_SETSIZE_def)

theorem select_round_watches_witness:
  "\<exists>L'. select_round (select_add True 7) ex_cbs 100 (\<lparr>tv_sec = 1, tv_nsec = 0\<rparr>, Ready ({4, 6}, {6})) ex_select = Inr L' \<and>
     select_inv 7 L'"
  by (rule select_round_watches [OF ex_select_inv(1), where A = 1])
    (simp_all add: ex_select_inv(2), simp_all add: ex_simps cb_reg_def fd_ok_def FD_SETSIZE_def)

text \<open>
  Three contexts of which two are ready, and the kernel reports the later one first and the eventfd last; the
  callbacks count and register, which commutes.
\<close>

definition count_cbs :: "nat ev_callbacks" where
  "count_cbs = no_callbacks\<lparr>read_cb := Some (\<lambda>w c. (w + 1, [], False)), wake_cb := Some (\<lambda>w c. (w + 10, [ex_ctx 9], False))\<rparr>"

definition three_select :: "nat select_loop" where
  "three_select = ex_select\<lparr>allset := {4, 6, 7, 8}, nfds := 8, linked_list := Some [ex_ctx 6, ex_ctx 7, ex_ctx 8]\<rparr>"

definition three_epoll :: "nat epoll_loop" where
  "three_epoll = ex_epoll\<lparr>watch := [ex_ctx 8, ex_ctx 6, ex_ctx 7]\<rparr>"

lemma commuting_count: "commuting count_cbs evfd"
  by (auto simp: commuting_def count_cbs_def no_callbacks_def serve_def cb_effect_def fun_eq_iff split: option.split)

theorem loops_agree_witness:
  "\<exists>L1' L2'. epoll_round ex_kernel count_cbs (\<lparr>tv_sec = 1, tv_nsec = 0\<rparr>,
       Ready (map read_event [Some (ex_ctx 8), Some (ex_ctx 6), None])) three_epoll = Inr L1' \<and>
     select_round (select_add True 7) count_cbs 20 (\<lparr>tv_sec = 1, tv_nsec = 0\<rparr>, Ready ({4, 6, 8}, {})) three_select = Inr L2' \<and>
     alike L1' L2' \<and> world L1' = 17"
proof -
  have n: "nodes_of three_select = [ex_ctx 6, ex_ctx 7, ex_ctx 8]" by (simp add: three_select_def nodes_of_def)
  have "alike three_epoll three_select"
    by (simp add: alike_def n) (simp add: three_epoll_def three_select_def ex_simps loop_base.truncate_def)
  moreover have "select_inv 7 three_select"
    by (simp add: select_inv_def n) (simp add: three_select_def ex_simps select_ready_def fd_ok_def watched_def FD_SETSIZE_def)
  moreover have "mset [Some (ex_ctx 8), Some (ex_ctx 6), None] = mset (ready_ptrs {4, 6, 8} (evfd_ctx three_select) (nodes_of three_select))"
    by (simp add: ready_ptrs_def n) (simp add: three_select_def ex_simps)
  moreover have "cb_reg (\<lambda>c. fd_ok c \<and> k_ctl_add ex_kernel (ec_fd c) \<and> ec_fd c \<notin> {4, 6, 8}) 1 (wake_cb count_cbs)"
    "cb_reg (\<lambda>c. fd_ok c \<and> k_ctl_add ex_kernel (ec_fd c) \<and> ec_fd c \<notin> {4, 6, 8}) 1 (read_cb count_cbs)"
    "cb_reg (\<lambda>c. fd_ok c \<and> k_ctl_add ex_kernel (ec_fd c)) 1 (timer_cb count_cbs)"
    by (simp_all add: count_cbs_def ex_simps cb_reg_def fd_ok_def FD_SETSIZE_def)
  moreover have "world L = 17" if "view watch L = round_view count_cbs \<lparr>tv_sec = 1, tv_nsec = 0\<rparr> [Some (ex_ctx 8), Some (ex_ctx 6), None] three_epoll (view watch three_epoll)" for L
    using that by (simp add: view_def round_view_def serve_def cb_effect_def timer_due_def count_cbs_def three_epoll_def ex_simps)
  ultimately show ?thesis
    using loops_agree [of three_epoll three_select 7 ex_kernel "{4, 6, 8}" 1 count_cbs 20 "[Some (ex_ctx 8), Some (ex_ctx 6), None]" "\<lparr>tv_sec = 1, tv_nsec = 0\<rparr>"]
      commuting_count n by fastforce
qed

section \<open>Timer, descriptors and threads\<close>

definition elapsed_ns :: "timespec \<Rightarrow> timespec \<Rightarrow> int" where
  "elapsed_ns prev now = (tv_sec now - tv_sec prev) * 1000000000 + (tv_nsec now - tv_nsec prev)"

lemma sdiv_million: "\<bar>x - (x sdiv 1000000) * 1000000\<bar> < 1000000" for x :: int
  by (cases "0 \<le> x") (simp_all add: signed_divide_int_def sgn_if, presburger+)

lemma interval_ms_precision:
  assumes "\<bar>elapsed_ns prev now\<bar> < 2147483647 * 1000000 - 1000000"
  shows "\<bar>elapsed_ns prev now - interval_ms prev now * 1000000\<bar> < 1000000"
proof -
  define s where "s = tv_sec now - tv_sec prev"
  define x where "x = tv_nsec now - tv_nsec prev"
  define q where "q = x sdiv 1000000"
  have q: "\<bar>x - q * 1000000\<bar> < 1000000" unfolding q_def by (rule sdiv_million)
  have e: "elapsed_ns prev now = s * 1000000000 + x" by (simp add: elapsed_ns_def s_def x_def)
  have "\<bar>s * 1000 + q\<bar> < 2147483648" using assms q unfolding e by linarith
  then have "to_int (s * 1000 + q) = s * 1000 + q" by (simp add: to_int_mod)
  then have "interval_ms prev now = s * 1000 + q" by (simp add: interval_ms_def s_def q_def x_def)
  then show ?thesis using q unfolding e by linarith
qed

text \<open>
  The timer callback runs when the interval has passed, to within a millisecond: it runs in every
  check at least \<open>timeout\<close> milliseconds after the last one, and in none that comes a millisecond or more
  too early, for intervals that fit an \<open>int\<close> of milliseconds.
\<close>

theorem timer_precision:
  assumes "timer_cb CB = Some f" "\<forall>w. fst (snd (f w None)) = []"
    and "\<bar>elapsed_ns (last_ts L) now\<bar> < 2147483647 * 1000000 - 1000000"
  shows "\<exists>L'. evloop_handle_timer add CB now L = Inr L' \<and>
    (timeout L * 1000000 \<le> elapsed_ns (last_ts L) now \<longrightarrow> world L' = fst (f (world L) None) \<and> last_ts L' = now) \<and>
    (elapsed_ns (last_ts L) now \<le> (timeout L - 1) * 1000000 \<longrightarrow> L' = L)"
proof -
  have cb: "run_cb add (timer_cb CB) None L =
      Inr (L\<lparr>world := fst (f (world L) None), exit_flag := exit_flag L \<or> snd (snd (f (world L) None))\<rparr>)"
  proof -
    obtain w cs e where f: "f (world L) None = (w, cs, e)" by (metis surj_pair)
    then have "cs = []" using assms(2) by (metis fst_conv snd_conv)
    then show ?thesis using assms(1) f by (simp add: run_cb_def)
  qed
  have "\<bar>elapsed_ns (last_ts L) now - interval_ms (last_ts L) now * 1000000\<bar> < 1000000"
    by (rule interval_ms_precision [OF assms(3)])
  then have p: "elapsed_ns (last_ts L) now < interval_ms (last_ts L) now * 1000000 + 1000000"
    "interval_ms (last_ts L) now * 1000000 - 1000000 < elapsed_ns (last_ts L) now"
    by linarith+
  show ?thesis
  proof (cases "interval_ms (last_ts L) now \<ge> timeout L")
    case True
    then have "\<not> elapsed_ns (last_ts L) now \<le> (timeout L - 1) * 1000000"
      using p(2) mult_right_mono [OF True, of 1000000] by (simp add: algebra_simps)
    then show ?thesis using True cb assms(1) by (simp add: evloop_handle_timer_def)
  next
    case False
    then have "\<not> timeout L * 1000000 \<le> elapsed_ns (last_ts L) now" using p by linarith
    then show ?thesis using False assms(1) by (simp add: evloop_handle_timer_def)
  qed
qed

theorem timer_precision_witness:
  "\<exists>L'. evloop_handle_timer (epoll_add ex_kernel) (evloop_set_cb_timer (\<lambda>w c. (w + 1, [], False)) ex_cbs)
      \<lparr>tv_sec = 2, tv_nsec = 0\<rparr> (evloop_set_timer 1500 ex_epoll) = Inr L' \<and>
    world L' = 6 \<and> last_ts L' = \<lparr>tv_sec = 2, tv_nsec = 0\<rparr>"
  using timer_precision [where CB = "evloop_set_cb_timer (\<lambda>w c. (w + 1, [], False)) ex_cbs" and
      f = "\<lambda>w c. (w + 1, [], False)" and L = "evloop_set_timer 1500 ex_epoll" and
      now = "\<lparr>tv_sec = 2, tv_nsec = 0\<rparr>" and add = "epoll_add ex_kernel"]
  by (simp add: evloop_set_cb_timer_def evloop_set_timer_def ex_simps elapsed_ns_def)

text \<open>
  The loop on \<open>epoll\<close> leaks no descriptor when the kernel returns positive ones: a failing
  initialisation has closed what it opened, and destroying an initialised loop closes both descriptors;
  the eventfd then is watched and the loop has no timer.
\<close>

theorem epoll_init_closes:
  assumes "k_epoll_create1 K = -1 \<or> 0 < k_epoll_create1 K" "k_eventfd K = -1 \<or> 0 < k_eventfd K"
  shows "case epoll_init K th w of (ret, L) \<Rightarrow>
    open_fds (if ret = 0 then epoll_destroy L else L) = [] \<and>
    (if ret = 0 then loop_thread L = th \<and> timeout L = -1 \<and> watch_evfd L \<and> epfd L > 0 \<and> ec_fd (evfd_ctx L) > 0
     else epfd L = 0 \<and> ec_fd (evfd_ctx L) = 0)"
  using assms
  by (auto simp: epoll_init_def Let_def epoll_destroy_def epoll_close_def epoll_zero_def split: if_splits)

theorem epoll_init_closes_witness:
  "case epoll_init \<lparr>k_epoll_create1 = 3, k_eventfd = -1, k_ctl_add = (\<lambda>_. True)\<rparr> 1 () of (ret, L) \<Rightarrow>
    ret = -1 \<and> open_fds L = []"
  using epoll_init_closes [of "\<lparr>k_epoll_create1 = 3, k_eventfd = -1, k_ctl_add = (\<lambda>_. True)\<rparr>" 1 "()"]
  by (simp add: epoll_init_def Let_def split: if_splits)

lemma refused_cb:
  assumes "loop_thread L \<noteq> th" "run_cb (select_add ok th) cb ctx L = Inr L'"
  shows "nodes_of L' = nodes_of L \<and> loop_thread L' = loop_thread L \<and> (linked_list L' = None) = (linked_list L = None)"
proof -
  have fold: "foldl (\<lambda>r c. rbind r (select_add ok th c)) (Inr M) cs = Inr M" if "loop_thread M \<noteq> th" for cs and M :: "'a select_loop"
    using that by (induction cs) (simp_all add: select_add_def select_add_ctx_def)
  show ?thesis
  proof (cases cb)
    case (Some f)
    obtain w cs e where f: "f (world L) ctx = (w, cs, e)" by (metis surj_pair)
    then have "L' = L\<lparr>world := w, exit_flag := exit_flag L \<or> e\<rparr>"
      using assms fold by (simp add: run_cb_def Some)
    then show ?thesis by (simp add: nodes_of_def)
  qed (use assms(2) in \<open>simp add: run_cb_def\<close>)
qed

lemma refused_nodes:
  "select_nodes (select_add ok th) CB rset eset fuel i L = Inr L' \<Longrightarrow> loop_thread L \<noteq> th \<Longrightarrow>
    set (nodes_of L') \<subseteq> set (nodes_of L) \<and> loop_thread L' = loop_thread L"
proof (induction fuel arbitrary: i L)
  case (Suc fuel)
  obtain nodes where nodes: "linked_list L = Some nodes" using Suc.prems(1) by (cases "linked_list L") auto
  show ?case
  proof (cases "i < length nodes")
    case False
    then show ?thesis using Suc.prems(1) nodes by simp
  next
    case True
    let ?c = "nodes ! i"
    obtain L1 where L1: "(if ec_fd ?c \<in> rset then run_cb (select_add ok th) (read_cb CB) (Some ?c) L else Inr L) = Inr L1"
      using Suc.prems(1) nodes True by (auto simp: Let_def rbind_simps)
    have n1: "nodes_of L1 = nodes_of L" "loop_thread L1 = loop_thread L" "linked_list L1 \<noteq> None"
      using refused_cb [OF Suc.prems(2)] L1 nodes by (auto split: if_splits)
    show ?thesis
    proof (cases "ec_fd ?c \<in> eset")
      case False
      obtain s where "select_nodes (select_add ok th) CB rset eset fuel (Suc i)
          (L1\<lparr>allset := s, nfds := max (nfds L1) (ec_fd ?c)\<rparr>) = Inr L'"
        using Suc.prems(1) nodes True L1 False by (auto simp: Let_def rbind_simps)
      moreover have "nodes_of (L1\<lparr>allset := s, nfds := max (nfds L1) (ec_fd ?c)\<rparr>) = nodes_of L"
        using n1(1) by (simp add: nodes_of_def)
      ultimately show ?thesis using Suc.IH n1(2) Suc.prems(2) by fastforce
    next
      case inE: True
      let ?ns = "take i (nodes_of L1) @ drop (Suc i) (nodes_of L1)"
      have the: "the (linked_list L1) = nodes_of L1" using n1(3) by (auto simp: nodes_of_def)
      obtain L2 where L2: "run_cb (select_add ok th) (err_cb CB) (Some ?c) (L1\<lparr>linked_list := Some ?ns\<rparr>) = Inr L2"
        "(if i < length ?ns then select_nodes (select_add ok th) CB rset eset fuel i L2 else Inr L2) = Inr L'"
        using Suc.prems(1) nodes True L1 inE by (auto simp: Let_def rbind_simps the)
      have "nodes_of L2 = ?ns" "loop_thread L2 = loop_thread L"
        using refused_cb [OF _ L2(1)] n1(2) Suc.prems(2) by (simp_all add: nodes_of_def)
      moreover have "set ?ns \<subseteq> set (nodes_of L)"
        using n1(1) by (auto dest: in_set_takeD in_set_dropD)
      ultimately show ?thesis
        using L2(2) Suc.IH [of i L2] Suc.prems(2) by (auto simp del: length_append split: if_splits)
    qed
  qed
qed simp

lemma refused_timer:
  "evloop_handle_timer (select_add ok th) CB now L = Inr L' \<Longrightarrow> loop_thread L \<noteq> th \<Longrightarrow>
    nodes_of L' = nodes_of L \<and> loop_thread L' = loop_thread L"
  by (auto simp: evloop_handle_timer_def rbind_simps nodes_of_def [of "_\<lparr>last_ts := now\<rparr>"]
      nodes_of_def [of "L'"] dest: refused_cb split: if_splits)
    (metis nodes_of_def refused_cb)+

lemma refused_round:
  assumes "select_round (select_add ok th) CB fuel tw L = Inr L'" "loop_thread L \<noteq> th"
  shows "set (nodes_of L') \<subseteq> set (nodes_of L) \<and> loop_thread L' = loop_thread L"
proof -
  obtain now w where tw: "tw = (now, w)" by (cases tw)
  show ?thesis
  proof (cases w)
    case (Ready rw)
    obtain rset eset where rw: "rw = (rset, eset)" by (cases rw)
    let ?L0 = "L\<lparr>allset := {}, ev_count := 0\<rparr>"
    obtain L1 s L2 where L1: "(if ec_fd (evfd_ctx L) \<in> rset
        then run_cb (select_add ok th) (wake_cb CB) (Some (evfd_ctx L)) ?L0
        else Inr (L\<lparr>allset := {}\<rparr>)) = Inr L1"
      and L2: "select_nodes (select_add ok th) CB rset eset fuel 0
        (L1\<lparr>allset := s, nfds := ec_fd (evfd_ctx L1)\<rparr>) = Inr L2"
      and fin: "(if timeout L2 > 0 then evloop_handle_timer (select_add ok th) CB now L2 else Inr L2) = Inr L'"
      using assms(1) by (auto simp: select_round_def tw Ready rw rbind_simps)
    have 0: "nodes_of ?L0 = nodes_of L" "nodes_of (L\<lparr>allset := {}\<rparr>) = nodes_of L"
      by (simp_all add: nodes_of_def)
    have n1: "nodes_of L1 = nodes_of L" "loop_thread L1 = loop_thread L"
      using L1 refused_cb [of ?L0 th ok "wake_cb CB" "Some (evfd_ctx L)" L1] assms(2) 0
      by (auto split: if_splits)
    moreover have "nodes_of (L1\<lparr>allset := s, nfds := ec_fd (evfd_ctx L1)\<rparr>) = nodes_of L1"
      by (simp add: nodes_of_def)
    ultimately have "set (nodes_of L2) \<subseteq> set (nodes_of L) \<and> loop_thread L2 = loop_thread L"
      using refused_nodes [OF L2] assms(2) by simp
    then show ?thesis using fin refused_timer [of ok th CB now L2 L'] assms(2) by (auto split: if_splits)
  next
    case TimedOut
    then show ?thesis using assms refused_timer [of ok th CB now L L'] by (simp add: select_round_def tw)
  next
    case WaitFailed
    then show ?thesis using assms(1) by (auto simp: select_round_def tw nodes_of_def)
  qed
qed

text \<open>
  The loop on \<open>select\<close> does not record the thread that runs it: when another thread than the one that
  initialised the loop runs it, every context that a callback tries to register is refused, also in the
  wake-up callback, and the loop never watches more than it did before.
\<close>

theorem select_other_thread_refused:
  assumes "select_run ok CB th fuel tws L = Inr (L', ended)" "loop_thread L \<noteq> th"
  shows "set (nodes_of L') \<subseteq> set (nodes_of L)"
proof -
  have "select_rounds (select_add ok th) CB fuel tws L = Inr (L', ended) \<Longrightarrow> loop_thread L \<noteq> th \<Longrightarrow>
      set (nodes_of L') \<subseteq> set (nodes_of L)" for L
  proof (induction tws arbitrary: L)
    case (Cons tw tws)
    then obtain L1 where "select_round (select_add ok th) CB fuel tw L = Inr L1"
      "(if exit_flag L1 then Inr (L1, True) else select_rounds (select_add ok th) CB fuel tws L1) = Inr (L', ended)"
      by (auto simp: rbind_simps)
    then show ?case using refused_round Cons.IH [of L1] Cons.prems(2) by (fastforce split: if_splits)
  qed simp
  then show ?thesis using assms by (simp add: select_run_def)
qed

theorem select_other_thread_refused_witness:
  "\<exists>L' e. select_run True ex_cbs 8 (Suc (Suc 0)) [(\<lparr>tv_sec = 1, tv_nsec = 0\<rparr>, Ready ({4}, {}))] ex_select =
      Inr (L', e) \<and> set (nodes_of L') \<subseteq> {ex_ctx 6}"
proof -
  have "\<exists>L' e. select_run True ex_cbs 8 (Suc (Suc 0)) [(\<lparr>tv_sec = 1, tv_nsec = 0\<rparr>, Ready ({4}, {}))] ex_select = Inr (L', e)"
    by (simp add: select_run_def select_round_def ex_simps run_cb_def select_add_def select_add_ctx_def FD_SET_def
        FD_SETSIZE_def exI [of Not False])
  moreover have "nodes_of ex_select = [ex_ctx 6]" "loop_thread ex_select \<noteq> 8"
    by (simp_all add: ex_simps nodes_of_def)
  ultimately show ?thesis using select_other_thread_refused by fastforce
qed

end
