(* ===== verification/Wakeup.thy ===== *)
theory Wakeup
  imports EventLoop
begin

text \<open>
  The programs that drive the event notification of src/play/c/event_loop/example_linux: sixteen producer
  threads and one consumer over

  \<^item> a queue under a mutex and the eventfd of an event loop (epoll_eventfd/use_epoll_eventfd.c; the
    program select_eventfd/use_select_eventfd.c differs only in the arguments of \<open>evloop_init\<close>);
  \<^item> an eventfd alone (eventfd/use_eventfd.c);
  \<^item> a pipe (pipe/event_pipe.c and pipe/use_pipe.c).

  The first is a transition system: producers, the event loop and the main thread interleave freely, a
  step is a piece of code between two points where other threads can interfere. Its invariant says that
  a message in the queue is never forgotten. The pipe is a byte queue of bounded capacity whose calls
  can be interrupted; its contract as an event counter is the locale \<open>event_counter\<close>, which the pipe and
  the eventfd interpret.
\<close>

section \<open>Producers, queue and event loop\<close>

record message =
  thread_idx :: nat
  msg_idx :: nat

record consumer_info =
  ci_cnt :: nat
  ci_queue :: "message list"

text \<open>
  \<open>on_wakeup\<close> with the mutex held: messages are taken until the queue is empty or 512 have been
  received. The last result is the exit flag.
\<close>

fun on_wakeup :: "nat \<Rightarrow> message list \<Rightarrow> nat \<times> message list \<times> message list \<times> bool" where
  "on_wakeup cnt [] = (cnt, [], [], False)"
| "on_wakeup cnt (msg # queue) =
     (if cnt + 1 \<ge> 512 then (cnt + 1, [msg], queue, True)
      else case on_wakeup (cnt + 1) queue of (cnt, recv, queue, ex) \<Rightarrow> (cnt, msg # recv, queue, ex))"

text \<open>As a callback of the event loop; the world of the client is the consumer's information.\<close>

definition on_wakeup_cb :: "consumer_info fn_evloop_callback" where
  "on_wakeup_cb info ctx =
     (case on_wakeup (ci_cnt info) (ci_queue info) of (cnt, recv, queue, ex) \<Rightarrow>
        (\<lparr>ci_cnt = cnt, ci_queue = queue\<rparr>, [], ex))"

text \<open>The program point of a producer: before the lock, before the wake-up, at the loop test, or done.\<close>

datatype producer_pc = Enqueue | Wake | Test | Finished

record producer =
  p_pc :: producer_pc
  p_msg_idx :: nat
  p_cnt :: nat

text \<open>The event loop: waiting in \<open>epoll_wait\<close>, or about to run \<open>on_wakeup\<close>, or left.\<close>

datatype loop_pc = Waiting | Waking | Left

record system =
  producers :: "producer list"
  queue :: "message list"
  mutex_free :: bool
  signal :: bool
  loop :: loop_pc
  cnt :: nat
  received :: "message list"
  completed :: bool

definition PRODUCER_NUM :: nat where
  "PRODUCER_NUM = 16"

definition start_system :: "nat \<Rightarrow> system" where
  "start_system n = \<lparr>producers = replicate n \<lparr>p_pc = Enqueue, p_msg_idx = 0, p_cnt = 0\<rparr>, queue = [],
     mutex_free = True, signal = False, loop = Waiting, cnt = 0, received = [], completed = False\<rparr>"

definition the_message :: "nat \<Rightarrow> producer \<Rightarrow> message" where
  "the_message i p = \<lparr>thread_idx = i, msg_idx = p_msg_idx p + 1\<rparr>"

text \<open>
  Steps of producer \<open>i\<close>. \<open>enqueue_ok\<close> tells whether \<open>muggle_queue_enqueue\<close> has memory; when it fails, the
  \<open>continue\<close> goes to the loop test with the mutex locked.
\<close>

definition producer_enqueue :: "nat \<Rightarrow> bool \<Rightarrow> system \<Rightarrow> system" where
  "producer_enqueue i enqueue_ok S =
     (let p = producers S ! i; msg = the_message i p; p = p\<lparr>p_msg_idx := p_msg_idx p + 1\<rparr>
      in if enqueue_ok then S\<lparr>producers := (producers S)[i := p\<lparr>p_pc := Wake\<rparr>], queue := queue S @ [msg]\<rparr>
         else S\<lparr>producers := (producers S)[i := p\<lparr>p_pc := Test\<rparr>], mutex_free := False\<rparr>)"

definition producer_wake :: "nat \<Rightarrow> system \<Rightarrow> system" where
  "producer_wake i S =
     S\<lparr>producers := (producers S)[i := (producers S ! i)\<lparr>p_pc := Test\<rparr>], signal := True\<rparr>"

definition producer_test :: "nat \<Rightarrow> system \<Rightarrow> system" where
  "producer_test i S =
     (let p = producers S ! i
      in S\<lparr>producers := (producers S)[i := (if completed S then p\<lparr>p_pc := Finished, p_cnt := p_msg_idx p\<rparr>
                                             else p\<lparr>p_pc := Enqueue\<rparr>)]\<rparr>)"

text \<open>
  Steps of the event loop: \<open>epoll_wait\<close> returns when the eventfd was written, its counter is read, and
  \<open>on_wakeup\<close> runs when it gets the mutex.
\<close>

definition loop_read :: "system \<Rightarrow> system" where
  "loop_read S = S\<lparr>signal := False, loop := Waking\<rparr>"

definition loop_wakeup :: "system \<Rightarrow> system" where
  "loop_wakeup S =
     (case on_wakeup (cnt S) (queue S) of (n, recv, rest, ex) \<Rightarrow>
        S\<lparr>queue := rest, cnt := n, received := received S @ recv, loop := (if ex then Left else Waiting)\<rparr>)"

text \<open>The main thread after the loop: the flag, and the exhaustion of the queue when all have joined.\<close>

definition main_complete :: "system \<Rightarrow> system" where
  "main_complete S = S\<lparr>completed := True\<rparr>"

definition exhaust_queue :: "system \<Rightarrow> system" where
  "exhaust_queue S = S\<lparr>cnt := cnt S + length (queue S), received := received S @ queue S, queue := []\<rparr>"

definition producer_total_send :: "system \<Rightarrow> nat" where
  "producer_total_send S = sum_list (map p_cnt (producers S))"

inductive step :: "bool \<Rightarrow> system \<Rightarrow> system \<Rightarrow> bool" for mem where
  enqueue: "i < length (producers S) \<Longrightarrow> p_pc (producers S ! i) = Enqueue \<Longrightarrow> mutex_free S \<Longrightarrow>
    ok \<or> \<not> mem \<Longrightarrow> step mem S (producer_enqueue i ok S)"
| wake: "i < length (producers S) \<Longrightarrow> p_pc (producers S ! i) = Wake \<Longrightarrow> step mem S (producer_wake i S)"
| test: "i < length (producers S) \<Longrightarrow> p_pc (producers S ! i) = Test \<Longrightarrow> step mem S (producer_test i S)"
| loop_read: "loop S = Waiting \<Longrightarrow> signal S \<Longrightarrow> step mem S (loop_read S)"
| loop_wakeup: "loop S = Waking \<Longrightarrow> mutex_free S \<Longrightarrow> step mem S (loop_wakeup S)"
| main_complete: "loop S = Left \<Longrightarrow> step mem S (main_complete S)"

inductive reach :: "bool \<Rightarrow> nat \<Rightarrow> system \<Rightarrow> bool" for mem n where
  start: "reach mem n (start_system n)"
| step: "reach mem n S \<Longrightarrow> step mem S S' \<Longrightarrow> reach mem n S'"

inductive_cases stepE: "step mem S S'"

section \<open>No message is forgotten\<close>

lemma on_wakeup_spec:
  "on_wakeup k q = (k', recv, rest, ex) \<Longrightarrow>
    q = recv @ rest \<and> k' = k + length recv \<and> (ex \<longrightarrow> 512 \<le> k') \<and> (\<not> ex \<longrightarrow> rest = [])"
proof (induction q arbitrary: k k' recv rest ex)
  case (Cons m q)
  show ?case
  proof (cases "k + 1 \<ge> 512")
    case False
    obtain r where r: "recv = m # r" "on_wakeup (k + 1) q = (k', r, rest, ex)"
      using Cons.prems False by (auto split: prod.splits)
    from Cons.IH [OF r(2)] show ?thesis by (auto simp: r(1))
  qed (use Cons.prems in auto)
qed auto

definition sent_by :: "nat \<Rightarrow> message list \<Rightarrow> nat list" where
  "sent_by i ms = map msg_idx (filter (\<lambda>m. thread_idx m = i) ms)"

definition pending_wakeup :: "system \<Rightarrow> bool" where
  "pending_wakeup S \<longleftrightarrow> signal S \<or> loop S = Waking \<or> (\<exists>p \<in> set (producers S). p_pc p = Wake)"

definition system_inv :: "nat \<Rightarrow> system \<Rightarrow> bool" where
  "system_inv n S \<longleftrightarrow> mutex_free S \<and> length (producers S) = n \<and> cnt S = length (received S) \<and>
     (\<forall>m \<in> set (received S @ queue S). thread_idx m < n) \<and>
     (\<forall>i < n. sent_by i (received S @ queue S) = [1..<p_msg_idx (producers S ! i) + 1] \<and>
        (p_pc (producers S ! i) = Finished \<longrightarrow> p_cnt (producers S ! i) = p_msg_idx (producers S ! i))) \<and>
     (loop S = Left \<longrightarrow> 512 \<le> cnt S) \<and> (queue S \<noteq> [] \<and> loop S \<noteq> Left \<longrightarrow> pending_wakeup S)"

lemma sent_by_append [simp]: "sent_by i (xs @ ys) = sent_by i xs @ sent_by i ys"
  by (simp add: sent_by_def)

lemma start_inv: "system_inv n (start_system n)"
  by (simp add: system_inv_def start_system_def sent_by_def)

lemma pc_update:
  "i < length ps \<Longrightarrow> p_pc p = Wake \<Longrightarrow> \<exists>p \<in> set (ps[i := p]). p_pc p = Wake"
  by (meson set_update_memI)

lemma pc_keep:
  assumes "p_pc (ps ! i) \<noteq> Wake" "\<exists>p \<in> set ps. p_pc p = Wake"
  shows "\<exists>p \<in> set (ps[i := q]). p_pc p = Wake"
proof -
  obtain j where "j < length ps" "p_pc (ps ! j) = Wake" using assms(2) by (auto simp: in_set_conv_nth)
  moreover from this have "j \<noteq> i" using assms(1) by auto
  ultimately have "ps[i := q] ! j = ps ! j" "j < length (ps[i := q])" by simp_all
  then show ?thesis using \<open>p_pc (ps ! j) = Wake\<close> by (metis nth_mem)
qed

lemma enqueue_inv:
  assumes "system_inv n S" "i < length (producers S)"
  shows "system_inv n (producer_enqueue i True S)"
proof -
  have n: "i < n" "length (producers S) = n" using assms by (simp_all add: system_inv_def)
  let ?S = "producer_enqueue i True S"
  have q: "queue ?S = queue S @ [the_message i (producers S ! i)]" "received ?S = received S"
    by (simp_all add: producer_enqueue_def Let_def)
  have "sent_by j (received ?S @ queue ?S) = [1..<p_msg_idx (producers ?S ! j) + 1] \<and>
      (p_pc (producers ?S ! j) = Finished \<longrightarrow> p_cnt (producers ?S ! j) = p_msg_idx (producers ?S ! j))" if "j < n" for j
  proof (cases "j = i")
    case True
    then show ?thesis
      using assms(1) n unfolding q
      by (simp add: system_inv_def producer_enqueue_def Let_def sent_by_def the_message_def)
  next
    case False
    then show ?thesis
      using assms(1) that unfolding q
      by (simp add: system_inv_def producer_enqueue_def Let_def sent_by_def the_message_def)
  qed
  moreover have "pending_wakeup ?S"
    using pc_update [OF assms(2)] by (simp add: pending_wakeup_def producer_enqueue_def Let_def)
  ultimately show ?thesis
    using assms(1) n by (auto simp: system_inv_def producer_enqueue_def Let_def the_message_def)
qed

lemma wake_inv:
  assumes "system_inv n S" "i < length (producers S)" "p_pc (producers S ! i) = Wake"
  shows "system_inv n (producer_wake i S)"
  using assms unfolding system_inv_def producer_wake_def pending_wakeup_def
  by (auto simp: nth_list_update)

lemma test_inv:
  assumes "system_inv n S" "i < length (producers S)" "p_pc (producers S ! i) = Test"
  shows "system_inv n (producer_test i S)"
proof -
  have "(\<exists>p \<in> set (producers S). p_pc p = Wake) \<longrightarrow>
      (\<exists>p \<in> set (producers (producer_test i S)). p_pc p = Wake)"
    using pc_keep [of "producers S" i] assms(3) by (simp add: producer_test_def Let_def)
  moreover have "signal (producer_test i S) = signal S" "loop (producer_test i S) = loop S"
    by (simp_all add: producer_test_def Let_def)
  ultimately have "pending_wakeup S \<Longrightarrow> pending_wakeup (producer_test i S)"
    unfolding pending_wakeup_def by metis
  then show ?thesis
    using assms unfolding system_inv_def by (auto simp: producer_test_def Let_def nth_list_update)
qed

lemma loop_wakeup_inv:
  assumes "system_inv n S"
  shows "system_inv n (loop_wakeup S)"
proof -
  obtain k recv rest ex where r: "on_wakeup (cnt S) (queue S) = (k, recv, rest, ex)" by (metis surj_pair)
  from on_wakeup_spec [OF r] have q: "queue S = recv @ rest" "k = cnt S + length recv"
    "ex \<Longrightarrow> 512 \<le> k" "\<not> ex \<Longrightarrow> rest = []" by blast+
  have S: "loop_wakeup S = S\<lparr>queue := rest, cnt := k, received := received S @ recv,
      loop := (if ex then Left else Waiting)\<rparr>" by (simp add: loop_wakeup_def r)
  show ?thesis
    using assms q(2-4) unfolding system_inv_def S by (simp add: q(1))
qed

lemma step_inv: "step True S S' \<Longrightarrow> system_inv n S \<Longrightarrow> system_inv n S'"
proof (induction rule: step.induct)
  case (enqueue i S ok)
  then show ?case using enqueue_inv by simp
next
  case (loop_read S)
  then show ?case by (auto simp: system_inv_def loop_read_def pending_wakeup_def)
next
  case (main_complete S)
  then show ?case by (auto simp: system_inv_def main_complete_def pending_wakeup_def)
qed (auto intro: wake_inv test_inv loop_wakeup_inv)

lemma reach_inv: "reach True n S \<Longrightarrow> system_inv n S"
  by (induction rule: reach.induct) (auto intro: start_inv step_inv)

text \<open>What remains of the invariant when an enqueue can fail.\<close>

definition announced :: "nat \<Rightarrow> system \<Rightarrow> bool" where
  "announced n S \<longleftrightarrow> length (producers S) = n \<and> (queue S \<noteq> [] \<and> loop S \<noteq> Left \<longrightarrow> pending_wakeup S)"

lemma announced_other:
  assumes "announced n S" "p_pc (producers S ! i) \<noteq> Wake"
  shows "announced n (S\<lparr>producers := (producers S)[i := q]\<rparr>)" "announced n (S\<lparr>producers := (producers S)[i := q], mutex_free := b\<rparr>)"
  using assms pc_keep [OF assms(2)] by (auto simp: announced_def pending_wakeup_def)

lemma announced_step: "step mem S S' \<Longrightarrow> announced n S \<Longrightarrow> announced n S'"
proof (induction rule: step.induct)
  case (enqueue i S ok)
  show ?case
  proof (cases ok)
    case True
    then show ?thesis using enqueue pc_update [OF enqueue(1)] by (auto simp: announced_def pending_wakeup_def producer_enqueue_def Let_def)
  next
    case False
    then show ?thesis using announced_other(2) [of n S i] enqueue by (simp add: producer_enqueue_def Let_def)
  qed
next
  case (test i S)
  then show ?case using announced_other(1) [of n S i] by (simp add: producer_test_def Let_def)
next
  case (loop_wakeup S)
  obtain k recv rest ex where r: "on_wakeup (cnt S) (queue S) = (k, recv, rest, ex)" by (metis surj_pair)
  then show ?case using loop_wakeup on_wakeup_spec [OF r] by (auto simp: announced_def loop_wakeup_def)
qed (auto simp: announced_def pending_wakeup_def producer_wake_def loop_read_def main_complete_def)

lemma reach_announced: "reach mem n S \<Longrightarrow> announced n S"
  by (induction rule: reach.induct) (auto intro: announced_step, auto simp: announced_def start_system_def)

text \<open>
  C17. No message is forgotten before the loop has left: in every interleaving of the producers and the event loop, whether or not
  enqueues can fail, a message in the queue is announced: the eventfd is signalled, the loop is about to run the callback, or a producer
  is about to signal. The waiting loop and the producer can take their step; the loop that is about to run the callback can when the
  mutex is free, and it always is as long as no enqueue fails. (A failed enqueue leaves it locked for good, \<open>failed_enqueue_blocks\<close> below.)
\<close>

theorem message_announced:
  assumes "reach mem n S" "queue S \<noteq> []" "loop S \<noteq> Left"
  shows "((loop S = Waiting \<and> signal S \<and> step mem S (loop_read S)) \<or>
    (loop S = Waking \<and> (mutex_free S \<longrightarrow> step mem S (loop_wakeup S))) \<or>
    (\<exists>i < n. p_pc (producers S ! i) = Wake \<and> step mem S (producer_wake i S))) \<and> (mem \<longrightarrow> mutex_free S)"
proof -
  have inv: "pending_wakeup S" "length (producers S) = n"
    using reach_announced [OF assms(1)] assms(2,3) by (simp_all add: announced_def)
  have "mem \<longrightarrow> mutex_free S" using reach_inv [of n S] assms(1) by (cases mem) (simp_all add: system_inv_def)
  consider "loop S = Waking" | "loop S = Waiting" "signal S" | p where "p \<in> set (producers S)" "p_pc p = Wake"
    using inv(1) assms(3) by (cases "loop S") (auto simp: pending_wakeup_def)
  then show ?thesis
  proof cases
    case 3
    then show ?thesis using inv(2) \<open>mem \<longrightarrow> mutex_free S\<close> by (metis in_set_conv_nth step.wake)
  qed (use \<open>mem \<longrightarrow> mutex_free S\<close> in \<open>auto intro: step.intros\<close>)
qed

lemma two_steps: "reach True 1 (producer_enqueue 0 True (start_system 1))"
  by (rule reach.step [OF reach.start], rule step.enqueue) (simp_all add: start_system_def)

theorem message_announced_witness:
  "queue (producer_enqueue 0 True (start_system 1)) \<noteq> [] \<and>
   (\<exists>i < 1. p_pc (producers (producer_enqueue 0 True (start_system 1)) ! i) = Wake)"
  using message_announced [OF two_steps]
  by (simp add: producer_enqueue_def start_system_def Let_def)

text \<open>
  Every message arrives exactly once and in the order of its producer: when all producers have finished
  and the main thread has exhausted the queue, the consumer has counted what the producers report to
  have sent, and the messages of producer \<open>i\<close> were received as 1, 2, ... up to its count.
\<close>

theorem messages_accounted:
  assumes "reach True n S" "\<forall>p \<in> set (producers S). p_pc p = Finished"
  shows "cnt (exhaust_queue S) = producer_total_send (exhaust_queue S) \<and>
    (\<forall>i < n. sent_by i (received (exhaust_queue S)) = [1..<p_cnt (producers S ! i) + 1])"
proof -
  note inv = reach_inv [OF assms(1), unfolded system_inv_def]
  let ?r = "received S @ queue S"
  have n: "length (producers S) = n" using inv by blast
  have fin: "sent_by i ?r = [1..<p_cnt (producers S ! i) + 1]" if "i < n" for i
    using inv that assms(2) n by (metis nth_mem)
  have "length ?r = (\<Sum>i<n. length (sent_by i ?r))"
  proof -
    have "\<forall>m \<in> set ms. thread_idx m < n \<Longrightarrow> length ms = (\<Sum>i<n. length (sent_by i ms))" for ms
    proof (induction ms)
      case (Cons m ms)
      have "(\<Sum>i<n. length (sent_by i (m # ms))) = (\<Sum>i<n. length (sent_by i ms) + (if thread_idx m = i then 1 else 0))"
        by (rule sum.cong) (auto simp: sent_by_def)
      also have "\<dots> = (\<Sum>i<n. length (sent_by i ms)) + 1"
        using Cons.prems by (simp add: sum.distrib)
      finally show ?case using Cons by simp
    qed (simp add: sent_by_def)
    then show ?thesis using inv by blast
  qed
  also have "\<dots> = (\<Sum>i<n. p_cnt (producers S ! i))"
  proof (rule sum.cong [OF refl])
    fix i assume "i \<in> {..<n}"
    then have "length (sent_by i ?r) = length [1..<p_cnt (producers S ! i) + 1]" by (simp only: fin lessThan_iff)
    then show "length (sent_by i ?r) = p_cnt (producers S ! i)" by simp
  qed
  also have "\<dots> = sum_list (map p_cnt (producers S))"
    using n by (simp add: sum_list_sum_nth atLeast0LessThan)
  finally have "cnt S + length (queue S) = sum_list (map p_cnt (producers S))" using inv by simp
  then show ?thesis using fin by (simp add: exhaust_queue_def producer_total_send_def)
qed

text \<open>A complete run with one producer, for the witness: 512 messages are received in the loop, one after it.\<close>

definition run_state :: "nat \<Rightarrow> system" where
  "run_state k = \<lparr>producers = [\<lparr>p_pc = Enqueue, p_msg_idx = k, p_cnt = 0\<rparr>], queue = [], mutex_free = True,
     signal = False, loop = (if k < 512 then Waiting else Left), cnt = k,
     received = map (\<lambda>j. \<lparr>thread_idx = 0, msg_idx = j + 1\<rparr>) [0..<k], completed = False\<rparr>"

lemma run_round:
  assumes "reach True 1 (run_state k)" "k < 512"
  shows "reach True 1 (run_state (k + 1))"
proof -
  let ?S1 = "producer_enqueue 0 True (run_state k)"
  let ?S2 = "producer_wake 0 ?S1"
  let ?S3 = "producer_test 0 ?S2"
  let ?S4 = "loop_read ?S3"
  note defs = producer_enqueue_def producer_wake_def producer_test_def loop_read_def run_state_def Let_def
    the_message_def
  have "reach True 1 ?S1" by (rule reach.step [OF assms(1)], rule step.enqueue) (simp_all add: run_state_def)
  then have "reach True 1 ?S2" by (rule reach.step, intro step.wake) (simp_all add: defs)
  then have "reach True 1 ?S3" by (rule reach.step, intro step.test) (simp_all add: defs)
  then have "reach True 1 ?S4" by (rule reach.step, intro step.loop_read) (simp_all add: defs assms(2))
  then have "reach True 1 (loop_wakeup ?S4)" by (rule reach.step, intro step.loop_wakeup) (simp_all add: defs)
  moreover have "loop_wakeup ?S4 = run_state (k + 1)"
    using assms(2) by (simp add: loop_wakeup_def defs)
  ultimately show ?thesis by simp
qed

lemma run_all: "k \<le> 512 \<Longrightarrow> reach True 1 (run_state k)"
proof (induction k)
  case 0
  have "start_system 1 = run_state 0" by (simp add: start_system_def run_state_def)
  then show ?case using reach.start [of True 1] by simp
next
  case (Suc k)
  then show ?case using run_round [of k] by simp
qed

definition finished_state :: system where
  "finished_state = producer_test 0 (producer_wake 0 (producer_enqueue 0 True (main_complete (run_state 512))))"

lemma finished_reach: "reach True 1 finished_state"
proof -
  note defs = producer_enqueue_def producer_wake_def main_complete_def run_state_def Let_def
  have "reach True 1 (run_state 512)" by (rule run_all) simp
  then have "reach True 1 (main_complete (run_state 512))"
    by (rule reach.step, intro step.main_complete) (simp add: run_state_def)
  then have "reach True 1 (producer_enqueue 0 True (main_complete (run_state 512)))"
    by (rule reach.step, intro step.enqueue) (simp_all add: defs)
  then have "reach True 1 (producer_wake 0 (producer_enqueue 0 True (main_complete (run_state 512))))"
    by (rule reach.step, intro step.wake) (simp_all add: defs)
  then show ?thesis
    unfolding finished_state_def by (rule reach.step, intro step.test) (simp_all add: defs)
qed

theorem messages_accounted_witness:
  "cnt (exhaust_queue finished_state) = producer_total_send (exhaust_queue finished_state) \<and>
   sent_by 0 (received (exhaust_queue finished_state)) = [1..<514]"
proof -
  have "\<forall>p \<in> set (producers finished_state). p_pc p = Finished" "p_cnt (producers finished_state ! 0) = 513"
    by (simp_all add: finished_state_def producer_test_def producer_wake_def producer_enqueue_def main_complete_def
        run_state_def Let_def)
  then show ?thesis using messages_accounted [OF finished_reach] by simp
qed

text \<open>
  A failing \<open>muggle_queue_enqueue\<close> blocks the program: the \<open>continue\<close> leaves the mutex locked, and
  however the threads go on, no message is received any more and the loop never ends.
\<close>

theorem failed_enqueue_blocks:
  assumes "(step False)\<^sup>*\<^sup>* (producer_enqueue i False S) S'" "loop S \<noteq> Left"
  shows "received S' = received S \<and> loop S' \<noteq> Left \<and> \<not> mutex_free S'"
  using assms(1)
proof (induction rule: rtranclp_induct)
  case base
  then show ?case using assms(2) by (simp add: producer_enqueue_def Let_def)
next
  case (step T U)
  from step.hyps(2) step.IH show ?case
    by (cases rule: step.cases) (auto simp: producer_wake_def producer_test_def loop_read_def Let_def)
qed

theorem failed_enqueue_blocks_witness:
  "received (producer_test 0 (producer_enqueue 0 False (start_system 2))) = []"
proof -
  have "step False (producer_enqueue 0 False (start_system 2)) (producer_test 0 (producer_enqueue 0 False (start_system 2)))"
    by (rule step.test) (simp_all add: producer_enqueue_def start_system_def Let_def)
  then have "(step False)\<^sup>*\<^sup>* (producer_enqueue 0 False (start_system 2)) (producer_test 0 (producer_enqueue 0 False (start_system 2)))"
    by (rule r_into_rtranclp)
  from failed_enqueue_blocks [OF this] show ?thesis by (simp add: start_system_def)
qed

section \<open>The pipe and the eventfd as event counters\<close>

text \<open>
  A non-blocking pipe: the number of bytes in it, its capacity, and for each of the next system calls
  whether it is interrupted by a signal. A write of at most \<open>PIPE_BUF\<close> bytes is atomic.
\<close>

record kpipe =
  kp_len :: nat
  kp_cap :: nat
  kp_intr :: "bool list"

datatype sys_ret = Ret nat | EINTR | EAGAIN

definition PIPE_BUF :: nat where
  "PIPE_BUF = 4096"

definition interrupted :: "kpipe \<Rightarrow> bool" where
  "interrupted P \<longleftrightarrow> (case kp_intr P of [] \<Rightarrow> False | b # _ \<Rightarrow> b)"

definition next_call :: "kpipe \<Rightarrow> kpipe" where
  "next_call P = P\<lparr>kp_intr := tl (kp_intr P)\<rparr>"

lemma next_call_simps [simp]: "kp_len (next_call P) = kp_len P" "kp_cap (next_call P) = kp_cap P"
  by (simp_all add: next_call_def)

definition sys_write :: "nat \<Rightarrow> kpipe \<Rightarrow> sys_ret \<times> kpipe" where
  "sys_write n P =
     (let room = kp_cap P - kp_len P in
      if interrupted P then (EINTR, next_call P)
      else if n \<le> PIPE_BUF \<and> room < n \<or> 0 < n \<and> room = 0 then (EAGAIN, next_call P)
      else (Ret (min n room), (next_call P)\<lparr>kp_len := kp_len P + min n room\<rparr>))"

definition sys_read :: "nat \<Rightarrow> kpipe \<Rightarrow> sys_ret \<times> kpipe" where
  "sys_read n P =
     (if interrupted P then (EINTR, next_call P)
      else if kp_len P = 0 then (EAGAIN, next_call P)
      else (Ret (min n (kp_len P)), (next_call P)\<lparr>kp_len := kp_len P - min n (kp_len P)\<rparr>))"

lemma sys_write_EINTR: "sys_write n P = (EINTR, P') \<Longrightarrow> length (kp_intr P') < length (kp_intr P)"
  by (auto simp: sys_write_def interrupted_def next_call_def Let_def split: if_splits list.splits)

lemma sys_write_Ret:
  "sys_write n P = (Ret k, P') \<Longrightarrow> length (kp_intr P') \<le> length (kp_intr P) \<and> k \<le> n \<and> (0 < n \<longrightarrow> 0 < k)"
  by (auto simp: sys_write_def next_call_def Let_def split: if_splits)

lemma sys_read_EINTR:
  "sys_read n P = (EINTR, P') \<Longrightarrow> length (kp_intr P') < length (kp_intr P) \<and> kp_len P' = kp_len P"
  by (auto simp: sys_read_def interrupted_def next_call_def split: if_splits list.splits)

lemma sys_read_Ret:
  "sys_read n P = (Ret k, P') \<Longrightarrow> 0 < n \<Longrightarrow>
    length (kp_intr P') \<le> length (kp_intr P) \<and> kp_len P = kp_len P' + k \<and> 0 < k"
  by (auto simp: sys_read_def next_call_def split: if_splits)

text \<open>\<open>None\<close> is the result -1.\<close>

function event_pipe_writen :: "nat \<Rightarrow> nat \<Rightarrow> kpipe \<Rightarrow> nat option \<times> kpipe" where
  "event_pipe_writen numbytes nleft P =
     (case sys_write nleft P of
        (EINTR, P') \<Rightarrow> event_pipe_writen numbytes nleft P'
      | (EAGAIN, P') \<Rightarrow> (None, P')
      | (Ret n, P') \<Rightarrow>
          if nleft - n > 0 then event_pipe_writen numbytes (nleft - n) P' else (Some numbytes, P'))"
  by pat_completeness auto

termination
proof (relation "measure (\<lambda>(numbytes, nleft, P). nleft + length (kp_intr P))", goal_cases)
  case (2 numbytes nleft P x P' n)
  then show ?case using sys_write_Ret [of nleft P n P'] by auto
next
  case (3 numbytes nleft P x P')
  then show ?case using sys_write_EINTR [of nleft P P'] by simp
qed simp

declare event_pipe_writen.simps [simp del]

text \<open>The buffer has room for 128 wake-ups.\<close>

function event_pipe_readall :: "nat \<Rightarrow> kpipe \<Rightarrow> nat \<times> kpipe" where
  "event_pipe_readall acc P =
     (case sys_read 1024 P of
        (EAGAIN, P') \<Rightarrow> (acc, P')
      | (EINTR, P') \<Rightarrow> event_pipe_readall acc P'
      | (Ret n, P') \<Rightarrow> if n < 1024 then (acc + n div 8, P') else event_pipe_readall (acc + n div 8) P')"
  by pat_completeness auto

termination
proof (relation "measure (\<lambda>(acc, P). kp_len P + length (kp_intr P))", goal_cases)
  case (2 acc P x P' n)
  then show ?case using sys_read_Ret [of 1024 P n P'] by simp
next
  case (3 acc P x P')
  then show ?case using sys_read_EINTR [of 1024 P P'] by simp
qed simp

declare event_pipe_readall.simps [simp del]

definition event_pipe_wakeup :: "kpipe \<Rightarrow> bool \<times> kpipe" where
  "event_pipe_wakeup P =
     (case event_pipe_writen 8 8 P of (n, P') \<Rightarrow> (n = Some 8, P'))"

definition event_pipe_clearup :: "kpipe \<Rightarrow> nat \<times> kpipe" where
  "event_pipe_clearup P = event_pipe_readall 0 P"

text \<open>
  Creation and destruction: the two descriptors (-1 for none), whether there is a mutex, and the
  descriptors that are open. \<open>pipe_fds\<close> is the result of \<open>pipe\<close>, \<open>mem\<close> and \<open>mtx_ok\<close> tell whether the
  mutex can be allocated and initialised.
\<close>

record event_pipe =
  ep_fds :: "int \<times> int"
  ep_mtx :: bool
  ep_open :: "int list"

definition event_pipe_destroy :: "event_pipe \<Rightarrow> event_pipe" where
  "event_pipe_destroy E =
     (let E = (if ep_mtx E then E\<lparr>ep_mtx := False\<rparr> else E);
          (r, w) = ep_fds E;
          E = (if r \<noteq> -1 then E\<lparr>ep_open := remove1 r (ep_open E), ep_fds := (-1, w)\<rparr> else E)
      in if w \<noteq> -1 then E\<lparr>ep_open := remove1 w (ep_open E), ep_fds := (fst (ep_fds E), -1)\<rparr> else E)"

definition event_pipe_init :: "(int \<times> int) option \<Rightarrow> bool \<Rightarrow> bool \<Rightarrow> bool \<times> event_pipe" where
  "event_pipe_init pipe_fds mem mtx_ok =
     (let E = \<lparr>ep_fds = (-1, -1), ep_mtx = False, ep_open = []\<rparr> in
      case pipe_fds of
        None \<Rightarrow> (False, event_pipe_destroy E)
      | Some (r, w) \<Rightarrow>
          let E = E\<lparr>ep_fds := (r, w), ep_open := [r, w]\<rparr> in
          if \<not> mem then (False, event_pipe_destroy E)
          else if \<not> mtx_ok then (False, event_pipe_destroy (E\<lparr>ep_mtx := False\<rparr>))
          else (True, E\<lparr>ep_mtx := True\<rparr>))"

lemma event_pipe_no_leak:
  assumes "\<forall>r w. pipe_fds = Some (r, w) \<longrightarrow> 0 \<le> r \<and> 0 \<le> w" "event_pipe_init pipe_fds mem mtx_ok = (b, E)"
  shows "\<not> b \<Longrightarrow> ep_open E = [] \<and> \<not> ep_mtx E" "ep_open (event_pipe_destroy E) = []"
  using assms by (auto simp: event_pipe_init_def event_pipe_destroy_def Let_def split: option.splits if_splits prod.splits)

text \<open>The eventfd: a counter; \<open>clear_eventfd\<close> returns 0 when there is nothing to read.\<close>

definition eventfd_write :: "nat \<Rightarrow> bool \<times> nat" where
  "eventfd_write c = (if c + 1 < 2 ^ 64 - 1 then (True, c + 1) else (False, c))"

definition eventfd_read :: "nat \<Rightarrow> nat option \<times> nat" where
  "eventfd_read c = (if c = 0 then (None, 0) else (Some c, 0))"

definition clear_eventfd :: "nat \<Rightarrow> nat \<times> nat" where
  "clear_eventfd c = (case eventfd_read c of (None, c') \<Rightarrow> (0, c') | (Some v, c') \<Rightarrow> (v, c'))"

text \<open>
  The programs use_pipe.c and use_eventfd.c: producers signal, the consumer clears until it has counted
  512 events, then the producers stop and the rest is cleared. \<open>rounds\<close> says how many signals
  the producers send before each clearing of the consumer, and \<open>rest\<close> how many after its last one. The
  producers count their signals without looking at the result.
\<close>

fun signals :: "('c \<Rightarrow> bool \<times> 'c) \<Rightarrow> nat \<Rightarrow> 'c \<Rightarrow> 'c" where
  "signals sig 0 c = c"
| "signals sig (Suc k) c = signals sig k (snd (sig c))"

fun consumer_routine ::
  "('c \<Rightarrow> bool \<times> 'c) \<Rightarrow> ('c \<Rightarrow> nat \<times> 'c) \<Rightarrow> nat list \<Rightarrow> nat \<Rightarrow> nat \<Rightarrow> 'c \<Rightarrow> nat \<times> nat \<times> 'c" where
  "consumer_routine sig clr [] snt total_recv c = (snt, total_recv, c)"
| "consumer_routine sig clr (k # ks) snt total_recv c =
     (let c = signals sig k c; (n, c) = clr c; total_recv = total_recv + n; snt = snt + k
      in if total_recv \<ge> 512 then (snt, total_recv, c) else consumer_routine sig clr ks snt total_recv c)"

definition counter_main ::
  "('c \<Rightarrow> bool \<times> 'c) \<Rightarrow> ('c \<Rightarrow> nat \<times> 'c) \<Rightarrow> nat list \<Rightarrow> nat \<Rightarrow> 'c \<Rightarrow> nat \<times> nat" where
  "counter_main sig clr rounds rest c =
     (let (snt, total_recv, c) = consumer_routine sig clr rounds 0 0 c;
          c = signals sig rest c; (n, c) = clr c
      in (snt + rest, total_recv + n))"

definition pipe_main :: "nat list \<Rightarrow> nat \<Rightarrow> kpipe \<Rightarrow> nat \<times> nat" where
  "pipe_main = counter_main event_pipe_wakeup event_pipe_clearup"

definition eventfd_main :: "nat list \<Rightarrow> nat \<Rightarrow> nat \<Rightarrow> nat \<times> nat" where
  "eventfd_main = counter_main eventfd_write clear_eventfd"

locale event_counter =
  fixes sig :: "'c \<Rightarrow> bool \<times> 'c" and clr :: "'c \<Rightarrow> nat \<times> 'c"
    and pending :: "'c \<Rightarrow> nat" and room :: "'c \<Rightarrow> nat" and wf :: "'c \<Rightarrow> bool"
  assumes sig_room: "wf c \<Longrightarrow> pending c < room c \<Longrightarrow>
      \<exists>c'. sig c = (True, c') \<and> wf c' \<and> pending c' = pending c + 1 \<and> room c' = room c"
    and sig_full: "wf c \<Longrightarrow> \<not> pending c < room c \<Longrightarrow>
      \<exists>c'. sig c = (False, c') \<and> wf c' \<and> pending c' = pending c \<and> room c' = room c"
    and clr_all: "wf c \<Longrightarrow> \<exists>c'. clr c = (pending c, c') \<and> wf c' \<and> pending c' = 0 \<and> room c' = room c"
begin

lemma signals_count:
  "wf c \<Longrightarrow> pending c \<le> room c \<Longrightarrow> wf (signals sig k c) \<and> room (signals sig k c) = room c \<and>
    pending (signals sig k c) = min (room c) (pending c + k)"
proof (induction k arbitrary: c)
  case (Suc k)
  show ?case
  proof (cases "pending c < room c")
    case True
    then obtain c' where "sig c = (True, c')" "wf c'" "pending c' = pending c + 1" "room c' = room c"
      using sig_room Suc.prems(1) by blast
    then show ?thesis using Suc.IH [of c'] True by simp
  next
    case False
    then obtain c' where "sig c = (False, c')" "wf c'" "pending c' = pending c" "room c' = room c"
      using sig_full Suc.prems(1) by blast
    then show ?thesis using Suc.IH [of c'] False Suc.prems(2) by simp
  qed
qed simp

text \<open>
  The consumer never counts more than was sent, and exactly what was sent if no clearing has to cover
  more signals than the counter holds.
\<close>

lemma consumer_counts:
  assumes "wf c" "pending c = 0" "\<forall>k \<in> set ks. k \<le> room c"
  shows "\<exists>j c'. consumer_routine sig clr ks snt tot c = (snt + j, tot + j, c') \<and>
    wf c' \<and> pending c' = 0 \<and> room c' = room c"
  using assms
proof (induction ks arbitrary: snt tot c)
  case Nil
  then show ?case by (auto intro!: exI [of _ 0])
next
  case (Cons k ks)
  let ?c1 = "signals sig k c"
  have c1: "wf ?c1" "room ?c1 = room c" "pending ?c1 = k"
    using signals_count [of c k] Cons.prems by (simp_all add: min_def)
  obtain c2 where c2: "clr ?c1 = (k, c2)" "wf c2" "pending c2 = 0" "room c2 = room c"
    using clr_all [OF c1(1)] c1 by auto
  show ?case
  proof (cases "tot + k \<ge> 512")
    case True
    then show ?thesis using c2 by auto
  next
    case False
    obtain j c' where "consumer_routine sig clr ks (snt + k) (tot + k) c2 = (snt + k + j, tot + k + j, c')"
      "wf c'" "pending c' = 0" "room c' = room c"
      using Cons.IH [of c2 "snt + k" "tot + k"] c2 Cons.prems(3) by auto
    then show ?thesis using False c2 by (auto simp: add.assoc intro!: exI [of _ "k + j"])
  qed
qed

lemma main_balanced:
  assumes "wf c" "pending c = 0" "\<forall>k \<in> set (rest # ks). k \<le> room c"
  shows "\<exists>n. counter_main sig clr ks rest c = (n, n)"
proof -
  obtain j c' where c': "consumer_routine sig clr ks 0 0 c = (j, j, c')" "wf c'" "pending c' = 0" "room c' = room c"
    using consumer_counts [OF assms(1,2), of ks 0 0] assms(3) by auto
  have "wf (signals sig rest c')" "pending (signals sig rest c') = rest"
    using signals_count [of c' rest] c' assms(3) by (simp_all add: min_def)
  then obtain c2 where "clr (signals sig rest c') = (rest, c2)" using clr_all by fastforce
  then show ?thesis using c'(1) by (simp add: counter_main_def Let_def)
qed

end

interpretation evfd: event_counter eventfd_write clear_eventfd id "\<lambda>_. 2 ^ 64 - 2" "\<lambda>_. True"
  by unfold_locales (auto simp: eventfd_write_def clear_eventfd_def eventfd_read_def)

definition pipe_wf :: "kpipe \<Rightarrow> bool" where
  "pipe_wf P \<longleftrightarrow> 8 dvd kp_len P \<and> kp_len P \<le> kp_cap P"

lemma writen_spec:
  "\<exists>P'. event_pipe_writen 8 8 P =
      (if kp_len P + 8 \<le> kp_cap P then Some 8 else None, P') \<and> kp_cap P' = kp_cap P \<and>
    kp_len P' = (if kp_len P + 8 \<le> kp_cap P then kp_len P + 8 else kp_len P)"
proof (induction "length (kp_intr P)" arbitrary: P rule: less_induct)
  case less
  show ?case
  proof (cases "interrupted P")
    case True
    then have "sys_write 8 P = (EINTR, next_call P)" by (simp add: sys_write_def)
    moreover have "length (kp_intr (next_call P)) < length (kp_intr P)"
      using True by (cases "kp_intr P") (auto simp: interrupted_def next_call_def)
    ultimately show ?thesis
      using less [of "next_call P"] by (subst event_pipe_writen.simps) (simp split: if_splits)
  next
    case False
    then show ?thesis
      by (subst event_pipe_writen.simps) (auto simp: sys_write_def PIPE_BUF_def next_call_def Let_def)
  qed
qed

lemma readall_spec:
  "8 dvd kp_len P \<Longrightarrow> \<exists>P'. event_pipe_readall acc P = (acc + kp_len P div 8, P') \<and> kp_cap P' = kp_cap P \<and> kp_len P' = 0"
proof (induction "kp_len P + length (kp_intr P)" arbitrary: acc P rule: less_induct)
  case less
  show ?case
  proof (cases "interrupted P")
    case True
    then have "sys_read 1024 P = (EINTR, next_call P)" by (simp add: sys_read_def)
    moreover have "length (kp_intr (next_call P)) < length (kp_intr P)"
      using True by (cases "kp_intr P") (auto simp: interrupted_def next_call_def)
    ultimately show ?thesis
      using less.hyps [of "next_call P" acc] less.prems by (subst event_pipe_readall.simps) simp
  next
    case False
    show ?thesis
    proof (cases "kp_len P < 1024")
      case True
      then show ?thesis
        using False by (subst event_pipe_readall.simps) (auto simp: sys_read_def next_call_def)
    next
      case big: False
      let ?P = "(next_call P)\<lparr>kp_len := kp_len P - 1024\<rparr>"
      have rd: "sys_read 1024 P = (Ret 1024, ?P)" using False big by (simp add: sys_read_def min_def)
      have "8 dvd kp_len ?P" using less.prems big by (auto simp: dvd_diff_nat)
      moreover have "kp_len ?P + length (kp_intr ?P) < kp_len P + length (kp_intr P)"
        using big by (simp add: next_call_def)
      ultimately obtain P' where "event_pipe_readall (acc + 128) ?P = (acc + 128 + kp_len ?P div 8, P')"
        "kp_cap P' = kp_cap ?P" "kp_len P' = 0"
        using less.hyps [of ?P "acc + 128"] by blast
      moreover have "128 + (kp_len P - 1024) div 8 = kp_len P div 8" using big by simp
      ultimately show ?thesis
        using rd by (subst event_pipe_readall.simps) simp
    qed
  qed
qed

interpretation pipe: event_counter event_pipe_wakeup event_pipe_clearup "\<lambda>P. kp_len P div 8" "\<lambda>P. kp_cap P div 8" pipe_wf
proof
  fix P assume wf: "pipe_wf P" and "kp_len P div 8 < kp_cap P div 8"
  then have "kp_len P + 8 \<le> kp_cap P" by (auto simp: pipe_wf_def elim!: dvdE)
  then show "\<exists>P'. event_pipe_wakeup P = (True, P') \<and> pipe_wf P' \<and> kp_len P' div 8 = kp_len P div 8 + 1 \<and>
      kp_cap P' div 8 = kp_cap P div 8"
    using writen_spec [of P] wf by (auto simp: event_pipe_wakeup_def pipe_wf_def)
next
  fix P assume wf: "pipe_wf P" and "\<not> kp_len P div 8 < kp_cap P div 8"
  then have "\<not> kp_len P + 8 \<le> kp_cap P" by (auto simp: pipe_wf_def elim!: dvdE)
  then show "\<exists>P'. event_pipe_wakeup P = (False, P') \<and> pipe_wf P' \<and> kp_len P' div 8 = kp_len P div 8 \<and>
      kp_cap P' div 8 = kp_cap P div 8"
    using writen_spec [of P] wf by (auto simp: event_pipe_wakeup_def pipe_wf_def)
next
  fix P assume "pipe_wf P"
  then show "\<exists>P'. event_pipe_clearup P = (kp_len P div 8, P') \<and> pipe_wf P' \<and> kp_len P' div 8 = 0 \<and>
      kp_cap P' div 8 = kp_cap P div 8"
    using readall_spec [of P 0] by (auto simp: event_pipe_clearup_def pipe_wf_def)
qed

text \<open>
  The pipe counts events: whatever system calls are interrupted, as long as no interval between two
  clearings has more signals than fit the pipe, the program reports as many events received as sent.
\<close>

theorem pipe_program_balanced:
  assumes "kp_len P = 0" "\<forall>k \<in> set (rest # rounds). 8 * k \<le> kp_cap P"
  shows "\<exists>n. pipe_main rounds rest P = (n, n)"
proof -
  have "\<forall>k \<in> set (rest # rounds). k \<le> kp_cap P div 8" using assms(2) by auto
  then show ?thesis
    unfolding pipe_main_def using assms(1) by (intro pipe.main_balanced) (simp_all add: pipe_wf_def)
qed

theorem pipe_program_balanced_witness:
  "\<exists>n. pipe_main [300, 300] 16 \<lparr>kp_len = 0, kp_cap = 65536, kp_intr = [False, True, True, False, True]\<rparr> = (n, n)"
  by (rule pipe_program_balanced) simp_all

text \<open>
  A full pipe loses events: a wake-up returns -1 then, but the producers count it as sent, so with more
  signals than fit between two clearings the two totals differ.
\<close>

theorem pipe_full_loses:
  assumes "kp_len P = 0" "kp_cap P < 8 * k"
  shows "fst (pipe_main [] k P) = k \<and> snd (pipe_main [] k P) = kp_cap P div 8 \<and> kp_cap P div 8 < k"
proof -
  have wf: "pipe_wf P" using assms(1) by (simp add: pipe_wf_def)
  have less: "kp_cap P div 8 < k" using assms(2) by (simp add: div_less_iff_less_mult mult.commute)
  let ?P = "signals event_pipe_wakeup k P"
  have "pipe_wf ?P" "kp_len ?P div 8 = kp_cap P div 8"
    using pipe.signals_count [OF wf, of k] assms(1) less by (simp_all add: min_def)
  then obtain P' where "event_pipe_clearup ?P = (kp_cap P div 8, P')" using pipe.clr_all by force
  then show ?thesis using less by (simp add: pipe_main_def counter_main_def Let_def)
qed

theorem pipe_full_loses_witness:
  "fst (pipe_main [] 3 \<lparr>kp_len = 0, kp_cap = 16, kp_intr = []\<rparr>) = 3 \<and>
   snd (pipe_main [] 3 \<lparr>kp_len = 0, kp_cap = 16, kp_intr = []\<rparr>) = 2"
  using pipe_full_loses [of "\<lparr>kp_len = 0, kp_cap = 16, kp_intr = []\<rparr>" 3] by simp

text \<open>
  The eventfd counts events: below the range of its 64-bit counter the program reports as many events
  received as sent.
\<close>

theorem eventfd_program_balanced:
  assumes "\<forall>k \<in> set (rest # rounds). k \<le> 2 ^ 64 - 2"
  shows "\<exists>n. eventfd_main rounds rest 0 = (n, n)"
  unfolding eventfd_main_def using assms by (intro evfd.main_balanced) simp_all

theorem eventfd_program_balanced_witness: "\<exists>n. eventfd_main [500, 20] 16 0 = (n, n)"
  by (rule eventfd_program_balanced) simp

end
