(* ===== verification/Totp.thy ===== *)
theory Totp
  imports Prelude
begin

text \<open>
  Time-based one-time passwords: src/use/c/use_openssl/example/crypt06_totp, base32.c and the function
  \<open>totp\<close> and \<open>main\<close> of the program.

  The bit buffer of the base32 functions is a 32-bit word; shifting bits out at the top is what the
  code relies on. \<open>HMAC\<close> of OpenSSL is an argument. The reference for both functions is the list of the
  bits of the data, most significant first; from it the round trip follows.
\<close>

section \<open>Base32\<close>

definition is_base32_blank :: "u8 \<Rightarrow> bool" where
  "is_base32_blank ch \<longleftrightarrow> ch = 0x20 \<or> ch = 0x09 \<or> ch = 0x0d \<or> ch = 0x0a \<or> ch = 0x2d"

definition fix_typo :: "u8 \<Rightarrow> u8" where
  "fix_typo ch = (if ch = 0x30 then 0x4f else if ch = 0x31 then 0x4c else if ch = 0x38 then 0x42 else ch)"

definition base32_digit :: "u8 \<Rightarrow> u8 option" where
  "base32_digit ch =
     (if 0x41 \<le> ch \<and> ch \<le> 0x5a \<or> 0x61 \<le> ch \<and> ch \<le> 0x7a then Some ((ch AND 0x1f) - 1)
      else if 0x32 \<le> ch \<and> ch \<le> 0x37 then Some (ch - (0x32 - 26))
      else None)"

text \<open>
  The loop of \<open>base32_decode\<close>: \<open>room\<close> is \<open>bufSize - count\<close>. The input ends with its null byte or the end
  of the list; \<open>None\<close> is the result -1, otherwise the result is what was written.
\<close>

fun decode_loop :: "bytes \<Rightarrow> nat \<Rightarrow> u32 \<Rightarrow> nat \<Rightarrow> bytes option" where
  "decode_loop [] room buffer bitsLeft = Some []"
| "decode_loop (ch # ptr) room buffer bitsLeft =
     (if room = 0 \<or> ch = 0 then Some []
      else if is_base32_blank ch then decode_loop ptr room buffer bitsLeft
      else
        case base32_digit (fix_typo ch) of
          None \<Rightarrow> None
        | Some d \<Rightarrow>
            let buffer = push_bit 5 buffer OR ucast d; bitsLeft = bitsLeft + 5
            in if bitsLeft \<ge> 8
               then map_option (Cons (ucast (drop_bit (bitsLeft - 8) buffer)))
                      (decode_loop ptr (room - 1) buffer (bitsLeft - 8))
               else decode_loop ptr room buffer bitsLeft)"

text \<open>
  Both functions store a null byte behind their result if there is room for it. \<open>with_null\<close> is the returned count
  with the bytes that \<open>result\<close> begins with.
\<close>

definition with_null :: "nat \<Rightarrow> bytes \<Rightarrow> nat \<times> bytes" where
  "with_null bufSize bs = (length bs, if length bs < bufSize then bs @ [0] else bs)"

definition base32_decode :: "bytes \<Rightarrow> nat \<Rightarrow> (nat \<times> bytes) option" where
  "base32_decode encoded bufSize = map_option (with_null bufSize) (decode_loop encoded bufSize 0 0)"

definition base32_alphabet :: "bytes" where
  "base32_alphabet = map of_char (''ABCDEFGHIJKLMNOPQRSTUVWXYZ234567'' :: string)"

text \<open>The loop of \<open>base32_encode\<close>; \<open>rest\<close> is the data from \<open>next\<close> on, \<open>room\<close> is \<open>bufSize - count\<close>.\<close>

fun encode_loop :: "bytes \<Rightarrow> nat \<Rightarrow> u32 \<Rightarrow> nat \<Rightarrow> bytes" where
  "encode_loop rest 0 buffer bitsLeft = []"
| "encode_loop rest (Suc room) buffer bitsLeft =
     (if bitsLeft = 0 \<and> rest = [] then []
      else
        let (rest, buffer, bitsLeft) =
              (if bitsLeft < 5 then
                 (case rest of
                    b # bs \<Rightarrow> (bs, push_bit 8 buffer OR (ucast b AND 0xff), bitsLeft + 8)
                  | [] \<Rightarrow> ([], push_bit (5 - bitsLeft) buffer, bitsLeft + (5 - bitsLeft)))
               else (rest, buffer, bitsLeft));
            index = 0x1f AND drop_bit (bitsLeft - 5) buffer
        in base32_alphabet ! unat index # encode_loop rest room buffer (bitsLeft - 5))"

definition base32_encode :: "bytes \<Rightarrow> nat \<Rightarrow> (nat \<times> bytes) option" where
  "base32_encode data bufSize =
     (if length data > 2 ^ 28 then None
      else Some (with_null bufSize (case data of [] \<Rightarrow> [] | d # ds \<Rightarrow> encode_loop ds bufSize (ucast d) 8)))"

section \<open>One-time passwords\<close>

text \<open>
  The number of 30 second steps. The quotient is computed in \<open>double\<close>, which is exact to the integer for
  times below \<open>2 ^ 51\<close>, and truncated towards zero; a value of -1 or less has no conversion to \<open>uint64_t\<close>.
  The counter is hashed in network byte order.
\<close>

definition time_step :: "int \<Rightarrow> nat result" where
  "time_step ts = (if ts \<le> -30 then Inl BadConversion else Inr (nat ts div 30))"

definition be64 :: "nat \<Rightarrow> bytes" where
  "be64 n = map (\<lambda>i. of_nat (n div 256 ^ i)) (rev [0..<8])"

definition totp :: "(bytes \<Rightarrow> bytes \<Rightarrow> bytes option) \<Rightarrow> int \<Rightarrow> bytes \<Rightarrow> u32 option result" where
  "totp hmac ts key =
     rbind (time_step ts) (\<lambda>t.
     case hmac key (be64 t) of
        None \<Rightarrow> Inr None
      | Some digest \<Rightarrow>
          rbind (load8 digest (length digest - 1)) (\<lambda>l.
          let offset = unat (l AND 0x0f) in
          rbind (load8 digest offset) (\<lambda>b0.
          rbind (load8 digest (offset + 1)) (\<lambda>b1.
          rbind (load8 digest (offset + 2)) (\<lambda>b2.
          rbind (load8 digest (offset + 3)) (\<lambda>b3.
          let code = push_bit 24 (ucast (b0 AND 0x7f)) OR push_bit 16 (ucast b1) OR
                     push_bit 8 (ucast b2) OR ucast b3 :: u32
          in Inr (Some (code mod 1000000))))))))"

definition KEY_SIZE :: nat where
  "KEY_SIZE = 16"

definition KEY_BASE32_SIZE :: nat where
  "KEY_BASE32_SIZE = (KEY_SIZE * 8 + 4) div 5 + 1"

text \<open>The key \<open>main\<close> works with: from the argument, filled up with zeros, or random.\<close>

definition main_key :: "bytes \<Rightarrow> bytes option \<Rightarrow> bytes option" where
  "main_key random arg =
     (case arg of
        None \<Rightarrow> Some random
      | Some s \<Rightarrow>
          (case base32_decode s KEY_SIZE of
             None \<Rightarrow> None
           | Some (n, k) \<Rightarrow> Some (k @ replicate (KEY_SIZE - length k) 0)))"

text \<open>The printed values: the key in base32 and the codes of this step and its neighbours.\<close>

definition totp_main ::
  "(bytes \<Rightarrow> bytes \<Rightarrow> bytes option) \<Rightarrow> bytes \<Rightarrow> bytes option \<Rightarrow> int \<Rightarrow>
   (bytes option \<times> u32 option list) option result" where
  "totp_main hmac random arg ts =
     (case main_key random arg of
        None \<Rightarrow> Inr None
      | Some key \<Rightarrow>
          rbind (totp hmac ts key) (\<lambda>now.
          rbind (totp hmac (ts - 30) key) (\<lambda>before.
          rbind (totp hmac (ts + 30) key) (\<lambda>after.
          Inr (Some (map_option (takeWhile (\<lambda>b. b \<noteq> 0) \<circ> snd) (base32_encode key (KEY_BASE32_SIZE + 1)), [now, before, after]))))))"

section \<open>Bits\<close>

text \<open>The lowest \<open>n\<close> bits of a word, most significant first.\<close>

definition bits :: "nat \<Rightarrow> 'a::len word \<Rightarrow> bool list" where
  "bits n w = map (bit w) (rev [0..<n])"

lemma length_bits [simp]: "length (bits n w) = n"
  by (simp add: bits_def)

lemma bits_0 [simp]: "bits 0 w = []"
  by (simp add: bits_def)

lemma nth_bits: "i < n \<Longrightarrow> bits n w ! i = bit w (n - 1 - i)"
  by (simp add: bits_def rev_nth)

lemma bits_push_or:
  assumes "n + k \<le> LENGTH('a)" "k \<le> LENGTH('b)" "\<forall>i \<ge> k. \<not> bit (d :: 'b::len word) i"
  shows "bits (n + k) (push_bit k w OR ucast d :: 'a::len word) = bits n w @ bits k d"
  using assms by (intro nth_equalityI) (auto simp: nth_bits nth_append bit_simps add.commute [of k n])

lemma bits_push: "n + k \<le> LENGTH('a) \<Longrightarrow> bits (n + k) (push_bit k w :: 'a::len word) = bits n w @ replicate k False"
  by (intro nth_equalityI) (auto simp: nth_bits nth_append bit_simps)

lemma take_bits: "k \<le> n \<Longrightarrow> take k (bits n w) = bits k (drop_bit (n - k) w)"
  by (intro nth_equalityI) (auto simp: nth_bits bit_simps intro!: arg_cong [of _ _ "bit w"])

lemma drop_bits: "drop k (bits n w) = bits (n - k) w"
  by (intro nth_equalityI) (auto simp: nth_bits)

lemma bits_inject:
  assumes "bits n v = bits n w" "\<forall>i \<ge> n. \<not> bit v i" "\<forall>i \<ge> n. \<not> bit w i"
  shows "v = w"
proof (rule bit_word_eqI)
  fix i assume "i < LENGTH('a)"
  show "bit v i = bit w i"
  proof (cases "i < n")
    case True
    then show ?thesis using arg_cong [OF assms(1), of "\<lambda>xs. xs ! (n - 1 - i)"] by (simp add: nth_bits)
  next
    case False
    then show ?thesis using assms(2,3) by simp
  qed
qed

section \<open>Encoding and decoding\<close>

abbreviation alphabet_char :: "u8 \<Rightarrow> u8" where
  "alphabet_char d \<equiv> base32_alphabet ! unat d"

lemma alphabet_char_digit:
  assumes "d < 32"
  shows "base32_digit (fix_typo (alphabet_char d)) = Some d \<and> alphabet_char d \<noteq> 0 \<and>
    \<not> is_base32_blank (alphabet_char d)"
proof -
  have "unat d \<in> set [0..<32]" using assms by (simp add: word_less_nat_alt)
  moreover have "\<forall>i \<in> set [0..<32]. base32_digit (fix_typo (base32_alphabet ! i)) = Some (of_nat i) \<and>
      base32_alphabet ! i \<noteq> 0 \<and> \<not> is_base32_blank (base32_alphabet ! i)"
    by (simp add: upt_conv_Cons base32_alphabet_def base32_digit_def fix_typo_def is_base32_blank_def)
  ultimately show ?thesis by (metis of_nat_unat ucast_id)
qed

lemma high_bits_u8: "d < 32 \<Longrightarrow> \<forall>i \<ge> 5. \<not> bit (d :: u8) i"
proof -
  assume "d < 32"
  then have "unat d < 2 ^ 5" by (simp add: word_less_nat_alt)
  then have "take_bit 5 (unat d) = unat d" by (rule take_bit_nat_eq_self)
  then have "take_bit 5 d = d" by (metis unsigned_take_bit_eq word_unat_eq_iff)
  then show ?thesis by (metis bit_take_bit_iff not_le)
qed

lemma u8_bits: "\<forall>i \<ge> 8. \<not> bit (d :: u8) i"
  using bit_imp_le_length [of d] by fastforce

text \<open>The five highest of \<open>b\<close> buffered bits, as the encoder takes them.\<close>

abbreviation quintet :: "u32 \<Rightarrow> nat \<Rightarrow> u8" where
  "quintet w b \<equiv> ucast (0x1f AND drop_bit (b - 5) w)"

lemma quintet_take_bit: "0x1f AND drop_bit (b - 5) w = take_bit 5 (drop_bit (b - 5) (w :: u32))"
proof -
  have "(0x1f :: u32) = Bit_Operations.mask 5" by (simp add: mask_eq_exp_minus_1)
  then show ?thesis by (simp add: take_bit_eq_mask and.commute)
qed

lemma bit_quintet: "bit (quintet w b) i \<longleftrightarrow> i < 5 \<and> bit w (b - 5 + i)"
  unfolding quintet_take_bit by (auto simp: bit_simps)

lemma unat_quintet: "unat (0x1f AND drop_bit (b - 5) w) = unat (quintet w b)" "quintet w b < 32"
proof -
  have less: "unat (0x1f AND drop_bit (b - 5) w) < 32"
    unfolding quintet_take_bit unsigned_take_bit_eq using take_bit_nat_less_exp [of 5] by simp
  then have "take_bit 8 (unat (0x1f AND drop_bit (b - 5) w)) = unat (0x1f AND drop_bit (b - 5) w)"
    by (intro take_bit_nat_eq_self) simp
  then show eq: "unat (0x1f AND drop_bit (b - 5) w) = unat (quintet w b)"
    by (simp add: unsigned_ucast_eq)
  show "quintet w b < 32" using less unfolding eq by (simp add: word_less_nat_alt)
qed

lemma bits_quintet: "5 \<le> b \<Longrightarrow> bits 5 (quintet w b) @ bits (b - 5) w = bits b w"
proof -
  assume b: "5 \<le> b"
  have "bits 5 (quintet w b) = take 5 (bits b w)"
    using b by (intro nth_equalityI) (auto simp: nth_bits bit_quintet intro!: arg_cong [of _ _ "bit w"])
  then show ?thesis by (metis drop_bits append_take_drop_id)
qed

lemma encode_take:
  "5 \<le> b \<Longrightarrow> encode_loop rest (Suc room) w b =
     alphabet_char (quintet w b) # encode_loop rest room w (b - 5)"
  by (simp add: unat_quintet)

lemma encode_refill:
  "b < 5 \<Longrightarrow> encode_loop (d # rest) (Suc room) w b =
     encode_loop rest (Suc room) (push_bit 8 w OR (ucast d AND 0xff)) (b + 8)"
  by simp

lemma encode_pad:
  "0 < b \<Longrightarrow> b < 5 \<Longrightarrow> encode_loop [] (Suc room) w b =
     encode_loop [] (Suc room) (push_bit (5 - b) w) 5"
  by simp

lemma encode_done: "encode_loop [] room w 0 = []"
  by (cases room) simp_all

lemma byte_mask: "(ucast (d :: u8) AND 0xff :: u32) = ucast d"
proof -
  have "(ucast d AND 0xff :: u32) = take_bit 8 (ucast d)" by (simp add: take_bit_eq_mask mask_eq_exp_minus_1)
  then show ?thesis by (simp add: take_bit_word_eq_self unsigned_ucast_eq) (intro bit_word_eqI, auto simp: bit_simps dest: bit_imp_le_length)
qed

lemma encode_loop_bits:
  assumes "b \<le> 12" "b + 8 * length rest \<le> 5 * room"
  shows "\<exists>ds pad. encode_loop rest room w b = map alphabet_char ds \<and> (\<forall>d \<in> set ds. d < 32) \<and> pad < 5 \<and>
    concat (map (bits 5) ds) = bits b w @ concat (map (bits 8) rest) @ replicate pad False"
  using assms
proof (induction room arbitrary: rest w b)
  case 0
  then show ?case by (intro exI [of _ "[]"] exI [of _ 0]) (simp add: bits_def)
next
  case (Suc room)
  have step: "\<exists>ds pad. encode_loop rest' (Suc room) w' b' = map alphabet_char ds \<and> (\<forall>d \<in> set ds. d < 32) \<and>
      pad < 5 \<and> concat (map (bits 5) ds) = bits b' w' @ concat (map (bits 8) rest') @ replicate pad False"
    if b': "5 \<le> b'" "b' \<le> 12" "b' + 8 * length rest' \<le> 5 * Suc room" for rest' w' b'
  proof -
    have "b' - 5 \<le> 12" "b' - 5 + 8 * length rest' \<le> 5 * room" using b' by auto
    from Suc.IH [OF this, of w'] obtain ds pad where ds:
      "encode_loop rest' room w' (b' - 5) = map alphabet_char ds" "\<forall>d \<in> set ds. d < 32" "pad < 5"
      "concat (map (bits 5) ds) = bits (b' - 5) w' @ concat (map (bits 8) rest') @ replicate pad False"
      by blast
    have "concat (map (bits 5) (quintet w' b' # ds)) = bits b' w' @ concat (map (bits 8) rest') @ replicate pad False"
      using ds(4) bits_quintet [OF b'(1), of w'] by (simp only: list.map concat.simps append_assoc [symmetric])
    moreover have "encode_loop rest' (Suc room) w' b' = map alphabet_char (quintet w' b' # ds)"
      using encode_take [OF b'(1), of rest' room w'] ds(1) by (simp only: list.map)
    moreover have "\<forall>d \<in> set (quintet w' b' # ds). d < 32" using ds(2) unat_quintet(2) by simp
    ultimately show ?thesis using ds(3) by blast
  qed
  consider "5 \<le> b" | d rest' where "b < 5" "rest = d # rest'" | "rest = []" "b = 0" | "rest = []" "0 < b" "b < 5"
    by (cases rest) fastforce+
  then show ?case
  proof cases
    case 1
    then show ?thesis using step [of b rest w] Suc.prems by simp
  next
    case 2
    have "bits (b + 8) (push_bit 8 w OR (ucast d AND 0xff)) = bits b w @ bits 8 d"
      unfolding byte_mask using 2(1) by (intro bits_push_or) (simp_all add: u8_bits)
    then show ?thesis
      using step [of "b + 8" rest' "push_bit 8 w OR (ucast d AND 0xff)"] Suc.prems 2 encode_refill [OF 2(1), of d rest' room w]
      by simp
  next
    case 3
    then show ?thesis by (intro exI [of _ "[]"] exI [of _ 0]) (simp add: bits_def)
  next
    case 4
    let ?w = "push_bit (5 - b) w"
    have "bits 5 (quintet ?w 5) = bits b w @ replicate (5 - b) False"
      using bits_quintet [OF order_refl, of ?w] bits_push [of b "5 - b" w] 4
      by (simp only: diff_self_eq_0 bits_0 append_Nil2) simp
    moreover have "encode_loop [] (Suc room) w b = [alphabet_char (quintet ?w 5)]"
      unfolding encode_pad [OF 4(2,3)] encode_take [OF order_refl] by (simp only: diff_self_eq_0 encode_done)
    ultimately show ?thesis using 4 unat_quintet(2) [of 5 ?w]
      by (intro exI [of _ "[quintet ?w 5]"] exI [of _ "5 - b"]) (simp del: encode_loop.simps diff_self_eq_0)
  qed
qed

lemma length_concat_bits: "length (concat (map (bits n) xs)) = n * length xs"
  by (induction xs) simp_all

lemma bits_byte: "8 \<le> n \<Longrightarrow> n \<le> 32 \<Longrightarrow> bits 8 (ucast (drop_bit (n - 8) w) :: u8) = take 8 (bits n (w :: u32))"
  by (intro nth_equalityI) (auto simp: nth_bits bit_simps intro!: arg_cong [of _ _ "bit w"])

lemma append_bits_inject: "bits n v @ xs = bits n w @ ys \<longleftrightarrow> bits n v = bits n w \<and> xs = ys"
  by (intro append_eq_append_conv disjI1) simp

lemma decode_loop_bits:
  assumes "b < 8" "\<forall>d \<in> set ds. d < 32" "sfx = [] \<or> hd sfx = 0" "length ys \<le> room" "length tail < 8"
    and "bits b w @ concat (map (bits 5) ds) = concat (map (bits 8) ys) @ tail"
  shows "decode_loop (map alphabet_char ds @ sfx) room w b = Some ys"
  using assms
proof (induction ds arbitrary: room w b ys)
  case Nil
  have "length (bits b w) = length (concat (map (bits 8) ys) @ tail)" using Nil.prems(6) by simp
  then have "ys = []" using Nil.prems(1) by (cases ys) (simp_all add: length_concat_bits)
  then show ?case using Nil.prems(3) by (cases sfx) simp_all
next
  case (Cons d ds)
  let ?w = "push_bit 5 w OR ucast d :: u32" and ?s = "concat (map (bits 5) ds)"
  have len: "b + 5 + 5 * length ds = 8 * length ys + length tail"
    using arg_cong [OF Cons.prems(6), of length] by (simp add: length_concat_bits)
  have d: "base32_digit (fix_typo (alphabet_char d)) = Some d" "alphabet_char d \<noteq> 0" "\<not> is_base32_blank (alphabet_char d)"
    using alphabet_char_digit [of d] Cons.prems(2) by simp_all
  have w: "bits (b + 5) ?w = bits b w @ bits 5 d"
    using Cons.prems(1,2) high_bits_u8 [of d] by (intro bits_push_or) simp_all
  then have all: "bits (b + 5) ?w @ ?s = concat (map (bits 8) ys) @ tail" using Cons.prems(6) by simp
  show ?case
  proof (cases "8 \<le> b + 5")
    case True
    with len Cons.prems(5) obtain y ys' where ys: "ys = y # ys'" by (cases ys) auto
    have "b + 5 \<le> 32" using Cons.prems(1) by simp
    then have "bits 8 (ucast (drop_bit (b + 5 - 8) ?w) :: u8) = take 8 (bits (b + 5) ?w)" using True by (rule bits_byte [rotated])
    then have split: "bits (b + 5) ?w = bits 8 (ucast (drop_bit (b + 5 - 8) ?w) :: u8) @ bits (b + 5 - 8) ?w"
      by (simp only: drop_bits [symmetric] append_take_drop_id)
    then have "bits 8 (ucast (drop_bit (b + 5 - 8) ?w) :: u8) @ (bits (b + 5 - 8) ?w @ ?s) = bits 8 y @ (concat (map (bits 8) ys') @ tail)"
      using all unfolding ys by (simp only: list.map concat.simps append_assoc)
    then have parts: "bits 8 (ucast (drop_bit (b + 5 - 8) ?w) :: u8) = bits 8 y"
      "bits (b + 5 - 8) ?w @ ?s = concat (map (bits 8) ys') @ tail"
      using append_bits_inject by blast+
    then have y: "ucast (drop_bit (b + 5 - 8) ?w) = y" by (intro bits_inject [OF parts(1)] u8_bits)
    have "decode_loop (map alphabet_char ds @ sfx) (room - 1) ?w (b + 5 - 8) = Some ys'"
      using Cons.prems ys parts(2) by (intro Cons.IH) simp_all
    then show ?thesis using d True y ys Cons.prems(4) by (simp add: Let_def)
  next
    case False
    then have "decode_loop (map alphabet_char ds @ sfx) room ?w (b + 5) = Some ys"
      using Cons.prems all by (intro Cons.IH) simp_all
    moreover have "decode_loop (map alphabet_char ds @ sfx) 0 ?w (b + 5) = Some []" by (cases "map alphabet_char ds @ sfx") simp_all
    ultimately show ?thesis using d False Cons.prems(4) by (auto simp: Let_def)
  qed
qed

section \<open>Theorems\<close>

lemma encode_decode:
  assumes "length data \<le> 2 ^ 28" "8 * length data \<le> 5 * bufSize" "length data \<le> room"
  shows "\<exists>s. base32_encode data bufSize = Some (with_null bufSize s) \<and> 5 * length s < 8 * length data + 5 \<and> 0 \<notin> set s \<and>
    base32_decode (s @ 0 # junk) room = Some (with_null room data)"
proof (cases data)
  case Nil
  then show ?thesis by (simp add: base32_encode_def base32_decode_def)
next
  case (Cons d rest)
  obtain ds pad where ds: "encode_loop rest bufSize (ucast d) 8 = map alphabet_char ds" "\<forall>d \<in> set ds. d < 32" "pad < 5"
    "concat (map (bits 5) ds) = bits 8 (ucast d :: u32) @ concat (map (bits 8) rest) @ replicate pad False"
    using encode_loop_bits [of 8 rest bufSize "ucast d"] assms(2) Cons by auto
  have "bits 8 (ucast d :: u32) = bits 8 d" by (intro nth_equalityI) (auto simp: nth_bits bit_simps)
  then have cat: "bits 0 (0 :: u32) @ concat (map (bits 5) ds) = concat (map (bits 8) data) @ replicate pad False"
    using ds(4) Cons by simp
  have "5 * length ds = 8 * length data + pad"
    using arg_cong [OF cat, of length] by (simp add: length_concat_bits)
  then have "5 * length ds < 8 * length data + 5" using ds(3) by linarith
  moreover have "0 \<notin> set (map alphabet_char ds)" using ds(2) alphabet_char_digit by fastforce
  moreover have "decode_loop (map alphabet_char ds @ 0 # junk) room 0 0 = Some data"
    by (rule decode_loop_bits [OF _ ds(2) _ assms(3) _ cat]) (use ds(3) in simp_all)
  ultimately show ?thesis
    using assms(1) ds(1) Cons by (intro exI [of _ "map alphabet_char ds"]) (simp add: base32_encode_def base32_decode_def)
qed

text \<open>
  C28. Decoding the base32 text of some data gives the data back, for every result buffer that can hold the text and every one that can hold the data; whatever follows the null byte is not read. Both functions store inside their buffers and return the length of what they store, followed by a null byte if there is room for it: a text that was stored with room to spare can be decoded as it lies in the buffer.
\<close>

theorem base32_roundtrip:
  assumes "length data \<le> 2 ^ 28" "8 * length data \<le> 5 * bufSize" "length data \<le> room"
  shows "\<exists>s. base32_encode data bufSize = Some (length s, if length s < bufSize then s @ [0] else s) \<and> length s \<le> bufSize \<and>
    base32_decode (s @ 0 # junk) room = Some (length data, if length data < room then data @ [0] else data)"
proof -
  obtain s where s: "base32_encode data bufSize = Some (with_null bufSize s)" "5 * length s < 8 * length data + 5"
    "base32_decode (s @ 0 # junk) room = Some (with_null room data)"
    using encode_decode [OF assms] by blast
  then have "length s \<le> bufSize" using assms(2) by linarith
  then show ?thesis using s by (auto simp: with_null_def)
qed

theorem base32_roundtrip_witness:
  "\<exists>s. base32_encode [0xde, 0xad, 0xbe] 6 = Some (length s, if length s < 6 then s @ [0] else s) \<and> length s \<le> 6 \<and>
    base32_decode (s @ 0 # [0x41]) 3 = Some (3, [0xde, 0xad, 0xbe])"
proof -
  have "length [0xde, 0xad, 0xbe :: u8] = 3" by simp
  then show ?thesis using base32_roundtrip [of "[0xde, 0xad, 0xbe]" 6 3 "[0x41]"] by (simp only: length_Cons list.size One_nat_def) (simp add: numeral_3_eq_3 split del: if_split)
qed

lemma load8_ok: "i < length b \<Longrightarrow> load8 b i = Inr (b ! i)"
  by (simp add: load8_def)

lemma unat_low_nibble: "unat (l AND 0x0f :: u8) \<le> 15"
  using word_and_le1 [of l "0x0f"] by (simp add: word_le_nat_alt)

lemma totp_digest:
  assumes "-30 < ts" "hmac key (be64 (nat ts div 30)) = Some digest" "length digest = 20"
  shows "\<exists>code. totp hmac ts key = Inr (Some code) \<and> code < 1000000"
proof -
  have "unat ((digest ! 19) AND 0x0f) + 3 < 20" using unat_low_nibble [of "digest ! 19"] by linarith
  moreover have "x mod 1000000 < 1000000" for x :: u32
    by (simp add: word_less_nat_alt unat_mod)
  ultimately show ?thesis using assms by (simp add: totp_def time_step_def load8_ok Let_def)
qed

text \<open>
  With a digest of twenty bytes, as HMAC-SHA1 gives, the dynamic truncation stays inside the digest
  whatever its last byte says, and the code has at most six digits.
\<close>

theorem totp_bounds:
  assumes "\<And>k t. \<exists>digest. hmac k t = Some digest \<and> length digest = 20" "-30 < ts"
  shows "\<exists>code. totp hmac ts key = Inr (Some code) \<and> code < 1000000"
  using totp_digest [OF assms(2)] assms(1) by metis

theorem totp_bounds_witness:
  "\<exists>code. totp (\<lambda>k t. Some (replicate 20 0x5f)) 59 [1, 2, 3] = Inr (Some code) \<and> code < 1000000"
  using totp_bounds [of "\<lambda>k t. Some (replicate 20 0x5f)" 59 "[1, 2, 3]"] by simp

text \<open>
  The key that a run with a random key prints, given to the next run as its argument, makes that run
  print the same key and the same codes.
\<close>

theorem totp_main_repeatable:
  assumes "length random = KEY_SIZE"
  shows "\<exists>s. base32_encode random (KEY_BASE32_SIZE + 1) = Some (length s, s @ [0]) \<and> length s < KEY_BASE32_SIZE + 1 \<and>
    totp_main hmac other (Some (s @ 0 # junk)) ts = totp_main hmac random None ts"
proof -
  have k: "length random = 16" "KEY_BASE32_SIZE + 1 = 28" using assms by (simp_all add: KEY_SIZE_def KEY_BASE32_SIZE_def)
  obtain s where s: "base32_encode random (KEY_BASE32_SIZE + 1) = Some (with_null (KEY_BASE32_SIZE + 1) s)" "5 * length s < 8 * length random + 5"
    "base32_decode (s @ 0 # junk) KEY_SIZE = Some (with_null KEY_SIZE random)"
    using encode_decode [of random "KEY_BASE32_SIZE + 1" KEY_SIZE junk] k by (auto simp: assms)
  then have "length s < KEY_BASE32_SIZE + 1" using k by linarith
  moreover have "main_key other (Some (s @ 0 # junk)) = main_key random None"
    by (simp add: main_key_def s(3) assms with_null_def)
  ultimately show ?thesis using s(1) by (auto simp: totp_main_def with_null_def)
qed

theorem totp_main_repeatable_witness:
  "\<exists>s. base32_encode (replicate 16 0x61) (KEY_BASE32_SIZE + 1) = Some (length s, s @ [0]) \<and> length s < KEY_BASE32_SIZE + 1 \<and>
    totp_main (\<lambda>k t. Some (rev k @ [1, 2, 3, 4])) [] (Some (s @ 0 # [7])) 1700000000 =
    totp_main (\<lambda>k t. Some (rev k @ [1, 2, 3, 4])) (replicate 16 0x61) None 1700000000"
  using totp_main_repeatable [of "replicate 16 0x61" "\<lambda>k t. Some (rev k @ [1, 2, 3, 4])" "[]" "[7]" 1700000000]
  by (simp add: KEY_SIZE_def)

end
