(* ===== verification/Tls.thy ===== *)
theory Tls
  imports Prelude
begin

text \<open>
  What the TLS echo programs share: the socket contexts of the muggle event loop, the heaps of the
  programs, and the TLS library as a record of functions.

  A \<open>net\<close> holds the socket contexts that the event loop knows, the objects that the program has attached to
  them and the TLS objects; pointers are numbers, and using one that was freed is a fault.
  \<open>sc_open\<close> says that the event loop has called the callback for a new context, \<open>sc_closing\<close> that the
  program has closed or shut down the context, so that the loop is going to call the close callback, and
  \<open>sc_closed\<close> that it has called it. The log holds the lines the program writes.
\<close>

section \<open>Socket contexts and heaps\<close>

datatype sock_type = MUGGLE_SOCKET_CTX_TYPE_TCP_LISTEN | MUGGLE_SOCKET_CTX_TYPE_TCP_CLIENT

record sock_ctx =
  sc_type :: sock_type
  sc_data :: "ptr option"
  sc_open :: bool
  sc_closing :: bool
  sc_closed :: bool

record ('d, 't) net =
  ctxs :: "ptr \<rightharpoonup> sock_ctx"
  datas :: "ptr \<rightharpoonup> 'd"
  ssls :: "ptr \<rightharpoonup> 't"
  fresh :: ptr
  logs :: "string list"

definition log_line :: "string \<Rightarrow> ('d, 't, 'z) net_scheme \<Rightarrow> ('d, 't, 'z) net_scheme" where
  "log_line s w = w\<lparr>logs := logs w @ [s]\<rparr>"

definition the_ctx :: "ptr \<Rightarrow> ('d, 't, 'z) net_scheme \<Rightarrow> sock_ctx result" where
  "the_ctx c w = (case ctxs w c of None \<Rightarrow> Inl UseAfterFree | Some x \<Rightarrow> Inr x)"

definition the_data :: "ptr \<Rightarrow> ('d, 't, 'z) net_scheme \<Rightarrow> 'd result" where
  "the_data p w = (case datas w p of None \<Rightarrow> Inl UseAfterFree | Some d \<Rightarrow> Inr d)"

definition the_ssl :: "ptr option \<Rightarrow> ('d, 't, 'z) net_scheme \<Rightarrow> (ptr \<times> 't) result" where
  "the_ssl s w =
     (case s of
        None \<Rightarrow> Inl NullDeref
      | Some s \<Rightarrow> (case ssls w s of None \<Rightarrow> Inl UseAfterFree | Some t \<Rightarrow> Inr (s, t)))"

definition set_ssl :: "ptr \<Rightarrow> 't \<Rightarrow> ('d, 't, 'z) net_scheme \<Rightarrow> ('d, 't, 'z) net_scheme" where
  "set_ssl s t w = w\<lparr>ssls := (ssls w)(s \<mapsto> t)\<rparr>"

definition upd_ctx ::
  "ptr \<Rightarrow> (sock_ctx \<Rightarrow> sock_ctx) \<Rightarrow> ('d, 't, 'z) net_scheme \<Rightarrow> ('d, 't, 'z) net_scheme result" where
  "upd_ctx c f w = rbind (the_ctx c w) (\<lambda>x. Inr (w\<lparr>ctxs := (ctxs w)(c \<mapsto> f x)\<rparr>))"

definition upd_data ::
  "ptr \<Rightarrow> ('d \<Rightarrow> 'd) \<Rightarrow> ('d, 't, 'z) net_scheme \<Rightarrow> ('d, 't, 'z) net_scheme result" where
  "upd_data p f w = rbind (the_data p w) (\<lambda>d. Inr (w\<lparr>datas := (datas w)(p \<mapsto> f d)\<rparr>))"

definition new_data :: "'d \<Rightarrow> ('d, 't, 'z) net_scheme \<Rightarrow> ptr \<times> ('d, 't, 'z) net_scheme" where
  "new_data d w = (fresh w, w\<lparr>datas := (datas w)(fresh w \<mapsto> d), fresh := fresh w + 1\<rparr>)"

definition new_ssl :: "'t \<Rightarrow> ('d, 't, 'z) net_scheme \<Rightarrow> ptr \<times> ('d, 't, 'z) net_scheme" where
  "new_ssl t w = (fresh w, w\<lparr>ssls := (ssls w)(fresh w \<mapsto> t), fresh := fresh w + 1\<rparr>)"

definition free_data :: "ptr \<Rightarrow> ('d, 't, 'z) net_scheme \<Rightarrow> ('d, 't, 'z) net_scheme result" where
  "free_data p w = rbind (the_data p w) (\<lambda>_. Inr (w\<lparr>datas := (datas w)(p := None)\<rparr>))"

definition free_ssl :: "ptr \<Rightarrow> ('d, 't, 'z) net_scheme \<Rightarrow> ('d, 't, 'z) net_scheme result" where
  "free_ssl s w = rbind (the_ssl (Some s) w) (\<lambda>_. Inr (w\<lparr>ssls := (ssls w)(s := None)\<rparr>))"

definition muggle_socket_ctx_get_data :: "ptr \<Rightarrow> ('d, 't, 'z) net_scheme \<Rightarrow> ptr option result" where
  "muggle_socket_ctx_get_data c w = rbind (the_ctx c w) (\<lambda>x. Inr (sc_data x))"

definition muggle_socket_ctx_set_data ::
  "ptr \<Rightarrow> ptr option \<Rightarrow> ('d, 't, 'z) net_scheme \<Rightarrow> ('d, 't, 'z) net_scheme result" where
  "muggle_socket_ctx_set_data c v = upd_ctx c (\<lambda>x. x\<lparr>sc_data := v\<rparr>)"

text \<open>\<open>muggle_socket_ctx_close\<close> and \<open>muggle_socket_ctx_shutdown\<close>: the event loop will close the context.\<close>

definition ctx_close :: "ptr \<Rightarrow> ('d, 't, 'z) net_scheme \<Rightarrow> ('d, 't, 'z) net_scheme result" where
  "ctx_close c = upd_ctx c (\<lambda>x. x\<lparr>sc_closing := True\<rparr>)"

lemmas net_defs = log_line_def the_ctx_def the_data_def the_ssl_def set_ssl_def upd_ctx_def upd_data_def
  new_data_def new_ssl_def free_data_def free_ssl_def muggle_socket_ctx_get_data_def
  muggle_socket_ctx_set_data_def ctx_close_def

section \<open>The TLS library\<close>

text \<open>
  The functions of OpenSSL and wolfSSL that work on an open connection, on a state \<open>'t\<close> that belongs to
  the library: the two handshakes, reading at most a number of bytes, writing, the code of the last
  error and its text, setting the name of the server, and whether the last system call would have blocked. Reading returns the result of the call and the
  bytes it has stored.
\<close>

record 't tls =
  t_accept :: "'t \<Rightarrow> int \<times> 't"
  t_connect :: "'t \<Rightarrow> int \<times> 't"
  t_read :: "nat \<Rightarrow> 't \<Rightarrow> int \<times> bytes \<times> 't"
  t_write :: "bytes \<Rightarrow> 't \<Rightarrow> int \<times> 't"
  t_error :: "'t \<Rightarrow> int \<Rightarrow> int"
  t_reason :: "'t \<Rightarrow> string"
  t_host :: "string \<Rightarrow> 't \<Rightarrow> 't"
  t_wouldblock :: "'t \<Rightarrow> bool"

text \<open>
  The documented behaviour of reading and writing. \<open>pending\<close> are the records of the peer that can still be
  read, \<open>written\<close> the records that were sent: a positive result of a read is the number of bytes taken
  from the first record, and a positive result of a write says that everything was sent as a record.
\<close>

definition read_ok :: "'t tls \<Rightarrow> ('t \<Rightarrow> bytes list) \<Rightarrow> ('t \<Rightarrow> bytes list) \<Rightarrow> bool" where
  "read_ok L pending written \<longleftrightarrow>
     (\<forall>n t. let (r, bs, t') = t_read L n t in
        written t' = written t \<and> length bs \<le> n \<and>
        (if r > 0 then
           r = int (length bs) \<and>
           (\<exists>m ms. pending t = m # ms \<and> bs = take n m \<and>
              pending t' = (if length m \<le> n then ms else drop n m # ms))
         else bs = [] \<and> pending t' = pending t))"

definition write_ok :: "'t tls \<Rightarrow> ('t \<Rightarrow> bytes list) \<Rightarrow> ('t \<Rightarrow> bytes list) \<Rightarrow> bool" where
  "write_ok L pending written \<longleftrightarrow>
     (\<forall>bs t. let (r, t') = t_write L bs t in
        pending t' = pending t \<and>
        (if r > 0 then r = int (length bs) \<and> written t' = written t @ [bs] else written t' = written t))"

definition shake_ok :: "'t tls \<Rightarrow> ('t \<Rightarrow> bytes list) \<Rightarrow> ('t \<Rightarrow> bytes list) \<Rightarrow> bool" where
  "shake_ok L pending written \<longleftrightarrow>
     (\<forall>t. pending (snd (t_accept L t)) = pending t \<and> written (snd (t_accept L t)) = written t \<and>
        pending (snd (t_connect L t)) = pending t \<and> written (snd (t_connect L t)) = written t \<and>
        (\<forall>name. pending (t_host L name t) = pending t \<and> written (t_host L name t) = written t))"

definition tls_ok :: "'t tls \<Rightarrow> ('t \<Rightarrow> bytes list) \<Rightarrow> ('t \<Rightarrow> bytes list) \<Rightarrow> bool" where
  "tls_ok L pending written \<longleftrightarrow>
     read_ok L pending written \<and> write_ok L pending written \<and> shake_ok L pending written"

lemma read_okD:
  assumes "tls_ok L pending written" "t_read L n t = (r, bs, t')"
  shows "written t' = written t" "length bs \<le> n" "r \<le> 0 \<Longrightarrow> bs = [] \<and> pending t' = pending t"
    and "r > 0 \<Longrightarrow> r = int (length bs) \<and> concat (pending t) = bs @ concat (pending t')"
    and "r > 0 \<Longrightarrow> \<forall>m \<in> set (pending t). length m \<le> n \<Longrightarrow> pending t = bs # pending t'"
proof -
  have "read_ok L pending written" using assms(1) by (simp add: tls_ok_def)
  note law = this [unfolded read_ok_def, THEN spec, of n, THEN spec, of t]
  have *: "written t' = written t \<and> length bs \<le> n \<and>
      (if r > 0 then r = int (length bs) \<and> (\<exists>m ms. pending t = m # ms \<and> bs = take n m \<and>
         pending t' = (if length m \<le> n then ms else drop n m # ms))
       else bs = [] \<and> pending t' = pending t)"
    using law assms(2) by simp
  then show "written t' = written t" "length bs \<le> n" "r \<le> 0 \<Longrightarrow> bs = [] \<and> pending t' = pending t" by auto
  show "r > 0 \<Longrightarrow> r = int (length bs) \<and> concat (pending t) = bs @ concat (pending t')"
    and "r > 0 \<Longrightarrow> \<forall>m \<in> set (pending t). length m \<le> n \<Longrightarrow> pending t = bs # pending t'"
    using * by (auto split: if_splits)
qed

lemma write_okD:
  assumes "tls_ok L pending written" "t_write L bs t = (r, t')"
  shows "pending t' = pending t" "written t' = (if r > 0 then written t @ [bs] else written t)"
    "r > 0 \<Longrightarrow> r = int (length bs)"
proof -
  have "write_ok L pending written" using assms(1) by (simp add: tls_ok_def)
  note law = this [unfolded write_ok_def, THEN spec, of bs, THEN spec, of t]
  have "pending t' = pending t \<and>
      (if r > 0 then r = int (length bs) \<and> written t' = written t @ [bs] else written t' = written t)"
    using law assms(2) by simp
  then show "pending t' = pending t" "written t' = (if r > 0 then written t @ [bs] else written t)"
    "r > 0 \<Longrightarrow> r = int (length bs)" by (auto split: if_splits)
qed

section \<open>Ownership\<close>

text \<open>
  What the objects of a \<open>net\<close> look like from outside: the contexts without the closing mark, which object
  holds which TLS object, and which TLS objects there are.
\<close>

definition shape ::
  "('d \<Rightarrow> ptr option) \<Rightarrow> ('d, 't, 'z) net_scheme \<Rightarrow> (ptr \<rightharpoonup> sock_ctx) \<times> (ptr \<rightharpoonup> ptr option) \<times> ptr set \<times> ptr" where
  "shape ssl_of w =
     (\<lambda>c. map_option (\<lambda>x. x\<lparr>sc_closing := False\<rparr>) (ctxs w c), \<lambda>p. map_option ssl_of (datas w p), dom (ssls w), fresh w)"

text \<open>Every object belongs to one context and every TLS object to one object.\<close>

definition bijective :: "('a \<rightharpoonup> 'b) \<Rightarrow> 'b set \<Rightarrow> bool" where
  "bijective m B \<longleftrightarrow> inj_on m (dom m) \<and> ran m = B"

definition data_map :: "(ptr \<rightharpoonup> sock_ctx) \<Rightarrow> ptr \<rightharpoonup> ptr" where
  "data_map H = (\<lambda>c. Option.bind (H c) sc_data)"

definition owned :: "(ptr \<rightharpoonup> sock_ctx) \<times> (ptr \<rightharpoonup> ptr option) \<times> ptr set \<times> ptr \<Rightarrow> bool" where
  "owned sh \<longleftrightarrow>
     (case sh of (H, D, S, n) \<Rightarrow>
        bijective (data_map H) (dom D) \<and> None \<notin> ran D \<and> bijective (\<lambda>p. Option.bind (D p) id) S \<and>
        dom H \<union> dom D \<union> S \<subseteq> {..<n})"

definition net_inv :: "('d \<Rightarrow> ptr option) \<Rightarrow> ('d, 't, 'z) net_scheme \<Rightarrow> bool" where
  "net_inv ssl_of w \<longleftrightarrow> owned (shape ssl_of w)"

lemma net_inv_same: "shape ssl_of w' = shape ssl_of w \<Longrightarrow> net_inv ssl_of w' = net_inv ssl_of w"
  by (simp add: net_inv_def)

lemma bijective_dest:
  "bijective m B \<Longrightarrow> m a = Some b \<Longrightarrow> b \<in> B"
  "bijective m B \<Longrightarrow> m a = Some b \<Longrightarrow> m a' = Some b \<Longrightarrow> a = a'"
  "bijective m B \<Longrightarrow> b \<in> B \<Longrightarrow> \<exists>a. m a = Some b"
  by (auto simp: bijective_def ranI ran_def) (metis domI inj_onD)

lemma bijectiveI:
  assumes "\<And>a b. m a = Some b \<Longrightarrow> b \<in> B" "\<And>a a' b. m a = Some b \<Longrightarrow> m a' = Some b \<Longrightarrow> a = a'"
    and "\<And>b. b \<in> B \<Longrightarrow> \<exists>a. m a = Some b"
  shows "bijective m B"
  using assms by (fastforce simp: bijective_def inj_on_def ran_def)

lemma bijective_add:
  assumes "bijective m B" "m a = None" "b \<notin> B" shows "bijective (m(a \<mapsto> b)) (insert b B)"
proof (rule bijectiveI)
  fix c assume "c \<in> insert b B"
  then consider "c = b" | a' where "m a' = Some c" using bijective_dest(3) [OF assms(1)] by auto
  then show "\<exists>a'. (m(a \<mapsto> b)) a' = Some c" using assms(2) by cases force+
qed (use bijective_dest(1,2) [OF assms(1)] assms(3) in \<open>auto split: if_splits\<close>)

lemma bijective_remove:
  assumes "bijective m B" "m a = Some b" shows "bijective (m(a := None)) (B - {b})"
proof (rule bijectiveI)
  fix c assume "c \<in> B - {b}"
  then obtain a' where "m a' = Some c" "c \<noteq> b" using bijective_dest(3) [OF assms(1)] by auto
  then have "(m(a := None)) a' = Some c" using assms(2) by auto
  then show "\<exists>a'. (m(a := None)) a' = Some c" ..
qed (use bijective_dest(1,2) [OF assms(1)] assms(2) in \<open>auto split: if_splits\<close>)

lemma owned_data:
  assumes "net_inv ssl_of w" "ctxs w c = Some x" "sc_data x = Some p"
  obtains d s t where "datas w p = Some d" "ssl_of d = Some s" "ssls w s = Some t"
proof -
  let ?H = "\<lambda>c. map_option (\<lambda>x. x\<lparr>sc_closing := False\<rparr>) (ctxs w c)" and ?D = "\<lambda>p. map_option ssl_of (datas w p)"
  have own: "bijective (data_map ?H) (dom ?D)" "None \<notin> ran ?D" "bijective (\<lambda>p. Option.bind (?D p) id) (dom (ssls w))"
    using assms(1) by (simp_all add: net_inv_def owned_def shape_def)
  have "data_map ?H c = Some p" using assms(2,3) by (simp add: data_map_def)
  then have "p \<in> dom ?D" using own(1) by (blast dest: bijective_dest(1))
  then obtain d where d: "datas w p = Some d" by auto
  have "ssl_of d \<in> ran ?D" using d by (metis option.simps(9) ranI)
  then obtain s where s: "ssl_of d = Some s" using own(2) by (cases "ssl_of d") auto
  then have "Option.bind (?D p) id = Some s" using d by simp
  then have "s \<in> dom (ssls w)" using own(3) by (blast dest: bijective_dest(1))
  then show ?thesis using that d s by auto
qed

text \<open>A new context, its object with a TLS object, and the end of a context.\<close>

lemma data_map_upd: "data_map (H(c \<mapsto> x)) = (data_map H)(c := sc_data x)"
  by (auto simp: data_map_def)

lemma owned_arrive: "owned (H, D, S, n) \<Longrightarrow> sc_data x = None \<Longrightarrow> owned (H(n \<mapsto> x), D, S, Suc n)"
proof -
  assume own: "owned (H, D, S, n)" and x: "sc_data x = None"
  then have "H n = None" by (auto simp: owned_def dom_def)
  then have "data_map (H(n \<mapsto> x)) = data_map H" using x by (auto simp: data_map_def)
  then show ?thesis using own by (auto simp: owned_def)
qed

lemma owned_attach:
  assumes "owned (H, D, S, n)" "data_map H c = None" "c \<in> dom H" "sc_data x = Some n"
  shows "owned (H(c \<mapsto> x), D(n \<mapsto> Some (Suc n)), insert (Suc n) S, Suc (Suc n))"
proof -
  have fresh: "n \<notin> dom D" "Suc n \<notin> S" using assms(1) by (auto simp: owned_def)
  have "bijective ((data_map H)(c \<mapsto> n)) (insert n (dom D))"
    by (rule bijective_add) (use assms(1,2) fresh in \<open>simp_all add: owned_def\<close>)
  moreover have "bijective ((\<lambda>p. Option.bind (D p) id)(n \<mapsto> Suc n)) (insert (Suc n) S)"
    by (rule bijective_add) (use assms(1) fresh in \<open>simp_all add: owned_def domIff\<close>)
  moreover have "(\<lambda>p. Option.bind ((D(n \<mapsto> Some (Suc n))) p) id) = (\<lambda>p. Option.bind (D p) id)(n \<mapsto> Suc n)" by auto
  moreover have "ran (D(n \<mapsto> Some (Suc n))) = insert (Some (Suc n)) (ran D)" using fresh(1) by (simp add: domIff)
  ultimately show ?thesis using assms by (auto simp: owned_def data_map_upd)
qed

lemma owned_detach:
  assumes "owned (H, D, S, n)" "data_map H c = Some p" "D p = Some (Some s)" "sc_data x = None"
  shows "owned (H(c \<mapsto> x), D(p := None), S - {s}, n)"
proof -
  have "bijective ((data_map H)(c := None)) (dom D - {p})"
    by (rule bijective_remove) (use assms(1,2) in \<open>simp_all add: owned_def\<close>)
  moreover have "bijective ((\<lambda>p. Option.bind (D p) id)(p := None)) (S - {s})"
    by (rule bijective_remove) (use assms(1,3) in \<open>simp_all add: owned_def\<close>)
  moreover have "(\<lambda>q. Option.bind ((D(p := None)) q) id) = (\<lambda>p. Option.bind (D p) id)(p := None)" by auto
  moreover have "c \<in> dom H" using assms(2) by (auto simp: data_map_def bind_eq_Some_conv)
  moreover have "ran (D(p := None)) \<subseteq> ran D" by (auto simp: ran_def)
  ultimately show ?thesis using assms by (auto simp: owned_def data_map_upd)
qed

lemma owned_drop:
  assumes "owned (H, D, S, n)" "data_map H c = None" shows "owned (H(c := None), D, S, n)"
proof -
  have "data_map (H(c := None)) = data_map H" using assms(2) by (auto simp: data_map_def)
  then show ?thesis using assms(1) by (auto simp: owned_def)
qed

lemma owned_empty:
  assumes "owned (H, D, S, n)" "data_map H = Map.empty" shows "D = Map.empty" "S = {}"
proof -
  have "dom D = ran (data_map H)" using assms(1) by (simp add: owned_def bijective_def)
  then show D: "D = Map.empty" unfolding assms(2) by simp
  show "S = {}" using assms(1) unfolding D by (simp add: owned_def bijective_def)
qed

lemma shape_simps [simp]:
  "shape ssl_of (log_line s w) = shape ssl_of w"
  "ssls w i = Some t \<Longrightarrow> shape ssl_of (set_ssl i t' w) = shape ssl_of w"
  "datas w p = Some d \<Longrightarrow> ssl_of (f d) = ssl_of d \<Longrightarrow> shape ssl_of (w\<lparr>datas := (datas w)(p \<mapsto> f d)\<rparr>) = shape ssl_of w"
  by (auto simp: shape_def log_line_def set_ssl_def)

lemma log_line_more [simp]: "net.more (log_line s w) = net.more w"
  by (simp add: log_line_def)

lemma ctx_close_shape:
  "ctxs w c = Some x \<Longrightarrow> \<exists>w'. ctx_close c w = Inr w' \<and> shape ssl_of w' = shape ssl_of w \<and> net.more w' = net.more w"
  by (auto simp: ctx_close_def upd_ctx_def the_ctx_def shape_def fun_eq_iff)

section \<open>Programs on the event loop\<close>

text \<open>
  The steps of the event loop with a program's callbacks, which may end in a fault: a context arrives, by
  accepting or by connecting, its callback is called, messages arrive, and the context is closed and
  released, after which the loop frees it. \<open>fits\<close> says what an event needs of the state; \<open>'e\<close>
  are the outcomes of the library calls in a callback.
\<close>

definition new_ctx :: sock_ctx where
  "new_ctx = \<lparr>sc_type = MUGGLE_SOCKET_CTX_TYPE_TCP_CLIENT, sc_data = None, sc_open = False, sc_closing = False,
     sc_closed = False\<rparr>"

definition arrive :: "('d, 't, 'z) net_scheme \<Rightarrow> ('d, 't, 'z) net_scheme" where
  "arrive w = w\<lparr>ctxs := (ctxs w)(fresh w \<mapsto> new_ctx), fresh := fresh w + 1\<rparr>"

definition drop_ctx :: "ptr \<Rightarrow> ('d, 't, 'z) net_scheme \<Rightarrow> ('d, 't, 'z) net_scheme" where
  "drop_ctx c w = w\<lparr>ctxs := (ctxs w)(c := None)\<rparr>"

type_synonym ('e, 'w) event = "'e \<Rightarrow> ptr \<Rightarrow> 'w \<Rightarrow> 'w result"

inductive net_step ::
  "('e \<Rightarrow> ptr \<Rightarrow> ('d, 't, 'z) net_scheme \<Rightarrow> bool) \<Rightarrow> ('e, ('d, 't, 'z) net_scheme) event \<Rightarrow>
   ('e, ('d, 't, 'z) net_scheme) event \<Rightarrow> ('e, ('d, 't, 'z) net_scheme) event \<Rightarrow>
   ('e, ('d, 't, 'z) net_scheme) event \<Rightarrow> ('d, 't, 'z) net_scheme \<Rightarrow> ('d, 't, 'z) net_scheme result \<Rightarrow> bool"
  for fits on_open on_message on_close on_release where
  step_arrive: "net_step fits on_open on_message on_close on_release w (Inr (arrive w))"
| step_open: "ctxs w c = Some x \<Longrightarrow> \<not> sc_open x \<Longrightarrow>
    net_step fits on_open on_message on_close on_release w
      (on_open e c (w\<lparr>ctxs := (ctxs w)(c \<mapsto> x\<lparr>sc_open := True\<rparr>)\<rparr>))"
| step_message: "ctxs w c = Some x \<Longrightarrow> sc_open x \<Longrightarrow> \<not> sc_closed x \<Longrightarrow> fits e c w \<Longrightarrow>
    net_step fits on_open on_message on_close on_release w (on_message e c w)"
| step_close: "ctxs w c = Some x \<Longrightarrow> sc_open x \<Longrightarrow> \<not> sc_closed x \<Longrightarrow>
    net_step fits on_open on_message on_close on_release w
      (rbind (on_close e c w) (upd_ctx c (\<lambda>x. x\<lparr>sc_closed := True\<rparr>)))"
| step_release: "ctxs w c = Some x \<Longrightarrow> sc_closed x \<Longrightarrow>
    net_step fits on_open on_message on_close on_release w
      (rbind (on_release e c w) (\<lambda>w. Inr (drop_ctx c w)))"

inductive net_reach ::
  "(('d, 't, 'z) net_scheme \<Rightarrow> ('d, 't, 'z) net_scheme result \<Rightarrow> bool) \<Rightarrow> ('d, 't, 'z) net_scheme \<Rightarrow>
   ('d, 't, 'z) net_scheme result \<Rightarrow> bool" for step w0 where
  reach_start: "net_reach step w0 (Inr w0)"
| reach_step: "net_reach step w0 (Inr w) \<Longrightarrow> step w r \<Longrightarrow> net_reach step w0 r"

text \<open>
  Opening a context without an object may attach one; a message and a close change no ownership; and
  releasing a context takes its object away.
\<close>

definition opens :: "('d \<Rightarrow> ptr option) \<Rightarrow> ptr \<Rightarrow> ('d, 't, 'z) net_scheme \<Rightarrow> ('d, 't, 'z) net_scheme \<Rightarrow> bool" where
  "opens ssl_of c w w' \<longleftrightarrow>
     (case shape ssl_of w of (H, D, S, n) \<Rightarrow>
        (\<exists>k \<ge> n. shape ssl_of w' = (H, D, S, k)) \<or>
        (\<exists>x. H c = Some x \<and>
           shape ssl_of w' = (H(c \<mapsto> x\<lparr>sc_data := Some n\<rparr>), D(n \<mapsto> Some (Suc n)), insert (Suc n) S, Suc (Suc n))))"

definition releases :: "('d \<Rightarrow> ptr option) \<Rightarrow> ptr \<Rightarrow> ('d, 't, 'z) net_scheme \<Rightarrow> ('d, 't, 'z) net_scheme \<Rightarrow> bool" where
  "releases ssl_of c w w' \<longleftrightarrow>
     (case shape ssl_of w of (H, D, S, n) \<Rightarrow>
        (case data_map H c of
           None \<Rightarrow> shape ssl_of w' = shape ssl_of w
         | Some p \<Rightarrow> \<exists>s x. D p = Some (Some s) \<and> H c = Some x \<and>
             shape ssl_of w' = (H(c \<mapsto> x\<lparr>sc_data := None\<rparr>), D(p := None), S - {s}, n)))"

text \<open>A context whose callback was not yet called has no object and is not closed, and the listening context never has one.\<close>

definition ctx_ok :: "sock_ctx \<Rightarrow> bool" where
  "ctx_ok x \<longleftrightarrow>
     (\<not> sc_open x \<longrightarrow> sc_data x = None \<and> sc_type x = MUGGLE_SOCKET_CTX_TYPE_TCP_CLIENT \<and> \<not> sc_closed x) \<and>
     (sc_type x = MUGGLE_SOCKET_CTX_TYPE_TCP_LISTEN \<longrightarrow> sc_data x = None)"

definition loop_ok :: "(ptr \<rightharpoonup> sock_ctx) \<times> (ptr \<rightharpoonup> ptr option) \<times> ptr set \<times> ptr \<Rightarrow> bool" where
  "loop_ok sh \<longleftrightarrow> owned sh \<and> (\<forall>c x. fst sh c = Some x \<longrightarrow> ctx_ok x)"

definition loop_inv :: "('d \<Rightarrow> ptr option) \<Rightarrow> ('d, 't, 'z) net_scheme \<Rightarrow> bool" where
  "loop_inv ssl_of w \<longleftrightarrow> loop_ok (shape ssl_of w)"

lemma owned_later: "owned (H, D, S, n) \<Longrightarrow> n \<le> k \<Longrightarrow> owned (H, D, S, k)"
  by (force simp: owned_def)

lemma shape_ctx: "ctxs w c = Some x \<Longrightarrow> fst (shape ssl_of w) c = Some (x\<lparr>sc_closing := False\<rparr>)"
  by (simp add: shape_def)

lemma marks_eq:
  assumes "y\<lparr>sc_closing := False\<rparr> = x\<lparr>sc_closing := False\<rparr>"
  shows "sc_type y = sc_type x" "sc_data y = sc_data x" "sc_open y = sc_open x" "sc_closed y = sc_closed x"
  using arg_cong [OF assms, of sc_type] arg_cong [OF assms, of sc_data] arg_cong [OF assms, of sc_open]
    arg_cong [OF assms, of sc_closed] by simp_all

lemma ctx_of_shape:
  assumes "fst (shape ssl_of w) c = Some x"
  obtains y where "ctxs w c = Some y" "sc_type y = sc_type x" "sc_data y = sc_data x" "sc_open y = sc_open x" "sc_closed y = sc_closed x"
proof -
  obtain y where "ctxs w c = Some y" "x = y\<lparr>sc_closing := False\<rparr>" using assms by (auto simp: shape_def)
  then show ?thesis using that by simp
qed

lemma shape_upd_ctx:
  "shape ssl_of w = (H, D, S, n) \<Longrightarrow>
   shape ssl_of (w\<lparr>ctxs := (ctxs w)(c \<mapsto> x)\<rparr>) = (H(c \<mapsto> x\<lparr>sc_closing := False\<rparr>), D, S, n)"
  by (auto simp: shape_def)

lemma opens_attach:
  assumes "ctxs w c = Some x" "ssl_of d = Some (Suc (fresh w))"
    and "shape ssl_of w' = shape ssl_of (w\<lparr>ctxs := (ctxs w)(c \<mapsto> x\<lparr>sc_data := Some (fresh w)\<rparr>),
      datas := (datas w)(fresh w \<mapsto> d), ssls := (ssls w)(Suc (fresh w) \<mapsto> t), fresh := Suc (Suc (fresh w))\<rparr>)"
  shows "opens ssl_of c w w'"
proof -
  obtain H D S n where sh: "shape ssl_of w = (H, D, S, n)" by (cases "shape ssl_of w")
  have "shape ssl_of w' =
      (H(c \<mapsto> (x\<lparr>sc_closing := False\<rparr>)\<lparr>sc_data := Some n\<rparr>), D(n \<mapsto> Some (Suc n)), insert (Suc n) S, Suc (Suc n))"
    using sh assms(2) unfolding assms(3) by (auto simp: shape_def)
  then show ?thesis using sh shape_ctx [OF assms(1), of ssl_of] by (simp add: opens_def)
qed

lemma opens_nothing: "shape ssl_of w' = shape ssl_of (w\<lparr>fresh := k\<rparr>) \<Longrightarrow> fresh w \<le> k \<Longrightarrow> opens ssl_of c w w'"
  by (auto simp: opens_def shape_def)

lemma net_fresh: "net_inv ssl_of w \<Longrightarrow> k \<ge> fresh w \<Longrightarrow> datas w k = None \<and> ssls w k = None"
  by (fastforce simp: net_inv_def owned_def shape_def)

text \<open>Freeing the object of a context with its TLS object, and a context without one.\<close>

lemma releases_data:
  assumes "ctxs w c = Some x" "sc_data x = Some p" "datas w p = Some d" "ssl_of d = Some s" "ssls w s = Some t"
    and "shape ssl_of w' = shape ssl_of (w\<lparr>ctxs := (ctxs w)(c \<mapsto> x\<lparr>sc_data := None\<rparr>), datas := (datas w)(p := None), ssls := (ssls w)(s := None)\<rparr>)"
  shows "releases ssl_of c w w'"
proof -
  obtain H D S n where sh: "shape ssl_of w = (H, D, S, n)" by (cases "shape ssl_of w")
  have "shape ssl_of w' = (H(c \<mapsto> (x\<lparr>sc_closing := False\<rparr>)\<lparr>sc_data := None\<rparr>), D(p := None), S - {s}, n)" "D p = Some (Some s)"
    using sh assms(3-5) unfolding assms(6) by (auto simp: shape_def)
  moreover have "H c = Some (x\<lparr>sc_closing := False\<rparr>)" using shape_ctx [OF assms(1), of ssl_of] sh by simp
  ultimately show ?thesis using sh assms(2) by (simp add: releases_def data_map_def)
qed

lemma releases_none: "ctxs w c = Some x \<Longrightarrow> sc_data x = None \<Longrightarrow> shape ssl_of w' = shape ssl_of w \<Longrightarrow> releases ssl_of c w w'"
  by (auto simp: releases_def shape_def data_map_def)

lemma loop_arrive: "loop_inv ssl_of w \<Longrightarrow> loop_inv ssl_of (arrive w)"
proof -
  assume inv: "loop_inv ssl_of w"
  obtain H D S n where sh: "shape ssl_of w = (H, D, S, n)" by (cases "shape ssl_of w")
  then have "shape ssl_of (arrive w) = (H(n \<mapsto> new_ctx\<lparr>sc_closing := False\<rparr>), D, S, Suc n)"
    by (auto simp: shape_def arrive_def)
  moreover have "owned (H(n \<mapsto> new_ctx\<lparr>sc_closing := False\<rparr>), D, S, Suc n)"
    using inv sh by (intro owned_arrive) (simp_all add: loop_inv_def loop_ok_def new_ctx_def)
  ultimately show ?thesis using inv sh by (auto simp: loop_inv_def loop_ok_def new_ctx_def ctx_ok_def split: if_splits)
qed

text \<open>Changing the marks of a context and dropping one that has no object.\<close>

lemma loop_mark:
  assumes "loop_inv ssl_of w" "ctxs w c = Some x" "sc_data y = sc_data x" "ctx_ok y"
  shows "loop_inv ssl_of (w\<lparr>ctxs := (ctxs w)(c \<mapsto> y)\<rparr>)"
proof -
  obtain H D S n where sh: "shape ssl_of w = (H, D, S, n)" by (cases "shape ssl_of w")
  have "H c = Some (x\<lparr>sc_closing := False\<rparr>)" using shape_ctx [OF assms(2), of ssl_of] sh by simp
  then have "data_map (H(c \<mapsto> y\<lparr>sc_closing := False\<rparr>)) = data_map H" "dom (H(c \<mapsto> y\<lparr>sc_closing := False\<rparr>)) = dom H"
    using assms(3) by (auto simp: data_map_def)
  then have "owned (H(c \<mapsto> y\<lparr>sc_closing := False\<rparr>), D, S, n)"
    using assms(1) sh by (simp add: loop_inv_def loop_ok_def owned_def)
  moreover have "ctx_ok (y\<lparr>sc_closing := False\<rparr>)" using assms(4) by (simp add: ctx_ok_def)
  ultimately show ?thesis using assms(1) sh by (auto simp: loop_inv_def loop_ok_def shape_upd_ctx split: if_splits)
qed

lemma loop_drop:
  assumes "loop_inv ssl_of w" "data_map (fst (shape ssl_of w)) c = None"
  shows "loop_inv ssl_of (drop_ctx c w)"
proof -
  obtain H D S n where sh: "shape ssl_of w = (H, D, S, n)" by (cases "shape ssl_of w")
  then have "shape ssl_of (drop_ctx c w) = (H(c := None), D, S, n)" by (auto simp: shape_def drop_ctx_def)
  then show ?thesis using assms sh owned_drop [of H D S n c] by (auto simp: loop_inv_def loop_ok_def split: if_splits)
qed

lemma loop_opens:
  assumes "loop_inv ssl_of w" "opens ssl_of c w w'" "ctxs w c = Some x" "sc_open x" "sc_data x = None"
    and "sc_type x = MUGGLE_SOCKET_CTX_TYPE_TCP_CLIENT"
  shows "loop_inv ssl_of w'"
proof -
  obtain H D S n where sh: "shape ssl_of w = (H, D, S, n)" by (cases "shape ssl_of w")
  have own: "owned (H, D, S, n)" and op: "\<And>c x. H c = Some x \<Longrightarrow> ctx_ok x"
    using assms(1) sh by (auto simp: loop_inv_def loop_ok_def)
  have c: "H c = Some (x\<lparr>sc_closing := False\<rparr>)" using shape_ctx [OF assms(3), of ssl_of] sh by simp
  then have none: "data_map H c = None" using assms(5) by (simp add: data_map_def)
  consider k where "n \<le> k" "shape ssl_of w' = (H, D, S, k)"
    | "shape ssl_of w' = (H(c \<mapsto> x\<lparr>sc_closing := False, sc_data := Some n\<rparr>), D(n \<mapsto> Some (Suc n)), insert (Suc n) S, Suc (Suc n))"
    using assms(2) sh c by (auto simp: opens_def)
  then show ?thesis
  proof cases
    case 1
    then show ?thesis using owned_later [OF own] op by (simp add: loop_inv_def loop_ok_def)
  next
    case 2
    then show ?thesis using owned_attach [OF own none, of "x\<lparr>sc_closing := False, sc_data := Some n\<rparr>"] op c assms(4,6)
      by (auto simp: loop_inv_def loop_ok_def ctx_ok_def split: if_splits)
  qed
qed

lemma loop_releases:
  assumes "loop_inv ssl_of w" "releases ssl_of c w w'"
  shows "loop_inv ssl_of (drop_ctx c w')"
proof -
  obtain H D S n where sh: "shape ssl_of w = (H, D, S, n)" by (cases "shape ssl_of w")
  have own: "owned (H, D, S, n)" and op: "\<And>c x. H c = Some x \<Longrightarrow> ctx_ok x"
    using assms(1) sh by (auto simp: loop_inv_def loop_ok_def)
  have "loop_inv ssl_of w' \<and> data_map (fst (shape ssl_of w')) c = None"
  proof (cases "data_map H c")
    case None
    then show ?thesis using assms sh by (simp add: releases_def loop_inv_def)
  next
    case (Some p)
    then obtain s x where *: "D p = Some (Some s)" "H c = Some x"
        "shape ssl_of w' = (H(c \<mapsto> x\<lparr>sc_data := None\<rparr>), D(p := None), S - {s}, n)"
      using assms(2) sh by (auto simp: releases_def)
    have "owned (H(c \<mapsto> x\<lparr>sc_data := None\<rparr>), D(p := None), S - {s}, n)"
      using own Some *(1) by (rule owned_detach) simp
    moreover have "ctx_ok (x\<lparr>sc_data := None\<rparr>)" using op [OF *(2)] by (auto simp: ctx_ok_def)
    ultimately show ?thesis using * op by (auto simp: loop_inv_def loop_ok_def data_map_upd)
  qed
  then show ?thesis by (blast intro: loop_drop)
qed

locale tls_program =
  fixes ssl_of :: "'d \<Rightarrow> ptr option"
    and fits :: "'e \<Rightarrow> ptr \<Rightarrow> ('d, 't, 'z) net_scheme \<Rightarrow> bool"
    and on_open on_message on_close on_release :: "('e, ('d, 't, 'z) net_scheme) event"
  assumes opened: "net_inv ssl_of w \<Longrightarrow> ctxs w c = Some x \<Longrightarrow> sc_data x = None \<Longrightarrow>
      \<exists>w'. on_open e c w = Inr w' \<and> opens ssl_of c w w'"
    and message: "net_inv ssl_of w \<Longrightarrow> ctxs w c = Some x \<Longrightarrow> fits e c w \<Longrightarrow>
      \<exists>w'. on_message e c w = Inr w' \<and> shape ssl_of w' = shape ssl_of w"
    and closed: "net_inv ssl_of w \<Longrightarrow> ctxs w c = Some x \<Longrightarrow>
      \<exists>w'. on_close e c w = Inr w' \<and> shape ssl_of w' = shape ssl_of w"
    and released: "net_inv ssl_of w \<Longrightarrow> ctxs w c = Some x \<Longrightarrow>
      (sc_type x = MUGGLE_SOCKET_CTX_TYPE_TCP_LISTEN \<longrightarrow> sc_data x = None) \<Longrightarrow>
      \<exists>w'. on_release e c w = Inr w' \<and> releases ssl_of c w w'"
begin

lemma loop_net: "loop_inv ssl_of w \<Longrightarrow> net_inv ssl_of w"
  by (simp add: loop_inv_def loop_ok_def net_inv_def)

lemma loop_ctx: "loop_inv ssl_of w \<Longrightarrow> ctxs w c = Some x \<Longrightarrow> ctx_ok x"
  using shape_ctx [of w c x ssl_of] by (force simp: loop_inv_def loop_ok_def ctx_ok_def)

lemma open_step:
  assumes "loop_inv ssl_of w" "ctxs w c = Some x" "\<not> sc_open x"
  shows "\<exists>w'. on_open e c (w\<lparr>ctxs := (ctxs w)(c \<mapsto> x\<lparr>sc_open := True\<rparr>)\<rparr>) = Inr w' \<and> loop_inv ssl_of w' \<and>
    opens ssl_of c (w\<lparr>ctxs := (ctxs w)(c \<mapsto> x\<lparr>sc_open := True\<rparr>)\<rparr>) w'"
proof -
  let ?w = "w\<lparr>ctxs := (ctxs w)(c \<mapsto> x\<lparr>sc_open := True\<rparr>)\<rparr>"
  have none: "sc_data x = None" "sc_type x = MUGGLE_SOCKET_CTX_TYPE_TCP_CLIENT"
    using loop_ctx [OF assms(1,2)] assms(3) by (simp_all add: ctx_ok_def)
  have inv: "loop_inv ssl_of ?w" by (rule loop_mark [OF assms(1,2)]) (simp_all add: none ctx_ok_def)
  obtain w' where w': "on_open e c ?w = Inr w'" "opens ssl_of c ?w w'"
    using opened [OF loop_net [OF inv], of c "x\<lparr>sc_open := True\<rparr>" e] none by auto
  have "loop_inv ssl_of w'"
    by (rule loop_opens [OF inv w'(2), of "x\<lparr>sc_open := True\<rparr>"]) (simp_all add: none)
  then show ?thesis using w' by blast
qed

lemma message_step:
  assumes "loop_inv ssl_of w" "ctxs w c = Some x" "fits e c w"
  shows "\<exists>w'. on_message e c w = Inr w' \<and> loop_inv ssl_of w' \<and> shape ssl_of w' = shape ssl_of w"
  using message [OF loop_net [OF assms(1)] assms(2,3)] assms(1) by (auto simp: loop_inv_def)

lemma close_step:
  assumes "loop_inv ssl_of w" "ctxs w c = Some x" "sc_open x"
  shows "\<exists>w' y. on_close e c w = Inr w' \<and> shape ssl_of w' = shape ssl_of w \<and> ctxs w' c = Some y \<and>
    y\<lparr>sc_closing := False\<rparr> = x\<lparr>sc_closing := False\<rparr> \<and>
    loop_inv ssl_of (w'\<lparr>ctxs := (ctxs w')(c \<mapsto> y\<lparr>sc_closed := True\<rparr>)\<rparr>)"
proof -
  obtain w' where w': "on_close e c w = Inr w'" "shape ssl_of w' = shape ssl_of w"
    using closed [OF loop_net [OF assms(1)] assms(2)] by blast
  then have inv: "loop_inv ssl_of w'" using assms(1) by (simp add: loop_inv_def)
  have "map_option (\<lambda>x. x\<lparr>sc_closing := False\<rparr>) (ctxs w' c) = Some (x\<lparr>sc_closing := False\<rparr>)"
    using w'(2) assms(2) by (simp add: shape_def fun_eq_iff)
  then obtain y where y: "ctxs w' c = Some y" "y\<lparr>sc_closing := False\<rparr> = x\<lparr>sc_closing := False\<rparr>" by auto
  have "ctx_ok (y\<lparr>sc_closed := True\<rparr>)" using loop_ctx [OF inv y(1)] assms(3) marks_eq(3) [OF y(2)] by (simp add: ctx_ok_def)
  then have "loop_inv ssl_of (w'\<lparr>ctxs := (ctxs w')(c \<mapsto> y\<lparr>sc_closed := True\<rparr>)\<rparr>)"
    by (intro loop_mark [OF inv y(1)]) simp_all
  then show ?thesis using w' y by blast
qed

lemma release_step:
  assumes "loop_inv ssl_of w" "ctxs w c = Some x"
  shows "\<exists>w'. on_release e c w = Inr w' \<and> loop_inv ssl_of (drop_ctx c w') \<and> releases ssl_of c w w'"
  using released [OF loop_net [OF assms(1)] assms(2)] loop_ctx [OF assms] loop_releases [OF assms(1)]
  unfolding ctx_ok_def by blast

text \<open>No sequence of events makes the program fault, and when all contexts are gone nothing is left.\<close>

lemma reach_safe:
  assumes "net_reach (net_step fits on_open on_message on_close on_release) w0 r" "loop_inv ssl_of w0"
  shows "\<exists>w. r = Inr w \<and> loop_inv ssl_of w"
  using assms
proof (induction rule: net_reach.induct)
  case (reach_step w r)
  then have inv: "loop_inv ssl_of w" by simp
  from reach_step.hyps(2) show ?case
  proof cases
    case step_arrive
    then show ?thesis using loop_arrive [OF inv] by simp
  next
    case (step_open c x e)
    then show ?thesis using open_step [OF inv, of c x e] by auto
  next
    case (step_message c x e)
    then show ?thesis using message_step [OF inv, of c x e] by auto
  next
    case (step_close c x e)
    then show ?thesis using close_step [OF inv, of c x e] by (auto simp: upd_ctx_def the_ctx_def)
  next
    case (step_release c x e)
    then show ?thesis using release_step [OF inv, of c x e] by auto
  qed
qed simp

end

lemma loop_inv_empty:
  assumes "loop_inv ssl_of w" "\<And>c x. ctxs w c = Some x \<Longrightarrow> sc_data x = None"
  shows "datas w = Map.empty" "ssls w = Map.empty"
proof -
  obtain H D S n where sh: "shape ssl_of w = (H, D, S, n)" by (cases "shape ssl_of w")
  then have own: "owned (H, D, S, n)" using assms(1) by (simp add: loop_inv_def loop_ok_def)
  have "H c = map_option (\<lambda>x. x\<lparr>sc_closing := False\<rparr>) (ctxs w c)" for c using sh by (auto simp: shape_def)
  then have "data_map H c = None" for c using assms(2) by (cases "ctxs w c") (simp_all add: data_map_def)
  then have "data_map H = Map.empty" by auto
  then have "D = Map.empty" "S = {}" using owned_empty [OF own] by blast+
  then show "datas w = Map.empty" "ssls w = Map.empty" using sh by (auto simp: shape_def fun_eq_iff)
qed

end
