(* ===== verification/SslEcho.thy ===== *)
theory SslEcho
  imports Tls
begin

text \<open>
  How the TLS echo program of src/use/c/use_openssl/example/ssl01_echo sets itself up: the functions
  of server.c and client.c around the event loop, and the command line of main.c. Its sessions and callbacks are
  in \<open>SslSessions\<close>.

  \<open>ledger\<close> lists what the program holds, and giving back what is not held is a fault.
  Which calls of the libraries succeed is an argument everywhere.
\<close>

section \<open>Setting up\<close>

datatype tls_res = Evloop | Handle_mem | Handle_init | Ssl_ctx | Bio | Pkey | Socket_fd | Ctx_mem | User_data

type_synonym ledger = "tls_res list"

definition give_back :: "tls_res \<Rightarrow> ledger \<Rightarrow> ledger result" where
  "give_back r led = (if r \<in> set led then Inr (remove1 r led) else Inl UseAfterFree)"

record ssl_outcomes =
  ok_evloop :: bool
  ok_handle :: bool
  ok_handle_init :: bool
  ok_ssl_ctx :: bool
  ok_cert :: bool
  ok_bio :: bool
  ok_bio_file :: bool
  ok_pkey :: bool
  ok_pem :: bool
  ok_use_key :: bool
  ok_user_data :: bool

definition tcp_listen :: "bool \<times> bool \<Rightarrow> ledger \<Rightarrow> (bool \<times> ledger) result" where
  "tcp_listen attempt led =
     (case attempt of (ok_fd, ok_ctx) \<Rightarrow>
        if \<not> ok_fd then Inr (False, led)
        else
          let led = Socket_fd # led in
          if \<not> ok_ctx then rbind (give_back Socket_fd led) (\<lambda>led. Inr (False, led))
          else Inr (True, Ctx_mem # led))"

definition load_enc_key :: "ssl_outcomes \<Rightarrow> ledger \<Rightarrow> (bool \<times> ledger) result" where
  "load_enc_key out led =
     (if \<not> ok_bio out then Inr (False, led)
      else
        let led = Bio # led in
        rbind
          (if \<not> ok_bio_file out then Inr (False, led)
           else if \<not> ok_pkey out then Inr (False, led)
           else
             let led = Pkey # led in
             if \<not> ok_pem out then rbind (give_back Pkey led) (\<lambda>led. Inr (False, led))
             else Inr (True, led))
          (\<lambda>(key, led). rbind (give_back Bio led) (\<lambda>led. Inr (key, led))))"

definition new_server_ssl_ctx :: "ssl_outcomes \<Rightarrow> ledger \<Rightarrow> (bool \<times> ledger) result" where
  "new_server_ssl_ctx out led =
     (if \<not> ok_ssl_ctx out then Inr (False, led)
      else
        let led = Ssl_ctx # led in
        if \<not> ok_cert out then rbind (give_back Ssl_ctx led) (\<lambda>led. Inr (False, led))
        else
          rbind (load_enc_key out led) (\<lambda>(pkey, led).
          if \<not> pkey then rbind (give_back Ssl_ctx led) (\<lambda>led. Inr (False, led))
          else if \<not> ok_use_key out then
            rbind (give_back Pkey led) (\<lambda>led. rbind (give_back Ssl_ctx led) (\<lambda>led. Inr (False, led)))
          else rbind (give_back Pkey led) (\<lambda>led. Inr (True, led))))"

text \<open>The end of both \<open>run\<close> functions: the flags say which of the pointers are not null.\<close>

definition cleanup :: "bool \<Rightarrow> bool \<Rightarrow> bool \<Rightarrow> bool \<Rightarrow> ledger \<Rightarrow> ledger result" where
  "cleanup user_data ssl_ctx handle evloop led =
     rbind (if user_data then give_back User_data led else Inr led) (\<lambda>led.
     rbind (if ssl_ctx then give_back Ssl_ctx led else Inr led) (\<lambda>led.
     rbind (if handle then rbind (give_back Handle_init led) (give_back Handle_mem) else Inr led) (\<lambda>led.
     if evloop then give_back Evloop led else Inr led)))"

text \<open>The event loop and its handle, which both programs set up in the same way; the result is the pair of pointers.\<close>

definition setup_loop :: "ssl_outcomes \<Rightarrow> ledger \<Rightarrow> ((bool \<times> bool) \<times> ledger) result" where
  "setup_loop out led =
     (if \<not> ok_evloop out then Inr ((False, False), led)
      else
        let led = Evloop # led in
        if \<not> ok_handle out then Inr ((True, False), led)
        else
          let led = Handle_mem # led in
          if \<not> ok_handle_init out then rbind (give_back Handle_mem led) (\<lambda>led. Inr ((True, False), led))
          else Inr ((True, True), Handle_init # led))"

text \<open>
  A context that is added to the event loop belongs to it from then on. \<open>loop\<close> is what running the event
  loop does to the world of the callbacks.
\<close>

definition hand_over :: "ledger \<Rightarrow> ledger result" where
  "hand_over led = rbind (give_back Ctx_mem led) (give_back Socket_fd)"

definition run_ssl_server ::
  "ssl_outcomes \<Rightarrow> bool \<times> bool \<Rightarrow> ('w \<Rightarrow> 'w result) \<Rightarrow> 'w \<Rightarrow> ledger \<Rightarrow> (bool \<times> 'w \<times> ledger) result" where
  "run_ssl_server out attempt loop w led =
     rbind (setup_loop out led) (\<lambda>((evloop, handle), led).
     if \<not> (evloop \<and> handle) then rbind (cleanup False False handle evloop led) (\<lambda>led. Inr (False, w, led))
     else
       rbind (new_server_ssl_ctx out led) (\<lambda>(ssl_ctx, led).
       if \<not> ssl_ctx then rbind (cleanup False False handle evloop led) (\<lambda>led. Inr (False, w, led))
       else
         rbind (tcp_listen attempt led) (\<lambda>(listen_ctx, led).
         if \<not> listen_ctx then rbind (cleanup False ssl_ctx handle evloop led) (\<lambda>led. Inr (False, w, led))
         else
           rbind (hand_over led) (\<lambda>led.
           if \<not> ok_user_data out then rbind (cleanup False ssl_ctx handle evloop led) (\<lambda>led. Inr (False, w, led))
           else
             let led = User_data # led in
             rbind (loop w) (\<lambda>w.
             rbind (cleanup True ssl_ctx handle evloop led) (\<lambda>led. Inr (True, w, led)))))))"

definition tcp_connect :: "bool \<times> bool \<Rightarrow> ledger \<Rightarrow> (bool \<times> ledger) result" where
  "tcp_connect attempt led =
     (case attempt of (ok_fd, ok_ctx) \<Rightarrow>
        if \<not> ok_fd then Inr (False, led)
        else
          let led = Socket_fd # led in
          if \<not> ok_ctx then rbind (give_back Socket_fd led) (\<lambda>led. Inr (False, led))
          else Inr (True, Ctx_mem # led))"

definition new_client_ssl_ctx :: "ssl_outcomes \<Rightarrow> ledger \<Rightarrow> (bool \<times> ledger) result" where
  "new_client_ssl_ctx out led =
     (if \<not> ok_ssl_ctx out then Inr (False, led)
      else
        let led = Ssl_ctx # led in
        if \<not> ok_cert out then rbind (give_back Ssl_ctx led) (\<lambda>led. Inr (False, led))
        else Inr (True, led))"

text \<open>The first connection is tried until it succeeds; the list holds the outcomes of the attempts.\<close>

fun connect_loop :: "(bool \<times> bool) list \<Rightarrow> ledger \<Rightarrow> ledger result" where
  "connect_loop [] led = Inl Diverges"
| "connect_loop (attempt # attempts) led =
     rbind (tcp_connect attempt led) (\<lambda>(conn_ctx, led).
     if conn_ctx then hand_over led else connect_loop attempts led)"

definition run_ssl_client ::
  "ssl_outcomes \<Rightarrow> (bool \<times> bool) list \<Rightarrow> ('w \<Rightarrow> 'w result) \<Rightarrow> 'w \<Rightarrow> ledger \<Rightarrow> (bool \<times> 'w \<times> ledger) result" where
  "run_ssl_client out attempts loop w led =
     rbind (setup_loop out led) (\<lambda>((evloop, handle), led).
     if \<not> (evloop \<and> handle) then rbind (cleanup False False handle evloop led) (\<lambda>led. Inr (False, w, led))
     else
       rbind (new_client_ssl_ctx out led) (\<lambda>(ssl_ctx, led).
       if \<not> ssl_ctx then rbind (cleanup False False handle evloop led) (\<lambda>led. Inr (False, w, led))
       else
         rbind (connect_loop attempts led) (\<lambda>led.
         if \<not> ok_user_data out then rbind (cleanup False ssl_ctx handle evloop led) (\<lambda>led. Inr (False, w, led))
         else
           let led = User_data # led in
           rbind (loop w) (\<lambda>w.
           rbind (cleanup True ssl_ctx handle evloop led) (\<lambda>led. Inr (True, w, led))))))"

section \<open>Command line\<close>

datatype ssl_role = ROLE_NONE | ROLE_SERVER | ROLE_CLIENT

record ssl_args =
  a_role :: ssl_role
  a_host :: string
  a_port :: string

definition ssl_parse_opt :: "char \<Rightarrow> string \<Rightarrow> ssl_args \<Rightarrow> ssl_args parsed" where
  "ssl_parse_opt c optarg args =
     (if c = CHR ''h'' then ExitSuccess
      else if c = CHR ''R'' then
        Parsed (if optarg = ''server'' then args\<lparr>a_role := ROLE_SERVER\<rparr>
                else if optarg = ''client'' then args\<lparr>a_role := ROLE_CLIENT\<rparr> else args)
      else if c = CHR ''H'' then Parsed (args\<lparr>a_host := strncpy_buf 64 optarg\<rparr>)
      else if c = CHR ''P'' then Parsed (args\<lparr>a_port := strncpy_buf 16 optarg\<rparr>)
      else Parsed args)"

fun ssl_parse_opts :: "(char \<times> string) list \<Rightarrow> ssl_args \<Rightarrow> ssl_args parsed" where
  "ssl_parse_opts [] args = Parsed args"
| "ssl_parse_opts ((c, optarg) # opts) args =
     (case ssl_parse_opt c optarg args of Parsed args \<Rightarrow> ssl_parse_opts opts args | r \<Rightarrow> r)"

definition ssl_parse_sys_args :: "(char \<times> string) list \<Rightarrow> ssl_args parsed" where
  "ssl_parse_sys_args opts =
     (case ssl_parse_opts opts \<lparr>a_role = ROLE_NONE, a_host = [], a_port = []\<rparr> of
        Parsed args \<Rightarrow>
          if a_role args = ROLE_NONE then ParseFailed
          else
            let args = (if a_host args = [] then args\<lparr>a_host := ''127.0.0.1''\<rparr> else args) in
            Parsed (if a_port args = [] then args\<lparr>a_port := ''10102''\<rparr> else args)
      | r \<Rightarrow> r)"

text \<open>The exit status; \<open>serve\<close> and \<open>connect\<close> are the two \<open>run\<close> functions.\<close>

definition ssl_main ::
  "bool \<Rightarrow> bool \<Rightarrow> (char \<times> string) list \<Rightarrow> (string \<Rightarrow> string \<Rightarrow> bool result) \<Rightarrow>
   (string \<Rightarrow> string \<Rightarrow> bool result) \<Rightarrow> nat result" where
  "ssl_main log_ok socket_ok opts serve connect =
     (if \<not> log_ok then Inr 1
      else if \<not> socket_ok then Inr 1
      else
        case ssl_parse_sys_args opts of
          ExitSuccess \<Rightarrow> Inr 0
        | ParseFailed \<Rightarrow> Inr 1
        | Parsed args \<Rightarrow>
            (case a_role args of
               ROLE_SERVER \<Rightarrow> rbind (serve (a_host args) (a_port args)) (\<lambda>ok. Inr (if ok then 0 else 1))
             | ROLE_CLIENT \<Rightarrow> rbind (connect (a_host args) (a_port args)) (\<lambda>ok. Inr (if ok then 0 else 1))
             | ROLE_NONE \<Rightarrow> Inr 1))"

section \<open>Nothing is kept\<close>

lemma give_back_head [simp]: "give_back r (r # led) = Inr led"
  by (simp add: give_back_def)

lemma give_back_skip [simp]: "r \<noteq> r' \<Longrightarrow> r \<in> set led \<Longrightarrow> give_back r (r' # led) = Inr (r' # remove1 r led)"
  by (simp add: give_back_def)

definition all_ok :: "ssl_outcomes \<Rightarrow> bool" where
  "all_ok out \<longleftrightarrow> ok_evloop out \<and> ok_handle out \<and> ok_handle_init out \<and> ok_ssl_ctx out \<and> ok_cert out \<and> ok_user_data out"

definition key_ok :: "ssl_outcomes \<Rightarrow> bool" where
  "key_ok out \<longleftrightarrow> ok_bio out \<and> ok_bio_file out \<and> ok_pkey out \<and> ok_pem out \<and> ok_use_key out"

lemma load_enc_key_result:
  "load_enc_key out led =
     (let ok = ok_bio out \<and> ok_bio_file out \<and> ok_pkey out \<and> ok_pem out in Inr (ok, if ok then Pkey # led else led))"
  by (simp add: load_enc_key_def Let_def)

lemma new_server_ssl_ctx_result:
  "new_server_ssl_ctx out led =
     (let ok = ok_ssl_ctx out \<and> ok_cert out \<and> key_ok out in Inr (ok, if ok then Ssl_ctx # led else led))"
  by (auto simp: new_server_ssl_ctx_def load_enc_key_result key_ok_def Let_def)

lemma new_client_ssl_ctx_result:
  "new_client_ssl_ctx out led =
     (let ok = ok_ssl_ctx out \<and> ok_cert out in Inr (ok, if ok then Ssl_ctx # led else led))"
  by (simp add: new_client_ssl_ctx_def Let_def)

lemma setup_loop_result:
  "setup_loop out led =
     (let handle = ok_evloop out \<and> ok_handle out \<and> ok_handle_init out in
      Inr ((ok_evloop out, handle),
        if handle then Handle_init # Handle_mem # Evloop # led else if ok_evloop out then Evloop # led else led))"
  by (simp add: setup_loop_def Let_def)

lemma connect_loop_result: "(True, True) \<in> set attempts \<Longrightarrow> connect_loop attempts led = Inr led"
  by (induction attempts) (auto simp: tcp_connect_def hand_over_def Let_def split: prod.splits)

lemmas setup_results = setup_loop_result new_server_ssl_ctx_result new_client_ssl_ctx_result connect_loop_result
  cleanup_def hand_over_def tcp_listen_def

text \<open>
  Whichever of the calls that set up the event loop, the TLS context, the key and the sockets fail,
  the server and the client give back everything they have acquired, each thing once, and report
  whether all of it succeeded; the client needs an attempt to connect that succeeds.
\<close>

theorem setup_gives_back:
  assumes "\<forall>w. is_ok (loop w)" and "(True, True) \<in> set attempts"
  shows "(\<exists>w'. run_ssl_server out attempt loop w led = Inr (all_ok out \<and> key_ok out \<and> attempt = (True, True), w', led)) \<and>
    (\<exists>w'. run_ssl_client out attempts loop w led = Inr (all_ok out, w', led))"
proof -
  obtain w' where w': "loop w = Inr w'" using assms(1) by (auto simp: is_ok_iff)
  obtain ok_fd ok_ctx where attempt: "attempt = (ok_fd, ok_ctx)" by (cases attempt)
  have "\<exists>w'. run_ssl_server out attempt loop w led = Inr (all_ok out \<and> key_ok out \<and> attempt = (True, True), w', led)"
    using w' by (auto simp: run_ssl_server_def setup_results attempt all_ok_def Let_def)
  moreover have "\<exists>w'. run_ssl_client out attempts loop w led = Inr (all_ok out, w', led)"
    using w' assms(2) by (auto simp: run_ssl_client_def setup_results all_ok_def Let_def)
  ultimately show ?thesis ..
qed

theorem setup_gives_back_witness:
  "\<exists>w'. run_ssl_server \<lparr>ok_evloop = True, ok_handle = True, ok_handle_init = True, ok_ssl_ctx = True, ok_cert = True,
     ok_bio = True, ok_bio_file = True, ok_pkey = True, ok_pem = False, ok_use_key = True, ok_user_data = True\<rparr>
     (True, True) Inr (0::nat) [] = Inr (False, w', [])"
  using setup_gives_back [of Inr "[(False, True), (True, False), (True, True)]"
      "\<lparr>ok_evloop = True, ok_handle = True, ok_handle_init = True, ok_ssl_ctx = True, ok_cert = True,
        ok_bio = True, ok_bio_file = True, ok_pkey = True, ok_pem = False, ok_use_key = True, ok_user_data = True\<rparr>"
      "(True, True)" "0 :: nat" "[]"]
  by (simp add: key_ok_def)

end
