(* ===== verification/Reconnect.thy ===== *)
theory Reconnect
  imports Tls
begin

text \<open>
  Clients that connect again: the TLS clients of src/use/c/use_openssl/example/ssl01_echo and
  src/use/c/use_wolfssl/example/example_ssl02_timer_client start a thread that connects when their
  connection is closed.

  The locale \<open>reconnecting_client\<close> says what their callbacks do with the threads and with the context of the
  timer; from it follows that a client has exactly one connection or thread.
\<close>

section \<open>The state of a client\<close>

text \<open>
  The data of the client's event loop are the fields \<open>cd_\<close>; \<open>workers\<close> are the threads that try to connect,
  with the address each tries; a context that a thread has added is not open until the event loop sees
  it. \<open>exiting\<close> says that the event loop was told to end.
\<close>

record ('d, 't) client_net = "('d, 't) net" +
  cd_ctx :: "ptr option"
  cd_host :: string
  cd_port :: string
  workers :: "(string \<times> string) list"
  exiting :: bool

text \<open>A thread has connected: it adds a context to the event loop and ends.\<close>

definition connected :: "nat \<Rightarrow> ('d, 't) client_net \<Rightarrow> ('d, 't) client_net" where
  "connected i w = (arrive w)\<lparr>workers := take i (workers w) @ drop (Suc i) (workers w)\<rparr>"

definition alive :: "('d, 't, 'z) net_scheme \<Rightarrow> ptr set" where
  "alive w = {c. \<exists>x. ctxs w c = Some x \<and> \<not> sc_closed x}"

definition opened :: "('d, 't, 'z) net_scheme \<Rightarrow> ptr set" where
  "opened w = {c. \<exists>x. ctxs w c = Some x \<and> sc_open x \<and> \<not> sc_closed x}"

definition unserved :: "('d, 't, 'z) net_scheme \<Rightarrow> ptr set" where
  "unserved w = {c. \<exists>x. ctxs w c = Some x \<and> sc_open x \<and> \<not> sc_closed x \<and> sc_data x = None}"

lemma views:
  "alive w = {c. \<exists>x. fst (shape ssl_of w) c = Some x \<and> \<not> sc_closed x}"
  "opened w = {c. \<exists>x. fst (shape ssl_of w) c = Some x \<and> sc_open x \<and> \<not> sc_closed x}"
  "unserved w = {c. \<exists>x. fst (shape ssl_of w) c = Some x \<and> sc_open x \<and> \<not> sc_closed x \<and> sc_data x = None}"
  by (auto simp: alive_def opened_def unserved_def shape_def)

lemma views_shape:
  assumes "shape ssl_of w' = shape ssl_of w"
  shows "alive w' = alive w" "opened w' = opened w" "unserved w' = unserved w"
  by (simp_all add: views [of _ ssl_of] assms)

lemma alive_finite: "loop_inv ssl_of w \<Longrightarrow> finite (alive w) \<and> fresh w \<notin> alive w"
proof -
  assume "loop_inv ssl_of w"
  then have "dom (ctxs w) \<subseteq> {..<fresh w}"
    by (auto simp: loop_inv_def loop_ok_def owned_def shape_def)
  moreover have "alive w \<subseteq> dom (ctxs w)" by (auto simp: alive_def)
  ultimately show ?thesis by (meson finite_lessThan finite_subset lessThan_iff less_irrefl subset_iff)
qed

lemma start_ok:
  assumes "ctx_ok x" "sc_data x = None" "ctxs w = [c \<mapsto> x]" "datas w = Map.empty" "ssls w = Map.empty" "fresh w = Suc c"
  shows "loop_inv ssl_of w"
proof -
  have "data_map [c \<mapsto> x\<lparr>sc_closing := False\<rparr>] = Map.empty" using assms(2) by (auto simp: data_map_def)
  moreover have "shape ssl_of w = ([c \<mapsto> x\<lparr>sc_closing := False\<rparr>], Map.empty, {}, Suc c)"
    using assms(3-6) by (auto simp: shape_def)
  ultimately show ?thesis using assms(1)
    by (auto simp: loop_inv_def loop_ok_def owned_def bijective_def ctx_ok_def split: if_splits)
qed

section \<open>Steps\<close>

text \<open>
  An attempt of a thread, the callbacks of the event loop, and its timer. \<open>good\<close>, \<open>able\<close> and \<open>ticks\<close> restrict the outcomes
  of library calls.
\<close>

inductive reconnect_step ::
  "('e \<Rightarrow> ptr \<Rightarrow> ('d, 't) client_net \<Rightarrow> bool) \<Rightarrow> ('e, ('d, 't) client_net) event \<Rightarrow> ('e, ('d, 't) client_net) event \<Rightarrow>
   ('e, ('d, 't) client_net) event \<Rightarrow> ('e, ('d, 't) client_net) event \<Rightarrow>
   ('a \<Rightarrow> bool) \<Rightarrow> ('a \<Rightarrow> nat \<Rightarrow> ('d, 't) client_net \<Rightarrow> ('d, 't) client_net result) \<Rightarrow>
   ('k \<Rightarrow> bool) \<Rightarrow> ('k \<Rightarrow> ('d, 't) client_net \<Rightarrow> ('d, 't) client_net result) \<Rightarrow> ('e \<Rightarrow> bool) \<Rightarrow>
   ('d, 't) client_net \<Rightarrow> ('d, 't) client_net result \<Rightarrow> bool"
  for fits on_open on_message on_close on_release able attempt ticks on_timer good where
  client_thread: "i < length (workers w) \<Longrightarrow> able a \<Longrightarrow>
    reconnect_step fits on_open on_message on_close on_release able attempt ticks on_timer good w (attempt a i w)"
| client_add_ctx: "ctxs w c = Some x \<Longrightarrow> \<not> sc_open x \<Longrightarrow> good e \<Longrightarrow>
    reconnect_step fits on_open on_message on_close on_release able attempt ticks on_timer good w
      (on_open e c (w\<lparr>ctxs := (ctxs w)(c \<mapsto> x\<lparr>sc_open := True\<rparr>)\<rparr>))"
| client_msg: "ctxs w c = Some x \<Longrightarrow> sc_open x \<Longrightarrow> \<not> sc_closed x \<Longrightarrow> fits e c w \<Longrightarrow>
    reconnect_step fits on_open on_message on_close on_release able attempt ticks on_timer good w (on_message e c w)"
| client_closed: "ctxs w c = Some x \<Longrightarrow> sc_open x \<Longrightarrow> \<not> sc_closed x \<Longrightarrow> good e \<Longrightarrow>
    reconnect_step fits on_open on_message on_close on_release able attempt ticks on_timer good w
      (rbind (on_close e c w) (upd_ctx c (\<lambda>x. x\<lparr>sc_closed := True\<rparr>)))"
| client_released: "ctxs w c = Some x \<Longrightarrow> sc_closed x \<Longrightarrow>
    reconnect_step fits on_open on_message on_close on_release able attempt ticks on_timer good w
      (rbind (on_release e c w) (\<lambda>w. Inr (drop_ctx c w)))"
| client_tick: "ticks k \<Longrightarrow>
    reconnect_step fits on_open on_message on_close on_release able attempt ticks on_timer good w (on_timer k w)"

section \<open>The contract\<close>

text \<open>
  A context of a \<open>patient\<close> client is replaced also when it had no object. \<open>steady\<close> says that every event is lucky.
\<close>

definition client_inv :: "('d \<Rightarrow> ptr option) \<Rightarrow> bool \<Rightarrow> bool \<Rightarrow> ('d, 't) client_net \<Rightarrow> bool" where
  "client_inv ssl_of patient steady w \<longleftrightarrow>
     loop_inv ssl_of w \<and> (\<forall>c. cd_ctx w = Some c \<longrightarrow> c \<in> opened w) \<and> (steady \<longrightarrow> patient \<or> unserved w = {}) \<and>
     (steady \<longrightarrow> exiting w \<or> length (workers w) + card (alive w) = 1)"

locale reconnecting_client = tls_program ssl_of fits on_open on_message on_close on_release
  for ssl_of :: "'d \<Rightarrow> ptr option"
    and fits :: "'e \<Rightarrow> ptr \<Rightarrow> ('d, 't) client_net \<Rightarrow> bool"
    and on_open on_message on_close on_release :: "('e, ('d, 't) client_net) event" +
  fixes able :: "'a \<Rightarrow> bool"
    and attempt :: "'a \<Rightarrow> nat \<Rightarrow> ('d, 't) client_net \<Rightarrow> ('d, 't) client_net result"
    and ticks :: "'k \<Rightarrow> bool"
    and on_timer :: "'k \<Rightarrow> ('d, 't) client_net \<Rightarrow> ('d, 't) client_net result"
    and lucky :: "'e \<Rightarrow> bool"
    and patient :: bool
  assumes attempts: "able a \<Longrightarrow> i < length (workers w) \<Longrightarrow> attempt a i w = Inr w \<or> attempt a i w = Inr (connected i w)"
    and open_more: "net_inv ssl_of w \<Longrightarrow> ctxs w c = Some x \<Longrightarrow> sc_data x = None \<Longrightarrow> on_open e c w = Inr w' \<Longrightarrow>
      (cd_ctx w' = Some c \<or> cd_ctx w' = cd_ctx w) \<and> workers w' = workers w \<and> exiting w' = exiting w \<and>
      (lucky e \<longrightarrow> patient \<or> (\<exists>y. ctxs w' c = Some y \<and> sc_data y \<noteq> None))"
    and message_more: "net_inv ssl_of w \<Longrightarrow> ctxs w c = Some x \<Longrightarrow> fits e c w \<Longrightarrow> on_message e c w = Inr w' \<Longrightarrow>
      net.more w' = net.more w"
    and close_more: "net_inv ssl_of w \<Longrightarrow> ctxs w c = Some x \<Longrightarrow> on_close e c w = Inr w' \<Longrightarrow>
      cd_ctx w' \<noteq> Some c \<and> (cd_ctx w' = None \<or> cd_ctx w' = cd_ctx w) \<and>
      (lucky e \<longrightarrow> patient \<or> sc_data x \<noteq> None \<longrightarrow>
         exiting w' \<or> \<not> exiting w \<and> length (workers w') = Suc (length (workers w)))"
    and release_more: "net_inv ssl_of w \<Longrightarrow> ctxs w c = Some x \<Longrightarrow> on_release e c w = Inr w' \<Longrightarrow> net.more w' = net.more w"
    and timer: "net_inv ssl_of w \<Longrightarrow> (\<forall>c. cd_ctx w = Some c \<longrightarrow> ctxs w c \<noteq> None) \<Longrightarrow> ticks k \<Longrightarrow>
      \<exists>w'. on_timer k w = Inr w' \<and> shape ssl_of w' = shape ssl_of w \<and> net.more w' = net.more w"
begin

lemma inv_same:
  assumes "client_inv ssl_of patient steady w" "shape ssl_of w' = shape ssl_of w" "net.more w' = net.more w"
  shows "client_inv ssl_of patient steady w'"
proof -
  have "cd_ctx w' = cd_ctx w" "exiting w' = exiting w" "workers w' = workers w"
    using assms(3) by (cases w; cases w'; simp)+
  then show ?thesis using assms(1) views_shape [OF assms(2)] by (simp add: client_inv_def loop_inv_def assms(2))
qed

lemma inv_connected:
  assumes "client_inv ssl_of patient steady w" "i < length (workers w)"
  shows "client_inv ssl_of patient steady (connected i w)"
proof -
  let ?w = "arrive w" and ?ws = "take i (workers w) @ drop (Suc i) (workers w)"
  have inv: "loop_inv ssl_of w" using assms(1) by (simp add: client_inv_def)
  have new: "ctxs w (fresh w) = None" using inv by (fastforce simp: loop_inv_def loop_ok_def owned_def shape_def)
  have "alive ?w = insert (fresh w) (alive w)" by (auto simp: alive_def arrive_def new_ctx_def)
  then have "card (alive ?w) = Suc (card (alive w))" using alive_finite [OF inv] by simp
  moreover have "length (workers w) = Suc (length ?ws)" using assms(2) by simp
  moreover have "opened ?w = opened w" using new by (auto simp: opened_def arrive_def new_ctx_def)
  moreover have "unserved ?w = unserved w" using new by (auto simp: unserved_def arrive_def new_ctx_def)
  moreover have "loop_inv ssl_of (?w\<lparr>workers := ?ws\<rparr>)" using loop_arrive [OF inv] by (simp add: loop_inv_def shape_def)
  moreover have "alive (?w\<lparr>workers := ?ws\<rparr>) = alive ?w" "opened (?w\<lparr>workers := ?ws\<rparr>) = opened ?w"
      "unserved (?w\<lparr>workers := ?ws\<rparr>) = unserved ?w"
    by (simp_all add: alive_def opened_def unserved_def)
  moreover have "cd_ctx ?w = cd_ctx w" "exiting ?w = exiting w" by (simp_all add: arrive_def)
  ultimately show ?thesis using assms(1) unfolding connected_def client_inv_def by auto
qed

lemma inv_add:
  assumes "client_inv ssl_of patient steady w" "ctxs w c = Some x" "\<not> sc_open x" "steady \<longrightarrow> lucky e"
  shows "\<exists>w'. on_open e c (w\<lparr>ctxs := (ctxs w)(c \<mapsto> x\<lparr>sc_open := True\<rparr>)\<rparr>) = Inr w' \<and> client_inv ssl_of patient steady w'"
proof -
  let ?w = "w\<lparr>ctxs := (ctxs w)(c \<mapsto> x\<lparr>sc_open := True\<rparr>)\<rparr>"
  have inv: "loop_inv ssl_of w" using assms(1) by (simp add: client_inv_def)
  have x: "sc_data x = None" "\<not> sc_closed x" using loop_ctx [OF inv assms(2)] assms(3) by (simp_all add: ctx_ok_def)
  obtain w' where w': "on_open e c ?w = Inr w'" "loop_inv ssl_of w'" "opens ssl_of c ?w w'"
    using open_step [OF inv assms(2,3)] by blast
  have "loop_inv ssl_of ?w"
    by (rule loop_mark [OF inv assms(2)]) (use loop_ctx [OF inv assms(2)] assms(3) in \<open>simp_all add: ctx_ok_def\<close>)
  note add = open_more [OF loop_net [OF this], of c "x\<lparr>sc_open := True\<rparr>" e w']
  have more: "cd_ctx w' = Some c \<or> cd_ctx w' = cd_ctx w" "exiting w' = exiting w" "workers w' = workers w"
    using add x(1) w'(1) by simp_all
  obtain H D S n where sh: "shape ssl_of w = (H, D, S, n)" by (cases "shape ssl_of w")
  have c: "H c = Some (x\<lparr>sc_closing := False\<rparr>)" using shape_ctx [OF assms(2), of ssl_of] sh by simp
  have shw: "shape ssl_of ?w = (H(c \<mapsto> x\<lparr>sc_open := True, sc_closing := False\<rparr>), D, S, n)" using sh by (auto simp: shape_def)
  obtain y where H': "fst (shape ssl_of w') = H(c \<mapsto> y)" "sc_open y" "sc_closed y = sc_closed x"
    using w'(3) shw by (auto simp: opens_def)
  have "alive w' = alive w" "opened w' = insert c (opened w)"
    using H' c x(2) by (auto simp: views [of _ ssl_of] sh)
  moreover have "patient \<or> unserved w' = {}" if steady
  proof -
    have "patient \<or> (\<exists>y. ctxs w' c = Some y \<and> sc_data y \<noteq> None)" using add x(1) w'(1) assms(4) that by simp
    moreover have "fst (shape ssl_of w') c = Some y" using H'(1) by simp
    ultimately have "patient \<or> sc_data y \<noteq> None" by (metis ctx_of_shape option.inject)
    then show ?thesis using H' that assms(1) by (auto simp: views(3) [of _ ssl_of] sh client_inv_def split: if_splits)
  qed
  ultimately show ?thesis using w'(1,2) more assms(1) by (auto simp: client_inv_def)
qed

lemma inv_close:
  assumes "client_inv ssl_of patient steady w" "ctxs w c = Some x" "sc_open x" "\<not> sc_closed x" "steady \<longrightarrow> lucky e"
  shows "\<exists>w'. rbind (on_close e c w) (upd_ctx c (\<lambda>x. x\<lparr>sc_closed := True\<rparr>)) = Inr w' \<and> client_inv ssl_of patient steady w'"
proof -
  have inv: "loop_inv ssl_of w" using assms(1) by (simp add: client_inv_def)
  obtain w' y where w': "on_close e c w = Inr w'" "shape ssl_of w' = shape ssl_of w" "ctxs w' c = Some y"
      "loop_inv ssl_of (w'\<lparr>ctxs := (ctxs w')(c \<mapsto> y\<lparr>sc_closed := True\<rparr>)\<rparr>)"
    using close_step [OF inv assms(2,3)] by blast
  let ?w = "w'\<lparr>ctxs := (ctxs w')(c \<mapsto> y\<lparr>sc_closed := True\<rparr>)\<rparr>"
  note cl = close_more [OF loop_net [OF inv] assms(2) w'(1)]
  have c: "c \<in> alive w" using assms(2,4) by (auto simp: alive_def)
  have "alive ?w = alive w' - {c}" "opened ?w = opened w' - {c}" "unserved ?w \<subseteq> unserved w'"
    by (auto simp: alive_def opened_def unserved_def)
  then have v: "alive ?w = alive w - {c}" "opened ?w = opened w - {c}" "unserved ?w \<subseteq> unserved w"
    using views_shape [OF w'(2)] by simp_all
  have card: "Suc (card (alive w - {c})) = card (alive w)"
    using alive_finite [OF inv] c by (metis card_Suc_Diff1)
  have "exiting w' \<or> length (workers w') + card (alive ?w) = 1" if steady
  proof -
    have "patient \<or> unserved w = {}" "exiting w \<or> length (workers w) + card (alive w) = 1"
      using assms(1) that by (simp_all add: client_inv_def)
    moreover from this(1) have "patient \<or> sc_data x \<noteq> None" using assms(2-4) by (auto simp: unserved_def)
    then have "exiting w' \<or> \<not> exiting w \<and> length (workers w') = Suc (length (workers w))" using cl assms(5) that by blast
    ultimately show ?thesis unfolding v(1) using card by linarith
  qed
  then have "client_inv ssl_of patient steady ?w" using w'(4) v cl assms(1) by (auto simp: client_inv_def)
  then show ?thesis using w'(1,3) by (simp add: upd_ctx_def the_ctx_def)
qed

lemma inv_release:
  assumes "client_inv ssl_of patient steady w" "ctxs w c = Some x" "sc_closed x"
  shows "\<exists>w'. rbind (on_release e c w) (\<lambda>w. Inr (drop_ctx c w)) = Inr w' \<and> client_inv ssl_of patient steady w'"
proof -
  have inv: "loop_inv ssl_of w" using assms(1) by (simp add: client_inv_def)
  obtain w' where w': "on_release e c w = Inr w'" "loop_inv ssl_of (drop_ctx c w')" "releases ssl_of c w w'"
    using release_step [OF inv assms(2)] by blast
  have more: "net.more w' = net.more w" using release_more [OF loop_net [OF inv] assms(2) w'(1)] .
  obtain H D S n where sh: "shape ssl_of w = (H, D, S, n)" by (cases "shape ssl_of w")
  have c: "H c = Some (x\<lparr>sc_closing := False\<rparr>)" using shape_ctx [OF assms(2), of ssl_of] sh by simp
  have "fst (shape ssl_of w') = H \<or> fst (shape ssl_of w') = H(c \<mapsto> x\<lparr>sc_closing := False, sc_data := None\<rparr>)"
    using w'(3) sh c by (auto simp: releases_def split: option.splits)
  moreover have "fst (shape ssl_of (drop_ctx c w')) = (fst (shape ssl_of w'))(c := None)" by (auto simp: shape_def drop_ctx_def)
  ultimately have H': "fst (shape ssl_of (drop_ctx c w')) = H(c := None)" by auto
  have v: "alive (drop_ctx c w') = alive w" "opened (drop_ctx c w') = opened w" "unserved (drop_ctx c w') = unserved w"
    using assms(3) c by (auto simp: views [of _ ssl_of] H' sh split: if_splits)
  have "cd_ctx (drop_ctx c w') = cd_ctx w" "exiting (drop_ctx c w') = exiting w" "workers (drop_ctx c w') = workers w"
    using more by (cases w; cases w'; simp add: drop_ctx_def)+
  then have "client_inv ssl_of patient steady (drop_ctx c w')" using w'(2) v assms(1) by (simp add: client_inv_def)
  then show ?thesis using w'(1) by simp
qed

lemma client_reach:
  assumes "net_reach (reconnect_step fits on_open on_message on_close on_release able attempt ticks on_timer good) w0 r"
    and "client_inv ssl_of patient steady w0" "\<And>e. steady \<Longrightarrow> good e \<Longrightarrow> lucky e"
  shows "\<exists>w. r = Inr w \<and> client_inv ssl_of patient steady w"
  using assms(1,2)
proof (induction rule: net_reach.induct)
  case (reach_step w r)
  then have inv: "client_inv ssl_of patient steady w" by simp
  then have loop: "loop_inv ssl_of w" by (simp add: client_inv_def)
  from reach_step.hyps(2) show ?case
  proof cases
    case (client_thread i a)
    then show ?thesis using attempts inv_connected [OF inv] inv by metis
  next
    case client_add_ctx
    then show ?thesis using inv_add [OF inv] assms(3) by blast
  next
    case client_msg
    then show ?thesis using message_step [OF loop] message_more [OF loop_net [OF loop]] inv_same [OF inv] by blast
  next
    case client_closed
    then show ?thesis using inv_close [OF inv] assms(3) by blast
  next
    case client_released
    then show ?thesis using inv_release [OF inv] by blast
  next
    case client_tick
    have "\<forall>c. cd_ctx w = Some c \<longrightarrow> ctxs w c \<noteq> None" using inv by (auto simp: client_inv_def opened_def)
    then show ?thesis using client_tick timer [OF loop_net [OF loop]] inv_same [OF inv] by blast
  qed
qed simp

text \<open>A client whose close callback does not end the event loop runs forever.\<close>

lemma client_stays:
  assumes "net_reach (reconnect_step fits on_open on_message on_close on_release able attempt ticks on_timer good) w0 r"
    and "client_inv ssl_of patient False w0" "\<And>e c w w'. on_close e c w = Inr w' \<Longrightarrow> exiting w' = exiting w" "r = Inr v"
  shows "exiting v = exiting w0"
  using assms(1,4)
proof (induction arbitrary: v rule: net_reach.induct)
  case (reach_step w r)
  have inv: "client_inv ssl_of patient False w" using client_reach [OF reach_step.hyps(1) assms(2)] by auto
  then have net: "net_inv ssl_of w" and loop: "loop_inv ssl_of w" by (simp_all add: client_inv_def loop_net)
  have same: "exiting v = exiting w" if "net.more v = net.more w" using that by (cases v; cases w; simp)
  from reach_step.hyps(2) have "exiting v = exiting w" unfolding reach_step.prems
  proof cases
    case (client_thread i a)
    then show ?thesis using attempts [OF client_thread(3,2)] by (auto simp: connected_def arrive_def)
  next
    case (client_add_ctx c x e)
    let ?w = "w\<lparr>ctxs := (ctxs w)(c \<mapsto> x\<lparr>sc_open := True\<rparr>)\<rparr>"
    have x: "sc_data x = None" using loop_ctx [OF loop client_add_ctx(2)] client_add_ctx(3) by (simp add: ctx_ok_def)
    have "loop_inv ssl_of ?w"
      by (rule loop_mark [OF loop client_add_ctx(2)]) (use loop_ctx [OF loop client_add_ctx(2)] client_add_ctx(3) in \<open>simp_all add: ctx_ok_def\<close>)
    then show ?thesis using open_more [OF loop_net, of ?w c "x\<lparr>sc_open := True\<rparr>" e v] x client_add_ctx(1) by simp
  next
    case (client_msg c x e)
    then show ?thesis using message_more [OF net client_msg(2,5)] same by simp
  next
    case (client_closed c x e)
    obtain u where "on_close e c w = Inr u" "upd_ctx c (\<lambda>x. x\<lparr>sc_closed := True\<rparr>) u = Inr v"
      using client_closed(1) [symmetric] by (auto simp: rbind_simps)
    then show ?thesis using assms(3) by (auto simp: upd_ctx_def rbind_simps)
  next
    case (client_released c x e)
    obtain u where "on_release e c w = Inr u" "drop_ctx c u = v"
      using client_released(1) [symmetric] by (auto simp: rbind_simps)
    then show ?thesis using release_more [OF net client_released(2)] same by (auto simp: drop_ctx_def)
  next
    case (client_tick k)
    have "\<forall>c. cd_ctx w = Some c \<longrightarrow> ctxs w c \<noteq> None" using inv by (auto simp: client_inv_def opened_def)
    then show ?thesis using timer [OF net _ client_tick(2)] client_tick(1) same by auto
  qed
  then show ?case using reach_step.IH by simp
qed simp

end

end
