(* ===== verification/SslSessions.thy ===== *)
theory SslSessions
  imports Reconnect
begin

text \<open>
  The sessions of the TLS echo program of src/use/c/use_openssl/example/ssl01_echo: ssl_session.c and the
  callbacks of server.c and client.c, that the event loop runs on a \<open>net\<close>.

  Shown here: however connections come and go, no callback uses a session or a TLS object that was freed, and
  both are freed with their context; the server sends back what it receives; the client always has a
  connection or a thread that tries to get one.
\<close>

section \<open>Sessions\<close>

definition SSL_ERROR_WANT_READ :: int where
  "SSL_ERROR_WANT_READ = 2"

record ssl_session_t =
  ssl :: "ptr option"
  status :: int
  remote_addr :: string

text \<open>The outcome of the calls that make a session: whether memory is left, the new TLS object, and the address.\<close>

record 't new_env =
  ne_mem :: bool
  ne_ssl :: "'t option"
  ne_addr :: string

definition ssl_session_new ::
  "'t new_env \<Rightarrow> (ssl_session_t, 't, 'z) net_scheme \<Rightarrow> (ptr option \<times> (ssl_session_t, 't, 'z) net_scheme) result" where
  "ssl_session_new N w =
     (if \<not> ne_mem N then Inr (None, log_line ''failed allocate memory space for ssl session'' w)
      else
        let (session, w) = new_data \<lparr>ssl = None, status = 0, remote_addr = []\<rparr> w in
        case ne_ssl N of
          None \<Rightarrow> rbind (free_data session (log_line ''failed new ssl'' w)) (\<lambda>w. Inr (None, w))
        | Some t \<Rightarrow>
            let (s, w) = new_ssl t w in
            rbind (upd_data session (\<lambda>d. d\<lparr>ssl := Some s, status := 0, remote_addr := ne_addr N\<rparr>) w) (\<lambda>w.
            Inr (Some session, w)))"

definition ssl_session_delete ::
  "ptr \<Rightarrow> (ssl_session_t, 't, 'z) net_scheme \<Rightarrow> (ssl_session_t, 't, 'z) net_scheme result" where
  "ssl_session_delete session w =
     rbind (the_data session w) (\<lambda>d.
     rbind (case ssl d of
              None \<Rightarrow> Inr w
            | Some s \<Rightarrow> rbind (free_ssl s w) (upd_data session (\<lambda>d. d\<lparr>ssl := None\<rparr>)))
       (free_data session))"

definition session_error :: "'t tls \<Rightarrow> ssl_session_t \<Rightarrow> 't \<Rightarrow> int \<Rightarrow> string" where
  "session_error L d t err_code =
     ''ssl error: remote_addr='' @ remote_addr d @ '', err_code='' @ deci err_code @ '', err_msg='' @ t_reason L t"

text \<open>
  The two handshakes, \<open>ssl_session_accept\<close> of the server and \<open>ssl_session_connect\<close> of the client. \<open>False\<close> means that
  the connection is to be closed; an unfinished handshake is \<open>True\<close> and leaves the status 0.
\<close>

definition ssl_session_accept ::
  "'t tls \<Rightarrow> ptr \<Rightarrow> (ssl_session_t, 't, 'z) net_scheme \<Rightarrow> (bool \<times> (ssl_session_t, 't, 'z) net_scheme) result" where
  "ssl_session_accept L session w =
     rbind (the_data session w) (\<lambda>d.
     if status d = 1 then Inr (True, w)
     else
       rbind (the_ssl (ssl d) w) (\<lambda>(s, t).
       let (ret, t) = t_accept L t; w = set_ssl s t w in
       if ret = 0 then Inr (False, log_line (session_error L d t (t_error L t ret)) w)
       else if ret = 1 then
         rbind (upd_data session (\<lambda>d. d\<lparr>status := 1\<rparr>) w) (\<lambda>w.
         Inr (True, log_line (''ssl accept success: remote_addr='' @ remote_addr d) w))
       else if ret < 0 then
         (if t_error L t ret = SSL_ERROR_WANT_READ then Inr (True, log_line ''ssl session establishing'' w)
          else Inr (False, log_line (session_error L d t (t_error L t ret)) w))
       else Inr (False, log_line (''failed ssl accept: remote_addr='' @ remote_addr d) w)))"

definition ssl_session_connect ::
  "'t tls \<Rightarrow> ptr \<Rightarrow> (ssl_session_t, 't, 'z) net_scheme \<Rightarrow> (bool \<times> (ssl_session_t, 't, 'z) net_scheme) result" where
  "ssl_session_connect L session w =
     rbind (the_data session w) (\<lambda>d.
     if status d = 1 then Inr (True, w)
     else
       rbind (the_ssl (ssl d) w) (\<lambda>(s, t).
       let (ret, t) = t_connect L t; w = set_ssl s t w in
       if ret = 0 then Inr (False, log_line (session_error L d t (t_error L t ret)) w)
       else if ret = 1 then
         rbind (upd_data session (\<lambda>d. d\<lparr>status := 1\<rparr>) w) (\<lambda>w.
         Inr (True, log_line (''ssl connect success: remote_addr='' @ remote_addr d) w))
       else if ret < 0 then
         (if t_error L t ret = SSL_ERROR_WANT_READ then Inr (True, log_line ''ssl session establishing'' w)
          else Inr (False, log_line (session_error L d t (t_error L t ret)) w))
       else Inr (False, log_line (''failed ssl connect: remote_addr='' @ remote_addr d) w)))"

text \<open>The text of \<open>LOG_DEBUG("recv message: %s", buf)\<close>, whose buffer ends with a null byte.\<close>

definition recv_line :: "bytes \<Rightarrow> string" where
  "recv_line bs = ''recv message: '' @ chars_of (takeWhile (\<lambda>b. b \<noteq> 0) bs)"

section \<open>The callbacks of the server\<close>

definition ssl_serv_on_connect ::
  "'t tls \<Rightarrow> 't new_env \<Rightarrow> ptr \<Rightarrow> (ssl_session_t, 't, 'z) net_scheme \<Rightarrow> (ssl_session_t, 't, 'z) net_scheme result" where
  "ssl_serv_on_connect L N c w =
     rbind (ssl_session_new N w) (\<lambda>(session, w).
     case session of
       None \<Rightarrow> Inr (log_line ''failed new ssl session'' w)
     | Some session \<Rightarrow>
         rbind (muggle_socket_ctx_set_data c (Some session) w) (\<lambda>w.
         rbind (the_data session w) (\<lambda>d.
         rbind (ssl_session_accept L session (log_line (''new connection: remote_addr='' @ remote_addr d) w)) (\<lambda>(ok, w).
         if ok then Inr w
         else ctx_close c (log_line (''failed ssl session accept: remote_addr='' @ remote_addr d) w)))))"

text \<open>The loop of \<open>ssl_serv_on_message\<close>; the buffer has 1024 bytes, the last one for the null byte.\<close>

fun echo_loop ::
  "nat \<Rightarrow> 't tls \<Rightarrow> ptr \<Rightarrow> ptr \<Rightarrow> (ssl_session_t, 't, 'z) net_scheme \<Rightarrow> (ssl_session_t, 't, 'z) net_scheme result" where
  "echo_loop 0 L c session w = Inl Diverges"
| "echo_loop (Suc fuel) L c session w =
     rbind (the_data session w) (\<lambda>d.
     rbind (the_ssl (ssl d) w) (\<lambda>(s, t).
     let (numbytes, buf, t) = t_read L 1023 t; w = set_ssl s t w in
     if numbytes \<le> 0 then
       if t_error L t numbytes \<noteq> SSL_ERROR_WANT_READ then
         ctx_close c (log_line (session_error L d t (t_error L t numbytes)) w)
       else Inr w
     else
       let w = log_line (recv_line buf) w; (numbytes, t) = t_write L buf t; w = set_ssl s t w in
       if numbytes \<le> 0 then ctx_close c (log_line (session_error L d t (t_error L t numbytes)) w)
       else echo_loop fuel L c session w))"

definition ssl_serv_on_message ::
  "nat \<Rightarrow> 't tls \<Rightarrow> ptr \<Rightarrow> (ssl_session_t, 't, 'z) net_scheme \<Rightarrow> (ssl_session_t, 't, 'z) net_scheme result" where
  "ssl_serv_on_message fuel L c w =
     rbind (muggle_socket_ctx_get_data c w) (\<lambda>session.
     case session of
       None \<Rightarrow> Inr (log_line ''failed get ssl session'' w)
     | Some session \<Rightarrow>
         rbind (the_data session w) (\<lambda>d.
         if status d = 0 then
           rbind (ssl_session_accept L session w) (\<lambda>(ok, w).
           if \<not> ok then ctx_close c (log_line (''failed ssl session accept: remote_addr='' @ remote_addr d) w)
           else
             rbind (the_data session w) (\<lambda>d.
             if status d = 0 then Inr w else echo_loop fuel L c session w))
         else echo_loop fuel L c session w))"

definition ssl_serv_on_close ::
  "ptr \<Rightarrow> (ssl_session_t, 't, 'z) net_scheme \<Rightarrow> (ssl_session_t, 't, 'z) net_scheme result" where
  "ssl_serv_on_close c w =
     rbind (the_ctx c w) (\<lambda>x.
     if sc_type x = MUGGLE_SOCKET_CTX_TYPE_TCP_LISTEN then Inr w
     else
       case sc_data x of
         None \<Rightarrow> Inr (log_line ''failed get ssl session'' w)
       | Some session \<Rightarrow>
           rbind (the_data session w) (\<lambda>d. Inr (log_line (''on close: remote_addr='' @ remote_addr d) w)))"

definition ssl_serv_on_release ::
  "ptr \<Rightarrow> (ssl_session_t, 't, 'z) net_scheme \<Rightarrow> (ssl_session_t, 't, 'z) net_scheme result" where
  "ssl_serv_on_release c w =
     rbind (the_ctx c w) (\<lambda>x.
     if sc_type x = MUGGLE_SOCKET_CTX_TYPE_TCP_LISTEN then Inr w
     else
       case sc_data x of
         None \<Rightarrow> Inr (log_line ''failed get ssl session'' w)
       | Some session \<Rightarrow>
           rbind (the_data session w) (\<lambda>d.
           rbind (ssl_session_delete session (log_line (''on release: remote_addr='' @ remote_addr d) w))
             (muggle_socket_ctx_set_data c None)))"

section \<open>The callbacks of the client\<close>

type_synonym 't cnet = "(ssl_session_t, 't) client_net"

definition ssl_client_on_add_ctx :: "'t tls \<Rightarrow> 't new_env \<Rightarrow> string \<Rightarrow> ptr \<Rightarrow> 't cnet \<Rightarrow> 't cnet result" where
  "ssl_client_on_add_ctx L N remote_ip c w =
     (let w = w\<lparr>cd_ctx := Some c\<rparr> in
      rbind (ssl_session_new N w) (\<lambda>(session, w).
      case session of
        None \<Rightarrow> Inr (log_line ''failed new ssl session'' w)
      | Some session \<Rightarrow>
          rbind (muggle_socket_ctx_set_data c (Some session) w) (\<lambda>w.
          rbind (the_data session w) (\<lambda>d.
          rbind (the_ssl (ssl d) w) (\<lambda>(s, t).
          let w = set_ssl s (t_host L remote_ip t) (log_line ''on add context'' w) in
          rbind (ssl_session_connect L session w) (\<lambda>(ok, w).
          if ok then Inr w
          else ctx_close c (log_line (''failed ssl session connect: remote_addr='' @ remote_addr d) w)))))))"

fun recv_loop ::
  "nat \<Rightarrow> 't tls \<Rightarrow> ptr \<Rightarrow> ptr \<Rightarrow> (ssl_session_t, 't, 'z) net_scheme \<Rightarrow> (ssl_session_t, 't, 'z) net_scheme result" where
  "recv_loop 0 L c session w = Inl Diverges"
| "recv_loop (Suc fuel) L c session w =
     rbind (the_data session w) (\<lambda>d.
     rbind (the_ssl (ssl d) w) (\<lambda>(s, t).
     let (numbytes, buf, t) = t_read L 1023 t; w = set_ssl s t w in
     if numbytes \<le> 0 then
       if t_error L t numbytes \<noteq> SSL_ERROR_WANT_READ then
         ctx_close c (log_line (session_error L d t (t_error L t numbytes)) w)
       else Inr w
     else recv_loop fuel L c session (log_line (recv_line buf) w)))"

definition ssl_client_on_message ::
  "nat \<Rightarrow> 't tls \<Rightarrow> ptr \<Rightarrow> (ssl_session_t, 't, 'z) net_scheme \<Rightarrow> (ssl_session_t, 't, 'z) net_scheme result" where
  "ssl_client_on_message fuel L c w =
     rbind (muggle_socket_ctx_get_data c w) (\<lambda>session.
     case session of
       None \<Rightarrow> Inr (log_line ''failed get ssl session'' w)
     | Some session \<Rightarrow>
         rbind (the_data session w) (\<lambda>d.
         if status d = 0 then
           rbind (ssl_session_connect L session w) (\<lambda>(ok, w).
           if \<not> ok then ctx_close c (log_line (''failed ssl session connect: remote_addr='' @ remote_addr d) w)
           else
             rbind (the_data session w) (\<lambda>d.
             if status d = 0 then Inr w else recv_loop fuel L c session w))
         else recv_loop fuel L c session w))"

text \<open>\<open>con_cfg\<close> says whether the memory for the thread's settings was allocated, \<open>thread\<close> whether it could be started.\<close>

definition ssl_client_on_close :: "bool \<Rightarrow> bool \<Rightarrow> ptr \<Rightarrow> 't cnet \<Rightarrow> 't cnet result" where
  "ssl_client_on_close con_cfg thread c w =
     (let w = (if cd_ctx w = Some c then w\<lparr>cd_ctx := None\<rparr> else w) in
      rbind (muggle_socket_ctx_get_data c w) (\<lambda>session.
      case session of
        None \<Rightarrow> Inr (log_line ''failed get ssl session'' w)
      | Some session \<Rightarrow>
          rbind (the_data session w) (\<lambda>d.
          let w = log_line (''on close: remote_addr='' @ remote_addr d) w in
          if \<not> con_cfg then Inr (log_line ''failed allocate space for reconnect config'' w\<lparr>exiting := True\<rparr>)
          else if thread then Inr (w\<lparr>workers := workers w @ [(cd_host w, cd_port w)]\<rparr>)
          else Inr w)))"

definition ssl_client_on_release ::
  "ptr \<Rightarrow> (ssl_session_t, 't, 'z) net_scheme \<Rightarrow> (ssl_session_t, 't, 'z) net_scheme result" where
  "ssl_client_on_release c w =
     rbind (muggle_socket_ctx_get_data c w) (\<lambda>session.
     case session of
       None \<Rightarrow> Inr (log_line ''failed get ssl session'' w)
     | Some session \<Rightarrow>
         rbind (the_data session w) (\<lambda>d.
         rbind (ssl_session_delete session (log_line (''on release: remote_addr='' @ remote_addr d) w))
           (muggle_socket_ctx_set_data c None)))"

definition timestamp :: "clock_tm \<Rightarrow> int \<Rightarrow> string" where
  "timestamp t nsec =
     strncpy_buf 128
       (deci (tm_year t + 1900) @ ''-'' @ fmt_0d 2 (tm_mon t + 1) @ ''-'' @ fmt_0d 2 (tm_mday t) @ ''T'' @
        fmt_0d 2 (tm_hour t) @ '':'' @ fmt_0d 2 (tm_min t) @ '':'' @ fmt_0d 2 (tm_sec t) @ ''.'' @ fmt_0d 9 nsec)"

definition ssl_client_on_timer :: "'t tls \<Rightarrow> clock_tm \<Rightarrow> int \<Rightarrow> 't cnet \<Rightarrow> 't cnet result" where
  "ssl_client_on_timer L now nsec w =
     (case cd_ctx w of
        None \<Rightarrow> Inr w
      | Some c \<Rightarrow>
          rbind (muggle_socket_ctx_get_data c w) (\<lambda>session.
          case session of
            None \<Rightarrow> Inr w
          | Some session \<Rightarrow>
              rbind (the_data session w) (\<lambda>d0.
              rbind (if status d0 = 0 then ssl_session_connect L session w else Inr (True, w)) (\<lambda>(ok, w).
              if \<not> ok then ctx_close c (log_line (''failed ssl session connect: remote_addr='' @ remote_addr d0) w)
              else
                rbind (the_data session w) (\<lambda>d.
                if status d = 0 then Inr w
                else
                  let buf = timestamp now nsec in
                  rbind (the_ssl (ssl d) w) (\<lambda>(s, t).
                  let (numbytes, t) = t_write L (map of_char buf @ [0]) t; w = set_ssl s t w in
                  if numbytes \<le> 0 then
                    if t_error L t numbytes \<noteq> SSL_ERROR_WANT_READ then
                      ctx_close c (log_line (session_error L d t (t_error L t numbytes)) w)
                    else Inr w
                  else Inr (log_line (''send message: '' @ buf) w)))))))"

text \<open>
  \<open>conn_thread_routine\<close>: one attempt of a thread. When it succeeds, the thread adds a context to the event loop and
  ends; \<open>attempt\<close> is the outcome of connecting and of allocating the context.
\<close>

definition conn_thread_step :: "bool \<times> bool \<Rightarrow> nat \<Rightarrow> 't cnet \<Rightarrow> 't cnet result" where
  "conn_thread_step attempt i w = (if attempt = (True, True) then Inr (connected i w) else Inr w)"

section \<open>Handshakes\<close>

text \<open>
  What the callbacks rely on of a handshake: it changes the TLS object and possibly the status of its session,
  and an unsuccessful one leaves the status.
\<close>

definition shaken ::
  "ptr \<Rightarrow> ptr \<Rightarrow> (ssl_session_t, 't, 'z) net_scheme \<Rightarrow> ssl_session_t \<Rightarrow> 't \<Rightarrow> string list \<Rightarrow> (ssl_session_t, 't, 'z) net_scheme"
  where "shaken p s w d t ls = w\<lparr>datas := (datas w)(p \<mapsto> d), ssls := (ssls w)(s \<mapsto> t), logs := ls\<rparr>"

locale handshake =
  fixes shake :: "ptr \<Rightarrow> (ssl_session_t, 't, 'z) net_scheme \<Rightarrow> (bool \<times> (ssl_session_t, 't, 'z) net_scheme) result"
    and advance :: "'t \<Rightarrow> int \<times> 't"
  assumes shake: "datas w p = Some d \<Longrightarrow> ssl d = Some s \<Longrightarrow> ssls w s = Some t \<Longrightarrow>
      \<exists>ok d' t' ls. shake p w = Inr (ok, shaken p s w d' t' ls) \<and> ssl d' = Some s \<and> remote_addr d' = remote_addr d \<and>
        (if status d = 1 then ok \<and> d' = d \<and> t' = t \<and> ls = logs w
         else t' = snd (advance t) \<and> (\<exists>l. ls = logs w @ [l]) \<and> (ok \<longrightarrow> fst (advance t) = 1 \<or> fst (advance t) < 0) \<and>
           status d' = (if fst (advance t) = 1 then 1 else status d))"
begin

lemma shake_shape:
  assumes "datas w p = Some d" "ssl d = Some s" "ssls w s = Some t"
  shows "\<exists>ok d' t' w'. shake p w = Inr (ok, w') \<and> shape ssl w' = shape ssl w \<and> ctxs w' = ctxs w \<and>
    datas w' p = Some d' \<and> ssl d' = Some s \<and> ssls w' s = Some t' \<and> (t' = t \<or> t' = snd (advance t)) \<and>
    net.more w' = net.more w"
proof -
  obtain ok d' t' ls where *: "shake p w = Inr (ok, shaken p s w d' t' ls)" "ssl d' = Some s"
      "t' = t \<or> t' = snd (advance t)" using shake [OF assms] by (auto split: if_splits)
  have "shape ssl (shaken p s w d' t' ls) = shape ssl w" using * assms by (auto simp: shape_def shaken_def)
  then show ?thesis using *
    by (intro exI [of _ ok] exI [of _ d'] exI [of _ t'] exI [of _ "shaken p s w d' t' ls"] conjI)
      (simp_all add: shaken_def)
qed

end

lemma update_same: "datas w p = Some d \<Longrightarrow> ssls w s = Some t \<Longrightarrow> shaken p s w d t (logs w) = w"
  by (simp add: shaken_def fun_upd_idem)

lemma shaken_log:
  "datas w p = Some d \<Longrightarrow> log_line l (set_ssl s t w) = shaken p s w d t (logs w @ [l])"
  "datas w p = Some d \<Longrightarrow>
     rbind (upd_data p f (set_ssl s t w)) (\<lambda>w. Inr (b, log_line l w)) = Inr (b, shaken p s w (f d) t (logs w @ [l]))"
  by (simp_all add: shaken_def log_line_def set_ssl_def upd_data_def the_data_def fun_upd_idem)

lemma accept_shakes:
  assumes "datas w p = Some d" "ssl d = Some s" "ssls w s = Some t"
  shows "\<exists>ok d' t' ls. ssl_session_accept L p w = Inr (ok, shaken p s w d' t' ls) \<and> ssl d' = Some s \<and> remote_addr d' = remote_addr d \<and>
    (if status d = 1 then ok \<and> d' = d \<and> t' = t \<and> ls = logs w
     else t' = snd (t_accept L t) \<and> (\<exists>l. ls = logs w @ [l]) \<and> (ok \<longrightarrow> fst (t_accept L t) = 1 \<or> fst (t_accept L t) < 0) \<and>
       status d' = (if fst (t_accept L t) = 1 then 1 else status d))"
proof (cases "status d = 1")
  case True
  then show ?thesis using assms update_same [OF assms(1,3)]
    by (intro exI [of _ True] exI [of _ d] exI [of _ t] exI [of _ "logs w"]) (simp add: ssl_session_accept_def the_data_def)
next
  case False
  obtain ret t1 where a: "t_accept L t = (ret, t1)" by force
  let ?d = "if ret = 1 then d\<lparr>status := 1\<rparr> else d"
  have "\<exists>ok l. ssl_session_accept L p w = Inr (ok, shaken p s w ?d t1 (logs w @ [l])) \<and> (ok \<longrightarrow> ret = 1 \<or> ret < 0)"
    using assms False a unfolding ssl_session_accept_def
    by (cases "ret = 1"; cases "ret < 0"; cases "t_error L t1 ret = SSL_ERROR_WANT_READ")
      (auto simp: shaken_log the_data_def the_ssl_def Let_def)
  then show ?thesis using assms(2) False a by fastforce
qed

lemma connect_shakes:
  assumes "datas w p = Some d" "ssl d = Some s" "ssls w s = Some t"
  shows "\<exists>ok d' t' ls. ssl_session_connect L p w = Inr (ok, shaken p s w d' t' ls) \<and> ssl d' = Some s \<and> remote_addr d' = remote_addr d \<and>
    (if status d = 1 then ok \<and> d' = d \<and> t' = t \<and> ls = logs w
     else t' = snd (t_connect L t) \<and> (\<exists>l. ls = logs w @ [l]) \<and> (ok \<longrightarrow> fst (t_connect L t) = 1 \<or> fst (t_connect L t) < 0) \<and>
       status d' = (if fst (t_connect L t) = 1 then 1 else status d))"
proof (cases "status d = 1")
  case True
  then show ?thesis using assms update_same [OF assms(1,3)]
    by (intro exI [of _ True] exI [of _ d] exI [of _ t] exI [of _ "logs w"]) (simp add: ssl_session_connect_def the_data_def)
next
  case False
  obtain ret t1 where a: "t_connect L t = (ret, t1)" by force
  let ?d = "if ret = 1 then d\<lparr>status := 1\<rparr> else d"
  have "\<exists>ok l. ssl_session_connect L p w = Inr (ok, shaken p s w ?d t1 (logs w @ [l])) \<and> (ok \<longrightarrow> ret = 1 \<or> ret < 0)"
    using assms False a unfolding ssl_session_connect_def
    by (cases "ret = 1"; cases "ret < 0"; cases "t_error L t1 ret = SSL_ERROR_WANT_READ")
      (auto simp: shaken_log the_data_def the_ssl_def Let_def)
  then show ?thesis using assms(2) False a by fastforce
qed

interpretation acc: handshake "ssl_session_accept L" "t_accept L" for L
  by unfold_locales (rule accept_shakes)

interpretation con: handshake "ssl_session_connect L" "t_connect L" for L
  by unfold_locales (rule connect_shakes)

section \<open>Sessions and their contexts\<close>

lemma session_new_some:
  assumes "ne_mem N" "ne_ssl N = Some t"
  shows "ssl_session_new N w = Inr (Some (fresh w),
    w\<lparr>datas := (datas w)(fresh w \<mapsto> \<lparr>ssl = Some (Suc (fresh w)), status = 0, remote_addr = ne_addr N\<rparr>),
      ssls := (ssls w)(Suc (fresh w) \<mapsto> t), fresh := Suc (Suc (fresh w))\<rparr>)"
  using assms by (simp add: ssl_session_new_def net_defs)

lemma session_new_none:
  assumes "datas w (fresh w) = None" "\<not> ne_mem N \<or> ne_ssl N = None"
  shows "\<exists>k ls. ssl_session_new N w = Inr (None, w\<lparr>fresh := k, logs := ls\<rparr>) \<and> fresh w \<le> k"
proof (cases "ne_mem N")
  case True
  have "ssl_session_new N w = Inr (None, w\<lparr>fresh := fresh w + 1, logs := logs w @ [''failed new ssl'']\<rparr>)"
    using True assms by (simp add: ssl_session_new_def net_defs fun_upd_idem)
  then show ?thesis by fastforce
next
  case False
  have "ssl_session_new N w =
      Inr (None, w\<lparr>fresh := fresh w, logs := logs w @ [''failed allocate memory space for ssl session'']\<rparr>)"
    using False by (simp add: ssl_session_new_def net_defs)
  then show ?thesis by fastforce
qed

lemma session_delete:
  assumes "datas w p = Some d" "ssl d = Some s" "ssls w s = Some t"
  shows "ssl_session_delete p w = Inr (w\<lparr>datas := (datas w)(p := None), ssls := (ssls w)(s := None)\<rparr>)"
  using assms by (simp add: ssl_session_delete_def net_defs)

text \<open>A new session, attached to its context.\<close>

definition attached :: "'t new_env \<Rightarrow> 't \<Rightarrow> ptr \<Rightarrow> sock_ctx \<Rightarrow> (ssl_session_t, 't, 'z) net_scheme \<Rightarrow> (ssl_session_t, 't, 'z) net_scheme" where
  "attached N t c x w =
     w\<lparr>ctxs := (ctxs w)(c \<mapsto> x\<lparr>sc_data := Some (fresh w)\<rparr>),
       datas := (datas w)(fresh w \<mapsto> \<lparr>ssl = Some (Suc (fresh w)), status = 0, remote_addr = ne_addr N\<rparr>),
       ssls := (ssls w)(Suc (fresh w) \<mapsto> t), fresh := Suc (Suc (fresh w))\<rparr>"

lemma attach_session:
  assumes "ne_mem N" "ne_ssl N = Some t" "ctxs w c = Some x"
  shows "rbind (ssl_session_new N w) f = f (Some (fresh w), snd (projr (ssl_session_new N w)))"
    "muggle_socket_ctx_set_data c (Some (fresh w)) (snd (projr (ssl_session_new N w))) = Inr (attached N t c x w)"
  using assms(3) by (simp_all add: session_new_some [OF assms(1,2)] attached_def net_defs)

lemma attached_the:
  "the_data (fresh w) (attached N t c x w) = Inr \<lparr>ssl = Some (Suc (fresh w)), status = 0, remote_addr = ne_addr N\<rparr>"
  "the_ssl (Some (Suc (fresh w))) (attached N t c x w) = Inr (Suc (fresh w), t)"
  by (simp_all add: attached_def the_data_def the_ssl_def)

lemma attached_opens:
  "ctxs w c = Some x \<Longrightarrow> shape ssl w' = shape ssl (attached N t c x w) \<Longrightarrow> opens ssl c w w'"
  unfolding attached_def by (rule opens_attach) simp_all

lemma opens_later: "shape ssl w' = shape ssl (w\<lparr>fresh := k, logs := ls\<rparr>) \<Longrightarrow> fresh w \<le> k \<Longrightarrow> opens ssl c w w'"
  by (rule opens_nothing) (simp_all add: shape_def)

lemma serv_connect:
  assumes "net_inv ssl w" "ctxs w c = Some x" "sc_data x = None"
  shows "\<exists>w'. ssl_serv_on_connect L N c w = Inr w' \<and> opens ssl c w w'"
proof (cases "ne_mem N \<and> ne_ssl N \<noteq> None")
  case True
  then obtain t where t: "ne_mem N" "ne_ssl N = Some t" by auto
  let ?w = "attached N t c x w" and ?l = "''new connection: remote_addr='' @ ne_addr N"
  have set: "rbind (ssl_session_new N w) (\<lambda>(session, w). case session of None \<Rightarrow> Inl NullDeref
      | Some session \<Rightarrow> muggle_socket_ctx_set_data c (Some session) w) = Inr ?w"
    using assms(2) by (simp add: session_new_some [OF t] attached_def net_defs)
  obtain ok d' t' w' where w': "ssl_session_accept L (fresh w) (log_line ?l ?w) = Inr (ok, w')"
      "shape ssl w' = shape ssl (log_line ?l ?w)" "ctxs w' = ctxs (log_line ?l ?w)"
    using acc.shake_shape [of "log_line ?l ?w" "fresh w" "\<lparr>ssl = Some (Suc (fresh w)), status = 0, remote_addr = ne_addr N\<rparr>"
        "Suc (fresh w)" t L]
    by (auto simp: attached_def log_line_def)
  have c: "ctxs (log_line l w') c = Some (x\<lparr>sc_data := Some (fresh w)\<rparr>)" for l
    using w'(3) by (simp add: attached_def log_line_def)
  obtain w'' where w'': "ctx_close c (log_line (''failed ssl session accept: remote_addr='' @ ne_addr N) w') = Inr w''"
      "shape ssl w'' = shape ssl w'"
    using ctx_close_shape [OF c, where ssl_of = ssl] by fastforce
  have "ssl_serv_on_connect L N c w = (if ok then Inr w' else Inr w'')"
    using set w'(1) w''(1)
    by (simp add: ssl_serv_on_connect_def session_new_some [OF t]) (simp add: attached_def net_defs)
  moreover have "opens ssl c w w'" "opens ssl c w w''"
    by (rule attached_opens [OF assms(2)], simp add: w'(2) w''(2))+
  ultimately show ?thesis by auto
next
  case False
  have "datas w (fresh w) = None" using net_fresh [OF assms(1)] by simp
  then obtain k ls where *: "ssl_session_new N w = Inr (None, w\<lparr>fresh := k, logs := ls\<rparr>)" "fresh w \<le> k"
    using session_new_none [of w N] False by auto
  show ?thesis
    by (rule exI [of _ "log_line ''failed new ssl session'' (w\<lparr>fresh := k, logs := ls\<rparr>)"])
      (use * in \<open>auto simp: ssl_serv_on_connect_def intro: opens_later\<close>)
qed

section \<open>Echo\<close>

text \<open>
  The result of the loops that read a connection: \<open>rs\<close> are the pieces that were handled, \<open>lost\<close> the one that was
  read last but not sent, and \<open>failed\<close> says that the context was closed.
\<close>

definition looped ::
  "ptr \<Rightarrow> ptr \<Rightarrow> sock_ctx \<Rightarrow> bool \<Rightarrow> 't \<Rightarrow> string list \<Rightarrow> (ssl_session_t, 't, 'z) net_scheme \<Rightarrow> (ssl_session_t, 't, 'z) net_scheme"
  where "looped c s x failed t ls w =
     w\<lparr>ctxs := (ctxs w)(c \<mapsto> x\<lparr>sc_closing := sc_closing x \<or> failed\<rparr>), ssls := (ssls w)(s \<mapsto> t), logs := ls\<rparr>"

definition reads_all :: "'t tls \<Rightarrow> ('t \<Rightarrow> bytes list) \<Rightarrow> bool" where
  "reads_all L pending \<longleftrightarrow>
     (\<forall>n t. let (r, bs, t') = t_read L n t in n > 0 \<longrightarrow> r \<le> 0 \<longrightarrow> t_error L t' r = SSL_ERROR_WANT_READ \<longrightarrow> pending t' = [])"

definition pieces :: "bool \<Rightarrow> ('t \<Rightarrow> bytes list) \<Rightarrow> 't \<Rightarrow> 't \<Rightarrow> bytes list \<Rightarrow> bytes list \<Rightarrow> bool" where
  "pieces failed pending t t' rs lost \<longleftrightarrow>
     concat (pending t) = concat (rs @ lost) @ concat (pending t') \<and> length lost \<le> (if failed then 1 else 0) \<and>
     ((\<forall>m \<in> set (pending t). length m \<le> 1023) \<longrightarrow> pending t = rs @ lost @ pending t')"

lemma reads_allD: "reads_all L pending \<Longrightarrow> t_read L n t = (r, bs, t') \<Longrightarrow> n > 0 \<Longrightarrow> r \<le> 0 \<Longrightarrow> t_error L t' r = SSL_ERROR_WANT_READ \<Longrightarrow> pending t' = []"
  unfolding reads_all_def by (drule spec [of _ n], drule spec [of _ t]) simp

lemma read_shorter:
  assumes "tls_ok L pending written" "t_read L n t = (r, bs, t')" "0 < r"
  shows "length (concat (pending t')) < length (concat (pending t))"
proof -
  have "0 < length bs" "concat (pending t) = bs @ concat (pending t')" using read_okD(4) [OF assms] assms(3) by auto
  then show ?thesis by (simp only: length_append)
qed

lemma pieces_step:
  assumes "tls_ok L pending written" "t_read L 1023 t = (r, bs, t1)" "0 < r" "pending t2 = pending t1"
    and "pieces failed pending t2 t' rs lost"
  shows "pieces failed pending t t' (bs # rs) lost"
  using assms(4,5) read_okD(4,5) [OF assms(1,2,3)] by (auto simp: pieces_def)

lemma echo_loop_result:
  assumes "tls_ok L pending written" "datas w p = Some d" "ssl d = Some s" "ssls w s = Some t" "ctxs w c = Some x"
    and "length (concat (pending t)) < fuel"
  shows "\<exists>failed t' ls rs lost. echo_loop fuel L c p w = Inr (looped c s x failed t' ls w) \<and>
    written t' = written t @ rs \<and> pieces failed pending t t' rs lost \<and>
    (\<not> failed \<longrightarrow> ls = logs w @ map recv_line rs \<and> (reads_all L pending \<longrightarrow> pending t' = []))"
  using assms(2-)
proof (induction fuel arbitrary: w t)
  case (Suc fuel)
  obtain r bs t1 where rd: "t_read L 1023 t = (r, bs, t1)" using prod_cases3 by blast
  show ?case
  proof (cases "r > 0")
    case False
    then have "written t1 = written t" "pending t1 = pending t" using read_okD(1,3) [OF assms(1) rd] by auto
    then show ?thesis using False Suc.prems rd
      by (intro exI [of _ "t_error L t1 r \<noteq> SSL_ERROR_WANT_READ"] exI [of _ t1]
            exI [of _ "if t_error L t1 r = SSL_ERROR_WANT_READ then logs w else logs w @ [session_error L d t1 (t_error L t1 r)]"]
            exI [of _ "[]"])
        (auto simp: net_defs looped_def pieces_def fun_upd_idem dest: reads_allD)
  next
    case True
    obtain k t2 where wr: "t_write L bs t1 = (k, t2)" by force
    let ?w = "set_ssl s t2 (log_line (recv_line bs) (set_ssl s t1 w))"
    have pend: "pending t2 = pending t1" using write_okD(1) [OF assms(1) wr] .
    show ?thesis
    proof (cases "k > 0")
      case False
      have "pieces True pending t t2 [] [bs]" using read_okD(4,5) [OF assms(1) rd True] pend by (auto simp: pieces_def)
      moreover have "written t2 = written t" using False write_okD(2) [OF assms(1) wr] read_okD(1) [OF assms(1) rd] by simp
      moreover have "echo_loop (Suc fuel) L c p w = Inr (looped c s x True t2
          (logs w @ [recv_line bs, session_error L d t2 (t_error L t2 k)]) w)"
        using True False Suc.prems rd wr by (simp add: net_defs looped_def)
      ultimately show ?thesis by fastforce
    next
      case k: True
      have "length (concat (pending t2)) < fuel"
        using read_shorter [OF assms(1) rd True] pend Suc.prems(5) by simp
      moreover have "datas ?w p = Some d" "ssls ?w s = Some t2" "ctxs ?w c = Some x"
        using Suc.prems by (simp_all add: set_ssl_def log_line_def)
      ultimately obtain failed t' ls rs lost where *: "echo_loop fuel L c p ?w = Inr (looped c s x failed t' ls ?w)"
          "written t' = written t2 @ rs" "pieces failed pending t2 t' rs lost"
          "\<not> failed \<longrightarrow> ls = logs ?w @ map recv_line rs \<and> (reads_all L pending \<longrightarrow> pending t' = [])"
        using Suc.IH [OF _ Suc.prems(2)] by blast
      have "echo_loop (Suc fuel) L c p w = echo_loop fuel L c p ?w"
        using True k Suc.prems rd wr by (simp add: the_data_def the_ssl_def)
      then have "echo_loop (Suc fuel) L c p w = Inr (looped c s x failed t' ls w)"
        using *(1) by (simp add: looped_def set_ssl_def log_line_def)
      moreover have "written t' = written t @ (bs # rs)"
        using *(2) k write_okD(2) [OF assms(1) wr] read_okD(1) [OF assms(1) rd] by simp
      ultimately show ?thesis using *(4) pieces_step [OF assms(1) rd True pend *(3)]
        by (intro exI [of _ failed] exI [of _ t'] exI [of _ ls] exI [of _ "bs # rs"] exI [of _ lost])
          (auto simp: set_ssl_def log_line_def)
    qed
  qed
qed simp

lemma recv_loop_result:
  assumes "tls_ok L pending written" "datas w p = Some d" "ssl d = Some s" "ssls w s = Some t" "ctxs w c = Some x"
    and "length (concat (pending t)) < fuel"
  shows "\<exists>failed t' ls rs errs. recv_loop fuel L c p w = Inr (looped c s x failed t' ls w) \<and>
    written t' = written t \<and> pieces False pending t t' rs [] \<and>
    ls = logs w @ map recv_line rs @ errs \<and> (\<not> failed \<longrightarrow> errs = [])"
  using assms(2-)
proof (induction fuel arbitrary: w t)
  case (Suc fuel)
  obtain r bs t1 where rd: "t_read L 1023 t = (r, bs, t1)" using prod_cases3 by blast
  show ?case
  proof (cases "r > 0")
    case False
    then have "written t1 = written t" "pending t1 = pending t" using read_okD(1,3) [OF assms(1) rd] by auto
    then show ?thesis using False Suc.prems rd
      by (intro exI [of _ "t_error L t1 r \<noteq> SSL_ERROR_WANT_READ"] exI [of _ t1]
            exI [of _ "if t_error L t1 r = SSL_ERROR_WANT_READ then logs w else logs w @ [session_error L d t1 (t_error L t1 r)]"]
            exI [of _ "[]"] exI [of _ "if t_error L t1 r = SSL_ERROR_WANT_READ then [] else [session_error L d t1 (t_error L t1 r)]"])
        (auto simp: net_defs looped_def pieces_def fun_upd_idem)
  next
    case True
    let ?w = "log_line (recv_line bs) (set_ssl s t1 w)"
    have "length (concat (pending t1)) < fuel" using read_shorter [OF assms(1) rd True] Suc.prems(5) by simp
    moreover have "datas ?w p = Some d" "ssls ?w s = Some t1" "ctxs ?w c = Some x" using Suc.prems by (simp_all add: set_ssl_def log_line_def)
    ultimately obtain failed t' ls rs errs where *: "recv_loop fuel L c p ?w = Inr (looped c s x failed t' ls ?w)"
        "written t' = written t1" "pieces False pending t1 t' rs []"
        "ls = logs ?w @ map recv_line rs @ errs" "\<not> failed \<longrightarrow> errs = []"
      using Suc.IH [OF _ Suc.prems(2)] by blast
    have "recv_loop (Suc fuel) L c p w = recv_loop fuel L c p ?w"
      using True Suc.prems rd by (simp add: the_data_def the_ssl_def)
    then have "recv_loop (Suc fuel) L c p w = Inr (looped c s x failed t' ls w)"
      using *(1) by (simp add: looped_def set_ssl_def log_line_def)
    then show ?thesis using *(2,4,5) read_okD(1) [OF assms(1) rd] pieces_step [OF assms(1) rd True refl *(3)]
      by (intro exI [of _ failed] exI [of _ t'] exI [of _ ls] exI [of _ "bs # rs"] exI [of _ errs]) (auto simp: set_ssl_def log_line_def)
  qed
qed simp

lemma looped_shape:
  "ctxs w c = Some x \<Longrightarrow> ssls w s = Some t \<Longrightarrow> shape ssl_of (looped c s x failed t' ls w) = shape ssl_of w"
  by (auto simp: shape_def looped_def)

section \<open>The server as a program of the event loop\<close>

text \<open>
  The outcomes of an event: those of making a session, and the fuel of the loop, which has to be more than the
  bytes that can be read from the connection.
\<close>

definition fuel_fits :: "'t tls \<Rightarrow> ('t \<Rightarrow> bytes list) \<Rightarrow> ('t \<Rightarrow> bytes list) \<Rightarrow> nat \<Rightarrow> ptr \<Rightarrow> (ssl_session_t, 't, 'z) net_scheme \<Rightarrow> bool" where
  "fuel_fits L pending written fuel c w \<longleftrightarrow>
     tls_ok L pending written \<and>
     (\<forall>p d s t. map_option sc_data (ctxs w c) = Some (Some p) \<longrightarrow> datas w p = Some d \<longrightarrow> ssl d = Some s \<longrightarrow> ssls w s = Some t \<longrightarrow>
        length (concat (pending t)) < fuel)"

lemma shake_pending:
  "tls_ok L pending written \<Longrightarrow> pending (snd (t_accept L t)) = pending t \<and> pending (snd (t_connect L t)) = pending t"
  "tls_ok L pending written \<Longrightarrow> written (snd (t_accept L t)) = written t \<and> written (snd (t_connect L t)) = written t"
  by (simp_all add: tls_ok_def shake_ok_def)

lemma serv_message:
  assumes "net_inv ssl w" "ctxs w c = Some x" "fuel_fits L pending written fuel c w"
  shows "\<exists>w'. ssl_serv_on_message fuel L c w = Inr w' \<and> shape ssl w' = shape ssl w"
proof (cases "sc_data x")
  case None
  then show ?thesis using assms(2) by (simp add: ssl_serv_on_message_def muggle_socket_ctx_get_data_def the_ctx_def)
next
  case (Some p)
  obtain d s t where d: "datas w p = Some d" "ssl d = Some s" "ssls w s = Some t"
    using owned_data [OF assms(1,2) Some] .
  have ok: "tls_ok L pending written" and fuel: "length (concat (pending t)) < fuel"
    using assms(2,3) Some d by (auto simp: fuel_fits_def)
  have loop: "\<exists>w''. echo_loop fuel L c p w' = Inr w'' \<and> shape ssl w'' = shape ssl w'"
    if "datas w' p = Some d'" "ssl d' = Some s" "ssls w' s = Some t'" "pending t' = pending t" "ctxs w' c = Some x" for w' d' t'
    using echo_loop_result [OF ok that(1-3,5), of fuel] that fuel looped_shape [OF that(5,3)] by fastforce
  have msg: "ssl_serv_on_message fuel L c w =
      (if status d = 0 then
         rbind (ssl_session_accept L p w) (\<lambda>(ok, w).
           if \<not> ok then ctx_close c (log_line (''failed ssl session accept: remote_addr='' @ remote_addr d) w)
           else rbind (the_data p w) (\<lambda>d. if status d = 0 then Inr w else echo_loop fuel L c p w))
       else echo_loop fuel L c p w)"
    using assms(2) Some d by (simp add: ssl_serv_on_message_def muggle_socket_ctx_get_data_def the_ctx_def the_data_def)
  show ?thesis
  proof (cases "status d = 0")
    case False
    then show ?thesis using loop [OF d refl assms(2)] msg by simp
  next
    case True
    obtain ok' d' t' w' where w': "ssl_session_accept L p w = Inr (ok', w')" "shape ssl w' = shape ssl w" "ctxs w' = ctxs w"
        "datas w' p = Some d'" "ssl d' = Some s" "ssls w' s = Some t'" "t' = t \<or> t' = snd (t_accept L t)"
      using acc.shake_shape [OF d, of L] by blast
    have "ctxs (log_line l w') c = Some x" for l using w'(3) assms(2) by (simp add: log_line_def)
    then have "\<exists>w''. ctx_close c (log_line l w') = Inr w'' \<and> shape ssl w'' = shape ssl w'" for l
      using ctx_close_shape [where ssl_of = ssl] by fastforce
    moreover have "\<exists>w''. echo_loop fuel L c p w' = Inr w'' \<and> shape ssl w'' = shape ssl w'"
      using loop [OF w'(4-6)] w'(3,7) assms(2) shake_pending [OF ok] by auto
    ultimately show ?thesis using True msg w'(1,2,4) by (cases ok') (auto simp: the_data_def)
  qed
qed

lemma serv_close:
  assumes "net_inv ssl w" "ctxs w c = Some x"
  shows "\<exists>w'. ssl_serv_on_close c w = Inr w' \<and> shape ssl w' = shape ssl w"
proof (cases "sc_data x")
  case (Some p)
  then obtain d where "datas w p = Some d" using owned_data [OF assms] by blast
  then show ?thesis using assms Some by (auto simp: ssl_serv_on_close_def the_ctx_def the_data_def)
qed (use assms in \<open>auto simp: ssl_serv_on_close_def the_ctx_def\<close>)

text \<open>Deleting the session of a context and forgetting it.\<close>

lemma delete_releases:
  assumes "net_inv ssl w" "ctxs w c = Some x" "sc_data x = Some p"
  shows "\<exists>w' d. datas w p = Some d \<and> rbind (ssl_session_delete p (log_line l w)) (muggle_socket_ctx_set_data c None) = Inr w' \<and>
    releases ssl c w w' \<and> net.more w' = net.more w"
proof -
  obtain d s t where d: "datas w p = Some d" "ssl d = Some s" "ssls w s = Some t" using owned_data [OF assms] .
  let ?w = "w\<lparr>ctxs := (ctxs w)(c \<mapsto> x\<lparr>sc_data := None\<rparr>), datas := (datas w)(p := None), ssls := (ssls w)(s := None), logs := logs w @ [l]\<rparr>"
  have "releases ssl c w ?w" by (rule releases_data [where ssl_of = ssl, OF assms(2,3) d]) (simp add: shape_def)
  moreover have "rbind (ssl_session_delete p (log_line l w)) (muggle_socket_ctx_set_data c None) = Inr ?w"
    using session_delete [of "log_line l w" p d s t] d assms(2) by (simp add: net_defs)
  ultimately show ?thesis using d(1) by auto
qed

lemma serv_release:
  assumes "net_inv ssl w" "ctxs w c = Some x" "sc_type x = MUGGLE_SOCKET_CTX_TYPE_TCP_LISTEN \<longrightarrow> sc_data x = None"
  shows "\<exists>w'. ssl_serv_on_release c w = Inr w' \<and> releases ssl c w w'"
proof (cases "sc_data x")
  case None
  then show ?thesis using assms(2) releases_none [OF assms(2) None, of ssl]
    by (auto simp: ssl_serv_on_release_def the_ctx_def)
next
  case (Some p)
  then have "sc_type x \<noteq> MUGGLE_SOCKET_CTX_TYPE_TCP_LISTEN" using assms(3) by auto
  then show ?thesis using Some assms(2) delete_releases [OF assms(1,2) Some]
    by (fastforce simp: ssl_serv_on_release_def the_ctx_def the_data_def)
qed

interpretation srv: tls_program ssl "\<lambda>e. fuel_fits L pending written (snd e)" "\<lambda>e. ssl_serv_on_connect L (fst e)"
    "\<lambda>e. ssl_serv_on_message (snd e) L" "\<lambda>e. ssl_serv_on_close" "\<lambda>e. ssl_serv_on_release" for L pending written
  by unfold_locales (blast intro: serv_connect serv_message serv_close serv_release)+

section \<open>The client as a program of the event loop\<close>

lemma client_add:
  assumes "net_inv ssl w" "ctxs w c = Some x" "sc_data x = None"
  shows "\<exists>w'. ssl_client_on_add_ctx L N ip c w = Inr w' \<and> opens ssl c w w' \<and>
    net.more w' = net.more (w\<lparr>cd_ctx := Some c\<rparr>) \<and>
    (ne_mem N \<and> ne_ssl N \<noteq> None \<longrightarrow> (\<exists>y. ctxs w' c = Some y \<and> sc_data y \<noteq> None))"
proof (cases "ne_mem N \<and> ne_ssl N \<noteq> None")
  case True
  then obtain t where t: "ne_mem N" "ne_ssl N = Some t" by auto
  let ?v = "w\<lparr>cd_ctx := Some c\<rparr>"
  let ?w = "set_ssl (Suc (fresh w)) (t_host L ip t) (log_line ''on add context'' (attached N t c x ?v))"
  let ?d = "\<lparr>ssl = Some (Suc (fresh w)), status = 0, remote_addr = ne_addr N\<rparr>"
  have w: "datas ?w (fresh w) = Some ?d" "ssls ?w (Suc (fresh w)) = Some (t_host L ip t)"
      "ctxs ?w c = Some (x\<lparr>sc_data := Some (fresh w)\<rparr>)"
    by (simp_all add: attached_def log_line_def set_ssl_def)
  have more: "net.more ?w = net.more ?v" by (cases w) (simp add: attached_def log_line_def set_ssl_def)
  have sh: "shape ssl ?w = shape ssl (attached N t c x ?v)"
    by (auto simp: shape_def attached_def log_line_def set_ssl_def)
  obtain ok w' where w': "ssl_session_connect L (fresh w) ?w = Inr (ok, w')"
      "shape ssl w' = shape ssl ?w" "ctxs w' = ctxs ?w" "net.more w' = net.more ?w"
    using con.shake_shape [OF w(1) _ w(2), of L] by auto
  have c: "ctxs (log_line l w') c = Some (x\<lparr>sc_data := Some (fresh w)\<rparr>)" for l
    using w'(3) w(3) by (simp add: log_line_def)
  obtain w'' where w'': "ctx_close c (log_line (''failed ssl session connect: remote_addr='' @ ne_addr N) w') = Inr w''"
      "shape ssl w'' = shape ssl w'" "net.more w'' = net.more w'"
    using ctx_close_shape [OF c, where ssl_of = ssl] by fastforce
  have "muggle_socket_ctx_set_data c (Some (fresh w)) (snd (projr (ssl_session_new N ?v))) = Inr (attached N t c x ?v)"
    using attach_session(2) [OF t, of ?v c x] assms(2) by simp
  then have "ssl_client_on_add_ctx L N ip c w = (if ok then Inr w' else Inr w'')"
    using w'(1) w''(1) assms(2) attached_the [of ?v N t c x]
    by (simp add: ssl_client_on_add_ctx_def attach_session(1) [OF t, of ?v c x] Let_def)
  moreover have "opens ssl c w v" if "shape ssl v = shape ssl w'" for v
  proof -
    have "shape ssl v = shape ssl (attached N t c x w)" using that w'(2) sh by (auto simp: shape_def attached_def)
    then show ?thesis by (rule attached_opens [OF assms(2)])
  qed
  moreover have "\<exists>y. ctxs v c = Some y \<and> sc_data y \<noteq> None" if "shape ssl v = shape ssl w'" for v
  proof -
    have "fst (shape ssl v) c = Some ((x\<lparr>sc_data := Some (fresh w)\<rparr>)\<lparr>sc_closing := False\<rparr>)"
      using that w'(3) w(3) by (simp add: shape_def)
    then show ?thesis by (rule ctx_of_shape) simp
  qed
  ultimately show ?thesis using w'(4) w''(2,3) more by (cases ok) auto
next
  case False
  have "datas (w\<lparr>cd_ctx := Some c\<rparr>) (fresh (w\<lparr>cd_ctx := Some c\<rparr>)) = None" using net_fresh [OF assms(1)] by simp
  then obtain k ls where *: "ssl_session_new N (w\<lparr>cd_ctx := Some c\<rparr>) = Inr (None, w\<lparr>cd_ctx := Some c, fresh := k, logs := ls\<rparr>)"
      "fresh w \<le> k"
    using session_new_none [of "w\<lparr>cd_ctx := Some c\<rparr>" N] False by fastforce
  let ?w = "log_line ''failed new ssl session'' (w\<lparr>cd_ctx := Some c, fresh := k, logs := ls\<rparr>)"
  have "shape ssl ?w = shape ssl (w\<lparr>fresh := k, logs := ls\<rparr>)" by (simp add: shape_def log_line_def)
  then have "opens ssl c w ?w" using *(2) by (rule opens_later)
  then show ?thesis using * False
    by (intro exI [of _ ?w]) (auto simp: ssl_client_on_add_ctx_def log_line_def)
qed

text \<open>The handshake in the message and the timer callback of the client.\<close>

lemma connect_keeps:
  assumes "datas w p = Some d" "ssl d = Some s" "ssls w s = Some t" "ctxs w c = Some x" "tls_ok L pending written"
  shows "\<exists>ok w' d' t'. ssl_session_connect L p w = Inr (ok, w') \<and> shape ssl w' = shape ssl w \<and> ctxs w' c = Some x \<and>
    net.more w' = net.more w \<and> datas w' p = Some d' \<and> ssl d' = Some s \<and> ssls w' s = Some t' \<and> pending t' = pending t \<and>
    (\<forall>l. \<exists>w''. ctx_close c (log_line l w') = Inr w'' \<and> shape ssl w'' = shape ssl w \<and> net.more w'' = net.more w)"
proof -
  obtain ok d' t' w' where w': "ssl_session_connect L p w = Inr (ok, w')" "shape ssl w' = shape ssl w" "ctxs w' = ctxs w"
      "datas w' p = Some d'" "ssl d' = Some s" "ssls w' s = Some t'" "t' = t \<or> t' = snd (t_connect L t)"
      "net.more w' = net.more w"
    using con.shake_shape [OF assms(1-3), of L] by blast
  have "\<exists>w''. ctx_close c (log_line l w') = Inr w'' \<and> shape ssl w'' = shape ssl w \<and> net.more w'' = net.more w" for l
    using ctx_close_shape [of "log_line l w'" c x ssl] w'(2,3,8) assms(4) by (simp add: log_line_def) (simp add: shape_def)
  then show ?thesis using w' assms(4) shake_pending(1) [OF assms(5)] by (auto simp: log_line_def)
qed

lemma client_message:
  assumes "net_inv ssl w" "ctxs w c = Some x" "fuel_fits L pending written fuel c w"
  shows "\<exists>w'. ssl_client_on_message fuel L c w = Inr w' \<and> shape ssl w' = shape ssl w \<and> net.more w' = net.more w"
proof (cases "sc_data x")
  case None
  then show ?thesis using assms(2)
    by (simp add: ssl_client_on_message_def muggle_socket_ctx_get_data_def the_ctx_def)
next
  case (Some p)
  obtain d s t where d: "datas w p = Some d" "ssl d = Some s" "ssls w s = Some t"
    using owned_data [OF assms(1,2) Some] .
  have ok: "tls_ok L pending written" and fuel: "length (concat (pending t)) < fuel"
    using assms(2,3) Some d by (auto simp: fuel_fits_def)
  have loop: "\<exists>w''. recv_loop fuel L c p w' = Inr w'' \<and> shape ssl w'' = shape ssl w' \<and> net.more w'' = net.more w'"
    if *: "datas w' p = Some d'" "ssl d' = Some s" "ssls w' s = Some t'" "pending t' = pending t" "ctxs w' c = Some x" for w' d' t'
  proof -
    obtain failed u ls where "recv_loop fuel L c p w' = Inr (looped c s x failed u ls w')"
      using recv_loop_result [OF ok *(1-3,5), of fuel] *(4) fuel by auto
    then show ?thesis using looped_shape [OF *(5,3)] by (simp add: looped_def)
  qed
  have msg: "ssl_client_on_message fuel L c w =
      (if status d = 0 then
         rbind (ssl_session_connect L p w) (\<lambda>(ok, w).
           if \<not> ok then ctx_close c (log_line (''failed ssl session connect: remote_addr='' @ remote_addr d) w)
           else rbind (the_data p w) (\<lambda>d. if status d = 0 then Inr w else recv_loop fuel L c p w))
       else recv_loop fuel L c p w)"
    using assms(2) Some d by (simp add: ssl_client_on_message_def muggle_socket_ctx_get_data_def the_ctx_def the_data_def)
  show ?thesis
  proof (cases "status d = 0")
    case False
    then show ?thesis using loop [OF d refl assms(2)] msg by simp
  next
    case True
    obtain ok' w' d' t' where w': "ssl_session_connect L p w = Inr (ok', w')" "shape ssl w' = shape ssl w" "ctxs w' c = Some x"
        "net.more w' = net.more w" "datas w' p = Some d'" "ssl d' = Some s" "ssls w' s = Some t'" "pending t' = pending t"
        "\<forall>l. \<exists>w''. ctx_close c (log_line l w') = Inr w'' \<and> shape ssl w'' = shape ssl w \<and> net.more w'' = net.more w"
      using connect_keeps [OF d assms(2) ok] by blast
    show ?thesis using True msg w'(1,2,4,5,9) loop [OF w'(5-8,3)] by (cases ok') (auto simp: the_data_def)
  qed
qed

lemma client_close:
  assumes "net_inv ssl w" "ctxs w c = Some x"
  shows "\<exists>w'. ssl_client_on_close con_cfg thread c w = Inr w' \<and> shape ssl w' = shape ssl w \<and>
    cd_ctx w' = (if cd_ctx w = Some c then None else cd_ctx w) \<and>
    (if sc_data x = None then workers w' = workers w \<and> exiting w' = exiting w
     else exiting w' = (exiting w \<or> \<not> con_cfg) \<and>
       workers w' = workers w @ (if con_cfg \<and> thread then [(cd_host w, cd_port w)] else []))"
proof -
  let ?v = "if cd_ctx w = Some c then w\<lparr>cd_ctx := None\<rparr> else w"
  have "shape ssl (log_line l ?v) = shape ssl w" for l by (simp add: shape_def log_line_def)
  moreover have "shape ssl (v\<lparr>exiting := e\<rparr>) = shape ssl v" "shape ssl (v\<lparr>workers := ws\<rparr>) = shape ssl v" for v :: "'a cnet" and e ws
    by (simp_all add: shape_def)
  moreover have v: "ctxs ?v c = Some x" "\<And>p. datas ?v p = datas w p" using assms(2) by simp_all
  ultimately show ?thesis
  proof (cases "sc_data x")
    case None
    then show ?thesis using v(1)
      by (simp add: ssl_client_on_close_def muggle_socket_ctx_get_data_def the_ctx_def) (simp add: log_line_def shape_def)
  next
    case (Some p)
    then obtain d where "datas w p = Some d" using owned_data [OF assms] by blast
    then show ?thesis using v Some
      by (auto simp: ssl_client_on_close_def muggle_socket_ctx_get_data_def the_ctx_def the_data_def log_line_def shape_def Let_def)
  qed
qed

lemma client_release:
  assumes "net_inv ssl w" "ctxs w c = Some x"
  shows "\<exists>w'. ssl_client_on_release c w = Inr w' \<and> releases ssl c w w' \<and> net.more w' = net.more w"
proof (cases "sc_data x")
  case None
  then show ?thesis using assms(2) releases_none [OF assms(2) None, of ssl]
    by (simp add: ssl_client_on_release_def muggle_socket_ctx_get_data_def the_ctx_def)
next
  case (Some p)
  then show ?thesis using assms(2) delete_releases [OF assms Some]
    by (fastforce simp: ssl_client_on_release_def muggle_socket_ctx_get_data_def the_ctx_def the_data_def)
qed

lemma client_timer:
  assumes "net_inv ssl w" "\<And>c. cd_ctx w = Some c \<Longrightarrow> ctxs w c \<noteq> None" "tls_ok L pending written"
  shows "\<exists>w'. ssl_client_on_timer L now nsec w = Inr w' \<and> shape ssl w' = shape ssl w \<and> net.more w' = net.more w"
proof (cases "cd_ctx w")
  case None
  then show ?thesis by (simp add: ssl_client_on_timer_def)
next
  case (Some c)
  then obtain x where x: "ctxs w c = Some x" using assms(2) by auto
  show ?thesis
  proof (cases "sc_data x")
    case None
    then show ?thesis using Some x by (simp add: ssl_client_on_timer_def muggle_socket_ctx_get_data_def the_ctx_def)
  next
    case p: (Some p)
    obtain d s t where d: "datas w p = Some d" "ssl d = Some s" "ssls w s = Some t" using owned_data [OF assms(1) x p] .
    let ?shake = "if status d = 0 then ssl_session_connect L p w else Inr (True, w)"
    obtain ok w' d' t' where w': "?shake = Inr (ok, w')" "shape ssl w' = shape ssl w" "ctxs w' c = Some x"
        "net.more w' = net.more w" "datas w' p = Some d'" "ssl d' = Some s" "ssls w' s = Some t'"
        "\<not> ok \<longrightarrow> (\<forall>l. \<exists>w''. ctx_close c (log_line l w') = Inr w'' \<and> shape ssl w'' = shape ssl w \<and> net.more w'' = net.more w)"
      using connect_keeps [OF d x assms(3)] d x by (cases "status d = 0") fastforce+
    obtain k u where wr: "t_write L (map of_char (timestamp now nsec) @ [0]) t' = (k, u)" by force
    let ?w = "set_ssl s u w'"
    have sh: "shape ssl ?w = shape ssl w" "net.more ?w = net.more w" "ctxs ?w c = Some x"
      using shape_simps(2) [OF w'(7)] w'(2,3,4) by (simp_all add: set_ssl_def)
    have cl: "\<exists>w''. ctx_close c (log_line l ?w) = Inr w'' \<and> shape ssl w'' = shape ssl w \<and> net.more w'' = net.more w" for l
      using ctx_close_shape [of "log_line l ?w" c x ssl] sh by (auto simp: log_line_def [of l ?w] shape_def)
    show ?thesis
    proof (cases ok)
      case False
      then show ?thesis using Some x p d(1) w'(1,8)
        by (simp add: ssl_client_on_timer_def muggle_socket_ctx_get_data_def the_ctx_def the_data_def del: if_split)
    next
      case True
      have "ssl_client_on_timer L now nsec w =
          (if status d' = 0 then Inr w'
           else if k \<le> 0 then
             if t_error L u k \<noteq> SSL_ERROR_WANT_READ then ctx_close c (log_line (session_error L d' u (t_error L u k)) ?w) else Inr ?w
           else Inr (log_line (''send message: '' @ timestamp now nsec) ?w))"
        using Some x p d(1) w'(1,5,6,7) wr True
        by (simp add: ssl_client_on_timer_def muggle_socket_ctx_get_data_def the_ctx_def the_data_def the_ssl_def del: if_split)
      then show ?thesis using w'(2,4) sh(1,2) cl by simp
    qed
  qed
qed

record 't client_event =
  ce_new :: "'t new_env"
  ce_ip :: string
  ce_fuel :: nat
  ce_cfg :: bool
  ce_thread :: bool

definition client_lucky :: "'t client_event \<Rightarrow> bool" where
  "client_lucky e \<longleftrightarrow> ne_mem (ce_new e) \<and> ne_ssl (ce_new e) \<noteq> None \<and> ce_thread e"

interpretation cli: tls_program ssl "\<lambda>e. fuel_fits L pending written (ce_fuel e)"
    "\<lambda>e. ssl_client_on_add_ctx L (ce_new e) (ce_ip e)" "\<lambda>e. ssl_client_on_message (ce_fuel e) L"
    "\<lambda>e. ssl_client_on_close (ce_cfg e) (ce_thread e)" "\<lambda>e. ssl_client_on_release" for L pending written
  by unfold_locales (metis client_add client_message client_close client_release)+

lemma more_fields:
  "net.more w' = net.more w \<Longrightarrow> cd_ctx w' = cd_ctx w \<and> workers w' = workers w \<and> exiting w' = exiting w"
  for w w' :: "('d, 't) client_net"
  by (cases w; cases w') simp

interpretation rec: reconnecting_client ssl "\<lambda>e. fuel_fits L pending written (ce_fuel e)"
    "\<lambda>e. ssl_client_on_add_ctx L (ce_new e) (ce_ip e)" "\<lambda>e. ssl_client_on_message (ce_fuel e) L"
    "\<lambda>e. ssl_client_on_close (ce_cfg e) (ce_thread e)" "\<lambda>e. ssl_client_on_release"
    "\<lambda>_. True" conn_thread_step "\<lambda>_. tls_ok L pending written" "\<lambda>(now, nsec). ssl_client_on_timer L now nsec"
    client_lucky False for L pending written
proof (unfold_locales, goal_cases)
  case (1 a i w)
  then show ?case by (simp add: conn_thread_step_def)
next
  case (2 w c x e w')
  then show ?case using client_add [OF 2(1-3), of L "ce_new e" "ce_ip e"] more_fields [of w' "w\<lparr>cd_ctx := Some c\<rparr>"]
    by (auto simp: client_lucky_def)
next
  case (3 w c x e w')
  then show ?case using client_message [OF 3(1-3)] by auto
next
  case (4 w c x e w')
  then show ?case using client_close [OF 4(1,2), of "ce_cfg e" "ce_thread e"] by (auto simp: client_lucky_def)
next
  case (5 w c x e w')
  then show ?case using client_release [OF 5(1,2)] by auto
next
  case (6 w k)
  then show ?case using client_timer [OF 6(1) _ 6(3)] by (cases k) auto
qed

section \<open>A library for examples\<close>

text \<open>
  A TLS connection as the records to read, those written, and the rounds the handshake still takes. It shows
  that the laws of \<open>tls_ok\<close> can hold.
\<close>

type_synonym sample_state = "bytes list \<times> bytes list \<times> nat"

definition sample_shake :: "sample_state \<Rightarrow> int \<times> sample_state" where
  "sample_shake t = (case t of (inq, outq, Suc k) \<Rightarrow> (-1, inq, outq, k) | (inq, outq, 0) \<Rightarrow> (1, inq, outq, 0))"

abbreviation sample_pending :: "sample_state \<Rightarrow> bytes list" where "sample_pending t \<equiv> filter (\<lambda>m. m \<noteq> []) (fst t)"
abbreviation sample_written :: "sample_state \<Rightarrow> bytes list" where "sample_written t \<equiv> fst (snd t)"

definition sample_read :: "nat \<Rightarrow> sample_state \<Rightarrow> int \<times> bytes \<times> sample_state" where
  "sample_read n t =
     (case sample_pending t of
        m # ms \<Rightarrow>
          if n = 0 then (-1, [], t)
          else (int (length (take n m)), take n m, (if length m \<le> n then ms else drop n m # ms), snd t)
      | [] \<Rightarrow> (-1, [], t))"

definition sample_write :: "bytes \<Rightarrow> sample_state \<Rightarrow> int \<times> sample_state" where
  "sample_write bs t = (case t of (inq, outq, k) \<Rightarrow> if bs = [] then (0, t) else (int (length bs), inq, outq @ [bs], k))"

definition sample_tls :: "sample_state tls" where
  "sample_tls = \<lparr>t_accept = sample_shake, t_connect = sample_shake, t_read = sample_read, t_write = sample_write,
     t_error = (\<lambda>t r. if sample_pending t = [] then SSL_ERROR_WANT_READ else 1), t_reason = (\<lambda>_. ''error''), t_host = (\<lambda>_ t. t),
     t_wouldblock = (\<lambda>t. sample_pending t = [])\<rparr>"

lemma sample_ok: "tls_ok sample_tls sample_pending sample_written"
proof -
  have "read_ok sample_tls sample_pending sample_written"
    unfolding read_ok_def
  proof (intro allI)
    fix n t
    show "let (r, bs, t') = t_read sample_tls n t in
        sample_written t' = sample_written t \<and> length bs \<le> n \<and>
        (if r > 0 then r = int (length bs) \<and>
           (\<exists>m ms. sample_pending t = m # ms \<and> bs = take n m \<and>
              sample_pending t' = (if length m \<le> n then ms else drop n m # ms))
         else bs = [] \<and> sample_pending t' = sample_pending t)"
    proof (cases "sample_pending t")
      case (Cons m ms)
      then have "m \<noteq> []" "filter (\<lambda>m. m \<noteq> []) ms = ms" by (auto simp: filter_eq_Cons_iff)
      then show ?thesis using Cons by (auto simp: sample_tls_def sample_read_def)
    qed (simp add: sample_tls_def sample_read_def)
  qed
  moreover have "write_ok sample_tls sample_pending sample_written"
    by (auto simp: write_ok_def sample_tls_def sample_write_def Let_def split: prod.splits)
  moreover have "shake_ok sample_tls sample_pending sample_written"
    by (auto simp: shake_ok_def sample_tls_def sample_shake_def split: prod.splits nat.splits)
  ultimately show ?thesis by (simp add: tls_ok_def)
qed

lemma sample_reads:
  "reads_all sample_tls sample_pending"
proof -
  have read: "sample_pending (snd (snd (t_read sample_tls n t))) = []" if "n > 0" "fst (t_read sample_tls n t) \<le> 0" for n t
  proof (cases "sample_pending t")
    case (Cons m ms)
    then have "m \<noteq> []" by (auto simp: filter_eq_Cons_iff)
    then show ?thesis using Cons that by (auto simp: sample_tls_def sample_read_def)
  qed (simp add: sample_tls_def sample_read_def)
  show "reads_all sample_tls sample_pending" unfolding reads_all_def Let_def case_prod_beta using read by blast
qed

section \<open>Safety\<close>

text \<open>
  The server begins with the listening context, the client with the context of its first connection; the
  buffer for the host has \<open>addr_len\<close> bytes, a constant of the library.
\<close>

definition server_start :: "ptr \<Rightarrow> (ssl_session_t, 't) net" where
  "server_start c =
     \<lparr>ctxs = [c \<mapsto> new_ctx\<lparr>sc_type := MUGGLE_SOCKET_CTX_TYPE_TCP_LISTEN, sc_open := True\<rparr>],
      datas = Map.empty, ssls = Map.empty, fresh = Suc c, logs = []\<rparr>"

definition server_step ::
  "'t tls \<Rightarrow> ('t \<Rightarrow> bytes list) \<Rightarrow> ('t \<Rightarrow> bytes list) \<Rightarrow> (ssl_session_t, 't) net \<Rightarrow> (ssl_session_t, 't) net result \<Rightarrow> bool" where
  "server_step L pending written =
     net_step (\<lambda>e. fuel_fits L pending written (snd e)) (\<lambda>e. ssl_serv_on_connect L (fst (e :: 't new_env \<times> nat)))
       (\<lambda>e. ssl_serv_on_message (snd e) L) (\<lambda>e. ssl_serv_on_close) (\<lambda>e. ssl_serv_on_release)"

definition client_start :: "nat \<Rightarrow> string \<Rightarrow> string \<Rightarrow> ptr \<Rightarrow> 't cnet" where
  "client_start addr_len host port c =
     \<lparr>ctxs = [c \<mapsto> new_ctx], datas = Map.empty, ssls = Map.empty, fresh = Suc c, logs = [],
      cd_ctx = None, cd_host = strncpy_buf addr_len host, cd_port = strncpy_buf 16 port, workers = [], exiting = False\<rparr>"

lemma server_start_ok: "loop_inv ssl_of (server_start c)"
  by (rule start_ok [where c = c]) (auto simp: server_start_def ctx_ok_def new_ctx_def)

definition client_step ::
  "'t tls \<Rightarrow> ('t \<Rightarrow> bytes list) \<Rightarrow> ('t \<Rightarrow> bytes list) \<Rightarrow> ('t client_event \<Rightarrow> bool) \<Rightarrow> 't cnet \<Rightarrow> 't cnet result \<Rightarrow> bool" where
  "client_step L pending written =
     reconnect_step (\<lambda>e. fuel_fits L pending written (ce_fuel e)) (\<lambda>e. ssl_client_on_add_ctx L (ce_new e) (ce_ip e))
       (\<lambda>e. ssl_client_on_message (ce_fuel e) L) (\<lambda>e. ssl_client_on_close (ce_cfg e) (ce_thread e)) (\<lambda>e. ssl_client_on_release)
       (\<lambda>_. True) conn_thread_step (\<lambda>_. tls_ok L pending written) (\<lambda>(now, nsec). ssl_client_on_timer L now nsec)"

lemma client_start_ok: "client_inv ssl False steady (client_start addr_len host port c :: 't cnet)"
proof -
  let ?w = "client_start addr_len host port c :: 't cnet"
  have "loop_inv ssl ?w"
    by (rule start_ok [where c = c and x = new_ctx]) (auto simp: client_start_def ctx_ok_def new_ctx_def)
  moreover have "alive ?w = {c}" by (auto simp: alive_def client_start_def new_ctx_def split: if_splits)
  moreover have "unserved ?w = {}" by (auto simp: unserved_def client_start_def new_ctx_def split: if_splits)
  moreover have "cd_ctx ?w = None" "workers ?w = []" by (simp_all add: client_start_def)
  ultimately show ?thesis by (simp add: client_inv_def)
qed

text \<open>
  C10. However connections to the server come, send, fail and go, and whichever allocations fail, no callback
  uses a session or TLS object that was freed or frees one twice; every session belongs to one
  context and every TLS object to one session, and when no context has a session any more nothing is left.
\<close>

theorem server_sessions_safe:
  assumes "net_reach (server_step L pending written) (server_start c) r"
  shows "\<exists>w. r = Inr w \<and> net_inv ssl w \<and>
    ((\<forall>c x. ctxs w c = Some x \<longrightarrow> sc_data x = None) \<longrightarrow> datas w = Map.empty \<and> ssls w = Map.empty)"
proof -
  obtain w where w: "r = Inr w" "loop_inv ssl w"
    using srv.reach_safe [OF assms [unfolded server_step_def] server_start_ok] by blast
  then show ?thesis using srv.loop_net [OF w(2)] loop_inv_empty [OF w(2)] by blast
qed

definition sample_new :: "sample_state new_env" where
  "sample_new = \<lparr>ne_mem = True, ne_ssl = Some ([[1, 2]], [], 1), ne_addr = ''10.0.0.1:4000''\<rparr>"

theorem server_sessions_safe_witness:
  "\<exists>w. ssl_serv_on_connect sample_tls sample_new 8
      ((arrive (server_start 7))\<lparr>ctxs := (ctxs (arrive (server_start 7)))(8 \<mapsto> new_ctx\<lparr>sc_open := True\<rparr>)\<rparr>) = Inr w \<and>
    net_inv ssl w"
proof -
  let ?step = "server_step sample_tls sample_pending sample_written"
  have "net_reach ?step (server_start 7) (Inr (arrive (server_start 7)))"
    by (rule reach_step [OF reach_start]) (simp add: server_step_def step_arrive)
  moreover have "?step (arrive (server_start 7)) (ssl_serv_on_connect sample_tls sample_new 8
      ((arrive (server_start 7))\<lparr>ctxs := (ctxs (arrive (server_start 7)))(8 \<mapsto> new_ctx\<lparr>sc_open := True\<rparr>)\<rparr>))"
    using step_open [of "arrive (server_start 7)" 8 new_ctx _ "\<lambda>e. ssl_serv_on_connect sample_tls (fst (e :: sample_state new_env \<times> nat))"
        _ _ _ "(sample_new, 0)"]
    by (auto simp: server_step_def arrive_def server_start_def new_ctx_def)
  ultimately show ?thesis using server_sessions_safe [OF reach_step] by blast
qed

text \<open>
  C19. While sessions can be allocated and threads started, the client always has exactly one connection
  or thread that tries to get one, until it is told to end; the context that its timer writes to is open. No
  event makes it fault, also when allocations fail.
\<close>

theorem client_reconnects:
  assumes "net_reach (client_step L pending written good) (client_start addr_len host port c) r"
  shows "\<exists>w. r = Inr w \<and> net_inv ssl w \<and> (\<forall>c. cd_ctx w = Some c \<longrightarrow> c \<in> opened w) \<and>
    ((\<forall>e. good e \<longrightarrow> client_lucky e) \<longrightarrow> exiting w \<or> length (workers w) + card (alive w) = 1)"
  using rec.client_reach [OF assms [unfolded client_step_def] client_start_ok [of "\<forall>e. good e \<longrightarrow> client_lucky e"]] cli.loop_net
  by (auto simp: client_inv_def)

definition sample_event :: "sample_state client_event" where
  "sample_event = \<lparr>ce_new = sample_new, ce_ip = ''10.0.0.2'', ce_fuel = 9, ce_cfg = True, ce_thread = True\<rparr>"

theorem client_reconnects_witness:
  "\<exists>w. ssl_client_on_add_ctx sample_tls sample_new ''10.0.0.2'' 3
      ((client_start 64 ''a.example'' ''10102'' 3)\<lparr>ctxs := [3 \<mapsto> new_ctx\<lparr>sc_open := True\<rparr>]\<rparr>) = Inr w \<and>
    (exiting w \<or> length (workers w) + card (alive w) = 1)"
proof -
  let ?w = "client_start 64 ''a.example'' ''10102'' 3 :: sample_state cnet"
  let ?step = "client_step sample_tls sample_pending sample_written client_lucky"
  let ?r = "ssl_client_on_add_ctx sample_tls sample_new ''10.0.0.2'' 3 (?w\<lparr>ctxs := (ctxs ?w)(3 \<mapsto> new_ctx\<lparr>sc_open := True\<rparr>)\<rparr>)"
  have "?step ?w (ssl_client_on_add_ctx sample_tls (ce_new sample_event) (ce_ip sample_event) 3
      (?w\<lparr>ctxs := (ctxs ?w)(3 \<mapsto> new_ctx\<lparr>sc_open := True\<rparr>)\<rparr>))"
    unfolding client_step_def
    by (rule client_add_ctx) (simp_all add: client_start_def new_ctx_def client_lucky_def sample_event_def sample_new_def)
  then have "?step ?w ?r" by (simp add: sample_event_def)
  then have "net_reach ?step ?w ?r" by (rule reach_step [OF reach_start])
  from client_reconnects [OF this] show ?thesis by (auto simp: client_start_def)
qed

end
