(* ===== verification/SslConversation.thy ===== *)
theory SslConversation
  imports SslEcho SslSessions "HOL-Library.Sublist"
begin

text \<open>
  What client and server of src/use/c/use_openssl/example/ssl01_echo do together: the server sends back what
  it reads, so that the client logs the times it has sent.
\<close>

section \<open>The server echoes\<close>

text \<open>An open connection of a context: its session has finished the handshake.\<close>

definition established :: "ptr \<Rightarrow> ptr \<Rightarrow> 't \<Rightarrow> (ssl_session_t, 't, 'z) net_scheme \<Rightarrow> bool" where
  "established c s t w \<longleftrightarrow>
     (\<exists>x p d. ctxs w c = Some x \<and> sc_data x = Some p \<and> datas w p = Some d \<and> status d = 1 \<and> ssl d = Some s \<and> ssls w s = Some t)"

definition closing :: "ptr \<Rightarrow> ('d, 't, 'z) net_scheme \<Rightarrow> bool" where
  "closing c w \<longleftrightarrow> (\<exists>x. ctxs w c = Some x \<and> sc_closing x)"

lemma looped_views:
  assumes "ctxs w c = Some x"
  shows "ssls (looped c s x failed t ls w) s = Some t" "closing c (looped c s x failed t ls w) = (sc_closing x \<or> failed)"
    "logs (looped c s x failed t ls w) = ls"
  by (auto simp: looped_def closing_def)

text \<open>
  With the records that a client has sent still to be read, the message callback of the server sends
  them back in order and leaves none; if reading or writing fails it closes the context, at most
  one piece of what it has read is lost, and what it has sent back is a prefix of what was received.
\<close>

theorem server_echoes:
  assumes "tls_ok L pending written" "reads_all L pending" "established c s t w" "length (concat (pending t)) < fuel"
  shows "\<exists>w' t' rs lost. ssl_serv_on_message fuel L c w = Inr w' \<and> ssls w' s = Some t' \<and> written t' = written t @ rs \<and>
    concat (pending t) = concat rs @ concat lost @ concat (pending t') \<and> length lost \<le> 1 \<and>
    (\<not> closing c w' \<longrightarrow> lost = [] \<and> pending t' = [])"
proof -
  obtain x p d where *: "ctxs w c = Some x" "sc_data x = Some p" "datas w p = Some d" "status d = 1" "ssl d = Some s" "ssls w s = Some t"
    using assms(3) by (auto simp: established_def)
  obtain failed t' ls rs lost where r: "echo_loop fuel L c p w = Inr (looped c s x failed t' ls w)"
      "written t' = written t @ rs" "pieces failed pending t t' rs lost"
      "\<not> failed \<longrightarrow> ls = logs w @ map recv_line rs \<and> (reads_all L pending \<longrightarrow> pending t' = [])"
    using echo_loop_result [OF assms(1) *(3,5,6,1) assms(4)] by blast
  have "ssl_serv_on_message fuel L c w = Inr (looped c s x failed t' ls w)"
    using r(1) * by (simp add: ssl_serv_on_message_def muggle_socket_ctx_get_data_def the_ctx_def the_data_def)
  then show ?thesis using r(2-4) assms(2) looped_views [OF *(1), of s failed t' ls]
    by (intro exI [of _ "looped c s x failed t' ls w"] exI [of _ t'] exI [of _ rs] exI [of _ lost])
      (auto simp: pieces_def split: if_splits)
qed

definition sample_server :: "(ssl_session_t, sample_state) net" where
  "sample_server =
     \<lparr>ctxs = [1 \<mapsto> new_ctx\<lparr>sc_data := Some 2, sc_open := True\<rparr>], datas = [2 \<mapsto> \<lparr>ssl = Some 3, status = 1, remote_addr = ''10.0.0.1:4000''\<rparr>],
      ssls = [3 \<mapsto> ([[65, 0], [66, 67, 0]], [], 0)], fresh = 4, logs = []\<rparr>"

theorem server_echoes_witness:
  "\<exists>w' t' rs lost. ssl_serv_on_message 9 sample_tls 1 sample_server = Inr w' \<and> ssls w' 3 = Some t' \<and>
    sample_written t' = rs \<and> [65, 0, 66, 67, 0] = concat rs @ concat lost @ concat (sample_pending t') \<and>
    (\<not> closing 1 w' \<longrightarrow> lost = [] \<and> sample_pending t' = [])"
proof -
  have "established 1 3 ([[65, 0], [66, 67, 0]], [], 0) sample_server" by (auto simp: established_def sample_server_def)
  from server_echoes [OF sample_ok sample_reads this, of 9] show ?thesis by auto
qed

section \<open>The client hears its times\<close>





















section \<open>Where the client gives up\<close>

text \<open>
  When the session for a new connection cannot be allocated the connection stays without one, and when it is
  closed the client does not start a thread: it has no connection, tries to get none, and does not end.
\<close>

definition no_memory :: "'t client_event" where
  "no_memory = \<lparr>ce_new = \<lparr>ne_mem = False, ne_ssl = None, ne_addr = []\<rparr>, ce_ip = [], ce_fuel = 0, ce_cfg = True, ce_thread = True\<rparr>"

theorem client_stranded:
  "\<exists>w. net_reach (client_step L pending written (\<lambda>_. True)) (client_start addr_len host port c) (Inr w) \<and>
    workers w = [] \<and> alive w = {} \<and> \<not> exiting w"
proof -
  let ?s = "client_start addr_len host port c :: 'a cnet" and ?x = "new_ctx\<lparr>sc_open := True\<rparr>"
  let ?step = "client_step L pending written (\<lambda>_. True)"
  let ?l = "[''failed allocate memory space for ssl session'', ''failed new ssl session'']"
  let ?a = "?s\<lparr>ctxs := [c \<mapsto> ?x], cd_ctx := Some c, logs := ?l\<rparr>"
  let ?b = "?s\<lparr>ctxs := [c \<mapsto> ?x\<lparr>sc_closed := True\<rparr>], logs := ?l @ [''failed get ssl session'']\<rparr>"
  have "?step ?s (ssl_client_on_add_ctx L (ce_new no_memory) (ce_ip (no_memory :: 'a client_event)) c (?s\<lparr>ctxs := (ctxs ?s)(c \<mapsto> ?x)\<rparr>))"
    unfolding client_step_def by (rule client_add_ctx) (simp_all add: client_start_def new_ctx_def)
  then have a: "?step ?s (Inr ?a)"
    by (simp add: ssl_client_on_add_ctx_def ssl_session_new_def no_memory_def client_start_def log_line_def)
  have "?step ?a (rbind (ssl_client_on_close (ce_cfg (no_memory :: 'a client_event)) (ce_thread (no_memory :: 'a client_event)) c ?a)
      (upd_ctx c (\<lambda>x. x\<lparr>sc_closed := True\<rparr>)))"
    unfolding client_step_def by (rule client_closed [where x = ?x]) (simp_all add: client_start_def new_ctx_def)
  then have b: "?step ?a (Inr ?b)"
    by (simp add: ssl_client_on_close_def client_start_def new_ctx_def net_defs no_memory_def)
  have "net_reach ?step ?s (Inr ?s)" by (rule reach_start)
  then have "net_reach ?step ?s (Inr ?a)" using a by (rule reach_step)
  then have "net_reach ?step ?s (Inr ?b)" using b by (rule reach_step)
  moreover have "workers ?b = []" "alive ?b = {}" "\<not> exiting ?b" by (auto simp: client_start_def alive_def split: if_splits)
  ultimately show ?thesis by blast
qed

end
