(* ===== verification/WolfEcho.thy ===== *)
theory WolfEcho
  imports SslEcho SslSessions
begin

text \<open>
  The wolfSSL programs: the echo server src/use/c/use_wolfssl/example/example_ssl01_echo_serv/echo_serv.c and the
  client example_ssl02_timer_client/timer_client.c, on the contexts and the library of \<open>Tls\<close>.

  They differ from the OpenSSL program in what they do with the results of the library: the server
  sends back the string in its buffer, which it does not clear between reads, and takes every result but -1
  of a read for success. \<open>debug\<close> says whether \<open>MUGGLE_ASSERT_MSG\<close> stops the program.
\<close>

section \<open>Data of a context\<close>

record socket_ctx_data_t =
  wd_ssl :: "ptr option"
  ssl_established :: bool

record serv_ctx_data_t = socket_ctx_data_t +
  wd_addr :: string

definition SSL_SUCCESS :: int where "SSL_SUCCESS = 1"
definition WOLFSSL_ERROR_WANT_READ :: int where "WOLFSSL_ERROR_WANT_READ = 2"
definition WOLFSSL_ERROR_WANT_WRITE :: int where "WOLFSSL_ERROR_WANT_WRITE = 3"

text \<open>The outcome of the calls of a new connection: memory, the TLS object, attaching the socket, and the address.\<close>

record 't wolf_new =
  wn_mem :: bool
  wn_ssl :: "'t option"
  wn_fd :: bool
  wn_addr :: string

section \<open>Setting up\<close>

record wolf_outcomes =
  wo_evloop :: bool
  wo_ctx_init :: bool
  wo_ctx_mem :: bool
  wo_ssl_ctx :: bool
  wo_cert :: bool
  wo_key :: bool

definition gen_serv_ssl_ctx :: "wolf_outcomes \<Rightarrow> ledger \<Rightarrow> (bool \<times> ledger) result" where
  "gen_serv_ssl_ctx out led =
     (if \<not> wo_ssl_ctx out then Inr (False, led)
      else
        let led = Ssl_ctx # led in
        if \<not> wo_cert out then rbind (give_back Ssl_ctx led) (\<lambda>led. Inr (False, led))
        else if \<not> wo_key out then rbind (give_back Ssl_ctx led) (\<lambda>led. Inr (False, led))
        else Inr (True, led))"

definition gen_client_ssl_ctx :: "wolf_outcomes \<Rightarrow> ledger \<Rightarrow> (bool \<times> ledger) result" where
  "gen_client_ssl_ctx out led =
     (if \<not> wo_ssl_ctx out then Inr (False, led)
      else
        let led = Ssl_ctx # led in
        if \<not> wo_cert out then rbind (give_back Ssl_ctx led) (\<lambda>led. Inr (False, led)) else Inr (True, led))"

text \<open>
  \<open>tcp_listen\<close> of the server: the list holds the outcomes of the attempts to listen. The result of \<open>malloc\<close> is not
  tested; \<open>None\<close> is the null pointer that a failed initialisation returns.
\<close>

fun wolf_tcp_listen :: "wolf_outcomes \<Rightarrow> bool list \<Rightarrow> ledger \<Rightarrow> (unit option \<times> ledger) result" where
  "wolf_tcp_listen out [] led = Inl Diverges"
| "wolf_tcp_listen out (listening # attempts) led =
     (if \<not> listening then wolf_tcp_listen out attempts led
      else if \<not> wo_ctx_mem out then Inl NullDeref
      else
        let led = Ctx_mem # Socket_fd # led in
        if \<not> wo_ctx_init out then rbind (give_back Socket_fd led) (\<lambda>led. Inr (None, led))
        else Inr (Some (), led))"

text \<open>The exit status and what is held when the program ends; \<open>exit\<close> ends it at once.\<close>

definition wolf_serv_main ::
  "wolf_outcomes \<Rightarrow> bool list \<Rightarrow> ('w \<Rightarrow> 'w result) \<Rightarrow> nat \<Rightarrow> 'w \<Rightarrow> ledger \<Rightarrow> (nat \<times> 'w \<times> ledger) result" where
  "wolf_serv_main out attempts loop argc w led =
     (if argc < 3 then Inr (1, w, led)
      else if \<not> wo_evloop out then Inr (1, w, led)
      else
        rbind (wolf_tcp_listen out attempts (Handle_init # Evloop # led)) (\<lambda>(ctx, led).
        if ctx = None then Inl NullDeref
        else
          rbind (hand_over led) (\<lambda>led.
          rbind (gen_serv_ssl_ctx out led) (\<lambda>(ssl_ctx, led).
          if \<not> ssl_ctx then Inr (1, w, led)
          else
            rbind (loop w) (\<lambda>w.
            rbind (give_back Ssl_ctx led) (\<lambda>led.
            rbind (give_back Handle_init led) (\<lambda>led.
            rbind (give_back Evloop led) (\<lambda>led. Inr (0, w, led)))))))))"

section \<open>Handshakes\<close>

text \<open>-1 is failure, 0 success, 1 an unfinished handshake.\<close>

definition ssl_accept :: "'t tls \<Rightarrow> ptr \<times> 't \<Rightarrow> ('d, 't, 'z) net_scheme \<Rightarrow> int \<times> ('d, 't, 'z) net_scheme" where
  "ssl_accept L obj w =
     (let (ret, t) = t_accept L (snd obj); w = set_ssl (fst obj) t w; err = t_error L t ret in
      if err = WOLFSSL_ERROR_WANT_READ \<or> err = WOLFSSL_ERROR_WANT_WRITE then (1, w)
      else if ret = SSL_SUCCESS then (0, w)
      else (-1, log_line (''failed ssl accept, err='' @ deci err) w))"

definition ssl_connect :: "'t tls \<Rightarrow> ptr \<times> 't \<Rightarrow> ('d, 't, 'z) net_scheme \<Rightarrow> int \<times> ('d, 't, 'z) net_scheme" where
  "ssl_connect L obj w =
     (let (ret, t) = t_connect L (snd obj); w = set_ssl (fst obj) t w; err = t_error L t ret in
      if err = WOLFSSL_ERROR_WANT_READ \<or> err = WOLFSSL_ERROR_WANT_WRITE then (1, w)
      else if ret = SSL_SUCCESS then (0, w)
      else (-1, log_line (''failed ssl connect, err='' @ deci err) w))"

definition do_ssl_accept ::
  "'t tls \<Rightarrow> ptr \<Rightarrow> ptr \<Rightarrow> (serv_ctx_data_t, 't, 'z) net_scheme \<Rightarrow> (serv_ctx_data_t, 't, 'z) net_scheme result" where
  "do_ssl_accept L c ctx_data w =
     rbind (the_data ctx_data w) (\<lambda>d.
     let w = log_line (''do ssl accept: '' @ wd_addr d) w in
     rbind (the_ssl (wd_ssl d) w) (\<lambda>obj.
     let (ret, w) = ssl_accept L obj w in
     if ret = 0 then upd_data ctx_data (\<lambda>d. d\<lparr>ssl_established := True\<rparr>) (log_line ''ssl accept done'' w)
     else if ret = -1 then ctx_close c (log_line (''failed ssl accept: '' @ wd_addr d) w)
     else Inr (log_line ''ssl accept established not finish yet'' w)))"

definition do_ssl_connect ::
  "'t tls \<Rightarrow> ptr \<Rightarrow> ptr \<Rightarrow> (socket_ctx_data_t, 't, 'z) net_scheme \<Rightarrow> (socket_ctx_data_t, 't, 'z) net_scheme result" where
  "do_ssl_connect L c ctx_data w =
     rbind (the_data ctx_data w) (\<lambda>d.
     let w = log_line ''do ssl connect'' w in
     rbind (the_ssl (wd_ssl d) w) (\<lambda>obj.
     let (ret, w) = ssl_connect L obj w in
     if ret = 0 then upd_data ctx_data (\<lambda>d. d\<lparr>ssl_established := True\<rparr>) (log_line ''ssl connect done'' w)
     else if ret = -1 then ctx_close c (log_line ''failed connect ssl server side'' w)
     else Inr w))"

section \<open>The callbacks of the server\<close>

definition wolf_on_connect ::
  "'t wolf_new \<Rightarrow> ptr \<Rightarrow> (serv_ctx_data_t, 't, 'z) net_scheme \<Rightarrow> (serv_ctx_data_t, 't, 'z) net_scheme result" where
  "wolf_on_connect N c w =
     (if \<not> wn_mem N then Inl NullDeref
      else
        let (ctx_data, w) = new_data \<lparr>wd_ssl = None, ssl_established = False, wd_addr = wn_addr N\<rparr> w;
            w = log_line (''on connect: '' @ wn_addr N) w in
        case wn_ssl N of
          None \<Rightarrow>
            rbind (ctx_close c (log_line (''failed new connect ssl: '' @ wn_addr N) w)) (free_data ctx_data)
        | Some t \<Rightarrow>
            let (s, w) = new_ssl t w in
            rbind (upd_data ctx_data (\<lambda>d. d\<lparr>wd_ssl := Some s\<rparr>) w) (\<lambda>w.
            if \<not> wn_fd N then
              rbind (ctx_close c (log_line (''failed set ssl fd: '' @ wn_addr N) w)) (free_data ctx_data)
            else
              rbind (upd_data ctx_data (\<lambda>d. d\<lparr>ssl_established := False\<rparr>) w)
                (muggle_socket_ctx_set_data c (Some ctx_data))))"

text \<open>The loop of \<open>on_message\<close>; \<open>buf\<close> has 512 bytes, the last of which is never written.\<close>

definition buf_string :: "bytes \<Rightarrow> bytes" where
  "buf_string buf = takeWhile (\<lambda>b. b \<noteq> 0) buf"

fun wolf_echo_loop ::
  "nat \<Rightarrow> 't tls \<Rightarrow> ptr \<Rightarrow> ptr \<Rightarrow> bytes \<Rightarrow> ('d, 't, 'z) net_scheme \<Rightarrow> ('d, 't, 'z) net_scheme result" where
  "wolf_echo_loop 0 L c s buf w = Inl Diverges"
| "wolf_echo_loop (Suc fuel) L c s buf w =
     rbind (the_ssl (Some s) w) (\<lambda>(s, t).
     let (r, bs, t) = t_read L 511 t; w = set_ssl s t w in
     if r = -1 then
       (if \<not> t_wouldblock L t then ctx_close c (log_line ''failed wolfssl read'' w) else Inr w)
     else
       let buf = bs @ drop (length bs) buf;
           w = log_line (''on message: '' @ chars_of (buf_string buf)) w;
           (k, t) = t_write L (buf_string buf) t; w = set_ssl s t w in
       if k \<noteq> int (length (buf_string buf)) then ctx_close c (log_line ''failed wolfssl write'' w)
       else wolf_echo_loop fuel L c s buf w)"

definition wolf_assert :: "bool \<Rightarrow> 'w \<Rightarrow> 'w result" where
  "wolf_assert debug w = (if debug then Inl AssertFailed else Inr w)"

definition wolf_on_message ::
  "bool \<Rightarrow> nat \<Rightarrow> 't tls \<Rightarrow> ptr \<Rightarrow> (serv_ctx_data_t, 't, 'z) net_scheme \<Rightarrow> (serv_ctx_data_t, 't, 'z) net_scheme result" where
  "wolf_on_message debug fuel L c w =
     rbind (muggle_socket_ctx_get_data c w) (\<lambda>ctx_data.
     case ctx_data of
       None \<Rightarrow> wolf_assert debug w
     | Some ctx_data \<Rightarrow>
         rbind (the_data ctx_data w) (\<lambda>d.
         rbind (if \<not> ssl_established d then do_ssl_accept L c ctx_data w else Inr w) (\<lambda>w.
         rbind (the_data ctx_data w) (\<lambda>d.
         if \<not> ssl_established d then Inr w
         else
           rbind (the_ssl (wd_ssl d) w) (\<lambda>(s, t). wolf_echo_loop fuel L c s (replicate 512 0) w)))))"

definition wolf_on_close ::
  "bool \<Rightarrow> ptr \<Rightarrow> (serv_ctx_data_t, 't, 'z) net_scheme \<Rightarrow> (serv_ctx_data_t, 't, 'z) net_scheme result" where
  "wolf_on_close debug c w =
     rbind (muggle_socket_ctx_get_data c w) (\<lambda>ctx_data.
     case ctx_data of
       None \<Rightarrow> wolf_assert debug w
     | Some ctx_data \<Rightarrow> rbind (the_data ctx_data w) (\<lambda>d. Inr (log_line (''on close: '' @ wd_addr d) w)))"

text \<open>The end of \<open>on_release\<close> in both programs.\<close>

definition free_ctx_data :: "('d \<Rightarrow> ptr option) \<Rightarrow> ptr \<Rightarrow> ptr \<Rightarrow> ('d, 't, 'z) net_scheme \<Rightarrow> ('d, 't, 'z) net_scheme result" where
  "free_ctx_data ssl_of c ctx_data w =
     rbind (the_data ctx_data w) (\<lambda>d.
     rbind (case ssl_of d of None \<Rightarrow> Inr w | Some s \<Rightarrow> free_ssl s w) (\<lambda>w.
     rbind (free_data ctx_data w) (muggle_socket_ctx_set_data c None)))"

definition wolf_on_release ::
  "ptr \<Rightarrow> (serv_ctx_data_t, 't, 'z) net_scheme \<Rightarrow> (serv_ctx_data_t, 't, 'z) net_scheme result" where
  "wolf_on_release c w =
     rbind (muggle_socket_ctx_get_data c w) (\<lambda>ctx_data.
     case ctx_data of
       None \<Rightarrow> Inr w
     | Some ctx_data \<Rightarrow>
         rbind (the_data ctx_data w) (\<lambda>d. free_ctx_data wd_ssl c ctx_data (log_line (''on release: '' @ wd_addr d) w)))"

section \<open>The callbacks of the client\<close>

type_synonym 't wnet = "(socket_ctx_data_t, 't) client_net"

text \<open>
  \<open>conn_thread_routine\<close>: one attempt, with the outcome of connecting and that of the allocation, whose result is not tested.
  \<open>run_conn_thread\<close> starts such a thread.
\<close>

definition wolf_conn_thread_step :: "bool \<times> bool \<Rightarrow> nat \<Rightarrow> 't wnet \<Rightarrow> 't wnet result" where
  "wolf_conn_thread_step attempt i w =
     (case attempt of (fd, mem) \<Rightarrow> if \<not> fd then Inr w else if \<not> mem then Inl NullDeref else Inr (connected i w))"

definition run_conn_thread :: "bool \<Rightarrow> 't wnet \<Rightarrow> 't wnet" where
  "run_conn_thread thread w = (if thread then w\<lparr>workers := workers w @ [(cd_host w, cd_port w)]\<rparr> else w)"

definition wolf_on_add_ctx :: "'t tls \<Rightarrow> 't wolf_new \<Rightarrow> ptr \<Rightarrow> 't wnet \<Rightarrow> 't wnet result" where
  "wolf_on_add_ctx L N c w =
     (let w = log_line ''on add socket context into event loop'' w in
      if \<not> wn_mem N then Inl NullDeref
      else
        let (ctx_data, w) = new_data \<lparr>wd_ssl = None, ssl_established = False\<rparr> w in
        case wn_ssl N of
          None \<Rightarrow> rbind (ctx_close c (log_line ''failed new connect ssl'' w)) (free_data ctx_data)
        | Some t \<Rightarrow>
            let (s, w) = new_ssl t w in
            rbind (upd_data ctx_data (\<lambda>d. d\<lparr>wd_ssl := Some s\<rparr>) w) (\<lambda>w.
            if \<not> wn_fd N then rbind (ctx_close c (log_line ''failed set ssl fd'' w)) (free_data ctx_data)
            else
              rbind (upd_data ctx_data (\<lambda>d. d\<lparr>ssl_established := False\<rparr>) w) (\<lambda>w.
              rbind (muggle_socket_ctx_set_data c (Some ctx_data) w) (\<lambda>w.
              do_ssl_connect L c ctx_data (w\<lparr>cd_ctx := Some c\<rparr>)))))"

fun wolf_recv_loop ::
  "nat \<Rightarrow> 't tls \<Rightarrow> ptr \<Rightarrow> ptr \<Rightarrow> bytes \<Rightarrow> ('d, 't, 'z) net_scheme \<Rightarrow> ('d, 't, 'z) net_scheme result" where
  "wolf_recv_loop 0 L c s buf w = Inl Diverges"
| "wolf_recv_loop (Suc fuel) L c s buf w =
     rbind (the_ssl (Some s) w) (\<lambda>(s, t).
     let (r, bs, t) = t_read L 511 t; w = set_ssl s t w in
     if r = -1 then
       (if \<not> t_wouldblock L t then ctx_close c (log_line ''failed wolfssl read'' w) else Inr w)
     else
       let buf = bs @ drop (length bs) buf in
       wolf_recv_loop fuel L c s buf (log_line (''on message: '' @ chars_of (buf_string buf)) w))"

definition wolf_client_on_message ::
  "bool \<Rightarrow> nat \<Rightarrow> 't tls \<Rightarrow> ptr \<Rightarrow> (socket_ctx_data_t, 't, 'z) net_scheme \<Rightarrow> (socket_ctx_data_t, 't, 'z) net_scheme result" where
  "wolf_client_on_message debug fuel L c w =
     rbind (muggle_socket_ctx_get_data c w) (\<lambda>ctx_data.
     case ctx_data of
       None \<Rightarrow> wolf_assert debug w
     | Some ctx_data \<Rightarrow>
         rbind (the_data ctx_data w) (\<lambda>d.
         rbind (if \<not> ssl_established d then do_ssl_connect L c ctx_data w else Inr w) (\<lambda>w.
         rbind (the_data ctx_data w) (\<lambda>d.
         if \<not> ssl_established d then Inr w
         else
           rbind (the_ssl (wd_ssl d) w) (\<lambda>(s, t). wolf_recv_loop fuel L c s (replicate 512 0) w)))))"

definition wolf_timestamp :: "u64 \<times> int \<Rightarrow> string" where
  "wolf_timestamp ts = strncpy_buf 64 (decw (fst ts) @ ''.'' @ fmt_0d 3 (snd ts div 1000000))"

definition wolf_on_timer :: "'t tls \<Rightarrow> u64 \<times> int \<Rightarrow> 't wnet \<Rightarrow> 't wnet result" where
  "wolf_on_timer L ts w =
     (case cd_ctx w of
        None \<Rightarrow> Inr w
      | Some c \<Rightarrow>
          rbind (muggle_socket_ctx_get_data c w) (\<lambda>ctx_data.
          case ctx_data of
            None \<Rightarrow> Inr w
          | Some ctx_data \<Rightarrow>
              rbind (the_data ctx_data w) (\<lambda>d.
              if \<not> ssl_established d then Inr w
              else
                let buf = wolf_timestamp ts; w = log_line (''on timer, send message '' @ buf) w in
                rbind (the_ssl (wd_ssl d) w) (\<lambda>(s, t).
                let (k, t) = t_write L (map of_char buf) t; w = set_ssl s t w in
                if k \<noteq> int (length buf) then Inr (log_line ''failed wolfssl write'' w) else Inr w))))"

definition wolf_client_on_close :: "bool \<Rightarrow> ptr \<Rightarrow> 't wnet \<Rightarrow> 't wnet result" where
  "wolf_client_on_close thread c w =
     Inr (run_conn_thread thread ((log_line ''on disconnect'' w)\<lparr>cd_ctx := None\<rparr>))"

definition wolf_client_on_release ::
  "ptr \<Rightarrow> (socket_ctx_data_t, 't, 'z) net_scheme \<Rightarrow> (socket_ctx_data_t, 't, 'z) net_scheme result" where
  "wolf_client_on_release c w =
     (let w = log_line ''on release'' w in
      rbind (muggle_socket_ctx_get_data c w) (\<lambda>ctx_data.
      case ctx_data of
        None \<Rightarrow> Inr w
      | Some ctx_data \<Rightarrow> free_ctx_data wd_ssl c ctx_data w))"

text \<open>
  \<open>main\<close> of the client: the addresses are the arguments, and the first thread is started before the
  certificate is loaded.
\<close>

definition wolf_client_main ::
  "wolf_outcomes \<Rightarrow> bool \<Rightarrow> ('t wnet \<Rightarrow> 't wnet result) \<Rightarrow> string list \<Rightarrow> 't wnet \<Rightarrow> ledger \<Rightarrow> (nat \<times> 't wnet \<times> ledger) result" where
  "wolf_client_main out thread loop argv w led =
     (if length argv < 3 then Inr (1, w, led)
      else if \<not> wo_evloop out then Inr (1, w, led)
      else
        let w = run_conn_thread thread (w\<lparr>cd_host := argv ! 1, cd_port := argv ! 2\<rparr>) in
        rbind (gen_client_ssl_ctx out (Handle_init # Evloop # led)) (\<lambda>(ssl_ctx, led).
        if \<not> ssl_ctx then Inr (1, w, led)
        else
          rbind (loop w) (\<lambda>w.
          rbind (give_back Ssl_ctx led) (\<lambda>led.
          rbind (give_back Handle_init led) (\<lambda>led.
          rbind (give_back Evloop led) (\<lambda>led. Inr (0, w, led)))))))"

section \<open>What the server sends back\<close>

text \<open>
  The strings in the buffer after each of the records has been read into it: a record shorter than the one
  before it leaves the end of that in place.
\<close>

fun replies :: "bytes \<Rightarrow> bytes list \<Rightarrow> bytes list" where
  "replies buf [] = []"
| "replies buf (m # ms) = (let buf = m @ drop (length m) buf in buf_string buf # replies buf ms)"

text \<open>
  Reading ends with \<open>-1\<close> when nothing is pending, and writing does not fail.
\<close>

definition wolf_quiet :: "'t tls \<Rightarrow> ('t \<Rightarrow> bytes list) \<Rightarrow> bool" where
  "wolf_quiet L pending \<longleftrightarrow>
     (\<forall>n t. let (r, bs, t') = t_read L n t in n > 0 \<longrightarrow> r \<le> 0 \<longrightarrow> r = -1 \<and> t_wouldblock L t' \<and> pending t = []) \<and>
     (\<forall>bs t. bs \<noteq> [] \<longrightarrow> 0 < fst (t_write L bs t))"

lemma wolf_quietD:
  assumes "wolf_quiet L pending"
  shows "t_read L n t = (r, bs, t') \<Longrightarrow> n > 0 \<Longrightarrow> r \<le> 0 \<Longrightarrow> r = -1 \<and> t_wouldblock L t' \<and> pending t = []"
    and "t_write L bs' t = (k, u) \<Longrightarrow> bs' \<noteq> [] \<Longrightarrow> 0 < k"
proof -
  show "t_read L n t = (r, bs, t') \<Longrightarrow> n > 0 \<Longrightarrow> r \<le> 0 \<Longrightarrow> r = -1 \<and> t_wouldblock L t' \<and> pending t = []"
    using assms [unfolded wolf_quiet_def, THEN conjunct1, THEN spec, of n, THEN spec, of t] by simp
  show "t_write L bs' t = (k, u) \<Longrightarrow> bs' \<noteq> [] \<Longrightarrow> 0 < k"
    using assms [unfolded wolf_quiet_def, THEN conjunct2, THEN spec, of bs', THEN spec, of t] by simp
qed

lemma wolf_echo_loop_result:
  assumes "tls_ok L pending written" "wolf_quiet L pending" "ssls w s = Some t"
    and "\<forall>m \<in> set (pending t). length m \<le> 511 \<and> m \<noteq> [] \<and> hd m \<noteq> 0" "length (pending t) < fuel"
  shows "\<exists>t' ls. wolf_echo_loop fuel L c s buf w = Inr (w\<lparr>ssls := (ssls w)(s \<mapsto> t'), logs := ls\<rparr>) \<and>
    written t' = written t @ replies buf (pending t) \<and> pending t' = []"
  using assms(3-)
proof (induction fuel arbitrary: w t buf)
  case (Suc fuel)
  obtain r bs t1 where rd: "t_read L 511 t = (r, bs, t1)" using prod_cases3 by blast
  show ?case
  proof (cases "r > 0")
    case False
    then have "r = -1" "t_wouldblock L t1" "pending t = []" using wolf_quietD(1) [OF assms(2) rd] by auto
    moreover have "set_ssl s t1 w = w\<lparr>ssls := (ssls w)(s \<mapsto> t1), logs := logs w\<rparr>" by (simp add: set_ssl_def)
    ultimately have "wolf_echo_loop (Suc fuel) L c s buf w = Inr (w\<lparr>ssls := (ssls w)(s \<mapsto> t1), logs := logs w\<rparr>)"
      using Suc.prems(1) rd by (simp add: the_ssl_def)
    then show ?thesis using \<open>pending t = []\<close> read_okD(1,3) [OF assms(1) rd] False by fastforce
  next
    case True
    have len: "\<forall>m \<in> set (pending t). length m \<le> 511" using Suc.prems(2) by simp
    have pend: "pending t = bs # pending t1" by (rule read_okD(5) [OF assms(1) rd True len])
    let ?buf = "bs @ drop (length bs) buf"
    have bs: "bs \<noteq> []" "hd bs \<noteq> 0" using Suc.prems(2) pend by auto
    then have str: "buf_string ?buf \<noteq> []" by (cases bs) (auto simp: buf_string_def)
    obtain k t2 where wr: "t_write L (buf_string ?buf) t1 = (k, t2)" by force
    then have k: "0 < k" using wolf_quietD(2) [OF assms(2)] str by blast
    note wk = write_okD [OF assms(1) wr]
    let ?w = "set_ssl s t2 (log_line (''on message: '' @ chars_of (buf_string ?buf)) (set_ssl s t1 w))"
    have "ssls ?w s = Some t2" by (simp add: set_ssl_def)
    moreover have "\<forall>m \<in> set (pending t2). length m \<le> 511 \<and> m \<noteq> [] \<and> hd m \<noteq> 0" "length (pending t2) < fuel"
      using Suc.prems(2,3) pend wk(1) by simp_all
    ultimately obtain t' ls where *: "wolf_echo_loop fuel L c s ?buf ?w = Inr (?w\<lparr>ssls := (ssls ?w)(s \<mapsto> t'), logs := ls\<rparr>)"
        "written t' = written t2 @ replies ?buf (pending t2)" "pending t' = []"
      using Suc.IH by blast
    have step: "wolf_echo_loop (Suc fuel) L c s buf w = wolf_echo_loop fuel L c s ?buf ?w"
      using True Suc.prems(1) rd wr wk(3) k by (simp add: the_ssl_def Let_def)
    have wrt: "written t' = written t @ replies buf (pending t)"
      using *(2) pend wk(1,2) k read_okD(1) [OF assms(1) rd] by (simp add: Let_def)
    have "?w\<lparr>ssls := (ssls ?w)(s \<mapsto> t'), logs := ls\<rparr> = w\<lparr>ssls := (ssls w)(s \<mapsto> t'), logs := ls\<rparr>"
      by (simp add: set_ssl_def log_line_def)
    then have "wolf_echo_loop (Suc fuel) L c s buf w = Inr (w\<lparr>ssls := (ssls w)(s \<mapsto> t'), logs := ls\<rparr>)"
      unfolding step *(1) by simp
    then show ?thesis using wrt *(3) by blast
  qed
qed simp

text \<open>Records without zero bytes that do not get shorter are sent back as they are.\<close>

lemma replies_growing:
  assumes "sorted (map length ms)" "\<forall>m \<in> set ms. length p \<le> length m \<and> length m < 512 \<and> 0 \<notin> set m"
  shows "replies (p @ replicate (512 - length p) 0) ms = ms"
  using assms
proof (induction ms arbitrary: p)
  case (Cons m ms)
  have m: "length p \<le> length m" "length m < 512" "0 \<notin> set m" using Cons.prems(2) by auto
  have buf: "m @ drop (length m) (p @ replicate (512 - length p) 0) = m @ replicate (512 - length m) 0"
    using m(1) by simp
  have "buf_string (m @ replicate (512 - length m) 0) = m"
    using m(2,3) by (subst buf_string_def) (metis (mono_tags, lifting) takeWhile_append2 Suc_diff_Suc append.right_neutral
      replicate_Suc takeWhile.simps(2))
  moreover have "replies (m @ replicate (512 - length m) 0) ms = ms"
    using Cons.prems by (intro Cons.IH) auto
  ultimately show ?case unfolding replies.simps(2) Let_def buf by simp
qed simp

definition wolf_established :: "ptr \<Rightarrow> ptr \<Rightarrow> 't \<Rightarrow> (serv_ctx_data_t, 't, 'z) net_scheme \<Rightarrow> bool" where
  "wolf_established c s t w \<longleftrightarrow>
     (\<exists>x p d. ctxs w c = Some x \<and> sc_data x = Some p \<and> datas w p = Some d \<and> ssl_established d \<and> wd_ssl d = Some s \<and> ssls w s = Some t)"

lemma wolf_message_loop:
  "wolf_established c s t w \<Longrightarrow> wolf_on_message debug fuel L c w = wolf_echo_loop fuel L c s (replicate 512 0) w"
  by (auto simp: wolf_established_def wolf_on_message_def muggle_socket_ctx_get_data_def the_ctx_def the_data_def the_ssl_def)

text \<open>
  The wolfSSL server answers every record that fits its buffer with the string that is then in the buffer:
  records without zero bytes of which none is shorter than the one before come back unchanged, but of a record
  that is shorter than its predecessor the rest of that is sent back as well.
\<close>

theorem wolf_echoes:
  assumes "tls_ok L pending written" "wolf_quiet L pending" "wolf_established c s t w" "length (pending t) < fuel"
    and "\<forall>m \<in> set (pending t). m \<noteq> [] \<and> length m < 512 \<and> 0 \<notin> set m"
  shows "\<exists>w' t'. wolf_on_message debug fuel L c w = Inr w' \<and> ssls w' s = Some t' \<and> pending t' = [] \<and>
    written t' = written t @ replies (replicate 512 0) (pending t) \<and>
    (sorted (map length (pending t)) \<longrightarrow> written t' = written t @ pending t) \<and>
    (\<forall>m n. pending t = [m, n] \<longrightarrow> length n < length m \<longrightarrow> written t' = written t @ [m, n @ drop (length n) m])"
proof -
  have "\<forall>m \<in> set (pending t). length m \<le> 511 \<and> m \<noteq> [] \<and> hd m \<noteq> 0" using assms(5) by (auto simp: less_Suc_eq_le [symmetric]) (metis hd_in_set)
  moreover have "ssls w s = Some t" using assms(3) by (auto simp: wolf_established_def)
  ultimately obtain t' ls where *: "wolf_echo_loop fuel L c s (replicate 512 0) w = Inr (w\<lparr>ssls := (ssls w)(s \<mapsto> t'), logs := ls\<rparr>)"
      "written t' = written t @ replies (replicate 512 0) (pending t)" "pending t' = []"
    using wolf_echo_loop_result [OF assms(1,2) _ _ assms(4)] by blast
  have sorted: "replies (replicate 512 0) (pending t) = pending t" if "sorted (map length (pending t))"
    using replies_growing [OF that, of "[]"] assms(5) by simp
  have stale: "replies (replicate 512 0) [m, n] = [m, n @ drop (length n) m]" if pend: "pending t = [m, n]" and len: "length n < length m" for m n
  proof -
    have m: "length m < 512" "0 \<notin> set m" "0 \<notin> set n" using assms(5) pend by auto
    have str: "buf_string (xs @ replicate (Suc k) 0) = xs" if "0 \<notin> set xs" for xs k
      using that by (induction xs) (auto simp: buf_string_def)
    obtain k where k: "512 - length m = Suc k" using m(1) by (metis Suc_diff_Suc)
    have "buf_string (m @ drop (length m) (replicate 512 0)) = m" using str [OF m(2), of k] k by simp
    moreover have "buf_string (n @ drop (length n) (m @ drop (length m) (replicate 512 0))) = n @ drop (length n) m"
      using str [of "n @ drop (length n) m" k] k len m(2,3) by (auto dest: in_set_dropD)
    ultimately show ?thesis by (simp add: Let_def)
  qed
  have "ssls (w\<lparr>ssls := (ssls w)(s \<mapsto> t'), logs := ls\<rparr>) s = Some t'" by simp
  then show ?thesis using *(2,3) sorted stale wolf_message_loop [OF assms(3), of debug fuel L] *(1) by metis
qed

lemma sample_quiet: "wolf_quiet sample_tls sample_pending"
proof -
  have "fst (t_read sample_tls n t) = -1 \<and> t_wouldblock sample_tls (snd (snd (t_read sample_tls n t))) \<and> sample_pending t = []"
    if "n > 0" "fst (t_read sample_tls n t) \<le> 0" for n t
  proof (cases "sample_pending t")
    case (Cons m ms)
    then have "m \<noteq> []" by (auto simp: filter_eq_Cons_iff)
    then show ?thesis using Cons that by (cases m; cases n) (auto simp: sample_tls_def sample_read_def)
  qed (simp add: sample_tls_def sample_read_def)
  moreover have "0 < fst (t_write sample_tls bs t)" if "bs \<noteq> []" for bs t
    using that by (simp add: sample_tls_def sample_write_def split: prod.splits)
  ultimately show ?thesis unfolding wolf_quiet_def Let_def case_prod_beta by blast
qed

definition sample_wolf :: "(serv_ctx_data_t, sample_state) net" where
  "sample_wolf = \<lparr>ctxs = [1 \<mapsto> new_ctx\<lparr>sc_data := Some 2, sc_open := True\<rparr>],
     datas = [2 \<mapsto> \<lparr>wd_ssl = Some 3, ssl_established = True, wd_addr = ''10.0.0.1:4000''\<rparr>],
     ssls = [3 \<mapsto> ([[65, 66, 67], [68]], [], 0)], fresh = 4, logs = []\<rparr>"

theorem wolf_echoes_witness:
  "\<exists>w' t'. wolf_on_message False 3 sample_tls 1 sample_wolf = Inr w' \<and> ssls w' 3 = Some t' \<and> sample_pending t' = [] \<and>
    sample_written t' = [[65, 66, 67], [68, 66, 67]]"
proof -
  let ?t = "([[65, 66, 67], [68]], [], 0) :: sample_state"
  have est: "wolf_established 1 3 ?t sample_wolf" by (simp add: wolf_established_def sample_wolf_def)
  have pending: "sample_pending ?t = [[65, 66, 67], [68]]" and fuel: "length (sample_pending ?t) < 3" by simp_all
  have "\<forall>m \<in> set (sample_pending ?t). m \<noteq> [] \<and> length m < 512 \<and> 0 \<notin> set m" by simp
  from wolf_echoes [OF sample_ok sample_quiet est fuel this, of False]
  obtain w' t' where *: "wolf_on_message False 3 sample_tls 1 sample_wolf = Inr w'" "ssls w' 3 = Some t'" "sample_pending t' = []"
      "\<forall>m n. sample_pending ?t = [m, n] \<longrightarrow> length n < length m \<longrightarrow> sample_written t' = sample_written ?t @ [m, n @ drop (length n) m]"
    by blast
  have "sample_written t' = [[65, 66, 67], [68, 66, 67]]" using *(4) [rule_format, OF pending] by simp
  then show ?thesis using *(1-3) by blast
qed

text \<open>
  When the peer has closed the connection \<open>wolfSSL_read\<close> returns 0, which the loop takes for a message: as long
  as the string in the buffer can be sent, it never ends.
\<close>

theorem wolf_close_hangs:
  assumes "\<And>t. t \<in> G \<Longrightarrow> fst (t_read L 511 t) = 0 \<and> fst (snd (t_read L 511 t)) = [] \<and> snd (snd (t_read L 511 t)) \<in> G"
    and "\<And>t. t \<in> G \<Longrightarrow> fst (t_write L (buf_string buf) t) = int (length (buf_string buf)) \<and> snd (t_write L (buf_string buf) t) \<in> G"
    and "ssls w s = Some t" "t \<in> G"
  shows "wolf_echo_loop fuel L c s buf w = Inl Diverges"
  using assms(3,4)
proof (induction fuel arbitrary: w t)
  case (Suc fuel)
  obtain t1 where rd: "t_read L 511 t = (0, [], t1)" "t1 \<in> G" using assms(1) [OF Suc.prems(2)] by (metis prod.collapse)
  obtain t2 where wr: "t_write L (buf_string buf) t1 = (int (length (buf_string buf)), t2)" "t2 \<in> G"
    using assms(2) [OF rd(2)] by (metis prod.collapse)
  let ?w = "set_ssl s t2 (log_line (''on message: '' @ chars_of (buf_string buf)) (set_ssl s t1 w))"
  have "wolf_echo_loop (Suc fuel) L c s buf w = wolf_echo_loop fuel L c s buf ?w"
    using Suc.prems(1) rd(1) wr(1) by (simp add: the_ssl_def Let_def)
  then show ?case using Suc.IH [of ?w t2] wr(2) by (simp add: set_ssl_def)
qed simp

end
