(* ===== verification/WolfSessions.thy ===== *)
theory WolfSessions
  imports WolfEcho
begin

text \<open>
  The wolfSSL programs on the event loop: the callbacks of \<open>WolfEcho\<close> satisfy the contracts \<open>tls_program\<close>
  and \<open>reconnecting_client\<close>, when memory can be allocated, sockets can be attached and the loops that read end.
\<close>

section \<open>Reading\<close>

text \<open>
  What the callbacks keep: the ownership of the objects and the rest of the state.
\<close>

definition keeps :: "('d \<Rightarrow> ptr option) \<Rightarrow> ('d, 't, 'z) net_scheme \<Rightarrow> ('d, 't, 'z) net_scheme \<Rightarrow> bool" where
  "keeps ssl_of w w' \<longleftrightarrow> shape ssl_of w' = shape ssl_of w \<and> net.more w' = net.more w"

lemma keeps_refl [simp]: "keeps ssl_of w w"
  by (simp add: keeps_def)

lemma keeps_trans: "keeps ssl_of w v \<Longrightarrow> keeps ssl_of v u \<Longrightarrow> keeps ssl_of w u"
  by (simp add: keeps_def)

lemma keeps_log: "keeps ssl_of w (log_line l w)"
  by (simp add: keeps_def)

lemma keeps_ssl: "ssls w s = Some t \<Longrightarrow> keeps ssl_of w (set_ssl s u w)"
  by (simp add: keeps_def) (simp add: set_ssl_def)

lemma keeps_data: "datas w p = Some d \<Longrightarrow> ssl_of (f d) = ssl_of d \<Longrightarrow> keeps ssl_of w (w\<lparr>datas := (datas w)(p \<mapsto> f d)\<rparr>)"
  by (simp add: keeps_def)

lemma net_views:
  "ctxs (log_line l w) = ctxs w" "datas (log_line l w) = datas w" "ssls (log_line l w) = ssls w"
  "ctxs (set_ssl s t w) = ctxs w" "datas (set_ssl s t w) = datas w" "ssls (set_ssl s t w) = (ssls w)(s \<mapsto> t)"
  by (simp_all add: log_line_def set_ssl_def)

lemma keeps_close:
  assumes "keeps ssl_of w v" "ctxs v c = Some x"
  shows "\<exists>w'. ctx_close c v = Inr w' \<and> keeps ssl_of w w'"
  using ctx_close_shape [OF assms(2), of ssl_of] assms(1) by (auto simp: keeps_def)

lemma keeps_result:
  assumes "keeps ssl_of w v" "r = Inl e \<or> (\<exists>w'. r = Inr w' \<and> keeps ssl_of v w')"
  shows "r = Inl e \<or> (\<exists>w'. r = Inr w' \<and> keeps ssl_of w w')"
  using assms keeps_trans by blast

lemma keeps_owned:
  assumes "keeps ssl_of w w'" "net_inv ssl_of w" "ctxs w c = Some x" "sc_data x = Some p"
  obtains x' d s t where "net_inv ssl_of w'" "ctxs w' c = Some x'" "sc_data x' = Some p" "datas w' p = Some d"
    "ssl_of d = Some s" "ssls w' s = Some t"
proof -
  have inv: "net_inv ssl_of w'" using assms(1,2) by (simp add: keeps_def net_inv_def)
  have "fst (shape ssl_of w') c = Some (x\<lparr>sc_closing := False\<rparr>)"
    using assms(1) shape_ctx [OF assms(3), of ssl_of] by (simp add: keeps_def)
  then obtain x' where "ctxs w' c = Some x'" "sc_data x' = Some p" by (rule ctx_of_shape) (use assms(4) in auto)
  then show ?thesis using owned_data [OF inv] that inv by metis
qed

lemma recv_loop_keeps:
  assumes "ssls w s = Some t" "ctxs w c = Some x"
  shows "wolf_recv_loop fuel L c s buf w = Inl Diverges \<or>
    (\<exists>w'. wolf_recv_loop fuel L c s buf w = Inr w' \<and> keeps ssl_of w w')"
  using assms
proof (induction fuel arbitrary: w t buf)
  case (Suc fuel)
  obtain r bs t1 where rd: "t_read L 511 t = (r, bs, t1)" using prod_cases3 by blast
  let ?v = "set_ssl s t1 w" and ?buf = "bs @ drop (length bs) buf"
  let ?l = "''on message: '' @ chars_of (buf_string ?buf)"
  have v: "keeps ssl_of w ?v" "keeps ssl_of ?v (log_line l ?v)" "ctxs (log_line l ?v) c = Some x" "ssls (log_line l ?v) s = Some t1" for l
    using keeps_ssl [OF Suc.prems(1)] keeps_log Suc.prems(2) by (simp_all add: net_views)
  have "\<exists>w'. ctx_close c (log_line ''failed wolfssl read'' ?v) = Inr w' \<and> keeps ssl_of w w'"
    by (rule keeps_close [OF keeps_trans [OF v(1,2)] v(3)])
  moreover have "wolf_recv_loop fuel L c s ?buf (log_line ?l ?v) = Inl Diverges \<or>
      (\<exists>w'. wolf_recv_loop fuel L c s ?buf (log_line ?l ?v) = Inr w' \<and> keeps ssl_of w w')"
    by (rule keeps_result [OF keeps_trans [OF v(1,2)] Suc.IH [OF v(4,3)]])
  ultimately show ?case using Suc.prems(1) rd v(1) by (simp add: the_ssl_def Let_def)
qed simp

lemma echo_loop_keeps:
  assumes "ssls w s = Some t" "ctxs w c = Some x"
  shows "wolf_echo_loop fuel L c s buf w = Inl Diverges \<or>
    (\<exists>w'. wolf_echo_loop fuel L c s buf w = Inr w' \<and> keeps ssl_of w w')"
  using assms
proof (induction fuel arbitrary: w t buf)
  case (Suc fuel)
  obtain r bs t1 where rd: "t_read L 511 t = (r, bs, t1)" using prod_cases3 by blast
  let ?v = "set_ssl s t1 w" and ?buf = "bs @ drop (length bs) buf"
  let ?l = "''on message: '' @ chars_of (buf_string ?buf)"
  obtain k t2 where wr: "t_write L (buf_string ?buf) t1 = (k, t2)" by force
  let ?u = "set_ssl s t2 (log_line ?l ?v)"
  have v: "keeps ssl_of w ?v" "keeps ssl_of ?v (log_line l ?v)" "ctxs (log_line l ?v) c = Some x" "ssls (log_line l ?v) s = Some t1" for l
    using keeps_ssl [OF Suc.prems(1)] keeps_log Suc.prems(2) by (simp_all add: net_views)
  have "keeps ssl_of (log_line ?l ?v) ?u" by (rule keeps_ssl [OF v(4)])
  then have u: "keeps ssl_of w ?u" "keeps ssl_of ?u (log_line l ?u)" "ctxs ?u c = Some x" "ctxs (log_line l ?u) c = Some x" "ssls ?u s = Some t2" for l
    using keeps_trans [OF keeps_trans [OF v(1,2)]] keeps_log Suc.prems(2) by (simp_all add: net_views)
  have "\<exists>w'. ctx_close c (log_line ''failed wolfssl read'' ?v) = Inr w' \<and> keeps ssl_of w w'"
    by (rule keeps_close [OF keeps_trans [OF v(1,2)] v(3)])
  moreover have "\<exists>w'. ctx_close c (log_line ''failed wolfssl write'' ?u) = Inr w' \<and> keeps ssl_of w w'"
    by (rule keeps_close [OF keeps_trans [OF u(1,2)] u(4)])
  moreover have "wolf_echo_loop fuel L c s ?buf ?u = Inl Diverges \<or>
      (\<exists>w'. wolf_echo_loop fuel L c s ?buf ?u = Inr w' \<and> keeps ssl_of w w')"
    by (rule keeps_result [OF u(1) Suc.IH [OF u(5,3)]])
  ultimately show ?case using Suc.prems(1) rd wr v(1) by (simp add: the_ssl_def Let_def)
qed simp

section \<open>Handshakes\<close>

lemma shake_views:
  "snd (ssl_accept L (s, t) w) \<in> {set_ssl s u w | u. True} \<union> {log_line l (set_ssl s u w) | u l. True}"
  "snd (ssl_connect L (s, t) w) \<in> {set_ssl s u w | u. True} \<union> {log_line l (set_ssl s u w) | u l. True}"
  by (auto simp: ssl_accept_def ssl_connect_def Let_def case_prod_beta)

lemma shake_keeps:
  assumes "ssls w s = Some t" "r = ssl_accept L (s, t) w \<or> r = ssl_connect L (s, t) w"
  shows "keeps ssl_of w (snd r)" "ctxs (snd r) = ctxs w" "datas (snd r) = datas w"
proof -
  have "snd r \<in> {set_ssl s u w | u. True} \<union> {log_line l (set_ssl s u w) | u l. True}"
    using assms(2) shake_views [of L s t w] by (elim disjE) (simp_all only:)
  then obtain u l where "snd r = set_ssl s u w \<or> snd r = log_line l (set_ssl s u w)" by blast
  then show "keeps ssl_of w (snd r)" "ctxs (snd r) = ctxs w" "datas (snd r) = datas w"
    using keeps_ssl [OF assms(1), of ssl_of u] keeps_trans [OF keeps_ssl [OF assms(1)] keeps_log] by (auto simp: net_views)
qed

text \<open>What is done with the result, in both programs.\<close>

lemma shaken_keeps:
  assumes "keeps ssl_of w v" "ctxs v c = Some x" "datas v p = Some d" "\<And>d. ssl_of (f d) = ssl_of d"
  shows "\<exists>w'. upd_data p f (log_line l v) = Inr w' \<and> keeps ssl_of w w'"
    and "\<exists>w'. ctx_close c (log_line l v) = Inr w' \<and> keeps ssl_of w w'"
    and "keeps ssl_of w (log_line l v)"
proof -
  show log: "keeps ssl_of w (log_line l v)" by (rule keeps_trans [OF assms(1) keeps_log])
  have "datas (log_line l v) p = Some d" "ctxs (log_line l v) c = Some x" using assms(2,3) by (simp_all add: net_views)
  then show "\<exists>w'. upd_data p f (log_line l v) = Inr w' \<and> keeps ssl_of w w'"
    and "\<exists>w'. ctx_close c (log_line l v) = Inr w' \<and> keeps ssl_of w w'"
    using keeps_trans [OF log keeps_data [of "log_line l v" p d ssl_of f]] assms(4) keeps_close [OF log]
    by (simp_all add: upd_data_def the_data_def)
qed

lemma accept_keeps:
  assumes "datas w p = Some d" "wd_ssl d = Some s" "ssls w s = Some t" "ctxs w c = Some x"
  shows "\<exists>w'. do_ssl_accept L c p w = Inr w' \<and> keeps wd_ssl w w'"
proof -
  let ?v = "log_line (''do ssl accept: '' @ wd_addr d) w"
  have v: "ssls ?v s = Some t" using assms(3) by (simp add: net_views)
  obtain ret u where u: "ssl_accept L (s, t) ?v = (ret, u)" by force
  note sh = shake_keeps [OF v disjI1 [OF u [symmetric]], unfolded snd_conv]
  have k: "keeps wd_ssl w u" by (rule keeps_trans [OF keeps_log sh(1)])
  have "ctxs u c = Some x" "datas u p = Some d" using sh(2,3) assms(1,4) by (simp_all add: net_views)
  note res = shaken_keeps [OF k this, of "\<lambda>d. d\<lparr>ssl_established := True\<rparr>"]
  show ?thesis using assms(1,2) v u res by (simp add: do_ssl_accept_def the_data_def the_ssl_def Let_def)
qed

lemma connect_keeps_wolf:
  assumes "datas w p = Some d" "wd_ssl d = Some s" "ssls w s = Some t" "ctxs w c = Some x"
  shows "\<exists>w'. do_ssl_connect L c p w = Inr w' \<and> keeps wd_ssl w w'"
proof -
  let ?v = "log_line ''do ssl connect'' w"
  have v: "ssls ?v s = Some t" using assms(3) by (simp add: net_views)
  obtain ret u where u: "ssl_connect L (s, t) ?v = (ret, u)" by force
  note sh = shake_keeps [OF v disjI2 [OF u [symmetric]], unfolded snd_conv]
  have k: "keeps wd_ssl w u" by (rule keeps_trans [OF keeps_log sh(1)])
  have "ctxs u c = Some x" "datas u p = Some d" using sh(2,3) assms(1,4) by (simp_all add: net_views)
  note res = shaken_keeps [OF k this, of "\<lambda>d. d\<lparr>ssl_established := True\<rparr>"]
  show ?thesis using assms(1,2) v u k res by (simp add: do_ssl_connect_def the_data_def the_ssl_def Let_def)
qed

section \<open>Messages\<close>

lemma wolf_message:
  assumes "net_inv wd_ssl w" "ctxs w c = Some x" "wolf_on_message False fuel L c w \<noteq> Inl Diverges"
  shows "\<exists>w'. wolf_on_message False fuel L c w = Inr w' \<and> keeps wd_ssl w w'"
proof (cases "sc_data x")
  case None
  then show ?thesis using assms(2)
    by (simp add: wolf_on_message_def muggle_socket_ctx_get_data_def the_ctx_def wolf_assert_def)
next
  case (Some p)
  obtain d s t where d: "datas w p = Some d" "wd_ssl d = Some s" "ssls w s = Some t"
    using owned_data [OF assms(1,2) Some] .
  obtain v where v: "(if \<not> ssl_established d then do_ssl_accept L c p w else Inr w) = Inr v" "keeps wd_ssl w v"
    using accept_keeps [OF d assms(2), of L] by (cases "ssl_established d") auto
  obtain x' d' s' t' where *: "ctxs v c = Some x'" "datas v p = Some d'" "wd_ssl d' = Some s'" "ssls v s' = Some t'"
    using keeps_owned [OF v(2) assms(1,2) Some] by metis
  have msg: "wolf_on_message False fuel L c w =
      (if \<not> ssl_established d' then Inr v else wolf_echo_loop fuel L c s' (replicate 512 0) v)"
    using assms(2) Some d v(1) *
    by (simp add: wolf_on_message_def muggle_socket_ctx_get_data_def the_ctx_def the_data_def the_ssl_def)
  show ?thesis
    using echo_loop_keeps [OF *(4,1), of fuel L "replicate 512 0" wd_ssl] assms(3) keeps_trans [OF v(2)] v(2) unfolding msg by auto
qed

lemma wolf_client_message:
  assumes "net_inv wd_ssl w" "ctxs w c = Some x" "wolf_client_on_message False fuel L c w \<noteq> Inl Diverges"
  shows "\<exists>w'. wolf_client_on_message False fuel L c w = Inr w' \<and> keeps wd_ssl w w'"
proof (cases "sc_data x")
  case None
  then show ?thesis using assms(2)
    by (simp add: wolf_client_on_message_def muggle_socket_ctx_get_data_def the_ctx_def wolf_assert_def)
next
  case (Some p)
  obtain d s t where d: "datas w p = Some d" "wd_ssl d = Some s" "ssls w s = Some t"
    using owned_data [OF assms(1,2) Some] .
  obtain v where v: "(if \<not> ssl_established d then do_ssl_connect L c p w else Inr w) = Inr v" "keeps wd_ssl w v"
    using connect_keeps_wolf [OF d assms(2), of L] by (cases "ssl_established d") auto
  obtain x' d' s' t' where *: "ctxs v c = Some x'" "datas v p = Some d'" "wd_ssl d' = Some s'" "ssls v s' = Some t'"
    using keeps_owned [OF v(2) assms(1,2) Some] by metis
  have msg: "wolf_client_on_message False fuel L c w =
      (if \<not> ssl_established d' then Inr v else wolf_recv_loop fuel L c s' (replicate 512 0) v)"
    using assms(2) Some d v(1) *
    by (simp add: wolf_client_on_message_def muggle_socket_ctx_get_data_def the_ctx_def the_data_def the_ssl_def)
  show ?thesis
    using recv_loop_keeps [OF *(4,1), of fuel L "replicate 512 0" wd_ssl] assms(3) keeps_trans [OF v(2)] v(2) unfolding msg by auto
qed

section \<open>New contexts\<close>

text \<open>Both programs make the object of a context in the same way; \<open>d\<close> is the object before the TLS object is stored in it.\<close>

lemma object_made:
  assumes "net_inv wd_ssl w" "ctxs w c = Some x"
  shows "\<exists>w'. rbind (ctx_close c (log_line l (log_line m (w\<lparr>datas := (datas w)(fresh w \<mapsto> d), fresh := Suc (fresh w)\<rparr>))))
      (free_data (fresh w)) = Inr w' \<and> opens wd_ssl c w w' \<and> net.more w' = net.more w"
    and "\<exists>w'. rbind (ctx_close c (log_line l (w\<lparr>datas := (datas w)(fresh w \<mapsto> d), fresh := Suc (fresh w)\<rparr>)))
      (free_data (fresh w)) = Inr w' \<and> opens wd_ssl c w w' \<and> net.more w' = net.more w"
proof -
  have none: "datas w (fresh w) = None" using net_fresh [OF assms(1)] by simp
  let ?w = "\<lambda>ls. w\<lparr>ctxs := (ctxs w)(c \<mapsto> x\<lparr>sc_closing := True\<rparr>), datas := (datas w)(fresh w := None), fresh := Suc (fresh w), logs := ls\<rparr>"
  have opens: "opens wd_ssl c w (?w ls)" for ls
    by (rule opens_nothing [where k = "Suc (fresh w)"]) (use none assms(2) in \<open>auto simp: shape_def\<close>)
  have "rbind (ctx_close c (log_line l (log_line m (w\<lparr>datas := (datas w)(fresh w \<mapsto> d), fresh := Suc (fresh w)\<rparr>)))) (free_data (fresh w)) =
      Inr (?w (logs w @ [m, l]))"
    "rbind (ctx_close c (log_line l (w\<lparr>datas := (datas w)(fresh w \<mapsto> d), fresh := Suc (fresh w)\<rparr>))) (free_data (fresh w)) =
      Inr (?w (logs w @ [l]))"
    using assms(2) by (simp_all add: net_defs)
  then show "\<exists>w'. rbind (ctx_close c (log_line l (log_line m (w\<lparr>datas := (datas w)(fresh w \<mapsto> d), fresh := Suc (fresh w)\<rparr>))))
      (free_data (fresh w)) = Inr w' \<and> opens wd_ssl c w w' \<and> net.more w' = net.more w"
    and "\<exists>w'. rbind (ctx_close c (log_line l (w\<lparr>datas := (datas w)(fresh w \<mapsto> d), fresh := Suc (fresh w)\<rparr>)))
      (free_data (fresh w)) = Inr w' \<and> opens wd_ssl c w w' \<and> net.more w' = net.more w"
    using opens by auto
qed

lemma wolf_connect:
  assumes "net_inv wd_ssl w" "ctxs w c = Some x" "wn_mem N" "wn_fd N"
  shows "\<exists>w'. wolf_on_connect N c w = Inr w' \<and> opens wd_ssl c w w'"
proof (cases "wn_ssl N")
  case None
  then show ?thesis using assms(3) object_made(1) [OF assms(1,2)]
    by (simp add: wolf_on_connect_def new_data_def) metis
next
  case (Some t)
  let ?d = "\<lparr>wd_ssl = Some (Suc (fresh w)), ssl_established = False, wd_addr = wn_addr N\<rparr>"
  let ?w = "w\<lparr>ctxs := (ctxs w)(c \<mapsto> x\<lparr>sc_data := Some (fresh w)\<rparr>), datas := (datas w)(fresh w \<mapsto> ?d),
    ssls := (ssls w)(Suc (fresh w) \<mapsto> t), fresh := Suc (Suc (fresh w)), logs := logs w @ [''on connect: '' @ wn_addr N]\<rparr>"
  have "wolf_on_connect N c w = Inr ?w" using assms(2-4) Some by (simp add: wolf_on_connect_def net_defs)
  moreover have "opens wd_ssl c w ?w"
    by (rule opens_attach [OF assms(2), of wd_ssl ?d _ t]) (simp_all add: shape_def)
  ultimately show ?thesis by blast
qed

lemma wolf_add:
  assumes "net_inv wd_ssl w" "ctxs w c = Some x" "wn_mem N" "wn_fd N"
  shows "\<exists>w'. wolf_on_add_ctx L N c w = Inr w' \<and> opens wd_ssl c w w' \<and> workers w' = workers w \<and> exiting w' = exiting w \<and>
    (cd_ctx w' = Some c \<or> cd_ctx w' = cd_ctx w)"
proof (cases "wn_ssl N")
  case None
  let ?v = "log_line ''on add socket context into event loop'' w"
  have v: "net_inv wd_ssl ?v" "ctxs ?v c = Some x" using assms(1,2) by (simp_all add: net_inv_def net_views)
  obtain w' where w': "rbind (ctx_close c (log_line ''failed new connect ssl''
      (?v\<lparr>datas := (datas ?v)(fresh ?v \<mapsto> \<lparr>wd_ssl = None, ssl_established = False\<rparr>), fresh := Suc (fresh ?v)\<rparr>)))
      (free_data (fresh ?v)) = Inr w'" "opens wd_ssl c ?v w'" "net.more w' = net.more ?v"
    using object_made(2) [OF v] by metis
  have "opens wd_ssl c w w'" using w'(2) by (simp add: opens_def)
  moreover have "workers w' = workers w" "exiting w' = exiting w" "cd_ctx w' = cd_ctx w"
    using more_fields [of w' w] w'(3) by simp_all
  moreover have "wolf_on_add_ctx L N c w = Inr w'" using w'(1) None assms(3) by (simp add: wolf_on_add_ctx_def new_data_def)
  ultimately show ?thesis by blast
next
  case (Some t)
  let ?d = "\<lparr>wd_ssl = Some (Suc (fresh w)), ssl_established = False\<rparr>"
  let ?w = "w\<lparr>logs := logs w @ [''on add socket context into event loop''], ssls := (ssls w)(Suc (fresh w) \<mapsto> t),
    fresh := Suc (Suc (fresh w)), datas := (datas w)(fresh w \<mapsto> ?d),
    ctxs := (ctxs w)(c \<mapsto> x\<lparr>sc_data := Some (fresh w)\<rparr>), cd_ctx := Some c\<rparr>"
  have "wolf_on_add_ctx L N c w = do_ssl_connect L c (fresh w) ?w"
    using assms(2-4) Some by (simp add: wolf_on_add_ctx_def net_defs)
  moreover obtain w' where w': "do_ssl_connect L c (fresh w) ?w = Inr w'" "keeps wd_ssl ?w w'"
    using connect_keeps_wolf [of ?w "fresh w" ?d "Suc (fresh w)" t c "x\<lparr>sc_data := Some (fresh w)\<rparr>" L] by auto
  moreover have "opens wd_ssl c w w'"
    by (rule opens_attach [OF assms(2), of wd_ssl ?d _ t]) (use w'(2) in \<open>simp_all add: keeps_def shape_def\<close>)
  moreover have "workers w' = workers w" "exiting w' = exiting w" "cd_ctx w' = Some c"
    using more_fields [of w' ?w] w'(2) by (simp_all add: keeps_def)
  ultimately show ?thesis by auto
qed

section \<open>Closing and releasing\<close>

lemma wolf_close:
  assumes "net_inv wd_ssl w" "ctxs w c = Some x"
  shows "\<exists>w'. wolf_on_close False c w = Inr w' \<and> shape wd_ssl w' = shape wd_ssl w"
proof (cases "sc_data x")
  case (Some p)
  then obtain d where "datas w p = Some d" using owned_data [OF assms] by blast
  then show ?thesis using assms(2) Some by (simp add: wolf_on_close_def muggle_socket_ctx_get_data_def the_ctx_def the_data_def)
qed (use assms in \<open>simp add: wolf_on_close_def muggle_socket_ctx_get_data_def the_ctx_def wolf_assert_def\<close>)

lemma free_releases:
  assumes "net_inv wd_ssl w" "ctxs w c = Some x" "sc_data x = Some p"
  shows "\<exists>w'. free_ctx_data wd_ssl c p (log_line l w) = Inr w' \<and> releases wd_ssl c w w' \<and> net.more w' = net.more w"
proof -
  obtain d s t where d: "datas w p = Some d" "wd_ssl d = Some s" "ssls w s = Some t" using owned_data [OF assms] .
  let ?w = "w\<lparr>ctxs := (ctxs w)(c \<mapsto> x\<lparr>sc_data := None\<rparr>), datas := (datas w)(p := None), ssls := (ssls w)(s := None), logs := logs w @ [l]\<rparr>"
  have "releases wd_ssl c w ?w" by (rule releases_data [where ssl_of = wd_ssl, OF assms(2,3) d]) (simp add: shape_def)
  moreover have "free_ctx_data wd_ssl c p (log_line l w) = Inr ?w"
    using d assms(2) by (simp add: free_ctx_data_def net_defs)
  ultimately show ?thesis by auto
qed

lemma wolf_release:
  assumes "net_inv wd_ssl w" "ctxs w c = Some x"
  shows "\<exists>w'. wolf_on_release c w = Inr w' \<and> releases wd_ssl c w w'"
proof (cases "sc_data x")
  case None
  then show ?thesis using assms(2) releases_none [OF assms(2) None, of wd_ssl]
    by (simp add: wolf_on_release_def muggle_socket_ctx_get_data_def the_ctx_def)
next
  case (Some p)
  then obtain d where "datas w p = Some d" using owned_data [OF assms] by blast
  then show ?thesis using assms(2) Some free_releases [OF assms Some]
    by (fastforce simp: wolf_on_release_def muggle_socket_ctx_get_data_def the_ctx_def the_data_def)
qed

lemma wolf_client_release:
  assumes "net_inv wd_ssl w" "ctxs w c = Some x"
  shows "\<exists>w'. wolf_client_on_release c w = Inr w' \<and> releases wd_ssl c w w' \<and> net.more w' = net.more w"
proof (cases "sc_data x")
  case None
  have "shape wd_ssl (log_line ''on release'' w) = shape wd_ssl w" by simp
  then show ?thesis using assms(2) None releases_none [OF assms(2) None, of wd_ssl]
    by (simp add: wolf_client_on_release_def muggle_socket_ctx_get_data_def the_ctx_def net_views)
next
  case (Some p)
  then show ?thesis using assms(2) free_releases [OF assms Some]
    by (simp add: wolf_client_on_release_def muggle_socket_ctx_get_data_def the_ctx_def net_views)
qed

lemma wolf_timer:
  assumes "net_inv wd_ssl w" "\<forall>c. cd_ctx w = Some c \<longrightarrow> ctxs w c \<noteq> None"
  shows "\<exists>w'. wolf_on_timer L ts w = Inr w' \<and> keeps wd_ssl w w'"
proof (cases "cd_ctx w")
  case None
  then show ?thesis by (simp add: wolf_on_timer_def)
next
  case (Some c)
  then obtain x where x: "ctxs w c = Some x" using assms(2) by auto
  show ?thesis
  proof (cases "sc_data x")
    case None
    then show ?thesis using Some x by (simp add: wolf_on_timer_def muggle_socket_ctx_get_data_def the_ctx_def)
  next
    case p: (Some p)
    obtain d s t where d: "datas w p = Some d" "wd_ssl d = Some s" "ssls w s = Some t" using owned_data [OF assms(1) x p] .
    let ?buf = "wolf_timestamp ts" and ?v = "log_line (''on timer, send message '' @ wolf_timestamp ts) w"
    obtain k u where wr: "t_write L (map of_char ?buf) t = (k, u)" by force
    have v: "ssls ?v s = Some t" using d(3) by (simp add: net_views)
    have "keeps wd_ssl w (set_ssl s u ?v)" by (rule keeps_trans [OF keeps_log keeps_ssl [OF v]])
    moreover from this have "keeps wd_ssl w (log_line l (set_ssl s u ?v))" for l by (rule keeps_trans [OF _ keeps_log])
    ultimately show ?thesis using Some x p d wr v
      by (simp add: wolf_on_timer_def muggle_socket_ctx_get_data_def the_ctx_def the_data_def the_ssl_def Let_def)
  qed
qed

section \<open>The programs\<close>

text \<open>
  An event of the server has the outcomes for a new context and the fuel of the loop that reads; of the client
  also whether a thread can be started.
\<close>

definition wolf_env :: "'t wolf_new \<Rightarrow> 't wolf_new" where
  "wolf_env N = N\<lparr>wn_mem := True, wn_fd := True\<rparr>"

interpretation wsrv: tls_program wd_ssl "\<lambda>e c w. wolf_on_message False (snd e) L c w \<noteq> Inl Diverges"
    "\<lambda>e. wolf_on_connect (wolf_env (fst e))" "\<lambda>e. wolf_on_message False (snd e) L" "\<lambda>e. wolf_on_close False"
    "\<lambda>e. wolf_on_release" for L :: "'t tls"
proof (unfold_locales, goal_cases)
  case (1 w c x e)
  then show ?case by (intro wolf_connect) (simp_all add: wolf_env_def)
next
  case (2 w c x e)
  then show ?case using wolf_message [of w c x "snd e" L] by (auto simp: keeps_def)
next
  case (3 w c x e)
  then show ?case by (intro wolf_close)
next
  case (4 w c x e)
  then show ?case by (intro wolf_release)
qed

record 't wolf_event =
  we_new :: "'t wolf_new"
  we_fuel :: nat
  we_thread :: bool

interpretation wcli: reconnecting_client wd_ssl "\<lambda>e c w. wolf_client_on_message False (we_fuel e) L c w \<noteq> Inl Diverges"
    "\<lambda>e. wolf_on_add_ctx L (wolf_env (we_new e))" "\<lambda>e. wolf_client_on_message False (we_fuel e) L"
    "\<lambda>e. wolf_client_on_close (we_thread e)" "\<lambda>e. wolf_client_on_release"
    "\<lambda>a. a \<noteq> (True, False)" wolf_conn_thread_step "\<lambda>_. True" "wolf_on_timer L" we_thread True for L :: "'t tls"
proof (unfold_locales, goal_cases)
  case (1 w c x e)
  then show ?case using wolf_add [OF 1(1,2), of "wolf_env (we_new e)" L] by (auto simp: wolf_env_def)
next
  case (2 w c x e)
  then show ?case using wolf_client_message [OF 2(1,2), of "we_fuel e" L] by (auto simp: keeps_def)
next
  case (3 w c x e)
  then show ?case by (simp add: wolf_client_on_close_def run_conn_thread_def shape_def log_line_def)
next
  case (4 w c x e)
  then show ?case using wolf_client_release [OF 4(1,2)] by auto
next
  case (5 a i w)
  then show ?case by (auto simp: wolf_conn_thread_step_def split: prod.splits)
next
  case (6 w c x e w')
  then show ?case using wolf_add [OF 6(1,2), of "wolf_env (we_new e)" L] by (auto simp: wolf_env_def)
next
  case (7 w c x e w')
  then show ?case using wolf_client_message [OF 7(1-3)] by (auto simp: keeps_def)
next
  case (8 w c x e w')
  then show ?case by (cases "we_thread e") (simp_all add: wolf_client_on_close_def run_conn_thread_def log_line_def, force+)
next
  case (9 w c x e w')
  then show ?case using wolf_client_release [OF 9(1,2)] by auto
next
  case (10 w k)
  then show ?case using wolf_timer [OF 10(1,2)] by (auto simp: keeps_def)
qed

section \<open>Safety\<close>

text \<open>
  The states in which the event loops begin: the listening context of the server, and the client of \<open>main\<close> with its
  first thread.
\<close>

definition wolf_server_start :: "ptr \<Rightarrow> (serv_ctx_data_t, 't) net" where
  "wolf_server_start c =
     \<lparr>ctxs = [c \<mapsto> new_ctx\<lparr>sc_type := MUGGLE_SOCKET_CTX_TYPE_TCP_LISTEN, sc_open := True\<rparr>],
      datas = Map.empty, ssls = Map.empty, fresh = Suc c, logs = []\<rparr>"

definition wolf_server_step ::
  "'t tls \<Rightarrow> (serv_ctx_data_t, 't) net \<Rightarrow> (serv_ctx_data_t, 't) net result \<Rightarrow> bool" where
  "wolf_server_step L =
     net_step (\<lambda>e c w. wolf_on_message False (snd e) L c w \<noteq> Inl Diverges)
       (\<lambda>e. wolf_on_connect (wolf_env (fst (e :: 't wolf_new \<times> nat)))) (\<lambda>e. wolf_on_message False (snd e) L)
       (\<lambda>e. wolf_on_close False) (\<lambda>e. wolf_on_release)"

definition wolf_idle :: "'t wnet" where
  "wolf_idle = \<lparr>ctxs = Map.empty, datas = Map.empty, ssls = Map.empty, fresh = 0, logs = [],
     cd_ctx = None, cd_host = [], cd_port = [], workers = [], exiting = False\<rparr>"

definition wolf_client_start :: "string list \<Rightarrow> 't wnet" where
  "wolf_client_start argv = run_conn_thread True (wolf_idle\<lparr>cd_host := argv ! 1, cd_port := argv ! 2\<rparr>)"

definition wolf_client_step :: "'t tls \<Rightarrow> ('t wolf_event \<Rightarrow> bool) \<Rightarrow> 't wnet \<Rightarrow> 't wnet result \<Rightarrow> bool" where
  "wolf_client_step L =
     reconnect_step (\<lambda>e c w. wolf_client_on_message False (we_fuel e) L c w \<noteq> Inl Diverges)
       (\<lambda>e. wolf_on_add_ctx L (wolf_env (we_new e))) (\<lambda>e. wolf_client_on_message False (we_fuel e) L)
       (\<lambda>e. wolf_client_on_close (we_thread e)) (\<lambda>e. wolf_client_on_release)
       (\<lambda>a. a \<noteq> (True, False)) wolf_conn_thread_step (\<lambda>_. True) (wolf_on_timer L)"

lemma wolf_server_start_ok: "loop_inv wd_ssl (wolf_server_start c)"
  by (rule start_ok [where c = c]) (auto simp: wolf_server_start_def ctx_ok_def new_ctx_def)

lemma wolf_client_start_ok: "client_inv wd_ssl True steady (wolf_client_start argv)"
proof -
  have "data_map Map.empty = Map.empty" by (simp add: data_map_def)
  then show ?thesis
    by (simp add: client_inv_def wolf_client_start_def run_conn_thread_def wolf_idle_def loop_inv_def loop_ok_def shape_def
        owned_def bijective_def alive_def)
qed

text \<open>
  While memory can be allocated, sockets can be attached and every message callback returns, the wolfSSL server
  never uses a freed object and never frees one twice; every object belongs to one context, and when no context
  has an object any more nothing is left.
\<close>

theorem wolf_server_safe:
  assumes "net_reach (wolf_server_step L) (wolf_server_start c) r"
  shows "\<exists>w. r = Inr w \<and> net_inv wd_ssl w \<and>
    ((\<forall>c x. ctxs w c = Some x \<longrightarrow> sc_data x = None) \<longrightarrow> datas w = Map.empty \<and> ssls w = Map.empty)"
proof -
  obtain w where w: "r = Inr w" "loop_inv wd_ssl w"
    using wsrv.reach_safe [OF assms [unfolded wolf_server_step_def] wolf_server_start_ok] by blast
  then show ?thesis using wsrv.loop_net [OF w(2)] loop_inv_empty [OF w(2)] by blast
qed

definition sample_wolf_new :: "sample_state wolf_new" where
  "sample_wolf_new = \<lparr>wn_mem = True, wn_ssl = Some ([[65, 66]], [], 1), wn_fd = True, wn_addr = ''10.0.0.1:4000''\<rparr>"

theorem wolf_server_safe_witness:
  "\<exists>w. wolf_on_connect sample_wolf_new 8 ((arrive (wolf_server_start 7))
      \<lparr>ctxs := (ctxs (arrive (wolf_server_start 7)))(8 \<mapsto> new_ctx\<lparr>sc_open := True\<rparr>)\<rparr>) = Inr w \<and> net_inv wd_ssl w"
proof -
  let ?step = "wolf_server_step sample_tls" and ?w = "arrive (wolf_server_start 7)"
  have env: "wolf_env sample_wolf_new = sample_wolf_new" by (simp add: wolf_env_def sample_wolf_new_def)
  have "net_reach ?step (wolf_server_start 7) (Inr ?w)"
    by (rule reach_step [OF reach_start]) (simp add: wolf_server_step_def step_arrive)
  moreover have "?step ?w (wolf_on_connect (wolf_env sample_wolf_new) 8 (?w\<lparr>ctxs := (ctxs ?w)(8 \<mapsto> new_ctx\<lparr>sc_open := True\<rparr>)\<rparr>))"
    using step_open [of ?w 8 new_ctx _ "\<lambda>e. wolf_on_connect (wolf_env (fst (e :: sample_state wolf_new \<times> nat)))" _ _ _ "(sample_wolf_new, 0)"]
    by (auto simp: wolf_server_step_def arrive_def wolf_server_start_def new_ctx_def)
  ultimately have "net_reach ?step (wolf_server_start 7)
      (wolf_on_connect sample_wolf_new 8 (?w\<lparr>ctxs := (ctxs ?w)(8 \<mapsto> new_ctx\<lparr>sc_open := True\<rparr>)\<rparr>))"
    unfolding env by (rule reach_step)
  from wolf_server_safe [OF this] show ?thesis by blast
qed

text \<open>
  The wolfSSL client, while its threads can be started, always has exactly one connection or one thread that
  tries to get one, and the context that its timer writes to is open. Its event loop is never told to end.
\<close>

theorem wolf_client_reconnects:
  assumes "net_reach (wolf_client_step L good) (wolf_client_start argv) r"
  shows "\<exists>w. r = Inr w \<and> net_inv wd_ssl w \<and> \<not> exiting w \<and> (\<forall>c. cd_ctx w = Some c \<longrightarrow> c \<in> opened w) \<and>
    ((\<forall>e. good e \<longrightarrow> we_thread e) \<longrightarrow> length (workers w) + card (alive w) = 1)"
proof -
  note step = assms [unfolded wolf_client_step_def]
  obtain w where w: "r = Inr w" "client_inv wd_ssl True (\<forall>e. good e \<longrightarrow> we_thread e) w"
    using wcli.client_reach [OF step wolf_client_start_ok [of "\<forall>e. good e \<longrightarrow> we_thread e"]] by blast
  have "exiting w = exiting (wolf_client_start argv :: 'a wnet)"
    by (rule wcli.client_stays [OF step wolf_client_start_ok _ w(1)])
      (auto simp: wolf_client_on_close_def run_conn_thread_def log_line_def split: if_splits)
  then have "\<not> exiting w" by (simp add: wolf_client_start_def run_conn_thread_def wolf_idle_def)
  then show ?thesis using w wcli.loop_net by (auto simp: client_inv_def)
qed

theorem wolf_client_reconnects_witness:
  "\<exists>w. wolf_conn_thread_step (True, True) 0 (wolf_client_start [''client'', ''a.example'', ''10102''] :: sample_state wnet) = Inr w \<and>
    length (workers w) + card (alive w) = 1"
proof -
  let ?w = "wolf_client_start [''client'', ''a.example'', ''10102''] :: sample_state wnet"
  have "wolf_client_step sample_tls we_thread ?w (wolf_conn_thread_step (True, True) 0 ?w)"
    unfolding wolf_client_step_def
    by (rule client_thread) (simp_all add: wolf_client_start_def run_conn_thread_def wolf_idle_def)
  then have "net_reach (wolf_client_step sample_tls we_thread) ?w (wolf_conn_thread_step (True, True) 0 ?w)"
    by (rule reach_step [OF reach_start])
  from wolf_client_reconnects [OF this] show ?thesis by auto
qed

end
