(* ===== verification/Spec2Isabelle.thy ===== *)
theory Spec2Isabelle
  imports Sniffer DemoTalk IoThreads ProtoCodec HugePage FooLog Shm VarSerialize Animation DaoMapper MemoryPool ListPoolIndex Matrix BootRecord Zlib Evp CmdUtils ObjectCodec Peer PeerClients BevServers TcpNData EventLoop Wakeup Totp
    SslConversation WolfSessions
begin

text \<open>
  Verification of the C programs of the repository.

  The repository is a collection of small programs: experiments under src/play and uses of libraries
  under src/use. This development models the ones that have logic of their own, one theory or group
  of theories per program, and proves what makes them correct. The programs do not call each other;
  they share the C language and habits of their author, which is what \<open>Prelude\<close> holds.

  \<^bold>\<open>Conventions.\<close> A C struct is a record, a tagged union a datatype, an unsigned integer a word or a
  natural with its wrap-around written out (\<open>uadd\<close>, \<open>usub\<close>, \<open>umul\<close>, \<open>to_int\<close>). Memory faults are values
  of \<open>c_error\<close> and computations that may fault have type \<open>'a result\<close>, sequenced by \<open>rbind\<close>; so a theorem
  with a result \<open>Inr\<close> also says that the code does not read or write out of bounds, use freed memory or
  loop for ever. Libraries that are not part of the repository (the muggle C library, libpcap, the
  kernel's file descriptors) are arguments: a record of functions together with a predicate that
  states what the code relies on. The host is little-endian with the usual ABI.

  \<^bold>\<open>Packet analysis (src/play/c/pfpa).\<close>
  \<^item> \<open>MurmurHash\<close>: pfpa_murmurhash3.c, the hash of the tables; it equals a hash that reads its key from
    front to back.
  \<^item> \<open>Pfpa_Context\<close>: pfpa_struct.h and pfpa_context.c, the analysis context with its filter table, its
    session dictionary and the heap of sessions. The hash tables of the muggle library are the
    parameter \<open>pfpa_env\<close>. Shown: which packets a filter lets pass, that the comparison and hash
    callbacks fit together, and that destroying a context frees its sessions.
  \<^item> \<open>Pfpa_Tcp\<close>: pfpa_tcp_handle.c, the tracking of TCP connections; the callback of the application is
    the locale \<open>tcp_callback\<close>. \<open>Pfpa_Sessions\<close> states what tracking means for one connection, shows
    that the handler refines it, characterises the packets on which it faults, and shows that streams
    are followed and closed connections removed.
  \<^item> \<open>Pfpa_Pcap\<close>: pfpa_pcap_handle.c and pfpa_udp_handle.c, from a captured frame to the handlers, with
    every load checked against the captured length.
  \<^item> \<open>Pfpa_Apps\<close>: the callbacks of apps/str and apps/tgw, \<open>Pfpa_Main\<close>: the three command line programs;
    both interpret the locale \<open>packet_callbacks\<close>. Loops over the byte buffer have as fuel the number
    of bytes they consume at least one of in each round.
  \<^item> \<open>Pfpa_Examples\<close>: concrete packets that satisfy the hypotheses of the theorems.

  \<^bold>\<open>Memory pool (src/play/cpp/try/src/memory_pool.c).\<close> \<open>MemoryPool\<close> models the growing ring of free
  blocks. Its contract as a queue of blocks is the locale \<open>block_queue\<close>; in every state that clients
  can reach (\<open>pool_reach\<close>) an allocation returns a block nobody holds. Two theorems show where growing
  the pool breaks this.

  \<^bold>\<open>List pools (src/play/cpp/try/inc/list_memory_pool.h and list_memory_pool_use_index.h).\<close> \<open>ListPool\<close> models both pools, a ring
  of free blocks and a doubly linked list of used ones, linked by pointers or by indices; \<open>ListPoolLinks\<close> holds lists and
  rings (locale \<open>list_nodes\<close>), \<open>ListPoolPtr\<close> the operations of the pool with pointers, with the two loops that move the list to
  a larger buffer as the locale \<open>correcting_loop\<close>. \<open>ListPoolSpec\<close> says what a pool promises, as the locale \<open>list_pool_impl\<close>, and
  \<open>ListPoolIndex\<close> shows that the pool with indices simulates the other. So both refine one specification, except that
  the one with indices cannot grow on 64-bit machines. The loops over the list have one more than the number of blocks as fuel, the
  longest a list without repetition can be.

  \<^bold>\<open>Matrices (src/play/c/use_simd).\<close> \<open>Matrix\<close> models the scalar, SSE4, AVX2 and NEON routines for 4x4 matrices on memory with
  alignment, and the program that times them; the arithmetic of floats is an argument. The contract of a routine is the
  locale \<open>matrix_op\<close>. Each routine stores sums or products of entries in a fixed order of rounded operations; the products of
  SSE4 and AVX2 are the scalar ones where rounding allows, and the NEON product is wrong.

  \<^bold>\<open>Huge pages (src/play/c/hugepage_test).\<close> \<open>HugePage\<close> models the experiment on four sources of memory, down to the bytes: its arrays lie
  inside the memory it asks for, what it copies arrives, and what it took is given back, but for transparent huge pages.

  \<^bold>\<open>Program template (src/play/c/c_template).\<close> \<open>FooLog\<close> models the command line, the set-up of a log over either of two libraries and the
  program; both builds log the same lines to the same places, but differ when the log file cannot be opened.

  \<^bold>\<open>Shared memory (src/play/c/shm/unix/example).\<close> \<open>Shm\<close> models the eight programs on segments of System V and of POSIX; the locale \<open>shm_family\<close> is what the
  writer, the reader and the remover of a family promise, from which follows that any sequence of runs behaves like a board with the last time on it.

  \<^bold>\<open>Serialization (src/play/cpp/template_meta/example/serialize).\<close> \<open>VarSerialize\<close> models the overloads that append tagged values to a buffer: what is stored, when a
  value is refused, and an array that is stored beyond the end.

  \<^bold>\<open>Messages on the terminal (src/use/c/use_ansi_escape_code/example: case06_show_msg, case07_animation_msg).\<close> \<open>Animation\<close> models the drawn and the moving message
  in 16-bit arithmetic: how far the moving one moves in a round, and that it turns at the edges of the window.

  \<^bold>\<open>Data mapper (src/use/c/use_mysqlclient/example/example10_dao_mapper, the same as in use_mariadb_connector_c).\<close> \<open>DaoMapper\<close> models the insertion and the query of
  users through prepared statements, over the database as an argument with the laws \<open>sql_laws\<close>: what was inserted is found, and statements are closed.

  \<^bold>\<open>Boot records (src/play/c/read_boot_info/example/read_mbr).\<close> \<open>BootRecord\<close> models the program that prints the partition
  table of a disk, from the system calls to the text; the text shows what a standard table holds, but for the cylinders.

  \<^bold>\<open>Compression (src/use/c/use_zlib/example).\<close> \<open>Zlib\<close> models gz.c and deflate_inflate.c over zlib as an argument: files and
  messages come back, and streams are closed, while a file that is its own output is lost. The loop that compresses has one more than the bytes of the file as fuel, since every round
  takes at least one; the fuel of the loop that decompresses is an argument and more than the bytes to come is enough.

  \<^bold>\<open>Cryptography (src/use/c/use_openssl/example: crypt02_cipher, crypt03_rsa_enc_dec, crypt04_rsa_sign).\<close> \<open>Evp\<close> models the three programs
  with everything they hold, whichever calls of OpenSSL fail: messages come back from their encryption, signatures verify, but an
  unchecked signature counts as good.

  \<^bold>\<open>Packet samples (src/use/c/use-pcap/examples).\<close> \<open>Sniffer\<close> models the seven programs that lead up to pfpa, on what libpcap answers:
  which devices they list, from which they capture, what they print of a frame and what they give back. The frames are those of
  \<open>Pfpa_Pcap\<close>, so that the two readings of a packet can be compared.

  \<^bold>\<open>Object messages (src/use/c/use-libevent_2.1.8/src/common/object.c).\<close> \<open>ObjectCodec\<close> models the
  encoders and decoders; the locale \<open>object_codec\<close> is the contract of an entry of the function table,
  and the round trip of messages follows from it. Two theorems show messages that overflow the
  decoder.

  \<^bold>\<open>Peers (src/use/c/use-libevent_2.1.8/src/common/peer.c and the clients and servers beside it).\<close> \<open>Peer\<close> models the
  life of a connection: the object \<open>Peer\<close>, its bufferevent, sockets and timers are a \<open>world\<close>, in which the
  use of something freed is a fault; outcomes of libevent calls are arguments, and so are the
  calls that the callbacks of an application make. The locale \<open>peer_operation\<close> is the contract every function
  that libevent calls keeps; from its interpretations follows that no sequence of events makes a peer
  fault or leak its connection. \<open>PeerClients\<close> models the clients: that the object client receives the
  objects that were sent, that it goes on trying to connect, and that its read loop ends. The fuel of
  \<open>myReadCb\<close> is one more than the bytes in the input buffer, which every round of a message with a
  length shortens.

  \<^bold>\<open>Threads for peers (common_cpp/peer_io_thread.cpp, common_cpp/base_server.cpp, object_server.cpp beside them).\<close> \<open>IoThreads\<close> models a thread that
  gets its connections through a tunnel of bytes and keeps a set of peers, each a \<open>world\<close> of \<open>Peer\<close>, as a step relation; the server that spreads
  connections over eight of them; and the echo of object messages. The loop over the tunnel and the read callback have one more than the bytes
  that can be read as fuel; every whole task or message shortens them.

  \<^bold>\<open>Servers on bufferevents (echo_server.c, time_server.c, simple_client.c beside the peers).\<close> \<open>BevServers\<close> models both servers with all
  their connections, and the client. The locale \<open>bev_server\<close> is the contract of a server, interpreted for both; the client at the echo server
  is a step relation in which the network delivers what was sent in any pieces.

  \<^bold>\<open>Custom protocol (src/use/cpp/use_mugglecpp/tcp_custom_protocol).\<close> \<open>DemoCodec\<close> models the codec that cuts a byte stream into messages, the
  dispatcher and the session; what stands above a codec keeps the contract of the locale \<open>message_sink\<close>, under which every message of a stream
  is delivered once and in order, whatever the pieces it arrives in. \<open>DemoPeers\<close> models the peers of the two servers and of the client and
  interprets the locale for their dispatchers. \<open>DemoTalk\<close> models the event handlers and puts client and server together: logins succeed and sums
  are right, and a server that has shut a connection down answers nothing any more; users stay with their workers. The loop that fills the buffer has one more than the bytes to be read as fuel, the loop that takes
  messages out one more than the bytes in the buffer; both are enough for messages with a true length, and a theorem shows a header for
  which no fuel is.

  \<^bold>\<open>Protobuf messages (src/use/cross/protobuf/cpp).\<close> \<open>ProtoCodec\<close> models the codec, the handler that gives messages to callbacks and the program
  that sends messages to itself; the protobuf library is an argument. What a reader needs of a codec is the locale \<open>framed_messages\<close>: from it
  follows that a file of messages is read back as it was written. The loop over a file needs as fuel the number of its messages; a theorem
  shows a file for which no fuel is enough.

  \<^bold>\<open>Command lines (src/play/cpp/try/src/cmd_utils.c).\<close> \<open>CmdUtils\<close> models the parser of command lines and its
  test program: it returns on every input, and reads back what was written. \<open>parse_loop\<close> makes at most 66
  rounds, one for the command, one for each of at most 64 options and one to see the end.

  \<^bold>\<open>One-time passwords (src/use/c/use_openssl/example/crypt06_totp).\<close> \<open>Totp\<close> models base32 and the program that
  prints codes; the digest is an argument.

  \<^bold>\<open>Throughput experiment (src/play/c/tcp_n_data).\<close> \<open>TcpNData\<close> models the five ways of sending records
  over a socket, the echo server and the client. Each method satisfies the locale \<open>send_method\<close>; the
  experiment ends however the network cuts the stream. \<open>write_fuel\<close> bounds the retries of
  \<open>block_writev\<close>: each written byte can be preceded by as many retries as the socket may ask for.

  \<^bold>\<open>Event loops (src/play/c/event_loop/example_linux).\<close> \<open>EventLoop\<close> models the loops on \<open>epoll\<close> and
  \<open>select\<close>, with the registration of contexts as the locale \<open>ev_backend\<close>; for the same ready descriptors, in whatever
  order \<open>epoll_wait\<close> reports them, they run the same callbacks once each, and end alike when the callbacks commute. \<open>Wakeup\<close> models the programs that drive them: producers, queue and loop as a
  transition system whose invariant says that no message is forgotten, and the pipe and the eventfd
  as event counters (locale \<open>event_counter\<close>). The walk of the \<open>select\<close> loop has fuel; the sum of the
  contexts at the beginning and those callbacks may add is enough.

  \<^bold>\<open>TLS programs (src/use/c/use_openssl/example/ssl01_echo and src/use/c/use_wolfssl).\<close> \<open>Tls\<close> holds what they share: the
  socket contexts of the muggle event loop, the heaps of the programs, and the TLS library as a record of functions with
  the laws \<open>tls_ok\<close>. The locale \<open>tls_program\<close> is the contract of the callbacks (what opening, a message, closing and
  releasing do to the ownership of objects), from which follows that no sequence of events faults or leaks;
  \<open>Reconnect\<close> extends it to clients that start a thread when their connection is closed. \<open>SslEcho\<close> models
  how the OpenSSL program sets itself up and its command line, \<open>SslSessions\<close> its sessions and callbacks with
  the interpretations for server and client, and \<open>SslConversation\<close> puts both together: the times the client sends come back, and what of them is kept when calls fail.
  \<open>WolfEcho\<close> and \<open>WolfSessions\<close> do the same for the wolfSSL server and client. The loops that read have fuel; one more than
  the bytes that can be read is enough for the OpenSSL program, while the wolfSSL loops do not end when the peer
  has closed. The lists of outcomes of connection attempts are the fuel of the loops that try again.

  \<^bold>\<open>Not modelled.\<close> The programs under src/use that only call a library in sequence (the other samples of databases, ncurses,
  digests of OpenSSL, wolfCrypt, mbedTLS, libxml2, libyaml and others) have no state of their own to verify.
  The false-sharing experiments measure what the hardware does: what they compute is not their result. The stress client of the libevent samples opens and
  frees random numbers of peers with the callbacks of the object client.
  Code in other languages is outside the development.
\<close>

end
